(* ===== verification/Simu_Prelude.thy ===== *)
theory Simu_Prelude
  imports Complex_Main "HOL-Library.Word"
begin

text \<open>
  Shared vocabulary of the development. Every operation of the simulator that can throw is a
  function into \<open>'a cpp\<close>: an exception is a value \<open>Inl e\<close>, a normal return is \<open>Inr x\<close>. An
  uncaught \<open>cRuntimeError\<close> ends the simulation run, so the state of a component after a
  throw is never observed and an error carries no state.

  The theory holds the error type, sequencing of fallible steps (\<open>cpp_bind\<close>), loops over a list
  whose body may throw (\<open>cpp_fold\<close>), the two ways C++ reads a vector, and generic facts about
  them that the component theories use as simplification and introduction rules.
\<close>

section \<open>Errors\<close>

text \<open>
  \<open>Runtime_Error m\<close> is \<open>throw cRuntimeError(m)\<close>, \<open>Out_Of_Range\<close> is the \<open>std::out_of_range\<close> of
  \<open>vector::at\<close>, and \<open>Undefined_Behaviour\<close> marks what the C++ language leaves undefined (a null
  pointer that is followed, \<open>operator[]\<close> past the end of a vector). \<open>Endless_Loop\<close> stands for a loop
  that does not end: it is returned by loops that run on fuel, when the fuel is used up.
\<close>

datatype cpp_error =
    Runtime_Error string
  | Out_Of_Range
  | Undefined_Behaviour
  | Endless_Loop

type_synonym 'a cpp = "cpp_error + 'a"

named_theorems cpp_defs \<open>definitions of the operations of a component, for evaluation\<close>
named_theorems cpp_elims \<open>consequences of a normal return of an operation\<close>

definition cpp_bind :: "'a cpp \<Rightarrow> ('a \<Rightarrow> 'b cpp) \<Rightarrow> 'b cpp" where
  "cpp_bind m f = (case m of Inl e \<Rightarrow> Inl e | Inr x \<Rightarrow> f x)"

lemma cpp_bind_simps [simp]:
  "cpp_bind (Inl e) f = Inl e"
  "cpp_bind (Inr x) f = f x"
  by (simp_all add: cpp_bind_def)

lemma cpp_bind_Inr_iff: "cpp_bind m f = Inr y \<longleftrightarrow> (\<exists>x. m = Inr x \<and> f x = Inr y)"
  by (cases m) auto

lemma cpp_bind_Inl_iff:
  "cpp_bind m f = Inl e \<longleftrightarrow> m = Inl e \<or> (\<exists>x. m = Inr x \<and> f x = Inl e)"
  by (cases m) auto

lemma cpp_bind_cong [fundef_cong]:
  "m = m' \<Longrightarrow> (\<And>x. m' = Inr x \<Longrightarrow> f x = f' x) \<Longrightarrow> cpp_bind m f = cpp_bind m' f'"
  by (cases m') auto

lemma cpp_bindE:
  assumes "cpp_bind m f = Inr y"
  obtains x where "m = Inr x" and "f x = Inr y"
  using assms by (auto simp: cpp_bind_Inr_iff)

text \<open>\<open>cpp_ok m\<close>: the operation returns normally.\<close>

definition cpp_ok :: "'a cpp \<Rightarrow> bool" where
  "cpp_ok m = (case m of Inl _ \<Rightarrow> False | Inr _ \<Rightarrow> True)"

lemma cpp_ok_simps [simp]: "cpp_ok (Inr x)" "\<not> cpp_ok (Inl e)"
  by (simp_all add: cpp_ok_def)

lemma cpp_ok_iff: "cpp_ok m \<longleftrightarrow> (\<exists>x. m = Inr x)"
  by (cases m) auto

section \<open>Reading and writing vectors\<close>

text \<open>\<open>operator[]\<close> (undefined past the end) and \<open>at\<close> (throws past the end).\<close>

definition vec_idx :: "'a list \<Rightarrow> nat \<Rightarrow> 'a cpp" where
  "vec_idx xs i = (if i < length xs then Inr (xs ! i) else Inl Undefined_Behaviour)"

definition vec_at :: "'a list \<Rightarrow> nat \<Rightarrow> 'a cpp" where
  "vec_at xs i = (if i < length xs then Inr (xs ! i) else Inl Out_Of_Range)"

text \<open>Assignment through \<open>at\<close>.\<close>

definition vec_put :: "'a list \<Rightarrow> nat \<Rightarrow> 'a \<Rightarrow> 'a list cpp" where
  "vec_put xs i x = (if i < length xs then Inr (xs[i := x]) else Inl Out_Of_Range)"

lemma vec_put_Inr_iff: "vec_put xs i x = Inr ys \<longleftrightarrow> i < length xs \<and> ys = xs[i := x]"
  by (auto simp: vec_put_def)

lemma vec_put_ok [simp]: "i < length xs \<Longrightarrow> vec_put xs i x = Inr (xs[i := x])"
  by (simp add: vec_put_def)

lemma vec_idx_Inr_iff: "vec_idx xs i = Inr x \<longleftrightarrow> i < length xs \<and> x = xs ! i"
  by (auto simp: vec_idx_def)

lemma vec_at_Inr_iff: "vec_at xs i = Inr x \<longleftrightarrow> i < length xs \<and> x = xs ! i"
  by (auto simp: vec_at_def)

lemma vec_idx_ok [simp]: "i < length xs \<Longrightarrow> vec_idx xs i = Inr (xs ! i)"
  by (simp add: vec_idx_def)

lemma vec_at_ok [simp]: "i < length xs \<Longrightarrow> vec_at xs i = Inr (xs ! i)"
  by (simp add: vec_at_def)

section \<open>Loops whose body may throw\<close>

text \<open>A \<open>for\<close> loop over the elements of a list, the state passed from turn to turn.\<close>

primrec cpp_fold :: "('a \<Rightarrow> 's \<Rightarrow> 's cpp) \<Rightarrow> 'a list \<Rightarrow> 's \<Rightarrow> 's cpp" where
  "cpp_fold f [] s = Inr s"
| "cpp_fold f (x # xs) s = cpp_bind (f x s) (cpp_fold f xs)"

lemma cpp_fold_append: "cpp_fold f (xs @ ys) s = cpp_bind (cpp_fold f xs s) (cpp_fold f ys)"
  by (induction xs arbitrary: s) (auto simp: cpp_bind_def split: sum.splits)

text \<open>Partial correctness: an invariant of the body holds after the loop.\<close>

lemma cpp_fold_invariant:
  assumes "cpp_fold f xs s = Inr t" and "P s"
    and "\<And>x s t. x \<in> set xs \<Longrightarrow> P s \<Longrightarrow> f x s = Inr t \<Longrightarrow> P t"
  shows "P t"
  using assms
proof (induction xs arbitrary: s)
  case Nil
  then show ?case by simp
next
  case (Cons x xs)
  from Cons.prems(1) obtain u where u: "f x s = Inr u" "cpp_fold f xs u = Inr t"
    by (auto elim: cpp_bindE)
  have "P u" using Cons.prems(2,3) u(1) by (meson list.set_intros(1))
  from Cons.IH[OF u(2) this] Cons.prems(3) show ?case by (meson list.set_intros(2))
qed

text \<open>Total correctness: a body that returns whenever the invariant holds never throws.\<close>

lemma cpp_fold_ok:
  assumes "P s"
    and "\<And>x s. x \<in> set xs \<Longrightarrow> P s \<Longrightarrow> \<exists>t. f x s = Inr t \<and> P t"
  shows "\<exists>t. cpp_fold f xs s = Inr t \<and> P t"
  using assms
proof (induction xs arbitrary: s)
  case Nil
  then show ?case by simp
next
  case (Cons x xs)
  obtain u where u: "f x s = Inr u" "P u" using Cons.prems by auto
  then show ?case using Cons.IH[OF u(2)] Cons.prems(2) by auto
qed

section \<open>Lists\<close>

lemma count_filter_update:
  assumes "i < length xs"
  shows "length (filter P (xs[i := x])) + (if P (xs ! i) then 1 else 0)
       = length (filter P xs) + (if P x then 1 else 0)"
  using assms
proof (induction xs arbitrary: i)
  case Nil
  then show ?case by simp
next
  case (Cons y ys)
  then show ?case by (cases i) (auto split: if_splits)
qed

lemma length_filter_all_iff: "length (filter P xs) = length xs \<longleftrightarrow> (\<forall>x \<in> set xs. P x)"
  by (metis filter_True length_filter_less less_irrefl)

lemma set_update_list_all:
  "list_all P xs \<Longrightarrow> P x \<Longrightarrow> list_all P (xs[i := x])"
  by (auto simp: list_all_iff dest: set_update_subset_insert[THEN subsetD])

text \<open>Reading an updated vector at a valid index, wherever the update went.\<close>

lemma nth_update_if: "i < length xs \<Longrightarrow> xs[a := x] ! i = (if i = a then x else xs ! i)"
  by auto

lemma list_all_nth: "list_all P xs \<Longrightarrow> i < length xs \<Longrightarrow> P (xs ! i)"
  by (simp add: list_all_length)

section \<open>Unsigned counters\<close>

text \<open>Small naturals survive the conversion to a word and back.\<close>

lemma of_nat_word_eq_iff:
  assumes "a < 2 ^ LENGTH('l::len)" "b < 2 ^ LENGTH('l)"
  shows "(of_nat a :: 'l word) = of_nat b \<longleftrightarrow> a = b"
  using assms by (metis of_nat_inverse)

section \<open>Simulation time\<close>

text \<open>
  \<open>simtime_t\<close> is a fixed-point number of seconds; times are rational numbers here, so that
  comparisons and sums are exact. The range of the 64-bit representation is not modelled.
  The carrier frequencies (\<open>double\<close>) are only compared and used as keys.
\<close>

type_synonym simtime = rat
type_synonym freq = rat

end
