(* ===== verification/Harq_Packet.thy ===== *)
theory Harq_Packet
  imports Simu_Prelude
begin

text \<open>
  The data the H-ARQ layer works on: the enumerations of \<open>LteCommonEnum.msg\<close>, the MAC PDU of
  \<open>LteMacPdu.h\<close> (a FIFO of SDUs, a list of control elements and a length), the control
  information attached to a packet (the fields of \<open>UserControlInfo\<close> that H-ARQ reads or writes),
  and the effects an H-ARQ entity has on the modules around it.

  An \<open>inet::Packet\<close> of this layer has one chunk, its \<open>LteMacPdu\<close>, and one tag, its
  \<open>UserControlInfo\<close>; \<open>removeAtFront\<close> and \<open>insertAtFront\<close> of the PDU are the update of the
  field \<open>pk_pdu\<close>. Codewords and H-ARQ process identifiers index vectors and are naturals; where
  the code narrows an integer to \<open>unsigned char\<close> the definitions write \<open>mod 256\<close>.
\<close>

section \<open>Enumerations\<close>

datatype direction = DL | UL | D2D | D2D_MULTI | UNKNOWN_DIRECTION

datatype ran_node_type = INTERNET | ENODEB | GNODEB | UE | UNKNOWN_NODE_TYPE

datatype harq_acknowledgment = HARQNACK | HARQACK

datatype tx_harq_pdu_status =
    TXHARQ_PDU_BUFFERED | TXHARQ_PDU_WAITING | TXHARQ_PDU_EMPTY | TXHARQ_PDU_SELECTED

datatype rx_harq_pdu_status =
    RXHARQ_PDU_EMPTY | RXHARQ_PDU_EVALUATING | RXHARQ_PDU_CORRECT | RXHARQ_PDU_CORRUPTED

datatype phy_frame_type =
    DATAPKT | BROADCASTPKT | FEEDBACKPKT | HANDOVERPKT | HARQPKT | GRANTPKT | RACPKT
  | D2DMODESWITCHPKT | UNKNOWN_TYPE

type_synonym codeword = nat
type_synonym cw_list = "codeword list"
type_synonym unit_list = "nat \<times> cw_list"
type_synonym node_id = "16 word"

definition MAX_CODEWORDS :: nat where "MAX_CODEWORDS = 2"

definition HARQ_NONE :: nat where "HARQ_NONE = 255"

lemmas harq_consts = MAX_CODEWORDS_def HARQ_NONE_def

definition is_nodeB :: "ran_node_type \<Rightarrow> bool" where
  "is_nodeB t = (t = ENODEB \<or> t = GNODEB)"

section \<open>MAC PDU\<close>

record mac_sdu =
  sdu_id :: nat
  sdu_byteLength :: int

datatype mac_ce = MacControlElement rat | MacBsr rat int

record mac_pdu =
  mp_id :: int
  mp_macPduId :: int
  mp_headerLength :: int
  mp_macPduLength :: int
  mp_sduList :: "mac_sdu list"
  mp_ceList :: "mac_ce list"

definition mp_getByteLength :: "mac_pdu \<Rightarrow> int" where
  "mp_getByteLength p = mp_macPduLength p + mp_headerLength p"

definition mp_pushSdu :: "mac_sdu \<Rightarrow> mac_pdu \<Rightarrow> mac_pdu" where
  "mp_pushSdu s p = p\<lparr>mp_macPduLength := mp_macPduLength p + sdu_byteLength s,
                     mp_sduList := mp_sduList p @ [s]\<rparr>"

text \<open>\<open>popSdu\<close> and \<open>popCe\<close> are only called after \<open>hasSdu\<close>, \<open>hasCe\<close>.\<close>

definition mp_hasSdu :: "mac_pdu \<Rightarrow> bool" where
  "mp_hasSdu p = (mp_sduList p \<noteq> [])"

definition mp_popSdu :: "mac_pdu \<Rightarrow> (mac_sdu \<times> mac_pdu) cpp" where
  "mp_popSdu p = (case mp_sduList p of
      [] \<Rightarrow> Inl (Runtime_Error ''pop(): Queue empty'')
    | s # ss \<Rightarrow> Inr (s, p\<lparr>mp_macPduLength := mp_macPduLength p - sdu_byteLength s,
                        mp_sduList := ss\<rparr>))"

definition mp_pushCe :: "mac_ce \<Rightarrow> mac_pdu \<Rightarrow> mac_pdu" where
  "mp_pushCe c p = p\<lparr>mp_ceList := mp_ceList p @ [c]\<rparr>"

definition mp_hasCe :: "mac_pdu \<Rightarrow> bool" where
  "mp_hasCe p = (mp_ceList p \<noteq> [])"

definition mp_popCe :: "mac_pdu \<Rightarrow> (mac_ce \<times> mac_pdu) cpp" where
  "mp_popCe p = (case mp_ceList p of
      [] \<Rightarrow> Inl Undefined_Behaviour
    | c # cs \<Rightarrow> Inr (c, p\<lparr>mp_ceList := cs\<rparr>))"

section \<open>Packets and their control information\<close>

record user_control_info =
  uci_sourceId :: node_id
  uci_destId :: node_id
  uci_direction :: direction
  uci_carrierFrequency :: freq
  uci_acid :: nat
  uci_cw :: codeword
  uci_txNumber :: "8 word"
  uci_ndi :: bool
  uci_deciderResult :: bool
  uci_frameType :: phy_frame_type

text \<open>A fresh tag: the defaults of the message definition, zero where it gives none.\<close>

definition user_control_info_new :: user_control_info where
  "user_control_info_new =
     \<lparr>uci_sourceId = 0, uci_destId = 0, uci_direction = DL, uci_carrierFrequency = 0,
      uci_acid = 0, uci_cw = 0, uci_txNumber = 0, uci_ndi = True, uci_deciderResult = False,
      uci_frameType = DATAPKT\<rparr>"

record packet =
  pk_pdu :: mac_pdu
  pk_info :: user_control_info
  pk_creationTime :: simtime

definition pk_getByteLength :: "packet \<Rightarrow> int" where
  "pk_getByteLength p = mp_getByteLength (pk_pdu p)"

record harq_feedback =
  fb_acid :: nat
  fb_cw :: codeword
  fb_result :: bool
  fb_macPduId :: int

section \<open>The modules around an H-ARQ entity\<close>

text \<open>What an H-ARQ entity knows of a MAC module: its node and its parameters.\<close>

record mac_info =
  mi_nodeId :: node_id
  mi_nodeType :: ran_node_type
  mi_cellId :: node_id
  mi_maxHarqRtx :: "32 word"
  mi_harqFbEvaluationTimer :: nat

text \<open>Calls into the MAC modules, in the order the code makes them, with the statistics emitted.\<close>

datatype module_ref = Mac_Owner | Mac_Dst | Node_B

datatype signal_family = Signals_Dl | Signals_Ul | Signals_None

datatype harq_signal =
    HarqErrorRate_Nth nat
  | HarqErrorRate
  | HarqTxAttempts
  | MacPacketLoss
  | MacCellPacketLoss

datatype harq_effect =
    Discard_Mac_Pdu packet
  | Signal_Process_For_Rtx node_id freq direction
  | Emit module_ref signal_family harq_signal nat
  | Record_Harq_Error_Rate module_ref nat direction
  | Send_Lower_Packet packet
  | Insert_Mac_Pdu packet
  | Harq_Ack_To_Flow_Manager packet
  | Send_Lower_Feedback harq_feedback user_control_info
  | Emit_Mac_Delay simtime
  | Emit_Cell_Throughput rat
  | Emit_Throughput module_ref rat

end
