(* ===== verification/Harq_Unit_Tx.thy ===== *)
theory Harq_Unit_Tx
  imports Harq_Packet
begin

text \<open>
  One transmission unit of an H-ARQ process (\<open>LteHarqUnitTx.cc\<close>): the container of one MAC PDU
  and the four-state machine EMPTY, SELECTED, WAITING, BUFFERED that takes it through its
  transmissions. Each operation is one definition, with the code's checks in the code's order.
  The pointer \<open>pdu_\<close> is an option; following a null pointer is \<open>Undefined_Behaviour\<close>.
\<close>

section \<open>State and construction\<close>

record harq_unit_tx =
  hu_pdu :: "packet option"
  hu_pduId :: int
  hu_pduLength :: "int option"  \<comment> \<open>None until the constructor's caller sets it\<close>
  hu_acid :: nat
  hu_cw :: codeword
  hu_transmissions :: "8 word"
  hu_status :: tx_harq_pdu_status
  hu_txTime :: simtime
  hu_macOwner :: mac_info
  hu_dstMac :: mac_info
  hu_nodeB :: "mac_info option"
  hu_maxHarqRtx :: "32 word"
  hu_signals :: signal_family

text \<open>
  \<open>macById\<close> is \<open>getMacByMacNodeId\<close>, which finds the MAC module of a node (null when there is
  none). An eNodeB is its own \<open>nodeB_\<close>; a UE looks its cell up, and registers the uplink
  signals only when the destination is that cell.
\<close>

definition harq_unit_tx_new ::
  "(node_id \<Rightarrow> mac_info option) \<Rightarrow> nat \<Rightarrow> codeword \<Rightarrow> mac_info \<Rightarrow> mac_info \<Rightarrow> harq_unit_tx" where
  "harq_unit_tx_new macById acid cw macOwner dstMac =
     (let nodeB = (if is_nodeB (mi_nodeType macOwner) then Some macOwner
                   else macById (mi_cellId macOwner));
          sigs = (if is_nodeB (mi_nodeType macOwner) then Signals_Dl
                  else if Some dstMac = nodeB then Signals_Ul else Signals_None)
      in \<lparr>hu_pdu = None, hu_pduId = -1, hu_pduLength = None, hu_acid = acid, hu_cw = cw,
          hu_transmissions = 0, hu_status = TXHARQ_PDU_EMPTY, hu_txTime = 0,
          hu_macOwner = macOwner, hu_dstMac = dstMac, hu_nodeB = nodeB,
          hu_maxHarqRtx = mi_maxHarqRtx macOwner, hu_signals = sigs\<rparr>)"

section \<open>Operations\<close>

definition hu_isEmpty :: "harq_unit_tx \<Rightarrow> bool" where
  "hu_isEmpty u = (hu_status u = TXHARQ_PDU_EMPTY)"

definition hu_isReady :: "harq_unit_tx \<Rightarrow> bool" where
  "hu_isReady u = (hu_status u = TXHARQ_PDU_BUFFERED)"

definition hu_isMarked :: "harq_unit_tx \<Rightarrow> bool" where
  "hu_isMarked u = (hu_status u = TXHARQ_PDU_SELECTED)"

definition hu_resetUnit :: "harq_unit_tx \<Rightarrow> harq_unit_tx" where
  "hu_resetUnit u = u\<lparr>hu_transmissions := 0, hu_pduId := -1, hu_pdu := None,
                     hu_status := TXHARQ_PDU_EMPTY, hu_pduLength := Some 0\<rparr>"

definition hu_insertPdu :: "packet option \<Rightarrow> harq_unit_tx \<Rightarrow> harq_unit_tx cpp" where
  "hu_insertPdu pkt u = (case pkt of
      None \<Rightarrow> Inl (Runtime_Error ''Trying to insert NULL macPdu pointer in harq unit'')
    | Some p \<Rightarrow>
        if \<not> hu_isEmpty u then
          Inl (Runtime_Error ''Trying to insert macPdu in already busy harq unit'')
        else
          let p1 = p\<lparr>pk_pdu := (pk_pdu p)\<lparr>mp_macPduId := mp_id (pk_pdu p)\<rparr>\<rparr>;
              info = (pk_info p1)\<lparr>uci_acid := hu_acid u\<rparr>
          in if hu_cw u \<noteq> uci_cw info then Inl (Runtime_Error ''mismatch in cw settings'')
             else Inr (u\<lparr>hu_pdu := Some (p1\<lparr>pk_info := info\<lparr>uci_cw := hu_cw u\<rparr>\<rparr>),
                         hu_pduId := mp_id (pk_pdu p),
                         hu_transmissions := 0,
                         hu_status := TXHARQ_PDU_SELECTED,
                         hu_pduLength := Some (pk_getByteLength p1)\<rparr>))"

definition hu_markSelected :: "harq_unit_tx \<Rightarrow> harq_unit_tx cpp" where
  "hu_markSelected u =
     (if \<not> hu_isReady u then
        Inl (Runtime_Error ''trying to select for transmission an empty buffer'')
      else Inr (u\<lparr>hu_status := TXHARQ_PDU_SELECTED\<rparr>))"

definition hu_extractPdu :: "simtime \<Rightarrow> harq_unit_tx \<Rightarrow> (harq_unit_tx \<times> packet) cpp" where
  "hu_extractPdu now u =
     (if hu_status u \<noteq> TXHARQ_PDU_SELECTED then
        Inl (Runtime_Error ''Trying to extract macPdu from not selected H-ARQ unit'')
      else case hu_pdu u of
        None \<Rightarrow> Inl Undefined_Behaviour
      | Some p \<Rightarrow>
          let t = hu_transmissions u + 1;
              p1 = p\<lparr>pk_info := (pk_info p)\<lparr>uci_txNumber := t, uci_ndi := (t = 1)\<rparr>\<rparr>
          in Inr (u\<lparr>hu_txTime := now, hu_transmissions := t,
                    hu_status := TXHARQ_PDU_WAITING, hu_pdu := Some p1\<rparr>, p1))"

text \<open>
  The part of \<open>pduFeedback\<close> that moves the state machine: the new unit, whether it was reset, the
  statistics sample and the calls into the MAC. A unit gives up when \<open>maxHarqRtx_\<close>
  retransmissions have failed; the comparison is made in \<open>unsigned int\<close>.
\<close>

definition hu_feedbackState ::
  "harq_acknowledgment \<Rightarrow> packet \<Rightarrow> harq_unit_tx \<Rightarrow>
   harq_unit_tx \<times> bool \<times> nat \<times> harq_effect list" where
  "hu_feedbackState a p u = (case a of
      HARQACK \<Rightarrow> (hu_resetUnit u, True, 0, [])
    | HARQNACK \<Rightarrow>
        if (ucast (hu_transmissions u) :: 32 word) = hu_maxHarqRtx u + 1 then
          (hu_resetUnit u, True, 1, [Discard_Mac_Pdu p])
        else
          (u\<lparr>hu_status := TXHARQ_PDU_BUFFERED\<rparr>, False, 1,
           if is_nodeB (mi_nodeType (hu_macOwner u)) then
             [Signal_Process_For_Rtx (uci_destId (pk_info p)) (uci_carrierFrequency (pk_info p))
                (uci_direction (pk_info p))]
           else []))"

text \<open>The statistics part of \<open>pduFeedback\<close>, for the unit's UE \<open>ue\<close> and \<open>ntx\<close> transmissions.\<close>

definition hu_feedbackStats ::
  "harq_acknowledgment \<Rightarrow> module_ref \<Rightarrow> signal_family \<Rightarrow> direction \<Rightarrow> nat \<Rightarrow> nat \<Rightarrow> bool \<Rightarrow>
   harq_effect list" where
  "hu_feedbackStats a ue fam dir ntx sample reset =
     (if ntx \<in> {1, 2, 3, 4} then [Emit ue fam (HarqErrorRate_Nth ntx) sample] else [])
     @ [Emit ue fam HarqErrorRate sample]
     @ (if ntx < 4 then [Record_Harq_Error_Rate ue sample dir]
        else if ntx = 4 then [Record_Harq_Error_Rate ue 0 dir] else [])
     @ (if a = HARQACK then [Emit ue fam HarqTxAttempts ntx] else [])
     @ (if reset then [Emit ue fam MacPacketLoss sample, Emit Node_B fam MacCellPacketLoss sample]
        else [])"

definition hu_pduFeedback ::
  "harq_acknowledgment \<Rightarrow> harq_unit_tx \<Rightarrow> (harq_unit_tx \<times> bool \<times> harq_effect list) cpp" where
  "hu_pduFeedback a u = (case hu_pdu u of
      None \<Rightarrow> Inl Undefined_Behaviour
    | Some p \<Rightarrow>
        let dir = uci_direction (pk_info p); ntx = unat (hu_transmissions u) in
        if hu_status u \<noteq> TXHARQ_PDU_WAITING then
          Inl (Runtime_Error ''Feedback sent to an H-ARQ unit not waiting for it'')
        else
          let (u', reset, sample, effs) = hu_feedbackState a p u in
          if dir \<noteq> DL \<and> dir \<noteq> UL then
            Inl (Runtime_Error ''LteHarqUnitTx::pduFeedback(): unknown direction'')
          else if reset \<and> hu_nodeB u = None then Inl Undefined_Behaviour
          else Inr (u', reset,
                    effs @ hu_feedbackStats a (if dir = DL then Mac_Dst else Mac_Owner)
                             (hu_signals u) dir ntx sample reset))"

definition hu_selfNack ::
  "simtime \<Rightarrow> harq_unit_tx \<Rightarrow> (harq_unit_tx \<times> bool \<times> harq_effect list) cpp" where
  "hu_selfNack now u =
     (if hu_status u = TXHARQ_PDU_WAITING then
        Inl (Runtime_Error ''Trying to send self NACK to a unit waiting for feedback'')
      else if hu_status u \<noteq> TXHARQ_PDU_BUFFERED then
        Inl (Runtime_Error ''Trying to send self NACK to an idle or selected unit'')
      else hu_pduFeedback HARQNACK
             (u\<lparr>hu_transmissions := hu_transmissions u + 1, hu_txTime := now\<rparr>))"

definition hu_dropPdu :: "harq_unit_tx \<Rightarrow> harq_unit_tx cpp" where
  "hu_dropPdu u =
     (if hu_status u \<noteq> TXHARQ_PDU_BUFFERED then
        Inl (Runtime_Error ''H-ARQ TX unit: cannot drop pdu if state is not BUFFERED'')
      else Inr (hu_resetUnit u))"

definition hu_forceDropUnit :: "harq_unit_tx \<Rightarrow> harq_unit_tx" where
  "hu_forceDropUnit u =
     hu_resetUnit
       (if hu_status u \<in> {TXHARQ_PDU_BUFFERED, TXHARQ_PDU_SELECTED, TXHARQ_PDU_WAITING}
        then u\<lparr>hu_pdu := None\<rparr> else u)"

definition hu_getPdu :: "harq_unit_tx \<Rightarrow> packet cpp" where
  "hu_getPdu u = (case hu_pdu u of None \<Rightarrow> Inl Undefined_Behaviour | Some p \<Rightarrow> Inr p)"

text \<open>
  The copy constructor goes through \<open>operator=\<close>, which copies every member read here but \<open>pduLength_\<close>
  (and the signal of the transmission attempts): the copy's length is indeterminate.
\<close>

definition hu_copy :: "harq_unit_tx \<Rightarrow> harq_unit_tx" where
  "hu_copy other = other\<lparr>hu_pduLength := None\<rparr>"

definition hu_getPduLength :: "harq_unit_tx \<Rightarrow> int cpp" where
  "hu_getPduLength u = (case hu_pduLength u of None \<Rightarrow> Inl Undefined_Behaviour | Some n \<Rightarrow> Inr n)"

lemmas hu_status_defs = hu_isEmpty_def hu_isReady_def hu_isMarked_def

lemmas hu_defs [cpp_defs] =
  hu_status_defs hu_resetUnit_def hu_insertPdu_def hu_markSelected_def hu_extractPdu_def
  hu_feedbackState_def hu_pduFeedback_def hu_selfNack_def hu_dropPdu_def hu_forceDropUnit_def
  hu_getPdu_def

section \<open>Well-formed units\<close>

text \<open>
  A unit holds a PDU exactly when it is not EMPTY, the PDU carries the unit's identifiers, and
  the transmission counter stays within the budget of its state. The budget must fit the
  \<open>unsigned char\<close> counter; the shipped configuration has 3 retransmissions.
\<close>

definition hu_budget :: "harq_unit_tx \<Rightarrow> bool" where
  "hu_budget u = (case hu_status u of
      TXHARQ_PDU_EMPTY \<Rightarrow> hu_transmissions u = 0
    | TXHARQ_PDU_SELECTED \<Rightarrow> unat (hu_transmissions u) \<le> unat (hu_maxHarqRtx u)
    | TXHARQ_PDU_WAITING \<Rightarrow> 1 \<le> unat (hu_transmissions u) \<and>
        unat (hu_transmissions u) \<le> unat (hu_maxHarqRtx u) + 1
    | TXHARQ_PDU_BUFFERED \<Rightarrow> 1 \<le> unat (hu_transmissions u) \<and>
        unat (hu_transmissions u) \<le> unat (hu_maxHarqRtx u))"

definition hu_pdu_ok :: "harq_unit_tx \<Rightarrow> bool" where
  "hu_pdu_ok u = (case hu_pdu u of
      None \<Rightarrow> hu_isEmpty u \<and> hu_pduId u = -1
    | Some p \<Rightarrow> \<not> hu_isEmpty u \<and> mp_id (pk_pdu p) = hu_pduId u
        \<and> uci_acid (pk_info p) = hu_acid u \<and> uci_cw (pk_info p) = hu_cw u)"

definition hu_wf :: "harq_unit_tx \<Rightarrow> bool" where
  "hu_wf u = (unat (hu_maxHarqRtx u) < 255 \<and> hu_pdu_ok u \<and> hu_budget u)"

lemmas hu_wf_defs = hu_wf_def hu_pdu_ok_def hu_budget_def

lemma hu_wf_new:
  "unat (mi_maxHarqRtx macOwner) < 255 \<Longrightarrow> hu_wf (harq_unit_tx_new macById acid cw macOwner dst)"
  by (simp add: hu_wf_defs harq_unit_tx_new_def Let_def hu_status_defs)

lemma hu_wf_reset: "hu_wf u \<Longrightarrow> hu_wf (hu_resetUnit u)"
  by (simp add: hu_wf_defs hu_resetUnit_def hu_status_defs)

lemma hu_wf_forceDrop: "hu_wf u \<Longrightarrow> hu_wf (hu_forceDropUnit u)"
  by (simp add: hu_wf_defs hu_forceDropUnit_def hu_resetUnit_def hu_status_defs)

lemma hu_insertPdu_Inr:
  "hu_insertPdu pkt u = Inr u' \<Longrightarrow>
     hu_isEmpty u \<and> hu_isMarked u' \<and> hu_pdu u' \<noteq> None \<and> hu_transmissions u' = 0
     \<and> hu_maxHarqRtx u' = hu_maxHarqRtx u \<and> (hu_wf u \<longrightarrow> hu_wf u')"
  by (auto simp: hu_insertPdu_def hu_wf_defs hu_status_defs Let_def
      split: option.splits if_splits)

lemma hu_markSelected_Inr:
  "hu_markSelected u = Inr u' \<Longrightarrow>
     hu_isReady u \<and> u' = u\<lparr>hu_status := TXHARQ_PDU_SELECTED\<rparr> \<and> (hu_wf u \<longrightarrow> hu_wf u')"
  by (auto simp: hu_markSelected_def hu_wf_defs hu_status_defs split: if_splits option.splits)

lemma uchar_succ: "unat (t :: 8 word) < 255 \<Longrightarrow> unat (t + 1) = Suc (unat t)"
  by (simp add: unat_word_ariths)

text \<open>The retransmission test compares an \<open>unsigned char\<close> with an \<open>unsigned int\<close>.\<close>

lemma rtx_limit_iff:
  assumes "unat (m :: 32 word) < 255"
  shows "(ucast (t :: 8 word) :: 32 word) = m + 1 \<longleftrightarrow> unat t = unat m + 1"
proof -
  have m: "unat (m + 1) = unat m + 1" using assms by (simp add: unat_word_ariths)
  have "unat t < 2 ^ LENGTH(8)" by (rule unsigned_less)
  then have t: "unat (ucast t :: 32 word) = unat t"
    by (simp add: unsigned_ucast_eq take_bit_nat_eq_self)
  from m t show ?thesis by (metis unsigned_word_eqI)
qed

text \<open>Extraction: a copy of the PDU leaves, numbered, and the unit waits for its feedback.\<close>

lemma hu_extractPdu_Inr:
  "hu_extractPdu now u = Inr (u', p) \<Longrightarrow>
     hu_isMarked u \<and> hu_status u' = TXHARQ_PDU_WAITING \<and> hu_pdu u' = Some p
     \<and> hu_transmissions u' = hu_transmissions u + 1
     \<and> uci_txNumber (pk_info p) = hu_transmissions u + 1
     \<and> hu_txTime u' = now \<and> hu_maxHarqRtx u' = hu_maxHarqRtx u"
  by (auto simp: hu_extractPdu_def hu_status_defs Let_def split: option.splits if_splits)

lemma hu_extractPdu_wf:
  assumes "hu_wf u" "hu_extractPdu now u = Inr (u', p)"
  shows "hu_wf u'"
proof -
  have "unat (hu_transmissions u) < 255"
    using assms by (auto simp: hu_wf_defs hu_extractPdu_def split: if_splits)
  then have "unat (hu_transmissions u + 1) = Suc (unat (hu_transmissions u))"
    by (rule uchar_succ)
  with assms show ?thesis
    by (auto simp: hu_wf_defs hu_extractPdu_def hu_status_defs Let_def
        split: option.splits if_splits)
qed

text \<open>What a successful extraction does, as a function of the unit.\<close>

definition hu_number :: "8 word \<Rightarrow> packet \<Rightarrow> packet" where
  "hu_number t p = p\<lparr>pk_info := (pk_info p)\<lparr>uci_txNumber := t, uci_ndi := (t = 1)\<rparr>\<rparr>"

definition hu_sent :: "simtime \<Rightarrow> harq_unit_tx \<Rightarrow> harq_unit_tx" where
  "hu_sent now u = u\<lparr>hu_txTime := now, hu_transmissions := hu_transmissions u + 1,
                     hu_status := TXHARQ_PDU_WAITING,
                     hu_pdu := map_option (hu_number (hu_transmissions u + 1)) (hu_pdu u)\<rparr>"

lemma hu_extractPdu_marked:
  "hu_wf u \<Longrightarrow> hu_isMarked u \<Longrightarrow> hu_extractPdu now u = Inr (hu_sent now u, the (hu_pdu (hu_sent now u)))"
  by (auto simp: hu_extractPdu_def hu_sent_def hu_number_def hu_wf_defs hu_status_defs Let_def
      split: option.splits)

lemma hu_sent_status [simp]: "\<not> hu_isMarked (hu_sent now u)" "hu_status (hu_sent now u) = TXHARQ_PDU_WAITING"
  by (simp_all add: hu_sent_def hu_status_defs)

lemma hu_extractPdu_ok:
  "hu_wf u \<Longrightarrow> hu_isMarked u \<Longrightarrow> \<exists>u' p. hu_extractPdu now u = Inr (u', p)"
  by (auto simp: hu_extractPdu_def hu_wf_defs hu_status_defs Let_def split: option.splits)

text \<open>Feedback: the one place where a unit becomes empty or ready for a retransmission.\<close>

lemma hu_feedbackState_cases:
  assumes "hu_feedbackState a p u = (u', reset, sample, effs)" "unat (hu_maxHarqRtx u) < 255"
  shows "reset \<longleftrightarrow> a = HARQACK \<or> unat (hu_transmissions u) = unat (hu_maxHarqRtx u) + 1"
    and "u' = (if reset then hu_resetUnit u else u\<lparr>hu_status := TXHARQ_PDU_BUFFERED\<rparr>)"
    and "Discard_Mac_Pdu p \<in> set effs \<longleftrightarrow> reset \<and> a = HARQNACK"
  using assms rtx_limit_iff[OF assms(2), of "hu_transmissions u"]
  by (auto simp: hu_feedbackState_def split: harq_acknowledgment.splits if_splits)

lemma hu_pduFeedback_Inr:
  assumes "hu_pduFeedback a u = Inr (u', reset, effs)" "hu_wf u"
  shows "hu_status u = TXHARQ_PDU_WAITING"
    and "reset \<longleftrightarrow> a = HARQACK \<or> unat (hu_transmissions u) = unat (hu_maxHarqRtx u) + 1"
    and "u' = (if reset then hu_resetUnit u else u\<lparr>hu_status := TXHARQ_PDU_BUFFERED\<rparr>)"
    and "hu_wf u'"
proof -
  obtain p where p: "hu_pdu u = Some p" and st: "hu_status u = TXHARQ_PDU_WAITING"
    and fs: "\<exists>sample effs'. hu_feedbackState a p u = (u', reset, sample, effs')"
    using assms(1) unfolding hu_pduFeedback_def
    by (auto simp: Let_def split: option.splits if_splits prod.splits)
  have lim: "unat (hu_maxHarqRtx u) < 255" using assms(2) by (simp add: hu_wf_def)
  obtain sample effs' where fs': "hu_feedbackState a p u = (u', reset, sample, effs')"
    using fs by blast
  note c = hu_feedbackState_cases[OF fs' lim]
  show "hu_status u = TXHARQ_PDU_WAITING" by (rule st)
  show r: "reset \<longleftrightarrow> a = HARQACK \<or> unat (hu_transmissions u) = unat (hu_maxHarqRtx u) + 1"
    by (rule c(1))
  show u': "u' = (if reset then hu_resetUnit u else u\<lparr>hu_status := TXHARQ_PDU_BUFFERED\<rparr>)"
    by (rule c(2))
  show "hu_wf u'"
  proof (cases reset)
    case True
    with u' assms(2) show ?thesis by (simp add: hu_wf_reset)
  next
    case False
    with u' assms(2) st p r show ?thesis
      by (auto simp: hu_wf_defs hu_status_defs)
  qed
qed

text \<open>
  Feedback is accepted whenever the unit waits, the PDU goes uplink or downlink and the cell's
  node exists.
\<close>

lemma hu_pduFeedback_ok:
  assumes "hu_pdu u = Some p" "hu_status u = TXHARQ_PDU_WAITING"
    and "uci_direction (pk_info p) \<in> {DL, UL}" "hu_nodeB u \<noteq> None"
  shows "\<exists>u' reset effs. hu_pduFeedback a u = Inr (u', reset, effs)"
  using assms by (auto simp: hu_pduFeedback_def Let_def split: prod.splits)

text \<open>
  A self-NACK cannot succeed: it is refused in every state but BUFFERED, and in that state it
  calls \<open>pduFeedback\<close>, which is refused in every state but WAITING.
\<close>

lemma hu_selfNack_fails: "\<exists>e. hu_selfNack now u = Inl e"
  by (cases "hu_pdu u") (auto simp: hu_selfNack_def hu_pduFeedback_def Let_def)

lemma hu_dropPdu_Inr:
  "hu_dropPdu u = Inr u' \<Longrightarrow> hu_isReady u \<and> u' = hu_resetUnit u"
  by (auto simp: hu_dropPdu_def hu_status_defs split: if_splits)

end
