(* ===== verification/Harq_Process_Tx.thy ===== *)
theory Harq_Process_Tx
  imports Harq_Unit_Tx
begin

text \<open>
  A transmission H-ARQ process (\<open>LteHarqProcessTx.cc\<close>): one unit per codeword and two counters
  that summarise them. \<open>numEmptyUnits_\<close> is an \<open>unsigned char\<close> and \<open>numSelected_\<close> an
  \<open>unsigned int\<close>; the process counts as empty when the first equals the number of units. The
  invariant proved here is that the counters do count, for every operation but the forced drop
  of a single unit, which counts a unit that was already empty a second time.
\<close>

section \<open>State and construction\<close>

record harq_process_tx =
  hp_acid :: nat
  hp_numHarqUnits :: "8 word"
  hp_units :: "harq_unit_tx list"
  hp_numProcesses :: nat
  hp_numEmptyUnits :: "8 word"
  hp_numSelected :: "32 word"
  hp_dropped :: bool

definition harq_process_tx_new ::
  "(node_id \<Rightarrow> mac_info option) \<Rightarrow> nat \<Rightarrow> nat \<Rightarrow> nat \<Rightarrow> mac_info \<Rightarrow> mac_info \<Rightarrow> harq_process_tx" where
  "harq_process_tx_new macById acid numUnits numProcesses macOwner dstMac =
     \<lparr>hp_acid = acid, hp_numHarqUnits = of_nat numUnits,
      hp_units = map (\<lambda>i. harq_unit_tx_new macById acid i macOwner dstMac) [0..<numUnits],
      hp_numProcesses = numProcesses, hp_numEmptyUnits = of_nat numUnits,
      hp_numSelected = 0, hp_dropped = False\<rparr>"

section \<open>Operations\<close>

text \<open>The loops over the units run to \<open>numHarqUnits_\<close>, the length of the unit vector.\<close>

definition hp_unitIds :: "harq_process_tx \<Rightarrow> (harq_unit_tx \<Rightarrow> bool) \<Rightarrow> cw_list" where
  "hp_unitIds p P = filter (\<lambda>i. P (hp_units p ! i)) [0..<unat (hp_numHarqUnits p)]"

definition hp_readyUnitsIds :: "harq_process_tx \<Rightarrow> cw_list" where
  "hp_readyUnitsIds p = hp_unitIds p hu_isReady"

definition hp_emptyUnitsIds :: "harq_process_tx \<Rightarrow> cw_list" where
  "hp_emptyUnitsIds p = hp_unitIds p hu_isEmpty"

definition hp_selectedUnitsIds :: "harq_process_tx \<Rightarrow> cw_list" where
  "hp_selectedUnitsIds p = hp_unitIds p hu_isMarked"

definition hp_getProcessStatus :: "harq_process_tx \<Rightarrow> (nat \<times> tx_harq_pdu_status) list" where
  "hp_getProcessStatus p =
     map (\<lambda>j. (j, hu_status (hp_units p ! j))) [0..<unat (hp_numHarqUnits p)]"

definition hp_hasReadyUnits :: "harq_process_tx \<Rightarrow> bool" where
  "hp_hasReadyUnits p = list_ex (\<lambda>i. hu_isReady (hp_units p ! i)) [0..<unat (hp_numHarqUnits p)]"

text \<open>The oldest transmission time of a ready unit; one second from now when there is none.\<close>

definition hp_getOldestUnitTxTime :: "simtime \<Rightarrow> harq_process_tx \<Rightarrow> simtime" where
  "hp_getOldestUnitTxTime now p =
     foldl (\<lambda>oldest i. if hu_isReady (hp_units p ! i) \<and> hu_txTime (hp_units p ! i) < oldest
                       then hu_txTime (hp_units p ! i) else oldest)
       (now + 1) [0..<unat (hp_numHarqUnits p)]"

definition hp_isEmpty :: "harq_process_tx \<Rightarrow> bool" where
  "hp_isEmpty p = (hp_numEmptyUnits p = hp_numHarqUnits p)"

definition hp_isHarqProcessActive :: "harq_process_tx \<Rightarrow> bool" where
  "hp_isHarqProcessActive p = list_ex (\<lambda>s. snd s \<noteq> TXHARQ_PDU_EMPTY) (hp_getProcessStatus p)"

definition hp_isUnitEmpty :: "codeword \<Rightarrow> harq_process_tx \<Rightarrow> bool cpp" where
  "hp_isUnitEmpty cw p = cpp_bind (vec_idx (hp_units p) cw) (\<lambda>u. Inr (hu_isEmpty u))"

definition hp_getPdu :: "codeword \<Rightarrow> harq_process_tx \<Rightarrow> packet cpp" where
  "hp_getPdu cw p = cpp_bind (vec_idx (hp_units p) cw) hu_getPdu"

definition hp_getPduId :: "codeword \<Rightarrow> harq_process_tx \<Rightarrow> int cpp" where
  "hp_getPduId cw p = cpp_bind (vec_idx (hp_units p) cw) (\<lambda>u. Inr (hu_pduId u))"

definition hp_isUnitReady :: "codeword \<Rightarrow> harq_process_tx \<Rightarrow> bool cpp" where
  "hp_isUnitReady cw p = cpp_bind (vec_idx (hp_units p) cw) (\<lambda>u. Inr (hu_isReady u))"

definition hp_isUnitMarked :: "codeword \<Rightarrow> harq_process_tx \<Rightarrow> bool cpp" where
  "hp_isUnitMarked cw p = cpp_bind (vec_idx (hp_units p) cw) (\<lambda>u. Inr (hu_isMarked u))"

definition hp_getUnitStatus :: "codeword \<Rightarrow> harq_process_tx \<Rightarrow> tx_harq_pdu_status cpp" where
  "hp_getUnitStatus cw p = cpp_bind (vec_idx (hp_units p) cw) (\<lambda>u. Inr (hu_status u))"

definition hp_getTransmissions :: "codeword \<Rightarrow> harq_process_tx \<Rightarrow> 8 word cpp" where
  "hp_getTransmissions cw p = cpp_bind (vec_idx (hp_units p) cw) (\<lambda>u. Inr (hu_transmissions u))"

definition hp_getPduLength :: "codeword \<Rightarrow> harq_process_tx \<Rightarrow> int cpp" where
  "hp_getPduLength cw p = cpp_bind (vec_idx (hp_units p) cw) hu_getPduLength"

definition hp_getTxTime :: "codeword \<Rightarrow> harq_process_tx \<Rightarrow> simtime cpp" where
  "hp_getTxTime cw p = cpp_bind (vec_idx (hp_units p) cw) (\<lambda>u. Inr (hu_txTime u))"

definition hp_copy :: "harq_process_tx \<Rightarrow> harq_process_tx" where
  "hp_copy other = other\<lparr>hp_units := map hu_copy (hp_units other)\<rparr>"

definition hp_setUnit :: "codeword \<Rightarrow> harq_unit_tx \<Rightarrow> harq_process_tx \<Rightarrow> harq_process_tx" where
  "hp_setUnit cw u p = p\<lparr>hp_units := (hp_units p)[cw := u]\<rparr>"

definition hp_insertPdu :: "packet \<Rightarrow> codeword \<Rightarrow> harq_process_tx \<Rightarrow> harq_process_tx cpp" where
  "hp_insertPdu pkt cw p =
     (let p1 = p\<lparr>hp_numEmptyUnits := hp_numEmptyUnits p - 1, hp_numSelected := hp_numSelected p + 1\<rparr>
      in cpp_bind (vec_idx (hp_units p1) cw) (\<lambda>u.
         cpp_bind (hu_insertPdu (Some pkt) u) (\<lambda>u'.
         Inr ((hp_setUnit cw u' p1)\<lparr>hp_dropped := False\<rparr>))))"

definition hp_markSelected :: "codeword \<Rightarrow> harq_process_tx \<Rightarrow> harq_process_tx cpp" where
  "hp_markSelected cw p =
     (if hp_numSelected p = ucast (hp_numHarqUnits p) then
        Inl (Runtime_Error ''cannot select another unit because they are all already selected'')
      else cpp_bind (vec_idx (hp_units p) cw) (\<lambda>u.
           cpp_bind (hu_markSelected u) (\<lambda>u'.
           Inr (hp_setUnit cw u' (p\<lparr>hp_numSelected := hp_numSelected p + 1\<rparr>)))))"

definition hp_extractPdu ::
  "simtime \<Rightarrow> codeword \<Rightarrow> harq_process_tx \<Rightarrow> (harq_process_tx \<times> packet) cpp" where
  "hp_extractPdu now cw p =
     (if hp_numSelected p = 0 then
        Inl (Runtime_Error ''H-ARQ TX process: cannot extract pdu: numSelected = 0'')
      else cpp_bind (vec_idx (hp_units p) cw) (\<lambda>u.
           cpp_bind (hu_extractPdu now u) (\<lambda>(u', pkt).
           Inr (hp_setUnit cw u' (p\<lparr>hp_numSelected := hp_numSelected p - 1\<rparr>), pkt))))"

text \<open>The common tail of \<open>pduFeedback\<close> and \<open>selfNack\<close>: count the reset, report emptiness.\<close>

definition hp_afterFeedback ::
  "codeword \<Rightarrow> harq_process_tx \<Rightarrow> harq_unit_tx \<times> bool \<times> harq_effect list \<Rightarrow>
   harq_process_tx \<times> bool \<times> harq_effect list" where
  "hp_afterFeedback cw p = (\<lambda>(u', reset, effs).
     let p1 = hp_setUnit cw u' p;
         p2 = (if reset then p1\<lparr>hp_numEmptyUnits := hp_numEmptyUnits p1 + 1\<rparr> else p1)
     in (p2, hp_isEmpty p2, effs))"

definition hp_pduFeedback ::
  "harq_acknowledgment \<Rightarrow> codeword \<Rightarrow> harq_process_tx \<Rightarrow>
   (harq_process_tx \<times> bool \<times> harq_effect list) cpp" where
  "hp_pduFeedback fb cw p =
     cpp_bind (vec_idx (hp_units p) cw) (\<lambda>u.
     cpp_bind (hu_pduFeedback fb u) (\<lambda>r. Inr (hp_afterFeedback cw p r)))"

definition hp_selfNack ::
  "simtime \<Rightarrow> codeword \<Rightarrow> harq_process_tx \<Rightarrow> (harq_process_tx \<times> bool \<times> harq_effect list) cpp" where
  "hp_selfNack now cw p =
     cpp_bind (vec_idx (hp_units p) cw) (\<lambda>u.
     cpp_bind (hu_selfNack now u) (\<lambda>r. Inr (hp_afterFeedback cw p r)))"

definition hp_dropPdu :: "codeword \<Rightarrow> harq_process_tx \<Rightarrow> harq_process_tx cpp" where
  "hp_dropPdu cw p =
     cpp_bind (vec_idx (hp_units p) cw) (\<lambda>u.
     cpp_bind (hu_dropPdu u) (\<lambda>u'.
     Inr ((hp_setUnit cw u' p)\<lparr>hp_numEmptyUnits := hp_numEmptyUnits p + 1\<rparr>)))"

definition hp_forceDropProcess :: "harq_process_tx \<Rightarrow> harq_process_tx" where
  "hp_forceDropProcess p =
     p\<lparr>hp_units := map hu_forceDropUnit (take (unat (hp_numHarqUnits p)) (hp_units p))
                  @ drop (unat (hp_numHarqUnits p)) (hp_units p),
       hp_numEmptyUnits := hp_numHarqUnits p, hp_numSelected := 0, hp_dropped := True\<rparr>"

definition hp_forceDropUnit ::
  "codeword \<Rightarrow> harq_process_tx \<Rightarrow> (harq_process_tx \<times> bool) cpp" where
  "hp_forceDropUnit cw p =
     cpp_bind (vec_idx (hp_units p) cw) (\<lambda>u.
     let p1 = (if hu_isMarked u then p\<lparr>hp_numSelected := hp_numSelected p - 1\<rparr> else p);
         p2 = (hp_setUnit cw (hu_forceDropUnit u) p1)
                \<lparr>hp_numEmptyUnits := hp_numEmptyUnits p1 + 1\<rparr>
     in Inr (p2, hp_isEmpty p2))"

lemmas hp_list_defs =
  hp_unitIds_def hp_readyUnitsIds_def hp_emptyUnitsIds_def hp_selectedUnitsIds_def
  hp_getProcessStatus_def hp_hasReadyUnits_def hp_isHarqProcessActive_def

lemmas hp_defs [cpp_defs] =
  hp_list_defs hp_isEmpty_def hp_setUnit_def hp_insertPdu_def hp_markSelected_def
  hp_extractPdu_def hp_afterFeedback_def hp_pduFeedback_def hp_selfNack_def hp_dropPdu_def
  hp_forceDropProcess_def hp_forceDropUnit_def hp_isUnitEmpty_def hp_getPdu_def hp_getPduId_def

section \<open>The counters count\<close>

definition hp_count :: "(harq_unit_tx \<Rightarrow> bool) \<Rightarrow> harq_process_tx \<Rightarrow> nat" where
  "hp_count P p = length (filter P (hp_units p))"

definition hp_shape :: "harq_process_tx \<Rightarrow> bool" where
  "hp_shape p = (length (hp_units p) = unat (hp_numHarqUnits p) \<and> hp_units p \<noteq> [] \<and>
                 list_all hu_wf (hp_units p))"

definition hp_wf :: "harq_process_tx \<Rightarrow> bool" where
  "hp_wf p = (hp_shape p \<and>
      hp_numEmptyUnits p = of_nat (hp_count hu_isEmpty p) \<and>
      hp_numSelected p = of_nat (hp_count hu_isMarked p))"

lemmas hp_wf_defs = hp_wf_def hp_shape_def hp_count_def

lemma hp_wfD:
  assumes "hp_wf p"
  shows "length (hp_units p) = unat (hp_numHarqUnits p)"
    and "length (hp_units p) < 256" and "list_all hu_wf (hp_units p)"
  using assms unsigned_less[of "hp_numHarqUnits p"] by (auto simp: hp_wf_defs)

text \<open>
  Replacing one unit moves a counter by the difference of the two units: the lemma every
  preservation proof rests on.
\<close>

lemma hp_count_setUnit:
  assumes "cw < length (hp_units p)"
  shows "(of_nat (hp_count P (hp_setUnit cw u p)) :: 'l::len word) =
         of_nat (hp_count P p) + (if P u then 1 else 0) - (if P (hp_units p ! cw) then 1 else 0)"
proof -
  have "hp_count P (hp_setUnit cw u p) + (if P (hp_units p ! cw) then 1 else 0)
      = hp_count P p + (if P u then 1 else 0)"
    using count_filter_update[OF assms, of P u] by (simp add: hp_count_def hp_setUnit_def)
  from arg_cong[OF this, of "of_nat :: nat \<Rightarrow> 'l word"] show ?thesis
    by (auto simp: algebra_simps split: if_splits)
qed

lemma hp_shape_setUnit:
  "hp_shape p \<Longrightarrow> hu_wf u \<Longrightarrow> hp_shape (hp_setUnit cw u p)"
  by (auto simp: hp_shape_def hp_setUnit_def intro: set_update_list_all)

lemma hp_wf_setUnit:
  assumes wf: "hp_wf p" and cw: "cw < length (hp_units p)" and u: "hu_wf u"
    and units: "hp_units p' = (hp_units p)[cw := u]" "hp_numHarqUnits p' = hp_numHarqUnits p"
    and ne: "hp_numEmptyUnits p' = hp_numEmptyUnits p + (if hu_isEmpty u then 1 else 0)
               - (if hu_isEmpty (hp_units p ! cw) then 1 else 0)"
    and ns: "hp_numSelected p' = hp_numSelected p + (if hu_isMarked u then 1 else 0)
               - (if hu_isMarked (hp_units p ! cw) then 1 else 0)"
  shows "hp_wf p'"
proof -
  have c: "hp_count P p' = hp_count P (hp_setUnit cw u p)" for P
    by (simp add: hp_count_def hp_setUnit_def units)
  have "hp_shape p'" using hp_shape_setUnit[of p u cw] wf u units
    by (simp add: hp_wf_def hp_shape_def hp_setUnit_def)
  then show ?thesis
    using wf ne ns by (simp add: hp_wf_def c hp_count_setUnit[OF cw])
qed

lemma hp_wf_new:
  assumes "unat (mi_maxHarqRtx macOwner) < 255" "0 < n" "n < 256"
  shows "hp_wf (harq_process_tx_new macById acid n np macOwner dst)"
proof -
  let ?f = "\<lambda>i. harq_unit_tx_new macById acid i macOwner dst"
  have "filter hu_isEmpty (map ?f [0..<n]) = map ?f [0..<n]"
    "filter hu_isMarked (map ?f [0..<n]) = []"
    by (auto simp: filter_True filter_False harq_unit_tx_new_def hu_status_defs Let_def)
  with assms show ?thesis
    by (auto simp: hp_wf_defs harq_process_tx_new_def list_all_iff hu_wf_new unat_of_nat
        take_bit_nat_eq_self)
qed

section \<open>Every operation keeps the counters right\<close>

lemma hu_status_exclusive:
  "hu_isEmpty u \<Longrightarrow> \<not> hu_isMarked u" "hu_isReady u \<Longrightarrow> \<not> hu_isMarked u \<and> \<not> hu_isEmpty u"
  by (simp_all add: hu_status_defs)

lemma hu_resetUnit_status [simp]:
  "hu_isEmpty (hu_resetUnit u)" "\<not> hu_isMarked (hu_resetUnit u)" "\<not> hu_isReady (hu_resetUnit u)"
  by (simp_all add: hu_status_defs hu_resetUnit_def)

lemma hp_wf_unit: "hp_wf p \<Longrightarrow> i < length (hp_units p) \<Longrightarrow> hu_wf (hp_units p ! i)"
  by (simp add: hp_wfD(3) list_all_nth)

lemma hp_insertPdu_wf:
  assumes "hp_insertPdu pkt cw p = Inr p'" "hp_wf p"
  shows "hp_wf p'"
proof -
  obtain u' where cw: "cw < length (hp_units p)" and u': "hu_insertPdu (Some pkt) (hp_units p ! cw) = Inr u'"
    and p': "p' = (hp_setUnit cw u' (p\<lparr>hp_numEmptyUnits := hp_numEmptyUnits p - 1,
                     hp_numSelected := hp_numSelected p + 1\<rparr>))\<lparr>hp_dropped := False\<rparr>"
    using assms(1) by (auto simp: hp_insertPdu_def cpp_bind_Inr_iff vec_idx_Inr_iff Let_def)
  note i = hu_insertPdu_Inr[OF u']
  have "hu_wf u'" using i hp_wf_unit[OF assms(2) cw] by blast
  from assms(2) cw this show ?thesis
  proof (rule hp_wf_setUnit)
  qed (use i in \<open>auto simp: p' hp_setUnit_def hu_status_defs\<close>)
qed

lemma hp_markSelected_wf:
  assumes "hp_markSelected cw p = Inr p'" "hp_wf p"
  shows "hp_wf p'"
proof -
  obtain u' where cw: "cw < length (hp_units p)" and u': "hu_markSelected (hp_units p ! cw) = Inr u'"
    and p': "p' = hp_setUnit cw u' (p\<lparr>hp_numSelected := hp_numSelected p + 1\<rparr>)"
    using assms(1)
    by (auto simp: hp_markSelected_def cpp_bind_Inr_iff vec_idx_Inr_iff split: if_splits)
  note i = hu_markSelected_Inr[OF u']
  have "hu_wf u'" using i hp_wf_unit[OF assms(2) cw] by blast
  from assms(2) cw this show ?thesis
  proof (rule hp_wf_setUnit)
  qed (use i in \<open>auto simp: p' hp_setUnit_def hu_status_defs\<close>)
qed

lemma hp_extractPdu_wf:
  assumes "hp_extractPdu now cw p = Inr (p', pkt)" "hp_wf p"
  shows "hp_wf p'"
proof -
  obtain u' where cw: "cw < length (hp_units p)"
    and u': "hu_extractPdu now (hp_units p ! cw) = Inr (u', pkt)"
    and p': "p' = hp_setUnit cw u' (p\<lparr>hp_numSelected := hp_numSelected p - 1\<rparr>)"
    using assms(1)
    by (auto simp: hp_extractPdu_def cpp_bind_Inr_iff vec_idx_Inr_iff split: if_splits)
  note i = hu_extractPdu_Inr[OF u']
  have "hu_wf u'" using hu_extractPdu_wf[OF hp_wf_unit[OF assms(2) cw] u'] .
  from assms(2) cw this show ?thesis
  proof (rule hp_wf_setUnit)
  qed (use i in \<open>auto simp: p' hp_setUnit_def hu_status_defs\<close>)
qed

lemma hp_pduFeedback_Inr:
  assumes "hp_pduFeedback fb cw p = Inr (p', em, effs)"
  obtains u' reset where "cw < length (hp_units p)"
    and "hu_pduFeedback fb (hp_units p ! cw) = Inr (u', reset, effs)"
    and "p' = (if reset then (hp_setUnit cw u' p)\<lparr>hp_numEmptyUnits := hp_numEmptyUnits p + 1\<rparr>
               else hp_setUnit cw u' p)"
    and "em = hp_isEmpty p'"
proof -
  obtain u' reset where a: "cw < length (hp_units p)"
    "hu_pduFeedback fb (hp_units p ! cw) = Inr (u', reset, effs)"
    "hp_afterFeedback cw p (u', reset, effs) = (p', em, effs)"
    using assms
    by (auto simp: hp_pduFeedback_def hp_afterFeedback_def cpp_bind_Inr_iff vec_idx_Inr_iff Let_def)
  show thesis
    by (rule that[OF a(1,2)])
      (use a(3) in \<open>auto simp: hp_afterFeedback_def hp_setUnit_def Let_def split: if_splits\<close>)
qed

lemma hp_pduFeedback_wf:
  assumes "hp_pduFeedback fb cw p = Inr (p', em, effs)" "hp_wf p"
  shows "hp_wf p'"
proof -
  obtain u' reset where cw: "cw < length (hp_units p)"
    and u': "hu_pduFeedback fb (hp_units p ! cw) = Inr (u', reset, effs)"
    and p': "p' = (if reset then (hp_setUnit cw u' p)\<lparr>hp_numEmptyUnits := hp_numEmptyUnits p + 1\<rparr>
               else hp_setUnit cw u' p)"
    using assms(1) by (rule hp_pduFeedback_Inr)
  note i = hu_pduFeedback_Inr[OF u' hp_wf_unit[OF assms(2) cw]]
  from assms(2) cw i(4) show ?thesis
  proof (rule hp_wf_setUnit)
  qed (use i(1,3) in \<open>auto simp: p' hp_setUnit_def hu_status_defs hu_resetUnit_def\<close>)
qed

lemma hp_selfNack_fails: "\<exists>e. hp_selfNack now cw p = Inl e"
proof (cases "cw < length (hp_units p)")
  case True
  then show ?thesis using hu_selfNack_fails[of now "hp_units p ! cw"]
    by (auto simp: hp_selfNack_def)
next
  case False
  then show ?thesis by (simp add: hp_selfNack_def vec_idx_def)
qed

lemma hp_dropPdu_wf:
  assumes "hp_dropPdu cw p = Inr p'" "hp_wf p"
  shows "hp_wf p'"
proof -
  obtain u' where cw: "cw < length (hp_units p)" and u': "hu_dropPdu (hp_units p ! cw) = Inr u'"
    and p': "p' = (hp_setUnit cw u' p)\<lparr>hp_numEmptyUnits := hp_numEmptyUnits p + 1\<rparr>"
    using assms(1) by (auto simp: hp_dropPdu_def cpp_bind_Inr_iff vec_idx_Inr_iff)
  note i = hu_dropPdu_Inr[OF u']
  have "hu_wf u'" using i hu_wf_reset[OF hp_wf_unit[OF assms(2) cw]] by simp
  from assms(2) cw this show ?thesis
  proof (rule hp_wf_setUnit)
  qed (use i hu_status_exclusive in \<open>auto simp: p' hp_setUnit_def\<close>)
qed

lemma hu_forceDropUnit_status [simp]:
  "hu_isEmpty (hu_forceDropUnit u)" "\<not> hu_isMarked (hu_forceDropUnit u)"
  by (simp_all add: hu_forceDropUnit_def)

lemma hp_forceDropProcess_wf:
  assumes "hp_wf p"
  shows "hp_wf (hp_forceDropProcess p)"
proof -
  have len: "length (hp_units p) = unat (hp_numHarqUnits p)" using assms by (simp add: hp_wfD)
  have e: "filter hu_isEmpty (map hu_forceDropUnit (hp_units p)) = map hu_forceDropUnit (hp_units p)"
    "filter hu_isMarked (map hu_forceDropUnit (hp_units p)) = []"
    by (auto simp: filter_True filter_False)
  have "list_all hu_wf (map hu_forceDropUnit (hp_units p))"
    using hp_wfD(3)[OF assms] by (auto simp: list_all_iff intro: hu_wf_forceDrop)
  with assms len e show ?thesis
    by (simp add: hp_wf_defs hp_forceDropProcess_def)
qed

text \<open>
  The forced drop of one unit keeps the counters only when the unit was occupied.
\<close>

lemma hp_forceDropUnit_wf:
  assumes "hp_forceDropUnit cw p = Inr (p', e)" "hp_wf p" "\<not> hu_isEmpty (hp_units p ! cw)"
  shows "hp_wf p'"
proof -
  have cw: "cw < length (hp_units p)"
    using assms(1) by (auto simp: hp_forceDropUnit_def cpp_bind_Inr_iff vec_idx_Inr_iff)
  have w: "hu_wf (hu_forceDropUnit (hp_units p ! cw))"
    using hp_wf_unit[OF assms(2) cw] by (rule hu_wf_forceDrop)
  have p': "p' = (hp_setUnit cw (hu_forceDropUnit (hp_units p ! cw))
      (if hu_isMarked (hp_units p ! cw) then p\<lparr>hp_numSelected := hp_numSelected p - 1\<rparr> else p))
      \<lparr>hp_numEmptyUnits := hp_numEmptyUnits p + 1\<rparr>"
    using assms(1) cw by (auto simp: hp_forceDropUnit_def Let_def)
  from assms(2) cw w show ?thesis
  proof (rule hp_wf_setUnit)
  qed (use assms(3) in \<open>auto simp: p' hp_setUnit_def\<close>)
qed

text \<open>On a well-formed process, the emptiness test by counter is emptiness of every unit.\<close>

lemma hp_isEmpty_iff:
  assumes "hp_wf p"
  shows "hp_isEmpty p \<longleftrightarrow> list_all hu_isEmpty (hp_units p)"
proof -
  have le: "hp_count hu_isEmpty p \<le> length (hp_units p)" by (simp add: hp_count_def)
  have "hp_numHarqUnits p = of_nat (length (hp_units p))"
    using hp_wfD(1)[OF assms] by simp
  then have "hp_isEmpty p \<longleftrightarrow> (of_nat (hp_count hu_isEmpty p) :: 8 word) = of_nat (length (hp_units p))"
    using assms by (simp add: hp_isEmpty_def hp_wf_def)
  also have "\<dots> \<longleftrightarrow> hp_count hu_isEmpty p = length (hp_units p)"
    using le hp_wfD(2)[OF assms] by (intro of_nat_word_eq_iff) simp_all
  also have "\<dots> \<longleftrightarrow> list_all hu_isEmpty (hp_units p)"
    by (simp add: hp_count_def length_filter_all_iff list_all_iff)
  finally show ?thesis .
qed

lemma hp_numSelected_zero_iff:
  assumes "hp_wf p"
  shows "hp_numSelected p = 0 \<longleftrightarrow> \<not> list_ex hu_isMarked (hp_units p)"
proof -
  have le: "hp_count hu_isMarked p \<le> length (hp_units p)" by (simp add: hp_count_def)
  have "hp_numSelected p = 0 \<longleftrightarrow> (of_nat (hp_count hu_isMarked p) :: 32 word) = of_nat 0"
    using assms by (simp add: hp_wf_def)
  also have "\<dots> \<longleftrightarrow> hp_count hu_isMarked p = 0"
    using le hp_wfD(2)[OF assms] by (intro of_nat_word_eq_iff) simp_all
  also have "\<dots> \<longleftrightarrow> \<not> list_ex hu_isMarked (hp_units p)"
    by (auto simp: hp_count_def list_ex_iff filter_empty_conv)
  finally show ?thesis .
qed

end
