(* ===== verification/Harq_Buffer_Tx.thy ===== *)
theory Harq_Buffer_Tx
  imports Harq_Process_Tx
begin

text \<open>
  The transmission H-ARQ buffer of one destination (\<open>LteHarqBufferTx.cc\<close>): the vector of
  processes, the process selected in the current TTI (\<open>HARQ_NONE\<close> when there is none) and a
  counter of empty processes. The operations are the calls the MAC makes in a TTI: find a
  process to retransmit or a free one, mark or insert, send the selected units down, and later
  deliver the feedback. The last part is the step relation of these calls and the invariant of
  its reachable states.
\<close>

section \<open>State and construction\<close>

record harq_buffer_tx =
  hb_numProc :: nat
  hb_nodeId :: node_id
  hb_selectedAcid :: nat
  hb_processes :: "harq_process_tx list"
  hb_numEmptyProc :: "32 word"

definition harq_buffer_tx_new ::
  "(node_id \<Rightarrow> mac_info option) \<Rightarrow> nat \<Rightarrow> mac_info \<Rightarrow> mac_info \<Rightarrow> harq_buffer_tx" where
  "harq_buffer_tx_new macById numProc owner dstMac =
     \<lparr>hb_numProc = numProc, hb_nodeId = mi_nodeId dstMac, hb_selectedAcid = HARQ_NONE,
      hb_processes = map (\<lambda>i. harq_process_tx_new macById (i mod 256) MAX_CODEWORDS numProc owner dstMac)
                       [0..<numProc],
      hb_numEmptyProc = of_nat numProc\<rparr>"

definition hb_copy :: "harq_buffer_tx \<Rightarrow> harq_buffer_tx" where
  "hb_copy other = other\<lparr>hb_processes := map hp_copy (hb_processes other)\<rparr>"

definition hb_pduLength :: "nat \<Rightarrow> codeword \<Rightarrow> harq_buffer_tx \<Rightarrow> int cpp" where
  "hb_pduLength acid cw b = cpp_bind (vec_idx (hb_processes b) acid) (hp_getPduLength cw)"

definition hb_setProcess :: "nat \<Rightarrow> harq_process_tx \<Rightarrow> harq_buffer_tx \<Rightarrow> harq_buffer_tx" where
  "hb_setProcess acid p b = b\<lparr>hb_processes := (hb_processes b)[acid := p]\<rparr>"

section \<open>Choosing a process\<close>

text \<open>
  The process whose ready unit waits longest. The loop index is narrowed to the \<open>unsigned char\<close>
  that names a process.
\<close>

definition hb_scanReady :: "simtime \<Rightarrow> harq_process_tx list \<Rightarrow> nat \<Rightarrow> nat \<times> simtime" where
  "hb_scanReady now ps n = foldl (\<lambda>(acid, oldest) i.
             let p = ps ! i in
             if hp_hasReadyUnits p \<and> hp_getOldestUnitTxTime now p < oldest
             then (i mod 256, hp_getOldestUnitTxTime now p) else (acid, oldest))
           (HARQ_NONE, now + 1) [0..<n]"

definition hb_firstReadyForRtx :: "simtime \<Rightarrow> harq_buffer_tx \<Rightarrow> unit_list cpp" where
  "hb_firstReadyForRtx now b =
     (let acid = fst (hb_scanReady now (hb_processes b) (hb_numProc b))
      in if acid \<noteq> HARQ_NONE then
           cpp_bind (vec_idx (hb_processes b) acid) (\<lambda>p. Inr (acid, hp_readyUnitsIds p))
         else Inr (acid, []))"

definition hb_firstAvailable :: "harq_buffer_tx \<Rightarrow> unit_list cpp" where
  "hb_firstAvailable b =
     (let acid = (if hb_selectedAcid b = HARQ_NONE then
                    (case find (\<lambda>i. hp_isEmpty (hb_processes b ! i)) [0..<hb_numProc b] of
                       None \<Rightarrow> HARQ_NONE | Some i \<Rightarrow> i mod 256)
                  else hb_selectedAcid b)
      in if acid \<noteq> HARQ_NONE then
           cpp_bind (vec_idx (hb_processes b) acid) (\<lambda>p. Inr (acid, hp_emptyUnitsIds p))
         else Inr (acid, []))"

definition hb_getEmptyUnits :: "nat \<Rightarrow> harq_buffer_tx \<Rightarrow> unit_list cpp" where
  "hb_getEmptyUnits acid b =
     cpp_bind (vec_idx (hb_processes b) acid) (\<lambda>p. Inr (acid, hp_emptyUnitsIds p))"

section \<open>Selection, with the merge of PDUs into one transport block\<close>

text \<open>The two inner loops of \<open>markSelected\<close>, which move a guest PDU's content to the base PDU.\<close>

function mp_moveSdus :: "mac_pdu \<Rightarrow> mac_pdu \<Rightarrow> (mac_pdu \<times> mac_pdu) cpp" where
  "mp_moveSdus guest base =
     (if mp_hasSdu guest then
        case mp_popSdu guest of
          Inl e \<Rightarrow> Inl e
        | Inr (s, guest') \<Rightarrow> mp_moveSdus guest' (mp_pushSdu s base)
      else Inr (guest, base))"
  by pat_completeness auto
termination
  by (relation "measure (\<lambda>(guest, base). length (mp_sduList guest))")
    (auto simp: mp_popSdu_def mp_hasSdu_def split: list.splits)

function mp_moveCes :: "mac_pdu \<Rightarrow> mac_pdu \<Rightarrow> (mac_pdu \<times> mac_pdu) cpp" where
  "mp_moveCes guest base =
     (if mp_hasCe guest then
        case mp_popCe guest of
          Inl e \<Rightarrow> Inl e
        | Inr (c, guest') \<Rightarrow> mp_moveCes guest' (mp_pushCe c base)
      else Inr (guest, base))"
  by pat_completeness auto
termination
  by (relation "measure (\<lambda>(guest, base). length (mp_ceList guest))")
    (auto simp: mp_popCe_def mp_hasCe_def split: list.splits)

declare mp_moveSdus.simps [simp del] mp_moveCes.simps [simp del]

text \<open>
  The loop over the remaining codewords: each guest unit gives its SDUs and control elements to
  the base PDU and is dropped. The list holds distinct codewords, none of them the base's.
\<close>

fun hb_mergeGuests :: "cw_list \<Rightarrow> mac_pdu \<Rightarrow> harq_process_tx \<Rightarrow> (mac_pdu \<times> harq_process_tx) cpp" where
  "hb_mergeGuests [] base p = Inr (base, p)"
| "hb_mergeGuests (cw # cws) base p =
     cpp_bind (hp_getPdu cw p) (\<lambda>pkt2.
     cpp_bind (mp_moveSdus (pk_pdu pkt2) base) (\<lambda>(guest, base1).
     cpp_bind (mp_moveCes guest base1) (\<lambda>(guest', base2).
     cpp_bind (hp_dropPdu cw p) (\<lambda>p'. hb_mergeGuests cws base2 p'))))"

definition hp_setPdu :: "codeword \<Rightarrow> mac_pdu \<Rightarrow> harq_process_tx \<Rightarrow> harq_process_tx" where
  "hp_setPdu cw pdu p =
     hp_setUnit cw ((hp_units p ! cw)\<lparr>hu_pdu := map_option (\<lambda>k. k\<lparr>pk_pdu := pdu\<rparr>)
                                                  (hu_pdu (hp_units p ! cw))\<rparr>) p"

definition hp_markJumbo :: "cw_list \<Rightarrow> harq_process_tx \<Rightarrow> harq_process_tx cpp" where
  "hp_markJumbo cwList p = (case cwList of
      [] \<Rightarrow> Inl Undefined_Behaviour
    | cw # cws \<Rightarrow>
        cpp_bind (hp_getPdu cw p) (\<lambda>pkt.
        cpp_bind (hb_mergeGuests cws (pk_pdu pkt) p) (\<lambda>(base, p').
        hp_markSelected cw (hp_setPdu cw base p'))))"

definition hb_markSelected :: "unit_list \<Rightarrow> nat \<Rightarrow> harq_buffer_tx \<Rightarrow> harq_buffer_tx cpp" where
  "hb_markSelected unitIds availableTbs b =
     (if length (snd unitIds) = 0 then Inr b
      else if availableTbs = 0 then Inr b
      else let acid = fst unitIds; cwList = snd unitIds in
           cpp_bind (vec_idx (hb_processes b) acid) (\<lambda>p.
           cpp_bind (if length cwList > availableTbs then hp_markJumbo cwList p
                     else cpp_fold hp_markSelected cwList p) (\<lambda>p'.
           Inr ((hb_setProcess acid p' b)\<lparr>hb_selectedAcid := acid\<rparr>))))"

section \<open>Insertion, transmission and feedback\<close>

definition hb_insertPdu ::
  "nat \<Rightarrow> codeword \<Rightarrow> packet \<Rightarrow> harq_buffer_tx \<Rightarrow> (harq_buffer_tx \<times> harq_effect list) cpp" where
  "hb_insertPdu acid cw pkt b =
     cpp_bind (vec_idx (hb_processes b) acid) (\<lambda>p.
     if hb_selectedAcid b = HARQ_NONE \<and> \<not> hp_isEmpty p then
       Inl (Runtime_Error ''new process selected for tx is not completely empty'')
     else
       cpp_bind (hp_isUnitEmpty cw p) (\<lambda>e.
       if \<not> e then Inl (Runtime_Error ''LteHarqBufferTx::insertPdu(): unit is not empty'')
       else
         cpp_bind (hp_insertPdu pkt cw p) (\<lambda>p'.
         cpp_bind (hp_getPdu cw p') (\<lambda>stored.
         Inr ((hb_setProcess acid p' b)\<lparr>hb_selectedAcid := acid,
                                       hb_numEmptyProc := hb_numEmptyProc b - 1\<rparr>,
              [Insert_Mac_Pdu stored])))))"

definition hb_receiveHarqFeedback ::
  "harq_feedback \<Rightarrow> harq_buffer_tx \<Rightarrow> (harq_buffer_tx \<times> harq_effect list) cpp" where
  "hb_receiveHarqFeedback fb b =
     (let harqResult = (if fb_result fb then HARQACK else HARQNACK);
          cw = fb_cw fb; acid = fb_acid fb
      in cpp_bind (vec_idx (hb_processes b) acid) (\<lambda>p.
         cpp_bind (hp_getPduId cw p) (\<lambda>unitPduId.
         if hp_dropped p then Inr (b, [])
         else if fb_macPduId fb \<noteq> unitPduId then
           Inl (Runtime_Error ''H-ARQ TX: fb is not for the pdu in this unit'')
         else
           cpp_bind (if harqResult = HARQACK
                     then cpp_bind (hp_getPdu cw p) (\<lambda>k. Inr [Harq_Ack_To_Flow_Manager k])
                     else Inr []) (\<lambda>ackEff.
           cpp_bind (hp_pduFeedback harqResult cw p) (\<lambda>(p', reset, effs).
           let b1 = hb_setProcess acid p' b;
               b2 = (if reset then b1\<lparr>hb_numEmptyProc := hb_numEmptyProc b1 + 1\<rparr> else b1)
           in Inr (b2, ackEff @ effs))))))"

definition hb_sendSelectedDown ::
  "simtime \<Rightarrow> harq_buffer_tx \<Rightarrow> (harq_buffer_tx \<times> harq_effect list) cpp" where
  "hb_sendSelectedDown now b =
     (if hb_selectedAcid b = HARQ_NONE then Inr (b, [])
      else
        cpp_bind (vec_idx (hb_processes b) (hb_selectedAcid b)) (\<lambda>p.
        cpp_bind (cpp_fold (\<lambda>cw (q, effs).
                    cpp_bind (hp_extractPdu now cw q) (\<lambda>(q', k). Inr (q', effs @ [Send_Lower_Packet k])))
                  (hp_selectedUnitsIds p) (p, [])) (\<lambda>(p', effs).
        Inr ((hb_setProcess (hb_selectedAcid b) p' b)\<lparr>hb_selectedAcid := HARQ_NONE\<rparr>, effs))))"

section \<open>Dropping\<close>

definition hb_dropProcess :: "nat \<Rightarrow> harq_buffer_tx \<Rightarrow> harq_buffer_tx cpp" where
  "hb_dropProcess acid b =
     cpp_bind (vec_idx (hb_processes b) acid) (\<lambda>p.
     cpp_bind (cpp_fold hp_dropPdu (hp_readyUnitsIds p) p) (\<lambda>p'.
     Inr ((hb_setProcess acid p' b)\<lparr>hb_numEmptyProc := hb_numEmptyProc b + 1\<rparr>)))"

definition hb_selfNack ::
  "simtime \<Rightarrow> nat \<Rightarrow> codeword \<Rightarrow> harq_buffer_tx \<Rightarrow> (harq_buffer_tx \<times> harq_effect list) cpp" where
  "hb_selfNack now acid cw b =
     cpp_bind (vec_idx (hb_processes b) acid) (\<lambda>p.
     cpp_bind (cpp_fold (\<lambda>i (q, r, effs).
                 cpp_bind (hp_selfNack now i q) (\<lambda>(q', r', effs'). Inr (q', r', effs @ effs')))
               (hp_readyUnitsIds p) (p, False, [])) (\<lambda>(p', reset, effs).
     let b1 = hb_setProcess acid p' b in
     Inr (if reset then b1\<lparr>hb_numEmptyProc := hb_numEmptyProc b1 + 1\<rparr> else b1, effs)))"

definition hb_forceDropProcess :: "nat \<Rightarrow> harq_buffer_tx \<Rightarrow> harq_buffer_tx cpp" where
  "hb_forceDropProcess acid b =
     cpp_bind (vec_idx (hb_processes b) acid) (\<lambda>p.
     Inr ((hb_setProcess acid (hp_forceDropProcess p) b)
            \<lparr>hb_selectedAcid := (if acid = hb_selectedAcid b then HARQ_NONE else hb_selectedAcid b),
             hb_numEmptyProc := hb_numEmptyProc b + 1\<rparr>))"

definition hb_forceDropUnit :: "nat \<Rightarrow> codeword \<Rightarrow> harq_buffer_tx \<Rightarrow> harq_buffer_tx cpp" where
  "hb_forceDropUnit acid cw b =
     cpp_bind (vec_idx (hb_processes b) acid) (\<lambda>p.
     cpp_bind (hp_forceDropUnit cw p) (\<lambda>(p', reset).
     let b1 = hb_setProcess acid p' b in
     Inr (if reset then
            b1\<lparr>hb_selectedAcid := (if acid = hb_selectedAcid b then HARQ_NONE else hb_selectedAcid b),
               hb_numEmptyProc := hb_numEmptyProc b1 + 1\<rparr>
          else b1)))"

section \<open>Queries\<close>

definition hb_getBufferStatus :: "harq_buffer_tx \<Rightarrow> (nat \<times> tx_harq_pdu_status) list list" where
  "hb_getBufferStatus b = map (\<lambda>i. hp_getProcessStatus (hb_processes b ! i)) [0..<hb_numProc b]"

definition hb_getProcess :: "nat \<Rightarrow> harq_buffer_tx \<Rightarrow> harq_process_tx cpp" where
  "hb_getProcess acid b = (case vec_at (hb_processes b) acid of
      Inl e \<Rightarrow> Inl (Runtime_Error ''LteHarqBufferTx::getProcess(): acid out of bounds'')
    | Inr p \<Rightarrow> Inr p)"

definition hb_getSelectedProcess :: "harq_buffer_tx \<Rightarrow> harq_process_tx cpp" where
  "hb_getSelectedProcess b = hb_getProcess (hb_selectedAcid b) b"

definition hb_isHarqBufferActive :: "harq_buffer_tx \<Rightarrow> bool" where
  "hb_isHarqBufferActive b = list_ex hp_isHarqProcessActive (hb_processes b)"

fun hb_isInUnitList :: "nat \<Rightarrow> codeword \<Rightarrow> unit_list \<Rightarrow> bool" where
  "hb_isInUnitList acid cw (a, cws) = (if acid \<noteq> a then False else list_ex (\<lambda>c. cw = c) cws)"

lemmas hb_defs [cpp_defs] =
  hb_setProcess_def hb_firstReadyForRtx_def hb_firstAvailable_def hb_getEmptyUnits_def
  hp_setPdu_def hp_markJumbo_def hb_markSelected_def hb_insertPdu_def hb_receiveHarqFeedback_def
  hb_sendSelectedDown_def hb_dropProcess_def hb_selfNack_def hb_forceDropProcess_def
  hb_forceDropUnit_def

section \<open>Well-formed buffers\<close>

text \<open>
  The vector of processes has \<open>numProc_\<close> entries, each well formed, and the selected process is
  one of them. The process count must leave the value \<open>HARQ_NONE\<close> free; LTE uses 8.
\<close>

definition hb_wf :: "harq_buffer_tx \<Rightarrow> bool" where
  "hb_wf b = (length (hb_processes b) = hb_numProc b \<and> hb_numProc b < HARQ_NONE \<and>
              list_all hp_wf (hb_processes b) \<and>
              (hb_selectedAcid b = HARQ_NONE \<or> hb_selectedAcid b < hb_numProc b))"

lemma hb_wf_new:
  "unat (mi_maxHarqRtx owner) < 255 \<Longrightarrow> numProc < HARQ_NONE \<Longrightarrow>
   hb_wf (harq_buffer_tx_new macById numProc owner dst)"
  by (auto simp: hb_wf_def harq_buffer_tx_new_def list_all_iff hp_wf_new harq_consts)

lemma hb_wf_process: "hb_wf b \<Longrightarrow> i < length (hb_processes b) \<Longrightarrow> hp_wf (hb_processes b ! i)"
  by (simp add: hb_wf_def list_all_nth)

text \<open>All operations replace one process, and possibly change the selection.\<close>

lemma hb_wf_replace:
  assumes "hb_wf b" "acid < length (hb_processes b)" "hp_wf p"
    and "hb_processes b' = (hb_processes b)[acid := p]" "hb_numProc b' = hb_numProc b"
    and "hb_selectedAcid b' \<in> {HARQ_NONE, acid, hb_selectedAcid b}"
  shows "hb_wf b'"
  using assms by (auto simp: hb_wf_def intro: set_update_list_all)

section \<open>The merge conserves the content of the PDUs\<close>

lemma mp_moveSdus_eq:
  "mp_moveSdus guest base = Inr
     (guest\<lparr>mp_macPduLength := mp_macPduLength guest - sum_list (map sdu_byteLength (mp_sduList guest)),
            mp_sduList := []\<rparr>,
      base\<lparr>mp_macPduLength := mp_macPduLength base + sum_list (map sdu_byteLength (mp_sduList guest)),
           mp_sduList := mp_sduList base @ mp_sduList guest\<rparr>)"
proof (induction guest base rule: mp_moveSdus.induct)
  case (1 guest base)
  show ?case
  proof (cases "mp_sduList guest")
    case Nil
    then show ?thesis by (subst mp_moveSdus.simps) (simp add: mp_hasSdu_def)
  next
    case (Cons s ss)
    then have "mp_hasSdu guest" "mp_popSdu guest = Inr (s, guest\<lparr>mp_macPduLength :=
        mp_macPduLength guest - sdu_byteLength s, mp_sduList := ss\<rparr>)"
      by (simp_all add: mp_hasSdu_def mp_popSdu_def)
    with 1[OF this] Cons show ?thesis
      by (subst mp_moveSdus.simps) (simp add: mp_pushSdu_def algebra_simps)
  qed
qed

lemma mp_moveCes_eq:
  "mp_moveCes guest base =
     Inr (guest\<lparr>mp_ceList := []\<rparr>, base\<lparr>mp_ceList := mp_ceList base @ mp_ceList guest\<rparr>)"
proof (induction guest base rule: mp_moveCes.induct)
  case (1 guest base)
  show ?case
  proof (cases "mp_ceList guest")
    case Nil
    then show ?thesis by (subst mp_moveCes.simps) (simp add: mp_hasCe_def)
  next
    case (Cons c cs)
    then have "mp_hasCe guest" "mp_popCe guest = Inr (c, guest\<lparr>mp_ceList := cs\<rparr>)"
      by (simp_all add: mp_hasCe_def mp_popCe_def)
    with 1[OF this] Cons show ?thesis
      by (subst mp_moveCes.simps) (simp add: mp_pushCe_def)
  qed
qed

text \<open>The SDUs and control elements of the PDU a unit holds.\<close>

definition hp_sdus :: "harq_process_tx \<Rightarrow> codeword \<Rightarrow> mac_sdu list" where
  "hp_sdus p cw = (case hu_pdu (hp_units p ! cw) of None \<Rightarrow> [] | Some k \<Rightarrow> mp_sduList (pk_pdu k))"

definition hp_ces :: "harq_process_tx \<Rightarrow> codeword \<Rightarrow> mac_ce list" where
  "hp_ces p cw = (case hu_pdu (hp_units p ! cw) of None \<Rightarrow> [] | Some k \<Rightarrow> mp_ceList (pk_pdu k))"

lemma hp_getPdu_Inr:
  "hp_getPdu cw p = Inr k \<longleftrightarrow> cw < length (hp_units p) \<and> hu_pdu (hp_units p ! cw) = Some k"
  by (auto simp: hp_getPdu_def hu_getPdu_def cpp_bind_Inr_iff vec_idx_Inr_iff split: option.splits)

lemma hp_dropPdu_Inr:
  "hp_dropPdu cw p = Inr p' \<Longrightarrow>
     cw < length (hp_units p) \<and> hu_isReady (hp_units p ! cw)
     \<and> hp_units p' = (hp_units p)[cw := hu_resetUnit (hp_units p ! cw)]
     \<and> hp_numHarqUnits p' = hp_numHarqUnits p \<and> hp_numSelected p' = hp_numSelected p"
  by (auto simp: hp_dropPdu_def cpp_bind_Inr_iff vec_idx_Inr_iff hp_setUnit_def
      dest: hu_dropPdu_Inr)

lemma hb_mergeGuests_Inr:
  assumes "hb_mergeGuests cws base p = Inr (base', p')" "hp_wf p"
  shows "hp_wf p' \<and> length (hp_units p') = length (hp_units p)
    \<and> (\<forall>c \<in> set cws. c < length (hp_units p) \<and> hu_isReady (hp_units p ! c)) \<and> distinct cws
    \<and> (\<forall>i < length (hp_units p). hp_units p' ! i =
         (if i \<in> set cws then hu_resetUnit (hp_units p ! i) else hp_units p ! i))
    \<and> mp_id base' = mp_id base
    \<and> mp_sduList base' = mp_sduList base @ concat (map (hp_sdus p) cws)
    \<and> mp_ceList base' = mp_ceList base @ concat (map (hp_ces p) cws)"
  using assms
proof (induction cws arbitrary: base p)
  case Nil
  then show ?case by simp
next
  case (Cons cw cws)
  obtain k p1 where k: "hp_getPdu cw p = Inr k" and d: "hp_dropPdu cw p = Inr p1"
    and ex: "hb_mergeGuests cws (base\<lparr>mp_macPduLength := mp_macPduLength base
        + sum_list (map sdu_byteLength (mp_sduList (pk_pdu k))),
      mp_sduList := mp_sduList base @ mp_sduList (pk_pdu k),
      mp_ceList := mp_ceList base @ mp_ceList (pk_pdu k)\<rparr>) p1 = Inr (base', p')"
    using Cons.prems(1) by (auto simp: cpp_bind_Inr_iff mp_moveSdus_eq mp_moveCes_eq)
  obtain base1 where b1: "mp_id base1 = mp_id base"
      "mp_sduList base1 = mp_sduList base @ mp_sduList (pk_pdu k)"
      "mp_ceList base1 = mp_ceList base @ mp_ceList (pk_pdu k)"
    and rest: "hb_mergeGuests cws base1 p1 = Inr (base', p')"
    by (rule that[OF _ _ _ ex]) simp_all
  note dp = hp_dropPdu_Inr[OF d]
  have pdu: "hu_pdu (hp_units p ! cw) = Some k" using k by (simp add: hp_getPdu_Inr)
  note IH = Cons.IH[OF rest hp_dropPdu_wf[OF d Cons.prems(2)]]
  have notin: "cw \<notin> set cws"
  proof
    assume "cw \<in> set cws"
    with IH have "hu_isReady (hp_units p1 ! cw)" by blast
    with dp show False by simp
  qed
  have same: "map (hp_sdus p1) cws = map (hp_sdus p) cws" "map (hp_ces p1) cws = map (hp_ces p) cws"
    using notin dp by (auto simp: hp_sdus_def hp_ces_def nth_list_update)
  have hd: "hp_sdus p cw = mp_sduList (pk_pdu k)" "hp_ces p cw = mp_ceList (pk_pdu k)"
    using pdu by (simp_all add: hp_sdus_def hp_ces_def)
  have g: "\<forall>c\<in>set cws. c < length (hp_units p) \<and> hu_isReady (hp_units p ! c)"
    using IH dp notin by (metis length_list_update nth_list_update_neq)
  have u: "\<forall>i<length (hp_units p). hp_units p' ! i =
        (if i \<in> set (cw # cws) then hu_resetUnit (hp_units p ! i) else hp_units p ! i)"
    using IH dp notin by (auto simp: nth_list_update)
  show ?case
    using IH dp notin b1 hd same g u by simp
qed


text \<open>
  The jumbo branch of \<open>markSelected\<close>: the base unit is selected with the content of all the
  listed units, in list order, and the other listed units are emptied.
\<close>

lemma hp_markSelected_Inr:
  "hp_markSelected cw p = Inr p' \<Longrightarrow>
     cw < length (hp_units p) \<and> hu_isReady (hp_units p ! cw)
     \<and> hp_units p' = (hp_units p)[cw := (hp_units p ! cw)\<lparr>hu_status := TXHARQ_PDU_SELECTED\<rparr>]
     \<and> hp_numHarqUnits p' = hp_numHarqUnits p"
  by (auto simp: hp_markSelected_def cpp_bind_Inr_iff vec_idx_Inr_iff hp_setUnit_def
      split: if_splits dest: hu_markSelected_Inr)

lemma hp_setPdu_wf:
  assumes "hp_wf p" "cw < length (hp_units p)" "hu_pdu (hp_units p ! cw) = Some k"
    and "mp_id pdu = mp_id (pk_pdu k)"
  shows "hp_wf (hp_setPdu cw pdu p)"
proof -
  let ?u = "(hp_units p ! cw)\<lparr>hu_pdu := map_option (\<lambda>k. k\<lparr>pk_pdu := pdu\<rparr>) (hu_pdu (hp_units p ! cw))\<rparr>"
  have "hu_wf ?u" using hp_wf_unit[OF assms(1,2)] assms(3,4)
    by (cases "hu_status (hp_units p ! cw)") (auto simp: hu_wf_defs hu_status_defs)
  from assms(1,2) this show ?thesis
  proof (rule hp_wf_setUnit)
  qed (auto simp: hp_setPdu_def hp_setUnit_def hu_status_defs)
qed

lemma hp_markJumbo_Inr:
  assumes "hp_markJumbo (cw # cws) p = Inr p'" "hp_wf p"
  shows "hp_wf p' \<and> length (hp_units p') = length (hp_units p) \<and> distinct (cw # cws)
    \<and> (\<forall>c \<in> set (cw # cws). c < length (hp_units p) \<and> hu_isReady (hp_units p ! c))
    \<and> (\<forall>i < length (hp_units p). i \<noteq> cw \<longrightarrow> hp_units p' ! i =
         (if i \<in> set cws then hu_resetUnit (hp_units p ! i) else hp_units p ! i))
    \<and> hu_isMarked (hp_units p' ! cw)
    \<and> hp_sdus p' cw = concat (map (hp_sdus p) (cw # cws))
    \<and> hp_ces p' cw = concat (map (hp_ces p) (cw # cws))"
proof -
  obtain k base p1 where k: "cw < length (hp_units p)" "hu_pdu (hp_units p ! cw) = Some k"
    and m: "hb_mergeGuests cws (pk_pdu k) p = Inr (base, p1)"
    and s: "hp_markSelected cw (hp_setPdu cw base p1) = Inr p'"
    using assms(1) by (auto simp: hp_markJumbo_def cpp_bind_Inr_iff hp_getPdu_Inr)
  note M = hb_mergeGuests_Inr[OF m assms(2)]
  note S = hp_markSelected_Inr[OF s]
  have cw1: "cw < length (hp_units p1)" using M k by simp
  have "hu_isReady (hp_units p1 ! cw)"
    using S cw1 by (simp add: hp_setPdu_def hp_setUnit_def hu_status_defs)
  then have notin: "cw \<notin> set cws" and u1: "hp_units p1 ! cw = hp_units p ! cw"
    using M k(1) by (auto split: if_splits)
  have "hp_wf (hp_setPdu cw base p1)"
    by (rule hp_setPdu_wf[where k = k]) (use M cw1 k u1 in auto)
  with s have wf: "hp_wf p'" by (rule hp_markSelected_wf)
  have u': "hp_units p' = (hp_units p1)[cw := (hp_units p ! cw)
      \<lparr>hu_pdu := Some (k\<lparr>pk_pdu := base\<rparr>), hu_status := TXHARQ_PDU_SELECTED\<rparr>]"
    using S u1 k cw1 by (simp add: hp_setPdu_def hp_setUnit_def)
  have r: "hu_isReady (hp_units p ! cw)" using \<open>hu_isReady (hp_units p1 ! cw)\<close> u1 by simp
  have others: "\<forall>i < length (hp_units p). i \<noteq> cw \<longrightarrow> hp_units p' ! i =
         (if i \<in> set cws then hu_resetUnit (hp_units p ! i) else hp_units p ! i)"
    using M u' by simp
  show ?thesis
    using M wf notin k cw1 r others by (simp add: u' hp_sdus_def hp_ces_def hu_status_defs)
qed

lemma hp_markJumbo_wf: "hp_markJumbo cws p = Inr p' \<Longrightarrow> hp_wf p \<Longrightarrow> hp_wf p'"
  by (cases cws) (auto simp: hp_markJumbo_def[of "[]"] dest: hp_markJumbo_Inr)

section \<open>Every operation keeps the buffer well formed\<close>

lemma hp_markAll_wf:
  "cpp_fold hp_markSelected cws p = Inr p' \<Longrightarrow> hp_wf p \<Longrightarrow> hp_wf p'"
  by (rule cpp_fold_invariant[where P = hp_wf]) (auto dest: hp_markSelected_wf)

lemma hb_markSelected_wf:
  assumes "hb_markSelected us tbs b = Inr b'" "hb_wf b"
  shows "hb_wf b'"
proof (cases "length (snd us) = 0 \<or> tbs = 0")
  case True
  then have "hb_markSelected us tbs b = Inr b" by (auto simp: hb_markSelected_def)
  with assms show ?thesis by simp
next
  case False
  with assms(1) obtain p' where a: "fst us < length (hb_processes b)"
    and p': "(if length (snd us) > tbs then hp_markJumbo (snd us) (hb_processes b ! fst us)
              else cpp_fold hp_markSelected (snd us) (hb_processes b ! fst us)) = Inr p'"
    and b': "b' = (hb_setProcess (fst us) p' b)\<lparr>hb_selectedAcid := fst us\<rparr>"
    by (auto simp: hb_markSelected_def cpp_bind_Inr_iff vec_idx_Inr_iff Let_def)
  have "hp_wf p'" using p' hb_wf_process[OF assms(2) a] hp_markAll_wf hp_markJumbo_wf
    by (auto split: if_splits)
  from assms(2) a this show ?thesis by (rule hb_wf_replace) (simp_all add: b' hb_setProcess_def)
qed

lemma hb_insertPdu_Inr:
  assumes "hb_insertPdu acid cw pkt b = Inr (b', effs)"
  obtains p' where "acid < length (hb_processes b)"
    and "hp_insertPdu pkt cw (hb_processes b ! acid) = Inr p'"
    and "b' = (hb_setProcess acid p' b)\<lparr>hb_selectedAcid := acid, hb_numEmptyProc := hb_numEmptyProc b - 1\<rparr>"
    and "hb_selectedAcid b = HARQ_NONE \<longrightarrow> hp_isEmpty (hb_processes b ! acid)"
  using assms unfolding hb_insertPdu_def
  by (auto simp: cpp_bind_Inr_iff vec_idx_Inr_iff split: if_splits)

lemma hb_insertPdu_selected:
  "hb_insertPdu acid cw pkt b = Inr (b', effs) \<Longrightarrow> hb_selectedAcid b' = acid"
  by (auto elim!: hb_insertPdu_Inr)

lemma hb_insertPdu_wf:
  assumes "hb_insertPdu acid cw pkt b = Inr (b', effs)" "hb_wf b"
  shows "hb_wf b'"
  using assms(1)
proof (rule hb_insertPdu_Inr)
  fix p' assume a: "acid < length (hb_processes b)"
    and p: "hp_insertPdu pkt cw (hb_processes b ! acid) = Inr p'"
    and b': "b' = (hb_setProcess acid p' b)\<lparr>hb_selectedAcid := acid, hb_numEmptyProc := hb_numEmptyProc b - 1\<rparr>"
  have "hp_wf p'" using hp_insertPdu_wf[OF p hb_wf_process[OF assms(2) a]] .
  from assms(2) a this show ?thesis by (rule hb_wf_replace) (simp_all add: b' hb_setProcess_def)
qed

lemma hb_receiveHarqFeedback_Inr:
  assumes "hb_receiveHarqFeedback fb b = Inr (b', effs)"
  shows "fb_acid fb < length (hb_processes b)"
    and "hp_dropped (hb_processes b ! fb_acid fb) \<and> b' = b \<or>
         (\<exists>p' em effs'. hp_pduFeedback (if fb_result fb then HARQACK else HARQNACK) (fb_cw fb)
                  (hb_processes b ! fb_acid fb) = Inr (p', em, effs')
            \<and> hb_processes b' = (hb_processes b)[fb_acid fb := p']
            \<and> hb_numProc b' = hb_numProc b \<and> hb_selectedAcid b' = hb_selectedAcid b)"
  using assms unfolding hb_receiveHarqFeedback_def Let_def
  by (auto simp: cpp_bind_Inr_iff vec_idx_Inr_iff hb_setProcess_def split: if_splits prod.splits)

lemma hb_receiveHarqFeedback_wf:
  assumes "hb_receiveHarqFeedback fb b = Inr (b', effs)" "hb_wf b"
  shows "hb_wf b'"
proof -
  note i = hb_receiveHarqFeedback_Inr[OF assms(1)]
  from i(2) show ?thesis
  proof
    assume "\<exists>p' em effs'. hp_pduFeedback (if fb_result fb then HARQACK else HARQNACK) (fb_cw fb)
                  (hb_processes b ! fb_acid fb) = Inr (p', em, effs')
            \<and> hb_processes b' = (hb_processes b)[fb_acid fb := p']
            \<and> hb_numProc b' = hb_numProc b \<and> hb_selectedAcid b' = hb_selectedAcid b"
    then obtain p' em effs' where p: "hp_pduFeedback (if fb_result fb then HARQACK else HARQNACK)
        (fb_cw fb) (hb_processes b ! fb_acid fb) = Inr (p', em, effs')"
      and b': "hb_processes b' = (hb_processes b)[fb_acid fb := p']"
        "hb_numProc b' = hb_numProc b" "hb_selectedAcid b' = hb_selectedAcid b" by blast
    have "hp_wf p'" using hp_pduFeedback_wf[OF p hb_wf_process[OF assms(2) i(1)]] .
    from assms(2) i(1) this show ?thesis by (rule hb_wf_replace) (simp_all add: b')
  qed (use assms(2) in simp)
qed

text \<open>Sending down: the loop over the selected units of the selected process.\<close>

definition hp_extractAll ::
  "simtime \<Rightarrow> cw_list \<Rightarrow> harq_process_tx \<times> harq_effect list \<Rightarrow>
   (harq_process_tx \<times> harq_effect list) cpp" where
  "hp_extractAll now cws =
     cpp_fold (\<lambda>cw (q, effs). cpp_bind (hp_extractPdu now cw q)
                (\<lambda>(q', k). Inr (q', effs @ [Send_Lower_Packet k]))) cws"

lemma hb_sendSelectedDown_Inr:
  assumes "hb_sendSelectedDown now b = Inr (b', effs)" "hb_selectedAcid b \<noteq> HARQ_NONE"
  obtains p' where "hb_selectedAcid b < length (hb_processes b)"
    and "hp_extractAll now (hp_selectedUnitsIds (hb_processes b ! hb_selectedAcid b))
           (hb_processes b ! hb_selectedAcid b, []) = Inr (p', effs)"
    and "b' = (hb_setProcess (hb_selectedAcid b) p' b)\<lparr>hb_selectedAcid := HARQ_NONE\<rparr>"
  using assms unfolding hb_sendSelectedDown_def hp_extractAll_def
  by (auto simp: cpp_bind_Inr_iff vec_idx_Inr_iff)

lemma hp_extractAll_wf:
  "hp_extractAll now cws (p, effs) = Inr (p', effs') \<Longrightarrow> hp_wf p \<Longrightarrow> hp_wf p'"
  unfolding hp_extractAll_def
  by (drule cpp_fold_invariant[where P = "hp_wf \<circ> fst"])
    (auto simp: cpp_bind_Inr_iff dest: hp_extractPdu_wf)

lemma hb_sendSelectedDown_wf:
  assumes "hb_sendSelectedDown now b = Inr (b', effs)" "hb_wf b"
  shows "hb_wf b'"
proof (cases "hb_selectedAcid b = HARQ_NONE")
  case True
  with assms show ?thesis by (simp add: hb_sendSelectedDown_def)
next
  case False
  from assms(1) False show ?thesis
  proof (rule hb_sendSelectedDown_Inr)
    fix p' assume a: "hb_selectedAcid b < length (hb_processes b)"
      and e: "hp_extractAll now (hp_selectedUnitsIds (hb_processes b ! hb_selectedAcid b))
           (hb_processes b ! hb_selectedAcid b, []) = Inr (p', effs)"
      and b': "b' = (hb_setProcess (hb_selectedAcid b) p' b)\<lparr>hb_selectedAcid := HARQ_NONE\<rparr>"
    have "hp_wf p'" using hp_extractAll_wf[OF e hb_wf_process[OF assms(2) a]] .
    from assms(2) a this show ?thesis by (rule hb_wf_replace) (simp_all add: b' hb_setProcess_def)
  qed
qed

lemma hb_dropProcess_wf:
  assumes "hb_dropProcess acid b = Inr b'" "hb_wf b"
  shows "hb_wf b'"
proof -
  from assms(1) obtain p' where a: "acid < length (hb_processes b)"
    and p': "cpp_fold hp_dropPdu (hp_readyUnitsIds (hb_processes b ! acid)) (hb_processes b ! acid) = Inr p'"
    and b': "b' = (hb_setProcess acid p' b)\<lparr>hb_numEmptyProc := hb_numEmptyProc b + 1\<rparr>"
    by (auto simp: hb_dropProcess_def cpp_bind_Inr_iff vec_idx_Inr_iff)
  have "hp_wf p'"
    by (rule cpp_fold_invariant[where P = hp_wf, OF p' hb_wf_process[OF assms(2) a]])
      (rule hp_dropPdu_wf)
  from assms(2) a this show ?thesis by (rule hb_wf_replace) (simp_all add: b' hb_setProcess_def)
qed

lemma hb_forceDropProcess_wf:
  assumes "hb_forceDropProcess acid b = Inr b'" "hb_wf b"
  shows "hb_wf b'"
proof -
  from assms(1) have a: "acid < length (hb_processes b)"
    by (auto simp: hb_forceDropProcess_def cpp_bind_Inr_iff vec_idx_Inr_iff)
  from assms(2) a hp_forceDropProcess_wf[OF hb_wf_process[OF assms(2) a]] show ?thesis
    by (rule hb_wf_replace)
      (use assms(1) a in \<open>auto simp: hb_forceDropProcess_def hb_setProcess_def split: if_splits\<close>)
qed

lemma hb_forceDropUnit_wf:
  assumes "hb_forceDropUnit acid cw b = Inr b'" "hb_wf b"
    and "\<not> hu_isEmpty (hp_units (hb_processes b ! acid) ! cw)"
  shows "hb_wf b'"
proof -
  from assms(1) obtain p' reset where a: "acid < length (hb_processes b)"
    and p: "hp_forceDropUnit cw (hb_processes b ! acid) = Inr (p', reset)"
    and b': "hb_processes b' = (hb_processes b)[acid := p']" "hb_numProc b' = hb_numProc b"
      "hb_selectedAcid b' \<in> {HARQ_NONE, acid, hb_selectedAcid b}"
    by (auto simp: hb_forceDropUnit_def cpp_bind_Inr_iff vec_idx_Inr_iff hb_setProcess_def Let_def
        split: if_splits)
  have "hp_wf p'" using hp_forceDropUnit_wf[OF p hb_wf_process[OF assms(2) a] assms(3)] .
  from assms(2) a this b' show ?thesis by (rule hb_wf_replace)
qed

section \<open>Sending down never fails and sends exactly the selected units\<close>

lemma hp_extractPdu_ok:
  assumes "hp_wf p" "cw < length (hp_units p)" "hu_isMarked (hp_units p ! cw)"
  shows "\<exists>p'. hp_extractPdu now cw p = Inr (p', the (hu_pdu (hu_sent now (hp_units p ! cw))))
    \<and> hp_wf p' \<and> hp_units p' = (hp_units p)[cw := hu_sent now (hp_units p ! cw)]"
proof -
  have "list_ex hu_isMarked (hp_units p)" using assms(2,3) by (auto simp: list_ex_iff)
  then have "hp_numSelected p \<noteq> 0" using hp_numSelected_zero_iff[OF assms(1)] by simp
  then have e: "hp_extractPdu now cw p =
      Inr (hp_setUnit cw (hu_sent now (hp_units p ! cw)) (p\<lparr>hp_numSelected := hp_numSelected p - 1\<rparr>),
           the (hu_pdu (hu_sent now (hp_units p ! cw))))"
    using assms by (simp add: hp_extractPdu_def hu_extractPdu_marked[OF hp_wf_unit])
  from hp_extractPdu_wf[OF e assms(1)] e show ?thesis by (simp add: hp_setUnit_def)
qed

lemma hp_extractAll_ok:
  assumes "hp_wf p" "distinct cws" "\<forall>c \<in> set cws. c < length (hp_units p) \<and> hu_isMarked (hp_units p ! c)"
  shows "\<exists>p'. hp_extractAll now cws (p, effs) =
           Inr (p', effs @ map (\<lambda>c. Send_Lower_Packet (the (hu_pdu (hu_sent now (hp_units p ! c))))) cws)
      \<and> hp_wf p' \<and> length (hp_units p') = length (hp_units p)
      \<and> (\<forall>i < length (hp_units p). hp_units p' ! i =
            (if i \<in> set cws then hu_sent now (hp_units p ! i) else hp_units p ! i))"
  using assms
proof (induction cws arbitrary: p effs)
  case Nil
  then show ?case by (simp add: hp_extractAll_def)
next
  case (Cons cw cws)
  obtain p1 where p1: "hp_extractPdu now cw p = Inr (p1, the (hu_pdu (hu_sent now (hp_units p ! cw))))"
    "hp_wf p1" "hp_units p1 = (hp_units p)[cw := hu_sent now (hp_units p ! cw)]"
    using hp_extractPdu_ok[of p cw now] Cons.prems by auto
  have m: "\<forall>c\<in>set cws. c < length (hp_units p1) \<and> hu_isMarked (hp_units p1 ! c)"
    using Cons.prems p1(3) by (auto simp: nth_list_update)
  have same: "\<forall>c\<in>set cws. hp_units p1 ! c = hp_units p ! c"
    using Cons.prems p1(3) by (auto simp: nth_list_update)
  obtain p' where p': "hp_extractAll now cws (p1, effs @ [Send_Lower_Packet (the (hu_pdu (hu_sent now (hp_units p ! cw))))]) =
           Inr (p', (effs @ [Send_Lower_Packet (the (hu_pdu (hu_sent now (hp_units p ! cw))))])
                 @ map (\<lambda>c. Send_Lower_Packet (the (hu_pdu (hu_sent now (hp_units p1 ! c))))) cws)"
    and w: "hp_wf p'" "length (hp_units p') = length (hp_units p1)"
    and n: "\<forall>i < length (hp_units p1). hp_units p' ! i =
            (if i \<in> set cws then hu_sent now (hp_units p1 ! i) else hp_units p1 ! i)"
    using Cons.IH[OF p1(2) _ m] Cons.prems(2) by (metis distinct.simps(2))
  have "hp_extractAll now (cw # cws) (p, effs) = hp_extractAll now cws
      (p1, effs @ [Send_Lower_Packet (the (hu_pdu (hu_sent now (hp_units p ! cw))))])"
    by (simp add: hp_extractAll_def p1(1))
  moreover have "map (\<lambda>c. Send_Lower_Packet (the (hu_pdu (hu_sent now (hp_units p1 ! c))))) cws
      = map (\<lambda>c. Send_Lower_Packet (the (hu_pdu (hu_sent now (hp_units p ! c))))) cws"
    using same by simp
  ultimately show ?case
    using p' w n p1(3) Cons.prems(2,3) by (auto simp: nth_update_if)
qed

lemma hp_selectedUnitsIds_set:
  "hp_wf p \<Longrightarrow> set (hp_selectedUnitsIds p) = {c. c < length (hp_units p) \<and> hu_isMarked (hp_units p ! c)}"
  "distinct (hp_selectedUnitsIds p)"
  by (auto simp: hp_selectedUnitsIds_def hp_unitIds_def hp_wfD(1))

lemma hb_sendSelectedDown_ok:
  assumes "hb_wf b" "hb_selectedAcid b \<noteq> HARQ_NONE"
  defines "acid \<equiv> hb_selectedAcid b"
  defines "p \<equiv> hb_processes b ! acid"
  shows "\<exists>p'. hb_sendSelectedDown now b =
      Inr ((hb_setProcess acid p' b)\<lparr>hb_selectedAcid := HARQ_NONE\<rparr>,
           map (\<lambda>c. Send_Lower_Packet (the (hu_pdu (hu_sent now (hp_units p ! c))))) (hp_selectedUnitsIds p))
      \<and> length (hp_units p') = length (hp_units p)
      \<and> (\<forall>i < length (hp_units p). hp_units p' ! i =
            (if hu_isMarked (hp_units p ! i) then hu_sent now (hp_units p ! i) else hp_units p ! i))"
proof -
  have a: "acid < length (hb_processes b)" using assms(1,2) by (auto simp: hb_wf_def acid_def)
  have wf: "hp_wf p" using hb_wf_process[OF assms(1) a] by (simp add: p_def)
  obtain p' where "hp_extractAll now (hp_selectedUnitsIds p) (p, []) =
       Inr (p', [] @ map (\<lambda>c. Send_Lower_Packet (the (hu_pdu (hu_sent now (hp_units p ! c)))))
                   (hp_selectedUnitsIds p))"
    "length (hp_units p') = length (hp_units p)"
    "\<forall>i < length (hp_units p). hp_units p' ! i =
      (if i \<in> set (hp_selectedUnitsIds p) then hu_sent now (hp_units p ! i) else hp_units p ! i)"
    using hp_extractAll_ok[OF wf, of "hp_selectedUnitsIds p" now "[]"] hp_selectedUnitsIds_set[of p] wf
    by auto
  then show ?thesis
    using a assms(2) hp_selectedUnitsIds_set(1)[OF wf]
    by (auto simp: hb_sendSelectedDown_def hp_extractAll_def acid_def p_def)
qed

section \<open>The calls of the MAC as a step relation\<close>

text \<open>
  A TTI of the MAC inserts PDUs into a free process or marks a process for retransmission, sends
  the selection down, and delivers feedback; a D2D mode switch drops whole processes. The MAC
  takes the process of an insertion from \<open>firstAvailable\<close>, which returns the selected process
  when there is one, so insertions and selections of one TTI name one process
  (\<open>hb_sameSelection\<close>). \<open>hb_forceDropUnit\<close> has no caller in the program and is no step.
\<close>

datatype hb_event =
    Insert nat codeword packet
  | Mark unit_list nat
  | Send simtime
  | Feedback harq_feedback
  | Drop_Process nat
  | Force_Drop_Process nat

definition hb_sameSelection :: "nat \<Rightarrow> harq_buffer_tx \<Rightarrow> bool" where
  "hb_sameSelection acid b = (hb_selectedAcid b = HARQ_NONE \<or> hb_selectedAcid b = acid)"

inductive hb_step :: "harq_buffer_tx \<Rightarrow> hb_event \<Rightarrow> harq_effect list \<Rightarrow> harq_buffer_tx \<Rightarrow> bool" where
  insert: "hb_insertPdu acid cw pkt b = Inr (b', effs) \<Longrightarrow> hb_sameSelection acid b \<Longrightarrow>
             hb_step b (Insert acid cw pkt) effs b'"
| mark: "hb_markSelected us tbs b = Inr b' \<Longrightarrow> hb_sameSelection (fst us) b \<Longrightarrow>
             hb_step b (Mark us tbs) [] b'"
| send: "hb_sendSelectedDown now b = Inr (b', effs) \<Longrightarrow> hb_step b (Send now) effs b'"
| feedback: "hb_receiveHarqFeedback fb b = Inr (b', effs) \<Longrightarrow> hb_step b (Feedback fb) effs b'"
| drop: "hb_dropProcess acid b = Inr b' \<Longrightarrow> hb_step b (Drop_Process acid) [] b'"
| forceDrop: "hb_forceDropProcess acid b = Inr b' \<Longrightarrow> hb_step b (Force_Drop_Process acid) [] b'"

inductive_cases hb_insertE: "hb_step b (Insert acid cw pkt) effs b'"
inductive_cases hb_markE: "hb_step b (Mark us tbs) effs b'"
inductive_cases hb_sendE: "hb_step b (Send now) effs b'"
inductive_simps hb_step_simps:
  "hb_step b (Send now) effs b'" "hb_step b (Feedback fb) effs b'"
  "hb_step b (Insert acid cw pkt) effs b'"

inductive hb_reachable :: "harq_buffer_tx \<Rightarrow> harq_buffer_tx \<Rightarrow> bool" for b0 where
  start: "hb_reachable b0 b0"
| step: "hb_reachable b0 b \<Longrightarrow> hb_step b ev effs b' \<Longrightarrow> hb_reachable b0 b'"

lemma hb_step_wf: "hb_step b ev effs b' \<Longrightarrow> hb_wf b \<Longrightarrow> hb_wf b'"
  by (induction rule: hb_step.induct)
    (auto dest: hb_insertPdu_wf hb_markSelected_wf hb_sendSelectedDown_wf hb_receiveHarqFeedback_wf
      hb_dropProcess_wf hb_forceDropProcess_wf)

lemma hb_reachable_wf: "hb_reachable b0 b \<Longrightarrow> hb_wf b0 \<Longrightarrow> hb_wf b"
  by (induction rule: hb_reachable.induct) (auto dest: hb_step_wf)

section \<open>No selected unit is stranded\<close>

text \<open>
  Every SELECTED unit belongs to the selected process: the next \<open>sendSelectedDown\<close> reaches it.
\<close>

definition hp_idle :: "harq_process_tx \<Rightarrow> bool" where
  "hp_idle p = (\<not> list_ex hu_isMarked (hp_units p))"

definition hb_sel_ok :: "harq_buffer_tx \<Rightarrow> bool" where
  "hb_sel_ok b = (\<forall>i < length (hb_processes b). i \<noteq> hb_selectedAcid b \<longrightarrow> hp_idle (hb_processes b ! i))"

lemma hp_idle_setUnit:
  "hp_idle p \<Longrightarrow> \<not> hu_isMarked u \<Longrightarrow> hp_units p' = (hp_units p)[cw := u] \<Longrightarrow> hp_idle p'"
  by (auto simp: hp_idle_def list_ex_iff dest: set_update_subset_insert[THEN subsetD])

lemma hb_sel_ok_select:
  assumes "hb_sel_ok b" "hb_wf b" "hb_sameSelection acid b"
    and "hb_processes b' = (hb_processes b)[acid := p]" "hb_selectedAcid b' = acid"
  shows "hb_sel_ok b'"
  using assms by (auto simp: hb_sel_ok_def hb_sameSelection_def hb_wf_def nth_update_if)

lemma hb_sel_ok_keep:
  assumes "hb_sel_ok b" "hb_selectedAcid b \<noteq> acid \<longrightarrow> hp_idle p"
    and "hb_processes b' = (hb_processes b)[acid := p]" "hb_selectedAcid b' = hb_selectedAcid b"
  shows "hb_sel_ok b'"
  using assms by (auto simp: hb_sel_ok_def nth_update_if)

lemma hb_sel_ok_clear:
  assumes "hb_sel_ok b" "hb_selectedAcid b = acid" "hp_idle p"
    and "hb_processes b' = (hb_processes b)[acid := p]"
  shows "hb_sel_ok b'"
  using assms by (auto simp: hb_sel_ok_def nth_update_if)

lemma hp_pduFeedback_idle:
  assumes "hp_pduFeedback fb cw p = Inr (p', em, effs)" "hp_wf p" "hp_idle p"
  shows "hp_idle p'"
proof -
  obtain u' reset where cw: "cw < length (hp_units p)"
    and u': "hu_pduFeedback fb (hp_units p ! cw) = Inr (u', reset, effs)"
    and p': "p' = (if reset then (hp_setUnit cw u' p)\<lparr>hp_numEmptyUnits := hp_numEmptyUnits p + 1\<rparr>
               else hp_setUnit cw u' p)"
    using assms(1) by (rule hp_pduFeedback_Inr)
  note i = hu_pduFeedback_Inr[OF u' hp_wf_unit[OF assms(2) cw]]
  have "\<not> hu_isMarked u'" using i(3) by (simp add: hu_status_defs hu_resetUnit_def)
  with assms(3) show ?thesis by (rule hp_idle_setUnit) (simp add: p' hp_setUnit_def)
qed

lemma hp_dropPdu_idle: "hp_dropPdu cw p = Inr p' \<Longrightarrow> hp_idle p \<Longrightarrow> hp_idle p'"
  by (drule hp_dropPdu_Inr, erule hp_idle_setUnit[of p "hu_resetUnit (hp_units p ! cw)"]) auto

lemma hp_forceDropProcess_idle: "hp_wf p \<Longrightarrow> hp_idle (hp_forceDropProcess p)"
  by (auto simp: hp_idle_def hp_forceDropProcess_def list_ex_iff hp_wfD(1))

lemma hb_selected_lt: "hb_wf b \<Longrightarrow> hb_selectedAcid b \<noteq> HARQ_NONE \<Longrightarrow> hb_selectedAcid b < length (hb_processes b)"
  by (auto simp: hb_wf_def)

lemma hb_length_lt: "hb_wf b \<Longrightarrow> length (hb_processes b) < HARQ_NONE"
  by (simp add: hb_wf_def)

lemma hb_markSelected_sel_ok:
  assumes "hb_markSelected us tbs b = Inr b'" "hb_wf b" "hb_sel_ok b" "hb_sameSelection (fst us) b"
  shows "hb_sel_ok b'"
proof (cases "b' = b")
  case False
  with assms(1) obtain p' where "b' = (hb_setProcess (fst us) p' b)\<lparr>hb_selectedAcid := fst us\<rparr>"
    by (auto simp: hb_markSelected_def cpp_bind_Inr_iff vec_idx_Inr_iff Let_def split: if_splits)
  with assms show ?thesis by (intro hb_sel_ok_select[of b "fst us" b' p']) (auto simp: hb_setProcess_def)
qed (use assms(3) in simp)

lemma hb_insertPdu_sel_ok:
  assumes "hb_insertPdu acid cw pkt b = Inr (b', effs)" "hb_wf b" "hb_sel_ok b" "hb_sameSelection acid b"
  shows "hb_sel_ok b'"
  using assms(1)
proof (rule hb_insertPdu_Inr)
  fix p' assume "b' = (hb_setProcess acid p' b)\<lparr>hb_selectedAcid := acid, hb_numEmptyProc := hb_numEmptyProc b - 1\<rparr>"
  with assms show ?thesis by (intro hb_sel_ok_select[of b acid b' p']) (auto simp: hb_setProcess_def)
qed

lemma hb_sendSelectedDown_sel_ok:
  assumes "hb_sendSelectedDown now b = Inr (b', effs)" "hb_wf b" "hb_sel_ok b"
  shows "hb_sel_ok b' \<and> hb_selectedAcid b' = HARQ_NONE"
proof (cases "hb_selectedAcid b = HARQ_NONE")
  case True
  with assms show ?thesis by (simp add: hb_sendSelectedDown_def)
next
  case False
  let ?p = "hb_processes b ! hb_selectedAcid b"
  obtain p' where b': "b' = (hb_setProcess (hb_selectedAcid b) p' b)\<lparr>hb_selectedAcid := HARQ_NONE\<rparr>"
    and l: "length (hp_units p') = length (hp_units ?p)"
    and n: "\<forall>i < length (hp_units ?p). hp_units p' ! i = (if hu_isMarked (hp_units ?p ! i)
              then hu_sent now (hp_units ?p ! i) else hp_units ?p ! i)"
    using hb_sendSelectedDown_ok[OF assms(2) False, of now] assms(1) by auto
  have "\<not> hu_isMarked (hp_units p' ! i)" if "i < length (hp_units ?p)" for i
    using n that by (cases "hu_isMarked (hp_units ?p ! i)") auto
  then have "hp_idle p'" using l by (auto simp: hp_idle_def list_ex_iff in_set_conv_nth)
  with assms(3) show ?thesis
    by (auto intro: hb_sel_ok_clear[of b "hb_selectedAcid b" p'] simp: b' hb_setProcess_def)
qed

lemma hb_receiveHarqFeedback_sel_ok:
  assumes "hb_receiveHarqFeedback fb b = Inr (b', effs)" "hb_wf b" "hb_sel_ok b"
  shows "hb_sel_ok b'"
  using hb_receiveHarqFeedback_Inr(2)[OF assms(1)]
proof
  note a = hb_receiveHarqFeedback_Inr(1)[OF assms(1)]
  assume "\<exists>p' em effs'. hp_pduFeedback (if fb_result fb then HARQACK else HARQNACK) (fb_cw fb)
                  (hb_processes b ! fb_acid fb) = Inr (p', em, effs')
            \<and> hb_processes b' = (hb_processes b)[fb_acid fb := p']
            \<and> hb_numProc b' = hb_numProc b \<and> hb_selectedAcid b' = hb_selectedAcid b"
  then obtain p' em effs' where p: "hp_pduFeedback (if fb_result fb then HARQACK else HARQNACK)
      (fb_cw fb) (hb_processes b ! fb_acid fb) = Inr (p', em, effs')"
    and b': "hb_processes b' = (hb_processes b)[fb_acid fb := p']" "hb_selectedAcid b' = hb_selectedAcid b"
    by blast
  have "hb_selectedAcid b \<noteq> fb_acid fb \<longrightarrow> hp_idle p'"
    using hp_pduFeedback_idle[OF p hb_wf_process[OF assms(2) a]] assms(3) a by (auto simp: hb_sel_ok_def)
  with assms(3) b' show ?thesis by (intro hb_sel_ok_keep[of b "fb_acid fb" p' b']) auto
qed (use assms(3) in simp)

lemma hb_dropProcess_sel_ok:
  assumes "hb_dropProcess acid b = Inr b'" "hb_sel_ok b"
  shows "hb_sel_ok b'"
proof -
  from assms(1) obtain p' where a: "acid < length (hb_processes b)"
    and p': "cpp_fold hp_dropPdu (hp_readyUnitsIds (hb_processes b ! acid)) (hb_processes b ! acid) = Inr p'"
    and b': "b' = (hb_setProcess acid p' b)\<lparr>hb_numEmptyProc := hb_numEmptyProc b + 1\<rparr>"
    by (auto simp: hb_dropProcess_def cpp_bind_Inr_iff vec_idx_Inr_iff)
  have "hp_idle (hb_processes b ! acid) \<Longrightarrow> hp_idle p'"
    by (rule cpp_fold_invariant[where P = hp_idle, OF p']) (auto intro: hp_dropPdu_idle)
  with assms(2) a show ?thesis
    by (intro hb_sel_ok_keep[of b acid p' b']) (auto simp: b' hb_setProcess_def hb_sel_ok_def)
qed

lemma hb_forceDropProcess_sel_ok:
  assumes "hb_forceDropProcess acid b = Inr b'" "hb_wf b" "hb_sel_ok b"
  shows "hb_sel_ok b'"
proof -
  from assms(1) have a: "acid < length (hb_processes b)"
    by (auto simp: hb_forceDropProcess_def cpp_bind_Inr_iff vec_idx_Inr_iff)
  note idle = hp_forceDropProcess_idle[OF hb_wf_process[OF assms(2) a]]
  have b': "hb_processes b' = (hb_processes b)[acid := hp_forceDropProcess (hb_processes b ! acid)]"
    "hb_selectedAcid b' = (if acid = hb_selectedAcid b then HARQ_NONE else hb_selectedAcid b)"
    using assms(1) a by (auto simp: hb_forceDropProcess_def hb_setProcess_def)
  show ?thesis
  proof (cases "acid = hb_selectedAcid b")
    case True
    from assms(3) True[symmetric] idle b'(1) show ?thesis by (rule hb_sel_ok_clear)
  next
    case False
    with b'(2) have "hb_selectedAcid b' = hb_selectedAcid b" by simp
    with assms(3) _ b'(1) show ?thesis by (rule hb_sel_ok_keep) (simp add: idle)
  qed
qed

lemma hb_step_sel_ok:
  assumes "hb_step b ev effs b'" "hb_wf b" "hb_sel_ok b"
  shows "hb_sel_ok b'"
  using assms
  by (induction rule: hb_step.induct)
    (auto dest: hb_insertPdu_sel_ok hb_markSelected_sel_ok hb_sendSelectedDown_sel_ok
      hb_receiveHarqFeedback_sel_ok hb_dropProcess_sel_ok hb_forceDropProcess_sel_ok)

lemma hb_sel_ok_new: "hb_sel_ok (harq_buffer_tx_new macById n owner dst)"
  by (auto simp: hb_sel_ok_def harq_buffer_tx_new_def hp_idle_def harq_process_tx_new_def
      list_ex_iff harq_unit_tx_new_def hu_status_defs Let_def)

lemma hb_reachable_sel_ok:
  "hb_reachable b0 b \<Longrightarrow> hb_wf b0 \<Longrightarrow> hb_sel_ok b0 \<Longrightarrow> hb_wf b \<and> hb_sel_ok b"
  by (induction rule: hb_reachable.induct) (auto dest: hb_step_sel_ok hb_step_wf)

section \<open>The choice of a process\<close>

text \<open>
  \<open>getOldestUnitTxTime\<close> starts its minimum at one second from now, so it is the time of a ready
  unit whenever there is one that was sent in the past.
\<close>

definition hp_past :: "simtime \<Rightarrow> harq_process_tx \<Rightarrow> bool" where
  "hp_past now p = list_all (\<lambda>u. hu_isReady u \<longrightarrow> hu_txTime u \<le> now) (hp_units p)"

lemma hp_hasReadyUnits_iff:
  "hp_wf p \<Longrightarrow> hp_hasReadyUnits p \<longleftrightarrow> list_ex hu_isReady (hp_units p)"
  by (auto simp: hp_hasReadyUnits_def list_ex_length hp_wfD(1))

lemma foldl_oldest_le:
  fixes tm :: "nat \<Rightarrow> simtime" and F :: "simtime \<Rightarrow> nat \<Rightarrow> simtime"
  assumes F_def: "F = (\<lambda>o' i. if R i \<and> tm i < o' then tm i else o')"
  shows "foldl F a xs \<le> a \<and> (\<forall>i \<in> set xs. R i \<longrightarrow> foldl F a xs \<le> tm i)
       \<and> (foldl F a xs = a \<or> (\<exists>i \<in> set xs. R i \<and> foldl F a xs = tm i))"
proof (induction xs arbitrary: a)
  case Nil
  then show ?case by simp
next
  case (Cons x xs)
  have "F a x \<le> a" "R x \<longrightarrow> F a x \<le> tm x" "F a x = a \<or> (R x \<and> F a x = tm x)"
    by (auto simp: F_def)
  with Cons[of "F a x"] show ?case by fastforce
qed

lemma hp_getOldestUnitTxTime_spec:
  assumes "hp_wf p"
  shows "u \<in> set (hp_units p) \<Longrightarrow> hu_isReady u \<Longrightarrow> hp_getOldestUnitTxTime now p \<le> hu_txTime u"
    and "hp_past now p \<Longrightarrow> hp_hasReadyUnits p \<Longrightarrow> hp_getOldestUnitTxTime now p \<le> now"
    and "hp_past now p \<Longrightarrow> hp_hasReadyUnits p \<Longrightarrow>
         \<exists>u \<in> set (hp_units p). hu_isReady u \<and> hp_getOldestUnitTxTime now p = hu_txTime u"
proof -
  note F = foldl_oldest_le[OF refl, of "\<lambda>i. hu_isReady (hp_units p ! i)"
      "\<lambda>i. hu_txTime (hp_units p ! i)" "now + 1" "[0..<length (hp_units p)]"]
  have old: "hp_getOldestUnitTxTime now p = foldl (\<lambda>o' i. if hu_isReady (hp_units p ! i)
      \<and> hu_txTime (hp_units p ! i) < o' then hu_txTime (hp_units p ! i) else o') (now + 1)
      [0..<length (hp_units p)]"
    by (simp add: hp_getOldestUnitTxTime_def hp_wfD(1)[OF assms])
  have le: "hp_getOldestUnitTxTime now p \<le> hu_txTime u"
    if "u \<in> set (hp_units p)" "hu_isReady u" for u
    using F that by (auto simp: old in_set_conv_nth)
  then show "u \<in> set (hp_units p) \<Longrightarrow> hu_isReady u \<Longrightarrow> hp_getOldestUnitTxTime now p \<le> hu_txTime u" .
  have now: "hp_getOldestUnitTxTime now p \<le> now" if past: "hp_past now p" and r: "hp_hasReadyUnits p"
  proof -
    obtain u where "u \<in> set (hp_units p)" "hu_isReady u"
      using r hp_hasReadyUnits_iff[OF assms] by (auto simp: list_ex_iff)
    with le[of u] past show ?thesis by (fastforce simp: hp_past_def list_all_iff)
  qed
  then show "hp_past now p \<Longrightarrow> hp_hasReadyUnits p \<Longrightarrow> hp_getOldestUnitTxTime now p \<le> now" .
  show "\<exists>u \<in> set (hp_units p). hu_isReady u \<and> hp_getOldestUnitTxTime now p = hu_txTime u"
    if "hp_past now p" "hp_hasReadyUnits p"
  proof -
    have "hp_getOldestUnitTxTime now p \<noteq> now + 1" using now[OF that] by auto
    with F show ?thesis by (auto simp: old)
  qed
qed

lemma hb_scanReady_spec:
  assumes "n < HARQ_NONE"
    and "\<And>i. i < n \<Longrightarrow> hp_hasReadyUnits (ps ! i) \<Longrightarrow> hp_getOldestUnitTxTime now (ps ! i) \<le> now"
  shows "(\<forall>i < n. hp_hasReadyUnits (ps ! i) \<longrightarrow> snd (hb_scanReady now ps n) \<le> hp_getOldestUnitTxTime now (ps ! i))
    \<and> (if fst (hb_scanReady now ps n) = HARQ_NONE
       then snd (hb_scanReady now ps n) = now + 1 \<and> (\<forall>i < n. \<not> hp_hasReadyUnits (ps ! i))
       else fst (hb_scanReady now ps n) < n \<and> hp_hasReadyUnits (ps ! fst (hb_scanReady now ps n))
          \<and> snd (hb_scanReady now ps n) = hp_getOldestUnitTxTime now (ps ! fst (hb_scanReady now ps n)))"
  using assms
proof (induction n)
  case 0
  then show ?case by (simp add: hb_scanReady_def)
next
  case (Suc n)
  obtain a t where s: "hb_scanReady now ps n = (a, t)" by fastforce
  have step: "hb_scanReady now ps (Suc n) = (if hp_hasReadyUnits (ps ! n)
      \<and> hp_getOldestUnitTxTime now (ps ! n) < t then (n mod 256, hp_getOldestUnitTxTime now (ps ! n)) else (a, t))"
    using s by (simp add: hb_scanReady_def Let_def)
  have small: "n mod 256 = n" "n \<noteq> HARQ_NONE" using Suc.prems(1) by (simp_all add: HARQ_NONE_def)
  have IH: "\<forall>i<n. hp_hasReadyUnits (ps ! i) \<longrightarrow> t \<le> hp_getOldestUnitTxTime now (ps ! i)"
    "if a = HARQ_NONE then t = now + 1 \<and> (\<forall>i<n. \<not> hp_hasReadyUnits (ps ! i))
     else a < n \<and> hp_hasReadyUnits (ps ! a) \<and> t = hp_getOldestUnitTxTime now (ps ! a)"
    using Suc.IH Suc.prems by (auto simp: s)
  have nown: "hp_hasReadyUnits (ps ! n) \<Longrightarrow> hp_getOldestUnitTxTime now (ps ! n) \<le> now"
    using Suc.prems(2)[of n] by simp
  show ?case
  proof (cases "hp_hasReadyUnits (ps ! n) \<and> hp_getOldestUnitTxTime now (ps ! n) < t")
    case True
    with step small IH show ?thesis by (auto simp: less_Suc_eq intro: order.trans[OF less_imp_le])
  next
    case False
    with step small IH nown show ?thesis by (auto simp: less_Suc_eq split: if_splits)
  qed
qed

lemma hb_firstReadyForRtx_spec:
  assumes "hb_wf b" "list_all (hp_past now) (hb_processes b)"
  shows "\<exists>acid cws. hb_firstReadyForRtx now b = Inr (acid, cws) \<and>
    (if acid = HARQ_NONE then cws = [] \<and> \<not> list_ex hp_hasReadyUnits (hb_processes b)
     else acid < length (hb_processes b) \<and> cws = hp_readyUnitsIds (hb_processes b ! acid) \<and> cws \<noteq> []
        \<and> (\<exists>u \<in> set (hp_units (hb_processes b ! acid)). hu_isReady u \<and>
             (\<forall>q \<in> set (hb_processes b). \<forall>v \<in> set (hp_units q). hu_isReady v \<longrightarrow> hu_txTime u \<le> hu_txTime v)))"
proof -
  let ?ps = "hb_processes b" and ?n = "hb_numProc b"
  have len: "length ?ps = ?n" and n: "?n < HARQ_NONE" using assms(1) by (auto simp: hb_wf_def)
  have wf: "hp_wf (?ps ! i)" "hp_past now (?ps ! i)" if "i < ?n" for i
    using hb_wf_process[OF assms(1)] assms(2) that len by (auto simp: list_all_length)
  note S = hb_scanReady_spec[OF n, of ?ps now, OF hp_getOldestUnitTxTime_spec(2)[OF wf]]
  let ?a = "fst (hb_scanReady now ?ps ?n)"
  show ?thesis
  proof (cases "?a = HARQ_NONE")
    case True
    with S len have "\<not> list_ex hp_hasReadyUnits ?ps" by (auto simp: list_ex_length)
    with True show ?thesis by (simp add: hb_firstReadyForRtx_def Let_def)
  next
    case False
    with S have a: "?a < ?n" "hp_hasReadyUnits (?ps ! ?a)"
      "snd (hb_scanReady now ?ps ?n) = hp_getOldestUnitTxTime now (?ps ! ?a)"
      "\<forall>i < ?n. hp_hasReadyUnits (?ps ! i) \<longrightarrow> snd (hb_scanReady now ?ps ?n) \<le> hp_getOldestUnitTxTime now (?ps ! i)"
      by auto
    obtain u where u: "u \<in> set (hp_units (?ps ! ?a))" "hu_isReady u"
      "hp_getOldestUnitTxTime now (?ps ! ?a) = hu_txTime u"
      using hp_getOldestUnitTxTime_spec(3)[OF wf[OF a(1)] a(2)] by blast
    have "hu_txTime u \<le> hu_txTime v" if q: "q \<in> set ?ps" and v: "v \<in> set (hp_units q)" "hu_isReady v" for q v
    proof -
      obtain i where i: "i < ?n" "q = ?ps ! i" using q len by (auto simp: in_set_conv_nth)
      have "hp_hasReadyUnits q" using v i hp_hasReadyUnits_iff[OF wf(1)[OF i(1)]] by (auto simp: list_ex_iff)
      then have "hu_txTime u \<le> hp_getOldestUnitTxTime now q" using a(3,4) i u(3) by auto
      also have "\<dots> \<le> hu_txTime v" using hp_getOldestUnitTxTime_spec(1)[OF wf(1)[OF i(1)]] i(2) v by blast
      finally show ?thesis .
    qed
    moreover have "hp_readyUnitsIds (?ps ! ?a) \<noteq> []"
      using a(2) by (auto simp: hp_hasReadyUnits_def hp_readyUnitsIds_def hp_unitIds_def list_ex_iff filter_empty_conv)
    moreover have "hb_firstReadyForRtx now b = Inr (?a, hp_readyUnitsIds (?ps ! ?a))"
      using False a(1) len by (simp add: hb_firstReadyForRtx_def Let_def)
    ultimately show ?thesis using False a(1) u(1,2) len
      by (intro exI[of _ ?a] exI[of _ "hp_readyUnitsIds (?ps ! ?a)"]) auto
  qed
qed

end
