(* ===== verification/Harq_Process_Rx.thy ===== *)
theory Harq_Process_Rx
  imports Harq_Packet
begin

text \<open>
  A reception H-ARQ process (\<open>LteHarqProcessRx.cc\<close>): four parallel vectors indexed by codeword
  (PDU, status, reception time, decoding result) and one transmission counter. The counter is a
  member of the process, not of the codeword: every insertion increments it and every reset of a
  codeword clears it. Vector accesses through \<open>at\<close> throw, the one access through \<open>operator[]\<close> is
  undefined past the end.
\<close>

section \<open>State and construction\<close>

record harq_process_rx =
  hr_pdu :: "packet option list"
  hr_status :: "rx_harq_pdu_status list"
  hr_rxTime :: "simtime list"
  hr_result :: "bool list"
  hr_acid :: nat
  hr_macOwner :: mac_info
  hr_transmissions :: "8 word"
  hr_maxHarqRtx :: "8 word"
  hr_harqFbEvaluationTimer :: "16 word"

text \<open>The parameters are narrowed to \<open>unsigned char\<close> and \<open>unsigned short\<close>.\<close>

definition harq_process_rx_new :: "nat \<Rightarrow> mac_info \<Rightarrow> harq_process_rx" where
  "harq_process_rx_new acid owner =
     \<lparr>hr_pdu = replicate MAX_CODEWORDS None,
      hr_status = replicate MAX_CODEWORDS RXHARQ_PDU_EMPTY,
      hr_rxTime = replicate MAX_CODEWORDS 0,
      hr_result = replicate MAX_CODEWORDS False,
      hr_acid = acid mod 256, hr_macOwner = owner, hr_transmissions = 0,
      hr_maxHarqRtx = ucast (mi_maxHarqRtx owner),
      hr_harqFbEvaluationTimer = of_nat (mi_harqFbEvaluationTimer owner)\<rparr>"

text \<open>
  The carriers known to the binder: \<open>getNumerologyIndexFromCarrierFreq\<close> reads a map whose
  \<open>operator[]\<close> gives 0 for an unknown carrier, and a slot lasts \<open>2 ^ -numerology\<close> milliseconds
  (\<open>Binder.h\<close>).
\<close>

type_synonym numerology_map = "freq \<Rightarrow> nat option"

definition getNumerologyIndexFromCarrierFreq :: "numerology_map \<Rightarrow> freq \<Rightarrow> nat" where
  "getNumerologyIndexFromCarrierFreq m f = (case m f of None \<Rightarrow> 0 | Some n \<Rightarrow> n)"

definition getSlotDurationFromNumerologyIndex :: "nat \<Rightarrow> rat" where
  "getSlotDurationFromNumerologyIndex n = (1 / 2 ^ n) / 1000"

section \<open>Operations\<close>

definition hr_insertPdu :: "simtime \<Rightarrow> codeword \<Rightarrow> packet \<Rightarrow> harq_process_rx \<Rightarrow> harq_process_rx cpp" where
  "hr_insertPdu now cw pkt p =
     cpp_bind (vec_at (hr_status p) cw) (\<lambda>st.
     if uci_ndi (pk_info pkt) \<and> st \<noteq> RXHARQ_PDU_EMPTY then
       Inl (Runtime_Error ''New data arriving in busy harq process -- this should not happen'')
     else if \<not> uci_ndi (pk_info pkt) \<and> st \<noteq> RXHARQ_PDU_EMPTY \<and> st \<noteq> RXHARQ_PDU_CORRUPTED then
       Inl (Runtime_Error ''Trying to insert macPdu in non-empty rx harq process'')
     else
       cpp_bind (vec_put (hr_pdu p) cw (Some pkt)) (\<lambda>pdus.
       cpp_bind (vec_put (hr_result p) cw (uci_deciderResult (pk_info pkt))) (\<lambda>results.
       cpp_bind (vec_put (hr_status p) cw RXHARQ_PDU_EVALUATING) (\<lambda>statuses.
       cpp_bind (vec_put (hr_rxTime p) cw now) (\<lambda>times.
       Inr (p\<lparr>hr_pdu := pdus, hr_status := statuses, hr_rxTime := times, hr_result := results,
              hr_transmissions := hr_transmissions p + 1\<rparr>))))))"

definition hr_isEvaluated ::
  "numerology_map \<Rightarrow> simtime \<Rightarrow> codeword \<Rightarrow> harq_process_rx \<Rightarrow> bool cpp" where
  "hr_isEvaluated nm now cw p =
     cpp_bind (vec_at (hr_status p) cw) (\<lambda>st.
     if st = RXHARQ_PDU_EVALUATING then
       cpp_bind (vec_idx (hr_pdu p) cw) (\<lambda>pdu.
       case pdu of
         None \<Rightarrow> Inl Undefined_Behaviour
       | Some k \<Rightarrow>
           let slot = getSlotDurationFromNumerologyIndex
                        (getNumerologyIndexFromCarrierFreq nm (uci_carrierFrequency (pk_info k)))
           in cpp_bind (vec_at (hr_rxTime p) cw) (\<lambda>t.
              Inr (now - t \<ge> slot * of_int (int (unat (hr_harqFbEvaluationTimer p)) - 1))))
     else Inr False)"

definition hr_purgeCorruptedPdu :: "codeword \<Rightarrow> harq_process_rx \<Rightarrow> harq_process_rx cpp" where
  "hr_purgeCorruptedPdu cw p =
     cpp_bind (vec_put (hr_pdu p) cw None) (\<lambda>pdus. Inr (p\<lparr>hr_pdu := pdus\<rparr>))"

definition hr_resetCodeword :: "codeword \<Rightarrow> harq_process_rx \<Rightarrow> harq_process_rx cpp" where
  "hr_resetCodeword cw p =
     cpp_bind (vec_put (hr_pdu p) cw None) (\<lambda>pdus.
     cpp_bind (vec_put (hr_status p) cw RXHARQ_PDU_EMPTY) (\<lambda>statuses.
     cpp_bind (vec_put (hr_rxTime p) cw 0) (\<lambda>times.
     cpp_bind (vec_put (hr_result p) cw False) (\<lambda>results.
     Inr (p\<lparr>hr_pdu := pdus, hr_status := statuses, hr_rxTime := times, hr_result := results,
            hr_transmissions := 0\<rparr>)))))"

text \<open>The tag of the feedback packet.\<close>

definition hr_feedbackInfo :: "user_control_info \<Rightarrow> user_control_info" where
  "hr_feedbackInfo i =
     user_control_info_new\<lparr>uci_sourceId := uci_destId i, uci_destId := uci_sourceId i,
        uci_frameType := HARQPKT, uci_direction := uci_direction i,
        uci_carrierFrequency := uci_carrierFrequency i\<rparr>"

text \<open>
  The state change of \<open>createFeedback\<close>, apart from the message it builds. The comparison of the
  two \<open>unsigned char\<close>s is made in \<open>int\<close>.
\<close>

definition hr_afterFeedback ::
  "codeword \<Rightarrow> user_control_info \<Rightarrow> bool \<Rightarrow> harq_process_rx \<Rightarrow> (harq_process_rx \<times> harq_effect list) cpp" where
  "hr_afterFeedback cw info result p =
     (if \<not> result then
        cpp_bind (vec_put (hr_status p) cw RXHARQ_PDU_CORRUPTED) (\<lambda>statuses.
        let p1 = p\<lparr>hr_status := statuses\<rparr> in
        if unat (hr_transmissions p1) = unat (hr_maxHarqRtx p1) + 1 then
          cpp_bind (hr_purgeCorruptedPdu cw p1) (\<lambda>p2.
          cpp_bind (hr_resetCodeword cw p2) (\<lambda>p3. Inr (p3, [])))
        else
          Inr (p1, if is_nodeB (mi_nodeType (hr_macOwner p1)) then
                     [Signal_Process_For_Rtx (uci_sourceId info) (uci_carrierFrequency info)
                        (uci_direction info)]
                   else []))
      else cpp_bind (vec_put (hr_status p) cw RXHARQ_PDU_CORRECT) (\<lambda>statuses.
           Inr (p\<lparr>hr_status := statuses\<rparr>, [])))"

definition hr_createFeedback ::
  "numerology_map \<Rightarrow> simtime \<Rightarrow> codeword \<Rightarrow> harq_process_rx \<Rightarrow>
   (harq_process_rx \<times> harq_feedback \<times> user_control_info \<times> harq_effect list) cpp" where
  "hr_createFeedback nm now cw p =
     cpp_bind (hr_isEvaluated nm now cw p) (\<lambda>ev.
     if \<not> ev then Inl (Runtime_Error ''Cannot send feedback for a pdu not in EVALUATING state'')
     else
       cpp_bind (vec_at (hr_pdu p) cw) (\<lambda>pdu.
       case pdu of
         None \<Rightarrow> Inl Undefined_Behaviour
       | Some k \<Rightarrow>
           cpp_bind (vec_at (hr_result p) cw) (\<lambda>result.
           cpp_bind (hr_afterFeedback cw (pk_info k) result p) (\<lambda>(p', effs).
           Inr (p', \<lparr>fb_acid = hr_acid p, fb_cw = cw, fb_result = result,
                     fb_macPduId = mp_macPduId (pk_pdu k)\<rparr>,
                hr_feedbackInfo (pk_info k), effs)))))"

definition hr_isCorrect :: "codeword \<Rightarrow> harq_process_rx \<Rightarrow> bool cpp" where
  "hr_isCorrect cw p = cpp_bind (vec_at (hr_status p) cw) (\<lambda>st. Inr (st = RXHARQ_PDU_CORRECT))"

definition hr_extractPdu :: "codeword \<Rightarrow> harq_process_rx \<Rightarrow> (harq_process_rx \<times> packet) cpp" where
  "hr_extractPdu cw p =
     cpp_bind (hr_isCorrect cw p) (\<lambda>c.
     if \<not> c then Inl (Runtime_Error ''Cannot extract pdu if the state is not CORRECT'')
     else
       cpp_bind (vec_at (hr_pdu p) cw) (\<lambda>pdu.
       case pdu of
         None \<Rightarrow> Inl Undefined_Behaviour
       | Some k \<Rightarrow> cpp_bind (hr_resetCodeword cw p) (\<lambda>p'. Inr (p', k))))"

definition hr_getByteLength :: "codeword \<Rightarrow> harq_process_rx \<Rightarrow> int cpp" where
  "hr_getByteLength cw p =
     cpp_bind (vec_at (hr_pdu p) cw) (\<lambda>pdu.
     Inr (case pdu of None \<Rightarrow> 0 | Some k \<Rightarrow> pk_getByteLength k))"

definition hr_getUnitStatus :: "codeword \<Rightarrow> harq_process_rx \<Rightarrow> rx_harq_pdu_status cpp" where
  "hr_getUnitStatus cw p = vec_at (hr_status p) cw"

definition hr_getProcessStatus :: "harq_process_rx \<Rightarrow> (nat \<times> rx_harq_pdu_status) list" where
  "hr_getProcessStatus p = map (\<lambda>j. (j, hr_status p ! j)) [0..<MAX_CODEWORDS]"

definition hr_isEmpty :: "harq_process_rx \<Rightarrow> bool" where
  "hr_isEmpty p = list_all (\<lambda>i. hr_status p ! i = RXHARQ_PDU_EMPTY) [0..<MAX_CODEWORDS]"

definition hr_emptyUnitsIds :: "harq_process_rx \<Rightarrow> cw_list" where
  "hr_emptyUnitsIds p = filter (\<lambda>i. hr_status p ! i = RXHARQ_PDU_EMPTY) [0..<MAX_CODEWORDS]"

definition hr_isHarqProcessActive :: "harq_process_rx \<Rightarrow> bool" where
  "hr_isHarqProcessActive p = list_ex (\<lambda>s. snd s \<noteq> RXHARQ_PDU_EMPTY) (hr_getProcessStatus p)"

lemmas hr_defs [cpp_defs] =
  hr_insertPdu_def hr_isEvaluated_def hr_purgeCorruptedPdu_def hr_resetCodeword_def
  hr_afterFeedback_def hr_createFeedback_def hr_isCorrect_def hr_extractPdu_def
  hr_getByteLength_def hr_getUnitStatus_def

section \<open>Well-formed processes\<close>

text \<open>
  Two codewords, and a codeword holds a PDU exactly when it is not EMPTY; an evaluated codeword
  has the status its result calls for.
\<close>

definition hr_cw_ok :: "harq_process_rx \<Rightarrow> codeword \<Rightarrow> bool" where
  "hr_cw_ok p cw = ((hr_pdu p ! cw = None \<longleftrightarrow> hr_status p ! cw = RXHARQ_PDU_EMPTY)
     \<and> (hr_status p ! cw = RXHARQ_PDU_CORRECT \<longrightarrow> hr_result p ! cw)
     \<and> (hr_status p ! cw = RXHARQ_PDU_CORRUPTED \<longrightarrow> \<not> hr_result p ! cw))"

definition hr_wf :: "harq_process_rx \<Rightarrow> bool" where
  "hr_wf p = (length (hr_pdu p) = MAX_CODEWORDS \<and> length (hr_status p) = MAX_CODEWORDS
     \<and> length (hr_rxTime p) = MAX_CODEWORDS \<and> length (hr_result p) = MAX_CODEWORDS
     \<and> list_all (hr_cw_ok p) [0..<MAX_CODEWORDS])"

lemma hr_wfD:
  assumes "hr_wf p"
  shows "length (hr_pdu p) = 2" "length (hr_status p) = 2" "length (hr_rxTime p) = 2"
    "length (hr_result p) = 2" "\<And>cw. cw < 2 \<Longrightarrow> hr_cw_ok p cw"
  using assms by (auto simp: hr_wf_def MAX_CODEWORDS_def list_all_iff)

lemma hr_wfI:
  assumes "length (hr_pdu p) = 2" "length (hr_status p) = 2" "length (hr_rxTime p) = 2"
    "length (hr_result p) = 2" "\<And>cw. cw < 2 \<Longrightarrow> hr_cw_ok p cw"
  shows "hr_wf p"
  using assms by (auto simp: hr_wf_def MAX_CODEWORDS_def list_all_iff)

lemma hr_wf_new: "hr_wf (harq_process_rx_new acid owner)"
  by (rule hr_wfI) (simp_all add: harq_process_rx_new_def MAX_CODEWORDS_def hr_cw_ok_def)

text \<open>The effect of each operation on a well-formed process, for a valid codeword.\<close>

lemma hr_insertPdu_eq:
  assumes "hr_wf p" "cw < 2"
    and "hr_status p ! cw = RXHARQ_PDU_EMPTY \<or> hr_status p ! cw = RXHARQ_PDU_CORRUPTED \<and> \<not> uci_ndi (pk_info k)"
  shows "hr_insertPdu now cw k p = Inr (p\<lparr>hr_pdu := (hr_pdu p)[cw := Some k],
      hr_status := (hr_status p)[cw := RXHARQ_PDU_EVALUATING],
      hr_rxTime := (hr_rxTime p)[cw := now],
      hr_result := (hr_result p)[cw := uci_deciderResult (pk_info k)],
      hr_transmissions := hr_transmissions p + 1\<rparr>)"
  using assms(2,3) hr_wfD[OF assms(1)] by (auto simp: hr_insertPdu_def)

lemma hr_insertPdu_Inr:
  assumes "hr_insertPdu now cw k p = Inr p'" "hr_wf p"
  shows "cw < 2"
    and "hr_status p ! cw = RXHARQ_PDU_EMPTY \<or> hr_status p ! cw = RXHARQ_PDU_CORRUPTED \<and> \<not> uci_ndi (pk_info k)"
  using assms(1) hr_wfD[OF assms(2)]
  by (auto simp: hr_insertPdu_def cpp_bind_Inr_iff vec_at_Inr_iff split: if_splits)

lemma hr_resetCodeword_eq:
  assumes "hr_wf p" "cw < 2"
  shows "hr_resetCodeword cw p = Inr (p\<lparr>hr_pdu := (hr_pdu p)[cw := None],
      hr_status := (hr_status p)[cw := RXHARQ_PDU_EMPTY], hr_rxTime := (hr_rxTime p)[cw := 0],
      hr_result := (hr_result p)[cw := False], hr_transmissions := 0\<rparr>)"
  using assms(2) hr_wfD[OF assms(1)] by (simp add: hr_resetCodeword_def)

lemma hr_purgeReset_eq:
  assumes "hr_wf p" "cw < 2"
  shows "cpp_bind (hr_purgeCorruptedPdu cw p) (hr_resetCodeword cw) = hr_resetCodeword cw p"
  using assms(2) hr_wfD[OF assms(1)] by (simp add: hr_purgeCorruptedPdu_def hr_resetCodeword_def)

text \<open>One codeword changes, the others keep their fields.\<close>

lemma hr_wf_update:
  assumes "hr_wf p" "cw < 2"
    and "hr_pdu p' = (hr_pdu p)[cw := k]" "hr_status p' = (hr_status p)[cw := s]"
    and "hr_rxTime p' = (hr_rxTime p)[cw := t]" "hr_result p' = (hr_result p)[cw := r]"
    and "k = None \<longleftrightarrow> s = RXHARQ_PDU_EMPTY"
    and "s = RXHARQ_PDU_CORRECT \<Longrightarrow> r" "s = RXHARQ_PDU_CORRUPTED \<Longrightarrow> \<not> r"
  shows "hr_wf p'"
proof (rule hr_wfI)
  note wf = hr_wfD[OF assms(1)]
  show "hr_cw_ok p' c" if "c < 2" for c
    using assms(2-) wf(1-4) wf(5)[OF that] that by (cases "c = cw") (auto simp: hr_cw_ok_def)
qed (use assms hr_wfD[OF assms(1)] in auto)

lemma hr_insertPdu_wf:
  assumes "hr_insertPdu now cw k p = Inr p'" "hr_wf p"
  shows "hr_wf p'"
proof -
  note i = hr_insertPdu_Inr[OF assms]
  from assms(2) i(1) show ?thesis
    by (rule hr_wf_update[where k = "Some k" and s = RXHARQ_PDU_EVALUATING and t = now
          and r = "uci_deciderResult (pk_info k)"])
      (use assms(1) hr_insertPdu_eq[OF assms(2) i] in auto)
qed

lemma hr_resetCodeword_wf:
  assumes "hr_resetCodeword cw p = Inr p'" "hr_wf p"
  shows "hr_wf p'"
proof -
  have cw: "cw < 2" using assms(1) hr_wfD[OF assms(2)]
    by (auto simp: hr_resetCodeword_def cpp_bind_Inr_iff vec_put_Inr_iff)
  from assms(2) cw show ?thesis
    by (rule hr_wf_update[where k = None and s = RXHARQ_PDU_EMPTY and t = 0 and r = False])
      (use assms(1) hr_resetCodeword_eq[OF assms(2) cw] in auto)
qed

text \<open>
  A codeword whose evaluation time has passed always gets its feedback, and the next state follows
  the decoding result and the transmission count.
\<close>

definition hr_due :: "numerology_map \<Rightarrow> simtime \<Rightarrow> codeword \<Rightarrow> harq_process_rx \<Rightarrow> packet \<Rightarrow> bool" where
  "hr_due nm now cw p k = (now - hr_rxTime p ! cw \<ge>
     getSlotDurationFromNumerologyIndex (getNumerologyIndexFromCarrierFreq nm (uci_carrierFrequency (pk_info k)))
       * of_int (int (unat (hr_harqFbEvaluationTimer p)) - 1))"

lemma hr_isEvaluated_eq:
  assumes "hr_wf p" "cw < 2"
  shows "hr_isEvaluated nm now cw p = Inr (hr_status p ! cw = RXHARQ_PDU_EVALUATING \<and>
           hr_due nm now cw p (the (hr_pdu p ! cw)))"
  using assms(2) hr_wfD(1-4)[OF assms(1)] hr_wfD(5)[OF assms(1), of cw]
  by (auto simp: hr_isEvaluated_def hr_due_def hr_cw_ok_def Let_def split: option.splits)

lemma hr_createFeedback_eq:
  assumes "hr_wf p" "cw < 2" "hr_pdu p ! cw = Some k" "hr_status p ! cw = RXHARQ_PDU_EVALUATING"
    and "hr_due nm now cw p k"
  shows "hr_createFeedback nm now cw p =
     cpp_bind (hr_afterFeedback cw (pk_info k) (hr_result p ! cw) p) (\<lambda>(p', effs).
       Inr (p', \<lparr>fb_acid = hr_acid p, fb_cw = cw, fb_result = hr_result p ! cw,
                 fb_macPduId = mp_macPduId (pk_pdu k)\<rparr>, hr_feedbackInfo (pk_info k), effs))"
  using assms hr_wfD(1-4)[OF assms(1)]
  by (simp add: hr_createFeedback_def hr_isEvaluated_eq)

lemma hr_afterFeedback_eq:
  assumes "hr_wf p" "cw < 2"
  shows "hr_afterFeedback cw i r p =
    (if r then Inr (p\<lparr>hr_status := (hr_status p)[cw := RXHARQ_PDU_CORRECT]\<rparr>, [])
     else if unat (hr_transmissions p) = unat (hr_maxHarqRtx p) + 1 then
       Inr (p\<lparr>hr_pdu := (hr_pdu p)[cw := None],
              hr_status := (hr_status p)[cw := RXHARQ_PDU_EMPTY], hr_rxTime := (hr_rxTime p)[cw := 0],
              hr_result := (hr_result p)[cw := False], hr_transmissions := 0\<rparr>, [])
     else Inr (p\<lparr>hr_status := (hr_status p)[cw := RXHARQ_PDU_CORRUPTED]\<rparr>,
            if is_nodeB (mi_nodeType (hr_macOwner p)) then
              [Signal_Process_For_Rtx (uci_sourceId i) (uci_carrierFrequency i) (uci_direction i)] else []))"
  using assms(2) hr_wfD[OF assms(1)]
  by (simp add: hr_afterFeedback_def hr_purgeCorruptedPdu_def hr_resetCodeword_def Let_def)

lemma hr_afterFeedback_Inr:
  assumes "hr_afterFeedback cw i r p = Inr (p', effs)" "hr_wf p" "cw < 2"
  shows "hr_maxHarqRtx p' = hr_maxHarqRtx p" "hr_harqFbEvaluationTimer p' = hr_harqFbEvaluationTimer p"
    and "if r then hr_status p' ! cw = RXHARQ_PDU_CORRECT \<and> hr_pdu p' ! cw = hr_pdu p ! cw
       else if unat (hr_transmissions p) = unat (hr_maxHarqRtx p) + 1
         then hr_status p' ! cw = RXHARQ_PDU_EMPTY \<and> hr_transmissions p' = 0
       else hr_status p' ! cw = RXHARQ_PDU_CORRUPTED \<and> hr_transmissions p' = hr_transmissions p"
  using assms(1,3) hr_wfD(2)[OF assms(2)]
  by (auto simp: hr_afterFeedback_eq[OF assms(2,3)] split: if_splits)

lemma hr_createFeedback_Inr:
  assumes "hr_createFeedback nm now cw p = Inr (p', fb, info, effs)" "hr_wf p"
  obtains k where "cw < 2" "hr_pdu p ! cw = Some k" "hr_status p ! cw = RXHARQ_PDU_EVALUATING"
    and "hr_due nm now cw p k" "hr_afterFeedback cw (pk_info k) (hr_result p ! cw) p = Inr (p', effs)"
    and "fb = \<lparr>fb_acid = hr_acid p, fb_cw = cw, fb_result = hr_result p ! cw,
               fb_macPduId = mp_macPduId (pk_pdu k)\<rparr>"
proof -
  have cw: "cw < 2" using assms(1) hr_wfD(2)[OF assms(2)]
    by (auto simp: hr_createFeedback_def hr_isEvaluated_def cpp_bind_Inr_iff vec_at_Inr_iff)
  with assms show thesis
    by (auto simp: hr_createFeedback_def hr_isEvaluated_eq cpp_bind_Inr_iff vec_at_Inr_iff
        split: if_splits option.splits intro: that)
qed

lemma hr_createFeedback_wf:
  assumes "hr_createFeedback nm now cw p = Inr (p', fb, info, effs)" "hr_wf p"
  shows "hr_wf p'"
proof (rule hr_createFeedback_Inr[OF assms])
  fix k assume cw: "cw < 2" and k: "hr_pdu p ! cw = Some k"
    and a: "hr_afterFeedback cw (pk_info k) (hr_result p ! cw) p = Inr (p', effs)"
  have id: "(hr_pdu p)[cw := Some k] = hr_pdu p"
    "hr_result p ! cw \<Longrightarrow> (hr_result p)[cw := True] = hr_result p"
    "\<not> hr_result p ! cw \<Longrightarrow> (hr_result p)[cw := False] = hr_result p"
    using k by (metis list_update_id)+
  consider (ok) "hr_result p ! cw" "p' = p\<lparr>hr_status := (hr_status p)[cw := RXHARQ_PDU_CORRECT]\<rparr>"
    | (last) "p' = p\<lparr>hr_pdu := (hr_pdu p)[cw := None],
              hr_status := (hr_status p)[cw := RXHARQ_PDU_EMPTY], hr_rxTime := (hr_rxTime p)[cw := 0],
              hr_result := (hr_result p)[cw := False], hr_transmissions := 0\<rparr>"
    | (nack) "\<not> hr_result p ! cw" "p' = p\<lparr>hr_status := (hr_status p)[cw := RXHARQ_PDU_CORRUPTED]\<rparr>"
    using a by (auto simp: hr_afterFeedback_eq[OF assms(2) cw] split: if_splits)
  then show ?thesis
  proof cases
    case ok
    show ?thesis
      by (rule hr_wf_update[OF assms(2) cw, where k = "hr_pdu p ! cw" and s = RXHARQ_PDU_CORRECT
            and t = "hr_rxTime p ! cw" and r = "hr_result p ! cw"]) (use ok k in \<open>simp_all add: id\<close>)
  next
    case last
    show ?thesis
      by (rule hr_wf_update[OF assms(2) cw, where k = None and s = RXHARQ_PDU_EMPTY
            and t = 0 and r = False]) (simp_all add: last)
  next
    case nack
    show ?thesis
      by (rule hr_wf_update[OF assms(2) cw, where k = "hr_pdu p ! cw" and s = RXHARQ_PDU_CORRUPTED
            and t = "hr_rxTime p ! cw" and r = "hr_result p ! cw"]) (use nack k in \<open>simp_all add: id\<close>)
  qed
qed

lemma hr_extractPdu_Inr:
  assumes "hr_extractPdu cw p = Inr (p', k)" "hr_wf p"
  shows "cw < 2" "hr_status p ! cw = RXHARQ_PDU_CORRECT" "hr_pdu p ! cw = Some k" "hr_wf p'"
    "hr_status p' = (hr_status p)[cw := RXHARQ_PDU_EMPTY]" "hr_transmissions p' = 0"
proof -
  show cw: "cw < 2" using assms(1) hr_wfD(2)[OF assms(2)]
    by (auto simp: hr_extractPdu_def hr_isCorrect_def cpp_bind_Inr_iff vec_at_Inr_iff)
  have *: "hr_status p ! cw = RXHARQ_PDU_CORRECT" "hr_pdu p ! cw = Some k" "hr_resetCodeword cw p = Inr p'"
    using assms(1) hr_wfD[OF assms(2)] cw
    by (auto simp: hr_extractPdu_def hr_isCorrect_def cpp_bind_Inr_iff split: if_splits option.splits)
  then show "hr_status p ! cw = RXHARQ_PDU_CORRECT" "hr_pdu p ! cw = Some k" by simp_all
  show "hr_wf p'" using *(3) assms(2) by (rule hr_resetCodeword_wf)
  show "hr_status p' = (hr_status p)[cw := RXHARQ_PDU_EMPTY]" "hr_transmissions p' = 0"
    using *(3) hr_resetCodeword_eq[OF assms(2) cw] by auto
qed

lemma hr_extractPdu_ok:
  assumes "hr_wf p" "cw < 2" "hr_status p ! cw = RXHARQ_PDU_CORRECT"
  shows "\<exists>p' k. hr_extractPdu cw p = Inr (p', k)"
  using assms(2,3) hr_wfD(1-4)[OF assms(1)] hr_wfD(5)[OF assms(1,2)] hr_resetCodeword_eq[OF assms(1,2)]
  by (auto simp: hr_extractPdu_def hr_isCorrect_def hr_cw_ok_def)

end
