(* ===== verification/Harq_Buffer_Rx.thy ===== *)
theory Harq_Buffer_Rx
  imports Harq_Process_Rx
begin

text \<open>
  The reception H-ARQ buffer for one peer (\<open>LteHarqBufferRx.cc\<close>). Its TTI work is three sweeps
  over all processes and codewords: send the feedback that is due, hand the correct PDUs up, purge
  the corrupted ones. A sweep is \<open>hbr_sweep\<close> over the pairs (process, codeword) in the order of
  the code's nested loops; one lemma says what a sweep does when its body only touches the
  codeword it visits.
\<close>

section \<open>State and construction\<close>

text \<open>
  \<open>hbr_macUe\<close> says that the pointer \<open>macUe_\<close> is not null: \<open>unregister_macUe\<close> clears it when the
  node leaves the simulation. The static member \<open>totalCellRcvdBytes_\<close> is an argument and a
  result of the operation that updates it.
\<close>

record harq_buffer_rx =
  hbr_macOwner :: mac_info
  hbr_numHarqProcesses :: nat
  hbr_nodeId :: node_id
  hbr_processes :: "harq_process_rx list"
  hbr_isMulticast :: bool
  hbr_totalRcvdBytes :: "32 word"
  hbr_macUe :: bool

definition harq_buffer_rx_new ::
  "(node_id \<Rightarrow> mac_info option) \<Rightarrow> nat \<Rightarrow> mac_info \<Rightarrow> node_id \<Rightarrow> harq_buffer_rx cpp" where
  "harq_buffer_rx_new macById num owner nodeId =
     (if macById nodeId = None then Inl (Runtime_Error ''check_and_cast(): Cannot cast nullptr'')
      else if \<not> is_nodeB (mi_nodeType owner) \<and> macById (mi_cellId owner) = None then
        Inl Undefined_Behaviour
      else Inr \<lparr>hbr_macOwner = owner, hbr_numHarqProcesses = num, hbr_nodeId = nodeId,
                hbr_processes = map (\<lambda>i. harq_process_rx_new i owner) [0..<num],
                hbr_isMulticast = False, hbr_totalRcvdBytes = 0, hbr_macUe = True\<rparr>)"

definition hbr_unregister_macUe :: "harq_buffer_rx \<Rightarrow> harq_buffer_rx" where
  "hbr_unregister_macUe b = b\<lparr>hbr_macUe := False\<rparr>"

text \<open>\<open>LteMacBase::isHarqReset\<close>: the H-ARQ processes of a peer were aborted in this TTI.\<close>

definition isHarqReset :: "(node_id \<Rightarrow> simtime option) \<Rightarrow> simtime \<Rightarrow> node_id \<Rightarrow> bool" where
  "isHarqReset resetHarq now src = (case resetHarq src of None \<Rightarrow> False | Some t \<Rightarrow> t = now)"

section \<open>Insertion\<close>

definition hbr_insertPdu ::
  "(node_id \<Rightarrow> simtime option) \<Rightarrow> simtime \<Rightarrow> codeword \<Rightarrow> packet \<Rightarrow> harq_buffer_rx \<Rightarrow> harq_buffer_rx cpp" where
  "hbr_insertPdu resetHarq now cw pkt b =
     (if isHarqReset resetHarq now (uci_sourceId (pk_info pkt)) then Inr b
      else let acid = uci_acid (pk_info pkt) in
           cpp_bind (vec_idx (hbr_processes b) acid) (\<lambda>p.
           cpp_bind (hr_insertPdu now cw pkt p) (\<lambda>p'.
           Inr (b\<lparr>hbr_processes := (hbr_processes b)[acid := p']\<rparr>))))"

section \<open>Sweeps over all codewords\<close>

definition hbr_pairs :: "nat \<Rightarrow> (nat \<times> codeword) list" where
  "hbr_pairs n = List.product [0..<n] [0..<MAX_CODEWORDS]"

definition hbr_sweep ::
  "(codeword \<Rightarrow> harq_process_rx \<Rightarrow> (harq_process_rx \<times> 'o list) cpp) \<Rightarrow> (nat \<times> codeword) list \<Rightarrow>
   harq_process_rx list \<times> 'o list \<Rightarrow> (harq_process_rx list \<times> 'o list) cpp" where
  "hbr_sweep body = cpp_fold (\<lambda>(i, cw) (ps, out).
     cpp_bind (vec_idx ps i) (\<lambda>p.
     cpp_bind (body cw p) (\<lambda>(p', o'). Inr (ps[i := p'], out @ o'))))"

definition hbr_feedbackBody ::
  "numerology_map \<Rightarrow> simtime \<Rightarrow> codeword \<Rightarrow> harq_process_rx \<Rightarrow> (harq_process_rx \<times> harq_effect list) cpp" where
  "hbr_feedbackBody nm now cw p =
     cpp_bind (hr_isEvaluated nm now cw p) (\<lambda>ev.
     if ev then cpp_bind (hr_createFeedback nm now cw p) (\<lambda>(p', fb, info, effs).
                Inr (p', effs @ [Send_Lower_Feedback fb info]))
     else Inr (p, []))"

definition hbr_sendFeedback ::
  "numerology_map \<Rightarrow> simtime \<Rightarrow> harq_buffer_rx \<Rightarrow> (harq_buffer_rx \<times> harq_effect list) cpp" where
  "hbr_sendFeedback nm now b =
     cpp_bind (hbr_sweep (hbr_feedbackBody nm now) (hbr_pairs (hbr_numHarqProcesses b))
                (hbr_processes b, [])) (\<lambda>(ps, effs). Inr (b\<lparr>hbr_processes := ps\<rparr>, effs))"

definition hbr_purgeBody :: "codeword \<Rightarrow> harq_process_rx \<Rightarrow> (harq_process_rx \<times> unit list) cpp" where
  "hbr_purgeBody cw p =
     cpp_bind (hr_getUnitStatus cw p) (\<lambda>st.
     if st = RXHARQ_PDU_CORRUPTED then
       cpp_bind (hr_purgeCorruptedPdu cw p) (\<lambda>p1.
       cpp_bind (hr_resetCodeword cw p1) (\<lambda>p2. Inr (p2, [()])))
     else Inr (p, []))"

definition hbr_purgeCorruptedPdus :: "harq_buffer_rx \<Rightarrow> (harq_buffer_rx \<times> nat) cpp" where
  "hbr_purgeCorruptedPdus b =
     cpp_bind (hbr_sweep hbr_purgeBody (hbr_pairs (hbr_numHarqProcesses b)) (hbr_processes b, []))
       (\<lambda>(ps, purged). Inr (b\<lparr>hbr_processes := ps\<rparr>, length purged))"

definition hbr_extractBody :: "codeword \<Rightarrow> harq_process_rx \<Rightarrow> (harq_process_rx \<times> packet list) cpp" where
  "hbr_extractBody cw p =
     cpp_bind (hr_isCorrect cw p) (\<lambda>c.
     if c then cpp_bind (hr_extractPdu cw p) (\<lambda>(p', k). Inr (p', [k])) else Inr (p, []))"

text \<open>
  The statistics of one extracted PDU. The sizes are summed in \<open>unsigned int\<close>. The delay is
  emitted through \<open>macUe_\<close> without a test for null, the throughput through \<open>macUe_emit\<close> with one.
\<close>

definition hbr_stats ::
  "simtime \<Rightarrow> simtime \<Rightarrow> packet \<Rightarrow> (32 word \<times> harq_buffer_rx \<times> harq_effect list) \<Rightarrow>
   (32 word \<times> harq_buffer_rx \<times> harq_effect list) cpp" where
  "hbr_stats warmup now k = (\<lambda>(cell, b, effs).
     if \<not> hbr_macUe b then Inl Undefined_Behaviour
     else
       let size = word_of_int (pk_getByteLength k) :: 32 word;
           cell' = cell + size; tot' = hbr_totalRcvdBytes b + size;
           den = now - warmup;
           tput = of_nat (unat tot') / den; cellTput = of_nat (unat cell') / den
       in Inr (cell', b\<lparr>hbr_totalRcvdBytes := tot'\<rparr>,
               effs @ [Emit_Mac_Delay (now - pk_creationTime k)]
                    @ (if den > 0 then [Emit_Cell_Throughput cellTput] else [])
                    @ (if den > 0 then
                         (if uci_direction (pk_info k) = DL then [Emit_Throughput Mac_Owner tput]
                          else if hbr_macUe b then [Emit_Throughput Mac_Dst tput] else [])
                       else [])))"

text \<open>
  A PDU's statistics do not depend on the processes, so the extraction sweep comes first and the
  statistics follow for the extracted PDUs, in order.
\<close>

definition hbr_extractCorrectPdus ::
  "numerology_map \<Rightarrow> simtime \<Rightarrow> simtime \<Rightarrow> 32 word \<Rightarrow> harq_buffer_rx \<Rightarrow>
   (32 word \<times> harq_buffer_rx \<times> packet list \<times> harq_effect list) cpp" where
  "hbr_extractCorrectPdus nm warmup now cell b =
     cpp_bind (hbr_sendFeedback nm now b) (\<lambda>(b1, effs1).
     cpp_bind (hbr_sweep hbr_extractBody (hbr_pairs (hbr_numHarqProcesses b1)) (hbr_processes b1, []))
       (\<lambda>(ps, ret).
     cpp_bind (cpp_fold (hbr_stats warmup now) ret (cell, b1\<lparr>hbr_processes := ps\<rparr>, effs1))
       (\<lambda>(cell', b2, effs). Inr (cell', b2, ret, effs))))"

section \<open>Queries\<close>

definition hbr_firstAvailable :: "harq_buffer_rx \<Rightarrow> unit_list cpp" where
  "hbr_firstAvailable b =
     (let acid = (case find (\<lambda>i. hr_isEmpty (hbr_processes b ! i)) [0..<hbr_numHarqProcesses b] of
                    None \<Rightarrow> HARQ_NONE | Some i \<Rightarrow> i mod 256)
      in if acid \<noteq> HARQ_NONE then
           cpp_bind (vec_idx (hbr_processes b) acid) (\<lambda>p. Inr (acid, hr_emptyUnitsIds p))
         else Inr (acid, []))"

definition hbr_getEmptyUnits :: "nat \<Rightarrow> harq_buffer_rx \<Rightarrow> unit_list cpp" where
  "hbr_getEmptyUnits acid b =
     cpp_bind (vec_idx (hbr_processes b) acid) (\<lambda>p. Inr (acid, hr_emptyUnitsIds p))"

definition hbr_getBufferStatus :: "harq_buffer_rx \<Rightarrow> (nat \<times> rx_harq_pdu_status) list list" where
  "hbr_getBufferStatus b = map (\<lambda>i. hr_getProcessStatus (hbr_processes b ! i)) [0..<hbr_numHarqProcesses b]"

definition hbr_isHarqBufferActive :: "harq_buffer_rx \<Rightarrow> bool" where
  "hbr_isHarqBufferActive b = list_ex hr_isHarqProcessActive (hbr_processes b)"

section \<open>What a sweep does\<close>

text \<open>
  The body returns on a well-formed process; its visible output at a codeword (the part selected
  by \<open>vis\<close>) is a function \<open>seen\<close> of the process which visits to the other codeword do not change;
  and it establishes \<open>post\<close> at its codeword, which they do not change either.
\<close>

definition hbr_bodySpec ::
  "(codeword \<Rightarrow> harq_process_rx \<Rightarrow> (harq_process_rx \<times> 'o list) cpp) \<Rightarrow> ('o \<Rightarrow> bool) \<Rightarrow>
   (codeword \<Rightarrow> harq_process_rx \<Rightarrow> 'o list) \<Rightarrow> (codeword \<Rightarrow> harq_process_rx \<Rightarrow> bool) \<Rightarrow> bool" where
  "hbr_bodySpec body vis seen post \<longleftrightarrow> (\<forall>cw p. cw < 2 \<longrightarrow> hr_wf p \<longrightarrow>
     (\<exists>p' out. body cw p = Inr (p', out) \<and> hr_wf p' \<and> filter vis out = seen cw p \<and> post cw p'
        \<and> (\<forall>c < 2. c \<noteq> cw \<longrightarrow> seen c p' = seen c p \<and> (post c p \<longrightarrow> post c p'))))"

lemma hbr_sweep_spec:
  assumes "hbr_bodySpec body vis seen post"
    and "distinct prs" "\<forall>(i, cw) \<in> set prs. i < length ps \<and> cw < 2" "list_all hr_wf ps"
  shows "\<exists>ps' out'. hbr_sweep body prs (ps, out) = Inr (ps', out @ out')
     \<and> length ps' = length ps \<and> list_all hr_wf ps'
     \<and> filter vis out' = concat (map (\<lambda>(i, cw). seen cw (ps ! i)) prs)
     \<and> (\<forall>(i, cw) \<in> set prs. post cw (ps' ! i))
     \<and> (\<forall>i < length ps. \<forall>c < 2. (i, c) \<notin> set prs \<longrightarrow> post c (ps ! i) \<longrightarrow> post c (ps' ! i))"
  using assms(2-4)
proof (induction prs arbitrary: ps out)
  case Nil
  then show ?case by (simp add: hbr_sweep_def)
next
  case (Cons pr prs)
  obtain i cw where pr: "pr = (i, cw)" by fastforce
  have icw: "i < length ps" "cw < 2" "hr_wf (ps ! i)"
    using Cons.prems(2,3) by (auto simp: pr list_all_length)
  obtain p' o1 where b: "body cw (ps ! i) = Inr (p', o1)" "hr_wf p'" "filter vis o1 = seen cw (ps ! i)"
    "post cw p'" "\<forall>c < 2. c \<noteq> cw \<longrightarrow> seen c p' = seen c (ps ! i) \<and> (post c (ps ! i) \<longrightarrow> post c p')"
    using assms(1) icw unfolding hbr_bodySpec_def by blast
  let ?ps = "ps[i := p']"
  have prems: "distinct prs" "\<forall>(i, cw) \<in> set prs. i < length ?ps \<and> cw < 2" "list_all hr_wf ?ps"
    using Cons.prems b(2) by (auto intro: set_update_list_all)
  obtain ps' o2 where s: "hbr_sweep body prs (?ps, out @ o1) = Inr (ps', (out @ o1) @ o2)"
    and l: "length ps' = length ?ps" "list_all hr_wf ps'"
    and f: "filter vis o2 = concat (map (\<lambda>(i, cw). seen cw (?ps ! i)) prs)"
    and q: "\<forall>(i, cw) \<in> set prs. post cw (ps' ! i)"
    and q': "\<forall>i < length ?ps. \<forall>c < 2. (i, c) \<notin> set prs \<longrightarrow> post c (?ps ! i) \<longrightarrow> post c (ps' ! i)"
    using Cons.IH[OF prems, of "out @ o1"] by auto
  have notin: "(i, cw) \<notin> set prs" using Cons.prems(1) by (simp add: pr)
  have same: "seen c (?ps ! j) = seen c (ps ! j)" if "(j, c) \<in> set prs" for j c
  proof (cases "j = i")
    case True
    then have "c \<noteq> cw" "c < 2" using that notin Cons.prems(2) by auto
    with b(5) True icw show ?thesis by simp
  qed simp
  have "map (\<lambda>(i, cw). seen cw (?ps ! i)) prs = map (\<lambda>(i, cw). seen cw (ps ! i)) prs"
    using same by auto
  with f have f': "filter vis o2 = concat (map (\<lambda>(i, cw). seen cw (ps ! i)) prs)" by (simp only:)
  have "hbr_sweep body (pr # prs) (ps, out) = Inr (ps', out @ (o1 @ o2))"
    using s b(1) icw(1) by (simp add: hbr_sweep_def pr)
  moreover have "post cw (ps' ! i)" using q' notin icw b(4) by simp
  moreover have "post c (ps' ! j)"
    if "j < length ps" "c < 2" "(j, c) \<notin> set (pr # prs)" "post c (ps ! j)" for j c
  proof -
    have "post c (?ps ! j)" using that b(5) icw(1) by (cases "j = i") (auto simp: pr)
    with q' that show ?thesis by auto
  qed
  ultimately show ?case using l f' q b(3) by (intro exI conjI) (auto simp: pr)
qed

section \<open>The three sweeps\<close>

definition hbr_wf :: "harq_buffer_rx \<Rightarrow> bool" where
  "hbr_wf b = (length (hbr_processes b) = hbr_numHarqProcesses b \<and> list_all hr_wf (hbr_processes b))"

lemma hbr_wf_new: "harq_buffer_rx_new macById n owner nodeId = Inr b \<Longrightarrow> hbr_wf b"
  by (auto simp: harq_buffer_rx_new_def hbr_wf_def list_all_iff hr_wf_new split: if_splits)

lemma hbr_pairs_ok:
  "distinct (hbr_pairs n)" "(i, cw) \<in> set (hbr_pairs n) \<longleftrightarrow> i < n \<and> cw < 2"
  by (auto simp: hbr_pairs_def distinct_product MAX_CODEWORDS_def)

lemma hbr_sweep_all:
  assumes "hbr_bodySpec body vis seen post" "hbr_wf b"
  shows "\<exists>ps' out. hbr_sweep body (hbr_pairs (hbr_numHarqProcesses b)) (hbr_processes b, []) = Inr (ps', out)
     \<and> hbr_wf (b\<lparr>hbr_processes := ps'\<rparr>)
     \<and> filter vis out = concat (map (\<lambda>(i, cw). seen cw (hbr_processes b ! i)) (hbr_pairs (hbr_numHarqProcesses b)))
     \<and> (\<forall>i < length ps'. \<forall>cw < 2. post cw (ps' ! i))"
proof -
  have "\<forall>(i, cw) \<in> set (hbr_pairs (hbr_numHarqProcesses b)). i < length (hbr_processes b) \<and> cw < 2"
    using assms(2) by (auto simp: hbr_pairs_ok hbr_wf_def)
  from hbr_sweep_spec[OF assms(1) hbr_pairs_ok(1) this, of "[]"] assms(2)
  show ?thesis by (fastforce simp: hbr_wf_def hbr_pairs_ok)
qed

text \<open>Extraction: the codewords in state CORRECT, in order, and none is left.\<close>

definition hr_correctPdus :: "codeword \<Rightarrow> harq_process_rx \<Rightarrow> packet list" where
  "hr_correctPdus cw p = (if hr_status p ! cw = RXHARQ_PDU_CORRECT then [the (hr_pdu p ! cw)] else [])"

lemma hr_correctPdus_reset:
  "hr_wf p \<Longrightarrow> cw < 2 \<Longrightarrow> hr_resetCodeword cw p = Inr p' \<Longrightarrow> c \<noteq> cw \<Longrightarrow>
     hr_status p' ! c = hr_status p ! c \<and> hr_pdu p' ! c = hr_pdu p ! c \<and> hr_rxTime p' ! c = hr_rxTime p ! c
     \<and> hr_result p' ! c = hr_result p ! c"
  by (auto simp: hr_resetCodeword_eq)

lemma hbr_extractBody_spec:
  "hbr_bodySpec hbr_extractBody (\<lambda>_. True) hr_correctPdus (\<lambda>cw p. hr_status p ! cw \<noteq> RXHARQ_PDU_CORRECT)"
  unfolding hbr_bodySpec_def
proof (intro allI impI)
  fix cw p assume cw: "cw < (2::nat)" and wf: "hr_wf p"
  note len = hr_wfD(2)[OF wf]
  show "\<exists>p' out. hbr_extractBody cw p = Inr (p', out) \<and> hr_wf p' \<and>
          filter (\<lambda>_. True) out = hr_correctPdus cw p \<and> hr_status p' ! cw \<noteq> RXHARQ_PDU_CORRECT \<and>
          (\<forall>c<2. c \<noteq> cw \<longrightarrow> hr_correctPdus c p' = hr_correctPdus c p \<and>
             (hr_status p ! c \<noteq> RXHARQ_PDU_CORRECT \<longrightarrow> hr_status p' ! c \<noteq> RXHARQ_PDU_CORRECT))"
  proof (cases "hr_status p ! cw = RXHARQ_PDU_CORRECT")
    case True
    then obtain p' k where e: "hr_extractPdu cw p = Inr (p', k)" using hr_extractPdu_ok[OF wf cw] by blast
    note i = hr_extractPdu_Inr[OF e wf]
    have r: "hr_resetCodeword cw p = Inr p'" using e True cw i(3) wf
      by (auto simp: hr_extractPdu_def hr_isCorrect_def cpp_bind_Inr_iff vec_at_Inr_iff)
    have "hbr_extractBody cw p = Inr (p', [k])"
      using True cw len e by (simp add: hbr_extractBody_def hr_isCorrect_def)
    with i True cw len hr_correctPdus_reset[OF wf cw r] show ?thesis by (simp add: hr_correctPdus_def)
  next
    case False
    with cw len wf show ?thesis by (simp add: hbr_extractBody_def hr_isCorrect_def hr_correctPdus_def)
  qed
qed

text \<open>Purging: no corrupted codeword is left.\<close>

lemma hbr_purgeBody_spec:
  "hbr_bodySpec hbr_purgeBody (\<lambda>_. True)
     (\<lambda>cw p. if hr_status p ! cw = RXHARQ_PDU_CORRUPTED then [()] else [])
     (\<lambda>cw p. hr_status p ! cw \<noteq> RXHARQ_PDU_CORRUPTED)"
  unfolding hbr_bodySpec_def
proof (intro allI impI)
  fix cw p assume cw: "cw < (2::nat)" and wf: "hr_wf p"
  note len = hr_wfD(2)[OF wf]
  have e: "hbr_purgeBody cw p = (if hr_status p ! cw = RXHARQ_PDU_CORRUPTED
     then cpp_bind (hr_resetCodeword cw p) (\<lambda>p2. Inr (p2, [()])) else Inr (p, []))"
    using cw hr_wfD[OF wf] by (simp add: hbr_purgeBody_def hr_getUnitStatus_def
        hr_purgeCorruptedPdu_def hr_resetCodeword_def)
  obtain p' where r: "hr_resetCodeword cw p = Inr p'" using hr_resetCodeword_eq[OF wf cw] by blast
  note k = hr_correctPdus_reset[OF wf cw r] hr_resetCodeword_wf[OF r wf]
  have s: "hr_status p' ! cw = RXHARQ_PDU_EMPTY" using r hr_resetCodeword_eq[OF wf cw] cw len by auto
  show "\<exists>p' out. hbr_purgeBody cw p = Inr (p', out) \<and> hr_wf p' \<and>
          filter (\<lambda>_. True) out = (if hr_status p ! cw = RXHARQ_PDU_CORRUPTED then [()] else []) \<and>
          hr_status p' ! cw \<noteq> RXHARQ_PDU_CORRUPTED \<and>
          (\<forall>c<2. c \<noteq> cw \<longrightarrow> (if hr_status p' ! c = RXHARQ_PDU_CORRUPTED then [()] else []) =
              (if hr_status p ! c = RXHARQ_PDU_CORRUPTED then [()] else []) \<and>
             (hr_status p ! c \<noteq> RXHARQ_PDU_CORRUPTED \<longrightarrow> hr_status p' ! c \<noteq> RXHARQ_PDU_CORRUPTED))"
    using k s r wf by (cases "hr_status p ! cw = RXHARQ_PDU_CORRUPTED") (simp_all add: e)
qed

text \<open>Feedback: one message per codeword that is due, and none is left waiting for one.\<close>

definition hr_isDue :: "numerology_map \<Rightarrow> simtime \<Rightarrow> codeword \<Rightarrow> harq_process_rx \<Rightarrow> bool" where
  "hr_isDue nm now cw p =
     (hr_status p ! cw = RXHARQ_PDU_EVALUATING \<and> hr_due nm now cw p (the (hr_pdu p ! cw)))"

definition hr_feedbackDue :: "numerology_map \<Rightarrow> simtime \<Rightarrow> codeword \<Rightarrow> harq_process_rx \<Rightarrow> harq_effect list" where
  "hr_feedbackDue nm now cw p = (if hr_isDue nm now cw p then
     [Send_Lower_Feedback \<lparr>fb_acid = hr_acid p, fb_cw = cw, fb_result = hr_result p ! cw,
        fb_macPduId = mp_macPduId (pk_pdu (the (hr_pdu p ! cw)))\<rparr>
        (hr_feedbackInfo (pk_info (the (hr_pdu p ! cw))))] else [])"

definition is_feedback :: "harq_effect \<Rightarrow> bool" where
  "is_feedback e = (case e of Send_Lower_Feedback _ _ \<Rightarrow> True | _ \<Rightarrow> False)"

lemma hr_afterFeedback_frame:
  assumes "hr_afterFeedback cw i r p = Inr (p', effs)" "hr_wf p" "cw < 2"
  shows "\<forall>c < 2. c \<noteq> cw \<longrightarrow> hr_status p' ! c = hr_status p ! c \<and> hr_pdu p' ! c = hr_pdu p ! c
      \<and> hr_rxTime p' ! c = hr_rxTime p ! c \<and> hr_result p' ! c = hr_result p ! c"
    and "hr_acid p' = hr_acid p" "hr_harqFbEvaluationTimer p' = hr_harqFbEvaluationTimer p"
    and "hr_status p' ! cw \<noteq> RXHARQ_PDU_EVALUATING" "filter is_feedback effs = []"
  using assms(1,3) hr_wfD(2)[OF assms(2)]
  by (auto simp: hr_afterFeedback_eq[OF assms(2,3)] is_feedback_def split: if_splits)

lemma hbr_feedbackBody_spec:
  "hbr_bodySpec (hbr_feedbackBody nm now) is_feedback (hr_feedbackDue nm now) (\<lambda>cw p. \<not> hr_isDue nm now cw p)"
  unfolding hbr_bodySpec_def
proof (intro allI impI)
  fix cw p assume cw: "cw < (2::nat)" and wf: "hr_wf p"
  have ev: "hr_isEvaluated nm now cw p = Inr (hr_isDue nm now cw p)"
    using hr_isEvaluated_eq[OF wf cw] by (simp add: hr_isDue_def)
  show "\<exists>p' out. hbr_feedbackBody nm now cw p = Inr (p', out) \<and> hr_wf p' \<and>
          filter is_feedback out = hr_feedbackDue nm now cw p \<and> \<not> hr_isDue nm now cw p' \<and>
          (\<forall>c<2. c \<noteq> cw \<longrightarrow> hr_feedbackDue nm now c p' = hr_feedbackDue nm now c p \<and>
             (\<not> hr_isDue nm now c p \<longrightarrow> \<not> hr_isDue nm now c p'))"
  proof (cases "hr_isDue nm now cw p")
    case True
    then obtain k where k: "hr_pdu p ! cw = Some k" "hr_status p ! cw = RXHARQ_PDU_EVALUATING"
      "hr_due nm now cw p k"
      using hr_wfD(5)[OF wf cw] by (auto simp: hr_isDue_def hr_cw_ok_def)
    obtain p' effs where a: "hr_afterFeedback cw (pk_info k) (hr_result p ! cw) p = Inr (p', effs)"
      by (cases "hr_afterFeedback cw (pk_info k) (hr_result p ! cw) p")
        (auto simp: hr_afterFeedback_eq[OF wf cw] split: if_splits)
    have c: "hr_createFeedback nm now cw p = Inr (p', \<lparr>fb_acid = hr_acid p, fb_cw = cw,
        fb_result = hr_result p ! cw, fb_macPduId = mp_macPduId (pk_pdu k)\<rparr>, hr_feedbackInfo (pk_info k), effs)"
      using hr_createFeedback_eq[OF wf cw k] a by simp
    note fr = hr_afterFeedback_frame[OF a wf cw] and w = hr_createFeedback_wf[OF c wf]
    have "hbr_feedbackBody nm now cw p = Inr (p', effs @ [Send_Lower_Feedback \<lparr>fb_acid = hr_acid p,
        fb_cw = cw, fb_result = hr_result p ! cw, fb_macPduId = mp_macPduId (pk_pdu k)\<rparr>
        (hr_feedbackInfo (pk_info k))])"
      using True ev c by (simp add: hbr_feedbackBody_def)
    moreover have "hr_isDue nm now c p' = hr_isDue nm now c p" if "c < 2" "c \<noteq> cw" for c
      using fr that by (simp add: hr_isDue_def hr_due_def)
    ultimately show ?thesis using fr w k True
      by (auto simp: hr_feedbackDue_def hr_isDue_def is_feedback_def)
  next
    case False
    with ev wf show ?thesis by (simp add: hbr_feedbackBody_def hr_feedbackDue_def)
  qed
qed

section \<open>The reception work of a TTI\<close>

lemma hbr_sendFeedback_ok:
  assumes "hbr_wf b"
  shows "\<exists>ps effs. hbr_sendFeedback nm now b = Inr (b\<lparr>hbr_processes := ps\<rparr>, effs)
    \<and> hbr_wf (b\<lparr>hbr_processes := ps\<rparr>)
    \<and> filter is_feedback effs = concat (map (\<lambda>(i, cw). hr_feedbackDue nm now cw (hbr_processes b ! i))
          (hbr_pairs (hbr_numHarqProcesses b)))
    \<and> (\<forall>i < length ps. \<forall>cw < 2. \<not> hr_isDue nm now cw (ps ! i))"
  using hbr_sweep_all[OF hbr_feedbackBody_spec assms, of nm now]
  by (auto simp: hbr_sendFeedback_def)

lemma hbr_purgeCorruptedPdus_ok:
  assumes "hbr_wf b"
  shows "\<exists>b' n. hbr_purgeCorruptedPdus b = Inr (b', n) \<and> hbr_wf b'
    \<and> (\<forall>i < length (hbr_processes b'). \<forall>cw < 2. hr_status (hbr_processes b' ! i) ! cw \<noteq> RXHARQ_PDU_CORRUPTED)"
  using hbr_sweep_all[OF hbr_purgeBody_spec assms] by (auto simp: hbr_purgeCorruptedPdus_def)

text \<open>The bytes of the extracted PDUs are added to both counters, modulo \<open>2 ^ 32\<close>.\<close>

definition pk_totalSize :: "packet list \<Rightarrow> 32 word" where
  "pk_totalSize ks = sum_list (map (\<lambda>k. word_of_int (pk_getByteLength k)) ks)"

lemma hbr_stats_fold:
  assumes "hbr_macUe b"
  shows "\<exists>effs'. cpp_fold (hbr_stats warmup now) ks (cell, b, effs) =
     Inr (cell + pk_totalSize ks, b\<lparr>hbr_totalRcvdBytes := hbr_totalRcvdBytes b + pk_totalSize ks\<rparr>, effs')"
  using assms
proof (induction ks arbitrary: cell b effs)
  case Nil
  then show ?case by (simp add: pk_totalSize_def)
next
  case (Cons k ks)
  let ?s = "word_of_int (pk_getByteLength k) :: 32 word"
  obtain effs1 where s: "hbr_stats warmup now k (cell, b, effs) =
      Inr (cell + ?s, b\<lparr>hbr_totalRcvdBytes := hbr_totalRcvdBytes b + ?s\<rparr>, effs1)"
    using Cons.prems by (simp add: hbr_stats_def Let_def)
  from Cons.IH[of "b\<lparr>hbr_totalRcvdBytes := hbr_totalRcvdBytes b + ?s\<rparr>" "cell + ?s" effs1] Cons.prems s
  show ?case by (auto simp: pk_totalSize_def algebra_simps)
qed

lemma hbr_extractCorrectPdus_ok:
  assumes "hbr_wf b" "hbr_macUe b"
  shows "\<exists>ps1 effs1 ps2 effs. let ret = concat (map (\<lambda>(i, cw). hr_correctPdus cw (ps1 ! i))
                                          (hbr_pairs (hbr_numHarqProcesses b))) in
      hbr_sendFeedback nm now b = Inr (b\<lparr>hbr_processes := ps1\<rparr>, effs1)
    \<and> hbr_extractCorrectPdus nm warmup now cell b = Inr (cell + pk_totalSize ret,
         b\<lparr>hbr_processes := ps2, hbr_totalRcvdBytes := hbr_totalRcvdBytes b + pk_totalSize ret\<rparr>, ret, effs)
    \<and> hbr_wf (b\<lparr>hbr_processes := ps2\<rparr>)
    \<and> (\<forall>i < length ps2. \<forall>cw < 2. hr_status (ps2 ! i) ! cw \<noteq> RXHARQ_PDU_CORRECT)"
proof -
  obtain ps1 effs1 where f: "hbr_sendFeedback nm now b = Inr (b\<lparr>hbr_processes := ps1\<rparr>, effs1)"
    and w1: "hbr_wf (b\<lparr>hbr_processes := ps1\<rparr>)"
    using hbr_sendFeedback_ok[OF assms(1), of nm now] by (elim exE conjE) (rule that)
  let ?ret = "concat (map (\<lambda>(i, cw). hr_correctPdus cw (ps1 ! i)) (hbr_pairs (hbr_numHarqProcesses b)))"
  from hbr_sweep_all[OF hbr_extractBody_spec w1]
  obtain ps2 ret where s: "hbr_sweep hbr_extractBody (hbr_pairs (hbr_numHarqProcesses b)) (ps1, []) = Inr (ps2, ret)"
    and w: "hbr_wf (b\<lparr>hbr_processes := ps2\<rparr>)" and r: "ret = ?ret"
    and q: "\<forall>i < length ps2. \<forall>cw < 2. hr_status (ps2 ! i) ! cw \<noteq> RXHARQ_PDU_CORRECT"
    by (elim exE conjE) (rule that, simp_all)
  obtain effs where st: "cpp_fold (hbr_stats warmup now) ret (cell, b\<lparr>hbr_processes := ps2\<rparr>, effs1) =
     Inr (cell + pk_totalSize ret, b\<lparr>hbr_processes := ps2, hbr_totalRcvdBytes :=
        hbr_totalRcvdBytes b + pk_totalSize ret\<rparr>, effs)"
    using hbr_stats_fold[of "b\<lparr>hbr_processes := ps2\<rparr>" warmup now ret cell effs1] assms(2) by auto
  have "hbr_extractCorrectPdus nm warmup now cell b = Inr (cell + pk_totalSize ret,
     b\<lparr>hbr_processes := ps2, hbr_totalRcvdBytes := hbr_totalRcvdBytes b + pk_totalSize ret\<rparr>, ret, effs)"
    using f s st by (simp add: hbr_extractCorrectPdus_def)
  then show ?thesis
    unfolding Let_def r[symmetric] using f w q r by (intro exI conjI) (assumption | simp)+
qed

text \<open>
  Without the pointer to the UE's MAC the first extracted PDU is undefined behaviour: the delay is
  emitted through it unguarded.
\<close>

lemma hbr_stats_noUe: "\<not> hbr_macUe b \<Longrightarrow> cpp_fold (hbr_stats warmup now) (k # ks) (cell, b, effs) = Inl Undefined_Behaviour"
  by (simp add: hbr_stats_def)

end
