(* ===== verification/Harq_Link.thy ===== *)
theory Harq_Link
  imports Harq_Unit_Tx Harq_Process_Rx
begin

text \<open>
  The two ends of an H-ARQ process together. A round extracts the PDU of a transmission unit,
  gives it to the reception process with the decoding result the physical layer chose, lets the
  reception process answer, and gives the answer to the unit; a delivered PDU is taken from the
  reception process in the same round, a unit that is ready again is selected for the next.
  While one codeword is in use, both ends count the same transmissions, so they give up together.
\<close>

section \<open>Rounds\<close>

text \<open>A round is sent at \<open>t1\<close> and answered at \<open>t2\<close>; \<open>r\<close> is the decoding result.\<close>

type_synonym link_state = "harq_unit_tx \<times> harq_process_rx"

definition link_decide :: "bool \<Rightarrow> packet \<Rightarrow> packet" where
  "link_decide r k = k\<lparr>pk_info := (pk_info k)\<lparr>uci_deciderResult := r\<rparr>\<rparr>"

definition link_round ::
  "numerology_map \<Rightarrow> codeword \<Rightarrow> simtime \<times> simtime \<times> bool \<Rightarrow> link_state \<Rightarrow> (link_state \<times> packet list) cpp" where
  "link_round nm cw = (\<lambda>(t1, t2, r) (u, p).
     cpp_bind (hu_extractPdu t1 u) (\<lambda>(u1, k).
     cpp_bind (hr_insertPdu t1 cw (link_decide r k) p) (\<lambda>p1.
     cpp_bind (hr_createFeedback nm t2 cw p1) (\<lambda>(p2, fb, _, _).
     cpp_bind (hu_pduFeedback (if fb_result fb then HARQACK else HARQNACK) u1) (\<lambda>(u2, reset, _).
     cpp_bind (if reset then Inr u2 else hu_markSelected u2) (\<lambda>u3.
     cpp_bind (hr_isCorrect cw p2) (\<lambda>c.
     if c then cpp_bind (hr_extractPdu cw p2) (\<lambda>(p3, d). Inr ((u3, p3), [d]))
     else Inr ((u3, p2), []))))))))"

text \<open>Rounds until the unit is empty; the PDUs delivered to the receiving MAC.\<close>

fun link_run ::
  "numerology_map \<Rightarrow> codeword \<Rightarrow> (simtime \<times> simtime \<times> bool) list \<Rightarrow> link_state \<Rightarrow>
   (link_state \<times> packet list) cpp" where
  "link_run nm cw [] s = Inr (s, [])"
| "link_run nm cw (x # xs) s =
     (if hu_isEmpty (fst s) then Inr (s, [])
      else cpp_bind (link_round nm cw x s) (\<lambda>(s', ds).
           cpp_bind (link_run nm cw xs s') (\<lambda>(s'', ds'). Inr (s'', ds @ ds'))))"

section \<open>The two ends in step\<close>

text \<open>
  Before a round: the unit is selected, and the reception process has counted as many
  transmissions as the unit made and holds the last failed one.
\<close>

definition link_inv :: "codeword \<Rightarrow> link_state \<Rightarrow> bool" where
  "link_inv cw = (\<lambda>(u, p). hu_wf u \<and> hu_isMarked u \<and> hr_wf p \<and> cw < 2
     \<and> hr_transmissions p = hu_transmissions u
     \<and> unat (hr_maxHarqRtx p) = unat (hu_maxHarqRtx u)
     \<and> hr_status p ! cw = (if hu_transmissions u = 0 then RXHARQ_PDU_EMPTY else RXHARQ_PDU_CORRUPTED)
     \<and> hu_nodeB u \<noteq> None \<and> (\<exists>k. hu_pdu u = Some k \<and> uci_direction (pk_info k) \<in> {DL, UL}))"

text \<open>The feedback of a round is sent after the evaluation time of the carrier.\<close>

definition link_timed :: "numerology_map \<Rightarrow> link_state \<Rightarrow> simtime \<times> simtime \<times> bool \<Rightarrow> bool" where
  "link_timed nm = (\<lambda>(u, p) (t1, t2, r). t2 - t1 \<ge>
     getSlotDurationFromNumerologyIndex
       (getNumerologyIndexFromCarrierFreq nm (uci_carrierFrequency (pk_info (the (hu_pdu u)))))
     * of_int (int (unat (hr_harqFbEvaluationTimer p)) - 1))"

lemma word_unat_eq_0: "unat (w :: 8 word) = 0 \<longleftrightarrow> w = 0"
  by (simp add: unat_eq_0)

text \<open>What the unit hands to the receiver, and how the receiver takes it.\<close>

lemma link_receive:
  assumes "hr_wf p" "cw < 2" "hr_status p ! cw = (if t = 0 then RXHARQ_PDU_EMPTY else RXHARQ_PDU_CORRUPTED)"
    and "uci_ndi (pk_info k) \<longleftrightarrow> t + 1 = (1 :: 8 word)" "hr_transmissions p = t"
    and "unat t < 255" "t2 - t1 \<ge> getSlotDurationFromNumerologyIndex
       (getNumerologyIndexFromCarrierFreq nm (uci_carrierFrequency (pk_info k)))
       * of_int (int (unat (hr_harqFbEvaluationTimer p)) - 1)"
  shows "\<exists>p1 p2 info effs. hr_insertPdu t1 cw k p = Inr p1 \<and> hr_wf p1
    \<and> hr_pdu p1 ! cw = Some k
    \<and> hr_createFeedback nm t2 cw p1 = Inr (p2, \<lparr>fb_acid = hr_acid p, fb_cw = cw,
         fb_result = uci_deciderResult (pk_info k), fb_macPduId = mp_macPduId (pk_pdu k)\<rparr>, info, effs)
    \<and> hr_wf p2 \<and> hr_maxHarqRtx p2 = hr_maxHarqRtx p \<and> hr_harqFbEvaluationTimer p2 = hr_harqFbEvaluationTimer p
    \<and> (if uci_deciderResult (pk_info k) then hr_status p2 ! cw = RXHARQ_PDU_CORRECT \<and> hr_pdu p2 ! cw = Some k
       else if unat t + 1 = unat (hr_maxHarqRtx p) + 1
         then hr_status p2 ! cw = RXHARQ_PDU_EMPTY \<and> hr_transmissions p2 = 0
       else hr_status p2 ! cw = RXHARQ_PDU_CORRUPTED \<and> hr_transmissions p2 = t + 1)"
proof -
  note len = hr_wfD(1-4)[OF assms(1)]
  have ndi: "hr_status p ! cw = RXHARQ_PDU_EMPTY \<or> hr_status p ! cw = RXHARQ_PDU_CORRUPTED \<and> \<not> uci_ndi (pk_info k)"
    using assms(3,4) by auto
  let ?p1 = "p\<lparr>hr_pdu := (hr_pdu p)[cw := Some k],
      hr_status := (hr_status p)[cw := RXHARQ_PDU_EVALUATING], hr_rxTime := (hr_rxTime p)[cw := t1],
      hr_result := (hr_result p)[cw := uci_deciderResult (pk_info k)],
      hr_transmissions := hr_transmissions p + 1\<rparr>"
  have ins: "hr_insertPdu t1 cw k p = Inr ?p1" by (rule hr_insertPdu_eq[OF assms(1,2) ndi])
  have wf1: "hr_wf ?p1" by (rule hr_insertPdu_wf[OF ins assms(1)])
  have f1: "hr_pdu ?p1 ! cw = Some k" "hr_status ?p1 ! cw = RXHARQ_PDU_EVALUATING" "hr_due nm t2 cw ?p1 k"
    "hr_result ?p1 ! cw = uci_deciderResult (pk_info k)"
    using len assms(2,7) by (simp_all add: hr_due_def)
  have tr: "unat (hr_transmissions ?p1) = unat t + 1" using assms(5,6) by (simp add: unat_word_ariths)
  note cf = hr_createFeedback_eq[OF wf1 assms(2) f1(1-3)]
  obtain p2 effs where a: "hr_afterFeedback cw (pk_info k) (uci_deciderResult (pk_info k)) ?p1 = Inr (p2, effs)"
    by (cases "hr_afterFeedback cw (pk_info k) (uci_deciderResult (pk_info k)) ?p1")
      (auto simp: hr_afterFeedback_eq[OF wf1 assms(2)] split: if_splits)
  have c: "hr_createFeedback nm t2 cw ?p1 = Inr (p2, \<lparr>fb_acid = hr_acid p, fb_cw = cw,
         fb_result = uci_deciderResult (pk_info k), fb_macPduId = mp_macPduId (pk_pdu k)\<rparr>,
         hr_feedbackInfo (pk_info k), effs)"
    using cf f1(4) a by simp
  have res: "hr_maxHarqRtx p2 = hr_maxHarqRtx p \<and> hr_harqFbEvaluationTimer p2 = hr_harqFbEvaluationTimer p
    \<and> (if uci_deciderResult (pk_info k) then hr_status p2 ! cw = RXHARQ_PDU_CORRECT \<and> hr_pdu p2 ! cw = Some k
       else if unat t + 1 = unat (hr_maxHarqRtx p) + 1
         then hr_status p2 ! cw = RXHARQ_PDU_EMPTY \<and> hr_transmissions p2 = 0
       else hr_status p2 ! cw = RXHARQ_PDU_CORRUPTED \<and> hr_transmissions p2 = t + 1)"
    using hr_afterFeedback_Inr[OF a wf1 assms(2)] tr f1(1) assms(5) by simp
  show ?thesis
    by (intro exI conjI) (use ins wf1 f1(1) c hr_createFeedback_wf[OF c wf1] res in \<open>assumption | simp\<close>)+
qed

section \<open>One round\<close>

lemma hu_nackState:
  assumes "hu_wf u" "hu_status u = TXHARQ_PDU_WAITING" "hu_pdu u = Some k"
    and "uci_direction (pk_info k) \<in> {DL, UL}" "hu_nodeB u \<noteq> None"
  shows "\<exists>effs. hu_pduFeedback a u = Inr
     (if a = HARQACK \<or> unat (hu_transmissions u) = unat (hu_maxHarqRtx u) + 1
      then (hu_resetUnit u, True, effs) else (u\<lparr>hu_status := TXHARQ_PDU_BUFFERED\<rparr>, False, effs))"
proof -
  obtain u' reset effs where f: "hu_pduFeedback a u = Inr (u', reset, effs)"
    using hu_pduFeedback_ok[OF assms(3,2,4,5)] by blast
  note i = hu_pduFeedback_Inr[OF f assms(1)]
  show ?thesis using f i(2,3) by (intro exI[of _ effs]) simp
qed

text \<open>A unit that waits and has a transmission left may be buffered and selected again.\<close>

lemma hu_wf_again:
  assumes "hu_wf u" "hu_status u = TXHARQ_PDU_WAITING" "unat (hu_transmissions u) \<le> unat (hu_maxHarqRtx u)"
  shows "hu_wf (u\<lparr>hu_status := TXHARQ_PDU_SELECTED\<rparr>)"
  using assms by (auto simp: hu_wf_defs hu_status_defs split: option.splits)

text \<open>
  The three outcomes of a round: delivery, another try with both counters one higher, or both
  ends empty after the last allowed transmission.
\<close>

lemma link_round_ok:
  assumes inv: "link_inv cw (u, p)" and tm: "link_timed nm (u, p) (t1, t2, r)" and k: "hu_pdu u = Some k"
  shows "\<exists>u' p' ds. link_round nm cw (t1, t2, r) (u, p) = Inr ((u', p'), ds) \<and>
    (if r then hu_isEmpty u' \<and> hr_status p' ! cw = RXHARQ_PDU_EMPTY \<and> map pk_pdu ds = [pk_pdu k]
     else ds = [] \<and>
       (if unat (hu_transmissions u) = unat (hu_maxHarqRtx u)
        then hu_isEmpty u' \<and> hr_status p' ! cw = RXHARQ_PDU_EMPTY
        else link_inv cw (u', p') \<and> unat (hu_transmissions u') = unat (hu_transmissions u) + 1
          \<and> hu_maxHarqRtx u' = hu_maxHarqRtx u
          \<and> hr_harqFbEvaluationTimer p' = hr_harqFbEvaluationTimer p
          \<and> (\<exists>k'. hu_pdu u' = Some k' \<and> pk_pdu k' = pk_pdu k
               \<and> uci_carrierFrequency (pk_info k') = uci_carrierFrequency (pk_info k))))"
proof -
  let ?t = "hu_transmissions u" and ?u1 = "hu_sent t1 u"
  let ?k1 = "hu_number (?t + 1) k"
  let ?k2 = "link_decide r ?k1"
  from inv have wf: "hu_wf u" and mk: "hu_isMarked u" and pw: "hr_wf p" and cw: "cw < 2"
    and tr: "hr_transmissions p = ?t" and mx: "unat (hr_maxHarqRtx p) = unat (hu_maxHarqRtx u)"
    and st: "hr_status p ! cw = (if ?t = 0 then RXHARQ_PDU_EMPTY else RXHARQ_PDU_CORRUPTED)"
    and nb: "hu_nodeB u \<noteq> None" and dir: "uci_direction (pk_info k) \<in> {DL, UL}"
    using k by (auto simp: link_inv_def)
  have bound: "unat ?t \<le> unat (hu_maxHarqRtx u)" "unat ?t < 255" "unat (?t + 1) = unat ?t + 1"
    using wf mk by (auto simp: hu_wf_defs hu_status_defs uchar_succ)
  have ex: "hu_extractPdu t1 u = Inr (?u1, ?k1)" using hu_extractPdu_marked[OF wf mk, of t1] k
    by (simp add: hu_sent_def)
  have wf1: "hu_wf ?u1" by (rule hu_extractPdu_wf[OF wf ex])
  have "t2 - t1 \<ge> getSlotDurationFromNumerologyIndex
       (getNumerologyIndexFromCarrierFreq nm (uci_carrierFrequency (pk_info ?k2)))
       * of_int (int (unat (hr_harqFbEvaluationTimer p)) - 1)"
    using tm k by (simp add: link_timed_def link_decide_def hu_number_def)
  from link_receive[OF pw cw st _ tr bound(2) this]
  obtain p1 p2 info effs where ins: "hr_insertPdu t1 cw ?k2 p = Inr p1"
    and cf: "hr_createFeedback nm t2 cw p1 = Inr (p2, \<lparr>fb_acid = hr_acid p, fb_cw = cw,
         fb_result = r, fb_macPduId = mp_macPduId (pk_pdu ?k2)\<rparr>, info, effs)"
    and w2: "hr_wf p2" "hr_maxHarqRtx p2 = hr_maxHarqRtx p" "hr_harqFbEvaluationTimer p2 = hr_harqFbEvaluationTimer p"
    and res: "if r then hr_status p2 ! cw = RXHARQ_PDU_CORRECT \<and> hr_pdu p2 ! cw = Some ?k2
       else if unat ?t + 1 = unat (hr_maxHarqRtx p) + 1
         then hr_status p2 ! cw = RXHARQ_PDU_EMPTY \<and> hr_transmissions p2 = 0
       else hr_status p2 ! cw = RXHARQ_PDU_CORRUPTED \<and> hr_transmissions p2 = ?t + 1"
    by (auto simp: link_decide_def hu_number_def)
  have k1: "hu_pdu ?u1 = Some ?k1" using k by (simp add: hu_sent_def)
  have nb1: "hu_nodeB ?u1 \<noteq> None" and dir1: "uci_direction (pk_info ?k1) \<in> {DL, UL}"
    and m1: "hu_maxHarqRtx ?u1 = hu_maxHarqRtx u" and t1': "hu_transmissions ?u1 = ?t + 1"
    using nb dir by (simp_all add: hu_sent_def hu_number_def)
  obtain effs' where fb: "hu_pduFeedback (if r then HARQACK else HARQNACK) ?u1 = Inr
     (if (if r then HARQACK else HARQNACK) = HARQACK \<or> unat (?t + 1) = unat (hu_maxHarqRtx u) + 1
      then (hu_resetUnit ?u1, True, effs') else (?u1\<lparr>hu_status := TXHARQ_PDU_BUFFERED\<rparr>, False, effs'))"
    using hu_nackState[OF wf1 hu_sent_status(2) k1 dir1 nb1, of "if r then HARQACK else HARQNACK"]
    unfolding m1 t1' by blast
  have isc: "hr_isCorrect cw p2 = Inr (hr_status p2 ! cw = RXHARQ_PDU_CORRECT)"
    using cw hr_wfD(2)[OF w2(1)] by (simp add: hr_isCorrect_def)
  show ?thesis
  proof (cases r)
    case True
    then have c: "hr_status p2 ! cw = RXHARQ_PDU_CORRECT" "hr_pdu p2 ! cw = Some ?k2" using res by simp_all
    obtain p3 d where e: "hr_extractPdu cw p2 = Inr (p3, d)" using hr_extractPdu_ok[OF w2(1) cw c(1)] by blast
    note x = hr_extractPdu_Inr[OF e w2(1)]
    have "link_round nm cw (t1, t2, r) (u, p) = Inr ((hu_resetUnit ?u1, p3), [d])"
      using ex ins cf fb isc c(1) e True by (simp add: link_round_def)
    moreover have "pk_pdu d = pk_pdu k"
    proof -
      have "d = ?k2" using x(3) c(2) by simp
      then show ?thesis by (simp add: link_decide_def hu_number_def)
    qed
    moreover have "hr_status p3 ! cw = RXHARQ_PDU_EMPTY" using x(5) cw hr_wfD(2)[OF w2(1)] by simp
    moreover have "hu_isEmpty (hu_resetUnit ?u1)" by (simp add: hu_isEmpty_def hu_resetUnit_def)
    ultimately show ?thesis using True by auto
  next
    case False
    then have nc: "hr_status p2 ! cw \<noteq> RXHARQ_PDU_CORRECT" using res by (auto split: if_splits)
    show ?thesis
    proof (cases "unat ?t = unat (hu_maxHarqRtx u)")
      case True
      have "link_round nm cw (t1, t2, r) (u, p) = Inr ((hu_resetUnit ?u1, p2), [])"
        using ex ins cf fb isc nc False True bound(3) by (simp add: link_round_def)
      moreover have "hu_isEmpty (hu_resetUnit ?u1)" by (simp add: hu_isEmpty_def hu_resetUnit_def)
      ultimately show ?thesis using False True res mx by auto
    next
      case more: False
      let ?u3 = "?u1\<lparr>hu_status := TXHARQ_PDU_SELECTED\<rparr>"
      have "link_round nm cw (t1, t2, r) (u, p) = Inr ((?u3, p2), [])"
        using ex ins cf fb isc nc False more bound(3)
        by (simp add: link_round_def hu_markSelected_def hu_isReady_def)
      moreover have "link_inv cw (?u3, p2)"
      proof -
        have ne: "?t + 1 \<noteq> 0" using bound(3) by (metis unat_0 Suc_eq_plus1 nat.distinct(1))
        have "hu_wf ?u3" by (rule hu_wf_again[OF wf1]) (use more bound t1' m1 in auto)
        with False more res mx w2 cw nb1 dir1 k1 ne m1 t1' show ?thesis
          by (simp add: link_inv_def hu_isMarked_def)
      qed
      ultimately show ?thesis using False more bound(3) k1 t1' m1 w2(3)
        by (auto simp: hu_number_def)
    qed
  qed
qed

section \<open>A whole exchange\<close>

text \<open>
  With as many rounds as the budget allows, the exchange ends with both ends empty, and the PDU is
  delivered once if some transmission was decoded, never otherwise. The hypothesis on times is
  stated on the first state: the carrier and the evaluation timer do not change on the way.
\<close>

lemma link_run_empty: "hu_isEmpty u \<Longrightarrow> link_run nm cw xs (u, p) = Inr ((u, p), [])"
  by (cases xs) simp_all

lemma link_run_ok:
  assumes "link_inv cw (u, p)" "list_all (link_timed nm (u, p)) xs" "hu_pdu u = Some k"
    and "unat (hu_maxHarqRtx u) + 1 \<le> unat (hu_transmissions u) + length xs"
  shows "\<exists>u' p' ds. link_run nm cw xs (u, p) = Inr ((u', p'), ds) \<and> hu_isEmpty u'
    \<and> hr_status p' ! cw = RXHARQ_PDU_EMPTY
    \<and> map pk_pdu ds = (if list_ex (\<lambda>(_, _, r). r)
          (take (unat (hu_maxHarqRtx u) + 1 - unat (hu_transmissions u)) xs) then [pk_pdu k] else [])"
  using assms
proof (induction xs arbitrary: u p k)
  case Nil
  then have "unat (hu_transmissions u) \<le> unat (hu_maxHarqRtx u)"
    by (auto simp: link_inv_def hu_wf_defs hu_status_defs)
  with Nil show ?case by simp
next
  case (Cons x xs)
  obtain t1 t2 r where x: "x = (t1, t2, r)" using prod_cases3 by blast
  have mk: "\<not> hu_isEmpty u" and le: "unat (hu_transmissions u) \<le> unat (hu_maxHarqRtx u)"
    using Cons.prems(1) by (auto simp: link_inv_def hu_wf_defs hu_status_defs)
  then have tk: "unat (hu_maxHarqRtx u) + 1 - unat (hu_transmissions u)
      = Suc (unat (hu_maxHarqRtx u) - unat (hu_transmissions u))" by simp
  have tm: "link_timed nm (u, p) (t1, t2, r)" using Cons.prems(2) by (simp add: x)
  from link_round_ok[OF Cons.prems(1) tm Cons.prems(3)]
  obtain u1 p1 ds where rd: "link_round nm cw x (u, p) = Inr ((u1, p1), ds)"
    and res: "if r then hu_isEmpty u1 \<and> hr_status p1 ! cw = RXHARQ_PDU_EMPTY \<and> map pk_pdu ds = [pk_pdu k]
     else ds = [] \<and>
       (if unat (hu_transmissions u) = unat (hu_maxHarqRtx u)
        then hu_isEmpty u1 \<and> hr_status p1 ! cw = RXHARQ_PDU_EMPTY
        else link_inv cw (u1, p1) \<and> unat (hu_transmissions u1) = unat (hu_transmissions u) + 1
          \<and> hu_maxHarqRtx u1 = hu_maxHarqRtx u
          \<and> hr_harqFbEvaluationTimer p1 = hr_harqFbEvaluationTimer p
          \<and> (\<exists>k'. hu_pdu u1 = Some k' \<and> pk_pdu k' = pk_pdu k
               \<and> uci_carrierFrequency (pk_info k') = uci_carrierFrequency (pk_info k)))"
    unfolding x by blast
  have run: "link_run nm cw (x # xs) (u, p) = cpp_bind (link_run nm cw xs (u1, p1))
      (\<lambda>(s'', ds'). Inr (s'', ds @ ds'))"
    using rd mk by simp
  show ?case
  proof (cases "r \<or> unat (hu_transmissions u) = unat (hu_maxHarqRtx u)")
    case True
    then have e: "hu_isEmpty u1" "hr_status p1 ! cw = RXHARQ_PDU_EMPTY"
      "map pk_pdu ds = (if r then [pk_pdu k] else [])" using res by (auto split: if_splits)
    have "link_run nm cw (x # xs) (u, p) = Inr ((u1, p1), ds)" using run link_run_empty[OF e(1)] by simp
    with e True tk show ?thesis by (auto simp: x split: if_splits)
  next
    case False
    with res obtain k' where c: "ds = []" "link_inv cw (u1, p1)"
      "unat (hu_transmissions u1) = unat (hu_transmissions u) + 1" "hu_maxHarqRtx u1 = hu_maxHarqRtx u"
      "hr_harqFbEvaluationTimer p1 = hr_harqFbEvaluationTimer p" "hu_pdu u1 = Some k'"
      "pk_pdu k' = pk_pdu k" "uci_carrierFrequency (pk_info k') = uci_carrierFrequency (pk_info k)"
      by auto
    have "link_timed nm (u1, p1) = link_timed nm (u, p)"
      using c Cons.prems(3) by (simp add: link_timed_def)
    then have "list_all (link_timed nm (u1, p1)) xs" using Cons.prems(2) by simp
    from Cons.IH[OF c(2) this c(6)] c Cons.prems(4)
    obtain u' p' ds' where ih: "link_run nm cw xs (u1, p1) = Inr ((u', p'), ds')" "hu_isEmpty u'"
      "hr_status p' ! cw = RXHARQ_PDU_EMPTY"
      "map pk_pdu ds' = (if list_ex (\<lambda>(_, _, r). r)
          (take (unat (hu_maxHarqRtx u) + 1 - unat (hu_transmissions u1)) xs) then [pk_pdu k] else [])"
      by auto
    have "link_run nm cw (x # xs) (u, p) = Inr ((u', p'), ds')" using run ih(1) c(1) by simp
    with ih False tk c(3) show ?thesis by (auto simp: x)
  qed
qed

end
