(* ===== verification/Harq_Properties.thy ===== *)
theory Harq_Properties
  imports Harq_Buffer_Tx Harq_Buffer_Rx Harq_Link
begin

text \<open>
  What the H-ARQ entities promise, with a concrete instance of every statement that has a
  hypothesis: a base station that sends to one UE, three retransmissions allowed, a carrier of
  numerology 0 (1 ms slots) and feedback after four slots.
\<close>

section \<open>A configuration\<close>

definition ex_enb :: mac_info where
  "ex_enb = \<lparr>mi_nodeId = 1, mi_nodeType = ENODEB, mi_cellId = 1, mi_maxHarqRtx = 3,
             mi_harqFbEvaluationTimer = 4\<rparr>"

definition ex_ue :: mac_info where
  "ex_ue = \<lparr>mi_nodeId = 1025, mi_nodeType = UE, mi_cellId = 1, mi_maxHarqRtx = 3,
            mi_harqFbEvaluationTimer = 4\<rparr>"

definition ex_macs :: "node_id \<Rightarrow> mac_info option" where
  "ex_macs n = (if n = 1 then Some ex_enb else if n = 1025 then Some ex_ue else None)"

definition ex_pdu :: "int \<Rightarrow> mac_pdu" where
  "ex_pdu n = \<lparr>mp_id = n, mp_macPduId = 0, mp_headerLength = 4, mp_macPduLength = 100,
               mp_sduList = [\<lparr>sdu_id = nat n, sdu_byteLength = 100\<rparr>], mp_ceList = []\<rparr>"

definition ex_packet :: "int \<Rightarrow> codeword \<Rightarrow> packet" where
  "ex_packet n cw = \<lparr>pk_pdu = ex_pdu n,
     pk_info = user_control_info_new\<lparr>uci_sourceId := 1, uci_destId := 1025, uci_cw := cw\<rparr>,
     pk_creationTime = 0\<rparr>"

definition ex_buffer :: harq_buffer_tx where
  "ex_buffer = harq_buffer_tx_new ex_macs 2 ex_enb ex_ue"

lemmas ex_defs = ex_enb_def ex_ue_def ex_macs_def ex_pdu_def ex_packet_def ex_buffer_def
  user_control_info_new_def

section \<open>The life of a transmitted PDU\<close>

text \<open>One failed transmission of a selected unit; a unit that survives it is selected again.\<close>

definition hu_nackRound :: "simtime \<Rightarrow> harq_unit_tx \<Rightarrow> (harq_unit_tx \<times> harq_effect list) cpp" where
  "hu_nackRound now u =
     cpp_bind (hu_extractPdu now u) (\<lambda>(u1, _).
     cpp_bind (hu_pduFeedback HARQNACK u1) (\<lambda>(u2, reset, effs).
     cpp_bind (if reset then Inr u2 else hu_markSelected u2) (\<lambda>u3. Inr (u3, effs))))"

fun hu_nackRounds :: "simtime list \<Rightarrow> harq_unit_tx \<Rightarrow> (harq_unit_tx \<times> harq_effect list) cpp" where
  "hu_nackRounds [] u = Inr (u, [])"
| "hu_nackRounds (t # ts) u =
     cpp_bind (hu_nackRound t u) (\<lambda>(u1, effs).
     cpp_bind (hu_nackRounds ts u1) (\<lambda>(u2, effs'). Inr (u2, effs @ effs')))"

definition hu_discards :: "harq_effect list \<Rightarrow> mac_pdu list" where
  "hu_discards effs = List.map_filter (\<lambda>e. case e of Discard_Mac_Pdu k \<Rightarrow> Some (pk_pdu k) | _ \<Rightarrow> None) effs"

lemma hu_discards_append: "hu_discards (xs @ ys) = hu_discards xs @ hu_discards ys"
  by (simp add: hu_discards_def map_filter_def)

lemma hu_discards_simps [simp]:
  "hu_discards [] = []"
  "hu_discards (Discard_Mac_Pdu k # es) = pk_pdu k # hu_discards es"
  "hu_discards (Signal_Process_For_Rtx n f d # es) = hu_discards es"
  "hu_discards (Emit m fam s v # es) = hu_discards es"
  "hu_discards (Record_Harq_Error_Rate m v d # es) = hu_discards es"
  by (simp_all add: hu_discards_def map_filter_def)

lemma hu_discards_stats: "hu_discards (hu_feedbackStats a ue fam dir ntx sample reset) = []"
  by (auto simp: hu_feedbackStats_def hu_discards_append)

text \<open>A unit that can go through a round.\<close>

definition hu_sendable :: "mac_pdu \<Rightarrow> harq_unit_tx \<Rightarrow> bool" where
  "hu_sendable m u = (hu_wf u \<and> hu_isMarked u \<and> hu_nodeB u \<noteq> None \<and>
     (\<exists>k. hu_pdu u = Some k \<and> pk_pdu k = m \<and> uci_direction (pk_info k) \<in> {DL, UL}))"

lemma hu_nackRound_ok:
  assumes "hu_sendable m u"
  shows "\<exists>u' effs. hu_nackRound now u = Inr (u', effs) \<and>
    (if unat (hu_transmissions u) = unat (hu_maxHarqRtx u)
     then u' = hu_resetUnit (hu_sent now u) \<and> hu_discards effs = [m]
     else hu_sendable m u' \<and> unat (hu_transmissions u') = unat (hu_transmissions u) + 1
        \<and> hu_maxHarqRtx u' = hu_maxHarqRtx u \<and> hu_discards effs = [])"
proof -
  let ?u1 = "hu_sent now u" and ?t = "hu_transmissions u"
  obtain k where k: "hu_pdu u = Some k" "pk_pdu k = m" "uci_direction (pk_info k) \<in> {DL, UL}"
    and wf: "hu_wf u" "hu_isMarked u" "hu_nodeB u \<noteq> None" using assms by (auto simp: hu_sendable_def)
  have bound: "unat ?t \<le> unat (hu_maxHarqRtx u)" "unat (hu_maxHarqRtx u) < 255" "unat (?t + 1) = unat ?t + 1"
    using wf by (auto simp: hu_wf_defs hu_status_defs uchar_succ)
  have ex: "hu_extractPdu now u = Inr (?u1, hu_number (?t + 1) k)"
    using hu_extractPdu_marked[OF wf(1,2), of now] k by (simp add: hu_sent_def)
  have wf1: "hu_wf ?u1" by (rule hu_extractPdu_wf[OF wf(1) ex])
  have u1: "hu_pdu ?u1 = Some (hu_number (?t + 1) k)" "hu_nodeB ?u1 \<noteq> None" "hu_transmissions ?u1 = ?t + 1"
    "hu_maxHarqRtx ?u1 = hu_maxHarqRtx u" "uci_direction (pk_info (hu_number (?t + 1) k)) \<in> {DL, UL}"
    "pk_pdu (hu_number (?t + 1) k) = m"
    using k wf by (simp_all add: hu_sent_def hu_number_def)
  have lim: "(ucast (?t + 1) :: 32 word) = hu_maxHarqRtx u + 1 \<longleftrightarrow> unat ?t = unat (hu_maxHarqRtx u)"
    using rtx_limit_iff[OF bound(2), of "?t + 1"] bound(3) by simp
  have again: "unat ?t \<noteq> unat (hu_maxHarqRtx u) \<Longrightarrow> hu_wf (?u1\<lparr>hu_status := TXHARQ_PDU_SELECTED\<rparr>)"
    using hu_wf_again[OF wf1] bound u1 by simp
  show ?thesis
    using ex u1 wf lim again k bound(3)
    by (auto simp: hu_nackRound_def hu_pduFeedback_def hu_feedbackState_def hu_markSelected_def
        hu_status_defs Let_def hu_discards_append hu_discards_stats hu_sendable_def)
qed

lemma hu_nackRounds_ok:
  assumes "hu_sendable m u" "unat (hu_transmissions u) + length ts \<le> unat (hu_maxHarqRtx u) + 1"
  shows "\<exists>u' effs. hu_nackRounds ts u = Inr (u', effs) \<and>
    (if unat (hu_transmissions u) + length ts = unat (hu_maxHarqRtx u) + 1
     then hu_isEmpty u' \<and> hu_transmissions u' = 0 \<and> hu_discards effs = [m]
     else hu_sendable m u' \<and> unat (hu_transmissions u') = unat (hu_transmissions u) + length ts
        \<and> hu_discards effs = [])"
  using assms
proof (induction ts arbitrary: u)
  case Nil
  then have "unat (hu_transmissions u) \<le> unat (hu_maxHarqRtx u)"
    by (auto simp: hu_sendable_def hu_wf_defs hu_status_defs)
  with Nil show ?case by simp
next
  case (Cons t ts)
  have le: "unat (hu_transmissions u) \<le> unat (hu_maxHarqRtx u)" using Cons.prems(2) by simp
  obtain u1 effs where r: "hu_nackRound t u = Inr (u1, effs)"
    and c: "if unat (hu_transmissions u) = unat (hu_maxHarqRtx u)
     then u1 = hu_resetUnit (hu_sent t u) \<and> hu_discards effs = [m]
     else hu_sendable m u1 \<and> unat (hu_transmissions u1) = unat (hu_transmissions u) + 1
        \<and> hu_maxHarqRtx u1 = hu_maxHarqRtx u \<and> hu_discards effs = []"
    using hu_nackRound_ok[OF Cons.prems(1), of t] by blast
  show ?case
  proof (cases "unat (hu_transmissions u) = unat (hu_maxHarqRtx u)")
    case True
    then have "ts = []" using Cons.prems(2) by simp
    with True r c show ?thesis by (simp add: hu_resetUnit_def hu_isEmpty_def)
  next
    case False
    with c have s: "hu_sendable m u1" "unat (hu_transmissions u1) = unat (hu_transmissions u) + 1"
      "hu_maxHarqRtx u1 = hu_maxHarqRtx u" "hu_discards effs = []" by auto
    have "unat (hu_transmissions u1) + length ts \<le> unat (hu_maxHarqRtx u1) + 1"
      using Cons.prems(2) s by simp
    from Cons.IH[OF s(1) this] show ?thesis using r s False
      by (auto simp: hu_discards_append split: if_splits)
  qed
qed

section \<open>Properties of the H-ARQ entities\<close>

definition ex_unit :: harq_unit_tx where
  "ex_unit = (case hu_insertPdu (Some (ex_packet 7 0)) (harq_unit_tx_new ex_macs 0 0 ex_enb ex_ue) of
     Inr u \<Rightarrow> u | Inl _ \<Rightarrow> harq_unit_tx_new ex_macs 0 0 ex_enb ex_ue)"

lemma ex_unit_eq:
  "ex_unit = \<lparr>hu_pdu = Some ((ex_packet 7 0)\<lparr>pk_pdu := (ex_pdu 7)\<lparr>mp_macPduId := 7\<rparr>\<rparr>), hu_pduId = 7,
     hu_pduLength = Some 104, hu_acid = 0, hu_cw = 0, hu_transmissions = 0,
     hu_status = TXHARQ_PDU_SELECTED, hu_txTime = 0, hu_macOwner = ex_enb, hu_dstMac = ex_ue,
     hu_nodeB = Some ex_enb, hu_maxHarqRtx = 3, hu_signals = Signals_Dl\<rparr>"
  by (simp add: ex_unit_def hu_insertPdu_def harq_unit_tx_new_def hu_isEmpty_def ex_defs is_nodeB_def
      Let_def pk_getByteLength_def mp_getByteLength_def)

lemma ex_unit_fields:
  "hu_pdu ex_unit = Some ((ex_packet 7 0)\<lparr>pk_pdu := (ex_pdu 7)\<lparr>mp_macPduId := 7\<rparr>\<rparr>)"
  "hu_transmissions ex_unit = 0" "hu_maxHarqRtx ex_unit = 3"
  by (simp_all add: ex_unit_eq)

lemma ex_unit_wf: "hu_wf ex_unit" "hu_isMarked ex_unit"
  by (simp_all add: ex_unit_eq hu_wf_defs hu_status_defs ex_defs)

text \<open>
  C1. One codeword, a transmitter and a receiver in step: with the whole retransmission budget
  available, the exchange of a PDU ends with both ends empty, and the PDU is delivered exactly
  once when one of the transmissions within the budget is decoded, and never otherwise.
\<close>

theorem harq_exchange_delivers_once:
  assumes "link_inv cw (u, p)" "list_all (link_timed nm (u, p)) xs" "hu_pdu u = Some k"
    and "unat (hu_maxHarqRtx u) + 1 \<le> unat (hu_transmissions u) + length xs"
  shows "\<exists>u' p' ds. link_run nm cw xs (u, p) = Inr ((u', p'), ds) \<and> hu_isEmpty u'
    \<and> hr_status p' ! cw = RXHARQ_PDU_EMPTY
    \<and> map pk_pdu ds = (if list_ex (\<lambda>(_, _, r). r)
          (take (unat (hu_maxHarqRtx u) + 1 - unat (hu_transmissions u)) xs) then [pk_pdu k] else [])"
  using assms by (rule link_run_ok)

lemma harq_exchange_delivers_once_witness:
  "\<exists>u' p' ds. link_run (\<lambda>_. None) 0 [(0, 4/1000, False), (8/1000, 12/1000, False),
       (16/1000, 20/1000, True), (24/1000, 28/1000, False)] (ex_unit, harq_process_rx_new 0 ex_ue)
       = Inr ((u', p'), ds) \<and> hu_isEmpty u' \<and> hr_status p' ! 0 = RXHARQ_PDU_EMPTY
       \<and> map pk_pdu ds = [(ex_pdu 7)\<lparr>mp_macPduId := 7\<rparr>]"
proof -
  have i: "link_inv 0 (ex_unit, harq_process_rx_new 0 ex_ue)"
    using ex_unit_wf hr_wf_new[of 0 ex_ue]
    by (simp add: link_inv_def ex_unit_eq harq_process_rx_new_def ex_defs MAX_CODEWORDS_def)
  have t: "list_all (link_timed (\<lambda>_. None) (ex_unit, harq_process_rx_new 0 ex_ue))
     [(0, 4/1000, False), (8/1000, 12/1000, False), (16/1000, 20/1000, True), (24/1000, 28/1000, False)]"
    by (simp add: link_timed_def ex_unit_eq harq_process_rx_new_def ex_defs
        getNumerologyIndexFromCarrierFreq_def getSlotDurationFromNumerologyIndex_def)
  show ?thesis
    using harq_exchange_delivers_once[OF i t ex_unit_fields(1)]
    by (simp add: ex_unit_fields del: link_run.simps)
qed

text \<open>
  C2. A unit that is never acknowledged is sent exactly \<open>maxHarqRtx + 1\<close> times: it stays selected
  with one more transmission counted per round, and the last round, and no other, discards its PDU
  and empties the unit.
\<close>

theorem harq_gives_up_after_budget:
  assumes "hu_sendable m u" "unat (hu_transmissions u) + length ts \<le> unat (hu_maxHarqRtx u) + 1"
  shows "\<exists>u' effs. hu_nackRounds ts u = Inr (u', effs) \<and>
    (if unat (hu_transmissions u) + length ts = unat (hu_maxHarqRtx u) + 1
     then hu_isEmpty u' \<and> hu_transmissions u' = 0 \<and> hu_discards effs = [m]
     else hu_sendable m u' \<and> unat (hu_transmissions u') = unat (hu_transmissions u) + length ts
        \<and> hu_discards effs = [])"
  using assms by (rule hu_nackRounds_ok)

lemma harq_gives_up_after_budget_witness:
  "\<exists>u' effs. hu_nackRounds [0, 8/1000, 16/1000, 24/1000] ex_unit = Inr (u', effs) \<and> hu_isEmpty u'
     \<and> hu_transmissions u' = 0 \<and> hu_discards effs = [(ex_pdu 7)\<lparr>mp_macPduId := 7\<rparr>]"
proof -
  have s: "hu_sendable ((ex_pdu 7)\<lparr>mp_macPduId := 7\<rparr>) ex_unit"
    using ex_unit_wf by (simp add: hu_sendable_def ex_unit_eq ex_defs)
  show ?thesis using harq_gives_up_after_budget[OF s, of "[0, 8/1000, 16/1000, 24/1000]"]
    by (simp add: ex_unit_fields del: hu_nackRounds.simps)
qed

text \<open>
  C3. Whatever the MAC does with a transmission buffer, from its construction on: the counters of
  every process are right, every unit is well formed and no selected unit is outside the process
  that the next \<open>sendSelectedDown\<close> serves.
\<close>

theorem harq_tx_invariant:
  assumes "hb_reachable (harq_buffer_tx_new macById n owner dst) b"
    and "unat (mi_maxHarqRtx owner) < 255" "n < HARQ_NONE"
  shows "hb_wf b \<and> hb_sel_ok b"
  using hb_reachable_sel_ok[OF assms(1) hb_wf_new[OF assms(2,3)] hb_sel_ok_new] .

definition ex_buffer1 :: harq_buffer_tx where
  "ex_buffer1 = (case hb_insertPdu 0 0 (ex_packet 7 0) ex_buffer of Inr (b, _) \<Rightarrow> b | Inl _ \<Rightarrow> ex_buffer)"

lemma ex_buffer1_ok: "\<exists>effs. hb_insertPdu 0 0 (ex_packet 7 0) ex_buffer = Inr (ex_buffer1, effs)"
  by (simp add: ex_buffer1_def ex_buffer_def harq_buffer_tx_new_def harq_process_tx_new_def
      harq_unit_tx_new_def hb_insertPdu_def hp_isEmpty_def hp_isUnitEmpty_def hu_isEmpty_def
      hp_insertPdu_def hu_insertPdu_def hp_setUnit_def hp_getPdu_def hu_getPdu_def Let_def
      harq_consts ex_packet_def user_control_info_new_def upt_rec is_nodeB_def ex_enb_def)

lemma ex_buffer1_reachable: "hb_reachable (harq_buffer_tx_new ex_macs 2 ex_enb ex_ue) ex_buffer1"
proof -
  obtain effs where "hb_insertPdu 0 0 (ex_packet 7 0) ex_buffer = Inr (ex_buffer1, effs)"
    using ex_buffer1_ok by blast
  then have "hb_step ex_buffer (Insert 0 0 (ex_packet 7 0)) effs ex_buffer1"
    by (rule hb_step.insert) (simp add: hb_sameSelection_def ex_buffer_def harq_buffer_tx_new_def)
  with hb_reachable.start show ?thesis
    unfolding ex_buffer_def[symmetric] by (rule hb_reachable.step)
qed

lemma harq_tx_invariant_witness: "hb_wf ex_buffer1 \<and> hb_sel_ok ex_buffer1"
  using harq_tx_invariant[OF ex_buffer1_reachable] by (simp add: ex_enb_def HARQ_NONE_def)

text \<open>
  On a well-formed buffer with a selection, \<open>sendSelectedDown\<close> returns, sends the PDUs of
  exactly the SELECTED units, each numbered with its next transmission and in codeword order, leaves these
  units WAITING and everything else unchanged, and clears the selection.
\<close>

theorem harq_sendSelectedDown_exact:
  assumes "hb_wf b" "hb_selectedAcid b \<noteq> HARQ_NONE" "p = hb_processes b ! hb_selectedAcid b"
  shows "\<exists>p'. hb_sendSelectedDown now b =
      Inr ((hb_setProcess (hb_selectedAcid b) p' b)\<lparr>hb_selectedAcid := HARQ_NONE\<rparr>,
           map (\<lambda>c. Send_Lower_Packet (the (hu_pdu (hu_sent now (hp_units p ! c))))) (hp_selectedUnitsIds p))
      \<and> length (hp_units p') = length (hp_units p)
      \<and> (\<forall>i < length (hp_units p). hp_units p' ! i =
            (if hu_isMarked (hp_units p ! i) then hu_sent now (hp_units p ! i) else hp_units p ! i))"
  unfolding assms(3) by (rule hb_sendSelectedDown_ok[OF assms(1,2)])

lemma harq_sendSelectedDown_exact_witness:
  "hb_selectedAcid ex_buffer1 = 0 \<and> cpp_ok (hb_sendSelectedDown (1/1000) ex_buffer1)"
proof -
  have w: "hb_wf ex_buffer1"
    using hb_reachable_sel_ok[OF ex_buffer1_reachable hb_wf_new hb_sel_ok_new]
    by (simp add: ex_enb_def HARQ_NONE_def)
  obtain effs where "hb_insertPdu 0 0 (ex_packet 7 0) ex_buffer = Inr (ex_buffer1, effs)"
    using ex_buffer1_ok by blast
  then have s: "hb_selectedAcid ex_buffer1 = 0" by (rule hb_insertPdu_selected)
  show ?thesis using harq_sendSelectedDown_exact[OF w _ refl, of "1/1000"] s
    by (auto simp: HARQ_NONE_def cpp_ok_iff)
qed

text \<open>
  \<open>firstReadyForRtx\<close> answers \<open>HARQ_NONE\<close> exactly when no unit is ready, and otherwise a process
  that holds a ready unit sent no later than every ready unit of the buffer, with the
  list of its ready units.
\<close>

theorem harq_firstReadyForRtx_oldest:
  assumes "hb_wf b" "list_all (hp_past now) (hb_processes b)"
  shows "\<exists>acid cws. hb_firstReadyForRtx now b = Inr (acid, cws) \<and>
    (if acid = HARQ_NONE then cws = [] \<and> \<not> list_ex hp_hasReadyUnits (hb_processes b)
     else acid < length (hb_processes b) \<and> cws = hp_readyUnitsIds (hb_processes b ! acid) \<and> cws \<noteq> []
        \<and> (\<exists>u \<in> set (hp_units (hb_processes b ! acid)). hu_isReady u \<and>
             (\<forall>q \<in> set (hb_processes b). \<forall>v \<in> set (hp_units q). hu_isReady v \<longrightarrow> hu_txTime u \<le> hu_txTime v)))"
  using assms by (rule hb_firstReadyForRtx_spec)

lemma harq_firstReadyForRtx_oldest_witness:
  "hb_firstReadyForRtx 1 ex_buffer = Inr (HARQ_NONE, []) \<and> cpp_ok (hb_firstReadyForRtx 1 ex_buffer)"
proof -
  have w: "hb_wf ex_buffer" unfolding ex_buffer_def by (rule hb_wf_new) (simp_all add: ex_enb_def HARQ_NONE_def)
  have p: "list_all (hp_past 1) (hb_processes ex_buffer)"
    by (auto simp: ex_buffer_def harq_buffer_tx_new_def harq_process_tx_new_def harq_unit_tx_new_def
        hp_past_def list_all_iff hu_status_defs Let_def)
  have n: "\<not> list_ex hp_hasReadyUnits (hb_processes ex_buffer)"
    by (auto simp: ex_buffer_def harq_buffer_tx_new_def harq_process_tx_new_def harq_unit_tx_new_def
        hp_hasReadyUnits_def list_ex_iff hu_status_defs Let_def MAX_CODEWORDS_def)
  have h: "hp_readyUnitsIds q = [] " if "q \<in> set (hb_processes ex_buffer)" for q
    using n that by (auto simp: list_ex_iff hp_hasReadyUnits_def hp_readyUnitsIds_def hp_unitIds_def)
  show ?thesis using harq_firstReadyForRtx_oldest[OF w p] h by (auto split: if_splits)
qed

text \<open>
  C6. When fewer transport blocks are granted than units are ready, the retransmission becomes one
  jumbo PDU: the first unit is selected with the SDUs and control elements of all listed units, in
  list order and none lost, the other listed units are emptied, and no other unit changes.
\<close>

theorem harq_jumbo_conserves:
  assumes "hp_markJumbo (cw # cws) p = Inr p'" "hp_wf p"
  shows "hp_wf p' \<and> length (hp_units p') = length (hp_units p) \<and> distinct (cw # cws)
    \<and> (\<forall>c \<in> set (cw # cws). c < length (hp_units p) \<and> hu_isReady (hp_units p ! c))
    \<and> (\<forall>i < length (hp_units p). i \<noteq> cw \<longrightarrow> hp_units p' ! i =
         (if i \<in> set cws then hu_resetUnit (hp_units p ! i) else hp_units p ! i))
    \<and> hu_isMarked (hp_units p' ! cw)
    \<and> hp_sdus p' cw = concat (map (hp_sdus p) (cw # cws))
    \<and> hp_ces p' cw = concat (map (hp_ces p) (cw # cws))"
  using assms by (rule hp_markJumbo_Inr)

text \<open>Two buffered units of one process, sent once each.\<close>

definition ex_buffered :: "int \<Rightarrow> codeword \<Rightarrow> harq_unit_tx" where
  "ex_buffered n cw = \<lparr>hu_pdu = Some (ex_packet n cw), hu_pduId = n,
     hu_pduLength = Some 104, hu_acid = 0, hu_cw = cw, hu_transmissions = 1,
     hu_status = TXHARQ_PDU_BUFFERED, hu_txTime = 0, hu_macOwner = ex_enb, hu_dstMac = ex_ue,
     hu_nodeB = Some ex_enb, hu_maxHarqRtx = 3, hu_signals = Signals_Dl\<rparr>"

definition ex_process :: harq_process_tx where
  "ex_process = \<lparr>hp_acid = 0, hp_numHarqUnits = 2, hp_units = [ex_buffered 7 0, ex_buffered 8 1],
     hp_numProcesses = 2, hp_numEmptyUnits = 0, hp_numSelected = 0, hp_dropped = False\<rparr>"

lemma ex_process_wf: "hp_wf ex_process"
  by (simp add: ex_process_def ex_buffered_def ex_defs hp_wf_defs hu_wf_defs hu_status_defs)

lemma ex_process_jumbo: "\<exists>p'. hp_markJumbo [0, 1] ex_process = Inr p'"
  by (simp add: hp_markJumbo_def hp_getPdu_def hu_getPdu_def ex_process_def ex_buffered_def ex_defs
      mp_moveSdus_eq mp_moveCes_eq hp_dropPdu_def hu_dropPdu_def hp_setUnit_def hp_setPdu_def
      hp_markSelected_def hu_markSelected_def hu_isReady_def hu_resetUnit_def)

lemma harq_jumbo_conserves_witness:
  "\<exists>p'. hp_markJumbo [0, 1] ex_process = Inr p' \<and> map sdu_id (hp_sdus p' 0) = [7, 8]"
proof -
  obtain p' where j: "hp_markJumbo [0, 1] ex_process = Inr p'" using ex_process_jumbo by blast
  from harq_jumbo_conserves[OF j ex_process_wf] j show ?thesis
    by (simp add: hp_sdus_def ex_process_def ex_buffered_def ex_packet_def ex_pdu_def)
qed

text \<open>
  C7. The reception work of a TTI on a well-formed buffer whose UE is still registered: it returns,
  hands up exactly the PDUs of the codewords that are CORRECT once the due feedback is sent, in
  process and codeword order, leaves no CORRECT codeword behind, and adds their bytes to the
  totals of the buffer and of the cell.
\<close>

theorem harq_extractCorrectPdus_complete:
  assumes "hbr_wf b" "hbr_macUe b"
  shows "\<exists>ps1 effs1 ps2 effs. let ret = concat (map (\<lambda>(i, cw). hr_correctPdus cw (ps1 ! i))
                                          (hbr_pairs (hbr_numHarqProcesses b))) in
      hbr_sendFeedback nm now b = Inr (b\<lparr>hbr_processes := ps1\<rparr>, effs1)
    \<and> hbr_extractCorrectPdus nm warmup now cell b = Inr (cell + pk_totalSize ret,
         b\<lparr>hbr_processes := ps2, hbr_totalRcvdBytes := hbr_totalRcvdBytes b + pk_totalSize ret\<rparr>, ret, effs)
    \<and> hbr_wf (b\<lparr>hbr_processes := ps2\<rparr>)
    \<and> (\<forall>i < length ps2. \<forall>cw < 2. hr_status (ps2 ! i) ! cw \<noteq> RXHARQ_PDU_CORRECT)"
  using assms by (rule hbr_extractCorrectPdus_ok)

definition ex_bufferRx :: harq_buffer_rx where
  "ex_bufferRx = \<lparr>hbr_macOwner = ex_ue, hbr_numHarqProcesses = 2, hbr_nodeId = 1,
     hbr_processes = [(harq_process_rx_new 0 ex_ue)
        \<lparr>hr_pdu := [Some ((ex_packet 7 0)\<lparr>pk_info := (pk_info (ex_packet 7 0))\<lparr>uci_deciderResult := True\<rparr>\<rparr>), None],
         hr_status := [RXHARQ_PDU_EVALUATING, RXHARQ_PDU_EMPTY], hr_result := [True, False],
         hr_transmissions := 1\<rparr>, harq_process_rx_new 1 ex_ue],
     hbr_isMulticast = False, hbr_totalRcvdBytes = 0, hbr_macUe = True\<rparr>"

lemma ex_bufferRx_wf: "hbr_wf ex_bufferRx" "hbr_macUe ex_bufferRx"
  by (simp_all add: ex_bufferRx_def hbr_wf_def hr_wf_def harq_process_rx_new_def MAX_CODEWORDS_def
      hr_cw_ok_def upt_rec)

lemma harq_extractCorrectPdus_complete_witness:
  "cpp_ok (hbr_extractCorrectPdus (\<lambda>_. None) 0 (4/1000) 0 ex_bufferRx)"
  using harq_extractCorrectPdus_complete[OF ex_bufferRx_wf, of "\<lambda>_. None" "4/1000" 0 0]
  by (auto simp: Let_def cpp_ok_iff)

section \<open>Where the code departs from its intent\<close>

text \<open>
  A failed reception at a receiver that purges at the end of every TTI, as the eNodeB and D2D MACs
  do: the PDU is inserted, its NACK is built, the corrupted codeword is purged.
\<close>

definition rx_failRound ::
  "numerology_map \<Rightarrow> simtime \<times> simtime \<Rightarrow> codeword \<Rightarrow> packet \<Rightarrow> harq_process_rx \<Rightarrow> (harq_process_rx \<times> harq_effect list) cpp" where
  "rx_failRound nm ts cw k p =
     cpp_bind (hr_insertPdu (fst ts) cw k p) (\<lambda>p1.
     cpp_bind (hr_createFeedback nm (snd ts) cw p1) (\<lambda>(p2, _, _, effs).
     cpp_bind (hbr_purgeBody cw p2) (\<lambda>(p3, _). Inr (p3, effs))))"

text \<open>
  C8. The purge clears the transmission counter, so a receiver that purges every TTI counts every
  failed reception as the first one: it never reaches its retransmission limit, and a base station
  asks its scheduler for one more retransmission after every failure, however many there were.
\<close>

theorem harq_purge_restarts_count:
  assumes "hr_wf p" "cw < 2" "hr_status p ! cw = RXHARQ_PDU_EMPTY" "hr_transmissions p = 0"
    and "0 < unat (hr_maxHarqRtx p)" "is_nodeB (mi_nodeType (hr_macOwner p))"
    and "\<not> uci_deciderResult (pk_info k)"
    and "snd ts - fst ts \<ge> getSlotDurationFromNumerologyIndex
       (getNumerologyIndexFromCarrierFreq nm (uci_carrierFrequency (pk_info k)))
       * of_int (int (unat (hr_harqFbEvaluationTimer p)) - 1)"
  shows "\<exists>p'. rx_failRound nm ts cw k p = Inr (p', [Signal_Process_For_Rtx (uci_sourceId (pk_info k))
           (uci_carrierFrequency (pk_info k)) (uci_direction (pk_info k))])
     \<and> hr_wf p' \<and> hr_status p' ! cw = RXHARQ_PDU_EMPTY \<and> hr_transmissions p' = 0
     \<and> hr_maxHarqRtx p' = hr_maxHarqRtx p \<and> hr_macOwner p' = hr_macOwner p
     \<and> hr_harqFbEvaluationTimer p' = hr_harqFbEvaluationTimer p"
proof -
  note len = hr_wfD(1-4)[OF assms(1)]
  obtain p1 where p1: "p1 = p\<lparr>hr_pdu := (hr_pdu p)[cw := Some k],
      hr_status := (hr_status p)[cw := RXHARQ_PDU_EVALUATING], hr_rxTime := (hr_rxTime p)[cw := fst ts],
      hr_result := (hr_result p)[cw := uci_deciderResult (pk_info k)], hr_transmissions := hr_transmissions p + 1\<rparr>"
    by simp
  have ins: "hr_insertPdu (fst ts) cw k p = Inr p1"
    unfolding p1 using assms(3) by (intro hr_insertPdu_eq[OF assms(1,2)]) simp
  have wf1: "hr_wf p1" by (rule hr_insertPdu_wf[OF ins assms(1)])
  have f1: "hr_pdu p1 ! cw = Some k" "hr_status p1 ! cw = RXHARQ_PDU_EVALUATING" "hr_due nm (snd ts) cw p1 k"
    "\<not> hr_result p1 ! cw" "hr_transmissions p1 = 1"
    and s1: "hr_maxHarqRtx p1 = hr_maxHarqRtx p" "hr_macOwner p1 = hr_macOwner p"
      "hr_harqFbEvaluationTimer p1 = hr_harqFbEvaluationTimer p"
    using len assms(2,4,7,8) by (simp_all add: p1 hr_due_def)
  obtain p2 where p2: "p2 = p1\<lparr>hr_status := (hr_status p1)[cw := RXHARQ_PDU_CORRUPTED]\<rparr>" by simp
  obtain f i where fb: "hr_createFeedback nm (snd ts) cw p1 = Inr (p2, f, i,
      [Signal_Process_For_Rtx (uci_sourceId (pk_info k)) (uci_carrierFrequency (pk_info k)) (uci_direction (pk_info k))])"
    using hr_createFeedback_eq[OF wf1 assms(2) f1(1-3)] f1(4,5) s1 assms(5,6)
    by (simp add: hr_afterFeedback_eq[OF wf1 assms(2)] p2)
  have wf2: "hr_wf p2" by (rule hr_createFeedback_wf[OF fb wf1])
  have s2: "hr_status p2 ! cw = RXHARQ_PDU_CORRUPTED" using hr_wfD(2)[OF wf1] assms(2) by (simp add: p2)
  obtain p3 where r: "hr_resetCodeword cw p2 = Inr p3" using hr_resetCodeword_eq[OF wf2 assms(2)] by blast
  have pb: "hbr_purgeBody cw p2 = Inr (p3, [()])"
    using r s2 hr_wfD(1-4)[OF wf2] assms(2) by (simp add: hbr_purgeBody_def hr_getUnitStatus_def
        hr_purgeCorruptedPdu_def hr_resetCodeword_def)
  have "hr_status p3 ! cw = RXHARQ_PDU_EMPTY \<and> hr_transmissions p3 = 0 \<and> hr_maxHarqRtx p3 = hr_maxHarqRtx p
     \<and> hr_macOwner p3 = hr_macOwner p \<and> hr_harqFbEvaluationTimer p3 = hr_harqFbEvaluationTimer p"
    using r hr_resetCodeword_eq[OF wf2 assms(2)] hr_wfD(2)[OF wf2] assms(2) s1 by (auto simp: p2)
  with hr_resetCodeword_wf[OF r wf2] ins fb pb show ?thesis by (auto simp: rx_failRound_def)
qed

lemma harq_purge_restarts_count_witness:
  "\<exists>p'. rx_failRound (\<lambda>_. None) (0, 4/1000) 0 (ex_packet 7 0) (harq_process_rx_new 0 ex_enb)
     = Inr (p', [Signal_Process_For_Rtx 1 0 DL]) \<and> hr_transmissions p' = 0"
  using harq_purge_restarts_count[where nm = "\<lambda>_. None" and ts = "(0, 4/1000)" and cw = 0
      and k = "ex_packet 7 0" and p = "harq_process_rx_new 0 ex_enb"] hr_wf_new[of 0 ex_enb]
  by (auto simp: harq_process_rx_new_def ex_defs MAX_CODEWORDS_def is_nodeB_def
      getNumerologyIndexFromCarrierFreq_def getSlotDurationFromNumerologyIndex_def)

text \<open>
  Self-NACKs. \<open>selfNack\<close> of a buffer never changes anything: it throws when the process has a ready unit, for
  a self-NACK is refused unless the unit is BUFFERED and feedback is refused unless it is WAITING,
  and it does nothing when there is none.
\<close>

theorem harq_selfNack_useless:
  assumes "acid < length (hb_processes b)"
  shows "if hp_readyUnitsIds (hb_processes b ! acid) = [] then hb_selfNack now acid cw b = Inr (b, [])
         else \<exists>e. hb_selfNack now acid cw b = Inl e"
proof (cases "hp_readyUnitsIds (hb_processes b ! acid)")
  case Nil
  with assms show ?thesis by (simp add: hb_selfNack_def hb_setProcess_def)
next
  case (Cons c cs)
  obtain e where "hp_selfNack now c (hb_processes b ! acid) = Inl e" using hp_selfNack_fails by blast
  with assms Cons show ?thesis by (simp add: hb_selfNack_def)
qed

lemma harq_selfNack_useless_witness:
  "\<exists>e. hb_selfNack 1 0 0 (ex_buffer\<lparr>hb_processes := [ex_process]\<rparr>) = Inl e"
  using harq_selfNack_useless[of 0 "ex_buffer\<lparr>hb_processes := [ex_process]\<rparr>" 1 0]
  by (simp add: hp_readyUnitsIds_def hp_unitIds_def ex_process_def ex_buffered_def hu_isReady_def upt_rec)

text \<open>
  Both codewords of a reception process share one transmission counter: when two PDUs are
  received in parallel and both fail twice, the receiver takes the second failure of the first
  codeword for its fourth and last one, empties it and restarts the count, although each PDU was
  sent only twice out of four times.
\<close>

definition rx_twoCodewords :: "simtime \<times> simtime \<Rightarrow> bool \<Rightarrow> harq_process_rx \<Rightarrow> harq_process_rx cpp" where
  "rx_twoCodewords ts ndi p =
     (let k = (\<lambda>cw. (ex_packet (int cw) cw)\<lparr>pk_info := (pk_info (ex_packet 0 cw))\<lparr>uci_ndi := ndi\<rparr>\<rparr>) in
      cpp_bind (hr_insertPdu (fst ts) 0 (k 0) p) (\<lambda>p1.
      cpp_bind (hr_insertPdu (fst ts) 1 (k 1) p1) (\<lambda>p2.
      cpp_bind (hr_createFeedback (\<lambda>_. None) (snd ts) 0 p2) (\<lambda>(p3, _).
      cpp_bind (hr_createFeedback (\<lambda>_. None) (snd ts) 1 p3) (\<lambda>(p4, _). Inr p4)))))"

theorem harq_codewords_share_count:
  "\<exists>p1 p2. rx_twoCodewords (0, 4/1000) True (harq_process_rx_new 0 ex_ue) = Inr p1
     \<and> hr_status p1 = [RXHARQ_PDU_CORRUPTED, RXHARQ_PDU_CORRUPTED] \<and> hr_transmissions p1 = 2
     \<and> rx_twoCodewords (8/1000, 12/1000) False p1 = Inr p2
     \<and> hr_status p2 = [RXHARQ_PDU_EMPTY, RXHARQ_PDU_CORRUPTED] \<and> hr_transmissions p2 = 0"
  by (simp add: rx_twoCodewords_def harq_process_rx_new_def hr_insertPdu_def hr_createFeedback_def
      hr_isEvaluated_def hr_afterFeedback_def hr_purgeCorruptedPdu_def hr_resetCodeword_def
      getNumerologyIndexFromCarrierFreq_def getSlotDurationFromNumerologyIndex_def
      MAX_CODEWORDS_def Let_def ex_defs vec_at_def vec_idx_def vec_put_def is_nodeB_def)
    (simp add: numeral_2_eq_2)

end
