(* ===== verification/Ipv4_Address.thy ===== *)
theory Ipv4_Address
  imports Simu_Prelude
begin

text \<open>
  IPv4 addresses (\<open>Ipv4Address.h\<close>, \<open>Ipv4Address.cc\<close>): 32-bit words with the operations the
  routing table uses. A valid netmask is a block of ones followed by zeros; for those the
  numeric order is the order of prefix lengths, which is what makes a sorted route vector a
  longest-prefix table.
\<close>

unbundle bit_operations_syntax

type_synonym ipv4_address = "32 word"

definition ALLONES_ADDRESS :: ipv4_address where "ALLONES_ADDRESS = - 1"

definition ip_isUnspecified :: "ipv4_address \<Rightarrow> bool" where
  "ip_isUnspecified a = (a = 0)"

definition ip_isMulticast :: "ipv4_address \<Rightarrow> bool" where
  "ip_isMulticast a = (a AND 0xF0000000 = 0xE0000000)"

text \<open>\<open>_makeNetmask\<close>; the shift of a 32-bit value is only made for lengths below 32.\<close>

definition ip_makeNetmask_raw :: "nat \<Rightarrow> ipv4_address" where
  "ip_makeNetmask_raw len = (if len \<ge> 32 then 0xffffffff else NOT (drop_bit len 0xffffffff))"

definition ip_makeNetmask :: "int \<Rightarrow> ipv4_address cpp" where
  "ip_makeNetmask len =
     (if len < 0 \<or> len > 32 then Inl (Runtime_Error ''Ipv4Address: wrong netmask length'')
      else Inr (ip_makeNetmask_raw (nat len)))"

text \<open>The loop looks for the lowest bit that is set.\<close>

definition ip_getNetmaskLength :: "ipv4_address \<Rightarrow> nat" where
  "ip_getNetmaskLength a = (case find (\<lambda>i. bit a i) [0..<32] of None \<Rightarrow> 0 | Some i \<Rightarrow> 32 - i)"

definition ip_isValidNetmask :: "ipv4_address \<Rightarrow> bool" where
  "ip_isValidNetmask a = (a = ip_makeNetmask_raw (ip_getNetmaskLength a))"

definition ip_maskedAddrAreEqual :: "ipv4_address \<Rightarrow> ipv4_address \<Rightarrow> ipv4_address \<Rightarrow> bool" where
  "ip_maskedAddrAreEqual a b netmask = ((a XOR b) AND netmask = 0)"

definition ip_prefixMatches :: "ipv4_address \<Rightarrow> ipv4_address \<Rightarrow> int \<Rightarrow> bool" where
  "ip_prefixMatches a other len =
     (if len < 1 then True
      else if len > 31 then a = other
      else let mask = ip_makeNetmask_raw (nat len) in a AND mask = other AND mask)"

definition ip_getNumMatchingPrefixBits :: "ipv4_address \<Rightarrow> ipv4_address \<Rightarrow> nat" where
  "ip_getNumMatchingPrefixBits a b =
     (case find (\<lambda>i. bit (a XOR b) i) (rev [0..<32]) of None \<Rightarrow> 32 | Some i \<Rightarrow> 31 - i)"

definition ip_makeBroadcastAddress :: "ipv4_address \<Rightarrow> ipv4_address \<Rightarrow> ipv4_address" where
  "ip_makeBroadcastAddress a netmask = (a OR NOT netmask)"

section \<open>Netmasks and prefix lengths\<close>

lemma find_first_bit: "find P [0..<n] = Some i \<longleftrightarrow> i < n \<and> P i \<and> (\<forall>j < i. \<not> P j)"
  by (auto simp: find_Some_iff)

lemma ip_allones: "(0xffffffff :: 32 word) = - 1"
  by simp

lemma ip_makeNetmask_bit: "n \<le> 32 \<Longrightarrow> bit (ip_makeNetmask_raw n) i \<longleftrightarrow> i < 32 \<and> 32 - n \<le> i"
proof -
  assume "n \<le> 32"
  then show ?thesis
    by (auto simp: ip_makeNetmask_raw_def ip_allones bit_not_iff bit_drop_bit_eq bit_minus_1_iff bit_mask_iff not_le)
qed

lemma ip_getNetmaskLength_makeNetmask:
  assumes "n \<le> 32"
  shows "ip_getNetmaskLength (ip_makeNetmask_raw n) = n"
proof (cases "n = 0")
  case True
  then have "\<not> bit (ip_makeNetmask_raw n) i" if "i < 32" for i
    using that by (simp add: ip_makeNetmask_bit)
  then have "find (\<lambda>i. bit (ip_makeNetmask_raw n) i) [0..<32] = None" by (simp add: find_None_iff)
  with True show ?thesis by (simp add: ip_getNetmaskLength_def)
next
  case False
  with assms have "find (\<lambda>i. bit (ip_makeNetmask_raw n) i) [0..<32] = Some (32 - n)"
    by (auto simp: find_first_bit ip_makeNetmask_bit)
  with assms show ?thesis by (simp add: ip_getNetmaskLength_def)
qed

lemma ip_isValidNetmask_iff: "ip_isValidNetmask a \<longleftrightarrow> (\<exists>n \<le> 32. a = ip_makeNetmask_raw n)"
proof
  assume "ip_isValidNetmask a"
  moreover have "ip_getNetmaskLength a \<le> 32"
    by (auto simp: ip_getNetmaskLength_def split: option.splits)
  ultimately show "\<exists>n \<le> 32. a = ip_makeNetmask_raw n" unfolding ip_isValidNetmask_def by blast
qed (auto simp: ip_isValidNetmask_def ip_getNetmaskLength_makeNetmask)

text \<open>A longer netmask contains a shorter one, hence is numerically greater.\<close>

lemma ip_makeNetmask_and:
  "n \<le> m \<Longrightarrow> m \<le> 32 \<Longrightarrow> ip_makeNetmask_raw n AND ip_makeNetmask_raw m = ip_makeNetmask_raw n"
  by (rule bit_word_eqI) (auto simp: bit_and_iff ip_makeNetmask_bit)

lemma ip_makeNetmask_inj:
  "n \<le> 32 \<Longrightarrow> m \<le> 32 \<Longrightarrow> ip_makeNetmask_raw n = ip_makeNetmask_raw m \<longleftrightarrow> n = m"
  by (metis ip_getNetmaskLength_makeNetmask)

lemma ip_makeNetmask_le:
  assumes "n \<le> 32" "m \<le> 32"
  shows "ip_makeNetmask_raw n \<le> ip_makeNetmask_raw m \<longleftrightarrow> n \<le> m"
proof -
  have le: "a \<le> b \<Longrightarrow> b \<le> 32 \<Longrightarrow> ip_makeNetmask_raw a \<le> ip_makeNetmask_raw b" for a b
    by (metis ip_makeNetmask_and word_and_le1)
  with assms ip_makeNetmask_inj[OF assms] show ?thesis
    by (metis antisym nat_le_linear)
qed

lemma ip_netmask_less_iff:
  assumes "ip_isValidNetmask a" "ip_isValidNetmask b"
  shows "a < b \<longleftrightarrow> ip_getNetmaskLength a < ip_getNetmaskLength b"
  using assms by (auto simp: ip_isValidNetmask_iff ip_getNetmaskLength_makeNetmask not_le[symmetric]
      ip_makeNetmask_le)

lemma ip_makeNetmask_0: "ip_makeNetmask_raw 0 = 0" and ip_makeNetmask_32: "ip_makeNetmask_raw 32 = - 1"
  by (auto simp: ip_makeNetmask_bit bit_minus_1_iff intro!: bit_word_eqI)

text \<open>The two ways of comparing prefixes in the code agree.\<close>

lemma ip_maskedAddrAreEqual_iff: "ip_maskedAddrAreEqual a b m \<longleftrightarrow> a AND m = b AND m"
  by (auto simp: ip_maskedAddrAreEqual_def bit_eq_iff bit_and_iff bit_xor_iff)

lemma ip_prefixMatches_iff:
  "0 \<le> n \<Longrightarrow> n \<le> 32 \<Longrightarrow>
     ip_prefixMatches a b n \<longleftrightarrow> ip_maskedAddrAreEqual a b (ip_makeNetmask_raw (nat n))"
  by (cases "n = 0"; cases "n = 32")
    (auto simp: ip_prefixMatches_def ip_maskedAddrAreEqual_iff Let_def ip_makeNetmask_0 ip_makeNetmask_32)

text \<open>An address without bits outside the netmask is its own prefix.\<close>

lemma ip_and_clean: "a AND NOT m = 0 \<Longrightarrow> a AND m = (a :: ipv4_address)"
  by (auto simp: bit_eq_iff bit_and_iff bit_not_iff)

end
