(* ===== verification/Mac_Address.thy ===== *)
theory Mac_Address
  imports Simu_Prelude
begin

text \<open>MAC addresses (\<open>MacAddress.h\<close>): the six bytes of an address in the low 48 bits of a word.\<close>

type_synonym mac_address = "48 word"

definition mac_isUnspecified :: "mac_address \<Rightarrow> bool" where
  "mac_isUnspecified a = (a = 0)"

definition mac_isBroadcast :: "mac_address \<Rightarrow> bool" where
  "mac_isBroadcast a = (a = - 1)"

text \<open>The multicast bit is the lowest bit of the first of the six bytes.\<close>

definition mac_isMulticast :: "mac_address \<Rightarrow> bool" where
  "mac_isMulticast a = bit a 40"

end
