(* ===== verification/Network_Interface.thy ===== *)
theory Network_Interface
  imports Ipv4_Address Mac_Address
begin

text \<open>
  A network interface (\<open>NetworkInterface.cc\<close>): its requested state, its carrier, its role flags,
  the IPv4 data attached to it and the MAC addresses it listens to. A change of state or carrier
  is signalled to the interface table; the signal is an output of the operation and holds the
  interface as the listeners see it at that moment.
\<close>

section \<open>State\<close>

datatype if_state = UP | DOWN | GOING_UP | GOING_DOWN

datatype if_field = F_STATE | F_CARRIER

record ipv4_interface_data =
  id_ipAddress :: ipv4_address
  id_netmask :: ipv4_address
  id_metric :: int

text \<open>A transmission channel is absent or has its \<open>disabled\<close> flag.\<close>

record network_interface =
  ni_interfaceId :: int
  ni_interfaceName :: string
  ni_fullName :: string    \<comment> \<open>the name of the module, with its index\<close>
  ni_state :: if_state
  ni_carrier :: bool
  ni_broadcast :: bool
  ni_multicast :: bool
  ni_pointToPoint :: bool
  ni_loopback :: bool
  ni_wireless :: bool
  ni_rxTransmissionChannel :: "bool option"
  ni_txTransmissionChannel :: "bool option"
  ni_macAddr :: mac_address
  ni_multicastAddresses :: "mac_address list"
  ni_ipv4Data :: "ipv4_interface_data option"

datatype if_signal = Interface_State_Changed if_field network_interface

definition ni_isUp :: "network_interface \<Rightarrow> bool" where
  "ni_isUp ni = (ni_state ni = UP \<and> ni_carrier ni)"

definition ni_isDown :: "network_interface \<Rightarrow> bool" where
  "ni_isDown ni = (ni_state ni \<noteq> UP)"

section \<open>State and carrier\<close>

definition ni_setCarrier :: "bool \<Rightarrow> network_interface \<Rightarrow> network_interface \<times> if_signal list" where
  "ni_setCarrier b ni =
     (if ni_carrier ni \<noteq> b then
        let ni' = ni\<lparr>ni_carrier := b\<rparr> in (ni', [Interface_State_Changed F_CARRIER ni'])
      else (ni, []))"

definition ni_setState :: "if_state \<Rightarrow> network_interface \<Rightarrow> network_interface \<times> if_signal list" where
  "ni_setState s ni =
     (if ni_state ni \<noteq> s then
        let ni1 = ni\<lparr>ni_state := s\<rparr>;
            (ni2, sigs) = (if s = DOWN then ni_setCarrier False ni1 else (ni1, []))
        in (ni2, sigs @ [Interface_State_Changed F_STATE ni2])
      else (ni, []))"

definition ni_handleStartOperation :: "network_interface \<Rightarrow> network_interface \<times> if_signal list" where
  "ni_handleStartOperation ni =
     (let (ni1, s1) = ni_setState UP ni; (ni2, s2) = ni_setCarrier True ni1 in (ni2, s1 @ s2))"

definition ni_handleStopOperation :: "network_interface \<Rightarrow> network_interface \<times> if_signal list" where
  "ni_handleStopOperation ni =
     (let (ni1, s1) = ni_setState DOWN ni; (ni2, s2) = ni_setCarrier False ni1 in (ni2, s1 @ s2))"

definition ni_handleCrashOperation :: "network_interface \<Rightarrow> network_interface \<times> if_signal list" where
  "ni_handleCrashOperation ni =
     (let (ni1, s1) = ni_setState DOWN ni; (ni2, s2) = ni_setCarrier False ni1 in (ni2, s1 @ s2))"

text \<open>
  The lifecycle operations an interface accepts: start and stop act in the link-layer stage, a
  crash in its only stage, other stages pass; any other operation throws.
\<close>

datatype lifecycle_operation =
    Module_Start bool    \<comment> \<open>whether the stage is the link-layer stage\<close>
  | Module_Stop bool
  | Module_Crash bool
  | Other_Operation

definition ni_handleOperationStage ::
  "lifecycle_operation \<Rightarrow> network_interface \<Rightarrow> (network_interface \<times> if_signal list) cpp" where
  "ni_handleOperationStage op ni = (case op of
      Module_Start st \<Rightarrow> Inr (if st then ni_handleStartOperation ni else (ni, []))
    | Module_Stop st \<Rightarrow> Inr (if st then ni_handleStopOperation ni else (ni, []))
    | Module_Crash st \<Rightarrow> Inr (if st then ni_handleCrashOperation ni else (ni, []))
    | Other_Operation \<Rightarrow> Inl (Runtime_Error ''unaccepted Lifecycle operation''))"

definition ni_computeCarrier :: "network_interface \<Rightarrow> bool" where
  "ni_computeCarrier ni =
     (if ni_wireless ni then True
      else (case (ni_rxTransmissionChannel ni, ni_txTransmissionChannel ni) of
              (Some rxDisabled, Some txDisabled) \<Rightarrow> \<not> (rxDisabled \<or> txDisabled)
            | _ \<Rightarrow> False))"

text \<open>
  The local stage of \<open>initialize\<close>, for the state and the carrier: the carrier is computed from
  the channels, and both are set when the node is up (\<open>nodeUp\<close>: no status module, or status UP).
\<close>

definition ni_initializeLocal :: "bool \<Rightarrow> network_interface \<Rightarrow> network_interface \<times> if_signal list" where
  "ni_initializeLocal nodeUp ni =
     (let (ni1, sigs) = ni_setCarrier (ni_computeCarrier ni) ni
      in (if nodeUp then ni1\<lparr>ni_state := UP, ni_carrier := True\<rparr> else ni1, sigs))"

text \<open>The three handlers of \<open>receiveSignal\<close> for a path that is created or cut, or whose channel changes.\<close>

definition ni_pathCreated ::
  "bool option \<Rightarrow> bool option \<Rightarrow> network_interface \<Rightarrow> network_interface \<times> if_signal list" where
  "ni_pathCreated rx tx ni =
     (let ni1 = ni\<lparr>ni_rxTransmissionChannel := rx, ni_txTransmissionChannel := tx\<rparr>
      in ni_setCarrier (ni_computeCarrier ni1) ni1)"

definition ni_pathCut :: "network_interface \<Rightarrow> network_interface \<times> if_signal list" where
  "ni_pathCut ni =
     (let ni1 = ni\<lparr>ni_rxTransmissionChannel := None, ni_txTransmissionChannel := None\<rparr>
      in ni_setCarrier (ni_computeCarrier ni1) ni1)"

definition ni_channelParameterChanged :: "network_interface \<Rightarrow> network_interface \<times> if_signal list" where
  "ni_channelParameterChanged ni = ni_setCarrier (ni_computeCarrier ni) ni"

section \<open>Packets\<close>

datatype if_gate = Upper_Layer_In | Upper_Layer_Out | Other_Gate

datatype drop_reason = INTERFACE_DOWN | NO_CARRIER

text \<open>
  A packet leaves through a gate whole, or as the start or the end of a transmission; a packet on
  its way up carries the id of the interface in its \<open>InterfaceInd\<close> tag.
\<close>

datatype push_mode = Push_Packet | Push_Packet_Start rat | Push_Packet_End

datatype push_result = Packet_Dropped drop_reason | Packet_Pushed push_mode if_gate "int option"

definition ni_push :: "push_mode \<Rightarrow> if_gate \<Rightarrow> network_interface \<Rightarrow> push_result cpp" where
  "ni_push md g ni = (case g of
      Upper_Layer_In \<Rightarrow>
        if ni_isDown ni then Inr (Packet_Dropped INTERFACE_DOWN)
        else if \<not> ni_carrier ni then Inr (Packet_Dropped NO_CARRIER)
        else Inr (Packet_Pushed md Upper_Layer_In None)
    | Upper_Layer_Out \<Rightarrow> Inr (Packet_Pushed md Upper_Layer_Out (Some (ni_interfaceId ni)))
    | Other_Gate \<Rightarrow> Inl (Runtime_Error ''Unknown gate''))"

definition ni_pushPacket :: "if_gate \<Rightarrow> network_interface \<Rightarrow> push_result cpp" where
  "ni_pushPacket = ni_push Push_Packet"

definition ni_pushPacketStart :: "rat \<Rightarrow> if_gate \<Rightarrow> network_interface \<Rightarrow> push_result cpp" where
  "ni_pushPacketStart datarate = ni_push (Push_Packet_Start datarate)"

definition ni_pushPacketEnd :: "if_gate \<Rightarrow> network_interface \<Rightarrow> push_result cpp" where
  "ni_pushPacketEnd = ni_push Push_Packet_End"

text \<open>\<open>computeDatarate\<close>: the \<open>bitrate\<close> parameter of the module and the one of the channel, when they exist.\<close>

definition ni_computeDatarate :: "rat option \<Rightarrow> rat option \<Rightarrow> rat cpp" where
  "ni_computeDatarate bitrate channelRate =
     (let moduleDatarate = (case bitrate of None \<Rightarrow> 0 | Some r \<Rightarrow> r);
          channelDatarate = (case channelRate of None \<Rightarrow> 0 | Some r \<Rightarrow> r)
      in if moduleDatarate \<noteq> 0 \<and> channelDatarate \<noteq> 0 \<and> moduleDatarate \<noteq> channelDatarate then
           Inl (Runtime_Error ''Wired network interface datarate is set on both the module and the channel'')
         else Inr (if moduleDatarate \<noteq> 0 then moduleDatarate else channelDatarate))"

section \<open>MAC addresses\<close>

definition ni_matchesMulticastMacAddress :: "mac_address \<Rightarrow> network_interface \<Rightarrow> bool" where
  "ni_matchesMulticastMacAddress a ni = (mac_isMulticast a \<and> a \<in> set (ni_multicastAddresses ni))"

definition ni_matchesMacAddress :: "mac_address \<Rightarrow> network_interface \<Rightarrow> bool" where
  "ni_matchesMacAddress a ni =
     (mac_isBroadcast a \<or> (mac_isMulticast a \<and> ni_matchesMulticastMacAddress a ni) \<or> ni_macAddr ni = a)"

definition ni_addMulticastMacAddress :: "mac_address \<Rightarrow> network_interface \<Rightarrow> network_interface cpp" where
  "ni_addMulticastMacAddress a ni =
     (if a \<in> set (ni_multicastAddresses ni) then
        Inl (Runtime_Error ''Multicast MacAddress already added'')
      else Inr (ni\<lparr>ni_multicastAddresses := ni_multicastAddresses ni @ [a]\<rparr>))"

definition ni_removeMulticastMacAddress :: "mac_address \<Rightarrow> network_interface \<Rightarrow> network_interface cpp" where
  "ni_removeMulticastMacAddress a ni =
     (if a \<notin> set (ni_multicastAddresses ni) then Inl (Runtime_Error ''Multicast MacAddress not found'')
      else Inr (ni\<lparr>ni_multicastAddresses := remove1 a (ni_multicastAddresses ni)\<rparr>))"

definition ni_getIpv4Address :: "network_interface \<Rightarrow> ipv4_address" where
  "ni_getIpv4Address ni = (case ni_ipv4Data ni of None \<Rightarrow> 0 | Some d \<Rightarrow> id_ipAddress d)"

definition ni_getIpv4Netmask :: "network_interface \<Rightarrow> ipv4_address" where
  "ni_getIpv4Netmask ni = (case ni_ipv4Data ni of None \<Rightarrow> 0 | Some d \<Rightarrow> id_netmask d)"

lemmas ni_defs =
  ni_isUp_def ni_isDown_def ni_setCarrier_def ni_setState_def ni_handleStartOperation_def
  ni_handleStopOperation_def ni_handleCrashOperation_def ni_push_def ni_pushPacket_def Let_def

section \<open>State and carrier together\<close>

text \<open>
  What the two setters do, signals included: a no-op is silent, a shutdown reports the lost
  carrier before the new state, and only a shutdown touches the carrier.
\<close>

lemma ni_setState_state [simp]: "ni_state (fst (ni_setState s ni)) = s"
  by (auto simp: ni_defs split: prod.splits)

lemma ni_setState_carrier:
  "ni_carrier (fst (ni_setState s ni)) = (if s = DOWN \<and> ni_state ni \<noteq> DOWN then False else ni_carrier ni)"
  by (auto simp: ni_defs split: prod.splits)

lemma ni_setCarrier_fields [simp]:
  "ni_state (fst (ni_setCarrier b ni)) = ni_state ni" "ni_carrier (fst (ni_setCarrier b ni)) = b"
  by (auto simp: ni_defs)

text \<open>Everything but state and carrier is untouched.\<close>

lemma ni_setState_rest:
  "ni_interfaceId (fst (ni_setState s ni)) = ni_interfaceId ni"
  "ni_interfaceName (fst (ni_setState s ni)) = ni_interfaceName ni"
  "ni_ipv4Data (fst (ni_setState s ni)) = ni_ipv4Data ni"
  "ni_wireless (fst (ni_setState s ni)) = ni_wireless ni"
  by (auto simp: ni_defs split: prod.splits)

text \<open>A packet from the upper layer passes exactly through an interface that is up.\<close>

lemma ni_push_isUp:
  "ni_push md Upper_Layer_In ni = Inr (Packet_Pushed md Upper_Layer_In None) \<longleftrightarrow> ni_isUp ni"
  by (auto simp: ni_defs)

end
