(* ===== verification/Sorted_Vector.thy ===== *)
theory Sorted_Vector
  imports Simu_Prelude "HOL-Library.Multiset"
begin

text \<open>
  Vectors that are kept sorted by \<open>std::upper_bound\<close> and searched front to back. The client is
  the vector; the order is an interface: a comparison that is a strict weak order, as
  \<open>upper_bound\<close> requires.
\<close>

text \<open>
  \<open>upper_bound\<close> followed by \<open>insert\<close>: before the first element the new one is less than. On a
  vector that the comparison partitions, the binary search finds that element.
\<close>

definition insert_upper_bound :: "('a \<Rightarrow> 'a \<Rightarrow> bool) \<Rightarrow> 'a \<Rightarrow> 'a list \<Rightarrow> 'a list" where
  "insert_upper_bound lt x xs = takeWhile (\<lambda>y. \<not> lt x y) xs @ x # dropWhile (\<lambda>y. \<not> lt x y) xs"

lemma insert_upper_bound_set [simp]: "set (insert_upper_bound lt x xs) = insert x (set xs)"
  by (auto simp: insert_upper_bound_def dest: set_takeWhileD set_dropWhileD)
    (metis Un_iff set_append takeWhile_dropWhile_id)

lemma insert_upper_bound_map_perm: "mset (insert_upper_bound lt x xs) = add_mset x (mset xs)"
proof -
  have "mset xs = mset (takeWhile (\<lambda>y. \<not> lt x y) xs @ dropWhile (\<lambda>y. \<not> lt x y) xs)" by simp
  then show ?thesis by (simp only: insert_upper_bound_def mset_append mset.simps) simp
qed

lemma filter_insert_upper_bound:
  assumes "\<not> P e"
  shows "filter P (insert_upper_bound lt e xs) = filter P xs"
proof -
  have "filter P xs = filter P (takeWhile (\<lambda>y. \<not> lt e y) xs @ dropWhile (\<lambda>y. \<not> lt e y) xs)" by simp
  with assms show ?thesis unfolding insert_upper_bound_def filter_append by simp
qed

lemma mset_filter_insert_upper_bound:
  "mset (filter P (insert_upper_bound lt e xs)) =
     (if P e then add_mset e (mset (filter P xs)) else mset (filter P xs))"
  unfolding mset_filter insert_upper_bound_map_perm by simp

lemma filter_insert_only:
  "P e \<Longrightarrow> filter P xs = [] \<Longrightarrow> filter P (insert_upper_bound lt e xs) = [e]"
  using mset_filter_insert_upper_bound[of P lt e xs] by (simp del: mset_filter)

lemma insert_upper_bound_distinct:
  "distinct (map f (insert_upper_bound lt x xs)) \<longleftrightarrow> distinct (map f xs) \<and> f x \<notin> f ` set xs"
  (is "?l \<longleftrightarrow> ?r")
proof -
  have "mset (map f (insert_upper_bound lt x xs)) = mset (map f (x # xs))"
    by (simp add: insert_upper_bound_map_perm)
  then have "?l \<longleftrightarrow> distinct (map f (x # xs))" by (rule mset_eq_imp_distinct_iff)
  then show ?thesis by auto
qed

text \<open>Taking the inserted element out again, when it is new, gives the old vector.\<close>

lemma remove1_insert_upper_bound: "x \<notin> set xs \<Longrightarrow> remove1 x (insert_upper_bound lt x xs) = xs"
  by (auto simp: insert_upper_bound_def remove1_append dest: set_takeWhileD)

locale weak_order =
  fixes lt :: "'a \<Rightarrow> 'a \<Rightarrow> bool"
  assumes asym: "lt a b \<Longrightarrow> \<not> lt b a"
    and neg_trans: "\<not> lt b a \<Longrightarrow> \<not> lt c b \<Longrightarrow> \<not> lt c a"
begin

lemma insert_sorted:
  assumes "sorted_wrt (\<lambda>a b. \<not> lt b a) xs"
  shows "sorted_wrt (\<lambda>a b. \<not> lt b a) (insert_upper_bound lt x xs)"
proof -
  let ?t = "takeWhile (\<lambda>y. \<not> lt x y) xs" and ?d = "dropWhile (\<lambda>y. \<not> lt x y) xs"
  have app: "sorted_wrt (\<lambda>a b. \<not> lt b a) (?t @ ?d)" using assms by simp
  have t: "\<not> lt x y" if "y \<in> set ?t" for y using that by (auto dest: set_takeWhileD)
  have d: "\<not> lt w x" if w: "w \<in> set ?d" for w
  proof (cases ?d)
    case Nil
    with w show ?thesis by simp
  next
    case (Cons z zs)
    then have "lt x z" by (simp add: dropWhile_eq_Cons_conv)
    then have zx: "\<not> lt z x" by (rule asym)
    have "sorted_wrt (\<lambda>a b. \<not> lt b a) (z # zs)" using app unfolding Cons sorted_wrt_append by simp
    then have "w = z \<or> \<not> lt w z" using w Cons by auto
    then show ?thesis
    proof
      assume "w = z"
      with zx show ?thesis by simp
    next
      assume "\<not> lt w z"
      with zx show ?thesis by (rule neg_trans)
    qed
  qed
  note app' = app[unfolded sorted_wrt_append]
  note a = conjunct1[OF app'] conjunct1[OF conjunct2[OF app']] conjunct2[OF conjunct2[OF app']]
  have "sorted_wrt (\<lambda>a b. \<not> lt b a) (x # ?d)"
  proof (subst sorted_wrt.simps(2), intro conjI ballI)
    show "sorted_wrt (\<lambda>a b. \<not> lt b a) ?d" by (rule a(2))
  qed (rule d)
  moreover have "\<forall>a \<in> set ?t. \<forall>b \<in> set (x # ?d). \<not> lt b a"
    unfolding list.set ball_simps using a(3) t by blast
  ultimately show ?thesis using a(1) unfolding insert_upper_bound_def sorted_wrt_append by (intro conjI)
qed

text \<open>In a sorted vector the first hit is one of the least.\<close>

lemma find_least:
  assumes "sorted_wrt (\<lambda>a b. \<not> lt b a) xs" "find P xs = Some e" "e' \<in> set xs" "P e'"
  shows "\<not> lt e' e"
  using assms
proof (induction xs)
  case Nil
  then show ?case by simp
next
  case (Cons x xs)
  then show ?case using asym by (auto split: if_splits)
qed

end

lemma sorted_wrt_remove1: "sorted_wrt P xs \<Longrightarrow> sorted_wrt P (remove1 x xs)"
  by (induction xs) (auto dest: notin_set_remove1 set_remove1_subset[THEN subsetD])

end
