(* ===== verification/Ipv4_Routing.thy ===== *)
theory Ipv4_Routing
  imports Network_Interface Sorted_Vector
begin

text \<open>
  The unicast part of the IPv4 routing table (\<open>Ipv4RoutingTable.cc\<close>): a vector of routes kept
  sorted so that the first match is the best one, and a cache from destinations to routes. Route
  objects are named by an identifier (the pointer of the code), so that the cache holds the name
  of a route and sees its changes. Route signals are an output of the operations.
\<close>

section \<open>State\<close>

datatype route_source_type = MANUAL | IFACENETMASK | ROUTER_ADVERTISEMENT | OWN_ADV_PREFIX
  | ICMP_REDIRECT | RIP | OSPF | BGP | ZEBRA | MANET | MANET2 | DYMO | AODV | EIGRP | LISP | BABEL
  | ODR | UNKNOWN | ISIS

text \<open>
  \<open>ir_valid\<close> is the result of the virtual method \<open>isValid\<close>, which is true for \<open>Ipv4Route\<close> itself.
\<close>

record ipv4_route =
  ir_id :: nat
  ir_dest :: ipv4_address
  ir_netmask :: ipv4_address
  ir_gateway :: ipv4_address
  ir_interface :: "int option"
  ir_sourceType :: route_source_type
  ir_source :: "int option"
  ir_adminDist :: "32 word"
  ir_metric :: int
  ir_valid :: bool

datatype route_event =
    Route_Added ipv4_route
  | Route_Deleted ipv4_route
  | Route_Changed ipv4_route

datatype route_field = F_DESTINATION | F_PREFIX_LENGTH | F_NEXTHOP | F_IFACE | F_SOURCE | F_TYPE
  | F_ADMINDIST | F_METRIC | F_EXPIRYTIME | F_LAST

record routing_table =
  rt_routes :: "ipv4_route list"
  rt_routingCache :: "ipv4_address \<Rightarrow> nat option option"
  rt_localBroadcastAddresses :: "ipv4_address set"
  rt_useAdminDist :: bool
  rt_isNodeUp :: bool
  rt_nextId :: nat    \<comment> \<open>the name of the next route object\<close>

definition dUnknown :: "32 word" where "dUnknown = 255"
definition dDirectlyConnected :: "32 word" where "dDirectlyConnected = 0"

definition rt_invalidateCache :: "routing_table \<Rightarrow> routing_table" where
  "rt_invalidateCache rt = rt\<lparr>rt_routingCache := \<lambda>_. None, rt_localBroadcastAddresses := {}\<rparr>"

section \<open>The order of the routes\<close>

definition rt_routeLessThan :: "bool \<Rightarrow> ipv4_route \<Rightarrow> ipv4_route \<Rightarrow> bool" where
  "rt_routeLessThan useAdminDist a b =
     (if ir_netmask a \<noteq> ir_netmask b then ir_netmask a > ir_netmask b
      else if ir_dest a \<noteq> ir_dest b then ir_dest a < ir_dest b
      else if useAdminDist \<and> ir_adminDist a \<noteq> ir_adminDist b then ir_adminDist a < ir_adminDist b
      else ir_metric a < ir_metric b)"

section \<open>Lookup\<close>

definition rt_matches :: "ipv4_address \<Rightarrow> ipv4_route \<Rightarrow> bool" where
  "rt_matches dest e = (ir_valid e \<and> ip_maskedAddrAreEqual dest (ir_dest e) (ir_netmask e))"

definition rt_route :: "nat \<Rightarrow> routing_table \<Rightarrow> ipv4_route option" where
  "rt_route i rt = find (\<lambda>e. ir_id e = i) (rt_routes rt)"

text \<open>
  A cached null pointer is returned as it is; a cached route only while it is valid. A cached
  name that is no route of the table is a dangling pointer.
\<close>

definition rt_findBestMatchingRoute ::
  "ipv4_address \<Rightarrow> routing_table \<Rightarrow> (routing_table \<times> ipv4_route option) cpp" where
  "rt_findBestMatchingRoute dest rt =
     (let best = find (rt_matches dest) (rt_routes rt);
          scan = (rt\<lparr>rt_routingCache := (rt_routingCache rt)(dest := Some (map_option ir_id best))\<rparr>, best)
      in case rt_routingCache rt dest of
           None \<Rightarrow> Inr scan
         | Some None \<Rightarrow> Inr (rt, None)
         | Some (Some i) \<Rightarrow>
             (case rt_route i rt of
                None \<Rightarrow> Inl Undefined_Behaviour
              | Some e \<Rightarrow> if ir_valid e then Inr (rt, Some e) else Inr scan))"

definition rt_getInterfaceForDestAddr ::
  "ipv4_address \<Rightarrow> routing_table \<Rightarrow> (routing_table \<times> int option) cpp" where
  "rt_getInterfaceForDestAddr dest rt =
     cpp_bind (rt_findBestMatchingRoute dest rt) (\<lambda>(rt', e).
     Inr (rt', case e of None \<Rightarrow> None | Some r \<Rightarrow> ir_interface r))"

definition rt_getGatewayForDestAddr ::
  "ipv4_address \<Rightarrow> routing_table \<Rightarrow> (routing_table \<times> ipv4_address) cpp" where
  "rt_getGatewayForDestAddr dest rt =
     cpp_bind (rt_findBestMatchingRoute dest rt) (\<lambda>(rt', e).
     Inr (rt', case e of None \<Rightarrow> 0 | Some r \<Rightarrow> ir_gateway r))"

text \<open>\<open>getRoute\<close>: only the upper bound is checked; a negative index is undefined.\<close>

definition rt_getRoute :: "int \<Rightarrow> routing_table \<Rightarrow> ipv4_route option cpp" where
  "rt_getRoute k rt =
     (if k < int (length (rt_routes rt)) then
        if k < 0 then Inl Undefined_Behaviour else Inr (Some (rt_routes rt ! nat k))
      else Inr None)"

definition rt_getDefaultRoute :: "routing_table \<Rightarrow> ipv4_route option" where
  "rt_getDefaultRoute rt =
     find ir_valid (takeWhile (\<lambda>e. ip_isUnspecified (ir_netmask e)) (rev (rt_routes rt)))"

section \<open>Adding and removing routes\<close>

definition rt_internalRemoveRoute :: "nat \<Rightarrow> routing_table \<Rightarrow> routing_table \<times> ipv4_route option" where
  "rt_internalRemoveRoute i rt = (case rt_route i rt of
      None \<Rightarrow> (rt, None)
    | Some e \<Rightarrow> (rt_invalidateCache (rt\<lparr>rt_routes := remove1 e (rt_routes rt)\<rparr>), Some e))"

definition rt_removeRoute ::
  "nat \<Rightarrow> routing_table \<Rightarrow> routing_table \<times> ipv4_route option \<times> route_event list" where
  "rt_removeRoute i rt = (case rt_internalRemoveRoute i rt of
      (rt', None) \<Rightarrow> (rt', None, [])
    | (rt', Some e) \<Rightarrow> (rt', Some e, [Route_Deleted e]))"

definition rt_deleteRoute :: "nat \<Rightarrow> routing_table \<Rightarrow> routing_table \<times> bool \<times> route_event list" where
  "rt_deleteRoute i rt = (case rt_internalRemoveRoute i rt of
      (rt', None) \<Rightarrow> (rt', False, [])
    | (rt', Some e) \<Rightarrow> (rt', True, [Route_Deleted e]))"

definition rt_insertRoute :: "ipv4_route \<Rightarrow> routing_table \<Rightarrow> routing_table" where
  "rt_insertRoute e rt = rt_invalidateCache
     (rt\<lparr>rt_routes := insert_upper_bound (rt_routeLessThan (rt_useAdminDist rt)) e (rt_routes rt)\<rparr>)"

definition rt_internalAddRoute ::
  "ipv4_route \<Rightarrow> routing_table \<Rightarrow> (routing_table \<times> route_event list) cpp" where
  "rt_internalAddRoute e rt =
     (if \<not> ip_isValidNetmask (ir_netmask e) then
        Inl (Runtime_Error ''addRoute(): wrong netmask in route'')
      else if ir_netmask e \<noteq> 0 \<and> ir_dest e AND ir_netmask e = 0 then
        Inl (Runtime_Error ''addRoute(): all bits of destination address is 0 inside non zero netmask'')
      else if ir_dest e AND NOT (ir_netmask e) \<noteq> 0 then
        Inl (Runtime_Error ''addRoute(): suspicious route: destination IP address has bits set outside netmask'')
      else if ir_interface e = None then
        Inl (Runtime_Error ''addRoute(): interface cannot be nullptr'')
      else
        let (rt1, evs) = (if ip_isUnspecified (ir_netmask e) then
                            (case rt_getDefaultRoute rt of
                               None \<Rightarrow> (rt, [])
                             | Some old \<Rightarrow> (let (rt', _, evs) = rt_deleteRoute (ir_id old) rt in (rt', evs)))
                          else (rt, []))
        in Inr (rt_insertRoute e rt1, evs))"

definition rt_addRoute :: "ipv4_route \<Rightarrow> routing_table \<Rightarrow> (routing_table \<times> route_event list) cpp" where
  "rt_addRoute e rt = cpp_bind (rt_internalAddRoute e rt) (\<lambda>(rt', evs). Inr (rt', evs @ [Route_Added e]))"

text \<open>
  A setter of a route: the field is changed in place, and a changed route of a table calls the
  table's \<open>routeChanged\<close>, which takes the route out and inserts it again when its place may depend on the field.
\<close>

definition rt_routeChanged ::
  "nat \<Rightarrow> route_field \<Rightarrow> routing_table \<Rightarrow> (routing_table \<times> route_event list) cpp" where
  "rt_routeChanged i fld rt =
     (if fld = F_DESTINATION \<or> fld = F_PREFIX_LENGTH \<or> fld = F_METRIC then
        (case rt_internalRemoveRoute i rt of
           (_, None) \<Rightarrow> Inl (Runtime_Error ''ASSERT: Condition 'entry != nullptr' does not hold'')
         | (rt1, Some e) \<Rightarrow> cpp_bind (rt_internalAddRoute e rt1) (\<lambda>(rt2, evs).
             Inr (rt2, evs @ [Route_Changed e])))
      else (case rt_route i rt of
              None \<Rightarrow> Inl Undefined_Behaviour
            | Some e \<Rightarrow> Inr (rt, [Route_Changed e])))"

definition rt_setField ::
  "nat \<Rightarrow> (ipv4_route \<Rightarrow> ipv4_route) \<Rightarrow> route_field \<Rightarrow> routing_table \<Rightarrow> (routing_table \<times> route_event list) cpp" where
  "rt_setField i upd fld rt = (case rt_route i rt of
      None \<Rightarrow> Inl Undefined_Behaviour
    | Some e \<Rightarrow>
        if upd e = e then Inr (rt, [])
        else rt_routeChanged i fld
               (rt\<lparr>rt_routes := map (\<lambda>x. if ir_id x = i then upd x else x) (rt_routes rt)\<rparr>))"

definition rt_setMetric :: "nat \<Rightarrow> int \<Rightarrow> routing_table \<Rightarrow> (routing_table \<times> route_event list) cpp" where
  "rt_setMetric i m = rt_setField i (ir_metric_update (\<lambda>_. m)) F_METRIC"

definition rt_setAdminDist :: "nat \<Rightarrow> 32 word \<Rightarrow> routing_table \<Rightarrow> (routing_table \<times> route_event list) cpp" where
  "rt_setAdminDist i d = rt_setField i (ir_adminDist_update (\<lambda>_. d)) F_ADMINDIST"

definition rt_setDestination :: "nat \<Rightarrow> ipv4_address \<Rightarrow> routing_table \<Rightarrow> (routing_table \<times> route_event list) cpp" where
  "rt_setDestination i d = rt_setField i (ir_dest_update (\<lambda>_. d)) F_DESTINATION"

definition rt_setNetmask :: "nat \<Rightarrow> ipv4_address \<Rightarrow> routing_table \<Rightarrow> (routing_table \<times> route_event list) cpp" where
  "rt_setNetmask i n = rt_setField i (ir_netmask_update (\<lambda>_. n)) F_PREFIX_LENGTH"

definition rt_setGateway :: "nat \<Rightarrow> ipv4_address \<Rightarrow> routing_table \<Rightarrow> (routing_table \<times> route_event list) cpp" where
  "rt_setGateway i g = rt_setField i (ir_gateway_update (\<lambda>_. g)) F_NEXTHOP"

definition rt_setInterface :: "nat \<Rightarrow> int option \<Rightarrow> routing_table \<Rightarrow> (routing_table \<times> route_event list) cpp" where
  "rt_setInterface i f = rt_setField i (ir_interface_update (\<lambda>_. f)) F_IFACE"

definition rt_setSourceType :: "nat \<Rightarrow> route_source_type \<Rightarrow> routing_table \<Rightarrow> (routing_table \<times> route_event list) cpp" where
  "rt_setSourceType i s = rt_setField i (ir_sourceType_update (\<lambda>_. s)) F_SOURCE"

definition rt_setSource :: "nat \<Rightarrow> int option \<Rightarrow> routing_table \<Rightarrow> (routing_table \<times> route_event list) cpp" where
  "rt_setSource i s = rt_setField i (ir_source_update (\<lambda>_. s)) F_SOURCE"

section \<open>Routes and interfaces\<close>

text \<open>
  The erasing loops of the code visit the vector front to back and delete the routes that satisfy
  a test; the cache is cleared at each deletion only.
\<close>

definition rt_eraseRoutes ::
  "(ipv4_route \<Rightarrow> bool) \<Rightarrow> routing_table \<Rightarrow> routing_table \<times> route_event list" where
  "rt_eraseRoutes P rt =
     (let gone = filter P (rt_routes rt);
          rt1 = rt\<lparr>rt_routes := filter (\<lambda>e. \<not> P e) (rt_routes rt)\<rparr>
      in (if gone = [] then rt1 else rt_invalidateCache rt1, map Route_Deleted gone))"

definition rt_deleteInterfaceRoutes :: "int \<Rightarrow> routing_table \<Rightarrow> routing_table \<times> route_event list" where
  "rt_deleteInterfaceRoutes ifId = rt_eraseRoutes (\<lambda>e. ir_interface e = Some ifId)"

definition rt_purge :: "routing_table \<Rightarrow> routing_table \<times> route_event list" where
  "rt_purge = rt_eraseRoutes (\<lambda>e. \<not> ir_valid e)"

text \<open>
  The netmask route of an interface. \<open>nameMatches\<close> is the pattern matcher built from the module
  parameter \<open>netmaskRoutes\<close>.
\<close>

definition rt_netmaskRoute :: "nat \<Rightarrow> network_interface \<Rightarrow> ipv4_interface_data \<Rightarrow> ipv4_route" where
  "rt_netmaskRoute newId ie d =
     \<lparr>ir_id = newId, ir_dest = id_ipAddress d AND id_netmask d, ir_netmask = id_netmask d,
      ir_gateway = 0, ir_interface = Some (ni_interfaceId ie), ir_sourceType = IFACENETMASK,
      ir_source = Some (ni_interfaceId ie), ir_adminDist = dDirectlyConnected,
      ir_metric = id_metric d, ir_valid = True\<rparr>"

definition rt_hasNetmaskRoute :: "(string \<Rightarrow> bool) \<Rightarrow> network_interface \<Rightarrow> bool" where
  "rt_hasNetmaskRoute nameMatches ie = (ni_isUp ie \<and> nameMatches (ni_fullName ie) \<and>
     (case ni_ipv4Data ie of None \<Rightarrow> False | Some d \<Rightarrow> id_netmask d \<noteq> ALLONES_ADDRESS))"

fun rt_addNetmaskRoutes ::
  "(string \<Rightarrow> bool) \<Rightarrow> network_interface list \<Rightarrow> routing_table \<Rightarrow> routing_table \<times> route_event list" where
  "rt_addNetmaskRoutes nameMatches [] rt = (rt, [])"
| "rt_addNetmaskRoutes nameMatches (ie # ies) rt =
     (if rt_hasNetmaskRoute nameMatches ie then
        let e = rt_netmaskRoute (rt_nextId rt) ie (the (ni_ipv4Data ie));
            (rt', evs) = rt_addNetmaskRoutes nameMatches ies
                           ((rt_insertRoute e rt)\<lparr>rt_nextId := rt_nextId rt + 1\<rparr>)
        in (rt', Route_Added e # evs)
      else rt_addNetmaskRoutes nameMatches ies rt)"

definition rt_updateNetmaskRoutes ::
  "(string \<Rightarrow> bool) \<Rightarrow> network_interface list \<Rightarrow> routing_table \<Rightarrow> routing_table \<times> route_event list" where
  "rt_updateNetmaskRoutes nameMatches ift rt =
     (let (rt1, evs1) = rt_eraseRoutes (\<lambda>e. ir_sourceType e = IFACENETMASK) rt;
          (rt2, evs2) = rt_addNetmaskRoutes nameMatches ift rt1
      in (rt2, evs1 @ evs2))"

text \<open>The notifications the table reacts to, after initialisation.\<close>

datatype if_notification =
    Interface_Created
  | Interface_Deleted network_interface
  | Interface_State_Change if_field network_interface
  | Interface_State_Other network_interface    \<comment> \<open>a state notification for another field\<close>
  | Interface_Config_Changed
  | Interface_Ipv4_Config_Changed

definition rt_receiveSignal ::
  "(string \<Rightarrow> bool) \<Rightarrow> network_interface list \<Rightarrow> if_notification \<Rightarrow> routing_table \<Rightarrow>
   routing_table \<times> route_event list" where
  "rt_receiveSignal nameMatches ift n rt = (case n of
      Interface_Created \<Rightarrow>
        (let (rt1, evs) = rt_updateNetmaskRoutes nameMatches ift rt in (rt_invalidateCache rt1, evs))
    | Interface_Deleted ie \<Rightarrow>
        (let (rt1, evs) = rt_deleteInterfaceRoutes (ni_interfaceId ie) rt in (rt_invalidateCache rt1, evs))
    | Interface_State_Change fld ie \<Rightarrow>
        (let rt0 = rt_invalidateCache rt;
             (rt1, evs1) = rt_updateNetmaskRoutes nameMatches ift rt0;
             (rt2, evs2) = (if \<not> ni_isUp ie then rt_deleteInterfaceRoutes (ni_interfaceId ie) rt1 else (rt1, []))
         in (rt_invalidateCache rt2, evs1 @ evs2))
    | Interface_State_Other ie \<Rightarrow> (rt_invalidateCache rt, [])
    | Interface_Config_Changed \<Rightarrow> (rt_invalidateCache rt, [])
    | Interface_Ipv4_Config_Changed \<Rightarrow>
        (let (rt1, evs) = rt_updateNetmaskRoutes nameMatches ift rt in (rt_invalidateCache rt1, evs)))"

text \<open>Stopping or crashing the node removes the first route until there is none.\<close>

fun rt_removeAll :: "nat \<Rightarrow> routing_table \<Rightarrow> routing_table \<times> route_event list" where
  "rt_removeAll 0 rt = (rt, [])"
| "rt_removeAll (Suc n) rt = (case rt_routes rt of
      [] \<Rightarrow> (rt, [])
    | e # _ \<Rightarrow> (let (rt1, _, evs1) = rt_removeRoute (ir_id e) rt;
                   (rt2, evs2) = rt_removeAll n rt1
               in (rt2, evs1 @ evs2)))"

definition rt_handleStop :: "routing_table \<Rightarrow> routing_table \<times> route_event list" where
  "rt_handleStop rt =
     (let (rt', evs) = rt_removeAll (length (rt_routes rt)) rt in (rt'\<lparr>rt_isNodeUp := False\<rparr>, evs))"

section \<open>Broadcast addresses\<close>

definition rt_collectBroadcast :: "network_interface list \<Rightarrow> ipv4_address set" where
  "rt_collectBroadcast ift = set (filter (\<lambda>a. \<not> ip_isUnspecified a)
     (map (\<lambda>ie. ip_makeBroadcastAddress (ni_getIpv4Address ie) (ni_getIpv4Netmask ie))
       (filter (\<lambda>ie. ni_broadcast ie \<and> ni_ipv4Data ie \<noteq> None) ift)))"

text \<open>\<open>getProtocolData\<close> throws for a broadcast interface without IPv4 data.\<close>

definition rt_isLocalBroadcastAddress ::
  "network_interface list \<Rightarrow> ipv4_address \<Rightarrow> routing_table \<Rightarrow> (routing_table \<times> bool) cpp" where
  "rt_isLocalBroadcastAddress ift dest rt =
     (if rt_localBroadcastAddresses rt = {} then
        if list_ex (\<lambda>ie. ni_broadcast ie \<and> ni_ipv4Data ie = None) ift then
          Inl (Runtime_Error ''getProtocolData: no such protocol data'')
        else let s = rt_collectBroadcast ift in
             Inr (rt\<lparr>rt_localBroadcastAddresses := s\<rparr>, dest \<in> s)
      else Inr (rt, dest \<in> rt_localBroadcastAddresses rt))"

fun rt_findInterfaceByLocalBroadcastAddress ::
  "network_interface list \<Rightarrow> ipv4_address \<Rightarrow> int option cpp" where
  "rt_findInterfaceByLocalBroadcastAddress [] dest = Inr None"
| "rt_findInterfaceByLocalBroadcastAddress (ie # ies) dest =
     (if \<not> ni_broadcast ie then rt_findInterfaceByLocalBroadcastAddress ies dest
      else case ni_ipv4Data ie of
             None \<Rightarrow> Inl (Runtime_Error ''getProtocolData: no such protocol data'')
           | Some d \<Rightarrow> if ip_makeBroadcastAddress (id_ipAddress d) (id_netmask d) = dest
                       then Inr (Some (ni_interfaceId ie))
                       else rt_findInterfaceByLocalBroadcastAddress ies dest)"

lemmas rt_defs = rt_invalidateCache_def rt_insertRoute_def rt_eraseRoutes_def Let_def

section \<open>The order is a strict weak order\<close>

lemma rt_routeLessThan_asym: "rt_routeLessThan ad a b \<Longrightarrow> \<not> rt_routeLessThan ad b a"
  by (auto simp: rt_routeLessThan_def split: if_splits)

lemma rt_routeLessThan_neg_trans:
  "\<not> rt_routeLessThan ad b a \<Longrightarrow> \<not> rt_routeLessThan ad c b \<Longrightarrow> \<not> rt_routeLessThan ad c a"
  by (auto simp: rt_routeLessThan_def split: if_splits)

interpretation route_order: weak_order "rt_routeLessThan ad" for ad
  by unfold_locales (fact rt_routeLessThan_asym, fact rt_routeLessThan_neg_trans)

section \<open>Well-formed tables\<close>

text \<open>
  The vector is sorted, routes have contiguous netmasks, no destination bits outside the netmask and an
  interface, route names are unique, and the cache agrees with a scan of the vector.
\<close>

definition rt_sorted :: "routing_table \<Rightarrow> bool" where
  "rt_sorted rt = sorted_wrt (\<lambda>a b. \<not> rt_routeLessThan (rt_useAdminDist rt) b a) (rt_routes rt)"

definition route_ok :: "ipv4_route \<Rightarrow> bool" where
  "route_ok e = (ip_isValidNetmask (ir_netmask e) \<and> ir_dest e AND NOT (ir_netmask e) = 0
                 \<and> ir_interface e \<noteq> None)"

definition rt_scan :: "ipv4_address \<Rightarrow> routing_table \<Rightarrow> ipv4_route option" where
  "rt_scan dest rt = find (rt_matches dest) (rt_routes rt)"

definition rt_cache_ok :: "routing_table \<Rightarrow> bool" where
  "rt_cache_ok rt = (\<forall>dest r. rt_routingCache rt dest = Some r \<longrightarrow> r = map_option ir_id (rt_scan dest rt))"

definition rt_ids_ok :: "routing_table \<Rightarrow> bool" where
  "rt_ids_ok rt = (distinct (map ir_id (rt_routes rt)) \<and> list_all (\<lambda>e. ir_id e < rt_nextId rt) (rt_routes rt))"

definition rt_wf :: "routing_table \<Rightarrow> bool" where
  "rt_wf rt = (rt_sorted rt \<and> list_all route_ok (rt_routes rt) \<and> rt_ids_ok rt \<and> rt_cache_ok rt)"

lemma rt_cache_ok_invalidate [simp]: "rt_cache_ok (rt_invalidateCache rt)"
  by (simp add: rt_cache_ok_def rt_invalidateCache_def)

lemma rt_invalidateCache_fields [simp]:
  "rt_routes (rt_invalidateCache rt) = rt_routes rt"
  "rt_useAdminDist (rt_invalidateCache rt) = rt_useAdminDist rt"
  "rt_nextId (rt_invalidateCache rt) = rt_nextId rt"
  by (simp_all add: rt_invalidateCache_def)

lemma rt_wf_invalidate: "rt_wf rt \<Longrightarrow> rt_wf (rt_invalidateCache rt)"
  by (simp add: rt_wf_def rt_sorted_def rt_ids_ok_def)

section \<open>Lookup is longest-prefix match\<close>

lemma rt_route_unique:
  assumes "rt_ids_ok rt" "e \<in> set (rt_routes rt)"
  shows "rt_route (ir_id e) rt = Some e"
proof -
  have "\<exists>x. rt_route (ir_id e) rt = Some x" using assms(2)
    by (cases "rt_route (ir_id e) rt") (auto simp: rt_route_def find_None_iff)
  then obtain x where x: "rt_route (ir_id e) rt = Some x" by blast
  then have "x \<in> set (rt_routes rt)" "ir_id x = ir_id e"
    by (auto simp: rt_route_def find_Some_iff)
  with assms have "x = e" by (auto simp: rt_ids_ok_def distinct_map inj_on_def)
  with x show ?thesis by simp
qed

lemma rt_scan_SomeD: "rt_scan dest rt = Some e \<Longrightarrow> e \<in> set (rt_routes rt) \<and> rt_matches dest e"
  by (auto simp: rt_scan_def find_Some_iff)

lemma rt_scan_NoneD: "rt_scan dest rt = None \<Longrightarrow> \<forall>e \<in> set (rt_routes rt). \<not> rt_matches dest e"
  by (auto simp: rt_scan_def find_None_iff)

text \<open>The cache changes nothing but the cost of a lookup.\<close>

lemma rt_findBestMatchingRoute_scan:
  assumes "rt_wf rt"
  shows "\<exists>rt'. rt_findBestMatchingRoute dest rt = Inr (rt', rt_scan dest rt)
    \<and> rt_routes rt' = rt_routes rt \<and> rt_wf rt'"
proof (cases "rt_routingCache rt dest")
  case None
  let ?rt = "rt\<lparr>rt_routingCache := (rt_routingCache rt)(dest := Some (map_option ir_id (rt_scan dest rt)))\<rparr>"
  have "rt_wf ?rt" using assms
    by (auto simp: rt_wf_def rt_sorted_def rt_ids_ok_def rt_cache_ok_def rt_scan_def)
  with None show ?thesis by (simp add: rt_findBestMatchingRoute_def rt_scan_def Let_def)
next
  case (Some r)
  then have r: "r = map_option ir_id (rt_scan dest rt)" using assms by (auto simp: rt_wf_def rt_cache_ok_def)
  show ?thesis
  proof (cases "rt_scan dest rt")
    case None
    with r Some assms show ?thesis by (simp add: rt_findBestMatchingRoute_def Let_def)
  next
    case (Some e)
    then have e: "e \<in> set (rt_routes rt)" "rt_matches dest e" by (auto dest: rt_scan_SomeD)
    have "rt_route (ir_id e) rt = Some e" using assms e(1) by (intro rt_route_unique) (auto simp: rt_wf_def)
    with r Some \<open>rt_routingCache rt dest = Some r\<close> assms e(2) show ?thesis
      by (simp add: rt_findBestMatchingRoute_def rt_matches_def Let_def)
  qed
qed

lemma rt_scan_best:
  assumes "rt_wf rt" "rt_scan dest rt = Some e" "e' \<in> set (rt_routes rt)" "rt_matches dest e'"
  shows "ip_getNetmaskLength (ir_netmask e') \<le> ip_getNetmaskLength (ir_netmask e)"
    and "ir_netmask e' = ir_netmask e \<Longrightarrow> ir_dest e' = ir_dest e \<and>
         (if rt_useAdminDist rt \<and> ir_adminDist e \<noteq> ir_adminDist e' then ir_adminDist e < ir_adminDist e'
          else ir_metric e \<le> ir_metric e')"
proof -
  have e: "e \<in> set (rt_routes rt)" "rt_matches dest e" using rt_scan_SomeD[OF assms(2)] by auto
  have ok: "route_ok e" "route_ok e'" using assms(1,3) e(1) by (auto simp: rt_wf_def list_all_iff)
  have nlt: "\<not> rt_routeLessThan (rt_useAdminDist rt) e' e"
    using assms by (intro route_order.find_least[where P = "rt_matches dest"]) (auto simp: rt_wf_def rt_sorted_def rt_scan_def)
  then have "\<not> ir_netmask e < ir_netmask e'" by (auto simp: rt_routeLessThan_def split: if_splits)
  then show "ip_getNetmaskLength (ir_netmask e') \<le> ip_getNetmaskLength (ir_netmask e)"
  proof -
    assume nl: "\<not> ir_netmask e < ir_netmask e'"
    have v: "ip_isValidNetmask (ir_netmask e)" "ip_isValidNetmask (ir_netmask e')"
      using ok by (simp_all add: route_ok_def)
    from nl show ?thesis unfolding ip_netmask_less_iff[OF v] by simp
  qed
  show "ir_dest e' = ir_dest e \<and>
         (if rt_useAdminDist rt \<and> ir_adminDist e \<noteq> ir_adminDist e' then ir_adminDist e < ir_adminDist e'
          else ir_metric e \<le> ir_metric e')" if nm: "ir_netmask e' = ir_netmask e"
  proof -
    have clean: "ir_dest x AND ir_netmask x = ir_dest x" if "route_ok x" for x
      using that by (simp add: route_ok_def ip_and_clean)
    have "dest AND ir_netmask e = ir_dest e" "dest AND ir_netmask e' = ir_dest e'"
      using e(2) assms(4) clean ok by (auto simp: rt_matches_def ip_maskedAddrAreEqual_iff)
    then have d: "ir_dest e' = ir_dest e" using nm by simp
    with nlt nm show ?thesis by (auto simp: rt_routeLessThan_def split: if_splits)
  qed
qed

section \<open>Every operation keeps the table well formed\<close>

text \<open>Removing routes: any sublist of the vector, with the cache cleared.\<close>

lemma rt_wf_filter:
  assumes "rt_wf rt"
  shows "rt_wf (rt_invalidateCache (rt\<lparr>rt_routes := filter P (rt_routes rt)\<rparr>))"
  using assms by (auto simp: rt_wf_def rt_sorted_def rt_ids_ok_def list_all_iff sorted_wrt_filter
      distinct_map_filter)

lemma rt_eraseRoutes_wf:
  assumes "rt_wf rt"
  shows "rt_wf (fst (rt_eraseRoutes P rt))"
proof (cases "filter P (rt_routes rt) = []")
  case True
  then have "filter (\<lambda>e. \<not> P e) (rt_routes rt) = rt_routes rt" by (simp add: filter_empty_conv)
  with True assms show ?thesis by (simp add: rt_eraseRoutes_def Let_def)
next
  case False
  with rt_wf_filter[OF assms, of "\<lambda>e. \<not> P e"] show ?thesis by (simp add: rt_eraseRoutes_def Let_def)
qed

lemma rt_eraseRoutes_fields [simp]:
  "rt_routes (fst (rt_eraseRoutes P rt)) = filter (\<lambda>e. \<not> P e) (rt_routes rt)"
  "rt_nextId (fst (rt_eraseRoutes P rt)) = rt_nextId rt"
  "rt_useAdminDist (fst (rt_eraseRoutes P rt)) = rt_useAdminDist rt"
  "snd (rt_eraseRoutes P rt) = map Route_Deleted (filter P (rt_routes rt))"
  by (simp_all add: rt_eraseRoutes_def Let_def)

lemma remove1_filter_id:
  assumes "distinct (map f xs)" "e \<in> set xs"
  shows "remove1 e xs = filter (\<lambda>x. f x \<noteq> f e) xs"
  using assms
proof (induction xs)
  case Nil
  then show ?case by simp
next
  case (Cons x xs)
  show ?case
  proof (cases "x = e")
    case True
    with Cons.prems(1) have "filter (\<lambda>x. f x \<noteq> f e) xs = xs" by (auto simp: filter_id_conv image_iff)
    with True show ?thesis by simp
  next
    case False
    with Cons show ?thesis by (auto simp: image_iff)
  qed
qed

lemma rt_internalRemoveRoute_eq:
  assumes "rt_ids_ok rt"
  shows "rt_internalRemoveRoute i rt = (case rt_route i rt of None \<Rightarrow> (rt, None)
    | Some e \<Rightarrow> (rt_invalidateCache (rt\<lparr>rt_routes := filter (\<lambda>x. ir_id x \<noteq> i) (rt_routes rt)\<rparr>), Some e))"
proof (cases "rt_route i rt")
  case None
  then show ?thesis by (simp add: rt_internalRemoveRoute_def)
next
  case (Some e)
  then have "e \<in> set (rt_routes rt)" "ir_id e = i" by (auto simp: rt_route_def find_Some_iff)
  with Some assms show ?thesis
    by (simp add: rt_internalRemoveRoute_def remove1_filter_id[where f = ir_id] rt_ids_ok_def)
qed

lemma rt_wf_ids: "rt_wf rt \<Longrightarrow> rt_ids_ok rt"
  by (simp add: rt_wf_def)

lemma rt_internalRemoveRoute_wf: "rt_wf rt \<Longrightarrow> rt_wf (fst (rt_internalRemoveRoute i rt))"
  by (auto simp: rt_internalRemoveRoute_eq[OF rt_wf_ids] rt_wf_filter split: option.splits)

lemma rt_removeRoute_wf: "rt_wf rt \<Longrightarrow> rt_wf (fst (rt_removeRoute i rt))"
  using rt_internalRemoveRoute_wf[of rt i] by (auto simp: rt_removeRoute_def split: prod.splits option.splits)

lemma rt_deleteRoute_wf: "rt_wf rt \<Longrightarrow> rt_wf (fst (rt_deleteRoute i rt))"
  using rt_internalRemoveRoute_wf[of rt i] by (auto simp: rt_deleteRoute_def split: prod.splits option.splits)

lemma rt_deleteRoute_routes:
  "rt_wf rt \<Longrightarrow> rt_routes (fst (rt_deleteRoute i rt)) = filter (\<lambda>x. ir_id x \<noteq> i) (rt_routes rt)
     \<and> rt_nextId (fst (rt_deleteRoute i rt)) = rt_nextId rt
     \<and> rt_useAdminDist (fst (rt_deleteRoute i rt)) = rt_useAdminDist rt"
  by (auto simp: rt_deleteRoute_def rt_internalRemoveRoute_eq[OF rt_wf_ids] rt_route_def find_None_iff
      filter_id_conv split: option.splits)

text \<open>Inserting a fresh, acceptable route.\<close>

lemma rt_insertRoute_wf:
  assumes "rt_wf rt" "route_ok e" "ir_id e < rt_nextId rt" "ir_id e \<notin> ir_id ` set (rt_routes rt)"
  shows "rt_wf (rt_insertRoute e rt)"
  using assms by (auto simp: rt_wf_def rt_sorted_def rt_ids_ok_def rt_insertRoute_def list_all_iff
      insert_upper_bound_distinct route_order.insert_sorted)

lemma rt_insertRoute_routes:
  "rt_routes (rt_insertRoute e rt) = insert_upper_bound (rt_routeLessThan (rt_useAdminDist rt)) e (rt_routes rt)"
  by (simp add: rt_insertRoute_def)

lemma rt_internalAddRoute_Inr:
  assumes "rt_internalAddRoute e rt = Inr (rt', evs)"
  obtains rt1 where "route_ok e" "ir_netmask e \<noteq> 0 \<longrightarrow> ir_dest e AND ir_netmask e \<noteq> 0"
    "rt' = rt_insertRoute e rt1"
    "rt1 = (if ir_netmask e = 0 then (case rt_getDefaultRoute rt of None \<Rightarrow> rt
              | Some old \<Rightarrow> fst (rt_deleteRoute (ir_id old) rt)) else rt)"
    "evs = (if ir_netmask e = 0 then (case rt_getDefaultRoute rt of None \<Rightarrow> []
              | Some old \<Rightarrow> snd (snd (rt_deleteRoute (ir_id old) rt))) else [])"
  using assms
  by (auto simp: rt_internalAddRoute_def route_ok_def ip_isUnspecified_def Let_def
      split: if_splits option.splits prod.splits)

lemma rt_internalAddRoute_wf:
  assumes "rt_internalAddRoute e rt = Inr (rt', evs)" "rt_wf rt"
    and "ir_id e < rt_nextId rt" "ir_id e \<notin> ir_id ` set (rt_routes rt)"
  shows "rt_wf rt'"
  using assms(1)
proof (rule rt_internalAddRoute_Inr)
  fix rt1 assume ok: "route_ok e" and rt': "rt' = rt_insertRoute e rt1"
    and rt1: "rt1 = (if ir_netmask e = 0 then (case rt_getDefaultRoute rt of None \<Rightarrow> rt
              | Some old \<Rightarrow> fst (rt_deleteRoute (ir_id old) rt)) else rt)"
  have "rt_wf rt1" "rt_nextId rt1 = rt_nextId rt" "set (rt_routes rt1) \<subseteq> set (rt_routes rt)"
    using assms(2) rt_deleteRoute_wf rt_deleteRoute_routes[OF assms(2)]
    by (auto simp: rt1 split: option.splits)
  with ok assms(3,4) show ?thesis unfolding rt' by (intro rt_insertRoute_wf) auto
qed

lemma rt_addRoute_wf:
  assumes "rt_addRoute e rt = Inr (rt', evs)" "rt_wf rt"
    and "ir_id e < rt_nextId rt" "ir_id e \<notin> ir_id ` set (rt_routes rt)"
  shows "rt_wf rt'"
  using assms rt_internalAddRoute_wf by (auto simp: rt_addRoute_def cpp_bind_Inr_iff)

text \<open>
  A setter of a field the order depends on: between the change and the re-insertion the vector may
  be out of order, but only at the changed route.
\<close>

definition rt_updateAt :: "nat \<Rightarrow> (ipv4_route \<Rightarrow> ipv4_route) \<Rightarrow> routing_table \<Rightarrow> routing_table" where
  "rt_updateAt i upd rt = rt\<lparr>rt_routes := map (\<lambda>x. if ir_id x = i then upd x else x) (rt_routes rt)\<rparr>"

lemma rt_updateAt_ids:
  assumes "rt_ids_ok rt" "\<And>x. ir_id (upd x) = ir_id x"
  shows "rt_ids_ok (rt_updateAt i upd rt)"
    and "filter (\<lambda>x. ir_id x \<noteq> i) (rt_routes (rt_updateAt i upd rt)) = filter (\<lambda>x. ir_id x \<noteq> i) (rt_routes rt)"
proof -
  have m: "map ir_id (rt_routes (rt_updateAt i upd rt)) = map ir_id (rt_routes rt)"
    by (simp add: rt_updateAt_def assms(2))
  have ids: "rt_ids_ok r \<longleftrightarrow> distinct (map ir_id (rt_routes r)) \<and>
      list_all (\<lambda>k. k < rt_nextId r) (map ir_id (rt_routes r))" for r
    by (simp add: rt_ids_ok_def list.pred_map comp_def)
  have "rt_nextId (rt_updateAt i upd rt) = rt_nextId rt" by (simp add: rt_updateAt_def)
  with assms(1) show "rt_ids_ok (rt_updateAt i upd rt)" unfolding ids m by (simp only:)
  have "filter (\<lambda>x. ir_id x \<noteq> i) (map (\<lambda>x. if ir_id x = i then upd x else x) xs) = filter (\<lambda>x. ir_id x \<noteq> i) xs" for xs
    by (induction xs) (simp_all add: assms(2))
  then show "filter (\<lambda>x. ir_id x \<noteq> i) (rt_routes (rt_updateAt i upd rt)) = filter (\<lambda>x. ir_id x \<noteq> i) (rt_routes rt)"
    by (simp add: rt_updateAt_def)
qed

lemma rt_setField_resort_wf:
  assumes "rt_setField i upd fld rt = Inr (rt', evs)" "rt_wf rt" "\<And>x. ir_id (upd x) = ir_id x"
    and "fld \<in> {F_DESTINATION, F_PREFIX_LENGTH, F_METRIC}"
  shows "rt_wf rt'"
proof (cases "rt' = rt")
  case True
  with assms(2) show ?thesis by simp
next
  case False
  let ?rt1 = "rt_updateAt i upd rt"
  note ids = rt_updateAt_ids[of rt upd i, OF rt_wf_ids[OF assms(2)] assms(3)]
  from False assms(1,4) obtain e e1 rt2 evs2 where e: "rt_route i rt = Some e"
    and r: "rt_internalRemoveRoute i ?rt1 = (rt2, Some e1)"
    and a: "rt_internalAddRoute e1 rt2 = Inr (rt', evs2)"
    by (auto simp: rt_setField_def rt_routeChanged_def rt_updateAt_def[symmetric] cpp_bind_Inr_iff
        split: option.splits if_splits prod.splits)
  have e1: "rt_route i ?rt1 = Some e1" "rt2 = rt_invalidateCache (?rt1\<lparr>rt_routes := filter (\<lambda>x. ir_id x \<noteq> i) (rt_routes ?rt1)\<rparr>)"
    using r rt_internalRemoveRoute_eq[OF ids(1), of i] by (auto split: option.splits)
  have "rt2 = rt_invalidateCache (rt\<lparr>rt_routes := filter (\<lambda>x. ir_id x \<noteq> i) (rt_routes rt)\<rparr>)"
    unfolding e1(2) ids(2) by (simp add: rt_updateAt_def)
  then have wf2: "rt_wf rt2" "rt_routes rt2 = filter (\<lambda>x. ir_id x \<noteq> i) (rt_routes rt)" "rt_nextId rt2 = rt_nextId rt"
    using rt_wf_filter[OF assms(2)] by simp_all
  have i1: "ir_id e1 = i" "e1 \<in> set (rt_routes ?rt1)" using e1(1) by (auto simp: rt_route_def find_Some_iff)
  have "list_all (\<lambda>e. ir_id e < rt_nextId ?rt1) (rt_routes ?rt1)" using ids(1) by (simp add: rt_ids_ok_def)
  then have "ir_id e1 < rt_nextId ?rt1" using i1(2) by (simp only: list_all_iff)
  also have "rt_nextId ?rt1 = rt_nextId rt2" by (simp add: rt_updateAt_def wf2(3))
  finally have lt: "ir_id e1 < rt_nextId rt2" .
  have "ir_id e1 \<notin> ir_id ` set (rt_routes rt2)" unfolding wf2(2) i1(1) by auto
  with a wf2(1) lt show ?thesis by (rule rt_internalAddRoute_wf)
qed

text \<open>A setter of a field that neither the order nor the matching depends on.\<close>

lemma rt_find_map:
  "(\<And>x. P (f x) = P x) \<Longrightarrow> find P (map f xs) = map_option f (find P xs)"
  by (induction xs) auto

lemma rt_setField_inplace_wf:
  assumes "rt_setField i upd fld rt = Inr (rt', evs)" "rt_wf rt"
    and "fld \<notin> {F_DESTINATION, F_PREFIX_LENGTH, F_METRIC}"
    and keep: "\<And>x. ir_id (upd x) = ir_id x" "\<And>x. route_ok x \<Longrightarrow> route_ok (upd x)"
      "\<And>d x. rt_matches d (upd x) = rt_matches d x"
      "\<And>x y. rt_routeLessThan (rt_useAdminDist rt) (upd x) y = rt_routeLessThan (rt_useAdminDist rt) x y"
      "\<And>x y. rt_routeLessThan (rt_useAdminDist rt) x (upd y) = rt_routeLessThan (rt_useAdminDist rt) x y"
  shows "rt_wf rt'"
proof (cases "rt' = rt")
  case False
  let ?f = "\<lambda>x. if ir_id x = i then upd x else x"
  have rt': "rt' = rt_updateAt i upd rt"
    using False assms(1,3) by (auto simp: rt_setField_def rt_routeChanged_def rt_updateAt_def
        split: option.splits if_splits)
  note wf = assms(2)[unfolded rt_wf_def]
  have "rt_sorted rt'" using wf keep(4,5)
    by (auto simp: rt' rt_sorted_def rt_updateAt_def sorted_wrt_map elim!: sorted_wrt_mono_rel[rotated])
  moreover have "list_all route_ok (rt_routes rt')"
    using wf keep(2) by (auto simp: rt' rt_updateAt_def list_all_iff)
  moreover have "rt_ids_ok rt'" using rt_updateAt_ids(1)[of rt upd i] wf keep(1) by (simp add: rt')
  moreover have "rt_scan d rt' = map_option ?f (rt_scan d rt)" for d
    unfolding rt' rt_scan_def rt_updateAt_def by (simp add: rt_find_map keep(3))
  then have "map_option ir_id (rt_scan d rt') = map_option ir_id (rt_scan d rt)" for d
    by (cases "rt_scan d rt") (simp_all add: keep(1))
  then have "rt_cache_ok rt'" using wf by (simp add: rt_cache_ok_def rt' rt_updateAt_def)
  ultimately show ?thesis by (simp add: rt_wf_def)
qed (use assms(2) in simp)

text \<open>Netmask routes of interfaces with contiguous netmasks.\<close>

definition ift_ok :: "network_interface list \<Rightarrow> bool" where
  "ift_ok ift = list_all (\<lambda>ie. case ni_ipv4Data ie of None \<Rightarrow> True | Some d \<Rightarrow> ip_isValidNetmask (id_netmask d)) ift"

lemma rt_netmaskRoute_ok: "ip_isValidNetmask (id_netmask d) \<Longrightarrow> route_ok (rt_netmaskRoute n ie d)"
  by (auto simp: route_ok_def rt_netmaskRoute_def bit_eq_iff bit_and_iff bit_not_iff)

lemma rt_addNetmaskRoutes_wf:
  "rt_wf rt \<Longrightarrow> ift_ok ift \<Longrightarrow> rt_wf (fst (rt_addNetmaskRoutes nm ift rt))"
proof (induction ift arbitrary: rt)
  case Nil
  then show ?case by simp
next
  case (Cons ie ies)
  show ?case
  proof (cases "rt_hasNetmaskRoute nm ie")
    case True
    then obtain d where d: "ni_ipv4Data ie = Some d" by (auto simp: rt_hasNetmaskRoute_def split: option.splits)
    let ?e = "rt_netmaskRoute (rt_nextId rt) ie d" and ?rt = "rt\<lparr>rt_nextId := rt_nextId rt + 1\<rparr>"
    have "rt_wf ?rt" using Cons.prems(1)
      by (auto simp: rt_wf_def rt_sorted_def rt_ids_ok_def rt_cache_ok_def rt_scan_def list_all_iff)
    moreover have "ir_id ?e = rt_nextId rt" by (simp add: rt_netmaskRoute_def)
    moreover have "rt_nextId rt \<notin> ir_id ` set (rt_routes rt)"
      using Cons.prems(1) by (auto simp: rt_wf_def rt_ids_ok_def list_all_iff)
    moreover have "route_ok ?e" using Cons.prems(2) d by (intro rt_netmaskRoute_ok) (simp add: ift_ok_def)
    ultimately have "rt_wf (rt_insertRoute ?e ?rt)" by (intro rt_insertRoute_wf) simp_all
    moreover have "rt_insertRoute ?e ?rt = (rt_insertRoute ?e rt)\<lparr>rt_nextId := rt_nextId rt + 1\<rparr>"
      by (simp add: rt_insertRoute_def rt_invalidateCache_def)
    ultimately have "rt_wf ((rt_insertRoute ?e rt)\<lparr>rt_nextId := rt_nextId rt + 1\<rparr>)" by simp
    from Cons.IH[OF this] Cons.prems(2) True d show ?thesis
      by (simp add: ift_ok_def Let_def split_beta)
  next
    case False
    with Cons show ?thesis by (simp add: ift_ok_def)
  qed
qed

lemma rt_updateNetmaskRoutes_wf:
  "rt_wf rt \<Longrightarrow> ift_ok ift \<Longrightarrow> rt_wf (fst (rt_updateNetmaskRoutes nm ift rt))"
  using rt_addNetmaskRoutes_wf[OF rt_eraseRoutes_wf, of rt ift nm "\<lambda>e. ir_sourceType e = IFACENETMASK"]
  by (simp add: rt_updateNetmaskRoutes_def split_beta Let_def)

lemma rt_receiveSignal_wf:
  assumes "rt_wf rt" "ift_ok ift"
  shows "rt_wf (fst (rt_receiveSignal nm ift n rt))"
  using assms rt_updateNetmaskRoutes_wf[of rt ift nm] rt_updateNetmaskRoutes_wf[OF rt_wf_invalidate, of rt ift nm]
    rt_eraseRoutes_wf
  by (cases n) (simp_all add: rt_receiveSignal_def rt_deleteInterfaceRoutes_def Let_def rt_wf_invalidate
      split_beta)

text \<open>The netmask routes are rebuilt, the others stay; a notification for an interface that is not up
  deletes its routes.\<close>

lemma rt_addNetmaskRoutes_others:
  "(\<And>n ie d. \<not> P (rt_netmaskRoute n ie d)) \<Longrightarrow>
     filter P (rt_routes (fst (rt_addNetmaskRoutes nm ift rt))) = filter P (rt_routes rt)"
  by (induction ift arbitrary: rt)
    (simp_all add: Let_def split_beta rt_insertRoute_routes filter_insert_upper_bound)

lemma rt_updateNetmaskRoutes_others:
  "filter (\<lambda>e. ir_sourceType e \<noteq> IFACENETMASK) (rt_routes (fst (rt_updateNetmaskRoutes nm ift rt)))
     = filter (\<lambda>e. ir_sourceType e \<noteq> IFACENETMASK) (rt_routes rt)"
  by (simp add: rt_updateNetmaskRoutes_def split_beta Let_def rt_addNetmaskRoutes_others rt_netmaskRoute_def)

lemma rt_stateChange_routes:
  assumes "rt' = fst (rt_receiveSignal nm ift (Interface_State_Change fld ie) rt)"
  shows "\<not> ni_isUp ie \<Longrightarrow> e \<in> set (rt_routes rt') \<Longrightarrow> ir_interface e \<noteq> Some (ni_interfaceId ie)"
    and "filter (\<lambda>e. ir_sourceType e \<noteq> IFACENETMASK \<and> ir_interface e \<noteq> Some (ni_interfaceId ie)) (rt_routes rt') =
      filter (\<lambda>e. ir_sourceType e \<noteq> IFACENETMASK \<and> ir_interface e \<noteq> Some (ni_interfaceId ie)) (rt_routes rt)"
proof -
  let ?rt1 = "fst (rt_updateNetmaskRoutes nm ift (rt_invalidateCache rt))"
  have r: "rt_routes rt' = (if ni_isUp ie then rt_routes ?rt1
      else filter (\<lambda>e. ir_interface e \<noteq> Some (ni_interfaceId ie)) (rt_routes ?rt1))"
    using assms by (simp add: rt_receiveSignal_def Let_def split_beta rt_deleteInterfaceRoutes_def)
  then show "\<not> ni_isUp ie \<Longrightarrow> e \<in> set (rt_routes rt') \<Longrightarrow> ir_interface e \<noteq> Some (ni_interfaceId ie)" by simp
  let ?Q = "\<lambda>e. ir_sourceType e \<noteq> IFACENETMASK" and ?R = "\<lambda>e. ir_interface e \<noteq> Some (ni_interfaceId ie)"
  have "filter ?R (filter ?Q (rt_routes rt')) = filter ?R (filter ?Q (rt_routes ?rt1))"
    unfolding r filter_filter by (cases "ni_isUp ie") (auto intro: filter_cong)
  also have "\<dots> = filter ?R (filter ?Q (rt_routes rt))" unfolding rt_updateNetmaskRoutes_others by simp
  finally show "filter (\<lambda>e. ?Q e \<and> ?R e) (rt_routes rt') = filter (\<lambda>e. ?Q e \<and> ?R e) (rt_routes rt)"
    by (simp add: filter_filter conj_commute)
qed

section \<open>The calls on a table as a step relation\<close>

text \<open>
  The calls of the module: routes are added with a fresh name, setters change the
  fields of a route in place, and interfaces report their changes. Setting the administrative distance is a step only
  while it does not take part in the order; with \<open>useAdminDist\<close> it can leave the vector unsorted.
\<close>

datatype rt_call =
    Add_Route ipv4_route
  | Remove_Route nat
  | Delete_Route nat
  | Set_Metric nat int
  | Set_Destination nat ipv4_address
  | Set_Netmask nat ipv4_address
  | Set_Gateway nat ipv4_address
  | Set_Interface nat "int option"
  | Set_Admin_Dist nat "32 word"
  | Set_Source_Type nat route_source_type
  | Set_Source nat "int option"
  | Set_Valid nat bool
  | Lookup ipv4_address
  | Notify "network_interface list" if_notification
  | Purge
  | Stop

definition rt_newRoute :: "ipv4_route \<Rightarrow> routing_table \<Rightarrow> ipv4_route \<times> routing_table" where
  "rt_newRoute e rt = (e\<lparr>ir_id := rt_nextId rt\<rparr>, rt\<lparr>rt_nextId := rt_nextId rt + 1\<rparr>)"

text \<open>
  The validity of a route of a subclass (\<open>DsdvIpv4Route\<close>) depends on the time; it changes without a call of the table.
\<close>

definition rt_setValid :: "nat \<Rightarrow> bool \<Rightarrow> routing_table \<Rightarrow> routing_table" where
  "rt_setValid i v rt = rt\<lparr>rt_routes := map (\<lambda>e. if ir_id e = i then e\<lparr>ir_valid := v\<rparr> else e) (rt_routes rt)\<rparr>"

inductive rt_step :: "(string \<Rightarrow> bool) \<Rightarrow> routing_table \<Rightarrow> rt_call \<Rightarrow> routing_table \<Rightarrow> bool" for nm where
  add: "rt_newRoute e rt = (e', rt1) \<Longrightarrow> rt_addRoute e' rt1 = Inr (rt2, evs) \<Longrightarrow> rt_step nm rt (Add_Route e) rt2"
| remove: "rt_step nm rt (Remove_Route i) (fst (rt_removeRoute i rt))"
| delete: "rt_step nm rt (Delete_Route i) (fst (rt_deleteRoute i rt))"
| metric: "rt_setMetric i m rt = Inr (rt', evs) \<Longrightarrow> rt_step nm rt (Set_Metric i m) rt'"
| destination: "rt_setDestination i d rt = Inr (rt', evs) \<Longrightarrow> rt_step nm rt (Set_Destination i d) rt'"
| netmask: "rt_setNetmask i n rt = Inr (rt', evs) \<Longrightarrow> rt_step nm rt (Set_Netmask i n) rt'"
| gateway: "rt_setGateway i g rt = Inr (rt', evs) \<Longrightarrow> rt_step nm rt (Set_Gateway i g) rt'"
| iface: "rt_setInterface i f rt = Inr (rt', evs) \<Longrightarrow> rt_step nm rt (Set_Interface i f) rt'"
| adminDist: "rt_setAdminDist i d rt = Inr (rt', evs) \<Longrightarrow> rt_step nm rt (Set_Admin_Dist i d) rt'"
| validity: "rt_step nm rt (Set_Valid i v) (rt_setValid i v rt)"
| sourceType: "rt_setSourceType i s rt = Inr (rt', evs) \<Longrightarrow> rt_step nm rt (Set_Source_Type i s) rt'"
| source: "rt_setSource i src rt = Inr (rt', evs) \<Longrightarrow> rt_step nm rt (Set_Source i src) rt'"
| lookup: "rt_findBestMatchingRoute d rt = Inr (rt', r) \<Longrightarrow> rt_step nm rt (Lookup d) rt'"
| notify: "ift_ok ift \<Longrightarrow> rt_step nm rt (Notify ift n) (fst (rt_receiveSignal nm ift n rt))"
| purge: "rt_step nm rt Purge (fst (rt_purge rt))"
| stop: "rt_step nm rt Stop (fst (rt_handleStop rt))"

inductive_cases rt_addE: "rt_step nm rt (Add_Route e) rt'"
inductive_simps rt_step_simps: "rt_step nm rt (Remove_Route i) rt'" "rt_step nm rt (Lookup d) rt'"
  "rt_step nm rt (Notify ift n) rt'"

inductive rt_reachable :: "(string \<Rightarrow> bool) \<Rightarrow> routing_table \<Rightarrow> rt_call list \<Rightarrow> routing_table \<Rightarrow> bool" for nm rt0 where
  start: "rt_reachable nm rt0 [] rt0"
| step: "rt_reachable nm rt0 calls rt \<Longrightarrow> rt_step nm rt call rt' \<Longrightarrow> rt_reachable nm rt0 (calls @ [call]) rt'"

text \<open>
  The calls that keep a table in order. Three do not: an administrative distance changes in place although routes are ordered by it,
  a route loses its interface after it has been added, the validity of a route changes behind the cache.
\<close>

fun rt_orderly :: "bool \<Rightarrow> rt_call \<Rightarrow> bool" where
  "rt_orderly useAdminDist (Set_Admin_Dist i d) = (\<not> useAdminDist)"
| "rt_orderly useAdminDist (Set_Interface i f) = (f \<noteq> None)"
| "rt_orderly useAdminDist (Set_Valid i v) = False"
| "rt_orderly useAdminDist _ = True"

definition rt_new :: "bool \<Rightarrow> routing_table" where
  "rt_new useAdminDist = \<lparr>rt_routes = [], rt_routingCache = \<lambda>_. None, rt_localBroadcastAddresses = {},
     rt_useAdminDist = useAdminDist, rt_isNodeUp = True, rt_nextId = 0\<rparr>"

lemma rt_wf_new: "rt_wf (rt_new ad)"
  by (simp add: rt_new_def rt_wf_def rt_sorted_def rt_ids_ok_def rt_cache_ok_def)

lemma rt_newRoute_wf:
  "rt_wf rt \<Longrightarrow> rt_newRoute e rt = (e', rt1) \<Longrightarrow>
     rt_wf rt1 \<and> ir_id e' < rt_nextId rt1 \<and> ir_id e' \<notin> ir_id ` set (rt_routes rt1)"
  by (auto simp: rt_newRoute_def rt_wf_def rt_sorted_def rt_ids_ok_def rt_cache_ok_def rt_scan_def list_all_iff
      less_Suc_eq)

lemma rt_removeAll_wf: "rt_wf rt \<Longrightarrow> rt_wf (fst (rt_removeAll n rt))"
proof (induction n rt rule: rt_removeAll.induct)
  case (2 n rt)
  show ?case
  proof (cases "rt_routes rt")
    case (Cons e es)
    obtain rt1 r evs where r: "rt_removeRoute (ir_id e) rt = (rt1, r, evs)" using prod_cases3 by blast
    have "rt_wf rt1" using rt_removeRoute_wf[OF 2(2), of "ir_id e"] by (simp add: r)
    with 2(1)[OF Cons r[symmetric] refl refl] r Cons show ?thesis by (simp add: split_beta)
  qed (use 2(2) in simp)
qed simp

lemma rt_handleStop_wf: "rt_wf rt \<Longrightarrow> rt_wf (fst (rt_handleStop rt))"
  using rt_removeAll_wf[of rt "length (rt_routes rt)"]
  by (simp add: rt_handleStop_def split_beta Let_def rt_wf_def rt_sorted_def rt_ids_ok_def
      rt_cache_ok_def rt_scan_def)

lemmas rt_set_defs = rt_setMetric_def rt_setDestination_def rt_setNetmask_def rt_setGateway_def
  rt_setInterface_def rt_setAdminDist_def rt_setSourceType_def rt_setSource_def

lemma rt_step_wf:
  assumes "rt_step nm rt call rt'" "rt_wf rt" "rt_orderly (rt_useAdminDist rt) call"
  shows "rt_wf rt'"
  using assms
proof (induction rule: rt_step.induct)
  case (add e rt e' rt1 rt2 evs)
  with rt_newRoute_wf[of rt e e' rt1] show ?case by (blast intro: rt_addRoute_wf)
next
  case (remove rt i)
  from remove(1) show ?case by (rule rt_removeRoute_wf)
next
  case (delete rt i)
  from delete(1) show ?case by (rule rt_deleteRoute_wf)
next
  case (metric i m rt rt' evs)
  from metric(1,2) show ?case unfolding rt_set_defs by (rule rt_setField_resort_wf) simp_all
next
  case (destination i d rt rt' evs)
  from destination(1,2) show ?case unfolding rt_set_defs by (rule rt_setField_resort_wf) simp_all
next
  case (netmask i n rt rt' evs)
  from netmask(1,2) show ?case unfolding rt_set_defs by (rule rt_setField_resort_wf) simp_all
next
  case (gateway i g rt rt' evs)
  from gateway(1,2) show ?case unfolding rt_set_defs
    by (rule rt_setField_inplace_wf) (simp_all add: route_ok_def rt_matches_def rt_routeLessThan_def)
next
  case (iface i f rt rt' evs)
  from iface(1,2) show ?case unfolding rt_set_defs
    by (rule rt_setField_inplace_wf) (use iface(3) in \<open>simp_all add: route_ok_def rt_matches_def rt_routeLessThan_def\<close>)
next
  case (adminDist i d rt rt' evs)
  from adminDist(1,2) show ?case unfolding rt_set_defs
    by (rule rt_setField_inplace_wf)
      (use adminDist(3) in \<open>simp_all add: route_ok_def rt_matches_def rt_routeLessThan_def\<close>)
next
  case (sourceType i s rt rt' evs)
  from sourceType(1,2) show ?case unfolding rt_set_defs
    by (rule rt_setField_inplace_wf) (simp_all add: route_ok_def rt_matches_def rt_routeLessThan_def)
next
  case (source i src rt rt' evs)
  from source(1,2) show ?case unfolding rt_set_defs
    by (rule rt_setField_inplace_wf) (simp_all add: route_ok_def rt_matches_def rt_routeLessThan_def)
next
  case (validity rt i v)
  then show ?case by simp
next
  case (lookup d rt rt' r)
  with rt_findBestMatchingRoute_scan[of rt d] show ?case by auto
next
  case (notify ift rt n)
  from notify(1,2) show ?case by (intro rt_receiveSignal_wf)
next
  case (purge rt)
  from purge(1) show ?case unfolding rt_purge_def by (rule rt_eraseRoutes_wf)
next
  case (stop rt)
  from stop(1) show ?case by (rule rt_handleStop_wf)
qed

text \<open>Whether administrative distances count never changes.\<close>

lemma rt_internalRemoveRoute_mode: "rt_useAdminDist (fst (rt_internalRemoveRoute i rt)) = rt_useAdminDist rt"
  by (simp add: rt_internalRemoveRoute_def split: option.split)

lemma rt_removeRoute_mode: "rt_useAdminDist (fst (rt_removeRoute i rt)) = rt_useAdminDist rt"
  using rt_internalRemoveRoute_mode[of i rt] by (auto simp: rt_removeRoute_def split: prod.split option.split)

lemma rt_deleteRoute_mode: "rt_useAdminDist (fst (rt_deleteRoute i rt)) = rt_useAdminDist rt"
  using rt_internalRemoveRoute_mode[of i rt] by (auto simp: rt_deleteRoute_def split: prod.split option.split)

lemma rt_internalAddRoute_mode: "rt_internalAddRoute e rt = Inr (rt', evs) \<Longrightarrow> rt_useAdminDist rt' = rt_useAdminDist rt"
proof -
  have "rt_deleteRoute i rt = (rt1, b, es) \<Longrightarrow> rt_useAdminDist rt1 = rt_useAdminDist rt" for i rt1 b es
    using rt_deleteRoute_mode[of i rt] by simp
  then show "rt_internalAddRoute e rt = Inr (rt', evs) \<Longrightarrow> rt_useAdminDist rt' = rt_useAdminDist rt"
    by (auto simp: rt_internalAddRoute_def rt_insertRoute_def Let_def split: if_splits option.splits prod.splits)
qed

lemma rt_setField_mode:
  assumes "rt_setField i upd fld rt = Inr (rt', evs)"
  shows "rt_useAdminDist rt' = rt_useAdminDist rt"
proof -
  have "rt_internalRemoveRoute i rt0 = (rt1, x) \<Longrightarrow> rt_useAdminDist rt1 = rt_useAdminDist rt0" for rt0 rt1 x
    using rt_internalRemoveRoute_mode[of i rt0] by simp
  with assms rt_internalAddRoute_mode show ?thesis
    by (fastforce simp: rt_setField_def rt_routeChanged_def cpp_bind_Inr_iff split: option.splits if_splits prod.splits)
qed

lemma rt_updateNetmaskRoutes_mode: "rt_useAdminDist (fst (rt_updateNetmaskRoutes nm ift rt)) = rt_useAdminDist rt"
proof -
  have "rt_useAdminDist (fst (rt_addNetmaskRoutes nm ift rt)) = rt_useAdminDist rt" for rt
    by (induction ift arbitrary: rt) (simp_all add: rt_insertRoute_def Let_def split_beta)
  then show ?thesis by (simp add: rt_updateNetmaskRoutes_def Let_def split_beta)
qed

lemma rt_receiveSignal_mode: "rt_useAdminDist (fst (rt_receiveSignal nm ift n rt)) = rt_useAdminDist rt"
  by (cases n) (simp_all add: rt_receiveSignal_def Let_def split_beta rt_updateNetmaskRoutes_mode rt_deleteInterfaceRoutes_def)

lemma rt_removeAll_mode: "rt_useAdminDist (fst (rt_removeAll n rt)) = rt_useAdminDist rt"
proof (induction n arbitrary: rt)
  case (Suc n)
  show ?case
  proof (cases "rt_routes rt")
    case (Cons e es)
    then show ?thesis using Suc[of "fst (rt_removeRoute (ir_id e) rt)"] rt_removeRoute_mode[of "ir_id e" rt] by (simp add: split_beta Let_def)
  qed simp
qed simp

lemma rt_findBestMatchingRoute_mode: "rt_findBestMatchingRoute d rt = Inr (rt', r) \<Longrightarrow> rt_useAdminDist rt' = rt_useAdminDist rt"
  by (auto simp: rt_findBestMatchingRoute_def Let_def split: option.splits if_splits)

lemma rt_step_mode: "rt_step nm rt call rt' \<Longrightarrow> rt_useAdminDist rt' = rt_useAdminDist rt"
proof (induction rule: rt_step.induct)
  case (add e rt e' rt1 rt2 evs)
  then show ?case using rt_internalAddRoute_mode by (auto simp: rt_newRoute_def rt_addRoute_def cpp_bind_Inr_iff)
qed (auto simp: rt_set_defs rt_setField_mode rt_removeRoute_mode rt_deleteRoute_mode rt_setValid_def rt_findBestMatchingRoute_mode
    rt_receiveSignal_mode rt_purge_def rt_handleStop_def rt_removeAll_mode split_beta Let_def)

lemma rt_reachable_mode: "rt_reachable nm rt0 calls rt \<Longrightarrow> rt_useAdminDist rt = rt_useAdminDist rt0"
  by (induction rule: rt_reachable.induct) (auto dest: rt_step_mode)

lemma rt_reachable_wf:
  assumes "rt_reachable nm rt0 calls rt" "rt_wf rt0" "list_all (rt_orderly (rt_useAdminDist rt0)) calls"
  shows "rt_wf rt"
  using assms
proof (induction rule: rt_reachable.induct)
  case (step calls rt call rt')
  then show ?case using rt_step_wf[OF step.hyps(2)] rt_reachable_mode[OF step.hyps(1)] by simp
qed

end
