(* ===== verification/Routing_Properties.thy ===== *)
theory Routing_Properties
  imports Ipv4_Routing
begin

text \<open>
  What the routing table promises: longest-prefix lookup in every reachable state, whatever the
  cache holds; routes that follow their interfaces; one default route. The last property is a
  case in which the promise fails: administrative distances changed in place.
\<close>

section \<open>A table for the instances\<close>

definition ex_route :: "nat \<Rightarrow> ipv4_address \<Rightarrow> ipv4_address \<Rightarrow> int \<Rightarrow> ipv4_route" where
  "ex_route i d m ifc = \<lparr>ir_id = i, ir_dest = d, ir_netmask = m, ir_gateway = 0, ir_interface = Some ifc,
     ir_sourceType = MANUAL, ir_source = None, ir_adminDist = dUnknown, ir_metric = 1, ir_valid = True\<rparr>"

definition ex_interface :: "int \<Rightarrow> if_state \<Rightarrow> ipv4_address \<Rightarrow> network_interface" where
  "ex_interface i st a = \<lparr>ni_interfaceId = i, ni_interfaceName = ''wlan0'', ni_fullName = ''wlan[0]'', ni_state = st, ni_carrier = True,
     ni_broadcast = True, ni_multicast = True, ni_pointToPoint = False, ni_loopback = False,
     ni_wireless = True, ni_rxTransmissionChannel = None, ni_txTransmissionChannel = None,
     ni_macAddr = 0, ni_multicastAddresses = [],
     ni_ipv4Data = Some \<lparr>id_ipAddress = a, id_netmask = 0xffffff00, id_metric = 1\<rparr>\<rparr>"

text \<open>10.0.0.0/8 through interface 1 and 10.1.0.0/16 through interface 2.\<close>

definition ex_table :: routing_table where
  "ex_table = (rt_new False)\<lparr>rt_routes := [ex_route 1 0x0a010000 0xffff0000 2, ex_route 0 0x0a000000 0xff000000 1],
     rt_nextId := 2\<rparr>"

lemma ex_netmasks: "ip_isValidNetmask 0xffff0000" "ip_isValidNetmask 0xff000000" "ip_isValidNetmask 0xffffff00" "ip_isValidNetmask 0"
  by (simp_all add: ip_isValidNetmask_def ip_getNetmaskLength_def ip_makeNetmask_raw_def upt_rec)

lemma ex_table_wf: "rt_wf ex_table"
  by (simp add: ex_table_def rt_new_def rt_wf_def rt_sorted_def rt_ids_ok_def rt_cache_ok_def
      rt_routeLessThan_def ex_route_def route_ok_def ex_netmasks)

section \<open>Lookup\<close>

text \<open>
  What a lookup promises: the answer is a valid route that matches, no valid matching route has a
  longer netmask, and among those with the same netmask none has a smaller administrative
  distance (where that counts) or metric; no answer only when no valid route matches.
\<close>

definition route_at_least :: "bool \<Rightarrow> ipv4_route \<Rightarrow> ipv4_route \<Rightarrow> bool" where
  "route_at_least useAdminDist e e' =
     (ip_getNetmaskLength (ir_netmask e') \<le> ip_getNetmaskLength (ir_netmask e) \<and>
      (ir_netmask e' = ir_netmask e \<longrightarrow> ir_dest e' = ir_dest e \<and>
         (if useAdminDist \<and> ir_adminDist e \<noteq> ir_adminDist e' then ir_adminDist e < ir_adminDist e'
          else ir_metric e \<le> ir_metric e')))"

definition best_match :: "ipv4_address \<Rightarrow> routing_table \<Rightarrow> ipv4_route option \<Rightarrow> bool" where
  "best_match dest rt r = (case r of
      None \<Rightarrow> \<forall>e \<in> set (rt_routes rt). \<not> rt_matches dest e
    | Some e \<Rightarrow> e \<in> set (rt_routes rt) \<and> rt_matches dest e \<and>
        (\<forall>e' \<in> set (rt_routes rt). rt_matches dest e' \<longrightarrow> route_at_least (rt_useAdminDist rt) e e'))"

lemma rt_scan_best_match:
  assumes "rt_wf rt"
  shows "best_match dest rt (rt_scan dest rt)"
proof (cases "rt_scan dest rt")
  case None
  from rt_scan_NoneD[OF this] None show ?thesis by (simp add: best_match_def)
next
  case (Some e)
  have "route_at_least (rt_useAdminDist rt) e e'" if "e' \<in> set (rt_routes rt)" "rt_matches dest e'" for e'
    unfolding route_at_least_def using rt_scan_best[OF assms Some that] by (intro conjI impI) simp_all
  with rt_scan_SomeD[OF Some] Some show ?thesis by (simp add: best_match_def)
qed

text \<open>
  C11. Lookup is longest-prefix match: on a well-formed table it returns, its answer is the best match in the
  sense above, whatever the cache holds, and the table stays well formed with the same routes.
\<close>

theorem routing_longest_prefix:
  assumes "rt_wf rt"
  shows "\<exists>rt' r. rt_findBestMatchingRoute dest rt = Inr (rt', r) \<and> rt_wf rt' \<and> rt_routes rt' = rt_routes rt
    \<and> best_match dest rt r"
  using rt_findBestMatchingRoute_scan[OF assms, of dest] rt_scan_best_match[OF assms, of dest] by blast

lemma ex_table_lookup:
  "\<exists>rt'. rt_findBestMatchingRoute 0x0a010203 ex_table = Inr (rt', Some (ex_route 1 0x0a010000 0xffff0000 2))"
  by (simp add: rt_findBestMatchingRoute_def ex_table_def rt_new_def rt_matches_def ex_route_def
      ip_maskedAddrAreEqual_def)

lemma routing_longest_prefix_witness:
  "\<exists>rt' r. rt_findBestMatchingRoute 0x0a010203 ex_table = Inr (rt', r) \<and> rt_wf rt'
     \<and> map_option ir_interface r = Some (Some 2)"
  using routing_longest_prefix[OF ex_table_wf, of "0x0a010203"] ex_table_lookup by (auto simp: ex_route_def)



lemma routing_disorderly:
  "rt_wf (rt_new False) \<and> (\<exists>rt1 es1 rt2 r. rt_addRoute (ex_route 0 0x0a000000 0xff000000 1) ((rt_new False)\<lparr>rt_nextId := 1\<rparr>) = Inr (rt1, es1)
     \<and> rt_wf rt1 \<and> rt_findBestMatchingRoute 0x0a010203 rt1 = Inr (rt2, r) \<and> rt_wf rt2
     \<and> (\<exists>rt3 es3. rt_setInterface 0 None rt1 = Inr (rt3, es3) \<and> \<not> rt_wf rt3) \<and> \<not> rt_wf (rt_setValid 0 False rt2))"
proof -
  let ?e = "ex_route 0 0x0a000000 0xff000000 1" and ?rt = "(rt_new False)\<lparr>rt_nextId := 1\<rparr>"
  have u: "\<not> ip_isUnspecified 0xff000000" by (simp add: ip_isUnspecified_def)
  have wf: "rt_wf ?rt" by (simp add: rt_new_def rt_wf_def rt_sorted_def rt_ids_ok_def rt_cache_ok_def)
  define rt1 where "rt1 = rt_insertRoute ?e ?rt"
  have a: "rt_addRoute ?e ?rt = Inr (rt1, [Route_Added ?e])"
    by (simp add: rt_addRoute_def rt_internalAddRoute_def ex_route_def ex_netmasks u rt1_def)
  have r: "rt_routes rt1 = [?e]" by (simp add: rt1_def rt_insertRoute_def rt_new_def insert_upper_bound_def)
  have wf1: "rt_wf rt1" by (rule rt_addRoute_wf[OF a wf]) (simp_all add: ex_route_def rt_new_def)
  obtain rt2 where l: "rt_findBestMatchingRoute 0x0a010203 rt1 = Inr (rt2, Some ?e)" "rt_wf rt2"
    "rt_routes rt2 = [?e]" "rt_routingCache rt2 0x0a010203 = Some (Some 0)"
    using rt_findBestMatchingRoute_scan[where dest = "0x0a010203", OF wf1] r
    by (auto simp: rt_findBestMatchingRoute_def rt1_def rt_insertRoute_def rt_invalidateCache_def rt_scan_def rt_matches_def ip_maskedAddrAreEqual_def ex_route_def Let_def)
  have "\<exists>rt3 es3. rt_setInterface 0 None rt1 = Inr (rt3, es3) \<and> \<not> rt_wf rt3"
    by (simp add: rt_setInterface_def rt_setField_def rt_routeChanged_def rt_route_def r ex_route_def rt_wf_def route_ok_def)
  moreover have "\<not> rt_wf (rt_setValid 0 False rt2)"
    using l(3,4) by (auto simp: rt_setValid_def rt_wf_def rt_cache_ok_def rt_scan_def rt_matches_def ex_route_def split: option.splits)
  ultimately show ?thesis using rt_wf_new a wf1 l(1,2) by blast
qed

section \<open>Routes and interfaces\<close>

text \<open>
  C13. When an interface reports that it is no longer up, the table drops every route through
  it, whatever its source, and the other routes of the table that are not netmask
  routes stay, in their order.
\<close>

theorem routing_interface_down:
  assumes "\<not> ni_isUp ie"
    and "rt' = fst (rt_receiveSignal nm ift (Interface_State_Change fld ie) rt)"
  shows "(\<forall>e \<in> set (rt_routes rt'). ir_interface e \<noteq> Some (ni_interfaceId ie)) \<and>
    filter (\<lambda>e. ir_sourceType e \<noteq> IFACENETMASK) (rt_routes rt') =
      filter (\<lambda>e. ir_sourceType e \<noteq> IFACENETMASK \<and> ir_interface e \<noteq> Some (ni_interfaceId ie)) (rt_routes rt)"
proof -
  have r: "rt_routes rt' = filter (\<lambda>e. ir_interface e \<noteq> Some (ni_interfaceId ie))
      (rt_routes (fst (rt_updateNetmaskRoutes nm ift (rt_invalidateCache rt))))"
    using assms by (simp add: rt_receiveSignal_def Let_def split_beta rt_deleteInterfaceRoutes_def)
  have "filter (\<lambda>e. ir_sourceType e \<noteq> IFACENETMASK) (rt_routes rt') =
      filter (\<lambda>e. ir_interface e \<noteq> Some (ni_interfaceId ie)) (filter (\<lambda>e. ir_sourceType e \<noteq> IFACENETMASK)
        (rt_routes (fst (rt_updateNetmaskRoutes nm ift (rt_invalidateCache rt)))))"
    unfolding r filter_filter by (rule filter_cong) auto
  then show ?thesis unfolding rt_updateNetmaskRoutes_others using r by (simp add: conj_commute)
qed

lemma routing_interface_down_witness:
  "filter (\<lambda>e. ir_interface e = Some 2) (rt_routes (fst (rt_receiveSignal (\<lambda>_. True) [ex_interface 2 DOWN 0x0a010001]
       (Interface_State_Change F_STATE (ex_interface 2 DOWN 0x0a010001)) ex_table))) = []"
  using routing_interface_down[OF _ refl, of "ex_interface 2 DOWN 0x0a010001"]
  by (simp add: ex_interface_def ni_isUp_def filter_empty_conv)

text \<open>
  \<open>updateNetmaskRoutes\<close> leaves the other routes alone and makes the netmask routes exactly one
  directly connected route per interface that is up, selected by name, has IPv4 data and a
  netmask that is not all ones (compared without the names of the route objects).
\<close>

definition anonymous :: "ipv4_route \<Rightarrow> ipv4_route" where
  "anonymous e = e\<lparr>ir_id := 0\<rparr>"

lemma rt_addNetmaskRoutes_netmask:
  "image_mset anonymous (mset (filter (\<lambda>e. ir_sourceType e = IFACENETMASK)
       (rt_routes (fst (rt_addNetmaskRoutes nm ift rt)))))
   = image_mset anonymous (mset (filter (\<lambda>e. ir_sourceType e = IFACENETMASK) (rt_routes rt)))
     + mset (map (\<lambda>ie. rt_netmaskRoute 0 ie (the (ni_ipv4Data ie))) (filter (rt_hasNetmaskRoute nm) ift))"
proof (induction ift arbitrary: rt)
  case Nil
  then show ?case by simp
next
  case (Cons ie ies)
  have a: "anonymous (rt_netmaskRoute n ie d) = rt_netmaskRoute 0 ie d" "ir_sourceType (rt_netmaskRoute n ie d) = IFACENETMASK" for n d
    by (simp_all add: anonymous_def rt_netmaskRoute_def)
  show ?case
    by (simp add: Cons.IH Let_def split_beta rt_insertRoute_routes mset_filter_insert_upper_bound a del: mset_filter)
qed

theorem routing_netmask_routes:
  "let rt' = fst (rt_updateNetmaskRoutes nm ift rt) in
     filter (\<lambda>e. ir_sourceType e \<noteq> IFACENETMASK) (rt_routes rt') = filter (\<lambda>e. ir_sourceType e \<noteq> IFACENETMASK) (rt_routes rt)
     \<and> image_mset anonymous (mset (filter (\<lambda>e. ir_sourceType e = IFACENETMASK) (rt_routes rt')))
       = mset (map (\<lambda>ie. rt_netmaskRoute 0 ie (the (ni_ipv4Data ie))) (filter (rt_hasNetmaskRoute nm) ift))"
  unfolding Let_def
proof (rule conjI, rule rt_updateNetmaskRoutes_others)
  have "image_mset anonymous (mset (filter (\<lambda>e. ir_sourceType e = IFACENETMASK)
      (rt_routes (fst (rt_eraseRoutes (\<lambda>e. ir_sourceType e = IFACENETMASK) rt))))) = {#}"
    by (simp add: filter_empty_conv del: mset_filter)
  then show "image_mset anonymous (mset (filter (\<lambda>e. ir_sourceType e = IFACENETMASK)
      (rt_routes (fst (rt_updateNetmaskRoutes nm ift rt)))))
     = mset (map (\<lambda>ie. rt_netmaskRoute 0 ie (the (ni_ipv4Data ie))) (filter (rt_hasNetmaskRoute nm) ift))"
    by (simp add: rt_updateNetmaskRoutes_def split_beta Let_def rt_addNetmaskRoutes_netmask del: mset_filter)
qed

section \<open>The default route\<close>

abbreviation is_default :: "ipv4_route \<Rightarrow> bool" where
  "is_default e \<equiv> ip_isUnspecified (ir_netmask e)"

lemma rt_less_default: "is_default a \<Longrightarrow> \<not> rt_routeLessThan ad b a \<Longrightarrow> is_default b"
  by (auto simp: rt_routeLessThan_def ip_isUnspecified_def split: if_splits) (simp add: word_gt_0)

text \<open>In a sorted vector the default routes are the last ones.\<close>

lemma takeWhile_rev_defaults:
  assumes "sorted_wrt (\<lambda>a b. \<not> rt_routeLessThan ad b a) xs"
  shows "takeWhile is_default (rev xs) = rev (filter is_default xs)"
  using assms
proof (induction xs)
  case Nil
  then show ?case by simp
next
  case (Cons x xs)
  show ?case
  proof (cases "is_default x")
    case True
    then have all: "filter is_default xs = xs"
      using Cons.prems rt_less_default[OF True] by (auto simp: filter_id_conv)
    with True have "\<forall>y \<in> set (rev (x # xs)). is_default y" by (auto simp: filter_id_conv)
    then have "takeWhile is_default (rev (x # xs)) = rev (x # xs)" by (simp only: takeWhile_eq_all_conv)
    with True all show ?thesis by simp
  next
    case False
    then have "takeWhile is_default (rev (x # xs)) = takeWhile is_default (rev xs)"
      by (auto simp: takeWhile_tail intro!: takeWhile_append)
    with False Cons show ?thesis by simp
  qed
qed

lemma rt_getDefaultRoute_filter:
  "rt_wf rt \<Longrightarrow> rt_getDefaultRoute rt = find ir_valid (rev (filter is_default (rt_routes rt)))"
  unfolding rt_getDefaultRoute_def rt_wf_def rt_sorted_def
  by (simp add: takeWhile_rev_defaults[of "rt_useAdminDist rt"])

lemma rt_deleteRoute_own:
  assumes "rt_wf rt" "old \<in> set (rt_routes rt)"
  shows "snd (snd (rt_deleteRoute (ir_id old) rt)) = [Route_Deleted old]"
    and "set (rt_routes (fst (rt_deleteRoute (ir_id old) rt))) = set (rt_routes rt) - {old}"
proof -
  have r: "rt_route (ir_id old) rt = Some old" using assms by (intro rt_route_unique rt_wf_ids)
  then show "snd (snd (rt_deleteRoute (ir_id old) rt)) = [Route_Deleted old]"
    by (simp add: rt_deleteRoute_def rt_internalRemoveRoute_def)
  have "distinct (map ir_id (rt_routes rt))" using assms(1) by (simp add: rt_wf_def rt_ids_ok_def)
  then show "set (rt_routes (fst (rt_deleteRoute (ir_id old) rt))) = set (rt_routes rt) - {old}"
    using assms rt_deleteRoute_routes[OF assms(1)] by (auto simp: distinct_map inj_on_def)
qed

text \<open>
  Adding a default route (netmask 0.0.0.0) to a table with at most one, valid, default route
  replaces it: afterwards the new route is the only one, the other routes are the same in the
  same order, and the deletion of the old one is signalled before the addition.
\<close>

theorem routing_default_replaced:
  assumes "rt_wf rt" and "filter is_default (rt_routes rt) = old" and "length old \<le> 1" and "list_all ir_valid old"
    and "is_default e" and "rt_addRoute e rt = Inr (rt', evs)"
  shows "filter is_default (rt_routes rt') = [e]
    \<and> filter (\<lambda>x. \<not> is_default x) (rt_routes rt') = filter (\<lambda>x. \<not> is_default x) (rt_routes rt)
    \<and> evs = map Route_Deleted old @ [Route_Added e]"
proof -
  from assms(6) obtain evs1 where add: "rt_internalAddRoute e rt = Inr (rt', evs1)" "evs = evs1 @ [Route_Added e]"
    by (auto simp: rt_addRoute_def cpp_bind_Inr_iff)
  from assms(5) have z: "ir_netmask e = 0" by (simp add: ip_isUnspecified_def)
  from add(1) obtain rt1 where r: "rt' = rt_insertRoute e rt1"
    "rt1 = (case rt_getDefaultRoute rt of None \<Rightarrow> rt | Some d \<Rightarrow> fst (rt_deleteRoute (ir_id d) rt))"
    "evs1 = (case rt_getDefaultRoute rt of None \<Rightarrow> [] | Some d \<Rightarrow> snd (snd (rt_deleteRoute (ir_id d) rt)))"
    using z by (auto elim: rt_internalAddRoute_Inr)
  have "filter is_default (rt_routes rt1) = [] \<and> evs1 = map Route_Deleted old
      \<and> filter (\<lambda>x. \<not> is_default x) (rt_routes rt1) = filter (\<lambda>x. \<not> is_default x) (rt_routes rt)"
  proof (cases old)
    case Nil
    then show ?thesis using r(2,3) assms(2) by (simp add: rt_getDefaultRoute_filter[OF assms(1)])
  next
    case (Cons d ds)
    then have old: "old = [d]" using assms(3) by simp
    have d: "d \<in> set (rt_routes rt)" "is_default d" using assms(2) unfolding old by (auto simp: filter_eq_Cons_iff)
    have g: "rt_getDefaultRoute rt = Some d"
      using rt_getDefaultRoute_filter[OF assms(1)] assms(2,4) old by simp
    have rt1: "rt_routes rt1 = filter (\<lambda>x. ir_id x \<noteq> ir_id d) (rt_routes rt)"
      using r(2) g rt_deleteRoute_routes[OF assms(1)] by simp
    have "filter is_default (rt_routes rt1) = filter (\<lambda>x. ir_id x \<noteq> ir_id d) (filter is_default (rt_routes rt))"
      unfolding rt1 filter_filter by (simp add: conj_commute)
    moreover have "x = d" if "x \<in> set (rt_routes rt)" "ir_id x = ir_id d" for x
      using rt_route_unique[OF rt_wf_ids[OF assms(1)]] that d(1) by (metis option.inject)
    then have "filter (\<lambda>x. \<not> is_default x) (rt_routes rt1) = filter (\<lambda>x. \<not> is_default x) (rt_routes rt)"
      unfolding rt1 filter_filter using d(2) by (intro filter_cong) auto
    ultimately show ?thesis using r(3) g rt_deleteRoute_own(1)[OF assms(1) d(1)] old assms(2) by simp
  qed
  then show ?thesis using assms(5) add(2) r(1)
    by (simp add: rt_insertRoute_routes filter_insert_upper_bound filter_insert_only)
qed

definition ex_default :: "nat \<Rightarrow> int \<Rightarrow> ipv4_route" where
  "ex_default i ifc = ex_route i 0 0 ifc"

definition ex_table_default :: routing_table where
  "ex_table_default = ex_table\<lparr>rt_routes := rt_routes ex_table @ [ex_default 2 1], rt_nextId := 3\<rparr>"

lemma ex_table_default_wf: "rt_wf ex_table_default"
  by (simp add: ex_table_default_def ex_default_def ex_table_def rt_new_def rt_wf_def rt_sorted_def rt_ids_ok_def
      rt_cache_ok_def rt_routeLessThan_def ex_route_def route_ok_def ex_netmasks)

lemma routing_default_replaced_witness:
  "\<exists>rt'. rt_addRoute (ex_default 3 2) ex_table_default
     = Inr (rt', [Route_Deleted (ex_default 2 1), Route_Added (ex_default 3 2)])
   \<and> filter is_default (rt_routes rt') = [ex_default 3 2]"
proof -
  have d: "filter is_default (rt_routes ex_table_default) = [ex_default 2 1]" "is_default (ex_default 3 2)"
    by (simp_all add: ex_table_default_def ex_table_def ex_default_def ex_route_def ip_isUnspecified_def)
  obtain rt' evs where a: "rt_addRoute (ex_default 3 2) ex_table_default = Inr (rt', evs)"
    by (simp add: rt_addRoute_def rt_internalAddRoute_def ex_default_def ex_route_def ip_isUnspecified_def
      ip_isValidNetmask_def ip_getNetmaskLength_def ip_makeNetmask_0 split_beta Let_def upt_rec)
  from routing_default_replaced[OF ex_table_default_wf d(1) _ _ d(2) a] a show ?thesis
    by (simp add: ex_default_def ex_route_def)
qed

section \<open>Administrative distances changed in place\<close>

text \<open>
  With \<open>useAdminDist\<close>, changing an administrative distance in place leaves the vector where it was: there is a
  well-formed table whose lookup answers, after \<open>setAdminDist\<close> has succeeded, a route that is not the best match.
\<close>

definition ex_table_admin :: routing_table where
  "ex_table_admin = (rt_new True)\<lparr>rt_routes := [(ex_route 0 0x0a000000 0xff000000 1)\<lparr>ir_adminDist := 1\<rparr>,
     (ex_route 1 0x0a000000 0xff000000 2)\<lparr>ir_adminDist := 20\<rparr>], rt_nextId := 2\<rparr>"

theorem routing_admin_dist_in_place:
  "rt_wf ex_table_admin \<and>
   (\<exists>rt' evs rt'' r. rt_setAdminDist 0 110 ex_table_admin = Inr (rt', evs)
      \<and> rt_findBestMatchingRoute 0x0a010203 rt' = Inr (rt'', r) \<and> \<not> best_match 0x0a010203 rt' r)"
  by (simp add: ex_table_admin_def rt_new_def rt_wf_def rt_sorted_def rt_ids_ok_def rt_cache_ok_def
      rt_routeLessThan_def ex_route_def route_ok_def ex_netmasks rt_setAdminDist_def rt_setField_def rt_routeChanged_def
      rt_route_def rt_findBestMatchingRoute_def rt_matches_def ip_maskedAddrAreEqual_def best_match_def
      route_at_least_def)

end
