(* ===== verification/Interface_Table.thy ===== *)
theory Interface_Table
  imports Network_Interface
begin

text \<open>
  The interface table of a node (\<open>InterfaceTable.cc\<close>): a vector indexed by interface id in which
  deleted interfaces leave a hole, with a lazily built list of the interfaces that are left. An
  interface is named by its id, which is its place in the vector; the code's pointers are these
  names. IPv4 data and MAC addresses are modelled; IPv6 and next-hop data are not.
\<close>

section \<open>State\<close>

definition INTERFACEIDS_START :: int where "INTERFACEIDS_START = 100"

record interface_table =
  it_idToInterface :: "network_interface option list"
  it_tmpNumInterfaces :: int
  it_tmpInterfaceList :: "int list option"

datatype it_signal = Sig_Interface_Created network_interface | Sig_Interface_Deleted network_interface

definition it_new :: interface_table where
  "it_new = \<lparr>it_idToInterface = [], it_tmpNumInterfaces = -1, it_tmpInterfaceList = None\<rparr>"

definition it_invalidateTmpInterfaceList :: "interface_table \<Rightarrow> interface_table" where
  "it_invalidateTmpInterfaceList it = it\<lparr>it_tmpNumInterfaces := -1, it_tmpInterfaceList := None\<rparr>"

text \<open>The interfaces in the order of their ids.\<close>

definition it_interfaces :: "interface_table \<Rightarrow> network_interface list" where
  "it_interfaces it = map the (filter (\<lambda>x. x \<noteq> None) (it_idToInterface it))"

section \<open>Enumeration\<close>

definition it_getNumInterfaces :: "interface_table \<Rightarrow> interface_table \<times> int" where
  "it_getNumInterfaces it =
     (if it_tmpNumInterfaces it = -1 then
        let n = int (length (it_interfaces it)) in (it\<lparr>it_tmpNumInterfaces := n\<rparr>, n)
      else (it, it_tmpNumInterfaces it))"

text \<open>The answer is the id of the interface at a position.\<close>

definition it_getInterface :: "int \<Rightarrow> interface_table \<Rightarrow> (interface_table \<times> int) cpp" where
  "it_getInterface pos it =
     (let (it1, n) = it_getNumInterfaces it
      in if pos < 0 \<or> pos \<ge> n then Inl (Runtime_Error ''getInterface(): interface index out of range'')
         else let ids = (case it_tmpInterfaceList it1 of
                           Some l \<Rightarrow> l
                         | None \<Rightarrow> map ni_interfaceId (it_interfaces it1))
              in cpp_bind (vec_idx ids (nat pos)) (\<lambda>i. Inr (it1\<lparr>it_tmpInterfaceList := Some ids\<rparr>, i)))"

section \<open>Access by id\<close>

definition it_findInterfaceById :: "int \<Rightarrow> interface_table \<Rightarrow> network_interface option" where
  "it_findInterfaceById i it =
     (let k = i - INTERFACEIDS_START
      in if k < 0 \<or> k \<ge> int (length (it_idToInterface it)) then None else it_idToInterface it ! nat k)"

definition it_getInterfaceById :: "int \<Rightarrow> interface_table \<Rightarrow> network_interface cpp" where
  "it_getInterfaceById i it = (case it_findInterfaceById i it of
      None \<Rightarrow> Inl (Runtime_Error ''getInterfaceById(): no interface with ID'')
    | Some ie \<Rightarrow> Inr ie)"

definition it_getBiggestInterfaceId :: "interface_table \<Rightarrow> int" where
  "it_getBiggestInterfaceId it = INTERFACEIDS_START + int (length (it_idToInterface it)) - 1"

text \<open>A write through the pointer of an interface.\<close>

definition it_update :: "network_interface \<Rightarrow> interface_table \<Rightarrow> interface_table" where
  "it_update ie it = it\<lparr>it_idToInterface :=
     (it_idToInterface it)[nat (ni_interfaceId ie - INTERFACEIDS_START) := Some ie]\<rparr>"

section \<open>Search\<close>

definition it_find :: "(network_interface \<Rightarrow> bool) \<Rightarrow> interface_table \<Rightarrow> network_interface option" where
  "it_find P it = find P (it_interfaces it)"

definition it_findInterfaceByName :: "string \<Rightarrow> interface_table \<Rightarrow> network_interface option" where
  "it_findInterfaceByName name = it_find (\<lambda>ie. ni_interfaceName ie = name)"

definition it_findFirstLoopbackInterface :: "interface_table \<Rightarrow> network_interface option" where
  "it_findFirstLoopbackInterface = it_find ni_loopback"

definition it_findFirstNonLoopbackInterface :: "interface_table \<Rightarrow> network_interface option" where
  "it_findFirstNonLoopbackInterface = it_find (\<lambda>ie. \<not> ni_loopback ie)"

definition it_findFirstMulticastInterface :: "interface_table \<Rightarrow> network_interface option" where
  "it_findFirstMulticastInterface = it_find (\<lambda>ie. ni_multicast ie \<and> \<not> ni_loopback ie)"

datatype l3_address = L3_Unspecified | L3_Ipv4 ipv4_address | L3_Mac mac_address

definition l3_isUnspecified :: "l3_address \<Rightarrow> bool" where
  "l3_isUnspecified a = (case a of L3_Unspecified \<Rightarrow> True | L3_Ipv4 x \<Rightarrow> ip_isUnspecified x
     | L3_Mac m \<Rightarrow> mac_isUnspecified m)"

definition it_findInterfaceByAddress :: "l3_address \<Rightarrow> interface_table \<Rightarrow> network_interface option" where
  "it_findInterfaceByAddress a it =
     (if l3_isUnspecified a then None
      else it_find (\<lambda>ie. case a of
               L3_Unspecified \<Rightarrow> False
             | L3_Ipv4 x \<Rightarrow> (case ni_ipv4Data ie of None \<Rightarrow> False | Some d \<Rightarrow> id_ipAddress d = x)
             | L3_Mac m \<Rightarrow> ni_macAddr ie = m) it)"

definition it_isLocalAddress :: "l3_address \<Rightarrow> interface_table \<Rightarrow> bool" where
  "it_isLocalAddress a it = (it_findInterfaceByAddress a it \<noteq> None)"

text \<open>The first interface whose network contains the address decides.\<close>

definition it_isNeighborAddress :: "l3_address \<Rightarrow> interface_table \<Rightarrow> bool" where
  "it_isNeighborAddress a it =
     (if l3_isUnspecified a then False
      else case a of
        L3_Ipv4 x \<Rightarrow>
          (case it_find (\<lambda>ie. case ni_ipv4Data ie of None \<Rightarrow> False
                    | Some d \<Rightarrow> ip_maskedAddrAreEqual x (id_ipAddress d) (id_netmask d)) it of
             None \<Rightarrow> False
           | Some ie \<Rightarrow> x \<noteq> ni_getIpv4Address ie)
      | _ \<Rightarrow> False)"

section \<open>Adding and deleting\<close>

text \<open>
  \<open>addInterface\<close>. \<open>discover\<close> is \<open>discoverConnectingGates\<close>, which reads the gate connections of
  the surrounding modules and may refuse the interface.
\<close>

definition it_addInterface ::
  "(network_interface \<Rightarrow> network_interface cpp) \<Rightarrow> network_interface \<Rightarrow> interface_table \<Rightarrow>
   (interface_table \<times> it_signal list) cpp" where
  "it_addInterface discover entry it =
     (if it_findInterfaceByName (ni_interfaceName entry) it \<noteq> None then
        Inl (Runtime_Error ''addInterface(): interface already registered'')
      else
        let e1 = entry\<lparr>ni_interfaceId := INTERFACEIDS_START + int (length (it_idToInterface it))\<rparr>;
            it1 = it_invalidateTmpInterfaceList (it\<lparr>it_idToInterface := it_idToInterface it @ [Some e1]\<rparr>)
        in cpp_bind (discover e1) (\<lambda>e2. Inr (it_update e2 it1, [Sig_Interface_Created e2])))"

definition it_deleteInterface ::
  "network_interface \<Rightarrow> interface_table \<Rightarrow> (interface_table \<times> it_signal list) cpp" where
  "it_deleteInterface entry it =
     cpp_bind (it_getInterfaceById (ni_interfaceId entry) it) (\<lambda>ie.
       if entry \<noteq> ie then Inl (Runtime_Error ''deleteInterface(): interface not found in interface table'')
       else Inr (it_invalidateTmpInterfaceList (it\<lparr>it_idToInterface :=
                   (it_idToInterface it)[nat (ni_interfaceId entry - INTERFACEIDS_START) := None]\<rparr>),
                 [Sig_Interface_Deleted entry]))"

text \<open>\<open>resetInterfaces\<close>, for stop and crash: every interface loses its protocol data.\<close>

definition it_resetInterfaces :: "interface_table \<Rightarrow> interface_table" where
  "it_resetInterfaces it = it\<lparr>it_idToInterface :=
     map (map_option (\<lambda>ie. ie\<lparr>ni_ipv4Data := None\<rparr>)) (it_idToInterface it)\<rparr>"

section \<open>Well-formed tables\<close>

text \<open>Every interface sits at the place its id names, names are unique, and the list of the
  interfaces is current where it has been built.\<close>

definition it_ids_ok :: "interface_table \<Rightarrow> bool" where
  "it_ids_ok it = (\<forall>k < length (it_idToInterface it). case it_idToInterface it ! k of
      None \<Rightarrow> True | Some ie \<Rightarrow> ni_interfaceId ie = INTERFACEIDS_START + int k)"

definition it_cache_ok :: "interface_table \<Rightarrow> bool" where
  "it_cache_ok it = ((it_tmpNumInterfaces it = -1 \<or> it_tmpNumInterfaces it = int (length (it_interfaces it)))
     \<and> (case it_tmpInterfaceList it of None \<Rightarrow> True | Some l \<Rightarrow> l = map ni_interfaceId (it_interfaces it)))"

definition it_wf :: "interface_table \<Rightarrow> bool" where
  "it_wf it = (it_ids_ok it \<and> distinct (map ni_interfaceName (it_interfaces it)) \<and> it_cache_ok it)"

lemma it_wf_new: "it_wf it_new"
  by (simp add: it_wf_def it_ids_ok_def it_cache_ok_def it_new_def it_interfaces_def)

lemma it_invalidate_fields [simp]:
  "it_idToInterface (it_invalidateTmpInterfaceList it) = it_idToInterface it"
  "it_interfaces (it_invalidateTmpInterfaceList it) = it_interfaces it"
  by (simp_all add: it_invalidateTmpInterfaceList_def it_interfaces_def)

lemma it_cache_ok_invalidate [simp]: "it_cache_ok (it_invalidateTmpInterfaceList it)"
  by (simp add: it_cache_ok_def it_invalidateTmpInterfaceList_def)

lemma it_interfaces_conv: "ie \<in> set (it_interfaces it) \<longleftrightarrow> Some ie \<in> set (it_idToInterface it)"
  by (auto simp: it_interfaces_def image_iff)

lemma it_interfaces_fields [simp]:
  "it_interfaces (it\<lparr>it_tmpNumInterfaces := n\<rparr>) = it_interfaces it"
  "it_interfaces (it\<lparr>it_tmpInterfaceList := l\<rparr>) = it_interfaces it"
  by (simp_all add: it_interfaces_def)

lemma it_update_fields [simp]:
  "it_tmpNumInterfaces (it_update ie it) = it_tmpNumInterfaces it"
  "it_tmpInterfaceList (it_update ie it) = it_tmpInterfaceList it"
  "length (it_idToInterface (it_update ie it)) = length (it_idToInterface it)"
  by (simp_all add: it_update_def)

lemma it_interfaces_index:
  assumes "ie \<in> set (it_interfaces it)"
  obtains k where "k < length (it_idToInterface it)" "it_idToInterface it ! k = Some ie"
proof -
  from assms have "Some ie \<in> set (it_idToInterface it)" by (simp add: it_interfaces_conv)
  then obtain k where "k < length (it_idToInterface it)" "it_idToInterface it ! k = Some ie"
    unfolding in_set_conv_nth by blast
  then show thesis by (rule that)
qed

lemma it_ids_okD:
  "it_ids_ok it \<Longrightarrow> k < length (it_idToInterface it) \<Longrightarrow> it_idToInterface it ! k = Some ie \<Longrightarrow>
     ni_interfaceId ie = INTERFACEIDS_START + int k"
  by (simp add: it_ids_ok_def split: option.splits)

lemma it_findInterfaceById_iff:
  assumes "it_ids_ok it"
  shows "it_findInterfaceById i it = Some ie \<longleftrightarrow> ie \<in> set (it_interfaces it) \<and> ni_interfaceId ie = i"
proof
  assume f: "it_findInterfaceById i it = Some ie"
  let ?k = "nat (i - INTERFACEIDS_START)"
  have k: "?k < length (it_idToInterface it)" "it_idToInterface it ! ?k = Some ie" "0 \<le> i - INTERFACEIDS_START"
    using f by (auto simp: it_findInterfaceById_def Let_def split: if_splits)
  then have "Some ie \<in> set (it_idToInterface it)" using nth_mem by metis
  with it_ids_okD[OF assms k(1,2)] k(3) show "ie \<in> set (it_interfaces it) \<and> ni_interfaceId ie = i"
    by (simp add: it_interfaces_conv)
next
  assume ie: "ie \<in> set (it_interfaces it) \<and> ni_interfaceId ie = i"
  then have i: "ni_interfaceId ie = i" by simp
  from ie obtain k where k: "k < length (it_idToInterface it)" "it_idToInterface it ! k = Some ie"
    by (auto elim: it_interfaces_index)
  have "i = INTERFACEIDS_START + int k" using it_ids_okD[OF assms k] i by simp
  with k show "it_findInterfaceById i it = Some ie" by (simp add: it_findInterfaceById_def Let_def)
qed

lemma it_find_SomeD: "it_find P it = Some ie \<Longrightarrow> ie \<in> set (it_interfaces it) \<and> P ie"
  by (auto simp: it_find_def find_Some_iff)

lemma it_findInterfaceByName_iff:
  assumes "it_wf it"
  shows "it_findInterfaceByName n it = Some ie \<longleftrightarrow> ie \<in> set (it_interfaces it) \<and> ni_interfaceName ie = n"
proof
  assume "it_findInterfaceByName n it = Some ie"
  then show "ie \<in> set (it_interfaces it) \<and> ni_interfaceName ie = n"
    unfolding it_findInterfaceByName_def by (rule it_find_SomeD)
next
  assume ie: "ie \<in> set (it_interfaces it) \<and> ni_interfaceName ie = n"
  have "find (\<lambda>ie. ni_interfaceName ie = n) (it_interfaces it) \<noteq> None" using ie by (auto simp: find_None_iff)
  then obtain x where x: "it_findInterfaceByName n it = Some x"
    by (auto simp: it_findInterfaceByName_def it_find_def)
  then have "x \<in> set (it_interfaces it)" "ni_interfaceName x = n"
    unfolding it_findInterfaceByName_def by (auto dest: it_find_SomeD)
  with ie assms have "x = ie" by (auto simp: it_wf_def distinct_map inj_on_def)
  with x show "it_findInterfaceByName n it = Some ie" by simp
qed

text \<open>A write through a pointer replaces one interface and nothing else.\<close>

lemma it_interfaces_update:
  assumes "it_ids_ok it" "ie \<in> set (it_interfaces it)" "ni_interfaceId ie' = ni_interfaceId ie"
  shows "it_interfaces (it_update ie' it) =
    map (\<lambda>x. if ni_interfaceId x = ni_interfaceId ie then ie' else x) (it_interfaces it)"
proof -
  obtain k where k: "k < length (it_idToInterface it)" "it_idToInterface it ! k = Some ie"
    using assms(2) by (rule it_interfaces_index)
  have id: "ni_interfaceId ie = INTERFACEIDS_START + int k" by (rule it_ids_okD[OF assms(1) k])
  let ?f = "map_option (\<lambda>x. if ni_interfaceId x = ni_interfaceId ie then ie' else x)"
  have "(it_idToInterface it)[k := Some ie'] = map ?f (it_idToInterface it)"
  proof (rule nth_equalityI)
    fix j assume "j < length ((it_idToInterface it)[k := Some ie'])"
    then have j: "j < length (it_idToInterface it)" by simp
    show "(it_idToInterface it)[k := Some ie'] ! j = map ?f (it_idToInterface it) ! j"
      using it_ids_okD[OF assms(1) j] id k j by (cases "it_idToInterface it ! j") (auto simp: nth_update_if)
  qed simp
  moreover have "map the (filter (\<lambda>x. x \<noteq> None) (map (map_option g) xs)) = map g (map the (filter (\<lambda>x. x \<noteq> None) xs))"
    for g and xs :: "network_interface option list"
    by (induction xs) auto
  ultimately show ?thesis by (simp add: it_interfaces_def it_update_def assms(3) id)
qed

lemma it_update_wf:
  assumes "it_wf it" "ie \<in> set (it_interfaces it)" "ni_interfaceId ie' = ni_interfaceId ie"
    and "ni_interfaceName ie' = ni_interfaceName ie"
  shows "it_wf (it_update ie' it)"
proof -
  have ids: "it_ids_ok it" and dist: "distinct (map ni_interfaceName (it_interfaces it))"
    and cache: "it_cache_ok it" using assms(1) by (auto simp: it_wf_def)
  note u = it_interfaces_update[OF ids assms(2,3)]
  have same: "x = ie" if "x \<in> set (it_interfaces it)" "ni_interfaceId x = ni_interfaceId ie" for x
    using it_findInterfaceById_iff[OF ids] that assms(2) by (metis option.inject)
  have names: "map ni_interfaceName (it_interfaces (it_update ie' it)) = map ni_interfaceName (it_interfaces it)"
    unfolding u map_map using same assms(4) by (intro map_cong) auto
  have nums: "map ni_interfaceId (it_interfaces (it_update ie' it)) = map ni_interfaceId (it_interfaces it)"
    unfolding u map_map using same assms(3) by (intro map_cong) auto
  have "length (it_interfaces (it_update ie' it)) = length (it_interfaces it)" using nums by (metis length_map)
  with cache nums have "it_cache_ok (it_update ie' it)"
    by (cases "it_tmpInterfaceList it") (simp_all add: it_cache_ok_def)
  moreover have "INTERFACEIDS_START \<le> ni_interfaceId ie"
    using assms(2) by (rule it_interfaces_index) (simp add: it_ids_okD[OF ids])
  then have "it_ids_ok (it_update ie' it)"
    using ids by (auto simp: it_ids_ok_def it_update_def nth_update_if assms(3) split: option.splits if_splits)
  ultimately show ?thesis using dist names by (simp add: it_wf_def)
qed

section \<open>Every operation keeps the table well formed\<close>

lemma it_getNumInterfaces_correct:
  "it_wf it \<Longrightarrow> snd (it_getNumInterfaces it) = int (length (it_interfaces it)) \<and> it_wf (fst (it_getNumInterfaces it))
     \<and> it_interfaces (fst (it_getNumInterfaces it)) = it_interfaces it"
  by (cases "it_tmpInterfaceList it")
    (auto simp: it_getNumInterfaces_def it_wf_def it_cache_ok_def it_ids_ok_def Let_def)

lemma it_getInterface_correct:
  assumes "it_wf it"
  shows "it_getInterface pos it = (if 0 \<le> pos \<and> pos < int (length (it_interfaces it))
      then Inr (fst (it_getNumInterfaces it)\<lparr>it_tmpInterfaceList := Some (map ni_interfaceId (it_interfaces it))\<rparr>,
                ni_interfaceId (it_interfaces it ! nat pos))
      else Inl (Runtime_Error ''getInterface(): interface index out of range''))"
proof -
  obtain it1 n where g: "it_getNumInterfaces it = (it1, n)" by fastforce
  with it_getNumInterfaces_correct[OF assms] have n: "n = int (length (it_interfaces it))"
    "it_interfaces it1 = it_interfaces it" "it_cache_ok it1" by (auto simp: it_wf_def)
  have ids: "(case it_tmpInterfaceList it1 of Some l \<Rightarrow> l | None \<Rightarrow> map ni_interfaceId (it_interfaces it1))
      = map ni_interfaceId (it_interfaces it)"
    using n(2,3) by (auto simp: it_cache_ok_def split: option.splits)
  show ?thesis unfolding it_getInterface_def g Let_def prod.case ids n(1) by (auto simp: g vec_idx_def)
qed

text \<open>
  \<open>addInterface\<close> appends, under the next id; the id of a deleted interface is not given again.
  \<open>discover\<close> fills in gate numbers only.
\<close>

lemma it_addInterface_Inr:
  assumes "it_addInterface discover entry it = Inr (it', sigs)" "it_wf it"
    and discover: "\<And>e e'. discover e = Inr e' \<Longrightarrow> ni_interfaceId e' = ni_interfaceId e \<and> ni_interfaceName e' = ni_interfaceName e"
  shows "\<exists>e. it_interfaces it' = it_interfaces it @ [e] \<and> ni_interfaceId e = it_getBiggestInterfaceId it + 1
    \<and> ni_interfaceName e = ni_interfaceName entry \<and> sigs = [Sig_Interface_Created e] \<and> it_wf it'"
proof -
  let ?e1 = "entry\<lparr>ni_interfaceId := INTERFACEIDS_START + int (length (it_idToInterface it))\<rparr>"
  let ?it1 = "it_invalidateTmpInterfaceList (it\<lparr>it_idToInterface := it_idToInterface it @ [Some ?e1]\<rparr>)"
  from assms(1) obtain e where e: "discover ?e1 = Inr e" "it' = it_update e ?it1" "sigs = [Sig_Interface_Created e]"
    and new: "it_findInterfaceByName (ni_interfaceName entry) it = None"
    by (auto simp: it_addInterface_def Let_def cpp_bind_Inr_iff split: if_splits)
  have id: "ni_interfaceId e = INTERFACEIDS_START + int (length (it_idToInterface it))" "ni_interfaceName e = ni_interfaceName entry"
    using discover[OF e(1)] by simp_all
  have v: "it_idToInterface it' = it_idToInterface it @ [Some e]" by (simp add: e(2) it_update_def id)
  then have l: "it_interfaces it' = it_interfaces it @ [e]" by (simp add: it_interfaces_def)
  have "it_cache_ok it'" by (simp add: e(2) it_cache_ok_def it_invalidateTmpInterfaceList_def it_update_def)
  moreover have "ni_interfaceName entry \<notin> ni_interfaceName ` set (it_interfaces it)"
    using new by (auto simp: it_findInterfaceByName_def it_find_def find_None_iff)
  moreover have "it_ids_ok it'" using assms(2) id
    by (auto simp: it_wf_def it_ids_ok_def v nth_append less_Suc_eq)
  ultimately have "it_wf it'" using assms(2) id(2) by (simp add: it_wf_def l)
  with l id e(3) show ?thesis by (simp add: it_getBiggestInterfaceId_def)
qed

lemma it_deleteInterface_Inr:
  assumes "it_deleteInterface entry it = Inr (it', sigs)" "it_wf it"
  shows "it_interfaces it' = filter (\<lambda>x. ni_interfaceId x \<noteq> ni_interfaceId entry) (it_interfaces it)
    \<and> sigs = [Sig_Interface_Deleted entry] \<and> it_wf it'"
proof -
  have ids: "it_ids_ok it" using assms(2) by (simp add: it_wf_def)
  let ?k = "nat (ni_interfaceId entry - INTERFACEIDS_START)"
  from assms(1) have f: "it_findInterfaceById (ni_interfaceId entry) it = Some entry"
    and it': "it' = it_invalidateTmpInterfaceList (it\<lparr>it_idToInterface := (it_idToInterface it)[?k := None]\<rparr>)"
    and s: "sigs = [Sig_Interface_Deleted entry]"
    by (auto simp: it_deleteInterface_def it_getInterfaceById_def cpp_bind_Inr_iff split: option.splits if_splits)
  then obtain k where k: "k < length (it_idToInterface it)" "it_idToInterface it ! k = Some entry"
    using it_findInterfaceById_iff[OF ids] by (auto elim: it_interfaces_index)
  have id: "ni_interfaceId entry = INTERFACEIDS_START + int k" by (rule it_ids_okD[OF ids k])
  let ?f = "\<lambda>x. if x = None \<or> ni_interfaceId (the x) = ni_interfaceId entry then None else x"
  have v: "(it_idToInterface it)[k := None] = map ?f (it_idToInterface it)"
  proof (rule nth_equalityI)
    fix j assume "j < length ((it_idToInterface it)[k := None])"
    then have j: "j < length (it_idToInterface it)" by simp
    show "(it_idToInterface it)[k := None] ! j = map ?f (it_idToInterface it) ! j"
      using it_ids_okD[OF ids j] id k j by (cases "it_idToInterface it ! j") (auto simp: nth_update_if)
  qed simp
  have "map the (filter (\<lambda>x. x \<noteq> None) (map (\<lambda>x. if x = None \<or> P (the x) then None else x) xs))
      = filter (\<lambda>x. \<not> P x) (map the (filter (\<lambda>x. x \<noteq> None) xs))" for P and xs :: "network_interface option list"
    by (induction xs) auto
  from this[of "\<lambda>x. ni_interfaceId x = ni_interfaceId entry"]
  have l: "it_interfaces it' = filter (\<lambda>x. ni_interfaceId x \<noteq> ni_interfaceId entry) (it_interfaces it)"
    by (simp add: it' it_interfaces_def id v)
  moreover have "it_ids_ok it'" using ids
    by (auto simp: it' it_ids_ok_def nth_update_if split: option.splits if_splits)
  moreover have "it_cache_ok it'" by (simp add: it')
  ultimately show ?thesis using assms(2) s by (simp add: it_wf_def distinct_map_filter)
qed

end
