(* ===== verification/Agent_Sta.thy ===== *)
theory Agent_Sta
  imports Mac_Address
begin

text \<open>
  The 802.11 station agent (\<open>Ieee80211AgentSta.cc\<close>): it drives scanning, authentication and
  association by request primitives to the management entity, reacts to its confirms, and tells
  the rest of the node about the association by signals. The request primitives and the signals
  are the outputs of the handlers, in the order the code makes them.
\<close>

section \<open>Primitives\<close>

datatype prim_code = PR_SCAN | PR_AUTHENTICATE | PR_DEAUTHENTICATE | PR_ASSOCIATE | PR_REASSOCIATE | PR_DISASSOCIATE

datatype bss_type = BSSTYPE_ANY | BSSTYPE_INFRASTRUCTURE | BSSTYPE_INDEPENDENT

datatype prim_result_code = PRC_SUCCESS | PRC_INVALID_PARAMETERS | PRC_TIMEOUT
  | PRC_TOO_MANY_SIMULTANEOUS_REQUESTS | PRC_REFUSED

record bss_description =
  bd_channelNumber :: int
  bd_BSSID :: mac_address
  bd_SSID :: string
  bd_beaconInterval :: simtime
  bd_rxPower :: rat

record scan_request =
  sr_BSSType :: bss_type
  sr_BSSID :: mac_address
  sr_SSID :: string
  sr_activeScan :: bool
  sr_probeDelay :: simtime
  sr_channelList :: "int list"
  sr_minChannelTime :: simtime
  sr_maxChannelTime :: simtime

datatype prim_request =
    Scan_Request scan_request
  | Authenticate_Request mac_address simtime
  | Deauthenticate_Request mac_address int
  | Associate_Request mac_address simtime
  | Reassociate_Request mac_address simtime
  | Disassociate_Request mac_address int

datatype prim_confirm =
    Scan_Confirm prim_result_code "bss_description list"
  | Authenticate_Confirm prim_result_code mac_address
  | Associate_Confirm prim_result_code mac_address
  | Reassociate_Confirm prim_result_code mac_address
  | Other_Confirm        \<comment> \<open>a control info of another class\<close>
  | No_Control_Info      \<comment> \<open>a message without control info\<close>

datatype agent_effect =
    Send_Request prim_request
  | Emit_Sent_Request prim_code
  | Emit_Accept_Confirm prim_code
  | Emit_Drop_Confirm prim_code
  | Emit_L2_Disassociated
  | Emit_L2_Associated_New_Ap
  | Emit_L2_Associated_Old_Ap
  | Emit_State_Association bool    \<comment> \<open>\<open>stateAssociationSignal\<close>\<close>
  | Bubble string

section \<open>State\<close>

record agent_sta =
  ag_prevAP :: mac_address
  ag_activeScan :: bool
  ag_channelsToScan :: "int list"
  ag_probeDelay :: simtime
  ag_minChannelTime :: simtime
  ag_maxChannelTime :: simtime
  ag_authenticationTimeout :: simtime
  ag_associationTimeout :: simtime
  ag_defaultSsid :: string

section \<open>Requests\<close>

definition ag_sendScanRequest :: "agent_sta \<Rightarrow> agent_effect list" where
  "ag_sendScanRequest ag =
     [Emit_Sent_Request PR_SCAN,
      Send_Request (Scan_Request \<lparr>sr_BSSType = BSSTYPE_INFRASTRUCTURE, sr_BSSID = 0, sr_SSID = [],
        sr_activeScan = ag_activeScan ag, sr_probeDelay = ag_probeDelay ag,
        sr_channelList = ag_channelsToScan ag, sr_minChannelTime = ag_minChannelTime ag,
        sr_maxChannelTime = ag_maxChannelTime ag\<rparr>)]"

definition ag_sendAuthenticateRequest :: "mac_address \<Rightarrow> agent_sta \<Rightarrow> agent_effect list" where
  "ag_sendAuthenticateRequest a ag =
     [Emit_Sent_Request PR_AUTHENTICATE, Send_Request (Authenticate_Request a (ag_authenticationTimeout ag))]"

definition ag_sendDeauthenticateRequest :: "mac_address \<Rightarrow> int \<Rightarrow> agent_effect list" where
  "ag_sendDeauthenticateRequest a r =
     [Emit_Sent_Request PR_DEAUTHENTICATE, Send_Request (Deauthenticate_Request a r)]"

definition ag_sendAssociateRequest :: "mac_address \<Rightarrow> agent_sta \<Rightarrow> agent_effect list" where
  "ag_sendAssociateRequest a ag =
     [Emit_Sent_Request PR_ASSOCIATE, Send_Request (Associate_Request a (ag_associationTimeout ag))]"

definition ag_sendReassociateRequest :: "mac_address \<Rightarrow> agent_sta \<Rightarrow> agent_effect list" where
  "ag_sendReassociateRequest a ag =
     [Emit_Sent_Request PR_REASSOCIATE, Send_Request (Reassociate_Request a (ag_associationTimeout ag))]"

definition ag_sendDisassociateRequest :: "mac_address \<Rightarrow> int \<Rightarrow> agent_effect list" where
  "ag_sendDisassociateRequest a r =
     [Emit_Sent_Request PR_DISASSOCIATE, Send_Request (Disassociate_Request a r)]"

section \<open>Confirms\<close>

text \<open>\<open>chooseBSS\<close>: the loop keeps the first entry with the greatest power seen so far.\<close>

function ag_bestFrom :: "bss_description list \<Rightarrow> nat \<Rightarrow> nat \<Rightarrow> nat" where
  "ag_bestFrom bss i best =
     (if i < length bss then
        ag_bestFrom bss (i + 1) (if bd_rxPower (bss ! i) > bd_rxPower (bss ! best) then i else best)
      else best)"
  by pat_completeness auto
termination by (relation "measure (\<lambda>(bss, i, best). length bss - i)") auto

declare ag_bestFrom.simps [simp del]

definition ag_chooseBSS :: "bss_description list \<Rightarrow> int" where
  "ag_chooseBSS bss = (if bss = [] then -1 else int (ag_bestFrom bss 0 0))"

definition ag_findSsid :: "string \<Rightarrow> bss_description list \<Rightarrow> int" where
  "ag_findSsid ssid bss =
     (case find (\<lambda>i. bd_SSID (bss ! i) = ssid) [0..<length bss] of None \<Rightarrow> -1 | Some i \<Rightarrow> int i)"

definition ag_processScanConfirm ::
  "bss_description list \<Rightarrow> agent_sta \<Rightarrow> agent_sta \<times> agent_effect list" where
  "ag_processScanConfirm bss ag =
     (let bssIndex = (if ag_defaultSsid ag = [] then ag_chooseBSS bss else ag_findSsid (ag_defaultSsid ag) bss)
      in if bssIndex = -1 then (ag, Emit_Drop_Confirm PR_SCAN # ag_sendScanRequest ag)
         else (ag, Emit_Accept_Confirm PR_SCAN
                   # ag_sendAuthenticateRequest (bd_BSSID (bss ! nat bssIndex)) ag))"

definition ag_processAuthenticateConfirm ::
  "prim_result_code \<Rightarrow> mac_address \<Rightarrow> agent_sta \<Rightarrow> agent_sta \<times> agent_effect list" where
  "ag_processAuthenticateConfirm rc a ag =
     (if rc \<noteq> PRC_SUCCESS then (ag, Emit_Drop_Confirm PR_AUTHENTICATE # ag_sendScanRequest ag)
      else (ag, Emit_Accept_Confirm PR_AUTHENTICATE # ag_sendAssociateRequest a ag))"

definition ag_processAssociateConfirm ::
  "prim_result_code \<Rightarrow> mac_address \<Rightarrow> agent_sta \<Rightarrow> agent_sta \<times> agent_effect list" where
  "ag_processAssociateConfirm rc a ag =
     (if rc \<noteq> PRC_SUCCESS then (ag, Emit_Drop_Confirm PR_ASSOCIATE # ag_sendScanRequest ag)
      else let effs = [Emit_Accept_Confirm PR_ASSOCIATE, Bubble ''Associated with AP'']
           in if mac_isUnspecified (ag_prevAP ag) \<or> ag_prevAP ag \<noteq> a then
                (ag\<lparr>ag_prevAP := a\<rparr>, effs @ [Emit_L2_Associated_New_Ap, Emit_State_Association True])
              else (ag, effs @ [Emit_L2_Associated_Old_Ap]))"

definition ag_processReassociateConfirm ::
  "prim_result_code \<Rightarrow> agent_sta \<Rightarrow> agent_sta \<times> agent_effect list" where
  "ag_processReassociateConfirm rc ag =
     (if rc \<noteq> PRC_SUCCESS then (ag, Emit_Drop_Confirm PR_REASSOCIATE # ag_sendScanRequest ag)
      else (ag, [Emit_L2_Associated_Old_Ap, Emit_Accept_Confirm PR_REASSOCIATE]))"

definition ag_handleResponse ::
  "prim_confirm \<Rightarrow> agent_sta \<Rightarrow> (agent_sta \<times> agent_effect list) cpp" where
  "ag_handleResponse c ag = (case c of
      Scan_Confirm rc bss \<Rightarrow> Inr (ag_processScanConfirm bss ag)
    | Authenticate_Confirm rc a \<Rightarrow> Inr (ag_processAuthenticateConfirm rc a ag)
    | Associate_Confirm rc a \<Rightarrow> Inr (ag_processAssociateConfirm rc a ag)
    | Reassociate_Confirm rc a \<Rightarrow> Inr (ag_processReassociateConfirm rc ag)
    | Other_Confirm \<Rightarrow> Inl (Runtime_Error ''handleResponse(): unrecognized control info class'')
    | No_Control_Info \<Rightarrow> Inl (Runtime_Error ''handleResponse(): control info is nullptr''))"

section \<open>Timers and signals\<close>

definition MK_STARTUP :: int where "MK_STARTUP = 1"

definition ag_handleTimer :: "int \<Rightarrow> agent_sta \<Rightarrow> (agent_sta \<times> agent_effect list) cpp" where
  "ag_handleTimer kind ag =
     (if kind = MK_STARTUP then Inr (ag, ag_sendScanRequest ag)
      else Inl (Runtime_Error ''internal error: unrecognized timer''))"

datatype agent_signal = L2_Beacon_Lost | Other_Signal

definition ag_receiveSignal :: "agent_signal \<Rightarrow> agent_sta \<Rightarrow> agent_sta \<times> agent_effect list" where
  "ag_receiveSignal s ag = (case s of
      L2_Beacon_Lost \<Rightarrow> (ag, Bubble ''Beacon lost!'' # ag_sendScanRequest ag
                           @ [Emit_L2_Disassociated, Emit_State_Association False])
    | Other_Signal \<Rightarrow> (ag, []))"

datatype agent_message = Self_Message int | Confirm_Message prim_confirm

definition ag_handleMessage ::
  "agent_message \<Rightarrow> agent_sta \<Rightarrow> (agent_sta \<times> agent_effect list) cpp" where
  "ag_handleMessage msg ag = (case msg of
      Self_Message k \<Rightarrow> ag_handleTimer k ag
    | Confirm_Message c \<Rightarrow> ag_handleResponse c ag)"

lemmas ag_request_defs = ag_sendScanRequest_def ag_sendAuthenticateRequest_def ag_sendAssociateRequest_def
  ag_sendReassociateRequest_def ag_sendDeauthenticateRequest_def ag_sendDisassociateRequest_def

lemmas ag_confirm_defs = ag_processScanConfirm_def ag_processAuthenticateConfirm_def
  ag_processAssociateConfirm_def ag_processReassociateConfirm_def

section \<open>The choice of the access point\<close>

text \<open>The first of the strongest.\<close>

definition strongest_bss :: "bss_description list \<Rightarrow> nat \<Rightarrow> bool" where
  "strongest_bss bss i = (i < length bss \<and> (\<forall>j < length bss. bd_rxPower (bss ! j) \<le> bd_rxPower (bss ! i))
     \<and> (\<forall>j < i. bd_rxPower (bss ! j) < bd_rxPower (bss ! i)))"

lemma ag_bestFrom_strongest:
  assumes "best < length bss" "best \<le> i" "i \<le> length bss"
    and "\<forall>j < i. bd_rxPower (bss ! j) \<le> bd_rxPower (bss ! best)"
    and "\<forall>j < best. bd_rxPower (bss ! j) < bd_rxPower (bss ! best)"
  shows "strongest_bss bss (ag_bestFrom bss i best)"
  using assms
proof (induction bss i best rule: ag_bestFrom.induct)
  case (1 bss i best)
  show ?case
  proof (cases "i < length bss")
    case False
    with 1 show ?thesis by (subst ag_bestFrom.simps) (simp add: strongest_bss_def)
  next
    case True
    let ?b = "if bd_rxPower (bss ! i) > bd_rxPower (bss ! best) then i else best"
    have "strongest_bss bss (ag_bestFrom bss (i + 1) ?b)"
    proof (rule 1(1)[OF True])
      show "\<forall>j < i + 1. bd_rxPower (bss ! j) \<le> bd_rxPower (bss ! ?b)"
        using 1(5) by (auto simp: less_Suc_eq intro: order_trans less_imp_le)
      show "\<forall>j < ?b. bd_rxPower (bss ! j) < bd_rxPower (bss ! ?b)"
        using 1(5,6) by (auto intro: le_less_trans)
    qed (use True 1(2,3) in auto)
    with True show ?thesis by (subst ag_bestFrom.simps) simp
  qed
qed

lemma ag_chooseBSS_strongest:
  "bss \<noteq> [] \<Longrightarrow> \<exists>i. ag_chooseBSS bss = int i \<and> strongest_bss bss i"
  by (auto simp: ag_chooseBSS_def intro!: exI[of _ "ag_bestFrom bss 0 0"] ag_bestFrom_strongest)

definition first_named :: "string \<Rightarrow> bss_description list \<Rightarrow> nat \<Rightarrow> bool" where
  "first_named ssid bss i = (i < length bss \<and> bd_SSID (bss ! i) = ssid \<and> (\<forall>j < i. bd_SSID (bss ! j) \<noteq> ssid))"

lemma ag_findSsid_first:
  "ag_findSsid ssid bss = -1 \<and> ssid \<notin> bd_SSID ` set bss
   \<or> (\<exists>i < length bss. ag_findSsid ssid bss = int i \<and> first_named ssid bss i)"
proof (cases "find (\<lambda>i. bd_SSID (bss ! i) = ssid) [0..<length bss]")
  case None
  then have "ssid \<notin> bd_SSID ` set bss" by (auto simp: find_None_iff in_set_conv_nth)
  with None show ?thesis by (simp add: ag_findSsid_def)
next
  case (Some i)
  then have "ag_findSsid ssid bss = int i" by (simp add: ag_findSsid_def)
  moreover have "i < length bss" "first_named ssid bss i"
    using Some unfolding find_Some_iff first_named_def by auto
  ultimately show ?thesis by blast
qed

end
