(* ===== verification/Bus_App.thy ===== *)
theory Bus_App
  imports Interface_Table Ipv4_Routing Agent_Sta
begin

text \<open>
  The bus application (\<open>AppBusDataCollection.cc\<close>): once a second it chooses the access network of
  the vehicle. While the station agent reports an association it takes the cellular interface
  down and routes through Wi-Fi, otherwise it brings the cellular interface up and routes through
  it. The theory models the application with the parts of the node it works on: the interface
  table, the routing table that listens to its interfaces, and the agent whose
  \<open>stateAssociationSignal\<close> it subscribes to.
\<close>

section \<open>State\<close>

record bus_app =
  ba_haveForwarded :: bool
  ba_ConnectionToAP :: bool
  ba_controlTimer :: "simtime option"    \<comment> \<open>the time the timer is scheduled for\<close>

record bus_node =
  bn_app :: bus_app
  bn_interfaceTable :: interface_table
  bn_routingTable :: routing_table

text \<open>
  What the application reads from its surroundings: whether the agent module can be found, the
  id of the vehicle and its road in the traffic simulation, and the matcher of the interface names
  that get a netmask route.
\<close>

record bus_env =
  be_agentFound :: bool
  be_externalId :: string
  be_roadId :: string
  be_netmaskRoutes :: "string \<Rightarrow> bool"

datatype bus_effect =
    Subscribe_State_Association
  | Set_Icon string
  | Interface_Signal if_signal
  | Route_Signal route_event
  | Send_To string int string ipv4_address int
      \<comment> \<open>packet name, payload bytes, road id, destination, port\<close>

definition bus_app_new :: bus_app where
  "bus_app_new = \<lparr>ba_haveForwarded = False, ba_ConnectionToAP = False, ba_controlTimer = None\<rparr>"

section \<open>Signals between the parts of the node\<close>

text \<open>
  A signal of an interface goes through the interface table to the routing table, which sees the
  interfaces as they are at that moment.
\<close>

definition node_deliver :: "bus_env \<Rightarrow> if_signal \<Rightarrow> bus_node \<Rightarrow> bus_node \<times> bus_effect list" where
  "node_deliver env sig n = (case sig of Interface_State_Changed fld ie \<Rightarrow>
     let it = it_update ie (bn_interfaceTable n);
         (rt, evs) = rt_receiveSignal (be_netmaskRoutes env) (it_interfaces it)
                       (Interface_State_Change fld ie) (bn_routingTable n)
     in (n\<lparr>bn_interfaceTable := it, bn_routingTable := rt\<rparr>, Interface_Signal sig # map Route_Signal evs))"

fun node_deliverAll :: "bus_env \<Rightarrow> if_signal list \<Rightarrow> bus_node \<Rightarrow> bus_node \<times> bus_effect list" where
  "node_deliverAll env [] n = (n, [])"
| "node_deliverAll env (s # ss) n =
     (let (n1, e1) = node_deliver env s n; (n2, e2) = node_deliverAll env ss n1 in (n2, e1 @ e2))"

text \<open>\<open>setState\<close> on an interface of the node; no interface is a null pointer.\<close>

definition node_setState ::
  "bus_env \<Rightarrow> network_interface option \<Rightarrow> if_state \<Rightarrow> bus_node \<Rightarrow> (bus_node \<times> bus_effect list) cpp" where
  "node_setState env ifc st n = (case ifc of
      None \<Rightarrow> Inl Undefined_Behaviour
    | Some ie \<Rightarrow> Inr (node_deliverAll env (snd (ni_setState st ie)) n))"

section \<open>Routes\<close>

text \<open>The loop that deletes every route to 0.0.0.0, from the last index down.\<close>

fun bus_clearDefaults :: "nat \<Rightarrow> routing_table \<Rightarrow> (routing_table \<times> route_event list) cpp" where
  "bus_clearDefaults 0 rt = Inr (rt, [])"
| "bus_clearDefaults (Suc i) rt =
     cpp_bind (rt_getRoute (int i) rt) (\<lambda>r. case r of
         None \<Rightarrow> Inl Undefined_Behaviour
       | Some e \<Rightarrow>
           let (rt1, evs1) = (if ip_isUnspecified (ir_dest e) then
                                (let (rt', _, evs) = rt_deleteRoute (ir_id e) rt in (rt', evs))
                              else (rt, []))
           in cpp_bind (bus_clearDefaults i rt1) (\<lambda>(rt2, evs2). Inr (rt2, evs1 @ evs2)))"

text \<open>The new default route, before it has a name.\<close>

definition bus_defaultRoute :: "ipv4_address \<Rightarrow> network_interface option \<Rightarrow> ipv4_route" where
  "bus_defaultRoute gw ifc = \<lparr>ir_id = 0, ir_dest = 0, ir_netmask = 0, ir_gateway = gw,
     ir_interface = map_option ni_interfaceId ifc, ir_sourceType = MANUAL, ir_source = None,
     ir_adminDist = dUnknown, ir_metric = 0, ir_valid = True\<rparr>"

definition bus_replaceDefault ::
  "ipv4_address \<Rightarrow> network_interface option \<Rightarrow> routing_table \<Rightarrow> (routing_table \<times> route_event list) cpp" where
  "bus_replaceDefault gw ifc rt =
     cpp_bind (bus_clearDefaults (length (rt_routes rt)) rt) (\<lambda>(rt1, evs1).
       let (e, rt2) = rt_newRoute (bus_defaultRoute gw ifc) rt1
       in cpp_bind (rt_addRoute e rt2) (\<lambda>(rt3, evs2). Inr (rt3, evs1 @ evs2)))"

section \<open>The control function\<close>

definition WLAN_GATEWAY :: ipv4_address where "WLAN_GATEWAY = 0xC0A80001"       \<comment> \<open>192.168.0.1\<close>
definition CELLULAR_GATEWAY :: ipv4_address where "CELLULAR_GATEWAY = 0x0A000001"  \<comment> \<open>10.0.0.1\<close>
definition SERVER_ADDRESS :: ipv4_address where "SERVER_ADDRESS = 0x0F000001"    \<comment> \<open>15.0.0.1\<close>

definition is_bus :: "string \<Rightarrow> bool" where
  "is_bus v = (take (length ''buses_cosenza.'') v = ''buses_cosenza.'')"

text \<open>The first part of \<open>controlInterface\<close>: subscribe to the agent, once it can be found.\<close>

definition bus_subscribe :: "bus_env \<Rightarrow> bus_app \<Rightarrow> bus_app \<times> bus_effect list" where
  "bus_subscribe env app =
     (if \<not> ba_haveForwarded app \<and> be_agentFound env then
        (app\<lparr>ba_haveForwarded := True\<rparr>, [Subscribe_State_Association])
      else (app, []))"

text \<open>One branch of the choice: the state of the cellular interface, then the default route.\<close>

definition bus_switch ::
  "bus_env \<Rightarrow> if_state \<Rightarrow> ipv4_address \<Rightarrow> string \<Rightarrow> bus_node \<Rightarrow> (bus_node \<times> bus_effect list) cpp" where
  "bus_switch env st gw name n =
     cpp_bind (node_setState env (it_findInterfaceByName ''cellular'' (bn_interfaceTable n)) st n) (\<lambda>(n1, e1).
     cpp_bind (bus_replaceDefault gw (it_findInterfaceByName name (bn_interfaceTable n1)) (bn_routingTable n1))
       (\<lambda>(rt, evs). Inr (n1\<lparr>bn_routingTable := rt\<rparr>, e1 @ map Route_Signal evs)))"

definition bus_controlInterface :: "bus_env \<Rightarrow> bus_node \<Rightarrow> (bus_node \<times> bus_effect list) cpp" where
  "bus_controlInterface env n =
     (let (app, e0) = bus_subscribe env (bn_app n); n0 = n\<lparr>bn_app := app\<rparr>
      in if be_externalId env = [] then
           Inl (Runtime_Error ''TraCIMobility::getExternalId called with no external_id set yet'')
         else if \<not> is_bus (be_externalId env) then Inr (n0, e0)
         else
           cpp_bind (if ba_ConnectionToAP app then bus_switch env DOWN WLAN_GATEWAY ''wlan0'' n0
                     else bus_switch env UP CELLULAR_GATEWAY ''cellular'' n0) (\<lambda>(n1, e1).
           Inr (n1, e0 @ [Set_Icon ''red''] @ e1
                      @ [Send_To ''accident'' 100 (be_roadId env) SERVER_ADDRESS 3000])))"

section \<open>Messages and signals\<close>

definition bus_receiveSignal :: "int \<Rightarrow> bus_app \<Rightarrow> bus_app" where
  "bus_receiveSignal l app = app\<lparr>ba_ConnectionToAP := (l \<noteq> 0)\<rparr>"

text \<open>
  \<open>startApplication\<close>. The delay is written \<open>SimTime(0.1, SIMTIME_S)\<close>; \<open>simTimeS\<close> is that constructor of
  the simulation kernel.
\<close>

definition bus_startApplication :: "(rat \<Rightarrow> simtime) \<Rightarrow> simtime \<Rightarrow> bus_app \<Rightarrow> bus_app \<times> bool" where
  "bus_startApplication simTimeS now app =
     (if ba_controlTimer app = None then (app\<lparr>ba_controlTimer := Some (now + simTimeS (1/10))\<rparr>, True)
      else (app, True))"

definition bus_stopApplication :: "bus_app \<Rightarrow> bus_app \<times> bool" where
  "bus_stopApplication app = (app\<lparr>ba_controlTimer := None\<rparr>, True)"

text \<open>The control timer: the control function runs and the timer is set for one second later.\<close>

definition bus_handleControlTimer ::
  "(rat \<Rightarrow> simtime) \<Rightarrow> simtime \<Rightarrow> bus_env \<Rightarrow> bus_node \<Rightarrow> (bus_node \<times> bus_effect list) cpp" where
  "bus_handleControlTimer simTimeS now env n =
     cpp_bind (bus_controlInterface env n) (\<lambda>(n1, e1).
       Inr (n1\<lparr>bn_app := (bn_app n1)\<lparr>ba_controlTimer := Some (now + simTimeS 1)\<rparr>\<rparr>, e1))"

section \<open>The agent and the application\<close>

text \<open>The signals the agent emits reach the application once it has subscribed.\<close>

fun bus_hear :: "agent_effect list \<Rightarrow> bus_app \<Rightarrow> bus_app" where
  "bus_hear [] app = app"
| "bus_hear (Emit_State_Association b # es) app =
     bus_hear es (if ba_haveForwarded app then bus_receiveSignal (if b then 1 else 0) app else app)"
| "bus_hear (_ # es) app = bus_hear es app"

text \<open>Whether a list of effects raises the flag.\<close>

lemma bus_hear_quiet:
  "\<forall>b. Emit_State_Association b \<notin> set es \<Longrightarrow> bus_hear es app = app"
  by (induction es app rule: bus_hear.induct) auto

lemma bus_hear_append: "bus_hear (es @ fs) app = bus_hear fs (bus_hear es app)"
  by (induction es app rule: bus_hear.induct) auto

section \<open>Clearing and setting the default route\<close>

lemma rt_getRoute_ok: "i < length (rt_routes rt) \<Longrightarrow> rt_getRoute (int i) rt = Inr (Some (rt_routes rt ! i))"
  by (simp add: rt_getRoute_def)

lemma filter_other_ids:
  assumes "distinct (map f xs)" "i < length xs"
  shows "filter (\<lambda>x. f x \<noteq> f (xs ! i)) xs = take i xs @ drop (Suc i) xs"
proof -
  have "xs = take i xs @ xs ! i # drop (Suc i) xs" using assms(2) by (simp add: id_take_nth_drop)
  then have "distinct (map f (take i xs @ xs ! i # drop (Suc i) xs))" using assms(1) by simp
  then have a: "filter (\<lambda>x. f x \<noteq> f (xs ! i)) (take i xs) = take i xs"
    "filter (\<lambda>x. f x \<noteq> f (xs ! i)) (drop (Suc i) xs) = drop (Suc i) xs"
    by (auto simp: filter_id_conv image_iff)
  have "filter (\<lambda>x. f x \<noteq> f (xs ! i)) xs = filter (\<lambda>x. f x \<noteq> f (xs ! i)) (take i xs @ xs ! i # drop (Suc i) xs)"
    using assms(2) by (simp add: id_take_nth_drop[symmetric])
  also have "\<dots> = take i xs @ drop (Suc i) xs" using a by simp
  finally show ?thesis .
qed

text \<open>The index-based loop removes exactly the routes to 0.0.0.0.\<close>

lemma bus_clearDefaults_take:
  assumes "rt_wf rt" "i \<le> length (rt_routes rt)"
  shows "\<exists>rt' evs. bus_clearDefaults i rt = Inr (rt', evs) \<and> rt_wf rt' \<and> rt_nextId rt' = rt_nextId rt
    \<and> rt_useAdminDist rt' = rt_useAdminDist rt
    \<and> rt_routes rt' = filter (\<lambda>e. ir_dest e \<noteq> 0) (take i (rt_routes rt)) @ drop i (rt_routes rt)"
  using assms
proof (induction i arbitrary: rt)
  case 0
  then show ?case by simp
next
  case (Suc i)
  let ?e = "rt_routes rt ! i"
  have i: "i < length (rt_routes rt)" using Suc.prems(2) by simp
  have tk: "take (Suc i) (rt_routes rt) = take i (rt_routes rt) @ [?e]" using i by (rule take_Suc_conv_app_nth)
  show ?case
  proof (cases "ir_dest ?e = 0")
    case True
    let ?rt1 = "fst (rt_deleteRoute (ir_id ?e) rt)"
    have "distinct (map ir_id (rt_routes rt))" using Suc.prems(1) by (simp add: rt_wf_def rt_ids_ok_def)
    then have r: "rt_routes ?rt1 = take i (rt_routes rt) @ drop (Suc i) (rt_routes rt)"
      using rt_deleteRoute_routes[OF Suc.prems(1)] i by (simp add: filter_other_ids)
    then have "i \<le> length (rt_routes ?rt1)" using i by simp
    from Suc.IH[OF rt_deleteRoute_wf[OF Suc.prems(1)] this]
    show ?thesis using True i r tk rt_deleteRoute_routes[OF Suc.prems(1), of "ir_id ?e"]
      by (fastforce simp: rt_getRoute_ok ip_isUnspecified_def split_beta Let_def)
  next
    case False
    have "i \<le> length (rt_routes rt)" using i by simp
    from Suc.IH[OF Suc.prems(1) this] show ?thesis using False i tk
      by (auto simp: rt_getRoute_ok ip_isUnspecified_def Let_def Cons_nth_drop_Suc)
  qed
qed

lemma bus_clearDefaults_all:
  assumes "rt_wf rt"
  shows "\<exists>rt' evs. bus_clearDefaults (length (rt_routes rt)) rt = Inr (rt', evs) \<and> rt_wf rt'
    \<and> rt_routes rt' = filter (\<lambda>e. ir_dest e \<noteq> 0) (rt_routes rt)"
  using bus_clearDefaults_take[OF assms order_refl] by auto

text \<open>In a well-formed table without a route to 0.0.0.0 there is no default route to replace.\<close>

lemma route_ok_default: "route_ok e \<Longrightarrow> ir_netmask e = 0 \<Longrightarrow> ir_dest e = 0"
  by (simp add: route_ok_def)

lemma rt_getDefaultRoute_None:
  assumes "\<forall>e \<in> set (rt_routes rt). ir_netmask e \<noteq> 0"
  shows "rt_getDefaultRoute rt = None"
proof -
  have "takeWhile (\<lambda>e. ip_isUnspecified (ir_netmask e)) (rev (rt_routes rt)) = []"
    using assms hd_in_set[of "rev (rt_routes rt)"] by (auto simp: takeWhile_eq_Nil_iff ip_isUnspecified_def)
  then show ?thesis by (simp add: rt_getDefaultRoute_def)
qed

lemma bus_replaceDefault_correct:
  assumes "rt_wf rt"
  shows "\<exists>rt' evs k. bus_replaceDefault gw (Some ie) rt = Inr (rt', evs) \<and> rt_wf rt'
    \<and> filter (\<lambda>e. ir_dest e = 0) (rt_routes rt') = [(bus_defaultRoute gw (Some ie))\<lparr>ir_id := k\<rparr>]
    \<and> filter (\<lambda>e. ir_dest e \<noteq> 0) (rt_routes rt') = filter (\<lambda>e. ir_dest e \<noteq> 0) (rt_routes rt)"
proof -
  obtain rt1 evs1 where c: "bus_clearDefaults (length (rt_routes rt)) rt = Inr (rt1, evs1)" "rt_wf rt1"
    "rt_routes rt1 = filter (\<lambda>e. ir_dest e \<noteq> 0) (rt_routes rt)"
    using bus_clearDefaults_all[OF assms] by blast
  obtain e rt2 where n: "rt_newRoute (bus_defaultRoute gw (Some ie)) rt1 = (e, rt2)" by fastforce
  have e: "e = (bus_defaultRoute gw (Some ie))\<lparr>ir_id := rt_nextId rt1\<rparr>" "rt_routes rt2 = rt_routes rt1"
    using n by (auto simp: rt_newRoute_def)
  note wf2 = rt_newRoute_wf[OF c(2) n]
  have ne: "ir_netmask x \<noteq> 0" if "x \<in> set (rt_routes rt2)" for x
    using that wf2 c(3) route_ok_default[of x] by (auto simp: e(2) rt_wf_def list_all_iff)
  then have "rt_getDefaultRoute rt2 = None" by (intro rt_getDefaultRoute_None) blast
  then have a: "rt_addRoute e rt2 = Inr (rt_insertRoute e rt2, [Route_Added e])"
    by (simp add: rt_addRoute_def rt_internalAddRoute_def e(1) bus_defaultRoute_def ip_isUnspecified_def
        ip_isValidNetmask_def ip_getNetmaskLength_def ip_makeNetmask_0 upt_rec)
  have "rt_wf (rt_insertRoute e rt2)" using rt_addRoute_wf[OF a] wf2 by blast
  moreover have "bus_replaceDefault gw (Some ie) rt = Inr (rt_insertRoute e rt2, evs1 @ [Route_Added e])"
    by (simp add: bus_replaceDefault_def c(1) n a)
  moreover have "filter (\<lambda>x. ir_dest x = 0) (rt_routes (rt_insertRoute e rt2)) = [e]"
    by (auto simp: rt_insertRoute_routes e c(3) bus_defaultRoute_def filter_empty_conv intro!: filter_insert_only)
  moreover have "filter (\<lambda>x. ir_dest x \<noteq> 0) (rt_routes (rt_insertRoute e rt2)) = filter (\<lambda>x. ir_dest x \<noteq> 0) (rt_routes rt)"
    by (simp add: rt_insertRoute_routes filter_insert_upper_bound e bus_defaultRoute_def c(3))
  ultimately show ?thesis using e(1) by blast
qed

section \<open>Changing the state of an interface\<close>

definition node_ok :: "bus_node \<Rightarrow> bool" where
  "node_ok n = (it_wf (bn_interfaceTable n) \<and> ift_ok (it_interfaces (bn_interfaceTable n))
     \<and> rt_wf (bn_routingTable n))"

text \<open>A signal that shows an interface with another state or carrier, and nothing else changed.\<close>

definition shows_same :: "network_interface \<Rightarrow> network_interface \<Rightarrow> bool" where
  "shows_same a b = (ni_interfaceId a = ni_interfaceId b \<and> ni_interfaceName a = ni_interfaceName b
     \<and> ni_ipv4Data a = ni_ipv4Data b)"

lemma ift_ok_map:
  "ift_ok ifs \<Longrightarrow> ie \<in> set ifs \<Longrightarrow> shows_same ie' ie \<Longrightarrow>
     ift_ok (map (\<lambda>x. if ni_interfaceId x = ni_interfaceId ie then ie' else x) ifs)"
  by (auto simp: ift_ok_def list_all_iff shows_same_def)

lemma node_deliver_correct:
  fixes env :: bus_env and fld :: if_field
  assumes "node_ok n" "ie \<in> set (it_interfaces (bn_interfaceTable n))" "shows_same ie' ie"
  defines "n' \<equiv> fst (node_deliver env (Interface_State_Changed fld ie') n)"
  shows "node_ok n'" and "bn_app n' = bn_app n"
    and "it_interfaces (bn_interfaceTable n') =
      map (\<lambda>x. if ni_interfaceId x = ni_interfaceId ie then ie' else x) (it_interfaces (bn_interfaceTable n))"
    and "bn_routingTable n' = fst (rt_receiveSignal (be_netmaskRoutes env)
      (it_interfaces (bn_interfaceTable n')) (Interface_State_Change fld ie') (bn_routingTable n))"
proof -
  have id: "ni_interfaceId ie' = ni_interfaceId ie" "ni_interfaceName ie' = ni_interfaceName ie"
    using assms(3) by (simp_all add: shows_same_def)
  have wf: "it_wf (bn_interfaceTable n)" "rt_wf (bn_routingTable n)" "ift_ok (it_interfaces (bn_interfaceTable n))"
    using assms(1) by (simp_all add: node_ok_def)
  have n': "bn_interfaceTable n' = it_update ie' (bn_interfaceTable n)" "bn_app n' = bn_app n"
    "bn_routingTable n' = fst (rt_receiveSignal (be_netmaskRoutes env)
      (it_interfaces (it_update ie' (bn_interfaceTable n))) (Interface_State_Change fld ie') (bn_routingTable n))"
    by (simp_all add: n'_def node_deliver_def Let_def split_beta)
  show ifs: "it_interfaces (bn_interfaceTable n') =
      map (\<lambda>x. if ni_interfaceId x = ni_interfaceId ie then ie' else x) (it_interfaces (bn_interfaceTable n))"
    unfolding n'(1) using wf(1) assms(2) id(1) by (intro it_interfaces_update) (simp_all add: it_wf_def)
  have "it_wf (bn_interfaceTable n')" unfolding n'(1) by (rule it_update_wf[OF wf(1) assms(2) id])
  moreover have ok: "ift_ok (it_interfaces (bn_interfaceTable n'))"
    unfolding ifs by (rule ift_ok_map[OF wf(3) assms(2,3)])
  moreover have "rt_wf (bn_routingTable n')"
    unfolding n'(3) using rt_receiveSignal_wf[OF wf(2) ok] by (simp add: n'(1))
  ultimately show "node_ok n'" by (simp add: node_ok_def)
  show "bn_app n' = bn_app n" by (rule n'(2))
  show "bn_routingTable n' = fst (rt_receiveSignal (be_netmaskRoutes env)
      (it_interfaces (bn_interfaceTable n')) (Interface_State_Change fld ie') (bn_routingTable n))"
    by (simp add: n')
qed

text \<open>A sequence of signals that all show the interface as \<open>ie'\<close>.\<close>

lemma node_deliverAll_correct:
  assumes "node_ok n" "ie \<in> set (it_interfaces (bn_interfaceTable n))" "shows_same ie' ie"
    and "\<forall>s \<in> set sigs. \<exists>fld. s = Interface_State_Changed fld ie'"
  shows "node_ok (fst (node_deliverAll env sigs n)) \<and> bn_app (fst (node_deliverAll env sigs n)) = bn_app n
    \<and> it_interfaces (bn_interfaceTable (fst (node_deliverAll env sigs n))) =
        (if sigs = [] then it_interfaces (bn_interfaceTable n)
         else map (\<lambda>x. if ni_interfaceId x = ni_interfaceId ie then ie' else x) (it_interfaces (bn_interfaceTable n)))
    \<and> (sigs \<noteq> [] \<longrightarrow> \<not> ni_isUp ie' \<longrightarrow>
        (\<forall>e \<in> set (rt_routes (bn_routingTable (fst (node_deliverAll env sigs n)))). ir_interface e \<noteq> Some (ni_interfaceId ie)))
    \<and> filter (\<lambda>e. ir_sourceType e \<noteq> IFACENETMASK \<and> ir_interface e \<noteq> Some (ni_interfaceId ie))
        (rt_routes (bn_routingTable (fst (node_deliverAll env sigs n)))) =
      filter (\<lambda>e. ir_sourceType e \<noteq> IFACENETMASK \<and> ir_interface e \<noteq> Some (ni_interfaceId ie))
        (rt_routes (bn_routingTable n))"
  using assms
proof (induction sigs arbitrary: n ie)
  case Nil
  then show ?case by simp
next
  case (Cons s ss)
  obtain fld where s: "s = Interface_State_Changed fld ie'" using Cons.prems(4) by auto
  let ?n1 = "fst (node_deliver env s n)"
  note d = node_deliver_correct[OF Cons.prems(1-3), of env fld, folded s]
  have id: "ni_interfaceId ie' = ni_interfaceId ie" using Cons.prems(3) by (simp add: shows_same_def)
  have mem: "ie' \<in> set (it_interfaces (bn_interfaceTable ?n1))" using Cons.prems(2) by (auto simp: d(3))
  have same: "shows_same ie' ie'" by (simp add: shows_same_def)
  have all: "\<forall>s \<in> set ss. \<exists>fld. s = Interface_State_Changed fld ie'" using Cons.prems(4) by simp
  note IH = Cons.IH[OF d(1) mem same all]
  note r = rt_stateChange_routes[OF d(4), unfolded id]
  have eq: "fst (node_deliverAll env (s # ss) n) = fst (node_deliverAll env ss ?n1)"
    by (simp add: split_beta Let_def)
  have ifs: "it_interfaces (bn_interfaceTable (fst (node_deliverAll env ss ?n1))) =
      map (\<lambda>x. if ni_interfaceId x = ni_interfaceId ie then ie' else x) (it_interfaces (bn_interfaceTable n))"
    using IH by (auto simp: d(3) id split: if_splits)
  have routes: "\<forall>e \<in> set (rt_routes (bn_routingTable (fst (node_deliverAll env ss ?n1)))).
      ir_interface e \<noteq> Some (ni_interfaceId ie)" if "\<not> ni_isUp ie'"
    using IH r(1)[OF that] that by (cases "ss = []") (auto simp: id)
  show ?case unfolding eq using IH ifs routes d(2) r(2) by (simp add: id)
qed

lemma ni_setState_shows:
  "shows_same (fst (ni_setState st ie)) ie"
  "\<forall>s \<in> set (snd (ni_setState st ie)). \<exists>fld. s = Interface_State_Changed fld (fst (ni_setState st ie))"
  "snd (ni_setState st ie) = [] \<longleftrightarrow> ni_state ie = st"
  "ni_state ie = st \<Longrightarrow> fst (ni_setState st ie) = ie"
  by (auto simp: ni_defs shows_same_def)

lemma map_replace_id:
  assumes "\<And>x. x \<in> set xs \<Longrightarrow> f x = f y \<Longrightarrow> x = y"
  shows "map (\<lambda>x. if f x = f y then y else x) xs = xs"
  using assms by (induction xs) auto

lemma node_setState_correct:
  assumes "node_ok n" "ie \<in> set (it_interfaces (bn_interfaceTable n))"
  shows "\<exists>n' effs. node_setState env (Some ie) st n = Inr (n', effs) \<and> node_ok n' \<and> bn_app n' = bn_app n
    \<and> it_interfaces (bn_interfaceTable n') =
        map (\<lambda>x. if ni_interfaceId x = ni_interfaceId ie then fst (ni_setState st ie) else x)
          (it_interfaces (bn_interfaceTable n))
    \<and> (ni_state ie \<noteq> st \<longrightarrow> \<not> ni_isUp (fst (ni_setState st ie)) \<longrightarrow>
        (\<forall>e \<in> set (rt_routes (bn_routingTable n')). ir_interface e \<noteq> Some (ni_interfaceId ie)))
    \<and> filter (\<lambda>e. ir_sourceType e \<noteq> IFACENETMASK \<and> ir_interface e \<noteq> Some (ni_interfaceId ie))
        (rt_routes (bn_routingTable n')) =
      filter (\<lambda>e. ir_sourceType e \<noteq> IFACENETMASK \<and> ir_interface e \<noteq> Some (ni_interfaceId ie))
        (rt_routes (bn_routingTable n))"
proof -
  have "it_ids_ok (bn_interfaceTable n)" using assms(1) by (simp add: node_ok_def it_wf_def)
  then have u: "x \<in> set (it_interfaces (bn_interfaceTable n)) \<Longrightarrow> ni_interfaceId x = ni_interfaceId ie \<Longrightarrow> x = ie" for x
    using it_findInterfaceById_iff assms(2) by (metis option.inject)
  obtain n' effs where r: "node_deliverAll env (snd (ni_setState st ie)) n = (n', effs)" by fastforce
  have "it_interfaces (bn_interfaceTable n') =
      map (\<lambda>x. if ni_interfaceId x = ni_interfaceId ie then fst (ni_setState st ie) else x)
        (it_interfaces (bn_interfaceTable n))"
  proof (cases "ni_state ie = st")
    case True
    then have same: "fst (ni_setState st ie) = ie" "snd (ni_setState st ie) = []" by (simp_all add: ni_setState_shows)
    with r have "n' = n" by simp
    then show ?thesis unfolding same
      using map_replace_id[of "it_interfaces (bn_interfaceTable n)" ni_interfaceId ie, OF u] by simp
  next
    case False
    then have "snd (ni_setState st ie) \<noteq> []" by (simp add: ni_setState_shows)
    then show ?thesis using node_deliverAll_correct[OF assms ni_setState_shows(1,2), of env st] by (simp add: r)
  qed
  then show ?thesis
    using node_deliverAll_correct[OF assms ni_setState_shows(1,2), of env st] ni_setState_shows(3)[where ie = ie and st = st]
    by (simp add: node_setState_def r)
qed

section \<open>Switching the access network\<close>

text \<open>The interfaces of the node after a switch of the state of \<open>c\<close>.\<close>

definition node_interfaces :: "bus_node \<Rightarrow> network_interface list" where
  "node_interfaces n = it_interfaces (bn_interfaceTable n)"

definition node_interface :: "string \<Rightarrow> bus_node \<Rightarrow> network_interface option" where
  "node_interface name n = it_findInterfaceByName name (bn_interfaceTable n)"

definition node_routes :: "bus_node \<Rightarrow> ipv4_route list" where
  "node_routes n = rt_routes (bn_routingTable n)"

abbreviation kept_route :: "network_interface \<Rightarrow> ipv4_route \<Rightarrow> bool" where
  "kept_route c e \<equiv> ir_dest e \<noteq> 0 \<and> ir_sourceType e \<noteq> IFACENETMASK \<and> ir_interface e \<noteq> Some (ni_interfaceId c)"

lemma node_interface_iff:
  "node_ok n \<Longrightarrow> node_interface name n = Some ie \<longleftrightarrow> ie \<in> set (node_interfaces n) \<and> ni_interfaceName ie = name"
  by (simp add: node_interface_def node_interfaces_def node_ok_def it_findInterfaceByName_iff)

lemma node_interfaces_unique:
  assumes "node_ok n" "a \<in> set (node_interfaces n)" "b \<in> set (node_interfaces n)" "ni_interfaceId a = ni_interfaceId b"
  shows "a = b"
  using assms it_findInterfaceById_iff[of "bn_interfaceTable n"]
  by (auto simp: node_ok_def it_wf_def node_interfaces_def) (metis option.inject)

lemma node_interface_replaced:
  assumes "node_ok n" "node_ok n'" "node_interface name n = Some ie" "c \<in> set (node_interfaces n)" "shows_same c' c"
    and "node_interfaces n' = map (\<lambda>x. if ni_interfaceId x = ni_interfaceId c then c' else x) (node_interfaces n)"
  shows "node_interface name n' = Some (if ie = c then c' else ie)"
proof -
  have ie: "ie \<in> set (node_interfaces n)" "ni_interfaceName ie = name"
    using assms(1,3) by (simp_all add: node_interface_iff)
  have "ni_interfaceId ie = ni_interfaceId c \<longleftrightarrow> ie = c"
    using node_interfaces_unique[OF assms(1) ie(1) assms(4)] by auto
  then have "(if ie = c then c' else ie) \<in> set (node_interfaces n')" using ie(1) by (force simp: assms(6))
  then show ?thesis using assms(5) ie(2) by (auto simp: node_interface_iff[OF assms(2)] shows_same_def)
qed

lemma bus_defaultRoute_same:
  "ni_interfaceId a = ni_interfaceId b \<Longrightarrow> bus_defaultRoute gw (Some a) = bus_defaultRoute gw (Some b)"
  by (simp add: bus_defaultRoute_def)

lemma bus_switch_correct:
  assumes "node_ok n" "node_interface ''cellular'' n = Some c" "node_interface name n = Some w"
  shows "\<exists>n' effs k. bus_switch env st gw name n = Inr (n', effs) \<and> node_ok n' \<and> bn_app n' = bn_app n
    \<and> node_interfaces n' = map (\<lambda>x. if ni_interfaceId x = ni_interfaceId c then fst (ni_setState st c) else x) (node_interfaces n)
    \<and> filter (\<lambda>e. ir_dest e = 0) (node_routes n') = [(bus_defaultRoute gw (Some w))\<lparr>ir_id := k\<rparr>]
    \<and> (ni_state c \<noteq> st \<longrightarrow> \<not> ni_isUp (fst (ni_setState st c)) \<longrightarrow>
        (\<forall>e \<in> set (node_routes n'). ir_dest e \<noteq> 0 \<longrightarrow> ir_interface e \<noteq> Some (ni_interfaceId c)))
    \<and> filter (kept_route c) (node_routes n') = filter (kept_route c) (node_routes n)"
proof -
  have c: "c \<in> set (node_interfaces n)" using assms(1,2) by (simp add: node_interface_iff)
  obtain n1 e1 where n1: "node_setState env (Some c) st n = Inr (n1, e1)" "node_ok n1" "bn_app n1 = bn_app n"
    "node_interfaces n1 = map (\<lambda>x. if ni_interfaceId x = ni_interfaceId c then fst (ni_setState st c) else x) (node_interfaces n)"
    "ni_state c \<noteq> st \<longrightarrow> \<not> ni_isUp (fst (ni_setState st c)) \<longrightarrow>
        (\<forall>e \<in> set (node_routes n1). ir_interface e \<noteq> Some (ni_interfaceId c))"
    "filter (\<lambda>e. ir_sourceType e \<noteq> IFACENETMASK \<and> ir_interface e \<noteq> Some (ni_interfaceId c)) (node_routes n1) =
      filter (\<lambda>e. ir_sourceType e \<noteq> IFACENETMASK \<and> ir_interface e \<noteq> Some (ni_interfaceId c)) (node_routes n)"
    using node_setState_correct[OF assms(1) c[unfolded node_interfaces_def], of env st]
    unfolding node_routes_def node_interfaces_def by blast
  let ?w = "if w = c then fst (ni_setState st c) else w"
  have w: "node_interface name n1 = Some ?w"
    by (rule node_interface_replaced[OF assms(1) n1(2) assms(3) c ni_setState_shows(1) n1(4)])
  have wid: "ni_interfaceId ?w = ni_interfaceId w" by (simp add: ni_setState_rest)
  have "rt_wf (bn_routingTable n1)" using n1(2) by (simp add: node_ok_def)
  from bus_replaceDefault_correct[OF this, of gw ?w] obtain rt evs k where
    r: "bus_replaceDefault gw (Some ?w) (bn_routingTable n1) = Inr (rt, evs)" "rt_wf rt"
    "filter (\<lambda>e. ir_dest e = 0) (rt_routes rt) = [(bus_defaultRoute gw (Some ?w))\<lparr>ir_id := k\<rparr>]"
    "filter (\<lambda>e. ir_dest e \<noteq> 0) (rt_routes rt) = filter (\<lambda>e. ir_dest e \<noteq> 0) (node_routes n1)"
    unfolding node_routes_def by blast
  let ?n' = "n1\<lparr>bn_routingTable := rt\<rparr>"
  let ?Q = "\<lambda>e. ir_sourceType e \<noteq> IFACENETMASK \<and> ir_interface e \<noteq> Some (ni_interfaceId c)"
  have "bus_switch env st gw name n = Inr (?n', e1 @ map Route_Signal evs)"
    using assms(2) w n1(1) r(1) by (simp add: bus_switch_def node_interface_def)
  moreover have "node_ok ?n'" using n1(2) r(2) by (simp add: node_ok_def)
  moreover have "filter (kept_route c) (node_routes ?n') = filter ?Q (filter (\<lambda>e. ir_dest e \<noteq> 0) (rt_routes rt))"
    by (simp add: node_routes_def conj_commute)
  then have "filter (kept_route c) (node_routes ?n') = filter (\<lambda>e. ir_dest e \<noteq> 0) (filter ?Q (node_routes n1))"
    unfolding r(4) filter_filter by (simp add: conj_commute)
  then have "filter (kept_route c) (node_routes ?n') = filter (kept_route c) (node_routes n)"
    unfolding n1(6) filter_filter by (simp add: conj_commute)
  moreover have "\<forall>e \<in> set (node_routes ?n'). ir_dest e \<noteq> 0 \<longrightarrow> ir_interface e \<noteq> Some (ni_interfaceId c)"
    if "ni_state c \<noteq> st" "\<not> ni_isUp (fst (ni_setState st c))"
  proof (intro ballI impI)
    fix e assume e: "e \<in> set (node_routes ?n')" "ir_dest e \<noteq> 0"
    then have "e \<in> set (filter (\<lambda>e. ir_dest e \<noteq> 0) (rt_routes rt))" by (simp add: node_routes_def)
    then show "ir_interface e \<noteq> Some (ni_interfaceId c)" unfolding r(4) using n1(5) that by simp
  qed
  ultimately show ?thesis using n1(3,4) r(3) bus_defaultRoute_same[OF wid, of gw]
    by (intro exI[of _ ?n'] exI[of _ "e1 @ map Route_Signal evs"] exI[of _ k])
      (simp add: node_routes_def node_interfaces_def)
qed

end
