(* ===== verification/Bus_Properties.thy ===== *)
theory Bus_Properties
  imports Bus_App
begin

text \<open>
  What the bus node promises: Wi-Fi while the agent reports an association, cellular otherwise,
  once a second; and the two places where the promise fails: the cellular interface comes back
  without its carrier, and a return to the previous access point is not reported.
\<close>

section \<open>A run of the control function\<close>

text \<open>The access network a run chooses: the state of the cellular interface, the gateway and the name of the interface.\<close>

definition chosen_state :: "bool \<Rightarrow> if_state" where
  "chosen_state associated = (if associated then DOWN else UP)"

definition chosen_gateway :: "bool \<Rightarrow> ipv4_address" where
  "chosen_gateway associated = (if associated then WLAN_GATEWAY else CELLULAR_GATEWAY)"

definition chosen_interface :: "bool \<Rightarrow> string" where
  "chosen_interface associated = (if associated then ''wlan0'' else ''cellular'')"

text \<open>A bus whose node has both interfaces.\<close>

definition bus_ready :: "bus_env \<Rightarrow> bus_node \<Rightarrow> bool" where
  "bus_ready env n = (node_ok n \<and> is_bus (be_externalId env)
     \<and> node_interface ''cellular'' n \<noteq> None \<and> node_interface ''wlan0'' n \<noteq> None)"

lemma is_bus_not_empty: "is_bus v \<Longrightarrow> v \<noteq> []"
  by (auto simp: is_bus_def)

lemma bus_subscribe_fields [simp]:
  "ba_ConnectionToAP (fst (bus_subscribe env app)) = ba_ConnectionToAP app"
  "ba_haveForwarded (fst (bus_subscribe env app)) = (ba_haveForwarded app \<or> be_agentFound env)"
  by (auto simp: bus_subscribe_def)

lemma bus_controlInterface_run:
  assumes "bus_ready env n" "node_interface ''cellular'' n = Some c"
    and "node_interface (chosen_interface (ba_ConnectionToAP (bn_app n))) n = Some w"
  defines "b \<equiv> ba_ConnectionToAP (bn_app n)"
  shows "\<exists>n' effs k. bus_controlInterface env n =
        Inr (n', effs @ [Send_To ''accident'' 100 (be_roadId env) SERVER_ADDRESS 3000])
    \<and> node_ok n' \<and> bn_app n' = fst (bus_subscribe env (bn_app n))
    \<and> node_interfaces n' = map (\<lambda>x. if ni_interfaceId x = ni_interfaceId c then fst (ni_setState (chosen_state b) c) else x) (node_interfaces n)
    \<and> filter (\<lambda>e. ir_dest e = 0) (node_routes n') = [(bus_defaultRoute (chosen_gateway b) (Some w))\<lparr>ir_id := k\<rparr>]
    \<and> (ni_state c \<noteq> chosen_state b \<longrightarrow> \<not> ni_isUp (fst (ni_setState (chosen_state b) c)) \<longrightarrow>
        (\<forall>e \<in> set (node_routes n'). ir_dest e \<noteq> 0 \<longrightarrow> ir_interface e \<noteq> Some (ni_interfaceId c)))
    \<and> filter (kept_route c) (node_routes n') = filter (kept_route c) (node_routes n)"
proof -
  obtain app e0 where s: "bus_subscribe env (bn_app n) = (app, e0)" by fastforce
  let ?n0 = "n\<lparr>bn_app := app\<rparr>"
  have b: "ba_ConnectionToAP app = b" using bus_subscribe_fields(1)[of env "bn_app n"] by (simp add: s b_def)
  have "node_ok ?n0" using assms(1) by (simp add: bus_ready_def node_ok_def)
  moreover have "node_interface ''cellular'' ?n0 = Some c" "node_interface (chosen_interface b) ?n0 = Some w"
    using assms(2,3) by (simp_all add: node_interface_def b_def)
  ultimately obtain n' effs k where r: "bus_switch env (chosen_state b) (chosen_gateway b) (chosen_interface b) ?n0 = Inr (n', effs)"
    "node_ok n'" "bn_app n' = app"
    "node_interfaces n' = map (\<lambda>x. if ni_interfaceId x = ni_interfaceId c then fst (ni_setState (chosen_state b) c) else x) (node_interfaces n)"
    "filter (\<lambda>e. ir_dest e = 0) (node_routes n') = [(bus_defaultRoute (chosen_gateway b) (Some w))\<lparr>ir_id := k\<rparr>]"
    "ni_state c \<noteq> chosen_state b \<longrightarrow> \<not> ni_isUp (fst (ni_setState (chosen_state b) c)) \<longrightarrow>
        (\<forall>e \<in> set (node_routes n'). ir_dest e \<noteq> 0 \<longrightarrow> ir_interface e \<noteq> Some (ni_interfaceId c))"
    "filter (kept_route c) (node_routes n') = filter (kept_route c) (node_routes n)"
    using bus_switch_correct[of ?n0 c "chosen_interface b" w env "chosen_state b" "chosen_gateway b"]
    by (auto simp: node_interfaces_def node_routes_def)
  have "be_externalId env \<noteq> []" "is_bus (be_externalId env)"
    using assms(1) is_bus_not_empty by (auto simp: bus_ready_def)
  then have "bus_controlInterface env n = Inr (n', (e0 @ [Set_Icon ''red''] @ effs) @ [Send_To ''accident'' 100 (be_roadId env) SERVER_ADDRESS 3000])"
    using r(1) by (cases b) (simp_all add: bus_controlInterface_def s b chosen_state_def chosen_gateway_def chosen_interface_def)
  then show ?thesis using r(2-) s by auto
qed

text \<open>The interfaces stay, under their names.\<close>

lemma node_interface_after:
  assumes "node_ok n" "node_ok n'" "node_interface ''cellular'' n = Some c" "node_interface name n = Some ie"
    and "node_interfaces n' = map (\<lambda>x. if ni_interfaceId x = ni_interfaceId c then fst (ni_setState st c) else x) (node_interfaces n)"
  shows "node_interface name n' = Some (if ie = c then fst (ni_setState st c) else ie)"
  using assms by (intro node_interface_replaced[OF assms(1,2,4)]) (simp_all add: node_interface_iff ni_setState_shows)

text \<open>A lookup that no more specific route answers goes to the default route.\<close>

lemma rt_lookup_default:
  assumes "rt_wf rt" "filter (\<lambda>e. ir_dest e = 0) (rt_routes rt) = [d]" "ir_valid d" "ir_netmask d = 0"
    and "\<forall>e \<in> set (rt_routes rt). ir_dest e \<noteq> 0 \<longrightarrow> \<not> rt_matches dest e"
  shows "\<exists>rt'. rt_findBestMatchingRoute dest rt = Inr (rt', Some d)"
proof -
  have d: "d \<in> set (rt_routes rt)" using assms(2) by (auto simp: filter_eq_Cons_iff)
  have only: "e = d" if "e \<in> set (rt_routes rt)" "ir_dest e = 0" for e
  proof -
    have "e \<in> set (filter (\<lambda>e. ir_dest e = 0) (rt_routes rt))" using that by simp
    then show ?thesis unfolding assms(2) by simp
  qed
  have m: "rt_matches dest d" using assms(3,4) by (simp add: rt_matches_def ip_maskedAddrAreEqual_def)
  have "rt_scan dest rt \<noteq> None" using rt_scan_NoneD[of dest rt] d m by blast
  then obtain e where e: "rt_scan dest rt = Some e" by blast
  then have "e = d" using rt_scan_SomeD[OF e] only assms(5) by blast
  with rt_findBestMatchingRoute_scan[OF assms(1), of dest] e show ?thesis by auto
qed

section \<open>A node for the instances\<close>

definition ex_if :: "int \<Rightarrow> string \<Rightarrow> ipv4_address \<Rightarrow> network_interface" where
  "ex_if i name a = \<lparr>ni_interfaceId = i, ni_interfaceName = name, ni_fullName = name, ni_state = UP, ni_carrier = True,
     ni_broadcast = True, ni_multicast = True, ni_pointToPoint = False, ni_loopback = False,
     ni_wireless = True, ni_rxTransmissionChannel = None, ni_txTransmissionChannel = None,
     ni_macAddr = 0, ni_multicastAddresses = [],
     ni_ipv4Data = Some \<lparr>id_ipAddress = a, id_netmask = 0xffffff00, id_metric = 1\<rparr>\<rparr>"

definition ex_env :: bus_env where
  "ex_env = \<lparr>be_agentFound = True, be_externalId = ''buses_cosenza.0'', be_roadId = ''r'', be_netmaskRoutes = \<lambda>_. False\<rparr>"

definition ex_node :: "bool \<Rightarrow> bus_node" where
  "ex_node b = \<lparr>bn_app = bus_app_new\<lparr>ba_haveForwarded := True, ba_ConnectionToAP := b\<rparr>,
     bn_interfaceTable = it_new\<lparr>it_idToInterface :=
       [Some (ex_if 100 ''wlan0'' 0xc0a80002), Some (ex_if 101 ''cellular'' 0x0a000002)]\<rparr>,
     bn_routingTable = rt_new False\<rparr>"

lemma ex_node_ok: "node_ok (ex_node b)"
proof -
  have "ip_isValidNetmask 0xffffff00"
    by (simp add: ip_isValidNetmask_def ip_getNetmaskLength_def ip_makeNetmask_raw_def upt_rec)
  then show ?thesis
    by (auto simp: node_ok_def ex_node_def it_wf_def it_ids_ok_def it_cache_ok_def it_interfaces_def it_new_def
        ift_ok_def ex_if_def INTERFACEIDS_START_def rt_wf_new nth_Cons' less_Suc_eq)
qed

lemma ex_node_interfaces:
  "node_interface ''cellular'' (ex_node b) = Some (ex_if 101 ''cellular'' 0x0a000002)"
  "node_interface ''wlan0'' (ex_node b) = Some (ex_if 100 ''wlan0'' 0xc0a80002)"
  by (simp_all add: node_interface_def ex_node_def it_findInterfaceByName_def it_find_def it_interfaces_def
      ex_if_def it_new_def)

lemma ex_node_ready: "bus_ready ex_env (ex_node b)"
  using ex_node_ok by (simp add: bus_ready_def ex_node_interfaces is_bus_def ex_env_def)

lemma ex_node_app: "ba_ConnectionToAP (bn_app (ex_node b)) = b" "ba_haveForwarded (bn_app (ex_node b))"
  by (simp_all add: ex_node_def)

section \<open>Properties\<close>

text \<open>
  C17. A run of \<open>controlInterface\<close> on a bus whose node has both interfaces returns and leaves exactly one route
  to 0.0.0.0: through Wi-Fi and its gateway while the association flag is set, through cellular
  and its gateway otherwise; the cellular interface has the chosen state; the report is sent last;
  routes to other destinations that are neither netmask routes nor through cellular stay; and every
  destination that no more specific route matches is looked up to the new default route.
\<close>

theorem bus_selects_network:
  assumes "bus_ready env n" "b = ba_ConnectionToAP (bn_app n)"
    and "node_interface ''cellular'' n = Some c" "node_interface (chosen_interface b) n = Some w"
  shows "\<exists>n' effs d. bus_controlInterface env n =
        Inr (n', effs @ [Send_To ''accident'' 100 (be_roadId env) SERVER_ADDRESS 3000])
    \<and> map_option ni_state (node_interface ''cellular'' n') = Some (if b then DOWN else UP)
    \<and> filter (\<lambda>e. ir_dest e = 0) (node_routes n') = [d]
    \<and> ir_gateway d = (if b then WLAN_GATEWAY else CELLULAR_GATEWAY) \<and> ir_interface d = Some (ni_interfaceId w)
    \<and> filter (kept_route c) (node_routes n') = filter (kept_route c) (node_routes n)
    \<and> (\<forall>dest. (\<forall>e \<in> set (node_routes n'). ir_dest e \<noteq> 0 \<longrightarrow> \<not> rt_matches dest e) \<longrightarrow>
         (\<exists>rt'. rt_findBestMatchingRoute dest (bn_routingTable n') = Inr (rt', Some d)))
    \<and> bus_ready env n' \<and> ba_ConnectionToAP (bn_app n') = b"
proof -
  have ok: "node_ok n" using assms(1) by (simp add: bus_ready_def)
  obtain w0 where w0: "node_interface ''wlan0'' n = Some w0" using assms(1) by (auto simp: bus_ready_def)
  obtain n' effs k where r: "bus_controlInterface env n =
        Inr (n', effs @ [Send_To ''accident'' 100 (be_roadId env) SERVER_ADDRESS 3000])"
    "node_ok n'" "bn_app n' = fst (bus_subscribe env (bn_app n))"
    "node_interfaces n' = map (\<lambda>x. if ni_interfaceId x = ni_interfaceId c then fst (ni_setState (chosen_state b) c) else x) (node_interfaces n)"
    "filter (\<lambda>e. ir_dest e = 0) (node_routes n') = [(bus_defaultRoute (chosen_gateway b) (Some w))\<lparr>ir_id := k\<rparr>]"
    "filter (kept_route c) (node_routes n') = filter (kept_route c) (node_routes n)"
    using bus_controlInterface_run[OF assms(1,3) assms(4)[unfolded assms(2)]] unfolding assms(2)[symmetric] by blast
  let ?d = "(bus_defaultRoute (chosen_gateway b) (Some w))\<lparr>ir_id := k\<rparr>"
  have c': "node_interface ''cellular'' n' = Some (fst (ni_setState (chosen_state b) c))"
    using node_interface_after[OF ok r(2) assms(3,3) r(4)] by simp
  have "node_interface ''wlan0'' n' \<noteq> None" using node_interface_after[OF ok r(2) assms(3) w0 r(4)] by simp
  then have "bus_ready env n'" using assms(1) c' r(2) by (simp add: bus_ready_def)
  moreover have "\<exists>rt'. rt_findBestMatchingRoute dest (bn_routingTable n') = Inr (rt', Some ?d)"
    if "\<forall>e \<in> set (node_routes n'). ir_dest e \<noteq> 0 \<longrightarrow> \<not> rt_matches dest e" for dest
    using rt_lookup_default[OF _ r(5)[unfolded node_routes_def], of dest] r(2) that
    by (simp add: node_ok_def node_routes_def bus_defaultRoute_def)
  ultimately show ?thesis using r c' assms(2)
    by (intro exI[of _ n'] exI[of _ effs] exI[of _ ?d])
      (simp add: bus_defaultRoute_def chosen_state_def chosen_gateway_def)
qed

lemma bus_selects_network_witness:
  "\<exists>n' effs d. bus_controlInterface ex_env (ex_node True) = Inr (n', effs)
    \<and> filter (\<lambda>e. ir_dest e = 0) (node_routes n') = [d] \<and> ir_interface d = Some 100 \<and> ir_gateway d = WLAN_GATEWAY"
proof -
  have "node_interface (chosen_interface True) (ex_node True) = Some (ex_if 100 ''wlan0'' 0xc0a80002)"
    by (simp add: chosen_interface_def ex_node_interfaces)
  from bus_selects_network[OF ex_node_ready ex_node_app(1)[symmetric] ex_node_interfaces(1) this]
  show ?thesis by (auto simp: ex_if_def)
qed

text \<open>
  C18. The cellular interface does not come back into service: after a run with the flag set, which
  takes the interface down, and a run after the loss of the association, its state is UP and the
  only default route leads through it, but it has no carrier and drops every packet from above.
\<close>

theorem bus_cellular_without_carrier:
  assumes "bus_ready env n" "ba_ConnectionToAP (bn_app n)"
    and "node_interface ''cellular'' n = Some c" "ni_state c \<noteq> DOWN"
    and "bus_controlInterface env n = Inr (n1, e1)"
    and "bus_controlInterface env (n1\<lparr>bn_app := bus_receiveSignal 0 (bn_app n1)\<rparr>) = Inr (n2, e2)"
  shows "\<exists>c2 d. node_interface ''cellular'' n2 = Some c2 \<and> ni_state c2 = UP \<and> \<not> ni_carrier c2
    \<and> ni_pushPacket Upper_Layer_In c2 = Inr (Packet_Dropped NO_CARRIER)
    \<and> filter (\<lambda>e. ir_dest e = 0) (node_routes n2) = [d] \<and> ir_interface d = Some (ni_interfaceId c2)"
proof -
  obtain w where w: "node_interface ''wlan0'' n = Some w" using assms(1) by (auto simp: bus_ready_def)
  let ?c1 = "fst (ni_setState DOWN c)" and ?n1 = "n1\<lparr>bn_app := bus_receiveSignal 0 (bn_app n1)\<rparr>"
  have ok: "node_ok n" using assms(1) by (simp add: bus_ready_def)
  have n1: "node_ok n1" "node_interfaces n1 = map (\<lambda>x. if ni_interfaceId x = ni_interfaceId c then ?c1 else x) (node_interfaces n)"
    using bus_controlInterface_run[OF assms(1,3), of w] w assms(2,5) by (auto simp: chosen_interface_def chosen_state_def)
  have c1: "node_interface ''cellular'' n1 = Some ?c1"
    using node_interface_after[OF ok n1(1) assms(3,3) n1(2)] by simp
  have "node_interface ''wlan0'' n1 \<noteq> None" using node_interface_after[OF ok n1(1) assms(3) w n1(2)] by simp
  with c1 n1(1) have ready: "bus_ready env ?n1" using assms(1)
    by (simp add: bus_ready_def node_ok_def node_interface_def)
  have c1': "node_interface ''cellular'' ?n1 = Some ?c1" using c1 by (simp add: node_interface_def)
  let ?c2 = "fst (ni_setState UP ?c1)"
  have b: "\<not> ba_ConnectionToAP (bn_app ?n1)" by (simp add: bus_receiveSignal_def)
  then have n2: "node_ok n2" "node_interfaces n2 = map (\<lambda>x. if ni_interfaceId x = ni_interfaceId ?c1 then ?c2 else x) (node_interfaces ?n1)"
    "\<exists>k. filter (\<lambda>e. ir_dest e = 0) (node_routes n2) = [(bus_defaultRoute CELLULAR_GATEWAY (Some ?c1))\<lparr>ir_id := k\<rparr>]"
    using bus_controlInterface_run[OF ready c1', of ?c1] c1' assms(6)
    by (auto simp: chosen_interface_def chosen_state_def chosen_gateway_def)
  have "node_interface ''cellular'' n2 = Some ?c2"
    using node_interface_after[OF _ n2(1) c1' c1' n2(2)] ready by (simp add: bus_ready_def)
  moreover have "ni_state ?c2 = UP" "\<not> ni_carrier ?c2" using assms(4) by (simp_all add: ni_setState_carrier)
  ultimately show ?thesis using n2(3)
    by (auto simp: ni_pushPacket_def ni_push_def ni_isDown_def bus_defaultRoute_def ni_setState_rest)
qed

lemma bus_cellular_without_carrier_witness:
  "\<exists>n1 n2 e1 e2 c2. bus_controlInterface ex_env (ex_node True) = Inr (n1, e1)
     \<and> bus_controlInterface ex_env (n1\<lparr>bn_app := bus_receiveSignal 0 (bn_app n1)\<rparr>) = Inr (n2, e2)
     \<and> node_interface ''cellular'' n2 = Some c2 \<and> ni_pushPacket Upper_Layer_In c2 = Inr (Packet_Dropped NO_CARRIER)"
proof -
  have w: "node_interface (chosen_interface True) (ex_node True) = Some (ex_if 100 ''wlan0'' 0xc0a80002)"
    by (simp add: chosen_interface_def ex_node_interfaces)
  obtain n1 e1 where r1: "bus_controlInterface ex_env (ex_node True) = Inr (n1, e1)" "node_ok n1"
    "node_interfaces n1 = map (\<lambda>x. if ni_interfaceId x = 101 then fst (ni_setState DOWN (ex_if 101 ''cellular'' 0x0a000002)) else x)
       (node_interfaces (ex_node True))"
    using bus_controlInterface_run[OF ex_node_ready ex_node_interfaces(1), of True] w
    by (auto simp: ex_node_app chosen_state_def ex_if_def)
  let ?n1 = "n1\<lparr>bn_app := bus_receiveSignal 0 (bn_app n1)\<rparr>"
  have ifs: "node_interface ''cellular'' n1 \<noteq> None" "node_interface ''wlan0'' n1 \<noteq> None"
    using node_interface_after[OF ex_node_ok r1(2) ex_node_interfaces(1), where st = DOWN] ex_node_interfaces r1(3)
    by (simp_all add: ex_if_def)
  then have "bus_ready ex_env ?n1" using r1(2) ex_node_ready
    by (auto simp: bus_ready_def node_ok_def node_interface_def)
  moreover obtain c where "node_interface ''cellular'' ?n1 = Some c" using ifs(1) by (auto simp: node_interface_def)
  ultimately obtain n2 e2 where r2: "bus_controlInterface ex_env ?n1 = Inr (n2, e2)"
    using bus_controlInterface_run[of ex_env ?n1 c c] by (auto simp: bus_receiveSignal_def chosen_interface_def)
  have "ni_state (ex_if 101 ''cellular'' 0x0a000002) \<noteq> DOWN" by (simp add: ex_if_def)
  from bus_cellular_without_carrier[OF ex_node_ready _ ex_node_interfaces(1) this r1(1) r2] r1(1) r2
  show ?thesis by (auto simp: ex_node_app)
qed

section \<open>The agent and the association flag\<close>

text \<open>
  C19. After the loss of the beacon, a successful association sets the application's flag exactly when
  the access point is another one than the last: the return to the same access point is
  announced as an old association and the flag stays down.
\<close>

theorem agent_return_not_reported:
  assumes "\<not> mac_isUnspecified (ag_prevAP ag)" and "ba_haveForwarded app"
    and "ag_receiveSignal L2_Beacon_Lost ag = (ag1, e1)"
    and "ag_processAssociateConfirm PRC_SUCCESS a ag1 = (ag2, e2)"
  shows "ba_ConnectionToAP (bus_hear (e1 @ e2) app) \<longleftrightarrow> a \<noteq> ag_prevAP ag"
  using assms
  by (auto simp: ag_receiveSignal_def ag_processAssociateConfirm_def ag_sendScanRequest_def bus_receiveSignal_def Let_def)

definition ex_agent :: "mac_address \<Rightarrow> agent_sta" where
  "ex_agent a = \<lparr>ag_prevAP = a, ag_activeScan = True, ag_channelsToScan = [3], ag_probeDelay = 0,
     ag_minChannelTime = 1, ag_maxChannelTime = 2, ag_authenticationTimeout = 5,
     ag_associationTimeout = 5, ag_defaultSsid = []\<rparr>"

lemma agent_return_not_reported_witness:
  "\<not> ba_ConnectionToAP (bus_hear (snd (ag_receiveSignal L2_Beacon_Lost (ex_agent 7))
      @ snd (ag_processAssociateConfirm PRC_SUCCESS 7 (fst (ag_receiveSignal L2_Beacon_Lost (ex_agent 7)))))
      (bus_app_new\<lparr>ba_haveForwarded := True, ba_ConnectionToAP := True\<rparr>))"
  using agent_return_not_reported[of "ex_agent 7" "bus_app_new\<lparr>ba_haveForwarded := True, ba_ConnectionToAP := True\<rparr>"
      _ _ 7, OF _ _ surjective_pairing surjective_pairing]
  by (simp add: ex_agent_def mac_isUnspecified_def)

text \<open>
  The choice of the access point: without a default SSID the agent authenticates with the first
  of the strongest access points of the scan, with one it authenticates with the first access
  point of that name, and it scans again exactly when there is no such access point.
\<close>

theorem agent_chooses_access_point:
  "let (ag', effs) = ag_processScanConfirm bss ag; ssid = ag_defaultSsid ag in ag' = ag \<and>
     (if (if ssid = [] then bss = [] else ssid \<notin> bd_SSID ` set bss)
      then effs = Emit_Drop_Confirm PR_SCAN # ag_sendScanRequest ag
      else \<exists>i < length bss. effs = Emit_Accept_Confirm PR_SCAN # ag_sendAuthenticateRequest (bd_BSSID (bss ! i)) ag
        \<and> (if ssid = [] then strongest_bss bss i else first_named ssid bss i))"
proof (cases "ag_defaultSsid ag = []")
  case True
  show ?thesis
  proof (cases "bss = []")
    case Nil: True
    with True show ?thesis by (simp add: ag_processScanConfirm_def ag_chooseBSS_def)
  next
    case False
    then obtain i where "ag_chooseBSS bss = int i" "strongest_bss bss i" using ag_chooseBSS_strongest by blast
    moreover from this have "i < length bss" by (simp add: strongest_bss_def)
    ultimately show ?thesis using True False by (auto simp: ag_processScanConfirm_def)
  qed
next
  case False
  from ag_findSsid_first[of "ag_defaultSsid ag" bss] show ?thesis
  proof (elim disjE exE conjE)
    assume "ag_findSsid (ag_defaultSsid ag) bss = -1" "ag_defaultSsid ag \<notin> bd_SSID ` set bss"
    with False show ?thesis by (simp add: ag_processScanConfirm_def)
  next
    fix i assume i: "i < length bss" "ag_findSsid (ag_defaultSsid ag) bss = int i"
      "first_named (ag_defaultSsid ag) bss i"
    then have "ag_defaultSsid ag \<in> bd_SSID ` set bss" by (metis first_named_def image_eqI nth_mem)
    with False i show ?thesis by (auto simp: ag_processScanConfirm_def Let_def)
  qed
qed

section \<open>The control loop\<close>

fun is_send :: "bus_effect \<Rightarrow> bool" where
  "is_send (Send_To _ _ _ _ _) = True"
| "is_send _ = False"

lemma node_deliverAll_silent: "filter is_send (snd (node_deliverAll env sigs n)) = []"
  by (induction sigs arbitrary: n) (auto simp: node_deliver_def split_beta Let_def filter_empty_conv split: if_signal.splits)

lemma bus_switch_silent: "bus_switch env st gw name n = Inr (n', e) \<Longrightarrow> filter is_send e = []"
  by (auto simp: bus_switch_def node_setState_def cpp_bind_Inr_iff filter_empty_conv split: option.splits prod.splits)
    (metis node_deliverAll_silent filter_empty_conv snd_conv)+

lemma bus_controlInterface_sends:
  assumes "bus_controlInterface env n = Inr (n', e)" "is_bus (be_externalId env)"
  shows "length (filter is_send e) = 1"
proof -
  have "filter is_send (snd (bus_subscribe env app)) = []" for app by (simp add: bus_subscribe_def)
  with assms show ?thesis
    by (auto simp: bus_controlInterface_def Let_def split_beta cpp_bind_Inr_iff dest!: bus_switch_silent split: if_splits)
qed

text \<open>The timer goes off \<open>k\<close> times, each time at the time it was set for.\<close>

fun bus_loop :: "(rat \<Rightarrow> simtime) \<Rightarrow> nat \<Rightarrow> bus_env \<Rightarrow> bus_node \<Rightarrow> (bus_node \<times> bus_effect list) cpp" where
  "bus_loop simTimeS 0 env n = Inr (n, [])"
| "bus_loop simTimeS (Suc k) env n = (case ba_controlTimer (bn_app n) of
      None \<Rightarrow> Inr (n, [])
    | Some t \<Rightarrow> cpp_bind (bus_handleControlTimer simTimeS t env n) (\<lambda>(n1, e1).
        cpp_bind (bus_loop simTimeS k env n1) (\<lambda>(n2, e2). Inr (n2, e1 @ e2))))"

lemma bus_handleControlTimer_ready:
  assumes "bus_ready env n"
  shows "\<exists>n' effs. bus_handleControlTimer simTimeS now env n = Inr (n', effs) \<and> bus_ready env n'
    \<and> ba_controlTimer (bn_app n') = Some (now + simTimeS 1)
    \<and> ba_ConnectionToAP (bn_app n') = ba_ConnectionToAP (bn_app n) \<and> length (filter is_send effs) = 1"
proof -
  have ok: "node_ok n" and bus: "is_bus (be_externalId env)" using assms by (simp_all add: bus_ready_def)
  obtain c w where cw: "node_interface ''cellular'' n = Some c" "node_interface ''wlan0'' n = Some w"
    using assms by (auto simp: bus_ready_def)
  have "\<exists>x. node_interface (chosen_interface (ba_ConnectionToAP (bn_app n))) n = Some x"
    using cw by (simp add: chosen_interface_def)
  then obtain n' effs where r: "bus_controlInterface env n = Inr (n', effs)" "node_ok n'"
    "bn_app n' = fst (bus_subscribe env (bn_app n))"
    "node_interfaces n' = map (\<lambda>x. if ni_interfaceId x = ni_interfaceId c
       then fst (ni_setState (chosen_state (ba_ConnectionToAP (bn_app n))) c) else x) (node_interfaces n)"
    using bus_controlInterface_run[OF assms cw(1)] by blast
  have "node_interface name n' \<noteq> None" if "node_interface name n = Some x" for name x
    using node_interface_after[OF ok r(2) cw(1) that r(4)] by simp
  with cw r(2) bus have "bus_ready env (n'\<lparr>bn_app := a\<rparr>)" for a by (simp add: bus_ready_def node_ok_def node_interface_def)
  with r bus_controlInterface_sends[OF r(1) bus] show ?thesis by (simp add: bus_handleControlTimer_def)
qed

text \<open>
  C22. The control loop of a bus with both interfaces never fails: after any number of timer
  events the node is still ready, exactly that many reports have been sent, and the timer is set
  that many periods after its first time.
\<close>

theorem bus_control_loop:
  assumes "bus_ready env n" "ba_controlTimer (bn_app n) = Some t"
  shows "\<exists>n' effs. bus_loop simTimeS k env n = Inr (n', effs) \<and> bus_ready env n'
    \<and> length (filter is_send effs) = k \<and> ba_controlTimer (bn_app n') = Some (t + of_nat k * simTimeS 1)"
  using assms
proof (induction k arbitrary: n t)
  case 0
  then show ?case by simp
next
  case (Suc k)
  obtain n1 e1 where r: "bus_handleControlTimer simTimeS t env n = Inr (n1, e1)" "bus_ready env n1"
    "ba_controlTimer (bn_app n1) = Some (t + simTimeS 1)" "length (filter is_send e1) = 1"
    using bus_handleControlTimer_ready[OF Suc.prems(1), of simTimeS t] by blast
  from Suc.IH[OF r(2,3)] r(1,4) Suc.prems(2) show ?case by (auto simp: algebra_simps)
qed

lemma bus_control_loop_witness:
  "\<exists>n' effs. bus_loop id 5 ex_env (ex_node True\<lparr>bn_app := (bn_app (ex_node True))\<lparr>ba_controlTimer := Some 0\<rparr>\<rparr>) = Inr (n', effs)
     \<and> length (filter is_send effs) = 5"
proof -
  have "bus_ready ex_env (ex_node True\<lparr>bn_app := (bn_app (ex_node True))\<lparr>ba_controlTimer := Some 0\<rparr>\<rparr>)"
    using ex_node_ready[of True] by (simp add: bus_ready_def node_ok_def node_interface_def)
  from bus_control_loop[OF this, of 0 id 5] show ?thesis by auto
qed

section \<open>The interface table\<close>

text \<open>
  Interfaces keep their names and ids: on a well-formed table a new interface is appended under
  the next id, is found by that id and by its name, and ends the enumeration; deleting it again
  leaves the interfaces as they were, but its id is not given to the next one.
\<close>

theorem interface_table_add_delete:
  assumes "it_wf it" "it_addInterface Inr entry it = Inr (it1, sigs)"
  shows "\<exists>e. sigs = [Sig_Interface_Created e] \<and> it_wf it1 \<and> it_interfaces it1 = it_interfaces it @ [e]
    \<and> ni_interfaceName e = ni_interfaceName entry \<and> ni_interfaceId e = it_getBiggestInterfaceId it + 1
    \<and> it_getInterfaceById (ni_interfaceId e) it1 = Inr e \<and> it_findInterfaceByName (ni_interfaceName entry) it1 = Some e
    \<and> (\<exists>it1'. it_getInterface (int (length (it_interfaces it))) it1 = Inr (it1', ni_interfaceId e))
    \<and> (\<exists>it2. it_deleteInterface e it1 = Inr (it2, [Sig_Interface_Deleted e]) \<and> it_interfaces it2 = it_interfaces it
        \<and> it_wf it2 \<and> it_getBiggestInterfaceId it2 = ni_interfaceId e)"
proof -
  obtain e where e: "it_interfaces it1 = it_interfaces it @ [e]" "ni_interfaceId e = it_getBiggestInterfaceId it + 1"
    "ni_interfaceName e = ni_interfaceName entry" "sigs = [Sig_Interface_Created e]" "it_wf it1"
    using it_addInterface_Inr[OF assms(2,1)] by auto
  have ids: "it_ids_ok it1" using e(5) by (simp add: it_wf_def)
  have f: "it_findInterfaceById (ni_interfaceId e) it1 = Some e" using it_findInterfaceById_iff[OF ids] e(1) by simp
  obtain it2 where d: "it_deleteInterface e it1 = Inr (it2, [Sig_Interface_Deleted e])"
    "length (it_idToInterface it2) = length (it_idToInterface it1)"
    using f by (simp add: it_deleteInterface_def it_getInterfaceById_def)
  have l: "length (it_idToInterface it1) = Suc (length (it_idToInterface it))"
    using assms(2) by (auto simp: it_addInterface_def Let_def it_update_def split: if_splits)
  have "filter (\<lambda>x. ni_interfaceId x \<noteq> ni_interfaceId e) (it_interfaces it) = it_interfaces it"
  proof -
    have "ni_interfaceId x \<le> it_getBiggestInterfaceId it" if "x \<in> set (it_interfaces it)" for x
      using that assms(1) by (auto simp: it_wf_def it_getBiggestInterfaceId_def dest: it_ids_okD elim!: it_interfaces_index)
    then show ?thesis using e(2) by (fastforce simp: filter_id_conv)
  qed
  then have "it_interfaces it2 = it_interfaces it" "it_wf it2"
    using it_deleteInterface_Inr[OF d(1) e(5)] e(1) by simp_all
  moreover have "it_getBiggestInterfaceId it2 = ni_interfaceId e" using d(2) l e(2) by (simp add: it_getBiggestInterfaceId_def)
  ultimately show ?thesis using e f d(1) it_getInterface_correct[OF e(5)]
    by (intro exI[of _ e]) (simp add: it_getInterfaceById_def it_findInterfaceByName_iff nth_append)
qed

lemma interface_table_add_delete_witness:
  "\<exists>it1. it_addInterface Inr (ex_if 0 ''wlan0'' 1) it_new = Inr (it1, [Sig_Interface_Created (ex_if 100 ''wlan0'' 1)])
     \<and> it_findInterfaceByName ''wlan0'' it1 = Some (ex_if 100 ''wlan0'' 1)"
proof -
  obtain it1 where a: "it_addInterface Inr (ex_if 0 ''wlan0'' 1) it_new = Inr (it1, [Sig_Interface_Created (ex_if 100 ''wlan0'' 1)])"
    by (simp add: it_addInterface_def it_new_def it_findInterfaceByName_def it_find_def it_interfaces_def ex_if_def
        INTERFACEIDS_START_def Let_def)
  from interface_table_add_delete[OF it_wf_new a] a show ?thesis by (auto simp: ex_if_def)
qed

end
