(* ===== verification/Mgmt_Sta.thy ===== *)
theory Mgmt_Sta
  imports Agent_Sta
begin

text \<open>
  The 802.11 station management entity (\<open>Ieee80211MgmtSta.cc\<close>): it scans the channels, keeps the
  list of access points, authenticates and associates on the agent's request, and watches the
  beacons of the access point it is associated with. Frames and confirms it sends, radio commands and signals are
  outputs in the order the code makes them; the timers it holds pointers to are times in its
  state, and the self-messages of a scan are a list of pending timers. Frame lengths and
  supported rates are not modelled.
\<close>

section \<open>Frames\<close>

datatype status_code = SC_SUCCESSFUL | SC_AUTH_OUT_OF_SEQ | SC_OTHER int

definition RC_NONAUTH_ASS_REQUEST :: int where "RC_NONAUTH_ASS_REQUEST = 9"

text \<open>The bodies of the management frames; sequence numbers are \<open>unsigned short\<close>.\<close>

datatype mgmt_body =
    Authentication_Frame "16 word" status_code bool    \<comment> \<open>sequence number, status, is it the last\<close>
  | Deauthentication_Frame int
  | Disassociation_Frame int
  | Association_Request_Frame
  | Association_Response_Frame status_code
  | Reassociation_Request_Frame
  | Reassociation_Response_Frame status_code
  | Beacon_Frame string int simtime                    \<comment> \<open>SSID, channel, beacon interval\<close>
  | Probe_Request_Frame string
  | Probe_Response_Frame string int simtime
  | Unexpected_Frame

record mgmt_packet =
  mf_transmitter :: mac_address
  mf_address3 :: mac_address
  mf_body :: mgmt_body
  mf_signalPower :: "rat option"

section \<open>State\<close>

record ap_info =
  ap_channel :: int
  ap_address :: mac_address
  ap_ssid :: string
  ap_beaconInterval :: simtime
  ap_rxPower :: rat
  ap_isAuthenticated :: bool
  ap_authSeqExpected :: int
  ap_authTimeout :: "simtime option"

definition ap_info_new :: ap_info where
  "ap_info_new = \<lparr>ap_channel = -1, ap_address = 0, ap_ssid = [], ap_beaconInterval = 0, ap_rxPower = 0,
     ap_isAuthenticated = False, ap_authSeqExpected = -1, ap_authTimeout = None\<rparr>"

record scanning_info =
  sc_bssid :: mac_address
  sc_ssid :: string
  sc_activeScan :: bool
  sc_probeDelay :: simtime
  sc_channelList :: "int list"
  sc_currentChannelIndex :: int
  sc_busyChannelDetected :: bool
  sc_minChannelTime :: simtime
  sc_maxChannelTime :: simtime

datatype scan_timer = MK_SCAN_SENDPROBE | MK_SCAN_MINCHANNELTIME | MK_SCAN_MAXCHANNELTIME

text \<open>
  \<open>ms_isAssociated\<close>, \<open>ms_bssid\<close> and \<open>ms_ssid\<close> are the fields of the shared MIB; \<open>ms_assocTimeout\<close>
  holds the time and the access point (context pointer) of the association timer.
\<close>

record mgmt_sta =
  ms_numChannels :: int
  ms_isScanning :: bool
  ms_scanning :: scanning_info
  ms_scanTimers :: "(scan_timer \<times> simtime) list"
  ms_apList :: "ap_info list"
  ms_assocTimeout :: "(simtime \<times> mac_address) option"
  ms_assocAP :: ap_info
  ms_beaconTimeout :: "simtime option"
  ms_isAssociated :: bool
  ms_bssid :: mac_address
  ms_ssid :: string

datatype mgmt_effect =
    Send_Frame mgmt_body mac_address
  | Change_Channel int
  | Send_Confirm prim_confirm
  | Emit_L2_Beacon_Lost
  | Emit_L2_Associated mac_address
  | Subscribe_Reception_State
  | Unsubscribe_Reception_State

definition MAX_BEACONS_MISSED :: rat where "MAX_BEACONS_MISSED = 7/2"

section \<open>The list of access points\<close>

definition ms_lookupAP :: "mac_address \<Rightarrow> mgmt_sta \<Rightarrow> ap_info option" where
  "ms_lookupAP a ms = find (\<lambda>ap. ap_address ap = a) (ms_apList ms)"

text \<open>A write through the pointer of a list element: the first one with the address.\<close>

primrec update_first :: "('a \<Rightarrow> bool) \<Rightarrow> ('a \<Rightarrow> 'a) \<Rightarrow> 'a list \<Rightarrow> 'a list" where
  "update_first P f [] = []"
| "update_first P f (x # xs) = (if P x then f x # xs else x # update_first P f xs)"

definition ms_updateAP :: "mac_address \<Rightarrow> (ap_info \<Rightarrow> ap_info) \<Rightarrow> mgmt_sta \<Rightarrow> mgmt_sta" where
  "ms_updateAP a f ms = ms\<lparr>ms_apList := update_first (\<lambda>ap. ap_address ap = a) f (ms_apList ms)\<rparr>"

definition ms_clearAPList :: "mgmt_sta \<Rightarrow> mgmt_sta" where
  "ms_clearAPList ms = ms\<lparr>ms_apList := []\<rparr>"

text \<open>\<open>storeAPInfo\<close> enters the data of a beacon in the list; \<open>getTag\<close> throws when the packet carries no
  power indication.\<close>

definition ms_enterAP :: "mac_address \<Rightarrow> rat \<Rightarrow> string \<Rightarrow> int \<Rightarrow> simtime \<Rightarrow> mgmt_sta \<Rightarrow> mgmt_sta" where
  "ms_enterAP a p ssid chan interval ms =
     (let fill = (\<lambda>ap. ap\<lparr>ap_channel := chan, ap_address := a, ap_ssid := ssid,
                           ap_beaconInterval := interval, ap_rxPower := p\<rparr>)
      in (case ms_lookupAP a ms of
            None \<Rightarrow> ms\<lparr>ms_apList := ms_apList ms @ [fill ap_info_new]\<rparr>
          | Some _ \<Rightarrow> ms_updateAP a fill ms))"

definition ms_storeAPInfo ::
  "mac_address \<Rightarrow> rat option \<Rightarrow> string \<Rightarrow> int \<Rightarrow> simtime \<Rightarrow> mgmt_sta \<Rightarrow> mgmt_sta cpp" where
  "ms_storeAPInfo a signalPower ssid chan interval ms = (case signalPower of
      None \<Rightarrow> Inl (Runtime_Error ''Tag 'SignalPowerInd' is absent'')
    | Some p \<Rightarrow>
        (let ms1 = ms_enterAP a p ssid chan interval ms
         in Inr (if a = ap_address (ms_assocAP ms1)
                 then ms1\<lparr>ms_assocAP := (ms_assocAP ms1)\<lparr>ap_rxPower := p\<rparr>\<rparr> else ms1)))"

section \<open>Scanning\<close>

definition ms_scanNextChannel :: "simtime \<Rightarrow> mgmt_sta \<Rightarrow> (mgmt_sta \<times> mgmt_effect list \<times> bool) cpp" where
  "ms_scanNextChannel now ms =
     (let sc = ms_scanning ms
      in if sc_currentChannelIndex sc = int (length (sc_channelList sc)) - 1 then
           Inr (ms\<lparr>ms_isScanning := False\<rparr>, if sc_activeScan sc then [Unsubscribe_Reception_State] else [], True)
         else
           let i = sc_currentChannelIndex sc + 1
           in if i < 0 then Inl Undefined_Behaviour
              else cpp_bind (vec_idx (sc_channelList sc) (nat i)) (\<lambda>c.
                let timer = (if sc_activeScan sc then (MK_SCAN_SENDPROBE, now + sc_probeDelay sc)
                             else (MK_SCAN_MAXCHANNELTIME, now + sc_maxChannelTime sc))
                in Inr (ms\<lparr>ms_scanning := sc\<lparr>sc_currentChannelIndex := i, sc_busyChannelDetected := False\<rparr>,
                           ms_scanTimers := ms_scanTimers ms @ [timer]\<rparr>,
                        [Change_Channel c], False)))"

definition ms_sendProbeRequest :: "mgmt_sta \<Rightarrow> mgmt_effect list" where
  "ms_sendProbeRequest ms = [Send_Frame (Probe_Request_Frame (sc_ssid (ms_scanning ms))) (sc_bssid (ms_scanning ms))]"

definition ms_sendScanConfirm :: "mgmt_sta \<Rightarrow> mgmt_effect list" where
  "ms_sendScanConfirm ms = [Send_Confirm (Scan_Confirm PRC_SUCCESS
     (map (\<lambda>ap. \<lparr>bd_channelNumber = ap_channel ap, bd_BSSID = ap_address ap, bd_SSID = ap_ssid ap,
                 bd_beaconInterval = ap_beaconInterval ap, bd_rxPower = ap_rxPower ap\<rparr>) (ms_apList ms)))]"

definition ms_disassociate :: "mgmt_sta \<Rightarrow> mgmt_sta cpp" where
  "ms_disassociate ms =
     (if \<not> ms_isAssociated ms then Inl (Runtime_Error ''ASSERT: Condition 'isAssociated' does not hold'')
      else Inr (ms\<lparr>ms_isAssociated := False, ms_beaconTimeout := None, ms_assocAP := ap_info_new\<rparr>))"

definition ms_processScanCommand ::
  "simtime \<Rightarrow> scan_request \<Rightarrow> mgmt_sta \<Rightarrow> (mgmt_sta \<times> mgmt_effect list) cpp" where
  "ms_processScanCommand now req ms =
     (if ms_isScanning ms then Inl (Runtime_Error ''processScanCommand: scanning already in progress'')
      else
        cpp_bind (if ms_isAssociated ms then ms_disassociate ms
                  else Inr (ms\<lparr>ms_assocTimeout := None\<rparr>)) (\<lambda>ms1.
        let ms2 = ms_clearAPList ms1
        in if sr_BSSType req \<noteq> BSSTYPE_INFRASTRUCTURE then
             Inl (Runtime_Error ''ASSERT: Condition 'BSSType == INFRASTRUCTURE' does not hold'')
           else if sr_minChannelTime req > sr_maxChannelTime req then
             Inl (Runtime_Error ''ASSERT: Condition 'minChannelTime <= maxChannelTime' does not hold'')
           else
             let chans = (if sr_channelList req = [] then map int [0..<nat (ms_numChannels ms)] else sr_channelList req);
                 sc = (ms_scanning ms2)\<lparr>sc_bssid := if mac_isUnspecified (sr_BSSID req) then - 1 else sr_BSSID req,
                        sc_ssid := sr_SSID req, sc_activeScan := sr_activeScan req,
                        sc_probeDelay := sr_probeDelay req, sc_channelList := chans,
                        sc_minChannelTime := sr_minChannelTime req, sc_maxChannelTime := sr_maxChannelTime req,
                        sc_currentChannelIndex := -1\<rparr>
             in cpp_bind (ms_scanNextChannel now (ms2\<lparr>ms_scanning := sc, ms_isScanning := True\<rparr>)) (\<lambda>(ms3, effs, _).
                Inr (ms3, (if sr_activeScan req then [Subscribe_Reception_State] else []) @ effs))))"

section \<open>Authentication and association\<close>

definition ms_startAuthentication ::
  "simtime \<Rightarrow> ap_info \<Rightarrow> simtime \<Rightarrow> mgmt_sta \<Rightarrow> (mgmt_sta \<times> mgmt_effect list) cpp" where
  "ms_startAuthentication now ap timeout ms =
     (if ap_authTimeout ap \<noteq> None then
        Inl (Runtime_Error ''startAuthentication: authentication currently in progress'')
      else if ap_isAuthenticated ap then Inl (Runtime_Error ''startAuthentication: already authenticated'')
      else Inr (ms_updateAP (ap_address ap)
                  (\<lambda>x. x\<lparr>ap_authSeqExpected := 2, ap_authTimeout := Some (now + timeout)\<rparr>) ms,
                [Change_Channel (ap_channel ap),
                 Send_Frame (Authentication_Frame 1 SC_SUCCESSFUL False) (ap_address ap)]))"

definition ms_startAssociation ::
  "simtime \<Rightarrow> ap_info \<Rightarrow> simtime \<Rightarrow> mgmt_sta \<Rightarrow> (mgmt_sta \<times> mgmt_effect list) cpp" where
  "ms_startAssociation now ap timeout ms =
     (if ms_isAssociated ms \<or> ms_assocTimeout ms \<noteq> None then
        Inl (Runtime_Error ''startAssociation: already associated or association currently in progress'')
      else if \<not> ap_isAuthenticated ap then Inl (Runtime_Error ''startAssociation: not yet authenticated'')
      else Inr (ms\<lparr>ms_assocTimeout := Some (now + timeout, ap_address ap)\<rparr>,
                [Change_Channel (ap_channel ap), Send_Frame Association_Request_Frame (ap_address ap)]))"

definition ms_processAuthenticateCommand ::
  "simtime \<Rightarrow> mac_address \<Rightarrow> simtime \<Rightarrow> mgmt_sta \<Rightarrow> (mgmt_sta \<times> mgmt_effect list) cpp" where
  "ms_processAuthenticateCommand now a timeout ms = (case ms_lookupAP a ms of
      None \<Rightarrow> Inl (Runtime_Error ''processAuthenticateCommand: AP not known'')
    | Some ap \<Rightarrow> ms_startAuthentication now ap timeout ms)"

definition ms_processDeauthenticateCommand ::
  "mac_address \<Rightarrow> int \<Rightarrow> mgmt_sta \<Rightarrow> (mgmt_sta \<times> mgmt_effect list) cpp" where
  "ms_processDeauthenticateCommand a reason ms = (case ms_lookupAP a ms of
      None \<Rightarrow> Inl (Runtime_Error ''processDeauthenticateCommand: AP not known'')
    | Some ap \<Rightarrow>
        cpp_bind (if ms_isAssociated ms \<and> ap_address (ms_assocAP ms) = a then ms_disassociate ms else Inr ms) (\<lambda>ms1.
        Inr (ms_updateAP a (\<lambda>x. x\<lparr>ap_isAuthenticated := False, ap_authTimeout := None\<rparr>) ms1,
             [Send_Frame (Deauthentication_Frame reason) a])))"

definition ms_processAssociateCommand ::
  "simtime \<Rightarrow> mac_address \<Rightarrow> simtime \<Rightarrow> mgmt_sta \<Rightarrow> (mgmt_sta \<times> mgmt_effect list) cpp" where
  "ms_processAssociateCommand now a timeout ms = (case ms_lookupAP a ms of
      None \<Rightarrow> Inl (Runtime_Error ''processAssociateCommand: AP not known'')
    | Some ap \<Rightarrow> ms_startAssociation now ap timeout ms)"

definition ms_processReassociateCommand ::
  "simtime \<Rightarrow> mac_address \<Rightarrow> simtime \<Rightarrow> mgmt_sta \<Rightarrow> (mgmt_sta \<times> mgmt_effect list) cpp" where
  "ms_processReassociateCommand = ms_processAssociateCommand"

definition ms_processDisassociateCommand ::
  "mac_address \<Rightarrow> int \<Rightarrow> mgmt_sta \<Rightarrow> (mgmt_sta \<times> mgmt_effect list) cpp" where
  "ms_processDisassociateCommand a reason ms =
     cpp_bind (if ms_isAssociated ms \<and> a = ap_address (ms_assocAP ms) then ms_disassociate ms
               else Inr (ms\<lparr>ms_assocTimeout := None\<rparr>)) (\<lambda>ms1.
     Inr (ms1, [Send_Frame (Disassociation_Frame reason) a]))"

definition ms_handleCommand ::
  "simtime \<Rightarrow> prim_request \<Rightarrow> mgmt_sta \<Rightarrow> (mgmt_sta \<times> mgmt_effect list) cpp" where
  "ms_handleCommand now req ms = (case req of
      Scan_Request r \<Rightarrow> ms_processScanCommand now r ms
    | Authenticate_Request a t \<Rightarrow> ms_processAuthenticateCommand now a t ms
    | Deauthenticate_Request a r \<Rightarrow> ms_processDeauthenticateCommand a r ms
    | Associate_Request a t \<Rightarrow> ms_processAssociateCommand now a t ms
    | Reassociate_Request a t \<Rightarrow> ms_processReassociateCommand now a t ms
    | Disassociate_Request a r \<Rightarrow> ms_processDisassociateCommand a r ms)"

text \<open>The confirm of an association is sent without an address.\<close>

definition ms_sendAuthenticationConfirm :: "mac_address \<Rightarrow> prim_result_code \<Rightarrow> mgmt_effect list" where
  "ms_sendAuthenticationConfirm a rc = [Send_Confirm (Authenticate_Confirm rc a)]"

definition ms_sendAssociationConfirm :: "prim_result_code \<Rightarrow> mgmt_effect list" where
  "ms_sendAssociationConfirm rc = [Send_Confirm (Associate_Confirm rc 0)]"

definition ms_statusCodeToPrimResultCode :: "status_code \<Rightarrow> prim_result_code" where
  "ms_statusCodeToPrimResultCode s = (if s = SC_SUCCESSFUL then PRC_SUCCESS else PRC_REFUSED)"

section \<open>Frames received\<close>

definition ms_handleAuthenticationFrame ::
  "mac_address \<Rightarrow> 16 word \<Rightarrow> status_code \<Rightarrow> bool \<Rightarrow> mgmt_sta \<Rightarrow> mgmt_sta \<times> mgmt_effect list" where
  "ms_handleAuthenticationFrame a seq status isLast ms = (case ms_lookupAP a ms of
      None \<Rightarrow> (ms, [])
    | Some ap \<Rightarrow>
        if ap_isAuthenticated ap then (ms, [])
        else if ap_authTimeout ap = None then (ms, [])
        else if uint seq \<noteq> ap_authSeqExpected ap then
          (ms_updateAP a (\<lambda>x. x\<lparr>ap_authTimeout := None\<rparr>) ms,
           Send_Frame (Authentication_Frame 0 SC_AUTH_OUT_OF_SEQ False) a
             # ms_sendAuthenticationConfirm (ap_address ap) PRC_REFUSED)
        else if status = SC_SUCCESSFUL \<and> \<not> isLast then
          (ms_updateAP a (\<lambda>x. x\<lparr>ap_authSeqExpected := ap_authSeqExpected x + 2\<rparr>) ms,
           [Send_Frame (Authentication_Frame (of_int (uint seq + 1)) SC_SUCCESSFUL False) a])
        else
          (ms_updateAP a (\<lambda>x. x\<lparr>ap_isAuthenticated := (status = SC_SUCCESSFUL), ap_authTimeout := None\<rparr>) ms,
           ms_sendAuthenticationConfirm (ap_address ap) (ms_statusCodeToPrimResultCode status)))"

definition ms_handleDeauthenticationFrame :: "mac_address \<Rightarrow> mgmt_sta \<Rightarrow> mgmt_sta" where
  "ms_handleDeauthenticationFrame a3 ms = (case ms_lookupAP a3 ms of
      None \<Rightarrow> ms
    | Some ap \<Rightarrow>
        if \<not> ap_isAuthenticated ap then ms
        else if ap_authTimeout ap \<noteq> None then ms_updateAP a3 (\<lambda>x. x\<lparr>ap_authTimeout := None\<rparr>) ms
        else ms_updateAP a3 (\<lambda>x. x\<lparr>ap_isAuthenticated := False\<rparr>) ms)"

definition ms_handleAssociationResponseFrame ::
  "simtime \<Rightarrow> mac_address \<Rightarrow> status_code \<Rightarrow> mgmt_sta \<Rightarrow> (mgmt_sta \<times> mgmt_effect list) cpp" where
  "ms_handleAssociationResponseFrame now a status ms =
     (if ms_assocTimeout ms = None then Inr (ms, [])
      else case ms_lookupAP a ms of
        None \<Rightarrow> Inl (Runtime_Error ''handleAssociationResponseFrame: AP not known'')
      | Some ap \<Rightarrow>
          let ms1 = (if ms_isAssociated ms
                     then ms\<lparr>ms_isAssociated := False, ms_beaconTimeout := None, ms_assocAP := ap_info_new\<rparr> else ms);
              ms2 = ms1\<lparr>ms_assocTimeout := None\<rparr>;
              confirm = ms_sendAssociationConfirm (ms_statusCodeToPrimResultCode status)
          in if status \<noteq> SC_SUCCESSFUL then Inr (ms2, confirm)
             else Inr (ms2\<lparr>ms_ssid := ap_ssid ap, ms_bssid := ap_address ap, ms_isAssociated := True, ms_assocAP := ap,
                           ms_beaconTimeout := Some (now + MAX_BEACONS_MISSED * ap_beaconInterval ap)\<rparr>,
                       Emit_L2_Associated (ap_address ap) # confirm))"

definition ms_handleDisassociationFrame :: "mac_address \<Rightarrow> mgmt_sta \<Rightarrow> mgmt_sta" where
  "ms_handleDisassociationFrame a3 ms =
     (let ms1 = ms\<lparr>ms_assocTimeout := None\<rparr>
      in if \<not> ms_isAssociated ms1 \<or> a3 \<noteq> ap_address (ms_assocAP ms1) then ms1
         else ms1\<lparr>ms_isAssociated := False, ms_beaconTimeout := None\<rparr>)"

definition ms_handleBeaconFrame ::
  "simtime \<Rightarrow> mac_address \<Rightarrow> rat option \<Rightarrow> string \<Rightarrow> int \<Rightarrow> simtime \<Rightarrow> mgmt_sta \<Rightarrow> mgmt_sta cpp" where
  "ms_handleBeaconFrame now a signalPower ssid chan interval ms =
     cpp_bind (ms_storeAPInfo a signalPower ssid chan interval ms) (\<lambda>ms1.
     if ms_isAssociated ms1 \<and> a = ap_address (ms_assocAP ms1) then
       if ms_beaconTimeout ms1 = None then
         Inl (Runtime_Error ''ASSERT: Condition 'beaconTimeoutMsg != nullptr' does not hold'')
       else Inr (ms1\<lparr>ms_beaconTimeout := Some (now + MAX_BEACONS_MISSED * ap_beaconInterval (ms_assocAP ms1))\<rparr>)
     else Inr ms1)"

text \<open>\<open>processFrame\<close> of the base class; request frames are dropped by a station.\<close>

definition ms_processFrame :: "simtime \<Rightarrow> mgmt_packet \<Rightarrow> mgmt_sta \<Rightarrow> (mgmt_sta \<times> mgmt_effect list) cpp" where
  "ms_processFrame now pk ms = (case mf_body pk of
      Authentication_Frame seq st isLast \<Rightarrow> Inr (ms_handleAuthenticationFrame (mf_transmitter pk) seq st isLast ms)
    | Deauthentication_Frame _ \<Rightarrow> Inr (ms_handleDeauthenticationFrame (mf_address3 pk) ms, [])
    | Disassociation_Frame _ \<Rightarrow> Inr (ms_handleDisassociationFrame (mf_address3 pk) ms, [])
    | Association_Request_Frame \<Rightarrow> Inr (ms, [])
    | Association_Response_Frame st \<Rightarrow> ms_handleAssociationResponseFrame now (mf_transmitter pk) st ms
    | Reassociation_Request_Frame \<Rightarrow> Inr (ms, [])
    | Reassociation_Response_Frame _ \<Rightarrow> Inr (ms, [])
    | Beacon_Frame ssid c bi \<Rightarrow>
        cpp_bind (ms_handleBeaconFrame now (mf_transmitter pk) (mf_signalPower pk) ssid c bi ms) (\<lambda>ms1. Inr (ms1, []))
    | Probe_Request_Frame _ \<Rightarrow> Inr (ms, [])
    | Probe_Response_Frame ssid c bi \<Rightarrow>
        cpp_bind (ms_storeAPInfo (mf_transmitter pk) (mf_signalPower pk) ssid c bi ms) (\<lambda>ms1. Inr (ms1, []))
    | Unexpected_Frame \<Rightarrow> Inl (Runtime_Error ''Unexpected frame type''))"

section \<open>Timers and signals\<close>

datatype mgmt_timer =
    Auth_Timeout mac_address      \<comment> \<open>the access point of the context pointer\<close>
  | Assoc_Timeout
  | Scan_Timer scan_timer
  | Beacon_Timeout
  | Unknown_Timer

definition ms_popTimer :: "scan_timer \<Rightarrow> mgmt_sta \<Rightarrow> mgmt_sta" where
  "ms_popTimer k ms = ms\<lparr>ms_scanTimers := (case find (\<lambda>x. fst x = k) (ms_scanTimers ms) of
      None \<Rightarrow> ms_scanTimers ms | Some x \<Rightarrow> remove1 x (ms_scanTimers ms))\<rparr>"

definition ms_advanceScan :: "simtime \<Rightarrow> mgmt_sta \<Rightarrow> (mgmt_sta \<times> mgmt_effect list) cpp" where
  "ms_advanceScan now ms = cpp_bind (ms_scanNextChannel now ms) (\<lambda>(ms1, effs, done).
     Inr (ms1, effs @ (if done then ms_sendScanConfirm ms1 else [])))"

definition ms_handleTimer :: "simtime \<Rightarrow> mgmt_timer \<Rightarrow> mgmt_sta \<Rightarrow> (mgmt_sta \<times> mgmt_effect list) cpp" where
  "ms_handleTimer now timer ms = (case timer of
      Auth_Timeout a \<Rightarrow> Inr (ms, ms_sendAuthenticationConfirm a PRC_TIMEOUT)
    | Assoc_Timeout \<Rightarrow> Inr (ms, ms_sendAssociationConfirm PRC_TIMEOUT)
    | Scan_Timer k \<Rightarrow>
        (let ms1 = ms_popTimer k ms in (case k of
           MK_SCAN_MAXCHANNELTIME \<Rightarrow> ms_advanceScan now ms1
         | MK_SCAN_SENDPROBE \<Rightarrow>
             Inr (ms1\<lparr>ms_scanTimers := ms_scanTimers ms1 @ [(MK_SCAN_MINCHANNELTIME, now + sc_minChannelTime (ms_scanning ms1))]\<rparr>,
                  ms_sendProbeRequest ms1)
         | MK_SCAN_MINCHANNELTIME \<Rightarrow>
             if sc_busyChannelDetected (ms_scanning ms1) then
               Inr (ms1\<lparr>ms_scanTimers := ms_scanTimers ms1
                          @ [(MK_SCAN_MAXCHANNELTIME, now + (sc_maxChannelTime (ms_scanning ms1) - sc_minChannelTime (ms_scanning ms1)))]\<rparr>, [])
             else ms_advanceScan now ms1))
    | Beacon_Timeout \<Rightarrow> Inr (ms, [Emit_L2_Beacon_Lost])
    | Unknown_Timer \<Rightarrow> Inl (Runtime_Error ''internal error: unrecognized timer''))"

datatype reception_state = RECEPTION_STATE_UNDEFINED | RECEPTION_STATE_IDLE | RECEPTION_STATE_BUSY | RECEPTION_STATE_RECEIVING

definition ms_receiveSignal :: "reception_state \<Rightarrow> mgmt_sta \<Rightarrow> mgmt_sta" where
  "ms_receiveSignal s ms =
     (if s \<noteq> RECEPTION_STATE_UNDEFINED \<and> s \<noteq> RECEPTION_STATE_IDLE
      then ms\<lparr>ms_scanning := (ms_scanning ms)\<lparr>sc_busyChannelDetected := True\<rparr>\<rparr> else ms)"

end
