(* ===== verification/Wlan_Station.thy ===== *)
theory Wlan_Station
  imports Mgmt_Sta Bus_App
begin

text \<open>
  The 802.11 part of a bus: the management entity, the agent and the application, with the
  messages between the first two in a queue (their gates have no delay) and the signals delivered
  at once. A step delivers the head of the queue; when the queue is empty a frame arrives, a
  pending timer goes off, the radio changes its reception state, or the agent starts.
\<close>

section \<open>State\<close>

datatype station_msg = To_Agent prim_confirm | To_Mgmt prim_request

record station =
  st_mgmt :: mgmt_sta
  st_agent :: agent_sta
  st_app :: bus_app
  st_queue :: "station_msg list"
  st_started :: bool    \<comment> \<open>the start-up message of the agent has been handled\<close>

section \<open>Effects\<close>

fun requests :: "agent_effect list \<Rightarrow> prim_request list" where
  "requests [] = []"
| "requests (Send_Request r # es) = r # requests es"
| "requests (_ # es) = requests es"

definition st_agentEffects :: "agent_sta \<times> agent_effect list \<Rightarrow> station \<Rightarrow> station" where
  "st_agentEffects r s = s\<lparr>st_agent := fst r, st_app := bus_hear (snd r) (st_app s),
     st_queue := st_queue s @ map To_Mgmt (requests (snd r))\<rparr>"

fun st_mgmtEffects :: "mgmt_effect list \<Rightarrow> station \<Rightarrow> station" where
  "st_mgmtEffects [] s = s"
| "st_mgmtEffects (Send_Confirm c # es) s = st_mgmtEffects es (s\<lparr>st_queue := st_queue s @ [To_Agent c]\<rparr>)"
| "st_mgmtEffects (Emit_L2_Beacon_Lost # es) s =
     st_mgmtEffects es (st_agentEffects (ag_receiveSignal L2_Beacon_Lost (st_agent s)) s)"
| "st_mgmtEffects (_ # es) s = st_mgmtEffects es s"

section \<open>Steps\<close>

definition st_deliver :: "simtime \<Rightarrow> station_msg \<Rightarrow> station \<Rightarrow> station cpp" where
  "st_deliver now m s = (case m of
      To_Agent c \<Rightarrow> cpp_bind (ag_handleResponse c (st_agent s)) (\<lambda>r. Inr (st_agentEffects r s))
    | To_Mgmt r \<Rightarrow> cpp_bind (ms_handleCommand now r (st_mgmt s)) (\<lambda>(ms, effs).
        Inr (st_mgmtEffects effs (s\<lparr>st_mgmt := ms\<rparr>))))"

datatype station_input =
    Startup
  | Frame mgmt_packet
  | Mgmt_Timer mgmt_timer
  | Reception reception_state

text \<open>A timer can go off only while it is pending.\<close>

definition timer_pending :: "mgmt_timer \<Rightarrow> mgmt_sta \<Rightarrow> bool" where
  "timer_pending t ms = (case t of
      Auth_Timeout a \<Rightarrow> list_ex (\<lambda>ap. ap_address ap = a \<and> ap_authTimeout ap \<noteq> None) (ms_apList ms)
    | Assoc_Timeout \<Rightarrow> ms_assocTimeout ms \<noteq> None
    | Scan_Timer k \<Rightarrow> k \<in> fst ` set (ms_scanTimers ms)
    | Beacon_Timeout \<Rightarrow> ms_beaconTimeout ms \<noteq> None
    | Unknown_Timer \<Rightarrow> False)"

definition st_input :: "simtime \<Rightarrow> station_input \<Rightarrow> station \<Rightarrow> station cpp" where
  "st_input now i s = (case i of
      Startup \<Rightarrow> cpp_bind (ag_handleTimer MK_STARTUP (st_agent s)) (\<lambda>r.
        Inr (st_agentEffects r (s\<lparr>st_started := True\<rparr>)))
    | Frame pk \<Rightarrow> cpp_bind (ms_processFrame now pk (st_mgmt s)) (\<lambda>(ms, effs).
        Inr (st_mgmtEffects effs (s\<lparr>st_mgmt := ms\<rparr>)))
    | Mgmt_Timer t \<Rightarrow> cpp_bind (ms_handleTimer now t (st_mgmt s)) (\<lambda>(ms, effs).
        Inr (st_mgmtEffects effs (s\<lparr>st_mgmt := ms\<rparr>)))
    | Reception r \<Rightarrow> Inr (s\<lparr>st_mgmt := ms_receiveSignal r (st_mgmt s)\<rparr>))"

definition input_enabled :: "station_input \<Rightarrow> station \<Rightarrow> bool" where
  "input_enabled i s = (case i of
      Startup \<Rightarrow> \<not> st_started s
    | Mgmt_Timer t \<Rightarrow> timer_pending t (st_mgmt s)
    | _ \<Rightarrow> True)"

text \<open>\<open>ok\<close> restricts the inputs of a run.\<close>

inductive st_step :: "(station_input \<Rightarrow> bool) \<Rightarrow> station \<Rightarrow> station \<Rightarrow> bool" for ok where
  deliver: "st_queue s = m # q \<Longrightarrow> st_deliver now m (s\<lparr>st_queue := q\<rparr>) = Inr s' \<Longrightarrow> st_step ok s s'"
| input: "st_queue s = [] \<Longrightarrow> ok i \<Longrightarrow> input_enabled i s \<Longrightarrow> st_input now i s = Inr s' \<Longrightarrow> st_step ok s s'"

inductive_cases st_stepE: "st_step ok s s'"

inductive st_reachable :: "(station_input \<Rightarrow> bool) \<Rightarrow> station \<Rightarrow> station \<Rightarrow> bool" for ok s0 where
  here: "st_reachable ok s0 s0"
| there: "st_reachable ok s0 s \<Longrightarrow> st_step ok s s' \<Longrightarrow> st_reachable ok s0 s'"

definition is_disassociation :: "station_input \<Rightarrow> bool" where
  "is_disassociation i = (case i of
      Frame pk \<Rightarrow> (case mf_body pk of Disassociation_Frame _ \<Rightarrow> True | _ \<Rightarrow> False)
    | _ \<Rightarrow> False)"

section \<open>What the handlers do to the control state\<close>

text \<open>
  The part of the state the protocol depends on: of each access point its address and the two
  authentication fields.
\<close>

type_synonym ap_key = "mac_address \<times> bool \<times> simtime option"

definition ap_key :: "ap_info \<Rightarrow> ap_key" where
  "ap_key ap = (ap_address ap, ap_isAuthenticated ap, ap_authTimeout ap)"

definition ms_keys :: "mgmt_sta \<Rightarrow> ap_key list" where
  "ms_keys ms = map ap_key (ms_apList ms)"

definition keys_ok :: "mgmt_sta \<Rightarrow> bool" where
  "keys_ok ms = distinct (map fst (ms_keys ms))"

lemma update_first_map:
  "distinct (map f xs) \<Longrightarrow> update_first (\<lambda>x. f x = a) g xs = map (\<lambda>x. if f x = a then g x else x) xs"
proof (induction xs)
  case (Cons x xs)
  show ?case
  proof (cases "f x = a")
    case True
    have "f x \<notin> f ` set xs" using Cons.prems by simp
    then have "\<forall>y \<in> set xs. f y \<noteq> a" using True by (auto simp: image_iff)
    then have "map (\<lambda>y. if f y = a then g y else y) xs = xs" by (intro map_idI) auto
    with True show ?thesis by simp
  next
    case False
    with Cons show ?thesis by simp
  qed
qed simp

lemma ms_updateAP_fields [simp]:
  "ms_isScanning (ms_updateAP a f ms) = ms_isScanning ms"
  "ms_scanTimers (ms_updateAP a f ms) = ms_scanTimers ms"
  "ms_scanning (ms_updateAP a f ms) = ms_scanning ms"
  "ms_assocTimeout (ms_updateAP a f ms) = ms_assocTimeout ms"
  "ms_beaconTimeout (ms_updateAP a f ms) = ms_beaconTimeout ms"
  "ms_isAssociated (ms_updateAP a f ms) = ms_isAssociated ms"
  "ms_assocAP (ms_updateAP a f ms) = ms_assocAP ms"
  "ms_numChannels (ms_updateAP a f ms) = ms_numChannels ms"
  by (simp_all add: ms_updateAP_def)

lemma ms_keys_updateAP:
  assumes "keys_ok ms" "\<And>x. ap_address (f x) = ap_address x"
  shows "ms_keys (ms_updateAP a f ms) =
    map (\<lambda>x. if ap_address x = a then ap_key (f x) else ap_key x) (ms_apList ms)"
proof -
  have "distinct (map ap_address (ms_apList ms))" using assms(1) by (simp add: keys_ok_def ms_keys_def ap_key_def comp_def)
  then show ?thesis by (simp add: ms_keys_def ms_updateAP_def update_first_map)
qed

lemma keys_ok_updateAP:
  assumes "keys_ok ms" "\<And>x. ap_address (f x) = ap_address x"
  shows "keys_ok (ms_updateAP a f ms)"
proof -
  have "map fst (ms_keys (ms_updateAP a f ms)) = map fst (ms_keys ms)"
    unfolding ms_keys_updateAP[OF assms] by (simp add: ms_keys_def ap_key_def assms(2))
  with assms(1) show ?thesis by (simp add: keys_ok_def)
qed

lemma ms_lookupAP_Some:
  "ms_lookupAP a ms = Some ap \<Longrightarrow> ap \<in> set (ms_apList ms) \<and> ap_address ap = a"
  by (auto simp: ms_lookupAP_def find_Some_iff)

lemma ms_lookupAP_unique:
  assumes "keys_ok ms" "ap \<in> set (ms_apList ms)"
  shows "ms_lookupAP (ap_address ap) ms = Some ap"
proof -
  have "ms_lookupAP (ap_address ap) ms \<noteq> None" using assms(2) by (auto simp: ms_lookupAP_def find_None_iff)
  then obtain x where x: "ms_lookupAP (ap_address ap) ms = Some x" by blast
  have "distinct (map ap_address (ms_apList ms))" using assms(1) by (simp add: keys_ok_def ms_keys_def ap_key_def comp_def)
  with ms_lookupAP_Some[OF x] assms(2) have "x = ap" by (auto simp: distinct_map inj_on_def)
  with x show ?thesis by simp
qed

text \<open>Two ways a write changes the keys.\<close>

lemma ms_keys_same:
  assumes "keys_ok ms" "\<And>x. ap_key (f x) = ap_key x"
  shows "ms_keys (ms_updateAP a f ms) = ms_keys ms"
proof -
  have "ap_address (f x) = ap_address x" for x using assms(2)[of x] by (simp add: ap_key_def)
  from ms_keys_updateAP[OF assms(1) this] show ?thesis unfolding ms_keys_def by (simp add: assms(2))
qed

lemma ms_keys_set:
  assumes "keys_ok ms" "\<And>x. ap_key (f x) = (ap_address x, g (snd (ap_key x)))"
  shows "ms_keys (ms_updateAP a f ms) = map (\<lambda>k. if fst k = a then (a, g (snd k)) else k) (ms_keys ms)"
proof -
  have "ap_address (f x) = ap_address x" for x using assms(2)[of x] by (simp add: ap_key_def)
  from ms_keys_updateAP[OF assms(1) this] show ?thesis
    unfolding ms_keys_def by (auto simp: assms(2)) (auto simp: ap_key_def)
qed

text \<open>The part of the state outside the list.\<close>

definition same_control :: "mgmt_sta \<Rightarrow> mgmt_sta \<Rightarrow> bool" where
  "same_control ms ms' = (ms_numChannels ms' = ms_numChannels ms \<and> ms_isScanning ms' = ms_isScanning ms \<and> ms_scanTimers ms' = ms_scanTimers ms
     \<and> ms_scanning ms' = ms_scanning ms \<and> ms_assocTimeout ms' = ms_assocTimeout ms
     \<and> ms_isAssociated ms' = ms_isAssociated ms \<and> (ms_beaconTimeout ms' = None) = (ms_beaconTimeout ms = None))"

lemma ms_enterAP_keys:
  assumes "keys_ok ms"
  shows "keys_ok (ms_enterAP a p ssid c bi ms) \<and> same_control ms (ms_enterAP a p ssid c bi ms)
    \<and> (ms_keys (ms_enterAP a p ssid c bi ms) = ms_keys ms
       \<or> ms_keys (ms_enterAP a p ssid c bi ms) = ms_keys ms @ [(a, False, None)])"
proof (cases "ms_lookupAP a ms")
  case None
  then have "a \<notin> fst ` set (ms_keys ms)" by (auto simp: ms_lookupAP_def find_None_iff ms_keys_def ap_key_def)
  moreover have "ms_keys (ms_enterAP a p ssid c bi ms) = ms_keys ms @ [(a, False, None)]"
    using None by (simp add: ms_enterAP_def ms_keys_def ap_key_def ap_info_new_def)
  moreover have "same_control ms (ms_enterAP a p ssid c bi ms)" using None by (simp add: ms_enterAP_def same_control_def)
  ultimately show ?thesis using assms by (simp add: keys_ok_def)
next
  case (Some y)
  let ?f = "\<lambda>ap. ap\<lparr>ap_channel := c, ap_address := a, ap_ssid := ssid, ap_beaconInterval := bi, ap_rxPower := p\<rparr>"
  have "distinct (map ap_address (ms_apList ms))" using assms by (simp add: keys_ok_def ms_keys_def ap_key_def comp_def)
  then have "ms_keys (ms_updateAP a ?f ms) = ms_keys ms"
    by (auto simp: ms_keys_def ms_updateAP_def update_first_map ap_key_def)
  with Some assms show ?thesis by (simp add: ms_enterAP_def keys_ok_def same_control_def)
qed

lemma ms_storeAPInfo_keys:
  assumes "ms_storeAPInfo a p ssid c bi ms = Inr ms'" "keys_ok ms"
  shows "keys_ok ms' \<and> same_control ms ms' \<and> (ms_keys ms' = ms_keys ms \<or> ms_keys ms' = ms_keys ms @ [(a, False, None)])"
proof -
  from assms(1) obtain x where p: "p = Some x" by (auto simp: ms_storeAPInfo_def split: option.splits)
  from assms(1) have "ms_keys ms' = ms_keys (ms_enterAP a x ssid c bi ms)" "same_control (ms_enterAP a x ssid c bi ms) ms'"
    by (auto simp: ms_storeAPInfo_def p Let_def ms_keys_def same_control_def split: if_splits)
  with ms_enterAP_keys[OF assms(2), of a x ssid c bi] show ?thesis by (simp add: keys_ok_def same_control_def)
qed

section \<open>Scanning\<close>

definition quiet :: "mgmt_sta \<Rightarrow> bool" where
  "quiet ms = (\<not> ms_isScanning ms \<and> ms_scanTimers ms = [])"

definition scan_index_ok :: "mgmt_sta \<Rightarrow> bool" where
  "scan_index_ok ms = (0 \<le> sc_currentChannelIndex (ms_scanning ms)
     \<and> sc_currentChannelIndex (ms_scanning ms) < int (length (sc_channelList (ms_scanning ms))))"

definition scanning :: "mgmt_sta \<Rightarrow> bool" where
  "scanning ms = (ms_isScanning ms \<and> length (ms_scanTimers ms) = 1 \<and> scan_index_ok ms)"

definition outside :: "mgmt_sta \<Rightarrow> bool" where
  "outside ms = (\<not> ms_isAssociated ms \<and> ms_assocTimeout ms = None \<and> ms_beaconTimeout ms = None)"

definition scan_request_ok :: "scan_request \<Rightarrow> bool" where
  "scan_request_ok r = (sr_BSSType r = BSSTYPE_INFRASTRUCTURE \<and> sr_minChannelTime r \<le> sr_maxChannelTime r)"

text \<open>Effects that neither send a confirm nor report a lost beacon leave the rest of the station alone.\<close>

fun silent :: "mgmt_effect \<Rightarrow> bool" where
  "silent (Send_Confirm _) = False"
| "silent Emit_L2_Beacon_Lost = False"
| "silent _ = True"

lemma st_mgmtEffects_silent: "list_all silent es \<Longrightarrow> st_mgmtEffects (es @ fs) s = st_mgmtEffects fs s"
proof (induction es)
  case (Cons e es)
  then show ?case by (cases e) simp_all
qed simp

lemma st_mgmtEffects_silent_only: "list_all silent es \<Longrightarrow> st_mgmtEffects es s = s"
  using st_mgmtEffects_silent[of es "[]" s] by simp

text \<open>The next channel: another timer, or the end of the scan.\<close>

lemma ms_scanNextChannel_cases:
  assumes "ms_scanTimers ms = []" "- 1 \<le> sc_currentChannelIndex (ms_scanning ms)"
    and "sc_currentChannelIndex (ms_scanning ms) < int (length (sc_channelList (ms_scanning ms)))"
    and "ms_isScanning ms"
  shows "\<exists>ms' effs b. ms_scanNextChannel now ms = Inr (ms', effs, b) \<and> list_all silent effs
    \<and> ms_numChannels ms' = ms_numChannels ms \<and> ms_apList ms' = ms_apList ms \<and> ms_assocTimeout ms' = ms_assocTimeout ms \<and> ms_isAssociated ms' = ms_isAssociated ms
    \<and> ms_beaconTimeout ms' = ms_beaconTimeout ms \<and> (if b then quiet ms' else scanning ms')
    \<and> (b \<longleftrightarrow> sc_currentChannelIndex (ms_scanning ms) = int (length (sc_channelList (ms_scanning ms))) - 1)"
  using assms
  by (cases "sc_currentChannelIndex (ms_scanning ms) = int (length (sc_channelList (ms_scanning ms))) - 1")
    (auto simp: ms_scanNextChannel_def Let_def quiet_def scanning_def scan_index_ok_def vec_idx_def)

lemma ms_processScanCommand_ok:
  assumes "quiet ms" "scan_request_ok r" "ms_isAssociated ms \<longrightarrow> ms_assocTimeout ms = None"
    and "ms_isAssociated ms \<or> ms_beaconTimeout ms = None" "0 < ms_numChannels ms"
  shows "\<exists>ms' effs. ms_processScanCommand now r ms = Inr (ms', effs) \<and> list_all silent effs
    \<and> scanning ms' \<and> outside ms' \<and> ms_apList ms' = [] \<and> ms_numChannels ms' = ms_numChannels ms"
proof -
  let ?ms1 = "if ms_isAssociated ms then ms\<lparr>ms_isAssociated := False, ms_beaconTimeout := None, ms_assocAP := ap_info_new\<rparr>
    else ms\<lparr>ms_assocTimeout := None\<rparr>"
  let ?ms2 = "ms_clearAPList ?ms1"
  let ?chans = "if sr_channelList r = [] then map int [0..<nat (ms_numChannels ms)] else sr_channelList r"
  let ?sc = "(ms_scanning ?ms2)\<lparr>sc_bssid := if mac_isUnspecified (sr_BSSID r) then - 1 else sr_BSSID r,
      sc_ssid := sr_SSID r, sc_activeScan := sr_activeScan r, sc_probeDelay := sr_probeDelay r,
      sc_channelList := ?chans, sc_minChannelTime := sr_minChannelTime r,
      sc_maxChannelTime := sr_maxChannelTime r, sc_currentChannelIndex := -1\<rparr>"
  let ?ms3 = "?ms2\<lparr>ms_scanning := ?sc, ms_isScanning := True\<rparr>"
  have ne: "?chans \<noteq> []" using assms(5) by simp
  have "\<exists>ms' effs b. ms_scanNextChannel now ?ms3 = Inr (ms', effs, b) \<and> list_all silent effs
    \<and> ms_numChannels ms' = ms_numChannels ?ms3
    \<and> ms_apList ms' = ms_apList ?ms3 \<and> ms_assocTimeout ms' = ms_assocTimeout ?ms3 \<and> ms_isAssociated ms' = ms_isAssociated ?ms3
    \<and> ms_beaconTimeout ms' = ms_beaconTimeout ?ms3 \<and> (if b then quiet ms' else scanning ms')
    \<and> (b \<longleftrightarrow> sc_currentChannelIndex (ms_scanning ?ms3) = int (length (sc_channelList (ms_scanning ?ms3))) - 1)"
  proof (rule ms_scanNextChannel_cases)
    show "ms_scanTimers ?ms3 = []" using assms(1) by (simp add: quiet_def ms_clearAPList_def)
  qed (use ne in \<open>simp_all split del: if_split\<close>)
  then obtain ms' effs b where n: "ms_scanNextChannel now ?ms3 = Inr (ms', effs, b)" "list_all silent effs"
    "ms_apList ms' = ms_apList ?ms3" "ms_assocTimeout ms' = ms_assocTimeout ?ms3" "ms_isAssociated ms' = ms_isAssociated ?ms3"
    "ms_beaconTimeout ms' = ms_beaconTimeout ?ms3" "if b then quiet ms' else scanning ms'"
    "b \<longleftrightarrow> sc_currentChannelIndex (ms_scanning ?ms3) = int (length (sc_channelList (ms_scanning ?ms3))) - 1"
    "ms_numChannels ms' = ms_numChannels ?ms3"
    by blast
  have "\<not> b" using n(8) ne by (simp split del: if_split)
  moreover have "ms_processScanCommand now r ms = Inr (ms', (if sr_activeScan r then [Subscribe_Reception_State] else []) @ effs)"
    using assms(1,2) n(1)
    by (cases "ms_isAssociated ms")
      (simp_all add: ms_processScanCommand_def quiet_def ms_disassociate_def scan_request_ok_def Let_def ms_clearAPList_def)
  ultimately show ?thesis using n assms(3,4) by (auto simp: outside_def ms_clearAPList_def)
qed

end
