(* ===== verification/Wlan_Invariant.thy ===== *)
theory Wlan_Invariant
  imports Wlan_Station
begin

text \<open>
  An invariant of the station of \<open>Wlan_Station\<close>: at most one message is on its way between agent and
  management entity, and the states of the two fit the message, or, when there is none, one
  of five phases (before the start, scanning, authenticating, associating, associated). It is
  kept by every delivery, which never fails, and by every input except a disassociation frame.
\<close>

section \<open>Phases\<close>

definition ms_ok :: "mgmt_sta \<Rightarrow> bool" where
  "ms_ok ms = (keys_ok ms \<and> 0 < ms_numChannels ms \<and> (ms_isAssociated ms \<longleftrightarrow> ms_beaconTimeout ms \<noteq> None)
     \<and> (ms_isAssociated ms \<longrightarrow> ms_assocTimeout ms = None))"

definition fresh :: "mgmt_sta \<Rightarrow> bool" where
  "fresh ms = list_all (\<lambda>k. snd k = (False, None)) (ms_keys ms)"

definition timers_off :: "mgmt_sta \<Rightarrow> bool" where
  "timers_off ms = list_all (\<lambda>k. snd (snd k) = None) (ms_keys ms)"

definition authenticating :: "mac_address \<Rightarrow> mgmt_sta \<Rightarrow> bool" where
  "authenticating a ms = (a \<in> fst ` set (ms_keys ms)
     \<and> list_all (\<lambda>k. if fst k = a then \<not> fst (snd k) \<and> snd (snd k) \<noteq> None else snd k = (False, None)) (ms_keys ms))"

text \<open>The management entity when no message is on its way; the last argument is the flag of the application.\<close>

definition at_rest :: "mgmt_sta \<Rightarrow> bool \<Rightarrow> bool \<Rightarrow> bool" where
  "at_rest ms started flag = (ms_ok ms \<and>
     (scanning ms \<and> outside ms \<and> fresh ms \<and> started \<and> \<not> flag
      \<or> quiet ms \<and> outside ms \<and> fresh ms \<and> \<not> started \<and> \<not> flag
      \<or> quiet ms \<and> outside ms \<and> (\<exists>a. authenticating a ms) \<and> started \<and> \<not> flag
      \<or> quiet ms \<and> \<not> ms_isAssociated ms \<and> ms_assocTimeout ms \<noteq> None \<and> timers_off ms \<and> started \<and> \<not> flag
      \<or> quiet ms \<and> ms_isAssociated ms \<and> timers_off ms \<and> started \<and> flag))"

definition confirm_ok :: "prim_confirm \<Rightarrow> mgmt_sta \<Rightarrow> bool" where
  "confirm_ok c ms = (case c of
      Scan_Confirm _ bss \<Rightarrow> outside ms \<and> fresh ms \<and> map bd_BSSID bss = map fst (ms_keys ms)
    | Authenticate_Confirm rc a \<Rightarrow>
        outside ms \<and> (rc = PRC_SUCCESS \<longrightarrow> timers_off ms \<and> (a, True, None) \<in> set (ms_keys ms))
    | Associate_Confirm rc a \<Rightarrow>
        a = 0 \<and> (if rc = PRC_SUCCESS then ms_isAssociated ms \<and> timers_off ms else \<not> ms_isAssociated ms)
    | _ \<Rightarrow> False)"

definition request_ok :: "prim_request \<Rightarrow> mgmt_sta \<Rightarrow> bool" where
  "request_ok r ms = (case r of
      Scan_Request q \<Rightarrow> scan_request_ok q
    | Authenticate_Request a _ \<Rightarrow> outside ms \<and> fresh ms \<and> a \<in> fst ` set (ms_keys ms)
    | Associate_Request a _ \<Rightarrow> outside ms \<and> timers_off ms \<and> (a, True, None) \<in> set (ms_keys ms)
    | _ \<Rightarrow> False)"

definition message_ok :: "station_msg \<Rightarrow> mgmt_sta \<Rightarrow> bool" where
  "message_ok m ms = (case m of To_Agent c \<Rightarrow> confirm_ok c ms | To_Mgmt r \<Rightarrow> request_ok r ms)"

text \<open>The parameters of the agent that a scan depends on.\<close>

definition agent_ok :: "agent_sta \<Rightarrow> bool" where
  "agent_ok ag = (ag_prevAP ag = 0 \<and> ag_minChannelTime ag \<le> ag_maxChannelTime ag)"

abbreviation st_flag :: "station \<Rightarrow> bool" where
  "st_flag s \<equiv> ba_ConnectionToAP (st_app s)"

definition station_ok :: "station \<Rightarrow> bool" where
  "station_ok s = (agent_ok (st_agent s) \<and> ba_haveForwarded (st_app s) \<and>
     (case st_queue s of
        [] \<Rightarrow> at_rest (st_mgmt s) (st_started s) (st_flag s)
      | [m] \<Rightarrow> st_started s \<and> \<not> st_flag s \<and> ms_ok (st_mgmt s) \<and> quiet (st_mgmt s) \<and> message_ok m (st_mgmt s)
      | _ \<Rightarrow> False))"

lemma station_okI_rest:
  "agent_ok (st_agent s) \<Longrightarrow> ba_haveForwarded (st_app s) \<Longrightarrow> st_queue s = [] \<Longrightarrow>
     at_rest (st_mgmt s) (st_started s) (st_flag s) \<Longrightarrow> station_ok s"
  by (simp add: station_ok_def)

lemma station_okI_message:
  "agent_ok (st_agent s) \<Longrightarrow> ba_haveForwarded (st_app s) \<Longrightarrow> st_queue s = [m] \<Longrightarrow> st_started s \<Longrightarrow> \<not> st_flag s \<Longrightarrow>
     ms_ok (st_mgmt s) \<Longrightarrow> quiet (st_mgmt s) \<Longrightarrow> message_ok m (st_mgmt s) \<Longrightarrow> station_ok s"
  by (simp add: station_ok_def)

section \<open>The agent\<close>

text \<open>What an agent effect list does to the station when it holds one request and no announcement.\<close>

lemma st_agentEffects_one:
  "requests effs = [r] \<Longrightarrow> \<forall>b. Emit_State_Association b \<notin> set effs \<Longrightarrow>
     st_agentEffects (ag, effs) s = s\<lparr>st_agent := ag, st_queue := st_queue s @ [To_Mgmt r]\<rparr>"
  by (simp add: st_agentEffects_def bus_hear_quiet)

lemma requests_append: "requests (es @ fs) = requests es @ requests fs"
  by (induction es rule: requests.induct) auto

lemma scan_request_sent:
  "agent_ok ag \<Longrightarrow> \<exists>q. requests (ag_sendScanRequest ag) = [Scan_Request q] \<and> scan_request_ok q"
  by (simp add: ag_sendScanRequest_def agent_ok_def scan_request_ok_def)

lemma no_announcement [simp]: "Emit_State_Association b \<notin> set (ag_sendScanRequest ag)"
  by (simp add: ag_sendScanRequest_def)

text \<open>Every confirm but that of a successful association ends in one request that fits.\<close>

lemma ag_handleResponse_request:
  assumes "agent_ok ag" "confirm_ok c ms" "\<forall>a. c \<noteq> Associate_Confirm PRC_SUCCESS a"
  shows "\<exists>effs r. ag_handleResponse c ag = Inr (ag, effs) \<and> requests effs = [r]
    \<and> (\<forall>b. Emit_State_Association b \<notin> set effs) \<and> request_ok r ms"
proof (cases c)
  case (Scan_Confirm rc bss)
  let ?i = "if ag_defaultSsid ag = [] then ag_chooseBSS bss else ag_findSsid (ag_defaultSsid ag) bss"
  have "?i = - 1 \<or> (\<exists>j < length bss. ?i = int j)"
    using ag_chooseBSS_strongest[of bss] ag_findSsid_first[of "ag_defaultSsid ag" bss]
    by (auto simp: strongest_bss_def ag_chooseBSS_def)
  then consider "?i = -1" | j where "j < length bss" "?i = int j" by blast
  then show ?thesis
  proof cases
    case 1
    then show ?thesis using Scan_Confirm scan_request_sent[OF assms(1)]
      by (auto simp: ag_handleResponse_def ag_processScanConfirm_def Let_def request_ok_def)
  next
    case 2
    have "bd_BSSID (bss ! j) \<in> set (map bd_BSSID bss)" using 2 by simp
    then have "bd_BSSID (bss ! j) \<in> fst ` set (ms_keys ms)" using assms(2) Scan_Confirm
      by (simp only: confirm_ok_def prim_confirm.case set_map[symmetric])
    then show ?thesis using assms(2) Scan_Confirm 2
      by (simp add: ag_handleResponse_def ag_processScanConfirm_def Let_def request_ok_def
          ag_sendAuthenticateRequest_def confirm_ok_def split del: if_split)
  qed
next
  case (Authenticate_Confirm rc a)
  then show ?thesis using assms(2) scan_request_sent[OF assms(1)]
    by (cases "rc = PRC_SUCCESS")
      (auto simp: ag_handleResponse_def ag_processAuthenticateConfirm_def request_ok_def confirm_ok_def ag_sendAssociateRequest_def)
next
  case (Associate_Confirm rc a)
  then show ?thesis using assms(3) scan_request_sent[OF assms(1)]
    by (auto simp: ag_handleResponse_def ag_processAssociateConfirm_def request_ok_def)
qed (use assms(2) in \<open>simp_all add: confirm_ok_def\<close>)


section \<open>Deliveries\<close>

lemma fresh_iff: "fresh ms \<longleftrightarrow> (\<forall>ap \<in> set (ms_apList ms). \<not> ap_isAuthenticated ap \<and> ap_authTimeout ap = None)"
  by (auto simp: fresh_def ms_keys_def ap_key_def list_all_iff)

lemma timers_off_iff: "timers_off ms \<longleftrightarrow> (\<forall>ap \<in> set (ms_apList ms). ap_authTimeout ap = None)"
  by (auto simp: timers_off_def ms_keys_def ap_key_def list_all_iff)

lemma fresh_timers_off: "fresh ms \<Longrightarrow> timers_off ms"
  by (auto simp: fresh_def timers_off_def list_all_iff)

lemma lookup_known:
  assumes "a \<in> fst ` set (ms_keys ms)"
  shows "\<exists>ap. ms_lookupAP a ms = Some ap \<and> ap \<in> set (ms_apList ms) \<and> ap_address ap = a"
proof (cases "ms_lookupAP a ms")
  case None
  then show ?thesis using assms by (auto simp: ms_lookupAP_def find_None_iff ms_keys_def ap_key_def)
next
  case (Some ap)
  with ms_lookupAP_Some[OF Some] show ?thesis by simp
qed

lemma lookup_key:
  assumes "keys_ok ms" "(a, x, y) \<in> set (ms_keys ms)"
  shows "\<exists>ap. ms_lookupAP a ms = Some ap \<and> ap_address ap = a \<and> ap_isAuthenticated ap = x \<and> ap_authTimeout ap = y"
proof -
  obtain ap where "ap \<in> set (ms_apList ms)" "ap_key ap = (a, x, y)" using assms(2) by (auto simp: ms_keys_def)
  then show ?thesis using ms_lookupAP_unique[OF assms(1), of ap] by (auto simp: ap_key_def)
qed

lemma fst_set_update: "fst ` set (map (\<lambda>k. if fst k = a then (a, g (snd k)) else k) ks) = fst ` set ks"
  by (induction ks) auto

lemma request_authenticate:
  assumes "ms_ok ms" "quiet ms" "request_ok (Authenticate_Request a t) ms"
  shows "\<exists>ms' effs. ms_handleCommand now (Authenticate_Request a t) ms = Inr (ms', effs) \<and> list_all silent effs
    \<and> at_rest ms' True False"
proof -
  have r: "outside ms" "fresh ms" "a \<in> fst ` set (ms_keys ms)" using assms(3) by (simp_all add: request_ok_def)
  obtain ap where ap: "ms_lookupAP a ms = Some ap" "ap \<in> set (ms_apList ms)" "ap_address ap = a"
    using lookup_known[OF r(3)] by blast
  let ?f = "\<lambda>x. x\<lparr>ap_authSeqExpected := 2, ap_authTimeout := Some (now + t)\<rparr>"
  have k: "keys_ok ms" using assms(1) by (simp add: ms_ok_def)
  have keys: "ms_keys (ms_updateAP a ?f ms) =
      map (\<lambda>k. if fst k = a then (a, (fst (snd k), Some (now + t))) else k) (ms_keys ms)"
    by (rule ms_keys_set[OF k, where g = "\<lambda>y. (fst y, Some (now + t))"]) (simp add: ap_key_def)
  have "a \<in> fst ` set (ms_keys (ms_updateAP a ?f ms))"
    using r(3) unfolding keys by (simp only: fst_set_update[where g = "\<lambda>y. (fst y, Some (now + t))"])
  moreover have "list_all (\<lambda>k. if fst k = a then \<not> fst (snd k) \<and> snd (snd k) \<noteq> None else snd k = (False, None))
      (ms_keys (ms_updateAP a ?f ms))"
    using r(2) unfolding keys fresh_def by (auto simp: list_all_iff)
  ultimately have "authenticating a (ms_updateAP a ?f ms)" by (simp add: authenticating_def)
  moreover have "keys_ok (ms_updateAP a ?f ms)" by (rule keys_ok_updateAP[OF k]) simp
  ultimately have "at_rest (ms_updateAP a ?f ms) True False"
    using assms(1,2) r(1) by (auto simp: at_rest_def ms_ok_def quiet_def outside_def)
  moreover have "ms_handleCommand now (Authenticate_Request a t) ms = Inr (ms_updateAP a ?f ms,
      [Change_Channel (ap_channel ap), Send_Frame (Authentication_Frame 1 SC_SUCCESSFUL False) a])"
    using r(2) ap by (simp add: ms_handleCommand_def ms_processAuthenticateCommand_def ms_startAuthentication_def fresh_iff)
  ultimately show ?thesis by simp
qed

lemma request_associate:
  assumes "ms_ok ms" "quiet ms" "request_ok (Associate_Request a t) ms"
  shows "\<exists>ms' effs. ms_handleCommand now (Associate_Request a t) ms = Inr (ms', effs) \<and> list_all silent effs
    \<and> at_rest ms' True False"
proof -
  have r: "outside ms" "timers_off ms" "(a, True, None) \<in> set (ms_keys ms)" using assms(3) by (simp_all add: request_ok_def)
  have k: "keys_ok ms" using assms(1) by (simp add: ms_ok_def)
  obtain ap where ap: "ms_lookupAP a ms = Some ap" "ap_address ap = a" "ap_isAuthenticated ap"
    using lookup_key[OF k r(3)] by blast
  have "at_rest (ms\<lparr>ms_assocTimeout := Some (now + t, a)\<rparr>) True False"
    using assms(1,2) r(1,2) by (simp add: at_rest_def ms_ok_def quiet_def outside_def timers_off_def ms_keys_def keys_ok_def)
  then show ?thesis using r(1) ap
    by (simp add: ms_handleCommand_def ms_processAssociateCommand_def ms_startAssociation_def outside_def)
qed

lemma request_scan:
  assumes "ms_ok ms" "quiet ms" "request_ok (Scan_Request q) ms"
  shows "\<exists>ms' effs. ms_handleCommand now (Scan_Request q) ms = Inr (ms', effs) \<and> list_all silent effs
    \<and> at_rest ms' True False"
proof -
  have r: "scan_request_ok q" using assms(3) by (simp add: request_ok_def)
  obtain ms' effs where h: "ms_processScanCommand now q ms = Inr (ms', effs)" "list_all silent effs" "scanning ms'" "outside ms'"
    "ms_apList ms' = []" "ms_numChannels ms' = ms_numChannels ms"
    using ms_processScanCommand_ok[OF assms(2) r, of now] assms(1) by (auto simp: ms_ok_def)
  then have "at_rest ms' True False"
    using assms(1) by (simp add: at_rest_def ms_ok_def outside_def fresh_def ms_keys_def keys_ok_def)
  with h show ?thesis by (simp add: ms_handleCommand_def)
qed

lemma request_handled:
  assumes "ms_ok ms" "quiet ms" "request_ok r ms"
  shows "\<exists>ms' effs. ms_handleCommand now r ms = Inr (ms', effs) \<and> list_all silent effs \<and> at_rest ms' True False"
  using assms request_scan request_authenticate request_associate
  by (cases r) (auto simp: request_ok_def)

text \<open>A delivery never fails and keeps the invariant.\<close>

lemma station_deliver:
  assumes "station_ok s" "st_queue s = m # q"
  shows "\<exists>s'. st_deliver now m (s\<lparr>st_queue := q\<rparr>) = Inr s' \<and> station_ok s'"
proof -
  from assms have s: "q = []" "agent_ok (st_agent s)" "ba_haveForwarded (st_app s)" "st_started s" "\<not> st_flag s"
    "ms_ok (st_mgmt s)" "quiet (st_mgmt s)" "message_ok m (st_mgmt s)"
    by (auto simp: station_ok_def split: list.splits)
  show ?thesis
  proof (cases m)
    case (To_Mgmt r)
    then have "request_ok r (st_mgmt s)" using s(8) by (simp add: message_ok_def)
    with request_handled[OF s(6,7)] obtain ms' effs where
      h: "ms_handleCommand now r (st_mgmt s) = Inr (ms', effs)" "list_all silent effs" "at_rest ms' True False" by blast
    show ?thesis using To_Mgmt s h
      by (auto simp: st_deliver_def st_mgmtEffects_silent_only station_ok_def)
  next
    case (To_Agent c)
    then have c: "confirm_ok c (st_mgmt s)" using s(8) by (simp add: message_ok_def)
    show ?thesis
    proof (cases "\<exists>a. c = Associate_Confirm PRC_SUCCESS a")
      case False
      then obtain effs r where h: "ag_handleResponse c (st_agent s) = Inr (st_agent s, effs)" "requests effs = [r]"
        "\<forall>b. Emit_State_Association b \<notin> set effs" "request_ok r (st_mgmt s)"
        using ag_handleResponse_request[OF s(2) c] by auto
      show ?thesis using To_Agent s h by (auto simp: st_deliver_def st_agentEffects_one message_ok_def intro!: station_okI_message)
    next
      case True
      then have a: "c = Associate_Confirm PRC_SUCCESS 0" using c by (auto simp: confirm_ok_def)
      have p: "ag_prevAP (st_agent s) = 0" using s(2) by (simp add: agent_ok_def)
      have "at_rest (st_mgmt s) True True" using c s(6,7) by (simp add: a confirm_ok_def at_rest_def)
      then show ?thesis using To_Agent s(1-4) p unfolding a
        by (auto simp: st_deliver_def ag_handleResponse_def ag_processAssociateConfirm_def mac_isUnspecified_def Let_def
            st_agentEffects_def bus_receiveSignal_def agent_ok_def intro!: station_okI_rest)
    qed
  qed
qed


section \<open>Inputs\<close>

text \<open>What the frames that only enter an access point in the list, or do nothing, leave behind.\<close>

definition same_or_new :: "mgmt_sta \<Rightarrow> mgmt_sta \<Rightarrow> bool" where
  "same_or_new ms ms' = (keys_ok ms' \<and> same_control ms ms'
     \<and> (ms_keys ms' = ms_keys ms \<or> (\<exists>a. ms_keys ms' = ms_keys ms @ [(a, False, None)])))"

lemma same_or_new_refl: "ms_ok ms \<Longrightarrow> same_or_new ms ms"
  by (simp add: same_or_new_def same_control_def ms_ok_def)

lemma authenticating_new:
  assumes "authenticating a ms" "same_or_new ms ms'"
  shows "authenticating a ms'"
proof (cases "ms_keys ms' = ms_keys ms")
  case True
  with assms(1) show ?thesis by (simp add: authenticating_def)
next
  case False
  then obtain b where b: "ms_keys ms' = ms_keys ms @ [(b, False, None)]" using assms(2) by (auto simp: same_or_new_def)
  have "distinct (map fst (ms_keys ms'))" using assms(2) by (simp add: same_or_new_def keys_ok_def)
  then have "b \<noteq> a" using assms(1) by (auto simp: b authenticating_def)
  with assms(1) show ?thesis by (simp add: authenticating_def b)
qed

lemma at_rest_new:
  assumes "at_rest ms st fl" "same_or_new ms ms'"
  shows "at_rest ms' st fl"
proof -
  have c: "same_control ms ms'" "keys_ok ms'" using assms(2) by (simp_all add: same_or_new_def)
  have "quiet ms' = quiet ms" "outside ms' = outside ms" "scanning ms' = scanning ms" "ms_ok ms \<Longrightarrow> ms_ok ms'"
    using c by (auto simp: same_control_def quiet_def outside_def scanning_def scan_index_ok_def ms_ok_def)
  moreover have "fresh ms \<Longrightarrow> fresh ms'" "timers_off ms \<Longrightarrow> timers_off ms'"
    using assms(2) by (auto simp: same_or_new_def fresh_def timers_off_def)
  moreover have "ms_isAssociated ms' = ms_isAssociated ms" "ms_assocTimeout ms' = ms_assocTimeout ms"
    using c(1) by (simp_all add: same_control_def)
  moreover have "authenticating a ms \<Longrightarrow> authenticating a ms'" for a by (rule authenticating_new[OF _ assms(2)])
  ultimately show ?thesis using assms(1) unfolding at_rest_def by metis
qed

text \<open>The three outcomes of an input for the management entity.\<close>

definition outcome :: "bool \<Rightarrow> bool \<Rightarrow> mgmt_sta \<Rightarrow> mgmt_effect list \<Rightarrow> bool" where
  "outcome st fl ms effs = (list_all silent effs \<and> at_rest ms st fl
     \<or> (\<exists>es c. effs = es @ [Send_Confirm c] \<and> list_all silent es \<and> st \<and> \<not> fl \<and> ms_ok ms \<and> quiet ms \<and> confirm_ok c ms)
     \<or> effs = [Emit_L2_Beacon_Lost] \<and> st \<and> ms_ok ms \<and> quiet ms)"

lemma outcome_silent: "at_rest ms st fl \<Longrightarrow> list_all silent effs \<Longrightarrow> outcome st fl ms effs"
  by (simp add: outcome_def)

lemma outcome_confirm:
  "list_all silent es \<Longrightarrow> st \<Longrightarrow> \<not> fl \<Longrightarrow> ms_ok ms \<Longrightarrow> quiet ms \<Longrightarrow> confirm_ok c ms \<Longrightarrow> outcome st fl ms (es @ [Send_Confirm c])"
  by (auto simp: outcome_def)

text \<open>An access point with a pending timer is the one the station authenticates with.\<close>

lemma at_rest_auth:
  assumes "at_rest ms st fl" "ap \<in> set (ms_apList ms)" "ap_authTimeout ap \<noteq> None"
  shows "quiet ms \<and> outside ms \<and> authenticating (ap_address ap) ms \<and> st \<and> \<not> fl \<and> ms_ok ms"
proof -
  have k: "ap_key ap \<in> set (ms_keys ms)" using assms(2) by (simp add: ms_keys_def)
  have n: "\<not> timers_off ms" using assms(2,3) by (auto simp: timers_off_iff)
  then have "\<not> fresh ms" using fresh_timers_off by blast
  with n assms(1) obtain a where a: "quiet ms" "outside ms" "authenticating a ms" "st" "\<not> fl" "ms_ok ms"
    by (auto simp: at_rest_def)
  have "if fst (ap_key ap) = a then \<not> fst (snd (ap_key ap)) \<and> snd (snd (ap_key ap)) \<noteq> None else snd (ap_key ap) = (False, None)"
    using a(3) k unfolding authenticating_def list_all_iff by blast
  then have "ap_address ap = a" using assms(3) by (simp add: ap_key_def split: if_splits)
  with a show ?thesis by simp
qed

lemma frame_authentication:
  assumes "at_rest ms st fl" "ms_handleAuthenticationFrame a seq status isLast ms = (ms', effs)"
  shows "outcome st fl ms' effs"
proof (cases "\<exists>ap. ms_lookupAP a ms = Some ap \<and> \<not> ap_isAuthenticated ap \<and> ap_authTimeout ap \<noteq> None")
  case False
  then have "ms' = ms" "effs = []" using assms(2)
    by (auto simp: ms_handleAuthenticationFrame_def split: option.splits if_splits)
  then show ?thesis using assms(1) by (simp add: outcome_silent)
next
  case True
  then obtain ap where ap: "ms_lookupAP a ms = Some ap" "\<not> ap_isAuthenticated ap" "ap_authTimeout ap \<noteq> None" by blast
  have a: "ap \<in> set (ms_apList ms)" "ap_address ap = a" using ms_lookupAP_Some[OF ap(1)] by simp_all
  note r = at_rest_auth[OF assms(1) a(1) ap(3), unfolded a(2)]
  have k: "keys_ok ms" using r by (simp add: ms_ok_def)
  have fin: "timers_off ms1 \<and> ms_ok ms1 \<and> quiet ms1 \<and> outside ms1 \<and> (a, h ap, None) \<in> set (ms_keys ms1)"
    if e: "ms1 = ms_updateAP a f ms" and f: "\<And>x. ap_key (f x) = (ap_address x, h x, None)" for ms1 f h
  proof -
    have addr: "ap_address (f x) = ap_address x" for x using f[of x] by (simp add: ap_key_def)
    have keys: "ms_keys ms1 = map (\<lambda>x. if ap_address x = a then ap_key (f x) else ap_key x) (ms_apList ms)"
      unfolding e by (rule ms_keys_updateAP[OF k addr])
    have "\<forall>x \<in> set (ms_apList ms). ap_address x \<noteq> a \<longrightarrow> ap_authTimeout x = None"
      using r by (auto simp: list_all_iff authenticating_def ms_keys_def ap_key_def)
    then have "timers_off ms1" unfolding timers_off_def keys by (auto simp: list_all_iff f) (simp add: ap_key_def)
    moreover have "keys_ok ms1" unfolding e by (rule keys_ok_updateAP[OF k addr])
    moreover have "(a, h ap, None) \<in> set (ms_keys ms1)" using a f[of ap] unfolding keys by (force simp: image_iff)
    ultimately show ?thesis using r e by (auto simp: ms_ok_def quiet_def outside_def)
  qed
  show ?thesis
  proof (cases "uint seq \<noteq> ap_authSeqExpected ap")
    case True
    with assms(2) ap a have e: "ms' = ms_updateAP a (\<lambda>x. x\<lparr>ap_authTimeout := None\<rparr>) ms"
      "effs = [Send_Frame (Authentication_Frame 0 SC_AUTH_OUT_OF_SEQ False) a] @ [Send_Confirm (Authenticate_Confirm PRC_REFUSED a)]"
      by (auto simp: ms_handleAuthenticationFrame_def ms_sendAuthenticationConfirm_def)
    show ?thesis unfolding e(2) using fin[OF e(1), of ap_isAuthenticated] r
      by (intro outcome_confirm) (simp_all add: confirm_ok_def ap_key_def)
  next
    case seq: False
    show ?thesis
    proof (cases "status = SC_SUCCESSFUL \<and> \<not> isLast")
      case True
      let ?f = "\<lambda>x. x\<lparr>ap_authSeqExpected := ap_authSeqExpected x + 2\<rparr>"
      have e: "ms' = ms_updateAP a ?f ms" "list_all silent effs"
        using assms(2) ap seq True by (auto simp: ms_handleAuthenticationFrame_def)
      have "same_or_new ms ms'" unfolding e(1) same_or_new_def
        using keys_ok_updateAP[OF k, of ?f] ms_keys_same[OF k, of ?f] by (simp add: ap_key_def same_control_def)
      from at_rest_new[OF assms(1) this] e(2) show ?thesis by (simp add: outcome_silent)
    next
      case False
      with assms(2) ap a seq have e: "ms' = ms_updateAP a (\<lambda>x. x\<lparr>ap_isAuthenticated := (status = SC_SUCCESSFUL), ap_authTimeout := None\<rparr>) ms"
        "effs = [] @ [Send_Confirm (Authenticate_Confirm (ms_statusCodeToPrimResultCode status) a)]"
        by (auto simp: ms_handleAuthenticationFrame_def ms_sendAuthenticationConfirm_def)
      show ?thesis unfolding e(2) using fin[OF e(1), of "\<lambda>_. status = SC_SUCCESSFUL"] r
        by (intro outcome_confirm) (auto simp: confirm_ok_def ap_key_def ms_statusCodeToPrimResultCode_def)
    qed
  qed
qed

lemma deauth_update:
  assumes "keys_ok ms" "timers_off ms"
  shows "keys_ok (ms_updateAP a (\<lambda>x. x\<lparr>ap_isAuthenticated := False\<rparr>) ms)
    \<and> timers_off (ms_updateAP a (\<lambda>x. x\<lparr>ap_isAuthenticated := False\<rparr>) ms)"
proof -
  let ?f = "\<lambda>x. x\<lparr>ap_isAuthenticated := False\<rparr>"
  have "ms_keys (ms_updateAP a ?f ms) = map (\<lambda>k. if fst k = a then (a, (False, snd (snd k))) else k) (ms_keys ms)"
    by (rule ms_keys_set[OF assms(1), where g = "\<lambda>y. (False, snd y)"]) (simp add: ap_key_def)
  then have "timers_off (ms_updateAP a ?f ms)" using assms(2) by (auto simp: timers_off_def list_all_iff)
  moreover have "keys_ok (ms_updateAP a ?f ms)" by (rule keys_ok_updateAP[OF assms(1)]) simp
  ultimately show ?thesis by simp
qed

lemma frame_deauthentication:
  assumes "at_rest ms st fl"
  shows "at_rest (ms_handleDeauthenticationFrame a ms) st fl"
proof (cases "\<exists>ap. ms_lookupAP a ms = Some ap \<and> ap_isAuthenticated ap")
  case False
  then have "ms_handleDeauthenticationFrame a ms = ms" by (auto simp: ms_handleDeauthenticationFrame_def split: option.splits)
  with assms show ?thesis by simp
next
  case True
  then obtain ap where ap: "ms_lookupAP a ms = Some ap" "ap_isAuthenticated ap" by blast
  have a: "ap_key ap \<in> set (ms_keys ms)" using ms_lookupAP_Some[OF ap(1)] by (simp add: ms_keys_def)
  have "\<not> fresh ms" using ms_lookupAP_Some[OF ap(1)] ap(2) by (auto simp: fresh_iff)
  moreover have "\<not> authenticating b ms" for b
  proof
    assume "authenticating b ms"
    then have "if fst (ap_key ap) = b then \<not> fst (snd (ap_key ap)) \<and> snd (snd (ap_key ap)) \<noteq> None else snd (ap_key ap) = (False, None)"
      using a unfolding authenticating_def list_all_iff by blast
    then show False using ap(2) by (simp add: ap_key_def split: if_splits)
  qed
  ultimately have phase: "quiet ms" "timers_off ms" "ms_ok ms" "st"
    "\<not> ms_isAssociated ms \<and> ms_assocTimeout ms \<noteq> None \<and> \<not> fl \<or> ms_isAssociated ms \<and> fl"
    using assms by (auto simp: at_rest_def)
  have t: "ap_authTimeout ap = None" using a phase(2) by (auto simp: timers_off_def list_all_iff ap_key_def)
  let ?f = "\<lambda>x. x\<lparr>ap_isAuthenticated := False\<rparr>"
  have k: "keys_ok ms" using phase(3) by (simp add: ms_ok_def)
  have "at_rest (ms_updateAP a ?f ms) st fl" using phase deauth_update[OF k phase(2), of a] by (auto simp: at_rest_def ms_ok_def quiet_def)
  moreover have "ms_handleDeauthenticationFrame a ms = ms_updateAP a ?f ms"
    using ap t by (simp add: ms_handleDeauthenticationFrame_def)
  ultimately show ?thesis by simp
qed

lemma frame_association_response:
  assumes "at_rest ms st fl" "ms_handleAssociationResponseFrame now a status ms = Inr (ms', effs)"
  shows "outcome st fl ms' effs"
proof (cases "ms_assocTimeout ms = None")
  case True
  with assms show ?thesis by (auto simp: ms_handleAssociationResponseFrame_def outcome_silent)
next
  case False
  with assms(1) have p: "quiet ms" "\<not> ms_isAssociated ms" "timers_off ms" "st" "\<not> fl" "ms_ok ms"
    by (auto simp: at_rest_def outside_def ms_ok_def)
  obtain ap where ap: "ms_lookupAP a ms = Some ap" using assms(2) False
    by (auto simp: ms_handleAssociationResponseFrame_def split: option.splits)
  have e: "ms' = (if status = SC_SUCCESSFUL then ms\<lparr>ms_assocTimeout := None, ms_ssid := ap_ssid ap, ms_bssid := ap_address ap,
        ms_isAssociated := True, ms_assocAP := ap, ms_beaconTimeout := Some (now + MAX_BEACONS_MISSED * ap_beaconInterval ap)\<rparr>
      else ms\<lparr>ms_assocTimeout := None\<rparr>)"
    "effs = (if status = SC_SUCCESSFUL then [Emit_L2_Associated (ap_address ap)] else [])
      @ [Send_Confirm (Associate_Confirm (ms_statusCodeToPrimResultCode status) 0)]"
    using assms(2) False p(2) ap
    by (auto simp: ms_handleAssociationResponseFrame_def ms_sendAssociationConfirm_def Let_def split: if_splits)
  have "ms_ok ms'" "quiet ms'" "timers_off ms'" "ms_isAssociated ms' = (status = SC_SUCCESSFUL)"
    using p by (auto simp: e(1) ms_ok_def keys_ok_def ms_keys_def quiet_def timers_off_def)
  then show ?thesis unfolding e(2) using p(4,5)
    by (intro outcome_confirm) (auto simp: confirm_ok_def ms_statusCodeToPrimResultCode_def)
qed

lemma frame_store:
  assumes "at_rest ms st fl" "ms_storeAPInfo a p ssid c bi ms = Inr ms'"
  shows "at_rest ms' st fl"
proof -
  have "keys_ok ms" using assms(1) by (simp add: at_rest_def ms_ok_def)
  from ms_storeAPInfo_keys[OF assms(2) this] have "same_or_new ms ms'" by (auto simp: same_or_new_def)
  from at_rest_new[OF assms(1) this] show ?thesis .
qed

lemma frame_beacon:
  assumes "at_rest ms st fl" "ms_handleBeaconFrame now a p ssid c bi ms = Inr ms'"
  shows "at_rest ms' st fl"
proof -
  from assms(2) obtain ms1 where s: "ms_storeAPInfo a p ssid c bi ms = Inr ms1"
    and e: "ms' = ms1 \<or> (ms_beaconTimeout ms1 \<noteq> None \<and> (\<exists>t. ms' = ms1\<lparr>ms_beaconTimeout := Some t\<rparr>))"
    by (auto simp: ms_handleBeaconFrame_def cpp_bind_Inr_iff split: if_splits)
  note r = frame_store[OF assms(1) s]
  then have "keys_ok ms1" by (simp add: at_rest_def ms_ok_def)
  with e have "same_or_new ms1 ms'"
    by (auto simp: same_or_new_def same_control_def keys_ok_def ms_keys_def)
  from at_rest_new[OF r this] show ?thesis .
qed


lemma frame_handled:
  assumes "at_rest ms st fl" "ms_processFrame now pk ms = Inr (ms', effs)" "\<not> is_disassociation (Frame pk)"
  shows "outcome st fl ms' effs"
proof (cases "mf_body pk")
  case (Authentication_Frame seq status isLast)
  with assms(2) show ?thesis by (intro frame_authentication[OF assms(1)]) (simp add: ms_processFrame_def)
next
  case (Association_Response_Frame status)
  with assms(2) show ?thesis by (intro frame_association_response[OF assms(1)]) (simp add: ms_processFrame_def)
next
  case (Disassociation_Frame r)
  with assms(3) show ?thesis by (simp add: is_disassociation_def)
qed (use assms(1,2) in \<open>auto simp: ms_processFrame_def cpp_bind_Inr_iff
  intro!: outcome_silent frame_deauthentication intro: frame_store frame_beacon\<close>)

text \<open>The single timer of a scan.\<close>

lemma timer_scan:
  assumes "at_rest ms st fl" "k \<in> fst ` set (ms_scanTimers ms)"
  shows "scanning ms \<and> outside ms \<and> fresh ms \<and> st \<and> \<not> fl \<and> ms_ok ms \<and> ms_scanTimers (ms_popTimer k ms) = []"
proof -
  have "\<not> quiet ms" using assms(2) by (auto simp: quiet_def)
  then have s: "scanning ms" "outside ms" "fresh ms" "st" "\<not> fl" "ms_ok ms" using assms(1) by (auto simp: at_rest_def)
  then obtain x where "ms_scanTimers ms = [x]" by (auto simp: scanning_def length_Suc_conv)
  with assms(2) s show ?thesis by (auto simp: ms_popTimer_def)
qed

lemma advance_handled:
  assumes "scanning ms" "outside ms" "fresh ms" "st" "\<not> fl" "ms_ok ms" "ms1 = ms\<lparr>ms_scanTimers := []\<rparr>"
    and "ms_advanceScan now ms1 = Inr (ms', effs)"
  shows "outcome st fl ms' effs"
proof -
  have "\<exists>ms' effs b. ms_scanNextChannel now ms1 = Inr (ms', effs, b) \<and> list_all silent effs
    \<and> ms_numChannels ms' = ms_numChannels ms1 \<and> ms_apList ms' = ms_apList ms1 \<and> ms_assocTimeout ms' = ms_assocTimeout ms1 \<and> ms_isAssociated ms' = ms_isAssociated ms1
    \<and> ms_beaconTimeout ms' = ms_beaconTimeout ms1 \<and> (if b then quiet ms' else scanning ms')
    \<and> (b \<longleftrightarrow> sc_currentChannelIndex (ms_scanning ms1) = int (length (sc_channelList (ms_scanning ms1))) - 1)"
    using assms(1) by (intro ms_scanNextChannel_cases) (auto simp: assms(7) scanning_def scan_index_ok_def)
  then obtain es b where n: "ms_scanNextChannel now ms1 = Inr (ms', es, b)" "list_all silent es"
    "ms_apList ms' = ms_apList ms" "ms_assocTimeout ms' = ms_assocTimeout ms" "ms_isAssociated ms' = ms_isAssociated ms"
    "ms_beaconTimeout ms' = ms_beaconTimeout ms" "if b then quiet ms' else scanning ms'"
    "effs = es @ (if b then ms_sendScanConfirm ms' else [])"
    "ms_numChannels ms' = ms_numChannels ms"
    using assms(8) by (auto simp: ms_advanceScan_def assms(7))
  have k: "ms_keys ms' = ms_keys ms" by (simp add: ms_keys_def n(3))
  have r: "ms_ok ms'" "outside ms'" "fresh ms'" using assms(2,3,6) n k by (simp_all add: ms_ok_def keys_ok_def outside_def fresh_def)
  show ?thesis
  proof (cases b)
    case False
    with n r assms(4,5) show ?thesis by (auto simp: at_rest_def intro!: outcome_silent)
  next
    case True
    let ?bss = "map (\<lambda>ap. \<lparr>bd_channelNumber = ap_channel ap, bd_BSSID = ap_address ap, bd_SSID = ap_ssid ap,
                 bd_beaconInterval = ap_beaconInterval ap, bd_rxPower = ap_rxPower ap\<rparr>) (ms_apList ms')"
    have "effs = es @ [Send_Confirm (Scan_Confirm PRC_SUCCESS ?bss)]" using n(8) True by (simp add: ms_sendScanConfirm_def)
    moreover have "confirm_ok (Scan_Confirm PRC_SUCCESS ?bss) ms'"
      using r by (simp add: confirm_ok_def ms_keys_def ap_key_def comp_def)
    ultimately show ?thesis using n(2,7) True r(1) assms(4,5) by (auto intro!: outcome_confirm)
  qed
qed

lemma timer_handled:
  assumes "at_rest ms st fl" "timer_pending t ms" "ms_handleTimer now t ms = Inr (ms', effs)"
  shows "outcome st fl ms' effs"
proof (cases t)
  case (Auth_Timeout a)
  then obtain ap where ap: "ap \<in> set (ms_apList ms)" "ap_address ap = a" "ap_authTimeout ap \<noteq> None"
    using assms(2) by (auto simp: timer_pending_def list_ex_iff)
  with at_rest_auth[OF assms(1) ap(1,3)] assms(3) Auth_Timeout
    outcome_confirm[of "[]" st fl ms "Authenticate_Confirm PRC_TIMEOUT a"] show ?thesis
    by (auto simp: ms_handleTimer_def ms_sendAuthenticationConfirm_def confirm_ok_def)
next
  case Assoc_Timeout
  then have "st" "\<not> fl" "ms_ok ms" "quiet ms" "\<not> ms_isAssociated ms"
    using assms(1,2) by (auto simp: timer_pending_def at_rest_def outside_def ms_ok_def)
  with assms(3) Assoc_Timeout outcome_confirm[of "[]" st fl ms "Associate_Confirm PRC_TIMEOUT 0"] show ?thesis
    by (auto simp: ms_handleTimer_def ms_sendAssociationConfirm_def confirm_ok_def)
next
  case (Scan_Timer k)
  then have "k \<in> fst ` set (ms_scanTimers ms)" using assms(2) by (simp add: timer_pending_def)
  note s = timer_scan[OF assms(1) this]
  have pop: "ms_popTimer k ms = ms\<lparr>ms_scanTimers := []\<rparr>" using s by (simp add: ms_popTimer_def)
  have again: "at_rest (ms\<lparr>ms_scanTimers := [x]\<rparr>) st fl" for x
    using s by (auto simp: at_rest_def scanning_def scan_index_ok_def outside_def fresh_def ms_keys_def ms_ok_def keys_ok_def)
  have adv: "ms_advanceScan now (ms\<lparr>ms_scanTimers := []\<rparr>) = Inr (ms', effs) \<Longrightarrow> outcome st fl ms' effs"
    using s advance_handled[of ms st fl _ now ms' effs] by blast
  show ?thesis
  proof (cases k)
    case MK_SCAN_SENDPROBE
    with Scan_Timer assms(3) again show ?thesis
      by (auto simp: ms_handleTimer_def pop[unfolded MK_SCAN_SENDPROBE] Let_def ms_sendProbeRequest_def intro!: outcome_silent)
  next
    case MK_SCAN_MINCHANNELTIME
    with Scan_Timer assms(3) again adv show ?thesis
      by (auto simp: ms_handleTimer_def pop[unfolded MK_SCAN_MINCHANNELTIME] Let_def intro!: outcome_silent split: if_splits)
  next
    case MK_SCAN_MAXCHANNELTIME
    with Scan_Timer assms(3) adv show ?thesis by (simp add: ms_handleTimer_def pop[unfolded MK_SCAN_MAXCHANNELTIME] Let_def)
  qed
next
  case Beacon_Timeout
  then have "ms_isAssociated ms" using assms(1,2) by (auto simp: timer_pending_def at_rest_def ms_ok_def)
  then have "st" "ms_ok ms" "quiet ms" using assms(1) by (auto simp: at_rest_def outside_def)
  with assms(3) Beacon_Timeout show ?thesis by (simp add: ms_handleTimer_def outcome_def)
next
  case Unknown_Timer
  with assms(2) show ?thesis by (simp add: timer_pending_def)
qed

lemma reception_rest:
  assumes "at_rest ms st fl"
  shows "at_rest (ms_receiveSignal r ms) st fl"
proof -
  let ?sc = "if r \<noteq> RECEPTION_STATE_UNDEFINED \<and> r \<noteq> RECEPTION_STATE_IDLE
    then (ms_scanning ms)\<lparr>sc_busyChannelDetected := True\<rparr> else ms_scanning ms"
  have e: "ms_receiveSignal r ms = ms\<lparr>ms_scanning := ?sc\<rparr>" by (simp add: ms_receiveSignal_def)
  have i: "sc_currentChannelIndex ?sc = sc_currentChannelIndex (ms_scanning ms)" "sc_channelList ?sc = sc_channelList (ms_scanning ms)"
    by simp_all
  have k: "ms_keys (ms_receiveSignal r ms) = ms_keys ms" by (simp add: e ms_keys_def)
  have "quiet (ms_receiveSignal r ms) = quiet ms" "scanning (ms_receiveSignal r ms) = scanning ms"
    "outside (ms_receiveSignal r ms) = outside ms" "ms_ok (ms_receiveSignal r ms) = ms_ok ms"
    using i k by (simp_all add: e quiet_def scanning_def scan_index_ok_def outside_def ms_ok_def keys_ok_def)
  moreover have "fresh (ms_receiveSignal r ms) = fresh ms" "timers_off (ms_receiveSignal r ms) = timers_off ms"
    "authenticating a (ms_receiveSignal r ms) = authenticating a ms" for a
    by (simp_all add: fresh_def timers_off_def authenticating_def k)
  ultimately show ?thesis using assms by (simp add: at_rest_def) (simp add: e)
qed

text \<open>The effects of the management entity, carried out on the station.\<close>

lemma outcome_station:
  assumes "outcome (st_started s) (st_flag s) ms effs" "agent_ok (st_agent s)" "ba_haveForwarded (st_app s)" "st_queue s = []"
  shows "station_ok (st_mgmtEffects effs (s\<lparr>st_mgmt := ms\<rparr>))"
  using assms(1) unfolding outcome_def
proof (elim disjE exE conjE)
  assume "list_all silent effs" "at_rest ms (st_started s) (st_flag s)"
  with assms(2-4) show ?thesis by (simp add: st_mgmtEffects_silent_only station_ok_def)
next
  fix es c
  assume "effs = es @ [Send_Confirm c]" "list_all silent es" "st_started s" "\<not> st_flag s" "ms_ok ms" "quiet ms" "confirm_ok c ms"
  with assms(2-4) show ?thesis by (simp add: st_mgmtEffects_silent station_ok_def message_ok_def)
next
  assume "effs = [Emit_L2_Beacon_Lost]" "st_started s" "ms_ok ms" "quiet ms"
  then show ?thesis using assms(2-4) scan_request_sent[OF assms(2)]
    by (auto simp: ag_receiveSignal_def st_agentEffects_def requests_append bus_hear_append bus_hear_quiet
        bus_receiveSignal_def station_ok_def message_ok_def request_ok_def)
qed

text \<open>Every input but a disassociation frame keeps the invariant.\<close>

lemma station_input_kept:
  assumes "station_ok s" "st_queue s = []" "input_enabled i s" "\<not> is_disassociation i" "st_input now i s = Inr s'"
  shows "station_ok s'"
proof -
  have s: "agent_ok (st_agent s)" "ba_haveForwarded (st_app s)" "at_rest (st_mgmt s) (st_started s) (st_flag s)"
    using assms(1,2) by (simp_all add: station_ok_def)
  note out = outcome_station[OF _ s(1,2) assms(2)]
  show ?thesis
  proof (cases i)
    case Startup
    then have "\<not> st_started s" using assms(3) by (simp add: input_enabled_def)
    then have "ms_ok (st_mgmt s)" "quiet (st_mgmt s)" "\<not> st_flag s" using s(3) by (auto simp: at_rest_def)
    then show ?thesis using Startup assms(2,5) s scan_request_sent[OF s(1)]
      by (auto simp: st_input_def ag_handleTimer_def st_agentEffects_def bus_hear_quiet station_ok_def message_ok_def request_ok_def)
  next
    case (Frame pk)
    then obtain ms effs where "ms_processFrame now pk (st_mgmt s) = Inr (ms, effs)" "s' = st_mgmtEffects effs (s\<lparr>st_mgmt := ms\<rparr>)"
      using assms(5) by (auto simp: st_input_def cpp_bind_Inr_iff)
    with frame_handled[OF s(3)] assms(4) Frame out show ?thesis by blast
  next
    case (Mgmt_Timer t)
    then obtain ms effs where "ms_handleTimer now t (st_mgmt s) = Inr (ms, effs)" "s' = st_mgmtEffects effs (s\<lparr>st_mgmt := ms\<rparr>)"
      using assms(5) by (auto simp: st_input_def cpp_bind_Inr_iff)
    with timer_handled[OF s(3)] assms(3) Mgmt_Timer out show ?thesis by (auto simp: input_enabled_def)
  next
    case (Reception r)
    with assms(2,5) s reception_rest[OF s(3)] show ?thesis by (auto simp: st_input_def station_ok_def)
  qed
qed

lemma station_step_kept:
  assumes "station_ok s" "st_step ok s s'" "\<And>i. ok i \<Longrightarrow> \<not> is_disassociation i"
  shows "station_ok s'"
proof -
  from assms(2) consider m q now where "st_queue s = m # q" "st_deliver now m (s\<lparr>st_queue := q\<rparr>) = Inr s'"
    | i now where "st_queue s = []" "ok i" "input_enabled i s" "st_input now i s = Inr s'"
    by (rule st_stepE)
  then show ?thesis
  proof cases
    case (1 m q now)
    with station_deliver[OF assms(1) 1(1), of now] show ?thesis by auto
  next
    case (2 i now)
    with station_input_kept[OF assms(1) 2(1,3) _ 2(4)] assms(3) show ?thesis by blast
  qed
qed

lemma station_reachable_ok:
  assumes "st_reachable ok s0 s" "station_ok s0" "\<And>i. ok i \<Longrightarrow> \<not> is_disassociation i"
  shows "station_ok s"
  using assms(1)
proof induction
  case here
  show ?case by (rule assms(2))
next
  case (there s s')
  from station_step_kept[OF there.IH there.hyps(2)] assms(3) show ?case by blast
qed

end
