(* ===== verification/Mgmt_Ap.thy ===== *)
theory Mgmt_Ap
  imports Mgmt_Sta
begin

text \<open>
  The 802.11 access point management entity (\<open>Ieee80211MgmtAp.cc\<close>): it answers the
  authentication sequence and the association requests of stations, and sends beacons. The
  station map of the MIB is a total function: an absent entry has the value that \<open>operator[]\<close> creates,
  NOT_AUTHENTICATED. Frame lengths and supported rates are not modelled.
\<close>

section \<open>State\<close>

datatype member_status = NOT_AUTHENTICATED | AUTHENTICATED | ASSOCIATED

text \<open>\<open>ma_staList\<close> maps the address of a station to the sequence number expected from it.\<close>

record mgmt_ap =
  ma_address :: mac_address
  ma_ssid :: string
  ma_channelNumber :: int
  ma_beaconInterval :: simtime
  ma_numAuthSteps :: int
  ma_staList :: "mac_address \<Rightarrow> int option"
  ma_stations :: "mac_address \<Rightarrow> member_status"
  ma_beaconTimer :: "simtime option"

datatype ap_effect =
    Ap_Send_Frame mgmt_body mac_address
  | Emit_L2_Ap_Associated mac_address
  | Emit_L2_Ap_Disassociated mac_address

definition ma_new :: "mac_address \<Rightarrow> string \<Rightarrow> simtime \<Rightarrow> int \<Rightarrow> mgmt_ap cpp" where
  "ma_new addr ssid interval steps =
     (if steps \<noteq> 2 \<and> steps \<noteq> 4 then Inl (Runtime_Error ''parameter 'numAuthSteps' must be 2 or 4'')
      else Inr \<lparr>ma_address = addr, ma_ssid = ssid, ma_channelNumber = -1, ma_beaconInterval = interval,
                ma_numAuthSteps = steps, ma_staList = \<lambda>_. None, ma_stations = \<lambda>_. NOT_AUTHENTICATED,
                ma_beaconTimer = None\<rparr>)"

definition ma_lookupSenderSTA :: "mac_address \<Rightarrow> mgmt_ap \<Rightarrow> int option" where
  "ma_lookupSenderSTA a ma = ma_staList ma a"

definition ma_setStatus :: "mac_address \<Rightarrow> member_status \<Rightarrow> mgmt_ap \<Rightarrow> mgmt_ap" where
  "ma_setStatus a s ma = ma\<lparr>ma_stations := (ma_stations ma)(a := s)\<rparr>"

definition ma_setExpected :: "mac_address \<Rightarrow> int \<Rightarrow> mgmt_ap \<Rightarrow> mgmt_ap" where
  "ma_setExpected a k ma = ma\<lparr>ma_staList := (ma_staList ma)(a := Some k)\<rparr>"

text \<open>The notification that a station is no longer associated, when it was.\<close>

definition ma_leaving :: "mac_address \<Rightarrow> mgmt_ap \<Rightarrow> ap_effect list" where
  "ma_leaving a ma = (if ma_stations ma a = ASSOCIATED then [Emit_L2_Ap_Disassociated a] else [])"

section \<open>Beacons\<close>

definition ma_sendBeacon :: "mgmt_ap \<Rightarrow> ap_effect list" where
  "ma_sendBeacon ma = [Ap_Send_Frame (Beacon_Frame (ma_ssid ma) (ma_channelNumber ma) (ma_beaconInterval ma)) (- 1)]"

definition ma_handleTimer :: "simtime \<Rightarrow> bool \<Rightarrow> mgmt_ap \<Rightarrow> (mgmt_ap \<times> ap_effect list) cpp" where
  "ma_handleTimer now isBeaconTimer ma =
     (if isBeaconTimer then Inr (ma\<lparr>ma_beaconTimer := Some (now + ma_beaconInterval ma)\<rparr>, ma_sendBeacon ma)
      else Inl (Runtime_Error ''internal error: unrecognized timer''))"

definition ma_handleCommand :: "mgmt_ap \<Rightarrow> (mgmt_ap \<times> ap_effect list) cpp" where
  "ma_handleCommand ma = Inl (Runtime_Error ''handleCommand(): no commands supported'')"

definition ma_receiveSignal :: "int \<Rightarrow> mgmt_ap \<Rightarrow> mgmt_ap" where
  "ma_receiveSignal channel ma = ma\<lparr>ma_channelNumber := channel\<rparr>"

section \<open>Frames\<close>

definition ma_handleAuthenticationFrame :: "mac_address \<Rightarrow> 16 word \<Rightarrow> mgmt_ap \<Rightarrow> mgmt_ap \<times> ap_effect list" where
  "ma_handleAuthenticationFrame a seq ma =
     (let frameAuthSeq = uint seq;
          ma1 = (case ma_lookupSenderSTA a ma of
                   None \<Rightarrow> ma_setExpected a 1 (ma_setStatus a NOT_AUTHENTICATED ma)
                 | Some _ \<Rightarrow> ma);
          (ma2, e1) = (if frameAuthSeq = 1
                       then (ma_setExpected a 1 (ma_setStatus a NOT_AUTHENTICATED ma1), ma_leaving a ma1)
                       else (ma1, []));
          expected = the (ma_lookupSenderSTA a ma2)
      in if frameAuthSeq \<noteq> expected then
           (ma_setExpected a 1 ma2, e1 @ [Ap_Send_Frame (Authentication_Frame 0 SC_AUTH_OUT_OF_SEQ False) a])
         else
           let isLast = (frameAuthSeq + 1 = ma_numAuthSteps ma2);
               e2 = [Ap_Send_Frame (Authentication_Frame (of_int (frameAuthSeq + 1)) SC_SUCCESSFUL isLast) a]
           in if isLast then (ma_setStatus a AUTHENTICATED ma2, e1 @ e2 @ ma_leaving a ma2)
              else (ma_setExpected a (expected + 2) ma2, e1 @ e2))"

definition ma_handleDeauthenticationFrame :: "mac_address \<Rightarrow> mgmt_ap \<Rightarrow> mgmt_ap \<times> ap_effect list" where
  "ma_handleDeauthenticationFrame a ma = (case ma_lookupSenderSTA a ma of
      None \<Rightarrow> (ma, [])
    | Some _ \<Rightarrow> (ma_setExpected a 1 (ma_setStatus a NOT_AUTHENTICATED ma), ma_leaving a ma))"

definition ma_handleAssociationRequestFrame :: "mac_address \<Rightarrow> mgmt_ap \<Rightarrow> mgmt_ap \<times> ap_effect list" where
  "ma_handleAssociationRequestFrame a ma =
     (if ma_lookupSenderSTA a ma = None \<or> ma_stations ma a = NOT_AUTHENTICATED then
        (ma, [Ap_Send_Frame (Deauthentication_Frame RC_NONAUTH_ASS_REQUEST) a])
      else (ma_setStatus a ASSOCIATED ma,
            (if ma_stations ma a \<noteq> ASSOCIATED then [Emit_L2_Ap_Associated a] else [])
            @ [Ap_Send_Frame (Association_Response_Frame SC_SUCCESSFUL) a]))"

definition ma_handleReassociationRequestFrame :: "mac_address \<Rightarrow> mgmt_ap \<Rightarrow> mgmt_ap \<times> ap_effect list" where
  "ma_handleReassociationRequestFrame a ma =
     (if ma_lookupSenderSTA a ma = None \<or> ma_stations ma a = NOT_AUTHENTICATED then
        (ma, [Ap_Send_Frame (Deauthentication_Frame RC_NONAUTH_ASS_REQUEST) a])
      else (ma_setStatus a ASSOCIATED ma, [Ap_Send_Frame (Reassociation_Response_Frame SC_SUCCESSFUL) a]))"

definition ma_handleDisassociationFrame :: "mac_address \<Rightarrow> mgmt_ap \<Rightarrow> mgmt_ap \<times> ap_effect list" where
  "ma_handleDisassociationFrame a ma = (case ma_lookupSenderSTA a ma of
      None \<Rightarrow> (ma, [])
    | Some _ \<Rightarrow> (ma_setStatus a AUTHENTICATED ma, ma_leaving a ma))"

definition ma_handleProbeRequestFrame :: "mac_address \<Rightarrow> string \<Rightarrow> mgmt_ap \<Rightarrow> ap_effect list" where
  "ma_handleProbeRequestFrame a ssid ma =
     (if ssid \<noteq> [] \<and> ssid \<noteq> ma_ssid ma then []
      else [Ap_Send_Frame (Probe_Response_Frame (ma_ssid ma) (ma_channelNumber ma) (ma_beaconInterval ma)) a])"

text \<open>\<open>processFrame\<close> of the base class with the access point's handlers; responses and beacons are dropped.\<close>

definition ma_processFrame :: "mgmt_packet \<Rightarrow> mgmt_ap \<Rightarrow> (mgmt_ap \<times> ap_effect list) cpp" where
  "ma_processFrame pk ma = (case mf_body pk of
      Authentication_Frame seq _ _ \<Rightarrow> Inr (ma_handleAuthenticationFrame (mf_transmitter pk) seq ma)
    | Deauthentication_Frame _ \<Rightarrow> Inr (ma_handleDeauthenticationFrame (mf_transmitter pk) ma)
    | Disassociation_Frame _ \<Rightarrow> Inr (ma_handleDisassociationFrame (mf_transmitter pk) ma)
    | Association_Request_Frame \<Rightarrow> Inr (ma_handleAssociationRequestFrame (mf_transmitter pk) ma)
    | Association_Response_Frame _ \<Rightarrow> Inr (ma, [])
    | Reassociation_Request_Frame \<Rightarrow> Inr (ma_handleReassociationRequestFrame (mf_transmitter pk) ma)
    | Reassociation_Response_Frame _ \<Rightarrow> Inr (ma, [])
    | Beacon_Frame _ _ _ \<Rightarrow> Inr (ma, [])
    | Probe_Request_Frame ssid \<Rightarrow> Inr (ma, ma_handleProbeRequestFrame (mf_transmitter pk) ssid ma)
    | Probe_Response_Frame _ _ _ \<Rightarrow> Inr (ma, [])
    | Unexpected_Frame \<Rightarrow> Inl (Runtime_Error ''Unexpected frame type''))"

section \<open>Lifecycle\<close>

definition ma_start :: "simtime \<Rightarrow> simtime \<Rightarrow> mgmt_ap \<Rightarrow> mgmt_ap" where
  "ma_start now offset ma = ma\<lparr>ma_beaconTimer := Some (now + offset)\<rparr>"

definition ma_stop :: "mgmt_ap \<Rightarrow> mgmt_ap" where
  "ma_stop ma = ma\<lparr>ma_beaconTimer := None, ma_staList := \<lambda>_. None\<rparr>"

section \<open>A station and an access point\<close>

text \<open>
  Frames between one station and one access point that are not lost: \<open>frames\<close> are on the way to
  the access point; its answers to the station are handled at once. The confirms for the agent
  are collected. \<open>k\<close> bounds the number of frames the access point handles.
\<close>

definition from_addr :: "mac_address \<Rightarrow> mgmt_body \<Rightarrow> mgmt_packet" where
  "from_addr a b = \<lparr>mf_transmitter = a, mf_address3 = a, mf_body = b, mf_signalPower = Some 1\<rparr>"

fun frames_for :: "mac_address \<Rightarrow> ap_effect list \<Rightarrow> mgmt_body list" where
  "frames_for s [] = []"
| "frames_for s (Ap_Send_Frame b d # es) = (if d = s then b # frames_for s es else frames_for s es)"
| "frames_for s (_ # es) = frames_for s es"

fun frames_to :: "mac_address \<Rightarrow> mgmt_effect list \<Rightarrow> mgmt_body list" where
  "frames_to a [] = []"
| "frames_to a (Send_Frame b d # es) = (if d = a then b # frames_to a es else frames_to a es)"
| "frames_to a (_ # es) = frames_to a es"

fun confirms :: "mgmt_effect list \<Rightarrow> prim_confirm list" where
  "confirms [] = []"
| "confirms (Send_Confirm c # es) = c # confirms es"
| "confirms (_ # es) = confirms es"

definition sta_receive ::
  "simtime \<Rightarrow> mac_address \<Rightarrow> mgmt_body \<Rightarrow> mgmt_sta \<times> mgmt_effect list \<Rightarrow> (mgmt_sta \<times> mgmt_effect list) cpp" where
  "sta_receive now a b s = cpp_bind (ms_processFrame now (from_addr a b) (fst s)) (\<lambda>(ms, effs). Inr (ms, snd s @ effs))"

fun wlan_run ::
  "nat \<Rightarrow> simtime \<Rightarrow> mac_address \<Rightarrow> mgmt_body list \<Rightarrow> mgmt_sta \<Rightarrow> mgmt_ap \<Rightarrow>
   (mgmt_sta \<times> mgmt_ap \<times> prim_confirm list \<times> mgmt_body list) cpp" where
  "wlan_run k now s [] ms ma = Inr (ms, ma, [], [])"
| "wlan_run 0 now s (f # fs) ms ma = Inr (ms, ma, [], f # fs)"
| "wlan_run (Suc k) now s (f # fs) ms ma =
     cpp_bind (ma_processFrame (from_addr s f) ma) (\<lambda>(ma1, ae).
     cpp_bind (cpp_fold (sta_receive now (ma_address ma)) (frames_for s ae) (ms, [])) (\<lambda>(ms1, me).
     cpp_bind (wlan_run k now s (fs @ frames_to (ma_address ma) me) ms1 ma1) (\<lambda>(ms2, ma2, cs, rest).
     Inr (ms2, ma2, confirms me @ cs, rest))))"

end
