(* ===== verification/Wlan_Properties.thy ===== *)
theory Wlan_Properties
  imports Wlan_Invariant Mgmt_Ap
begin

text \<open>
  What a station promises when no disassociation frame reaches it, what such a frame does to it, what holds in either case,
  and when an access point takes a station in.
\<close>

section \<open>Runs of a station\<close>

text \<open>A station before the agent starts, with the application subscribed to the agent.\<close>

definition station_initial :: "station \<Rightarrow> bool" where
  "station_initial s = (agent_ok (st_agent s) \<and> ba_haveForwarded (st_app s) \<and> \<not> st_flag s \<and> st_queue s = []
     \<and> \<not> st_started s \<and> ms_apList (st_mgmt s) = [] \<and> 0 < ms_numChannels (st_mgmt s) \<and> \<not> ms_isScanning (st_mgmt s)
     \<and> ms_scanTimers (st_mgmt s) = [] \<and> \<not> ms_isAssociated (st_mgmt s) \<and> ms_assocTimeout (st_mgmt s) = None
     \<and> ms_beaconTimeout (st_mgmt s) = None)"

lemma station_initial_ok: "station_initial s \<Longrightarrow> station_ok s"
  by (simp add: station_initial_def station_ok_def at_rest_def ms_ok_def keys_ok_def ms_keys_def quiet_def outside_def fresh_def)

abbreviation st_reachable_quietly :: "station \<Rightarrow> station \<Rightarrow> bool" where
  "st_reachable_quietly \<equiv> st_reachable (\<lambda>i. \<not> is_disassociation i)"

lemma reachable_ok: "st_reachable_quietly s0 s \<Longrightarrow> station_initial s0 \<Longrightarrow> station_ok s"
  by (rule station_reachable_ok) (auto intro: station_initial_ok)

text \<open>A run by a list of inputs: every input, then the messages it causes.\<close>

fun st_drain :: "nat \<Rightarrow> simtime \<Rightarrow> station \<Rightarrow> station cpp" where
  "st_drain 0 now s = Inr s"
| "st_drain (Suc k) now s = (case st_queue s of
      [] \<Rightarrow> Inr s
    | m # q \<Rightarrow> cpp_bind (st_deliver now m (s\<lparr>st_queue := q\<rparr>)) (st_drain k now))"

fun st_run :: "simtime \<Rightarrow> station_input list \<Rightarrow> station \<Rightarrow> station cpp" where
  "st_run now [] s = Inr s"
| "st_run now (i # is) s =
     (if st_queue s = [] \<and> input_enabled i s
      then cpp_bind (st_input now i s) (\<lambda>s1. cpp_bind (st_drain 3 now s1) (st_run now is))
      else Inl Undefined_Behaviour)"

lemma st_drain_reachable: "st_drain k now s = Inr s' \<Longrightarrow> st_reachable ok s0 s \<Longrightarrow> st_reachable ok s0 s'"
proof (induction k now s rule: st_drain.induct)
  case (2 k now s)
  show ?case
  proof (cases "st_queue s")
    case Nil
    with 2(2,3) show ?thesis by simp
  next
    case (Cons m q)
    with 2(2) obtain s1 where s1: "st_deliver now m (s\<lparr>st_queue := q\<rparr>) = Inr s1" "st_drain k now s1 = Inr s'"
      by (auto simp: cpp_bind_Inr_iff)
    have "st_reachable ok s0 s1" by (rule st_reachable.there[OF 2(3)]) (rule st_step.deliver[OF Cons s1(1)])
    from 2(1)[OF Cons s1 this] show ?thesis .
  qed
qed simp

lemma st_run_reachable:
  "st_run now is s = Inr s' \<Longrightarrow> list_all ok is \<Longrightarrow> st_reachable ok s0 s \<Longrightarrow> st_reachable ok s0 s'"
proof (induction now "is" s rule: st_run.induct)
  case (2 now i "is" s)
  then obtain s1 s2 where s: "st_queue s = []" "input_enabled i s" "st_input now i s = Inr s1" "st_drain 3 now s1 = Inr s2"
    "st_run now is s2 = Inr s'" by (auto simp: cpp_bind_Inr_iff split: if_splits)
  have "st_reachable ok s0 s1" using 2(3) by (intro st_reachable.there[OF 2(4)] st_step.input[OF s(1) _ s(2,3)]) simp
  then have "st_reachable ok s0 s2" by (rule st_drain_reachable[OF s(4)])
  with 2(1)[of s1 s2] s 2(3) show ?case by simp
qed simp

text \<open>The station of the witnesses and a run that associates it.\<close>

definition ex_station :: station where
  "ex_station = \<lparr>st_mgmt = \<lparr>ms_numChannels = 1, ms_isScanning = False,
       ms_scanning = \<lparr>sc_bssid = 0, sc_ssid = [], sc_activeScan = False, sc_probeDelay = 0, sc_channelList = [],
         sc_currentChannelIndex = -1, sc_busyChannelDetected = False, sc_minChannelTime = 0, sc_maxChannelTime = 0\<rparr>,
       ms_scanTimers = [], ms_apList = [], ms_assocTimeout = None, ms_assocAP = ap_info_new, ms_beaconTimeout = None,
       ms_isAssociated = False, ms_bssid = 0, ms_ssid = []\<rparr>,
     st_agent = \<lparr>ag_prevAP = 0, ag_activeScan = False, ag_channelsToScan = [], ag_probeDelay = 0, ag_minChannelTime = 1,
       ag_maxChannelTime = 2, ag_authenticationTimeout = 5, ag_associationTimeout = 5, ag_defaultSsid = []\<rparr>,
     st_app = \<lparr>ba_haveForwarded = True, ba_ConnectionToAP = False, ba_controlTimer = None\<rparr>,
     st_queue = [], st_started = False\<rparr>"

definition ex_frame :: "mgmt_body \<Rightarrow> mgmt_packet" where
  "ex_frame b = \<lparr>mf_transmitter = 7, mf_address3 = 7, mf_body = b, mf_signalPower = Some 1\<rparr>"

definition ex_inputs :: "station_input list" where
  "ex_inputs = [Startup, Frame (ex_frame (Beacon_Frame ''net'' 0 1)), Mgmt_Timer (Scan_Timer MK_SCAN_MAXCHANNELTIME),
     Frame (ex_frame (Authentication_Frame 2 SC_SUCCESSFUL True)), Frame (ex_frame (Association_Response_Frame SC_SUCCESSFUL))]"

definition ex_associated :: station where
  "ex_associated = (case st_run 0 ex_inputs ex_station of Inl _ \<Rightarrow> ex_station | Inr s \<Rightarrow> s)"

lemma ex_station_initial: "station_initial ex_station"
  by (simp add: station_initial_def ex_station_def agent_ok_def)

lemma ex_associated_run:
  "cpp_ok (st_run 0 ex_inputs ex_station) \<and> ms_isAssociated (st_mgmt ex_associated) \<and> st_queue ex_associated = []
   \<and> ap_address (ms_assocAP (st_mgmt ex_associated)) = 7 \<and> st_flag ex_associated \<and> st_started ex_associated"
  by code_simp


lemma ex_associated_reachable: "st_reachable_quietly ex_station ex_associated"
proof -
  obtain s where s: "st_run 0 ex_inputs ex_station = Inr s" using ex_associated_run by (auto simp: cpp_ok_iff)
  then have "ex_associated = s" by (simp add: ex_associated_def)
  moreover have "list_all (\<lambda>i. \<not> is_disassociation i) ex_inputs" by (simp add: ex_inputs_def is_disassociation_def ex_frame_def)
  ultimately show ?thesis using st_run_reachable[OF s _ st_reachable.here] by simp
qed

section \<open>Without disassociation frames\<close>

text \<open>
  C21. Along any run without disassociation frames, whatever frames, timers and radio states come
  in, the flag the bus application chooses its network by is set exactly while the management entity is
  associated and no message is on its way between it and the agent.
\<close>

theorem station_flag_justified:
  assumes "st_reachable_quietly s0 s" "station_initial s0"
  shows "ba_ConnectionToAP (st_app s) \<longleftrightarrow> ms_isAssociated (st_mgmt s) \<and> st_queue s = []"
  using reachable_ok[OF assms] by (auto simp: station_ok_def at_rest_def outside_def split: list.splits)

lemma station_flag_justified_witness:
  "ba_ConnectionToAP (st_app ex_associated) \<and> ms_isAssociated (st_mgmt ex_associated)"
  using station_flag_justified[OF ex_associated_reachable ex_station_initial] ex_associated_run by simp

text \<open>
  At most one message is on its way between the agent and the management entity, and its
  delivery never throws: every request fits the state of the management entity and every confirm
  the agent.
\<close>

theorem station_deliveries:
  assumes "st_reachable_quietly s0 s" "station_initial s0" "st_queue s = m # q"
  shows "q = [] \<and> cpp_ok (st_deliver now m (s\<lparr>st_queue := q\<rparr>))"
  using reachable_ok[OF assms(1,2)] station_deliver[of s m q now] assms(3)
  by (auto simp: cpp_ok_iff station_ok_def split: list.splits)

definition ex_started :: station where
  "ex_started = (case st_input 0 Startup ex_station of Inl _ \<Rightarrow> ex_station | Inr s \<Rightarrow> s)"

lemma ex_started_run:
  "st_input 0 Startup ex_station = Inr ex_started \<and> st_queue ex_started \<noteq> [] \<and> input_enabled Startup ex_station"
  by code_simp

lemma station_deliveries_witness:
  "st_queue ex_started \<noteq> [] \<and> cpp_ok (st_deliver 0 (hd (st_queue ex_started)) (ex_started\<lparr>st_queue := tl (st_queue ex_started)\<rparr>))"
proof -
  have "st_step (\<lambda>i. \<not> is_disassociation i) ex_station ex_started"
    by (rule st_step.input[of _ _ Startup 0]) (use ex_started_run in \<open>simp_all add: ex_station_def is_disassociation_def\<close>)
  then have r: "st_reachable_quietly ex_station ex_started" by (rule st_reachable.there[OF st_reachable.here])
  obtain m q where "st_queue ex_started = m # q" using ex_started_run by (auto simp: neq_Nil_conv)
  with station_deliveries[OF r ex_station_initial this, of 0] show ?thesis by auto
qed

section \<open>After a disassociation frame\<close>

definition stuck :: "station \<Rightarrow> bool" where
  "stuck s = (st_queue s = [] \<and> st_started s \<and> keys_ok (st_mgmt s) \<and> quiet (st_mgmt s) \<and> outside (st_mgmt s)
     \<and> timers_off (st_mgmt s))"

lemma stuck_no_timer: "stuck s \<Longrightarrow> \<not> timer_pending t (st_mgmt s)"
  by (cases t) (auto simp: stuck_def timer_pending_def quiet_def outside_def timers_off_iff list_ex_iff)

text \<open>The management entity of a stuck station ignores every frame.\<close>

definition ms_stuck :: "mgmt_sta \<Rightarrow> bool" where
  "ms_stuck ms = (keys_ok ms \<and> quiet ms \<and> outside ms \<and> timers_off ms)"

lemma ms_stuck_new: "ms_stuck ms \<Longrightarrow> same_or_new ms ms' \<Longrightarrow> ms_stuck ms'"
  by (auto simp: ms_stuck_def same_or_new_def same_control_def quiet_def outside_def timers_off_def)

lemma ms_stuck_store:
  assumes "ms_stuck ms" "ms_storeAPInfo a p ssid c bi ms = Inr ms'"
  shows "ms_stuck ms'"
proof -
  have "keys_ok ms" using assms(1) by (simp add: ms_stuck_def)
  from ms_storeAPInfo_keys[OF assms(2) this] have "same_or_new ms ms'" by (auto simp: same_or_new_def)
  with assms(1) show ?thesis by (rule ms_stuck_new)
qed

lemma ms_stuck_beacon:
  assumes "ms_stuck ms" "ms_handleBeaconFrame now a p ssid c bi ms = Inr ms'"
  shows "ms_stuck ms'"
proof -
  from assms(2) obtain ms1 where s: "ms_storeAPInfo a p ssid c bi ms = Inr ms1"
    and e: "ms' = ms1 \<or> ms_isAssociated ms1" by (auto simp: ms_handleBeaconFrame_def cpp_bind_Inr_iff split: if_splits)
  note r = ms_stuck_store[OF assms(1) s]
  with e show ?thesis by (auto simp: ms_stuck_def outside_def)
qed

lemma ms_stuck_deauth:
  assumes "ms_stuck ms"
  shows "ms_stuck (ms_handleDeauthenticationFrame a ms)"
proof (cases "ms_lookupAP a ms")
  case None
  with assms show ?thesis by (simp add: ms_handleDeauthenticationFrame_def)
next
  case (Some ap)
  have k: "keys_ok ms" "timers_off ms" using assms by (simp_all add: ms_stuck_def)
  with ms_lookupAP_Some[OF Some] have t: "ap_authTimeout ap = None" by (simp add: timers_off_iff)
  show ?thesis
    using assms deauth_update[OF k, of a] by (simp add: ms_handleDeauthenticationFrame_def Some t ms_stuck_def quiet_def outside_def)
qed

lemma ms_stuck_frame:
  assumes "ms_stuck ms" "ms_processFrame now pk ms = Inr (ms', effs)"
  shows "ms_stuck ms' \<and> effs = []"
proof (cases "mf_body pk")
  case (Authentication_Frame seq status l)
  have "ap_authTimeout ap = None" if "ms_lookupAP a ms = Some ap" for a ap
    using ms_lookupAP_Some[OF that] assms(1) by (simp add: ms_stuck_def timers_off_iff)
  with assms Authentication_Frame show ?thesis
    by (auto simp: ms_processFrame_def ms_handleAuthenticationFrame_def split: option.splits if_splits)
next
  case (Disassociation_Frame r)
  with assms show ?thesis
    by (auto simp: ms_processFrame_def ms_handleDisassociationFrame_def ms_stuck_def outside_def keys_ok_def ms_keys_def
        quiet_def timers_off_def)
next
  case (Association_Response_Frame st)
  with assms show ?thesis by (auto simp: ms_processFrame_def ms_handleAssociationResponseFrame_def ms_stuck_def outside_def)
qed (use assms in \<open>auto simp: ms_processFrame_def cpp_bind_Inr_iff intro: ms_stuck_deauth ms_stuck_store ms_stuck_beacon\<close>)

lemma stuck_step:
  assumes "stuck s" "st_step ok s s'"
  shows "stuck s' \<and> st_flag s' = st_flag s"
proof -
  have q: "st_queue s = []" "st_started s" "ms_stuck (st_mgmt s)" using assms(1) by (simp_all add: stuck_def ms_stuck_def)
  from assms(2) obtain i now where i: "input_enabled i s" "st_input now i s = Inr s'"
    by (rule st_stepE) (use q in auto)
  show ?thesis
  proof (cases i)
    case Startup
    with i q show ?thesis by (simp add: input_enabled_def)
  next
    case (Frame pk)
    then obtain ms effs where f: "ms_processFrame now pk (st_mgmt s) = Inr (ms, effs)" "s' = st_mgmtEffects effs (s\<lparr>st_mgmt := ms\<rparr>)"
      using i(2) by (auto simp: st_input_def cpp_bind_Inr_iff)
    from ms_stuck_frame[OF q(3) f(1)] q f(2) show ?thesis by (simp add: stuck_def ms_stuck_def)
  next
    case (Mgmt_Timer t)
    with i(1) stuck_no_timer[OF assms(1)] show ?thesis by (simp add: input_enabled_def)
  next
    case (Reception r)
    then have "s' = s\<lparr>st_mgmt := ms_receiveSignal r (st_mgmt s)\<rparr>" using i(2) by (simp add: st_input_def)
    with q show ?thesis
      by (simp add: stuck_def ms_stuck_def ms_receiveSignal_def keys_ok_def ms_keys_def quiet_def outside_def timers_off_def)
  qed
qed

lemma stuck_reachable:
  assumes "st_reachable ok s s'" "stuck s"
  shows "stuck s' \<and> st_flag s' = st_flag s"
  using assms(1)
proof induction
  case here
  with assms(2) show ?case by simp
next
  case (there s1 s2)
  with stuck_step[of s1 ok s2] show ?case by simp
qed

text \<open>Which of the frames stop the station, and that the others leave it as it is.\<close>

lemma disassociation_stops:
  assumes "station_ok s" "st_queue s = []" "mf_body pk = Disassociation_Frame r" "st_input now (Frame pk) s = Inr s1"
  shows "if ms_isAssociated (st_mgmt s) \<and> mf_address3 pk = ap_address (ms_assocAP (st_mgmt s)) \<or> ms_assocTimeout (st_mgmt s) \<noteq> None
    then stuck s1 \<and> st_flag s1 = st_flag s else s1 = s"
proof -
  have rest: "at_rest (st_mgmt s) (st_started s) (st_flag s)" using assms(1,2) by (simp add: station_ok_def)
  let ?hit = "ms_isAssociated (st_mgmt s) \<and> mf_address3 pk = ap_address (ms_assocAP (st_mgmt s)) \<or> ms_assocTimeout (st_mgmt s) \<noteq> None"
  have i: "s1 = s\<lparr>st_mgmt := ms_handleDisassociationFrame (mf_address3 pk) (st_mgmt s)\<rparr>"
    using assms(3,4) by (simp add: st_input_def ms_processFrame_def)
  show ?thesis
  proof (cases ?hit)
    case True
    then have "quiet (st_mgmt s)" "timers_off (st_mgmt s)" "st_started s" "keys_ok (st_mgmt s)"
      "ms_isAssociated (st_mgmt s) \<or> ms_beaconTimeout (st_mgmt s) = None"
      "ms_isAssociated (st_mgmt s) \<longrightarrow> ms_assocTimeout (st_mgmt s) = None"
      using rest by (auto simp: at_rest_def outside_def ms_ok_def)
    then have "stuck s1 \<and> st_flag s1 = st_flag s" using True assms(2)
      by (auto simp: i ms_handleDisassociationFrame_def Let_def stuck_def quiet_def outside_def
          timers_off_def keys_ok_def ms_keys_def split: if_splits)
    then show ?thesis using True by (simp only: if_True)
  next
    case False
    then have "ms_assocTimeout (st_mgmt s) = None" by blast
    then have "(st_mgmt s)\<lparr>ms_assocTimeout := None\<rparr> = st_mgmt s" by (cases "st_mgmt s") simp
    then have "s1 = s" using False by (auto simp: i ms_handleDisassociationFrame_def)
    then show ?thesis using False by (simp only: if_False)
  qed
qed

lemma station_ok_not_stuck: "station_ok s \<Longrightarrow> \<not> stuck s"
  by (fastforce simp: station_ok_def stuck_def at_rest_def scanning_def quiet_def outside_def authenticating_def timers_off_def list_all_iff)

text \<open>In a run with any frames a station keeps its invariant, or a disassociation frame has stopped it.\<close>

lemma station_ok_or_stuck:
  assumes "st_reachable ok s0 s" "station_initial s0"
  shows "station_ok s \<or> stuck s \<and> (\<exists>i. ok i \<and> is_disassociation i)"
  using assms(1)
proof induction
  case here
  show ?case using station_initial_ok[OF assms(2)] by simp
next
  case (there s s')
  show ?case
  proof (cases "stuck s")
    case True
    with there.IH stuck_step[OF True there.hyps(2)] station_ok_not_stuck show ?thesis by blast
  next
    case False
    with there.IH have ok: "station_ok s" by simp
    from there.hyps(2) consider m q now where "st_queue s = m # q" "st_deliver now m (s\<lparr>st_queue := q\<rparr>) = Inr s'"
      | i now where "st_queue s = []" "ok i" "input_enabled i s" "st_input now i s = Inr s'" by (rule st_stepE)
    then show ?thesis
    proof cases
      case (1 m q now)
      with station_deliver[OF ok 1(1), of now] show ?thesis by auto
    next
      case (2 i now)
      show ?thesis
      proof (cases "is_disassociation i")
        case True
        then obtain pk r where "i = Frame pk" "mf_body pk = Disassociation_Frame r"
          by (auto simp: is_disassociation_def split: station_input.splits mgmt_body.splits)
        with disassociation_stops[OF ok 2(1)] 2(2,4) True ok show ?thesis by (fastforce split: if_splits)
      next
        case False
        from station_input_kept[OF ok 2(1,3) False 2(4)] show ?thesis by simp
      qed
    qed
  qed
qed

section \<open>With any frames\<close>

text \<open>The frames an associated or associating station cannot handle.\<close>

definition malformed :: "station_input \<Rightarrow> mgmt_sta \<Rightarrow> bool" where
  "malformed i ms = (case i of
      Frame pk \<Rightarrow> (case mf_body pk of
          Unexpected_Frame \<Rightarrow> True
        | Beacon_Frame _ _ _ \<Rightarrow> mf_signalPower pk = None
        | Probe_Response_Frame _ _ _ \<Rightarrow> mf_signalPower pk = None
        | Association_Response_Frame _ \<Rightarrow> ms_assocTimeout ms \<noteq> None \<and> ms_lookupAP (mf_transmitter pk) ms = None
        | _ \<Rightarrow> False)
    | _ \<Rightarrow> False)"

lemma storeAPInfo_ok: "cpp_ok (ms_storeAPInfo a p ssid c bi ms) \<longleftrightarrow> p \<noteq> None"
  by (auto simp: ms_storeAPInfo_def Let_def split: option.splits)

text \<open>What the handlers of frames need.\<close>

definition frames_fit :: "mgmt_sta \<Rightarrow> bool" where
  "frames_fit ms = (keys_ok ms \<and> (ms_isAssociated ms \<longrightarrow> ms_beaconTimeout ms \<noteq> None))"

lemma frames_fit_stuck: "stuck s \<Longrightarrow> frames_fit (st_mgmt s)"
  by (simp add: stuck_def frames_fit_def outside_def)

lemma frames_fit_rest: "at_rest ms st fl \<Longrightarrow> frames_fit ms"
  by (simp add: at_rest_def ms_ok_def frames_fit_def)

lemma beacon_ok:
  assumes "frames_fit ms"
  shows "cpp_ok (ms_handleBeaconFrame now a p ssid c bi ms) \<longleftrightarrow> p \<noteq> None"
proof (cases "ms_storeAPInfo a p ssid c bi ms")
  case (Inl e)
  then show ?thesis using storeAPInfo_ok[of a p ssid c bi ms] by (simp add: ms_handleBeaconFrame_def)
next
  case (Inr ms1)
  have "keys_ok ms" using assms by (simp add: frames_fit_def)
  from ms_storeAPInfo_keys[OF Inr this] assms have "ms_isAssociated ms1 \<longrightarrow> ms_beaconTimeout ms1 \<noteq> None"
    by (auto simp: same_control_def frames_fit_def)
  then show ?thesis using Inr storeAPInfo_ok[of a p ssid c bi ms] by (auto simp: ms_handleBeaconFrame_def)
qed

lemma cpp_ok_bind_pair: "cpp_ok (cpp_bind m (\<lambda>x. Inr (f x))) \<longleftrightarrow> cpp_ok m"
  by (cases m) auto

lemma frame_ok:
  assumes "frames_fit ms"
  shows "cpp_ok (ms_processFrame now pk ms) \<longleftrightarrow> \<not> malformed (Frame pk) ms"
  using beacon_ok[OF assms] storeAPInfo_ok
  by (cases "mf_body pk") (auto simp: ms_processFrame_def malformed_def cpp_ok_bind_pair ms_handleAssociationResponseFrame_def
      Let_def split: option.splits)

lemma advance_ok:
  assumes "scanning ms"
  shows "cpp_ok (ms_advanceScan now (ms\<lparr>ms_scanTimers := []\<rparr>))"
proof -
  let ?m = "ms\<lparr>ms_scanTimers := []\<rparr>"
  have "\<exists>ms' effs b. ms_scanNextChannel now ?m = Inr (ms', effs, b)"
    using ms_scanNextChannel_cases[of ?m now] assms by (auto simp: scanning_def scan_index_ok_def)
  then show ?thesis by (auto simp: ms_advanceScan_def)
qed

lemma timer_ok:
  assumes "at_rest ms st fl" "timer_pending t ms"
  shows "cpp_ok (ms_handleTimer now t ms)"
proof (cases t)
  case (Scan_Timer k)
  then have "k \<in> fst ` set (ms_scanTimers ms)" using assms(2) by (simp add: timer_pending_def)
  note s = timer_scan[OF assms(1) this]
  then have pop: "ms_popTimer k ms = ms\<lparr>ms_scanTimers := []\<rparr>" by (simp add: ms_popTimer_def)
  show ?thesis using advance_ok[of ms now] s pop Scan_Timer by (cases k) (auto simp: ms_handleTimer_def Let_def)
qed (use assms(2) in \<open>simp_all add: ms_handleTimer_def timer_pending_def\<close>)

text \<open>
  C25. Whatever frames come in, disassociation frames included, the only inputs a station throws on while no message is on its
  way between the management entity and the agent are frames: a frame of an unknown class, a beacon or probe response whose packet
  has no power indication, and an association response from an access point that is not in the list while an
  association is pending. Timers, among them the assertion on the beacon timer, never fail.
\<close>

theorem station_input_errors:
  assumes "st_reachable ok s0 s" "station_initial s0" "st_queue s = []" "input_enabled i s"
  shows "cpp_ok (st_input now i s) \<longleftrightarrow> \<not> malformed i (st_mgmt s)"
proof -
  have r: "at_rest (st_mgmt s) (st_started s) (st_flag s) \<or> stuck s"
    using station_ok_or_stuck[OF assms(1,2)] assms(3) by (auto simp: station_ok_def)
  then have ok: "frames_fit (st_mgmt s)" using frames_fit_rest frames_fit_stuck by blast
  show ?thesis
  proof (cases i)
    case Startup
    then show ?thesis by (simp add: st_input_def ag_handleTimer_def malformed_def)
  next
    case (Frame pk)
    have "cpp_ok (st_input now i s) = cpp_ok (ms_processFrame now pk (st_mgmt s))"
      by (cases "ms_processFrame now pk (st_mgmt s)") (auto simp: st_input_def Frame)
    with frame_ok[OF ok] Frame show ?thesis by simp
  next
    case (Mgmt_Timer t)
    have "cpp_ok (st_input now i s) = cpp_ok (ms_handleTimer now t (st_mgmt s))"
      by (cases "ms_handleTimer now t (st_mgmt s)") (auto simp: st_input_def Mgmt_Timer)
    moreover have "timer_pending t (st_mgmt s)" using assms(4) Mgmt_Timer by (simp add: input_enabled_def)
    ultimately show ?thesis using r timer_ok stuck_no_timer Mgmt_Timer by (auto simp: malformed_def)
  next
    case (Reception x)
    then show ?thesis by (simp add: st_input_def malformed_def)
  qed
qed

lemma station_input_errors_witness:
  "cpp_ok (st_input 0 (Frame (ex_frame (Beacon_Frame ''net'' 0 1))) ex_associated)
   \<and> \<not> cpp_ok (st_input 0 (Frame (ex_frame Unexpected_Frame)) ex_associated)"
  using station_input_errors[OF ex_associated_reachable ex_station_initial, of "Frame (ex_frame (Beacon_Frame ''net'' 0 1))" 0]
    station_input_errors[OF ex_associated_reachable ex_station_initial, of "Frame (ex_frame Unexpected_Frame)" 0]
    ex_associated_run by (simp add: malformed_def ex_frame_def input_enabled_def)

text \<open>
  C26. A started station does not hang, unless a disassociation frame stops it: whatever inputs came in, whenever no message is on
  its way between the management entity and the agent, some timer of the management entity is running, and its
  event is handled without an error; or the station is stopped (C27), and then there was a disassociation frame among the inputs.
\<close>

theorem station_waits:
  assumes "st_reachable ok s0 s" "station_initial s0" "st_queue s = []" "st_started s"
  shows "(\<exists>t. timer_pending t (st_mgmt s) \<and> cpp_ok (st_input now (Mgmt_Timer t) s)) \<or> stuck s \<and> (\<exists>i. ok i \<and> is_disassociation i)"
proof (cases "stuck s \<and> (\<exists>i. ok i \<and> is_disassociation i)")
  case False
  then have "station_ok s" using station_ok_or_stuck[OF assms(1,2)] by blast
  then have r: "at_rest (st_mgmt s) True (st_flag s)" using assms(3,4) by (simp add: station_ok_def)
  have "\<exists>t. timer_pending t (st_mgmt s)"
  proof -
    consider "scanning (st_mgmt s)" | a where "authenticating a (st_mgmt s)" | "ms_assocTimeout (st_mgmt s) \<noteq> None"
      | "ms_isAssociated (st_mgmt s)" "ms_ok (st_mgmt s)" using r by (auto simp: at_rest_def)
    then show ?thesis
    proof cases
      case 1
      then obtain x where "ms_scanTimers (st_mgmt s) = [x]" by (auto simp: scanning_def length_Suc_conv)
      then have "timer_pending (Scan_Timer (fst x)) (st_mgmt s)" by (simp add: timer_pending_def)
      then show ?thesis by blast
    next
      case (2 a)
      then obtain k where k: "k \<in> set (ms_keys (st_mgmt s))" "fst k = a" "snd (snd k) \<noteq> None"
        by (auto simp: authenticating_def list_all_iff)
      then obtain ap where "ap \<in> set (ms_apList (st_mgmt s))" "ap_address ap = a" "ap_authTimeout ap \<noteq> None"
        by (auto simp: ms_keys_def ap_key_def)
      then have "timer_pending (Auth_Timeout a) (st_mgmt s)" by (auto simp: timer_pending_def list_ex_iff)
      then show ?thesis by blast
    next
      case 3
      then have "timer_pending Assoc_Timeout (st_mgmt s)" by (simp add: timer_pending_def)
      then show ?thesis by blast
    next
      case 4
      then have "timer_pending Beacon_Timeout (st_mgmt s)" by (simp add: timer_pending_def ms_ok_def)
      then show ?thesis by blast
    qed
  qed
  then obtain t where t: "timer_pending t (st_mgmt s)" by blast
  have "cpp_ok (st_input now (Mgmt_Timer t) s)"
    using timer_ok[OF r t, of now] by (cases "ms_handleTimer now t (st_mgmt s)") (auto simp: st_input_def)
  with t show ?thesis by blast
qed blast

lemma station_waits_witness:
  "\<exists>t. timer_pending t (st_mgmt ex_associated) \<and> cpp_ok (st_input 0 (Mgmt_Timer t) ex_associated)"
  using station_waits[OF ex_associated_reachable ex_station_initial, of 0] ex_associated_run by simp

text \<open>
  C27. A disassociation frame stops a station for good. When it comes from the access point the
  station is associated with, or, whoever sends it, while an association is pending, then
  afterwards the station is not associated, no timer runs, no message is ever on its way to the agent
  and the application keeps the flag it had, whatever inputs follow: a bus that was associated
  goes on using Wi-Fi for ever.
\<close>

theorem station_stopped_by_disassociation:
  assumes "st_reachable_quietly s0 s" "station_initial s0" "st_queue s = []"
    and "mf_body pk = Disassociation_Frame r"
    and "ms_isAssociated (st_mgmt s) \<and> mf_address3 pk = ap_address (ms_assocAP (st_mgmt s)) \<or> ms_assocTimeout (st_mgmt s) \<noteq> None"
    and "st_input now (Frame pk) s = Inr s1" "st_reachable (\<lambda>_. True) s1 s2"
  shows "\<not> ms_isAssociated (st_mgmt s2) \<and> st_queue s2 = [] \<and> \<not> timer_pending t (st_mgmt s2) \<and> st_flag s2 = st_flag s"
proof -
  have "stuck s1" "st_flag s1 = st_flag s"
    using disassociation_stops[OF reachable_ok[OF assms(1,2)] assms(3,4,6)] assms(5) by (auto split: if_splits)
  with stuck_reachable[OF assms(7)] stuck_no_timer[of s2 t] show ?thesis by (simp add: stuck_def outside_def)
qed

definition ex_left :: station where
  "ex_left = (case st_input 0 (Frame (ex_frame (Disassociation_Frame 8))) ex_associated of Inl _ \<Rightarrow> ex_station | Inr s \<Rightarrow> s)"

lemma ex_left_run: "st_input 0 (Frame (ex_frame (Disassociation_Frame 8))) ex_associated = Inr ex_left"
  by (simp add: ex_left_def st_input_def ms_processFrame_def ex_frame_def)

lemma station_stopped_by_disassociation_witness:
  "\<not> ms_isAssociated (st_mgmt ex_left) \<and> st_flag ex_left"
  using station_stopped_by_disassociation[OF ex_associated_reachable ex_station_initial _ _ _ ex_left_run st_reachable.here, of 8]
    ex_associated_run by (simp add: ex_frame_def)

end
