(* ===== verification/Ap_Properties.thy ===== *)
theory Ap_Properties
  imports Mgmt_Ap
begin

text \<open>
  What an access point promises: a station that talks to it over a channel without losses joins
  it, and no station is taken in without the authentication sequence, unless it sends a
  disassociation frame.
\<close>

section \<open>Joining\<close>

lemma update_first_find:
  "(\<And>x. P (f x) = P x) \<Longrightarrow> find P (update_first P f xs) = map_option f (find P xs)"
  by (induction xs) auto

lemma ms_lookupAP_update:
  assumes "\<And>x. ap_address (f x) = ap_address x"
  shows "ms_lookupAP a (ms_updateAP a f ms) = map_option f (ms_lookupAP a ms)"
  unfolding ms_lookupAP_def ms_updateAP_def using update_first_find[of "\<lambda>ap. ap_address ap = a" f "ms_apList ms"]
  by (simp add: assms)

text \<open>A request of the agent, and the exchange of frames it starts.\<close>

definition wlan_request ::
  "simtime \<Rightarrow> mac_address \<Rightarrow> prim_request \<Rightarrow> mgmt_sta \<Rightarrow> mgmt_ap \<Rightarrow>
   (mgmt_sta \<times> mgmt_ap \<times> prim_confirm list \<times> mgmt_body list) cpp" where
  "wlan_request now s req ms ma = cpp_bind (ms_handleCommand now req ms) (\<lambda>(ms1, effs).
     wlan_run 3 now s (frames_to (ma_address ma) effs) ms1 ma)"

lemma ma_setters [simp]:
  "ma_address (ma_setStatus a st ma) = ma_address ma" "ma_numAuthSteps (ma_setStatus a st ma) = ma_numAuthSteps ma"
  "ma_staList (ma_setStatus a st ma) = ma_staList ma" "ma_stations (ma_setStatus a st ma) = (ma_stations ma)(a := st)"
  "ma_address (ma_setExpected a k ma) = ma_address ma" "ma_numAuthSteps (ma_setExpected a k ma) = ma_numAuthSteps ma"
  "ma_staList (ma_setExpected a k ma) = (ma_staList ma)(a := Some k)" "ma_stations (ma_setExpected a k ma) = ma_stations ma"
  by (simp_all add: ma_setStatus_def ma_setExpected_def)

lemma frames_for_append: "frames_for s (xs @ ys) = frames_for s xs @ frames_for s ys"
  by (induction s xs rule: frames_for.induct) auto

lemma frames_for_leaving [simp]: "frames_for s (ma_leaving a ma) = []"
  by (simp add: ma_leaving_def)

text \<open>What the access point answers to the frames of a correct sequence.\<close>

lemma ap_first_frame:
  assumes "ma_handleAuthenticationFrame s 1 ma = (ma1, es)" "ma_numAuthSteps ma = n"
  shows "frames_for s es = [Authentication_Frame 2 SC_SUCCESSFUL (n = 2)] \<and> ma_address ma1 = ma_address ma \<and> ma_numAuthSteps ma1 = n
    \<and> ma_staList ma1 s = Some (if n = 2 then 1 else 3) \<and> (n = 2 \<longrightarrow> ma_stations ma1 s = AUTHENTICATED)"
proof -
  have "frames_for s es = [Authentication_Frame 2 SC_SUCCESSFUL (n = 2)]"
    using assms by (auto simp: ma_handleAuthenticationFrame_def Let_def ma_lookupSenderSTA_def frames_for_append
        split: option.splits if_splits)
  moreover have "ma_address ma1 = ma_address ma \<and> ma_numAuthSteps ma1 = n
    \<and> ma_staList ma1 s = Some (if n = 2 then 1 else 3) \<and> (n = 2 \<longrightarrow> ma_stations ma1 s = AUTHENTICATED)"
    using assms by (auto simp: ma_handleAuthenticationFrame_def Let_def ma_lookupSenderSTA_def split: option.splits if_splits)
  ultimately show ?thesis by blast
qed

lemma ap_third_frame:
  assumes "ma_handleAuthenticationFrame s 3 ma = (ma1, es)" "ma_numAuthSteps ma = 4" "ma_staList ma s = Some 3"
  shows "frames_for s es = [Authentication_Frame 4 SC_SUCCESSFUL True] \<and> ma_address ma1 = ma_address ma
    \<and> ma_staList ma1 s = Some 3 \<and> ma_stations ma1 s = AUTHENTICATED"
  using assms by (auto simp: ma_handleAuthenticationFrame_def Let_def ma_lookupSenderSTA_def frames_for_append)

lemma ap_association_request:
  assumes "ma_staList ma s \<noteq> None" "ma_stations ma s \<noteq> NOT_AUTHENTICATED"
  shows "\<exists>es. ma_handleAssociationRequestFrame s ma = (ma_setStatus s ASSOCIATED ma, es)
    \<and> frames_for s es = [Association_Response_Frame SC_SUCCESSFUL]"
  using assms by (simp add: ma_handleAssociationRequestFrame_def ma_lookupSenderSTA_def frames_for_append)

text \<open>What the station does with the frames of the access point it authenticates with.\<close>

lemma sta_more_steps:
  assumes "ms_lookupAP a ms = Some ap" "\<not> ap_isAuthenticated ap" "ap_authTimeout ap \<noteq> None" "ap_authSeqExpected ap = 2"
  shows "\<exists>ms1. ms_handleAuthenticationFrame a 2 SC_SUCCESSFUL False ms =
      (ms1, [Send_Frame (Authentication_Frame 3 SC_SUCCESSFUL False) a])
    \<and> ms_lookupAP a ms1 = Some (ap\<lparr>ap_authSeqExpected := 4\<rparr>)
    \<and> ms_isAssociated ms1 = ms_isAssociated ms \<and> ms_assocTimeout ms1 = ms_assocTimeout ms"
  using assms by (simp add: ms_handleAuthenticationFrame_def ms_lookupAP_update) (simp add: ms_updateAP_def)

lemma sta_last_step:
  assumes "ms_lookupAP a ms = Some ap" "\<not> ap_isAuthenticated ap" "ap_authTimeout ap \<noteq> None"
    and "ap_authSeqExpected ap = uint seq" "ap_address ap = a"
  shows "\<exists>ms1. ms_handleAuthenticationFrame a seq SC_SUCCESSFUL True ms = (ms1, [Send_Confirm (Authenticate_Confirm PRC_SUCCESS a)])
    \<and> ms_lookupAP a ms1 = Some (ap\<lparr>ap_isAuthenticated := True, ap_authTimeout := None\<rparr>)
    \<and> ms_isAssociated ms1 = ms_isAssociated ms \<and> ms_assocTimeout ms1 = ms_assocTimeout ms"
  using assms by (simp add: ms_handleAuthenticationFrame_def ms_lookupAP_update ms_sendAuthenticationConfirm_def
      ms_statusCodeToPrimResultCode_def) (simp add: ms_updateAP_def)

lemma lookup_address: "ms_lookupAP a ms = Some ap \<Longrightarrow> ap_address ap = a"
  by (auto simp: ms_lookupAP_def find_Some_iff)

lemma wlan_authenticate:
  assumes "ms_lookupAP (ma_address ma) ms = Some ap" "\<not> ap_isAuthenticated ap" "ap_authTimeout ap = None"
    and "ma_numAuthSteps ma = 2 \<or> ma_numAuthSteps ma = 4"
  shows "\<exists>ms1 ma1 ap1. wlan_request now s (Authenticate_Request (ma_address ma) t) ms ma =
      Inr (ms1, ma1, [Authenticate_Confirm PRC_SUCCESS (ma_address ma)], [])
    \<and> ma_address ma1 = ma_address ma \<and> ma_staList ma1 s \<noteq> None \<and> ma_stations ma1 s = AUTHENTICATED
    \<and> ms_lookupAP (ma_address ma) ms1 = Some ap1 \<and> ap_isAuthenticated ap1
    \<and> ms_isAssociated ms1 = ms_isAssociated ms \<and> ms_assocTimeout ms1 = ms_assocTimeout ms"
proof -
  let ?a = "ma_address ma"
  let ?f = "\<lambda>x. x\<lparr>ap_authSeqExpected := 2, ap_authTimeout := Some (now + t)\<rparr>"
  let ?ms = "ms_updateAP ?a ?f ms"
  note ad = lookup_address[OF assms(1)]
  have l: "ms_lookupAP ?a ?ms = Some (?f ap)" using assms(1) by (simp add: ms_lookupAP_update)
  have same: "ms_isAssociated ?ms = ms_isAssociated ms" "ms_assocTimeout ?ms = ms_assocTimeout ms" by (simp_all add: ms_updateAP_def)
  have c: "ms_handleCommand now (Authenticate_Request ?a t) ms =
      Inr (?ms, [Change_Channel (ap_channel ap), Send_Frame (Authentication_Frame 1 SC_SUCCESSFUL False) ?a])"
    using assms(1-3) ad by (simp add: ms_handleCommand_def ms_processAuthenticateCommand_def ms_startAuthentication_def)
  obtain ma1 es where h: "ma_handleAuthenticationFrame s 1 ma = (ma1, es)" by fastforce
  note a1 = ap_first_frame[OF h refl]
  show ?thesis
  proof (cases "ma_numAuthSteps ma = 2")
    case True
    obtain ms1 where "ms_handleAuthenticationFrame ?a 2 SC_SUCCESSFUL True ?ms = (ms1, [Send_Confirm (Authenticate_Confirm PRC_SUCCESS ?a)])"
      "ms_lookupAP ?a ms1 = Some ((?f ap)\<lparr>ap_isAuthenticated := True, ap_authTimeout := None\<rparr>)"
      "ms_isAssociated ms1 = ms_isAssociated ?ms" "ms_assocTimeout ms1 = ms_assocTimeout ?ms"
      using sta_last_step[OF l, of 2] assms(2) ad by auto
    with True h a1 c same show ?thesis
      by (simp add: wlan_request_def numeral_3_eq_3 ma_processFrame_def from_addr_def sta_receive_def ms_processFrame_def)
  next
    case False
    then have n: "ma_numAuthSteps ma = 4" using assms(4) by simp
    obtain ms1 where m1: "ms_handleAuthenticationFrame ?a 2 SC_SUCCESSFUL False ?ms =
        (ms1, [Send_Frame (Authentication_Frame 3 SC_SUCCESSFUL False) ?a])"
      "ms_lookupAP ?a ms1 = Some ((?f ap)\<lparr>ap_authSeqExpected := 4\<rparr>)"
      "ms_isAssociated ms1 = ms_isAssociated ?ms" "ms_assocTimeout ms1 = ms_assocTimeout ?ms"
      using sta_more_steps[OF l] assms(2) by auto
    obtain ma2 es2 where h2: "ma_handleAuthenticationFrame s 3 ma1 = (ma2, es2)" by fastforce
    note a2 = ap_third_frame[OF h2]
    obtain ms2 where "ms_handleAuthenticationFrame ?a 4 SC_SUCCESSFUL True ms1 = (ms2, [Send_Confirm (Authenticate_Confirm PRC_SUCCESS ?a)])"
      "ms_lookupAP ?a ms2 = Some ((?f ap)\<lparr>ap_authSeqExpected := 4, ap_isAuthenticated := True, ap_authTimeout := None\<rparr>)"
      "ms_isAssociated ms2 = ms_isAssociated ms1" "ms_assocTimeout ms2 = ms_assocTimeout ms1"
      using sta_last_step[OF m1(2), of 4] assms(2) ad by auto
    with n h a1 c same m1 h2 a2 show ?thesis
      by (simp add: wlan_request_def numeral_3_eq_3 ma_processFrame_def from_addr_def sta_receive_def ms_processFrame_def)
  qed
qed

lemma wlan_associate:
  assumes "ms_lookupAP (ma_address ma) ms = Some ap" "ap_isAuthenticated ap" "\<not> ms_isAssociated ms" "ms_assocTimeout ms = None"
    and "ma_staList ma s \<noteq> None" "ma_stations ma s \<noteq> NOT_AUTHENTICATED"
  shows "\<exists>ms1 ma1. wlan_request now s (Associate_Request (ma_address ma) t) ms ma =
      Inr (ms1, ma1, [Associate_Confirm PRC_SUCCESS 0], [])
    \<and> ma_stations ma1 s = ASSOCIATED \<and> ms_isAssociated ms1 \<and> ms_bssid ms1 = ma_address ma"
proof -
  obtain es where "ma_handleAssociationRequestFrame s ma = (ma_setStatus s ASSOCIATED ma, es)"
    "frames_for s es = [Association_Response_Frame SC_SUCCESSFUL]" using ap_association_request[OF assms(5,6)] by blast
  with assms(1-4) lookup_address[OF assms(1)] show ?thesis
    by (simp add: wlan_request_def numeral_3_eq_3 ms_handleCommand_def ms_processAssociateCommand_def ms_startAssociation_def
        ma_processFrame_def from_addr_def sta_receive_def ms_processFrame_def ms_handleAssociationResponseFrame_def
        ms_sendAssociationConfirm_def ms_statusCodeToPrimResultCode_def Let_def ms_lookupAP_def)
qed

text \<open>
  C28. Over a channel without losses the two requests of the agent join the station to the access
  point, with two or four authentication steps and whatever the access point remembers of the
  station: each is answered by exactly one confirm, of success, and both sides end associated with each other.
\<close>

theorem wlan_join:
  assumes "ms_lookupAP (ma_address ma) ms = Some ap" "\<not> ap_isAuthenticated ap" "ap_authTimeout ap = None"
    and "\<not> ms_isAssociated ms" "ms_assocTimeout ms = None" "ma_numAuthSteps ma = 2 \<or> ma_numAuthSteps ma = 4"
  shows "\<exists>ms1 ma1 ms2 ma2.
      wlan_request now s (Authenticate_Request (ma_address ma) t) ms ma = Inr (ms1, ma1, [Authenticate_Confirm PRC_SUCCESS (ma_address ma)], [])
    \<and> wlan_request now' s (Associate_Request (ma_address ma) t') ms1 ma1 = Inr (ms2, ma2, [Associate_Confirm PRC_SUCCESS 0], [])
    \<and> ma_stations ma1 s = AUTHENTICATED \<and> ma_stations ma2 s = ASSOCIATED \<and> ms_isAssociated ms2 \<and> ms_bssid ms2 = ma_address ma"
proof -
  obtain ms1 ma1 ap1 where a: "wlan_request now s (Authenticate_Request (ma_address ma) t) ms ma =
      Inr (ms1, ma1, [Authenticate_Confirm PRC_SUCCESS (ma_address ma)], [])"
    "ma_address ma1 = ma_address ma" "ma_staList ma1 s \<noteq> None" "ma_stations ma1 s = AUTHENTICATED"
    "ms_lookupAP (ma_address ma) ms1 = Some ap1" "ap_isAuthenticated ap1"
    "ms_isAssociated ms1 = ms_isAssociated ms" "ms_assocTimeout ms1 = ms_assocTimeout ms"
    using wlan_authenticate[OF assms(1-3,6), of now s t] by blast
  then show ?thesis using wlan_associate[of ma1 ms1 ap1 s now' t'] assms(4,5) by auto
qed

definition ex_sta :: mgmt_sta where
  "ex_sta = \<lparr>ms_numChannels = 1, ms_isScanning = False,
     ms_scanning = \<lparr>sc_bssid = 0, sc_ssid = [], sc_activeScan = False, sc_probeDelay = 0, sc_channelList = [],
       sc_currentChannelIndex = -1, sc_busyChannelDetected = False, sc_minChannelTime = 0, sc_maxChannelTime = 0\<rparr>,
     ms_scanTimers = [], ms_apList = [ap_info_new\<lparr>ap_address := 7\<rparr>], ms_assocTimeout = None, ms_assocAP = ap_info_new,
     ms_beaconTimeout = None, ms_isAssociated = False, ms_bssid = 0, ms_ssid = []\<rparr>"

definition ex_ap :: mgmt_ap where
  "ex_ap = \<lparr>ma_address = 7, ma_ssid = ''net'', ma_channelNumber = 0, ma_beaconInterval = 1, ma_numAuthSteps = 4,
     ma_staList = \<lambda>_. None, ma_stations = \<lambda>_. NOT_AUTHENTICATED, ma_beaconTimer = None\<rparr>"

lemma wlan_join_witness:
  "\<exists>ms1 ma1. wlan_request 0 9 (Authenticate_Request 7 5) ex_sta ex_ap = Inr (ms1, ma1, [Authenticate_Confirm PRC_SUCCESS 7], [])
    \<and> ma_stations ma1 9 = AUTHENTICATED"
proof -
  have "ms_lookupAP (ma_address ex_ap) ex_sta = Some (ap_info_new\<lparr>ap_address := 7\<rparr>)" "\<not> ms_isAssociated ex_sta"
    "ms_assocTimeout ex_sta = None" "ma_numAuthSteps ex_ap = 4" "ma_address ex_ap = 7"
    by (simp_all add: ex_ap_def ex_sta_def ms_lookupAP_def)
  with wlan_join[of ex_ap ex_sta "ap_info_new\<lparr>ap_address := 7\<rparr>" 0 9 5 0 5] show ?thesis
    by (auto simp: ap_info_new_def)
qed

section \<open>Who is taken in\<close>

text \<open>The frames an access point has received.\<close>

definition ma_step :: "mgmt_packet \<Rightarrow> mgmt_ap \<times> ap_effect list \<Rightarrow> (mgmt_ap \<times> ap_effect list) cpp" where
  "ma_step pk s = cpp_bind (ma_processFrame pk (fst s)) (\<lambda>(ma, es). Inr (ma, snd s @ es))"

definition ma_run :: "mgmt_packet list \<Rightarrow> mgmt_ap \<Rightarrow> (mgmt_ap \<times> ap_effect list) cpp" where
  "ma_run pks ma = cpp_fold ma_step pks (ma, [])"

definition is_authentication :: "mac_address \<Rightarrow> int \<Rightarrow> mgmt_packet \<Rightarrow> bool" where
  "is_authentication a k pk = (mf_transmitter pk = a \<and> (case mf_body pk of
      Authentication_Frame seq _ _ \<Rightarrow> uint seq = k | _ \<Rightarrow> False))"

definition is_deauthentication :: "mac_address \<Rightarrow> mgmt_packet \<Rightarrow> bool" where
  "is_deauthentication a pk = (mf_transmitter pk = a \<and> (case mf_body pk of Deauthentication_Frame _ \<Rightarrow> True | _ \<Rightarrow> False))"

definition is_disassociation_of :: "mac_address \<Rightarrow> mgmt_packet \<Rightarrow> bool" where
  "is_disassociation_of a pk = (mf_transmitter pk = a \<and> (case mf_body pk of Disassociation_Frame _ \<Rightarrow> True | _ \<Rightarrow> False))"

text \<open>
  The station has gone through the sequence of \<open>n\<close> steps, the last one after its last
  deauthentication.
\<close>

definition authenticated_by :: "int \<Rightarrow> mac_address \<Rightarrow> mgmt_packet list \<Rightarrow> bool" where
  "authenticated_by n a pks = (\<exists>xs p ys. pks = xs @ p # ys \<and> is_authentication a (n - 1) p
     \<and> (n = 4 \<longrightarrow> list_ex (is_authentication a 1) xs) \<and> \<not> list_ex (is_deauthentication a) ys)"


lemma authenticated_by_later:
  assumes "authenticated_by n a pks" "\<not> is_deauthentication a pk"
  shows "authenticated_by n a (pks @ [pk])"
proof -
  obtain xs p ys where "pks = xs @ p # ys" "is_authentication a (n - 1) p" "n = 4 \<longrightarrow> list_ex (is_authentication a 1) xs"
    "\<not> list_ex (is_deauthentication a) ys" using assms(1) by (auto simp: authenticated_by_def)
  with assms(2) show ?thesis unfolding authenticated_by_def
    by (intro exI[of _ xs] exI[of _ p] exI[of _ "ys @ [pk]"]) simp
qed

lemma authenticated_by_now:
  "is_authentication a (n - 1) pk \<Longrightarrow> n = 4 \<longrightarrow> list_ex (is_authentication a 1) pks \<Longrightarrow> authenticated_by n a (pks @ [pk])"
  unfolding authenticated_by_def by (intro exI[of _ pks] exI[of _ pk] exI[of _ "[]"]) simp

text \<open>What the access point knows of a station, given the frames it has received.\<close>

definition ap_knows :: "int \<Rightarrow> mac_address \<Rightarrow> mgmt_packet list \<Rightarrow> mgmt_ap \<Rightarrow> bool" where
  "ap_knows n a pks ma = (ma_numAuthSteps ma = n \<and> ma_staList ma a \<in> {None, Some 1, Some 3}
     \<and> (ma_staList ma a = Some 3 \<longrightarrow> n = 4 \<and> list_ex (is_authentication a 1) pks)
     \<and> (ma_stations ma a \<noteq> NOT_AUTHENTICATED \<longrightarrow> ma_staList ma a \<noteq> None \<and> authenticated_by n a pks))"

text \<open>A frame that leaves the entries of the station alone.\<close>

lemma ap_knows_same:
  assumes "ap_knows n a pks ma" "ma_numAuthSteps ma' = ma_numAuthSteps ma" "ma_staList ma' a = ma_staList ma a"
    and "ma_stations ma' a = ma_stations ma a" "\<not> is_deauthentication a pk"
  shows "ap_knows n a (pks @ [pk]) ma'"
  using assms authenticated_by_later[of n a pks pk] by (auto simp: ap_knows_def)

lemma ap_knows_authentication:
  assumes "ap_knows n a pks ma" "n = 2 \<or> n = 4" "mf_transmitter pk = a" "mf_body pk = Authentication_Frame seq st l"
    and "ma_handleAuthenticationFrame a seq ma = (ma', es)"
  shows "ap_knows n a (pks @ [pk]) ma'"
proof -
  have nd: "\<not> is_deauthentication a pk" using assms(4) by (simp add: is_deauthentication_def)
  have me: "is_authentication a k pk \<longleftrightarrow> uint seq = k" for k using assms(3,4) by (simp add: is_authentication_def)
  have n: "ma_numAuthSteps ma = n" using assms(1) by (simp add: ap_knows_def)
  consider "uint seq = 1" | "uint seq \<noteq> 1" "Some (uint seq) = ma_staList ma a"
    | "uint seq \<noteq> 1" "Some (uint seq) \<noteq> ma_staList ma a" by blast
  then show ?thesis
  proof cases
    case 1
    then show ?thesis using assms(2,5) n me authenticated_by_now[of a n pk pks]
      by (auto simp: ma_handleAuthenticationFrame_def Let_def ma_lookupSenderSTA_def ap_knows_def split: option.splits)
  next
    case 2
    with assms(1) have "uint seq = 3" "n = 4" "list_ex (is_authentication a 1) pks" "ma_staList ma a = Some 3"
      by (auto simp: ap_knows_def)
    then show ?thesis using assms(5) n me authenticated_by_now[of a n pk pks]
      by (auto simp: ma_handleAuthenticationFrame_def Let_def ma_lookupSenderSTA_def ap_knows_def)
  next
    case 3
    then have "ma_staList ma' a = Some 1" "ma_numAuthSteps ma' = n"
      "ma_stations ma' a = (if ma_staList ma a = None then NOT_AUTHENTICATED else ma_stations ma a)"
      using assms(5) n by (auto simp: ma_handleAuthenticationFrame_def Let_def ma_lookupSenderSTA_def split: option.splits)
    then show ?thesis using assms(1) authenticated_by_later[OF _ nd, of n pks] by (auto simp: ap_knows_def)
  qed
qed

lemma ma_other_station:
  assumes "ma_processFrame pk ma = Inr (ma', es)" "mf_transmitter pk \<noteq> a"
  shows "ma_numAuthSteps ma' = ma_numAuthSteps ma \<and> ma_staList ma' a = ma_staList ma a \<and> ma_stations ma' a = ma_stations ma a"
  using assms
  by (cases "mf_body pk")
    (auto simp: ma_processFrame_def ma_handleAuthenticationFrame_def Let_def ma_handleDeauthenticationFrame_def
      ma_handleDisassociationFrame_def ma_handleAssociationRequestFrame_def ma_handleReassociationRequestFrame_def
      split: option.splits if_splits)

lemma ap_knows_step:
  assumes "ap_knows n a pks ma" "n = 2 \<or> n = 4" "\<not> is_disassociation_of a pk" "ma_processFrame pk ma = Inr (ma', es)"
  shows "ap_knows n a (pks @ [pk]) ma'"
proof (cases "mf_transmitter pk = a")
  case False
  then show ?thesis using ma_other_station[OF assms(4) False]
    by (intro ap_knows_same[OF assms(1)]) (simp_all add: is_deauthentication_def)
next
  case True
  note same = ap_knows_same[OF assms(1)]
  have assoc: "ap_knows n a (pks @ [pk]) ma'"
    if "ma' = ma \<or> ma_staList ma a \<noteq> None \<and> ma_stations ma a \<noteq> NOT_AUTHENTICATED \<and> ma' = ma_setStatus a ASSOCIATED ma"
      "\<not> is_deauthentication a pk"
    using that assms(1) authenticated_by_later[OF _ that(2), of n pks] by (auto simp: ap_knows_def)
  show ?thesis
  proof (cases "mf_body pk")
    case (Authentication_Frame seq st l)
    with assms(4) True show ?thesis
      by (intro ap_knows_authentication[OF assms(1,2) True Authentication_Frame]) (simp add: ma_processFrame_def)
  next
    case (Deauthentication_Frame r)
    with assms(1,4) True show ?thesis
      by (auto simp: ma_processFrame_def ma_handleDeauthenticationFrame_def ma_lookupSenderSTA_def ap_knows_def
          split: option.splits)
  next
    case (Disassociation_Frame r)
    with assms(3) True show ?thesis by (simp add: is_disassociation_of_def)
  next
    case Association_Request_Frame
    with assms(4) True show ?thesis
      by (intro assoc) (auto simp: ma_processFrame_def ma_handleAssociationRequestFrame_def ma_lookupSenderSTA_def
          is_deauthentication_def split: if_splits)
  next
    case Reassociation_Request_Frame
    with assms(4) True show ?thesis
      by (intro assoc) (auto simp: ma_processFrame_def ma_handleReassociationRequestFrame_def ma_lookupSenderSTA_def
          is_deauthentication_def split: if_splits)
  qed (use assms(4) in \<open>auto simp: ma_processFrame_def is_deauthentication_def intro: same\<close>)
qed

lemma ap_knows_run:
  assumes "cpp_fold ma_step pks (ma, es) = Inr (ma', es')" "ap_knows n a h ma" "n = 2 \<or> n = 4"
    and "\<not> list_ex (is_disassociation_of a) pks"
  shows "ap_knows n a (h @ pks) ma'"
  using assms
proof (induction pks arbitrary: h ma es)
  case (Cons pk pks)
  from Cons.prems(1) obtain ma1 e1 where s: "ma_processFrame pk ma = Inr (ma1, e1)" "cpp_fold ma_step pks (ma1, es @ e1) = Inr (ma', es')"
    by (simp add: ma_step_def[of pk] cpp_bind_Inr_iff split_beta) blast
  have "ap_knows n a (h @ [pk]) ma1" using Cons.prems(4) by (intro ap_knows_step[OF Cons.prems(2,3) _ s(1)]) simp
  from Cons.IH[OF s(2) this Cons.prems(3)] Cons.prems(4) show ?case by simp
qed simp

text \<open>
  C29. An access point that has been set up by its constructor regards a station as authenticated or
  associated only if the station has gone through the whole authentication sequence, the last frame of
  it after its last deauthentication, whatever frames all the stations have sent,
  provided the station itself has sent no disassociation frame.
\<close>

theorem ap_requires_authentication:
  assumes "ma_new addr ssid interval n = Inr ma0" "ma_run pks ma0 = Inr (ma, es)"
    and "\<not> list_ex (is_disassociation_of a) pks" "ma_stations ma a \<noteq> NOT_AUTHENTICATED"
  shows "authenticated_by n a pks"
proof -
  have "n = 2 \<or> n = 4" "ap_knows n a [] ma0" using assms(1) by (auto simp: ma_new_def ap_knows_def split: if_splits)
  from ap_knows_run[OF assms(2)[unfolded ma_run_def] this(2,1) assms(3)] assms(4) show ?thesis by (simp add: ap_knows_def)
qed

definition ex_packets :: "mgmt_packet list" where
  "ex_packets = map (from_addr 9) [Authentication_Frame 1 SC_SUCCESSFUL False, Authentication_Frame 3 SC_SUCCESSFUL False,
     Association_Request_Frame]"

lemma ap_requires_authentication_witness:
  "cpp_ok (ma_run ex_packets ex_ap) \<and> authenticated_by 4 9 ex_packets"
proof -
  have n: "ma_new 7 ''net'' 1 4 = Inr (ex_ap\<lparr>ma_channelNumber := -1\<rparr>)" by (simp add: ma_new_def ex_ap_def)
  have c: "cpp_ok (ma_run ex_packets ex_ap)" by code_simp
  have "case ma_run ex_packets (ex_ap\<lparr>ma_channelNumber := -1\<rparr>) of Inl _ \<Rightarrow> False | Inr (ma, es) \<Rightarrow> ma_stations ma 9 = ASSOCIATED"
    by code_simp
  then obtain ma es where "ma_run ex_packets (ex_ap\<lparr>ma_channelNumber := -1\<rparr>) = Inr (ma, es)" "ma_stations ma 9 = ASSOCIATED"
    by (auto split: sum.splits)
  moreover have "\<not> list_ex (is_disassociation_of 9) ex_packets" by (simp add: ex_packets_def is_disassociation_of_def from_addr_def)
  ultimately show ?thesis using ap_requires_authentication[OF n, of ex_packets ma es 9] c by simp
qed

text \<open>
  C30. Disassociation frames are the way round it: an unknown station that sends one
  authentication frame with a wrong sequence number, then a disassociation frame, is regarded as authenticated, and
  its association request is accepted, although no authentication has taken place.
\<close>

theorem ap_disassociation_bypass:
  assumes "ma_staList ma a = None" "uint seq \<noteq> 1"
    and "pks = map (from_addr a) [Authentication_Frame seq st l, Disassociation_Frame r, Association_Request_Frame]"
  shows "\<exists>ma' es. ma_run pks ma = Inr (ma', es) \<and> ma_stations ma' a = ASSOCIATED
    \<and> Ap_Send_Frame (Association_Response_Frame SC_SUCCESSFUL) a \<in> set es \<and> \<not> list_ex (is_authentication a 1) pks"
  using assms(1,2) unfolding assms(3)
  by (simp add: ma_run_def ma_step_def ma_processFrame_def from_addr_def ma_handleAuthenticationFrame_def ma_lookupSenderSTA_def
      Let_def ma_handleDisassociationFrame_def ma_handleAssociationRequestFrame_def is_authentication_def)

lemma ap_disassociation_bypass_witness:
  "\<exists>ma' es. ma_run (map (from_addr 9) [Authentication_Frame 5 SC_SUCCESSFUL False, Disassociation_Frame 8, Association_Request_Frame]) ex_ap
      = Inr (ma', es) \<and> ma_stations ma' 9 = ASSOCIATED"
  using ap_disassociation_bypass[of ex_ap 9 5 _ SC_SUCCESSFUL False 8, OF _ _ refl] by (auto simp: ex_ap_def)

end
