(* ===== verification/Rlc_Um_Packet.thy ===== *)
theory Rlc_Um_Packet
  imports Harq_Packet
begin

text \<open>
  The data of RLC in unacknowledged mode: SDUs (the packets PDCP hands down, with the \<open>LteRlcSdu\<close>
  chunk RLC puts in front), data PDUs (\<open>LteRlcDataPdu.h\<close>) and the reception window
  (\<open>LteRlcDefs.h\<close>). A fragment in a PDU is a copy of the whole packet together with the number of bytes the
  fragment stands for, as in the code.
\<close>

section \<open>SDUs and PDUs\<close>

text \<open>\<open>rs_pkt\<close> names the packet object: two pointers are equal when the names are.\<close>

record rlc_sdu =
  rs_pkt :: nat
  rs_sno :: "32 word"       \<comment> \<open>\<open>snoMainPacket\<close>\<close>
  rs_length :: nat          \<comment> \<open>\<open>lengthMainPacket\<close>, without the SDU header\<close>
  rs_byteLength :: nat      \<comment> \<open>length of the packet, SDU header included\<close>

type_synonym framing_info = "16 word"

text \<open>\<open>up_sdus\<close> holds the SDU list with the list of sizes; \<open>up_rlcPduLength\<close> is their sum and the header.\<close>

record um_pdu =
  up_sno :: "32 word"
  up_fi :: framing_info
  up_sdus :: "(rlc_sdu \<times> nat) list"
  up_rlcPduLength :: int

definition RLC_HEADER_UM :: int where "RLC_HEADER_UM = 2"

definition um_pdu_new :: um_pdu where
  "um_pdu_new = \<lparr>up_sno = 0, up_fi = 0, up_sdus = [], up_rlcPduLength = RLC_HEADER_UM\<rparr>"

definition up_pushSdu :: "rlc_sdu \<Rightarrow> int \<Rightarrow> um_pdu \<Rightarrow> um_pdu" where
  "up_pushSdu sdu len pdu = pdu\<lparr>up_sdus := up_sdus pdu @ [(sdu, nat len)], up_rlcPduLength := up_rlcPduLength pdu + len\<rparr>"

definition up_popSdu :: "um_pdu \<Rightarrow> (rlc_sdu \<times> nat \<times> um_pdu) cpp" where
  "up_popSdu pdu = (case up_sdus pdu of
      [] \<Rightarrow> Inl Undefined_Behaviour
    | (sdu, len) # xs \<Rightarrow> Inr (sdu, len, pdu\<lparr>up_sdus := xs, up_rlcPduLength := up_rlcPduLength pdu - int len\<rparr>))"

definition up_getNumSdu :: "um_pdu \<Rightarrow> nat" where
  "up_getNumSdu pdu = length (up_sdus pdu)"

section \<open>The reception window\<close>

record um_window =
  rw_firstSno :: "32 word"
  rw_firstSnoForReordering :: "32 word"
  rw_reorderingSno :: "32 word"
  rw_highestReceivedSno :: "32 word"
  rw_windowSize :: "32 word"

definition rw_clear :: "32 word \<Rightarrow> um_window \<Rightarrow> um_window" where
  "rw_clear i w = w\<lparr>rw_firstSno := i, rw_firstSnoForReordering := i, rw_reorderingSno := i, rw_highestReceivedSno := i\<rparr>"

section \<open>Sequence numbers\<close>

lemma sn_Suc: "unat a + 1 < 2 ^ 32 \<Longrightarrow> unat (a + 1 :: 32 word) = unat a + 1"
  by (simp add: unat_word_ariths)

lemma sn_add: "unat a + unat b < 2 ^ 32 \<Longrightarrow> unat (a + b :: 32 word) = unat a + unat b"
  by (simp add: unat_word_ariths)

lemma sn_sub: "unat b \<le> unat a \<Longrightarrow> unat (a - b :: 32 word) = unat a - unat b"
  by (simp add: unat_sub word_le_nat_alt)

lemma sn_of_nat: "n < 2 ^ 32 \<Longrightarrow> unat (of_nat n :: 32 word) = n"
  by (simp add: unsigned_of_nat take_bit_nat_eq_self)

end
