(* ===== verification/Rlc_Um_Stream.thy ===== *)
theory Rlc_Um_Stream
  imports Rlc_Um_Packet "HOL-Library.Sublist"
begin

text \<open>
  The sequence of PDUs a transmitting entity has made, as a cutting of a sequence of SDUs: what
  is carried from one PDU to the next (the SDU that is cut and the bytes of it sent so far)
  and which SDUs end in which PDU. It is the reference both entities are compared with.
\<close>

type_synonym carry = "(rlc_sdu \<times> nat) option"

text \<open>The carry after a list of fragments and the SDUs that end in it; no value when the list is not a cutting.\<close>

fun chunks_after :: "carry \<Rightarrow> (rlc_sdu \<times> nat) list \<Rightarrow> (carry \<times> rlc_sdu list) option" where
  "chunks_after c [] = Some (c, [])"
| "chunks_after c ((s, len) # xs) =
     (let k = (case c of None \<Rightarrow> 0 | Some (_, k) \<Rightarrow> k)
      in if (case c of None \<Rightarrow> True | Some (s', _) \<Rightarrow> s' = s) \<and> 0 < len then
           if k + len = rs_length s then map_option (\<lambda>(c', d). (c', s # d)) (chunks_after None xs)
           else if k + len < rs_length s \<and> xs = [] then Some (Some (s, k + len), [])
           else None
         else None)"

definition framing :: "carry \<Rightarrow> carry \<Rightarrow> framing_info" where
  "framing c c' = (if c \<noteq> None then 2 else 0) + (if c' \<noteq> None then 1 else 0)"

primrec carry_at :: "um_pdu list \<Rightarrow> nat \<Rightarrow> carry" where
  "carry_at ps 0 = None"
| "carry_at ps (Suc i) = fst (the (chunks_after (carry_at ps i) (up_sdus (ps ! i))))"

definition done_at :: "um_pdu list \<Rightarrow> nat \<Rightarrow> rlc_sdu list" where
  "done_at ps i = snd (the (chunks_after (carry_at ps i) (up_sdus (ps ! i))))"

definition dones :: "um_pdu list \<Rightarrow> nat \<Rightarrow> rlc_sdu list" where
  "dones ps m = concat (map (done_at ps) [0 ..< m])"

definition pdu_ok :: "um_pdu list \<Rightarrow> nat \<Rightarrow> bool" where
  "pdu_ok ps i = (chunks_after (carry_at ps i) (up_sdus (ps ! i)) \<noteq> None \<and> up_sno (ps ! i) = of_nat i
     \<and> up_fi (ps ! i) = framing (carry_at ps i) (carry_at ps (Suc i)) \<and> up_sdus (ps ! i) \<noteq> []
     \<and> list_all (\<lambda>x. rs_length (fst x) < 2 ^ 32) (up_sdus (ps ! i)))"

definition stream_ok :: "um_pdu list \<Rightarrow> bool" where
  "stream_ok ps = list_all (pdu_ok ps) [0 ..< length ps]"

lemma stream_ok_nth: "stream_ok ps \<Longrightarrow> i < length ps \<Longrightarrow> pdu_ok ps i"
  by (simp add: stream_ok_def list_all_iff)

lemma pdu_ok_chunks:
  "pdu_ok ps i \<Longrightarrow> chunks_after (carry_at ps i) (up_sdus (ps ! i)) = Some (carry_at ps (Suc i), done_at ps i)"
  by (auto simp: pdu_ok_def done_at_def)

lemma dones_Suc: "dones ps (Suc m) = dones ps m @ done_at ps m"
  by (simp add: dones_def)

lemma dones_prefix: "m \<le> n \<Longrightarrow> \<exists>xs. dones ps n = dones ps m @ xs"
  by (induction n) (auto simp: dones_Suc le_Suc_eq)

text \<open>Appending PDUs leaves the past alone.\<close>

lemma carry_at_append: "i \<le> length ps \<Longrightarrow> carry_at (ps @ qs) i = carry_at ps i"
  by (induction i) (auto simp: nth_append)

lemma done_at_append: "i < length ps \<Longrightarrow> done_at (ps @ qs) i = done_at ps i"
  by (simp add: done_at_def carry_at_append nth_append)

lemma dones_append: "m \<le> length ps \<Longrightarrow> dones (ps @ qs) m = dones ps m"
  by (auto simp: dones_def done_at_append intro!: arg_cong[of _ _ concat] map_cong)

lemma pdu_ok_append: "i < length ps \<Longrightarrow> pdu_ok (ps @ qs) i = pdu_ok ps i"
  using carry_at_append[of "Suc i" ps qs] by (simp add: pdu_ok_def carry_at_append nth_append del: carry_at.simps)

lemma stream_ok_snoc:
  assumes "stream_ok ps" "chunks_after (carry_at ps (length ps)) (up_sdus pdu) = Some (c', d)"
    and "up_sno pdu = of_nat (length ps)" "up_fi pdu = framing (carry_at ps (length ps)) c'" "up_sdus pdu \<noteq> []"
    and "list_all (\<lambda>x. rs_length (fst x) < 2 ^ 32) (up_sdus pdu)"
  shows "stream_ok (ps @ [pdu]) \<and> carry_at (ps @ [pdu]) (Suc (length ps)) = c' \<and> done_at (ps @ [pdu]) (length ps) = d"
proof -
  have c: "carry_at (ps @ [pdu]) (length ps) = carry_at ps (length ps)" by (rule carry_at_append) simp
  have "pdu_ok (ps @ [pdu]) (length ps)" using assms(2-6) by (simp add: pdu_ok_def c)
  moreover have "pdu_ok (ps @ [pdu]) i" if "i < length ps" for i
    using that stream_ok_nth[OF assms(1) that] by (simp add: pdu_ok_append)
  ultimately show ?thesis using assms(2) by (auto simp: stream_ok_def list_all_iff done_at_def c less_Suc_eq)
qed

end
