(* ===== verification/Rlc_Um_Tx.thy ===== *)
theory Rlc_Um_Tx
  imports Rlc_Um_Stream
begin

text \<open>
  The transmitting RLC entity in unacknowledged mode (\<open>UmTxEntity.cc\<close>): a queue of SDUs that is
  cut into PDUs of the sizes the MAC layer asks for. The packets it sends and what it tells the
  layer and the flow manager are outputs, in order.
\<close>

section \<open>State\<close>

datatype burst_status = ACTIVE | INACTIVE | START | STOP

text \<open>
  \<open>ut_fragmentInfo\<close> is the packet a part of which has been sent, with the bytes left. The
  direction of the flow, the kind of node and the presence of a flow manager are fixed.
\<close>

record um_tx =
  ut_sno :: "32 word"
  ut_firstIsFragment :: bool
  ut_notifyEmptyBuffer :: bool
  ut_holdingDownstreamInPackets :: bool
  ut_fragmentInfo :: "(nat \<times> int) option"
  ut_sduQueue :: "rlc_sdu list"
  ut_sduHoldingQueue :: "rlc_sdu list"
  ut_queueSize :: "32 word"
  ut_queueLength :: "32 word"
  ut_burstStatus :: burst_status
  ut_direction :: direction
  ut_nodeType :: ran_node_type
  ut_packetFlowManager :: bool

datatype um_tx_effect =
    Send_Rlc_Pdu um_pdu
  | Send_Empty um_pdu                 \<comment> \<open>\<open>lteRlcFragment (empty)\<close>, one bit\<close>
  | Insert_Rlc_Pdu um_pdu burst_status
  | Resume_Downstream_Peer            \<comment> \<open>\<open>resumeDownstreamInPackets\<close> of the layer\<close>
  | Send_New_Data rlc_sdu
  | Drop_Overflow rlc_sdu

definition ut_new :: "32 word \<Rightarrow> direction \<Rightarrow> ran_node_type \<Rightarrow> bool \<Rightarrow> um_tx" where
  "ut_new qsize dir node mgr = \<lparr>ut_sno = 0, ut_firstIsFragment = False, ut_notifyEmptyBuffer = False,
     ut_holdingDownstreamInPackets = False, ut_fragmentInfo = None, ut_sduQueue = [], ut_sduHoldingQueue = [],
     ut_queueSize = qsize, ut_queueLength = 0, ut_burstStatus = INACTIVE, ut_direction = dir, ut_nodeType = node,
     ut_packetFlowManager = mgr\<rparr>"

section \<open>The queue\<close>

text \<open>The sum of the test is a 64-bit one, the update wraps.\<close>

definition ut_enque :: "rlc_sdu \<Rightarrow> um_tx \<Rightarrow> um_tx \<times> bool" where
  "ut_enque pkt ut =
     (if ut_queueSize ut = 0 \<or> unat (ut_queueLength ut) + rs_byteLength pkt < unat (ut_queueSize ut)
      then (ut\<lparr>ut_sduQueue := ut_sduQueue ut @ [pkt], ut_queueLength := ut_queueLength ut + of_nat (rs_byteLength pkt)\<rparr>, True)
      else (ut, False))"

definition ut_removeDataFromQueue :: "um_tx \<Rightarrow> um_tx cpp" where
  "ut_removeDataFromQueue ut =
     (if ut_sduQueue ut = [] then Inl Undefined_Behaviour
      else Inr (ut\<lparr>ut_sduQueue := butlast (ut_sduQueue ut),
                   ut_queueLength := ut_queueLength ut - of_nat (rs_byteLength (last (ut_sduQueue ut)))\<rparr>))"

definition ut_clearQueue :: "um_tx \<Rightarrow> um_tx" where
  "ut_clearQueue ut = ut\<lparr>ut_sduQueue := [], ut_fragmentInfo := None, ut_queueLength := 0, ut_firstIsFragment := False\<rparr>"

section \<open>Making a PDU\<close>

text \<open>The bytes of the front packet that are still to be sent.\<close>

definition ut_frontLength :: "rlc_sdu \<Rightarrow> um_tx \<Rightarrow> int cpp" where
  "ut_frontLength sdu ut = (case ut_fragmentInfo ut of
      None \<Rightarrow> Inr (int (rs_length sdu))
    | Some (pkt, left) \<Rightarrow>
        if pkt \<noteq> rs_pkt sdu then Inl (Runtime_Error ''Packets are different'') else Inr left)"

text \<open>
  The loop of \<open>rlcPduMake\<close>: \<open>space\<close> is \<open>pduLength\<close>, the bytes left in the PDU. It returns the
  entity, the PDU and whether the last SDU in it is cut (\<open>endFrag\<close>).
\<close>

function ut_fill :: "int \<Rightarrow> um_pdu \<Rightarrow> um_tx \<Rightarrow> (um_tx \<times> um_pdu \<times> bool) cpp" where
  "ut_fill space pdu ut = (case ut_sduQueue ut of
      [] \<Rightarrow> Inr (ut, pdu, False)
    | sdu # q \<Rightarrow>
        if space \<le> 0 then Inr (ut, pdu, False)
        else case ut_frontLength sdu ut of
            Inl e \<Rightarrow> Inl e
          | Inr sduLength \<Rightarrow>
              if space \<ge> sduLength then
                ut_fill (space - sduLength) (up_pushSdu sdu sduLength pdu)
                  (ut\<lparr>ut_fragmentInfo := None, ut_sduQueue := q,
                      ut_queueLength := ut_queueLength ut - of_nat (rs_byteLength sdu), ut_firstIsFragment := False\<rparr>)
              else if sduLength - space < 0 then Inl (Runtime_Error ''Fragmentation error'')
              else Inr (ut\<lparr>ut_fragmentInfo := Some (rs_pkt sdu, sduLength - space), ut_firstIsFragment := True\<rparr>,
                        up_pushSdu sdu space pdu, True))"
  by pat_completeness auto
termination by (relation "measure (\<lambda>(_, _, ut). length (ut_sduQueue ut))") auto

declare ut_fill.simps [simp del]

text \<open>The notification of the flow manager and the status of the burst.\<close>

definition ut_burst :: "um_pdu \<Rightarrow> um_tx \<Rightarrow> um_tx \<times> um_tx_effect list" where
  "ut_burst pdu ut =
     (if (ut_direction ut = DL \<or> ut_direction ut = UL) \<and> ut_packetFlowManager ut then
        if ut_sduQueue ut = [] then
          if ut_burstStatus ut = ACTIVE then (ut\<lparr>ut_burstStatus := INACTIVE\<rparr>, [Insert_Rlc_Pdu pdu STOP])
          else (ut, [Insert_Rlc_Pdu pdu (ut_burstStatus ut)])
        else
          if ut_burstStatus ut = INACTIVE then (ut\<lparr>ut_burstStatus := ACTIVE\<rparr>, [Insert_Rlc_Pdu pdu START])
          else (ut, [Insert_Rlc_Pdu pdu (ut_burstStatus ut)])
      else (ut, []))"

definition ut_framingInfo :: "bool \<Rightarrow> bool \<Rightarrow> framing_info" where
  "ut_framingInfo startFrag endFrag = (if startFrag then 2 else 0) + (if endFrag then 1 else 0)"

text \<open>\<open>len\<close> of the code is the sum of the sizes in the PDU.\<close>

definition ut_rlcPduMake :: "int \<Rightarrow> um_tx \<Rightarrow> (um_tx \<times> um_tx_effect list) cpp" where
  "ut_rlcPduMake pduLength ut = cpp_bind (ut_fill (pduLength - RLC_HEADER_UM) um_pdu_new ut) (\<lambda>(ut1, pdu, endFrag).
     let (ut2, pdu2, effs) =
           (if sum_list (map snd (up_sdus pdu)) = 0 then (ut1, pdu, [Send_Empty pdu])
            else let pdu1 = pdu\<lparr>up_fi := ut_framingInfo (ut_firstIsFragment ut) endFrag, up_sno := ut_sno ut1\<rparr>;
                     (ut3, burst) = ut_burst pdu1 (ut1\<lparr>ut_sno := ut_sno ut1 + 1\<rparr>)
                 in (ut3, pdu1, burst @ [Send_Rlc_Pdu pdu1]))
     in Inr (if ut_notifyEmptyBuffer ut2 \<and> ut_sduQueue ut2 = []
             then (ut2\<lparr>ut_notifyEmptyBuffer := False\<rparr>, effs @ [Resume_Downstream_Peer]) else (ut2, effs)))"

section \<open>Switching the mode of a D2D connection\<close>

definition ut_enqueHoldingPackets :: "rlc_sdu \<Rightarrow> um_tx \<Rightarrow> um_tx" where
  "ut_enqueHoldingPackets pkt ut = ut\<lparr>ut_sduHoldingQueue := ut_sduHoldingQueue ut @ [pkt]\<rparr>"

definition ut_startHoldingDownstreamInPackets :: "um_tx \<Rightarrow> um_tx" where
  "ut_startHoldingDownstreamInPackets ut = ut\<lparr>ut_holdingDownstreamInPackets := True\<rparr>"

text \<open>The loop that moves the holding queue to the queue.\<close>

fun ut_moveHolding :: "rlc_sdu list \<Rightarrow> um_tx \<Rightarrow> um_tx \<times> um_tx_effect list" where
  "ut_moveHolding [] ut = (ut\<lparr>ut_sduHoldingQueue := []\<rparr>, [])"
| "ut_moveHolding (pkt # pkts) ut =
     (let (ut1, accepted) = ut_enque pkt ut;
          (ut2, effs) = ut_moveHolding pkts ut1
      in (ut2, (if accepted then Send_New_Data pkt else Drop_Overflow pkt) # effs))"

definition ut_resumeDownstreamInPackets :: "um_tx \<Rightarrow> um_tx \<times> um_tx_effect list" where
  "ut_resumeDownstreamInPackets ut =
     ut_moveHolding (ut_sduHoldingQueue ut) (ut\<lparr>ut_holdingDownstreamInPackets := False\<rparr>)"

text \<open>\<open>emptying\<close> is the answer of \<open>isEmptyingTxBuffer\<close> of the layer for the peer.\<close>

definition ut_rlcHandleD2DModeSwitch :: "bool \<Rightarrow> bool \<Rightarrow> bool \<Rightarrow> um_tx \<Rightarrow> um_tx" where
  "ut_rlcHandleD2DModeSwitch emptying oldConnection clearBuffer ut =
     (if oldConnection then
        if is_nodeB (ut_nodeType ut) then ut
        else if clearBuffer then ut_clearQueue ut
        else if ut_sduQueue ut \<noteq> [] then ut\<lparr>ut_notifyEmptyBuffer := True\<rparr> else ut
      else
        let ut1 = ut\<lparr>ut_sno := 0\<rparr>
        in if \<not> clearBuffer \<and> emptying then ut_startHoldingDownstreamInPackets ut1 else ut1)"

section \<open>What a PDU holds\<close>

definition sdu_ok :: "rlc_sdu \<Rightarrow> bool" where
  "sdu_ok s = (0 < rs_length s \<and> rs_length s < 2 ^ 32)"

definition queue_bytes :: "rlc_sdu list \<Rightarrow> nat" where
  "queue_bytes q = sum_list (map rs_byteLength q)"

definition tx_ok :: "um_tx \<Rightarrow> bool" where
  "tx_ok ut = (list_all sdu_ok (ut_sduQueue ut) \<and> ut_queueLength ut = of_nat (queue_bytes (ut_sduQueue ut)) \<and>
     (case ut_fragmentInfo ut of
        None \<Rightarrow> \<not> ut_firstIsFragment ut
      | Some (pkt, left) \<Rightarrow> ut_firstIsFragment ut \<and> ut_sduQueue ut \<noteq> [] \<and> pkt = rs_pkt (hd (ut_sduQueue ut))
          \<and> 0 < left \<and> left < int (rs_length (hd (ut_sduQueue ut)))))"

definition ut_carry :: "um_tx \<Rightarrow> carry" where
  "ut_carry ut = (case ut_fragmentInfo ut of
      None \<Rightarrow> None
    | Some (_, left) \<Rightarrow> Some (hd (ut_sduQueue ut), rs_length (hd (ut_sduQueue ut)) - nat left))"

lemma tx_ok_carry: "tx_ok ut \<Longrightarrow> (ut_carry ut \<noteq> None) = ut_firstIsFragment ut"
  by (auto simp: tx_ok_def ut_carry_def split: option.splits)

lemma queue_bytes_simps [simp]: "queue_bytes [] = 0" "queue_bytes (s # q) = rs_byteLength s + queue_bytes q"
  "queue_bytes (p @ q) = queue_bytes p + queue_bytes q"
  by (simp_all add: queue_bytes_def)

definition same_numbering :: "um_tx \<Rightarrow> um_tx \<Rightarrow> bool" where
  "same_numbering ut ut' = (ut_sno ut' = ut_sno ut \<and> ut_queueSize ut' = ut_queueSize ut
     \<and> ut_sduHoldingQueue ut' = ut_sduHoldingQueue ut \<and> ut_holdingDownstreamInPackets ut' = ut_holdingDownstreamInPackets ut)"

text \<open>The bytes of the front SDU that are still to be sent.\<close>

lemma ut_frontLength_ok:
  assumes "tx_ok ut" "ut_sduQueue ut = s # q"
  shows "\<exists>len. ut_frontLength s ut = Inr (int len) \<and> 0 < len \<and> len \<le> rs_length s
    \<and> (case ut_carry ut of None \<Rightarrow> len = rs_length s | Some (s', k) \<Rightarrow> s' = s \<and> 0 < k \<and> k + len = rs_length s)"
proof (cases "ut_fragmentInfo ut")
  case None
  then show ?thesis using assms by (auto simp: ut_frontLength_def ut_carry_def tx_ok_def sdu_ok_def)
next
  case (Some x)
  obtain pkt left where x: "x = (pkt, left)" by fastforce
  have "pkt = rs_pkt s" "0 < left" "left < int (rs_length s)" using assms Some x by (auto simp: tx_ok_def)
  then show ?thesis using Some x assms(2)
    by (intro exI[of _ "nat left"]) (auto simp: ut_frontLength_def ut_carry_def)
qed

text \<open>The reference: what \<open>ut_fill\<close> puts into the PDU.\<close>

definition filled :: "int \<Rightarrow> um_tx \<Rightarrow> um_tx \<Rightarrow> (rlc_sdu \<times> nat) list \<Rightarrow> bool \<Rightarrow> rlc_sdu list \<Rightarrow> bool" where
  "filled space ut ut' xs endFrag d = (tx_ok ut' \<and> same_numbering ut ut' \<and> chunks_after (ut_carry ut) xs = Some (ut_carry ut', d)
     \<and> ut_sduQueue ut = d @ ut_sduQueue ut' \<and> (xs \<noteq> [] \<longrightarrow> endFrag = (ut_carry ut' \<noteq> None)) \<and> (xs = [] \<longrightarrow> ut' = ut \<and> \<not> endFrag)
     \<and> list_all (\<lambda>x. 0 < snd x \<and> rs_length (fst x) < 2 ^ 32) xs
     \<and> int (sum_list (map snd xs)) \<le> max 0 space \<and> (ut_sduQueue ut' \<noteq> [] \<longrightarrow> int (sum_list (map snd xs)) = max 0 space)
     \<and> ut_notifyEmptyBuffer ut' = ut_notifyEmptyBuffer ut)"

lemma filled_nothing: "tx_ok ut \<Longrightarrow> ut_sduQueue ut = [] \<or> space \<le> 0 \<Longrightarrow> filled space ut ut [] False []"
  by (auto simp: filled_def same_numbering_def)

lemma filled_whole:
  assumes "tx_ok ut" "ut_sduQueue ut = s # q" "0 < len" "int len \<le> space"
    and "case ut_carry ut of None \<Rightarrow> len = rs_length s | Some (s', k) \<Rightarrow> s' = s \<and> 0 < k \<and> k + len = rs_length s"
    and "ut1 = ut\<lparr>ut_fragmentInfo := None, ut_sduQueue := q,
            ut_queueLength := ut_queueLength ut - of_nat (rs_byteLength s), ut_firstIsFragment := False\<rparr>"
    and "filled (space - int len) ut1 ut' xs e d"
  shows "filled space ut ut' ((s, len) # xs) e (s # d)"
proof -
  have c: "ut_carry ut1 = None" by (simp add: ut_carry_def assms(6))
  note F = assms(7)[unfolded filled_def c]
  have f: "tx_ok ut'" "same_numbering ut1 ut'" "chunks_after None xs = Some (ut_carry ut', d)" "ut_sduQueue ut1 = d @ ut_sduQueue ut'"
    "xs \<noteq> [] \<longrightarrow> e = (ut_carry ut' \<noteq> None)" "xs = [] \<longrightarrow> ut' = ut1 \<and> \<not> e"
    "list_all (\<lambda>x. 0 < snd x \<and> rs_length (fst x) < 2 ^ 32) xs" "int (sum_list (map snd xs)) \<le> max 0 (space - int len)"
    "ut_sduQueue ut' \<noteq> [] \<longrightarrow> int (sum_list (map snd xs)) = max 0 (space - int len)"
    "ut_notifyEmptyBuffer ut' = ut_notifyEmptyBuffer ut1"
    using F by blast+
  have s: "rs_length s < 2 ^ 32" using assms(1,2) by (simp add: tx_ok_def sdu_ok_def)
  have "chunks_after (ut_carry ut) ((s, len) # xs) = Some (ut_carry ut', s # d)"
    using assms(3,5) f(3) by (cases "ut_carry ut") (auto simp: Let_def)
  moreover have "e = (ut_carry ut' \<noteq> None)" using f(5,6) c by (cases "xs = []") auto
  moreover have "same_numbering ut ut'" using f(2) by (simp add: same_numbering_def assms(6))
  moreover have "int (sum_list (map snd ((s, len) # xs))) \<le> max 0 space"
    "ut_sduQueue ut' \<noteq> [] \<longrightarrow> int (sum_list (map snd ((s, len) # xs))) = max 0 space"
    using f(8,9) assms(3,4) by auto
  moreover have "list_all (\<lambda>x. 0 < snd x \<and> rs_length (fst x) < 2 ^ 32) ((s, len) # xs)" using f(7) assms(3) s by simp
  moreover have "ut_sduQueue ut = (s # d) @ ut_sduQueue ut'" using f(4) assms(2) by (simp add: assms(6))
  moreover have "ut_notifyEmptyBuffer ut' = ut_notifyEmptyBuffer ut" using f(10) assms(6) by simp
  ultimately show ?thesis unfolding filled_def using f(1) by blast
qed

lemma filled_cut:
  assumes "tx_ok ut" "ut_sduQueue ut = s # q" "0 < space" "space < int len" "len \<le> rs_length s"
    and "case ut_carry ut of None \<Rightarrow> len = rs_length s | Some (s', k) \<Rightarrow> s' = s \<and> 0 < k \<and> k + len = rs_length s"
    and "ut' = ut\<lparr>ut_fragmentInfo := Some (rs_pkt s, int len - space), ut_firstIsFragment := True\<rparr>"
  shows "filled space ut ut' [(s, nat space)] True []"
proof -
  have len: "nat space < len" "0 < nat space" "int (nat space) = space" using assms(3,4) by auto
  have s: "rs_length s < 2 ^ 32" using assms(1,2) by (simp add: tx_ok_def sdu_ok_def)
  have "nat (int len - space) = len - nat space" using assms(3,4) by auto
  then have c: "ut_carry ut' = Some (s, rs_length s - (len - nat space))" using assms(2) by (simp add: ut_carry_def assms(7))
  have "tx_ok ut'" using assms(1-5) by (simp add: tx_ok_def assms(7))
  moreover have "chunks_after (ut_carry ut) [(s, nat space)] = Some (ut_carry ut', [])"
    unfolding c using assms(5,6) len(1,2) by (cases "ut_carry ut") (auto simp: Let_def)
  moreover have "same_numbering ut ut'" "ut_sduQueue ut' = ut_sduQueue ut" "ut_notifyEmptyBuffer ut' = ut_notifyEmptyBuffer ut"
    by (simp_all add: same_numbering_def assms(7))
  ultimately show ?thesis using len s assms(2) unfolding filled_def by (simp add: c del: chunks_after.simps)
qed

lemma ut_fill_correct:
  assumes "tx_ok ut"
  shows "\<exists>ut' pdu' e xs d. ut_fill space pdu ut = Inr (ut', pdu', e) \<and> up_sdus pdu' = up_sdus pdu @ xs
    \<and> up_rlcPduLength pdu' = up_rlcPduLength pdu + int (sum_list (map snd xs)) \<and> filled space ut ut' xs e d"
  using assms
proof (induction space pdu ut rule: ut_fill.induct)
  case (1 space pdu ut)
  show ?case
  proof (cases "ut_sduQueue ut = [] \<or> space \<le> 0")
    case True
    then have "ut_fill space pdu ut = Inr (ut, pdu, False)" by (subst ut_fill.simps) (auto split: list.splits)
    then show ?thesis using filled_nothing[OF 1(2) True]
      by (intro exI[of _ ut] exI[of _ pdu] exI[of _ False] exI[of _ "[]"]) simp
  next
    case False
    then obtain s q where q: "ut_sduQueue ut = s # q" and sp: "\<not> space \<le> 0" by (cases "ut_sduQueue ut") auto
    obtain len where len: "ut_frontLength s ut = Inr (int len)" "0 < len" "len \<le> rs_length s"
      "case ut_carry ut of None \<Rightarrow> len = rs_length s | Some (s', k) \<Rightarrow> s' = s \<and> 0 < k \<and> k + len = rs_length s"
      using ut_frontLength_ok[OF 1(2) q] by blast
    show ?thesis
    proof (cases "int len \<le> space")
      case True
      let ?ut = "ut\<lparr>ut_fragmentInfo := None, ut_sduQueue := q,
          ut_queueLength := ut_queueLength ut - of_nat (rs_byteLength s), ut_firstIsFragment := False\<rparr>"
      have "tx_ok ?ut" using 1(2) q by (simp add: tx_ok_def)
      then obtain ut' pdu' e xs d where r: "ut_fill (space - int len) (up_pushSdu s (int len) pdu) ?ut = Inr (ut', pdu', e)"
        "up_sdus pdu' = up_sdus (up_pushSdu s (int len) pdu) @ xs"
        "up_rlcPduLength pdu' = up_rlcPduLength (up_pushSdu s (int len) pdu) + int (sum_list (map snd xs))"
        "filled (space - int len) ?ut ut' xs e d" using 1(1)[OF q sp len(1) True] by blast
      note w = filled_whole[OF 1(2) q len(2) True len(4) refl r(4)]
      have "ut_fill space pdu ut = Inr (ut', pdu', e)" by (subst ut_fill.simps) (simp add: q sp len(1) True r(1))
      with w r(2,3) show ?thesis
        by (intro exI[of _ ut'] exI[of _ pdu'] exI[of _ e] exI[of _ "(s, len) # xs"] exI[of _ "s # d"]) (simp add: up_pushSdu_def)
    next
      case False
      let ?ut = "ut\<lparr>ut_fragmentInfo := Some (rs_pkt s, int len - space), ut_firstIsFragment := True\<rparr>"
      have "0 < space" "space < int len" using sp False by auto
      note c = filled_cut[OF 1(2) q this len(3,4) refl]
      have "ut_fill space pdu ut = Inr (?ut, up_pushSdu s space pdu, True)"
        by (subst ut_fill.simps) (use False in \<open>simp add: q sp len(1)\<close>)
      with c sp show ?thesis
        by (intro exI[of _ ?ut] exI[of _ "up_pushSdu s space pdu"] exI[of _ True] exI[of _ "[(s, nat space)]"] exI[of _ "[]"])
          (simp add: up_pushSdu_def)
    qed
  qed
qed

text \<open>The entity against the sequence of the PDUs it has made and the SDUs it has accepted.\<close>

definition tx_stream :: "um_pdu list \<Rightarrow> um_tx \<Rightarrow> rlc_sdu list \<Rightarrow> bool" where
  "tx_stream ps ut accepted = (tx_ok ut \<and> stream_ok ps \<and> carry_at ps (length ps) = ut_carry ut
     \<and> ut_sno ut = of_nat (length ps) \<and> accepted = dones ps (length ps) @ ut_sduQueue ut)"

fun pdus_of :: "um_tx_effect list \<Rightarrow> um_pdu list" where
  "pdus_of [] = []"
| "pdus_of (Send_Rlc_Pdu pdu # es) = pdu # pdus_of es"
| "pdus_of (_ # es) = pdus_of es"

lemma pdus_of_append: "pdus_of (xs @ ys) = pdus_of xs @ pdus_of ys"
  by (induction xs rule: pdus_of.induct) auto

text \<open>The same queue, with the same part of its front SDU sent.\<close>

definition same_queue :: "um_tx \<Rightarrow> um_tx \<Rightarrow> bool" where
  "same_queue ut ut' = (ut_fragmentInfo ut' = ut_fragmentInfo ut \<and> ut_sduQueue ut' = ut_sduQueue ut
     \<and> ut_queueLength ut' = ut_queueLength ut \<and> ut_firstIsFragment ut' = ut_firstIsFragment ut \<and> ut_queueSize ut' = ut_queueSize ut)"

lemma same_queueD:
  assumes "same_queue ut ut'"
  shows "tx_ok ut' = tx_ok ut" "ut_carry ut' = ut_carry ut" "ut_sduQueue ut' = ut_sduQueue ut"
  using assms by (simp_all only: same_queue_def tx_ok_def ut_carry_def)

lemma ut_burst_only:
  "pdus_of (snd (ut_burst pdu ut)) = [] \<and> same_queue ut (fst (ut_burst pdu ut)) \<and> ut_sno (fst (ut_burst pdu ut)) = ut_sno ut"
  by (auto simp: ut_burst_def same_queue_def)

text \<open>The shape of a call of \<open>rlcPduMake\<close>.\<close>

lemma ut_rlcPduMake_cases:
  assumes "tx_ok ut"
  obtains ut1 xs d e pdu ut' effs where "filled (n - RLC_HEADER_UM) ut ut1 xs e d"
    "up_sdus pdu = xs" "up_rlcPduLength pdu = RLC_HEADER_UM + int (sum_list (map snd xs))"
    "ut_rlcPduMake n ut = Inr (ut', effs)" "pdus_of effs = (if xs = [] then [] else [pdu])"
    "same_queue ut1 ut'" "ut_sno ut' = (if xs = [] then ut_sno ut else ut_sno ut + 1)"
    "xs \<noteq> [] \<Longrightarrow> up_fi pdu = framing (ut_carry ut) (ut_carry ut1) \<and> up_sno pdu = ut_sno ut"
proof -
  obtain ut1 pdu0 e xs d where f: "ut_fill (n - RLC_HEADER_UM) um_pdu_new ut = Inr (ut1, pdu0, e)"
    "up_sdus pdu0 = up_sdus um_pdu_new @ xs" "up_rlcPduLength pdu0 = up_rlcPduLength um_pdu_new + int (sum_list (map snd xs))"
    "filled (n - RLC_HEADER_UM) ut ut1 xs e d" using ut_fill_correct[OF assms] by blast
  have pos: "list_all (\<lambda>x. 0 < snd x \<and> rs_length (fst x) < 2 ^ 32) xs" and sno: "ut_sno ut1 = ut_sno ut"
    and e: "xs \<noteq> [] \<longrightarrow> e = (ut_carry ut1 \<noteq> None)"
    using f(4) by (auto simp: filled_def same_numbering_def)
  have xs: "up_sdus pdu0 = xs" using f(2) by (simp add: um_pdu_new_def)
  have z: "sum_list (map snd xs) = 0 \<longleftrightarrow> xs = []" using pos by (cases xs) (auto simp: list_all_iff)
  let ?fi = "ut_framingInfo (ut_firstIsFragment ut) e"
  have fi: "xs \<noteq> [] \<Longrightarrow> ?fi = framing (ut_carry ut) (ut_carry ut1)"
    using e tx_ok_carry[OF assms] by (auto simp: ut_framingInfo_def framing_def)
  show thesis
  proof (cases "xs = []")
    case True
    have "\<exists>ut' effs. ut_rlcPduMake n ut = Inr (ut', effs) \<and> pdus_of effs = [] \<and> same_queue ut1 ut' \<and> ut_sno ut' = ut_sno ut"
      using f(1) xs True sno
      by (cases "ut_notifyEmptyBuffer ut1 \<and> ut_sduQueue ut1 = []") (simp_all add: ut_rlcPduMake_def Let_def same_queue_def)
    then obtain ut' effs where r: "ut_rlcPduMake n ut = Inr (ut', effs)" "pdus_of effs = []" "same_queue ut1 ut'"
      "ut_sno ut' = ut_sno ut" by blast
    show thesis by (rule that[OF f(4) xs _ r(1) _ r(3)]) (use f(3) True r in \<open>simp_all add: um_pdu_new_def\<close>)
  next
    case False
    let ?pdu = "pdu0\<lparr>up_fi := ?fi, up_sno := ut_sno ut1\<rparr>"
    obtain ut3 bs where b: "ut_burst ?pdu (ut1\<lparr>ut_sno := ut_sno ut1 + 1\<rparr>) = (ut3, bs)" by fastforce
    have b3: "pdus_of bs = []" "same_queue ut1 ut3" "ut_sno ut3 = ut_sno ut + 1"
      using ut_burst_only[of ?pdu "ut1\<lparr>ut_sno := ut_sno ut1 + 1\<rparr>"] sno unfolding b by (simp_all add: same_queue_def)
    have "\<exists>ut' effs. ut_rlcPduMake n ut = Inr (ut', effs) \<and> pdus_of effs = [?pdu] \<and> same_queue ut1 ut' \<and> ut_sno ut' = ut_sno ut + 1"
      using f(1) xs z False b b3
      by (cases "ut_notifyEmptyBuffer ut3 \<and> ut_sduQueue ut3 = []")
        (simp_all add: ut_rlcPduMake_def Let_def same_queue_def pdus_of_append)
    then obtain ut' effs where r: "ut_rlcPduMake n ut = Inr (ut', effs)" "pdus_of effs = [?pdu]" "same_queue ut1 ut'"
      "ut_sno ut' = ut_sno ut + 1" by blast
    show thesis
      by (rule that[OF f(4) _ _ r(1) _ r(3), of ?pdu]) (use f(3) xs False r fi sno in \<open>simp_all add: um_pdu_new_def\<close>)
  qed
qed

lemma tx_stream_make:
  assumes "tx_stream ps ut acc"
  shows "\<exists>ut' effs. ut_rlcPduMake n ut = Inr (ut', effs) \<and> (pdus_of effs = [] \<or> (\<exists>pdu. pdus_of effs = [pdu]))
    \<and> tx_stream (ps @ pdus_of effs) ut' acc"
proof -
  have t: "tx_ok ut" "stream_ok ps" "carry_at ps (length ps) = ut_carry ut" "ut_sno ut = of_nat (length ps)"
    "acc = dones ps (length ps) @ ut_sduQueue ut" using assms by (simp_all add: tx_stream_def)
  from ut_rlcPduMake_cases[OF t(1), of n] obtain ut1 xs d e pdu ut' effs where
    m: "filled (n - RLC_HEADER_UM) ut ut1 xs e d" "up_sdus pdu = xs" "ut_rlcPduMake n ut = Inr (ut', effs)"
    "pdus_of effs = (if xs = [] then [] else [pdu])"
    "same_queue ut1 ut'" "ut_sno ut' = (if xs = [] then ut_sno ut else ut_sno ut + 1)"
    "xs \<noteq> [] \<Longrightarrow> up_fi pdu = framing (ut_carry ut) (ut_carry ut1) \<and> up_sno pdu = ut_sno ut" by metis
  have u: "tx_ok ut'" "ut_carry ut' = ut_carry ut1" "ut_sduQueue ut' = ut_sduQueue ut1"
    "ut_sno ut' = (if xs = [] then ut_sno ut else ut_sno ut + 1)"
    using m(1,6) same_queueD[OF m(5)] by (simp_all add: filled_def)
  have f: "chunks_after (ut_carry ut) xs = Some (ut_carry ut1, d)" "ut_sduQueue ut = d @ ut_sduQueue ut1"
    "list_all (\<lambda>x. rs_length (fst x) < 2 ^ 32) xs" using m(1) by (auto simp: filled_def list_all_iff)
  have "tx_stream (ps @ pdus_of effs) ut' acc"
  proof (cases "xs = []")
    case True
    with t u f m(4) show ?thesis by (simp add: tx_stream_def)
  next
    case False
    have "stream_ok (ps @ [pdu]) \<and> carry_at (ps @ [pdu]) (Suc (length ps)) = ut_carry ut1 \<and> done_at (ps @ [pdu]) (length ps) = d"
      by (rule stream_ok_snoc) (use t m(2,7) f False in simp_all)
    with False t u f m(4) show ?thesis by (simp add: tx_stream_def dones_Suc dones_append del: carry_at.simps)
  qed
  with m(3,4) show ?thesis by auto
qed

lemma tx_stream_enque:
  assumes "tx_stream ps ut acc" "sdu_ok s"
  shows "tx_stream ps (fst (ut_enque s ut)) (if snd (ut_enque s ut) then acc @ [s] else acc)"
proof -
  have "ut_sduQueue ut \<noteq> [] \<Longrightarrow> hd (ut_sduQueue ut @ [s]) = hd (ut_sduQueue ut)" by simp
  then show ?thesis using assms by (auto simp: ut_enque_def tx_stream_def tx_ok_def ut_carry_def split: option.splits)
qed

lemma tx_stream_new: "tx_stream [] (ut_new qsize dir node mgr) []"
  by (simp add: tx_stream_def ut_new_def tx_ok_def stream_ok_def ut_carry_def dones_def)

end
