(* ===== verification/Rlc_Um_Rx.thy ===== *)
theory Rlc_Um_Rx
  imports Rlc_Um_Packet
begin

text \<open>
  The receiving RLC entity in unacknowledged mode (\<open>UmRxEntity.cc\<close>): PDUs are kept in a window of
  slots until the ones before them have arrived or the reordering timer goes off; then their
  SDUs are reassembled and go to PDCP. Sequence numbers and bit counters are 32-bit words. Of the
  statistics the loss counts and the bursts are modelled; throughput and delay samples are not.
\<close>

section \<open>State\<close>

text \<open>
  \<open>ur_pduBuffer\<close> holds the slots of the \<open>cArray\<close>; \<open>ur_buffered\<close> is the cut SDU that waits for
  its next part: the packet, the bytes received and the number of the PDU of the last part.
\<close>

record um_rx =
  ur_window :: um_window
  ur_received :: "bool list"
  ur_pduBuffer :: "um_pdu option list"
  ur_buffered :: "(rlc_sdu \<times> nat \<times> 32 word) option"
  ur_lastSnoDelivered :: "32 word"
  ur_lastPduReassembled :: "32 word"
  ur_init :: bool
  ur_resetFlag :: bool
  ur_reordering :: "simtime option"    \<comment> \<open>the time \<open>t_reordering_\<close> goes off, when it is busy\<close>
  ur_timeout :: simtime
  ur_direction :: direction
  ur_ownerIsUe :: bool
  ur_isBurst :: bool
  ur_totalBits :: "32 word"
  ur_ttiBits :: "32 word"
  ur_t2 :: simtime
  ur_t1 :: simtime

datatype um_rx_effect =
    To_Pdcp rlc_sdu
  | Sdu_Loss
  | Pdu_Loss
  | Add_Ue_Throughput "32 word" simtime

definition ur_new :: "32 word \<Rightarrow> simtime \<Rightarrow> direction \<Rightarrow> bool \<Rightarrow> um_rx" where
  "ur_new wsize timeout dir ue = \<lparr>ur_window = \<lparr>rw_firstSno = 0, rw_firstSnoForReordering = 0, rw_reorderingSno = 0,
       rw_highestReceivedSno = 0, rw_windowSize = wsize\<rparr>,
     ur_received = replicate (unat wsize) False, ur_pduBuffer = replicate (unat wsize) None, ur_buffered = None,
     ur_lastSnoDelivered = 0, ur_lastPduReassembled = 0, ur_init = False, ur_resetFlag = False, ur_reordering = None,
     ur_timeout = timeout, ur_direction = dir, ur_ownerIsUe = ue, ur_isBurst = False, ur_totalBits = 0, ur_ttiBits = 0,
     ur_t2 = 0, ur_t1 = 0\<rparr>"

section \<open>Reassembly\<close>

definition ur_clearBufferedSdu :: "um_rx \<Rightarrow> um_rx" where
  "ur_clearBufferedSdu ur = (case ur_buffered ur of
      None \<Rightarrow> ur
    | Some (_, sz, _) \<Rightarrow> ur\<lparr>ur_ttiBits := ur_ttiBits ur - of_nat sz, ur_buffered := None\<rparr>)"

definition ur_addBits :: "nat \<Rightarrow> um_rx \<Rightarrow> um_rx" where
  "ur_addBits n ur = ur\<lparr>ur_ttiBits := ur_ttiBits ur + of_nat n\<rparr>"

text \<open>\<open>toPdcp\<close>: one loss for every number skipped, then the SDU.\<close>

definition ur_toPdcp :: "rlc_sdu \<Rightarrow> um_rx \<Rightarrow> um_rx \<times> um_rx_effect list" where
  "ur_toPdcp sdu ur =
     (ur\<lparr>ur_lastSnoDelivered := rs_sno sdu\<rparr>,
      replicate (unat (rs_sno sdu) - unat (ur_lastSnoDelivered ur + 1)) Sdu_Loss @ [To_Pdcp sdu])"

text \<open>The parts of \<open>reassemble\<close>: a whole SDU, the first, the last and a middle part of one.\<close>

definition ur_whole :: "bool \<Rightarrow> rlc_sdu \<Rightarrow> nat \<Rightarrow> um_rx \<Rightarrow> (um_rx \<times> um_rx_effect list) cpp" where
  "ur_whole count sdu len ur =
     (if len \<noteq> rs_length sdu then Inl (Runtime_Error ''UmRxEntity::reassemble(): failed reassembly'')
      else let (ur1, effs) = ur_toPdcp sdu (if count then ur_addBits len ur else ur) in Inr (ur_clearBufferedSdu ur1, effs))"

definition ur_firstPart :: "rlc_sdu \<Rightarrow> nat \<Rightarrow> 32 word \<Rightarrow> um_rx \<Rightarrow> (um_rx \<times> um_rx_effect list) cpp" where
  "ur_firstPart sdu len pduSno ur =
     Inr (ur_addBits len ((ur_clearBufferedSdu ur)\<lparr>ur_buffered := Some (sdu, len, pduSno)\<rparr>), [])"

definition ur_inSequence :: "rlc_sdu \<Rightarrow> 32 word \<Rightarrow> bool \<Rightarrow> um_rx \<Rightarrow> bool" where
  "ur_inSequence sdu pduSno ignoreFragment ur = (case ur_buffered ur of
      None \<Rightarrow> False
    | Some (b, _, cur) \<Rightarrow> rs_sno sdu = rs_sno b \<and> pduSno = cur + 1 \<and> \<not> ignoreFragment)"

definition ur_bufferedSize :: "um_rx \<Rightarrow> nat" where
  "ur_bufferedSize ur = (case ur_buffered ur of None \<Rightarrow> 0 | Some (_, sz, _) \<Rightarrow> sz)"

text \<open>\<open>reassembledLength\<close> is an \<open>unsigned int\<close>; \<open>bits\<close> is what is counted for the burst.\<close>

definition ur_lastPart ::
  "nat \<Rightarrow> rlc_sdu \<Rightarrow> nat \<Rightarrow> 32 word \<Rightarrow> bool \<Rightarrow> um_rx \<Rightarrow> (um_rx \<times> um_rx_effect list) cpp" where
  "ur_lastPart bits sdu len pduSno ignoreFragment ur =
     (if \<not> ur_inSequence sdu pduSno ignoreFragment ur then Inr (ur_clearBufferedSdu ur, [])
      else
        let reassembledLength = (ur_bufferedSize ur + len) mod 2 ^ 32
        in if reassembledLength < rs_length sdu then Inr (ur_clearBufferedSdu ur, [])
           else if reassembledLength > rs_length sdu then Inl (Runtime_Error ''UmRxEntity::reassemble(): failed reassembly'')
           else let (ur1, effs) = ur_toPdcp sdu (ur_addBits bits ur) in Inr (ur_clearBufferedSdu ur1, effs))"

definition ur_middlePart ::
  "rlc_sdu \<Rightarrow> nat \<Rightarrow> 32 word \<Rightarrow> bool \<Rightarrow> um_rx \<Rightarrow> (um_rx \<times> um_rx_effect list) cpp" where
  "ur_middlePart sdu len pduSno ignoreFragment ur =
     (if \<not> ur_inSequence sdu pduSno ignoreFragment ur then Inr (ur_clearBufferedSdu ur, [])
      else Inr (ur_addBits len (ur\<lparr>ur_buffered := map_option (\<lambda>(b, sz, _). (b, sz + len, pduSno)) (ur_buffered ur)\<rparr>), []))"

definition ur_invalidFi :: "(um_rx \<times> um_rx_effect list) cpp" where
  "ur_invalidFi = Inl (Runtime_Error ''UmRxEntity::reassemble(): FI field was not valid'')"

text \<open>The body of the loop for the SDU at position \<open>i\<close> of \<open>n\<close>.\<close>

definition ur_oneSdu ::
  "framing_info \<Rightarrow> nat \<Rightarrow> nat \<Rightarrow> 32 word \<Rightarrow> bool \<Rightarrow> rlc_sdu \<Rightarrow> nat \<Rightarrow> um_rx \<Rightarrow> (um_rx \<times> um_rx_effect list) cpp" where
  "ur_oneSdu fi n i pduSno ignoreFragment sdu len ur =
     (if i = 0 then
        if n = 1 then
          (if fi = 0 then ur_whole False sdu len ur
           else if fi = 1 then ur_firstPart sdu len pduSno ur
           else if fi = 2 then ur_lastPart len sdu len pduSno ignoreFragment ur
           else if fi = 3 then ur_middlePart sdu len pduSno ignoreFragment ur
           else ur_invalidFi)
        else
          (if fi = 0 \<or> fi = 1 then ur_whole True sdu len ur
           else if fi = 2 \<or> fi = 3 then ur_lastPart (rs_length sdu) sdu len pduSno ignoreFragment ur
           else ur_invalidFi)
      else if i = n - 1 then
        (if fi = 0 \<or> fi = 2 then ur_whole True sdu len ur
         else if fi = 1 \<or> fi = 3 then ur_firstPart sdu len pduSno ur
         else ur_invalidFi)
      else ur_whole True sdu len ur)"

fun ur_sdus ::
  "framing_info \<Rightarrow> nat \<Rightarrow> 32 word \<Rightarrow> nat \<Rightarrow> (rlc_sdu \<times> nat) list \<Rightarrow> um_rx \<Rightarrow> (um_rx \<times> um_rx_effect list) cpp" where
  "ur_sdus fi n pduSno i [] ur = Inr (ur, [])"
| "ur_sdus fi n pduSno i ((sdu, len) # xs) ur =
     (let ignoreFragment = (i = 0 \<and> ur_resetFlag ur);
          ur0 = (if ignoreFragment then ur\<lparr>ur_lastSnoDelivered := rs_sno sdu - 1, ur_resetFlag := False\<rparr> else ur)
      in cpp_bind (ur_oneSdu fi n i pduSno ignoreFragment sdu len ur0) (\<lambda>(ur1, e1).
         cpp_bind (ur_sdus fi n pduSno (i + 1) xs ur1) (\<lambda>(ur2, e2). Inr (ur2, e1 @ e2))))"

definition ur_reassemble :: "nat \<Rightarrow> um_rx \<Rightarrow> (um_rx \<times> um_rx_effect list) cpp" where
  "ur_reassemble i ur = cpp_bind (vec_at (ur_received ur) i) (\<lambda>r.
     if \<not> r then Inr (ur, [])
     else cpp_bind (vec_idx (ur_pduBuffer ur) i) (\<lambda>slot. case slot of
         None \<Rightarrow> Inl Undefined_Behaviour
       | Some pdu \<Rightarrow>
           let pduSno = up_sno pdu;
               ur0 = (if ur_resetFlag ur then ur\<lparr>ur_lastPduReassembled := pduSno - 1\<rparr> else ur)
           in cpp_bind (ur_sdus (up_fi pdu) (up_getNumSdu pdu) pduSno 0 (up_sdus pdu) ur0) (\<lambda>(ur1, effs).
              Inr (ur1\<lparr>ur_pduBuffer := (ur_pduBuffer ur1)[i := None], ur_received := (ur_received ur1)[i := False],
                       ur_lastPduReassembled := pduSno\<rparr>,
                   effs @ replicate (unat pduSno - unat (ur_lastPduReassembled ur1 + 1)) Pdu_Loss))))"

text \<open>A loop over positions.\<close>

fun ur_reassembleAll :: "nat list \<Rightarrow> um_rx \<Rightarrow> (um_rx \<times> um_rx_effect list) cpp" where
  "ur_reassembleAll [] ur = Inr (ur, [])"
| "ur_reassembleAll (i # is) ur = cpp_bind (ur_reassemble i ur) (\<lambda>(ur1, e1).
     cpp_bind (ur_reassembleAll is ur1) (\<lambda>(ur2, e2). Inr (ur2, e1 @ e2)))"

section \<open>The window\<close>

text \<open>One turn of the loop of \<open>moveRxWindow\<close>; \<open>addAt\<close> throws when the slot is in use.\<close>

definition ur_moveSlot :: "nat \<Rightarrow> nat \<Rightarrow> um_pdu option list \<times> bool list \<Rightarrow> (um_pdu option list \<times> bool list) cpp" where
  "ur_moveSlot pos i s = (case s of (slots, rec) \<Rightarrow>
     cpp_bind (case (if i < length slots then slots ! i else None) of
         None \<Rightarrow> Inr slots
       | Some pdu \<Rightarrow>
           if slots ! (i - pos) \<noteq> None then Inl (Runtime_Error ''cArray: addAt(): position already used'')
           else Inr (slots[i := None, i - pos := Some pdu])) (\<lambda>slots1.
     cpp_bind (vec_at rec i) (\<lambda>b.
     cpp_bind (vec_put rec (i - pos) b) (\<lambda>rec1.
     cpp_bind (vec_put rec1 i False) (\<lambda>rec2. Inr (slots1, rec2))))))"

definition ur_moveRxWindow :: "32 word \<Rightarrow> um_rx \<Rightarrow> um_rx cpp" where
  "ur_moveRxWindow pos ur =
     (if sint pos \<le> 0 then Inr ur
      else if pos > rw_windowSize (ur_window ur) then Inl (Runtime_Error ''AmRxQueue::moveRxWindow(): positions, win size'')
      else cpp_bind (cpp_fold (ur_moveSlot (unat pos)) [unat pos ..< unat (rw_windowSize (ur_window ur))]
                       (ur_pduBuffer ur, ur_received ur)) (\<lambda>(slots, rec).
        Inr (ur\<lparr>ur_pduBuffer := slots, ur_received := rec,
                ur_window := (ur_window ur)\<lparr>rw_firstSno := rw_firstSno (ur_window ur) + pos\<rparr>\<rparr>)))"

text \<open>
  The loop that advances the window for a PDU beyond it, on fuel: with a window of size 0 it
  does not end.
\<close>

primrec ur_shift :: "nat \<Rightarrow> 32 word \<Rightarrow> 32 word \<Rightarrow> um_rx \<Rightarrow> (um_rx \<times> um_rx_effect list) cpp" where
  "ur_shift 0 shift tsn ur = Inl Endless_Loop"
| "ur_shift (Suc k) shift tsn ur =
     (if sint shift \<le> 0 then Inr (ur, [])
      else
        let w = ur_window ur;
            p0 = (if shift < rw_windowSize w then shift else rw_windowSize w);
            p = (if rw_firstSno w + p0 > tsn then tsn - rw_firstSno w else p0)
        in cpp_bind (ur_reassembleAll [0 ..< nat (sint p)] ur) (\<lambda>(ur1, e1).
           cpp_bind (ur_moveRxWindow p ur1) (\<lambda>ur2.
           cpp_bind (ur_shift k (shift - p0) tsn ur2) (\<lambda>(ur3, e3). Inr (ur3, e1 @ e3)))))"

definition ur_setWindow :: "(um_window \<Rightarrow> um_window) \<Rightarrow> um_rx \<Rightarrow> um_rx" where
  "ur_setWindow f ur = ur\<lparr>ur_window := f (ur_window ur)\<rparr>"

definition ur_advanceWindow :: "32 word \<Rightarrow> um_rx \<Rightarrow> (um_rx \<times> um_rx_effect list) cpp" where
  "ur_advanceWindow tsn ur =
     (let old = rw_highestReceivedSno (ur_window ur);
          ur1 = ur_setWindow (\<lambda>w. w\<lparr>rw_highestReceivedSno := tsn + 1\<rparr>) ur;
          w = ur_window ur1
      in if rw_firstSno w + rw_windowSize w < rw_highestReceivedSno w then
           cpp_bind (ur_shift (Suc (unat (rw_highestReceivedSno w - old))) (rw_highestReceivedSno w - old) tsn ur1) (\<lambda>(ur2, effs).
           Inr (if rw_firstSnoForReordering (ur_window ur2) < rw_firstSno (ur_window ur2)
                then ur_setWindow (\<lambda>w. w\<lparr>rw_firstSnoForReordering := rw_firstSno w\<rparr>) ur2 else ur2, effs))
         else Inr (ur1, []))"

text \<open>
  The loops that look for the first missing number: they stop at a slot without a PDU, at a number
  that is not below \<open>lmt\<close>, and at the end of the window.
\<close>

lemma sn_distance:
  assumes "a + 1 \<noteq> b"
  shows "unat (b - a - 2 :: 32 word) < unat (b - a - 1)"
proof -
  have "b - a - 1 \<noteq> 0" using assms by (simp add: diff_eq_eq add.commute)
  then have "unat ((b - a - 1) - 1) < unat (b - a - 1)" by (rule measure_unat)
  then show ?thesis by (simp add: diff_diff_add add.commute)
qed

function ur_nextMissing :: "bool list \<Rightarrow> 32 word \<Rightarrow> 32 word \<Rightarrow> 32 word \<Rightarrow> 32 word \<Rightarrow> 32 word cpp" where
  "ur_nextMissing rec first highest lmt f = (case vec_at rec (unat (f - first)) of
      Inl e \<Rightarrow> Inl e
    | Inr b \<Rightarrow> if b \<or> f < lmt then (if f + 1 = highest then Inr highest else ur_nextMissing rec first highest lmt (f + 1))
               else Inr f)"
  by pat_completeness auto
termination by (relation "measure (\<lambda>(_, _, highest, _, f). unat (highest - f - 1))") (auto simp: sn_distance)

declare ur_nextMissing.simps [simp del]

definition ur_deliverUpTo :: "32 word \<Rightarrow> um_rx \<Rightarrow> (um_rx \<times> um_rx_effect list) cpp" where
  "ur_deliverUpTo lmt ur =
     (let w = ur_window ur; old = rw_firstSnoForReordering w
      in cpp_bind (ur_nextMissing (ur_received ur) (rw_firstSno w) (rw_highestReceivedSno w) lmt old) (\<lambda>f.
         ur_reassembleAll [unat (old - rw_firstSno w) ..< unat (f - rw_firstSno w)]
           (ur_setWindow (\<lambda>w. w\<lparr>rw_firstSnoForReordering := f\<rparr>) ur)))"

section \<open>The reordering timer and the bursts\<close>

definition ur_startReordering :: "simtime \<Rightarrow> um_rx \<Rightarrow> um_rx" where
  "ur_startReordering now ur = (if ur_reordering ur \<noteq> None then ur else ur\<lparr>ur_reordering := Some (now + ur_timeout ur)\<rparr>)"

definition ur_stopReordering :: "um_rx \<Rightarrow> um_rx" where
  "ur_stopReordering ur = ur\<lparr>ur_reordering := None\<rparr>"

definition ur_checkTimer :: "simtime \<Rightarrow> um_rx \<Rightarrow> um_rx" where
  "ur_checkTimer now ur =
     (let w = ur_window ur;
          ur1 = (if ur_reordering ur \<noteq> None \<and>
                    (rw_reorderingSno w \<le> rw_firstSnoForReordering w \<or> rw_reorderingSno w < rw_firstSno w
                     \<or> rw_reorderingSno w > rw_highestReceivedSno w)
                 then ur_stopReordering ur else ur)
      in if ur_reordering ur1 = None \<and> rw_highestReceivedSno w > rw_firstSnoForReordering w
         then ur_setWindow (\<lambda>w. w\<lparr>rw_reorderingSno := rw_highestReceivedSno w\<rparr>) (ur_startReordering now ur1) else ur1)"

definition TTI :: simtime where "TTI = 1 / 1000"

text \<open>
  \<open>handleBurst\<close> with the test as it is written: \<open>((pduBuffer_.size() + (buffered_.pkt == NULL)) ? 0 : 1) == 0\<close>.
\<close>

definition ur_burstOver :: "um_rx \<Rightarrow> bool" where
  "ur_burstOver ur = (list_ex (\<lambda>slot. slot \<noteq> None) (ur_pduBuffer ur) \<or> ur_buffered ur = None)"

definition ur_handleBurst :: "simtime \<Rightarrow> bool \<Rightarrow> um_rx \<Rightarrow> um_rx \<times> um_rx_effect list" where
  "ur_handleBurst now enque ur =
     (let (ur1, effs) =
        (if ur_burstOver ur then
           if ur_isBurst ur then
             (ur\<lparr>ur_totalBits := 0, ur_t2 := 0, ur_t1 := 0, ur_isBurst := False\<rparr>,
              if ur_t1 ur - ur_t2 ur > TTI then [Add_Ue_Throughput (ur_totalBits ur) (ur_t1 ur - ur_t2 ur)] else [])
           else (ur, [])
         else if ur_isBurst ur then
           (if enque then ur\<lparr>ur_totalBits := ur_totalBits ur + ur_ttiBits ur, ur_t1 := now\<rparr> else ur, [])
         else (ur\<lparr>ur_isBurst := True, ur_totalBits := ur_ttiBits ur, ur_t2 := now, ur_t1 := now\<rparr>, []))
      in (ur1\<lparr>ur_ttiBits := 0\<rparr>, effs))"

section \<open>PDUs, timer events, mode switches\<close>

text \<open>A PDU that is neither a duplicate nor too late.\<close>

definition ur_store :: "simtime \<Rightarrow> um_pdu \<Rightarrow> um_rx \<Rightarrow> (um_rx \<times> um_rx_effect list) cpp" where
  "ur_store now pdu ur =
     (let tsn = up_sno pdu in
      cpp_bind (if tsn \<ge> rw_highestReceivedSno (ur_window ur) then ur_advanceWindow tsn ur else Inr (ur, [])) (\<lambda>(ur1, e1).
      let i = unat (tsn - rw_firstSno (ur_window ur1)) in
      if i < length (ur_pduBuffer ur1) \<and> ur_pduBuffer ur1 ! i \<noteq> None
      then Inl (Runtime_Error ''cArray: addAt(): position already used'')
      else
        cpp_bind (vec_put (ur_received ur1) i True) (\<lambda>rec.
        let ur2 = ur1\<lparr>ur_pduBuffer := (ur_pduBuffer ur1)[i := Some pdu], ur_received := rec\<rparr>; w = ur_window ur2
        in cpp_bind (vec_at rec (unat (rw_firstSnoForReordering w - rw_firstSno w))) (\<lambda>nx.
           cpp_bind (if nx then ur_deliverUpTo 0 ur2 else Inr (ur2, [])) (\<lambda>(ur3, e3).
           let ur4 = ur_checkTimer now ur3;
               (ur5, e5) = (if ur_direction ur = UL then ur_handleBurst now True ur4 else (ur4, []))
           in Inr (ur5, e1 @ e3 @ e5))))))"

definition ur_enque :: "simtime \<Rightarrow> um_pdu \<Rightarrow> um_rx \<Rightarrow> (um_rx \<times> um_rx_effect list) cpp" where
  "ur_enque now pdu ur =
     (let tsn = up_sno pdu;
          ur0 = (if \<not> ur_init ur \<and> ur_direction ur = D2D_MULTI
                 then (ur_setWindow (\<lambda>w. (rw_clear tsn w)\<lparr>rw_windowSize := 1\<rparr>) ur)\<lparr>ur_init := True\<rparr> else ur);
          w = ur_window ur0
      in cpp_bind (if tsn \<ge> rw_firstSnoForReordering w \<and> tsn < rw_highestReceivedSno w
                   then vec_at (ur_received ur0) (unat (tsn - rw_firstSno w)) else Inr False) (\<lambda>duplicate.
         if duplicate \<or> tsn < rw_firstSnoForReordering w then Inr (ur0, [])
         else ur_store now pdu ur0))"

text \<open>The reordering timer has gone off.\<close>

definition ur_handleTimer :: "simtime \<Rightarrow> um_rx \<Rightarrow> (um_rx \<times> um_rx_effect list) cpp" where
  "ur_handleTimer now ur =
     (let ur0 = ur\<lparr>ur_reordering := None\<rparr>
      in cpp_bind (ur_deliverUpTo (rw_reorderingSno (ur_window ur0)) ur0) (\<lambda>(ur1, effs).
         let w = ur_window ur1
         in Inr (if rw_highestReceivedSno w > rw_firstSnoForReordering w
                 then ur_startReordering now (ur_setWindow (\<lambda>w. w\<lparr>rw_reorderingSno := rw_highestReceivedSno w\<rparr>) ur1)
                 else ur1, effs)))"

definition ur_isEmpty :: "um_rx \<Rightarrow> bool" where
  "ur_isEmpty ur = (ur_buffered ur = None \<and> list_all (\<lambda>slot. slot = None) (ur_pduBuffer ur))"

definition ur_rlcHandleD2DModeSwitch :: "bool \<Rightarrow> bool \<Rightarrow> bool \<Rightarrow> um_rx \<Rightarrow> (um_rx \<times> um_rx_effect list) cpp" where
  "ur_rlcHandleD2DModeSwitch oldConnection oldModeIsIM clearBuffer ur =
     (if oldConnection then
        if ur_ownerIsUe ur \<and> oldModeIsIM then Inr (ur, [])
        else if clearBuffer then
          cpp_bind (ur_reassembleAll [0 ..< unat (rw_windowSize (ur_window ur))] ur) (\<lambda>(ur1, effs).
          Inr (ur_stopReordering (ur_clearBufferedSdu
                 (ur1\<lparr>ur_pduBuffer := map (\<lambda>_. None) (ur_pduBuffer ur1), ur_received := map (\<lambda>_. False) (ur_received ur1)\<rparr>)), effs))
        else Inr (ur, [])
      else Inr ((ur_setWindow (rw_clear 0) ur)\<lparr>ur_resetFlag := True\<rparr>, []))"

end
