(* ===== verification/Rlc_Um_Reassembly.thy ===== *)
theory Rlc_Um_Reassembly
  imports Rlc_Um_Rx Rlc_Um_Stream
begin

text \<open>
  Reassembly against the cutting of the transmitting entity: a PDU of the sequence, taken up after
  some earlier PDU, never fails and gives SDUs that end in it; all of them, when the PDU before
  has been taken up last.
\<close>

fun delivered :: "um_rx_effect list \<Rightarrow> rlc_sdu list" where
  "delivered [] = []"
| "delivered (To_Pdcp s # es) = s # delivered es"
| "delivered (_ # es) = delivered es"

lemma delivered_append [simp]: "delivered (xs @ ys) = delivered xs @ delivered ys"
  by (induction xs rule: delivered.induct) auto

lemma delivered_losses [simp]: "delivered (replicate n Sdu_Loss) = []" "delivered (replicate n Pdu_Loss) = []"
  by (induction n) auto

section \<open>The fields reassembly leaves alone\<close>

definition same_window :: "um_rx \<Rightarrow> um_rx \<Rightarrow> bool" where
  "same_window ur ur' = (ur_window ur' = ur_window ur \<and> ur_received ur' = ur_received ur \<and> ur_pduBuffer ur' = ur_pduBuffer ur
     \<and> ur_init ur' = ur_init ur \<and> ur_resetFlag ur' = ur_resetFlag ur \<and> ur_reordering ur' = ur_reordering ur
     \<and> ur_timeout ur' = ur_timeout ur \<and> ur_direction ur' = ur_direction ur)"

lemma same_window_refl: "same_window ur ur"
  by (simp add: same_window_def)

lemma same_window_trans: "same_window a b \<Longrightarrow> same_window b c \<Longrightarrow> same_window a c"
  by (simp add: same_window_def)

lemma ur_clear_same [simp]: "same_window ur (ur_clearBufferedSdu ur)" "ur_buffered (ur_clearBufferedSdu ur) = None"
  by (auto simp: ur_clearBufferedSdu_def same_window_def split: option.splits)

lemma ur_bits_same [simp]: "same_window ur (ur_addBits n ur)" "ur_buffered (ur_addBits n ur) = ur_buffered ur"
  by (simp_all add: ur_addBits_def same_window_def)

lemma ur_toPdcp_same: "ur_toPdcp s ur = (ur', effs) \<Longrightarrow> same_window ur ur' \<and> ur_buffered ur' = ur_buffered ur \<and> delivered effs = [s]"
  by (auto simp: ur_toPdcp_def same_window_def)

section \<open>Single SDUs\<close>

text \<open>The result of a step: the SDUs delivered and what is buffered afterwards.\<close>

definition gives :: "um_rx \<Rightarrow> (um_rx \<times> um_rx_effect list) cpp \<Rightarrow> rlc_sdu list \<Rightarrow> (rlc_sdu \<times> nat \<times> 32 word) option \<Rightarrow> bool" where
  "gives ur r d buf = (\<exists>ur' effs. r = Inr (ur', effs) \<and> same_window ur ur' \<and> delivered effs = d \<and> ur_buffered ur' = buf)"

lemma ur_whole_gives: "len = rs_length s \<Longrightarrow> gives ur (ur_whole count s len ur) [s] None"
proof -
  assume len: "len = rs_length s"
  obtain ur1 effs where t: "ur_toPdcp s (if count then ur_addBits len ur else ur) = (ur1, effs)" by fastforce
  have "same_window ur (if count then ur_addBits len ur else ur)" by (simp add: same_window_refl)
  with ur_toPdcp_same[OF t] have w: "same_window ur (ur_clearBufferedSdu ur1)" "delivered effs = [s]"
    using same_window_trans[OF same_window_trans ur_clear_same(1)] by blast+
  have "ur_whole count s len ur = Inr (ur_clearBufferedSdu ur1, effs)" using len t by (cases count) (simp_all add: ur_whole_def)
  with w show ?thesis by (simp add: gives_def)
qed

lemma ur_firstPart_gives: "gives ur (ur_firstPart s len n ur) [] (Some (s, len, n))"
proof -
  have "same_window ur (ur_addBits len ((ur_clearBufferedSdu ur)\<lparr>ur_buffered := Some (s, len, n)\<rparr>))"
    using ur_clear_same(1)[of ur] by (simp add: same_window_def ur_addBits_def)
  then show ?thesis by (simp add: gives_def ur_firstPart_def)
qed

lemma ur_lastPart_gives:
  assumes "ur_buffered ur = Some (s, k, n - 1)" "k + len = rs_length s" "rs_length s < 2 ^ 32"
  shows "gives ur (ur_lastPart bits s len n False ur) [s] None"
proof -
  obtain ur1 effs where t: "ur_toPdcp s (ur_addBits bits ur) = (ur1, effs)" by fastforce
  have "same_window ur (ur_clearBufferedSdu ur1)" "delivered effs = [s]"
    using ur_toPdcp_same[OF t] same_window_trans[OF same_window_trans[OF ur_bits_same(1)] ur_clear_same(1)] by blast+
  then show ?thesis using assms t
    by (simp add: gives_def ur_lastPart_def ur_inSequence_def ur_bufferedSize_def)
qed

lemma ur_lastPart_drops:
  "\<not> ur_inSequence s n False ur \<Longrightarrow> gives ur (ur_lastPart bits s len n False ur) [] None"
  by (simp add: gives_def ur_lastPart_def)

lemma ur_middlePart_gives:
  "ur_buffered ur = Some (s, k, n - 1) \<Longrightarrow> gives ur (ur_middlePart s len n False ur) [] (Some (s, k + len, n))"
  by (simp add: gives_def ur_middlePart_def ur_inSequence_def ur_addBits_def same_window_def)

lemma ur_middlePart_drops:
  "\<not> ur_inSequence s n False ur \<Longrightarrow> gives ur (ur_middlePart s len n False ur) [] None"
  by (simp add: gives_def ur_middlePart_def)

section \<open>The SDUs of a PDU\<close>

lemma gives_sdus:
  assumes "\<not> ur_resetFlag ur" "gives ur (ur_oneSdu fi n i sno False s len ur) d1 buf1"
    and "\<And>ur1. same_window ur ur1 \<Longrightarrow> ur_buffered ur1 = buf1 \<Longrightarrow> gives ur1 (ur_sdus fi n sno (i + 1) xs ur1) d2 buf2"
  shows "gives ur (ur_sdus fi n sno i ((s, len) # xs) ur) (d1 @ d2) buf2"
proof -
  obtain ur1 e1 where o: "ur_oneSdu fi n i sno False s len ur = Inr (ur1, e1)" "same_window ur ur1" "delivered e1 = d1"
    "ur_buffered ur1 = buf1" using assms(2) by (auto simp: gives_def)
  obtain ur2 e2 where r: "ur_sdus fi n sno (i + 1) xs ur1 = Inr (ur2, e2)" "same_window ur1 ur2" "delivered e2 = d2"
    "ur_buffered ur2 = buf2" using assms(3)[OF o(2,4)] by (auto simp: gives_def)
  from same_window_trans[OF o(2) r(2)] o r assms(1) show ?thesis by (simp add: gives_def)
qed

text \<open>The carry as it is buffered after the PDU \<open>sno\<close>.\<close>

definition buffer_of :: "carry \<Rightarrow> 32 word \<Rightarrow> (rlc_sdu \<times> nat \<times> 32 word) option" where
  "buffer_of c sno = map_option (\<lambda>(s, k). (s, k, sno)) c"

lemma framing_bits:
  "framing c None = 0 \<or> framing c None = 2" "framing c (Some x) = 1 \<or> framing c (Some x) = 3"
  "framing None c' = 0 \<or> framing None c' = 1" "framing (Some x) c' = 2 \<or> framing (Some x) c' = 3"
  by (auto simp: framing_def)

text \<open>The SDUs after the first.\<close>

lemma ur_sdus_rest:
  assumes "chunks_after None xs = Some (c', d)" "0 < i" "i + length xs = n" "xs \<noteq> []" "\<not> ur_resetFlag ur"
  shows "gives ur (ur_sdus (framing c c') n sno i xs ur) d (buffer_of c' sno)"
  using assms
proof (induction xs arbitrary: i ur d)
  case (Cons x xs)
  obtain s len where x: "x = (s, len)" by fastforce
  show ?case
  proof (cases "len = rs_length s")
    case True
    then obtain d2 where d: "chunks_after None xs = Some (c', d2)" "d = s # d2"
      using Cons.prems(1) x by (auto split: if_splits)
    have "gives ur (ur_oneSdu (framing c c') n i sno False s len ur) [s] None"
    proof (cases "xs = []")
      case True
      then have "c' = None" using d(1) by simp
      then show ?thesis using Cons.prems(2,3) True ur_whole_gives[OF \<open>len = rs_length s\<close>] framing_bits(1)[of c]
        by (auto simp: ur_oneSdu_def)
    next
      case False
      then show ?thesis using Cons.prems(2,3) ur_whole_gives[OF True] by (auto simp: ur_oneSdu_def)
    qed
    moreover have "gives ur1 (ur_sdus (framing c c') n sno (i + 1) xs ur1) d2 (buffer_of c' sno)"
      if "same_window ur ur1" "ur_buffered ur1 = None" for ur1
    proof (cases "xs = []")
      case True
      then show ?thesis using d(1) that by (simp add: gives_def buffer_of_def same_window_refl)
    next
      case False
      have "\<not> ur_resetFlag ur1" using that(1) Cons.prems(5) by (simp add: same_window_def)
      with Cons.IH[OF d(1) _ _ False] Cons.prems(3) show ?thesis by simp
    qed
    ultimately have "gives ur (ur_sdus (framing c c') n sno i ((s, len) # xs) ur) ([s] @ d2) (buffer_of c' sno)"
      by (rule gives_sdus[OF Cons.prems(5)])
    then show ?thesis by (simp add: x d(2))
  next
    case False
    then have e: "xs = []" "c' = Some (s, len)" "d = []" using Cons.prems(1) x by (auto split: if_splits)
    have "gives ur (ur_oneSdu (framing c c') n i sno False s len ur) [] (Some (s, len, sno))"
      using Cons.prems(2,3) e ur_firstPart_gives framing_bits(2)[of c "(s, len)"] by (auto simp: ur_oneSdu_def)
    then have "gives ur (ur_sdus (framing c c') n sno i ((s, len) # xs) ur) ([] @ []) (Some (s, len, sno))"
      by (rule gives_sdus[OF Cons.prems(5)]) (simp add: e gives_def same_window_refl)
    then show ?thesis by (simp add: x e buffer_of_def)
  qed
qed simp

text \<open>What a PDU gives, when the part buffered belongs to it and when it does not.\<close>

lemma ur_sdus_first:
  assumes "chunks_after c xs = Some (c', d)" "xs \<noteq> []" "\<not> ur_resetFlag ur" "list_all (\<lambda>x. rs_length (fst x) < 2 ^ 32) xs"
  shows "(case c of None \<Rightarrow> True | Some (s, k) \<Rightarrow> ur_buffered ur = Some (s, k, sno - 1)) \<Longrightarrow>
      gives ur (ur_sdus (framing c c') (length xs) sno 0 xs ur) d (buffer_of c' sno)"
    and "c \<noteq> None \<Longrightarrow> \<not> ur_inSequence (fst (hd xs)) sno False ur \<Longrightarrow>
      \<exists>d' buf. subseq d' d \<and> (buf = None \<or> buf = buffer_of c' sno) \<and> gives ur (ur_sdus (framing c c') (length xs) sno 0 xs ur) d' buf"
proof -
  obtain s len ys where xs: "xs = (s, len) # ys" using assms(2) by (cases xs) auto
  have lt: "rs_length s < 2 ^ 32" using assms(4) xs by simp
  define k where "k = (case c of None \<Rightarrow> 0 | Some (_, k) \<Rightarrow> k)"
  have c: "c = None \<or> c = Some (s, k)" using assms(1) by (cases c) (auto simp: xs k_def split: if_splits)
  have rest: "gives ur1 (ur_sdus (framing c c') (length xs) sno (0 + 1) ys ur1) d2 (if ys = [] then buf else buffer_of c' sno)"
    if "chunks_after None ys = Some (c', d2)" "same_window ur ur1" "ur_buffered ur1 = buf" for ur1 buf d2
  proof (cases "ys = []")
    case True
    with that show ?thesis by (simp add: gives_def same_window_refl)
  next
    case False
    have "\<not> ur_resetFlag ur1" using that(2) assms(3) by (simp add: same_window_def)
    with ur_sdus_rest[OF that(1) _ _ False, of 1 "length xs" ur1 c sno] False show ?thesis by (simp add: xs)
  qed
  consider (ends) d2 where "k + len = rs_length s" "chunks_after None ys = Some (c', d2)" "d = s # d2"
    | (cut) "k + len < rs_length s" "ys = []" "c' = Some (s, k + len)" "d = []"
    using assms(1) by (cases c) (auto simp: xs k_def split: if_splits)
  note cases = this
  show "gives ur (ur_sdus (framing c c') (length xs) sno 0 xs ur) d (buffer_of c' sno)"
    if b: "case c of None \<Rightarrow> True | Some (s, k) \<Rightarrow> ur_buffered ur = Some (s, k, sno - 1)"
    using cases
  proof cases
    case (ends d2)
    have "gives ur (ur_oneSdu (framing c c') (length xs) 0 sno False s len ur) [s] None"
      using c
    proof
      assume "c = None"
      with ends show ?thesis using ur_whole_gives[of len s] framing_bits(3)[of c']
        by (cases "ys = []") (auto simp: ur_oneSdu_def xs k_def framing_def)
    next
      assume "c = Some (s, k)"
      with ends b lt show ?thesis using ur_lastPart_gives[of ur s k sno len] framing_bits(4)[of "(s, k)" c']
        by (cases "ys = []") (auto simp: ur_oneSdu_def xs framing_def)
    qed
    from gives_sdus[OF assms(3) this rest[OF ends(2)]] show ?thesis
      using ends by (cases "ys = []") (auto simp: xs buffer_of_def)
  next
    case cut
    have "gives ur (ur_oneSdu (framing c c') (length xs) 0 sno False s len ur) [] (Some (s, k + len, sno))"
      using c
    proof
      assume "c = None"
      with cut show ?thesis using ur_firstPart_gives[of ur s len sno] by (simp add: ur_oneSdu_def xs k_def framing_def)
    next
      assume "c = Some (s, k)"
      with cut b show ?thesis using ur_middlePart_gives[of ur s k sno len] by (simp add: ur_oneSdu_def xs framing_def)
    qed
    from gives_sdus[OF assms(3) this, of "[]" "[]" "Some (s, k + len, sno)"] cut show ?thesis
      by (simp add: xs buffer_of_def gives_def same_window_refl)
  qed
  show "\<exists>d' buf. subseq d' d \<and> (buf = None \<or> buf = buffer_of c' sno) \<and> gives ur (ur_sdus (framing c c') (length xs) sno 0 xs ur) d' buf"
    if "c \<noteq> None" and n: "\<not> ur_inSequence (fst (hd xs)) sno False ur"
    using cases
  proof cases
    case (ends d2)
    have "gives ur (ur_oneSdu (framing c c') (length xs) 0 sno False s len ur) [] None"
      using c that ends ur_lastPart_drops[of s sno ur] framing_bits(4)[of "(s, k)" c']
      by (cases "ys = []") (auto simp: ur_oneSdu_def xs framing_def)
    from gives_sdus[OF assms(3) this rest[OF ends(2)]] ends(3) show ?thesis
      by (intro exI[of _ d2] exI[of _ "if ys = [] then None else buffer_of c' sno"]) (auto simp: xs)
  next
    case cut
    have "gives ur (ur_oneSdu (framing c c') (length xs) 0 sno False s len ur) [] None"
      using c that cut ur_middlePart_drops[of s sno ur] by (auto simp: ur_oneSdu_def xs framing_def)
    from gives_sdus[OF assms(3) this, of "[]" "[]" None] cut show ?thesis
      by (intro exI[of _ "[]"] exI[of _ None]) (simp add: xs gives_def same_window_refl)
  qed
qed

end
