(* ===== verification/Rlc_Um_Window.thy ===== *)
theory Rlc_Um_Window
  imports Rlc_Um_Reassembly
begin

text \<open>
  The reception window against the sequence of PDUs sent: what the slots may hold, what has been
  delivered and what is buffered, and that reassembling, moving the window and looking for the
  next missing number keep it.
\<close>

section \<open>Slots and output\<close>

abbreviation ur_first :: "um_rx \<Rightarrow> nat" where "ur_first ur \<equiv> unat (rw_firstSno (ur_window ur))"
abbreviation ur_next :: "um_rx \<Rightarrow> nat" where "ur_next ur \<equiv> unat (rw_firstSnoForReordering (ur_window ur))"
abbreviation ur_high :: "um_rx \<Rightarrow> nat" where "ur_high ur \<equiv> unat (rw_highestReceivedSno (ur_window ur))"
abbreviation ur_wsize :: "um_rx \<Rightarrow> nat" where "ur_wsize ur \<equiv> unat (rw_windowSize (ur_window ur))"

text \<open>The numbers below \<open>m\<close> have been taken up, those from \<open>h\<close> on have not arrived.\<close>

definition slots_ok :: "um_pdu list \<Rightarrow> nat \<Rightarrow> nat \<Rightarrow> um_rx \<Rightarrow> bool" where
  "slots_ok ps m h ur = (ur_wsize ur \<le> length (ur_pduBuffer ur) \<and> ur_received ur = map (\<lambda>s. s \<noteq> None) (ur_pduBuffer ur)
     \<and> (\<forall>i < length (ur_pduBuffer ur). \<forall>p. ur_pduBuffer ur ! i = Some p \<longrightarrow>
          i < ur_wsize ur \<and> m \<le> ur_first ur + i \<and> ur_first ur + i < h \<and> ur_first ur + i < length ps \<and> p = ps ! (ur_first ur + i)))"

definition buf_ok :: "um_pdu list \<Rightarrow> nat \<Rightarrow> um_rx \<Rightarrow> bool" where
  "buf_ok ps m ur = (case ur_buffered ur of
      None \<Rightarrow> True
    | Some (s, k, n) \<Rightarrow> \<exists>i < m. n = of_nat i \<and> carry_at ps (Suc i) = Some (s, k))"

definition out_ok :: "um_pdu list \<Rightarrow> nat \<Rightarrow> um_rx \<Rightarrow> rlc_sdu list \<Rightarrow> bool" where
  "out_ok ps m ur ds = (stream_ok ps \<and> length ps < 2 ^ 31 \<and> m \<le> length ps \<and> \<not> ur_resetFlag ur \<and> buf_ok ps m ur
     \<and> subseq ds (dones ps m))"

text \<open>Nothing has been lost so far.\<close>

definition out_exact :: "um_pdu list \<Rightarrow> nat \<Rightarrow> um_rx \<Rightarrow> rlc_sdu list \<Rightarrow> bool" where
  "out_exact ps m ur ds = (ds = dones ps m \<and> ur_buffered ur = buffer_of (carry_at ps m) (of_nat m - 1))"

text \<open>The fields that reassembly does not touch.\<close>

definition kept :: "um_rx \<Rightarrow> um_rx \<Rightarrow> bool" where
  "kept ur ur' = (ur_window ur' = ur_window ur \<and> ur_init ur' = ur_init ur
     \<and> ur_resetFlag ur' = ur_resetFlag ur \<and> ur_reordering ur' = ur_reordering ur
     \<and> ur_timeout ur' = ur_timeout ur \<and> ur_direction ur' = ur_direction ur \<and> length (ur_pduBuffer ur') = length (ur_pduBuffer ur))"

lemma kept_refl: "kept ur ur" by (simp add: kept_def)

lemma kept_trans: "kept a b \<Longrightarrow> kept b c \<Longrightarrow> kept a c" by (simp add: kept_def)

lemma keptD: "kept ur ur' \<Longrightarrow> ur_window ur' = ur_window ur" "kept ur ur' \<Longrightarrow> length (ur_pduBuffer ur') = length (ur_pduBuffer ur)"
  by (simp_all add: kept_def)

lemma slots_okD:
  assumes "slots_ok ps m h ur" "i < length (ur_pduBuffer ur)" "ur_pduBuffer ur ! i = Some p"
  shows "i < ur_wsize ur" "m \<le> ur_first ur + i" "ur_first ur + i < h" "ur_first ur + i < length ps" "p = ps ! (ur_first ur + i)"
  using assms by (auto simp: slots_ok_def)

lemma slots_received: "slots_ok ps m h ur \<Longrightarrow> i < length (ur_pduBuffer ur) \<Longrightarrow> ur_received ur ! i = (ur_pduBuffer ur ! i \<noteq> None)"
  and slots_length: "slots_ok ps m h ur \<Longrightarrow> length (ur_received ur) = length (ur_pduBuffer ur)"
  and slots_wsize: "slots_ok ps m h ur \<Longrightarrow> ur_wsize ur \<le> length (ur_pduBuffer ur)"
  by (simp_all add: slots_ok_def)

text \<open>A slot that is empty has no part in going on.\<close>

lemma out_skip:
  assumes "out_ok ps m ur ds" "m \<le> m'" "m' \<le> length ps"
  shows "out_ok ps m' ur ds"
proof -
  obtain xs where "dones ps m' = dones ps m @ xs" using dones_prefix[OF assms(2)] by blast
  moreover have "buf_ok ps m' ur" using assms(1,2)
    by (auto simp: out_ok_def buf_ok_def split: option.splits intro: less_le_trans)
  ultimately show ?thesis using assms(1,3) by (auto simp: out_ok_def intro: list_emb_append2)
qed

section \<open>The next PDU\<close>

lemma chunks_front: "chunks_after (Some (s, k)) xs = Some r \<Longrightarrow> xs \<noteq> [] \<Longrightarrow> fst (hd xs) = s"
  by (cases xs) (auto split: if_splits)

lemma small_sn: "i < 2 ^ 31 \<Longrightarrow> j < 2 ^ 31 \<Longrightarrow> (of_nat j :: 32 word) = of_nat i + 1 \<Longrightarrow> j = Suc i"
proof -
  assume "i < 2 ^ 31" "j < 2 ^ 31" and e: "(of_nat j :: 32 word) = of_nat i + 1"
  then have "(of_nat j :: 32 word) = of_nat (Suc i)" "j < 2 ^ 32" "Suc i < 2 ^ 32" by (simp_all add: add.commute)
  then show ?thesis using of_nat_word_eq_iff[of j "Suc i", where 'l = 32] by simp
qed

lemma ur_sdus_next:
  assumes "out_ok ps m ur ds" "m < length ps" "p = ps ! m"
  shows "\<exists>d buf. gives ur (ur_sdus (up_fi p) (up_getNumSdu p) (up_sno p) 0 (up_sdus p) ur) d buf
    \<and> subseq d (done_at ps m) \<and> (buf = None \<or> buf = buffer_of (carry_at ps (Suc m)) (of_nat m))
    \<and> (ur_buffered ur = buffer_of (carry_at ps m) (of_nat m - 1) \<longrightarrow>
        d = done_at ps m \<and> buf = buffer_of (carry_at ps (Suc m)) (of_nat m))"
proof -
  have o: "stream_ok ps" "length ps < 2 ^ 31" "\<not> ur_resetFlag ur" "buf_ok ps m ur" using assms(1) by (simp_all add: out_ok_def)
  have p: "pdu_ok ps m" by (rule stream_ok_nth[OF o(1) assms(2)])
  note ch = pdu_ok_chunks[OF p, folded assms(3)]
  have q: "up_sno p = of_nat m" "up_fi p = framing (carry_at ps m) (carry_at ps (Suc m))" "up_sdus p \<noteq> []"
    "list_all (\<lambda>x. rs_length (fst x) < 2 ^ 32) (up_sdus p)" using p assms(3) by (auto simp: pdu_ok_def)
  note first = ur_sdus_first[OF ch q(3) o(3) q(4), of "of_nat m"]
  show ?thesis
  proof (cases "case carry_at ps m of None \<Rightarrow> True | Some (s, k) \<Rightarrow> ur_buffered ur = Some (s, k, of_nat m - 1)")
    case True
    from first(1)[OF this] show ?thesis unfolding q(1,2) up_getNumSdu_def by blast
  next
    case False
    then obtain s k where c: "carry_at ps m = Some (s, k)" "ur_buffered ur \<noteq> Some (s, k, of_nat m - 1)"
      by (auto split: option.splits)
    have "\<not> ur_inSequence s (of_nat m) False ur"
    proof
      assume "ur_inSequence s (of_nat m) False ur"
      then obtain b sz cur where b: "ur_buffered ur = Some (b, sz, cur)" "(of_nat m :: 32 word) = cur + 1"
        by (auto simp: ur_inSequence_def split: option.splits)
      then obtain i where i: "i < m" "cur = of_nat i" "carry_at ps (Suc i) = Some (b, sz)" using o(4) by (auto simp: buf_ok_def)
      have "m = Suc i" by (rule small_sn) (use i b assms(2) o(2) in auto)
      then show False using b c i by simp
    qed
    moreover have "fst (hd (up_sdus p)) = s" using ch q(3) chunks_front unfolding c(1) by blast
    moreover have "carry_at ps m \<noteq> None" using c by simp
    ultimately show ?thesis using first(2) c unfolding q(1,2) up_getNumSdu_def by (auto simp: buffer_of_def)
  qed
qed

lemma buf_ok_after:
  "ur_buffered ur = None \<or> ur_buffered ur = buffer_of (carry_at ps (Suc m)) (of_nat m) \<Longrightarrow> buf_ok ps (Suc m) ur"
  by (auto simp: buf_ok_def buffer_of_def simp del: carry_at.simps split: option.splits)

section \<open>Reassembling a slot\<close>

lemma ur_reassemble_at:
  assumes "slots_ok ps m h ur" "out_ok ps m ur ds" "i < length (ur_pduBuffer ur)" "ur_first ur + i \<le> m" "ur_first ur + i < length ps"
  shows "\<exists>ur' effs. ur_reassemble i ur = Inr (ur', effs) \<and> kept ur ur' \<and> ur_pduBuffer ur' = (ur_pduBuffer ur)[i := None]
    \<and> slots_ok ps (max m (Suc (ur_first ur + i))) h ur' \<and> out_ok ps (max m (Suc (ur_first ur + i))) ur' (ds @ delivered effs)
    \<and> (ur_first ur + i < m \<or> ur_pduBuffer ur ! i \<noteq> None \<longrightarrow> out_exact ps m ur ds \<longrightarrow>
        out_exact ps (max m (Suc (ur_first ur + i))) ur' (ds @ delivered effs))"
proof (cases "ur_pduBuffer ur ! i")
  case None
  have r: "ur_reassemble i ur = Inr (ur, [])" using assms(1,3) None
    by (simp add: ur_reassemble_def slots_received slots_length)
  have len: "m \<le> length ps" using assms(2) by (simp add: out_ok_def)
  have "slots_ok ps (max m (Suc (ur_first ur + i))) h ur"
  proof -
    have "max m (Suc (ur_first ur + i)) \<le> ur_first ur + j" if "j < length (ur_pduBuffer ur)" "ur_pduBuffer ur ! j = Some p" for j p
    proof -
      have "m \<le> ur_first ur + j" using slots_okD(2)[OF assms(1) that] .
      moreover have "j \<noteq> i" using that None by auto
      ultimately show ?thesis using assms(4) by auto
    qed
    then show ?thesis using assms(1) by (simp add: slots_ok_def)
  qed
  moreover have "out_ok ps (max m (Suc (ur_first ur + i))) ur ds" by (rule out_skip[OF assms(2)]) (use len assms(5) in auto)
  moreover have "(ur_pduBuffer ur)[i := None] = ur_pduBuffer ur" using None by (metis list_update_id)
  moreover have "max m (Suc (ur_first ur + i)) = m" if "ur_first ur + i < m" using that by simp
  ultimately show ?thesis using r None by (intro exI[of _ ur] exI[of _ "[]"]) (auto simp: kept_refl)
next
  case (Some p)
  from slots_okD[OF assms(1,3) Some] assms(4) have m: "ur_first ur + i = m" "m < length ps" "p = ps ! m" by auto
  have rs: "\<not> ur_resetFlag ur" using assms(2) by (simp add: out_ok_def)
  from ur_sdus_next[OF assms(2) m(2,3)] obtain d buf where
    g: "gives ur (ur_sdus (up_fi p) (up_getNumSdu p) (up_sno p) 0 (up_sdus p) ur) d buf" "subseq d (done_at ps m)"
    "buf = None \<or> buf = buffer_of (carry_at ps (Suc m)) (of_nat m)"
    "ur_buffered ur = buffer_of (carry_at ps m) (of_nat m - 1) \<longrightarrow>
       d = done_at ps m \<and> buf = buffer_of (carry_at ps (Suc m)) (of_nat m)" by blast
  from g(1) obtain ur1 effs where u: "ur_sdus (up_fi p) (up_getNumSdu p) (up_sno p) 0 (up_sdus p) ur = Inr (ur1, effs)"
    "same_window ur ur1" "delivered effs = d" "ur_buffered ur1 = buf" by (auto simp: gives_def)
  let ?ur = "ur1\<lparr>ur_pduBuffer := (ur_pduBuffer ur)[i := None], ur_received := (ur_received ur)[i := False],
      ur_lastPduReassembled := up_sno p\<rparr>"
  obtain es where r: "ur_reassemble i ur = Inr (?ur, es)" and es: "delivered es = d"
    using assms(1,3) Some u rs by (simp add: ur_reassemble_def slots_received slots_length Let_def same_window_def)
  have k: "kept ur ?ur" using u(2) by (simp add: kept_def same_window_def)
  have mx: "max m (Suc (ur_first ur + i)) = Suc m" using m(1) by simp
  have "slots_ok ps (Suc m) h ?ur"
  proof -
    have "j < ur_wsize ur \<and> Suc m \<le> ur_first ur + j \<and> ur_first ur + j < h \<and> ur_first ur + j < length ps \<and> q = ps ! (ur_first ur + j)"
      if "j < length (ur_pduBuffer ur)" "(ur_pduBuffer ur)[i := None] ! j = Some q" for j q
    proof -
      have "j \<noteq> i" using that assms(3) by auto
      with that have "ur_pduBuffer ur ! j = Some q" by simp
      from slots_okD[OF assms(1) that(1) this] \<open>j \<noteq> i\<close> m(1) show ?thesis by auto
    qed
    moreover have "map (\<lambda>s. s \<noteq> None) ((ur_pduBuffer ur)[i := None]) = (ur_received ur)[i := False]"
      using assms(1) by (simp add: slots_ok_def map_update)
    ultimately show ?thesis using assms(1) u(2) by (simp add: slots_ok_def same_window_def)
  qed
  moreover have "out_ok ps (Suc m) ?ur (ds @ d)"
    using assms(2) m(2) g(2,3) u(2,4) buf_ok_after[of ?ur ps m] by (auto simp: out_ok_def same_window_def dones_Suc intro: list_emb_append_mono)
  moreover have "out_exact ps m ur ds \<Longrightarrow> out_exact ps (Suc m) ?ur (ds @ d)"
    using g(4) u(4) by (simp add: out_exact_def dones_Suc del: carry_at.simps)
  ultimately show ?thesis using r es k unfolding mx by (intro exI[of _ ?ur] exI[of _ es]) auto
qed

section \<open>Several slots\<close>

definition resumed :: "um_pdu list \<Rightarrow> nat \<Rightarrow> nat \<Rightarrow> nat \<Rightarrow> um_rx \<Rightarrow> rlc_sdu list \<Rightarrow> um_rx \<Rightarrow> um_rx_effect list \<Rightarrow> bool" where
  "resumed ps h m m' ur ds ur' effs = (kept ur ur' \<and> slots_ok ps m' h ur' \<and> out_ok ps m' ur' (ds @ delivered effs))"

lemma ur_reassembleAll_at:
  assumes "slots_ok ps m h ur" "out_ok ps m ur ds" "a \<le> b" "b \<le> length (ur_pduBuffer ur)" "ur_first ur + a \<le> m"
    and "ur_first ur + b \<le> length ps"
  shows "\<exists>ur' effs. ur_reassembleAll [a ..< b] ur = Inr (ur', effs) \<and> resumed ps h m (max m (ur_first ur + b)) ur ds ur' effs
    \<and> ((\<forall>i. a \<le> i \<and> i < b \<and> m \<le> ur_first ur + i \<longrightarrow> ur_pduBuffer ur ! i \<noteq> None) \<longrightarrow> out_exact ps m ur ds \<longrightarrow>
        out_exact ps (max m (ur_first ur + b)) ur' (ds @ delivered effs))"
  using assms
proof (induction "b - a" arbitrary: a m ur ds)
  case 0
  then have "max m (ur_first ur + b) = m" "[a ..< b] = []" by auto
  then show ?case using 0 by (auto simp: resumed_def kept_refl)
next
  case (Suc n)
  let ?m = "max m (Suc (ur_first ur + a))"
  have ab: "a < b" using Suc.hyps(2) by simp
  obtain ur1 e1 where r1: "ur_reassemble a ur = Inr (ur1, e1)" "kept ur ur1" "ur_pduBuffer ur1 = (ur_pduBuffer ur)[a := None]"
    "slots_ok ps ?m h ur1" "out_ok ps ?m ur1 (ds @ delivered e1)"
    and x1: "ur_first ur + a < m \<or> ur_pduBuffer ur ! a \<noteq> None \<Longrightarrow> out_exact ps m ur ds \<Longrightarrow> out_exact ps ?m ur1 (ds @ delivered e1)"
    using ur_reassemble_at[OF Suc.prems(1,2), of a] Suc.prems(4-6) ab by fastforce
  have w: "ur_window ur1 = ur_window ur" using keptD(1)[OF r1(2)] .
  have mm: "max ?m (ur_first ur + b) = max m (ur_first ur + b)" using ab by (simp add: max_def)
  have "\<exists>ur' effs. ur_reassembleAll [Suc a ..< b] ur1 = Inr (ur', effs) \<and> resumed ps h ?m (max ?m (ur_first ur1 + b)) ur1 (ds @ delivered e1) ur' effs
    \<and> ((\<forall>i. Suc a \<le> i \<and> i < b \<and> ?m \<le> ur_first ur1 + i \<longrightarrow> ur_pduBuffer ur1 ! i \<noteq> None) \<longrightarrow> out_exact ps ?m ur1 (ds @ delivered e1) \<longrightarrow>
        out_exact ps (max ?m (ur_first ur1 + b)) ur' ((ds @ delivered e1) @ delivered effs))"
    by (rule Suc.hyps(1)[OF _ r1(4,5)]) (use Suc.hyps(2) Suc.prems(4,6) ab r1(3) w in auto)
  then obtain ur2 e2 where r2: "ur_reassembleAll [Suc a ..< b] ur1 = Inr (ur2, e2)"
    "resumed ps h ?m (max m (ur_first ur + b)) ur1 (ds @ delivered e1) ur2 e2"
    and x2: "(\<And>i. Suc a \<le> i \<Longrightarrow> i < b \<Longrightarrow> ?m \<le> ur_first ur + i \<Longrightarrow> ur_pduBuffer ur1 ! i \<noteq> None) \<Longrightarrow>
      out_exact ps ?m ur1 (ds @ delivered e1) \<Longrightarrow> out_exact ps (max m (ur_first ur + b)) ur2 ((ds @ delivered e1) @ delivered e2)"
    unfolding w mm by blast
  have "ur_reassembleAll [a ..< b] ur = Inr (ur2, e1 @ e2)" using ab r1(1) r2(1) by (simp add: upt_conv_Cons)
  moreover have "resumed ps h m (max m (ur_first ur + b)) ur ds ur2 (e1 @ e2)"
    using r2(2) kept_trans[OF r1(2)] by (simp add: resumed_def)
  moreover have "out_exact ps (max m (ur_first ur + b)) ur2 (ds @ delivered (e1 @ e2))"
    if f: "\<forall>i. a \<le> i \<and> i < b \<and> m \<le> ur_first ur + i \<longrightarrow> ur_pduBuffer ur ! i \<noteq> None" "out_exact ps m ur ds"
  proof -
    have "out_exact ps ?m ur1 (ds @ delivered e1)" by (rule x1[OF _ f(2)]) (use f(1) ab in \<open>metis le_refl leI\<close>)
    then show ?thesis using x2 f(1) r1(3) by simp
  qed
  ultimately show ?case by blast
qed

section \<open>Moving the window\<close>

text \<open>The slots after the turns of the loop below \<open>k\<close>.\<close>

definition moved :: "nat \<Rightarrow> nat \<Rightarrow> 'a option list \<Rightarrow> 'a option list" where
  "moved p k xs = map (\<lambda>j. if j < k - p then xs ! (j + p) else if j < k then None else xs ! j) [0 ..< length xs]"

lemma moved_nth: "j < length xs \<Longrightarrow> moved p k xs ! j = (if j < k - p then xs ! (j + p) else if j < k then None else xs ! j)"
  and moved_length [simp]: "length (moved p k xs) = length xs"
  by (simp_all add: moved_def)

lemma ur_moveSlot_moved:
  assumes "0 < p" "p \<le> k" "k < length xs"
  shows "ur_moveSlot p k (moved p k xs, map (\<lambda>s. s \<noteq> None) (moved p k xs))
    = Inr (moved p (Suc k) xs, map (\<lambda>s. s \<noteq> None) (moved p (Suc k) xs))"
proof -
  have at: "moved p k xs ! k = xs ! k" "moved p k xs ! (k - p) = None" "k - p \<noteq> k" "k - p < length xs"
    using assms by (auto simp: moved_nth)
  have step: "moved p (Suc k) xs = (moved p k xs)[k := None, k - p := xs ! k]"
  proof (rule nth_equalityI)
    fix j assume "j < length (moved p (Suc k) xs)"
    then show "moved p (Suc k) xs ! j = (moved p k xs)[k := None, k - p := xs ! k] ! j"
      using assms by (cases "j = k - p"; cases "j = k") (auto simp: moved_nth nth_list_update)
  qed simp
  have m: "map (\<lambda>s. s \<noteq> None) (moved p (Suc k) xs) = (map (\<lambda>s. s \<noteq> None) (moved p k xs))[k - p := xs ! k \<noteq> None, k := False]"
    unfolding step using at(3) by (simp add: map_update list_update_swap)
  show ?thesis
  proof (cases "xs ! k")
    case None
    have "(moved p k xs)[k := None, k - p := None] = moved p k xs"
      using at None by (metis list_update_id)
    then show ?thesis using assms at None unfolding m by (simp add: ur_moveSlot_def step nth_list_update)
  next
    case (Some q)
    then show ?thesis using assms at unfolding m by (simp add: ur_moveSlot_def step nth_list_update)
  qed
qed

lemma ur_moveSlots:
  assumes "0 < p" "p \<le> k" "k \<le> length xs" "\<forall>j < p. xs ! j = None"
  shows "cpp_fold (ur_moveSlot p) [p ..< k] (xs, map (\<lambda>s. s \<noteq> None) xs) = Inr (moved p k xs, map (\<lambda>s. s \<noteq> None) (moved p k xs))"
  using assms(2,3)
proof (induction k rule: dec_induct)
  case base
  have "moved p p xs = xs" by (rule nth_equalityI) (use assms(4) in \<open>auto simp: moved_nth\<close>)
  then show ?case by simp
next
  case (step k)
  then show ?case using ur_moveSlot_moved[OF assms(1), of k xs] by (simp add: cpp_fold_append)
qed

lemma sint_small: "unat (x :: 32 word) < 2 ^ 31 \<Longrightarrow> sint x = int (unat x)"
proof -
  assume "unat x < 2 ^ 31"
  then have "int (unat x) < int (2 ^ 31)" by (simp only: of_nat_less_iff)
  then have "uint x < 2 ^ 31" by simp
  moreover have "- (2 ^ 31) \<le> uint x" by (rule order_trans[OF _ uint_ge_0]) simp
  ultimately have "signed_take_bit 31 (uint x) = uint x" by (intro signed_take_bit_int_eq_self) auto
  then show ?thesis by (simp add: sint_uint)
qed


text \<open>The fields that moving the window does not touch.\<close>

definition same_fields :: "um_rx \<Rightarrow> um_rx \<Rightarrow> bool" where
  "same_fields ur ur' = (ur_init ur' = ur_init ur
     \<and> ur_resetFlag ur' = ur_resetFlag ur \<and> ur_reordering ur' = ur_reordering ur
     \<and> ur_timeout ur' = ur_timeout ur \<and> ur_direction ur' = ur_direction ur \<and> length (ur_pduBuffer ur') = length (ur_pduBuffer ur)
     \<and> rw_firstSnoForReordering (ur_window ur') = rw_firstSnoForReordering (ur_window ur)
     \<and> rw_highestReceivedSno (ur_window ur') = rw_highestReceivedSno (ur_window ur)
     \<and> rw_reorderingSno (ur_window ur') = rw_reorderingSno (ur_window ur)
     \<and> rw_windowSize (ur_window ur') = rw_windowSize (ur_window ur))"

definition same_reassembly :: "um_rx \<Rightarrow> um_rx \<Rightarrow> bool" where
  "same_reassembly ur ur' = (same_fields ur ur' \<and> ur_buffered ur' = ur_buffered ur)"

lemma same_fields_refl: "same_fields a a"
  and same_fields_trans: "same_fields a b \<Longrightarrow> same_fields b c \<Longrightarrow> same_fields a c"
  and kept_fields: "kept a b \<Longrightarrow> same_fields a b"
  and reassembly_fields: "same_reassembly a b \<Longrightarrow> same_fields a b"
  by (auto simp: same_fields_def kept_def same_reassembly_def)

lemma same_fieldsD: "same_fields ur ur' \<Longrightarrow> rw_windowSize (ur_window ur') = rw_windowSize (ur_window ur)"
  by (simp add: same_fields_def)

lemma out_same:
  assumes "same_reassembly ur ur'"
  shows "out_ok ps m ur' ds = out_ok ps m ur ds" "out_exact ps m ur' ds = out_exact ps m ur ds"
  using assms by (simp_all add: same_reassembly_def same_fields_def out_ok_def out_exact_def buf_ok_def)

lemma ur_moveRxWindow_at:
  assumes "slots_ok ps m h ur" "ur_first ur + unat p \<le> m" "unat p \<le> ur_wsize ur" "unat p < 2 ^ 31" "m < 2 ^ 31"
  shows "\<exists>ur'. ur_moveRxWindow p ur = Inr ur' \<and> slots_ok ps m h ur'
    \<and> ur_first ur' = ur_first ur + unat p \<and> same_reassembly ur ur'"
proof (cases "p = 0")
  case True
  then show ?thesis using assms(1) by (intro exI[of _ ur]) (simp add: ur_moveRxWindow_def same_reassembly_def same_fields_def)
next
  case False
  let ?xs = "ur_pduBuffer ur" and ?W = "ur_wsize ur"
  have pos: "0 < unat p" using False by (simp add: unat_gt_0)
  have n: "\<forall>j < unat p. ?xs ! j = None"
  proof (intro allI impI)
    fix j assume "j < unat p"
    then have "j < length ?xs" using assms(3) slots_wsize[OF assms(1)] by simp
    with slots_okD(2)[OF assms(1) this] assms(2) \<open>j < unat p\<close> show "?xs ! j = None" by (cases "?xs ! j") fastforce+
  qed
  let ?ur = "ur\<lparr>ur_pduBuffer := moved (unat p) ?W ?xs, ur_received := map (\<lambda>s. s \<noteq> None) (moved (unat p) ?W ?xs),
      ur_window := (ur_window ur)\<lparr>rw_firstSno := rw_firstSno (ur_window ur) + p\<rparr>\<rparr>"
  have f: "ur_first ?ur = ur_first ur + unat p" using assms(2,5) by (simp add: sn_add)
  have "ur_received ur = map (\<lambda>s. s \<noteq> None) ?xs" using assms(1) by (simp add: slots_ok_def)
  then have r: "ur_moveRxWindow p ur = Inr ?ur"
    using ur_moveSlots[OF pos assms(3) slots_wsize[OF assms(1)] n] pos sint_small[OF assms(4)] assms(3) False
    by (simp add: ur_moveRxWindow_def uint_0_iff word_less_nat_alt not_less)
  have "slots_ok ps m h ?ur"
  proof -
    have "j < ?W \<and> m \<le> ur_first ?ur + j \<and> ur_first ?ur + j < h \<and> ur_first ?ur + j < length ps \<and> q = ps ! (ur_first ?ur + j)"
      if "j < length ?xs" "moved (unat p) ?W ?xs ! j = Some q" for j q
    proof (cases "j < ?W - unat p")
      case True
      then have "?xs ! (j + unat p) = Some q" "j + unat p < length ?xs"
        using that slots_wsize[OF assms(1)] by (auto simp: moved_nth)
      from slots_okD[OF assms(1) this(2,1)] show ?thesis unfolding f by (auto simp: ac_simps)
    next
      case False
      then have "\<not> j < ?W" "?xs ! j = Some q" using that by (auto simp: moved_nth split: if_splits)
      with slots_okD(1)[OF assms(1) that(1)] show ?thesis by blast
    qed
    then show ?thesis using slots_wsize[OF assms(1)] by (simp add: slots_ok_def)
  qed
  then show ?thesis using r f by (intro exI[of _ ?ur]) (simp add: same_reassembly_def same_fields_def)
qed

section \<open>Advancing the window\<close>

lemma ur_shift_at:
  assumes "slots_ok ps m h ur" "out_ok ps m ur ds" "unat sh < k" "unat sh < 2 ^ 31" "unat tsn < length ps"
    and "ur_first ur \<le> unat tsn" "0 < ur_wsize ur" "ur_first ur \<le> m" "e = min (ur_first ur + unat sh) (unat tsn)"
  shows "\<exists>ur' effs. ur_shift k sh tsn ur = Inr (ur', effs) \<and> slots_ok ps (max m e) h ur' \<and> out_ok ps (max m e) ur' (ds @ delivered effs)
    \<and> ur_first ur' = e \<and> same_fields ur ur' \<and> (e \<le> m \<longrightarrow> out_exact ps m ur ds \<longrightarrow> out_exact ps m ur' (ds @ delivered effs))"
  using assms
proof (induction k arbitrary: sh m ur ds)
  case (Suc k)
  show ?case
  proof (cases "sh = 0")
    case True
    then have "e = ur_first ur" "max m e = m" using Suc.prems(6,8,9) by simp_all
    with True Suc.prems show ?thesis by (intro exI[of _ ur] exI[of _ "[]"]) (simp add: same_fields_refl)
  next
    case False
    let ?F = "ur_first ur" and ?W = "ur_wsize ur" and ?T = "unat tsn"
    let ?q = "if sh < rw_windowSize (ur_window ur) then sh else rw_windowSize (ur_window ur)"
    let ?p = "if rw_firstSno (ur_window ur) + ?q > tsn then tsn - rw_firstSno (ur_window ur) else ?q"
    have len: "length ps < 2 ^ 31" "m \<le> length ps" using Suc.prems(2) by (simp_all add: out_ok_def)
    have p0: "unat ?q = min (unat sh) ?W" by (simp add: word_less_nat_alt)
    have add: "unat (rw_firstSno (ur_window ur) + ?q) = ?F + unat ?q"
    proof (rule sn_add)
      have "unat ?q \<le> unat sh" using p0 by simp
      then have "?F + unat ?q < 2 ^ 31 + 2 ^ 31" using Suc.prems(4-6) len by linarith
      then show "?F + unat ?q < 2 ^ 32" by simp
    qed
    have sub: "unat (tsn - rw_firstSno (ur_window ur)) = ?T - ?F" by (rule sn_sub) (rule Suc.prems(6))
    have p: "unat ?p = min (min (unat sh) ?W) (?T - ?F)"
    proof (cases "rw_firstSno (ur_window ur) + ?q > tsn")
      case True
      then have "?T - ?F \<le> unat ?q" using add unfolding word_less_nat_alt by linarith
      then show ?thesis unfolding if_P[OF True] sub p0[symmetric] by (simp only: min.absorb2)
    next
      case False
      then have "unat ?q \<le> ?T - ?F" using add unfolding word_less_nat_alt by linarith
      then show ?thesis unfolding if_not_P[OF False] p0[symmetric] by (simp only: min.absorb1)
    qed
    have pW: "unat ?p \<le> ?W" "unat ?p < 2 ^ 31" "?F + unat ?p \<le> ?T" "?F + unat ?p \<le> e"
      using p Suc.prems(4,6,9) by auto
    have sp: "nat (sint ?p) = unat ?p" using sint_small[OF pW(2)] by (metis nat_int)
    have pos: "\<not> sint sh \<le> 0" using False sint_small[OF Suc.prems(4)] unat_gt_0[of sh] by linarith
    obtain ur1 e1 where r1: "ur_reassembleAll [0 ..< unat ?p] ur = Inr (ur1, e1)"
      "resumed ps h m (max m (?F + unat ?p)) ur ds ur1 e1"
      and x1: "(\<And>i. i < unat ?p \<Longrightarrow> m \<le> ?F + i \<Longrightarrow> ur_pduBuffer ur ! i \<noteq> None) \<Longrightarrow>
        out_exact ps m ur ds \<Longrightarrow> out_exact ps (max m (?F + unat ?p)) ur1 (ds @ delivered e1)"
      using ur_reassembleAll_at[OF Suc.prems(1,2), of 0 "unat ?p"] pW slots_wsize[OF Suc.prems(1)] Suc.prems(5,8) by fastforce
    let ?m = "max m (?F + unat ?p)"
    have k1: "kept ur ur1" "slots_ok ps ?m h ur1" "out_ok ps ?m ur1 (ds @ delivered e1)" using r1(2) by (simp_all add: resumed_def)
    have w1: "ur_window ur1 = ur_window ur" using keptD(1)[OF k1(1)] .
    obtain ur2 where r2: "ur_moveRxWindow ?p ur1 = Inr ur2" "slots_ok ps ?m h ur2" "ur_first ur2 = ?F + unat ?p" "same_reassembly ur1 ur2"
      using ur_moveRxWindow_at[OF k1(2), of ?p] pW len Suc.prems(5) unfolding w1 by fastforce
    note o2 = out_same[OF r2(4)]
    have "?q \<le> sh" using p0 by (simp add: word_le_nat_alt)
    then have sh: "unat (sh - ?q) = unat sh - min (unat sh) ?W" using p0 sn_sub[of ?q sh] by (simp add: word_le_nat_alt)
    have W2: "ur_wsize ur2 = ?W" using same_fieldsD[OF reassembly_fields[OF r2(4)]] w1 by simp
    have e: "e = min (ur_first ur2 + unat (sh - ?q)) ?T" unfolding r2(3) p sh Suc.prems(9) using Suc.prems(6) by linarith
    have "\<exists>ur' effs. ur_shift k (sh - ?q) tsn ur2 = Inr (ur', effs) \<and> slots_ok ps (max ?m e) h ur'
      \<and> out_ok ps (max ?m e) ur' ((ds @ delivered e1) @ delivered effs)
      \<and> ur_first ur' = e \<and> same_fields ur2 ur' \<and> (e \<le> ?m \<longrightarrow> out_exact ps ?m ur2 (ds @ delivered e1) \<longrightarrow>
          out_exact ps ?m ur' ((ds @ delivered e1) @ delivered effs))"
    proof (rule Suc.IH[OF r2(2) _ _ _ Suc.prems(5) _ _ _ e])
      show "out_ok ps ?m ur2 (ds @ delivered e1)" unfolding o2 by (rule k1(3))
      show "unat (sh - ?q) < k" "unat (sh - ?q) < 2 ^ 31"
        using sh Suc.prems(3,4,7) False unat_gt_0[of sh] by linarith+
      show "ur_first ur2 \<le> ?T" "0 < ur_wsize ur2" "ur_first ur2 \<le> ?m" using r2(3) pW(3) W2 Suc.prems(7) by simp_all
    qed
    then obtain ur3 e3 where r3: "ur_shift k (sh - ?q) tsn ur2 = Inr (ur3, e3)" "slots_ok ps (max ?m e) h ur3"
      "out_ok ps (max ?m e) ur3 ((ds @ delivered e1) @ delivered e3)" "ur_first ur3 = e" "same_fields ur2 ur3"
      "e \<le> ?m \<longrightarrow> out_exact ps ?m ur2 (ds @ delivered e1) \<longrightarrow> out_exact ps ?m ur3 ((ds @ delivered e1) @ delivered e3)" by blast
    have "ur_shift (Suc k) sh tsn ur = Inr (ur3, e1 @ e3)"
      using pos r1(1) r2(1) r3(1) by (simp add: Let_def sp del: upt_Suc)
    moreover have "max ?m e = max m e" using pW(4) by simp
    moreover have "same_fields ur ur3"
      using same_fields_trans[OF same_fields_trans[OF kept_fields[OF k1(1)] reassembly_fields[OF r2(4)]] r3(5)] .
    moreover have "out_exact ps m ur3 (ds @ delivered (e1 @ e3))" if "e \<le> m" "out_exact ps m ur ds"
    proof -
      have "?m = m" using that(1) pW(4) by simp
      moreover have "out_exact ps ?m ur1 (ds @ delivered e1)" by (rule x1[OF _ that(2)]) (use that(1) pW(4) in linarith)
      ultimately show ?thesis using r3(6) o2(2) that(1) by simp
    qed
    ultimately show ?thesis using r3(2-4) by (intro exI[of _ ur3] exI[of _ "e1 @ e3"]) simp
  qed
qed simp

end
