(* ===== verification/Rlc_Um_Receive.thy ===== *)
theory Rlc_Um_Receive
  imports Rlc_Um_Window
begin

text \<open>
  The operations of the receiving entity keep the invariant of its window, whatever PDUs of the
  sequence arrive, in whatever order, and whenever the timer goes off.
\<close>

section \<open>The next missing number\<close>

lemma ur_nextMissing_at:
  assumes "unat first \<le> unat f" "unat f < unat high" "unat high \<le> unat first + length rec"
  shows "\<exists>g. ur_nextMissing rec first high lmt f = Inr g \<and> unat f \<le> unat g \<and> unat g \<le> unat high
    \<and> (\<forall>n. unat f \<le> n \<and> n < unat g \<longrightarrow> rec ! (n - unat first) \<or> n < unat lmt)
    \<and> (rec ! (unat f - unat first) \<or> unat f < unat lmt \<longrightarrow> unat f < unat g)"
  using assms
proof (induction "unat high - unat f" arbitrary: f)
  case (Suc k)
  have d: "unat (f - first) = unat f - unat first" by (rule sn_sub) (rule Suc.prems(1))
  have at: "vec_at rec (unat f - unat first) = Inr (rec ! (unat f - unat first))" using Suc.prems by simp
  have "unat high < 2 ^ LENGTH(32)" by (rule unsigned_less)
  then have "unat high < 2 ^ 32" by (simp del: unsigned_less)
  then have lt: "unat f + 1 < 2 ^ 32" using Suc.prems(2) by linarith
  note sf = sn_Suc[OF lt]
  note step = ur_nextMissing.simps[of rec first high lmt f, unfolded d at]
  show ?case
  proof (cases "rec ! (unat f - unat first) \<or> f < lmt")
    case False
    then show ?thesis using step Suc.prems by (intro exI[of _ f]) (auto simp: word_less_nat_alt)
  next
    case True
    then have here: "rec ! (unat f - unat first) \<or> unat f < unat lmt" by (simp add: word_less_nat_alt)
    show ?thesis
    proof (cases "f + 1 = high")
      case e: True
      then have "unat high = unat f + 1" using sf by simp
      then have "n = unat f" if "unat f \<le> n" "n < unat high" for n using that by simp
      then show ?thesis using step True here e Suc.prems by (intro exI[of _ high]) auto
    next
      case False
      then have "unat (f + 1) \<noteq> unat high" using False by (simp only: word_unat_eq_iff not_False_eq_True)
      with sf Suc.prems have p: "unat first \<le> unat (f + 1)" "unat (f + 1) < unat high" "k = unat high - unat (f + 1)"
        using Suc.hyps(2) by simp_all
      from Suc.hyps(1)[OF p(3,1,2) Suc.prems(3)] obtain g where g: "ur_nextMissing rec first high lmt (f + 1) = Inr g"
        "unat f + 1 \<le> unat g" "unat g \<le> unat high"
        "\<forall>n. unat f + 1 \<le> n \<and> n < unat g \<longrightarrow> rec ! (n - unat first) \<or> n < unat lmt" unfolding sf by blast
      have "rec ! (n - unat first) \<or> n < unat lmt" if "unat f \<le> n" "n < unat g" for n
        using g(4) here that by (cases "n = unat f") auto
      then show ?thesis using step True False g by (intro exI[of _ g]) auto
    qed
  qed
qed simp

section \<open>Delivering\<close>

text \<open>The window without the timer.\<close>

definition window_ok :: "um_pdu list \<Rightarrow> um_rx \<Rightarrow> rlc_sdu list \<Rightarrow> bool" where
  "window_ok ps ur ds = (0 < ur_wsize ur \<and> ur_wsize ur < 2 ^ 31 \<and> ur_first ur \<le> ur_next ur \<and> ur_next ur \<le> ur_high ur \<and> ur_high ur \<le> ur_first ur + ur_wsize ur
     \<and> ur_high ur \<le> length ps \<and> slots_ok ps (ur_next ur) (ur_high ur) ur \<and> out_ok ps (ur_next ur) ur ds)"

text \<open>The fields that delivering does not touch.\<close>

definition same_control :: "um_rx \<Rightarrow> um_rx \<Rightarrow> bool" where
  "same_control ur ur' = (ur_init ur' = ur_init ur \<and> ur_reordering ur' = ur_reordering ur
     \<and> ur_timeout ur' = ur_timeout ur \<and> ur_direction ur' = ur_direction ur
     \<and> rw_highestReceivedSno (ur_window ur') = rw_highestReceivedSno (ur_window ur)
     \<and> rw_reorderingSno (ur_window ur') = rw_reorderingSno (ur_window ur)
     \<and> rw_windowSize (ur_window ur') = rw_windowSize (ur_window ur))"

lemma same_control_refl: "same_control a a"
  and same_control_trans: "same_control a b \<Longrightarrow> same_control b c \<Longrightarrow> same_control a c"
  by (auto simp: same_control_def)

lemma ur_setNext_ok:
  "slots_ok ps m h (ur_setWindow (\<lambda>w. w\<lparr>rw_firstSnoForReordering := g\<rparr>) ur) = slots_ok ps m h ur"
  "out_ok ps m (ur_setWindow (\<lambda>w. w\<lparr>rw_firstSnoForReordering := g\<rparr>) ur) ds = out_ok ps m ur ds"
  "out_exact ps m (ur_setWindow (\<lambda>w. w\<lparr>rw_firstSnoForReordering := g\<rparr>) ur) ds = out_exact ps m ur ds"
  by (simp_all add: ur_setWindow_def slots_ok_def out_ok_def out_exact_def buf_ok_def)

lemma ur_deliverUpTo_at:
  assumes "window_ok ps ur ds" "ur_next ur < ur_high ur"
  shows "\<exists>ur' effs. ur_deliverUpTo lmt ur = Inr (ur', effs) \<and> window_ok ps ur' (ds @ delivered effs) \<and> same_control ur ur'
    \<and> (ur_pduBuffer ur ! (ur_next ur - ur_first ur) \<noteq> None \<or> ur_next ur < unat lmt \<longrightarrow> ur_next ur < ur_next ur')
    \<and> (lmt = 0 \<longrightarrow> out_exact ps (ur_next ur) ur ds \<longrightarrow> out_exact ps (ur_next ur') ur' (ds @ delivered effs))"
proof -
  have w: "0 < ur_wsize ur" "ur_wsize ur < 2 ^ 31" "ur_first ur \<le> ur_next ur" "ur_high ur \<le> ur_first ur + ur_wsize ur" "ur_high ur \<le> length ps"
    "slots_ok ps (ur_next ur) (ur_high ur) ur" "out_ok ps (ur_next ur) ur ds" using assms(1) by (simp_all add: window_ok_def)
  have rec: "ur_received ur = map (\<lambda>s. s \<noteq> None) (ur_pduBuffer ur)" using w(6) by (simp add: slots_ok_def)
  have len: "ur_high ur \<le> ur_first ur + length (ur_received ur)" using w(4) slots_wsize[OF w(6)] rec by simp
  from ur_nextMissing_at[OF w(3) assms(2) len, of lmt] obtain g where g:
    "ur_nextMissing (ur_received ur) (rw_firstSno (ur_window ur)) (rw_highestReceivedSno (ur_window ur)) lmt
       (rw_firstSnoForReordering (ur_window ur)) = Inr g" "ur_next ur \<le> unat g" "unat g \<le> ur_high ur"
    "\<And>n. ur_next ur \<le> n \<Longrightarrow> n < unat g \<Longrightarrow> ur_received ur ! (n - ur_first ur) \<or> n < unat lmt"
    "ur_received ur ! (ur_next ur - ur_first ur) \<or> ur_next ur < unat lmt \<Longrightarrow> ur_next ur < unat g" by blast
  let ?ur = "ur_setWindow (\<lambda>w. w\<lparr>rw_firstSnoForReordering := g\<rparr>) ur"
  let ?a = "ur_next ur - ur_first ur" and ?b = "unat g - ur_first ur"
  have u: "ur_window ?ur = (ur_window ur)\<lparr>rw_firstSnoForReordering := g\<rparr>" "ur_pduBuffer ?ur = ur_pduBuffer ur"
    by (simp_all add: ur_setWindow_def)
  have ab: "?a \<le> ?b" "?b \<le> length (ur_pduBuffer ?ur)" "ur_first ?ur + ?a = ur_next ur" "ur_first ?ur + ?b = unat g"
    using g(2,3) w(3) len rec u by simp_all
  have "slots_ok ps (ur_next ur) (ur_high ur) ?ur" "out_ok ps (ur_next ur) ?ur ds" using w(6,7) by (simp_all add: ur_setNext_ok)
  from ur_reassembleAll_at[OF this ab(1,2)] g(2,3) w(5) obtain ur' effs where
    r: "ur_reassembleAll [?a ..< ?b] ?ur = Inr (ur', effs)" "resumed ps (ur_high ur) (ur_next ur) (unat g) ?ur ds ur' effs"
    and x: "(\<And>i. ?a \<le> i \<Longrightarrow> i < ?b \<Longrightarrow> ur_next ur \<le> ur_first ?ur + i \<Longrightarrow> ur_pduBuffer ?ur ! i \<noteq> None) \<Longrightarrow>
      out_exact ps (ur_next ur) ?ur ds \<Longrightarrow> out_exact ps (unat g) ur' (ds @ delivered effs)"
    unfolding ab(3,4) by (auto simp: max_def split: if_splits)
  have "unat (rw_firstSnoForReordering (ur_window ur) - rw_firstSno (ur_window ur)) = ?a" by (rule sn_sub) (rule w(3))
  moreover have "unat (g - rw_firstSno (ur_window ur)) = ?b" by (rule sn_sub) (use g(2) w(3) in simp)
  ultimately have "ur_deliverUpTo lmt ur = Inr (ur', effs)" using g(1) r(1) by (simp add: ur_deliverUpTo_def Let_def)
  moreover have k: "kept ?ur ur'" "slots_ok ps (unat g) (ur_high ur) ur'" "out_ok ps (unat g) ur' (ds @ delivered effs)"
    using r(2) by (simp_all add: resumed_def)
  have w': "ur_window ur' = (ur_window ur)\<lparr>rw_firstSnoForReordering := g\<rparr>" using keptD(1)[OF k(1)] u(1) by simp
  then have "window_ok ps ur' (ds @ delivered effs)" using k(2,3) w g(2,3) by (simp add: window_ok_def)
  moreover have "same_control ur ur'" using k(1) w' by (simp add: same_control_def kept_def ur_setWindow_def)
  moreover have "ur_next ur < ur_next ur'" if "ur_pduBuffer ur ! ?a \<noteq> None \<or> ur_next ur < unat lmt"
    using g(5) that rec w(3) assms(2) len w' by simp
  moreover have "out_exact ps (ur_next ur') ur' (ds @ delivered effs)" if z: "lmt = 0" "out_exact ps (ur_next ur) ur ds"
  proof -
    have "ur_pduBuffer ?ur ! i \<noteq> None" if "?a \<le> i" "i < ?b" for i
      using g(4)[of "ur_first ur + i"] that w(3) z(1) rec len g(3) u(2) by simp
    with x z(2) w' show ?thesis by (simp add: ur_setNext_ok)
  qed
  ultimately show ?thesis by blast
qed

section \<open>A PDU beyond the window\<close>

lemma slots_ok_weaken: "slots_ok ps m h ur \<Longrightarrow> h \<le> h' \<Longrightarrow> slots_ok ps m h' ur"
  unfolding slots_ok_def by fastforce

text \<open>The window is ready for the PDU \<open>t\<close>: it is in the window and its slot is free.\<close>

definition ready_for :: "um_pdu list \<Rightarrow> nat \<Rightarrow> um_rx \<Rightarrow> rlc_sdu list \<Rightarrow> bool" where
  "ready_for ps t ur ds = (window_ok ps ur ds \<and> ur_next ur \<le> t \<and> t < ur_high ur \<and> ur_pduBuffer ur ! (t - ur_first ur) = None)"

lemma ur_advanceWindow_at:
  assumes "window_ok ps ur ds" "ur_high ur \<le> unat tsn" "unat tsn < length ps"
  shows "\<exists>ur' effs. ur_advanceWindow tsn ur = Inr (ur', effs) \<and> ready_for ps (unat tsn) ur' (ds @ delivered effs)
    \<and> ur_init ur' = ur_init ur \<and> ur_direction ur' = ur_direction ur
    \<and> ur_high ur' = unat tsn + 1 \<and> (ur_next ur = unat tsn \<longrightarrow> ur_next ur' = unat tsn \<and>
        (out_exact ps (unat tsn) ur ds \<longrightarrow> out_exact ps (unat tsn) ur' (ds @ delivered effs)))"
proof -
  let ?T = "unat tsn"
  have w: "0 < ur_wsize ur" "ur_wsize ur < 2 ^ 31" "ur_first ur \<le> ur_next ur" "ur_next ur \<le> ur_high ur"
    "ur_high ur \<le> ur_first ur + ur_wsize ur" "ur_high ur \<le> length ps"
    "slots_ok ps (ur_next ur) (ur_high ur) ur" "out_ok ps (ur_next ur) ur ds" using assms(1) by (simp_all add: window_ok_def)
  have len: "length ps < 2 ^ 31" using w(8) by (simp add: out_ok_def)
  let ?ur = "ur_setWindow (\<lambda>w. w\<lparr>rw_highestReceivedSno := tsn + 1\<rparr>) ur"
  have t1: "unat (tsn + 1) = ?T + 1" by (rule sn_Suc) (use assms(3) len in simp)
  have u: "ur_window ?ur = (ur_window ur)\<lparr>rw_highestReceivedSno := tsn + 1\<rparr>" by (simp add: ur_setWindow_def)
  have s0: "slots_ok ps m h ?ur = slots_ok ps m h ur" "out_ok ps m ?ur ds' = out_ok ps m ur ds'"
    "out_exact ps m ?ur ds' = out_exact ps m ur ds'" for m h ds'
    by (simp_all add: ur_setWindow_def slots_ok_def out_ok_def out_exact_def buf_ok_def)
  have free: "ready_for ps ?T ur' ds'"
    if "slots_ok ps (ur_next ur') (ur_high ur) ur'" "out_ok ps (ur_next ur') ur' ds'" "ur_wsize ur' = ur_wsize ur"
      "ur_first ur' \<le> ur_next ur'" "ur_next ur' \<le> ?T" "ur_high ur' = ?T + 1" "?T < ur_first ur' + ur_wsize ur'" for ur' ds'
  proof -
    have "ur_pduBuffer ur' ! (?T - ur_first ur') = None"
    proof (cases "ur_pduBuffer ur' ! (?T - ur_first ur')")
      case (Some p)
      have "?T - ur_first ur' < length (ur_pduBuffer ur')" using that(4,5,7) slots_wsize[OF that(1)] by linarith
      from slots_okD(3)[OF that(1) this Some] that(4,5) assms(2) show ?thesis by linarith
    qed
    moreover have "slots_ok ps (ur_next ur') (ur_high ur') ur'" by (rule slots_ok_weaken[OF that(1)]) (use that(6) assms(2) in simp)
    ultimately show ?thesis using that w(1,2) assms(3) by (simp add: ready_for_def window_ok_def)
  qed
  have add: "unat (rw_firstSno (ur_window ur) + rw_windowSize (ur_window ur)) = ur_first ur + ur_wsize ur"
  proof (rule sn_add)
    have "ur_first ur + ur_wsize ur < 2 ^ 31 + 2 ^ 31" using w(2,3,4,6) len by linarith
    then show "ur_first ur + ur_wsize ur < 2 ^ 32" by simp
  qed
  show ?thesis
  proof (cases "ur_first ur + ur_wsize ur < ?T + 1")
    case False
    then have "ur_advanceWindow tsn ur = Inr (?ur, [])"
      using add t1 by (simp add: ur_advanceWindow_def Let_def u word_less_nat_alt)
    moreover have "ready_for ps ?T ?ur ds"
      by (rule free) (use False w assms(2) t1 u s0 in simp_all)
    ultimately show ?thesis using t1 u s0 by (intro exI[of _ ?ur] exI[of _ "[]"]) (simp add: ur_setWindow_def out_exact_def)
  next
    case True
    let ?sh = "tsn + 1 - rw_highestReceivedSno (ur_window ur)"
    let ?e = "min (ur_first ur + unat ?sh) ?T"
    have sh: "unat ?sh = ?T + 1 - ur_high ur" using sn_sub[of "rw_highestReceivedSno (ur_window ur)" "tsn + 1"] t1 assms(2) by simp
    have "\<exists>ur' effs. ur_shift (Suc (unat ?sh)) ?sh tsn ?ur = Inr (ur', effs) \<and> slots_ok ps (max (ur_next ur) ?e) (ur_high ur) ur'
      \<and> out_ok ps (max (ur_next ur) ?e) ur' (ds @ delivered effs) \<and> ur_first ur' = ?e \<and> same_fields ?ur ur'
      \<and> (?e \<le> ur_next ur \<longrightarrow> out_exact ps (ur_next ur) ?ur ds \<longrightarrow> out_exact ps (ur_next ur) ur' (ds @ delivered effs))"
      by (rule ur_shift_at) (use w assms sh len u s0 in simp_all)
    then obtain ur' effs where r: "ur_shift (Suc (unat ?sh)) ?sh tsn ?ur = Inr (ur', effs)"
      "slots_ok ps (max (ur_next ur) ?e) (ur_high ur) ur'" "out_ok ps (max (ur_next ur) ?e) ur' (ds @ delivered effs)"
      "ur_first ur' = ?e" "same_fields ?ur ur'"
      "?e \<le> ur_next ur \<longrightarrow> out_exact ps (ur_next ur) ?ur ds \<longrightarrow> out_exact ps (ur_next ur) ur' (ds @ delivered effs)" by blast
    let ?ur2 = "if rw_firstSnoForReordering (ur_window ur') < rw_firstSno (ur_window ur')
                then ur_setWindow (\<lambda>w. w\<lparr>rw_firstSnoForReordering := rw_firstSno w\<rparr>) ur' else ur'"
    have f: "ur_next ur' = ur_next ur" "ur_high ur' = ?T + 1" "ur_wsize ur' = ur_wsize ur" "ur_init ur' = ur_init ur"
      "ur_direction ur' = ur_direction ur" using r(5) t1 u by (simp_all add: same_fields_def ur_setWindow_def)
    have n2: "ur_next ?ur2 = max (ur_next ur) ?e" "ur_first ?ur2 = ?e" "ur_high ?ur2 = ?T + 1" "ur_wsize ?ur2 = ur_wsize ur"
      "ur_init ?ur2 = ur_init ur" "ur_direction ?ur2 = ur_direction ur"
      using r(4) f by (auto simp: ur_setWindow_def word_less_nat_alt)
    have s2: "slots_ok ps m h ?ur2 = slots_ok ps m h ur'" "out_ok ps m ?ur2 ds' = out_ok ps m ur' ds'"
      "out_exact ps m ?ur2 ds' = out_exact ps m ur' ds'" for m h ds'
      by (simp_all add: ur_setWindow_def slots_ok_def out_ok_def out_exact_def buf_ok_def)
    have "ur_advanceWindow tsn ur = Inr (?ur2, effs)"
      using add t1 True r(1) by (simp add: ur_advanceWindow_def Let_def u word_less_nat_alt)
    moreover have "ready_for ps ?T ?ur2 (ds @ delivered effs)"
    proof (rule free)
      show "slots_ok ps (ur_next ?ur2) (ur_high ur) ?ur2" "out_ok ps (ur_next ?ur2) ?ur2 (ds @ delivered effs)"
        unfolding n2(1) s2 by (rule r(2), rule r(3))
      show "ur_wsize ?ur2 = ur_wsize ur" "ur_high ?ur2 = ?T + 1" by (rule n2(4), rule n2(3))
      show "ur_first ?ur2 \<le> ur_next ?ur2" "ur_next ?ur2 \<le> ?T" unfolding n2(1,2) using w(4) assms(2) by simp_all
      show "?T < ur_first ?ur2 + ur_wsize ?ur2" unfolding n2(2,4) sh using w(1,5) assms(2) by linarith
    qed
    moreover have "ur_next ?ur2 = ?T \<and> (out_exact ps ?T ur ds \<longrightarrow> out_exact ps ?T ?ur2 (ds @ delivered effs))" if "ur_next ur = ?T"
      unfolding n2(1) s2 using that r(6) s0(3) by simp
    ultimately show ?thesis using n2 by (intro exI[of _ ?ur2] exI[of _ effs]) blast
  qed
qed

section \<open>The timer\<close>

definition timer_ok :: "um_rx \<Rightarrow> bool" where
  "timer_ok ur = ((ur_reordering ur \<noteq> None) = (ur_next ur < ur_high ur) \<and>
     (ur_reordering ur \<noteq> None \<longrightarrow> ur_next ur < unat (rw_reorderingSno (ur_window ur)) \<and> unat (rw_reorderingSno (ur_window ur)) \<le> ur_high ur))"

text \<open>The fields that the timer and the bursts do not touch.\<close>

definition same_data :: "um_rx \<Rightarrow> um_rx \<Rightarrow> bool" where
  "same_data ur ur' = (ur_received ur' = ur_received ur \<and> ur_pduBuffer ur' = ur_pduBuffer ur \<and> ur_buffered ur' = ur_buffered ur
     \<and> ur_init ur' = ur_init ur \<and> ur_resetFlag ur' = ur_resetFlag ur \<and> ur_direction ur' = ur_direction ur
     \<and> rw_firstSno (ur_window ur') = rw_firstSno (ur_window ur)
     \<and> rw_firstSnoForReordering (ur_window ur') = rw_firstSnoForReordering (ur_window ur)
     \<and> rw_highestReceivedSno (ur_window ur') = rw_highestReceivedSno (ur_window ur)
     \<and> rw_windowSize (ur_window ur') = rw_windowSize (ur_window ur))"

lemma same_data_trans: "same_data a b \<Longrightarrow> same_data b c \<Longrightarrow> same_data a c"
  by (simp add: same_data_def)

lemma same_dataD:
  assumes "same_data ur ur'"
  shows "slots_ok ps m h ur' = slots_ok ps m h ur" "out_ok ps m ur' ds = out_ok ps m ur ds"
    "out_exact ps m ur' ds = out_exact ps m ur ds" "window_ok ps ur' ds = window_ok ps ur ds"
    "ur_first ur' = ur_first ur" "ur_next ur' = ur_next ur" "ur_high ur' = ur_high ur"
    "ur_init ur' = ur_init ur" "ur_direction ur' = ur_direction ur"
  using assms by (simp_all add: same_data_def slots_ok_def out_ok_def out_exact_def buf_ok_def window_ok_def)

lemma ur_checkTimer_at: "ur_next ur \<le> ur_high ur \<Longrightarrow> same_data ur (ur_checkTimer now ur) \<and> timer_ok (ur_checkTimer now ur)"
  by (auto simp: ur_checkTimer_def ur_startReordering_def ur_stopReordering_def ur_setWindow_def timer_ok_def same_data_def
      Let_def word_less_nat_alt word_le_nat_alt not_less not_le)

lemma ur_handleBurst_at:
  assumes "ur_handleBurst now e ur = (ur', effs)"
  shows "same_data ur ur'" "timer_ok ur' = timer_ok ur" "delivered effs = []"
  using assms by (auto simp: ur_handleBurst_def Let_def same_data_def timer_ok_def split: if_splits)

section \<open>The invariant\<close>

definition rx_ok :: "um_pdu list \<Rightarrow> um_rx \<Rightarrow> rlc_sdu list \<Rightarrow> bool" where
  "rx_ok ps ur ds = (window_ok ps ur ds \<and> timer_ok ur \<and> (ur_init ur \<or> ur_direction ur \<noteq> D2D_MULTI \<or> ur_high ur = 0))"

lemma ur_store_at:
  assumes "window_ok ps ur ds" "up_sno pdu = of_nat t" "t < length ps" "pdu = ps ! t" "ur_next ur \<le> t"
    and "t < ur_high ur \<Longrightarrow> ur_pduBuffer ur ! (t - ur_first ur) = None" "ur_init ur \<or> ur_direction ur \<noteq> D2D_MULTI"
  shows "\<exists>ur' effs. ur_store now pdu ur = Inr (ur', effs) \<and> rx_ok ps ur' (ds @ delivered effs)
    \<and> (ur_next ur = t \<and> ur_high ur = t \<and> out_exact ps t ur ds \<longrightarrow>
        ur_next ur' = Suc t \<and> ur_high ur' = Suc t \<and> out_exact ps (Suc t) ur' (ds @ delivered effs))"
proof -
  have "length ps < 2 ^ 31" using assms(1) by (simp add: window_ok_def out_ok_def)
  then have T: "unat (up_sno pdu) = t" unfolding assms(2) by (intro sn_of_nat) (use assms(3) in simp)
  obtain ur1 e1 where a: "(if rw_highestReceivedSno (ur_window ur) \<le> up_sno pdu then ur_advanceWindow (up_sno pdu) ur else Inr (ur, [])) = Inr (ur1, e1)"
    and r1: "ready_for ps t ur1 (ds @ delivered e1)" "ur_init ur1 = ur_init ur" "ur_direction ur1 = ur_direction ur"
    and x1: "ur_next ur = t \<Longrightarrow> ur_high ur = t \<Longrightarrow> ur_high ur1 = Suc t \<and> ur_next ur1 = t \<and> (out_exact ps t ur ds \<longrightarrow> out_exact ps t ur1 (ds @ delivered e1))"
  proof (cases "ur_high ur \<le> t")
    case True
    then have "rw_highestReceivedSno (ur_window ur) \<le> up_sno pdu" using T by (simp add: word_le_nat_alt)
    with ur_advanceWindow_at[OF assms(1), of "up_sno pdu"] True assms(3) T show thesis by (auto intro: that)
  next
    case False
    then have "\<not> rw_highestReceivedSno (ur_window ur) \<le> up_sno pdu" using T by (simp add: word_le_nat_alt)
    with False assms show thesis by (intro that[of ur "[]"]) (auto simp: ready_for_def)
  qed
  have w: "window_ok ps ur1 (ds @ delivered e1)" "ur_next ur1 \<le> t" "t < ur_high ur1" "ur_pduBuffer ur1 ! (t - ur_first ur1) = None"
    using r1(1) by (simp_all add: ready_for_def)
  have v: "ur_first ur1 \<le> ur_next ur1" "ur_high ur1 \<le> ur_first ur1 + ur_wsize ur1" "ur_high ur1 \<le> length ps"
    "slots_ok ps (ur_next ur1) (ur_high ur1) ur1" "out_ok ps (ur_next ur1) ur1 (ds @ delivered e1)"
    using w(1) by (simp_all add: window_ok_def)
  let ?i = "t - ur_first ur1"
  have i: "unat (up_sno pdu - rw_firstSno (ur_window ur1)) = ?i" using sn_sub[of "rw_firstSno (ur_window ur1)" "up_sno pdu"] T v(1) w(2) by simp
  have iW: "?i < ur_wsize ur1" "?i < length (ur_pduBuffer ur1)" "?i < length (ur_received ur1)"
    using v(1,2) w(2,3) slots_wsize[OF v(4)] slots_length[OF v(4)] by linarith+
  let ?rec = "(ur_received ur1)[?i := True]"
  let ?ur2 = "ur1\<lparr>ur_pduBuffer := (ur_pduBuffer ur1)[?i := Some pdu], ur_received := ?rec\<rparr>"
  have s2: "slots_ok ps (ur_next ur1) (ur_high ur1) ?ur2"
  proof -
    have "j < ur_wsize ur1 \<and> ur_next ur1 \<le> ur_first ur1 + j \<and> ur_first ur1 + j < ur_high ur1 \<and> ur_first ur1 + j < length ps
      \<and> q = ps ! (ur_first ur1 + j)" if "j < length (ur_pduBuffer ur1)" "(ur_pduBuffer ur1)[?i := Some pdu] ! j = Some q" for j q
    proof (cases "j = ?i")
      case True
      with that iW w v(1) assms(3,4) show ?thesis by auto
    next
      case False
      with that have "ur_pduBuffer ur1 ! j = Some q" by simp
      from slots_okD[OF v(4) that(1) this] show ?thesis by blast
    qed
    then show ?thesis using v(4) by (simp add: slots_ok_def map_update)
  qed
  have o2: "out_ok ps m ?ur2 ds' = out_ok ps m ur1 ds'" "out_exact ps m ?ur2 ds' = out_exact ps m ur1 ds'" for m ds'
    by (simp_all add: out_ok_def out_exact_def buf_ok_def)
  have w2: "window_ok ps ?ur2 (ds @ delivered e1)" using w(1) s2 by (simp add: window_ok_def o2)
  let ?n = "ur_next ur1 - ur_first ur1"
  have n: "unat (rw_firstSnoForReordering (ur_window ur1) - rw_firstSno (ur_window ur1)) = ?n" by (rule sn_sub) (rule v(1))
  have nl: "?n < length ?rec" using w(2) iW(3) by simp
  have "?rec ! ?n = (ur_pduBuffer ?ur2 ! ?n \<noteq> None)" using slots_received[OF s2, of ?n] nl slots_length[OF v(4)] by simp
  note nx = this
  obtain ur3 e3 where d: "(if ?rec ! ?n then ur_deliverUpTo 0 ?ur2 else Inr (?ur2, [])) = Inr (ur3, e3)"
    and w3: "window_ok ps ur3 ((ds @ delivered e1) @ delivered e3)" "ur_init ur3 = ur_init ur" "ur_direction ur3 = ur_direction ur"
    "ur_high ur3 = ur_high ur1"
    and x3: "?rec ! ?n \<Longrightarrow> ur_next ur1 < ur_next ur3 \<and> (out_exact ps (ur_next ur1) ur1 (ds @ delivered e1) \<longrightarrow>
        out_exact ps (ur_next ur3) ur3 ((ds @ delivered e1) @ delivered e3))"
  proof (cases "?rec ! ?n")
    case True
    from ur_deliverUpTo_at[OF w2, of 0] w(2,3) obtain ur3 e3 where "ur_deliverUpTo 0 ?ur2 = Inr (ur3, e3)"
      "window_ok ps ur3 ((ds @ delivered e1) @ delivered e3)" "same_control ?ur2 ur3"
      "ur_pduBuffer ?ur2 ! ?n \<noteq> None \<longrightarrow> ur_next ur1 < ur_next ur3"
      "out_exact ps (ur_next ur1) ?ur2 (ds @ delivered e1) \<longrightarrow> out_exact ps (ur_next ur3) ur3 ((ds @ delivered e1) @ delivered e3)" by auto
    with True nx r1(2,3) show thesis by (intro that[of ur3 e3]) (simp_all add: same_control_def o2)
  next
    case False
    with w2 r1(2,3) show thesis by (intro that[of ?ur2 "[]"]) simp_all
  qed
  let ?ur4 = "ur_checkTimer now ur3"
  obtain ur5 e5 where b: "(if ur_direction ur = UL then ur_handleBurst now True ?ur4 else (?ur4, [])) = (ur5, e5)" by fastforce
  have "ur_next ur3 \<le> ur_high ur3" using w3(1) by (simp add: window_ok_def)
  note c = ur_checkTimer_at[OF this, of now]
  have s5: "same_data ur3 ur5" "timer_ok ur5" "delivered e5 = []"
    using b c ur_handleBurst_at[of now True ?ur4 ur5 e5] same_data_trans by (auto split: if_splits)
  note D = same_dataD[OF s5(1)]
  have st: "ur_store now pdu ur = Inr (ur5, e1 @ e3 @ e5)"
    using a i iW w(4) n nl d b by (simp add: ur_store_def Let_def)
  have "rx_ok ps ur5 (ds @ delivered (e1 @ e3 @ e5))" using w3 s5 D assms(7) by (auto simp: rx_ok_def)
  moreover have "ur_next ur5 = Suc t \<and> ur_high ur5 = Suc t \<and> out_exact ps (Suc t) ur5 (ds @ delivered (e1 @ e3 @ e5))"
    if e: "ur_next ur = t" "ur_high ur = t" "out_exact ps t ur ds"
  proof -
    have n1: "ur_high ur1 = Suc t" "ur_next ur1 = t" "out_exact ps t ur1 (ds @ delivered e1)" using x1[OF e(1,2)] e(3) by simp_all
    have "?rec ! ?n" using n1(2) iW(3) by simp
    with x3 n1 w3 have "t < ur_next ur3" "ur_next ur3 \<le> Suc t" "out_exact ps (ur_next ur3) ur3 ((ds @ delivered e1) @ delivered e3)"
      by (auto simp: window_ok_def)
    moreover from this(1,2) have "ur_next ur3 = Suc t" by simp
    ultimately show ?thesis using D s5(3) w3(4) n1(1) by simp
  qed
  ultimately show ?thesis using st by blast
qed

section \<open>Arrivals and timer events\<close>

text \<open>The first PDU of a multicast connection sets the window.\<close>

lemma rx_ok_init:
  assumes "rx_ok ps ur ds" "t < length ps" "\<not> ur_init ur" "ur_direction ur = D2D_MULTI"
    and "ur' = (ur_setWindow (\<lambda>w. (rw_clear (of_nat t) w)\<lparr>rw_windowSize := 1\<rparr>) ur)\<lparr>ur_init := True\<rparr>"
  shows "window_ok ps ur' ds" "ur_next ur' = t" "ur_high ur' = t" "t = 0 \<Longrightarrow> out_exact ps 0 ur ds \<Longrightarrow> out_exact ps 0 ur' ds"
proof -
  have w: "window_ok ps ur ds" "ur_high ur = 0" using assms(1,3,4) by (simp_all add: rx_ok_def)
  then have s: "slots_ok ps 0 0 ur" "out_ok ps 0 ur ds" "0 < ur_wsize ur" and len: "length ps < 2 ^ 31"
    by (auto simp: window_ok_def out_ok_def)
  have t: "unat (of_nat t :: 32 word) = t" by (rule sn_of_nat) (use assms(2) len in simp)
  have f: "ur_first ur' = t" "ur_next ur' = t" "ur_high ur' = t" "ur_wsize ur' = 1" "ur_pduBuffer ur' = ur_pduBuffer ur"
    "ur_received ur' = ur_received ur" by (simp_all add: assms(5) ur_setWindow_def rw_clear_def t)
  have no: "ur_pduBuffer ur ! i = None" if "i < length (ur_pduBuffer ur)" for i
    using slots_okD(3)[OF s(1) that] by (cases "ur_pduBuffer ur ! i") auto
  have "slots_ok ps t t ur'" using s(1,3) no slots_wsize[OF s(1)] by (simp add: slots_ok_def f)
  moreover have "out_ok ps t ur ds" by (rule out_skip[OF s(2)]) (use assms(2) in simp_all)
  then have "out_ok ps t ur' ds" by (simp add: out_ok_def buf_ok_def assms(5) ur_setWindow_def)
  ultimately show "window_ok ps ur' ds" using assms(2) by (simp add: window_ok_def f)
  show "ur_next ur' = t" "ur_high ur' = t" by (rule f(2), rule f(3))
  show "t = 0 \<Longrightarrow> out_exact ps 0 ur ds \<Longrightarrow> out_exact ps 0 ur' ds" by (simp add: out_exact_def assms(5) ur_setWindow_def)
qed

lemma ur_enque_at:
  assumes "rx_ok ps ur ds" "t < length ps" "pdu = ps ! t"
  shows "\<exists>ur' effs. ur_enque now pdu ur = Inr (ur', effs) \<and> rx_ok ps ur' (ds @ delivered effs)
    \<and> (ur_next ur = t \<and> ur_high ur = t \<and> out_exact ps t ur ds \<longrightarrow>
        ur_next ur' = Suc t \<and> ur_high ur' = Suc t \<and> out_exact ps (Suc t) ur' (ds @ delivered effs))"
proof -
  have len: "length ps < 2 ^ 31" "stream_ok ps" using assms(1) by (simp_all add: rx_ok_def window_ok_def out_ok_def)
  have sno: "up_sno pdu = of_nat t" using stream_ok_nth[OF len(2) assms(2)] assms(3) by (simp add: pdu_ok_def)
  have T: "unat (up_sno pdu) = t" unfolding sno by (rule sn_of_nat) (use assms(2) len in simp)
  let ?ur = "if \<not> ur_init ur \<and> ur_direction ur = D2D_MULTI
                 then (ur_setWindow (\<lambda>w. (rw_clear (up_sno pdu) w)\<lparr>rw_windowSize := 1\<rparr>) ur)\<lparr>ur_init := True\<rparr> else ur"
  have i: "window_ok ps ?ur ds" "ur_init ?ur \<or> ur_direction ?ur \<noteq> D2D_MULTI"
    "ur_next ur = t \<Longrightarrow> ur_high ur = t \<Longrightarrow> out_exact ps t ur ds \<Longrightarrow> ur_next ?ur = t \<and> ur_high ?ur = t \<and> out_exact ps t ?ur ds"
  proof (goal_cases)
    case 1
    then show ?case using rx_ok_init(1)[OF assms(1,2)] assms(1) by (auto simp: sno rx_ok_def)
  next
    case 2
    then show ?case by auto
  next
    case 3
    show ?case
    proof (cases "\<not> ur_init ur \<and> ur_direction ur = D2D_MULTI")
      case True
      then have "t = 0" using assms(1) 3 by (simp add: rx_ok_def)
      with True 3 rx_ok_init(2,3,4)[OF assms(1,2) _ _ refl] show ?thesis by (simp add: sno)
    qed (use 3 in auto)
  qed
  have v: "ur_first ?ur \<le> ur_next ?ur" "ur_high ?ur \<le> ur_first ?ur + ur_wsize ?ur" "slots_ok ps (ur_next ?ur) (ur_high ?ur) ?ur"
    "timer_ok ur" using i(1) assms(1) unfolding window_ok_def rx_ok_def by blast+
  let ?d = "up_sno pdu \<ge> rw_firstSnoForReordering (ur_window ?ur) \<and> up_sno pdu < rw_highestReceivedSno (ur_window ?ur)"
  let ?i = "unat (up_sno pdu - rw_firstSno (ur_window ?ur))"
  have d: "?d = (ur_next ?ur \<le> t \<and> t < ur_high ?ur)" unfolding word_le_nat_alt word_less_nat_alt T ..
  have lt: "(up_sno pdu < rw_firstSnoForReordering (ur_window ?ur)) = (t < ur_next ?ur)" unfolding word_less_nat_alt T ..
  have at: "?i = t - ur_first ?ur" "?i < length (ur_pduBuffer ?ur)" if ?d
  proof -
    have b: "ur_first ?ur \<le> t" "t < ur_first ?ur + ur_wsize ?ur" using that[unfolded d] v(1,2) by linarith+
    show e: "?i = t - ur_first ?ur" using sn_sub[of "rw_firstSno (ur_window ?ur)" "up_sno pdu"] b(1) unfolding T by blast
    show "?i < length (ur_pduBuffer ?ur)" unfolding e using b slots_wsize[OF v(3)] by linarith
  qed
  let ?dup = "?d \<and> ur_pduBuffer ?ur ! ?i \<noteq> None"
  have dup: "(if ?d then vec_at (ur_received ?ur) ?i else Inr False) = Inr ?dup"
  proof (cases ?d)
    case True
    have "vec_at (ur_received ?ur) ?i = Inr (ur_received ?ur ! ?i)"
      by (rule vec_at_ok) (use at(2)[OF True] slots_length[OF v(3)] in simp)
    moreover have "?dup = ur_received ?ur ! ?i" using True slots_received[OF v(3) at(2)[OF True]] by blast
    ultimately show ?thesis unfolding if_P[OF True] by (simp only:)
  next
    case False
    then have "?dup = False" by blast
    then show ?thesis unfolding if_not_P[OF False] by (simp only:)
  qed
  have run: "ur_enque now pdu ur = (if ?dup \<or> up_sno pdu < rw_firstSnoForReordering (ur_window ?ur) then Inr (?ur, []) else ur_store now pdu ?ur)"
    unfolding ur_enque_def Let_def dup cpp_bind_simps ..
  show ?thesis
  proof (cases "?dup \<or> up_sno pdu < rw_firstSnoForReordering (ur_window ?ur)")
    case True
    have "\<not> (\<not> ur_init ur \<and> ur_direction ur = D2D_MULTI)"
    proof
      assume m: "\<not> ur_init ur \<and> ur_direction ur = D2D_MULTI"
      then have "ur_next ?ur = t" "ur_high ?ur = t" using rx_ok_init(2,3)[OF assms(1,2) _ _ refl] by (simp_all add: sno)
      with True[unfolded d lt] show False by linarith
    qed
    then have u: "?ur = ur" by (rule if_not_P)
    have n: "\<not> (ur_next ur = t \<and> ur_high ur = t)" using True[unfolded d lt, unfolded u] by linarith
    show ?thesis unfolding run unfolding if_P[OF True] unfolding u by (intro exI[of _ ur] exI[of _ "[]"]) (use assms(1) n in auto)
  next
    case False
    have "\<exists>ur' effs. ur_store now pdu ?ur = Inr (ur', effs) \<and> rx_ok ps ur' (ds @ delivered effs)
      \<and> (ur_next ?ur = t \<and> ur_high ?ur = t \<and> out_exact ps t ?ur ds \<longrightarrow>
        ur_next ur' = Suc t \<and> ur_high ur' = Suc t \<and> out_exact ps (Suc t) ur' (ds @ delivered effs))"
    proof (rule ur_store_at[OF i(1) sno assms(2,3) _ _ i(2)])
      show nt: "ur_next ?ur \<le> t" using False[unfolded lt] by linarith
      show "ur_pduBuffer ?ur ! (t - ur_first ?ur) = None" if "t < ur_high ?ur"
      proof -
        have "?d" unfolding d using nt that by blast
        with False at(1) show ?thesis by metis
      qed
    qed
    then show ?thesis unfolding run unfolding if_not_P[OF False] using i(3) by blast
  qed
qed

lemma ur_handleTimer_at:
  assumes "rx_ok ps ur ds" "ur_reordering ur \<noteq> None"
  shows "\<exists>ur' effs. ur_handleTimer now ur = Inr (ur', effs) \<and> rx_ok ps ur' (ds @ delivered effs)
    \<and> ur_next ur < ur_next ur' \<and> ur_high ur' = ur_high ur"
proof -
  let ?ur = "ur\<lparr>ur_reordering := None\<rparr>"
  have w: "window_ok ps ?ur ds" using assms(1) by (simp add: rx_ok_def window_ok_def slots_ok_def out_ok_def buf_ok_def)
  have t: "ur_next ?ur < ur_high ?ur" "ur_next ?ur < unat (rw_reorderingSno (ur_window ur))"
    "ur_init ur \<or> ur_direction ur \<noteq> D2D_MULTI"
    using assms by (auto simp: rx_ok_def timer_ok_def)
  from ur_deliverUpTo_at[OF w t(1), of "rw_reorderingSno (ur_window ur)"] t(2) obtain ur1 effs where
    r: "ur_deliverUpTo (rw_reorderingSno (ur_window ur)) ?ur = Inr (ur1, effs)" "window_ok ps ur1 (ds @ delivered effs)"
      "same_control ?ur ur1" "ur_next ur < ur_next ur1" by auto
  let ?ur2 = "if rw_highestReceivedSno (ur_window ur1) > rw_firstSnoForReordering (ur_window ur1)
              then ur_startReordering now (ur_setWindow (\<lambda>w. w\<lparr>rw_reorderingSno := rw_highestReceivedSno w\<rparr>) ur1) else ur1"
  have n: "ur_reordering ur1 = None" "ur_init ur1 = ur_init ur" "ur_direction ur1 = ur_direction ur"
    using r(3) by (simp_all add: same_control_def)
  have s: "same_data ur1 ?ur2" by (simp add: same_data_def ur_startReordering_def ur_setWindow_def)
  have "ur_next ur1 \<le> ur_high ur1" using r(2) by (simp add: window_ok_def)
  then have "timer_ok ?ur2"
    using n(1) by (auto simp: timer_ok_def ur_startReordering_def ur_setWindow_def word_less_nat_alt)
  with same_dataD[OF s] r(2) n t(3) have "rx_ok ps ?ur2 (ds @ delivered effs)" by (auto simp: rx_ok_def)
  moreover have "ur_handleTimer now ur = Inr (?ur2, effs)" using r(1) by (simp add: ur_handleTimer_def Let_def)
  moreover have "ur_next ur < ur_next ?ur2" "ur_high ?ur2 = ur_high ur"
    using same_dataD(6,7)[OF s] r(3,4) by (simp_all add: same_control_def)
  ultimately show ?thesis by blast
qed

end
