(* ===== verification/Rlc_Um_Link.thy ===== *)
theory Rlc_Um_Link
  imports Rlc_Um_Tx Rlc_Um_Receive
begin

text \<open>
  Two RLC entities and what is between them: the SDUs the transmitting one accepts, the PDUs it makes for
  the grants of the MAC layer, their arrival at the receiving one and its reordering timer. In
  the second part, the bytes of a queue as a reference for what a PDU carries.
\<close>

section \<open>A link over any channel\<close>

text \<open>
  \<open>ul_air\<close> keeps every PDU that was sent: it may arrive at any later time, more than once, or never.
\<close>

record um_link =
  ul_tx :: um_tx
  ul_rx :: um_rx
  ul_air :: "um_pdu list"
  ul_accepted :: "rlc_sdu list"
  ul_delivered :: "rlc_sdu list"

datatype um_event = Um_Put rlc_sdu | Um_Grant int | Um_Arrive nat | Um_Timer

definition ul_new :: "um_tx \<Rightarrow> um_rx \<Rightarrow> um_link" where
  "ul_new ut ur = \<lparr>ul_tx = ut, ul_rx = ur, ul_air = [], ul_accepted = [], ul_delivered = []\<rparr>"

definition ul_receive :: "(um_rx \<times> um_rx_effect list) cpp \<Rightarrow> um_link \<Rightarrow> um_link cpp" where
  "ul_receive r l = cpp_bind r (\<lambda>(ur, effs). Inr (l\<lparr>ul_rx := ur, ul_delivered := ul_delivered l @ delivered effs\<rparr>))"

fun ul_step :: "simtime \<times> um_event \<Rightarrow> um_link \<Rightarrow> um_link cpp" where
  "ul_step (now, Um_Put s) l =
     (let (ut, ok) = ut_enque s (ul_tx l)
      in Inr (l\<lparr>ul_tx := ut, ul_accepted := (if ok then ul_accepted l @ [s] else ul_accepted l)\<rparr>))"
| "ul_step (now, Um_Grant n) l = cpp_bind (ut_rlcPduMake n (ul_tx l)) (\<lambda>(ut, effs).
     Inr (l\<lparr>ul_tx := ut, ul_air := ul_air l @ pdus_of effs\<rparr>))"
| "ul_step (now, Um_Arrive i) l =
     (if i < length (ul_air l) then ul_receive (ur_enque now (ul_air l ! i) (ul_rx l)) l else Inr l)"
| "ul_step (now, Um_Timer) l =
     (if ur_reordering (ul_rx l) \<noteq> None then ul_receive (ur_handleTimer now (ul_rx l)) l else Inr l)"

definition ul_run :: "(simtime \<times> um_event) list \<Rightarrow> um_link \<Rightarrow> um_link cpp" where
  "ul_run evs l = cpp_fold ul_step evs l"

text \<open>A channel without loss: a PDU arrives as soon as it has been sent.\<close>

fun ul_perfect_step :: "simtime \<times> um_event \<Rightarrow> um_link \<Rightarrow> um_link cpp" where
  "ul_perfect_step (now, Um_Put s) l = ul_step (now, Um_Put s) l"
| "ul_perfect_step (now, Um_Grant n) l = cpp_bind (ul_step (now, Um_Grant n) l) (\<lambda>l1.
     if length (ul_air l) < length (ul_air l1) then ul_step (now, Um_Arrive (length (ul_air l))) l1 else Inr l1)"
| "ul_perfect_step _ l = Inr l"

definition ul_perfect_run :: "(simtime \<times> um_event) list \<Rightarrow> um_link \<Rightarrow> um_link cpp" where
  "ul_perfect_run evs l = cpp_fold ul_perfect_step evs l"

definition ev_ok :: "simtime \<times> um_event \<Rightarrow> bool" where
  "ev_ok e = (case snd e of Um_Put s \<Rightarrow> sdu_ok s | _ \<Rightarrow> True)"

section \<open>The invariant of a link\<close>

definition link_ok :: "um_link \<Rightarrow> bool" where
  "link_ok l = (tx_stream (ul_air l) (ul_tx l) (ul_accepted l) \<and> rx_ok (ul_air l) (ul_rx l) (ul_delivered l))"

text \<open>The receiver does not notice that the sequence grows.\<close>

lemma rx_ok_append:
  assumes "rx_ok ps ur ds" "stream_ok (ps @ qs)" "length (ps @ qs) < 2 ^ 31"
  shows "rx_ok (ps @ qs) ur ds"
proof -
  have o: "out_ok ps (ur_next ur) ur ds" and s: "slots_ok ps (ur_next ur) (ur_high ur) ur"
    using assms(1) by (simp_all add: rx_ok_def window_ok_def)
  have n: "ur_next ur \<le> length ps" using o by (simp add: out_ok_def)
  have "buf_ok (ps @ qs) (ur_next ur) ur"
  proof (cases "ur_buffered ur")
    case (Some x)
    then obtain s k i where x: "x = (s, k, of_nat i)" "i < ur_next ur" "carry_at ps (Suc i) = Some (s, k)"
      using o by (cases x) (auto simp: out_ok_def buf_ok_def)
    then have "carry_at (ps @ qs) (Suc i) = Some (s, k)" using n carry_at_append[of "Suc i" ps qs] by simp
    then show ?thesis using Some x(1,2) by (auto simp: buf_ok_def simp del: carry_at.simps)
  qed (simp add: buf_ok_def)
  then have "out_ok (ps @ qs) (ur_next ur) ur ds" using o n assms(2,3) by (simp add: out_ok_def dones_append)
  moreover have "slots_ok (ps @ qs) (ur_next ur) (ur_high ur) ur"
    using s unfolding slots_ok_def by (auto simp: nth_append)
  ultimately show ?thesis using assms(1) by (simp add: rx_ok_def window_ok_def)
qed

lemma out_exact_append: "out_exact ps (length ps) ur ds \<Longrightarrow> out_exact (ps @ qs) (length ps) ur ds"
  by (simp add: out_exact_def dones_append carry_at_append)

lemma link_new:
  assumes "0 < wsize" "unat wsize < 2 ^ 31"
  shows "link_ok (ul_new (ut_new q d n p) (ur_new wsize t d' ue))" "out_exact [] 0 (ur_new wsize t d' ue) []"
proof -
  have "0 < unat wsize" using assms(1) by (simp add: word_less_nat_alt)
  then have "rx_ok [] (ur_new wsize t d' ue) []" using assms(2)
    by (simp add: rx_ok_def window_ok_def ur_new_def slots_ok_def out_ok_def buf_ok_def stream_ok_def timer_ok_def)
  then show "link_ok (ul_new (ut_new q d n p) (ur_new wsize t d' ue))" by (simp add: link_ok_def ul_new_def tx_stream_new)
  show "out_exact [] 0 (ur_new wsize t d' ue) []" by (simp add: out_exact_def ur_new_def dones_def buffer_of_def)
qed

lemma ul_step_ok:
  assumes "link_ok l" "ev_ok e" "length (ul_air l) < 2 ^ 31 - 1"
  shows "\<exists>l'. ul_step e l = Inr l' \<and> link_ok l' \<and> length (ul_air l') \<le> Suc (length (ul_air l))"
proof -
  obtain now ev where e: "e = (now, ev)" by fastforce
  have t: "tx_stream (ul_air l) (ul_tx l) (ul_accepted l)" and r: "rx_ok (ul_air l) (ul_rx l) (ul_delivered l)"
    using assms(1) by (simp_all add: link_ok_def)
  show ?thesis
  proof (cases ev)
    case (Um_Put s)
    then have "sdu_ok s" using assms(2) e by (simp add: ev_ok_def)
    from tx_stream_enque[OF t this] r show ?thesis
      by (cases "ut_enque s (ul_tx l)") (simp add: e Um_Put link_ok_def)
  next
    case (Um_Grant n)
    from tx_stream_make[OF t, of n] obtain ut effs where m: "ut_rlcPduMake n (ul_tx l) = Inr (ut, effs)"
      "pdus_of effs = [] \<or> (\<exists>pdu. pdus_of effs = [pdu])" "tx_stream (ul_air l @ pdus_of effs) ut (ul_accepted l)" by blast
    from m(2) have n1: "length (pdus_of effs) \<le> 1" by auto
    have "rx_ok (ul_air l @ pdus_of effs) (ul_rx l) (ul_delivered l)"
      by (rule rx_ok_append[OF r]) (use m(3) n1 assms(3) in \<open>simp_all add: tx_stream_def\<close>)
    then show ?thesis using m n1 by (simp add: e Um_Grant link_ok_def)
  next
    case (Um_Arrive i)
    show ?thesis
    proof (cases "i < length (ul_air l)")
      case True
      from ur_enque_at[OF r True refl, of now] t show ?thesis
        by (auto simp: e Um_Arrive True link_ok_def ul_receive_def)
    qed (use assms(1) in \<open>simp add: e Um_Arrive\<close>)
  next
    case Um_Timer
    show ?thesis
    proof (cases "ur_reordering (ul_rx l) = None")
      case False
      from ur_handleTimer_at[OF r False, of now] t show ?thesis
        by (auto simp: e Um_Timer link_ok_def ul_receive_def False)
    qed (use assms(1) in \<open>simp add: e Um_Timer\<close>)
  qed
qed

lemma ul_run_ok:
  assumes "link_ok l" "list_all ev_ok evs" "length (ul_air l) + length evs < 2 ^ 31"
  shows "\<exists>l'. ul_run evs l = Inr l' \<and> link_ok l'"
  using assms
proof (induction evs arbitrary: l)
  case (Cons e evs)
  obtain l1 where l1: "ul_step e l = Inr l1" "link_ok l1" "length (ul_air l1) \<le> Suc (length (ul_air l))"
    using ul_step_ok[of l e] Cons.prems by auto
  have "\<exists>l'. ul_run evs l1 = Inr l' \<and> link_ok l'" by (rule Cons.IH[OF l1(2)]) (use Cons.prems l1(3) in auto)
  then show ?case using l1(1) by (simp add: ul_run_def)
qed (simp add: ul_run_def)

lemma ul_run_new:
  assumes "0 < wsize" "unat wsize < 2 ^ 31" "length evs < 2 ^ 31" "list_all ev_ok evs"
  shows "\<exists>l. ul_run evs (ul_new (ut_new q dir node mgr) (ur_new wsize t dir' ue)) = Inr l \<and> link_ok l"
  by (rule ul_run_ok[OF link_new(1)[OF assms(1,2)] assms(4)]) (use assms(3) in \<open>simp add: ul_new_def\<close>)

text \<open>Without loss the receiver has delivered all that has been sent in full.\<close>

definition perfect_ok :: "um_link \<Rightarrow> bool" where
  "perfect_ok l = (link_ok l \<and> ur_next (ul_rx l) = length (ul_air l) \<and> ur_high (ul_rx l) = length (ul_air l)
     \<and> out_exact (ul_air l) (length (ul_air l)) (ul_rx l) (ul_delivered l))"

lemma ul_perfect_step_ok:
  assumes "perfect_ok l" "ev_ok e" "length (ul_air l) < 2 ^ 31 - 1"
  shows "\<exists>l'. ul_perfect_step e l = Inr l' \<and> perfect_ok l' \<and> length (ul_air l') \<le> Suc (length (ul_air l))"
proof -
  obtain now ev where e: "e = (now, ev)" by fastforce
  have lo: "link_ok l" and n: "ur_next (ul_rx l) = length (ul_air l)" "ur_high (ul_rx l) = length (ul_air l)"
    "out_exact (ul_air l) (length (ul_air l)) (ul_rx l) (ul_delivered l)" using assms(1) by (simp_all add: perfect_ok_def)
  show ?thesis
  proof (cases ev)
    case (Um_Put s)
    from ul_step_ok[OF lo assms(2,3)] obtain l' where "ul_step e l = Inr l'" "link_ok l'" by blast
    moreover from this(1) have "ul_rx l' = ul_rx l" "ul_air l' = ul_air l" "ul_delivered l' = ul_delivered l"
      by (auto simp: e Um_Put Let_def split: prod.splits)
    ultimately show ?thesis using n by (simp add: e Um_Put perfect_ok_def)
  next
    case (Um_Grant m)
    have t: "tx_stream (ul_air l) (ul_tx l) (ul_accepted l)" and r: "rx_ok (ul_air l) (ul_rx l) (ul_delivered l)"
      using lo by (simp_all add: link_ok_def)
    from tx_stream_make[OF t, of m] obtain ut effs where s: "ut_rlcPduMake m (ul_tx l) = Inr (ut, effs)"
      "pdus_of effs = [] \<or> (\<exists>pdu. pdus_of effs = [pdu])" "tx_stream (ul_air l @ pdus_of effs) ut (ul_accepted l)" by blast
    show ?thesis
    proof (cases "pdus_of effs = []")
      case True
      then show ?thesis using s n r by (simp add: e Um_Grant perfect_ok_def link_ok_def)
    next
      case False
      then obtain pdu where p: "pdus_of effs = [pdu]" using s(2) by blast
      let ?ps = "ul_air l @ [pdu]"
      have r2: "rx_ok ?ps (ul_rx l) (ul_delivered l)"
        by (rule rx_ok_append[OF r]) (use s(3) p assms(3) in \<open>simp_all add: tx_stream_def\<close>)
      from ur_enque_at[OF r2, of "length (ul_air l)" pdu now] n out_exact_append[OF n(3), of "[pdu]"] obtain ur' es where
        "ur_enque now pdu (ul_rx l) = Inr (ur', es)" "rx_ok ?ps ur' (ul_delivered l @ delivered es)"
        "ur_next ur' = Suc (length (ul_air l))" "ur_high ur' = Suc (length (ul_air l))"
        "out_exact ?ps (Suc (length (ul_air l))) ur' (ul_delivered l @ delivered es)" by auto
      then show ?thesis using s p by (simp add: e Um_Grant perfect_ok_def link_ok_def ul_receive_def)
    qed
  qed (use assms(1) in \<open>simp_all add: e\<close>)
qed

lemma ul_perfect_run_ok:
  assumes "perfect_ok l" "list_all ev_ok evs" "length (ul_air l) + length evs < 2 ^ 31"
  shows "\<exists>l'. ul_perfect_run evs l = Inr l' \<and> perfect_ok l'"
  using assms
proof (induction evs arbitrary: l)
  case (Cons e evs)
  obtain l1 where l1: "ul_perfect_step e l = Inr l1" "perfect_ok l1" "length (ul_air l1) \<le> Suc (length (ul_air l))"
    using ul_perfect_step_ok[of l e] Cons.prems by auto
  have "\<exists>l'. ul_perfect_run evs l1 = Inr l' \<and> perfect_ok l'" by (rule Cons.IH[OF l1(2)]) (use Cons.prems l1(3) in auto)
  then show ?case using l1(1) by (simp add: ul_perfect_run_def)
qed (simp add: ul_perfect_run_def)

text \<open>Timer events alone: every one closes at least one number of the gap.\<close>

lemma ul_timers:
  assumes "link_ok l" "ur_high (ul_rx l) - ur_next (ul_rx l) \<le> length ts"
  shows "\<exists>l'. ul_run (map (\<lambda>t. (t, Um_Timer)) ts) l = Inr l' \<and> link_ok l' \<and> ur_high (ul_rx l') = ur_high (ul_rx l)
    \<and> ur_next (ul_rx l') = ur_high (ul_rx l)"
  using assms
proof (induction ts arbitrary: l)
  case Nil
  then have "ur_next (ul_rx l) \<le> ur_high (ul_rx l)" by (simp add: link_ok_def rx_ok_def window_ok_def)
  with Nil show ?case by (simp add: ul_run_def)
next
  case (Cons t ts)
  have r: "rx_ok (ul_air l) (ul_rx l) (ul_delivered l)" and s: "tx_stream (ul_air l) (ul_tx l) (ul_accepted l)"
    using Cons.prems(1) by (simp_all add: link_ok_def)
  show ?case
  proof (cases "ur_reordering (ul_rx l) = None")
    case True
    then have "ur_high (ul_rx l) - ur_next (ul_rx l) \<le> length ts" using r by (simp add: rx_ok_def timer_ok_def)
    from Cons.IH[OF Cons.prems(1) this] True show ?thesis by (simp add: ul_run_def)
  next
    case False
    from ur_handleTimer_at[OF r False, of t] obtain ur' effs where h: "ur_handleTimer t (ul_rx l) = Inr (ur', effs)"
      "rx_ok (ul_air l) ur' (ul_delivered l @ delivered effs)" "ur_next (ul_rx l) < ur_next ur'" "ur_high ur' = ur_high (ul_rx l)" by blast
    let ?l = "l\<lparr>ul_rx := ur', ul_delivered := ul_delivered l @ delivered effs\<rparr>"
    have "ul_step (t, Um_Timer) l = Inr ?l" using False h(1) by (simp add: ul_receive_def)
    moreover have "link_ok ?l" using h(2) s by (simp add: link_ok_def)
    moreover have "ur_high (ul_rx ?l) - ur_next (ul_rx ?l) \<le> length ts" using h(3,4) Cons.prems(2) by simp
    ultimately show ?thesis using Cons.IH[of ?l] h(4) by (auto simp: ul_run_def simp del: ul_step.simps)
  qed
qed

section \<open>The bytes of a queue\<close>

text \<open>A byte is named by its SDU and its position there.\<close>

definition sdu_bytes :: "rlc_sdu \<Rightarrow> (rlc_sdu \<times> nat) list" where
  "sdu_bytes s = map (Pair s) [0 ..< rs_length s]"

definition carry_offset :: "carry \<Rightarrow> nat" where
  "carry_offset c = (case c of None \<Rightarrow> 0 | Some (_, k) \<Rightarrow> k)"

definition queued_bytes :: "carry \<Rightarrow> rlc_sdu list \<Rightarrow> (rlc_sdu \<times> nat) list" where
  "queued_bytes c q = drop (carry_offset c) (concat (map sdu_bytes q))"

fun chunk_bytes :: "nat \<Rightarrow> (rlc_sdu \<times> nat) list \<Rightarrow> (rlc_sdu \<times> nat) list" where
  "chunk_bytes k [] = []"
| "chunk_bytes k ((s, len) # xs) = map (Pair s) [k ..< k + len] @ chunk_bytes 0 xs"

lemma chunk_bytes_length: "length (chunk_bytes k xs) = sum_list (map snd xs)"
  by (induction k xs rule: chunk_bytes.induct) auto

lemma sdu_bytes_length: "length (sdu_bytes s) = rs_length s"
  by (simp add: sdu_bytes_def)

lemma map_upt_split: "k \<le> l \<Longrightarrow> l \<le> n \<Longrightarrow> map f [k ..< l] @ map f [l ..< n] = map f [k ..< n]"
  by (metis le_Suc_ex map_append upt_add_eq_append)

text \<open>What has been cut off and what is left make up the queue.\<close>

lemma queued_bytes_cons:
  "carry_offset c \<le> rs_length s \<Longrightarrow>
    queued_bytes c (s # q) = map (Pair s) [carry_offset c ..< rs_length s] @ queued_bytes None q"
  by (simp add: queued_bytes_def sdu_bytes_length) (simp add: sdu_bytes_def drop_map carry_offset_def)

lemma chunks_bytes:
  assumes "chunks_after c xs = Some (c', d)" "xs \<noteq> [] \<or> c' = c"
    and "\<And>s k. c' = Some (s, k) \<Longrightarrow> q' \<noteq> [] \<and> hd q' = s \<and> k < rs_length s"
  shows "chunk_bytes (carry_offset c) xs @ queued_bytes c' q' = queued_bytes c (d @ q')"
  using assms
proof (induction xs arbitrary: c d)
  case Nil
  then show ?case by simp
next
  case (Cons x xs)
  obtain s len where x: "x = (s, len)" by fastforce
  let ?k = "carry_offset c"
  have k: "(case c of None \<Rightarrow> 0 | Some (_, k) \<Rightarrow> k) = ?k" by (simp add: carry_offset_def)
  have s: "(case c of None \<Rightarrow> True | Some (s', _) \<Rightarrow> s' = s) \<and> 0 < len"
    using Cons.prems(1) x by (auto simp: Let_def split: if_splits)
  note e = Cons.prems(1)[unfolded x chunks_after.simps(2) Let_def k if_P[OF s]]
  show ?case
  proof (cases "?k + len = rs_length s")
    case True
    then obtain d2 where d: "chunks_after None xs = Some (c', d2)" "d = s # d2" using e by auto
    have "chunk_bytes 0 xs @ queued_bytes c' q' = queued_bytes None (d2 @ q')"
    proof (cases "xs = []")
      case False
      from Cons.IH[OF d(1) disjI1[OF False] Cons.prems(3)] show ?thesis by (simp add: carry_offset_def)
    qed (use d(1) in simp)
    moreover have "queued_bytes c (d @ q') = map (Pair s) [?k ..< ?k + len] @ queued_bytes None (d2 @ q')"
      using queued_bytes_cons[of c s "d2 @ q'"] True by (simp add: d(2))
    ultimately show ?thesis by (simp add: x)
  next
    case False
    then have y: "?k + len < rs_length s" "xs = []" "c' = Some (s, ?k + len)" "d = []" using e by (auto split: if_splits)
    then obtain q where q: "q' = s # q" using Cons.prems(3)[OF y(3)] by (cases q') auto
    have "carry_offset c' = ?k + len" by (simp add: y(3) carry_offset_def)
    then have "queued_bytes c' q' = map (Pair s) [?k + len ..< rs_length s] @ queued_bytes None q"
      using queued_bytes_cons[of c' s q] y(1) q by simp
    moreover have "queued_bytes c q' = map (Pair s) [?k ..< rs_length s] @ queued_bytes None q"
      using queued_bytes_cons[of c s q] y(1) q by simp
    ultimately show ?thesis using y(1) map_upt_split[of ?k "?k + len" "rs_length s" "Pair s"] by (simp add: x y(2,4))
  qed
qed

definition tx_bytes :: "um_tx \<Rightarrow> (rlc_sdu \<times> nat) list" where
  "tx_bytes ut = queued_bytes (ut_carry ut) (ut_sduQueue ut)"

definition pdu_bytes :: "um_tx \<Rightarrow> um_pdu \<Rightarrow> (rlc_sdu \<times> nat) list" where
  "pdu_bytes ut pdu = chunk_bytes (carry_offset (ut_carry ut)) (up_sdus pdu)"

lemma ut_carry_front: "tx_ok ut \<Longrightarrow> ut_carry ut = Some (s, k) \<Longrightarrow> ut_sduQueue ut \<noteq> [] \<and> hd (ut_sduQueue ut) = s \<and> k < rs_length s"
  by (auto simp: tx_ok_def ut_carry_def split: option.splits)

lemma filled_bytes:
  assumes "filled n ut ut' xs e d"
  shows "chunk_bytes (carry_offset (ut_carry ut)) xs = take (nat n) (tx_bytes ut)" "tx_bytes ut' = drop (nat n) (tx_bytes ut)"
proof -
  have f: "tx_ok ut'" "chunks_after (ut_carry ut) xs = Some (ut_carry ut', d)" "ut_sduQueue ut = d @ ut_sduQueue ut'"
    "xs = [] \<longrightarrow> ut' = ut" "int (sum_list (map snd xs)) \<le> max 0 n"
    "ut_sduQueue ut' \<noteq> [] \<longrightarrow> int (sum_list (map snd xs)) = max 0 n" using assms unfolding filled_def by blast+
  let ?b = "chunk_bytes (carry_offset (ut_carry ut)) xs"
  have "xs \<noteq> [] \<or> ut_carry ut' = ut_carry ut" using f(4) by auto
  from chunks_bytes[OF f(2) this ut_carry_front[OF f(1)]] have b: "?b @ tx_bytes ut' = tx_bytes ut"
    by (simp add: tx_bytes_def f(3))
  have len: "length ?b \<le> nat n" "ut_sduQueue ut' \<noteq> [] \<Longrightarrow> length ?b = nat n" using f(5,6) by (auto simp: chunk_bytes_length)
  have "length ?b = nat n \<or> tx_bytes ut' = []"
    by (cases "ut_sduQueue ut' = []") (simp_all add: len(2) tx_bytes_def queued_bytes_def)
  then have "take (nat n) (?b @ tx_bytes ut') = ?b" "drop (nat n) (?b @ tx_bytes ut') = tx_bytes ut'" using len(1) by auto
  then show "?b = take (nat n) (tx_bytes ut)" "tx_bytes ut' = drop (nat n) (tx_bytes ut)" unfolding b by simp_all
qed

end
