(* ===== verification/Rlc_Um_Layer.thy ===== *)
theory Rlc_Um_Layer
  imports Rlc_Um_Tx Rlc_Um_Rx
begin

text \<open>
  The UM module of RLC (\<open>LteRlcUm.cc\<close>) and its variant for device-to-device links
  (\<open>LteRlcUmD2D.cc\<close>): it keeps one transmitting and one receiving entity for every connection and hands
  each message to the entity of its connection. An entity is named by its connection identifier, so a pointer to one is
  that identifier.
\<close>

unbundle bit_operations_syntax

section \<open>Connection identifiers\<close>

type_synonym logical_cid = "16 word"
type_synonym mac_cid = "32 word"

definition idToMacCid :: "node_id \<Rightarrow> logical_cid \<Rightarrow> mac_cid" where
  "idToMacCid nodeId lcid = push_bit 16 (ucast nodeId) OR ucast lcid"

definition MacCidToNodeId :: "mac_cid \<Rightarrow> node_id" where
  "MacCidToNodeId cid = ucast (drop_bit 16 cid)"

definition MacCidToLcid :: "mac_cid \<Rightarrow> logical_cid" where
  "MacCidToLcid cid = ucast cid"

lemma MacCid_of_id [simp]: "MacCidToNodeId (idToMacCid n l) = n" "MacCidToLcid (idToMacCid n l) = l"
  unfolding MacCidToNodeId_def MacCidToLcid_def idToMacCid_def
  by ((rule bit_word_eqI, auto simp: bit_simps dest: bit_imp_le_length)[1])+

lemma id_of_MacCid: "idToMacCid (MacCidToNodeId c) (MacCidToLcid c) = c"
  unfolding MacCidToNodeId_def MacCidToLcid_def idToMacCid_def
  by (rule bit_word_eqI) (auto simp: bit_simps)

lemma idToMacCid_inject: "idToMacCid n l = idToMacCid n' l' \<longleftrightarrow> n = n' \<and> l = l'"
  by (metis MacCid_of_id)

text \<open>The fields of \<open>FlowControlInfo\<close> the module reads.\<close>

record flow_info =
  fl_direction :: direction
  fl_sourceId :: node_id
  fl_destId :: node_id
  fl_lcid :: logical_cid
  fl_d2dRxPeerId :: node_id

definition ctrlInfoToUeId :: "flow_info \<Rightarrow> node_id cpp" where
  "ctrlInfoToUeId info = (case fl_direction info of
      DL \<Rightarrow> Inr (fl_destId info)
    | D2D \<Rightarrow> Inr (fl_destId info)
    | UL \<Rightarrow> Inr (fl_sourceId info)
    | D2D_MULTI \<Rightarrow> Inr (fl_sourceId info)
    | UNKNOWN_DIRECTION \<Rightarrow> Inl (Runtime_Error ''ctrlInfoToMacCid - unknown direction''))"

section \<open>State\<close>

text \<open>
  \<open>ly_d2d\<close> tells the class of the module. The configuration of the node decides how entities are
  initialised. The set of pointers of \<open>perPeerTxEntities_\<close> is ordered by address, taken to be the order of creation.
\<close>

record um_layer =
  ly_tx :: "mac_cid \<Rightarrow> (flow_info \<times> um_tx) option"
  ly_rx :: "mac_cid \<Rightarrow> (flow_info \<times> um_rx) option"
  ly_perPeer :: "node_id \<Rightarrow> mac_cid list option"
  ly_ulThroughput :: "node_id \<Rightarrow> (32 word \<times> simtime) option"
  ly_d2d :: bool
  ly_mapAllLcidsToSingleBearer :: bool
  ly_nodeType :: ran_node_type
  ly_queueSize :: "32 word"
  ly_rxWindowSize :: "32 word"
  ly_timeout :: simtime
  ly_packetFlowManager :: bool

datatype ly_output =
    Tx_Output mac_cid flow_info um_tx_effect
  | Rx_Output mac_cid flow_info um_rx_effect

section \<open>Finding the entity of a connection\<close>

definition ly_txCid :: "flow_info \<Rightarrow> um_layer \<Rightarrow> mac_cid cpp" where
  "ly_txCid info ly = cpp_bind (ctrlInfoToUeId info) (\<lambda>nodeId.
     Inr (idToMacCid nodeId (if \<not> ly_d2d ly \<and> ly_mapAllLcidsToSingleBearer ly then 1 else fl_lcid info)))"

definition ly_isEmptyingTxBuffer :: "node_id \<Rightarrow> um_layer \<Rightarrow> bool" where
  "ly_isEmptyingTxBuffer peer ly = (ly_d2d ly \<and> peer \<noteq> 0 \<and> (case ly_perPeer ly peer of
      None \<Rightarrow> False
    | Some cids \<Rightarrow> list_ex (\<lambda>c. case ly_tx ly c of None \<Rightarrow> False | Some (_, ut) \<Rightarrow> ut_notifyEmptyBuffer ut) cids))"

definition ly_newTx :: "flow_info \<Rightarrow> um_layer \<Rightarrow> um_tx" where
  "ly_newTx info ly = ut_new (ly_queueSize ly) (fl_direction info) (ly_nodeType ly) (ly_packetFlowManager ly)"

definition ly_newRx :: "flow_info \<Rightarrow> um_layer \<Rightarrow> um_rx" where
  "ly_newRx info ly = ur_new (ly_rxWindowSize ly) (ly_timeout ly) (fl_direction info) (ly_nodeType ly = UE)"

text \<open>The variant for device-to-device links files a new entity under its peer and lets it hold its packets while another one for that peer empties.\<close>

definition ly_getTxBuffer :: "flow_info \<Rightarrow> um_layer \<Rightarrow> (mac_cid \<times> um_layer) cpp" where
  "ly_getTxBuffer info ly = cpp_bind (ly_txCid info ly) (\<lambda>cid.
     if ly_tx ly cid \<noteq> None then Inr (cid, ly)
     else
       let peer = fl_d2dRxPeerId info;
           ly1 = ly\<lparr>ly_tx := (ly_tx ly)(cid \<mapsto> (info, ly_newTx info ly))\<rparr>
       in if \<not> ly_d2d ly then Inr (cid, ly1)
          else
            let ly2 = (if peer \<noteq> 0
                  then ly1\<lparr>ly_perPeer := (ly_perPeer ly1)(peer \<mapsto> (case ly_perPeer ly1 peer of None \<Rightarrow> [] | Some cs \<Rightarrow> cs) @ [cid])\<rparr>
                  else ly1)
            in Inr (cid, if ly_isEmptyingTxBuffer peer ly2
                 then ly2\<lparr>ly_tx := (ly_tx ly2)(cid \<mapsto> (info, ut_startHoldingDownstreamInPackets (ly_newTx info ly)))\<rparr> else ly2))"

definition ly_rxCid :: "flow_info \<Rightarrow> mac_cid" where
  "ly_rxCid info = idToMacCid (if fl_direction info = DL then fl_destId info else fl_sourceId info) (fl_lcid info)"

definition ly_getRxBuffer :: "flow_info \<Rightarrow> um_layer \<Rightarrow> mac_cid \<times> um_layer" where
  "ly_getRxBuffer info ly =
     (let cid = ly_rxCid info
      in (cid, if ly_rx ly cid \<noteq> None then ly else ly\<lparr>ly_rx := (ly_rx ly)(cid \<mapsto> (info, ly_newRx info ly))\<rparr>))"

text \<open>A call on an entity that exists.\<close>

definition ly_callTx ::
  "mac_cid \<Rightarrow> (um_tx \<Rightarrow> (um_tx \<times> um_tx_effect list) cpp) \<Rightarrow> um_layer \<Rightarrow> (um_layer \<times> ly_output list) cpp" where
  "ly_callTx cid f ly = (case ly_tx ly cid of
      None \<Rightarrow> Inl Undefined_Behaviour
    | Some (info, ut) \<Rightarrow> cpp_bind (f ut) (\<lambda>(ut', effs).
        Inr (ly\<lparr>ly_tx := (ly_tx ly)(cid \<mapsto> (info, ut'))\<rparr>, map (Tx_Output cid info) effs)))"

text \<open>The throughput of a UE; a division by zero (not a number) is no value.\<close>

definition ly_addUeThroughput :: "node_id \<Rightarrow> 32 word \<times> simtime \<Rightarrow> um_layer \<Rightarrow> um_layer" where
  "ly_addUeThroughput n t ly = ly\<lparr>ly_ulThroughput := (ly_ulThroughput ly)(n \<mapsto> (case ly_ulThroughput ly n of
      None \<Rightarrow> t | Some (sz, d) \<Rightarrow> (sz + fst t, d + snd t)))\<rparr>"

text \<open>What an entity reports about bursts goes to the statistics of the module.\<close>

definition ly_account :: "flow_info \<Rightarrow> um_rx_effect list \<Rightarrow> um_layer \<Rightarrow> um_layer" where
  "ly_account info effs = fold (\<lambda>e ly. case e of Add_Ue_Throughput b d \<Rightarrow> ly_addUeThroughput (fl_sourceId info) (b, d) ly | _ \<Rightarrow> ly) effs"

definition ly_getUeThroughput :: "node_id \<Rightarrow> um_layer \<Rightarrow> rat option" where
  "ly_getUeThroughput n ly = (case ly_ulThroughput ly n of
      None \<Rightarrow> Some 0
    | Some (sz, d) \<Rightarrow> if d = 0 then None else Some (of_nat (unat sz) / d))"

definition ly_callRx ::
  "mac_cid \<Rightarrow> (um_rx \<Rightarrow> (um_rx \<times> um_rx_effect list) cpp) \<Rightarrow> um_layer \<Rightarrow> (um_layer \<times> ly_output list) cpp" where
  "ly_callRx cid f ly = (case ly_rx ly cid of
      None \<Rightarrow> Inl Undefined_Behaviour
    | Some (info, ur) \<Rightarrow> cpp_bind (f ur) (\<lambda>(ur', effs).
        Inr (ly_account info effs (ly\<lparr>ly_rx := (ly_rx ly)(cid \<mapsto> (info, ur'))\<rparr>), map (Rx_Output cid info) effs)))"

section \<open>Messages from PDCP\<close>

text \<open>The length of the \<open>LteRlcSdu\<close> chunk put in front of a packet.\<close>

definition RLC_SDU_HEADER :: nat where "RLC_SDU_HEADER = 1"

definition ly_sdu :: "nat \<Rightarrow> 32 word \<Rightarrow> nat \<Rightarrow> rlc_sdu" where
  "ly_sdu pkt sno len = \<lparr>rs_pkt = pkt, rs_sno = sno, rs_length = len, rs_byteLength = len + RLC_SDU_HEADER\<rparr>"

text \<open>What the module does with the entity it has found.\<close>

definition ly_putTx :: "rlc_sdu \<Rightarrow> um_tx \<Rightarrow> (um_tx \<times> um_tx_effect list) cpp" where
  "ly_putTx sdu ut =
     (if ut_holdingDownstreamInPackets ut then Inr (ut_enqueHoldingPackets sdu ut, [])
      else let (ut', accepted) = ut_enque sdu ut in Inr (ut', [if accepted then Send_New_Data sdu else Drop_Overflow sdu]))"

definition ly_handleUpperMessage :: "flow_info \<Rightarrow> rlc_sdu \<Rightarrow> um_layer \<Rightarrow> (um_layer \<times> ly_output list) cpp" where
  "ly_handleUpperMessage info sdu ly = cpp_bind (ly_getTxBuffer info ly) (\<lambda>(cid, ly1). ly_callTx cid (ly_putTx sdu) ly1)"

section \<open>Messages from the MAC layer\<close>

text \<open>The other entities of a peer go on when one has been emptied.\<close>

definition ly_resumeTx :: "um_tx \<Rightarrow> (um_tx \<times> um_tx_effect list) cpp" where
  "ly_resumeTx ut = Inr (if ut_holdingDownstreamInPackets ut then ut_resumeDownstreamInPackets ut else (ut, []))"

fun ly_resumeAll :: "mac_cid list \<Rightarrow> um_layer \<Rightarrow> (um_layer \<times> ly_output list) cpp" where
  "ly_resumeAll [] ly = Inr (ly, [])"
| "ly_resumeAll (c # cs) ly = cpp_bind (ly_callTx c ly_resumeTx ly) (\<lambda>(ly1, e1).
     cpp_bind (ly_resumeAll cs ly1) (\<lambda>(ly2, e2). Inr (ly2, e1 @ e2)))"

definition ly_resumeDownstreamInPackets :: "node_id \<Rightarrow> um_layer \<Rightarrow> (um_layer \<times> ly_output list) cpp" where
  "ly_resumeDownstreamInPackets peer ly =
     (if \<not> ly_d2d ly \<or> peer = 0 then Inr (ly, [])
      else case ly_perPeer ly peer of None \<Rightarrow> Inr (ly, []) | Some cs \<Rightarrow> ly_resumeAll cs ly)"

text \<open>A request of the MAC layer for a PDU; \<open>resumeDownstreamInPackets\<close> is the last call of \<open>rlcPduMake\<close>.\<close>

definition ly_sduRequest :: "flow_info \<Rightarrow> 32 word \<Rightarrow> um_layer \<Rightarrow> (um_layer \<times> ly_output list) cpp" where
  "ly_sduRequest info sz ly = cpp_bind (ly_getTxBuffer info ly) (\<lambda>(cid, ly1).
     cpp_bind (ly_callTx cid (ut_rlcPduMake (sint sz)) ly1) (\<lambda>(ly2, e2).
     if list_ex (\<lambda>out. case out of Tx_Output _ _ Resume_Downstream_Peer \<Rightarrow> True | _ \<Rightarrow> False) e2
     then cpp_bind (ly_resumeDownstreamInPackets (case ly_tx ly2 cid of None \<Rightarrow> 0 | Some (fl, _) \<Rightarrow> fl_d2dRxPeerId fl) ly2)
            (\<lambda>(ly3, e3). Inr (ly3, e2 @ e3))
     else Inr (ly2, e2)))"

definition ly_dataPdu :: "simtime \<Rightarrow> flow_info \<Rightarrow> um_pdu \<Rightarrow> um_layer \<Rightarrow> (um_layer \<times> ly_output list) cpp" where
  "ly_dataPdu now info pdu ly = (let (cid, ly1) = ly_getRxBuffer info ly in ly_callRx cid (ur_enque now pdu) ly1)"

record mode_switch =
  sw_txSide :: bool
  sw_oldModeIsIM :: bool
  sw_oldConnection :: bool
  sw_clearRlcBuffer :: bool

datatype ly_lower = Sdu_Request "32 word" | Data_Pdu um_pdu | Mode_Switch mode_switch

definition ly_modeSwitch :: "flow_info \<Rightarrow> mode_switch \<Rightarrow> um_layer \<Rightarrow> (um_layer \<times> ly_output list) cpp" where
  "ly_modeSwitch info sw ly =
     (if sw_txSide sw then cpp_bind (ly_getTxBuffer info ly) (\<lambda>(cid, ly1).
        ly_callTx cid (\<lambda>ut. Inr (ut_rlcHandleD2DModeSwitch
          (ly_isEmptyingTxBuffer (case ly_tx ly1 cid of None \<Rightarrow> 0 | Some (fl, _) \<Rightarrow> fl_d2dRxPeerId fl) ly1)
          (sw_oldConnection sw) (sw_clearRlcBuffer sw) ut, [])) ly1)
      else let (cid, ly1) = ly_getRxBuffer info ly
           in ly_callRx cid (ur_rlcHandleD2DModeSwitch (sw_oldConnection sw) (sw_oldModeIsIM sw) (sw_clearRlcBuffer sw)) ly1)"

text \<open>In the base class a notification would be taken for a data PDU, whose cast fails.\<close>

definition ly_handleLowerMessage :: "simtime \<Rightarrow> flow_info \<Rightarrow> ly_lower \<Rightarrow> um_layer \<Rightarrow> (um_layer \<times> ly_output list) cpp" where
  "ly_handleLowerMessage now info msg ly = (case msg of
      Sdu_Request sz \<Rightarrow> ly_sduRequest info sz ly
    | Data_Pdu pdu \<Rightarrow> ly_dataPdu now info pdu ly
    | Mode_Switch sw \<Rightarrow> if ly_d2d ly then ly_modeSwitch info sw ly else Inl (Runtime_Error ''check_and_cast(): cannot cast''))"

section \<open>Deleting entities, collecting statistics\<close>

definition ly_deletes :: "node_id \<Rightarrow> um_layer \<Rightarrow> mac_cid \<Rightarrow> flow_info \<Rightarrow> bool" where
  "ly_deletes nodeId ly cid info = (\<not> (ly_d2d ly \<and> fl_direction info = D2D_MULTI)
     \<and> (\<not> is_nodeB (ly_nodeType ly) \<or> MacCidToNodeId cid = nodeId))"

definition ly_deleteQueues :: "node_id \<Rightarrow> um_layer \<Rightarrow> um_layer" where
  "ly_deleteQueues nodeId ly = ly\<lparr>
     ly_tx := (\<lambda>c. case ly_tx ly c of None \<Rightarrow> None | Some (fl, e) \<Rightarrow> if ly_deletes nodeId ly c fl then None else Some (fl, e)),
     ly_rx := (\<lambda>c. case ly_rx ly c of None \<Rightarrow> None | Some (fl, e) \<Rightarrow> if ly_deletes nodeId ly c fl then None else Some (fl, e)),
     ly_perPeer := (if ly_d2d ly then (\<lambda>_. None) else ly_perPeer ly)\<rparr>"

text \<open>\<open>cids\<close> are the keys of \<open>rxEntities_\<close>, in order.\<close>

definition ly_activeUeUL :: "mac_cid list \<Rightarrow> um_layer \<Rightarrow> node_id list \<Rightarrow> node_id list" where
  "ly_activeUeUL cids ly ueSet = fold (\<lambda>c ues.
     if MacCidToNodeId c \<notin> set ues \<and> (case ly_rx ly c of None \<Rightarrow> False | Some (_, ur) \<Rightarrow> \<not> ur_isEmpty ur)
     then ues @ [MacCidToNodeId c] else ues) cids ueSet"

definition ly_resetThroughputStats :: "node_id \<Rightarrow> um_layer \<Rightarrow> um_layer" where
  "ly_resetThroughputStats n ly = (case ly_ulThroughput ly n of
      None \<Rightarrow> ly | Some _ \<Rightarrow> ly\<lparr>ly_ulThroughput := (ly_ulThroughput ly)(n \<mapsto> (0, 0))\<rparr>)"

section \<open>The module and its connections\<close>

text \<open>The timer of an entity is a message the entity sends itself.\<close>

datatype ly_event =
    Ly_Upper flow_info rlc_sdu
  | Ly_Request flow_info "32 word"
  | Ly_Data flow_info um_pdu
  | Ly_Switch flow_info mode_switch
  | Ly_Timer mac_cid
  | Ly_Delete node_id

definition ly_timer :: "simtime \<Rightarrow> mac_cid \<Rightarrow> um_layer \<Rightarrow> (um_layer \<times> ly_output list) cpp" where
  "ly_timer now cid ly = (case ly_rx ly cid of
      None \<Rightarrow> Inr (ly, [])
    | Some (_, ur) \<Rightarrow> if ur_reordering ur = None then Inr (ly, []) else ly_callRx cid (ur_handleTimer now) ly)"

definition ly_step :: "simtime \<times> ly_event \<Rightarrow> um_layer \<Rightarrow> (um_layer \<times> ly_output list) cpp" where
  "ly_step ev ly = (case snd ev of
      Ly_Upper info sdu \<Rightarrow> ly_handleUpperMessage info sdu ly
    | Ly_Request info sz \<Rightarrow> ly_handleLowerMessage (fst ev) info (Sdu_Request sz) ly
    | Ly_Data info pdu \<Rightarrow> ly_handleLowerMessage (fst ev) info (Data_Pdu pdu) ly
    | Ly_Switch info sw \<Rightarrow> ly_handleLowerMessage (fst ev) info (Mode_Switch sw) ly
    | Ly_Timer cid \<Rightarrow> ly_timer (fst ev) cid ly
    | Ly_Delete n \<Rightarrow> Inr (ly_deleteQueues n ly, []))"

fun ly_run :: "(simtime \<times> ly_event) list \<Rightarrow> um_layer \<Rightarrow> (um_layer \<times> ly_output list) cpp" where
  "ly_run [] ly = Inr (ly, [])"
| "ly_run (ev # evs) ly = cpp_bind (ly_step ev ly) (\<lambda>(ly1, e1). cpp_bind (ly_run evs ly1) (\<lambda>(ly2, e2). Inr (ly2, e1 @ e2)))"

text \<open>
  The reference: a connection alone, which only takes part in the events that are about it; no other connection of its peer is
  emptying its buffer.
\<close>

definition conn_call :: "'e \<Rightarrow> ('e \<Rightarrow> ('e \<times> 'f list) cpp) \<Rightarrow> (flow_info \<times> 'e) option \<Rightarrow> flow_info \<Rightarrow> ((flow_info \<times> 'e) option \<times> 'f list) cpp" where
  "conn_call fresh f st info = (case (case st of None \<Rightarrow> (info, fresh) | Some x \<Rightarrow> x) of (fl, e) \<Rightarrow>
     cpp_bind (f e) (\<lambda>(e', effs). Inr (Some (fl, e'), effs)))"

definition conn_delete :: "node_id \<Rightarrow> um_layer \<Rightarrow> mac_cid \<Rightarrow> (flow_info \<times> 'e) option \<Rightarrow> (flow_info \<times> 'e) option" where
  "conn_delete n ly c st = (case st of None \<Rightarrow> None | Some (fl, e) \<Rightarrow> if ly_deletes n ly c fl then None else Some (fl, e))"

definition tx_conn_step ::
  "um_layer \<Rightarrow> mac_cid \<Rightarrow> simtime \<times> ly_event \<Rightarrow> (flow_info \<times> um_tx) option \<Rightarrow> ((flow_info \<times> um_tx) option \<times> um_tx_effect list) cpp" where
  "tx_conn_step ly c ev st = (case snd ev of
      Ly_Upper info sdu \<Rightarrow> if ly_txCid info ly = Inr c then conn_call (ly_newTx info ly) (ly_putTx sdu) st info else Inr (st, [])
    | Ly_Request info sz \<Rightarrow> if ly_txCid info ly = Inr c then conn_call (ly_newTx info ly) (ut_rlcPduMake (sint sz)) st info else Inr (st, [])
    | Ly_Switch info sw \<Rightarrow> if sw_txSide sw \<and> ly_txCid info ly = Inr c then conn_call (ly_newTx info ly)
        (\<lambda>ut. Inr (ut_rlcHandleD2DModeSwitch False (sw_oldConnection sw) (sw_clearRlcBuffer sw) ut, [])) st info else Inr (st, [])
    | Ly_Delete n \<Rightarrow> Inr (conn_delete n ly c st, [])
    | _ \<Rightarrow> Inr (st, []))"

definition rx_conn_step ::
  "um_layer \<Rightarrow> mac_cid \<Rightarrow> simtime \<times> ly_event \<Rightarrow> (flow_info \<times> um_rx) option \<Rightarrow> ((flow_info \<times> um_rx) option \<times> um_rx_effect list) cpp" where
  "rx_conn_step ly c ev st = (case snd ev of
      Ly_Data info pdu \<Rightarrow> if ly_rxCid info = c then conn_call (ly_newRx info ly) (ur_enque (fst ev) pdu) st info else Inr (st, [])
    | Ly_Switch info sw \<Rightarrow> if \<not> sw_txSide sw \<and> ly_rxCid info = c then conn_call (ly_newRx info ly)
        (ur_rlcHandleD2DModeSwitch (sw_oldConnection sw) (sw_oldModeIsIM sw) (sw_clearRlcBuffer sw)) st info else Inr (st, [])
    | Ly_Timer c' \<Rightarrow>
        if c' = c then case st of
            None \<Rightarrow> Inr (None, [])
          | Some (fl, ur) \<Rightarrow> if ur_reordering ur = None then Inr (st, []) else conn_call ur (ur_handleTimer (fst ev)) st fl
        else Inr (st, [])
    | Ly_Delete n \<Rightarrow> Inr (conn_delete n ly c st, [])
    | _ \<Rightarrow> Inr (st, []))"

fun conn_run :: "('ev \<Rightarrow> 's \<Rightarrow> ('s \<times> 'f list) cpp) \<Rightarrow> 'ev list \<Rightarrow> 's \<Rightarrow> ('s \<times> 'f list) cpp" where
  "conn_run step [] s = Inr (s, [])"
| "conn_run step (ev # evs) s = cpp_bind (step ev s) (\<lambda>(s1, e1). cpp_bind (conn_run step evs s1) (\<lambda>(s2, e2). Inr (s2, e1 @ e2)))"

text \<open>The outputs of a connection.\<close>

fun tx_outputs :: "mac_cid \<Rightarrow> ly_output list \<Rightarrow> um_tx_effect list" where
  "tx_outputs c [] = []"
| "tx_outputs c (Tx_Output c' _ e # es) = (if c' = c then e # tx_outputs c es else tx_outputs c es)"
| "tx_outputs c (_ # es) = tx_outputs c es"

fun rx_outputs :: "mac_cid \<Rightarrow> ly_output list \<Rightarrow> um_rx_effect list" where
  "rx_outputs c [] = []"
| "rx_outputs c (Rx_Output c' _ e # es) = (if c' = c then e # rx_outputs c es else rx_outputs c es)"
| "rx_outputs c (_ # es) = rx_outputs c es"

lemma outputs_append [simp]:
  "tx_outputs c (xs @ ys) = tx_outputs c xs @ tx_outputs c ys" "rx_outputs c (xs @ ys) = rx_outputs c xs @ rx_outputs c ys"
  by (induction xs rule: tx_outputs.induct) auto

lemma outputs_map [simp]:
  "tx_outputs c (map (Tx_Output c' i) es) = (if c' = c then es else [])" "tx_outputs c (map (Rx_Output c' i) fs) = []"
  "rx_outputs c (map (Rx_Output c' i) fs) = (if c' = c then fs else [])" "rx_outputs c (map (Tx_Output c' i) es) = []"
  by (induction es, auto) (induction fs, auto)+

section \<open>The module is its connections side by side\<close>

definition same_config :: "um_layer \<Rightarrow> um_layer \<Rightarrow> bool" where
  "same_config ly ly' = (ly_d2d ly' = ly_d2d ly \<and> ly_mapAllLcidsToSingleBearer ly' = ly_mapAllLcidsToSingleBearer ly
     \<and> ly_nodeType ly' = ly_nodeType ly \<and> ly_queueSize ly' = ly_queueSize ly \<and> ly_rxWindowSize ly' = ly_rxWindowSize ly
     \<and> ly_timeout ly' = ly_timeout ly \<and> ly_packetFlowManager ly' = ly_packetFlowManager ly)"

lemma same_config_trans: "same_config a b \<Longrightarrow> same_config b c \<Longrightarrow> same_config a c"
  by (simp add: same_config_def)

lemma same_config_parts:
  assumes "same_config ly ly'"
  shows "ly_txCid info ly' = ly_txCid info ly" "ly_newTx info ly' = ly_newTx info ly" "ly_newRx info ly' = ly_newRx info ly"
    "ly_deletes n ly' c info = ly_deletes n ly c info"
  using assms by (simp_all add: same_config_def ly_txCid_def ly_newTx_def ly_newRx_def ly_deletes_def)

lemma same_config_steps:
  assumes "same_config ly ly'"
  shows "tx_conn_step ly' c ev st = tx_conn_step ly c ev st" "rx_conn_step ly' c ev st' = rx_conn_step ly c ev st'"
  unfolding tx_conn_step_def rx_conn_step_def conn_delete_def same_config_parts[OF assms] by (rule refl)+

lemma ly_account_same:
  "ly_tx (ly_account info effs ly) = ly_tx ly \<and> ly_rx (ly_account info effs ly) = ly_rx ly \<and> same_config ly (ly_account info effs ly)"
  by (induction effs arbitrary: ly) (auto simp: ly_account_def ly_addUeThroughput_def same_config_def split: um_rx_effect.split)

definition split_ok :: "um_layer \<Rightarrow> simtime \<times> ly_event \<Rightarrow> um_layer \<Rightarrow> ly_output list \<Rightarrow> bool" where
  "split_ok ly ev ly' outs = (same_config ly ly' \<and> (\<forall>c. tx_conn_step ly c ev (ly_tx ly c) = Inr (ly_tx ly' c, tx_outputs c outs)
     \<and> rx_conn_step ly c ev (ly_rx ly c) = Inr (ly_rx ly' c, rx_outputs c outs)))"

text \<open>
  Connections of one peer are coupled only while one of them is to notify the others when its buffer is empty. That begins with a
  switch of the mode on the sending side of the old connection that keeps the buffer.
\<close>

definition ly_calm :: "um_layer \<Rightarrow> bool" where
  "ly_calm ly = (\<forall>c fl ut. ly_tx ly c = Some (fl, ut) \<longrightarrow> \<not> ut_notifyEmptyBuffer ut)"

fun ly_couples :: "ly_event \<Rightarrow> bool" where
  "ly_couples (Ly_Switch info sw) = (sw_txSide sw \<and> sw_oldConnection sw \<and> \<not> sw_clearRlcBuffer sw)"
| "ly_couples _ = False"

definition tx_calm :: "(um_tx \<Rightarrow> (um_tx \<times> um_tx_effect list) cpp) \<Rightarrow> bool" where
  "tx_calm f = (\<forall>ut ut' effs. \<not> ut_notifyEmptyBuffer ut \<longrightarrow> f ut = Inr (ut', effs) \<longrightarrow>
     \<not> ut_notifyEmptyBuffer ut' \<and> Resume_Downstream_Peer \<notin> set effs)"

lemma ut_fill_notify: "ut_fill space pdu ut = Inr (ut', pdu', e) \<Longrightarrow> ut_notifyEmptyBuffer ut' = ut_notifyEmptyBuffer ut"
proof (induction space pdu ut rule: ut_fill.induct)
  case (1 space pdu ut)
  from 1(2) show ?case
    by (subst (asm) ut_fill.simps) (auto split: list.splits if_splits sum.splits dest: 1(1))
qed

lemma tx_calm_calls:
  "tx_calm (ly_putTx sdu)" "tx_calm (ut_rlcPduMake n)"
  "\<not> (old \<and> \<not> clear) \<Longrightarrow> tx_calm (\<lambda>ut. Inr (ut_rlcHandleD2DModeSwitch emptying old clear ut, []))"
  by (auto simp: tx_calm_def ly_putTx_def ut_enqueHoldingPackets_def ut_enque_def ut_rlcHandleD2DModeSwitch_def ut_clearQueue_def
      ut_startHoldingDownstreamInPackets_def Let_def split: if_splits)
    (auto simp: ut_rlcPduMake_def ut_burst_def Let_def elim!: cpp_bindE dest!: ut_fill_notify split: if_splits prod.splits)

text \<open>A call for a connection that may have to be made first.\<close>

lemma calm_not_emptying: "ly_calm ly \<Longrightarrow> \<not> ly_isEmptyingTxBuffer peer ly"
  by (auto simp: ly_isEmptyingTxBuffer_def ly_calm_def list_ex_iff split: option.splits)

lemma ly_getTx_new:
  assumes "ly_calm ly" "ly_getTxBuffer info ly = Inr (cid, ly1)"
  shows "ly_txCid info ly = Inr cid \<and> same_config ly ly1 \<and> ly_rx ly1 = ly_rx ly \<and> ly_calm ly1
    \<and> ly_tx ly1 = (case ly_tx ly cid of None \<Rightarrow> (ly_tx ly)(cid \<mapsto> (info, ly_newTx info ly)) | Some x \<Rightarrow> ly_tx ly)"
proof -
  have new: "\<not> ut_notifyEmptyBuffer (ly_newTx info ly)" by (simp add: ly_newTx_def ut_new_def)
  let ?tx = "\<lambda>c. (ly_tx ly)(c \<mapsto> (info, ly_newTx info ly))"
  obtain cid' where c: "ly_txCid info ly = Inr cid'" using assms(2) by (auto simp: ly_getTxBuffer_def cpp_bind_Inr_iff)
  show ?thesis
  proof (cases "ly_tx ly cid'")
    case None
    have calm: "ly_calm ly2" if "ly_tx ly2 = ?tx cid'" for ly2 using assms(1) new that by (simp add: ly_calm_def)
    have "cid = cid' \<and> ly_tx ly1 = ?tx cid' \<and> ly_rx ly1 = ly_rx ly \<and> same_config ly ly1"
      using assms(2) None c by (auto simp: ly_getTxBuffer_def Let_def calm_not_emptying calm same_config_def split: if_splits)
    then show ?thesis using None c calm by simp
  next
    case (Some x)
    then have "cid = cid'" "ly1 = ly" using assms(2) c by (simp_all add: ly_getTxBuffer_def)
    then show ?thesis using Some c assms(1) by (simp add: same_config_def)
  qed
qed

lemma ly_getTx_call:
  assumes "ly_calm ly" "ly_getTxBuffer info ly = Inr (cid, ly1)" "ly_callTx cid f ly1 = Inr (ly2, outs)" "tx_calm f"
  shows "ly_txCid info ly = Inr cid \<and> same_config ly ly2 \<and> ly_calm ly2 \<and> ly_rx ly2 = ly_rx ly \<and> (\<forall>c. rx_outputs c outs = [])
    \<and> conn_call (ly_newTx info ly) f (ly_tx ly cid) info = Inr (ly_tx ly2 cid, tx_outputs cid outs)
    \<and> (\<forall>c. c \<noteq> cid \<longrightarrow> ly_tx ly2 c = ly_tx ly c \<and> tx_outputs c outs = [])
    \<and> (\<forall>c fl. Tx_Output c fl Resume_Downstream_Peer \<notin> set outs)"
proof -
  note n = ly_getTx_new[OF assms(1,2)]
  obtain fl ut ut' effs where c: "ly_tx ly1 cid = Some (fl, ut)" "f ut = Inr (ut', effs)"
    "ly2 = ly1\<lparr>ly_tx := (ly_tx ly1)(cid \<mapsto> (fl, ut'))\<rparr>" "outs = map (Tx_Output cid fl) effs"
    using assms(3) by (auto simp: ly_callTx_def cpp_bind_Inr_iff split: option.splits prod.splits)
  have "\<not> ut_notifyEmptyBuffer ut" using n c(1) unfolding ly_calm_def by blast
  with assms(4) c(2) have k: "\<not> ut_notifyEmptyBuffer ut'" "Resume_Downstream_Peer \<notin> set effs" unfolding tx_calm_def by blast+
  have "(case ly_tx ly cid of None \<Rightarrow> (info, ly_newTx info ly) | Some x \<Rightarrow> x) = (fl, ut)" using n c(1) by (auto split: option.splits)
  then have "conn_call (ly_newTx info ly) f (ly_tx ly cid) info = Inr (ly_tx ly2 cid, tx_outputs cid outs)"
    using c by (simp add: conn_call_def)
  moreover have "\<forall>c. c \<noteq> cid \<longrightarrow> ly_tx ly2 c = ly_tx ly c" using n c(3) by (auto split: option.splits)
  moreover have "ly_calm ly2" using n k(1) c(3) by (auto simp: ly_calm_def)
  moreover have "same_config ly ly2" using n c(3) by (simp add: same_config_def)
  ultimately show ?thesis using n k(2) c(3,4) by auto
qed

lemma ly_getRx_call:
  assumes "ly_getRxBuffer info ly = (cid, ly1)" "ly_callRx cid f ly1 = Inr (ly2, outs)"
  shows "ly_rxCid info = cid \<and> same_config ly ly2 \<and> (ly_calm ly \<longrightarrow> ly_calm ly2) \<and> ly_tx ly2 = ly_tx ly \<and> (\<forall>c. tx_outputs c outs = [])
    \<and> conn_call (ly_newRx info ly) f (ly_rx ly cid) info = Inr (ly_rx ly2 cid, rx_outputs cid outs)
    \<and> (\<forall>c. c \<noteq> cid \<longrightarrow> ly_rx ly2 c = ly_rx ly c \<and> rx_outputs c outs = [])"
proof -
  have "same_config ly ly1 \<and> ly_tx ly1 = ly_tx ly \<and> ly_rxCid info = cid
      \<and> ly_rx ly1 cid = Some (case ly_rx ly cid of None \<Rightarrow> (info, ly_newRx info ly) | Some x \<Rightarrow> x) \<and> (\<forall>c. c \<noteq> cid \<longrightarrow> ly_rx ly1 c = ly_rx ly c)"
    using assms(1) by (auto simp: ly_getRxBuffer_def same_config_def Let_def split: if_splits option.split)
  note a = this
  obtain fl ur ur' effs where b: "ly_rx ly1 cid = Some (fl, ur)" "f ur = Inr (ur', effs)"
      "ly2 = ly_account fl effs (ly1\<lparr>ly_rx := (ly_rx ly1)(cid \<mapsto> (fl, ur'))\<rparr>)" "outs = map (Rx_Output cid fl) effs"
    using assms(2) by (auto simp: ly_callRx_def cpp_bind_Inr_iff split: option.splits prod.splits)
  let ?ly = "ly1\<lparr>ly_rx := (ly_rx ly1)(cid \<mapsto> (fl, ur'))\<rparr>"
  have e: "(case ly_rx ly cid of None \<Rightarrow> (info, ly_newRx info ly) | Some x \<Rightarrow> x) = (fl, ur)" using a b(1) by simp
  have "same_config ly ?ly" using a by (simp add: same_config_def)
  with ly_account_same[of fl effs ?ly] have c: "same_config ly ly2" "ly_tx ly2 = ly_tx ly1" "ly_rx ly2 = ly_rx ?ly"
    unfolding b(3) by (auto intro: same_config_trans)
  have "conn_call (ly_newRx info ly) f (ly_rx ly cid) info = Inr (ly_rx ly2 cid, rx_outputs cid outs)"
    unfolding conn_call_def e c(3) b(4) using b(2) by simp
  moreover have "ly_calm ly2 = ly_calm ly" using a c(2) by (simp add: ly_calm_def)
  ultimately show ?thesis using a b(4) c by auto
qed

lemma ly_step_split:
  assumes "ly_calm ly" "ly_step ev ly = Inr (ly', outs)" "\<not> ly_couples (snd ev)"
  shows "split_ok ly ev ly' outs \<and> ly_calm ly'"
proof -
  obtain now e where ev: "ev = (now, e)" by fastforce
  show ?thesis
  proof (cases e)
    case (Ly_Upper info sdu)
    then obtain cid ly1 where "ly_getTxBuffer info ly = Inr (cid, ly1)" "ly_callTx cid (ly_putTx sdu) ly1 = Inr (ly', outs)"
      using assms(2) by (auto simp: ev ly_step_def ly_handleUpperMessage_def cpp_bind_Inr_iff)
    from ly_getTx_call[OF assms(1) this tx_calm_calls(1)] show ?thesis
      by (auto simp: split_ok_def ev Ly_Upper tx_conn_step_def rx_conn_step_def)
  next
    case (Ly_Request info sz)
    then obtain cid ly1 ly2 e2 where a: "ly_getTxBuffer info ly = Inr (cid, ly1)" "ly_callTx cid (ut_rlcPduMake (sint sz)) ly1 = Inr (ly2, e2)"
      and b: "(if list_ex (\<lambda>out. case out of Tx_Output _ _ Resume_Downstream_Peer \<Rightarrow> True | _ \<Rightarrow> False) e2
        then cpp_bind (ly_resumeDownstreamInPackets (case ly_tx ly2 cid of None \<Rightarrow> 0 | Some (fl, _) \<Rightarrow> fl_d2dRxPeerId fl) ly2)
            (\<lambda>(ly3, e3). Inr (ly3, e2 @ e3)) else Inr (ly2, e2)) = Inr (ly', outs)"
      using assms(2) by (auto simp: ev ly_step_def ly_handleLowerMessage_def ly_sduRequest_def cpp_bind_Inr_iff)
    note c = ly_getTx_call[OF assms(1) a tx_calm_calls(2)]
    then have "\<not> list_ex (\<lambda>out. case out of Tx_Output _ _ Resume_Downstream_Peer \<Rightarrow> True | _ \<Rightarrow> False) e2"
      by (auto simp: list_ex_iff split: ly_output.splits um_tx_effect.splits)
    then have "ly' = ly2" "outs = e2" using b by simp_all
    with c show ?thesis by (auto simp: split_ok_def ev Ly_Request tx_conn_step_def rx_conn_step_def)
  next
    case (Ly_Data info pdu)
    then obtain cid ly1 where "ly_getRxBuffer info ly = (cid, ly1)" "ly_callRx cid (ur_enque now pdu) ly1 = Inr (ly', outs)"
      using assms(2) by (auto simp: ev ly_step_def ly_handleLowerMessage_def ly_dataPdu_def split: prod.splits)
    from ly_getRx_call[OF this] show ?thesis using assms(1)
      by (auto simp: split_ok_def ev Ly_Data tx_conn_step_def rx_conn_step_def)
  next
    case (Ly_Switch info sw)
    have m: "ly_modeSwitch info sw ly = Inr (ly', outs)"
      using assms(2) by (simp add: ev Ly_Switch ly_step_def ly_handleLowerMessage_def split: if_splits)
    show ?thesis
    proof (cases "sw_txSide sw")
      case True
      let ?f = "\<lambda>e ut. Inr (ut_rlcHandleD2DModeSwitch e (sw_oldConnection sw) (sw_clearRlcBuffer sw) ut, [])"
      obtain cid ly1 where g: "ly_getTxBuffer info ly = Inr (cid, ly1)" and
        c: "ly_callTx cid (?f (ly_isEmptyingTxBuffer (case ly_tx ly1 cid of None \<Rightarrow> 0 | Some (fl, _) \<Rightarrow> fl_d2dRxPeerId fl) ly1)) ly1 = Inr (ly', outs)"
        using m True by (auto simp: ly_modeSwitch_def cpp_bind_Inr_iff)
      have "ly_calm ly1" using ly_getTx_new[OF assms(1) g] by blast
      then have "ly_callTx cid (?f False) ly1 = Inr (ly', outs)" using c by (simp add: calm_not_emptying)
      moreover have "tx_calm (?f False)" by (rule tx_calm_calls(3)) (use assms(3) True in \<open>simp add: ev Ly_Switch\<close>)
      ultimately show ?thesis using ly_getTx_call[OF assms(1) g] True
        by (auto simp: split_ok_def ev Ly_Switch tx_conn_step_def rx_conn_step_def)
    next
      case False
      then obtain cid ly1 where "ly_getRxBuffer info ly = (cid, ly1)"
        "ly_callRx cid (ur_rlcHandleD2DModeSwitch (sw_oldConnection sw) (sw_oldModeIsIM sw) (sw_clearRlcBuffer sw)) ly1 = Inr (ly', outs)"
        using m by (auto simp: ly_modeSwitch_def split: prod.splits)
      from ly_getRx_call[OF this] show ?thesis using False assms(1)
        by (auto simp: split_ok_def ev Ly_Switch tx_conn_step_def rx_conn_step_def)
    qed
  next
    case (Ly_Timer cid)
    show ?thesis
    proof (cases "ly_rx ly cid")
      case None
      then show ?thesis using assms(1,2)
        by (auto simp: split_ok_def ev Ly_Timer tx_conn_step_def rx_conn_step_def ly_step_def ly_timer_def same_config_def)
    next
      case (Some x)
      obtain fl ur where x: "x = (fl, ur)" by fastforce
      show ?thesis
      proof (cases "ur_reordering ur = None")
        case True
        then show ?thesis using assms(1,2) Some x
          by (auto simp: split_ok_def ev Ly_Timer tx_conn_step_def rx_conn_step_def ly_step_def ly_timer_def same_config_def)
      next
        case False
        then have "ly_callRx cid (ur_handleTimer now) ly = Inr (ly', outs)"
          using assms(2) Some x by (auto simp: ev Ly_Timer ly_step_def ly_timer_def)
        then obtain ur' effs where r: "ur_handleTimer now ur = Inr (ur', effs)" "outs = map (Rx_Output cid fl) effs"
          "ly' = ly_account fl effs (ly\<lparr>ly_rx := (ly_rx ly)(cid \<mapsto> (fl, ur'))\<rparr>)"
          using Some x by (auto simp: ly_callRx_def cpp_bind_Inr_iff)
        have "same_config ly (ly\<lparr>ly_rx := (ly_rx ly)(cid \<mapsto> (fl, ur'))\<rparr>)" by (simp add: same_config_def)
        with r False Some x assms(1) ly_account_same[of fl effs "ly\<lparr>ly_rx := (ly_rx ly)(cid \<mapsto> (fl, ur'))\<rparr>"] show ?thesis
          by (auto simp: ly_calm_def split_ok_def ev Ly_Timer tx_conn_step_def rx_conn_step_def conn_call_def intro: same_config_trans)
      qed
    qed
  next
    case (Ly_Delete n)
    then have "ly' = ly_deleteQueues n ly" "outs = []" using assms(2) by (simp_all add: ev ly_step_def)
    then show ?thesis using assms(1)
      by (auto simp: ly_calm_def split_ok_def ev Ly_Delete tx_conn_step_def rx_conn_step_def conn_delete_def ly_deleteQueues_def same_config_def
          split: option.splits if_splits)
  qed
qed

lemma ly_run_split:
  assumes "ly_calm ly" "list_all (\<lambda>ev. \<not> ly_couples (snd ev)) evs" "same_config ly0 ly" "ly_run evs ly = Inr (ly', outs)"
  shows "conn_run (tx_conn_step ly0 c) evs (ly_tx ly c) = Inr (ly_tx ly' c, tx_outputs c outs)
    \<and> conn_run (rx_conn_step ly0 c) evs (ly_rx ly c) = Inr (ly_rx ly' c, rx_outputs c outs)"
  using assms
proof (induction evs arbitrary: ly outs)
  case (Cons ev evs)
  obtain ly1 e1 e2 where s: "ly_step ev ly = Inr (ly1, e1)" "ly_run evs ly1 = Inr (ly', e2)" "outs = e1 @ e2"
    using Cons.prems(4) by (auto simp: cpp_bind_Inr_iff)
  have k: "split_ok ly ev ly1 e1" "ly_calm ly1" using ly_step_split[OF Cons.prems(1) s(1)] Cons.prems(2) by simp_all
  then have "same_config ly ly1" by (simp add: split_ok_def)
  then have c: "same_config ly0 ly1" by (rule same_config_trans[OF Cons.prems(3)])
  have "list_all (\<lambda>ev. \<not> ly_couples (snd ev)) evs" using Cons.prems(2) by simp
  from Cons.IH[OF k(2) this c s(2)] k(1) same_config_steps[OF Cons.prems(3)] show ?case
    by (simp add: split_ok_def s(3))
qed simp

end
