(* ===== verification/Rlc_Properties.thy ===== *)
theory Rlc_Properties
  imports Rlc_Um_Link Rlc_Um_Layer
begin

text \<open>
  What the two RLC entities promise together, over a channel that loses nothing and over one
  that may do anything with the PDUs, and what the PDUs of the transmitting one hold.
\<close>

section \<open>An example\<close>

text \<open>Three SDUs, cut into four PDUs; the second PDU is lost and the last one arrives before the third.\<close>

definition rx_sdu :: "nat \<Rightarrow> nat \<Rightarrow> rlc_sdu" where
  "rx_sdu n len = \<lparr>rs_pkt = n, rs_sno = of_nat n, rs_length = len, rs_byteLength = len\<rparr>"

definition rx_start :: um_link where
  "rx_start = ul_new (ut_new 0 DL UE False) (ur_new 4 (1 / 10) DL True)"

definition rx_puts :: "(simtime \<times> um_event) list" where
  "rx_puts = [(0, Um_Put (rx_sdu 0 5)), (0, Um_Put (rx_sdu 1 6)), (0, Um_Put (rx_sdu 2 3)),
     (1, Um_Grant 7), (1, Um_Grant 6), (1, Um_Grant 4), (1, Um_Grant 5)]"

section \<open>The properties\<close>

text \<open>
  C31. Over a channel that delivers every PDU as soon as it is sent, the entities never fail, and at any
  time the SDUs given to PDCP, followed by those that wait in the queue, are the SDUs accepted:
  nothing is lost, repeated or reordered, whatever the sizes of the grants.
\<close>

lemma rlc_lossless:
  assumes "0 < wsize" "unat wsize < 2 ^ 31" "length evs < 2 ^ 31" "list_all ev_ok evs"
  shows "\<exists>l. ul_perfect_run evs (ul_new (ut_new q dir node mgr) (ur_new wsize t dir' ue)) = Inr l
    \<and> ul_accepted l = ul_delivered l @ ut_sduQueue (ul_tx l)"
proof -
  let ?l = "ul_new (ut_new q dir node mgr) (ur_new wsize t dir' ue)"
  have "perfect_ok ?l" using link_new[OF assms(1,2)] by (simp add: perfect_ok_def ul_new_def ur_new_def)
  from ul_perfect_run_ok[OF this assms(4)] assms(3) obtain l where "ul_perfect_run evs ?l = Inr l" "perfect_ok l"
    by (auto simp: ul_new_def)
  then show ?thesis by (auto simp: perfect_ok_def link_ok_def tx_stream_def out_exact_def)
qed

text \<open>
  C32. Over a channel that may lose, repeat and reorder PDUs in any way, with the reordering timer
  going off at any time, the entities never fail (no slot out of range, no slot used twice, no SDU reassembled
  to a wrong length), and the SDUs given to PDCP are some of the accepted ones, in their order.
\<close>

lemma rlc_any_channel:
  assumes "0 < wsize" "unat wsize < 2 ^ 31" "length evs < 2 ^ 31" "list_all ev_ok evs"
  shows "\<exists>l. ul_run evs (ul_new (ut_new q dir node mgr) (ur_new wsize t dir' ue)) = Inr l
    \<and> subseq (ul_delivered l) (ul_accepted l)"
proof -
  let ?l = "ul_new (ut_new q dir node mgr) (ur_new wsize t dir' ue)"
  from ul_run_new[OF assms] obtain l where l: "ul_run evs ?l = Inr l" "link_ok l" by blast
  let ?n = "length (ul_air l)"
  have a: "ul_accepted l = dones (ul_air l) ?n @ ut_sduQueue (ul_tx l)" using l(2) by (simp add: link_ok_def tx_stream_def)
  have o: "subseq (ul_delivered l) (dones (ul_air l) (ur_next (ul_rx l)))" "ur_next (ul_rx l) \<le> ?n"
    using l(2) by (simp_all add: link_ok_def rx_ok_def window_ok_def out_ok_def)
  from dones_prefix[OF o(2)] obtain xs where "dones (ul_air l) ?n = dones (ul_air l) (ur_next (ul_rx l)) @ xs" by blast
  with a o(1) have "subseq (ul_delivered l) (ul_accepted l)" by (auto intro: list_emb_append2)
  with l(1) show ?thesis by blast
qed

text \<open>
  C33. In every state such a run reaches, the numbers of the window are in order and within the window,
  only slots of numbers not yet taken up and below the highest one hold a PDU, and the reordering
  timer runs exactly while a number below the highest is missing.
\<close>

lemma rlc_window:
  assumes "0 < wsize" "unat wsize < 2 ^ 31" "length evs < 2 ^ 31" "list_all ev_ok evs"
    and "ul_run evs (ul_new (ut_new q dir node mgr) (ur_new wsize t dir' ue)) = Inr l" "ur = ul_rx l"
  shows "ur_first ur \<le> ur_next ur \<and> ur_next ur \<le> ur_high ur \<and> ur_high ur \<le> ur_first ur + ur_wsize ur
    \<and> ur_received ur = map (\<lambda>s. s \<noteq> None) (ur_pduBuffer ur)
    \<and> (\<forall>i < length (ur_pduBuffer ur). ur_pduBuffer ur ! i \<noteq> None \<longrightarrow> ur_next ur \<le> ur_first ur + i \<and> ur_first ur + i < ur_high ur)
    \<and> (ur_reordering ur \<noteq> None) = (ur_next ur < ur_high ur)"
proof -
  have "link_ok l" using ul_run_new[OF assms(1-4), of q dir node mgr t dir' ue] assms(5) by simp
  then have r: "rx_ok (ul_air l) ur (ul_delivered l)" by (simp add: link_ok_def assms(6))
  then have s: "slots_ok (ul_air l) (ur_next ur) (ur_high ur) ur" by (simp add: rx_ok_def window_ok_def)
  have "ur_first ur \<le> ur_next ur" "ur_next ur \<le> ur_high ur" "ur_high ur \<le> ur_first ur + ur_wsize ur"
    "(ur_reordering ur \<noteq> None) = (ur_next ur < ur_high ur)"
    using r by (simp_all add: rx_ok_def window_ok_def timer_ok_def)
  moreover have "ur_received ur = map (\<lambda>s. s \<noteq> None) (ur_pduBuffer ur)" using s by (simp add: slots_ok_def)
  moreover have "\<forall>i < length (ur_pduBuffer ur). ur_pduBuffer ur ! i \<noteq> None \<longrightarrow> ur_next ur \<le> ur_first ur + i \<and> ur_first ur + i < ur_high ur"
    using slots_okD(2,3)[OF s] by blast
  ultimately show ?thesis by blast
qed

text \<open>
  C34. A grant of \<open>n\<close> bytes takes exactly the next \<open>n - 2\<close> bytes of the queue, or all that are left. When there are some, exactly
  one PDU is sent: it holds these bytes in their order behind a header of two bytes, is never longer than the grant and
  takes the next number. When there are none, or the grant has no room behind the header, no PDU is sent and no number is used up. The rest stays
  queued. So the queue of SDUs refines a queue of bytes.
\<close>

lemma rlc_pdu_bytes:
  assumes "tx_ok ut"
  shows "\<exists>ut' effs taken. ut_rlcPduMake n ut = Inr (ut', effs) \<and> tx_ok ut'
    \<and> taken = take (nat (n - RLC_HEADER_UM)) (tx_bytes ut) \<and> tx_bytes ut' = drop (nat (n - RLC_HEADER_UM)) (tx_bytes ut)
    \<and> (if taken = [] then pdus_of effs = [] \<and> ut_sno ut' = ut_sno ut
       else \<exists>pdu. pdus_of effs = [pdu] \<and> pdu_bytes ut pdu = taken \<and> up_rlcPduLength pdu = RLC_HEADER_UM + int (length taken)
         \<and> up_rlcPduLength pdu \<le> n \<and> up_sno pdu = ut_sno ut \<and> ut_sno ut' = ut_sno ut + 1)"
proof -
  from ut_rlcPduMake_cases[OF assms, of n] obtain ut1 xs d e pdu ut' effs where
    f: "filled (n - RLC_HEADER_UM) ut ut1 xs e d" and p: "up_sdus pdu = xs" "up_rlcPduLength pdu = RLC_HEADER_UM + int (sum_list (map snd xs))"
    "ut_rlcPduMake n ut = Inr (ut', effs)" "pdus_of effs = (if xs = [] then [] else [pdu])" "same_queue ut1 ut'"
    "ut_sno ut' = (if xs = [] then ut_sno ut else ut_sno ut + 1)" "xs \<noteq> [] \<longrightarrow> up_sno pdu = ut_sno ut" by metis
  define taken where "taken = take (nat (n - RLC_HEADER_UM)) (tx_bytes ut)"
  have b: "pdu_bytes ut pdu = taken" "tx_bytes ut1 = drop (nat (n - RLC_HEADER_UM)) (tx_bytes ut)"
    using filled_bytes[OF f] p(1) by (simp_all add: pdu_bytes_def taken_def)
  have s: "tx_ok ut1" "int (sum_list (map snd xs)) \<le> max 0 (n - RLC_HEADER_UM)" "list_all (\<lambda>x. 0 < snd x \<and> rs_length (fst x) < 2 ^ 32) xs"
    using f unfolding filled_def by blast+
  have len: "length taken = sum_list (map snd xs)" using p(1) by (simp add: chunk_bytes_length pdu_bytes_def flip: b(1))
  have some: "taken = [] \<longleftrightarrow> xs = []" using len s(3) by (cases xs) auto
  have "tx_ok ut'" "tx_bytes ut' = tx_bytes ut1" using s(1) same_queueD[OF p(5)] by (simp_all add: tx_bytes_def)
  moreover have "up_rlcPduLength pdu \<le> n" if "taken \<noteq> []" using that s(2,3) some p(2) by (cases xs) auto
  ultimately show ?thesis
    using p(2,3,4,6,7) b len some by (intro exI[of _ ut'] exI[of _ effs] exI[of _ taken]) (auto simp: taken_def)
qed

text \<open>
  C35. The reordering timer closes every gap: when no PDU arrives any more, after at most as many timer events as
  numbers are open the receiver has nothing left in its window and the timer has stopped.
\<close>

lemma rlc_timer_closes_gaps:
  assumes "0 < wsize" "unat wsize < 2 ^ 31" "length evs < 2 ^ 31" "list_all ev_ok evs"
    and "ul_run evs (ul_new (ut_new q dir node mgr) (ur_new wsize t dir' ue)) = Inr l"
    and "ur_high (ul_rx l) - ur_next (ul_rx l) \<le> length ts"
  shows "\<exists>l'. ul_run (map (\<lambda>t. (t, Um_Timer)) ts) l = Inr l' \<and> ur_reordering (ul_rx l') = None
    \<and> ur_next (ul_rx l') = ur_high (ul_rx l) \<and> list_all (\<lambda>s. s = None) (ur_pduBuffer (ul_rx l'))"
proof -
  have "link_ok l" using ul_run_new[OF assms(1-4), of q dir node mgr t dir' ue] assms(5) by simp
  from ul_timers[OF this assms(6)] obtain l' where r: "ul_run (map (\<lambda>t. (t, Um_Timer)) ts) l = Inr l'" "link_ok l'"
    "ur_high (ul_rx l') = ur_high (ul_rx l)" "ur_next (ul_rx l') = ur_high (ul_rx l)" by blast
  let ?ur = "ul_rx l'"
  have t: "timer_ok ?ur" and s: "slots_ok (ul_air l') (ur_next ?ur) (ur_high ?ur) ?ur"
    using r(2) by (simp_all add: link_ok_def rx_ok_def window_ok_def)
  have "ur_pduBuffer ?ur ! i = None" if "i < length (ur_pduBuffer ?ur)" for i
    using slots_okD(2,3)[OF s that] r(3,4) by (cases "ur_pduBuffer ?ur ! i") fastforce+
  then have "list_all (\<lambda>s. s = None) (ur_pduBuffer ?ur)" by (simp add: list_all_length)
  moreover have "ur_reordering ?ur = None" using t r(3,4) by (simp add: timer_ok_def)
  ultimately show ?thesis using r(1,4) by blast
qed

text \<open>
  C36. The UM module, of either class, is its connections side by side: after any sequence of messages, timer events, handovers and
  switches of the mode from its start, the two entities of every connection, and what they have put out, are those of an entity that
  has only seen the events of that connection. Only a switch on the sending side of the old connection that keeps its buffer is
  left out: the connections of a peer are coupled until that buffer is empty.
\<close>

lemma rlc_layer_connections:
  assumes "\<forall>c. ly_tx ly c = None" "list_all (\<lambda>ev. \<not> ly_couples (snd ev)) evs" "ly_run evs ly = Inr (ly', outs)"
  shows "conn_run (tx_conn_step ly c) evs (ly_tx ly c) = Inr (ly_tx ly' c, tx_outputs c outs)
    \<and> conn_run (rx_conn_step ly c) evs (ly_rx ly c) = Inr (ly_rx ly' c, rx_outputs c outs)"
proof -
  have "ly_calm ly" using assms(1) by (simp add: ly_calm_def)
  from ly_run_split[OF this assms(2) _ assms(3)] show ?thesis by (simp add: same_config_def)
qed

section \<open>Witnesses\<close>

definition rx_arrivals :: "(simtime \<times> um_event) list" where
  "rx_arrivals = rx_puts @ [(2, Um_Arrive 0), (2, Um_Arrive 3), (2, Um_Arrive 2), (2, Um_Arrive 2)]"

lemma rx_events_ok: "list_all ev_ok rx_puts" "list_all ev_ok rx_arrivals" "length rx_puts < 2 ^ 31" "length rx_arrivals < 2 ^ 31"
  by (simp_all add: rx_puts_def rx_arrivals_def ev_ok_def sdu_ok_def rx_sdu_def)

lemma rx_window_size: "0 < (4 :: 32 word)" "unat (4 :: 32 word) < 2 ^ 31"
  by simp_all

lemma rlc_lossless_witness:
  "\<exists>l. ul_perfect_run rx_puts rx_start = Inr l \<and> ul_accepted l = ul_delivered l @ ut_sduQueue (ul_tx l)"
  unfolding rx_start_def by (rule rlc_lossless[OF rx_window_size rx_events_ok(3,1)])

lemma rlc_any_channel_witness:
  "\<exists>l. ul_run rx_arrivals rx_start = Inr l \<and> subseq (ul_delivered l) (ul_accepted l)"
  unfolding rx_start_def by (rule rlc_any_channel[OF rx_window_size rx_events_ok(4,2)])

lemma rlc_window_witness:
  "\<exists>l. ul_run rx_arrivals rx_start = Inr l \<and> ur_next (ul_rx l) \<le> ur_high (ul_rx l)
    \<and> (ur_reordering (ul_rx l) \<noteq> None) = (ur_next (ul_rx l) < ur_high (ul_rx l))"
proof -
  obtain l where l: "ul_run rx_arrivals rx_start = Inr l"
    using ul_run_new[OF rx_window_size rx_events_ok(4,2)] unfolding rx_start_def by blast
  from rlc_window[OF rx_window_size rx_events_ok(4,2) l[unfolded rx_start_def] refl] l show ?thesis by blast
qed

lemma rlc_timer_closes_gaps_witness:
  "\<exists>l l' ts. ul_run rx_arrivals rx_start = Inr l \<and> ul_run (map (\<lambda>t. (t, Um_Timer)) ts) l = Inr l'
    \<and> ur_reordering (ul_rx l') = None \<and> list_all (\<lambda>s. s = None) (ur_pduBuffer (ul_rx l'))"
proof -
  obtain l where l: "ul_run rx_arrivals rx_start = Inr l"
    using ul_run_new[OF rx_window_size rx_events_ok(4,2)] unfolding rx_start_def by blast
  have "ur_high (ul_rx l) - ur_next (ul_rx l) \<le> length (replicate (ur_high (ul_rx l) - ur_next (ul_rx l)) (3 :: simtime))" by simp
  from rlc_timer_closes_gaps[OF rx_window_size rx_events_ok(4,2) l[unfolded rx_start_def] this] l show ?thesis by blast
qed

text \<open>A queue of two SDUs, the first of which has been sent up to its last two bytes.\<close>

definition rx_queue :: um_tx where
  "rx_queue = (ut_new 0 DL UE False)\<lparr>ut_sduQueue := [rx_sdu 0 5, rx_sdu 1 6], ut_queueLength := 11, ut_sno := 1,
     ut_fragmentInfo := Some (0, 2), ut_firstIsFragment := True\<rparr>"

lemma rlc_pdu_bytes_witness:
  "\<exists>ut' effs pdu. ut_rlcPduMake 7 rx_queue = Inr (ut', effs) \<and> pdus_of effs = [pdu] \<and> up_rlcPduLength pdu = 7
    \<and> pdu_bytes rx_queue pdu = [(rx_sdu 0 5, 3), (rx_sdu 0 5, 4), (rx_sdu 1 6, 0), (rx_sdu 1 6, 1), (rx_sdu 1 6, 2)]
    \<and> tx_bytes ut' = [(rx_sdu 1 6, 3), (rx_sdu 1 6, 4), (rx_sdu 1 6, 5)]"
proof -
  have q: "tx_ok rx_queue" by (simp add: rx_queue_def ut_new_def tx_ok_def sdu_ok_def rx_sdu_def)
  have "tx_bytes rx_queue = [(rx_sdu 0 5, 3), (rx_sdu 0 5, 4), (rx_sdu 1 6, 0), (rx_sdu 1 6, 1), (rx_sdu 1 6, 2), (rx_sdu 1 6, 3),
      (rx_sdu 1 6, 4), (rx_sdu 1 6, 5)]"
    by (simp add: rx_queue_def ut_new_def tx_bytes_def ut_carry_def queued_bytes_def carry_offset_def sdu_bytes_def rx_sdu_def upt_rec)
  then show ?thesis using rlc_pdu_bytes[OF q, of 7] unfolding RLC_HEADER_UM_def by auto
qed

text \<open>Two connections of one UE at a base station.\<close>

definition rx_layer :: um_layer where
  "rx_layer = \<lparr>ly_tx = (\<lambda>_. None), ly_rx = (\<lambda>_. None), ly_perPeer = (\<lambda>_. None), ly_ulThroughput = (\<lambda>_. None), ly_d2d = False,
     ly_mapAllLcidsToSingleBearer = False, ly_nodeType = ENODEB, ly_queueSize = 0, ly_rxWindowSize = 4, ly_timeout = 1 / 10,
     ly_packetFlowManager = False\<rparr>"

definition rx_flow :: "logical_cid \<Rightarrow> flow_info" where
  "rx_flow l = \<lparr>fl_direction = DL, fl_sourceId = 1, fl_destId = 7, fl_lcid = l, fl_d2dRxPeerId = 0\<rparr>"

definition rx_layer_events :: "(simtime \<times> ly_event) list" where
  "rx_layer_events = [(0, Ly_Upper (rx_flow 3) (rx_sdu 0 5)), (0, Ly_Upper (rx_flow 4) (rx_sdu 1 6))]"

lemma rx_layer_run:
  "\<exists>ly'. ly_run rx_layer_events rx_layer = Inr (ly', [Tx_Output (idToMacCid 7 3) (rx_flow 3) (Send_New_Data (rx_sdu 0 5)),
     Tx_Output (idToMacCid 7 4) (rx_flow 4) (Send_New_Data (rx_sdu 1 6))])"
  by (simp add: rx_layer_events_def rx_layer_def rx_flow_def ly_step_def ly_handleUpperMessage_def ly_getTxBuffer_def ly_txCid_def
      ctrlInfoToUeId_def ly_callTx_def ly_putTx_def ly_newTx_def ut_new_def ut_enque_def idToMacCid_inject)

lemma rlc_layer_connections_witness:
  "\<exists>st. conn_run (tx_conn_step rx_layer (idToMacCid 7 4)) rx_layer_events None = Inr (st, [Send_New_Data (rx_sdu 1 6)])"
proof -
  obtain ly' where l: "ly_run rx_layer_events rx_layer = Inr (ly', [Tx_Output (idToMacCid 7 3) (rx_flow 3) (Send_New_Data (rx_sdu 0 5)),
     Tx_Output (idToMacCid 7 4) (rx_flow 4) (Send_New_Data (rx_sdu 1 6))])" using rx_layer_run by blast
  have "\<forall>c. ly_tx rx_layer c = None" "list_all (\<lambda>ev. \<not> ly_couples (snd ev)) rx_layer_events"
    by (simp_all add: rx_layer_def rx_layer_events_def)
  with rlc_layer_connections[OF _ _ l, of "idToMacCid 7 4"] show ?thesis by (simp add: idToMacCid_inject)
qed

text \<open>
  The coupling: a UE switches the peering with UE 9 from the base station to the direct link and keeps the buffer of the old
  connection. The new connection then holds its packet, which alone it would announce to the MAC layer.
\<close>

definition rx_d2d_events :: "(simtime \<times> ly_event) list" where
  "rx_d2d_events =
     (let old = (rx_flow 3)\<lparr>fl_d2dRxPeerId := 9\<rparr>; new = (rx_flow 4)\<lparr>fl_direction := D2D, fl_destId := 9, fl_d2dRxPeerId := 9\<rparr>
      in [(0, Ly_Upper old (rx_sdu 0 5)),
          (0, Ly_Switch old \<lparr>sw_txSide = True, sw_oldModeIsIM = True, sw_oldConnection = True, sw_clearRlcBuffer = False\<rparr>),
          (0, Ly_Upper new (rx_sdu 1 6))])"

lemma rlc_layer_coupled:
  "\<exists>ly' outs st. ly_run rx_d2d_events (rx_layer\<lparr>ly_d2d := True, ly_nodeType := UE\<rparr>) = Inr (ly', outs) \<and> tx_outputs (idToMacCid 9 4) outs = []
     \<and> conn_run (tx_conn_step (rx_layer\<lparr>ly_d2d := True, ly_nodeType := UE\<rparr>) (idToMacCid 9 4)) rx_d2d_events None
         = Inr (st, [Send_New_Data (rx_sdu 1 6)])"
  by (simp add: rx_d2d_events_def rx_layer_def rx_flow_def ly_step_def ly_handleUpperMessage_def ly_handleLowerMessage_def ly_modeSwitch_def
      ly_getTxBuffer_def ly_txCid_def ctrlInfoToUeId_def ly_callTx_def ly_putTx_def ly_newTx_def ut_new_def ut_enque_def idToMacCid_inject
      ly_isEmptyingTxBuffer_def ut_rlcHandleD2DModeSwitch_def is_nodeB_def ut_startHoldingDownstreamInPackets_def
      ut_enqueHoldingPackets_def tx_conn_step_def conn_call_def Let_def)

end
