(* ===== verification/Node_Registry.thy ===== *)
theory Node_Registry
  imports Harq_Packet
begin

text \<open>
  The registry of the cellular nodes, \<open>Binder\<close> (\<open>common/binder/Binder.cc\<close> and its header): node identifiers and
  their addresses, masters and slaves, the mode of the device-to-device pairs, multicast groups and running
  handovers. The parts on carriers, interference and background traffic are not modelled.

  A module is known by its OMNeT identifier. What the registry asks of the MAC module of a node, whether
  it supports device-to-device links and its initial mode, is \<open>mac_ref\<close>, looked up by node.
\<close>

definition ENB_MIN_ID :: node_id where "ENB_MIN_ID = 1"
definition ENB_MAX_ID :: node_id where "ENB_MAX_ID = 1023"
definition UE_MIN_ID :: node_id where "UE_MIN_ID = 1025"
definition NR_UE_MIN_ID :: node_id where "NR_UE_MIN_ID = 2049"
definition UE_MAX_ID :: node_id where "UE_MAX_ID = 65535"

lemmas node_id_bounds = ENB_MIN_ID_def ENB_MAX_ID_def UE_MIN_ID_def NR_UE_MIN_ID_def UE_MAX_ID_def

definition getNodeTypeById :: "node_id \<Rightarrow> ran_node_type" where
  "getNodeTypeById i = (if ENB_MIN_ID \<le> i \<and> i \<le> ENB_MAX_ID then ENODEB
     else if UE_MIN_ID \<le> i \<and> i \<le> UE_MAX_ID then UE else UNKNOWN_NODE_TYPE)"

definition isNrUe :: "node_id \<Rightarrow> bool" where
  "isNrUe i = (getNodeTypeById i = UE \<and> NR_UE_MIN_ID \<le> i)"

datatype d2d_mode = IM | DM

record mac_ref =
  mr_isD2DCapable :: bool
  mr_d2dInitialMode :: bool

record registry =
  bi_macNodeIdToIPAddress :: "32 word \<Rightarrow> node_id option"
  bi_nrMacNodeIdToIPAddress :: "32 word \<Rightarrow> node_id option"
  bi_nextHop :: "node_id list"
  bi_secondaryNodeToMasterNode :: "node_id list"
  bi_nodeIds :: "node_id \<Rightarrow> nat option"
  bi_counterEnb :: node_id
  bi_counterUe :: node_id
  bi_counterNrUe :: node_id
  bi_dMap :: "node_id \<Rightarrow> node_id \<Rightarrow> bool option"
  bi_d2dPeeringMap :: "node_id \<Rightarrow> node_id \<Rightarrow> d2d_mode option"
  bi_multicastGroupMap :: "node_id \<Rightarrow> 32 word set option"
  bi_multicastTransmitterSet :: "node_id set"
  bi_ueHandoverTriggered :: "node_id set"
  bi_handoverTriggered :: "node_id \<Rightarrow> (node_id \<times> node_id) option"

definition bi_new :: registry where
  "bi_new = \<lparr>bi_macNodeIdToIPAddress = (\<lambda>_. None), bi_nrMacNodeIdToIPAddress = (\<lambda>_. None), bi_nextHop = [],
     bi_secondaryNodeToMasterNode = [], bi_nodeIds = (\<lambda>_. None), bi_counterEnb = ENB_MIN_ID, bi_counterUe = UE_MIN_ID,
     bi_counterNrUe = NR_UE_MIN_ID, bi_dMap = (\<lambda>_ _. None), bi_d2dPeeringMap = (\<lambda>_ _. None), bi_multicastGroupMap = (\<lambda>_. None),
     bi_multicastTransmitterSet = {}, bi_ueHandoverTriggered = {}, bi_handoverTriggered = (\<lambda>_. None)\<rparr>"

section \<open>Masters and slaves\<close>

text \<open>\<open>resize(slaveId + 1)\<close> when the vector is too short, then an assignment.\<close>

definition put_grown :: "node_id list \<Rightarrow> node_id \<Rightarrow> node_id \<Rightarrow> node_id list" where
  "put_grown v i x = (if length v \<le> unat i then v @ replicate (unat i + 1 - length v) 0 else v)[unat i := x]"

definition bi_registerNextHop :: "node_id \<Rightarrow> node_id \<Rightarrow> registry \<Rightarrow> registry" where
  "bi_registerNextHop masterId slaveId b =
     (let b1 = (if masterId \<noteq> slaveId
          then b\<lparr>bi_dMap := (bi_dMap b)(masterId := (bi_dMap b masterId)(slaveId \<mapsto> True))\<rparr> else b)
      in b1\<lparr>bi_nextHop := put_grown (bi_nextHop b1) slaveId masterId\<rparr>)"

definition bi_unregisterNextHop :: "node_id \<Rightarrow> node_id \<Rightarrow> registry \<Rightarrow> registry" where
  "bi_unregisterNextHop masterId slaveId b =
     (let b1 = b\<lparr>bi_dMap := (bi_dMap b)(masterId := (bi_dMap b masterId)(slaveId \<mapsto> False))\<rparr>
      in if length (bi_nextHop b1) \<le> unat slaveId then b1 else b1\<lparr>bi_nextHop := (bi_nextHop b1)[unat slaveId := 0]\<rparr>)"

definition bi_registerMasterNode :: "node_id \<Rightarrow> node_id \<Rightarrow> registry \<Rightarrow> registry" where
  "bi_registerMasterNode masterId slaveId b =
     b\<lparr>bi_secondaryNodeToMasterNode :=
         put_grown (bi_secondaryNodeToMasterNode b) slaveId (if masterId = 0 then slaveId else masterId)\<rparr>"

definition bi_getNextHop :: "node_id \<Rightarrow> registry \<Rightarrow> node_id cpp" where
  "bi_getNextHop slaveId b = (if length (bi_nextHop b) \<le> unat slaveId
     then Inl (Runtime_Error ''Binder::getNextHop(): bad slave id'') else Inr (bi_nextHop b ! unat slaveId))"

definition bi_getMasterNode :: "node_id \<Rightarrow> registry \<Rightarrow> node_id cpp" where
  "bi_getMasterNode slaveId b = (if length (bi_secondaryNodeToMasterNode b) \<le> unat slaveId
     then Inl (Runtime_Error ''Binder::getMasterNode(): bad slave id'') else Inr (bi_secondaryNodeToMasterNode b ! unat slaveId))"

definition bi_getDeployedUes :: "node_id \<Rightarrow> registry \<Rightarrow> node_id \<Rightarrow> bool option" where
  "bi_getDeployedUes localId b = bi_dMap b localId"

section \<open>Nodes\<close>

text \<open>
  \<open>bi_registerNode\<close> takes the OMNeT identifier of the module and returns the new node identifier; the
  parameters of the module it sets are left to the caller. Any other type keeps the identifier \<open>-1\<close>.
\<close>

definition bi_registerNode :: "nat \<Rightarrow> ran_node_type \<Rightarrow> node_id \<Rightarrow> bool \<Rightarrow> registry \<Rightarrow> node_id \<times> registry" where
  "bi_registerNode omnetId type masterId registerNr b =
     (let (macNodeId, b1) = (if type = UE
            then if \<not> registerNr then (bi_counterUe b, b\<lparr>bi_counterUe := bi_counterUe b + 1\<rparr>)
                 else (bi_counterNrUe b, b\<lparr>bi_counterNrUe := bi_counterNrUe b + 1\<rparr>)
            else if type = ENODEB \<or> type = GNODEB then (bi_counterEnb b, b\<lparr>bi_counterEnb := bi_counterEnb b + 1\<rparr>)
            else (-1, b));
          b2 = b1\<lparr>bi_nodeIds := (bi_nodeIds b1)(macNodeId \<mapsto> omnetId)\<rparr>;
          b3 = (if type = UE then bi_registerNextHop masterId macNodeId b2
                else if type = ENODEB \<or> type = GNODEB
                then bi_registerMasterNode masterId macNodeId (bi_registerNextHop macNodeId macNodeId b2)
                else b2)
      in (macNodeId, b3))"

definition bi_getOmnetId :: "node_id \<Rightarrow> registry \<Rightarrow> nat" where
  "bi_getOmnetId nodeId b = (case bi_nodeIds b nodeId of None \<Rightarrow> 0 | Some i \<Rightarrow> i)"

section \<open>Addresses\<close>

definition bi_getNrMacNodeId :: "32 word \<Rightarrow> registry \<Rightarrow> node_id" where
  "bi_getNrMacNodeId address b = (case bi_nrMacNodeIdToIPAddress b address of None \<Rightarrow> 0 | Some i \<Rightarrow> i)"

definition bi_getMacNodeId :: "32 word \<Rightarrow> registry \<Rightarrow> node_id cpp" where
  "bi_getMacNodeId address b = (case bi_macNodeIdToIPAddress b address of
      None \<Rightarrow> Inr 0
    | Some nodeId \<Rightarrow> cpp_bind (bi_getNextHop nodeId b) (\<lambda>h. Inr (if h = 0 then bi_getNrMacNodeId address b else nodeId)))"

definition bi_setMacNodeId :: "32 word \<Rightarrow> node_id \<Rightarrow> registry \<Rightarrow> registry" where
  "bi_setMacNodeId address nodeId b = (if isNrUe nodeId
     then b\<lparr>bi_nrMacNodeIdToIPAddress := (bi_nrMacNodeIdToIPAddress b)(address \<mapsto> nodeId)\<rparr>
     else b\<lparr>bi_macNodeIdToIPAddress := (bi_macNodeIdToIPAddress b)(address \<mapsto> nodeId)\<rparr>)"

section \<open>Device-to-device pairs\<close>

definition bi_validUe :: "node_id \<Rightarrow> registry \<Rightarrow> bool" where
  "bi_validUe i b = (\<not> (i < UE_MIN_ID \<or> (bi_counterUe b \<le> i \<and> i < NR_UE_MIN_ID) \<or> bi_counterNrUe b \<le> i))"

definition bi_checkD2DCapability :: "(node_id \<Rightarrow> mac_ref option) \<Rightarrow> node_id \<Rightarrow> node_id \<Rightarrow> registry \<Rightarrow> (bool \<times> registry) cpp" where
  "bi_checkD2DCapability macs src dst b =
     (if \<not> bi_validUe src b \<or> \<not> bi_validUe dst b then Inl (Runtime_Error ''Binder::checkD2DCapability - Node Id not valid.'')
      else case bi_d2dPeeringMap b src dst of
        Some _ \<Rightarrow> Inr (True, b)
      | None \<Rightarrow>
          (case macs dst of
             None \<Rightarrow> Inl Undefined_Behaviour
           | Some dstMac \<Rightarrow>
               if \<not> mr_isD2DCapable dstMac then Inr (False, b)
               else cpp_bind (vec_idx (bi_nextHop b) (unat src)) (\<lambda>hs. cpp_bind (vec_idx (bi_nextHop b) (unat dst)) (\<lambda>hd.
                 if hs = hd then
                   (case macs src of
                      None \<Rightarrow> Inl Undefined_Behaviour
                    | Some srcMac \<Rightarrow> Inr (True, b\<lparr>bi_d2dPeeringMap := (bi_d2dPeeringMap b)(src :=
                        (bi_d2dPeeringMap b src)(dst \<mapsto> (if mr_d2dInitialMode srcMac then DM else IM)))\<rparr>))
                 else Inr (True, b\<lparr>bi_d2dPeeringMap := (bi_d2dPeeringMap b)(src := (bi_d2dPeeringMap b src)(dst \<mapsto> IM))\<rparr>)))))"

definition bi_getD2DCapability :: "node_id \<Rightarrow> node_id \<Rightarrow> registry \<Rightarrow> bool cpp" where
  "bi_getD2DCapability src dst b =
     (if \<not> bi_validUe src b \<or> \<not> bi_validUe dst b then Inl (Runtime_Error ''Binder::getD2DCapability - Node Id not valid.'')
      else Inr (bi_d2dPeeringMap b src dst \<noteq> None))"

text \<open>Reading the mode of a pair that is not in the map enters it, in infrastructure mode.\<close>

definition bi_getD2DMode :: "node_id \<Rightarrow> node_id \<Rightarrow> registry \<Rightarrow> (d2d_mode \<times> registry) cpp" where
  "bi_getD2DMode src dst b =
     (if \<not> bi_validUe src b \<or> \<not> bi_validUe dst b then Inl (Runtime_Error ''Binder::getD2DMode - Node Id not valid.'')
      else case bi_d2dPeeringMap b src dst of
        Some m \<Rightarrow> Inr (m, b)
      | None \<Rightarrow> Inr (IM, b\<lparr>bi_d2dPeeringMap := (bi_d2dPeeringMap b)(src := (bi_d2dPeeringMap b src)(dst \<mapsto> IM))\<rparr>))"

section \<open>Multicast groups\<close>

definition bi_registerMulticastGroup :: "node_id \<Rightarrow> 32 word \<Rightarrow> registry \<Rightarrow> registry" where
  "bi_registerMulticastGroup nodeId groupId b =
     b\<lparr>bi_multicastGroupMap := (bi_multicastGroupMap b)(nodeId \<mapsto>
         (case bi_multicastGroupMap b nodeId of None \<Rightarrow> {groupId} | Some gs \<Rightarrow> insert groupId gs))\<rparr>"

definition bi_isInMulticastGroup :: "node_id \<Rightarrow> 32 word \<Rightarrow> registry \<Rightarrow> bool" where
  "bi_isInMulticastGroup nodeId groupId b = (case bi_multicastGroupMap b nodeId of None \<Rightarrow> False | Some gs \<Rightarrow> groupId \<in> gs)"

definition bi_addD2DMulticastTransmitter :: "node_id \<Rightarrow> registry \<Rightarrow> registry" where
  "bi_addD2DMulticastTransmitter nodeId b = b\<lparr>bi_multicastTransmitterSet := insert nodeId (bi_multicastTransmitterSet b)\<rparr>"

section \<open>Handovers\<close>

definition bi_addUeHandoverTriggered :: "node_id \<Rightarrow> registry \<Rightarrow> registry" where
  "bi_addUeHandoverTriggered nodeId b = b\<lparr>bi_ueHandoverTriggered := insert nodeId (bi_ueHandoverTriggered b)\<rparr>"

definition bi_hasUeHandoverTriggered :: "node_id \<Rightarrow> registry \<Rightarrow> bool" where
  "bi_hasUeHandoverTriggered nodeId b = (nodeId \<in> bi_ueHandoverTriggered b)"

definition bi_removeUeHandoverTriggered :: "node_id \<Rightarrow> registry \<Rightarrow> registry" where
  "bi_removeUeHandoverTriggered nodeId b = b\<lparr>bi_ueHandoverTriggered := bi_ueHandoverTriggered b - {nodeId}\<rparr>"

definition bi_addHandoverTriggered :: "node_id \<Rightarrow> node_id \<Rightarrow> node_id \<Rightarrow> registry \<Rightarrow> registry" where
  "bi_addHandoverTriggered nodeId srcId destId b = b\<lparr>bi_handoverTriggered := (bi_handoverTriggered b)(nodeId \<mapsto> (srcId, destId))\<rparr>"

definition bi_getHandoverTriggered :: "node_id \<Rightarrow> registry \<Rightarrow> (node_id \<times> node_id) option" where
  "bi_getHandoverTriggered nodeId b = bi_handoverTriggered b nodeId"

definition bi_removeHandoverTriggered :: "node_id \<Rightarrow> registry \<Rightarrow> registry" where
  "bi_removeHandoverTriggered nodeId b = b\<lparr>bi_handoverTriggered := (bi_handoverTriggered b)(nodeId := None)\<rparr>"

section \<open>What registration establishes\<close>

lemma put_grown_nth: "put_grown v i x ! unat j = (if j = i then x else if unat j < length v then v ! unat j else 0)"
  if "unat j < length (put_grown v i x)"
  using that by (auto simp: put_grown_def nth_list_update nth_append word_unat_eq_iff split: if_splits)

lemma put_grown_length [simp]: "length (put_grown v i x) = max (length v) (Suc (unat i))"
  by (auto simp: put_grown_def)

lemma getNextHop_register:
  "bi_getNextHop s (bi_registerNextHop m s b) = Inr m"
  "s' \<noteq> s \<Longrightarrow> cpp_ok (bi_getNextHop s' b) \<Longrightarrow> bi_getNextHop s' (bi_registerNextHop m s b) = bi_getNextHop s' b"
  by (auto simp: bi_getNextHop_def bi_registerNextHop_def Let_def put_grown_nth split: if_splits)

text \<open>
  The counters stay within their ranges as long as fewer than 1023 base stations, 1024 UEs and 63487 NR UEs
  have registered; the code does not check it. In such a registry the identifiers tell the type of a
  node, and every registered one has a next hop.
\<close>

definition bi_room :: "ran_node_type \<Rightarrow> bool \<Rightarrow> registry \<Rightarrow> bool" where
  "bi_room type nr b = (if type \<noteq> UE then bi_counterEnb b \<le> ENB_MAX_ID
     else if nr then bi_counterNrUe b < UE_MAX_ID else bi_counterUe b < NR_UE_MIN_ID)"

definition bi_ok :: "registry \<Rightarrow> bool" where
  "bi_ok b = (ENB_MIN_ID \<le> bi_counterEnb b \<and> bi_counterEnb b \<le> ENB_MAX_ID + 1
     \<and> UE_MIN_ID \<le> bi_counterUe b \<and> bi_counterUe b \<le> NR_UE_MIN_ID \<and> NR_UE_MIN_ID \<le> bi_counterNrUe b
     \<and> (\<forall>i n. bi_nodeIds b i = Some n \<longrightarrow> cpp_ok (bi_getNextHop i b)
          \<and> ((ENB_MIN_ID \<le> i \<and> i < bi_counterEnb b \<and> cpp_ok (bi_getMasterNode i b)) \<or> bi_validUe i b)))"

lemma bi_ok_new: "bi_ok bi_new"
  by (simp add: bi_ok_def bi_new_def node_id_bounds)

lemma getMasterNode_register:
  "cpp_ok (bi_getMasterNode s (bi_registerMasterNode m s b))"
  "cpp_ok (bi_getMasterNode s' b) \<Longrightarrow> cpp_ok (bi_getMasterNode s' (bi_registerMasterNode m s b))"
  by (auto simp: bi_getMasterNode_def bi_registerMasterNode_def split: if_splits)

lemma getNextHop_ok_mono: "cpp_ok (bi_getNextHop s' b) \<Longrightarrow> cpp_ok (bi_getNextHop s' (bi_registerNextHop m s b))"
  by (auto simp: bi_getNextHop_def bi_registerNextHop_def Let_def split: if_splits)

lemma inc_unat: "x < y \<Longrightarrow> unat (x + 1) = Suc (unat (x :: node_id))"
  using unsigned_less[where 'a = nat, of y] by (simp add: word_less_nat_alt unat_word_ariths)

lemma inc_unat_le: "unat (x + 1) \<le> Suc (unat (x :: node_id))"
  by (simp add: unat_word_ariths)

text \<open>What the registration of a node establishes, by the kind of its identifier.\<close>

lemma register_counters:
  "(i, b') = bi_registerNode n type m nr b \<Longrightarrow> type = UE \<Longrightarrow> \<not> nr \<Longrightarrow>
     i = bi_counterUe b \<and> bi_counterUe b' = bi_counterUe b + 1 \<and> bi_counterNrUe b' = bi_counterNrUe b \<and> bi_counterEnb b' = bi_counterEnb b"
  "(i, b') = bi_registerNode n type m nr b \<Longrightarrow> type = UE \<Longrightarrow> nr \<Longrightarrow>
     i = bi_counterNrUe b \<and> bi_counterUe b' = bi_counterUe b \<and> bi_counterNrUe b' = bi_counterNrUe b + 1 \<and> bi_counterEnb b' = bi_counterEnb b"
  "(i, b') = bi_registerNode n type m nr b \<Longrightarrow> type = ENODEB \<or> type = GNODEB \<Longrightarrow>
     i = bi_counterEnb b \<and> bi_counterUe b' = bi_counterUe b \<and> bi_counterNrUe b' = bi_counterNrUe b \<and> bi_counterEnb b' = bi_counterEnb b + 1"
  by (auto simp: bi_registerNode_def Let_def bi_registerNextHop_def bi_registerMasterNode_def)

lemma registerNextHop_simps [simp]: "bi_nodeIds (bi_registerNextHop m s b) = bi_nodeIds b"
  "bi_secondaryNodeToMasterNode (bi_registerNextHop m s b) = bi_secondaryNodeToMasterNode b"
  by (simp_all add: bi_registerNextHop_def Let_def)

lemma register_nodeIds: "(i, b') = bi_registerNode n type m nr b \<Longrightarrow> bi_nodeIds b' = (bi_nodeIds b)(i \<mapsto> n)"
  by (auto simp: bi_registerNode_def Let_def bi_registerMasterNode_def split: if_splits)

lemma register_nextHop:
  assumes "(i, b') = bi_registerNode n type m nr b" "type = UE \<or> type = ENODEB \<or> type = GNODEB"
  shows "bi_getNextHop i b' = Inr (if type = UE then m else i)"
    "cpp_ok (bi_getNextHop j b) \<Longrightarrow> cpp_ok (bi_getNextHop j b')"
    "cpp_ok (bi_getMasterNode j b) \<Longrightarrow> cpp_ok (bi_getMasterNode j b')"
    "type \<noteq> UE \<Longrightarrow> cpp_ok (bi_getMasterNode i b')"
  using assms
  by (auto simp: bi_registerNode_def Let_def bi_registerNextHop_def bi_registerMasterNode_def bi_getNextHop_def bi_getMasterNode_def
      put_grown_nth split: if_splits)

lemma register_ok:
  assumes ok: "bi_ok b" and room: "bi_room type nr b" and type: "type = UE \<or> type = ENODEB \<or> type = GNODEB"
    and r: "(i, b') = bi_registerNode n type m nr b"
  shows "bi_ok b'" "getNodeTypeById i = (if type = UE then UE else ENODEB)" "isNrUe i = (type = UE \<and> nr)" "bi_nodeIds b i = None"
proof -
  note nums = node_id_bounds word_less_nat_alt word_le_nat_alt
  have c: "ENB_MIN_ID \<le> bi_counterEnb b" "bi_counterEnb b \<le> ENB_MAX_ID + 1" "UE_MIN_ID \<le> bi_counterUe b"
    "bi_counterUe b \<le> NR_UE_MIN_ID" "NR_UE_MIN_ID \<le> bi_counterNrUe b"
    "type \<noteq> UE \<Longrightarrow> bi_counterEnb b \<le> ENB_MAX_ID" "type = UE \<Longrightarrow> \<not> nr \<Longrightarrow> bi_counterUe b < NR_UE_MIN_ID"
    "type = UE \<Longrightarrow> nr \<Longrightarrow> bi_counterNrUe b < UE_MAX_ID" using ok room by (auto simp: bi_ok_def bi_room_def)
  have "unat (bi_counterUe b + 1) = Suc (unat (bi_counterUe b))"
    using c(4) by (intro inc_unat[of _ UE_MAX_ID]) (simp add: nums)
  moreover have "unat (bi_counterEnb b + 1) = Suc (unat (bi_counterEnb b))"
    using c(2) by (intro inc_unat[of _ UE_MAX_ID]) (simp add: nums)
  moreover have "unat (bi_counterNrUe b + 1) = Suc (unat (bi_counterNrUe b))" if "type = UE" "nr"
    using c(8)[OF that] by (rule inc_unat)
  ultimately have inc: "unat (bi_counterEnb b + 1) = Suc (unat (bi_counterEnb b))" "unat (bi_counterUe b + 1) = Suc (unat (bi_counterUe b))"
    "type = UE \<Longrightarrow> nr \<Longrightarrow> unat (bi_counterNrUe b + 1) = Suc (unat (bi_counterNrUe b))" by blast+
  have i: "i = (if type = UE then if nr then bi_counterNrUe b else bi_counterUe b else bi_counterEnb b)"
    using register_counters[OF r] type by auto
  show "getNodeTypeById i = (if type = UE then UE else ENODEB)" "isNrUe i = (type = UE \<and> nr)"
    using c i by (auto simp: getNodeTypeById_def isNrUe_def nums split: if_splits)
  have known: "(ENB_MIN_ID \<le> j \<and> j < bi_counterEnb b \<and> cpp_ok (bi_getMasterNode j b)) \<or> bi_validUe j b" "cpp_ok (bi_getNextHop j b)"
    if "bi_nodeIds b j = Some k" for j k using ok that by (auto simp: bi_ok_def)
  show "bi_nodeIds b i = None"
  proof (rule ccontr)
    assume "bi_nodeIds b i \<noteq> None"
    then obtain k where "bi_nodeIds b i = Some k" by blast
    from known(1)[OF this] show False using c i by (auto simp: bi_validUe_def nums split: if_splits)
  qed
  have cs: "bi_counterEnb b' = (if type = UE then bi_counterEnb b else bi_counterEnb b + 1)"
    "bi_counterUe b' = (if type = UE \<and> \<not> nr then bi_counterUe b + 1 else bi_counterUe b)"
    "bi_counterNrUe b' = (if type = UE \<and> nr then bi_counterNrUe b + 1 else bi_counterNrUe b)"
    using register_counters[OF r] type by auto
  have "cpp_ok (bi_getNextHop j b') \<and> ((ENB_MIN_ID \<le> j \<and> j < bi_counterEnb b' \<and> cpp_ok (bi_getMasterNode j b')) \<or> bi_validUe j b')"
    if j: "bi_nodeIds b' j = Some k" for j k
  proof (cases "j = i")
    case True
    have "(ENB_MIN_ID \<le> i \<and> i < bi_counterEnb b' \<and> type \<noteq> UE) \<or> bi_validUe i b'"
      using c inc i cs by (auto simp: bi_validUe_def nums split: if_splits)
    with True register_nextHop[OF r type] show ?thesis by auto
  next
    case False
    then have "bi_nodeIds b j = Some k" using j register_nodeIds[OF r] by simp
    note kn = known[OF this]
    have "(ENB_MIN_ID \<le> j \<and> j < bi_counterEnb b \<longrightarrow> j < bi_counterEnb b') \<and> (bi_validUe j b \<longrightarrow> bi_validUe j b')"
      using c inc cs by (auto simp: bi_validUe_def nums split: if_splits)
    with kn register_nextHop[OF r type] show ?thesis by blast
  qed
  moreover have "ENB_MIN_ID \<le> bi_counterEnb b' \<and> bi_counterEnb b' \<le> ENB_MAX_ID + 1
     \<and> UE_MIN_ID \<le> bi_counterUe b' \<and> bi_counterUe b' \<le> NR_UE_MIN_ID \<and> NR_UE_MIN_ID \<le> bi_counterNrUe b'"
    using c inc cs by (auto simp: nums)
  ultimately show "bi_ok b'" unfolding bi_ok_def by blast
qed

text \<open>A run of registrations, and the identifiers it gives.\<close>

fun bi_registerAll :: "(nat \<times> ran_node_type \<times> node_id \<times> bool) list \<Rightarrow> registry \<Rightarrow> node_id list \<times> registry" where
  "bi_registerAll [] b = ([], b)"
| "bi_registerAll ((n, type, m, nr) # rs) b =
     (let (i, b1) = bi_registerNode n type m nr b; (js, b2) = bi_registerAll rs b1 in (i # js, b2))"

definition bi_unregisterNode :: "node_id \<Rightarrow> registry \<Rightarrow> registry" where
  "bi_unregisterNode i b = b\<lparr>bi_macNodeIdToIPAddress := (\<lambda>a. if bi_macNodeIdToIPAddress b a = Some i then None else bi_macNodeIdToIPAddress b a),
     bi_nodeIds := (bi_nodeIds b)(i := None)\<rparr>"

abbreviation reg_type :: "nat \<times> ran_node_type \<times> node_id \<times> bool \<Rightarrow> ran_node_type" where "reg_type r \<equiv> fst (snd r)"
abbreviation reg_master :: "nat \<times> ran_node_type \<times> node_id \<times> bool \<Rightarrow> node_id" where "reg_master r \<equiv> fst (snd (snd r))"
abbreviation reg_nr :: "nat \<times> ran_node_type \<times> node_id \<times> bool \<Rightarrow> bool" where "reg_nr r \<equiv> snd (snd (snd r))"

text \<open>How many nodes of each kind register.\<close>

definition reg_fits :: "(nat \<times> ran_node_type \<times> node_id \<times> bool) list \<Rightarrow> registry \<Rightarrow> bool" where
  "reg_fits rs b = (list_all (\<lambda>r. reg_type r = UE \<or> reg_type r = ENODEB \<or> reg_type r = GNODEB) rs
     \<and> unat (bi_counterEnb b) + length (filter (\<lambda>r. reg_type r \<noteq> UE) rs) \<le> 1024
     \<and> unat (bi_counterUe b) + length (filter (\<lambda>r. reg_type r = UE \<and> \<not> reg_nr r) rs) \<le> 2049
     \<and> unat (bi_counterNrUe b) + length (filter (\<lambda>r. reg_type r = UE \<and> reg_nr r) rs) \<le> 65535)"

text \<open>What an identifier tells of the node it was given to.\<close>

definition reg_typed :: "nat \<times> ran_node_type \<times> node_id \<times> bool \<Rightarrow> node_id \<Rightarrow> registry \<Rightarrow> bool" where
  "reg_typed r i b = (getNodeTypeById i = (if reg_type r = UE then UE else ENODEB) \<and> isNrUe i = (reg_type r = UE \<and> reg_nr r)
     \<and> bi_getOmnetId i b = fst r \<and> bi_getNextHop i b = Inr (if reg_type r = UE then reg_master r else i))"

lemma register_other:
  assumes "(i, b') = bi_registerNode n type m nr b" "type = UE \<or> type = ENODEB \<or> type = GNODEB" "j \<noteq> i" "cpp_ok (bi_getNextHop j b)"
  shows "bi_getNextHop j b' = bi_getNextHop j b"
  using assms
  by (auto simp: bi_registerNode_def Let_def bi_registerNextHop_def bi_registerMasterNode_def bi_getNextHop_def put_grown_nth split: if_splits)

lemma registerAll_ok:
  "bi_ok b \<Longrightarrow> reg_fits rs b \<Longrightarrow> (js, b') = bi_registerAll rs b \<Longrightarrow>
     bi_ok b' \<and> distinct js \<and> (\<forall>i \<in> set js. bi_nodeIds b i = None) \<and> list_all2 (\<lambda>r i. reg_typed r i b') rs js
     \<and> (\<forall>i. bi_nodeIds b i \<noteq> None \<longrightarrow> bi_nodeIds b' i = bi_nodeIds b i \<and> bi_getNextHop i b' = bi_getNextHop i b)"
proof (induction rs arbitrary: b js b')
  case (Cons r rs)
  obtain n type m nr where r: "r = (n, type, m, nr)" by (cases r)
  obtain i b1 where i: "(i, b1) = bi_registerNode n type m nr b" by (metis surj_pair)
  obtain js1 where js: "(js1, b') = bi_registerAll rs b1" "js = i # js1"
    using Cons.prems(3) by (auto simp: r i[symmetric] split: prod.splits)
  have t: "type = UE \<or> type = ENODEB \<or> type = GNODEB" and room: "bi_room type nr b"
    using Cons.prems(1,2) by (auto simp: r reg_fits_def bi_room_def bi_ok_def node_id_bounds word_le_nat_alt word_less_nat_alt split: if_splits)
  note ok = register_ok[OF Cons.prems(1) room t i] and nx = register_nextHop[OF i t] and ids = register_nodeIds[OF i]
  have c: "unat (bi_counterEnb b1) \<le> unat (bi_counterEnb b) + (if type = UE then 0 else 1)"
    "unat (bi_counterUe b1) \<le> unat (bi_counterUe b) + (if type = UE \<and> \<not> nr then 1 else 0)"
    "unat (bi_counterNrUe b1) \<le> unat (bi_counterNrUe b) + (if type = UE \<and> nr then 1 else 0)"
    using register_counters[OF i] t inc_unat_le by (cases nr; auto)+
  have "reg_fits rs b1" using Cons.prems(2) c t by (auto simp: reg_fits_def r split: if_splits)
  note IH = Cons.IH[OF ok(1) this js(1)]
  have known: "bi_nodeIds b1 i = Some n" using ids by simp
  then have i': "bi_nodeIds b' i = Some n" "bi_getNextHop i b' = Inr (if type = UE then m else i)" using IH nx(1) by auto
  have "reg_typed r i b'" using ok(2,3) i' by (simp add: reg_typed_def r bi_getOmnetId_def)
  moreover have "i \<notin> set js1" using IH known by auto
  moreover have "bi_nodeIds b k = None" if "k \<in> set js1" for k using IH that ids by (auto split: if_splits)
  moreover have "bi_nodeIds b' k = bi_nodeIds b k \<and> bi_getNextHop k b' = bi_getNextHop k b" if k: "bi_nodeIds b k \<noteq> None" for k
  proof -
    have "k \<noteq> i" using k ok(4) by auto
    then have "bi_nodeIds b1 k = bi_nodeIds b k" using ids by simp
    moreover have "cpp_ok (bi_getNextHop k b)" using k Cons.prems(1) by (auto simp: bi_ok_def)
    then have "bi_getNextHop k b1 = bi_getNextHop k b" by (rule register_other[OF i t \<open>k \<noteq> i\<close>])
    ultimately show ?thesis using IH k by metis
  qed
  ultimately show ?case using IH js(2) ok(4) by simp
qed simp

end
