(* ===== verification/Pdcp_Packet.thy ===== *)
theory Pdcp_Packet
  imports Node_Registry Rlc_Um_Layer
begin

text \<open>
  Packets as IP2Nic and PDCP handle them: a sequence of chunks, each with a length in bytes, the tag \<open>FlowControlInfo\<close> and
  the name. A header chunk has its own length field beside the length the chunk takes in the packet, which header
  compression changes. \<open>popAtFront\<close> only moves an iterator past a chunk that \<open>trim\<close> removes later; as every user
  trims before it goes on, a popped chunk is removed at once here.
\<close>

record ip_header =
  ih_src :: "32 word"
  ih_dst :: "32 word"
  ih_typeOfService :: "16 word"
  ih_protocolId :: int
  ih_headerLength :: int

definition IP_PROT_TCP :: int where "IP_PROT_TCP = 6"
definition IP_PROT_UDP :: int where "IP_PROT_UDP = 17"
definition UDP_HEADER_LENGTH :: int where "UDP_HEADER_LENGTH = 8"

text \<open>The last component of a constructor of a header is the length of the chunk.\<close>

datatype chunk =
    Ipv4_Header ip_header int
  | Tcp_Header int int
  | Udp_Header int
  | Rohc_Pdu int int int
  | Pdcp_Pdu int
  | Data_Chunk nat int

fun chunk_length :: "chunk \<Rightarrow> int" where
  "chunk_length (Ipv4_Header h l) = l"
| "chunk_length (Tcp_Header hl l) = l"
| "chunk_length (Udp_Header l) = l"
| "chunk_length (Rohc_Pdu origTransport origIp l) = l"
| "chunk_length (Pdcp_Pdu l) = l"
| "chunk_length (Data_Chunk d l) = l"

datatype rlc_type = TM | UM | AM | UNKNOWN_RLC_TYPE
datatype application_type = VOIP | VOD | WEB | CBR | FTP | GAMING | FULLBUFFER | UNKNOWN_APP
datatype traffic_class = CONVERSATIONAL | STREAMING | INTERACTIVE | BACKGROUND | UNKNOWN_TRAFFIC_TYPE

text \<open>The tag \<open>FlowControlInfo\<close> with the fields of \<open>LteControlInfo\<close>; \<open>multicastGroupId\<close> is an \<open>int32\<close>.\<close>

record flow_control = flow_info +
  fc_srcAddr :: "32 word"
  fc_dstAddr :: "32 word"
  fc_typeOfService :: "16 word"
  fc_sequenceNumber :: "32 word"
  fc_headerSize :: int
  fc_useNR :: bool
  fc_d2dTxPeerId :: node_id
  fc_application :: application_type
  fc_traffic :: traffic_class
  fc_rlcType :: rlc_type
  fc_multicastGroupId :: "32 word"

text \<open>A tag as \<open>addTagIfAbsent\<close> creates it.\<close>

definition fc_new :: flow_control where
  "fc_new = \<lparr>fl_direction = DL, fl_sourceId = 0, fl_destId = 0, fl_lcid = 0, fl_d2dRxPeerId = 0,
     fc_srcAddr = 0, fc_dstAddr = 0, fc_typeOfService = 0, fc_sequenceNumber = 0, fc_headerSize = 0, fc_useNR = False, fc_d2dTxPeerId = 0,
     fc_application = VOIP, fc_traffic = CONVERSATIONAL, fc_rlcType = TM, fc_multicastGroupId = -1\<rparr>"

record pd_packet =
  pk_name :: string
  pk_chunks :: "chunk list"
  pk_tag :: "flow_control option"

definition pk_byteLength :: "pd_packet \<Rightarrow> int" where
  "pk_byteLength p = sum_list (map chunk_length (pk_chunks p))"

section \<open>Taking chunks from the front\<close>

text \<open>The front of a packet that is not of the class asked for is converted by the library or throws; the model throws.\<close>

definition front_error :: "'a cpp" where
  "front_error = Inl (Runtime_Error ''Packet: chunk of another class at the front'')"

definition peekIpv4Header :: "pd_packet \<Rightarrow> (ip_header \<times> int) cpp" where
  "peekIpv4Header p = (case pk_chunks p of Ipv4_Header h l # cs \<Rightarrow> Inr (h, l) | _ \<Rightarrow> front_error)"

definition removeIpv4Header :: "pd_packet \<Rightarrow> (ip_header \<times> int \<times> pd_packet) cpp" where
  "removeIpv4Header p = (case pk_chunks p of Ipv4_Header h l # cs \<Rightarrow> Inr (h, l, p\<lparr>pk_chunks := cs\<rparr>) | _ \<Rightarrow> front_error)"

definition removeTcpHeader :: "pd_packet \<Rightarrow> (int \<times> int \<times> pd_packet) cpp" where
  "removeTcpHeader p = (case pk_chunks p of Tcp_Header hl l # cs \<Rightarrow> Inr (hl, l, p\<lparr>pk_chunks := cs\<rparr>) | _ \<Rightarrow> front_error)"

definition removeUdpHeader :: "pd_packet \<Rightarrow> (int \<times> pd_packet) cpp" where
  "removeUdpHeader p = (case pk_chunks p of Udp_Header l # cs \<Rightarrow> Inr (l, p\<lparr>pk_chunks := cs\<rparr>) | _ \<Rightarrow> front_error)"

definition removeRohcPdu :: "pd_packet \<Rightarrow> (int \<times> int \<times> pd_packet) cpp" where
  "removeRohcPdu p = (case pk_chunks p of Rohc_Pdu t i l # cs \<Rightarrow> Inr (t, i, p\<lparr>pk_chunks := cs\<rparr>) | _ \<Rightarrow> front_error)"

definition popPdcpPdu :: "pd_packet \<Rightarrow> pd_packet cpp" where
  "popPdcpPdu p = (case pk_chunks p of Pdcp_Pdu l # cs \<Rightarrow> Inr (p\<lparr>pk_chunks := cs\<rparr>) | _ \<Rightarrow> front_error)"

definition insertAtFront :: "chunk \<Rightarrow> pd_packet \<Rightarrow> pd_packet" where
  "insertAtFront c p = p\<lparr>pk_chunks := c # pk_chunks p\<rparr>"

text \<open>The tag of a packet; \<open>getTag\<close> throws when there is none.\<close>

definition getFlowTag :: "pd_packet \<Rightarrow> flow_control cpp" where
  "getFlowTag p = (case pk_tag p of None \<Rightarrow> Inl (Runtime_Error ''Packet: tag is absent'') | Some t \<Rightarrow> Inr t)"

definition setFlowTag :: "flow_control \<Rightarrow> pd_packet \<Rightarrow> pd_packet" where
  "setFlowTag t p = p\<lparr>pk_tag := Some t\<rparr>"

lemmas packet_defs = peekIpv4Header_def removeIpv4Header_def removeTcpHeader_def removeUdpHeader_def removeRohcPdu_def
  popPdcpPdu_def insertAtFront_def getFlowTag_def setFlowTag_def

section \<open>Well-formed IP packets\<close>

text \<open>Packets as INET's IPv4 and transport modules build them: header fields and chunks agree.\<close>

definition pk_ip :: "pd_packet \<Rightarrow> bool" where
  "pk_ip p = (case pk_chunks p of
      Ipv4_Header h l # cs \<Rightarrow> l = ih_headerLength h
        \<and> (if ih_protocolId h = IP_PROT_TCP then (case cs of Tcp_Header hl l' # _ \<Rightarrow> l' = hl | _ \<Rightarrow> False)
           else if ih_protocolId h = IP_PROT_UDP then (case cs of Udp_Header l' # _ \<Rightarrow> l' = UDP_HEADER_LENGTH | _ \<Rightarrow> False)
           else True)
    | _ \<Rightarrow> False)"

end
