(* ===== verification/Pdcp_Entity.thy ===== *)
theory Pdcp_Entity
  imports Pdcp_Packet
begin

text \<open>
  Header compression and the receiving entities of PDCP: \<open>headerCompress\<close> and \<open>headerDecompress\<close> of
  \<open>LtePdcpRrc.cc\<close>, \<open>LteRxPdcpEntity.cc\<close> and \<open>NRRxPdcpEntity.cc\<close>, which puts SDUs back in order when dual connectivity is on.
  Sequence numbers are 32-bit words; \<open>cArray\<close>, the buffer of SDUs, is a map from positions, which throws
  when an occupied position is filled, and a null pointer taken from it fails the cast.
\<close>

section \<open>Header compression\<close>

definition LTE_PDCP_HEADER_COMPRESSION_DISABLED :: int where "LTE_PDCP_HEADER_COMPRESSION_DISABLED = -1"
definition MIN_COMPRESSED_HEADER_SIZE :: int where "MIN_COMPRESSED_HEADER_SIZE = 3"

definition isCompressionEnabled :: "int \<Rightarrow> bool" where
  "isCompressionEnabled headerCompressedSize = (headerCompressedSize \<noteq> LTE_PDCP_HEADER_COMPRESSION_DISABLED)"

definition headerCompress :: "int \<Rightarrow> pd_packet \<Rightarrow> pd_packet cpp" where
  "headerCompress headerCompressedSize p =
     (if \<not> isCompressionEnabled headerCompressedSize then Inr p
      else cpp_bind (removeIpv4Header p) (\<lambda>(ip, ipLen, p1).
        let finish = (\<lambda>origTransport transportSize p2. Inr (insertAtFront
              (Rohc_Pdu origTransport (ih_headerLength ip) (headerCompressedSize - transportSize - 1))
              (insertAtFront (Ipv4_Header ip 1) p2)))
        in if ih_protocolId ip = IP_PROT_TCP then
             cpp_bind (removeTcpHeader p1) (\<lambda>(hl, len, p2). finish hl 1 (insertAtFront (Tcp_Header hl 1) p2))
           else if ih_protocolId ip = IP_PROT_UDP then
             cpp_bind (removeUdpHeader p1) (\<lambda>(len, p2). finish UDP_HEADER_LENGTH 1 (insertAtFront (Udp_Header 1) p2))
           else finish 0 0 p1))"

definition headerDecompress :: "int \<Rightarrow> pd_packet \<Rightarrow> pd_packet cpp" where
  "headerDecompress headerCompressedSize p =
     (if \<not> isCompressionEnabled headerCompressedSize then Inr p
      else cpp_bind (removeRohcPdu p) (\<lambda>(origTransport, origIp, p1).
        cpp_bind (removeIpv4Header p1) (\<lambda>(ip, ipLen, p2).
        let finish = (\<lambda>p3. Inr (insertAtFront (Ipv4_Header ip origIp) p3))
        in if ih_protocolId ip = IP_PROT_TCP then
             cpp_bind (removeTcpHeader p2) (\<lambda>(hl, len, p3). finish (insertAtFront (Tcp_Header hl origTransport) p3))
           else if ih_protocolId ip = IP_PROT_UDP then
             cpp_bind (removeUdpHeader p2) (\<lambda>(len, p3). finish (insertAtFront (Udp_Header origTransport) p3))
           else finish p2)))"

text \<open>Decompression restores what compression took away, and a compressed header has the configured size.\<close>

lemma compress_roundtrip:
  assumes "pk_ip p"
  shows "\<exists>q. headerCompress n p = Inr q \<and> pk_tag q = pk_tag p \<and> pk_name q = pk_name p \<and> headerDecompress n q = Inr p"
proof (cases "isCompressionEnabled n")
  case True
  obtain h l cs where c: "pk_chunks p = Ipv4_Header h l # cs" using assms by (auto simp: pk_ip_def split: list.splits chunk.splits)
  have l: "l = ih_headerLength h" using assms c by (simp add: pk_ip_def)
  consider (tcp) "ih_protocolId h = IP_PROT_TCP" | (udp) "ih_protocolId h = IP_PROT_UDP"
    | (other) "ih_protocolId h \<noteq> IP_PROT_TCP" "ih_protocolId h \<noteq> IP_PROT_UDP" by blast
  then show ?thesis
  proof cases
    case tcp
    then obtain hl ds where "cs = Tcp_Header hl hl # ds" using assms c by (auto simp: pk_ip_def split: list.splits chunk.splits)
    then show ?thesis using True tcp c l by (simp add: headerCompress_def headerDecompress_def packet_defs Let_def)
  next
    case udp
    have "IP_PROT_UDP \<noteq> IP_PROT_TCP" by (simp add: IP_PROT_UDP_def IP_PROT_TCP_def)
    moreover obtain ds where "cs = Udp_Header UDP_HEADER_LENGTH # ds"
      using assms c udp calculation by (auto simp: pk_ip_def split: list.splits chunk.splits)
    ultimately show ?thesis using True udp c l by (simp add: headerCompress_def headerDecompress_def packet_defs Let_def)
  next
    case other
    then show ?thesis using True c l by (simp add: headerCompress_def headerDecompress_def packet_defs Let_def)
  qed
qed (simp add: headerCompress_def headerDecompress_def)

section \<open>The NR receiving entity\<close>

record pdcp_rx =
  px_outOfOrderDelivery :: bool
  px_sduBuffer :: "nat \<Rightarrow> pd_packet option"
  px_received :: "bool list"
  px_windowSize :: "32 word"
  px_rxNext :: "32 word"
  px_rxDeliv :: "32 word"
  px_rxReord :: "32 word"
  px_timer :: bool    \<comment> \<open>\<open>t_reordering_\<close> is busy\<close>

definition px_new :: "bool \<Rightarrow> 32 word \<Rightarrow> pdcp_rx" where
  "px_new ooo wsize = \<lparr>px_outOfOrderDelivery = ooo, px_sduBuffer = (\<lambda>_. None), px_received = replicate (unat wsize) False,
     px_windowSize = wsize, px_rxNext = 0, px_rxDeliv = 0, px_rxReord = 0, px_timer = False\<rparr>"

definition px_addAt :: "nat \<Rightarrow> pd_packet \<Rightarrow> pdcp_rx \<Rightarrow> pdcp_rx cpp" where
  "px_addAt i p px = (case px_sduBuffer px i of
      Some _ \<Rightarrow> Inl (Runtime_Error ''addAt(): position already used'')
    | None \<Rightarrow> Inr (px\<lparr>px_sduBuffer := (px_sduBuffer px)(i \<mapsto> p)\<rparr>))"

text \<open>\<open>check_and_cast\<close> of what \<open>remove\<close> returns.\<close>

definition px_remove :: "nat \<Rightarrow> pdcp_rx \<Rightarrow> (pd_packet \<times> pdcp_rx) cpp" where
  "px_remove i px = (case px_sduBuffer px i of
      None \<Rightarrow> Inl (Runtime_Error ''check_and_cast(): cannot cast nullptr'')
    | Some p \<Rightarrow> Inr (p, px\<lparr>px_sduBuffer := (px_sduBuffer px)(i := None)\<rparr>))"

definition px_setReceived :: "nat \<Rightarrow> bool \<Rightarrow> pdcp_rx \<Rightarrow> pdcp_rx cpp" where
  "px_setReceived i v px = cpp_bind (vec_put (px_received px) i v) (\<lambda>r. Inr (px\<lparr>px_received := r\<rparr>))"

text \<open>The body of the loops that shift the window by \<open>k\<close> positions.\<close>

definition px_shiftOne :: "nat \<Rightarrow> nat \<Rightarrow> pdcp_rx \<Rightarrow> pdcp_rx cpp" where
  "px_shiftOne k i px =
     cpp_bind (case px_sduBuffer px i of
         None \<Rightarrow> Inr px
       | Some p \<Rightarrow> px_addAt (i - k) p (px\<lparr>px_sduBuffer := (px_sduBuffer px)(i := None)\<rparr>)) (\<lambda>px1.
     cpp_bind (vec_at (px_received px1) i) (\<lambda>r.
     cpp_bind (px_setReceived (i - k) r px1) (px_setReceived i False)))"

definition px_shift :: "nat \<Rightarrow> nat \<Rightarrow> pdcp_rx \<Rightarrow> pdcp_rx cpp" where
  "px_shift k n px = cpp_fold (px_shiftOne k) [k..<n] px"

text \<open>The loop that delivers the SDUs behind one in sequence; \<open>m\<close> is the room left in the window.\<close>

fun px_deliverNext :: "nat \<Rightarrow> nat \<Rightarrow> pdcp_rx \<Rightarrow> (nat \<times> pd_packet list \<times> pdcp_rx) cpp" where
  "px_deliverNext 0 pos px = Inr (pos, [], px)"
| "px_deliverNext (Suc m) pos px = cpp_bind (vec_at (px_received px) pos) (\<lambda>r.
     if \<not> r then Inr (pos, [], px)
     else cpp_bind (px_remove pos px) (\<lambda>(sdu, px1). cpp_bind (px_setReceived pos False px1) (\<lambda>px2.
            cpp_bind (px_deliverNext m (pos + 1) (px2\<lparr>px_rxDeliv := px_rxDeliv px2 + 1\<rparr>)) (\<lambda>(pos', out, px3). Inr (pos', sdu # out, px3)))))"

definition px_handleTimer :: "pdcp_rx \<Rightarrow> pdcp_rx" where
  "px_handleTimer px =
     (let px1 = (if px_timer px \<and> px_rxReord px \<le> px_rxDeliv px then px\<lparr>px_timer := False\<rparr> else px)
      in if \<not> px_timer px1 \<and> px_rxDeliv px1 < px_rxNext px1 then px1\<lparr>px_timer := True, px_rxReord := px_rxNext px1\<rparr> else px1)"

text \<open>\<open>handlePdcpSdu\<close>: the packets that go up, in order, and the new state; a discarded SDU goes nowhere.\<close>

definition px_handlePdcpSdu :: "bool \<Rightarrow> pd_packet \<Rightarrow> pdcp_rx \<Rightarrow> (pd_packet list \<times> pdcp_rx) cpp" where
  "px_handlePdcpSdu dualConnectivity p px = cpp_bind (getFlowTag p) (\<lambda>info.
     let rcvdSno = fc_sequenceNumber info in
     if \<not> dualConnectivity \<or> px_outOfOrderDelivery px then Inr ([p], px)
     else if rcvdSno < px_rxDeliv px then Inr ([], px)
     else if px_windowSize px \<le> rcvdSno - px_rxDeliv px then Inr ([], px)
     else
       let index = unat (rcvdSno - px_rxDeliv px) in
       cpp_bind (vec_at (px_received px) index) (\<lambda>already.
       if already then Inr ([], px)
       else
         let px1 = (if px_rxNext px \<le> rcvdSno then px\<lparr>px_rxNext := rcvdSno + 1\<rparr> else px) in
         cpp_bind (if rcvdSno = px_rxDeliv px1 then
             cpp_bind (px_deliverNext (unat (px_windowSize px1) - 1) 1 (px1\<lparr>px_rxDeliv := px_rxDeliv px1 + 1\<rparr>)) (\<lambda>(pos, out, px2).
             cpp_bind (px_shift pos (unat (px_rxNext px2 - px_rxDeliv px2)) px2) (\<lambda>px3. Inr (p # out, px3)))
           else cpp_bind (px_addAt index p px1) (\<lambda>px2. cpp_bind (px_setReceived index True px2) (\<lambda>px3. Inr ([], px3))))
         (\<lambda>(out, px4). Inr (out, px_handleTimer px4))))"

text \<open>The timer: deliver what is there below \<open>rxReord_\<close>, then what follows without a gap. \<open>old\<close> is the value of \<open>rxDeliv_\<close> at the start.\<close>

fun px_flush :: "nat \<Rightarrow> nat \<Rightarrow> pdcp_rx \<Rightarrow> (pd_packet list \<times> pdcp_rx) cpp" where
  "px_flush 0 pos px = Inr ([], px)"
| "px_flush (Suc m) pos px = cpp_bind (vec_at (px_received px) pos) (\<lambda>r.
     cpp_bind (if r then cpp_bind (px_remove pos px) (\<lambda>(sdu, px1). Inr ([sdu], px1)) else Inr ([], px)) (\<lambda>(out, px1).
     cpp_bind (px_flush m (pos + 1) (px1\<lparr>px_rxDeliv := px_rxDeliv px1 + 1\<rparr>)) (\<lambda>(out', px2). Inr (out @ out', px2))))"

text \<open>The loop behind it ends at a flag that is not set, at \<open>rxNext_\<close>, or by throwing past the end of the flags.\<close>

function px_follow :: "nat \<Rightarrow> pdcp_rx \<Rightarrow> (pd_packet list \<times> pdcp_rx) cpp" where
  "px_follow pos px =
     (if length (px_received px) \<le> pos then Inl Out_Of_Range
      else if \<not> px_received px ! pos then Inr ([], px)
      else cpp_bind (px_remove pos px) (\<lambda>(sdu, px1).
             let px2 = px\<lparr>px_sduBuffer := px_sduBuffer px1, px_rxDeliv := px_rxDeliv px + 1\<rparr> in
             if px_rxDeliv px2 = px_rxNext px2 then Inr ([sdu], px2)
             else cpp_bind (px_follow (pos + 1) px2) (\<lambda>(out, px3). Inr (sdu # out, px3))))"
  by pat_completeness auto
termination by (relation "measure (\<lambda>(pos, px). length (px_received px) - pos)") auto

definition px_handleMessage :: "pdcp_rx \<Rightarrow> (pd_packet list \<times> pdcp_rx) cpp" where
  "px_handleMessage px0 =
     (let px = px0\<lparr>px_timer := False\<rparr>; old = px_rxDeliv px;
          m = (if px_rxDeliv px < px_rxReord px then unat (px_rxReord px - px_rxDeliv px) else 0) in
      cpp_bind (px_flush m 0 px) (\<lambda>(out1, px1).
      cpp_bind (px_follow m px1) (\<lambda>(out2, px2).
      cpp_bind (px_shift (unat (px_rxDeliv px2 - old)) (unat (px_windowSize px2)) px2) (\<lambda>px3.
      Inr (out1 @ out2, if px_rxDeliv px3 < px_rxNext px3 then px3\<lparr>px_rxReord := px_rxNext px3, px_timer := True\<rparr> else px3)))))"

definition px_isEmpty :: "pdcp_rx \<Rightarrow> bool" where
  "px_isEmpty px = (\<forall>i < length (px_received px). px_sduBuffer px i = None)"

end
