(* ===== verification/Probing.thy ===== *)
theory Probing
  imports Simu_Prelude
begin

text \<open>
  Linear probing, as the hash tables of PDCP do it: a loop that walks through the slots of an array from the
  hash value on, cyclically, until it meets a slot that ends the search. Nothing bounds the walk, so
  it is a partial function; it has no value exactly when no slot ends the search.
\<close>

partial_function (option) probe :: "nat \<Rightarrow> (nat \<Rightarrow> bool) \<Rightarrow> nat \<Rightarrow> nat option" where
  "probe n stop i = (if stop i then Some i else probe n stop ((i + 1) mod n))"

text \<open>The slot met after \<open>j\<close> steps.\<close>

lemma probe_step: "\<not> stop i \<Longrightarrow> probe n stop i = probe n stop ((i + 1) mod n)"
  by (subst probe.simps) simp

lemma probe_walk: "i < n \<Longrightarrow> (\<And>j. j < m \<Longrightarrow> \<not> stop ((i + j) mod n)) \<Longrightarrow> probe n stop i = probe n stop ((i + m) mod n)"
proof (induction m)
  case (Suc m)
  have "probe n stop ((i + m) mod n) = probe n stop ((i + Suc m) mod n)"
    using probe_step[of stop "(i + m) mod n" n] Suc.prems(2)[of m] by (simp add: mod_Suc_eq)
  with Suc show ?case by simp
qed simp

lemma probe_found:
  assumes "i < n" "stop ((i + m) mod n)" "\<And>j. j < m \<Longrightarrow> \<not> stop ((i + j) mod n)"
  shows "probe n stop i = Some ((i + m) mod n)"
  using probe_walk[where stop = stop, OF assms(1,3)] assms(2) by (subst (asm) (2) probe.simps) simp

lemma probe_sound: "probe n stop i = Some k \<Longrightarrow> stop k"
proof (induction rule: probe.raw_induct[of "\<lambda>n stop i k. stop k", rotated, consumes 1])
  case (1 probe n stop i k)
  then show ?case by (auto split: if_splits)
qed

lemma probe_bound: "probe n stop i = Some k \<Longrightarrow> i < n \<longrightarrow> k < n"
proof (induction rule: probe.raw_induct[of "\<lambda>n stop i k. i < n \<longrightarrow> k < n", rotated, consumes 1])
  case (1 probe n stop i k)
  then show ?case by (auto split: if_splits)
qed

lemma cyclic_reach: "i < n \<Longrightarrow> k < n \<Longrightarrow> (i + (if i \<le> k then k - i else k + n - i)) mod n = (k :: nat)"
  by (auto simp: le_add_diff_inverse)

lemma probe_reach: "i < n \<Longrightarrow> k < n \<Longrightarrow> \<exists>m < n. (i + m) mod n = (k :: nat)"
  using cyclic_reach[of i n k] by (intro exI[of _ "if i \<le> k then k - i else k + n - i"]) auto

lemma mod_once: "x < 2 * n \<Longrightarrow> x mod n = (if x < n then x else x - (n :: nat))"
  by (simp add: le_mod_geq)

lemma cyclic_inject: "i < n \<Longrightarrow> a < n \<Longrightarrow> b < n \<Longrightarrow> (i + a) mod n = (i + b) mod n \<Longrightarrow> a = (b :: nat)"
  using mod_once[of "i + a" n] mod_once[of "i + b" n] by (auto split: if_splits)

text \<open>The least number of steps to a slot that ends the search.\<close>

lemma probe_least:
  assumes "i < n" "k < n" "stop k"
  obtains m where "m < n" "probe n stop i = Some ((i + m) mod n)" "stop ((i + m) mod n)" "\<And>j. j < m \<Longrightarrow> \<not> stop ((i + j) mod n)"
proof -
  obtain m0 where m0: "m0 < n" "(i + m0) mod n = k" using probe_reach[OF assms(1,2)] by blast
  let ?m = "LEAST m. stop ((i + m) mod n)"
  have s: "stop ((i + ?m) mod n)" by (rule LeastI[of "\<lambda>m. stop ((i + m) mod n)" m0]) (simp add: m0 assms(3))
  have l: "?m \<le> m0" by (rule Least_le) (simp add: m0 assms(3))
  have b: "\<not> stop ((i + j) mod n)" if "j < ?m" for j using not_less_Least[OF that] .
  show thesis by (rule that[of ?m]) (use l m0(1) s b probe_found[of i n stop ?m] assms(1) in auto)
qed

lemma probe_diverges: "i < n \<Longrightarrow> (probe n stop i = None) = (\<forall>k < n. \<not> stop k)"
proof
  assume "i < n" "probe n stop i = None"
  then show "\<forall>k < n. \<not> stop k" using probe_least[of i n _ stop] by (metis option.distinct(1))
next
  assume "i < n" "\<forall>k < n. \<not> stop k"
  then show "probe n stop i = None" using probe_sound probe_bound by (cases "probe n stop i") blast+
qed

section \<open>Tables kept by linear probing\<close>

text \<open>\<open>occ i\<close> is the key of the slot \<open>i\<close>, when it is in use; the slots between the hash value of a key and its slot are in use.\<close>

locale probing =
  fixes n :: nat and hash :: "'k \<Rightarrow> nat"
  assumes hash_bound: "hash k < n"
begin

definition well_placed :: "(nat \<Rightarrow> 'k option) \<Rightarrow> bool" where
  "well_placed occ = (\<forall>k m. m < n \<longrightarrow> occ ((hash k + m) mod n) = Some k \<longrightarrow>
     (\<forall>j < m. occ ((hash k + j) mod n) \<noteq> None \<and> occ ((hash k + j) mod n) \<noteq> Some k))"

text \<open>The search for a key ends at its slot, or at a free one when it has none.\<close>

lemma find_key:
  assumes "well_placed occ" "\<exists>i < n. occ i = None"
  obtains i where "i < n" "probe n (\<lambda>i. occ i = None \<or> occ i = Some k) (hash k) = Some i"
    "occ i = (if \<exists>j < n. occ j = Some k then Some k else None)"
proof -
  let ?stop = "\<lambda>i. occ i = None \<or> occ i = Some k"
  obtain f where f: "f < n" "occ f = None" using assms(2) by blast
  then obtain m where m: "m < n" "probe n ?stop (hash k) = Some ((hash k + m) mod n)" "?stop ((hash k + m) mod n)"
    "\<And>j. j < m \<Longrightarrow> \<not> ?stop ((hash k + j) mod n)" using probe_least[where stop = ?stop, OF hash_bound f(1)] by blast
  have "occ ((hash k + m) mod n) = Some k" if j: "j < n" "occ j = Some k" for j
  proof -
    obtain d where d: "d < n" "(hash k + d) mod n = j" using probe_reach[OF hash_bound j(1)] by blast
    then have "\<not> d < m" using m(4) j(2) by blast
    moreover have "\<not> m < d" if "occ ((hash k + m) mod n) = None"
      using assms(1) d j(2) that unfolding well_placed_def by blast
    ultimately show ?thesis using m(3) d j(2) by (metis nat_neq_iff)
  qed
  moreover have "(hash k + m) mod n < n" using hash_bound[of k] by simp
  ultimately show thesis using that m(2,3) by (metis (mono_tags, lifting))
qed

text \<open>A new key goes to the first free slot.\<close>

lemma insert_key:
  assumes "well_placed occ" "\<exists>i < n. occ i = None" "\<forall>i < n. occ i \<noteq> Some k"
  obtains i where "i < n" "probe n (\<lambda>i. occ i = None) (hash k) = Some i" "occ i = None" "well_placed (occ(i := Some k))"
proof -
  obtain f where f: "f < n" "occ f = None" using assms(2) by blast
  then obtain m where m: "m < n" "probe n (\<lambda>i. occ i = None) (hash k) = Some ((hash k + m) mod n)" "occ ((hash k + m) mod n) = None"
    "\<And>j. j < m \<Longrightarrow> occ ((hash k + j) mod n) \<noteq> None" using probe_least[where stop = "\<lambda>i. occ i = None", OF hash_bound f(1)] by blast
  let ?i = "(hash k + m) mod n"
  have i: "?i < n" using hash_bound[of k] by simp
  have "well_placed (occ(?i := Some k))"
    unfolding well_placed_def
  proof (intro allI impI)
    fix k' m' j assume a: "m' < n" "(occ(?i := Some k)) ((hash k' + m') mod n) = Some k'" "j < m'"
    show "(occ(?i := Some k)) ((hash k' + j) mod n) \<noteq> None \<and> (occ(?i := Some k)) ((hash k' + j) mod n) \<noteq> Some k'"
    proof (cases "k' = k")
      case True
      have "(hash k + m') mod n = ?i"
      proof (rule ccontr)
        assume "(hash k + m') mod n \<noteq> ?i"
        then have "occ ((hash k + m') mod n) = Some k" using a(2) True by simp
        then show False using assms(3) hash_bound[of k] by simp
      qed
      then have "m' = m" using a(1) m(1) hash_bound[of k] cyclic_inject[of "hash k" n m' m] by simp
      then have j: "j < m" using a(3) by simp
      have "(hash k + j) mod n \<noteq> ?i" using m(4)[OF j] m(3) by metis
      then show ?thesis using True m(4)[OF j(1)] assms(3) hash_bound[of k] by simp
    next
      case False
      then have "occ ((hash k' + m') mod n) = Some k'" using a(2) by (auto split: if_splits)
      with assms(1) a(1,3) have "occ ((hash k' + j) mod n) \<noteq> None \<and> occ ((hash k' + j) mod n) \<noteq> Some k'"
        unfolding well_placed_def by blast
      then show ?thesis using False by auto
    qed
  qed
  then show thesis using that[OF i m(2,3)] by blast
qed

end

end
