(* ===== verification/Hash_Table.thy ===== *)
theory Hash_Table
  imports Probing
begin

text \<open>
  Hash tables kept by linear probing in an array of entries, as the map from keys to values they stand for. An entry
  is free or holds a key and a value; the operations are a search for the slot of a key, the entry of a
  new key into the first free slot, and the entry of a new value into the slot of a key.
\<close>

definition used_key :: "('e \<Rightarrow> bool) \<Rightarrow> ('e \<Rightarrow> 'k) \<Rightarrow> 'e list \<Rightarrow> nat \<Rightarrow> 'k option" where
  "used_key free key t i = (if free (t ! i) then None else Some (key (t ! i)))"

definition table_room :: "('e \<Rightarrow> bool) \<Rightarrow> 'e list \<Rightarrow> nat" where
  "table_room free t = length (filter free t)"

definition table_map :: "('e \<Rightarrow> bool) \<Rightarrow> ('e \<Rightarrow> 'k) \<Rightarrow> ('e \<Rightarrow> 'v) \<Rightarrow> 'e list \<Rightarrow> 'k \<Rightarrow> 'v option" where
  "table_map free key val t k = map_option val (List.find (\<lambda>e. \<not> free e \<and> key e = k) t)"

text \<open>\<open>enter\<close> is the assignment of the fields of a key and a value; \<open>legal\<close> tells the values that make an entry one in use.\<close>

locale hashed_table = probing n hash for n :: nat and hash :: "'k \<Rightarrow> nat" +
  fixes free :: "'e \<Rightarrow> bool" and key :: "'e \<Rightarrow> 'k" and val :: "'e \<Rightarrow> 'v" and enter :: "'k \<Rightarrow> 'v \<Rightarrow> 'e \<Rightarrow> 'e"
    and legal :: "'v \<Rightarrow> bool"
  assumes key_enter: "key (enter k v e) = k" and val_enter: "val (enter k v e) = v"
    and free_enter: "legal v \<Longrightarrow> \<not> free (enter k v e)"
begin

abbreviation used :: "'e list \<Rightarrow> nat \<Rightarrow> 'k option" where "used \<equiv> used_key free key"
abbreviation conns :: "'e list \<Rightarrow> 'k \<Rightarrow> 'v option" where "conns \<equiv> table_map free key val"
abbreviation room :: "'e list \<Rightarrow> nat" where "room \<equiv> table_room free"

definition slot_of :: "'k \<Rightarrow> 'e list \<Rightarrow> nat option" where
  "slot_of k t = probe n (\<lambda>i. used t i = None \<or> used t i = Some k) (hash k)"

definition free_slot_for :: "'k \<Rightarrow> 'e list \<Rightarrow> nat option" where
  "free_slot_for k t = probe n (\<lambda>i. used t i = None) (hash k)"

definition add :: "'k \<Rightarrow> 'v \<Rightarrow> 'e list \<Rightarrow> 'e list option" where
  "add k v t = map_option (\<lambda>i. t[i := enter k v (t ! i)]) (free_slot_for k t)"

definition table_ok :: "'e list \<Rightarrow> bool" where
  "table_ok t = (length t = n \<and> well_placed (\<lambda>i. if i < n then used t i else None)
     \<and> (\<forall>i < n. \<forall>j < n. used t i \<noteq> None \<longrightarrow> used t i = used t j \<longrightarrow> i = j))"

lemma probe_cong:
  assumes e: "\<And>i. i < n \<Longrightarrow> f i = g i"
  shows "probe n f (hash k) = probe n g (hash k)"
proof (cases "\<exists>i < n. f i")
  case True
  then obtain i where i: "i < n" "f i" by blast
  obtain m where m: "probe n f (hash k) = Some ((hash k + m) mod n)" "f ((hash k + m) mod n)"
    "\<And>j. j < m \<Longrightarrow> \<not> f ((hash k + j) mod n)" using probe_least[where stop = f, OF hash_bound i] by blast
  have b: "x mod n < n" for x using hash_bound[of k] by simp
  have "probe n g (hash k) = Some ((hash k + m) mod n)"
    by (rule probe_found[OF hash_bound]) (use m(2,3) e[OF b] in auto)
  with m(1) show ?thesis by simp
next
  case False
  then have "probe n f (hash k) = None" "probe n g (hash k) = None"
    using probe_diverges[OF hash_bound] e by metis+
  then show ?thesis by simp
qed

lemma probe_cut: "probe n (\<lambda>i. P (used t i)) (hash k) = probe n (\<lambda>i. P (if i < n then used t i else None)) (hash k)"
  by (rule probe_cong) simp

lemma free_slot: "length t = n \<Longrightarrow> 0 < room t \<Longrightarrow> \<exists>i < n. used t i = None"
  by (fastforce simp: table_room_def used_key_def filter_empty_conv in_set_conv_nth)

lemma used_Some: "used t i = Some k \<longleftrightarrow> \<not> free (t ! i) \<and> key (t ! i) = k"
  by (simp add: used_key_def)

lemma used_None: "used t i = None \<longleftrightarrow> free (t ! i)"
  by (simp add: used_key_def)

section \<open>The map of a table\<close>

lemma conns_Some:
  assumes "table_ok t" "i < n" "used t i = Some k"
  shows "conns t k = Some (val (t ! i))"
proof -
  have u: "j = i" if "j < n" "used t j = Some k" for j
    using assms that unfolding table_ok_def by (metis option.distinct(1))
  have "List.find (\<lambda>e. \<not> free e \<and> key e = k) t = Some (t ! i)"
    unfolding find_Some_iff
  proof (intro exI[of _ i] conjI allI impI)
    show "i < length t" using assms(1,2) by (simp add: table_ok_def)
    show "\<not> free (t ! i)" "key (t ! i) = k" using assms(3) by (simp_all add: used_Some)
    fix j assume j: "j < i"
    then have "used t j \<noteq> Some k" using u[of j] assms(2) by auto
    then show "\<not> (\<not> free (t ! j) \<and> key (t ! j) = k)" by (simp add: used_Some)
  qed simp
  then show ?thesis by (simp add: table_map_def)
qed

lemma conns_None: "table_ok t \<Longrightarrow> (conns t k = None) = (\<forall>i < n. used t i \<noteq> Some k)"
  by (auto simp: table_map_def find_None_iff in_set_conv_nth used_Some table_ok_def)

lemma conns_used:
  assumes "table_ok t" "conns t k = Some v"
  obtains i where "i < n" "used t i = Some k" "v = val (t ! i)"
  using assms conns_None[OF assms(1), of k] conns_Some[OF assms(1)] by auto

section \<open>The operations\<close>

lemma slot_found:
  assumes "table_ok t" "0 < room t"
  obtains i where "i < n" "slot_of k t = Some i" "used t i = (if conns t k = None then None else Some k)"
proof -
  let ?occ = "\<lambda>i. if i < n then used t i else None"
  have t: "length t = n" "well_placed ?occ" using assms(1) by (simp_all add: table_ok_def)
  have ex: "\<exists>i < n. ?occ i = None" using free_slot[OF t(1) assms(2)] by auto
  obtain i where i: "i < n" "probe n (\<lambda>i. ?occ i = None \<or> ?occ i = Some k) (hash k) = Some i"
    "?occ i = (if \<exists>j < n. ?occ j = Some k then Some k else None)" by (rule find_key[OF t(2) ex, of k])
  have "slot_of k t = Some i" using i(2) probe_cut[of "\<lambda>x. x = None \<or> x = Some k" t k] by (simp add: slot_of_def)
  moreover have "used t i = (if conns t k = None then None else Some k)"
    using i(1,3) conns_None[OF assms(1), of k] by (auto split: if_splits)
  ultimately show thesis using that i(1) by blast
qed

text \<open>Entering a key and a value into a slot, provided the slots stay in order.\<close>

lemma enter_ok:
  assumes t: "table_ok t" and i: "i < n" and v: "legal v"
    and slot: "used t i = None \<and> conns t k = None \<or> used t i = Some k"
    and placed: "well_placed (\<lambda>j. if j = i then Some k else if j < n then used t j else None)"
  defines "t' \<equiv> t[i := enter k v (t ! i)]"
  shows "table_ok t'" "conns t' = (conns t)(k \<mapsto> v)"
proof -
  have l: "length t = n" using t by (simp add: table_ok_def)
  have u: "used t' j = (if j = i then Some k else used t j)" if "j < n" for j
    using that l i free_enter[OF v] key_enter by (simp add: t'_def used_key_def nth_list_update)
  have new: "j = i" if "j < n" "used t j = Some k" for j
  proof (cases "used t i = None")
    case True
    then have "conns t k = None" using slot by auto
    then show ?thesis using conns_None[OF t, of k] that by auto
  next
    case False
    then have "used t i = used t j" using slot that by auto
    with t i that(1) False show ?thesis unfolding table_ok_def by metis
  qed
  have "(\<lambda>j. if j < n then used t' j else None) = (\<lambda>j. if j = i then Some k else if j < n then used t j else None)"
    using u i by auto
  moreover have "\<forall>a < n. \<forall>b < n. used t' a \<noteq> None \<longrightarrow> used t' a = used t' b \<longrightarrow> a = b"
  proof (intro allI impI)
    fix a b assume ab: "a < n" "b < n" "used t' a \<noteq> None" "used t' a = used t' b"
    show "a = b"
    proof (cases "a = i \<or> b = i")
      case True
      with ab(4) new[OF ab(1)] new[OF ab(2)] show ?thesis unfolding u[OF ab(1)] u[OF ab(2)] by (auto split: if_splits)
    next
      case False
      with ab have "used t a \<noteq> None" "used t a = used t b" by (simp_all add: u)
      with t ab(1,2) show ?thesis unfolding table_ok_def by blast
    qed
  qed
  moreover have "length t' = n" using l by (simp add: t'_def)
  ultimately show ok: "table_ok t'" using placed unfolding table_ok_def by simp
  show "conns t' = (conns t)(k \<mapsto> v)"
  proof
    fix k'
    show "conns t' k' = ((conns t)(k \<mapsto> v)) k'"
    proof (cases "k' = k")
      case True
      have "val (t' ! i) = v" using i l val_enter by (simp add: t'_def)
      then show ?thesis using True conns_Some[OF ok i, of k] u[OF i] by simp
    next
      case other: False
      show ?thesis
      proof (cases "conns t k'")
        case None
        then have "\<forall>j < n. used t' j \<noteq> Some k'" using conns_None[OF t] u other by auto
        then show ?thesis using conns_None[OF ok] None other by simp
      next
        case (Some w)
        obtain j where j: "j < n" "used t j = Some k'" "w = val (t ! j)" by (rule conns_used[OF t Some])
        have "j \<noteq> i" using j(2) slot other by auto
        then have "conns t' k' = Some (val (t ! j))" using conns_Some[OF ok j(1)] u[OF j(1)] j(2) by (simp add: t'_def)
        then show ?thesis using Some j(3) other by simp
      qed
    qed
  qed
qed

lemma room_update:
  "length t = n \<Longrightarrow> i < n \<Longrightarrow> legal v \<Longrightarrow> room (t[i := enter k v (t ! i)]) + (if used t i = None then 1 else 0) = room t"
  using count_filter_update[of i t free "enter k v (t ! i)"] free_enter by (simp add: table_room_def used_None)

lemma add_ok:
  assumes "table_ok t" "0 < room t" "conns t k = None" "legal v"
  shows "\<exists>t'. add k v t = Some t' \<and> table_ok t' \<and> conns t' = (conns t)(k \<mapsto> v) \<and> Suc (room t') = room t"
proof -
  let ?occ = "\<lambda>i. if i < n then used t i else None"
  have t: "length t = n" "well_placed ?occ" using assms(1) by (simp_all add: table_ok_def)
  have ex: "\<exists>i < n. ?occ i = None" using free_slot[OF t(1) assms(2)] by auto
  have nex: "\<forall>i < n. ?occ i \<noteq> Some k" using conns_None[OF assms(1), of k] assms(3) by simp
  obtain i where i: "i < n" "probe n (\<lambda>i. ?occ i = None) (hash k) = Some i" "?occ i = None"
    "well_placed (?occ(i := Some k))" by (rule insert_key[OF t(2) ex nex])
  have "free_slot_for k t = Some i" using i(2) probe_cut[of "\<lambda>x. x = None" t k] by (simp add: free_slot_for_def)
  then have a: "add k v t = Some (t[i := enter k v (t ! i)])" by (simp add: add_def)
  have "?occ(i := Some k) = (\<lambda>j. if j = i then Some k else if j < n then used t j else None)" by auto
  with i(4) have w: "well_placed (\<lambda>j. if j = i then Some k else if j < n then used t j else None)" by simp
  have s: "used t i = None \<and> conns t k = None \<or> used t i = Some k" using i(1,3) assms(3) by simp
  note e = enter_ok[OF assms(1) i(1) assms(4) s w]
  show ?thesis using a e room_update[OF t(1) i(1) assms(4), of k] i(1,3) by simp
qed

text \<open>A new value for a key that the table holds.\<close>

lemma set_ok:
  assumes "table_ok t" "i < n" "used t i = Some k" "legal v"
  shows "table_ok (t[i := enter k v (t ! i)])" "conns (t[i := enter k v (t ! i)]) = (conns t)(k \<mapsto> v)"
    "room (t[i := enter k v (t ! i)]) = room t"
proof -
  have l: "length t = n" "well_placed (\<lambda>i. if i < n then used t i else None)" using assms(1) by (simp_all add: table_ok_def)
  have "(\<lambda>j. if j = i then Some k else if j < n then used t j else None) = (\<lambda>i. if i < n then used t i else None)"
    using assms(2,3) by auto
  with l(2) have w: "well_placed (\<lambda>j. if j = i then Some k else if j < n then used t j else None)" by simp
  show "table_ok (t[i := enter k v (t ! i)])" "conns (t[i := enter k v (t ! i)]) = (conns t)(k \<mapsto> v)"
    using enter_ok[OF assms(1,2,4) _ w] assms(3) by simp_all
  show "room (t[i := enter k v (t ! i)]) = room t" using room_update[OF l(1) assms(2,4), of k] assms(3) by simp
qed

lemma empty_ok:
  assumes "length t = n" "\<And>e. e \<in> set t \<Longrightarrow> free e"
  shows "table_ok t \<and> conns t = (\<lambda>_. None) \<and> room t = n"
proof -
  have f: "used t i = None" if "i < n" for i using that assms by (simp add: used_None)
  have "(\<lambda>i. if i < n then used t i else None) = (\<lambda>_. None)" using f by auto
  then have ok: "table_ok t" using assms(1) f by (simp add: table_ok_def well_placed_def)
  have "conns t k = None" for k using conns_None[OF ok, of k] f by simp
  moreover have "filter free t = t" using assms(2) by simp
  ultimately show ?thesis using ok assms(1) by (auto simp: table_room_def)
qed

text \<open>When the walk through a table does not end.\<close>

lemma room_empty: "length t = n \<Longrightarrow> (room t = 0) = (\<forall>i < n. used t i \<noteq> None)"
  by (auto simp: table_room_def used_None filter_empty_conv all_set_conv_all_nth)

lemma add_diverges: "length t = n \<Longrightarrow> (add k v t = None) = (room t = 0)"
  by (simp add: add_def free_slot_for_def probe_diverges[OF hash_bound] room_empty)

lemma slot_diverges: "length t = n \<Longrightarrow> (slot_of k t = None) = (room t = 0 \<and> (\<forall>i < n. used t i \<noteq> Some k))"
  by (simp add: slot_of_def probe_diverges[OF hash_bound] room_empty) blast

end

end
