(* ===== verification/Pdcp_Tables.thy ===== *)
theory Pdcp_Tables
  imports Hash_Table Harq_Packet
begin

text \<open>
  The hash tables of PDCP: \<open>ConnectionsTable\<close>, which gives a connection its logical channel, and
  \<open>SplitBearersTable\<close>, which counts the packets of a connection. The first has two sets of operations, with and without the
  direction; the number \<open>0xFFFF\<close> marks a free slot. The loops walk through the table until they find what
  they look for, so the operations have no value when they do not end.
\<close>

unbundle bit_operations_syntax

section \<open>The table of connections\<close>

definition TABLE_SIZE :: nat where "TABLE_SIZE = 2048"

record ct_entry =
  ce_srcAddr :: "32 word"
  ce_dstAddr :: "32 word"
  ce_typeOfService :: "16 word"
  ce_dir :: "16 word"
  ce_lcid :: "16 word"

type_synonym conn3 = "32 word \<times> 32 word \<times> 16 word"
type_synonym conn4 = "32 word \<times> 32 word \<times> 16 word \<times> 16 word"

definition ct_new :: "ct_entry list" where
  "ct_new = replicate TABLE_SIZE \<lparr>ce_srcAddr = -1, ce_dstAddr = -1, ce_typeOfService = -1, ce_dir = -1, ce_lcid = -1\<rparr>"

definition LCID_NONE :: "16 word" where "LCID_NONE = 0xFFFF"

definition ct_hash_func3 :: "conn3 \<Rightarrow> nat" where
  "ct_hash_func3 k = (case k of (src, dst, tos) \<Rightarrow> unat (ucast tos OR src OR dst) mod TABLE_SIZE)"

definition ct_hash_func4 :: "conn4 \<Rightarrow> nat" where
  "ct_hash_func4 k = (case k of (src, dst, tos, dir) \<Rightarrow> unat (ucast tos OR src OR dst OR ucast dir) mod TABLE_SIZE)"

definition ct_find_entry3 :: "conn3 \<Rightarrow> ct_entry list \<Rightarrow> 16 word option" where
  "ct_find_entry3 k t = (case k of (src, dst, tos) \<Rightarrow>
     map_option (\<lambda>i. if ce_lcid (t ! i) = LCID_NONE then LCID_NONE else ce_lcid (t ! i))
       (probe TABLE_SIZE (\<lambda>i. ce_lcid (t ! i) = LCID_NONE
          \<or> (ce_srcAddr (t ! i) = src \<and> ce_dstAddr (t ! i) = dst \<and> ce_typeOfService (t ! i) = tos)) (ct_hash_func3 k)))"

definition ct_find_entry4 :: "conn4 \<Rightarrow> ct_entry list \<Rightarrow> 16 word option" where
  "ct_find_entry4 k t = (case k of (src, dst, tos, dir) \<Rightarrow>
     map_option (\<lambda>i. if ce_lcid (t ! i) = LCID_NONE then LCID_NONE else ce_lcid (t ! i))
       (probe TABLE_SIZE (\<lambda>i. ce_lcid (t ! i) = LCID_NONE
          \<or> (ce_srcAddr (t ! i) = src \<and> ce_dstAddr (t ! i) = dst \<and> ce_typeOfService (t ! i) = tos \<and> ce_dir (t ! i) = dir))
          (ct_hash_func4 k)))"

definition ct_create_entry3 :: "conn3 \<Rightarrow> 16 word \<Rightarrow> ct_entry list \<Rightarrow> ct_entry list option" where
  "ct_create_entry3 k lcid t = (case k of (src, dst, tos) \<Rightarrow>
     map_option (\<lambda>i. t[i := (t ! i)\<lparr>ce_srcAddr := src, ce_dstAddr := dst, ce_typeOfService := tos, ce_lcid := lcid\<rparr>])
       (probe TABLE_SIZE (\<lambda>i. ce_lcid (t ! i) = LCID_NONE) (ct_hash_func3 k)))"

definition ct_create_entry4 :: "conn4 \<Rightarrow> 16 word \<Rightarrow> ct_entry list \<Rightarrow> ct_entry list option" where
  "ct_create_entry4 k lcid t = (case k of (src, dst, tos, dir) \<Rightarrow>
     map_option (\<lambda>i. t[i := (t ! i)\<lparr>ce_srcAddr := src, ce_dstAddr := dst, ce_typeOfService := tos, ce_dir := dir, ce_lcid := lcid\<rparr>])
       (probe TABLE_SIZE (\<lambda>i. ce_lcid (t ! i) = LCID_NONE) (ct_hash_func4 k)))"

section \<open>Assigning logical channels\<close>

text \<open>
  The step that \<open>fromDataPort\<close> of every PDCP class takes: the table is searched and a connection that is not there gets the next
  number. \<open>lcid_\<close> is a 16-bit counter.
\<close>

definition pd_assignLcid ::
  "('k \<Rightarrow> 't \<Rightarrow> 16 word option) \<Rightarrow> ('k \<Rightarrow> 16 word \<Rightarrow> 't \<Rightarrow> 't option) \<Rightarrow> 'k \<Rightarrow> 't \<times> 16 word \<Rightarrow> (16 word \<times> 't \<times> 16 word) option" where
  "pd_assignLcid find_entry create_entry k s = (case s of (ht, lcid) \<Rightarrow>
     case find_entry k ht of
       None \<Rightarrow> None
     | Some mylcid \<Rightarrow>
         if mylcid = LCID_NONE then map_option (\<lambda>ht'. (lcid, ht', lcid + 1)) (create_entry k lcid ht) else Some (mylcid, ht, lcid))"

fun pd_assignAll ::
  "('k \<Rightarrow> 't \<Rightarrow> 16 word option) \<Rightarrow> ('k \<Rightarrow> 16 word \<Rightarrow> 't \<Rightarrow> 't option) \<Rightarrow> 'k list \<Rightarrow> 't \<times> 16 word \<Rightarrow> (16 word list \<times> 't \<times> 16 word) option" where
  "pd_assignAll f c [] s = Some ([], s)"
| "pd_assignAll f c (k # ks) s = (case pd_assignLcid f c k s of
      None \<Rightarrow> None
    | Some (l, s1) \<Rightarrow> map_option (\<lambda>(ls, s2). (l # ls, s2)) (pd_assignAll f c ks s1))"

section \<open>What a table of connections promises\<close>

text \<open>\<open>conns\<close> is the map a table stands for and \<open>room\<close> the number of connections it can still take.\<close>

locale conn_store =
  fixes find_entry :: "'k \<Rightarrow> 't \<Rightarrow> 16 word option"
    and create_entry :: "'k \<Rightarrow> 16 word \<Rightarrow> 't \<Rightarrow> 't option"
    and ok :: "'t \<Rightarrow> bool" and conns :: "'t \<Rightarrow> 'k \<Rightarrow> 16 word option" and room :: "'t \<Rightarrow> nat"
  assumes find: "ok t \<Longrightarrow> 0 < room t \<Longrightarrow> find_entry k t = Some (case conns t k of None \<Rightarrow> LCID_NONE | Some v \<Rightarrow> v)"
    and create: "ok t \<Longrightarrow> 0 < room t \<Longrightarrow> conns t k = None \<Longrightarrow> v \<noteq> LCID_NONE \<Longrightarrow>
      \<exists>t'. create_entry k v t = Some t' \<and> ok t' \<and> conns t' = (conns t)(k \<mapsto> v) \<and> Suc (room t') = room t"
    and real: "ok t \<Longrightarrow> conns t k = Some v \<Longrightarrow> v \<noteq> LCID_NONE"
begin

text \<open>The numbers given so far are those below the counter, each to one connection.\<close>

definition assigned :: "'t \<times> 16 word \<Rightarrow> nat \<Rightarrow> bool" where
  "assigned s c = (ok (fst s) \<and> snd s = of_nat (Suc c) \<and> Suc c + room (fst s) < 2 ^ 16 - 1
     \<and> (\<forall>k v. conns (fst s) k = Some v \<longrightarrow> 0 < unat v \<and> unat v \<le> c)
     \<and> (\<forall>k k' v. conns (fst s) k = Some v \<longrightarrow> conns (fst s) k' = Some v \<longrightarrow> k = k'))"

lemma assign_step:
  assumes "assigned s c" "0 < room (fst s)"
  shows "\<exists>l s' c'. pd_assignLcid find_entry create_entry k s = Some (l, s') \<and> assigned s' c' \<and> conns (fst s') k = Some l
    \<and> (\<forall>k' v. conns (fst s) k' = Some v \<longrightarrow> conns (fst s') k' = Some v)
    \<and> conns (fst s') = (conns (fst s))(k \<mapsto> l)
    \<and> room (fst s) \<le> Suc (room (fst s')) \<and> (conns (fst s) k \<noteq> None \<longrightarrow> s' = s)"
proof -
  obtain t n where s: "s = (t, n)" by fastforce
  have a: "ok t" "n = of_nat (Suc c)" "Suc c + room t < 2 ^ 16 - 1" "\<And>k v. conns t k = Some v \<Longrightarrow> 0 < unat v \<and> unat v \<le> c"
    "\<And>k k' v. conns t k = Some v \<Longrightarrow> conns t k' = Some v \<Longrightarrow> k = k'" using assms(1) by (auto simp: assigned_def s)
  note f = find[OF a(1), of k]
  show ?thesis
  proof (cases "conns t k")
    case (Some v)
    with f real[OF a(1) Some] assms show ?thesis
      by (intro exI[of _ v] exI[of _ s] exI[of _ c]) (auto simp: s pd_assignLcid_def)
  next
    case None
    have n: "unat n = Suc c" unfolding a(2) using a(3) by (simp add: unsigned_of_nat take_bit_nat_eq_self del: of_nat_Suc)
    have "n \<noteq> LCID_NONE"
    proof
      assume "n = LCID_NONE"
      then have "Suc c = 65535" using n by (simp add: LCID_NONE_def)
      with a(3) show False by simp
    qed
    from create[OF a(1) _ None this] assms(2) obtain t' where t': "create_entry k n t = Some t'" "ok t'" "conns t' = (conns t)(k \<mapsto> n)"
      "Suc (room t') = room t" by (auto simp: s)
    have "pd_assignLcid find_entry create_entry k s = Some (n, t', n + 1)"
      using f assms(2) None t'(1) by (simp add: pd_assignLcid_def s)
    moreover have "assigned (t', n + 1) (Suc c)"
    proof -
      have "n + 1 = of_nat (Suc (Suc c))" using a(2) by simp
      moreover have fresh: "conns t k1 \<noteq> Some n" for k1 using a(4)[of k1 n] n by auto
      then have "k1 = k2" if "conns t' k1 = Some v" "conns t' k2 = Some v" for k1 k2 v
        using that a(5)[of k1 v k2] fresh t'(3) by (auto split: if_splits)
      moreover have "0 < unat v \<and> unat v \<le> Suc c" if "conns t' k1 = Some v" for k1 v
        using that a(4)[of k1 v] n t'(3) by (auto split: if_splits)
      ultimately show ?thesis using t'(2,4) a(3) by (simp add: assigned_def)
    qed
    ultimately show ?thesis using t'(3,4) None
      by (intro exI[of _ n] exI[of _ "(t', n + 1)"] exI[of _ "Suc c"]) (auto simp: s)
  qed
qed

text \<open>Equal numbers are given to equal connections, and the other way round.\<close>

lemma assign_all:
  assumes "assigned s c" "card (set ks - dom (conns (fst s))) < room (fst s)" 
  shows "\<exists>ls s'. pd_assignAll find_entry create_entry ks s = Some (ls, s') \<and> (\<exists>c'. assigned s' c')
    \<and> list_all2 (\<lambda>k l. conns (fst s') k = Some l) ks ls \<and> (\<forall>k v. conns (fst s) k = Some v \<longrightarrow> conns (fst s') k = Some v)"
  using assms
proof (induction ks arbitrary: s c)
  case (Cons k ks)
  have "0 < room (fst s)" using Cons.prems(2) by simp
  from assign_step[OF Cons.prems(1) this, of k] obtain l s1 c1 where
    a: "pd_assignLcid find_entry create_entry k s = Some (l, s1)" "assigned s1 c1" "conns (fst s1) k = Some l"
    "\<And>k' v. conns (fst s) k' = Some v \<Longrightarrow> conns (fst s1) k' = Some v" "conns (fst s1) = (conns (fst s))(k \<mapsto> l)"
    "room (fst s) \<le> Suc (room (fst s1))" "conns (fst s) k \<noteq> None \<Longrightarrow> s1 = s" by blast
  let ?D = "dom (conns (fst s))"
  have "card (set ks - dom (conns (fst s1))) < room (fst s1)"
  proof (cases "k \<in> ?D")
    case True
    then have "s1 = s" using a(7) by blast
    moreover have "set (k # ks) - ?D = set ks - ?D" using True by auto
    ultimately show ?thesis using Cons.prems(2) by simp
  next
    case False
    have "set (k # ks) - ?D = insert k (set ks - insert k ?D)" using False by auto
    then have "card (set (k # ks) - ?D) = Suc (card (set ks - insert k ?D))" by (simp del: insert_Diff_single)
    then show ?thesis using a(5,6) Cons.prems(2) by simp
  qed
  from Cons.IH[OF a(2) this] obtain ls s2 where b: "pd_assignAll find_entry create_entry ks s1 = Some (ls, s2)" "\<exists>c'. assigned s2 c'"
    "list_all2 (\<lambda>k l. conns (fst s2) k = Some l) ks ls" "\<And>k v. conns (fst s1) k = Some v \<Longrightarrow> conns (fst s2) k = Some v" by blast
  with a show ?case by (intro exI[of _ "l # ls"] exI[of _ s2]) auto
qed auto

lemma assign_distinct:
  assumes "assigned s c" "card (set ks - dom (conns (fst s))) < room (fst s)"
  shows "\<exists>ls s'. pd_assignAll find_entry create_entry ks s = Some (ls, s') \<and> length ls = length ks
    \<and> (\<forall>i < length ks. \<forall>j < length ks. (ls ! i = ls ! j) = (ks ! i = ks ! j))"
proof -
  from assign_all[OF assms] obtain ls s' c' where a: "pd_assignAll find_entry create_entry ks s = Some (ls, s')" "assigned s' c'"
    "list_all2 (\<lambda>k l. conns (fst s') k = Some l) ks ls" by blast
  have l: "length ls = length ks" using a(3) by (simp add: list_all2_lengthD)
  have c: "conns (fst s') (ks ! i) = Some (ls ! i)" if "i < length ks" for i using list_all2_nthD[OF a(3) that] .
  have "(ls ! i = ls ! j) = (ks ! i = ks ! j)" if "i < length ks" "j < length ks" for i j
    using c[OF that(1)] c[OF that(2)] a(2) unfolding assigned_def by (metis option.inject)
  with a(1) l show ?thesis by blast
qed

end

section \<open>A hash table is such a table\<close>

abbreviation free_entry :: "ct_entry \<Rightarrow> bool" where "free_entry e \<equiv> ce_lcid e = LCID_NONE"
abbreviation real_lcid :: "16 word \<Rightarrow> bool" where "real_lcid v \<equiv> v \<noteq> LCID_NONE"

locale conn_table = hashed_table TABLE_SIZE hash free_entry key ce_lcid enter real_lcid
  for hash :: "'k \<Rightarrow> nat" and key :: "ct_entry \<Rightarrow> 'k" and enter :: "'k \<Rightarrow> 16 word \<Rightarrow> ct_entry \<Rightarrow> ct_entry"
begin

definition lookup :: "'k \<Rightarrow> ct_entry list \<Rightarrow> 16 word option" where
  "lookup k t = map_option (\<lambda>i. ce_lcid (t ! i)) (slot_of k t)"

lemma lookup_ok:
  assumes "table_ok t" "0 < room t"
  shows "lookup k t = Some (case conns t k of None \<Rightarrow> LCID_NONE | Some v \<Rightarrow> v)"
proof -
  obtain i where i: "i < TABLE_SIZE" "slot_of k t = Some i" "used t i = (if conns t k = None then None else Some k)"
    by (rule slot_found[OF assms])
  show ?thesis
  proof (cases "conns t k")
    case None
    then have "used t i = None" using i(3) by simp
    then show ?thesis using i(2) None by (simp add: lookup_def used_None)
  next
    case (Some v)
    then have "used t i = Some k" using i(3) by simp
    then have "conns t k = Some (ce_lcid (t ! i))" by (rule conns_Some[OF assms(1) i(1)])
    then show ?thesis using i(2) by (simp add: lookup_def)
  qed
qed

lemma conns_real: "conns t k = Some v \<Longrightarrow> v \<noteq> LCID_NONE"
  by (auto simp: table_map_def find_Some_iff)

lemma new_ok: "table_ok ct_new \<and> conns ct_new = (\<lambda>_. None) \<and> room ct_new = TABLE_SIZE"
  by (rule empty_ok) (auto simp: ct_new_def LCID_NONE_def)

lemma lookup_diverges: "length t = TABLE_SIZE \<Longrightarrow> (lookup k t = None) = (room t = 0 \<and> (\<forall>i < TABLE_SIZE. used t i \<noteq> Some k))"
  by (simp add: lookup_def slot_diverges)

sublocale conn_store lookup add table_ok conns room
  using lookup_ok add_ok conns_real by unfold_locales

lemma new_assigned: "assigned (ct_new, 1) 0"
  unfolding assigned_def using new_ok by (simp add: TABLE_SIZE_def)

lemma new_assign:
  assumes "card (set ks) < TABLE_SIZE"
  shows "\<exists>ls s'. pd_assignAll lookup add ks (ct_new, 1) = Some (ls, s') \<and> length ls = length ks
    \<and> (\<forall>i < length ks. \<forall>j < length ks. (ls ! i = ls ! j) = (ks ! i = ks ! j))"
  using assms new_ok by (intro assign_distinct[OF new_assigned]) simp

end

section \<open>The operations of the class are those\<close>

definition key3 :: "ct_entry \<Rightarrow> conn3" where
  "key3 e = (ce_srcAddr e, ce_dstAddr e, ce_typeOfService e)"

definition key4 :: "ct_entry \<Rightarrow> conn4" where
  "key4 e = (ce_srcAddr e, ce_dstAddr e, ce_typeOfService e, ce_dir e)"

definition enter3 :: "conn3 \<Rightarrow> 16 word \<Rightarrow> ct_entry \<Rightarrow> ct_entry" where
  "enter3 k v e = (case k of (src, dst, tos) \<Rightarrow> e\<lparr>ce_srcAddr := src, ce_dstAddr := dst, ce_typeOfService := tos, ce_lcid := v\<rparr>)"

definition enter4 :: "conn4 \<Rightarrow> 16 word \<Rightarrow> ct_entry \<Rightarrow> ct_entry" where
  "enter4 k v e = (case k of (src, dst, tos, dir) \<Rightarrow>
     e\<lparr>ce_srcAddr := src, ce_dstAddr := dst, ce_typeOfService := tos, ce_dir := dir, ce_lcid := v\<rparr>)"

interpretation t3: conn_table ct_hash_func3 key3 enter3
  by unfold_locales (auto simp: ct_hash_func3_def TABLE_SIZE_def key3_def enter3_def split: prod.splits)

interpretation t4: conn_table ct_hash_func4 key4 enter4
  by unfold_locales (auto simp: ct_hash_func4_def TABLE_SIZE_def key4_def enter4_def split: prod.splits)

lemma used_stop: "used_key free key t i = None \<longleftrightarrow> free (t ! i)"
  "(used_key free key t i = None \<or> used_key free key t i = Some k) \<longleftrightarrow> (free (t ! i) \<or> key (t ! i) = k)"
  by (auto simp: used_key_def)

lemma find_entry3_lookup: "ct_find_entry3 = t3.lookup"
  unfolding t3.lookup_def t3.slot_of_def used_stop(2)
  by (intro ext) (auto simp: ct_find_entry3_def key3_def option.map_ident intro!: arg_cong2[where f = map_option] split: prod.splits)

lemma find_entry4_lookup: "ct_find_entry4 = t4.lookup"
  unfolding t4.lookup_def t4.slot_of_def used_stop(2)
  by (intro ext) (auto simp: ct_find_entry4_def key4_def option.map_ident intro!: arg_cong2[where f = map_option] split: prod.splits)

lemma create_entry3_add: "ct_create_entry3 = t3.add"
  by (intro ext) (auto simp: ct_create_entry3_def t3.add_def t3.free_slot_for_def used_stop(1) enter3_def split: prod.splits)

lemma create_entry4_add: "ct_create_entry4 = t4.add"
  by (intro ext) (auto simp: ct_create_entry4_def t4.add_def t4.free_slot_for_def used_stop(1) enter4_def split: prod.splits)

lemmas table_operations = find_entry3_lookup find_entry4_lookup create_entry3_add create_entry4_add

end
