(* ===== verification/Split_Bearers.thy ===== *)
theory Split_Bearers
  imports Pdcp_Tables
begin

text \<open>
  \<open>SplitBearersTable\<close> (\<open>stack/ip2nic/SplitBearersTable.cc\<close>), the hash table in which a base station or a UE
  counts the packets of a connection that uses a split bearer. A packet of a known connection increments the
  counter, an \<open>int\<close>, whose increment past \<open>INT_MAX\<close> is undefined; the walk through a table that is full
  does not end.
\<close>

definition INT_MAX :: int where "INT_MAX = 2147483647"

record sb_entry =
  se_present :: bool
  se_srcAddr :: "32 word"
  se_dstAddr :: "32 word"
  se_typeOfService :: "16 word"
  se_number :: int

definition sb_new :: "sb_entry list" where
  "sb_new = replicate TABLE_SIZE \<lparr>se_present = False, se_srcAddr = 0, se_dstAddr = 0, se_typeOfService = 0, se_number = 0\<rparr>"

definition sb_hash_func :: "conn3 \<Rightarrow> nat" where
  "sb_hash_func k = (case k of (src, dst, tos) \<Rightarrow> unat (ucast tos OR src OR dst) mod TABLE_SIZE)"

text \<open>The value of a walk that may not end.\<close>

definition walk :: "'a option \<Rightarrow> 'a cpp" where
  "walk r = (case r of None \<Rightarrow> Inl Endless_Loop | Some x \<Rightarrow> Inr x)"

lemma walk_simps [simp]: "walk None = Inl Endless_Loop" "walk (Some x) = Inr x"
  by (simp_all add: walk_def)

definition sb_find_entry :: "conn3 \<Rightarrow> sb_entry list \<Rightarrow> (int \<times> sb_entry list) cpp" where
  "sb_find_entry k t = (case k of (src, dst, tos) \<Rightarrow>
     cpp_bind (walk (probe TABLE_SIZE (\<lambda>i. \<not> se_present (t ! i)
        \<or> (se_srcAddr (t ! i) = src \<and> se_dstAddr (t ! i) = dst \<and> se_typeOfService (t ! i) = tos)) (sb_hash_func k)))
     (\<lambda>i. if \<not> se_present (t ! i) then Inr (-1, t)
          else if se_number (t ! i) = INT_MAX then Inl Undefined_Behaviour
          else Inr (se_number (t ! i) + 1, t[i := (t ! i)\<lparr>se_number := se_number (t ! i) + 1\<rparr>])))"

definition sb_create_entry :: "conn3 \<Rightarrow> sb_entry list \<Rightarrow> (int \<times> sb_entry list) cpp" where
  "sb_create_entry k t = (case k of (src, dst, tos) \<Rightarrow>
     cpp_bind (walk (probe TABLE_SIZE (\<lambda>i. \<not> se_present (t ! i)) (sb_hash_func k)))
     (\<lambda>i. Inr (0, t[i := \<lparr>se_present = True, se_srcAddr = src, se_dstAddr = dst, se_typeOfService = tos, se_number = 0\<rparr>])))"

text \<open>The number of a packet, as \<open>IP2Nic::markPacket\<close> obtains it.\<close>

definition sb_number :: "conn3 \<Rightarrow> sb_entry list \<Rightarrow> (int \<times> sb_entry list) cpp" where
  "sb_number k t = cpp_bind (sb_find_entry k t) (\<lambda>(sentPackets, t1).
     if sentPackets < 0 then sb_create_entry k t1 else Inr (sentPackets, t1))"

section \<open>The table counts\<close>

definition sb_key :: "sb_entry \<Rightarrow> conn3" where
  "sb_key e = (se_srcAddr e, se_dstAddr e, se_typeOfService e)"

definition sb_enter :: "conn3 \<Rightarrow> int \<Rightarrow> sb_entry \<Rightarrow> sb_entry" where
  "sb_enter k v e = (case k of (src, dst, tos) \<Rightarrow>
     \<lparr>se_present = True, se_srcAddr = src, se_dstAddr = dst, se_typeOfService = tos, se_number = v\<rparr>)"

interpretation sb: hashed_table TABLE_SIZE sb_hash_func "\<lambda>e. \<not> se_present e" sb_key se_number sb_enter "\<lambda>_. True"
  by unfold_locales (auto simp: sb_hash_func_def TABLE_SIZE_def sb_key_def sb_enter_def split: prod.splits)

lemma sb_slot: "sb.slot_of (src, dst, tos) t = probe TABLE_SIZE (\<lambda>i. \<not> se_present (t ! i)
    \<or> (se_srcAddr (t ! i) = src \<and> se_dstAddr (t ! i) = dst \<and> se_typeOfService (t ! i) = tos)) (sb_hash_func (src, dst, tos))"
  unfolding sb.slot_of_def used_stop(2) by (simp add: sb_key_def)

lemma sb_create_add: "sb_create_entry k t = cpp_bind (walk (sb.add k 0 t)) (\<lambda>t'. Inr (0, t'))"
  unfolding sb.add_def sb.free_slot_for_def used_stop(1)
  by (auto simp: sb_create_entry_def sb_enter_def walk_def cpp_bind_def split: prod.splits option.splits)

text \<open>The abstract counter: the number of packets a connection has had, less one.\<close>

lemma sb_number_new:
  assumes "sb.table_ok t" "0 < sb.room t" "sb.conns t k = None"
  shows "\<exists>t'. sb_number k t = Inr (0, t') \<and> sb.table_ok t' \<and> sb.conns t' = (sb.conns t)(k \<mapsto> 0) \<and> Suc (sb.room t') = sb.room t"
proof -
  obtain src dst tos where k: "k = (src, dst, tos)" by (cases k)
  obtain i where i: "i < TABLE_SIZE" "sb.slot_of k t = Some i" "sb.used t i = None"
    by (rule sb.slot_found[OF assms(1,2), of k]) (use assms(3) in simp)
  have "\<not> se_present (t ! i)" using i(3) unfolding sb.used_None .
  then have "sb_find_entry k t = Inr (-1, t)" using i(2) by (simp add: sb_find_entry_def k sb_slot)
  moreover obtain t' where "sb.add k 0 t = Some t'" "sb.table_ok t'" "sb.conns t' = (sb.conns t)(k \<mapsto> 0)" "Suc (sb.room t') = sb.room t"
    using sb.add_ok[OF assms, of 0] by blast
  ultimately show ?thesis by (intro exI[of _ t']) (simp add: sb_number_def sb_create_add)
qed

lemma sb_number_next:
  assumes "sb.table_ok t" "0 < sb.room t" "sb.conns t k = Some v" "0 \<le> v" "v < INT_MAX"
  shows "\<exists>t'. sb_number k t = Inr (v + 1, t') \<and> sb.table_ok t' \<and> sb.conns t' = (sb.conns t)(k \<mapsto> v + 1) \<and> sb.room t' = sb.room t"
proof -
  obtain src dst tos where k: "k = (src, dst, tos)" by (cases k)
  obtain i where i: "i < TABLE_SIZE" "sb.slot_of k t = Some i" "sb.used t i = Some k"
    by (rule sb.slot_found[OF assms(1,2), of k]) (use assms(3) in simp)
  have n: "se_number (t ! i) = v" using sb.conns_Some[OF assms(1) i(1,3)] assms(3) by simp
  have p: "se_present (t ! i)" "sb_key (t ! i) = k" using i(3) unfolding sb.used_Some by simp_all
  have e: "(t ! i)\<lparr>se_number := v + 1\<rparr> = sb_enter k (v + 1) (t ! i)" using p by (cases "t ! i") (auto simp: sb_key_def sb_enter_def)
  have "sb_find_entry k t = Inr (v + 1, t[i := sb_enter k (v + 1) (t ! i)])"
    using i(2) p(1) n assms(5) e by (simp add: sb_find_entry_def k sb_slot)
  then have "sb_number k t = Inr (v + 1, t[i := sb_enter k (v + 1) (t ! i)])" using assms(4) by (simp add: sb_number_def)
  then show ?thesis using sb.set_ok[OF assms(1) i(1,3), of "v + 1"] by blast
qed

text \<open>\<open>sb_counts t h\<close>: the table counts the packets of the history \<open>h\<close>.\<close>

definition sb_counts :: "sb_entry list \<Rightarrow> conn3 list \<Rightarrow> bool" where
  "sb_counts t h = (sb.table_ok t \<and> card (set h) + sb.room t = TABLE_SIZE
     \<and> (\<forall>k. sb.conns t k = (if k \<in> set h then Some (int (count_list h k) - 1) else None)))"

lemma sb_counts_new: "sb_counts sb_new []"
  using sb.empty_ok[of sb_new] by (simp add: sb_counts_def sb_new_def)

lemma count_list_pos: "k \<in> set h \<Longrightarrow> 0 < count_list h k"
  by (metis count_list_0_iff gr0I)

lemma sb_number_counts:
  assumes "sb_counts t h" "card (set h) < TABLE_SIZE" "int (length h) < INT_MAX"
  shows "\<exists>t'. sb_number k t = Inr (int (count_list h k), t') \<and> sb_counts t' (h @ [k])"
proof -
  have t: "sb.table_ok t" "0 < sb.room t" "card (set h) + sb.room t = TABLE_SIZE"
    and c: "\<And>k. sb.conns t k = (if k \<in> set h then Some (int (count_list h k) - 1) else None)"
    using assms(1,2) by (auto simp: sb_counts_def)
  have le: "int (count_list h k) < INT_MAX" using assms(3) count_le_length[of h k] by linarith
  show ?thesis
  proof (cases "k \<in> set h")
    case True
    then have "sb.conns t k = Some (int (count_list h k) - 1)" using c by simp
    moreover have "0 < count_list h k" using True by (rule count_list_pos)
    ultimately obtain t' where "sb_number k t = Inr (int (count_list h k), t')" "sb.table_ok t'"
      "sb.conns t' = (sb.conns t)(k \<mapsto> int (count_list h k))" "sb.room t' = sb.room t"
      using sb_number_next[OF t(1,2), of k "int (count_list h k) - 1"] le by auto
    then show ?thesis using t(3) c True by (intro exI[of _ t']) (auto simp: sb_counts_def insert_absorb)
  next
    case False
    then have n: "sb.conns t k = None" "count_list h k = 0" using c by (simp_all add: count_list_0_iff)
    from sb_number_new[OF t(1,2) n(1)] obtain t' where "sb_number k t = Inr (0, t')" "sb.table_ok t'"
      "sb.conns t' = (sb.conns t)(k \<mapsto> 0)" "Suc (sb.room t') = sb.room t" by blast
    then show ?thesis using t(3) c False n(2) by (intro exI[of _ t']) (auto simp: sb_counts_def)
  qed
qed

end
