(* ===== verification/Pdcp_Layer.thy ===== *)
theory Pdcp_Layer
  imports Pdcp_Entity Split_Bearers
begin

text \<open>
  The PDCP modules: the base class \<open>LtePdcpRrcBase\<close> with \<open>LtePdcpRrcUe\<close> and \<open>LtePdcpRrcEnb\<close> (\<open>LtePdcpRrc.cc\<close>), their variants for
  device-to-device links (\<open>LtePdcpRrcUeD2D.cc\<close>, \<open>LtePdcpRrcEnbD2D.cc\<close>) and NR (\<open>NRPdcpRrcEnb.cc\<close>, \<open>NRPdcpRrcUe.cc\<close>), and the
  transmitting entities (\<open>LteTxPdcpEntity.cc\<close>, \<open>NRTxPdcpEntity.cc\<close>). One record holds the state of a module of any class;
  \<open>pd_class\<close> selects the overridden methods. Signals, protocol tags and logging are left out.
\<close>

datatype pdcp_class = Lte_Ue | Lte_Enb | Lte_Ue_D2D | Lte_Enb_D2D | Nr_Enb | Nr_Ue

definition class_isUe :: "pdcp_class \<Rightarrow> bool" where
  "class_isUe c = (c = Lte_Ue \<or> c = Lte_Ue_D2D \<or> c = Nr_Ue)"

definition class_isNr :: "pdcp_class \<Rightarrow> bool" where
  "class_isNr c = (c = Nr_Enb \<or> c = Nr_Ue)"

text \<open>A transmitting entity keeps the next sequence number; a receiving LTE entity has no state, an NR one reorders.\<close>

record pdcp =
  pd_class :: pdcp_class
  pd_ht :: "ct_entry list"
  pd_lcid :: logical_cid
  pd_nodeId :: node_id
  pd_nrNodeId :: node_id
  pd_headerCompressedSize :: int
  pd_dualConnectivityEnabled :: bool
  pd_conversationalRlc :: rlc_type
  pd_interactiveRlc :: rlc_type
  pd_streamingRlc :: rlc_type
  pd_backgroundRlc :: rlc_type
  pd_txEntities :: "mac_cid \<Rightarrow> 32 word option"
  pd_rxEntities :: "mac_cid \<Rightarrow> pdcp_rx option"
  pd_rxOutOfOrder :: bool
  pd_rxWindowSize :: "32 word"
  pd_packetFlowManager :: bool
  pd_NRpacketFlowManager :: bool

datatype rlc_port = Tm_Port | Um_Port | Am_Port | Nr_Um_Port | Nr_Am_Port

datatype pdcp_effect =
    Pd_To_Data_Port pd_packet
  | Pd_To_Rlc rlc_port pd_packet
  | Pd_Control flow_control pd_packet
  | Pd_To_Eutran pd_packet
  | Pd_Forward pd_packet node_id
  | Pd_Flow_Insert bool pd_packet
  | Pd_Flow_Received pd_packet

text \<open>The registry is part of the state: a multicast packet of a UE makes it a multicast transmitter.\<close>

type_synonym pdcp_result = "(pdcp_effect list \<times> pdcp \<times> registry) cpp"

definition pd_initialize :: "pdcp \<Rightarrow> pdcp cpp" where
  "pd_initialize pd =
     (if isCompressionEnabled (pd_headerCompressedSize pd) \<and> pd_headerCompressedSize pd < MIN_COMPRESSED_HEADER_SIZE
      then Inl (Runtime_Error ''Size of compressed header must not be less than 3'')
      else Inr (pd\<lparr>pd_ht := ct_new, pd_lcid := 1, pd_txEntities := (\<lambda>_. None), pd_rxEntities := (\<lambda>_. None)\<rparr>))"

definition pd_isDualConnectivityEnabled :: "pdcp \<Rightarrow> bool" where
  "pd_isDualConnectivityEnabled pd = (class_isNr (pd_class pd) \<and> pd_dualConnectivityEnabled pd)"

definition pd_getNrNodeId :: "pdcp \<Rightarrow> node_id" where
  "pd_getNrNodeId pd = (if pd_class pd = Nr_Ue then pd_nrNodeId pd else pd_nodeId pd)"

section \<open>Directions and destinations\<close>

definition pd_getDirection :: "pdcp \<Rightarrow> direction" where
  "pd_getDirection pd = (if class_isUe (pd_class pd) then UL else DL)"

text \<open>The direction from one UE to another, in the D2D and NR classes. The mode is read only for a pair that the registry knows.\<close>

definition pd_getDirectionTo :: "registry \<Rightarrow> node_id \<Rightarrow> node_id \<Rightarrow> direction cpp" where
  "pd_getDirectionTo b srcId destId = cpp_bind (bi_getD2DCapability srcId destId b) (\<lambda>cap.
     if \<not> cap then Inr UL
     else cpp_bind (bi_getD2DMode srcId destId b) (\<lambda>(mode, _). Inr (if mode = DM then D2D else UL)))"

text \<open>At a base station: the UE, or the node through which it is reached.\<close>

definition pd_viaMaster :: "registry \<Rightarrow> node_id \<Rightarrow> node_id \<Rightarrow> node_id cpp" where
  "pd_viaMaster b nodeId destId = cpp_bind (bi_getNextHop destId b) (\<lambda>master.
     if master \<noteq> nodeId then Inr master
     else cpp_bind (bi_getMasterNode master b) (\<lambda>m. Inr (if m \<noteq> nodeId then m else destId)))"

definition pd_getDestId :: "registry \<Rightarrow> flow_control \<Rightarrow> pdcp \<Rightarrow> node_id cpp" where
  "pd_getDestId b info pd = (case pd_class pd of
      Lte_Ue \<Rightarrow> bi_getNextHop (pd_nodeId pd) b
    | Lte_Ue_D2D \<Rightarrow> cpp_bind (bi_getMacNodeId (fc_dstAddr info) b) (\<lambda>destId.
        if destId = 0 then bi_getNextHop (fl_sourceId info) b
        else cpp_bind (pd_getDirectionTo b (pd_nodeId pd) destId) (\<lambda>d.
          if d = UL then bi_getNextHop (fl_sourceId info) b else Inr destId))
    | Nr_Ue \<Rightarrow> cpp_bind (bi_getMacNodeId (fc_dstAddr info) b) (\<lambda>destId.
        if destId = 0 then bi_getNextHop (fl_sourceId info) b
        else cpp_bind (pd_getDirectionTo b (if fc_useNR info then pd_nrNodeId pd else pd_nodeId pd) destId) (\<lambda>d.
          if d = UL then bi_getNextHop (fl_sourceId info) b else Inr destId))
    | Nr_Enb \<Rightarrow> cpp_bind (if \<not> pd_dualConnectivityEnabled pd \<or> fc_useNR info then Inr (bi_getNrMacNodeId (fc_dstAddr info) b)
                            else bi_getMacNodeId (fc_dstAddr info) b) (pd_viaMaster b (pd_nodeId pd))
    | _ \<Rightarrow> cpp_bind (bi_getMacNodeId (fc_dstAddr info) b) (pd_viaMaster b (pd_nodeId pd)))"

section \<open>Traffic\<close>

definition pd_setTrafficInformation :: "string \<Rightarrow> flow_control \<Rightarrow> pdcp \<Rightarrow> flow_control" where
  "pd_setTrafficInformation nm info pd =
     (let (app, traffic, rlc) =
        (if nm = ''VoIP'' then (VOIP, CONVERSATIONAL, pd_conversationalRlc pd)
         else if nm = ''gaming'' then (GAMING, INTERACTIVE, pd_interactiveRlc pd)
         else if nm = ''VoDPacket'' \<or> nm = ''VoDFinishPacket'' then (VOD, STREAMING, pd_streamingRlc pd)
         else (CBR, BACKGROUND, pd_backgroundRlc pd))
      in info\<lparr>fc_application := app, fc_traffic := traffic, fc_rlcType := rlc, fl_direction := pd_getDirection pd\<rparr>)"

text \<open>The rest of an IPv4 multicast address names the group: the mask is \<open>~((uint32_t)255 << 28)\<close>.\<close>

definition pd_groupId :: "32 word \<Rightarrow> 32 word" where
  "pd_groupId address = address AND NOT (push_bit 28 255)"

definition isMulticast :: "32 word \<Rightarrow> bool" where
  "isMulticast address = (drop_bit 28 address = 14)"

section \<open>To the layer below\<close>

definition fc_isD2D :: "flow_control \<Rightarrow> bool" where
  "fc_isD2D info = (fl_direction info = D2D_MULTI \<or> fl_direction info = D2D)"

definition pd_sendBase :: "pd_packet \<Rightarrow> pdcp \<Rightarrow> pdcp_effect list cpp" where
  "pd_sendBase p pd = cpp_bind (getFlowTag p) (\<lambda>info.
     let flow = (if \<not> fc_isD2D info \<and> pd_packetFlowManager pd then [Pd_Flow_Insert False p] else []) in
     case fc_rlcType info of
       UM \<Rightarrow> Inr (flow @ [Pd_To_Rlc Um_Port p])
     | AM \<Rightarrow> Inr (flow @ [Pd_To_Rlc Am_Port p])
     | TM \<Rightarrow> Inr (flow @ [Pd_To_Rlc Tm_Port p])
     | _ \<Rightarrow> Inl (Runtime_Error ''LtePdcpRrcBase::sendToLowerLayer(): invalid RlcType''))"

definition pd_sendToLowerLayer :: "pd_packet \<Rightarrow> pdcp \<Rightarrow> pdcp_effect list cpp" where
  "pd_sendToLowerLayer p pd = cpp_bind (getFlowTag p) (\<lambda>info.
     if pd_class pd = Nr_Ue \<and> (\<not> pd_dualConnectivityEnabled pd \<or> fc_useNR info) then
       let info1 = info\<lparr>fl_sourceId := pd_nrNodeId pd\<rparr>; q = setFlowTag info1 p;
           flow = (if \<not> fc_isD2D info1 \<and> pd_NRpacketFlowManager pd then [Pd_Flow_Insert True q] else [])
       in Inr (flow @ [Pd_To_Rlc (if fc_rlcType info = UM then Nr_Um_Port else Nr_Am_Port) q])
     else pd_sendBase p pd)"

section \<open>The transmitting entities\<close>

definition PDCP_HEADER_UM :: int where "PDCP_HEADER_UM = 1"
definition PDCP_HEADER_AM :: int where "PDCP_HEADER_AM = 2"

definition tx_setIds :: "registry \<Rightarrow> flow_control \<Rightarrow> pdcp \<Rightarrow> flow_control cpp" where
  "tx_setIds b info pd =
     (let info1 = info\<lparr>fl_sourceId := (if class_isNr (pd_class pd) \<and> fc_useNR info \<and> getNodeTypeById (pd_nodeId pd) \<noteq> ENODEB
              \<and> getNodeTypeById (pd_nodeId pd) \<noteq> GNODEB then pd_getNrNodeId pd else pd_nodeId pd)\<rparr>
      in if 0 < sint (fc_multicastGroupId info1) then Inr (info1\<lparr>fl_destId := pd_nodeId pd\<rparr>)
         else cpp_bind (pd_getDestId b info1 pd) (\<lambda>d. Inr (info1\<lparr>fl_destId := d\<rparr>)))"

definition nr_deliverPdcpPdu :: "pd_packet \<Rightarrow> pdcp \<Rightarrow> pdcp_effect list cpp" where
  "nr_deliverPdcpPdu p pd = cpp_bind (getFlowTag p) (\<lambda>info.
     let destUe = getNodeTypeById (fl_destId info) = UE in
     if getNodeTypeById (pd_nodeId pd) = UE then pd_sendToLowerLayer p pd
     else if \<not> pd_isDualConnectivityEnabled pd then
       if \<not> destUe then Inl (Runtime_Error ''NRTxPdcpEntity::deliverPdcpPdu - the destination is not a UE but Dual Connectivity is not enabled.'')
       else pd_sendToLowerLayer p pd
     else if \<not> fc_useNR info then
       if \<not> destUe then Inl (Runtime_Error ''NRTxPdcpEntity::deliverPdcpPdu - the destination is a UE under the control of a secondary node, but the packet has not been marked as NR packet.'')
       else pd_sendToLowerLayer p pd
     else if destUe then Inl (Runtime_Error ''NRTxPdcpEntity::deliverPdcpPdu - the packet has been marked as NR packet, but destination is not the secondary node'')
     else Inr (if pd_class pd = Nr_Enb then [Pd_Forward p (fl_destId info)] else []))"

definition tx_deliverPdcpPdu :: "pd_packet \<Rightarrow> pdcp \<Rightarrow> pdcp_effect list cpp" where
  "tx_deliverPdcpPdu p pd = (if class_isNr (pd_class pd) then nr_deliverPdcpPdu p pd else pd_sendToLowerLayer p pd)"

definition tx_headerLength :: "rlc_type \<Rightarrow> int cpp" where
  "tx_headerLength t = (case t of UM \<Rightarrow> Inr PDCP_HEADER_UM | AM \<Rightarrow> Inr PDCP_HEADER_AM | TM \<Rightarrow> Inr 0
     | _ \<Rightarrow> Inl (Runtime_Error ''LtePdcpRrcBase::fromDataport(): invalid RlcType''))"

text \<open>\<open>Packet::insertAt\<close> refuses an empty chunk, as the usage checks of INET do in a debug build.\<close>

definition tx_insertHeader :: "int \<Rightarrow> pd_packet \<Rightarrow> pd_packet cpp" where
  "tx_insertHeader len p = (if 0 < len then Inr (insertAtFront (Pdcp_Pdu len) p) else Inl (Runtime_Error ''chunk is empty''))"

text \<open>The entity of a connection numbers, addresses and wraps a packet; \<open>getTxEntity\<close> creates it with the number 0.\<close>

definition tx_handlePacketFromUpperLayer :: "registry \<Rightarrow> mac_cid \<Rightarrow> pd_packet \<Rightarrow> pdcp \<Rightarrow> (pdcp_effect list \<times> pdcp) cpp" where
  "tx_handlePacketFromUpperLayer b cid p pd =
     (let sno = (case pd_txEntities pd cid of None \<Rightarrow> 0 | Some s \<Rightarrow> s);
          pd1 = pd\<lparr>pd_txEntities := (pd_txEntities pd)(cid \<mapsto> sno + 1)\<rparr>
      in cpp_bind (getFlowTag p) (\<lambda>info.
         cpp_bind (headerCompress (pd_headerCompressedSize pd1) p) (\<lambda>q.
         cpp_bind (tx_setIds b (info\<lparr>fc_sequenceNumber := sno\<rparr>) pd1) (\<lambda>info1.
         cpp_bind (tx_headerLength (fc_rlcType info1)) (\<lambda>len.
         cpp_bind (tx_insertHeader len (setFlowTag info1 q)) (\<lambda>pdu.
         cpp_bind (tx_deliverPdcpPdu pdu pd1) (\<lambda>es.
         Inr (es, pd1))))))))"

section \<open>From the layer above\<close>

text \<open>The logical channel of a flow, by the table with or without the direction; \<open>Direction\<close> is stored as a number.\<close>

definition dir_number :: "direction \<Rightarrow> 16 word" where
  "dir_number d = (case d of DL \<Rightarrow> 0 | UL \<Rightarrow> 1 | D2D \<Rightarrow> 2 | D2D_MULTI \<Rightarrow> 3 | UNKNOWN_DIRECTION \<Rightarrow> 4)"

definition fc_conn4 :: "flow_control \<Rightarrow> conn4" where
  "fc_conn4 info = (fc_srcAddr info, fc_dstAddr info, fc_typeOfService info, dir_number (fl_direction info))"

definition fc_conn3 :: "flow_control \<Rightarrow> conn3" where
  "fc_conn3 info = (fc_srcAddr info, fc_dstAddr info, fc_typeOfService info)"

definition pd_cidRequest :: "flow_control \<Rightarrow> pdcp \<Rightarrow> (logical_cid \<times> pdcp) cpp" where
  "pd_cidRequest info pd = cpp_bind (walk
       (if pd_class pd = Lte_Ue \<or> pd_class pd = Lte_Enb
        then pd_assignLcid ct_find_entry3 ct_create_entry3 (fc_conn3 info) (pd_ht pd, pd_lcid pd)
        else pd_assignLcid ct_find_entry4 ct_create_entry4 (fc_conn4 info) (pd_ht pd, pd_lcid pd)))
     (\<lambda>(mylcid, ht, lcid). Inr (mylcid, pd\<lparr>pd_ht := ht, pd_lcid := lcid\<rparr>))"

text \<open>The peers of a flow between UEs, as a base station and a UE record them.\<close>

definition pd_peersBs :: "registry \<Rightarrow> bool \<Rightarrow> flow_control \<Rightarrow> (flow_control \<times> node_id) cpp" where
  "pd_peersBs b nr info =
     (cpp_bind (if nr then Inr (bi_getNrMacNodeId (fc_srcAddr info) b) else bi_getMacNodeId (fc_srcAddr info) b) (\<lambda>srcId.
      cpp_bind (if nr then Inr (bi_getNrMacNodeId (fc_dstAddr info) b) else bi_getMacNodeId (fc_dstAddr info) b) (\<lambda>destId.
      cpp_bind (if getNodeTypeById srcId = UE \<and> getNodeTypeById destId = UE then bi_getD2DCapability srcId destId b else Inr False) (\<lambda>cap.
      Inr (if cap then info\<lparr>fc_d2dTxPeerId := srcId, fl_d2dRxPeerId := destId\<rparr>
           else info\<lparr>fc_d2dTxPeerId := 0, fl_d2dRxPeerId := 0\<rparr>, destId)))))"

definition pd_peersUe :: "(node_id \<Rightarrow> mac_ref option) \<Rightarrow> node_id \<Rightarrow> flow_control \<Rightarrow> registry \<Rightarrow> (flow_control \<times> registry) cpp" where
  "pd_peersUe macs nodeId info b =
     (if isMulticast (fc_dstAddr info) then
        Inr (info\<lparr>fl_direction := D2D_MULTI, fc_multicastGroupId := pd_groupId (fc_dstAddr info)\<rparr>, bi_addD2DMulticastTransmitter nodeId b)
      else cpp_bind (bi_getMacNodeId (fc_dstAddr info) b) (\<lambda>destId.
        if destId = 0 then Inr (info\<lparr>fl_direction := UL, fc_d2dTxPeerId := 0, fl_d2dRxPeerId := 0\<rparr>, b)
        else cpp_bind (bi_checkD2DCapability macs nodeId destId b) (\<lambda>(cap, b1).
          let info1 = (if cap then info\<lparr>fc_d2dTxPeerId := nodeId, fl_d2dRxPeerId := destId\<rparr>
                else info\<lparr>fc_d2dTxPeerId := 0, fl_d2dRxPeerId := 0\<rparr>)
          in cpp_bind (pd_getDirectionTo b1 nodeId destId) (\<lambda>d. Inr (info1\<lparr>fl_direction := d\<rparr>, b1)))))"

text \<open>The last steps of every \<open>fromDataPort\<close>: the entity of the connection, which is named by the destination of its class.\<close>

definition pd_toEntity :: "registry \<Rightarrow> mac_cid \<Rightarrow> flow_control \<Rightarrow> pd_packet \<Rightarrow> pdcp \<Rightarrow> pdcp_result" where
  "pd_toEntity b cid info p pd = cpp_bind (tx_handlePacketFromUpperLayer b cid (setFlowTag info p) pd) (\<lambda>(es, pd1). Inr (es, pd1, b))"

text \<open>The base class looks the destination up first, the others when the channel is known.\<close>

definition base_fromDataPort :: "registry \<Rightarrow> pd_packet \<Rightarrow> pdcp \<Rightarrow> pdcp_result" where
  "base_fromDataPort b p pd = cpp_bind (getFlowTag p) (\<lambda>info0.
     let info = pd_setTrafficInformation (pk_name p) info0 pd in
     cpp_bind (pd_getDestId b info pd) (\<lambda>destId.
     cpp_bind (pd_cidRequest info pd) (\<lambda>(mylcid, pd1).
     pd_toEntity b (idToMacCid destId mylcid) (info\<lparr>fl_lcid := mylcid, fl_sourceId := pd_nodeId pd, fl_destId := destId\<rparr>) p pd1)))"

definition enbD2D_fromDataPort :: "registry \<Rightarrow> pd_packet \<Rightarrow> pdcp \<Rightarrow> pdcp_result" where
  "enbD2D_fromDataPort b p pd = cpp_bind (getFlowTag p) (\<lambda>info0.
     cpp_bind (pd_peersBs b False (pd_setTrafficInformation (pk_name p) info0 pd)) (\<lambda>(info, _).
     cpp_bind (pd_cidRequest info pd) (\<lambda>(mylcid, pd1).
     let info1 = info\<lparr>fl_lcid := mylcid, fl_sourceId := pd_nodeId pd\<rparr> in
     cpp_bind (pd_getDestId b info1 pd1) (\<lambda>destId.
     pd_toEntity b (idToMacCid destId mylcid) info1 p pd1))))"

definition nrEnb_fromDataPort :: "registry \<Rightarrow> pd_packet \<Rightarrow> pdcp \<Rightarrow> pdcp_result" where
  "nrEnb_fromDataPort b p pd = cpp_bind (getFlowTag p) (\<lambda>info0.
     cpp_bind (pd_peersBs b (fc_useNR info0) (pd_setTrafficInformation (pk_name p) info0 pd)) (\<lambda>(info, destId).
     cpp_bind (pd_cidRequest info pd) (\<lambda>(mylcid, pd1).
     pd_toEntity b (idToMacCid destId mylcid) (info\<lparr>fl_lcid := mylcid\<rparr>) p pd1)))"

definition ueD2D_fromDataPort :: "(node_id \<Rightarrow> mac_ref option) \<Rightarrow> registry \<Rightarrow> pd_packet \<Rightarrow> pdcp \<Rightarrow> pdcp_result" where
  "ueD2D_fromDataPort macs b p pd = cpp_bind (getFlowTag p) (\<lambda>info0.
     cpp_bind (pd_peersUe macs (pd_nodeId pd) (pd_setTrafficInformation (pk_name p) info0 pd) b) (\<lambda>(info, b1).
     cpp_bind (pd_cidRequest info pd) (\<lambda>(mylcid, pd1).
     let info1 = info\<lparr>fl_lcid := mylcid, fl_sourceId := pd_nodeId pd\<rparr> in
     cpp_bind (pd_getDestId b1 info1 pd1) (\<lambda>destId.
     pd_toEntity b1 (idToMacCid destId mylcid) info1 p pd1))))"

definition nrUe_fromDataPort :: "(node_id \<Rightarrow> mac_ref option) \<Rightarrow> registry \<Rightarrow> pd_packet \<Rightarrow> pdcp \<Rightarrow> pdcp_result" where
  "nrUe_fromDataPort macs b p pd = cpp_bind (getFlowTag p) (\<lambda>info0.
     let nodeId = (if fc_useNR info0 then pd_nrNodeId pd else pd_nodeId pd) in
     cpp_bind (pd_peersUe macs nodeId (pd_setTrafficInformation (pk_name p) info0 pd) b) (\<lambda>(info, b1).
     cpp_bind (pd_cidRequest info pd) (\<lambda>(mylcid, pd1).
     let info1 = info\<lparr>fl_lcid := mylcid\<rparr> in
     cpp_bind (pd_getDestId b1 info1 pd1) (\<lambda>destId.
     pd_toEntity b1 (idToMacCid destId mylcid) info1 p pd1))))"

definition pd_fromDataPort :: "(node_id \<Rightarrow> mac_ref option) \<Rightarrow> registry \<Rightarrow> pd_packet \<Rightarrow> pdcp \<Rightarrow> pdcp_result" where
  "pd_fromDataPort macs b p pd = (case pd_class pd of
      Lte_Ue \<Rightarrow> base_fromDataPort b p pd
    | Lte_Enb \<Rightarrow> base_fromDataPort b p pd
    | Lte_Enb_D2D \<Rightarrow> enbD2D_fromDataPort b p pd
    | Nr_Enb \<Rightarrow> nrEnb_fromDataPort b p pd
    | Lte_Ue_D2D \<Rightarrow> ueD2D_fromDataPort macs b p pd
    | Nr_Ue \<Rightarrow> nrUe_fromDataPort macs b p pd)"

section \<open>From the layer below\<close>

text \<open>The entity of a connection pops the PDCP header, decompresses and hands on; \<open>getRxEntity\<close> creates it.\<close>

definition rx_handlePacketFromLowerLayer :: "mac_cid \<Rightarrow> pd_packet \<Rightarrow> pdcp \<Rightarrow> (pdcp_effect list \<times> pdcp) cpp" where
  "rx_handlePacketFromLowerLayer cid p pd =
     (let px = (case pd_rxEntities pd cid of None \<Rightarrow> px_new (pd_rxOutOfOrder pd) (pd_rxWindowSize pd) | Some px \<Rightarrow> px);
          pd1 = pd\<lparr>pd_rxEntities := (pd_rxEntities pd)(cid \<mapsto> px)\<rparr>
      in cpp_bind (popPdcpPdu p) (\<lambda>q.
         cpp_bind (getFlowTag q) (\<lambda>info.
         cpp_bind (headerDecompress (pd_headerCompressedSize pd1) q) (\<lambda>sdu.
         let flow = (if \<not> fc_isD2D info \<and> pd_packetFlowManager pd1 then [Pd_Flow_Received q] else []) in
         if \<not> class_isNr (pd_class pd1) then Inr (flow @ [Pd_To_Data_Port sdu], pd1)
         else cpp_bind (px_handlePdcpSdu (pd_isDualConnectivityEnabled pd1) sdu px) (\<lambda>(out, px1).
                Inr (flow @ map Pd_To_Data_Port out, pd1\<lparr>pd_rxEntities := (pd_rxEntities pd1)(cid \<mapsto> px1)\<rparr>))))))"

definition pd_fromLowerLayer :: "registry \<Rightarrow> pd_packet \<Rightarrow> pdcp \<Rightarrow> (pdcp_effect list \<times> pdcp) cpp" where
  "pd_fromLowerLayer b p pd =
     (let receive = cpp_bind (getFlowTag p) (\<lambda>info. rx_handlePacketFromLowerLayer (idToMacCid (fl_sourceId info) (fl_lcid info)) p pd)
      in if pd_class pd = Nr_Enb then cpp_bind (bi_getMasterNode (pd_nodeId pd) b) (\<lambda>masterId.
           if pd_dualConnectivityEnabled pd \<and> pd_nodeId pd \<noteq> masterId then Inr ([Pd_Forward p masterId], pd) else receive)
         else receive)"

text \<open>A packet that the other node of a dual connection forwarded; only the NR base station does anything with it.\<close>

definition pd_receiveDataFromSourceNode :: "registry \<Rightarrow> pd_packet \<Rightarrow> pdcp \<Rightarrow> (pdcp_effect list \<times> pdcp) cpp" where
  "pd_receiveDataFromSourceNode b p pd =
     (if pd_class pd \<noteq> Nr_Enb then Inr ([], pd)
      else cpp_bind (getFlowTag p) (\<lambda>info.
        if fl_direction info = DL
        then cpp_bind (pd_sendToLowerLayer (setFlowTag (info\<lparr>fl_sourceId := pd_nodeId pd, fl_destId := bi_getNrMacNodeId (fc_dstAddr info) b\<rparr>) p) pd)
               (\<lambda>es. Inr (es, pd))
        else pd_fromLowerLayer b p pd))"

text \<open>The timer of a receiving entity.\<close>

definition rx_handleTimer :: "mac_cid \<Rightarrow> pdcp \<Rightarrow> (pdcp_effect list \<times> pdcp) cpp" where
  "rx_handleTimer cid pd = (case pd_rxEntities pd cid of
      None \<Rightarrow> Inr ([], pd)
    | Some px \<Rightarrow> cpp_bind (px_handleMessage px) (\<lambda>(out, px1).
        Inr (map Pd_To_Data_Port out, pd\<lparr>pd_rxEntities := (pd_rxEntities pd)(cid \<mapsto> px1)\<rparr>)))"

section \<open>Control traffic, handover, start\<close>

text \<open>Control traffic takes its flow information as control information, not as a tag, and goes to the transparent mode of RLC.\<close>

definition pd_fromEutranRrcSap :: "pd_packet \<Rightarrow> pdcp \<Rightarrow> pdcp_effect list" where
  "pd_fromEutranRrcSap p pd = [Pd_Control (fc_new\<lparr>fl_sourceId := pd_nodeId pd, fl_lcid := 1000, fc_rlcType := TM\<rparr>) p]"

text \<open>Control traffic on its way up: what the packet encapsulates goes to RRC. When it encapsulates nothing the null pointer is followed for its name.\<close>

definition pd_toEutranRrcSap :: "pd_packet option \<Rightarrow> pdcp_effect list cpp" where
  "pd_toEutranRrcSap encapsulated = (case encapsulated of
      None \<Rightarrow> Inl Undefined_Behaviour
    | Some upPkt \<Rightarrow> Inr [Pd_To_Eutran upPkt])"

text \<open>The entities of a node, or all of them at an LTE UE.\<close>

definition pd_deleteEntities :: "node_id \<Rightarrow> pdcp \<Rightarrow> pdcp" where
  "pd_deleteEntities nodeId pd =
     (if pd_class pd = Lte_Ue \<or> pd_class pd = Lte_Ue_D2D then pd\<lparr>pd_txEntities := (\<lambda>_. None), pd_rxEntities := (\<lambda>_. None)\<rparr>
      else pd\<lparr>pd_txEntities := (\<lambda>c. if MacCidToNodeId c = nodeId then None else pd_txEntities pd c),
              pd_rxEntities := (\<lambda>c. if MacCidToNodeId c = nodeId then None else pd_rxEntities pd c)\<rparr>)"

text \<open>
  \<open>handleMessage\<close> of the base class by the gate of the message, and of the classes for device-to-device links, which take a
  notification of a mode switch, a packet from RLC, and do nothing with it; the LTE classes know no such packet and treat it
  as any packet from RLC. A message from the transparent mode of RLC (gate \<open>TM_Sap\<close>) is given by the packet it encapsulates, if any;
  \<open>From_Rlc\<close> is a packet from one of the other gates.
\<close>

datatype pdcp_message =
    From_Data_Port pd_packet
  | From_Eutran pd_packet
  | From_Tm "pd_packet option"
  | From_Rlc pd_packet
  | Mode_Switch_Notification pd_packet node_id d2d_mode

definition pd_handleMessage :: "(node_id \<Rightarrow> mac_ref option) \<Rightarrow> registry \<Rightarrow> pdcp_message \<Rightarrow> pdcp \<Rightarrow> pdcp_result" where
  "pd_handleMessage macs b m pd = (case m of
      From_Data_Port p \<Rightarrow> pd_fromDataPort macs b p pd
    | From_Eutran p \<Rightarrow> Inr (pd_fromEutranRrcSap p pd, pd, b)
    | From_Tm encapsulated \<Rightarrow> cpp_bind (pd_toEutranRrcSap encapsulated) (\<lambda>es. Inr (es, pd, b))
    | From_Rlc p \<Rightarrow> cpp_bind (pd_fromLowerLayer b p pd) (\<lambda>(es, pd1). Inr (es, pd1, b))
    | Mode_Switch_Notification p peer mode \<Rightarrow>
        if pd_class pd = Lte_Ue \<or> pd_class pd = Lte_Enb
        then cpp_bind (pd_fromLowerLayer b p pd) (\<lambda>(es, pd1). Inr (es, pd1, b)) else Inr ([], pd, b))"

definition pd_activeUeUL :: "mac_cid list \<Rightarrow> pdcp \<Rightarrow> node_id set" where
  "pd_activeUeUL cids pd = set (map MacCidToNodeId (filter (\<lambda>c. case pd_rxEntities pd c of
     None \<Rightarrow> False | Some px \<Rightarrow> class_isNr (pd_class pd) \<and> \<not> px_isEmpty px) cids))"

end
