(* ===== verification/Ip2_Nic.thy ===== *)
theory Ip2_Nic
  imports Split_Bearers Pdcp_Packet
begin

text \<open>
  \<open>IP2Nic\<close> (\<open>stack/ip2nic/IP2Nic.cc\<close>), the module between IP and the cellular stack, in base stations and in UEs: it tags
  packets with their flow, selects LTE or NR for them, and holds or forwards them during a handover. The registry
  is an argument of the operations that look it up. Protocol tags, signals and logging are left out.
\<close>

record ip2nic =
  nic_nodeType :: ran_node_type
  nic_nodeId :: node_id
  nic_nrNodeId :: node_id
  nic_masterId :: node_id
  nic_nrMasterId :: node_id
  nic_hoForwarding :: "node_id \<Rightarrow> node_id option"
  nic_hoHolding :: "node_id set"
  nic_hoFromX2 :: "node_id \<Rightarrow> pd_packet list option"
  nic_hoFromIp :: "node_id \<Rightarrow> pd_packet list option"
  nic_ueHold :: bool
  nic_ueHoldFromIp :: "pd_packet list"
  nic_dualConnectivityEnabled :: bool
  nic_sbTable :: "sb_entry list"

datatype nic_effect =
    Nic_To_Stack pd_packet
  | Nic_To_Ip pd_packet
  | Nic_Delete pd_packet
  | Nic_Forward pd_packet node_id
  | Nic_Handover_Command node_id node_id bool

type_synonym nic_result = "(nic_effect list \<times> ip2nic) cpp"

section \<open>Start\<close>

text \<open>
  A base station registers in its first stage, a UE later, when its parameters give an NR master a second time.
  No constructor sets the members: \<open>junk\<close> is what the memory of \<open>nrMasterId_\<close> and \<open>masterId_\<close> held.
\<close>

definition nic_create :: "ran_node_type \<Rightarrow> bool \<Rightarrow> node_id \<Rightarrow> ip2nic" where
  "nic_create type dc junk = \<lparr>nic_nodeType = type, nic_nodeId = junk, nic_nrNodeId = junk, nic_masterId = junk, nic_nrMasterId = junk,
     nic_hoForwarding = (\<lambda>_. None), nic_hoHolding = {}, nic_hoFromX2 = (\<lambda>_. None), nic_hoFromIp = (\<lambda>_. None), nic_ueHold = False,
     nic_ueHoldFromIp = [], nic_dualConnectivityEnabled = dc, nic_sbTable = sb_new\<rparr>"

definition nic_initializeBs :: "nat \<Rightarrow> node_id \<Rightarrow> ip2nic \<Rightarrow> registry \<Rightarrow> ip2nic \<times> registry" where
  "nic_initializeBs omnetId masterId ni b = (let (cellId, b1) = bi_registerNode omnetId (nic_nodeType ni) masterId False b
     in (ni\<lparr>nic_nodeId := cellId, nic_nrNodeId := 0\<rparr>, b1))"

definition nic_initializeUe :: "nat \<Rightarrow> node_id \<Rightarrow> node_id option \<Rightarrow> ip2nic \<Rightarrow> registry \<Rightarrow> ip2nic \<times> registry" where
  "nic_initializeUe omnetId masterId nrMasterId ni b =
     (let (i, b1) = bi_registerNode omnetId (nic_nodeType ni) masterId False b;
          ni1 = ni\<lparr>nic_masterId := masterId, nic_nodeId := i\<rparr>
      in case nrMasterId of
           Some m \<Rightarrow> if m \<noteq> 0
             then (let (j, b2) = bi_registerNode omnetId (nic_nodeType ni) m True b1 in (ni1\<lparr>nic_nrMasterId := m, nic_nrNodeId := j\<rparr>, b2))
             else (ni1\<lparr>nic_nrNodeId := 0\<rparr>, b1)
         | None \<Rightarrow> (ni1\<lparr>nic_nrNodeId := 0\<rparr>, b1))"

text \<open>The groups a node joined, given by their addresses; the last three bytes of an address name the group.\<close>

definition nic_groupId :: "32 word \<Rightarrow> 32 word" where
  "nic_groupId address = address AND NOT (push_bit 24 255)"

definition nic_registerMulticastGroups :: "32 word list \<Rightarrow> ip2nic \<Rightarrow> registry \<Rightarrow> registry" where
  "nic_registerMulticastGroups addrs ni b = fold (\<lambda>a b.
     let b1 = bi_registerMulticastGroup (nic_nodeId ni) (nic_groupId a) b
     in if 0 < nic_nrNodeId ni then bi_registerMulticastGroup (nic_nrNodeId ni) (nic_groupId a) b1 else b1) addrs b"

section \<open>Choosing the bearer\<close>

text \<open>The split bearer sends packets in turn through LTE and NR.\<close>

definition nic_splitBearer :: "flow_control \<Rightarrow> ip2nic \<Rightarrow> (bool \<times> flow_control \<times> ip2nic) cpp" where
  "nic_splitBearer ci ni =
     cpp_bind (sb_number (fc_srcAddr ci, fc_dstAddr ci, fc_typeOfService ci) (nic_sbTable ni)) (\<lambda>(sentPackets, t).
       Inr (True, ci\<lparr>fc_useNR := sentPackets mod 2 \<noteq> 0\<rparr>, ni\<lparr>nic_sbTable := t\<rparr>))"

definition nic_markPacketBs :: "registry \<Rightarrow> flow_control \<Rightarrow> ip2nic \<Rightarrow> (bool \<times> flow_control \<times> ip2nic) cpp" where
  "nic_markPacketBs b ci ni =
     cpp_bind (bi_getMacNodeId (fc_dstAddr ci) b) (\<lambda>ueId.
     cpp_bind (bi_getNextHop ueId b) (\<lambda>h.
     cpp_bind (bi_getNextHop (bi_getNrMacNodeId (fc_dstAddr ci) b) b) (\<lambda>nrh.
       let ueLteStack = 0 < h; ueNrStack = 0 < nrh in
       if nic_dualConnectivityEnabled ni \<and> ueLteStack \<and> ueNrStack \<and> 20 \<le> fc_typeOfService ci then nic_splitBearer ci ni
       else if ueLteStack \<and> ueNrStack then Inr (True, ci\<lparr>fc_useNR := 10 \<le> fc_typeOfService ci\<rparr>, ni)
       else if ueLteStack then Inr (True, ci\<lparr>fc_useNR := False\<rparr>, ni)
       else if ueNrStack then Inr (True, ci\<lparr>fc_useNR := True\<rparr>, ni)
       else Inr (False, ci, ni))))"

definition nic_markPacketUe :: "registry \<Rightarrow> flow_control \<Rightarrow> ip2nic \<Rightarrow> (bool \<times> flow_control \<times> ip2nic) cpp" where
  "nic_markPacketUe b ci ni =
     cpp_bind (bi_getNextHop (nic_nodeId ni) b) (\<lambda>h.
     cpp_bind (bi_getNextHop (nic_nrNodeId ni) b) (\<lambda>nrh.
       let ueLteStack = 0 < h; ueNrStack = 0 < nrh in
       if nic_dualConnectivityEnabled ni \<and> ueLteStack \<and> ueNrStack \<and> 20 \<le> fc_typeOfService ci then nic_splitBearer ci ni
       else if nic_masterId ni = 0 \<and> nic_nrMasterId ni \<noteq> 0 then Inr (True, ci\<lparr>fc_useNR := True\<rparr>, ni)
       else if nic_masterId ni \<noteq> 0 \<and> nic_nrMasterId ni = 0 then Inr (True, ci\<lparr>fc_useNR := False\<rparr>, ni)
       else Inr (True, ci\<lparr>fc_useNR := 10 \<le> fc_typeOfService ci\<rparr>, ni)))"

definition nic_markPacket :: "registry \<Rightarrow> flow_control \<Rightarrow> ip2nic \<Rightarrow> (bool \<times> flow_control \<times> ip2nic) cpp" where
  "nic_markPacket b ci ni =
     (if nic_nodeType ni = ENODEB \<or> nic_nodeType ni = GNODEB then nic_markPacketBs b ci ni
      else if nic_nodeType ni = UE then nic_markPacketUe b ci ni
      else Inr (True, ci, ni))"

section \<open>Packets to the stack\<close>

text \<open>The size of the headers, which needs the chunk behind the IP header when the protocol is TCP.\<close>

definition nic_headerSize :: "pd_packet \<Rightarrow> int cpp" where
  "nic_headerSize p = cpp_bind (removeIpv4Header p) (\<lambda>(h, l, q).
     if ih_protocolId h = IP_PROT_TCP then cpp_bind (removeTcpHeader q) (\<lambda>(hl, l', _). Inr (ih_headerLength h + hl))
     else if ih_protocolId h = IP_PROT_UDP then Inr (ih_headerLength h + UDP_HEADER_LENGTH)
     else Inr (ih_headerLength h))"

definition nic_flow :: "pd_packet \<Rightarrow> flow_control cpp" where
  "nic_flow p = cpp_bind (peekIpv4Header p) (\<lambda>(h, l). cpp_bind (nic_headerSize p) (\<lambda>headerSize.
     let t = (case pk_tag p of None \<Rightarrow> fc_new | Some t \<Rightarrow> t)
     in Inr (t\<lparr>fc_srcAddr := ih_src h, fc_dstAddr := ih_dst h, fc_headerSize := headerSize, fc_typeOfService := ih_typeOfService h\<rparr>)))"

definition nic_toStackBs :: "registry \<Rightarrow> pd_packet \<Rightarrow> ip2nic \<Rightarrow> nic_result" where
  "nic_toStackBs b p ni = cpp_bind (nic_flow p) (\<lambda>ci. cpp_bind (nic_markPacket b ci ni) (\<lambda>(marked, ci1, ni1).
     if \<not> marked then Inr ([Nic_Delete p], ni1) else Inr ([Nic_To_Stack (setFlowTag ci1 p)], ni1)))"

text \<open>On a UE the packet is sent even after it has been deleted.\<close>

definition nic_toStackUe :: "registry \<Rightarrow> pd_packet \<Rightarrow> ip2nic \<Rightarrow> nic_result" where
  "nic_toStackUe b p ni = cpp_bind (nic_flow p) (\<lambda>ci. cpp_bind (nic_markPacket b ci ni) (\<lambda>(marked, ci1, ni1).
     if \<not> marked then Inl Undefined_Behaviour else Inr ([Nic_To_Stack (setFlowTag ci1 p)], ni1)))"

definition untag :: "pd_packet \<Rightarrow> pd_packet" where
  "untag p = p\<lparr>pk_tag := None\<rparr>"

definition nic_fromIpUe :: "registry \<Rightarrow> pd_packet \<Rightarrow> ip2nic \<Rightarrow> nic_result" where
  "nic_fromIpUe b p ni =
     (if nic_ueHold ni then Inr ([], ni\<lparr>nic_ueHoldFromIp := nic_ueHoldFromIp ni @ [untag p]\<rparr>)
      else if nic_masterId ni = 0 \<and> nic_nrMasterId ni = 0 then Inr ([Nic_Delete p], ni)
      else nic_toStackUe b (untag p) ni)"

definition push_queue :: "node_id \<Rightarrow> pd_packet \<Rightarrow> (node_id \<Rightarrow> pd_packet list option) \<Rightarrow> (node_id \<Rightarrow> pd_packet list option)" where
  "push_queue i p m = m(i \<mapsto> (case m i of None \<Rightarrow> [] | Some q \<Rightarrow> q) @ [p])"

definition nic_fromIpBs :: "registry \<Rightarrow> pd_packet \<Rightarrow> ip2nic \<Rightarrow> nic_result" where
  "nic_fromIpBs b p ni = cpp_bind (peekIpv4Header p) (\<lambda>(h, l). cpp_bind (bi_getMacNodeId (ih_dst h) b) (\<lambda>destId.
     case nic_hoForwarding ni destId of
       Some targetEnb \<Rightarrow> Inr ([Nic_Forward (untag p) targetEnb], ni)
     | None \<Rightarrow>
         if destId \<in> nic_hoHolding ni then Inr ([], ni\<lparr>nic_hoFromIp := push_queue destId (untag p) (nic_hoFromIp ni)\<rparr>)
         else nic_toStackBs b (untag p) ni))"

text \<open>Packets from the stack lose their tags and go to IP.\<close>

definition nic_toIp :: "pd_packet \<Rightarrow> ip2nic \<Rightarrow> nic_result" where
  "nic_toIp p ni = cpp_bind (peekIpv4Header p) (\<lambda>_. Inr ([Nic_To_Ip p], ni))"

datatype nic_gate = Upper_Layer_In_Gate | Stack_Nic_Gate | Another_Gate

definition nic_handleMessage :: "registry \<Rightarrow> nic_gate \<Rightarrow> pd_packet \<Rightarrow> ip2nic \<Rightarrow> nic_result" where
  "nic_handleMessage b gate p ni =
     (if nic_nodeType ni = ENODEB \<or> nic_nodeType ni = GNODEB then
        (case gate of Upper_Layer_In_Gate \<Rightarrow> nic_fromIpBs b p ni | Stack_Nic_Gate \<Rightarrow> nic_toIp (untag p) ni | Another_Gate \<Rightarrow> Inr ([Nic_Delete p], ni))
      else if nic_nodeType ni = UE then
        (case gate of Upper_Layer_In_Gate \<Rightarrow> nic_fromIpUe b p ni | Stack_Nic_Gate \<Rightarrow> nic_toIp (untag p) ni | Another_Gate \<Rightarrow> Inr ([Nic_Delete p], ni))
      else Inr ([], ni))"

section \<open>Handover\<close>

definition nic_triggerHandoverSource :: "node_id \<Rightarrow> node_id \<Rightarrow> ip2nic \<Rightarrow> nic_effect list \<times> ip2nic" where
  "nic_triggerHandoverSource ueId targetEnb ni =
     (if targetEnb \<noteq> 0 then [Nic_Handover_Command ueId targetEnb True] else [],
      ni\<lparr>nic_hoForwarding := (nic_hoForwarding ni)(ueId \<mapsto> targetEnb)\<rparr>)"

definition nic_triggerHandoverTarget :: "node_id \<Rightarrow> ip2nic \<Rightarrow> ip2nic" where
  "nic_triggerHandoverTarget ueId ni = ni\<lparr>nic_hoHolding := insert ueId (nic_hoHolding ni)\<rparr>"

definition nic_receiveTunneledPacketOnHandover :: "registry \<Rightarrow> pd_packet \<Rightarrow> ip2nic \<Rightarrow> nic_result" where
  "nic_receiveTunneledPacketOnHandover b p ni = cpp_bind (peekIpv4Header p) (\<lambda>(h, l). cpp_bind (bi_getMacNodeId (ih_dst h) b) (\<lambda>destId.
     Inr ([], ni\<lparr>nic_hoFromX2 := push_queue destId p (nic_hoFromX2 ni)\<rparr>)))"

definition nic_signalHandoverCompleteSource :: "node_id \<Rightarrow> ip2nic \<Rightarrow> ip2nic" where
  "nic_signalHandoverCompleteSource ueId ni = ni\<lparr>nic_hoForwarding := (nic_hoForwarding ni)(ueId := None)\<rparr>"

text \<open>The packets of a queue, sent to the stack one by one.\<close>

fun nic_sendAll :: "(pd_packet \<Rightarrow> ip2nic \<Rightarrow> nic_result) \<Rightarrow> pd_packet list \<Rightarrow> ip2nic \<Rightarrow> nic_result" where
  "nic_sendAll send [] ni = Inr ([], ni)"
| "nic_sendAll send (p # ps) ni = cpp_bind (send p ni) (\<lambda>(es, ni1). cpp_bind (nic_sendAll send ps ni1) (\<lambda>(es', ni2). Inr (es @ es', ni2)))"

definition nic_signalHandoverCompleteTarget :: "registry \<Rightarrow> node_id \<Rightarrow> node_id \<Rightarrow> ip2nic \<Rightarrow> nic_result" where
  "nic_signalHandoverCompleteTarget b ueId sourceEnb ni =
     cpp_bind (case nic_hoFromX2 ni ueId of
         None \<Rightarrow> Inr ([], ni)
       | Some q \<Rightarrow> nic_sendAll (nic_toStackBs b) q (ni\<lparr>nic_hoFromX2 := (nic_hoFromX2 ni)(ueId \<mapsto> [])\<rparr>)) (\<lambda>(es1, ni1).
     cpp_bind (case nic_hoFromIp ni1 ueId of
         None \<Rightarrow> Inr ([], ni1)
       | Some q \<Rightarrow> nic_sendAll (nic_toStackBs b) q (ni1\<lparr>nic_hoFromIp := (nic_hoFromIp ni1)(ueId \<mapsto> [])\<rparr>)) (\<lambda>(es2, ni2).
     Inr (Nic_Handover_Command ueId sourceEnb False # es1 @ es2, ni2\<lparr>nic_hoHolding := nic_hoHolding ni2 - {ueId}\<rparr>)))"

definition nic_triggerHandoverUe :: "node_id \<Rightarrow> bool \<Rightarrow> ip2nic \<Rightarrow> ip2nic" where
  "nic_triggerHandoverUe newMasterId isNr ni =
     (if newMasterId \<noteq> 0 then
        (let ni1 = ni\<lparr>nic_ueHold := True\<rparr> in if isNr then ni1\<lparr>nic_nrMasterId := newMasterId\<rparr> else ni1\<lparr>nic_masterId := newMasterId\<rparr>)
      else if isNr then ni\<lparr>nic_nrMasterId := 0\<rparr> else ni\<lparr>nic_masterId := 0\<rparr>)"

definition nic_signalHandoverCompleteUe :: "registry \<Rightarrow> bool \<Rightarrow> ip2nic \<Rightarrow> nic_result" where
  "nic_signalHandoverCompleteUe b isNr ni =
     (if (\<not> isNr \<and> nic_masterId ni \<noteq> 0) \<or> (isNr \<and> nic_nrMasterId ni \<noteq> 0)
      then cpp_bind (nic_sendAll (nic_toStackUe b) (nic_ueHoldFromIp ni) (ni\<lparr>nic_ueHoldFromIp := []\<rparr>)) (\<lambda>(es, ni1).
             Inr (es, ni1\<lparr>nic_ueHold := False\<rparr>))
      else Inr ([], ni))"

text \<open>A node that leaves while the simulation runs takes its identifiers out of the registry.\<close>

definition nic_finish :: "ip2nic \<Rightarrow> registry \<Rightarrow> registry" where
  "nic_finish ni b = bi_unregisterNode (nic_nrNodeId ni) (bi_unregisterNode (nic_nodeId ni) b)"

end
