(* ===== verification/Handover.thy ===== *)
theory Handover
  imports Ip2_Nic "HOL-Library.Multiset" "HOL-Library.Sublist"
begin

text \<open>
  The handover of a UE between base stations: \<open>LteHandoverManager\<close>, which carries commands and packets between
  the \<open>IP2Nic\<close> modules over X2, the choice of the way over X2 (\<open>LteX2Manager::fromStack\<close>), and the network of base
  stations. Commands leave by the gate \<open>x2\<close>, data by the gate \<open>x2Gtp\<close>: two ways between each two base stations. Either may
  deliver in any order, so data overtakes commands and data; messages are not lost. A step of the network is a packet from IP at
  a base station, the delivery of an X2 message, or a call from the physical layer of a UE (\<open>LtePhyUe::triggerHandover\<close> and
  \<open>doHandover\<close>).
\<close>

section \<open>The handover manager\<close>

datatype x2_message = X2_Handover_Control node_id bool | X2_Handover_Data pd_packet

text \<open>What the manager sends for a call of \<open>IP2Nic\<close>, and to which base station.\<close>

fun hm_send :: "nic_effect \<Rightarrow> (node_id \<times> x2_message) option" where
  "hm_send (Nic_Handover_Command ueId enb startHo) = Some (enb, X2_Handover_Control ueId startHo)"
| "hm_send (Nic_Forward p targetEnb) = Some (targetEnb, X2_Handover_Data p)"
| "hm_send _ = None"

definition hm_receiveHandoverCommand :: "node_id \<Rightarrow> bool \<Rightarrow> ip2nic \<Rightarrow> ip2nic" where
  "hm_receiveHandoverCommand ueId startHo ni =
     (if startHo then nic_triggerHandoverTarget ueId ni else nic_signalHandoverCompleteSource ueId ni)"

fun hm_handleX2Message :: "registry \<Rightarrow> x2_message \<Rightarrow> ip2nic \<Rightarrow> nic_result" where
  "hm_handleX2Message b (X2_Handover_Data p) ni = nic_receiveTunneledPacketOnHandover b p ni"
| "hm_handleX2Message b (X2_Handover_Control ueId startHo) ni = Inr ([], hm_receiveHandoverCommand ueId startHo ni)"

text \<open>The output gate of the X2 manager for a message.\<close>

datatype x2_way = X2_Out | X2_Gtp_Out

fun x2_fromStack :: "x2_message \<Rightarrow> x2_way" where
  "x2_fromStack (X2_Handover_Data p) = X2_Gtp_Out"
| "x2_fromStack (X2_Handover_Control ueId startHo) = X2_Out"

section \<open>The network\<close>

record ho_network =
  hn_nic :: "node_id \<Rightarrow> ip2nic"
  hn_link :: "x2_way \<times> node_id \<times> node_id \<Rightarrow> x2_message list"
  hn_sent :: "node_id \<Rightarrow> pd_packet list"

datatype ho_event =
    Ho_Ip node_id pd_packet
  | Ho_X2 x2_way node_id node_id nat
  | Ho_Start node_id node_id node_id
  | Ho_Complete node_id node_id node_id

text \<open>The calls of a module take effect: packets go to its stack, messages to its links.\<close>

definition hn_transmit :: "node_id \<Rightarrow> node_id \<Rightarrow> x2_message \<Rightarrow> ho_network \<Rightarrow> ho_network" where
  "hn_transmit i j m hn = (let l = (x2_fromStack m, i, j) in hn\<lparr>hn_link := (hn_link hn)(l := hn_link hn l @ [m])\<rparr>)"

fun hn_effect :: "node_id \<Rightarrow> nic_effect \<Rightarrow> ho_network \<Rightarrow> ho_network" where
  "hn_effect i (Nic_To_Stack p) hn = hn\<lparr>hn_sent := (hn_sent hn)(i := hn_sent hn i @ [p])\<rparr>"
| "hn_effect i (Nic_To_Ip p) hn = hn"
| "hn_effect i (Nic_Delete p) hn = hn"
| "hn_effect i e hn = (case hm_send e of None \<Rightarrow> hn | Some (j, m) \<Rightarrow> hn_transmit i j m hn)"

definition hn_put :: "node_id \<Rightarrow> nic_effect list \<times> ip2nic \<Rightarrow> ho_network \<Rightarrow> ho_network" where
  "hn_put i r hn = fold (hn_effect i) (fst r) (hn\<lparr>hn_nic := (hn_nic hn)(i := snd r)\<rparr>)"

definition hn_at :: "node_id \<Rightarrow> (ip2nic \<Rightarrow> nic_result) \<Rightarrow> ho_network \<Rightarrow> ho_network cpp" where
  "hn_at i f hn = cpp_bind (f (hn_nic hn i)) (\<lambda>r. Inr (hn_put i r hn))"

text \<open>
  A UE \<open>u\<close> moves from base station \<open>i\<close> to \<open>j\<close>; of the messages on one way from \<open>i\<close> to \<open>j\<close> the one numbered \<open>n\<close> arrives,
  if there is one.
\<close>

fun hn_step :: "registry \<Rightarrow> ho_event \<Rightarrow> ho_network \<Rightarrow> ho_network cpp" where
  "hn_step b (Ho_Ip i p) hn = hn_at i (nic_fromIpBs b p) hn"
| "hn_step b (Ho_X2 w i j n) hn = (let ms = hn_link hn (w, i, j) in
     if n < length ms
     then hn_at j (hm_handleX2Message b (ms ! n)) (hn\<lparr>hn_link := (hn_link hn)((w, i, j) := take n ms @ drop (Suc n) ms)\<rparr>)
     else Inr hn)"
| "hn_step b (Ho_Start u i j) hn = hn_at i (\<lambda>ni. Inr (nic_triggerHandoverSource u j ni)) hn"
| "hn_step b (Ho_Complete u i j) hn = hn_at j (nic_signalHandoverCompleteTarget b u i) hn"

fun hn_run :: "registry \<Rightarrow> ho_event list \<Rightarrow> ho_network \<Rightarrow> ho_network cpp" where
  "hn_run b [] hn = Inr hn"
| "hn_run b (e # es) hn = cpp_bind (hn_step b e hn) (hn_run b es)"

section \<open>What a base station does with a packet\<close>

text \<open>An IP packet to a UE that the registry knows and that has a master.\<close>

definition deliverable :: "registry \<Rightarrow> pd_packet \<Rightarrow> node_id \<Rightarrow> bool" where
  "deliverable b p u = (pk_ip p \<and> (\<exists>h l nr lte. peekIpv4Header p = Inr (h, l) \<and> bi_getMacNodeId (ih_dst h) b = Inr u
     \<and> bi_getNextHop u b = Inr lte \<and> bi_getNextHop (bi_getNrMacNodeId (ih_dst h) b) b = Inr nr \<and> (0 < lte \<or> 0 < nr)))"

lemma untag_simps [simp]: "pk_chunks (untag p) = pk_chunks p" "pk_tag (untag p) = None" "untag (untag p) = untag p"
  "untag (setFlowTag t p) = untag p" "peekIpv4Header (untag p) = peekIpv4Header p" "deliverable b (untag p) = deliverable b p"
  by (simp_all add: untag_def setFlowTag_def peekIpv4Header_def deliverable_def pk_ip_def fun_eq_iff)

definition bs_plain :: "ip2nic \<Rightarrow> bool" where
  "bs_plain ni = ((nic_nodeType ni = ENODEB \<or> nic_nodeType ni = GNODEB) \<and> \<not> nic_dualConnectivityEnabled ni)"

lemma pk_ip_flow:
  assumes "pk_ip p"
  obtains h l ci where "peekIpv4Header p = Inr (h, l)" "nic_flow p = Inr ci" "fc_dstAddr ci = ih_dst h"
proof -
  obtain h l cs where c: "pk_chunks p = Ipv4_Header h l # cs" using assms by (auto simp: pk_ip_def split: list.splits chunk.splits)
  have "\<exists>s. nic_headerSize p = Inr s"
    using assms c by (auto simp: pk_ip_def nic_headerSize_def packet_defs cpp_bind_def IP_PROT_TCP_def IP_PROT_UDP_def split: list.splits chunk.splits if_splits)
  then show thesis using that c by (auto simp: nic_flow_def peekIpv4Header_def Let_def)
qed

lemma toStackBs_sends:
  assumes "deliverable b p u" "bs_plain ni"
  shows "\<exists>ci. nic_toStackBs b p ni = Inr ([Nic_To_Stack (setFlowTag ci p)], ni)"
proof -
  obtain h l ci where f: "peekIpv4Header p = Inr (h, l)" "nic_flow p = Inr ci" "fc_dstAddr ci = ih_dst h"
    using pk_ip_flow[of p] assms(1) by (auto simp: deliverable_def)
  then obtain lte nr where r: "bi_getMacNodeId (fc_dstAddr ci) b = Inr u" "bi_getNextHop u b = Inr lte"
    "bi_getNextHop (bi_getNrMacNodeId (fc_dstAddr ci) b) b = Inr nr" "0 < lte \<or> 0 < nr"
    using assms(1) by (auto simp: deliverable_def)
  have "\<exists>ci1. nic_markPacket b ci ni = Inr (True, ci1, ni)"
    using r assms(2) by (auto simp: nic_markPacket_def nic_markPacketBs_def bs_plain_def Let_def)
  then show ?thesis using f(2) by (auto simp: nic_toStackBs_def)
qed

lemma sendAll_sends:
  "list_all (\<lambda>p. \<exists>u. deliverable b p u) q \<Longrightarrow> bs_plain ni \<Longrightarrow>
     \<exists>ts. length ts = length q \<and> nic_sendAll (nic_toStackBs b) q ni = Inr (map (\<lambda>(t, p). Nic_To_Stack (setFlowTag t p)) (zip ts q), ni)"
proof (induction q)
  case (Cons p q)
  then obtain u where "deliverable b p u" by auto
  from toStackBs_sends[OF this Cons.prems(2)] obtain ci where c: "nic_toStackBs b p ni = Inr ([Nic_To_Stack (setFlowTag ci p)], ni)" by blast
  obtain ts where "length ts = length q" "nic_sendAll (nic_toStackBs b) q ni = Inr (map (\<lambda>(t, p). Nic_To_Stack (setFlowTag t p)) (zip ts q), ni)"
    using Cons by auto
  then show ?case using c by (intro exI[of _ "ci # ts"]) simp
qed simp

text \<open>The packets held for a UE.\<close>

definition held :: "(node_id \<Rightarrow> pd_packet list option) \<Rightarrow> node_id \<Rightarrow> pd_packet list" where
  "held m u = (case m u of None \<Rightarrow> [] | Some q \<Rightarrow> q)"

lemma held_simps [simp]: "held (m(u := None)) v = (if v = u then [] else held m v)" "held (m(u \<mapsto> q)) v = (if v = u then q else held m v)"
  "held (push_queue u p m) v = (if v = u then held m u @ [p] else held m v)"
  by (auto simp: held_def push_queue_def split: option.splits)

text \<open>
  Completion at the target sends first the packets that came over X2, then those that came from IP, each in the order they came,
  and empties both queues.
\<close>

lemma completeTarget_sends:
  assumes x2: "list_all (\<lambda>p. \<exists>u. deliverable b p u) (held (nic_hoFromX2 ni) u)" and ip: "list_all (\<lambda>p. \<exists>u. deliverable b p u) (held (nic_hoFromIp ni) u)"
    and plain: "bs_plain ni"
  shows "\<exists>es ni'. nic_signalHandoverCompleteTarget b u i ni = Inr (Nic_Handover_Command u i False # map Nic_To_Stack es, ni')
    \<and> map untag es = map untag (held (nic_hoFromX2 ni) u @ held (nic_hoFromIp ni) u)
    \<and> held (nic_hoFromX2 ni') = (held (nic_hoFromX2 ni))(u := []) \<and> held (nic_hoFromIp ni') = (held (nic_hoFromIp ni))(u := [])
    \<and> nic_hoHolding ni' = nic_hoHolding ni - {u} \<and> nic_hoForwarding ni' = nic_hoForwarding ni \<and> bs_plain ni'"
proof -
  define ni1 where "ni1 = (case nic_hoFromX2 ni u of None \<Rightarrow> ni | Some q \<Rightarrow> ni\<lparr>nic_hoFromX2 := (nic_hoFromX2 ni)(u \<mapsto> [])\<rparr>)"
  define ni2 where "ni2 = (case nic_hoFromIp ni1 u of None \<Rightarrow> ni1 | Some q \<Rightarrow> ni1\<lparr>nic_hoFromIp := (nic_hoFromIp ni1)(u \<mapsto> [])\<rparr>)"
  have p: "bs_plain ni1" "bs_plain ni2" using plain by (auto simp: ni1_def ni2_def bs_plain_def split: option.splits)
  have same: "nic_hoFromIp ni1 = nic_hoFromIp ni" by (auto simp: ni1_def split: option.splits)
  let ?send = "\<lambda>ts q. map (\<lambda>(t, p). setFlowTag t p) (zip ts q)"
  obtain ts1 where t1: "length ts1 = length (held (nic_hoFromX2 ni) u)"
    "(case nic_hoFromX2 ni u of None \<Rightarrow> Inr ([], ni) | Some q \<Rightarrow> nic_sendAll (nic_toStackBs b) q (ni\<lparr>nic_hoFromX2 := (nic_hoFromX2 ni)(u \<mapsto> [])\<rparr>))
       = Inr (map Nic_To_Stack (?send ts1 (held (nic_hoFromX2 ni) u)), ni1)"
    using sendAll_sends[OF x2 p(1)] by (auto simp: held_def ni1_def o_def split: option.splits prod.splits)
  obtain ts2 where t2: "length ts2 = length (held (nic_hoFromIp ni) u)"
    "(case nic_hoFromIp ni1 u of None \<Rightarrow> Inr ([], ni1) | Some q \<Rightarrow> nic_sendAll (nic_toStackBs b) q (ni1\<lparr>nic_hoFromIp := (nic_hoFromIp ni1)(u \<mapsto> [])\<rparr>))
       = Inr (map Nic_To_Stack (?send ts2 (held (nic_hoFromIp ni) u)), ni2)"
    using sendAll_sends[OF ip p(2)] by (auto simp: held_def ni2_def same o_def split: option.splits prod.splits)
  let ?es = "?send ts1 (held (nic_hoFromX2 ni) u) @ ?send ts2 (held (nic_hoFromIp ni) u)"
  let ?ni = "ni2\<lparr>nic_hoHolding := nic_hoHolding ni2 - {u}\<rparr>"
  have u: "map untag (?send ts q) = map untag q" if "length ts = length q" for ts q
    using that by (induction ts q rule: list_induct2) auto
  have "nic_signalHandoverCompleteTarget b u i ni = Inr (Nic_Handover_Command u i False # map Nic_To_Stack ?es, ?ni)"
    unfolding nic_signalHandoverCompleteTarget_def t1(2) by (simp add: t2(2))
  moreover have "held (nic_hoFromX2 ?ni) = (held (nic_hoFromX2 ni))(u := [])" "held (nic_hoFromIp ?ni) = (held (nic_hoFromIp ni))(u := [])"
    "nic_hoHolding ?ni = nic_hoHolding ni - {u}" "nic_hoForwarding ?ni = nic_hoForwarding ni"
    by (auto simp: ni1_def ni2_def held_def split: option.splits)
  moreover have "bs_plain ?ni" using p(2) by (simp add: bs_plain_def)
  moreover have "map untag ?es = map untag (held (nic_hoFromX2 ni) u @ held (nic_hoFromIp ni) u)"
    by (simp only: map_append u[OF t1(1)] u[OF t2(1)])
  ultimately show ?thesis by blast
qed

section \<open>No packet is lost\<close>

text \<open>The packets a base station holds, those in its calls, and those in the network of the base stations \<open>N\<close>.\<close>

fun x2_data :: "x2_message \<Rightarrow> pd_packet multiset" where
  "x2_data (X2_Handover_Data p) = {#untag p#}"
| "x2_data (X2_Handover_Control u s) = {#}"

fun effect_bag :: "nic_effect \<Rightarrow> pd_packet multiset" where
  "effect_bag (Nic_To_Stack p) = {#untag p#}"
| "effect_bag (Nic_Forward p j) = {#untag p#}"
| "effect_bag _ = {#}"

definition queue_bag :: "(node_id \<Rightarrow> pd_packet list option) \<Rightarrow> pd_packet multiset" where
  "queue_bag m = (\<Sum>u\<in>UNIV. mset (map untag (held m u)))"

definition node_bag :: "ip2nic \<Rightarrow> pd_packet multiset" where
  "node_bag ni = queue_bag (nic_hoFromX2 ni) + queue_bag (nic_hoFromIp ni)"

definition link_bag :: "x2_message list \<Rightarrow> pd_packet multiset" where
  "link_bag ms = \<Sum>\<^sub># (mset (map x2_data ms))"

definition hn_held :: "node_id set \<Rightarrow> ho_network \<Rightarrow> pd_packet multiset" where
  "hn_held N hn = (\<Sum>i\<in>N. node_bag (hn_nic hn i))"

definition hn_flying :: "node_id set \<Rightarrow> ho_network \<Rightarrow> pd_packet multiset" where
  "hn_flying N hn = (\<Sum>l\<in>{X2_Out, X2_Gtp_Out} \<times> N \<times> N. link_bag (hn_link hn l))"

definition hn_out :: "node_id set \<Rightarrow> ho_network \<Rightarrow> pd_packet multiset" where
  "hn_out N hn = (\<Sum>i\<in>N. mset (map untag (hn_sent hn i)))"

definition hn_bag :: "node_id set \<Rightarrow> ho_network \<Rightarrow> pd_packet multiset" where
  "hn_bag N hn = hn_out N hn + hn_held N hn + hn_flying N hn"

lemma sum_upd:
  fixes F :: "'b \<Rightarrow> 'c :: cancel_comm_monoid_add"
  assumes "finite N" "i \<in> N"
  shows "(\<Sum>x\<in>N. F ((f(i := v)) x)) + F (f i) = (\<Sum>x\<in>N. F (f x)) + F v"
proof -
  have "(\<Sum>x\<in>N - {i}. F ((f(i := v)) x)) = (\<Sum>x\<in>N - {i}. F (f x))" by (rule sum.cong) auto
  with sum.remove[OF assms, of "\<lambda>x. F ((f(i := v)) x)"] sum.remove[OF assms, of "\<lambda>x. F (f x)"] show ?thesis
    by (simp add: ac_simps)
qed

lemma link_bag_simps [simp]: "link_bag [] = {#}" "link_bag (m # ms) = x2_data m + link_bag ms" "link_bag (ms @ ms') = link_bag ms + link_bag ms'"
  by (simp_all add: link_bag_def)

lemma queue_bag_push: "queue_bag (push_queue u p m) = queue_bag m + {#untag p#}"
proof -
  have h: "held (push_queue u p m) = (held m)(u := held m u @ [p])" by auto
  show ?thesis using sum_upd[of UNIV u "\<lambda>q. mset (map untag q)" "held m" "held m u @ [p]"] by (simp add: queue_bag_def h)
qed

lemma queue_bag_clear: "held m' = (held m)(u := []) \<Longrightarrow> queue_bag m' + mset (map untag (held m u)) = queue_bag m"
  using sum_upd[of UNIV u "\<lambda>q. mset (map untag q)" "held m" "[]"] by (simp add: queue_bag_def)

lemma hn_out_sent:
  assumes "finite N" "i \<in> N"
  shows "hn_out N (hn\<lparr>hn_sent := (hn_sent hn)(i := hn_sent hn i @ ps)\<rparr>) = hn_out N hn + mset (map untag ps)"
  using sum_upd[OF assms, of "\<lambda>q. mset (map untag q)" "hn_sent hn" "hn_sent hn i @ ps"] by (simp add: hn_out_def)

lemma hn_flying_link:
  assumes "finite N" "i \<in> N" "j \<in> N"
  shows "hn_flying N (hn\<lparr>hn_link := (hn_link hn)((w, i, j) := ms)\<rparr>) + link_bag (hn_link hn (w, i, j)) = hn_flying N hn + link_bag ms"
proof -
  have "finite ({X2_Out, X2_Gtp_Out} \<times> N \<times> N)" "(w, i, j) \<in> {X2_Out, X2_Gtp_Out} \<times> N \<times> N" using assms by (cases w; simp)+
  from sum_upd[OF this, of link_bag "hn_link hn" ms] show ?thesis by (simp add: hn_flying_def del: fun_upd_apply)
qed

lemma hn_transmit_bag:
  assumes "finite N" "i \<in> N" "j \<in> N"
  shows "hn_bag N (hn_transmit i j m hn) = hn_bag N hn + x2_data m"
  using hn_flying_link[OF assms, of hn "x2_fromStack m" "hn_link hn (x2_fromStack m, i, j) @ [m]"]
  by (simp add: hn_transmit_def Let_def hn_bag_def hn_held_def hn_out_def ac_simps)

text \<open>The calls a base station of the network makes: none deletes a packet, and messages go to base stations of the network.\<close>

fun inside :: "node_id set \<Rightarrow> nic_effect \<Rightarrow> bool" where
  "inside N (Nic_Forward p j) = (j \<in> N)"
| "inside N (Nic_Handover_Command u j s) = (j \<in> N)"
| "inside N (Nic_Delete p) = False"
| "inside N _ = True"

lemma effect_conserves:
  assumes "finite N" "i \<in> N" "inside N e"
  shows "hn_bag N (hn_effect i e hn) = hn_bag N hn + effect_bag e"
proof (cases e)
  case (Nic_To_Stack p)
  then show ?thesis using hn_out_sent[OF assms(1,2), of hn "[p]"] by (simp add: hn_bag_def hn_held_def hn_flying_def ac_simps)
qed (use assms in \<open>simp_all add: hn_transmit_bag\<close>)

lemma effects_conserve:
  "finite N \<Longrightarrow> i \<in> N \<Longrightarrow> list_all (inside N) es \<Longrightarrow> hn_bag N (fold (hn_effect i) es hn) = hn_bag N hn + (\<Sum>e\<leftarrow>es. effect_bag e)"
  by (induction es arbitrary: hn) (simp_all add: effect_conserves ac_simps)

lemma put_conserves:
  assumes "finite N" "i \<in> N" "list_all (inside N) es"
  shows "hn_bag N (hn_put i (es, ni) hn) + node_bag (hn_nic hn i) = hn_bag N hn + node_bag ni + (\<Sum>e\<leftarrow>es. effect_bag e)"
proof -
  have "hn_bag N (hn\<lparr>hn_nic := (hn_nic hn)(i := ni)\<rparr>) + node_bag (hn_nic hn i) = hn_bag N hn + node_bag ni"
    using sum_upd[OF assms(1,2), of node_bag "hn_nic hn" ni] by (simp add: hn_bag_def hn_held_def hn_out_def hn_flying_def ac_simps)
  then show ?thesis by (simp add: hn_put_def effects_conserve[OF assms] ac_simps)
qed

text \<open>
  A network in order: base stations without dual connectivity that hold only deliverable packets and forward within the network,
  links that carry only deliverable packets.
\<close>

abbreviation fit :: "registry \<Rightarrow> pd_packet \<Rightarrow> bool" where "fit b p \<equiv> \<exists>u. deliverable b p u"

definition bs_ok :: "registry \<Rightarrow> node_id set \<Rightarrow> ip2nic \<Rightarrow> bool" where
  "bs_ok b N ni = (bs_plain ni \<and> (\<forall>u. list_all (fit b) (held (nic_hoFromX2 ni) u)) \<and> (\<forall>u. list_all (fit b) (held (nic_hoFromIp ni) u))
     \<and> (\<forall>u j. nic_hoForwarding ni u = Some j \<longrightarrow> j \<in> N))"

fun message_ok :: "registry \<Rightarrow> x2_message \<Rightarrow> bool" where
  "message_ok b (X2_Handover_Data p) = fit b p"
| "message_ok b (X2_Handover_Control u s) = True"

definition hn_ok :: "registry \<Rightarrow> node_id set \<Rightarrow> ho_network \<Rightarrow> bool" where
  "hn_ok b N hn = ((\<forall>i\<in>N. bs_ok b N (hn_nic hn i)) \<and> (\<forall>w. \<forall>i\<in>N. \<forall>j\<in>N. list_all (message_ok b) (hn_link hn (w, i, j))))"

fun event_ok :: "registry \<Rightarrow> node_id set \<Rightarrow> ho_event \<Rightarrow> bool" where
  "event_ok b N (Ho_Ip i p) = (i \<in> N \<and> fit b p)"
| "event_ok b N (Ho_X2 w i j n) = (i \<in> N \<and> j \<in> N)"
| "event_ok b N (Ho_Start u i j) = (i \<in> N \<and> j \<in> N)"
| "event_ok b N (Ho_Complete u i j) = (i \<in> N \<and> j \<in> N)"

fun accepted :: "ho_event \<Rightarrow> pd_packet multiset" where
  "accepted (Ho_Ip i p) = {#untag p#}"
| "accepted _ = {#}"

text \<open>A call that carries a packet carries a deliverable one.\<close>

fun effect_fit :: "registry \<Rightarrow> nic_effect \<Rightarrow> bool" where
  "effect_fit b (Nic_Forward p j) = fit b p"
| "effect_fit b _ = True"

text \<open>What every operation of a base station keeps: the input and what it held is what it sends and holds.\<close>

definition bs_keeps :: "registry \<Rightarrow> node_id set \<Rightarrow> pd_packet multiset \<Rightarrow> (ip2nic \<Rightarrow> nic_result) \<Rightarrow> bool" where
  "bs_keeps b N inp f = (\<forall>ni. bs_ok b N ni \<longrightarrow> (\<exists>es ni'. f ni = Inr (es, ni') \<and> bs_ok b N ni' \<and> list_all (inside N) es
     \<and> list_all (effect_fit b) es \<and> node_bag ni' + (\<Sum>e\<leftarrow>es. effect_bag e) = node_bag ni + inp))"

lemma bs_keepsI:
  assumes "\<And>ni. bs_ok b N ni \<Longrightarrow> \<exists>es ni'. f ni = Inr (es, ni') \<and> bs_ok b N ni' \<and> list_all (inside N) es
     \<and> list_all (effect_fit b) es \<and> node_bag ni' + (\<Sum>e\<leftarrow>es. effect_bag e) = node_bag ni + inp"
  shows "bs_keeps b N inp f"
  using assms by (simp add: bs_keeps_def)

lemma fit_header: "fit b p \<Longrightarrow> \<exists>h l u. peekIpv4Header p = Inr (h, l) \<and> bi_getMacNodeId (ih_dst h) b = Inr u"
  by (auto simp: deliverable_def)

lemma keeps_fromIpBs: "fit b p \<Longrightarrow> bs_keeps b N {#untag p#} (nic_fromIpBs b p)"
proof (rule bs_keepsI)
  fix ni assume p: "fit b p" and ok: "bs_ok b N ni"
  obtain h l u where h: "peekIpv4Header p = Inr (h, l)" "bi_getMacNodeId (ih_dst h) b = Inr u" using fit_header[OF p] by blast
  have plain: "bs_plain ni" and fw: "\<And>u j. nic_hoForwarding ni u = Some j \<Longrightarrow> j \<in> N" using ok by (simp_all add: bs_ok_def)
  consider (forward) j where "nic_hoForwarding ni u = Some j" | (hold) "nic_hoForwarding ni u = None" "u \<in> nic_hoHolding ni"
    | (send) "nic_hoForwarding ni u = None" "u \<notin> nic_hoHolding ni" by (cases "nic_hoForwarding ni u") auto
  then show "\<exists>es ni'. nic_fromIpBs b p ni = Inr (es, ni') \<and> bs_ok b N ni' \<and> list_all (inside N) es
     \<and> list_all (effect_fit b) es \<and> node_bag ni' + (\<Sum>e\<leftarrow>es. effect_bag e) = node_bag ni + {#untag p#}"
  proof cases
    case (forward j)
    then show ?thesis using h ok fw[OF forward] p by (simp add: nic_fromIpBs_def)
  next
    case hold
    let ?ni = "ni\<lparr>nic_hoFromIp := push_queue u (untag p) (nic_hoFromIp ni)\<rparr>"
    have "bs_ok b N ?ni" using ok p by (auto simp: bs_ok_def bs_plain_def)
    then show ?thesis using hold h by (simp add: nic_fromIpBs_def node_bag_def queue_bag_push)
  next
    case send
    obtain v where "deliverable b (untag p) v" using p by auto
    from toStackBs_sends[OF this plain] show ?thesis using send h ok by (auto simp: nic_fromIpBs_def)
  qed
qed

lemma keeps_receiveTunneled: "fit b p \<Longrightarrow> bs_keeps b N {#untag p#} (nic_receiveTunneledPacketOnHandover b p)"
proof (rule bs_keepsI)
  fix ni assume p: "fit b p" and ok: "bs_ok b N ni"
  obtain h l u where h: "peekIpv4Header p = Inr (h, l)" "bi_getMacNodeId (ih_dst h) b = Inr u" using fit_header[OF p] by blast
  let ?ni = "ni\<lparr>nic_hoFromX2 := push_queue u p (nic_hoFromX2 ni)\<rparr>"
  have "bs_ok b N ?ni" using ok p by (auto simp: bs_ok_def bs_plain_def)
  then show "\<exists>es ni'. nic_receiveTunneledPacketOnHandover b p ni = Inr (es, ni') \<and> bs_ok b N ni' \<and> list_all (inside N) es
     \<and> list_all (effect_fit b) es \<and> node_bag ni' + (\<Sum>e\<leftarrow>es. effect_bag e) = node_bag ni + {#untag p#}"
    using h by (intro exI[of _ "[]"] exI[of _ ?ni]) (simp add: nic_receiveTunneledPacketOnHandover_def node_bag_def queue_bag_push)
qed

lemma keeps_complete: "i \<in> N \<Longrightarrow> bs_keeps b N {#} (nic_signalHandoverCompleteTarget b u i)"
proof (rule bs_keepsI)
  fix ni assume i: "i \<in> N" and ok: "bs_ok b N ni"
  have q: "list_all (fit b) (held (nic_hoFromX2 ni) u)" "list_all (fit b) (held (nic_hoFromIp ni) u)" "bs_plain ni"
    using ok by (simp_all add: bs_ok_def)
  obtain es ni' where c: "nic_signalHandoverCompleteTarget b u i ni = Inr (Nic_Handover_Command u i False # map Nic_To_Stack es, ni')"
    "map untag es = map untag (held (nic_hoFromX2 ni) u @ held (nic_hoFromIp ni) u)"
    "held (nic_hoFromX2 ni') = (held (nic_hoFromX2 ni))(u := [])" "held (nic_hoFromIp ni') = (held (nic_hoFromIp ni))(u := [])"
    "nic_hoForwarding ni' = nic_hoForwarding ni" "bs_plain ni'" using completeTarget_sends[OF q, of i] by blast
  have "bs_ok b N ni'" using c(3-6) ok by (simp add: bs_ok_def)
  moreover have "(\<Sum>e\<leftarrow>map Nic_To_Stack es. effect_bag e) = mset (map untag es)" by (induction es) simp_all
  then have "node_bag ni' + (\<Sum>e\<leftarrow>map Nic_To_Stack es. effect_bag e) = node_bag ni"
    unfolding node_bag_def queue_bag_clear[OF c(3), symmetric] queue_bag_clear[OF c(4), symmetric] by (simp only: c(2) map_append mset_append ac_simps)
  moreover have "list_all (inside N) (map Nic_To_Stack es)" "list_all (effect_fit b) (map Nic_To_Stack es)"
    by (simp_all add: list_all_iff)
  ultimately show "\<exists>es ni'. nic_signalHandoverCompleteTarget b u i ni = Inr (es, ni') \<and> bs_ok b N ni' \<and> list_all (inside N) es
     \<and> list_all (effect_fit b) es \<and> node_bag ni' + (\<Sum>e\<leftarrow>es. effect_bag e) = node_bag ni + {#}"
    using c(1) i by (intro exI[of _ "Nic_Handover_Command u i False # map Nic_To_Stack es"] exI[of _ ni']) simp
qed

lemma keeps_triggerSource: "j \<in> N \<Longrightarrow> bs_keeps b N {#} (\<lambda>ni. Inr (nic_triggerHandoverSource u j ni))"
  by (rule bs_keepsI) (auto simp: nic_triggerHandoverSource_def bs_ok_def bs_plain_def node_bag_def)

lemma keeps_message: "message_ok b m \<Longrightarrow> bs_keeps b N (x2_data m) (hm_handleX2Message b m)"
proof (cases m)
  case (X2_Handover_Control u s)
  show ?thesis unfolding X2_Handover_Control
    by (rule bs_keepsI) (auto simp: hm_receiveHandoverCommand_def nic_triggerHandoverTarget_def nic_signalHandoverCompleteSource_def
        bs_ok_def bs_plain_def node_bag_def)
next
  case (X2_Handover_Data p)
  have "hm_handleX2Message b (X2_Handover_Data p) = nic_receiveTunneledPacketOnHandover b p" by (rule ext) simp
  then show "message_ok b m \<Longrightarrow> ?thesis" using X2_Handover_Data keeps_receiveTunneled[of b p N] by simp
qed

lemma effect_ok: "hn_ok b N hn \<Longrightarrow> effect_fit b e \<Longrightarrow> hn_ok b N (hn_effect i e hn)"
  by (cases e) (auto simp: hn_ok_def hn_transmit_def Let_def)

lemma effects_ok: "hn_ok b N hn \<Longrightarrow> list_all (effect_fit b) es \<Longrightarrow> hn_ok b N (fold (hn_effect i) es hn)"
  by (induction es arbitrary: hn) (auto intro: effect_ok)

lemma at_conserves:
  assumes "finite N" "i \<in> N" "hn_ok b N hn" "bs_keeps b N inp f"
  shows "\<exists>hn'. hn_at i f hn = Inr hn' \<and> hn_ok b N hn' \<and> hn_bag N hn' = hn_bag N hn + inp"
proof -
  have "bs_ok b N (hn_nic hn i)" using assms(2,3) by (simp add: hn_ok_def)
  with assms(4) obtain es ni where k: "f (hn_nic hn i) = Inr (es, ni)" "bs_ok b N ni" "list_all (inside N) es" "list_all (effect_fit b) es"
    "node_bag ni + (\<Sum>e\<leftarrow>es. effect_bag e) = node_bag (hn_nic hn i) + inp" unfolding bs_keeps_def by blast
  have "hn_bag N (hn_put i (es, ni) hn) + node_bag (hn_nic hn i) = (hn_bag N hn + inp) + node_bag (hn_nic hn i)"
    unfolding put_conserves[OF assms(1,2) k(3)] by (simp only: add.assoc k(5)) (simp add: ac_simps)
  then have "hn_bag N (hn_put i (es, ni) hn) = hn_bag N hn + inp" by simp
  moreover have "hn_ok b N (hn\<lparr>hn_nic := (hn_nic hn)(i := ni)\<rparr>)" using assms(3) k(2) by (simp add: hn_ok_def)
  then have "hn_ok b N (hn_put i (es, ni) hn)" unfolding hn_put_def by (simp add: effects_ok k(4))
  ultimately show ?thesis using k(1) by (simp add: hn_at_def)
qed

lemma step_conserves:
  assumes N: "finite N" and ok: "hn_ok b N hn" and e: "event_ok b N e"
  shows "\<exists>hn'. hn_step b e hn = Inr hn' \<and> hn_ok b N hn' \<and> hn_bag N hn' = hn_bag N hn + accepted e"
proof (cases e)
  case (Ho_Ip i p)
  then show ?thesis using at_conserves[OF N _ ok keeps_fromIpBs[of b p N]] e by simp
next
  case (Ho_X2 w i j n)
  let ?ms = "hn_link hn (w, i, j)"
  have ij: "i \<in> N" "j \<in> N" using e Ho_X2 by simp_all
  have all: "list_all (message_ok b) ?ms" using ok ij by (simp add: hn_ok_def)
  show ?thesis
  proof (cases "n < length ?ms")
    case True
    let ?rest = "take n ?ms @ drop (Suc n) ?ms"
    let ?hn = "hn\<lparr>hn_link := (hn_link hn)((w, i, j) := ?rest)\<rparr>"
    have split: "?ms = take n ?ms @ ?ms ! n # drop (Suc n) ?ms" using True by (rule id_take_nth_drop)
    have m: "message_ok b (?ms ! n)" using all True by (simp add: list_all_length)
    have parts: "list_all (message_ok b) ?rest" using all by (auto simp: list_all_iff dest: in_set_takeD in_set_dropD)
    have ok': "hn_ok b N ?hn" using ok parts by (auto simp: hn_ok_def)
    have "link_bag ?ms = link_bag ?rest + x2_data (?ms ! n)"
      by (subst split) (simp add: ac_simps)
    then have "hn_bag N ?hn + x2_data (?ms ! n) = hn_bag N hn"
      using hn_flying_link[OF N ij, of hn w ?rest] by (simp add: hn_bag_def hn_out_def hn_held_def ac_simps)
    with at_conserves[OF N ij(2) ok' keeps_message[OF m]] show ?thesis using True Ho_X2 by (simp add: Let_def)
  qed (use Ho_X2 ok in simp)
next
  case (Ho_Start u i j)
  then show ?thesis using at_conserves[OF N _ ok keeps_triggerSource[of j N b u]] e by simp
next
  case (Ho_Complete u i j)
  then show ?thesis using at_conserves[OF N _ ok keeps_complete[of i N b u]] e by simp
qed

lemma run_conserves:
  "finite N \<Longrightarrow> hn_ok b N hn \<Longrightarrow> list_all (event_ok b N) es \<Longrightarrow>
     \<exists>hn'. hn_run b es hn = Inr hn' \<and> hn_ok b N hn' \<and> hn_bag N hn' = hn_bag N hn + (\<Sum>e\<leftarrow>es. accepted e)"
proof (induction es arbitrary: hn)
  case (Cons e es)
  then obtain hn1 where h: "hn_step b e hn = Inr hn1" "hn_ok b N hn1" "hn_bag N hn1 = hn_bag N hn + accepted e"
    using step_conserves[of N b hn e] by auto
  with Cons.IH[OF Cons.prems(1) h(2)] Cons.prems(3) show ?case by (auto simp: add.assoc)
qed simp

text \<open>The network at the start: base stations as they are created, links and stacks empty.\<close>

definition hn_new :: "(node_id \<Rightarrow> ip2nic) \<Rightarrow> ho_network" where
  "hn_new nics = \<lparr>hn_nic = nics, hn_link = (\<lambda>_. []), hn_sent = (\<lambda>_. [])\<rparr>"

definition bs_fresh :: "ip2nic \<Rightarrow> bool" where
  "bs_fresh ni = (bs_plain ni \<and> nic_hoForwarding ni = (\<lambda>_. None) \<and> nic_hoFromX2 ni = (\<lambda>_. None) \<and> nic_hoFromIp ni = (\<lambda>_. None))"

lemma new_network: "(\<And>i. i \<in> N \<Longrightarrow> bs_fresh (nics i)) \<Longrightarrow> hn_ok b N (hn_new nics) \<and> hn_bag N (hn_new nics) = {#}"
  by (auto simp: hn_new_def hn_ok_def bs_ok_def bs_fresh_def held_def hn_bag_def hn_out_def hn_held_def hn_flying_def node_bag_def queue_bag_def)

section \<open>Packets that come too late\<close>

text \<open>
  A packet that reaches the target over X2 after the completion stays in the queue: only another completion of a handover of that UE
  empties it.
\<close>

definition not_complete :: "node_id \<Rightarrow> node_id \<Rightarrow> ho_event \<Rightarrow> bool" where
  "not_complete u j e = (\<forall>i. e \<noteq> Ho_Complete u i j)"

definition x2_queue :: "node_id \<Rightarrow> node_id \<Rightarrow> ho_network \<Rightarrow> pd_packet list" where
  "x2_queue j u hn = held (nic_hoFromX2 (hn_nic hn j)) u"

lemma markPacket_queue: "nic_markPacket b ci ni = Inr (m, ci1, ni1) \<Longrightarrow> nic_hoFromX2 ni1 = nic_hoFromX2 ni"
  by (auto simp: nic_markPacket_def nic_markPacketBs_def nic_markPacketUe_def nic_splitBearer_def Let_def elim!: cpp_bindE split: if_splits prod.splits)

lemma toStackBs_queue: "nic_toStackBs b p ni = Inr (es, ni1) \<Longrightarrow> nic_hoFromX2 ni1 = nic_hoFromX2 ni"
  by (auto simp: nic_toStackBs_def elim!: cpp_bindE dest!: markPacket_queue split: if_splits prod.splits)

lemma sendAll_queue: "nic_sendAll (nic_toStackBs b) q ni = Inr (es, ni1) \<Longrightarrow> nic_hoFromX2 ni1 = nic_hoFromX2 ni"
  by (induction q arbitrary: ni es) (auto elim!: cpp_bindE dest!: toStackBs_queue split: prod.splits)

lemma effects_nic [simp]: "hn_nic (fold (hn_effect i) es hn) = hn_nic hn"
proof (induction es arbitrary: hn)
  case (Cons e es)
  then show ?case by (cases e) (auto simp: hn_transmit_def Let_def split: option.splits)
qed simp

lemma at_queue:
  assumes "hn_at i f hn = Inr hn'" "\<And>es ni. i = j \<Longrightarrow> f (hn_nic hn i) = Inr (es, ni) \<Longrightarrow> prefix (held (nic_hoFromX2 (hn_nic hn i)) u) (held (nic_hoFromX2 ni) u)"
  shows "prefix (x2_queue j u hn) (x2_queue j u hn')"
  using assms by (auto simp: hn_at_def hn_put_def x2_queue_def elim!: cpp_bindE)

lemma complete_queue:
  assumes "nic_signalHandoverCompleteTarget b v i ni = Inr (es, ni')" "v \<noteq> u"
  shows "held (nic_hoFromX2 ni') u = held (nic_hoFromX2 ni) u"
  using assms
  by (auto simp: nic_signalHandoverCompleteTarget_def elim!: cpp_bindE dest!: sendAll_queue split: option.splits prod.splits)

lemma step_late:
  assumes "hn_step b e hn = Inr hn'" "not_complete u j e"
  shows "prefix (x2_queue j u hn) (x2_queue j u hn')"
proof (cases e)
  case (Ho_Ip i p)
  show ?thesis using assms(1) unfolding Ho_Ip hn_step.simps
    by (rule at_queue) (auto simp: nic_fromIpBs_def elim!: cpp_bindE dest!: toStackBs_queue split: option.splits if_splits prod.splits)
next
  case (Ho_X2 w k l n)
  let ?ms = "hn_link hn (w, k, l)"
  show ?thesis
  proof (cases "n < length ?ms")
    case True
    let ?hn = "hn\<lparr>hn_link := (hn_link hn)((w, k, l) := take n ?ms @ drop (Suc n) ?ms)\<rparr>"
    have "hn_at l (hm_handleX2Message b (?ms ! n)) ?hn = Inr hn'" using assms(1) Ho_X2 True by (simp add: Let_def)
    then have "prefix (x2_queue j u ?hn) (x2_queue j u hn')"
      by (rule at_queue) (cases "?ms ! n"; auto simp: hm_receiveHandoverCommand_def nic_triggerHandoverTarget_def
          nic_signalHandoverCompleteSource_def nic_receiveTunneledPacketOnHandover_def elim!: cpp_bindE split: prod.splits)
    then show ?thesis by (simp add: x2_queue_def)
  qed (use assms(1) Ho_X2 in simp)
next
  case (Ho_Start v i k)
  show ?thesis using assms(1) unfolding Ho_Start hn_step.simps by (rule at_queue) (auto simp: nic_triggerHandoverSource_def)
next
  case (Ho_Complete v i k)
  then have "k = j \<Longrightarrow> v \<noteq> u" using assms(2) by (auto simp: not_complete_def)
  then show ?thesis using assms(1) unfolding Ho_Complete hn_step.simps by (intro at_queue) (auto dest: complete_queue)
qed

lemma run_late:
  "hn_run b es hn = Inr hn' \<Longrightarrow> list_all (not_complete u j) es \<Longrightarrow> prefix (x2_queue j u hn) (x2_queue j u hn')"
proof (induction es arbitrary: hn)
  case (Cons e es)
  from Cons.prems(1) obtain hn1 where "hn_step b e hn = Inr hn1" "hn_run b es hn1 = Inr hn'" by (auto elim: cpp_bindE)
  with Cons.IH[of hn1] Cons.prems(2) step_late[of b e hn hn1 u j] show ?case by (auto intro: prefix_order.trans)
qed simp

end
