(* ===== verification/Pdcp_Service.thy ===== *)
theory Pdcp_Service
  imports Pdcp_Layer Handover
begin

text \<open>
  Lemmas on the service of PDCP and IP2Nic: the connections, the PDUs that a module sends and what the module at the other end makes of
  them, the reordering entity, the split bearer.
\<close>

section \<open>Connections\<close>

text \<open>The channels that a module gives to a list of flows, and what counts as the same connection in its class.\<close>

fun pd_cidRequests :: "flow_control list \<Rightarrow> pdcp \<Rightarrow> (logical_cid list \<times> pdcp) cpp" where
  "pd_cidRequests [] pd = Inr ([], pd)"
| "pd_cidRequests (i # is') pd = cpp_bind (pd_cidRequest i pd) (\<lambda>(l, pd1). cpp_bind (pd_cidRequests is' pd1) (\<lambda>(ls, pd2). Inr (l # ls, pd2)))"

definition same_connection :: "pdcp_class \<Rightarrow> flow_control \<Rightarrow> flow_control \<Rightarrow> bool" where
  "same_connection c i j = (fc_srcAddr i = fc_srcAddr j \<and> fc_dstAddr i = fc_dstAddr j \<and> fc_typeOfService i = fc_typeOfService j
     \<and> (c = Lte_Ue \<or> c = Lte_Enb \<or> fl_direction i = fl_direction j))"

lemma dir_number_inject: "dir_number d = dir_number d' \<longleftrightarrow> d = d'"
  by (cases d; cases d') (simp_all add: dir_number_def)

lemma same_connection_conn: "same_connection c i j =
    (if c = Lte_Ue \<or> c = Lte_Enb then fc_conn3 i = fc_conn3 j else fc_conn4 i = fc_conn4 j)"
  by (auto simp: same_connection_def fc_conn3_def fc_conn4_def dir_number_inject)

definition pd_table :: "pdcp \<Rightarrow> ct_entry list \<times> 16 word" where
  "pd_table pd = (pd_ht pd, pd_lcid pd)"

lemma cidRequests_assign:
  assumes "\<And>info pd. pd_class pd = c \<Longrightarrow> pd_cidRequest info pd =
      cpp_bind (walk (pd_assignLcid f g (conn info) (pd_table pd))) (\<lambda>(l, ht, n). Inr (l, pd\<lparr>pd_ht := ht, pd_lcid := n\<rparr>))"
    and "pd_class pd = c" and "pd_assignAll f g (map conn infos) (pd_table pd) = Some (ls, s)"
  shows "\<exists>pd'. pd_cidRequests infos pd = Inr (ls, pd') \<and> pd_table pd' = s"
  using assms(2,3)
proof (induction infos arbitrary: pd ls)
  case (Cons i infos)
  obtain l s1 ls1 where a: "pd_assignLcid f g (conn i) (pd_table pd) = Some (l, s1)" "pd_assignAll f g (map conn infos) s1 = Some (ls1, s)" "ls = l # ls1"
    using Cons.prems(2) by (auto split: option.splits)
  obtain ht n where s1: "s1 = (ht, n)" by (cases s1)
  let ?pd = "pd\<lparr>pd_ht := ht, pd_lcid := n\<rparr>"
  have t: "pd_table ?pd = s1" by (simp add: pd_table_def s1)
  have "pd_class ?pd = c" using Cons.prems(1) by simp
  from Cons.IH[OF this] a(2) t obtain pd' where "pd_cidRequests infos ?pd = Inr (ls1, pd')" "pd_table pd' = s" by auto
  moreover have "pd_cidRequest i pd = Inr (l, ?pd)" using assms(1)[OF Cons.prems(1), of i] a(1) by (simp add: s1)
  ultimately show ?case using a(3) by simp
qed simp

lemma cidRequests_distinct:
  assumes "pd_ht pd = ct_new" "pd_lcid pd = 1" "card (fc_conn4 ` set infos) < TABLE_SIZE"
  shows "\<exists>ls pd'. pd_cidRequests infos pd = Inr (ls, pd') \<and> length ls = length infos
    \<and> (\<forall>i < length infos. \<forall>j < length infos. (ls ! i = ls ! j) = same_connection (pd_class pd) (infos ! i) (infos ! j))"
proof (cases "pd_class pd = Lte_Ue \<or> pd_class pd = Lte_Enb")
  case True
  have "fc_conn3 ` set infos = (\<lambda>(a, b, c, d). (a, b, c)) ` fc_conn4 ` set infos"
    by (auto simp: fc_conn3_def fc_conn4_def image_comp)
  then have "card (set (map fc_conn3 infos)) \<le> card (fc_conn4 ` set infos)" by (simp add: card_image_le)
  then have "card (set (map fc_conn3 infos)) < TABLE_SIZE" using assms(3) by linarith
  from t3.new_assign[OF this] obtain ls s where a: "pd_assignAll ct_find_entry3 ct_create_entry3 (map fc_conn3 infos) (pd_table pd) = Some (ls, s)"
    "length ls = length infos" "\<forall>i < length infos. \<forall>j < length infos. (ls ! i = ls ! j) = (fc_conn3 (infos ! i) = fc_conn3 (infos ! j))"
    unfolding table_operations[symmetric] using assms(1,2) by (auto simp: pd_table_def)
  obtain pd' where "pd_cidRequests infos pd = Inr (ls, pd')"
    using cidRequests_assign[where c = "pd_class pd" and conn = fc_conn3, OF _ refl a(1)] True
    by (auto simp: pd_cidRequest_def pd_table_def split: if_splits)
  with a True show ?thesis by (auto simp: same_connection_conn)
next
  case False
  have "card (set (map fc_conn4 infos)) < TABLE_SIZE" using assms(3) by simp
  from t4.new_assign[OF this] obtain ls s where a: "pd_assignAll ct_find_entry4 ct_create_entry4 (map fc_conn4 infos) (pd_table pd) = Some (ls, s)"
    "length ls = length infos" "\<forall>i < length infos. \<forall>j < length infos. (ls ! i = ls ! j) = (fc_conn4 (infos ! i) = fc_conn4 (infos ! j))"
    unfolding table_operations[symmetric] using assms(1,2) by (auto simp: pd_table_def)
  obtain pd' where "pd_cidRequests infos pd = Inr (ls, pd')"
    using cidRequests_assign[where c = "pd_class pd" and conn = fc_conn4, OF _ refl a(1)] False
    by (auto simp: pd_cidRequest_def pd_table_def split: if_splits)
  with a False show ?thesis by (auto simp: same_connection_conn)
qed

lemma first_connection:
  assumes "pd_ht pd = ct_new" "pd_lcid pd = 1"
  shows "\<exists>ht. pd_cidRequest info pd = Inr (1, pd\<lparr>pd_ht := ht, pd_lcid := 2\<rparr>)"
proof -
  have one: "(1 :: logical_cid) \<noteq> LCID_NONE" by (simp add: LCID_NONE_def)
  have "\<exists>ht. pd_assignLcid ct_find_entry3 ct_create_entry3 k (ct_new, 1) = Some (1, ht, 2)" for k
    using t3.lookup_ok[of ct_new k] t3.add_ok[of ct_new k 1] t3.new_ok one
    by (auto simp: pd_assignLcid_def find_entry3_lookup create_entry3_add TABLE_SIZE_def)
  moreover have "\<exists>ht. pd_assignLcid ct_find_entry4 ct_create_entry4 k (ct_new, 1) = Some (1, ht, 2)" for k
    using t4.lookup_ok[of ct_new k] t4.add_ok[of ct_new k 1] t4.new_ok one
    by (auto simp: pd_assignLcid_def find_entry4_lookup create_entry4_add TABLE_SIZE_def)
  ultimately obtain h3 h4 where "pd_assignLcid ct_find_entry3 ct_create_entry3 (fc_conn3 info) (ct_new, 1) = Some (1, h3, 2)"
    "pd_assignLcid ct_find_entry4 ct_create_entry4 (fc_conn4 info) (ct_new, 1) = Some (1, h4, 2)" by blast
  then show ?thesis unfolding pd_cidRequest_def assms by (cases "pd_class pd = Lte_Ue \<or> pd_class pd = Lte_Enb") auto
qed

section \<open>The tables when they are full\<close>

lemma all_used: "length t = n \<Longrightarrow> (\<forall>i < n. used_key free key t i \<noteq> None) = (\<forall>e \<in> set t. \<not> free e)"
  by (auto simp: used_key_def all_set_conv_all_nth split: if_splits)

lemma none_with_key: "length t = n \<Longrightarrow> (\<forall>e \<in> set t. \<not> free e) \<Longrightarrow> (\<forall>i < n. used_key free key t i \<noteq> Some k) = (\<forall>e \<in> set t. key e \<noteq> k)"
  by (auto simp: used_key_def all_set_conv_all_nth split: if_splits)

lemma walks:
  assumes "length t = TABLE_SIZE"
  shows "ct_create_entry3 k3 v t = None \<longleftrightarrow> (\<forall>e \<in> set t. ce_lcid e \<noteq> LCID_NONE)"
    "ct_create_entry4 k4 v t = None \<longleftrightarrow> (\<forall>e \<in> set t. ce_lcid e \<noteq> LCID_NONE)"
    "ct_find_entry3 k3 t = None \<longleftrightarrow> (\<forall>e \<in> set t. ce_lcid e \<noteq> LCID_NONE \<and> key3 e \<noteq> k3)"
    "ct_find_entry4 k4 t = None \<longleftrightarrow> (\<forall>e \<in> set t. ce_lcid e \<noteq> LCID_NONE \<and> key4 e \<noteq> k4)"
proof -
  have r: "(table_room free_entry t = 0) = (\<forall>e \<in> set t. ce_lcid e \<noteq> LCID_NONE)"
    by (simp add: table_room_def filter_empty_conv)
  show "ct_create_entry3 k3 v t = None \<longleftrightarrow> (\<forall>e \<in> set t. ce_lcid e \<noteq> LCID_NONE)"
    "ct_create_entry4 k4 v t = None \<longleftrightarrow> (\<forall>e \<in> set t. ce_lcid e \<noteq> LCID_NONE)"
    unfolding create_entry3_add create_entry4_add using t3.add_diverges[OF assms] t4.add_diverges[OF assms] r by simp_all
  show "ct_find_entry3 k3 t = None \<longleftrightarrow> (\<forall>e \<in> set t. ce_lcid e \<noteq> LCID_NONE \<and> key3 e \<noteq> k3)"
    unfolding find_entry3_lookup t3.lookup_diverges[OF assms] r using none_with_key[OF assms, of free_entry key3 k3] by blast
  show "ct_find_entry4 k4 t = None \<longleftrightarrow> (\<forall>e \<in> set t. ce_lcid e \<noteq> LCID_NONE \<and> key4 e \<noteq> k4)"
    unfolding find_entry4_lookup t4.lookup_diverges[OF assms] r using none_with_key[OF assms, of free_entry key4 k4] by blast
qed

section \<open>PDUs\<close>

text \<open>A PDU that carries a packet: its chunks behind a PDCP header are the compressed packet.\<close>

definition carries :: "int \<Rightarrow> pd_packet \<Rightarrow> pd_packet \<Rightarrow> bool" where
  "carries n p q = (\<exists>c len. headerCompress n p = Inr c \<and> pk_chunks q = Pdcp_Pdu len # pk_chunks c \<and> pk_name q = pk_name p \<and> pk_tag q \<noteq> None)"

fun pdu_of :: "pdcp_effect \<Rightarrow> pd_packet option" where
  "pdu_of (Pd_To_Rlc port q) = Some q"
| "pdu_of (Pd_Forward q node) = Some q"
| "pdu_of _ = None"

definition pdus_carry :: "int \<Rightarrow> pd_packet \<Rightarrow> pdcp_effect list \<Rightarrow> bool" where
  "pdus_carry n p es = (\<forall>e \<in> set es. \<forall>q. pdu_of e = Some q \<longrightarrow> carries n p q)"

lemma carries_retag: "carries n p q \<Longrightarrow> carries n p (setFlowTag t q)" "carries n (setFlowTag t p) q = carries n p q"
proof -
  show "carries n p q \<Longrightarrow> carries n p (setFlowTag t q)" by (auto simp: carries_def setFlowTag_def)
  have "map_sum id pk_chunks (headerCompress n (setFlowTag t p)) = map_sum id pk_chunks (headerCompress n p)"
    by (cases "pk_chunks p")
      (auto simp: headerCompress_def packet_defs front_error_def Let_def cpp_bind_def split: chunk.splits list.splits sum.splits)
  then have "(\<exists>c. headerCompress n (setFlowTag t p) = Inr c \<and> pk_chunks c = cs) = (\<exists>c. headerCompress n p = Inr c \<and> pk_chunks c = cs)" for cs
    by (cases "headerCompress n (setFlowTag t p)"; cases "headerCompress n p") auto
  then show "carries n (setFlowTag t p) q = carries n p q" unfolding carries_def by (auto simp: setFlowTag_def) metis+
qed

lemma sendBase_carries: "pd_sendBase q pd = Inr es \<Longrightarrow> carries n p q \<Longrightarrow> pdus_carry n p es"
  by (auto simp: pd_sendBase_def pdus_carry_def Let_def elim!: cpp_bindE split: rlc_type.splits if_splits)

lemma sendToLowerLayer_carries: "pd_sendToLowerLayer q pd = Inr es \<Longrightarrow> carries n p q \<Longrightarrow> pdus_carry n p es"
  unfolding pd_sendToLowerLayer_def
  by (erule cpp_bindE) (auto simp: Let_def pdus_carry_def carries_retag split: if_splits dest!: sendBase_carries[of _ _ _ n p])

lemma deliverPdcpPdu_carries: "tx_deliverPdcpPdu q pd = Inr es \<Longrightarrow> carries n p q \<Longrightarrow> pdus_carry n p es"
  unfolding tx_deliverPdcpPdu_def nr_deliverPdcpPdu_def
  by (auto simp: Let_def pdus_carry_def elim!: cpp_bindE split: if_splits dest!: sendToLowerLayer_carries[of _ _ _ n p])

lemma headerCompress_name: "headerCompress n p = Inr c \<Longrightarrow> pk_name c = pk_name p"
  by (auto simp: headerCompress_def packet_defs front_error_def Let_def elim!: cpp_bindE split: if_splits list.splits chunk.splits)

lemma toEntity_carries:
  assumes "pd_toEntity b cid info p pd = Inr (es, pd', b')"
  shows "pdus_carry (pd_headerCompressedSize pd) p es"
proof -
  let ?n = "pd_headerCompressedSize pd"
  from assms obtain pd1 info1 q len where t: "headerCompress ?n (setFlowTag info p) = Inr q"
    "tx_deliverPdcpPdu (insertAtFront (Pdcp_Pdu len) (setFlowTag info1 q)) pd1 = Inr es"
    by (auto simp: pd_toEntity_def tx_handlePacketFromUpperLayer_def tx_insertHeader_def Let_def elim!: cpp_bindE split: prod.splits if_splits)
  have "carries ?n (setFlowTag info p) (insertAtFront (Pdcp_Pdu len) (setFlowTag info1 q))"
    unfolding carries_def using t(1) headerCompress_name[OF t(1)] by (auto simp: insertAtFront_def setFlowTag_def)
  then show ?thesis using deliverPdcpPdu_carries[OF t(2)] by (simp add: carries_retag(2))
qed

lemma cidRequest_size: "pd_cidRequest info pd = Inr (l, pd') \<Longrightarrow> pd_headerCompressedSize pd' = pd_headerCompressedSize pd"
  by (auto simp: pd_cidRequest_def elim!: cpp_bindE split: prod.splits)

lemma fromDataPort_carries:
  "pd_fromDataPort macs b p pd = Inr (es, pd', b') \<Longrightarrow> pdus_carry (pd_headerCompressedSize pd) p es"
  unfolding pd_fromDataPort_def base_fromDataPort_def enbD2D_fromDataPort_def nrEnb_fromDataPort_def ueD2D_fromDataPort_def nrUe_fromDataPort_def
  by (auto simp: Let_def elim!: cpp_bindE split: pdcp_class.splits prod.splits dest!: cidRequest_size toEntity_carries)

text \<open>No PDU leaves for the transparent mode: its header would be empty.\<close>

definition not_tm :: "pdcp_effect list \<Rightarrow> bool" where
  "not_tm es = (\<forall>q. Pd_To_Rlc Tm_Port q \<notin> set es)"

lemma sendBase_not_tm: "pd_sendBase q pd = Inr es \<Longrightarrow> pk_tag q = Some t \<Longrightarrow> fc_rlcType t \<noteq> TM \<Longrightarrow> not_tm es"
  by (auto simp: pd_sendBase_def not_tm_def getFlowTag_def Let_def split: rlc_type.splits if_splits)

lemma sendToLowerLayer_not_tm: "pd_sendToLowerLayer q pd = Inr es \<Longrightarrow> pk_tag q = Some t \<Longrightarrow> fc_rlcType t \<noteq> TM \<Longrightarrow> not_tm es"
  unfolding pd_sendToLowerLayer_def
  by (auto simp: getFlowTag_def Let_def not_tm_def split: if_splits dest!: sendBase_not_tm)

lemma deliverPdcpPdu_not_tm: "tx_deliverPdcpPdu q pd = Inr es \<Longrightarrow> pk_tag q = Some t \<Longrightarrow> fc_rlcType t \<noteq> TM \<Longrightarrow> not_tm es"
  unfolding tx_deliverPdcpPdu_def nr_deliverPdcpPdu_def
  by (auto simp: Let_def elim!: cpp_bindE split: if_splits dest!: sendToLowerLayer_not_tm) (auto simp: not_tm_def)

lemma toEntity_not_tm:
  assumes "pd_toEntity b cid info p pd = Inr (es, pd', b')"
  shows "not_tm es"
proof -
  from assms obtain pd1 info1 q len where t: "tx_headerLength (fc_rlcType info1) = Inr len" "0 < len"
    "tx_deliverPdcpPdu (insertAtFront (Pdcp_Pdu len) (setFlowTag info1 q)) pd1 = Inr es"
    by (auto simp: pd_toEntity_def tx_handlePacketFromUpperLayer_def tx_insertHeader_def Let_def elim!: cpp_bindE split: prod.splits if_splits)
  have "fc_rlcType info1 \<noteq> TM" using t(1,2) by (auto simp: tx_headerLength_def)
  from deliverPdcpPdu_not_tm[OF t(3) _ this] show ?thesis by (simp add: insertAtFront_def setFlowTag_def)
qed

lemma fromDataPort_not_tm: "pd_fromDataPort macs b p pd = Inr (es, pd', b') \<Longrightarrow> not_tm es"
  unfolding pd_fromDataPort_def base_fromDataPort_def enbD2D_fromDataPort_def nrEnb_fromDataPort_def ueD2D_fromDataPort_def nrUe_fromDataPort_def
  by (auto simp: Let_def elim!: cpp_bindE split: pdcp_class.splits prod.splits dest!: toEntity_not_tm)

text \<open>The sender of an IP packet for the transparent mode throws, whatever the class, when the packet gets as far as its entity.\<close>

lemma transparent_throws:
  assumes "fc_rlcType info = TM" "pk_ip p" "\<exists>d. tx_setIds b (info\<lparr>fc_sequenceNumber := (case pd_txEntities pd cid of None \<Rightarrow> 0 | Some s \<Rightarrow> s)\<rparr>)
      (pd\<lparr>pd_txEntities := (pd_txEntities pd)(cid \<mapsto> (case pd_txEntities pd cid of None \<Rightarrow> 0 | Some s \<Rightarrow> s) + 1)\<rparr>) = Inr d"
  shows "pd_toEntity b cid info p pd = Inl (Runtime_Error ''chunk is empty'')"
proof -
  obtain c where c: "headerCompress (pd_headerCompressedSize pd) (setFlowTag info p) = Inr c"
    using compress_roundtrip[of "setFlowTag info p"] assms(2) by (fastforce simp: pk_ip_def setFlowTag_def)
  from assms(3) obtain d where d: "tx_setIds b (info\<lparr>fc_sequenceNumber := (case pd_txEntities pd cid of None \<Rightarrow> 0 | Some s \<Rightarrow> s)\<rparr>)
      (pd\<lparr>pd_txEntities := (pd_txEntities pd)(cid \<mapsto> (case pd_txEntities pd cid of None \<Rightarrow> 0 | Some s \<Rightarrow> s) + 1)\<rparr>) = Inr d" by blast
  then have "fc_rlcType d = TM" using assms(1) by (auto simp: tx_setIds_def Let_def elim!: cpp_bindE split: if_splits)
  then show ?thesis using c d
    by (simp add: pd_toEntity_def tx_handlePacketFromUpperLayer_def Let_def getFlowTag_def setFlowTag_def tx_headerLength_def tx_insertHeader_def)
qed

text \<open>The module at the other end hands up the packet, when it does not reorder.\<close>

fun delivered :: "pdcp_effect list \<Rightarrow> pd_packet list" where
  "delivered [] = []"
| "delivered (Pd_To_Data_Port p # es) = p # delivered es"
| "delivered (e # es) = delivered es"

lemma delivered_up_append [simp]: "delivered (es @ fs) = delivered es @ delivered fs"
  by (induction es rule: delivered.induct) auto

lemma delivered_map [simp]: "delivered (map Pd_To_Data_Port ps) = ps"
  by (induction ps) auto

lemma rx_delivers:
  assumes ip: "pk_ip p" and q: "carries n p q" and n: "pd_headerCompressedSize rd = n" and dc: "\<not> pd_isDualConnectivityEnabled rd"
  shows "\<exists>fs rd' r. rx_handlePacketFromLowerLayer cid q rd = Inr (fs, rd') \<and> delivered fs = [r] \<and> pk_chunks r = pk_chunks p \<and> pk_name r = pk_name p"
proof -
  obtain t c len where c: "headerCompress n p = Inr c" "pk_chunks q = Pdcp_Pdu len # pk_chunks c" "pk_name q = pk_name p" "pk_tag q = Some t"
    using q by (auto simp: carries_def)
  have d: "headerDecompress n c = Inr p" using compress_roundtrip[OF ip, of n] c(1) by auto
  let ?q = "q\<lparr>pk_chunks := pk_chunks c\<rparr>"
  have cq: "?q = setFlowTag t c" using c headerCompress_name[OF c(1)] by (simp add: setFlowTag_def)
  have "map_sum id (setFlowTag t) (headerDecompress n c) = headerDecompress n (setFlowTag t c)"
    by (cases "pk_chunks c")
      (auto simp: headerDecompress_def packet_defs front_error_def Let_def cpp_bind_def split: chunk.splits list.splits sum.splits)
  then have r: "headerDecompress n ?q = Inr (setFlowTag t p)" using d cq by simp
  have pop: "popPdcpPdu q = Inr ?q" using c(2) by (simp add: popPdcpPdu_def)
  have tag: "getFlowTag ?q = Inr t" "getFlowTag (setFlowTag t p) = Inr t" using c(4) by (simp_all add: getFlowTag_def setFlowTag_def)
  have up: "px_handlePdcpSdu False (setFlowTag t p) px = Inr ([setFlowTag t p], px)" for px
    by (simp add: px_handlePdcpSdu_def tag(2) Let_def)
  have "pk_chunks (setFlowTag t p) = pk_chunks p" "pk_name (setFlowTag t p) = pk_name p" by (simp_all add: setFlowTag_def)
  then show ?thesis using dc n
    by (simp add: rx_handlePacketFromLowerLayer_def Let_def pop tag(1) r up pd_isDualConnectivityEnabled_def)
qed

section \<open>The reordering entity\<close>

lemma flush_ok:
  "(\<And>i. pos \<le> i \<Longrightarrow> i < pos + m \<Longrightarrow> i < length (px_received px) \<and> (px_received px ! i \<longrightarrow> px_sduBuffer px i \<noteq> None)) \<Longrightarrow>
     \<exists>out px'. px_flush m pos px = Inr (out, px') \<and> px_received px' = px_received px"
proof (induction m arbitrary: pos px)
  case (Suc m)
  let ?next = "\<lambda>px1. px1\<lparr>px_rxDeliv := px_rxDeliv px1 + 1\<rparr>"
  have h: "pos < length (px_received px)" "px_received px ! pos \<Longrightarrow> px_sduBuffer px pos \<noteq> None" using Suc.prems[of pos] by simp_all
  obtain out px1 where one: "(if px_received px ! pos then cpp_bind (px_remove pos px) (\<lambda>(sdu, px1). Inr ([sdu], px1)) else Inr ([], px)) = Inr (out, px1)"
    "px_received px1 = px_received px" "\<And>i. i \<noteq> pos \<Longrightarrow> px_sduBuffer px1 i = px_sduBuffer px i"
    using h(2) by (cases "px_received px ! pos") (auto simp: px_remove_def)
  have "\<exists>out px'. px_flush m (pos + 1) (?next px1) = Inr (out, px') \<and> px_received px' = px_received (?next px1)"
    by (rule Suc.IH) (use Suc.prems one(2,3) in auto)
  then show ?case using h(1) one(1,2) by auto
qed simp

text \<open>The SDU at the end of the window, alone: its timer event reads past the end of the flags.\<close>

lemma last_of_window:
  assumes w: "2 \<le> w" and t: "pk_tag p = Some info" "fc_sequenceNumber info = w - 1"
  shows "\<exists>px. px_handlePdcpSdu True p (px_new False w) = Inr ([], px) \<and> px_timer px \<and> px_handleMessage px = Inl Out_Of_Range"
proof -
  let ?px = "(px_new False w)\<lparr>px_rxNext := w, px_sduBuffer := [unat (w - 1) \<mapsto> p],
    px_received := (replicate (unat w) False)[unat (w - 1) := True], px_timer := True, px_rxReord := w\<rparr>"
  have u: "unat (w - 1) = unat w - 1" "unat w \<ge> 2" using w by (simp_all add: unat_sub word_le_nat_alt)
  have lt: "w - 1 < w" "\<not> w - 1 < 0" "w - 1 \<noteq> 0" "0 < w" using u by (auto simp: word_less_nat_alt)
  have "\<not> w \<le> w - 1" using lt(1) by simp
  have 1: "px_handlePdcpSdu True p (px_new False w) = Inr ([], ?px)"
    using t u lt \<open>\<not> w \<le> w - 1\<close>
    by (simp add: px_handlePdcpSdu_def px_new_def getFlowTag_def Let_def px_addAt_def px_setReceived_def px_handleTimer_def vec_at_def)
  let ?py = "?px\<lparr>px_timer := False\<rparr>"
  have "\<exists>out px'. px_flush (unat w) 0 ?py = Inr (out, px') \<and> px_received px' = px_received ?py"
    by (rule flush_ok) (use u in \<open>auto simp: px_new_def nth_list_update split: if_splits\<close>)
  then obtain out px' where f: "px_flush (unat w) 0 ?py = Inr (out, px')" "length (px_received px') = unat w" by (auto simp: px_new_def)
  have "px_follow (unat w) px' = Inl Out_Of_Range" using f(2) by simp
  moreover have "px_rxDeliv ?px = 0" "px_rxReord ?px = w" by (simp_all add: px_new_def)
  ultimately have "px_handleMessage ?px = Inl Out_Of_Range" using f(1) lt(4) by (simp add: px_handleMessage_def Let_def del: px_follow.simps)
  with 1 show ?thesis by (intro exI[of _ ?px]) simp
qed

section \<open>The split bearer\<close>

text \<open>A module for which a flow uses the split bearer, and the packets of a list of flows marked one after the other.\<close>

definition splits :: "registry \<Rightarrow> ip2nic \<Rightarrow> flow_control \<Rightarrow> bool" where
  "splits b ni ci = (nic_dualConnectivityEnabled ni \<and> 20 \<le> fc_typeOfService ci
     \<and> (if nic_nodeType ni = ENODEB \<or> nic_nodeType ni = GNODEB then
          (\<exists>u h g. bi_getMacNodeId (fc_dstAddr ci) b = Inr u \<and> bi_getNextHop u b = Inr h
             \<and> bi_getNextHop (bi_getNrMacNodeId (fc_dstAddr ci) b) b = Inr g \<and> 0 < h \<and> 0 < g)
        else nic_nodeType ni = UE \<and> (\<exists>h g. bi_getNextHop (nic_nodeId ni) b = Inr h \<and> bi_getNextHop (nic_nrNodeId ni) b = Inr g \<and> 0 < h \<and> 0 < g)))"

lemma markPacket_splits: "splits b ni ci \<Longrightarrow> nic_markPacket b ci ni = nic_splitBearer ci ni"
  by (auto simp: splits_def nic_markPacket_def nic_markPacketBs_def nic_markPacketUe_def Let_def split: if_splits)

fun nic_markAll :: "registry \<Rightarrow> flow_control list \<Rightarrow> ip2nic \<Rightarrow> ((bool \<times> flow_control) list \<times> ip2nic) cpp" where
  "nic_markAll b [] ni = Inr ([], ni)"
| "nic_markAll b (ci # infos) ni = cpp_bind (nic_markPacket b ci ni) (\<lambda>(m, ci1, ni1).
     cpp_bind (nic_markAll b infos ni1) (\<lambda>(rs, ni2). Inr ((m, ci1) # rs, ni2)))"

text \<open>The number of earlier packets of a connection decides.\<close>

definition alternated :: "conn3 list \<Rightarrow> flow_control list \<Rightarrow> (bool \<times> flow_control) list" where
  "alternated h infos = map (\<lambda>i. (True, (infos ! i)\<lparr>fc_useNR := odd (count_list (h @ map fc_conn3 (take i infos)) (fc_conn3 (infos ! i)))\<rparr>)) [0..<length infos]"

lemma alternated_Cons: "alternated h (ci # infos) = (True, ci\<lparr>fc_useNR := odd (count_list h (fc_conn3 ci))\<rparr>) # alternated (h @ [fc_conn3 ci]) infos"
  unfolding alternated_def length_Cons map_upt_Suc by simp

lemma int_odd: "(int n mod 2 \<noteq> 0) = odd n"
  by presburger

lemma markAll_alternates:
  assumes "sb_counts (nic_sbTable ni) h" "card (set h \<union> fc_conn3 ` set infos) < TABLE_SIZE" "int (length h + length infos) \<le> INT_MAX"
    "list_all (splits b ni) infos"
  shows "\<exists>ni'. nic_markAll b infos ni = Inr (alternated h infos, ni')"
  using assms
proof (induction infos arbitrary: h ni)
  case (Cons ci infos)
  let ?k = "fc_conn3 ci"
  have "card (set h) \<le> card (set h \<union> fc_conn3 ` set (ci # infos))" by (rule card_mono) auto
  then have h: "card (set h) < TABLE_SIZE" "int (length h) < INT_MAX" using Cons.prems(2,3) by simp_all
  from sb_number_counts[OF Cons.prems(1) h, of ?k] obtain t where t: "sb_number ?k (nic_sbTable ni) = Inr (int (count_list h ?k), t)"
    "sb_counts t (h @ [?k])" by blast
  let ?ni = "ni\<lparr>nic_sbTable := t\<rparr>"
  have one: "nic_markPacket b ci ni = Inr (True, ci\<lparr>fc_useNR := odd (count_list h ?k)\<rparr>, ?ni)"
    using Cons.prems(4) t(1) int_odd[of "count_list h ?k"] by (simp add: markPacket_splits nic_splitBearer_def fc_conn3_def)
  have "splits b ?ni = splits b ni" by (simp add: splits_def fun_eq_iff)
  then have "list_all (splits b ?ni) infos" using Cons.prems(4) by simp
  moreover have "sb_counts (nic_sbTable ?ni) (h @ [?k])" using t(2) by simp
  moreover have "set (h @ [?k]) \<union> fc_conn3 ` set infos = set h \<union> fc_conn3 ` set (ci # infos)" by auto
  then have "card (set (h @ [?k]) \<union> fc_conn3 ` set infos) < TABLE_SIZE" using Cons.prems(2) by (simp only:)
  moreover have "int (length (h @ [?k]) + length infos) \<le> INT_MAX" using Cons.prems(3) by simp
  ultimately have "\<exists>ni'. nic_markAll b infos ?ni = Inr (alternated (h @ [?k]) infos, ni')" by (rule Cons.IH[rotated 3])
  with one show ?case by (auto simp: alternated_Cons)
qed (simp add: alternated_def)

section \<open>Groups\<close>

lemma registered_groups:
  "bi_isInMulticastGroup (nic_nodeId ni) g (nic_registerMulticastGroups addrs ni b) =
     (bi_isInMulticastGroup (nic_nodeId ni) g b \<or> g \<in> nic_groupId ` set addrs)"
proof (induction addrs arbitrary: b)
  case (Cons a addrs)
  let ?b1 = "bi_registerMulticastGroup (nic_nodeId ni) (nic_groupId a) b"
  let ?b2 = "if 0 < nic_nrNodeId ni then bi_registerMulticastGroup (nic_nrNodeId ni) (nic_groupId a) ?b1 else ?b1"
  have r: "bi_isInMulticastGroup i g (bi_registerMulticastGroup j x c) = (bi_isInMulticastGroup i g c \<or> (i = j \<and> g = x))" for i j x c
    by (auto simp: bi_isInMulticastGroup_def bi_registerMulticastGroup_def split: option.splits)
  have "bi_isInMulticastGroup (nic_nodeId ni) g ?b2 = (bi_isInMulticastGroup (nic_nodeId ni) g b \<or> g = nic_groupId a)" by (auto simp: r)
  moreover have "nic_registerMulticastGroups (a # addrs) ni b = nic_registerMulticastGroups addrs ni ?b2"
    by (simp add: nic_registerMulticastGroups_def Let_def)
  ultimately show ?case using Cons.IH[of ?b2] by auto
qed (simp add: nic_registerMulticastGroups_def)

unbundle bit_operations_syntax

lemma group_masks: "pd_groupId a = take_bit 28 a" "nic_groupId a = take_bit 24 a"
proof -
  have 28: "NOT (push_bit 28 255 :: 32 word) = mask 28" by (simp add: push_bit_eq_mult mask_eq_exp_minus_1 not_eq_complement)
  have 24: "NOT (push_bit 24 255 :: 32 word) = mask 24" by (simp add: push_bit_eq_mult mask_eq_exp_minus_1 not_eq_complement)
  show "pd_groupId a = take_bit 28 a" "nic_groupId a = take_bit 24 a"
    by (simp_all only: pd_groupId_def nic_groupId_def 28 24 take_bit_eq_mask)
qed

text \<open>The group of an address as IP2Nic computes it is the one of PDCP just for the addresses from \<open>224.0.0.0\<close> to \<open>224.255.255.255\<close>.\<close>

lemma groups_agree:
  assumes "isMulticast a"
  shows "(\<exists>a'. pd_groupId a = nic_groupId a') = (drop_bit 24 a = 224)"
proof -
  have b: "bit (drop_bit 28 a) n = bit (14 :: 32 word) n" for n using assms by (simp add: isMulticast_def)
  have high: "bit a 28 = False" "bit a 29" "bit a 30" "bit a 31"
    using b[of 0] b[of 1] b[of 2] b[of 3] by (simp_all add: bit_simps)
  have low: "(\<exists>a'. pd_groupId a = nic_groupId a') = (\<forall>n \<in> {24..<28}. \<not> bit a n)"
  proof
    assume "\<exists>a'. pd_groupId a = nic_groupId a'"
    then obtain a' where e: "take_bit 28 a = take_bit 24 a'" by (auto simp: group_masks)
    show "\<forall>n \<in> {24..<28}. \<not> bit a n"
    proof
      fix n :: nat assume n: "n \<in> {24..<28}"
      have "bit (take_bit 28 a) n = bit (take_bit 24 a') n" by (simp add: e)
      then show "\<not> bit a n" using n by (simp add: bit_simps)
    qed
  next
    assume z: "\<forall>n \<in> {24..<28}. \<not> bit a n"
    have "take_bit 28 a = take_bit 24 a" by (rule bit_word_eqI) (use z in \<open>auto simp: bit_simps\<close>)
    then show "\<exists>a'. pd_groupId a = nic_groupId a'" by (auto simp: group_masks)
  qed
  have "(drop_bit 24 a = 224) = (\<forall>n \<in> {24..<28}. \<not> bit a n)"
  proof
    assume e: "drop_bit 24 a = 224"
    show "\<forall>n \<in> {24..<28}. \<not> bit a n"
    proof
      fix n :: nat assume n: "n \<in> {24..<28}"
      then have "n = 24 \<or> n = 25 \<or> n = 26 \<or> n = 27" by auto
      moreover have "bit a (24 + k) = bit (224 :: 32 word) k" if "k < 8" for k
        using that by (simp flip: e add: bit_simps)
      from this[of 0] this[of 1] this[of 2] this[of 3] have "\<not> bit a 24" "\<not> bit a 25" "\<not> bit a 26" "\<not> bit a 27" by (simp_all add: bit_numeral_rec)
      ultimately show "\<not> bit a n" by auto
    qed
  next
    assume z: "\<forall>n \<in> {24..<28}. \<not> bit a n"
    show "drop_bit 24 a = 224"
    proof (rule bit_word_eqI)
      fix n assume "n < LENGTH(32)"
      then consider "n < 4" | "n = 4" | "n = 5" | "n = 6" | "n = 7" | "8 \<le> n" by fastforce
      then show "bit (drop_bit 24 a) n = bit (224 :: 32 word) n"
      proof cases
        case 1
        then have "n = 0 \<or> n = 1 \<or> n = 2 \<or> n = 3" by auto
        then show ?thesis using z by (auto simp: bit_simps bit_numeral_rec)
      next
        case 6
        then obtain m where m: "n = m + 8" by (metis add.commute le_Suc_ex)
        have "\<not> n < 8" using m by simp
        then have "\<not> bit (take_bit 8 (224 :: 32 word)) n" unfolding bit_take_bit_iff by blast
        moreover have "take_bit 8 (224 :: 32 word) = 224" by simp
        ultimately have "\<not> bit (224 :: 32 word) n" by (simp only: not_False_eq_True)
        moreover have "\<not> bit (drop_bit 24 a) n" using m by (auto simp: bit_simps dest: bit_imp_le_length)
        ultimately show ?thesis by blast
      qed (use high in \<open>auto simp: bit_simps bit_numeral_rec\<close>)
    qed
  qed
  with low show ?thesis by simp
qed

section \<open>The uplink entities of an NR UE\<close>

lemma tx_entity_numbers:
  assumes "tx_handlePacketFromUpperLayer b cid p pd = Inr (es, pd')"
  shows "\<exists>s. pd_txEntities pd' cid = Some (s + 1) \<and> (pd_txEntities pd cid = None \<longrightarrow> s = 0) \<and> (\<forall>s'. pd_txEntities pd cid = Some s' \<longrightarrow> s = s')"
  using assms by (auto simp: tx_handlePacketFromUpperLayer_def Let_def elim!: cpp_bindE split: option.splits)

lemma nrUe_entity:
  assumes c: "pd_class pd = Nr_Ue" and dst: "pk_tag p = Some info" "\<not> isMulticast (fc_dstAddr info)" "bi_getMacNodeId (fc_dstAddr info) b = Inr 0"
    and src: "fl_sourceId info = 0" and hop: "bi_getNextHop 0 b = Inr 0" and r: "pd_fromDataPort macs b p pd = Inr (es, pd', b')"
  shows "\<exists>l s. pd_txEntities pd' (idToMacCid 0 l) = Some (s :: 32 word)"
proof -
  let ?i = "pd_setTrafficInformation (pk_name p) info pd"
  have i: "fc_dstAddr ?i = fc_dstAddr info" "fl_sourceId ?i = 0" using src
    by (auto simp: pd_setTrafficInformation_def Let_def split: prod.splits)
  let ?j = "?i\<lparr>fl_direction := UL, fc_d2dTxPeerId := 0, fl_d2dRxPeerId := 0\<rparr>"
  have "pd_peersUe macs n ?i b = Inr (?j, b)" for n using dst i by (simp add: pd_peersUe_def)
  with r c dst(1) obtain l pd1 where q: "pd_cidRequest ?j pd = Inr (l, pd1)"
    "cpp_bind (pd_getDestId b (?j\<lparr>fl_lcid := l\<rparr>) pd1) (\<lambda>d. pd_toEntity b (idToMacCid d l) (?j\<lparr>fl_lcid := l\<rparr>) p pd1) = Inr (es, pd', b')"
    by (auto simp: pd_fromDataPort_def nrUe_fromDataPort_def getFlowTag_def Let_def elim!: cpp_bindE)
  have "pd_class pd1 = Nr_Ue" using q(1) c by (auto simp: pd_cidRequest_def elim!: cpp_bindE split: prod.splits)
  then have "pd_getDestId b (?j\<lparr>fl_lcid := l\<rparr>) pd1 = Inr 0" using dst(3) i hop by (simp add: pd_getDestId_def)
  with q(2) obtain x where "tx_handlePacketFromUpperLayer b (idToMacCid 0 l) x pd1 = Inr (es, pd')"
    by (auto simp: pd_toEntity_def elim!: cpp_bindE)
  from tx_entity_numbers[OF this] show ?thesis by blast
qed

lemma cidRequest_class: "pd_cidRequest info pd = Inr (l, pd') \<Longrightarrow> pd_class pd' = pd_class pd"
  by (auto simp: pd_cidRequest_def elim!: cpp_bindE split: prod.splits)

lemma toEntity_class: "pd_toEntity b cid info p pd = Inr (es, pd', b') \<Longrightarrow> pd_class pd' = pd_class pd"
  by (auto simp: pd_toEntity_def tx_handlePacketFromUpperLayer_def Let_def elim!: cpp_bindE split: prod.splits)

lemma fromDataPort_class: "pd_fromDataPort macs b p pd = Inr (es, pd', b') \<Longrightarrow> pd_class pd' = pd_class pd"
  unfolding pd_fromDataPort_def base_fromDataPort_def enbD2D_fromDataPort_def nrEnb_fromDataPort_def ueD2D_fromDataPort_def nrUe_fromDataPort_def
  by (auto simp: Let_def elim!: cpp_bindE split: pdcp_class.splits prod.splits dest!: cidRequest_class toEntity_class)

end
