(* ===== verification/Pdcp_Properties.thy ===== *)
theory Pdcp_Properties
  imports Pdcp_Service
begin

text \<open>
  Properties of PDCP, of the module \<open>IP2Nic\<close> above it and of the registry: claims C9, C10, C15, C16, C23 and C37 to C40, with their
  witnesses, and a run of the reordering entity that loses an SDU.
\<close>

section \<open>Concrete nodes for the witnesses\<close>

definition demo_nodes :: "(nat \<times> ran_node_type \<times> node_id \<times> bool) list" where
  "demo_nodes = [(1, GNODEB, 0, False), (2, UE, 1, False), (2, UE, 1, True)]"

definition demo_registry :: registry where
  "demo_registry = snd (bi_registerAll demo_nodes bi_new)"

lemma demo_ids: "fst (bi_registerAll demo_nodes bi_new) = [1, 1025, 2049]"
  by (simp add: demo_nodes_def bi_registerNode_def Let_def bi_new_def node_id_bounds bi_registerNextHop_def bi_registerMasterNode_def)

lemma demo_fits: "bi_ok bi_new" "reg_fits demo_nodes bi_new"
  by (rule bi_ok_new) (simp add: reg_fits_def demo_nodes_def bi_new_def node_id_bounds)

lemma demo_hops: "bi_getNextHop 1 demo_registry = Inr 1" "bi_getNextHop 1025 demo_registry = Inr 1" "bi_getNextHop 2049 demo_registry = Inr 1"
proof -
  have "([1, 1025, 2049], demo_registry) = bi_registerAll demo_nodes bi_new" by (simp add: demo_registry_def flip: demo_ids)
  from registerAll_ok[OF demo_fits this] show "bi_getNextHop 1 demo_registry = Inr 1" "bi_getNextHop 1025 demo_registry = Inr 1"
    "bi_getNextHop 2049 demo_registry = Inr 1" by (simp_all add: demo_nodes_def reg_typed_def)
qed

lemma demo_nextHop: "bi_nextHop demo_registry = put_grown (put_grown (put_grown [] 1 1) 1025 1) 2049 1"
  by (simp add: demo_registry_def demo_nodes_def bi_registerNode_def Let_def bi_new_def node_id_bounds bi_registerNextHop_def bi_registerMasterNode_def)

lemma demo_hop0: "bi_getNextHop 0 demo_registry = Inr 0"
proof -
  have "put_grown (put_grown (put_grown [] 1 1) 1025 1) 2049 1 ! unat (0 :: node_id) = 0"
    by (subst put_grown_nth, simp)+ simp
  then show ?thesis by (simp add: bi_getNextHop_def demo_nextHop)
qed

lemma demo_addresses: "bi_macNodeIdToIPAddress demo_registry = (\<lambda>_. None)" "bi_nrMacNodeIdToIPAddress demo_registry = (\<lambda>_. None)"
  by (simp_all add: demo_registry_def demo_nodes_def bi_registerNode_def Let_def bi_new_def node_id_bounds bi_registerNextHop_def bi_registerMasterNode_def)

text \<open>The UE with its addresses.\<close>

definition demo_ue :: registry where
  "demo_ue = bi_setMacNodeId 7 2049 (bi_setMacNodeId 7 1025 demo_registry)"

lemma getNextHop_set [simp]: "bi_getNextHop i (bi_setMacNodeId a n b) = bi_getNextHop i b"
  by (simp add: bi_getNextHop_def bi_setMacNodeId_def)

lemma demo_ue_hop: "bi_getNextHop i demo_ue = bi_getNextHop i demo_registry"
  by (simp add: demo_ue_def)

lemma demo_ue_lookups: "bi_getNrMacNodeId 7 demo_ue = 2049" "bi_getMacNodeId 7 demo_ue = Inr 1025"
proof -
  have m: "bi_macNodeIdToIPAddress demo_ue 7 = Some 1025" and n: "bi_nrMacNodeIdToIPAddress demo_ue 7 = Some 2049"
    by (simp_all add: demo_ue_def bi_setMacNodeId_def isNrUe_def getNodeTypeById_def node_id_bounds)
  show "bi_getNrMacNodeId 7 demo_ue = 2049" using n by (simp add: bi_getNrMacNodeId_def)
  show "bi_getMacNodeId 7 demo_ue = Inr 1025" using m by (simp add: bi_getMacNodeId_def demo_ue_hop demo_hops)
qed

section \<open>Claims\<close>

text \<open>
  C9. With dual connectivity and delivery in order, an SDU whose number is the last of the reception window, received first, makes the
  entity throw: it is buffered and starts the reordering timer, and when the timer goes off, the loop behind the delivery reads the
  flag of a position past the window. It is so for every window of two or more.
\<close>

theorem nr_timer_throws:
  assumes "2 \<le> w" "pk_tag p = Some info" "fc_sequenceNumber info = w - 1"
  shows "\<exists>px. px_handlePdcpSdu True p (px_new False w) = Inr ([], px) \<and> px_timer px \<and> px_handleMessage px = Inl Out_Of_Range"
  using assms by (rule last_of_window)

definition demo_sdu :: "32 word \<Rightarrow> pd_packet" where
  "demo_sdu n = \<lparr>pk_name = ''sdu'', pk_chunks = [], pk_tag = Some (fc_new\<lparr>fc_sequenceNumber := n\<rparr>)\<rparr>"

theorem nr_timer_throws_witness:
  "\<exists>px. px_handlePdcpSdu True (demo_sdu 4095) (px_new False 4096) = Inr ([], px) \<and> px_timer px \<and> px_handleMessage px = Inl Out_Of_Range"
  by (rule nr_timer_throws[where info = "fc_new\<lparr>fc_sequenceNumber := 4095\<rparr>"]) (simp_all add: demo_sdu_def)

text \<open>
  A run of the entity: SDUs that arrive, by their numbers, and expiries of the timer. With a window of eight, SDU 2 arrives first and is buffered; the
  arrivals of 0 and 1 advance the window but leave it at its old place, the one of SDU 4 now. So SDU 4 is discarded as received
  already, and when the timer goes off, 2 goes up after 3.
\<close>

fun px_run :: "32 word option list \<Rightarrow> pdcp_rx \<Rightarrow> (32 word list \<times> pdcp_rx) cpp" where
  "px_run [] px = Inr ([], px)"
| "px_run (e # es) px =
     cpp_bind (case e of Some n \<Rightarrow> px_handlePdcpSdu True (demo_sdu n) px | None \<Rightarrow> px_handleMessage px) (\<lambda>(out, px1).
     cpp_bind (px_run es px1) (\<lambda>(out', px2). Inr (map (\<lambda>p. fc_sequenceNumber (the (pk_tag p))) out @ out', px2)))"

lemma nr_reordering_trace:
  "map_sum id fst (px_run [Some 2, Some 0, Some 1, Some 3, Some 4, Some 5, None] (px_new False 8)) = Inr [0, 1, 3, 2, 5]"
  by code_simp

text \<open>
  C10. A UE that joined multicast groups is enrolled in the group that PDCP writes into packets to an address just when the address
  is one of \<open>224.0.0.0\<close> to \<open>224.255.255.255\<close> and the UE joined a group with the same last three bytes; packets to any other group reach no
  member, because PDCP takes 28 bits of the address for the group and IP2Nic 24.
\<close>

theorem multicast_groups:
  assumes "isMulticast a"
  shows "bi_isInMulticastGroup (nic_nodeId ni) (pd_groupId a) (nic_registerMulticastGroups addrs ni bi_new)
    = (drop_bit 24 a = 224 \<and> (\<exists>a'\<in>set addrs. take_bit 24 a' = take_bit 24 a))"
proof -
  have new: "\<not> bi_isInMulticastGroup (nic_nodeId ni) (pd_groupId a) bi_new" by (simp add: bi_isInMulticastGroup_def bi_new_def)
  show ?thesis
  proof (cases "drop_bit 24 a = 224")
    case True
    then obtain a' where "pd_groupId a = nic_groupId a'" using groups_agree[OF assms] by blast
    then have e: "take_bit 28 a = take_bit 24 a'" by (simp add: group_masks)
    have "take_bit 24 a = take_bit 24 (take_bit 28 a)" by simp
    also have "\<dots> = take_bit 28 a" unfolding e by simp
    finally have "pd_groupId a = take_bit 24 a" by (simp add: group_masks)
    then have "bi_isInMulticastGroup (nic_nodeId ni) (pd_groupId a) (nic_registerMulticastGroups addrs ni bi_new)
        = (take_bit 24 a \<in> take_bit 24 ` set addrs)" using new by (simp add: registered_groups group_masks)
    then show ?thesis using True by (auto simp: image_iff) metis
  next
    case False
    then have "pd_groupId a \<notin> nic_groupId ` set addrs" using groups_agree[OF assms] by blast
    then show ?thesis using False new by (simp add: registered_groups)
  qed
qed

theorem multicast_groups_witness:
  "\<not> bi_isInMulticastGroup (nic_nodeId (nic_create UE False 0)) (pd_groupId 0xEF000001)
     (nic_registerMulticastGroups [0xEF000001] (nic_create UE False 0) bi_new)"
proof -
  have "isMulticast 0xEF000001" by (simp add: isMulticast_def)
  from multicast_groups[OF this, of "nic_create UE False 0" "[0xEF000001]"] show ?thesis by simp
qed

text \<open>
  C15. The registry types its identifiers: as long as at most 1023 base stations, 1024 UEs and 63486 NR UEs register, all
  identifiers are distinct, tell by their value whether the node is a base station, a UE or the NR side of a UE, name the module that was
  registered, and have the master that was given, a base station being its own.
\<close>

theorem registry_types:
  assumes "reg_fits rs bi_new" "(js, b) = bi_registerAll rs bi_new"
  shows "distinct js \<and> list_all2 (\<lambda>r i. getNodeTypeById i = (if reg_type r = UE then UE else ENODEB)
      \<and> isNrUe i = (reg_type r = UE \<and> reg_nr r) \<and> bi_getOmnetId i b = fst r
      \<and> bi_getNextHop i b = Inr (if reg_type r = UE then reg_master r else i)) rs js"
  using registerAll_ok[OF bi_ok_new assms] unfolding reg_typed_def by blast

theorem registry_types_witness:
  "distinct (fst (bi_registerAll demo_nodes bi_new)) \<and> bi_getNextHop 2049 (snd (bi_registerAll demo_nodes bi_new)) = Inr 1"
proof -
  have "([1, 1025, 2049], demo_registry) = bi_registerAll demo_nodes bi_new" by (simp add: demo_registry_def flip: demo_ids)
  from registry_types[OF demo_fits(2) this] show ?thesis unfolding demo_ids demo_registry_def[symmetric] by (simp add: demo_nodes_def)
qed

text \<open>
  C16. A split bearer sends packets in turn: at a base station or UE with dual connectivity, the packets of flows that use the split bearer go through
  LTE and NR alternately for each connection, the first through LTE, however the connections interleave, as long as there are fewer
  than 2048 of them and no more packets than an \<open>int\<close> counts.
\<close>

theorem split_bearer_alternates:
  assumes "list_all (splits b ni) infos" "nic_sbTable ni = sb_new" "card (fc_conn3 ` set infos) < TABLE_SIZE" "int (length infos) \<le> INT_MAX"
  shows "\<exists>ni'. nic_markAll b infos ni = Inr (map (\<lambda>i. (True, (infos ! i)\<lparr>fc_useNR :=
      odd (count_list (map fc_conn3 (take i infos)) (fc_conn3 (infos ! i)))\<rparr>)) [0..<length infos], ni')"
  using markAll_alternates[of ni "[]" infos b] assms sb_counts_new by (simp add: alternated_def)

definition demo_flow :: "32 word \<Rightarrow> flow_control" where
  "demo_flow src = fc_new\<lparr>fc_srcAddr := src, fc_dstAddr := 7, fc_typeOfService := 20\<rparr>"

theorem split_bearer_alternates_witness:
  "\<exists>ni'. nic_markAll demo_ue [demo_flow 1, demo_flow 2, demo_flow 1] (nic_create GNODEB True 0)
     = Inr ([(True, (demo_flow 1)\<lparr>fc_useNR := False\<rparr>), (True, (demo_flow 2)\<lparr>fc_useNR := False\<rparr>), (True, (demo_flow 1)\<lparr>fc_useNR := True\<rparr>)], ni')"
proof -
  have s: "splits demo_ue (nic_create GNODEB True 0) (demo_flow src)" for src
    by (simp add: splits_def nic_create_def demo_flow_def demo_ue_lookups demo_ue_hop demo_hops)
  have c: "card (fc_conn3 ` set [demo_flow 1, demo_flow 2, demo_flow 1]) < TABLE_SIZE"
    using card_length[of "map fc_conn3 [demo_flow 1, demo_flow 2, demo_flow 1]"] by (simp add: TABLE_SIZE_def)
  have "\<exists>ni'. nic_markAll demo_ue [demo_flow 1, demo_flow 2, demo_flow 1] (nic_create GNODEB True 0) = Inr (map (\<lambda>i. (True, ([demo_flow 1, demo_flow 2, demo_flow 1] ! i)\<lparr>fc_useNR :=
      odd (count_list (map fc_conn3 (take i [demo_flow 1, demo_flow 2, demo_flow 1])) (fc_conn3 ([demo_flow 1, demo_flow 2, demo_flow 1] ! i)))\<rparr>)) [0..<length [demo_flow 1, demo_flow 2, demo_flow 1]], ni')"
    by (rule split_bearer_alternates[OF _ _ c]) (simp_all add: s nic_create_def INT_MAX_def del: nic_markAll.simps, simp add: s[unfolded nic_create_def])
  then show ?thesis by (simp add: upt_conv_Cons fc_conn3_def demo_flow_def del: nic_markAll.simps)
qed

text \<open>
  C23. At an NR UE every entity that sends to a destination outside the cellular network is filed under the node 0, because
  the destination of the flow is looked up before its source is set: deleting the entities of any real node, as a handover does with the
  old master, leaves it with its sequence numbers.
\<close>

theorem nr_ue_entities_survive:
  assumes "pd_class pd = Nr_Ue" "pk_tag p = Some info" "\<not> isMulticast (fc_dstAddr info)" "bi_getMacNodeId (fc_dstAddr info) b = Inr 0"
    "fl_sourceId info = 0" "bi_getNextHop 0 b = Inr 0" "pd_fromDataPort macs b p pd = Inr (es, pd', b')" "n \<noteq> 0"
  shows "\<exists>l s. pd_txEntities pd' (idToMacCid 0 l) = Some s \<and> pd_txEntities (pd_deleteEntities n pd') (idToMacCid 0 l) = Some s"
proof -
  obtain l s where "pd_txEntities pd' (idToMacCid 0 l) = Some s" using nrUe_entity[OF assms(1-7)] by blast
  moreover have "pd_class pd' = Nr_Ue" using fromDataPort_class[OF assms(7)] assms(1) by simp
  ultimately show ?thesis using assms(8) by (intro exI[of _ l] exI[of _ s]) (simp add: pd_deleteEntities_def)
qed

text \<open>An IP packet with UDP, as \<open>IP2Nic\<close> passes it to PDCP, and PDCP modules as they start.\<close>

definition demo_packet :: "32 word \<Rightarrow> pd_packet" where
  "demo_packet dst = \<lparr>pk_name = ''data'', pk_chunks = [Ipv4_Header \<lparr>ih_src = 9, ih_dst = dst, ih_typeOfService = 0, ih_protocolId = IP_PROT_UDP,
       ih_headerLength = 20\<rparr> 20, Udp_Header UDP_HEADER_LENGTH, Data_Chunk 1 100],
     pk_tag = Some (fc_new\<lparr>fc_srcAddr := 9, fc_dstAddr := dst, fc_headerSize := 28\<rparr>)\<rparr>"

definition demo_pdcp :: "pdcp_class \<Rightarrow> node_id \<Rightarrow> pdcp" where
  "demo_pdcp c n = \<lparr>pd_class = c, pd_ht = ct_new, pd_lcid = 1, pd_nodeId = n, pd_nrNodeId = 2049, pd_headerCompressedSize = 3,
     pd_dualConnectivityEnabled = False, pd_conversationalRlc = UM, pd_interactiveRlc = UM, pd_streamingRlc = UM, pd_backgroundRlc = UM,
     pd_txEntities = (\<lambda>_. None), pd_rxEntities = (\<lambda>_. None), pd_rxOutOfOrder = False, pd_rxWindowSize = 4096,
     pd_packetFlowManager = False, pd_NRpacketFlowManager = False\<rparr>"

lemma demo_outside: "bi_getMacNodeId 8 demo_ue = Inr 0"
  by (simp add: bi_getMacNodeId_def demo_ue_def bi_setMacNodeId_def isNrUe_def getNodeTypeById_def node_id_bounds demo_addresses)

lemma demo_channel: "\<exists>H. \<forall>info. pd_cidRequest info (demo_pdcp c n) = Inr (1, (demo_pdcp c n)\<lparr>pd_ht := H info, pd_lcid := 2\<rparr>)"
  by (rule choice) (use first_connection[of "demo_pdcp c n"] in \<open>simp add: demo_pdcp_def\<close>)

lemma demo_fields: "pd_class (demo_pdcp c n) = c" "pd_nodeId (demo_pdcp c n) = n" "pd_nrNodeId (demo_pdcp c n) = 2049"
  "pd_headerCompressedSize (demo_pdcp c n) = 3" "\<not> pd_dualConnectivityEnabled (demo_pdcp c n)" "pd_backgroundRlc (demo_pdcp c n) = UM"
  "pd_txEntities (demo_pdcp c n) = (\<lambda>_. None)" "pd_rxEntities (demo_pdcp c n) = (\<lambda>_. None)"
  "\<not> pd_packetFlowManager (demo_pdcp c n)" "\<not> pd_NRpacketFlowManager (demo_pdcp c n)"
  by (simp_all add: demo_pdcp_def)

lemma demo_sends:
  assumes "c = Lte_Ue \<or> c = Nr_Ue"
  shows "\<exists>es pd' port q. pd_fromDataPort (\<lambda>_. None) demo_ue (demo_packet 8) (demo_pdcp c 1025) = Inr (es, pd', demo_ue) \<and> Pd_To_Rlc port q \<in> set es"
proof -
  obtain H where h: "\<And>info. pd_cidRequest info (demo_pdcp c 1025) = Inr (1, (demo_pdcp c 1025)\<lparr>pd_ht := H info, pd_lcid := 2\<rparr>)"
    using demo_channel by blast
  note d = pd_fromDataPort_def base_fromDataPort_def nrUe_fromDataPort_def pd_peersUe_def pd_toEntity_def tx_handlePacketFromUpperLayer_def
    tx_insertHeader_def PDCP_HEADER_UM_def PDCP_HEADER_AM_def
    headerCompress_def isCompressionEnabled_def LTE_PDCP_HEADER_COMPRESSION_DISABLED_def packet_defs pd_setTrafficInformation_def
    tx_setIds_def tx_headerLength_def tx_deliverPdcpPdu_def nr_deliverPdcpPdu_def pd_sendToLowerLayer_def pd_sendBase_def pd_getDestId_def
    getNodeTypeById_def node_id_bounds pd_isDualConnectivityEnabled_def class_isNr_def isMulticast_def demo_hops demo_ue_hop demo_hop0 demo_outside
    IP_PROT_UDP_def IP_PROT_TCP_def fc_new_def pd_getNrNodeId_def
  from assms show ?thesis
  proof
    assume c: "c = Lte_Ue"
    show ?thesis using h unfolding c by (simp add: demo_packet_def Let_def d demo_fields)
  next
    assume c: "c = Nr_Ue"
    show ?thesis using h unfolding c by (simp add: demo_packet_def Let_def d demo_fields)
  qed
qed


theorem nr_ue_entities_survive_witness:
  "\<exists>es pd' l s. pd_fromDataPort (\<lambda>_. None) demo_ue (demo_packet 8) (demo_pdcp Nr_Ue 1025) = Inr (es, pd', demo_ue)
     \<and> pd_txEntities (pd_deleteEntities 1 pd') (idToMacCid 0 l) = Some s"
proof -
  obtain es pd' where s: "pd_fromDataPort (\<lambda>_. None) demo_ue (demo_packet 8) (demo_pdcp Nr_Ue 1025) = Inr (es, pd', demo_ue)"
    using demo_sends[of Nr_Ue] by blast
  have "pk_tag (demo_packet 8) = Some (fc_new\<lparr>fc_srcAddr := 9, fc_dstAddr := 8, fc_headerSize := 28\<rparr>)" by (simp add: demo_packet_def)
  from nr_ue_entities_survive[OF _ this _ _ _ _ s, of 1] s show ?thesis
    by (auto simp: demo_fields isMulticast_def demo_outside fc_new_def demo_ue_hop demo_hop0)
qed

text \<open>
  C37. The channels that a PDCP module of any class gives to flows, from its start and for fewer than 2048 connections, refine the map from connections to numbers: every
  request is answered, and two requests get the same channel just when the flows agree in the addresses, the type of service and, in
  the classes for device-to-device links and NR, the direction.
\<close>

theorem pdcp_channels:
  assumes "pd_ht pd = ct_new" "pd_lcid pd = 1" "card (fc_conn4 ` set infos) < TABLE_SIZE"
  shows "\<exists>ls pd'. pd_cidRequests infos pd = Inr (ls, pd') \<and> length ls = length infos
    \<and> (\<forall>i < length infos. \<forall>j < length infos. (ls ! i = ls ! j) = same_connection (pd_class pd) (infos ! i) (infos ! j))"
  using assms by (rule cidRequests_distinct)

theorem pdcp_channels_witness:
  "\<exists>l m pd'. pd_cidRequests [demo_flow 1, demo_flow 2, demo_flow 1] (demo_pdcp Nr_Ue 1025) = Inr ([l, m, l], pd') \<and> l \<noteq> m"
proof -
  let ?infos = "[demo_flow 1, demo_flow 2, demo_flow 1]"
  have "card (fc_conn4 ` set ?infos) < TABLE_SIZE" using card_length[of "map fc_conn4 ?infos"] by (simp add: TABLE_SIZE_def)
  from pdcp_channels[OF _ _ this, of "demo_pdcp Nr_Ue 1025"] obtain ls pd' where l: "pd_cidRequests ?infos (demo_pdcp Nr_Ue 1025) = Inr (ls, pd')"
    "length ls = 3" "\<forall>i < 3. \<forall>j < 3. (ls ! i = ls ! j) = same_connection Nr_Ue (?infos ! i) (?infos ! j)"
    by (auto simp: demo_pdcp_def simp del: pd_cidRequests.simps)
  have "ls ! 0 = ls ! 2" "ls ! 0 \<noteq> ls ! 1" using l(3) by (simp_all add: same_connection_def demo_flow_def)
  moreover have "ls = [ls ! 0, ls ! 1, ls ! 2]" using l(2) by (auto simp: numeral_3_eq_3 length_Suc_conv)
  ultimately show ?thesis using l(1) by (metis (no_types, lifting))
qed

text \<open>
  C38. The walks through the table of connections end, except that no entry can be created in a table whose 2048 entries are all in
  use, and that the search in such a table for a connection that it does not hold does not end.
\<close>

theorem pdcp_table_walks:
  assumes "length t = TABLE_SIZE"
  shows "(ct_create_entry3 k3 v t = None \<longleftrightarrow> (\<forall>e \<in> set t. ce_lcid e \<noteq> LCID_NONE))
    \<and> (ct_create_entry4 k4 v t = None \<longleftrightarrow> (\<forall>e \<in> set t. ce_lcid e \<noteq> LCID_NONE))
    \<and> (ct_find_entry3 k3 t = None \<longleftrightarrow> (\<forall>e \<in> set t. ce_lcid e \<noteq> LCID_NONE \<and> key3 e \<noteq> k3))
    \<and> (ct_find_entry4 k4 t = None \<longleftrightarrow> (\<forall>e \<in> set t. ce_lcid e \<noteq> LCID_NONE \<and> key4 e \<noteq> k4))"
  using walks[OF assms] by blast

theorem pdcp_table_walks_witness:
  "ct_find_entry4 (1, 2, 3, 4) (replicate TABLE_SIZE \<lparr>ce_srcAddr = 1, ce_dstAddr = 2, ce_typeOfService = 3, ce_dir = 0, ce_lcid = 1\<rparr>) = None"
proof -
  let ?t = "replicate TABLE_SIZE \<lparr>ce_srcAddr = 1, ce_dstAddr = 2, ce_typeOfService = 3, ce_dir = 0, ce_lcid = 1\<rparr>"
  have "length ?t = TABLE_SIZE" by simp
  from pdcp_table_walks[OF this, of undefined undefined "(1, 2, 3, 4)"] show ?thesis by (simp add: key4_def LCID_NONE_def)
qed

text \<open>
  C39. A handover loses no packet: from the start of a network of base stations without dual connectivity, through any sequence of
  arriving packets, X2 deliveries, starts and completions of handovers, nothing fails, and the packets accepted from IP are those given
  to a stack, those held for a handover and those under way over X2. The packets are deliverable (IP packets to a UE that
  the registry knows and that has a master), and X2 loses nothing between the base stations; it carries data and commands on ways of
  their own, in any order. But a packet that is held at a target for a UE leaves only with the next completion of a
  handover of that UE there: until then the queue only grows.
\<close>

theorem handover_keeps_packets:
  assumes "\<forall>i\<in>N. bs_fresh (nics i)" "list_all (event_ok b N) es"
  shows "\<exists>hn. hn_run b es (hn_new nics) = Inr hn \<and> hn_out N hn + hn_held N hn + hn_flying N hn = (\<Sum>e\<leftarrow>es. accepted e)
    \<and> (\<forall>fs u j. list_all (event_ok b N) fs \<longrightarrow> list_all (not_complete u j) fs \<longrightarrow>
         (\<exists>hn'. hn_run b fs hn = Inr hn' \<and> prefix (x2_queue j u hn) (x2_queue j u hn')))"
proof -
  have f: "finite N" by simp
  have n: "hn_ok b N (hn_new nics)" "hn_bag N (hn_new nics) = {#}" using new_network[of N nics b] assms(1) by auto
  from run_conserves[OF f n(1) assms(2)] obtain hn where h: "hn_run b es (hn_new nics) = Inr hn" "hn_ok b N hn"
    "hn_bag N hn = (\<Sum>e\<leftarrow>es. accepted e)" by (auto simp: n(2))
  have "\<exists>hn'. hn_run b fs hn = Inr hn' \<and> prefix (x2_queue j u hn) (x2_queue j u hn')"
    if "list_all (event_ok b N) fs" "list_all (not_complete u j) fs" for fs u j
    using run_conserves[OF f h(2) that(1)] run_late[OF _ that(2)] by blast
  with h show ?thesis by (auto simp: hn_bag_def)
qed

abbreviation demo_bs :: "node_id \<Rightarrow> ip2nic" where "demo_bs \<equiv> (\<lambda>_. nic_create GNODEB False 0)"

lemma demo_fit: "deliverable demo_ue (demo_packet 7) 1025"
  by (simp add: deliverable_def pk_ip_def demo_packet_def packet_defs IP_PROT_UDP_def IP_PROT_TCP_def demo_ue_lookups demo_ue_hop demo_hops)

theorem handover_keeps_packets_witness:
  "\<exists>hn. hn_run demo_ue [Ho_Start 1025 1 2, Ho_Ip 1 (demo_packet 7)] (hn_new demo_bs) = Inr hn
     \<and> hn_out {1, 2} hn + hn_held {1, 2} hn + hn_flying {1, 2} hn = {#untag (demo_packet 7)#}"
proof -
  have "\<forall>i\<in>{1, 2}. bs_fresh (demo_bs i)" by (simp add: bs_fresh_def bs_plain_def nic_create_def)
  moreover have "list_all (event_ok demo_ue {1, 2}) [Ho_Start 1025 1 2, Ho_Ip 1 (demo_packet 7)]" using demo_fit by auto
  ultimately show ?thesis using handover_keeps_packets[of "{1, 2}" demo_bs demo_ue "[Ho_Start 1025 1 2, Ho_Ip 1 (demo_packet 7)]"] by auto
qed

text \<open>Such a packet: the old master still forwards when the new one has completed.\<close>

lemma late_packet:
  "\<exists>hn. hn_run demo_ue [Ho_Start 1025 1 2, Ho_X2 X2_Out 1 2 0, Ho_Complete 1025 1 2, Ho_Ip 1 (demo_packet 7),
     Ho_X2 X2_Out 2 1 0, Ho_X2 X2_Gtp_Out 1 2 0] (hn_new demo_bs) = Inr hn
     \<and> x2_queue 2 1025 hn = [untag (demo_packet 7)] \<and> hn_sent hn 2 = [] \<and> (\<forall>w. hn_link hn (w, 1, 2) = [] \<and> hn_link hn (w, 2, 1) = [])
     \<and> nic_hoForwarding (hn_nic hn 1) 1025 = None \<and> 1025 \<notin> nic_hoHolding (hn_nic hn 2)"
  by (simp add: hn_new_def hn_at_def hn_put_def hn_transmit_def nic_triggerHandoverSource_def hm_receiveHandoverCommand_def nic_triggerHandoverTarget_def
      nic_signalHandoverCompleteTarget_def nic_signalHandoverCompleteSource_def nic_fromIpBs_def nic_receiveTunneledPacketOnHandover_def
      nic_create_def demo_packet_def packet_defs demo_ue_lookups x2_queue_def held_def push_queue_def untag_def)

text \<open>
  C40. What goes into a PDCP module comes out of the one at the other end: a PDU that a module of any class sends to RLC for an IP packet,
  header compression on or off, goes to the acknowledged or the unacknowledged mode, and every module that takes it from
  there, has the same compressed size and does not reorder accepts it and hands exactly one packet up, with the same chunks and
  the same lengths. For the transparent mode nothing is sent: the header has no bytes, and \<open>Packet::insertAt\<close> throws in a debug build.
\<close>

theorem pdcp_end_to_end:
  assumes "pk_ip p" "pd_handleMessage macs b (From_Data_Port p) pd = Inr (es, pd', b')" "Pd_To_Rlc port q \<in> set es"
    "pd_headerCompressedSize rd = pd_headerCompressedSize pd" "\<not> pd_isDualConnectivityEnabled rd" "cpp_ok (bi_getMasterNode (pd_nodeId rd) b2)"
  shows "port \<noteq> Tm_Port \<and> (\<exists>fs rd' r. pd_handleMessage macs2 b2 (From_Rlc q) rd = Inr (fs, rd', b2)
    \<and> delivered fs = [r] \<and> pk_chunks r = pk_chunks p \<and> pk_name r = pk_name p)"
proof -
  have s: "pd_fromDataPort macs b p pd = Inr (es, pd', b')" using assms(2) by (simp add: pd_handleMessage_def)
  have c: "carries (pd_headerCompressedSize pd) p q"
    using fromDataPort_carries[OF s] assms(3) unfolding pdus_carry_def by force
  then obtain info where t: "getFlowTag q = Inr info" by (auto simp: carries_def getFlowTag_def)
  obtain m where m: "bi_getMasterNode (pd_nodeId rd) b2 = Inr m" using assms(6) by (auto simp: cpp_ok_iff)
  have "pd_fromLowerLayer b2 q rd = rx_handlePacketFromLowerLayer (idToMacCid (fl_sourceId info) (fl_lcid info)) q rd"
    using assms(5) t m by (auto simp: pd_fromLowerLayer_def pd_isDualConnectivityEnabled_def class_isNr_def Let_def)
  moreover obtain fs rd' r where "rx_handlePacketFromLowerLayer (idToMacCid (fl_sourceId info) (fl_lcid info)) q rd = Inr (fs, rd')"
    "delivered fs = [r]" "pk_chunks r = pk_chunks p" "pk_name r = pk_name p" using rx_delivers[OF assms(1) c assms(4,5)] by blast
  moreover have "port \<noteq> Tm_Port" using fromDataPort_not_tm[OF s] assms(3) by (auto simp: not_tm_def)
  ultimately show ?thesis by (simp add: pd_handleMessage_def)
qed

theorem pdcp_end_to_end_witness:
  "\<exists>es pd' port q fs rd' r. pd_handleMessage (\<lambda>_. None) demo_ue (From_Data_Port (demo_packet 8)) (demo_pdcp Lte_Ue 1025) = Inr (es, pd', demo_ue)
     \<and> Pd_To_Rlc port q \<in> set es \<and> port \<noteq> Tm_Port
     \<and> pd_handleMessage (\<lambda>_. None) demo_registry (From_Rlc q) (demo_pdcp Lte_Enb 1) = Inr (fs, rd', demo_registry)
     \<and> delivered fs = [r] \<and> pk_chunks r = pk_chunks (demo_packet 8)"
proof -
  obtain es pd' port q where s: "pd_handleMessage (\<lambda>_. None) demo_ue (From_Data_Port (demo_packet 8)) (demo_pdcp Lte_Ue 1025) = Inr (es, pd', demo_ue)"
    "Pd_To_Rlc port q \<in> set es" using demo_sends[of Lte_Ue] by (auto simp: pd_handleMessage_def)
  have ip: "pk_ip (demo_packet 8)" by (simp add: pk_ip_def demo_packet_def IP_PROT_UDP_def IP_PROT_TCP_def)
  have "cpp_ok (bi_getMasterNode 1 demo_registry)"
    by (simp add: bi_getMasterNode_def demo_registry_def demo_nodes_def bi_registerNode_def Let_def bi_new_def node_id_bounds
        bi_registerNextHop_def bi_registerMasterNode_def)
  with pdcp_end_to_end[OF ip s, of "demo_pdcp Lte_Enb 1" demo_registry "\<lambda>_. None"] have
    "port \<noteq> Tm_Port \<and> (\<exists>fs rd' r. pd_handleMessage (\<lambda>_. None) demo_registry (From_Rlc q) (demo_pdcp Lte_Enb 1) = Inr (fs, rd', demo_registry)
       \<and> delivered fs = [r] \<and> pk_chunks r = pk_chunks (demo_packet 8))" by (auto simp: demo_fields pd_isDualConnectivityEnabled_def)
  with s show ?thesis by blast
qed

end
