(* ===== verification/Kernel_Array.thy ===== *)
theory Kernel_Array
  imports Simu_Prelude
begin

text \<open>
  The container \<open>cArray\<close> of the simulation kernel, as its documentation describes it and the entities of RLC AM use it: positions
  hold an object or nothing, the array grows when a position past the end is used, \<open>addAt\<close> throws on a position in use,
  \<open>add\<close> uses the first free position, \<open>size\<close> is one more than the last position in use. Everything is proved
  through \<open>ca_get\<close>.
\<close>

type_synonym 'a carray = "'a option list"

definition ca_get :: "nat \<Rightarrow> 'a carray \<Rightarrow> 'a option" where
  "ca_get i a = (if i < length a then a ! i else None)"

definition ca_set :: "nat \<Rightarrow> 'a option \<Rightarrow> 'a carray \<Rightarrow> 'a carray" where
  "ca_set i v a = (a @ replicate (Suc i - length a) None)[i := v]"

definition ca_addAt :: "nat \<Rightarrow> 'a \<Rightarrow> 'a carray \<Rightarrow> 'a carray cpp" where
  "ca_addAt i x a = (case ca_get i a of
      Some _ \<Rightarrow> Inl (Runtime_Error ''addAt(): position already used'')
    | None \<Rightarrow> Inr (ca_set i (Some x) a))"

definition ca_remove :: "nat \<Rightarrow> 'a carray \<Rightarrow> 'a carray" where
  "ca_remove i a = (if i < length a then a[i := None] else a)"

definition ca_add :: "'a \<Rightarrow> 'a carray \<Rightarrow> 'a carray" where
  "ca_add x a = ca_set (length (takeWhile (\<lambda>v. v \<noteq> None) a)) (Some x) a"

definition ca_size :: "'a carray \<Rightarrow> nat" where
  "ca_size a = length (dropWhile (\<lambda>v. v = None) (rev a))"

text \<open>The object at a position, which \<open>check_and_cast\<close> requires to be there.\<close>

definition ca_the :: "nat \<Rightarrow> 'a carray \<Rightarrow> 'a cpp" where
  "ca_the i a = (case ca_get i a of None \<Rightarrow> Inl (Runtime_Error ''check_and_cast(): cannot cast nullptr'') | Some x \<Rightarrow> Inr x)"

text \<open>Positions computed as \<open>int\<close>: nothing is at a negative position, and using one throws.\<close>

definition ca_geti :: "int \<Rightarrow> 'a carray \<Rightarrow> 'a option" where
  "ca_geti i a = (if i < 0 then None else ca_get (nat i) a)"

definition ca_addAti :: "int \<Rightarrow> 'a \<Rightarrow> 'a carray \<Rightarrow> 'a carray cpp" where
  "ca_addAti i x a = (if i < 0 then Inl (Runtime_Error ''addAt(): negative position'') else ca_addAt (nat i) x a)"

definition ca_removei :: "int \<Rightarrow> 'a carray \<Rightarrow> 'a carray" where
  "ca_removei i a = (if i < 0 then a else ca_remove (nat i) a)"

definition vec_ati :: "'a list \<Rightarrow> int \<Rightarrow> 'a cpp" where
  "vec_ati xs i = (if i < 0 then Inl Out_Of_Range else vec_at xs (nat i))"

lemma ca_int [simp]:
  "ca_geti (int i) a = ca_get i a" "ca_addAti (int i) x a = ca_addAt i x a" "ca_removei (int i) a = ca_remove i a"
  "vec_ati xs (int i) = vec_at xs i"
  by (simp_all add: ca_geti_def ca_addAti_def ca_removei_def vec_ati_def)

lemma ca_get_Nil [simp]: "ca_get i [] = None"
  by (simp add: ca_get_def)

lemma ca_get_set [simp]: "ca_get j (ca_set i v a) = (if j = i then v else ca_get j a)"
  by (auto simp: ca_get_def ca_set_def nth_list_update nth_append)

lemma ca_get_remove [simp]: "ca_get j (ca_remove i a) = (if j = i then None else ca_get j a)"
  by (auto simp: ca_get_def ca_remove_def nth_list_update)

lemma ca_addAt_free [simp]: "ca_get i a = None \<Longrightarrow> ca_addAt i x a = Inr (ca_set i (Some x) a)"
  by (simp add: ca_addAt_def)

lemma ca_the_Some [simp]: "ca_get i a = Some x \<Longrightarrow> ca_the i a = Inr x"
  by (simp add: ca_the_def)

lemma ca_the_Inr_iff: "ca_the i a = Inr x \<longleftrightarrow> ca_get i a = Some x"
  by (simp add: ca_the_def split: option.splits)

lemma length_takeWhile_nth:
  assumes "i \<le> length xs" "\<forall>j < i. P (xs ! j)" "i < length xs \<longrightarrow> \<not> P (xs ! i)"
  shows "length (takeWhile P xs) = i"
  using assms
proof (induction xs arbitrary: i)
  case Nil
  then show ?case by simp
next
  case (Cons x xs)
  show ?case
  proof (cases i)
    case 0
    with Cons.prems show ?thesis by simp
  next
    case (Suc k)
    have "P x" using Cons.prems(2) Suc by force
    moreover have "length (takeWhile P xs) = k" using Cons.prems Suc by (intro Cons.IH) auto
    ultimately show ?thesis using Suc by simp
  qed
qed

lemma ca_add_at:
  assumes "ca_get i a = None" "\<And>j. j < i \<Longrightarrow> ca_get j a \<noteq> None"
  shows "ca_add x a = ca_set i (Some x) a"
proof -
  have l: "i \<le> length a" proof (rule ccontr)
    assume "\<not> i \<le> length a"
    then show False using assms(2)[of "length a"] by (simp add: ca_get_def)
  qed
  have "length (takeWhile (\<lambda>v. v \<noteq> None) a) = i"
  proof (rule length_takeWhile_nth[OF l])
    show "\<forall>j < i. a ! j \<noteq> None"
    proof (intro allI impI)
      fix j assume "j < i"
      with assms(2)[of j] l show "a ! j \<noteq> None" by (simp add: ca_get_def)
    qed
    show "i < length a \<longrightarrow> \<not> a ! i \<noteq> None" using assms(1) by (auto simp: ca_get_def split: if_splits)
  qed
  then show ?thesis by (simp add: ca_add_def)
qed

lemma ca_size_bound: "ca_get i a \<noteq> None \<Longrightarrow> i < ca_size a"
proof -
  assume u: "ca_get i a \<noteq> None"
  then have i: "i < length a" "a ! i \<noteq> None" by (auto simp: ca_get_def split: if_splits)
  show ?thesis
  proof (rule ccontr)
    assume "\<not> i < ca_size a"
    then have "length (dropWhile (\<lambda>v. v = None) (rev a)) \<le> i" by (simp add: ca_size_def)
    then have "length a - Suc i < length (takeWhile (\<lambda>v. v = None) (rev a))"
      using i(1) arg_cong[OF takeWhile_dropWhile_id[of "\<lambda>v. v = None" "rev a"], of length] unfolding length_append length_rev by linarith
    then have "rev a ! (length a - Suc i) = None"
      using takeWhile_nth[of "length a - Suc i" "\<lambda>v. v = None" "rev a"] nth_mem[of "length a - Suc i" "takeWhile (\<lambda>v. v = None) (rev a)"]
      by (auto dest: set_takeWhileD)
    then show False using i by (simp add: rev_nth)
  qed
qed

lemma ca_size_used: "ca_size a = Suc i \<Longrightarrow> ca_get i a \<noteq> None"
proof -
  assume s: "ca_size a = Suc i"
  let ?d = "dropWhile (\<lambda>v. v = None) (rev a)"
  have "?d \<noteq> []" using s unfolding ca_size_def by (metis length_greater_0_conv zero_less_Suc)
  then have h: "hd ?d \<noteq> None" by (rule hd_dropWhile)
  have e: "a = rev ?d @ rev (takeWhile (\<lambda>v. v = None) (rev a))"
    by (metis rev_append rev_rev_ident takeWhile_dropWhile_id)
  have "a ! i = rev ?d ! i" by (subst e, subst nth_append) (use s in \<open>simp add: ca_size_def\<close>)
  also have "\<dots> = hd ?d" using s \<open>?d \<noteq> []\<close> by (simp add: ca_size_def rev_nth hd_conv_nth)
  finally have "a ! i \<noteq> None" using h by simp
  moreover have "i < length a" using s by (metis ca_size_def Suc_le_eq length_dropWhile_le length_rev)
  ultimately show ?thesis by (simp add: ca_get_def)
qed

end
