(* ===== verification/Multi_Timer.thy ===== *)
theory Multi_Timer
  imports Sorted_Vector
begin

text \<open>
  \<open>TMultiTimer\<close> (\<open>common/timer/TTimer.cc\<close>): one self-message of a module serves many timeouts, each named by a number. The list of
  deadlines is kept sorted, the earliest one is scheduled. An iterator into the list is the element it points to; a
  number occurs once in it, so elements are distinct.
\<close>

record multi_timer =
  mt_directList :: "(simtime \<times> 32 word) list"
  mt_reverseList :: "32 word \<Rightarrow> (simtime \<times> 32 word) option"
  mt_busy :: bool
  mt_intr :: "(simtime \<times> 32 word) option"

definition mt_new :: multi_timer where
  "mt_new = \<lparr>mt_directList = [], mt_reverseList = (\<lambda>_. None), mt_busy = False, mt_intr = None\<rparr>"

definition mt_add :: "simtime \<Rightarrow> simtime \<Rightarrow> 32 word \<Rightarrow> multi_timer \<Rightarrow> multi_timer cpp" where
  "mt_add now time event t =
     cpp_bind (if mt_busy t then (case mt_directList t of [] \<Rightarrow> Inl Undefined_Behaviour | x # _ \<Rightarrow> Inr (fst x - now)) else Inr 1) (\<lambda>remaining.
     let x = (now + time, event);
         t1 = t\<lparr>mt_directList := insert_upper_bound (\<lambda>a b. fst a < fst b) x (mt_directList t)\<rparr>
     in if mt_reverseList t event \<noteq> None then Inl (Runtime_Error ''TMultiTimer::add(): element already exists'')
        else
          let t2 = t1\<lparr>mt_reverseList := (mt_reverseList t1)(event \<mapsto> x)\<rparr>;
              t3 = (if \<not> mt_busy t \<or> time < remaining then t2\<lparr>mt_intr := Some (time + now, event)\<rparr> else t2)
          in Inr (t3\<lparr>mt_busy := True\<rparr>))"

definition mt_busyEvent :: "32 word \<Rightarrow> multi_timer \<Rightarrow> bool" where
  "mt_busyEvent event t = (mt_reverseList t event \<noteq> None)"

text \<open>Both operations schedule the next deadline in the same way.\<close>

definition mt_reschedule :: "multi_timer \<Rightarrow> multi_timer" where
  "mt_reschedule t = (case mt_directList t of
      [] \<Rightarrow> t\<lparr>mt_busy := False, mt_intr := None\<rparr>
    | x # _ \<Rightarrow> t\<lparr>mt_intr := Some x\<rparr>)"

definition mt_handle :: "multi_timer \<Rightarrow> multi_timer cpp" where
  "mt_handle t = (case mt_directList t of
      [] \<Rightarrow> Inl (Runtime_Error ''TMultiTimer::handle(): The list is empty'')
    | x # xs \<Rightarrow> Inr (mt_reschedule (t\<lparr>mt_reverseList := (mt_reverseList t)(snd x := None), mt_directList := xs\<rparr>)))"

definition mt_remove :: "32 word \<Rightarrow> multi_timer \<Rightarrow> multi_timer cpp" where
  "mt_remove event t = (case mt_reverseList t event of
      None \<Rightarrow> Inl (Runtime_Error ''TMultiTimer::remove(): element not found'')
    | Some x \<Rightarrow>
        let t1 = t\<lparr>mt_directList := remove1 x (mt_directList t)\<rparr>;
            t2 = (if mt_directList t \<noteq> [] \<and> x = hd (mt_directList t) then mt_reschedule t1 else t1)
        in Inr (t2\<lparr>mt_reverseList := (mt_reverseList t2)(event := None)\<rparr>))"

section \<open>What a set of timeouts promises\<close>

text \<open>
  The interface that the entities rely on: \<open>deadlines\<close> is the map a set of timeouts stands for, \<open>next\<close> the event that the module
  will receive.
\<close>

locale timeouts =
  fixes add :: "simtime \<Rightarrow> simtime \<Rightarrow> 32 word \<Rightarrow> 't \<Rightarrow> 't cpp"
    and busy :: "32 word \<Rightarrow> 't \<Rightarrow> bool"
    and remove :: "32 word \<Rightarrow> 't \<Rightarrow> 't cpp"
    and handle :: "'t \<Rightarrow> 't cpp"
    and ok :: "'t \<Rightarrow> bool" and deadlines :: "'t \<Rightarrow> 32 word \<Rightarrow> simtime option" and "next" :: "'t \<Rightarrow> (simtime \<times> 32 word) option"
  assumes add_ok: "ok t \<Longrightarrow> deadlines t e = None \<Longrightarrow> \<exists>t'. add now d e t = Inr t' \<and> ok t' \<and> deadlines t' = (deadlines t)(e \<mapsto> now + d)"
    and busy_iff: "ok t \<Longrightarrow> busy e t = (deadlines t e \<noteq> None)"
    and remove_ok: "ok t \<Longrightarrow> deadlines t e \<noteq> None \<Longrightarrow> \<exists>t'. remove e t = Inr t' \<and> ok t' \<and> deadlines t' = (deadlines t)(e := None)"
    and handle_ok: "ok t \<Longrightarrow> next t = Some (d, e) \<Longrightarrow> \<exists>t'. handle t = Inr t' \<and> ok t' \<and> deadlines t' = (deadlines t)(e := None)"
    and next_least: "ok t \<Longrightarrow> next t = Some (d, e) \<Longrightarrow> deadlines t e = Some d \<and> (\<forall>e' d'. deadlines t e' = Some d' \<longrightarrow> d \<le> d')"
    and next_none: "ok t \<Longrightarrow> next t = None \<longleftrightarrow> deadlines t = (\<lambda>_. None)"
begin

text \<open>Stopping a timeout if it runs.\<close>

definition stop :: "32 word \<Rightarrow> 't \<Rightarrow> 't cpp" where
  "stop e t = (if busy e t then remove e t else Inr t)"

lemma stop_ok: "ok t \<Longrightarrow> \<exists>t'. stop e t = Inr t' \<and> ok t' \<and> deadlines t' = (deadlines t)(e := None)"
  using remove_ok[of t e] by (cases "deadlines t e") (auto simp: stop_def busy_iff)

text \<open>A timeout that runs goes off sooner or later: there is a next one, and handling it leaves fewer.\<close>

lemma handle_shrinks:
  assumes "ok t" "deadlines t e \<noteq> None" "finite (dom (deadlines t))"
  shows "\<exists>d e' t'. next t = Some (d, e') \<and> handle t = Inr t' \<and> ok t' \<and> card (dom (deadlines t')) < card (dom (deadlines t))"
proof -
  obtain d e' where n: "next t = Some (d, e')" using assms next_none[of t] by fastforce
  obtain t' where h: "handle t = Inr t'" "ok t'" "deadlines t' = (deadlines t)(e' := None)" using handle_ok[OF assms(1) n] by blast
  have "e' \<in> dom (deadlines t)" using next_least[OF assms(1) n] by blast
  then have "card (dom (deadlines t) - {e'}) < card (dom (deadlines t))" using assms(3) by (rule card_Diff1_less[rotated])
  then show ?thesis using n h by auto
qed

end

section \<open>The implementation keeps it\<close>

definition mt_lt :: "simtime \<times> 32 word \<Rightarrow> simtime \<times> 32 word \<Rightarrow> bool" where
  "mt_lt a b = (fst a < fst b)"

interpretation mt_order: weak_order mt_lt
  by unfold_locales (auto simp: mt_lt_def)

definition mt_ok :: "multi_timer \<Rightarrow> bool" where
  "mt_ok t = (sorted_wrt (\<lambda>a b. \<not> mt_lt b a) (mt_directList t) \<and> distinct (map snd (mt_directList t))
     \<and> (\<forall>e x. mt_reverseList t e = Some x \<longleftrightarrow> x \<in> set (mt_directList t) \<and> snd x = e)
     \<and> mt_busy t = (mt_directList t \<noteq> [])
     \<and> mt_intr t = (case mt_directList t of [] \<Rightarrow> None | x # _ \<Rightarrow> Some x))"

definition mt_deadlines :: "multi_timer \<Rightarrow> 32 word \<Rightarrow> simtime option" where
  "mt_deadlines t e = map_option fst (mt_reverseList t e)"

lemma mt_okD: "mt_ok t \<Longrightarrow> mt_reverseList t e = Some x \<longleftrightarrow> x \<in> set (mt_directList t) \<and> snd x = e"
  unfolding mt_ok_def by blast

lemma mt_ok_new [simp]: "mt_ok mt_new" "mt_deadlines mt_new = (\<lambda>_. None)"
  by (auto simp: mt_ok_def mt_new_def mt_deadlines_def)

lemma insert_upper_bound_hd:
  assumes "xs \<noteq> []"
  shows "hd (insert_upper_bound lt x xs) = (if lt x (hd xs) then x else hd xs)"
  using assms by (cases xs) (auto simp: insert_upper_bound_def)

lemma insert_upper_bound_not_Nil [simp]: "insert_upper_bound lt x xs \<noteq> []"
  by (simp add: insert_upper_bound_def)

lemma case_list_hd: "(case xs of [] \<Rightarrow> None | x # _ \<Rightarrow> Some x) = (if xs = [] then None else Some (hd xs))"
  by (cases xs) auto

lemma mt_add_ok:
  assumes "mt_ok t" "mt_deadlines t e = None"
  shows "\<exists>t'. mt_add now d e t = Inr t' \<and> mt_ok t' \<and> mt_deadlines t' = (mt_deadlines t)(e \<mapsto> now + d)"
proof -
  let ?x = "(now + d, e)" and ?l = "mt_directList t"
  let ?l' = "insert_upper_bound mt_lt ?x ?l"
  have r: "mt_reverseList t e = None" using assms(2) by (simp add: mt_deadlines_def)
  note ok = assms(1)[unfolded mt_ok_def]
  have new: "e \<notin> snd ` set ?l"
  proof
    assume "e \<in> snd ` set ?l"
    then obtain y where "y \<in> set ?l" "snd y = e" by auto
    then have "mt_reverseList t e = Some y" using ok by blast
    then show False using r by simp
  qed
  have lt: "(\<lambda>a b. fst a < fst b) = mt_lt" by (intro ext) (simp add: mt_lt_def)
  have h: "hd ?l' = (if ?l = [] \<or> mt_lt ?x (hd ?l) then ?x else hd ?l)"
    using insert_upper_bound_hd[of ?l mt_lt ?x] by (cases "?l = []") (auto simp: insert_upper_bound_def)
  have "mt_add now d e t = Inr \<lparr>mt_directList = ?l', mt_reverseList = (mt_reverseList t)(e \<mapsto> ?x), mt_busy = True, mt_intr = Some (hd ?l')\<rparr>"
    using r ok h by (cases ?l) (auto simp: mt_add_def Let_def lt mt_lt_def add.commute less_diff_eq)
  moreover have "mt_ok \<lparr>mt_directList = ?l', mt_reverseList = (mt_reverseList t)(e \<mapsto> ?x), mt_busy = True, mt_intr = Some (hd ?l')\<rparr>"
  proof -
    have "(if e' = e then Some ?x else mt_reverseList t e') = Some z \<longleftrightarrow> (z = ?x \<or> z \<in> set ?l) \<and> snd z = e'" for e' z
    proof (cases "e' = e")
      case True
      then show ?thesis using new by (auto simp: image_iff simp del: split_paired_All)
    next
      case False
      then show ?thesis using mt_okD[OF assms(1)] by auto
    qed
    moreover have "set ?l' = insert ?x (set ?l)" "distinct (map snd ?l')" using ok new by (auto simp: insert_upper_bound_distinct)
    ultimately show ?thesis using ok by (simp add: mt_ok_def mt_order.insert_sorted case_list_hd fun_upd_def del: split_paired_All)
  qed
  moreover have "mt_deadlines \<lparr>mt_directList = ?l', mt_reverseList = (mt_reverseList t)(e \<mapsto> ?x), mt_busy = True, mt_intr = Some (hd ?l')\<rparr>
      = (mt_deadlines t)(e \<mapsto> now + d)" by (auto simp: mt_deadlines_def)
  ultimately show ?thesis by blast
qed

lemma mt_remove_ok:
  assumes "mt_ok t" "mt_deadlines t e \<noteq> None"
  shows "\<exists>t'. mt_remove e t = Inr t' \<and> mt_ok t' \<and> mt_deadlines t' = (mt_deadlines t)(e := None)"
proof -
  let ?l = "mt_directList t"
  note ok = assms(1)[unfolded mt_ok_def]
  obtain x where x: "mt_reverseList t e = Some x" using assms(2) by (auto simp: mt_deadlines_def)
  then have m: "x \<in> set ?l" "snd x = e" using ok by blast+
  have dist: "distinct ?l" using ok by (simp add: distinct_map)
  let ?t' = "\<lparr>mt_directList = remove1 x ?l, mt_reverseList = (mt_reverseList t)(e := None), mt_busy = (remove1 x ?l \<noteq> []),
     mt_intr = (case remove1 x ?l of [] \<Rightarrow> None | y # _ \<Rightarrow> Some y)\<rparr>"
  have "mt_remove e t = Inr ?t'"
  proof (cases "?l")
    case Nil
    with m show ?thesis by simp
  next
    case (Cons y ys)
    then have "mt_intr t = Some y" "mt_busy t" using ok by simp_all
    then show ?thesis using Cons x by (auto simp: mt_remove_def mt_reschedule_def Let_def split: list.splits)
  qed
  moreover have "mt_ok ?t'"
  proof -
    have "((mt_reverseList t)(e := None)) e' = Some z \<longleftrightarrow> z \<in> set (remove1 x ?l) \<and> snd z = e'" for e' z
    proof -
      have "z \<in> set (remove1 x ?l) \<longleftrightarrow> z \<in> set ?l \<and> z \<noteq> x" using dist by (simp add: set_remove1_eq)
      moreover have "snd z = e \<longrightarrow> z \<in> set ?l \<longrightarrow> z = x" using ok m(1,2) by (auto simp: distinct_map inj_on_def)
      ultimately show ?thesis using mt_okD[OF assms(1), of e' z] m by (cases "e' = e") auto
    qed
    moreover have "distinct (map snd (remove1 x ?l))" using ok
      by (metis distinct_map distinct_remove1 inj_on_subset set_remove1_subset)
    ultimately show ?thesis using ok by (simp add: mt_ok_def sorted_wrt_remove1)
  qed
  moreover have "mt_deadlines ?t' = (mt_deadlines t)(e := None)" by (auto simp: mt_deadlines_def)
  ultimately show ?thesis by blast
qed

lemma mt_handle_ok:
  assumes "mt_ok t" "mt_intr t = Some (d, e)"
  shows "\<exists>t'. mt_handle t = Inr t' \<and> mt_ok t' \<and> mt_deadlines t' = (mt_deadlines t)(e := None)"
proof -
  obtain xs where l: "mt_directList t = (d, e) # xs" using assms by (auto simp: mt_ok_def split: list.splits)
  note ok = assms(1)[unfolded mt_ok_def l]
  let ?t' = "\<lparr>mt_directList = xs, mt_reverseList = (mt_reverseList t)(e := None), mt_busy = (xs \<noteq> []),
     mt_intr = (case xs of [] \<Rightarrow> None | y # _ \<Rightarrow> Some y)\<rparr>"
  have "mt_handle t = Inr ?t'" using ok by (auto simp: mt_handle_def l mt_reschedule_def split: list.splits)
  moreover have "((mt_reverseList t)(e := None)) e' = Some z \<longleftrightarrow> z \<in> set xs \<and> snd z = e'" for e' z
  proof (cases "e' = e")
    case True
    then show ?thesis using ok by auto
  next
    case False
    then show ?thesis using mt_okD[OF assms(1), of e' z] by (auto simp: l)
  qed
  then have "mt_ok ?t'" using ok by (simp add: mt_ok_def del: split_paired_All)
  moreover have "mt_deadlines ?t' = (mt_deadlines t)(e := None)" by (auto simp: mt_deadlines_def)
  ultimately show ?thesis by blast
qed

interpretation mt: timeouts mt_add mt_busyEvent mt_remove mt_handle mt_ok mt_deadlines mt_intr
proof
  fix t e now d assume "mt_ok t" "mt_deadlines t e = None"
  then show "\<exists>t'. mt_add now d e t = Inr t' \<and> mt_ok t' \<and> mt_deadlines t' = (mt_deadlines t)(e \<mapsto> now + d)" by (rule mt_add_ok)
next
  fix t e assume "mt_ok t"
  show "mt_busyEvent e t = (mt_deadlines t e \<noteq> None)" by (simp add: mt_busyEvent_def mt_deadlines_def)
next
  fix t e assume "mt_ok t" "mt_deadlines t e \<noteq> None"
  then show "\<exists>t'. mt_remove e t = Inr t' \<and> mt_ok t' \<and> mt_deadlines t' = (mt_deadlines t)(e := None)" by (rule mt_remove_ok)
next
  fix t d e assume "mt_ok t" "mt_intr t = Some (d, e)"
  then show "\<exists>t'. mt_handle t = Inr t' \<and> mt_ok t' \<and> mt_deadlines t' = (mt_deadlines t)(e := None)" by (rule mt_handle_ok)
next
  fix t d e assume t: "mt_ok t" "mt_intr t = Some (d, e)"
  obtain xs where l: "mt_directList t = (d, e) # xs" using t by (auto simp: mt_ok_def split: list.splits)
  note ok = t(1)[unfolded mt_ok_def l]
  have "mt_reverseList t e = Some (d, e)" using ok by simp
  moreover have "d \<le> fst x" if "mt_reverseList t e' = Some x" for e' x
  proof -
    have "x = (d, e) \<or> x \<in> set xs" using ok that by (metis set_ConsD)
    then show ?thesis using ok by (auto simp: mt_lt_def not_less)
  qed
  ultimately show "mt_deadlines t e = Some d \<and> (\<forall>e' d'. mt_deadlines t e' = Some d' \<longrightarrow> d \<le> d')"
    by (auto simp: mt_deadlines_def)
next
  fix t assume t: "mt_ok t"
  show "(mt_intr t = None) = (mt_deadlines t = (\<lambda>_. None))"
  proof (cases "mt_directList t")
    case Nil
    then have "mt_reverseList t e = None" for e using t by (cases "mt_reverseList t e") (auto simp: mt_ok_def)
    with Nil t show ?thesis by (auto simp: mt_ok_def mt_deadlines_def)
  next
    case (Cons x xs)
    then have "mt_reverseList t (snd x) = Some x" using mt_okD[OF t] by simp
    with Cons t show ?thesis by (auto simp: mt_ok_def mt_deadlines_def dest: fun_cong[where x = "snd x"])
  qed
qed

end
