(* ===== verification/Rlc_Am_Packet.thy ===== *)
theory Rlc_Am_Packet
  imports Pdcp_Packet Kernel_Array Multi_Timer
begin

text \<open>
  The data of RLC in acknowledged mode (\<open>LteRlcAmPdu.cc\<close>, \<open>LteRlcAmPdu.msg\<close>, \<open>LteRlcDefs.h\<close>): SDUs, PDUs and the descriptors of the
  fragmentation, of a window and of the window commands. An SDU is the packet of PDCP behind the chunk \<open>LteRlcAmSdu\<close>; fragments
  are cut from its octets, so the octets of that chunk are octets of the SDU. Names, creation times and statistics are
  left out.
\<close>

section \<open>SDUs\<close>

text \<open>\<open>Sdu_Header s k\<close> is octet \<open>k\<close> of a chunk \<open>LteRlcAmSdu\<close> with \<open>snoMainPacket = s\<close>.\<close>

datatype am_octet = Sdu_Header "32 word" nat | Octet nat

record am_sdu =
  as_octets :: "am_octet list"
  as_tag :: flow_control

definition RLC_HEADER_AM :: nat where "RLC_HEADER_AM = 2"

definition am_sduHeader :: "32 word \<Rightarrow> am_octet list" where
  "am_sduHeader s = map (Sdu_Header s) [0..<RLC_HEADER_AM]"

text \<open>\<open>popAtFront<LteRlcAmSdu>\<close> finds the chunk when all of its octets are in front; then it gives the number and the octets behind.\<close>

definition am_popSdu :: "am_octet list \<Rightarrow> (32 word \<times> am_octet list) cpp" where
  "am_popSdu os = (case os of
      Sdu_Header s k # _ \<Rightarrow> if take RLC_HEADER_AM os = am_sduHeader s then Inr (s, drop RLC_HEADER_AM os) else front_error
    | _ \<Rightarrow> front_error)"

lemma am_popSdu_header [simp]: "am_popSdu (am_sduHeader s @ os) = Inr (s, os)"
  by (simp add: am_popSdu_def am_sduHeader_def RLC_HEADER_AM_def upt_rec)

lemma am_popSdu_Inr: "am_popSdu os = Inr (s, r) \<Longrightarrow> os = am_sduHeader s @ r"
  unfolding am_popSdu_def front_error_def
  by (auto split: list.splits am_octet.splits if_splits) (metis append_take_drop_id)

section \<open>PDUs\<close>

datatype am_type = Am_Data | Am_Ack | Am_Mrw | Am_Mrw_Ack

text \<open>\<open>ap_bits\<close> is the length of the header chunk in bits.\<close>

record am_pdu =
  ap_totalFragments :: "32 word"
  ap_snoFragment :: "32 word"
  ap_snoMainPacket :: "32 word"
  ap_amType :: am_type
  ap_txNumber :: "16 word"
  ap_firstSn :: "32 word"
  ap_lastSn :: "32 word"
  ap_bitmap :: "bool list"
  ap_bits :: nat

definition am_newPdu :: am_pdu where
  "am_newPdu = \<lparr>ap_totalFragments = 0, ap_snoFragment = 0, ap_snoMainPacket = 0, ap_amType = Am_Data, ap_txNumber = 0,
     ap_firstSn = 0, ap_lastSn = 0, ap_bitmap = [], ap_bits = 8\<rparr>"

definition ap_isWhole :: "am_pdu \<Rightarrow> bool" where "ap_isWhole h = (ap_firstSn h = ap_lastSn h)"
definition ap_isFirst :: "am_pdu \<Rightarrow> bool" where "ap_isFirst h = (ap_firstSn h = ap_snoFragment h)"
definition ap_isLast :: "am_pdu \<Rightarrow> bool" where "ap_isLast h = (ap_lastSn h = ap_snoFragment h)"
definition ap_isMiddle :: "am_pdu \<Rightarrow> bool" where "ap_isMiddle h = (\<not> ap_isFirst h \<and> \<not> ap_isLast h)"

record am_packet =
  am_hdr :: am_pdu
  am_data :: "am_octet list"
  am_tag :: flow_control

definition am_byteLength :: "am_packet \<Rightarrow> nat" where
  "am_byteLength p = (ap_bits (am_hdr p) + 8 * length (am_data p) + 7) div 8"

section \<open>Descriptors\<close>

record frag_desc =
  fd_sduSize :: nat
  fd_fragUnit :: nat
  fd_totalFragments :: nat
  fd_fragCounter :: nat
  fd_firstSn :: "32 word"

text \<open>The quotient of two lengths, rounded up. The division of C++ is exact enough for lengths of 32 bits.\<close>

definition am_ceil :: "nat \<Rightarrow> nat \<Rightarrow> nat" where
  "am_ceil a b = (a + b - 1) div b"

definition fd_reset :: "frag_desc \<Rightarrow> frag_desc" where
  "fd_reset d = d\<lparr>fd_sduSize := 0, fd_totalFragments := 0, fd_fragCounter := 0, fd_firstSn := 0\<rparr>"

definition fd_start :: "nat \<Rightarrow> 32 word \<Rightarrow> frag_desc \<Rightarrow> frag_desc" where
  "fd_start sz sn d = d\<lparr>fd_totalFragments := am_ceil sz (fd_fragUnit d), fd_fragCounter := 0, fd_firstSn := sn\<rparr>"

definition fd_addFragment :: "frag_desc \<Rightarrow> bool \<times> frag_desc" where
  "fd_addFragment d = (let d' = d\<lparr>fd_fragCounter := fd_fragCounter d + 1\<rparr> in (fd_fragCounter d' \<ge> fd_totalFragments d', d'))"

record rlc_window =
  rw_firstSeqNum :: "32 word"
  rw_seqNum :: "32 word"
  rw_windowSize :: "32 word"

record mrw_desc =
  md_mrwSeqNum :: "32 word"
  md_lastMrw :: "32 word"

text \<open>The index of a number in a window is computed in unsigned arithmetic and read as an \<open>int\<close>.\<close>

definition rw_index :: "32 word \<Rightarrow> rlc_window \<Rightarrow> int" where
  "rw_index sn w = sint (sn - rw_firstSeqNum w)"

text \<open>How many numbers of a window are in use.\<close>

definition rw_used :: "rlc_window \<Rightarrow> nat" where
  "rw_used w = unat (rw_seqNum w - rw_firstSeqNum w)"

section \<open>Numbers of a window\<close>

text \<open>Inside a window of moderate size the numbers and their indices are in bijection.\<close>

lemma rw_index_nat: "k < 2 ^ 31 \<Longrightarrow> rw_index (rw_firstSeqNum w + of_nat k) w = int k"
  by (simp add: rw_index_def signed_of_nat signed_take_bit_int_eq_self)

lemma rw_index_inv:
  assumes "rw_index sn w \<ge> 0"
  shows "sn = rw_firstSeqNum w + of_nat (nat (rw_index sn w))"
proof -
  have "of_nat (nat (rw_index sn w)) = (word_of_int (rw_index sn w) :: 32 word)" using assms by (simp add: of_nat_nat)
  also have "\<dots> = sn - rw_firstSeqNum w" by (simp add: rw_index_def)
  finally show ?thesis by simp
qed

lemma am_ceil_bounds:
  assumes "0 < b" "0 < a"
  shows "0 < am_ceil a b" "(am_ceil a b - 1) * b < a" "a \<le> am_ceil a b * b" "am_ceil a b \<le> a"
proof -
  let ?q = "(a + b - 1) div b"
  have q: "?q * b \<le> a + b - 1" "a + b - 1 < (?q + 1) * b"
    using div_mult_mod_eq[of "a + b - 1" b] mod_less_divisor[OF assms(1), of "a + b - 1"] unfolding add_mult_distrib by linarith+
  then show "0 < am_ceil a b" using assms by (cases ?q) (auto simp: am_ceil_def)
  then have p: "0 < ?q" by (simp add: am_ceil_def)
  have "(?q - 1) * b + b = ?q * b" using p by (cases ?q) auto
  then show "(am_ceil a b - 1) * b < a" using q(1) assms unfolding am_ceil_def by linarith
  show "a \<le> am_ceil a b * b" using q(2) by (simp add: am_ceil_def)
  have "a + b - 1 \<le> a * b" using assms by (cases a; cases b) auto
  then have "?q \<le> a * b div b" by (rule div_le_mono)
  then show "am_ceil a b \<le> a" using assms by (simp add: am_ceil_def)
qed

end
