(* ===== verification/Rlc_Am_Tx.thy ===== *)
theory Rlc_Am_Tx
  imports Rlc_Am_Packet
begin

text \<open>
  The transmitting entity of RLC AM (\<open>AmTxQueue.cc\<close>): SDUs are cut into fragments of a fixed size, the fragments wait in a
  transmission window for their acknowledgement and are sent again when their timer goes off; PDUs sent too often
  are discarded with their SDU, and the window moves by a command to the receiver (MRW). Prefix \<open>at_\<close>. What the entity sends to the
  module \<open>LteRlcAm\<close> is appended to \<open>at_out\<close>. Indices are \<open>int\<close>s as in the code; objects are copied by \<open>dup\<close>, so a packet is a value.
\<close>

section \<open>State\<close>

text \<open>\<open>Am_New_Data\<close> is the notification of new data to the MAC layer with the length of the packet, \<open>Am_Send\<close> a packet sent down.\<close>

datatype am_tx_effect = Am_New_Data nat flow_control | Am_Send am_packet

record am_tx =
  at_maxRtx :: int
  at_pduRtxTimeout :: simtime
  at_ctrlPduRtxTimeout :: simtime
  at_bufferStatusTimeout :: simtime
  at_fragDesc :: frag_desc
  at_window :: rlc_window
  at_mrwDesc :: mrw_desc
  at_received :: "bool list"
  at_discarded :: "bool list"
  at_sduQueue :: "am_sdu list"
  at_currentSdu :: "am_sdu option"
  at_fragmentList :: "am_packet list option"
  at_txWindowIndexList :: "int list"
  at_lteInfo :: "flow_control option"
  at_pduRtxQueue :: "am_packet carray"
  at_mrwRtxQueue :: "am_packet carray"
  at_pduBuffer :: "am_packet list"
  at_pduTimer :: multi_timer
  at_mrwTimer :: multi_timer
  at_bufferStatusTimer :: "simtime option"
  at_out :: "am_tx_effect list"

abbreviation at_first :: "am_tx \<Rightarrow> 32 word" where "at_first t \<equiv> rw_firstSeqNum (at_window t)"
abbreviation at_seq :: "am_tx \<Rightarrow> 32 word" where "at_seq t \<equiv> rw_seqNum (at_window t)"
abbreviation at_size :: "am_tx \<Rightarrow> 32 word" where "at_size t \<equiv> rw_windowSize (at_window t)"
abbreviation at_used :: "am_tx \<Rightarrow> nat" where "at_used t \<equiv> rw_used (at_window t)"

text \<open>The entity after \<open>initialize\<close>, from the parameters of the module.\<close>

record am_tx_params =
  pa_maxRtx :: int
  pa_fragmentSize :: nat
  pa_pduRtxTimeout :: simtime
  pa_ctrlPduRtxTimeout :: simtime
  pa_bufferStatusTimeout :: simtime
  pa_txWindowSize :: "32 word"

definition at_new :: "am_tx_params \<Rightarrow> am_tx" where
  "at_new p = \<lparr>at_maxRtx = pa_maxRtx p, at_pduRtxTimeout = pa_pduRtxTimeout p, at_ctrlPduRtxTimeout = pa_ctrlPduRtxTimeout p,
     at_bufferStatusTimeout = pa_bufferStatusTimeout p,
     at_fragDesc = \<lparr>fd_sduSize = 0, fd_fragUnit = pa_fragmentSize p, fd_totalFragments = 0, fd_fragCounter = 0, fd_firstSn = 0\<rparr>,
     at_window = \<lparr>rw_firstSeqNum = 0, rw_seqNum = 0, rw_windowSize = pa_txWindowSize p\<rparr>,
     at_mrwDesc = \<lparr>md_mrwSeqNum = 0, md_lastMrw = 0\<rparr>,
     at_received = replicate (unat (pa_txWindowSize p)) False, at_discarded = replicate (unat (pa_txWindowSize p + 1)) False,
     at_sduQueue = [], at_currentSdu = None, at_fragmentList = None, at_txWindowIndexList = [], at_lteInfo = None,
     at_pduRtxQueue = [], at_mrwRtxQueue = [], at_pduBuffer = [], at_pduTimer = mt_new, at_mrwTimer = mt_new,
     at_bufferStatusTimer = None, at_out = []\<rparr>"

section \<open>Sending down\<close>

definition at_indicateNewData :: "am_packet \<Rightarrow> am_tx_effect" where
  "at_indicateNewData p = Am_New_Data (am_byteLength p) (am_tag p)"

definition at_bufferPdu :: "am_packet \<Rightarrow> am_tx \<Rightarrow> am_tx" where
  "at_bufferPdu p t = t\<lparr>at_pduBuffer := at_pduBuffer t @ [p],
     at_out := at_out t @ (if at_pduBuffer t = [] then [at_indicateNewData p] else [])\<rparr>"

text \<open>The copy of a PDU that does not fit: its header shrinks to a bit, the rest stays.\<close>

definition at_emptyPdu :: "am_packet \<Rightarrow> am_packet" where
  "at_emptyPdu p = p\<lparr>am_hdr := (am_hdr p)\<lparr>ap_bits := 1\<rparr>\<rparr>"

definition at_sendPdus :: "int \<Rightarrow> am_tx \<Rightarrow> am_tx cpp" where
  "at_sendPdus sz t = (case at_pduBuffer t of
      [] \<Rightarrow> Inl Undefined_Behaviour
    | p # ps \<Rightarrow>
        let fits = int (am_byteLength p) \<le> sz;
            t1 = (if fits then t\<lparr>at_pduBuffer := ps\<rparr> else t);
            t2 = t1\<lparr>at_out := at_out t1 @ [Am_Send (if fits then p else at_emptyPdu p)]\<rparr>
        in Inr (case at_pduBuffer t2 of
            [] \<Rightarrow> t2
          | q # _ \<Rightarrow> t2\<lparr>at_out := at_out t2 @ [at_indicateNewData q]\<rparr>))"

section \<open>Fragmentation\<close>

definition at_fragment :: "32 word \<Rightarrow> am_sdu \<Rightarrow> frag_desc \<Rightarrow> nat \<Rightarrow> nat \<Rightarrow> 32 word \<Rightarrow> am_packet" where
  "at_fragment sno s fd offset len sn = \<lparr>
     am_hdr = am_newPdu\<lparr>ap_totalFragments := of_nat (fd_totalFragments fd), ap_snoFragment := sn, ap_snoMainPacket := sno,
       ap_firstSn := fd_firstSn fd, ap_lastSn := fd_firstSn fd + of_nat (fd_totalFragments fd) - 1\<rparr>,
     am_data = take len (drop offset (as_octets s)), am_tag = as_tag s\<rparr>"

text \<open>The loop of \<open>fragmentFrame\<close>: the list holds the remaining values of the counter.\<close>

fun at_fragmentLoop ::
  "nat list \<Rightarrow> 32 word \<Rightarrow> am_sdu \<Rightarrow> frag_desc \<Rightarrow> rlc_window \<Rightarrow> nat \<Rightarrow> (am_packet list \<times> int list) cpp" where
  "at_fragmentLoop [] sno s fd tmp offset = Inr ([], [])"
| "at_fragmentLoop (i # is') sno s fd tmp offset =
     (let len = (if i = fd_totalFragments fd - 1 then length (as_octets s) - offset else fd_fragUnit fd);
          p = at_fragment sno s fd offset len (rw_seqNum tmp);
          index = rw_index (rw_seqNum tmp) tmp
      in if index \<ge> 200 then Inl (Runtime_Error ''Illegal i'')
         else cpp_bind (at_fragmentLoop is' sno s fd (tmp\<lparr>rw_seqNum := rw_seqNum tmp + 1\<rparr>) (offset + len))
           (\<lambda>(ps, ws). Inr (p # ps, index # ws)))"

definition at_fragmentFrame :: "am_sdu \<Rightarrow> frag_desc \<Rightarrow> rlc_window \<Rightarrow> (am_packet list \<times> int list) cpp" where
  "at_fragmentFrame s fd w = cpp_bind (am_popSdu (as_octets s)) (\<lambda>(sno, _).
     at_fragmentLoop [0..<fd_totalFragments fd] sno s fd w 0)"

section \<open>Adding PDUs to the window\<close>

text \<open>A new SDU is fragmented when its fragments fit into the window. It has left the queue in any case.\<close>

definition at_nextSdu :: "am_tx \<Rightarrow> am_tx cpp" where
  "at_nextSdu t = (case at_sduQueue t of
      [] \<Rightarrow> Inl (Runtime_Error ''cQueue::pop(): queue empty'')
    | s # ss \<Rightarrow> cpp_bind (am_popSdu (as_octets s)) (\<lambda>_.
        if fd_fragUnit (at_fragDesc t) = 0 then Inl Undefined_Behaviour
        else
          let t1 = t\<lparr>at_sduQueue := ss\<rparr>;
              nrFragments = am_ceil (length (as_octets s)) (fd_fragUnit (at_fragDesc t))
          in if at_seq t + of_nat nrFragments < at_first t + at_size t
             then
               let fd = fd_start (length (as_octets s)) (at_seq t) (at_fragDesc t)
               in cpp_bind (at_fragmentFrame s fd (at_window t)) (\<lambda>(ps, ws).
                 Inr (t1\<lparr>at_fragDesc := fd, at_currentSdu := Some s, at_fragmentList := Some ps, at_txWindowIndexList := ws,
                   at_lteInfo := Some (as_tag s)\<rparr>))
             else Inr t1))"

text \<open>A PDU at the window index \<open>i\<close>, with its timer; it is buffered to be sent down.\<close>

definition at_storePdu :: "simtime \<Rightarrow> int \<Rightarrow> am_packet \<Rightarrow> am_tx \<Rightarrow> am_tx cpp" where
  "at_storePdu now i p t =
     (if ca_geti i (at_pduRtxQueue t) \<noteq> None then Inl (Runtime_Error ''AmTxQueue::addPdus(): trying to add a PDU to a busy position'')
      else cpp_bind (ca_addAti i p (at_pduRtxQueue t)) (\<lambda>q.
        if i \<ge> 200 then Inl (Runtime_Error ''Illegal i'')
        else cpp_bind (vec_ati (at_received t) i) (\<lambda>r.
          cpp_bind (if r then Inr True else vec_ati (at_discarded t) i) (\<lambda>rd.
            if rd then Inl (Runtime_Error ''AmTxQueue::addPdus(): trying to add a PDU to a position marked received or discarded'')
            else cpp_bind (mt_add now (at_pduRtxTimeout t) (at_seq t) (at_pduTimer t)) (\<lambda>tm.
              Inr (t\<lparr>at_pduRtxQueue := q, at_pduTimer := tm\<rparr>))))))"

text \<open>The SDU is done when its last fragment has been added.\<close>

definition at_countFragment :: "am_tx \<Rightarrow> am_tx" where
  "at_countFragment t = (let (complete, fd) = fd_addFragment (at_fragDesc t)
     in if complete \<or> at_fragmentList t = Some []
        then t\<lparr>at_fragDesc := fd_reset fd, at_fragmentList := None, at_txWindowIndexList := [], at_currentSdu := None\<rparr>
        else t\<lparr>at_fragDesc := fd\<rparr>)"

definition at_advance :: "simtime \<Rightarrow> am_packet \<Rightarrow> am_tx \<Rightarrow> am_tx" where
  "at_advance now p t = at_bufferPdu p (t\<lparr>at_window := (at_window t)\<lparr>rw_seqNum := at_seq t + 1\<rparr>,
     at_bufferStatusTimer := (case at_bufferStatusTimer t of None \<Rightarrow> Some (now + at_bufferStatusTimeout t) | Some x \<Rightarrow> Some x)\<rparr>)"

text \<open>A turn of the loop of \<open>addPdus\<close>; the flag says whether the loop goes on.\<close>

definition at_addPdu :: "simtime \<Rightarrow> am_tx \<Rightarrow> (bool \<times> am_tx) cpp" where
  "at_addPdu now t =
     (if at_currentSdu t = None \<and> at_sduQueue t = [] \<and> (at_fragmentList t = None \<or> at_fragmentList t = Some []) then Inr (False, t)
      else cpp_bind (if at_currentSdu t = None then at_nextSdu t else Inr t) (\<lambda>t1.
        case at_fragmentList t1 of
          None \<Rightarrow> Inr (False, t1)
        | Some [] \<Rightarrow> Inl Undefined_Behaviour
        | Some (p # ps) \<Rightarrow> (case at_txWindowIndexList t1 of
            [] \<Rightarrow> Inl Undefined_Behaviour
          | i # is' \<Rightarrow>
              if ap_snoFragment (am_hdr p) \<noteq> at_seq t1 then Inl (Runtime_Error ''Pdu sequence numbers must be check'')
              else cpp_bind (at_storePdu now i p (t1\<lparr>at_fragmentList := Some ps, at_txWindowIndexList := is'\<rparr>)) (\<lambda>t2.
                Inr (True, at_advance now p (at_countFragment t2))))))"

lemma at_nextSdu_window: "at_nextSdu t = Inr t' \<Longrightarrow> at_window t' = at_window t"
  by (auto simp: at_nextSdu_def Let_def cpp_bind_Inr_iff split: list.splits if_splits)

lemma at_storePdu_window: "at_storePdu now i p t = Inr t' \<Longrightarrow> at_window t' = at_window t"
  by (auto simp: at_storePdu_def cpp_bind_Inr_iff split: if_splits)

lemma at_countFragment_window [simp]: "at_window (at_countFragment t) = at_window t"
  by (simp add: at_countFragment_def Let_def split: prod.splits)

lemma at_addPdu_window:
  assumes "at_addPdu now t = Inr (True, t')"
  shows "at_window t' = (at_window t)\<lparr>rw_seqNum := at_seq t + 1\<rparr>"
proof -
  obtain t1 where t1: "at_window t1 = at_window t"
    and b: "(case at_fragmentList t1 of None \<Rightarrow> Inr (False, t1) | Some [] \<Rightarrow> Inl Undefined_Behaviour
      | Some (p # ps) \<Rightarrow> (case at_txWindowIndexList t1 of [] \<Rightarrow> Inl Undefined_Behaviour
        | i # is' \<Rightarrow> if ap_snoFragment (am_hdr p) \<noteq> at_seq t1 then Inl (Runtime_Error ''Pdu sequence numbers must be check'')
            else cpp_bind (at_storePdu now i p (t1\<lparr>at_fragmentList := Some ps, at_txWindowIndexList := is'\<rparr>)) (\<lambda>t2.
              Inr (True, at_advance now p (at_countFragment t2))))) = Inr (True, t')"
    using assms unfolding at_addPdu_def by (auto split: if_splits elim!: cpp_bindE dest: at_nextSdu_window)
  obtain p ps i t2 where "at_storePdu now i p (t1\<lparr>at_fragmentList := Some ps, at_txWindowIndexList := tl (at_txWindowIndexList t1)\<rparr>) = Inr t2"
    "t' = at_advance now p (at_countFragment t2)"
    using b by (auto split: option.splits list.splits if_splits elim!: cpp_bindE)
  then show ?thesis using t1 by (auto dest!: at_storePdu_window simp: at_advance_def at_bufferPdu_def)
qed

text \<open>The window has room for less PDUs after every turn.\<close>

lemma at_addPdu_room:
  assumes "at_addPdu now t = Inr (True, t')" "at_seq t - at_first t < at_size t"
  shows "unat (at_size t' - (at_seq t' - at_first t')) < unat (at_size t - (at_seq t - at_first t))"
proof -
  let ?d = "at_seq t - at_first t"
  have w: "at_size t' - (at_seq t' - at_first t') = at_size t - (?d + 1)" using at_addPdu_window[OF assms(1)] by (simp add: algebra_simps)
  have "unat (at_size t - ?d) = unat (at_size t) - unat ?d" using assms(2) by (simp add: unat_sub word_le_less_eq)
  moreover have u: "unat (?d + 1) = unat ?d + 1" using assms(2) unsigned_less[of "at_size t", where ?'a = nat] by (simp add: unat_word_ariths word_less_nat_alt)
  moreover have "?d + 1 \<le> at_size t" using assms(2) u by (simp add: word_less_nat_alt word_le_nat_alt)
  then have "unat (at_size t - (?d + 1)) = unat (at_size t) - unat (?d + 1)" by (rule unat_sub)
  moreover have "unat ?d < unat (at_size t)" using assms(2) by (simp add: word_less_nat_alt)
  ultimately show ?thesis unfolding w by linarith
qed

function at_addLoop :: "simtime \<Rightarrow> am_tx \<Rightarrow> am_tx cpp" where
  "at_addLoop now t =
     (if at_seq t - at_first t < at_size t
      then cpp_bind (at_addPdu now t) (\<lambda>(go_on, t'). if go_on then at_addLoop now t' else Inr t')
      else Inr t)"
  by pat_completeness auto
termination
  by (relation "measure (\<lambda>(now, t). unat (at_size t - (at_seq t - at_first t)))") (auto intro: at_addPdu_room)

declare at_addLoop.simps [simp del]

text \<open>The assertions at the end of \<open>addPdus\<close> throw in a debug build.\<close>

definition at_addPdus :: "simtime \<Rightarrow> am_tx \<Rightarrow> am_tx cpp" where
  "at_addPdus now t = cpp_bind (at_addLoop now t) (\<lambda>t'.
     if at_fragmentList t' \<noteq> None then Inl (Runtime_Error ''ASSERT: fragmentList_ == nullptr'')
     else if at_txWindowIndexList t' \<noteq> [] then Inl (Runtime_Error ''ASSERT: txWindowIndexList_.empty()'')
     else Inr t')"

definition at_enque :: "simtime \<Rightarrow> am_sdu \<Rightarrow> am_tx \<Rightarrow> am_tx cpp" where
  "at_enque now s t = cpp_bind (am_popSdu (as_octets s)) (\<lambda>_.
     let t1 = t\<lparr>at_sduQueue := at_sduQueue t @ [s]\<rparr>
     in if at_currentSdu t1 = None \<and> at_seq t1 - at_first t1 < at_size t1 then at_addPdus now t1 else Inr t1)"

section \<open>Moving the receiver's window\<close>

definition at_sendMrw :: "simtime \<Rightarrow> 32 word \<Rightarrow> am_tx \<Rightarrow> am_tx cpp" where
  "at_sendMrw now sn t = (case at_lteInfo t of
      None \<Rightarrow> Inl Undefined_Behaviour
    | Some info \<Rightarrow>
        let m = md_mrwSeqNum (at_mrwDesc t);
            p = \<lparr>am_hdr = am_newPdu\<lparr>ap_amType := Am_Mrw, ap_totalFragments := 1, ap_snoFragment := m, ap_snoMainPacket := m,
                  ap_bits := 8 * fd_fragUnit (at_fragDesc t), ap_firstSn := 0, ap_lastSn := sn\<rparr>,
                 am_data = [], am_tag = info\<rparr>
        in cpp_bind (ca_addAti (sint m) p (at_mrwRtxQueue t)) (\<lambda>q.
           cpp_bind (mt_add now (at_ctrlPduRtxTimeout t) m (at_mrwTimer t)) (\<lambda>tm.
           Inr (at_bufferPdu p (t\<lparr>at_mrwRtxQueue := q, at_mrwTimer := tm, at_mrwDesc := \<lparr>md_mrwSeqNum = m + 1, md_lastMrw = m\<rparr>\<rparr>)))))"

text \<open>The last index before the first PDU that is neither received nor discarded.\<close>

fun at_checkLoop :: "nat list \<Rightarrow> am_tx \<Rightarrow> nat option \<Rightarrow> nat option cpp" where
  "at_checkLoop [] t lastPdu = Inr lastPdu"
| "at_checkLoop (i # is') t lastPdu = cpp_bind (vec_at (at_discarded t) i) (\<lambda>d.
     cpp_bind (if d then Inr True else vec_at (at_received t) i) (\<lambda>dr.
       if dr then at_checkLoop is' t (Some i) else Inr lastPdu))"

definition at_checkForMrw :: "simtime \<Rightarrow> am_tx \<Rightarrow> am_tx cpp" where
  "at_checkForMrw now t = cpp_bind (at_checkLoop [0..<at_used t] t None) (\<lambda>lastPdu. case lastPdu of
      None \<Rightarrow> Inr t
    | Some i \<Rightarrow> at_sendMrw now (at_first t + of_nat i + 1) t)"

section \<open>Discarding\<close>

definition at_stopTimer :: "32 word \<Rightarrow> am_tx \<Rightarrow> am_tx cpp" where
  "at_stopTimer sn t = (if mt_busyEvent sn (at_pduTimer t)
     then cpp_bind (mt_remove sn (at_pduTimer t)) (\<lambda>tm. Inr (t\<lparr>at_pduTimer := tm\<rparr>)) else Inr t)"

definition at_markDiscarded :: "nat \<Rightarrow> am_tx \<Rightarrow> am_tx cpp" where
  "at_markDiscarded i t = cpp_bind (vec_put (at_discarded t) i True) (\<lambda>ds. Inr (t\<lparr>at_discarded := ds\<rparr>))"

fun at_discardForward :: "nat list \<Rightarrow> 32 word \<Rightarrow> am_tx \<Rightarrow> am_tx cpp" where
  "at_discardForward [] main t = Inr t"
| "at_discardForward (i # is') main t = (case ca_get i (at_pduRtxQueue t) of
      None \<Rightarrow> Inr t
    | Some p \<Rightarrow>
        if main \<noteq> ap_snoMainPacket (am_hdr p) then Inr t
        else cpp_bind (vec_at (at_discarded t) i) (\<lambda>d.
          cpp_bind (if d then Inr t else cpp_bind (at_markDiscarded i t) (at_stopTimer (of_nat i + at_first t)))
            (at_discardForward is' main)))"

fun at_discardBackward :: "nat list \<Rightarrow> 32 word \<Rightarrow> am_tx \<Rightarrow> am_tx cpp" where
  "at_discardBackward [] main t = Inr t"
| "at_discardBackward (i # is') main t = (case ca_get i (at_pduRtxQueue t) of
      None \<Rightarrow> Inl (Runtime_Error ''AmTxBuffer::discard(): trying to get access to missing PDU'')
    | Some p \<Rightarrow>
        if main \<noteq> ap_snoMainPacket (am_hdr p) then Inr t
        else cpp_bind (vec_at (at_discarded t) i) (\<lambda>d.
          cpp_bind (if d then Inr t else at_markDiscarded i t) (\<lambda>t1.
            cpp_bind (at_stopTimer (of_nat i + at_first t1) t1) (at_discardBackward is' main))))"

definition at_discard :: "simtime \<Rightarrow> 32 word \<Rightarrow> am_tx \<Rightarrow> am_tx cpp" where
  "at_discard now sn t =
     (let index = rw_index sn (at_window t); i = nat index
      in if index < 0 \<or> index \<ge> uint (at_size t)
         then Inl (Runtime_Error ''AmTxQueue::discard(): requested to discard an out of window PDU'')
         else cpp_bind (vec_at (at_discarded t) i) (\<lambda>d.
           cpp_bind (if d then Inr t else at_markDiscarded i t) (\<lambda>t1.
           cpp_bind (ca_the i (at_pduRtxQueue t1)) (\<lambda>p.
           cpp_bind (at_stopTimer sn t1) (\<lambda>t2.
           cpp_bind (at_discardForward [i + 1..<at_used t2] (ap_snoMainPacket (am_hdr p)) t2) (\<lambda>t3.
           cpp_bind (at_discardBackward (rev [0..<i]) (ap_snoMainPacket (am_hdr p)) t3) (\<lambda>t4.
           at_checkForMrw now t4)))))))"

section \<open>Moving the window\<close>

definition at_clearFlags :: "nat \<Rightarrow> am_tx \<Rightarrow> am_tx cpp" where
  "at_clearFlags i t = cpp_bind (vec_put (at_received t) i False) (\<lambda>rs. cpp_bind (vec_put (at_discarded t) i False) (\<lambda>ds.
     Inr (t\<lparr>at_received := rs, at_discarded := ds\<rparr>)))"

text \<open>The bodies of the three loops of \<open>moveTxWindow\<close>: PDUs that leave, PDUs that stay, positions not in use.\<close>

definition at_dropPosition :: "nat \<Rightarrow> am_tx \<Rightarrow> am_tx cpp" where
  "at_dropPosition i t = (case ca_get i (at_pduRtxQueue t) of
      None \<Rightarrow> Inl (Runtime_Error ''AmTxQueue::moveTxWindow(): encountered empty PDU'')
    | Some _ \<Rightarrow> cpp_bind (at_stopTimer (of_nat i + at_first t) (t\<lparr>at_pduRtxQueue := ca_remove i (at_pduRtxQueue t)\<rparr>)) (at_clearFlags i))"

definition at_shiftPosition :: "nat \<Rightarrow> nat \<Rightarrow> am_tx \<Rightarrow> am_tx cpp" where
  "at_shiftPosition pos i t = (case ca_get i (at_pduRtxQueue t) of
      None \<Rightarrow> Inl (Runtime_Error ''AmTxQueue::moveTxWindow(): encountered empty PDU'')
    | Some p \<Rightarrow> cpp_bind (ca_addAt (i - pos) p (ca_remove i (at_pduRtxQueue t))) (\<lambda>q.
        cpp_bind (vec_at (at_received t) i) (\<lambda>r. cpp_bind (vec_put (at_received t) (i - pos) r) (\<lambda>rs.
        cpp_bind (vec_at (at_discarded t) i) (\<lambda>d. cpp_bind (vec_put (at_discarded t) (i - pos) d) (\<lambda>ds.
          at_clearFlags i (t\<lparr>at_pduRtxQueue := q, at_received := rs, at_discarded := ds\<rparr>)))))))"

definition at_cleanPosition :: "nat \<Rightarrow> am_tx \<Rightarrow> am_tx cpp" where
  "at_cleanPosition i t = (if ca_get i (at_pduRtxQueue t) \<noteq> None
     then Inl (Runtime_Error ''AmTxQueue::moveTxWindow(): encountered busy PDU'') else at_clearFlags i t)"

definition at_moveTxWindow :: "simtime \<Rightarrow> 32 word \<Rightarrow> am_tx \<Rightarrow> am_tx cpp" where
  "at_moveTxWindow now sn t =
     (let pos = rw_index sn (at_window t); n = at_used t
      in if pos \<le> 0 then Inr t
         else cpp_bind (cpp_fold at_dropPosition [0..<nat pos] t) (\<lambda>t1.
              cpp_bind (cpp_fold (at_shiftPosition (nat pos)) [nat pos..<n] t1) (\<lambda>t2.
              cpp_bind (cpp_fold at_cleanPosition [n..<unat (at_size t)] t2) (\<lambda>t3.
              at_addPdus now (t3\<lparr>at_window := (at_window t3)\<lparr>rw_firstSeqNum := at_first t3 + word_of_int pos\<rparr>\<rparr>)))))"

section \<open>Control PDUs from the receiver\<close>

text \<open>A PDU is received: its timer stops.\<close>

definition at_markReceived :: "nat \<Rightarrow> am_tx \<Rightarrow> am_tx cpp" where
  "at_markReceived i t = cpp_bind (at_stopTimer (of_nat i + at_first t) t) (\<lambda>t1.
     cpp_bind (vec_put (at_received t1) i True) (\<lambda>rs. Inr (t1\<lparr>at_received := rs\<rparr>)))"

definition at_recvAck :: "32 word \<Rightarrow> am_tx \<Rightarrow> am_tx cpp" where
  "at_recvAck sn t =
     (let index = rw_index sn (at_window t)
      in if index < 0 then Inr t
         else if index \<ge> uint (at_size t) then Inl (Runtime_Error ''AmTxBuffer::recvAck(): ACK greater than window size'')
         else cpp_bind (vec_ati (at_received t) index) (\<lambda>r.
           if r then Inr t
           else cpp_bind (at_markReceived (nat index) t) (\<lambda>t1.
             if ca_geti index (at_pduRtxQueue t1) = None then Inl (Runtime_Error ''ASSERT: pduRtxQueue_.get(index) != nullptr'')
             else Inr t1)))"

definition at_recvPosition :: "nat \<Rightarrow> am_tx \<Rightarrow> am_tx cpp" where
  "at_recvPosition i t = cpp_bind (vec_at (at_received t) i) (\<lambda>r. if r then Inr t else at_markReceived i t)"

text \<open>The number is an \<open>int\<close>, compared with an unsigned number.\<close>

definition at_recvCumulativeAck :: "simtime \<Rightarrow> 32 word \<Rightarrow> am_tx \<Rightarrow> am_tx cpp" where
  "at_recvCumulativeAck now sn t =
     (if sn < at_first t \<or> sint sn < 0 then Inr t
      else if sn > at_first t + at_size t then Inl (Runtime_Error ''AmTxQueue::recvCumulativeAck(): SN exceeds window size'')
      else cpp_bind (cpp_fold at_recvPosition [0..<unat (sn - at_first t) + 1] t) (at_checkForMrw now))"

definition at_recvMrwAck :: "32 word \<Rightarrow> am_tx \<Rightarrow> am_tx cpp" where
  "at_recvMrwAck sn t = (if ca_geti (sint sn) (at_mrwRtxQueue t) = None then Inr t
     else cpp_bind (if mt_busyEvent sn (at_mrwTimer t) then mt_remove sn (at_mrwTimer t) else Inr (at_mrwTimer t)) (\<lambda>tm.
       Inr (t\<lparr>at_mrwRtxQueue := ca_removei (sint sn) (at_mrwRtxQueue t), at_mrwTimer := tm\<rparr>)))"

text \<open>The bits of an acknowledgement, from the first number on.\<close>

fun at_recvBitmap :: "bool list \<Rightarrow> 32 word \<Rightarrow> am_tx \<Rightarrow> am_tx cpp" where
  "at_recvBitmap [] sn t = Inr t"
| "at_recvBitmap (b # bs) sn t = cpp_bind (if b then at_recvAck sn t else Inr t) (at_recvBitmap bs (sn + 1))"

definition at_handleControlPacket :: "simtime \<Rightarrow> am_pdu \<Rightarrow> am_tx \<Rightarrow> am_tx cpp" where
  "at_handleControlPacket now h t = (case ap_amType h of
      Am_Mrw_Ack \<Rightarrow> cpp_bind (at_moveTxWindow now (ap_snoFragment h) t) (at_recvMrwAck (ap_snoMainPacket h))
    | Am_Ack \<Rightarrow> cpp_bind (at_recvCumulativeAck now (ap_lastSn h) t) (at_recvBitmap (ap_bitmap h) (ap_firstSn h))
    | _ \<Rightarrow> Inr t)"

section \<open>Timers\<close>

text \<open>A copy of the PDU goes back to the first free position, which is the one it came from when the positions before are in use.\<close>

definition at_retransmit :: "simtime \<Rightarrow> nat \<Rightarrow> 32 word \<Rightarrow> am_packet \<Rightarrow> am_tx \<Rightarrow> am_tx cpp" where
  "at_retransmit now i sn p t = cpp_bind (mt_add now (at_pduRtxTimeout t) sn (at_pduTimer t)) (\<lambda>tm.
     Inr (at_bufferPdu p (t\<lparr>at_pduRtxQueue := ca_add p (ca_remove i (at_pduRtxQueue t)), at_pduTimer := tm\<rparr>)))"

definition at_pduTimerHandle :: "simtime \<Rightarrow> 32 word \<Rightarrow> am_tx \<Rightarrow> am_tx cpp" where
  "at_pduTimerHandle now sn t =
     (let index = rw_index sn (at_window t)
      in cpp_bind (mt_handle (at_pduTimer t)) (\<lambda>tm.
         let t1 = t\<lparr>at_pduTimer := tm\<rparr>
         in if index < 0 \<or> index \<ge> uint (at_size t1)
            then Inl (Runtime_Error ''AmTxQueue::pduTimerHandle(): The PDU for which timer elapsed is out of the window'')
            else case ca_geti index (at_pduRtxQueue t1) of
                None \<Rightarrow> Inl (Runtime_Error ''AmTxQueue::pduTimerHandle(): PDU not found'')
              | Some p \<Rightarrow> cpp_bind (vec_ati (at_received t1) index) (\<lambda>r.
                  if r then Inl (Runtime_Error ''AmTxQueue::pduTimerHandle(): The PDU has been already received'')
                  else
                    let nextTxNumber = uint (ap_txNumber (am_hdr p)) + 1
                    in if nextTxNumber > at_maxRtx t1 then at_discard now sn t1
                       else at_retransmit now (nat index) sn (p\<lparr>am_hdr := (am_hdr p)\<lparr>ap_txNumber := word_of_int nextTxNumber\<rparr>\<rparr>) t1)))"

definition at_mrwTimerHandle :: "simtime \<Rightarrow> 32 word \<Rightarrow> am_tx \<Rightarrow> am_tx cpp" where
  "at_mrwTimerHandle now sn t = cpp_bind (mt_handle (at_mrwTimer t)) (\<lambda>tm.
     let t1 = t\<lparr>at_mrwTimer := tm\<rparr>; q = ca_removei (sint sn) (at_mrwRtxQueue t1)
     in case ca_geti (sint sn) (at_mrwRtxQueue t1) of
         None \<Rightarrow> Inl (Runtime_Error ''MRW handler: MRW not found in MRW message queue'')
       | Some p \<Rightarrow>
           if md_lastMrw (at_mrwDesc t1) > sn then Inr (t1\<lparr>at_mrwRtxQueue := q\<rparr>)
           else cpp_bind (ca_addAti (sint sn) p q) (\<lambda>q'.
             cpp_bind (mt_add now (at_ctrlPduRtxTimeout t1) sn (at_mrwTimer t1)) (\<lambda>tm'.
             Inr (at_bufferPdu p (t1\<lparr>at_mrwRtxQueue := q', at_mrwTimer := tm'\<rparr>)))))"

text \<open>The messages an entity sends itself; one comes when the timer is running and names the event of the timer.\<close>

datatype am_timer_message = Am_Buffer_T | Am_Pdu_T "32 word" | Am_Mrw_T "32 word"

definition at_handleMessage :: "simtime \<Rightarrow> am_timer_message \<Rightarrow> am_tx \<Rightarrow> am_tx cpp" where
  "at_handleMessage now m t = (case m of
      Am_Buffer_T \<Rightarrow> cpp_bind (at_checkForMrw now t) (\<lambda>t1. Inr (t1\<lparr>at_bufferStatusTimer := None\<rparr>))
    | Am_Pdu_T sn \<Rightarrow> at_pduTimerHandle now sn t
    | Am_Mrw_T sn \<Rightarrow> at_mrwTimerHandle now sn t)"

definition at_scheduled :: "am_timer_message \<Rightarrow> am_tx \<Rightarrow> bool" where
  "at_scheduled m t = (case m of
      Am_Buffer_T \<Rightarrow> at_bufferStatusTimer t \<noteq> None
    | Am_Pdu_T sn \<Rightarrow> map_option snd (mt_intr (at_pduTimer t)) = Some sn
    | Am_Mrw_T sn \<Rightarrow> map_option snd (mt_intr (at_mrwTimer t)) = Some sn)"

section \<open>Events of the entity\<close>

datatype am_tx_event =
    At_Enque am_sdu
  | At_Request int
  | At_Control am_pdu
  | At_Buffer_Control am_packet
  | At_Timer am_timer_message

definition at_step :: "simtime \<times> am_tx_event \<Rightarrow> am_tx \<Rightarrow> am_tx cpp" where
  "at_step ev t = (case snd ev of
      At_Enque s \<Rightarrow> at_enque (fst ev) s t
    | At_Request sz \<Rightarrow> at_sendPdus sz t
    | At_Control h \<Rightarrow> at_handleControlPacket (fst ev) h t
    | At_Buffer_Control p \<Rightarrow> Inr (at_bufferPdu p t)
    | At_Timer m \<Rightarrow> at_handleMessage (fst ev) m t)"

fun at_run :: "(simtime \<times> am_tx_event) list \<Rightarrow> am_tx \<Rightarrow> am_tx cpp" where
  "at_run [] t = Inr t"
| "at_run (ev # evs) t = cpp_bind (at_step ev t) (at_run evs)"

end
