(* ===== verification/Rlc_Am_Stream.thy ===== *)
theory Rlc_Am_Stream
  imports Rlc_Am_Tx
begin

text \<open>
  What the transmitting entity puts into its window, as a list: the fragments of the SDUs it has taken, one after the other. Position \<open>k\<close> of
  the list is the PDU with sequence number \<open>k\<close>. The proofs about the sender and the link count in natural numbers with this list;
  a PDU of the program is one of the list up to its transmission number and the length of its header.
\<close>

section \<open>PDUs up to retransmission\<close>

definition am_norm :: "am_packet \<Rightarrow> am_packet" where
  "am_norm p = p\<lparr>am_hdr := (am_hdr p)\<lparr>ap_txNumber := 0, ap_bits := 8\<rparr>\<rparr>"

lemma am_norm_simps [simp]:
  "am_data (am_norm p) = am_data p" "am_tag (am_norm p) = am_tag p"
  "ap_snoFragment (am_hdr (am_norm p)) = ap_snoFragment (am_hdr p)"
  "ap_snoMainPacket (am_hdr (am_norm p)) = ap_snoMainPacket (am_hdr p)"
  "ap_totalFragments (am_hdr (am_norm p)) = ap_totalFragments (am_hdr p)"
  "ap_amType (am_hdr (am_norm p)) = ap_amType (am_hdr p)"
  "ap_firstSn (am_hdr (am_norm p)) = ap_firstSn (am_hdr p)"
  "ap_lastSn (am_hdr (am_norm p)) = ap_lastSn (am_hdr p)"
  "am_norm (am_norm p) = am_norm p" "am_norm (at_emptyPdu p) = am_norm p"
  "am_norm (p\<lparr>am_hdr := (am_hdr p)\<lparr>ap_txNumber := x\<rparr>\<rparr>) = am_norm p"
  by (simp_all add: am_norm_def at_emptyPdu_def)

lemma am_normD:
  assumes "am_norm p = q"
  shows "am_data p = am_data q" "am_tag p = am_tag q" "ap_snoFragment (am_hdr p) = ap_snoFragment (am_hdr q)"
    "ap_snoMainPacket (am_hdr p) = ap_snoMainPacket (am_hdr q)" "ap_totalFragments (am_hdr p) = ap_totalFragments (am_hdr q)"
    "ap_amType (am_hdr p) = ap_amType (am_hdr q)" "ap_firstSn (am_hdr p) = ap_firstSn (am_hdr q)"
    "ap_lastSn (am_hdr p) = ap_lastSn (am_hdr q)"
  using assms by auto

section \<open>The fragments of an SDU\<close>

definition am_len :: "nat \<Rightarrow> am_sdu \<Rightarrow> nat" where
  "am_len u s = am_ceil (length (as_octets s)) u"

definition am_sno :: "am_sdu \<Rightarrow> 32 word" where
  "am_sno s = (case am_popSdu (as_octets s) of Inl _ \<Rightarrow> 0 | Inr (n, _) \<Rightarrow> n)"

text \<open>Fragment \<open>j\<close> of an SDU whose first fragment has number \<open>a\<close>.\<close>

definition am_frag :: "nat \<Rightarrow> nat \<Rightarrow> am_sdu \<Rightarrow> nat \<Rightarrow> am_packet" where
  "am_frag u a s j = \<lparr>am_hdr = am_newPdu\<lparr>ap_totalFragments := of_nat (am_len u s), ap_snoFragment := of_nat (a + j),
      ap_snoMainPacket := am_sno s, ap_firstSn := of_nat a, ap_lastSn := of_nat a + of_nat (am_len u s) - 1\<rparr>,
    am_data = take u (drop (j * u) (as_octets s)), am_tag = as_tag s\<rparr>"

lemma am_frag_norm [simp]: "am_norm (am_frag u a s j) = am_frag u a s j"
  by (simp add: am_norm_def am_frag_def am_newPdu_def)

lemma am_frag_fields [simp]:
  "ap_snoFragment (am_hdr (am_frag u a s j)) = of_nat (a + j)" "ap_snoMainPacket (am_hdr (am_frag u a s j)) = am_sno s"
  "ap_totalFragments (am_hdr (am_frag u a s j)) = of_nat (am_len u s)" "ap_amType (am_hdr (am_frag u a s j)) = Am_Data"
  "ap_firstSn (am_hdr (am_frag u a s j)) = of_nat a" "ap_lastSn (am_hdr (am_frag u a s j)) = of_nat a + of_nat (am_len u s) - 1"
  "am_tag (am_frag u a s j) = as_tag s" "am_data (am_frag u a s j) = take u (drop (j * u) (as_octets s))"
  by (simp_all add: am_frag_def am_newPdu_def)

text \<open>An SDU of the module: its header and at most \<open>2 ^ 31\<close> octets.\<close>

definition am_sdu_ok :: "am_sdu \<Rightarrow> bool" where
  "am_sdu_ok s = (cpp_ok (am_popSdu (as_octets s)) \<and> length (as_octets s) < 2 ^ 31)"

lemma am_sdu_okD:
  assumes "am_sdu_ok s"
  obtains os where "as_octets s = am_sduHeader (am_sno s) @ os" "am_popSdu (as_octets s) = Inr (am_sno s, os)"
proof -
  obtain n os where p: "am_popSdu (as_octets s) = Inr (n, os)" using assms by (auto simp: am_sdu_ok_def cpp_ok_iff)
  then have "am_sno s = n" by (simp add: am_sno_def)
  then show thesis using that[of os] p am_popSdu_Inr[OF p] by simp
qed

lemma am_len_pos: "am_sdu_ok s \<Longrightarrow> 0 < u \<Longrightarrow> 0 < am_len u s \<and> am_len u s < 2 ^ 31 \<and> (am_len u s - 1) * u < length (as_octets s) \<and> length (as_octets s) \<le> am_len u s * u"
proof -
  assume s: "am_sdu_ok s" and u: "0 < u"
  obtain os where "as_octets s = am_sduHeader (am_sno s) @ os" using am_sdu_okD[OF s] .
  then have "0 < length (as_octets s)" by (simp add: am_sduHeader_def RLC_HEADER_AM_def)
  from am_ceil_bounds[OF u this] s show ?thesis by (auto simp: am_len_def am_sdu_ok_def)
qed

lemma concat_chunks: "concat (map (\<lambda>j. take u (drop (j * u) xs)) [0..<n]) = take (n * u) xs"
proof (induction n)
  case 0
  then show ?case by simp
next
  case (Suc n)
  have "take (n * u) xs @ take u (drop (n * u) xs) = take (n * u + u) xs" by (simp add: take_add)
  then show ?case using Suc by (simp add: add.commute)
qed

text \<open>The fragments together are the SDU.\<close>

lemma am_frag_concat:
  assumes "am_sdu_ok s" "0 < u"
  shows "concat (map (\<lambda>j. am_data (am_frag u a s j)) [0..<am_len u s]) = as_octets s"
  using am_len_pos[OF assms] by (simp add: concat_chunks)

section \<open>The stream of a list of SDUs\<close>

definition am_stream :: "nat \<Rightarrow> am_sdu list \<Rightarrow> am_packet list" where
  "am_stream u ss = foldl (\<lambda>h s. h @ map (am_frag u (length h) s) [0..<am_len u s]) [] ss"

lemma am_stream_simps [simp]:
  "am_stream u [] = []"
  "am_stream u (ss @ [s]) = am_stream u ss @ map (am_frag u (length (am_stream u ss)) s) [0..<am_len u s]"
  by (simp_all add: am_stream_def)

text \<open>Where the fragments of SDU \<open>i\<close> begin.\<close>

definition am_start :: "nat \<Rightarrow> am_sdu list \<Rightarrow> nat \<Rightarrow> nat" where
  "am_start u ss i = length (am_stream u (take i ss))"

lemma am_start_0 [simp]: "am_start u ss 0 = 0"
  by (simp add: am_start_def)

lemma am_start_Suc: "i < length ss \<Longrightarrow> am_start u ss (Suc i) = am_start u ss i + am_len u (ss ! i)"
  by (simp add: am_start_def take_Suc_conv_app_nth)

lemma am_start_all: "length ss \<le> i \<Longrightarrow> am_start u ss i = length (am_stream u ss)"
  by (simp add: am_start_def)

lemma am_start_append: "i \<le> length ss \<Longrightarrow> am_start u (ss @ ts) i = am_start u ss i"
  by (simp add: am_start_def)

lemma am_start_mono: "i \<le> j \<Longrightarrow> am_start u ss i \<le> am_start u ss j"
proof (induction j rule: dec_induct)
  case base
  then show ?case by simp
next
  case (step k)
  then show ?case by (cases "k < length ss") (auto simp: am_start_Suc am_start_all)
qed

lemma am_start_le: "am_start u ss i \<le> length (am_stream u ss)"
  using am_start_mono[of i "max i (length ss)" u ss] by (simp add: am_start_all)

text \<open>Every position of the stream is a fragment of one SDU.\<close>

lemma am_stream_nth:
  assumes "k < length (am_stream u ss)"
  shows "\<exists>i < length ss. am_start u ss i \<le> k \<and> k < am_start u ss (Suc i) \<and> am_stream u ss ! k = am_frag u (am_start u ss i) (ss ! i) (k - am_start u ss i)"
  using assms
proof (induction ss rule: rev_induct)
  case Nil
  then show ?case by simp
next
  case (snoc s ss)
  let ?n = "length (am_stream u ss)"
  show ?case
  proof (cases "k < ?n")
    case True
    then obtain i where i: "i < length ss" "am_start u ss i \<le> k" "k < am_start u ss (Suc i)"
      "am_stream u ss ! k = am_frag u (am_start u ss i) (ss ! i) (k - am_start u ss i)" using snoc.IH by blast
    then show ?thesis using True by (intro exI[of _ i]) (simp add: am_start_append nth_append)
  next
    case False
    have "am_start u (ss @ [s]) (length ss) = ?n" "am_start u (ss @ [s]) (Suc (length ss)) = ?n + am_len u s"
      by (simp_all add: am_start_def)
    then show ?thesis using False snoc.prems by (intro exI[of _ "length ss"]) (auto simp: nth_append)
  qed
qed

lemma am_stream_frag:
  assumes "i < length ss" "j < am_len u (ss ! i)"
  shows "am_start u ss i + j < length (am_stream u ss)" "am_stream u ss ! (am_start u ss i + j) = am_frag u (am_start u ss i) (ss ! i) j"
proof -
  let ?k = "am_start u ss i + j"
  have "?k < am_start u ss (Suc i)" using assms by (simp add: am_start_Suc)
  then show k: "?k < length (am_stream u ss)" using am_start_le[of u ss "Suc i"] by linarith
  obtain i' where i': "i' < length ss" "am_start u ss i' \<le> ?k" "?k < am_start u ss (Suc i')"
    "am_stream u ss ! ?k = am_frag u (am_start u ss i') (ss ! i') (?k - am_start u ss i')" using am_stream_nth[OF k] by blast
  have "i' = i" proof (rule ccontr)
    assume "i' \<noteq> i"
    then consider "Suc i' \<le> i" | "Suc i \<le> i'" by linarith
    then show False
    proof cases
      case 1
      then show False using am_start_mono[of "Suc i'" i u ss] i'(3) by linarith
    next
      case 2
      then show False using am_start_mono[of "Suc i" i' u ss] i'(2) \<open>?k < am_start u ss (Suc i)\<close> by linarith
    qed
  qed
  then show "am_stream u ss ! ?k = am_frag u (am_start u ss i) (ss ! i) j" using i'(4) by simp
qed

text \<open>The SDU of a position.\<close>

definition am_owner :: "nat \<Rightarrow> am_sdu list \<Rightarrow> nat \<Rightarrow> nat" where
  "am_owner u ss k = length (takeWhile (\<lambda>i. am_start u ss (Suc i) \<le> k) [0..<length ss])"

text \<open>The end of the SDU of a position: the number behind its last fragment.\<close>

definition am_end :: "nat \<Rightarrow> am_sdu list \<Rightarrow> nat \<Rightarrow> nat" where
  "am_end u ss k = am_start u ss (Suc (am_owner u ss k))"

lemma am_owner_eq:
  assumes "i < length ss" "am_start u ss i \<le> k" "k < am_start u ss (Suc i)"
  shows "am_owner u ss k = i"
  unfolding am_owner_def
proof (rule length_takeWhile_nth)
  show "i \<le> length [0..<length ss]" using assms by simp
  show "\<forall>j<i. am_start u ss (Suc ([0..<length ss] ! j)) \<le> k"
  proof (intro allI impI)
    fix j assume "j < i"
    then show "am_start u ss (Suc ([0..<length ss] ! j)) \<le> k" using assms am_start_mono[of "Suc j" i u ss] by auto
  qed
  show "i < length [0..<length ss] \<longrightarrow> \<not> am_start u ss (Suc ([0..<length ss] ! i)) \<le> k" using assms by simp
qed

lemma am_ownerE:
  assumes "k < length (am_stream u ss)"
  shows "am_owner u ss k < length ss" "am_start u ss (am_owner u ss k) \<le> k" "k < am_end u ss k"
    "am_stream u ss ! k = am_frag u (am_start u ss (am_owner u ss k)) (ss ! am_owner u ss k) (k - am_start u ss (am_owner u ss k))"
    "am_end u ss k = am_start u ss (am_owner u ss k) + am_len u (ss ! am_owner u ss k)" "am_end u ss k \<le> length (am_stream u ss)"
proof -
  obtain i where i: "i < length ss" "am_start u ss i \<le> k" "k < am_start u ss (Suc i)"
    "am_stream u ss ! k = am_frag u (am_start u ss i) (ss ! i) (k - am_start u ss i)" using am_stream_nth[OF assms] by blast
  then have o': "am_owner u ss k = i" by (simp add: am_owner_eq)
  show "am_owner u ss k < length ss" "am_start u ss (am_owner u ss k) \<le> k" "k < am_end u ss k"
    "am_stream u ss ! k = am_frag u (am_start u ss (am_owner u ss k)) (ss ! am_owner u ss k) (k - am_start u ss (am_owner u ss k))"
    "am_end u ss k = am_start u ss (am_owner u ss k) + am_len u (ss ! am_owner u ss k)" "am_end u ss k \<le> length (am_stream u ss)"
    using i am_start_le[of u ss "Suc i"] by (simp_all add: am_end_def o' am_start_Suc)
qed

lemma am_stream_append: "\<exists>r. am_stream u (ss @ ts) = am_stream u ss @ r"
proof (induction ts rule: rev_induct)
  case Nil
  then show ?case by simp
next
  case (snoc t ts)
  then obtain r where "am_stream u (ss @ ts) = am_stream u ss @ r" by blast
  then show ?case using am_stream_simps(2)[of u "ss @ ts" t] by auto
qed

lemma am_owner_append:
  assumes "k < length (am_stream u ss)"
  shows "am_owner u (ss @ ts) k = am_owner u ss k" "am_end u (ss @ ts) k = am_end u ss k" "am_stream u (ss @ ts) ! k = am_stream u ss ! k"
proof -
  note o' = am_ownerE[OF assms]
  show "am_owner u (ss @ ts) k = am_owner u ss k"
    using o'(1,2,3) by (intro am_owner_eq) (simp_all add: am_start_append am_end_def)
  then show "am_end u (ss @ ts) k = am_end u ss k" using o'(1) by (simp add: am_end_def am_start_append)
  show "am_stream u (ss @ ts) ! k = am_stream u ss ! k" using am_stream_append[of u ss ts] assms by (auto simp: nth_append)
qed

text \<open>Positions between a position and the end of its SDU belong to the same SDU.\<close>

lemma am_owner_between:
  assumes "k < length (am_stream u ss)" "am_start u ss (am_owner u ss k) \<le> j" "j < am_end u ss k"
  shows "am_owner u ss j = am_owner u ss k" "am_end u ss j = am_end u ss k"
  using am_owner_eq[of "am_owner u ss k" ss u j] am_ownerE(1)[OF assms(1)] assms by (simp_all add: am_end_def)

section \<open>Numbers whose loss is settled\<close>

text \<open>
  Up to \<open>m\<close> every number has been received, or the SDU it belongs to ends before \<open>m\<close>: this holds of every window position
  that the two ends agree upon.
\<close>

definition am_clean :: "nat set \<Rightarrow> nat \<Rightarrow> am_sdu list \<Rightarrow> nat \<Rightarrow> bool" where
  "am_clean R u ss m = (m \<le> length (am_stream u ss) \<and> (\<forall>k < m. k \<in> R \<or> am_end u ss k \<le> m))"

lemma am_clean_mono:
  assumes "am_clean R u ss m" "R \<subseteq> R'"
  shows "am_clean R' u (ss @ ts) m"
proof -
  have l: "length (am_stream u ss) \<le> length (am_stream u (ss @ ts))" using am_stream_append[of u ss ts] by auto
  have "k \<in> R' \<or> am_end u (ss @ ts) k \<le> m" if "k < m" for k
  proof -
    have "k < length (am_stream u ss)" using that assms(1) by (simp add: am_clean_def)
    then have "am_end u (ss @ ts) k = am_end u ss k" by (rule am_owner_append)
    then show ?thesis using assms that unfolding am_clean_def by auto
  qed
  then show ?thesis using assms(1) l by (simp add: am_clean_def)
qed

lemma am_clean_0 [simp]: "am_clean R u ss 0"
  by (simp add: am_clean_def)

end
