(* ===== verification/Rlc_Am_Window.thy ===== *)
theory Rlc_Am_Window
  imports Rlc_Am_Stream
begin

text \<open>
  The invariant of the transmitting entity of RLC AM and that every operation keeps it without throwing, as long as the
  receiver acknowledges what was sent. The state is related to the stream of PDUs (\<open>Rlc_Am_Stream\<close>): \<open>b\<close> is the first number in the window, \<open>N\<close> the
  number of PDUs put into it so far, \<open>ss\<close> the SDUs taken, \<open>R\<close> a set of numbers that the receiver has got.
\<close>

section \<open>Windows\<close>

definition am_num :: "nat \<Rightarrow> nat \<Rightarrow> 32 word" where
  "am_num b j = of_nat (b + j)"

lemma am_num_inj:
  assumes "i < 2 ^ 31" "j < 2 ^ 31"
  shows "am_num b i = am_num b j \<longleftrightarrow> i = j"
proof
  assume "am_num b i = am_num b j"
  then have "(of_nat i :: 32 word) = of_nat j" by (simp add: am_num_def)
  then show "i = j" using assms by (simp add: of_nat_word_eq_iff)
qed simp

lemma am_num_index:
  assumes "rw_firstSeqNum w = of_nat b" "j < 2 ^ 31"
  shows "rw_index (am_num b j) w = int j"
  using rw_index_nat[of j w] assms by (simp add: am_num_def)

lemma rw_index_before:
  assumes "rw_firstSeqNum w = of_nat b" "k < b" "b < 2 ^ 31"
  shows "rw_index (of_nat k) w < 0"
proof -
  have "of_nat k - rw_firstSeqNum w = (word_of_int (int k - int b) :: 32 word)" using assms(1) by simp
  then have "rw_index (of_nat k) w = sint (word_of_int (int k - int b) :: 32 word)" by (simp only: rw_index_def)
  then have "rw_index (of_nat k) w = signed_take_bit 31 (int k - int b)" by (simp add: signed_of_int del: of_int_diff)
  also have "\<dots> = int k - int b" using assms by (intro signed_take_bit_int_eq_self) auto
  finally show ?thesis using assms by simp
qed

lemma cpp_fold_upt:
  assumes "i \<le> j" "P i s"
    and "\<And>k s. i \<le> k \<Longrightarrow> k < j \<Longrightarrow> P k s \<Longrightarrow> \<exists>t. f k s = Inr t \<and> P (Suc k) t"
  shows "\<exists>t. cpp_fold f [i..<j] s = Inr t \<and> P j t"
  using assms
proof (induction j rule: dec_induct)
  case base
  then show ?case by simp
next
  case (step n)
  then obtain t where "cpp_fold f [i..<n] s = Inr t" "P n t" by (metis less_SucI)
  moreover obtain t' where "f n t = Inr t'" "P (Suc n) t'" using step.prems(2)[OF step.hyps(1) _ \<open>P n t\<close>] by auto
  ultimately show ?case using step.hyps by (auto simp: cpp_fold_append)
qed

section \<open>The invariant\<close>

definition at_timers_ok :: "nat \<Rightarrow> nat \<Rightarrow> bool list \<Rightarrow> bool list \<Rightarrow> multi_timer \<Rightarrow> bool" where
  "at_timers_ok b n rs ds tm = (mt_ok tm \<and> dom (mt_deadlines tm) = am_num b ` {j. j < n \<and> \<not> rs ! j \<and> \<not> ds ! j})"

text \<open>The window: its PDUs are those of the stream, flags and timers fit.\<close>

definition at_store_ok :: "nat \<Rightarrow> am_sdu list \<Rightarrow> nat \<Rightarrow> nat \<Rightarrow> am_tx \<Rightarrow> bool" where
  "at_store_ok u ss b N t = (at_first t = of_nat b \<and> at_seq t = of_nat N \<and> b \<le> N \<and> N \<le> length (am_stream u ss)
     \<and> N - b \<le> unat (at_size t) \<and> unat (at_size t) \<le> 200
     \<and> length (at_received t) = unat (at_size t) \<and> length (at_discarded t) = Suc (unat (at_size t))
     \<and> (\<forall>i < N - b. \<exists>p. ca_get i (at_pduRtxQueue t) = Some p \<and> am_norm p = am_stream u ss ! (b + i))
     \<and> (\<forall>i \<ge> N - b. ca_get i (at_pduRtxQueue t) = None)
     \<and> (\<forall>i < unat (at_size t). N - b \<le> i \<longrightarrow> \<not> at_received t ! i)
     \<and> (\<forall>i < Suc (unat (at_size t)). N - b \<le> i \<longrightarrow> \<not> at_discarded t ! i)
     \<and> at_timers_ok b (N - b) (at_received t) (at_discarded t) (at_pduTimer t))"

definition at_flag :: "am_tx \<Rightarrow> nat \<Rightarrow> bool" where
  "at_flag t i = (at_received t ! i \<or> at_discarded t ! i)"

text \<open>Why a PDU is flagged: it was received, or the rest of its SDU is flagged, too.\<close>

definition at_flags_ok :: "nat set \<Rightarrow> nat \<Rightarrow> am_sdu list \<Rightarrow> nat \<Rightarrow> nat \<Rightarrow> am_tx \<Rightarrow> bool" where
  "at_flags_ok R u ss b N t = (am_clean R u ss b \<and> (\<forall>i < N - b. at_flag t i \<longrightarrow> am_end u ss (b + i) \<le> N
     \<and> (b + i \<in> R \<or> (\<forall>j < N - b. i < j \<longrightarrow> b + j < am_end u ss (b + i) \<longrightarrow> at_flag t j))))"

text \<open>The PDUs that go down: fragments of the stream, and commands to move the window to a number where nothing is open.\<close>

definition at_pdu_ok :: "nat set \<Rightarrow> nat \<Rightarrow> am_sdu list \<Rightarrow> am_packet \<Rightarrow> bool" where
  "at_pdu_ok R u ss p = (case ap_amType (am_hdr p) of
      Am_Data \<Rightarrow> \<exists>k < length (am_stream u ss). am_norm p = am_stream u ss ! k
    | Am_Mrw \<Rightarrow> \<exists>m. ap_lastSn (am_hdr p) = of_nat m \<and> am_clean R u ss m
    | _ \<Rightarrow> True)"

definition at_sent_ok :: "nat set \<Rightarrow> nat \<Rightarrow> am_sdu list \<Rightarrow> am_tx \<Rightarrow> bool" where
  "at_sent_ok R u ss t = ((\<forall>p \<in> set (at_pduBuffer t). at_pdu_ok R u ss p) \<and> (\<forall>p. Am_Send p \<in> set (at_out t) \<longrightarrow> at_pdu_ok R u ss p))"

text \<open>The commands that wait for their acknowledgement.\<close>

definition at_mrw_ok :: "nat set \<Rightarrow> nat \<Rightarrow> am_sdu list \<Rightarrow> am_tx \<Rightarrow> bool" where
  "at_mrw_ok R u ss t = (mt_ok (at_mrwTimer t)
     \<and> (\<forall>sn. mt_deadlines (at_mrwTimer t) sn \<noteq> None \<longrightarrow> ca_geti (sint sn) (at_mrwRtxQueue t) \<noteq> None)
     \<and> (\<forall>k p. ca_get k (at_mrwRtxQueue t) = Some p \<longrightarrow> k < unat (md_mrwSeqNum (at_mrwDesc t)) \<and> ap_amType (am_hdr p) = Am_Mrw \<and> at_pdu_ok R u ss p))"

definition at_queue_ok :: "nat \<Rightarrow> nat \<Rightarrow> nat \<Rightarrow> am_tx \<Rightarrow> bool" where
  "at_queue_ok u b N t = ((\<forall>s \<in> set (at_sduQueue t). am_sdu_ok s) \<and> 0 < u \<and> fd_fragUnit (at_fragDesc t) = u
     \<and> (b < N \<longrightarrow> at_lteInfo t \<noteq> None))"

definition at_idle :: "am_tx \<Rightarrow> bool" where
  "at_idle t = (at_currentSdu t = None \<and> at_fragmentList t = None \<and> at_txWindowIndexList t = [])"

definition at_core :: "nat set \<Rightarrow> nat \<Rightarrow> am_sdu list \<Rightarrow> nat \<Rightarrow> nat \<Rightarrow> am_tx \<Rightarrow> bool" where
  "at_core R u ss b N t = (at_store_ok u ss b N t \<and> at_flags_ok R u ss b N t \<and> at_sent_ok R u ss t \<and> at_mrw_ok R u ss t \<and> at_queue_ok u b N t)"

text \<open>The invariant between two operations.\<close>

definition at_inv :: "nat set \<Rightarrow> nat \<Rightarrow> am_sdu list \<Rightarrow> nat \<Rightarrow> am_tx \<Rightarrow> bool" where
  "at_inv R u ss b t = (at_core R u ss b (length (am_stream u ss)) t \<and> at_idle t)"

lemmas at_ok_defs = at_store_ok_def at_flags_ok_def at_sent_ok_def at_mrw_ok_def at_queue_ok_def at_flag_def

lemma at_store_used: "at_store_ok u ss b N t \<Longrightarrow> at_used t = N - b"
proof -
  assume s: "at_store_ok u ss b N t"
  then have "at_seq t - at_first t = of_nat (N - b)" by (simp add: at_store_ok_def of_nat_diff)
  moreover have "N - b < 2 ^ 32" using s by (simp add: at_store_ok_def)
  ultimately show ?thesis by (simp add: rw_used_def unsigned_of_nat take_bit_nat_eq_self)
qed

text \<open>More received numbers do no harm.\<close>

lemma at_pdu_ok_mono: "at_pdu_ok R u ss p \<Longrightarrow> R \<subseteq> R' \<Longrightarrow> at_pdu_ok R' u (ss @ ts) p"
proof -
  assume p: "at_pdu_ok R u ss p" and R: "R \<subseteq> R'"
  obtain r where r: "am_stream u (ss @ ts) = am_stream u ss @ r" using am_stream_append by blast
  show ?thesis
  proof (cases "ap_amType (am_hdr p)")
    case Am_Data
    then obtain k where "k < length (am_stream u ss)" "am_norm p = am_stream u ss ! k" using p by (auto simp: at_pdu_ok_def)
    then show ?thesis using Am_Data r by (auto simp: at_pdu_ok_def nth_append intro!: exI[of _ k])
  next
    case Am_Mrw
    then show ?thesis using p am_clean_mono[OF _ R] by (auto simp: at_pdu_ok_def)
  qed (auto simp: at_pdu_ok_def)
qed

lemma at_core_mono:
  assumes "at_core R u ss b N t" "R \<subseteq> R'"
  shows "at_core R' u (ss @ ts) b N t"
proof -
  note c = assms(1)[unfolded at_core_def]
  obtain r where r: "am_stream u (ss @ ts) = am_stream u ss @ r" using am_stream_append by blast
  have N: "N \<le> length (am_stream u ss)" using c by (simp add: at_store_ok_def)
  then have "at_store_ok u (ss @ ts) b N t" using c r by (auto simp: at_store_ok_def nth_append)
  moreover have "at_flags_ok R' u (ss @ ts) b N t"
  proof -
    have "am_end u (ss @ ts) (b + i) = am_end u ss (b + i)" if "i < N - b" for i using that N by (intro am_owner_append) simp
    moreover have "am_clean R' u (ss @ ts) b" using c am_clean_mono[OF _ assms(2)] by (simp add: at_flags_ok_def)
    ultimately show ?thesis using c assms(2) unfolding at_flags_ok_def by (metis subsetD)
  qed
  moreover have "at_sent_ok R' u (ss @ ts) t" "at_mrw_ok R' u (ss @ ts) t"
    using c at_pdu_ok_mono[OF _ assms(2)] by (auto simp: at_sent_ok_def at_mrw_ok_def)
  ultimately show ?thesis using c by (simp add: at_core_def)
qed

section \<open>Timers and flags\<close>

lemma at_stopTimer_ok:
  assumes "mt_ok (at_pduTimer t)"
  shows "\<exists>tm. at_stopTimer sn t = Inr (t\<lparr>at_pduTimer := tm\<rparr>) \<and> mt_ok tm \<and> mt_deadlines tm = (mt_deadlines (at_pduTimer t))(sn := None)"
proof (cases "mt_busyEvent sn (at_pduTimer t)")
  case True
  then show ?thesis using mt.remove_ok[OF assms, of sn] mt.busy_iff[OF assms, of sn] by (auto simp: at_stopTimer_def)
next
  case False
  then have "mt_deadlines (at_pduTimer t) sn = None" using mt.busy_iff[OF assms] by simp
  then show ?thesis using False assms by (intro exI[of _ "at_pduTimer t"]) (auto simp: at_stopTimer_def)
qed

lemma am_num_image_diff:
  assumes "J \<subseteq> {..<200}" "i < 200"
  shows "am_num b ` J - {am_num b i} = am_num b ` (J - {i})"
  using assms by (auto simp: am_num_inj subset_iff)

text \<open>Stopping the timer of a position that gets a flag.\<close>

lemma at_timers_received:
  assumes "at_timers_ok b n rs ds tm" "mt_ok tm'" "mt_deadlines tm' = (mt_deadlines tm)(am_num b i := None)"
    "i < n" "n \<le> 200" "n \<le> length rs"
  shows "at_timers_ok b n (rs[i := True]) ds tm'"
proof -
  have "dom (mt_deadlines tm') = am_num b ` ({j. j < n \<and> \<not> rs ! j \<and> \<not> ds ! j} - {i})"
    using assms by (subst am_num_image_diff[symmetric]) (auto simp: at_timers_ok_def)
  also have "{j. j < n \<and> \<not> rs ! j \<and> \<not> ds ! j} - {i} = {j. j < n \<and> \<not> rs[i := True] ! j \<and> \<not> ds ! j}"
    using assms by (auto simp: nth_list_update)
  finally show ?thesis unfolding at_timers_ok_def using assms(2) by blast
qed

lemma at_timers_discarded:
  assumes "dom (mt_deadlines tm) - {am_num b i} = am_num b ` {j. j < n \<and> \<not> rs ! j \<and> \<not> ds ! j} - {am_num b i}" "mt_ok tm'"
    "mt_deadlines tm' = (mt_deadlines tm)(am_num b i := None)" "i < n" "n \<le> 200" "n \<le> length ds"
  shows "at_timers_ok b n rs (ds[i := True]) tm'"
proof -
  have "dom (mt_deadlines tm') = am_num b ` ({j. j < n \<and> \<not> rs ! j \<and> \<not> ds ! j} - {i})"
    using assms by (subst am_num_image_diff[symmetric]) auto
  also have "{j. j < n \<and> \<not> rs ! j \<and> \<not> ds ! j} - {i} = {j. j < n \<and> \<not> rs ! j \<and> \<not> ds[i := True] ! j}"
    using assms by (auto simp: nth_list_update)
  finally show ?thesis unfolding at_timers_ok_def using assms(2) by blast
qed

lemma at_store_num: "at_store_ok u ss b N t \<Longrightarrow> of_nat i + at_first t = am_num b i"
  by (simp add: at_store_ok_def am_num_def)

text \<open>A position that is acknowledged.\<close>

lemma at_markReceived_ok:
  assumes "at_store_ok u ss b N t" "i < N - b"
  shows "\<exists>tm. at_markReceived i t = Inr (t\<lparr>at_pduTimer := tm, at_received := (at_received t)[i := True]\<rparr>)
    \<and> at_store_ok u ss b N (t\<lparr>at_pduTimer := tm, at_received := (at_received t)[i := True]\<rparr>)"
proof -
  note s = assms(1)[unfolded at_store_ok_def]
  have m: "mt_ok (at_pduTimer t)" using s by (simp add: at_timers_ok_def)
  obtain tm where tm: "at_stopTimer (am_num b i) t = Inr (t\<lparr>at_pduTimer := tm\<rparr>)" "mt_ok tm"
    "mt_deadlines tm = (mt_deadlines (at_pduTimer t))(am_num b i := None)" using at_stopTimer_ok[OF m] by blast
  have "at_timers_ok b (N - b) ((at_received t)[i := True]) (at_discarded t) tm"
    using s assms(2) by (intro at_timers_received[OF _ tm(2,3)]) auto
  moreover have "i < length (at_received t)" using s assms(2) by simp
  ultimately show ?thesis using tm(1) s assms(2) at_store_num[OF assms(1), of i]
    by (intro exI[of _ tm]) (auto simp: at_markReceived_def at_store_ok_def nth_list_update)
qed

text \<open>A position that is discarded; its timer may have gone off.\<close>

definition at_almost_ok :: "nat \<Rightarrow> am_sdu list \<Rightarrow> nat \<Rightarrow> nat \<Rightarrow> nat \<Rightarrow> am_tx \<Rightarrow> bool" where
  "at_almost_ok u ss b N i t = (mt_ok (at_pduTimer t)
     \<and> (\<exists>tm. at_store_ok u ss b N (t\<lparr>at_pduTimer := tm\<rparr>) \<and> dom (mt_deadlines (at_pduTimer t)) - {am_num b i} = dom (mt_deadlines tm) - {am_num b i}))"

lemma at_almost_store: "at_store_ok u ss b N t \<Longrightarrow> at_almost_ok u ss b N i t"
  unfolding at_almost_ok_def by (auto simp: at_store_ok_def at_timers_ok_def intro!: exI[of _ "at_pduTimer t"])

lemma at_discardPosition_ok:
  assumes "at_almost_ok u ss b N i t" "i < N - b"
  shows "\<exists>tm. cpp_bind (if at_discarded t ! i then Inr t else at_markDiscarded i t) (at_stopTimer (am_num b i))
      = Inr (t\<lparr>at_pduTimer := tm, at_discarded := (at_discarded t)[i := True]\<rparr>)
    \<and> at_store_ok u ss b N (t\<lparr>at_pduTimer := tm, at_discarded := (at_discarded t)[i := True]\<rparr>)"
proof -
  obtain tm0 where s': "at_store_ok u ss b N (t\<lparr>at_pduTimer := tm0\<rparr>)" and m: "mt_ok (at_pduTimer t)"
    and d: "dom (mt_deadlines (at_pduTimer t)) - {am_num b i} = dom (mt_deadlines tm0) - {am_num b i}"
    using assms(1) by (auto simp: at_almost_ok_def)
  note s = s'[unfolded at_store_ok_def, simplified]
  have l: "i < length (at_discarded t)" using s assms(2) by simp
  let ?t = "t\<lparr>at_discarded := (at_discarded t)[i := True]\<rparr>"
  have e: "(if at_discarded t ! i then Inr t else at_markDiscarded i t) = Inr ?t"
  proof (cases "at_discarded t ! i")
    case True
    then have "(at_discarded t)[i := True] = at_discarded t" by (metis list_update_id)
    then show ?thesis using True by simp
  qed (simp add: at_markDiscarded_def l)
  obtain tm where tm: "at_stopTimer (am_num b i) ?t = Inr (?t\<lparr>at_pduTimer := tm\<rparr>)" "mt_ok tm"
    "mt_deadlines tm = (mt_deadlines (at_pduTimer t))(am_num b i := None)" using at_stopTimer_ok[of ?t] m by auto
  have "at_timers_ok b (N - b) (at_received t) ((at_discarded t)[i := True]) tm"
    using s assms(2) d by (intro at_timers_discarded[OF _ tm(2,3)]) (auto simp: at_timers_ok_def)
  then have "at_store_ok u ss b N (t\<lparr>at_pduTimer := tm, at_discarded := (at_discarded t)[i := True]\<rparr>)"
    using s assms(2) by (auto simp: at_store_ok_def nth_list_update)
  then show ?thesis using e tm(1) by (intro exI[of _ tm]) simp
qed

text \<open>The searches for the other fragments of a discarded SDU mark a run of positions with the same number of the SDU.\<close>

definition at_main :: "nat \<Rightarrow> am_sdu list \<Rightarrow> nat \<Rightarrow> 32 word" where
  "at_main u ss k = ap_snoMainPacket (am_hdr (am_stream u ss ! k))"

lemma at_store_get:
  assumes "at_store_ok u ss b N t" "i < N - b"
  obtains p where "ca_get i (at_pduRtxQueue t) = Some p" "am_norm p = am_stream u ss ! (b + i)" "ap_snoMainPacket (am_hdr p) = at_main u ss (b + i)"
proof -
  obtain p where p: "ca_get i (at_pduRtxQueue t) = Some p" "am_norm p = am_stream u ss ! (b + i)"
    using assms by (auto simp: at_store_ok_def)
  then show thesis using that am_normD(4)[OF p(2)] by (simp add: at_main_def)
qed

definition at_marked :: "nat \<Rightarrow> nat \<Rightarrow> am_tx \<Rightarrow> am_tx \<Rightarrow> bool" where
  "at_marked i m t t' = (\<exists>tm ds. t' = t\<lparr>at_pduTimer := tm, at_discarded := ds\<rparr> \<and> length ds = length (at_discarded t)
     \<and> (\<forall>j < length ds. ds ! j = (at_discarded t ! j \<or> i \<le> j \<and> j < m)))"

lemma at_marked_refl: "at_marked i i t t"
  by (auto simp: at_marked_def intro!: exI[of _ "at_pduTimer t"] exI[of _ "at_discarded t"])

lemma at_marked_one:
  assumes "i < length (at_discarded t)"
  shows "at_marked i (Suc i) t (t\<lparr>at_pduTimer := tm, at_discarded := (at_discarded t)[i := True]\<rparr>)"
proof -
  have "\<forall>j < length (at_discarded t). (at_discarded t)[i := True] ! j = (at_discarded t ! j \<or> i \<le> j \<and> j < Suc i)"
    using assms by (auto simp: nth_list_update)
  then show ?thesis by (auto simp: at_marked_def intro!: exI[of _ tm] exI[of _ "(at_discarded t)[i := True]"])
qed

lemma at_marked_trans: "at_marked i m t t' \<Longrightarrow> at_marked i' m' t' t'' \<Longrightarrow> i' \<le> i \<Longrightarrow> i \<le> m' \<Longrightarrow> m' \<le> m \<Longrightarrow> at_marked i' m t t''"
  unfolding at_marked_def by (elim exE conjE) (auto intro!: exI)

lemma at_marked_trans': "at_marked i m t t' \<Longrightarrow> at_marked m m' t' t'' \<Longrightarrow> i \<le> m \<Longrightarrow> m \<le> m' \<Longrightarrow> at_marked i m' t t''"
  unfolding at_marked_def by (elim exE conjE) (auto intro!: exI)

lemma at_discardForward_ok:
  assumes "at_store_ok u ss b N t" "i \<le> N - b"
  shows "\<exists>t' m. at_discardForward [i..<N - b] main t = Inr t' \<and> at_store_ok u ss b N t' \<and> at_marked i m t t' \<and> i \<le> m \<and> m \<le> N - b
    \<and> (\<forall>j. i \<le> j \<longrightarrow> j < m \<longrightarrow> at_main u ss (b + j) = main) \<and> (m < N - b \<longrightarrow> at_main u ss (b + m) \<noteq> main)"
  using assms
proof (induction "N - b - i" arbitrary: i t)
  case 0
  then have "i = N - b" by simp
  then show ?case using "0.prems" at_marked_refl[of i t] by (intro exI[of _ t] exI[of _ i]) simp
next
  case (Suc k)
  then have i: "i < N - b" and l: "[i..<N - b] = i # [Suc i..<N - b]" by (simp_all add: upt_conv_Cons)
  obtain p where p: "ca_get i (at_pduRtxQueue t) = Some p" "ap_snoMainPacket (am_hdr p) = at_main u ss (b + i)"
    using at_store_get[OF Suc.prems(1) i] by metis
  show ?case
  proof (cases "main = at_main u ss (b + i)")
    case False
    then show ?thesis using p l i Suc.prems(1) at_marked_refl[of i t] by (intro exI[of _ t] exI[of _ i]) simp
  next
    case True
    have d: "i < length (at_discarded t)" using Suc.prems(1) i by (simp add: at_store_ok_def)
    have one: "\<exists>t1. cpp_bind (vec_at (at_discarded t) i) (\<lambda>d. if d then Inr t
        else cpp_bind (at_markDiscarded i t) (at_stopTimer (of_nat i + at_first t))) = Inr t1 \<and> at_store_ok u ss b N t1 \<and> at_marked i (Suc i) t t1"
    proof (cases "at_discarded t ! i")
      case True
      then have "at_marked i (Suc i) t t" by (auto simp: at_marked_def less_Suc_eq_le le_antisym intro!: exI[of _ "at_pduTimer t"] exI[of _ "at_discarded t"])
      then show ?thesis using True d Suc.prems(1) by simp
    next
      case False
      then obtain tm where "cpp_bind (at_markDiscarded i t) (at_stopTimer (am_num b i))
          = Inr (t\<lparr>at_pduTimer := tm, at_discarded := (at_discarded t)[i := True]\<rparr>)"
        "at_store_ok u ss b N (t\<lparr>at_pduTimer := tm, at_discarded := (at_discarded t)[i := True]\<rparr>)"
        using at_discardPosition_ok[OF at_almost_store[OF Suc.prems(1)] i] by auto
      moreover have "at_marked i (Suc i) t (t\<lparr>at_pduTimer := tm, at_discarded := (at_discarded t)[i := True]\<rparr>)"
        by (rule at_marked_one[OF d])
      ultimately show ?thesis using False d at_store_num[OF Suc.prems(1), of i] by auto
    qed
    then obtain t1 where t1: "cpp_bind (vec_at (at_discarded t) i) (\<lambda>d. if d then Inr t
        else cpp_bind (at_markDiscarded i t) (at_stopTimer (of_nat i + at_first t))) = Inr t1" "at_store_ok u ss b N t1" "at_marked i (Suc i) t t1" by blast
    have "k = N - b - Suc i" "Suc i \<le> N - b" using Suc.hyps(2) i by simp_all
    from Suc.hyps(1)[OF this(1) t1(2) this(2)]
    obtain t' m where t': "at_discardForward [Suc i..<N - b] main t1 = Inr t'" "at_store_ok u ss b N t'" "at_marked (Suc i) m t1 t'" "Suc i \<le> m" "m \<le> N - b"
      "\<forall>j. Suc i \<le> j \<longrightarrow> j < m \<longrightarrow> at_main u ss (b + j) = main" "m < N - b \<longrightarrow> at_main u ss (b + m) \<noteq> main" by blast
    have "(if at_discarded t ! i then Inr t else cpp_bind (at_markDiscarded i t) (at_stopTimer (of_nat i + at_first t))) = Inr t1"
      using t1(1) d by simp
    then have "at_discardForward [i..<N - b] main t = Inr t'" using l p True t'(1) d by simp
    moreover have "at_marked i m t t'" using at_marked_trans'[OF t1(3) t'(3)] t'(4) by simp
    moreover have "\<forall>j. i \<le> j \<longrightarrow> j < m \<longrightarrow> at_main u ss (b + j) = main" using t'(6) True by (metis le_antisym not_less_eq_eq)
    ultimately show ?thesis using t' by (intro exI[of _ t'] exI[of _ m]) simp
  qed
qed

lemma at_discardBackward_ok:
  assumes "at_store_ok u ss b N t" "i \<le> N - b"
  shows "\<exists>t' m. at_discardBackward (rev [0..<i]) main t = Inr t' \<and> at_store_ok u ss b N t' \<and> at_marked m i t t' \<and> m \<le> i
    \<and> (\<forall>j. m \<le> j \<longrightarrow> j < i \<longrightarrow> at_main u ss (b + j) = main)"
  using assms
proof (induction i arbitrary: t)
  case 0
  then show ?case using at_marked_refl[of 0 t] by (intro exI[of _ t] exI[of _ 0]) simp
next
  case (Suc i)
  then have i: "i < N - b" by simp
  obtain p where p: "ca_get i (at_pduRtxQueue t) = Some p" "ap_snoMainPacket (am_hdr p) = at_main u ss (b + i)"
    using at_store_get[OF Suc.prems(1) i] by metis
  show ?case
  proof (cases "main = at_main u ss (b + i)")
    case False
    then show ?thesis using p Suc.prems(1) at_marked_refl[of "Suc i" t] by (intro exI[of _ t] exI[of _ "Suc i"]) simp
  next
    case True
    have d: "i < length (at_discarded t)" using Suc.prems(1) i by (simp add: at_store_ok_def)
    obtain tm where t1: "cpp_bind (if at_discarded t ! i then Inr t else at_markDiscarded i t) (at_stopTimer (am_num b i))
        = Inr (t\<lparr>at_pduTimer := tm, at_discarded := (at_discarded t)[i := True]\<rparr>)"
      and s1: "at_store_ok u ss b N (t\<lparr>at_pduTimer := tm, at_discarded := (at_discarded t)[i := True]\<rparr>)"
      using at_discardPosition_ok[OF at_almost_store[OF Suc.prems(1)] i] by blast
    let ?t1 = "t\<lparr>at_pduTimer := tm, at_discarded := (at_discarded t)[i := True]\<rparr>"
    have m1: "at_marked i (Suc i) t ?t1" by (rule at_marked_one[OF d])
    obtain t' m where t': "at_discardBackward (rev [0..<i]) main ?t1 = Inr t'" "at_store_ok u ss b N t'" "at_marked m i ?t1 t'" "m \<le> i"
      "\<forall>j. m \<le> j \<longrightarrow> j < i \<longrightarrow> at_main u ss (b + j) = main" using Suc.IH[OF s1] i by auto
    have n: "of_nat i + at_first t2 = am_num b i" if "(if at_discarded t ! i then Inr t else at_markDiscarded i t) = Inr t2" for t2
      using that at_store_num[OF Suc.prems(1), of i] d by (auto simp: at_markDiscarded_def split: if_splits)
    have "cpp_bind (if at_discarded t ! i then Inr t else at_markDiscarded i t) (\<lambda>t1. cpp_bind (at_stopTimer (of_nat i + at_first t1) t1) g)
        = cpp_bind (Inr ?t1) g" for g :: "am_tx \<Rightarrow> am_tx cpp"
    proof -
      obtain t2 where t2: "(if at_discarded t ! i then Inr t else at_markDiscarded i t) = Inr t2" using d by (cases "at_discarded t ! i") (auto simp: at_markDiscarded_def)
      then show ?thesis using t1 n[OF t2] by simp
    qed
    then have "at_discardBackward (rev [0..<Suc i]) main t = Inr t'" using p True t'(1) d by simp
    moreover have "at_marked m (Suc i) t t'" using at_marked_trans[OF m1 t'(3)] t'(4) by simp
    moreover have "\<forall>j. m \<le> j \<longrightarrow> j < Suc i \<longrightarrow> at_main u ss (b + j) = main" using t'(5) True by (metis less_antisym)
    ultimately show ?thesis using t' by (intro exI[of _ t'] exI[of _ m]) simp
  qed
qed

end
