(* ===== verification/Rlc_Am_Sender.thy ===== *)
theory Rlc_Am_Sender
  imports Rlc_Am_Window
begin

text \<open>
  The operations of the transmitting entity of RLC AM keep the invariant of \<open>Rlc_Am_Window\<close> and return: discarding, window commands,
  acknowledgements, moving the window, adding PDUs, timers.
\<close>

text \<open>What an operation leaves as it is; \<open>k\<close> bounds the window commands it issues.\<close>

definition at_kept :: "nat \<Rightarrow> am_tx \<Rightarrow> am_tx \<Rightarrow> bool" where
  "at_kept k t t' = (at_size t' = at_size t \<and> at_sduQueue t' = at_sduQueue t
     \<and> unat (md_mrwSeqNum (at_mrwDesc t')) \<le> unat (md_mrwSeqNum (at_mrwDesc t)) + k)"

lemma at_kept_refl [simp]: "at_kept k t t"
  by (simp add: at_kept_def)

lemma at_kept_trans: "at_kept k t t' \<Longrightarrow> at_kept l t' t'' \<Longrightarrow> at_kept (k + l) t t''"
  by (auto simp: at_kept_def)

text \<open>An operation returns, with the invariant.\<close>

definition at_goes :: "nat set \<Rightarrow> nat \<Rightarrow> am_sdu list \<Rightarrow> nat \<Rightarrow> nat \<Rightarrow> am_tx \<Rightarrow> am_tx cpp \<Rightarrow> bool" where
  "at_goes R u ss b k t m = (\<exists>t'. m = Inr t' \<and> at_inv R u ss b t' \<and> at_kept k t t')"

lemma at_goesI: "m = Inr t' \<Longrightarrow> at_inv R u ss b t' \<Longrightarrow> at_kept k t t' \<Longrightarrow> at_goes R u ss b k t m"
  by (auto simp: at_goes_def)

lemma at_goes_bind:
  assumes "at_goes R u ss b k t m" "\<And>t'. at_inv R u ss b t' \<Longrightarrow> at_kept k t t' \<Longrightarrow> at_goes R u ss b l t' (f t')"
  shows "at_goes R u ss b (k + l) t (cpp_bind m f)"
proof -
  obtain t' where t': "m = Inr t'" "at_inv R u ss b t'" "at_kept k t t'" using assms(1) by (auto simp: at_goes_def)
  then obtain t'' where "f t' = Inr t''" "at_inv R u ss b t''" "at_kept l t' t''" using assms(2) by (auto simp: at_goes_def)
  then show ?thesis using t' at_kept_trans by (auto simp: at_goes_def)
qed

section \<open>Sending down\<close>

lemma at_bufferPdu_core:
  assumes "at_core R u ss b N t" "at_pdu_ok R u ss p"
  shows "at_core R u ss b N (at_bufferPdu p t)"
  using assms by (auto simp: at_core_def at_bufferPdu_def at_ok_defs at_indicateNewData_def)

lemma at_bufferPdu_ok:
  assumes "at_inv R u ss b t" "at_pdu_ok R u ss p"
  shows "at_inv R u ss b (at_bufferPdu p t)" "at_kept 0 t (at_bufferPdu p t)"
  using assms at_bufferPdu_core by (auto simp: at_inv_def at_idle_def at_kept_def at_bufferPdu_def)

lemma at_emptyPdu_pdu_ok [simp]: "at_pdu_ok R u ss (at_emptyPdu p) = at_pdu_ok R u ss p"
proof -
  have "ap_amType (am_hdr (at_emptyPdu p)) = ap_amType (am_hdr p)" "ap_lastSn (am_hdr (at_emptyPdu p)) = ap_lastSn (am_hdr p)"
    by (simp_all add: at_emptyPdu_def)
  then show ?thesis unfolding at_pdu_ok_def by (simp only: am_norm_simps)
qed

lemma at_sendPdus_ok:
  assumes "at_inv R u ss b t" "at_pduBuffer t \<noteq> []"
  shows "at_goes R u ss b 0 t (at_sendPdus sz t)"
proof -
  obtain p ps where q: "at_pduBuffer t = p # ps" using assms(2) by (cases "at_pduBuffer t") auto
  show ?thesis using assms(1) unfolding at_goes_def
    by (auto simp: at_sendPdus_def q Let_def at_inv_def at_core_def at_idle_def at_ok_defs at_kept_def at_indicateNewData_def split: list.splits)
qed

section \<open>Window commands\<close>

lemma at_sendMrw_ok:
  assumes "at_inv R u ss b t" "am_clean R u ss m" "at_lteInfo t \<noteq> None" "unat (md_mrwSeqNum (at_mrwDesc t)) < 2 ^ 31"
  shows "at_goes R u ss b 1 t (at_sendMrw now (of_nat m) t)"
proof -
  let ?m = "md_mrwSeqNum (at_mrwDesc t)"
  obtain info where info: "at_lteInfo t = Some info" using assms(3) by auto
  let ?p = "\<lparr>am_hdr = am_newPdu\<lparr>ap_amType := Am_Mrw, ap_totalFragments := 1, ap_snoFragment := ?m, ap_snoMainPacket := ?m,
    ap_bits := 8 * fd_fragUnit (at_fragDesc t), ap_firstSn := 0, ap_lastSn := of_nat m\<rparr>, am_data = [], am_tag = info\<rparr>"
  have mrw: "at_mrw_ok R u ss t" using assms(1) by (simp add: at_inv_def at_core_def)
  have sm: "sint ?m = int (unat ?m)" using assms(4) rw_index_nat[of "unat ?m" "\<lparr>rw_firstSeqNum = 0, rw_seqNum = 0, rw_windowSize = 0\<rparr>"]
    by (simp add: rw_index_def)
  have free: "ca_get (unat ?m) (at_mrwRtxQueue t) = None" using mrw unfolding at_mrw_ok_def by (metis less_irrefl not_None_eq)
  then have "mt_deadlines (at_mrwTimer t) ?m = None" using mrw sm unfolding at_mrw_ok_def by (metis ca_int(1))
  then obtain tm where tm: "mt_add now (at_ctrlPduRtxTimeout t) ?m (at_mrwTimer t) = Inr tm" "mt_ok tm"
    "mt_deadlines tm = (mt_deadlines (at_mrwTimer t))(?m \<mapsto> now + at_ctrlPduRtxTimeout t)"
    using mt.add_ok mrw unfolding at_mrw_ok_def by metis
  have pok: "at_pdu_ok R u ss ?p" using assms(2) by (auto simp: at_pdu_ok_def am_newPdu_def)
  have um: "unat (?m + 1) = unat ?m + 1" using assms(4) by (simp add: unat_word_ariths)
  let ?t = "t\<lparr>at_mrwRtxQueue := ca_set (unat ?m) (Some ?p) (at_mrwRtxQueue t), at_mrwTimer := tm, at_mrwDesc := \<lparr>md_mrwSeqNum = ?m + 1, md_lastMrw = ?m\<rparr>\<rparr>"
  have "ca_addAti (sint ?m) ?p (at_mrwRtxQueue t) = Inr (ca_set (unat ?m) (Some ?p) (at_mrwRtxQueue t))"
    unfolding sm ca_int using free by simp
  then have e: "at_sendMrw now (of_nat m) t = Inr (at_bufferPdu ?p ?t)"
    using info tm(1) by (simp add: at_sendMrw_def Let_def)
  have "at_mrw_ok R u ss ?t"
  proof -
    have "ca_geti (sint sn) (ca_set (unat ?m) (Some ?p) (at_mrwRtxQueue t)) \<noteq> None" if "mt_deadlines tm sn \<noteq> None" for sn
    proof (cases "sn = ?m")
      case True
      then show ?thesis unfolding True sm ca_int by simp
    next
      case False
      then have "ca_geti (sint sn) (at_mrwRtxQueue t) \<noteq> None" using mrw that tm(3) by (simp add: at_mrw_ok_def)
      then show ?thesis by (auto simp: ca_geti_def split: if_splits)
    qed
    moreover have "k < unat ?m + 1 \<and> ap_amType (am_hdr p) = Am_Mrw \<and> at_pdu_ok R u ss p"
      if "ca_get k (ca_set (unat ?m) (Some ?p) (at_mrwRtxQueue t)) = Some p" for k p
    proof (cases "k = unat ?m")
      case True
      then have "p = ?p" using that by simp
      then show ?thesis using True pok by (simp add: am_newPdu_def)
    next
      case False
      then show ?thesis using that mrw by (auto simp: at_mrw_ok_def less_Suc_eq)
    qed
    ultimately show ?thesis using tm(2) by (simp add: at_mrw_ok_def um)
  qed
  then have "at_inv R u ss b ?t" using assms(1)
    by (simp add: at_inv_def at_core_def at_idle_def at_store_ok_def at_flags_ok_def at_flag_def at_sent_ok_def at_queue_ok_def)
  then have "at_inv R u ss b (at_bufferPdu ?p ?t)" by (rule at_bufferPdu_ok(1)[OF _ pok])
  moreover have "at_kept 1 t (at_bufferPdu ?p ?t)" using um by (simp add: at_kept_def at_bufferPdu_def)
  ultimately show ?thesis using e by (intro at_goesI[OF e])
qed

text \<open>The scan for flagged PDUs at the beginning of the window.\<close>

lemma at_checkLoop_ok:
  assumes "n \<le> length (at_received t)" "n \<le> length (at_discarded t)" "i \<le> n"
  shows "\<exists>m. i \<le> m \<and> m \<le> n \<and> (\<forall>j. i \<le> j \<longrightarrow> j < m \<longrightarrow> at_flag t j) \<and> (m < n \<longrightarrow> \<not> at_flag t m)
    \<and> at_checkLoop [i..<n] t l = Inr (if m = i then l else Some (m - 1))"
  using assms
proof (induction "n - i" arbitrary: i l)
  case 0
  then show ?case by (intro exI[of _ i]) simp
next
  case (Suc k)
  then have i: "i < n" and e: "[i..<n] = i # [Suc i..<n]" by (simp_all add: upt_conv_Cons)
  have v: "vec_at (at_discarded t) i = Inr (at_discarded t ! i)" "vec_at (at_received t) i = Inr (at_received t ! i)" using Suc.prems i by simp_all
  show ?case
  proof (cases "at_flag t i")
    case False
    then show ?thesis using e v i by (intro exI[of _ i]) (simp add: at_flag_def)
  next
    case True
    have "k = n - Suc i" "Suc i \<le> n" using Suc.hyps(2) i by simp_all
    from Suc.hyps(1)[OF this(1) Suc.prems(1,2) this(2), of "Some i"]
    obtain m where m: "Suc i \<le> m" "m \<le> n" "\<forall>j. Suc i \<le> j \<longrightarrow> j < m \<longrightarrow> at_flag t j" "m < n \<longrightarrow> \<not> at_flag t m"
      "at_checkLoop [Suc i..<n] t (Some i) = Inr (if m = Suc i then Some i else Some (m - 1))" by blast
    have "at_checkLoop [i..<n] t l = at_checkLoop [Suc i..<n] t (Some i)" using e v True by (auto simp: at_flag_def)
    moreover have "\<forall>j. i \<le> j \<longrightarrow> j < m \<longrightarrow> at_flag t j" using m(3) True by (metis le_antisym not_less_eq_eq)
    ultimately show ?thesis using m by (intro exI[of _ m]) auto
  qed
qed

text \<open>Behind a run of flags nothing is open.\<close>

lemma at_flags_clean:
  assumes "at_inv R u ss b t" "m \<le> length (am_stream u ss) - b" "\<forall>j < m. at_flag t j" "m < length (am_stream u ss) - b \<longrightarrow> \<not> at_flag t m"
  shows "am_clean R u ss (b + m)"
proof -
  let ?N = "length (am_stream u ss)"
  have f: "at_flags_ok R u ss b ?N t" and b: "b \<le> ?N" using assms(1) by (simp_all add: at_inv_def at_core_def at_store_ok_def)
  have "k \<in> R \<or> am_end u ss k \<le> b + m" if k: "k < b + m" for k
  proof (cases "k < b")
    case True
    then show ?thesis using f by (auto simp: at_flags_ok_def am_clean_def)
  next
    case False
    then have i: "k - b < ?N - b" "at_flag t (k - b)" "b + (k - b) = k" using k assms(2,3) by auto
    then consider "k \<in> R" | "\<forall>j < ?N - b. k - b < j \<longrightarrow> b + j < am_end u ss k \<longrightarrow> at_flag t j" and "am_end u ss k \<le> ?N"
      using f unfolding at_flags_ok_def by metis
    then show ?thesis
    proof cases
      case 2
      show ?thesis
      proof (rule ccontr)
        assume "\<not> (k \<in> R \<or> am_end u ss k \<le> b + m)"
        then have "b + m < am_end u ss k" by simp
        then have "m < ?N - b" "at_flag t m" using 2 k False by auto
        then show False using assms(4) by simp
      qed
    qed simp
  qed
  then show ?thesis using assms(2) b by (simp add: am_clean_def)
qed

lemma at_checkForMrw_ok:
  assumes "at_inv R u ss b t" "unat (md_mrwSeqNum (at_mrwDesc t)) < 2 ^ 31"
  shows "at_goes R u ss b 1 t (at_checkForMrw now t)"
proof -
  let ?N = "length (am_stream u ss)"
  have s: "at_store_ok u ss b ?N t" using assms(1) by (simp add: at_inv_def at_core_def)
  then have "?N - b \<le> length (at_received t)" "?N - b \<le> length (at_discarded t)" by (simp_all add: at_store_ok_def)
  from at_checkLoop_ok[OF this, of 0 None] obtain m where m: "m \<le> ?N - b" "\<forall>j < m. at_flag t j" "m < ?N - b \<longrightarrow> \<not> at_flag t m"
    "at_checkLoop [0..<?N - b] t None = Inr (if m = 0 then None else Some (m - 1))" by auto
  show ?thesis
  proof (cases "m = 0")
    case True
    then show ?thesis using m(4) assms(1) at_store_used[OF s] by (intro at_goesI[of _ t]) (simp_all add: at_checkForMrw_def)
  next
    case False
    then have "at_checkForMrw now t = at_sendMrw now (at_first t + of_nat (m - 1) + 1) t"
      using m(4) at_store_used[OF s] by (simp add: at_checkForMrw_def)
    also have "at_first t + of_nat (m - 1) + 1 = of_nat (b + m)" using s False by (cases m) (simp_all add: at_store_ok_def)
    finally have e: "at_checkForMrw now t = at_sendMrw now (of_nat (b + m)) t" .
    have "at_lteInfo t \<noteq> None" using assms(1) m(1) False by (simp add: at_inv_def at_core_def at_queue_ok_def)
    then show ?thesis unfolding e using at_sendMrw_ok assms at_flags_clean[OF assms(1) m(1-3)] by blast
  qed
qed

section \<open>Discarding an SDU\<close>

lemma at_main_between:
  assumes "k < length (am_stream u ss)" "k \<le> j" "j < am_end u ss k"
  shows "at_main u ss j = at_main u ss k"
proof -
  have j: "j < length (am_stream u ss)" using assms am_ownerE(6)[OF assms(1)] by linarith
  have "am_owner u ss j = am_owner u ss k" using am_owner_between(1)[OF assms(1) _ assms(3)] am_ownerE(2)[OF assms(1)] assms(2) by linarith
  then show ?thesis using am_ownerE(4)[OF assms(1)] am_ownerE(4)[OF j] by (simp add: at_main_def)
qed

text \<open>Marking a run that ends with its SDU keeps the invariant.\<close>

lemma at_marked_inv:
  assumes inv: "at_store_ok u ss b (length (am_stream u ss)) t'" "at_marked i m t t'" "m \<le> length (am_stream u ss) - b"
    and rest: "at_flags_ok R u ss b (length (am_stream u ss)) t" "at_sent_ok R u ss t" "at_mrw_ok R u ss t"
      "at_queue_ok u b (length (am_stream u ss)) t" "at_idle t"
    and main: "\<forall>j. i \<le> j \<longrightarrow> j < m \<longrightarrow> at_main u ss (b + j) = main"
      "m < length (am_stream u ss) - b \<longrightarrow> at_main u ss (b + m) \<noteq> main"
  shows "at_inv R u ss b t'" "at_kept 0 t t'"
proof -
  let ?n = "length (am_stream u ss) - b"
  obtain tm ds where t': "t' = t\<lparr>at_pduTimer := tm, at_discarded := ds\<rparr>" and
    ds: "length ds = length (at_discarded t)" "\<forall>j < length ds. ds ! j = (at_discarded t ! j \<or> i \<le> j \<and> j < m)"
    using assms(2) by (auto simp: at_marked_def)
  have ld: "?n \<le> length ds" using inv(1) t' by (simp add: at_store_ok_def)
  then have flag: "at_flag t' j = (at_flag t j \<or> i \<le> j \<and> j < m)" if "j < ?n" for j using that ds by (auto simp: at_flag_def t')
  have "am_end u ss (b + j) \<le> length (am_stream u ss) \<and> (b + j \<in> R \<or> (\<forall>l < ?n. j < l \<longrightarrow> b + l < am_end u ss (b + j) \<longrightarrow> at_flag t' l))"
    if j: "j < ?n" "at_flag t' j" for j
  proof (cases "at_flag t j")
    case True
    then show ?thesis using rest(1) j(1) flag unfolding at_flags_ok_def by blast
  next
    case False
    then have r: "i \<le> j" "j < m" using flag j by auto
    have k: "b + j < length (am_stream u ss)" using j by simp
    have "at_flag t' l" if l: "l < ?n" "j < l" "b + l < am_end u ss (b + j)" for l
    proof (cases "l < m")
      case True
      then show ?thesis using flag l r by simp
    next
      case False
      then have "at_main u ss (b + m) = at_main u ss (b + j)" using r l by (intro at_main_between[OF k]) auto
      then show ?thesis using main r l False by auto
    qed
    then show ?thesis using am_ownerE(6)[OF k] by blast
  qed
  then have "at_flags_ok R u ss b (length (am_stream u ss)) t'" using rest(1) by (simp add: at_flags_ok_def)
  then show "at_inv R u ss b t'" using inv(1) rest(2-5) by (simp add: at_inv_def at_core_def at_idle_def at_sent_ok_def at_mrw_ok_def at_queue_ok_def t')
  show "at_kept 0 t t'" by (simp add: at_kept_def t')
qed

lemma at_discard_ok:
  assumes almost: "at_almost_ok u ss b (length (am_stream u ss)) i t" "i < length (am_stream u ss) - b"
    and rest: "at_flags_ok R u ss b (length (am_stream u ss)) t" "at_sent_ok R u ss t" "at_mrw_ok R u ss t"
      "at_queue_ok u b (length (am_stream u ss)) t" "at_idle t"
    and mrw: "unat (md_mrwSeqNum (at_mrwDesc t)) < 2 ^ 31"
  shows "at_goes R u ss b 1 t (at_discard now (am_num b i) t)"
proof -
  let ?N = "length (am_stream u ss)"
  obtain tm0 where s0: "at_store_ok u ss b ?N (t\<lparr>at_pduTimer := tm0\<rparr>)" using almost(1) by (auto simp: at_almost_ok_def)
  note s = s0[unfolded at_store_ok_def, simplified]
  have ix: "rw_index (am_num b i) (at_window t) = int i" using s almost(2) by (intro am_num_index) auto
  have "i < unat (at_size t)" using s almost(2) by simp
  then have size: "int i < uint (at_size t)" by (simp only: zless_nat_eq_int_zless unat_eq_nat_uint)
  have d: "i < length (at_discarded t)" using s almost(2) by simp
  obtain tm1 where t1: "cpp_bind (if at_discarded t ! i then Inr t else at_markDiscarded i t) (at_stopTimer (am_num b i))
      = Inr (t\<lparr>at_pduTimer := tm1, at_discarded := (at_discarded t)[i := True]\<rparr>)"
    and s1: "at_store_ok u ss b ?N (t\<lparr>at_pduTimer := tm1, at_discarded := (at_discarded t)[i := True]\<rparr>)"
    using at_discardPosition_ok[OF almost] by blast
  let ?t1 = "t\<lparr>at_pduTimer := tm1, at_discarded := (at_discarded t)[i := True]\<rparr>"
  obtain t0 where t0: "(if at_discarded t ! i then Inr t else at_markDiscarded i t) = Inr t0" "at_stopTimer (am_num b i) t0 = Inr ?t1"
    using t1 by (rule cpp_bindE)
  obtain p where p: "ca_get i (at_pduRtxQueue ?t1) = Some p" "ap_snoMainPacket (am_hdr p) = at_main u ss (b + i)"
    using at_store_get[OF s1 almost(2)] by metis
  have q0: "at_pduRtxQueue t0 = at_pduRtxQueue t" using t0(1) d by (auto simp: at_markDiscarded_def split: if_splits)
  let ?main = "at_main u ss (b + i)"
  obtain t2 m where t2: "at_discardForward [Suc i..<?N - b] ?main ?t1 = Inr t2" "at_store_ok u ss b ?N t2" "at_marked (Suc i) m ?t1 t2" "Suc i \<le> m"
    "m \<le> ?N - b" "\<forall>j. Suc i \<le> j \<longrightarrow> j < m \<longrightarrow> at_main u ss (b + j) = ?main" "m < ?N - b \<longrightarrow> at_main u ss (b + m) \<noteq> ?main"
    using at_discardForward_ok[OF s1 Suc_leI[OF almost(2)], of ?main] by blast
  obtain t3 l where t3: "at_discardBackward (rev [0..<i]) ?main t2 = Inr t3" "at_store_ok u ss b ?N t3" "at_marked l i t2 t3" "l \<le> i"
    "\<forall>j. l \<le> j \<longrightarrow> j < i \<longrightarrow> at_main u ss (b + j) = ?main" using at_discardBackward_ok[OF t2(2) less_imp_le[OF almost(2)], of ?main] by blast
  have m1: "at_marked i (Suc i) t ?t1" by (rule at_marked_one[OF d])
  have m2: "at_marked i m t t2" using at_marked_trans'[OF m1 t2(3)] t2(4) by simp
  have m3: "at_marked l m t t3" using at_marked_trans[OF m2 t3(3)] t2(4) t3(4) by simp
  have mains: "\<forall>j. l \<le> j \<longrightarrow> j < m \<longrightarrow> at_main u ss (b + j) = ?main"
  proof (intro allI impI)
    fix j assume j: "l \<le> j" "j < m"
    consider "j < i" | "j = i" | "Suc i \<le> j" by linarith
    then show "at_main u ss (b + j) = ?main" using j t2(6) t3(5) by cases auto
  qed
  have inv: "at_inv R u ss b t3" "at_kept 0 t t3"
    using at_marked_inv[OF t3(2) m3 t2(5) rest mains] t2(7) by simp_all
  have the: "ca_the i (at_pduRtxQueue t0) = Inr p" using p(1) q0 by simp
  have used: "at_used ?t1 = ?N - b" by (rule at_store_used[OF s1])
  have "at_discard now (am_num b i) t = cpp_bind (vec_at (at_discarded t) i) (\<lambda>d.
      cpp_bind (if d then Inr t else at_markDiscarded i t) (\<lambda>t1. cpp_bind (ca_the i (at_pduRtxQueue t1)) (\<lambda>p.
      cpp_bind (at_stopTimer (am_num b i) t1) (\<lambda>t2.
      cpp_bind (at_discardForward [i + 1..<at_used t2] (ap_snoMainPacket (am_hdr p)) t2) (\<lambda>t3.
      cpp_bind (at_discardBackward (rev [0..<i]) (ap_snoMainPacket (am_hdr p)) t3) (at_checkForMrw now))))))"
    unfolding at_discard_def ix Let_def nat_int using size by (simp del: upt.simps)
  also have "\<dots> = cpp_bind (if at_discarded t ! i then Inr t else at_markDiscarded i t) (\<lambda>t1. cpp_bind (ca_the i (at_pduRtxQueue t1)) (\<lambda>p.
      cpp_bind (at_stopTimer (am_num b i) t1) (\<lambda>t2.
      cpp_bind (at_discardForward [i + 1..<at_used t2] (ap_snoMainPacket (am_hdr p)) t2) (\<lambda>t3.
      cpp_bind (at_discardBackward (rev [0..<i]) (ap_snoMainPacket (am_hdr p)) t3) (at_checkForMrw now)))))"
    unfolding vec_at_ok[OF d] cpp_bind_simps ..
  also have "\<dots> = cpp_bind (at_discardForward [i + 1..<at_used ?t1] (ap_snoMainPacket (am_hdr p)) ?t1) (\<lambda>t3.
      cpp_bind (at_discardBackward (rev [0..<i]) (ap_snoMainPacket (am_hdr p)) t3) (at_checkForMrw now))"
    unfolding t0(1) cpp_bind_simps the t0(2) ..
  also have "\<dots> = at_checkForMrw now t3"
    unfolding used p(2) Suc_eq_plus1[symmetric] t2(1) cpp_bind_simps t3(1) ..
  finally have "at_discard now (am_num b i) t = at_checkForMrw now t3" .
  moreover have "unat (md_mrwSeqNum (at_mrwDesc t3)) < 2 ^ 31" using inv(2) mrw by (simp add: at_kept_def)
  ultimately show ?thesis using at_checkForMrw_ok[OF inv(1)] inv(2) at_kept_trans[of 0 t t3 1] by (auto simp: at_goes_def)
qed

section \<open>Acknowledgements\<close>

text \<open>Marking received positions, each for a reason.\<close>

lemma at_received_inv:
  assumes "at_inv R u ss b t" "at_store_ok u ss b (length (am_stream u ss)) (t\<lparr>at_pduTimer := tm, at_received := rs\<rparr>)"
    and "\<forall>j < length (am_stream u ss) - b. rs ! j = (at_received t ! j \<or> j \<in> J)"
    and "\<forall>j < length (am_stream u ss) - b. j \<in> J \<longrightarrow> b + j \<in> R \<or> (\<forall>l < length (am_stream u ss) - b. j < l \<longrightarrow> b + l < am_end u ss (b + j) \<longrightarrow> l \<in> J)"
  shows "at_inv R u ss b (t\<lparr>at_pduTimer := tm, at_received := rs\<rparr>)" "at_kept 0 t (t\<lparr>at_pduTimer := tm, at_received := rs\<rparr>)"
proof -
  let ?n = "length (am_stream u ss) - b" and ?t = "t\<lparr>at_pduTimer := tm, at_received := rs\<rparr>"
  have f: "at_flags_ok R u ss b (length (am_stream u ss)) t" using assms(1) by (simp add: at_inv_def at_core_def)
  have flag: "at_flag ?t j = (at_flag t j \<or> j \<in> J)" if "j < ?n" for j using that assms(3) by (auto simp: at_flag_def)
  have "am_end u ss (b + j) \<le> length (am_stream u ss) \<and> (b + j \<in> R \<or> (\<forall>l < ?n. j < l \<longrightarrow> b + l < am_end u ss (b + j) \<longrightarrow> at_flag ?t l))"
    if j: "j < ?n" "at_flag ?t j" for j
  proof (cases "at_flag t j")
    case True
    then show ?thesis using f j(1) flag unfolding at_flags_ok_def by blast
  next
    case False
    then have "j \<in> J" using flag j by simp
    moreover have "am_end u ss (b + j) \<le> length (am_stream u ss)" using j by (intro am_ownerE(6)) simp
    ultimately show ?thesis using assms(4) j(1) flag by blast
  qed
  then have "at_flags_ok R u ss b (length (am_stream u ss)) ?t" using f by (simp add: at_flags_ok_def)
  then show "at_inv R u ss b ?t" using assms(1,2) by (simp add: at_inv_def at_core_def at_idle_def at_sent_ok_def at_mrw_ok_def at_queue_ok_def)
  show "at_kept 0 t ?t" by (simp add: at_kept_def)
qed

lemma at_recvAck_ok:
  assumes "at_inv R u ss b t" "k \<in> R" "k < length (am_stream u ss)" "length (am_stream u ss) < 2 ^ 31"
  shows "at_goes R u ss b 0 t (at_recvAck (of_nat k) t)"
proof (cases "k < b")
  case True
  have s: "at_store_ok u ss b (length (am_stream u ss)) t" using assms(1) by (simp add: at_inv_def at_core_def)
  then have "rw_index (of_nat k) (at_window t) < 0" using True assms(4) by (intro rw_index_before[where b = b]) (simp_all add: at_store_ok_def)
  then show ?thesis using assms(1) by (intro at_goesI[of _ t]) (simp_all add: at_recvAck_def)
next
  case False
  let ?N = "length (am_stream u ss)"
  define i where "i = k - b"
  have s: "at_store_ok u ss b ?N t" using assms(1) by (simp add: at_inv_def at_core_def)
  note s' = s[unfolded at_store_ok_def]
  have i: "i < ?N - b" "(of_nat k :: 32 word) = am_num b i" using False assms(3) by (auto simp: i_def am_num_def)
  have ix: "rw_index (am_num b i) (at_window t) = int i" using s' i by (intro am_num_index) auto
  have "i < unat (at_size t)" using s' i by simp
  then have size: "int i < uint (at_size t)" by (simp only: zless_nat_eq_int_zless unat_eq_nat_uint)
  have l: "i < length (at_received t)" using s' i by simp
  show ?thesis
  proof (cases "at_received t ! i")
    case True
    then have "at_recvAck (of_nat k) t = Inr t" unfolding i(2) at_recvAck_def ix using size l by simp
    then show ?thesis using assms(1) by (intro at_goesI[of _ t]) simp_all
  next
    case nr: False
    obtain tm where tm: "at_markReceived i t = Inr (t\<lparr>at_pduTimer := tm, at_received := (at_received t)[i := True]\<rparr>)"
      "at_store_ok u ss b ?N (t\<lparr>at_pduTimer := tm, at_received := (at_received t)[i := True]\<rparr>)" using at_markReceived_ok[OF s i(1)] by blast
    have g: "ca_get i (at_pduRtxQueue t) \<noteq> None" by (rule at_store_get[OF s i(1)]) simp
    have "at_recvAck (of_nat k) t = Inr (t\<lparr>at_pduTimer := tm, at_received := (at_received t)[i := True]\<rparr>)"
      unfolding i(2) at_recvAck_def ix Let_def nat_int ca_int using size l tm(1) nr g by simp
    moreover have "\<forall>j < ?N - b. (at_received t)[i := True] ! j = (at_received t ! j \<or> j \<in> {i})" using l by (auto simp: nth_list_update)
    moreover have "\<forall>j < ?N - b. j \<in> {i} \<longrightarrow> b + j \<in> R \<or> (\<forall>l < ?N - b. j < l \<longrightarrow> b + l < am_end u ss (b + j) \<longrightarrow> l \<in> {i})"
      using assms(2) False by (simp add: i_def)
    ultimately show ?thesis using at_received_inv[OF assms(1) tm(2), of "{i}"] by (blast intro: at_goesI)
  qed
qed

lemma at_recvPositions_ok:
  assumes "at_store_ok u ss b N t" "m \<le> N - b"
  shows "\<exists>tm rs. cpp_fold at_recvPosition [0..<m] t = Inr (t\<lparr>at_pduTimer := tm, at_received := rs\<rparr>)
    \<and> at_store_ok u ss b N (t\<lparr>at_pduTimer := tm, at_received := rs\<rparr>) \<and> (\<forall>j < N - b. rs ! j = (at_received t ! j \<or> j \<in> {..<m}))"
proof -
  let ?P = "\<lambda>k t'. \<exists>tm rs. t' = t\<lparr>at_pduTimer := tm, at_received := rs\<rparr> \<and> at_store_ok u ss b N t' \<and> (\<forall>j < N - b. rs ! j = (at_received t ! j \<or> j < k))"
  have "\<exists>t'. cpp_fold at_recvPosition [0..<m] t = Inr t' \<and> ?P m t'"
  proof (rule cpp_fold_upt[where P = ?P])
    show "?P 0 t" using assms(1) by (intro exI[of _ "at_pduTimer t"] exI[of _ "at_received t"]) simp
  next
    fix k t' assume k: "0 \<le> k" "k < m" and P: "?P k t'"
    then obtain tm rs where t': "t' = t\<lparr>at_pduTimer := tm, at_received := rs\<rparr>" "at_store_ok u ss b N t'" "\<forall>j < N - b. rs ! j = (at_received t ! j \<or> j < k)" by blast
    have kn: "k < N - b" using k assms(2) by simp
    have l: "k < length rs" "N - b \<le> length rs" using t' kn by (simp_all add: at_store_ok_def)
    show "\<exists>t''. at_recvPosition k t' = Inr t'' \<and> ?P (Suc k) t''"
    proof (cases "rs ! k")
      case True
      then have "\<forall>j < N - b. rs ! j = (at_received t ! j \<or> j < Suc k)" using t'(3) kn by (auto simp: less_Suc_eq)
      then show ?thesis using True t' l by (auto simp: at_recvPosition_def)
    next
      case False
      obtain tm' where tm': "at_markReceived k t' = Inr (t'\<lparr>at_pduTimer := tm', at_received := rs[k := True]\<rparr>)"
        "at_store_ok u ss b N (t'\<lparr>at_pduTimer := tm', at_received := rs[k := True]\<rparr>)" using at_markReceived_ok[OF t'(2) kn] t'(1) by auto
      moreover have "\<forall>j < N - b. rs[k := True] ! j = (at_received t ! j \<or> j < Suc k)" using t'(3) l by (auto simp: nth_list_update less_Suc_eq)
      moreover have "t'\<lparr>at_pduTimer := tm', at_received := rs[k := True]\<rparr> = t\<lparr>at_pduTimer := tm', at_received := rs[k := True]\<rparr>" using t'(1) by simp
      ultimately show ?thesis using False t' l by (auto simp: at_recvPosition_def)
    qed
  qed simp
  then show ?thesis by auto
qed

text \<open>The cumulative part of an honest report: everything up to the number is received or lost with its SDU.\<close>

definition at_cum_ok :: "nat set \<Rightarrow> nat \<Rightarrow> am_sdu list \<Rightarrow> 32 word \<Rightarrow> bool" where
  "at_cum_ok R u ss sn = (sint sn < 0 \<or> (\<exists>c. sn = of_nat c \<and> am_clean R u ss (Suc c)))"

lemma at_recvCumulativeAck_ok:
  assumes "at_inv R u ss b t" "at_cum_ok R u ss sn" "length (am_stream u ss) < 2 ^ 31" "unat (md_mrwSeqNum (at_mrwDesc t)) < 2 ^ 31"
  shows "at_goes R u ss b 1 t (at_recvCumulativeAck now sn t)"
proof (cases "sn < at_first t \<or> sint sn < 0")
  case True
  then show ?thesis using assms(1) by (intro at_goesI[of _ t]) (simp_all add: at_recvCumulativeAck_def)
next
  case False
  let ?N = "length (am_stream u ss)"
  obtain c where c: "sn = of_nat c" "am_clean R u ss (Suc c)" using assms(2) False by (auto simp: at_cum_ok_def)
  have s: "at_store_ok u ss b ?N t" using assms(1) by (simp add: at_inv_def at_core_def)
  note s' = s[unfolded at_store_ok_def]
  have cN: "c < ?N" using c(2) by (simp add: am_clean_def)
  have uc: "unat (of_nat c :: 32 word) = c" "unat (of_nat b :: 32 word) = b" using cN s' assms(3) by (simp_all add: unsigned_of_nat take_bit_nat_eq_self)
  have bc: "b \<le> c" using False s' c(1) uc by (simp add: word_less_nat_alt)
  have W: "unat (of_nat b + at_size t) = b + unat (at_size t)" using s' assms(3) uc(2) by (simp add: unat_word_ariths)
  have "c \<le> b + unat (at_size t)" using s' cN by linarith
  then have le: "\<not> sn > at_first t + at_size t" using c(1) uc(1) W s' by (simp add: word_less_nat_alt)
  have "sn - at_first t = of_nat (c - b)" using c(1) s' bc by simp
  moreover have "unat (of_nat (c - b) :: 32 word) = c - b" using cN assms(3) by (simp add: unsigned_of_nat take_bit_nat_eq_self)
  ultimately have m: "unat (sn - at_first t) + 1 = Suc c - b" using bc by simp
  have mn: "Suc c - b \<le> ?N - b" using cN by simp
  obtain tm rs where t1: "cpp_fold at_recvPosition [0..<Suc c - b] t = Inr (t\<lparr>at_pduTimer := tm, at_received := rs\<rparr>)"
    "at_store_ok u ss b ?N (t\<lparr>at_pduTimer := tm, at_received := rs\<rparr>)" "\<forall>j < ?N - b. rs ! j = (at_received t ! j \<or> j \<in> {..<Suc c - b})"
    using at_recvPositions_ok[OF s mn] by blast
  have "b + j \<in> R \<or> (\<forall>l < ?N - b. j < l \<longrightarrow> b + l < am_end u ss (b + j) \<longrightarrow> l \<in> {..<Suc c - b})" if "j \<in> {..<Suc c - b}" for j
  proof -
    have "b + j < Suc c" using that by simp
    then consider "b + j \<in> R" | "am_end u ss (b + j) \<le> Suc c" using c(2) unfolding am_clean_def by blast
    then show ?thesis by cases auto
  qed
  then have inv: "at_inv R u ss b (t\<lparr>at_pduTimer := tm, at_received := rs\<rparr>)" using at_received_inv(1)[OF assms(1) t1(2,3)] by blast
  have e: "at_recvCumulativeAck now sn t = at_checkForMrw now (t\<lparr>at_pduTimer := tm, at_received := rs\<rparr>)"
    unfolding at_recvCumulativeAck_def m t1(1) cpp_bind_simps using False le by simp
  have "at_goes R u ss b 1 (t\<lparr>at_pduTimer := tm, at_received := rs\<rparr>) (at_recvCumulativeAck now sn t)"
    unfolding e using assms(4) by (intro at_checkForMrw_ok[OF inv]) simp
  then show ?thesis by (auto simp: at_goes_def at_kept_def)
qed

text \<open>The bits of an honest report.\<close>

definition at_bits_ok :: "nat set \<Rightarrow> nat \<Rightarrow> am_sdu list \<Rightarrow> bool list \<Rightarrow> 32 word \<Rightarrow> bool" where
  "at_bits_ok R u ss bs sn = (\<forall>i < length bs. bs ! i \<longrightarrow> (\<exists>k \<in> R. k < length (am_stream u ss) \<and> sn + of_nat i = of_nat k))"

lemma at_recvBitmap_ok:
  assumes "at_inv R u ss b t" "at_bits_ok R u ss bs sn" "length (am_stream u ss) < 2 ^ 31"
  shows "at_goes R u ss b 0 t (at_recvBitmap bs sn t)"
  using assms
proof (induction bs arbitrary: sn t)
  case Nil
  then show ?case by (intro at_goesI[of _ t]) simp_all
next
  case (Cons x bs)
  have "at_bits_ok R u ss bs (sn + 1)" unfolding at_bits_ok_def
  proof (intro allI impI)
    fix i assume "i < length bs" "bs ! i"
    then obtain k where "k \<in> R" "k < length (am_stream u ss)" "sn + of_nat (Suc i) = of_nat k"
      using Cons.prems(2) unfolding at_bits_ok_def by (metis Suc_less_eq length_Cons nth_Cons_Suc)
    then show "\<exists>k \<in> R. k < length (am_stream u ss) \<and> sn + 1 + of_nat i = of_nat k" by (intro bexI[of _ k]) (simp_all add: add.assoc)
  qed
  note rest = Cons.IH[OF _ this Cons.prems(3)]
  have "at_goes R u ss b 0 t (if x then at_recvAck sn t else Inr t)"
  proof (cases x)
    case True
    then obtain k where k: "k \<in> R" "k < length (am_stream u ss)" "sn = of_nat k" using Cons.prems(2) unfolding at_bits_ok_def by fastforce
    then show ?thesis using True at_recvAck_ok[OF Cons.prems(1) k(1,2) Cons.prems(3)] by simp
  next
    case False
    then show ?thesis using Cons.prems(1) by (intro at_goesI[of _ t]) simp_all
  qed
  from at_goes_bind[OF this rest] show ?case by simp
qed

end
