(* ===== verification/Rlc_Am_Sending.thy ===== *)
theory Rlc_Am_Sending
  imports Rlc_Am_Sender "HOL-Library.Multiset"
begin

text \<open>
  Adding PDUs, moving the window and the timers of the transmitting entity of RLC AM keep its invariant; with them every
  event does. An SDU taken from the queue goes into the stream or is lost, which the code does when it does not fit.
\<close>

section \<open>Fragmentation\<close>

lemma unat_num: "n < 2 ^ 32 \<Longrightarrow> unat (of_nat n :: 32 word) = n"
  by (simp add: unsigned_of_nat take_bit_nat_eq_self)

lemma am_frag_is_fragment:
  assumes "am_sdu_ok s" "0 < u" "j < am_len u s" "fd_totalFragments fd = am_len u s" "fd_fragUnit fd = u" "fd_firstSn fd = of_nat a"
  shows "at_fragment (am_sno s) s fd (j * u) (if j = fd_totalFragments fd - 1 then length (as_octets s) - j * u else fd_fragUnit fd) (of_nat (a + j)) = am_frag u a s j"
proof -
  have "take (length (as_octets s) - j * u) (drop (j * u) (as_octets s)) = take u (drop (j * u) (as_octets s))" if "j = am_len u s - 1"
  proof -
    have "length (as_octets s) \<le> (j + 1) * u" using am_len_pos[OF assms(1,2)] that by simp
    then have "length (as_octets s) - j * u \<le> u" by simp
    then show ?thesis by simp
  qed
  then show ?thesis using assms by (simp add: at_fragment_def am_frag_def)
qed

lemma at_fragmentLoop_ok:
  assumes "am_sdu_ok s" "0 < u" "j \<le> am_len u s" "fd_totalFragments fd = am_len u s" "fd_fragUnit fd = u" "fd_firstSn fd = of_nat a"
    and "rw_firstSeqNum w = of_nat b" "rw_seqNum w = of_nat (a + j)" "b \<le> a" "a + am_len u s - b \<le> 200"
  shows "at_fragmentLoop [j..<am_len u s] (am_sno s) s fd w (j * u)
    = Inr (map (am_frag u a s) [j..<am_len u s], map (\<lambda>k. int (a - b + k)) [j..<am_len u s])"
  using assms
proof (induction "am_len u s - j" arbitrary: j w)
  case 0
  then show ?case by simp
next
  case (Suc n)
  then have j: "j < am_len u s" and l: "[j..<am_len u s] = j # [Suc j..<am_len u s]" by (simp_all add: upt_conv_Cons)
  have "a + j = b + (a - b + j)" using Suc.prems(9) by simp
  then have "rw_seqNum w = am_num b (a - b + j)" unfolding am_num_def using Suc.prems(8) by simp
  then have ix: "rw_index (rw_seqNum w) w = int (a - b + j)" using am_num_index[OF Suc.prems(7), of "a - b + j"] Suc.prems(9,10) j by simp
  have small: "\<not> int (a - b + j) \<ge> 200" using Suc.prems(9,10) j by simp
  note fr = am_frag_is_fragment[OF Suc.prems(1,2) j Suc.prems(4,5,6)]
  have off: "at_fragmentLoop [Suc j..<am_len u s] (am_sno s) s fd (w\<lparr>rw_seqNum := rw_seqNum w + 1\<rparr>)
      (j * u + (if j = fd_totalFragments fd - 1 then length (as_octets s) - j * u else fd_fragUnit fd))
    = Inr (map (am_frag u a s) [Suc j..<am_len u s], map (\<lambda>k. int (a - b + k)) [Suc j..<am_len u s])"
  proof (cases "j = am_len u s - 1")
    case True
    then have e: "[Suc j..<am_len u s] = []" by simp
    show ?thesis unfolding e by simp
  next
    case False
    have "at_fragmentLoop [Suc j..<am_len u s] (am_sno s) s fd (w\<lparr>rw_seqNum := rw_seqNum w + 1\<rparr>) (Suc j * u)
      = Inr (map (am_frag u a s) [Suc j..<am_len u s], map (\<lambda>k. int (a - b + k)) [Suc j..<am_len u s])"
      using Suc.hyps(2) j Suc.prems by (intro Suc.hyps(1)) (auto simp: ac_simps)
    then show ?thesis using False Suc.prems(4,5) by (simp add: add.commute)
  qed
  show ?case using small off fr Suc.prems(8) unfolding l at_fragmentLoop.simps ix Let_def by simp
qed

section \<open>Adding PDUs\<close>

text \<open>In the middle of an SDU: \<open>j\<close> fragments of \<open>s\<close> are in the window.\<close>

definition at_mid :: "nat set \<Rightarrow> nat \<Rightarrow> am_sdu list \<Rightarrow> am_sdu \<Rightarrow> nat \<Rightarrow> nat \<Rightarrow> am_tx \<Rightarrow> bool" where
  "at_mid R u ss s j b t = (at_core R u (ss @ [s]) b (length (am_stream u ss) + j) t \<and> am_sdu_ok s \<and> j < am_len u s
     \<and> b \<le> length (am_stream u ss) \<and> length (am_stream u ss) + am_len u s < b + unat (at_size t)
     \<and> at_currentSdu t = Some s \<and> at_fragmentList t = Some (map (am_frag u (length (am_stream u ss)) s) [j..<am_len u s])
     \<and> at_txWindowIndexList t = map (\<lambda>k. int (length (am_stream u ss) - b + k)) [j..<am_len u s]
     \<and> fd_fragCounter (at_fragDesc t) = j \<and> fd_totalFragments (at_fragDesc t) = am_len u s \<and> at_lteInfo t \<noteq> None)"

definition at_same :: "am_tx \<Rightarrow> am_tx \<Rightarrow> bool" where
  "at_same t t' = (at_size t' = at_size t \<and> at_mrwDesc t' = at_mrwDesc t)"

lemma at_same_simps [simp]: "at_same t t" "at_same t t' \<Longrightarrow> at_same t' t'' \<Longrightarrow> at_same t t''"
  by (simp_all add: at_same_def)

lemma at_nextSdu_ok:
  assumes "at_inv R u ss b t" "at_sduQueue t = s # q" "b + 200 < 2 ^ 31"
  shows "\<exists>t'. at_nextSdu t = Inr t' \<and> at_same t t' \<and> at_sduQueue t' = q \<and>
    (at_inv R u ss b t' \<or> at_mid R u ss s 0 b t')"
proof -
  let ?N = "length (am_stream u ss)" and ?t1 = "t\<lparr>at_sduQueue := q\<rparr>"
  note inv = assms(1)[unfolded at_inv_def at_core_def]
  have st: "at_store_ok u ss b ?N t" using inv by simp
  note s' = st[unfolded at_store_ok_def]
  have ok: "am_sdu_ok s" and u: "0 < u" "fd_fragUnit (at_fragDesc t) = u" using inv assms(2) by (simp_all add: at_queue_ok_def)
  obtain os where pop: "am_popSdu (as_octets s) = Inr (am_sno s, os)" using am_sdu_okD[OF ok] by blast
  have inv1: "at_inv R u ss b ?t1" using assms(1,2)
    by (simp add: at_inv_def at_core_def at_idle_def at_store_ok_def at_flags_ok_def at_flag_def at_sent_ok_def at_mrw_ok_def at_queue_ok_def)
  have N: "?N \<le> b + unat (at_size t)" "unat (at_size t) \<le> 200" "b \<le> ?N" using s' by auto
  have len: "am_ceil (length (as_octets s)) (fd_fragUnit (at_fragDesc t)) = am_len u s" by (simp add: am_len_def u)
  have l31: "am_len u s < 2 ^ 31" using am_len_pos[OF ok u(1)] by blast
  have "at_seq t + of_nat (am_len u s) = of_nat (?N + am_len u s)" using s' by simp
  moreover have "?N + am_len u s < 2 ^ 32" using N assms(3) l31 by simp
  then have "unat (of_nat (?N + am_len u s) :: 32 word) = ?N + am_len u s" by (rule unat_num)
  ultimately have l: "unat (at_seq t + of_nat (am_len u s)) = ?N + am_len u s" by simp
  have "unat (of_nat b :: 32 word) = b" using assms(3) by (simp add: unsigned_of_nat take_bit_nat_eq_self)
  then have r: "unat (at_first t + at_size t) = b + unat (at_size t)" using s' assms(3) N by (simp add: unat_word_ariths)
  show ?thesis
  proof (cases "?N + am_len u s < b + unat (at_size t)")
    case False
    then have "at_nextSdu t = Inr ?t1" using pop u l r len assms(2) by (simp add: at_nextSdu_def Let_def word_less_nat_alt)
    then show ?thesis using inv1 by (intro exI[of _ ?t1]) (simp add: at_same_def)
  next
    case True
    let ?fd = "fd_start (length (as_octets s)) (at_seq t) (at_fragDesc t)"
    have fd: "fd_totalFragments ?fd = am_len u s" "fd_fragUnit ?fd = u" "fd_firstSn ?fd = of_nat ?N" "fd_fragCounter ?fd = 0"
      using u(2) s' by (simp_all add: fd_start_def am_len_def)
    have fl: "at_fragmentLoop [0..<am_len u s] (am_sno s) s ?fd (at_window t) (0 * u)
      = Inr (map (am_frag u ?N s) [0..<am_len u s], map (\<lambda>k. int (?N - b + k)) [0..<am_len u s])"
      using s' N True by (intro at_fragmentLoop_ok[OF ok u(1) _ fd(1-3)]) auto
    have "at_fragmentFrame s ?fd (at_window t) = Inr (map (am_frag u ?N s) [0..<am_len u s], map (\<lambda>k. int (?N - b + k)) [0..<am_len u s])"
      unfolding at_fragmentFrame_def pop cpp_bind_simps fd(1) using fl by simp
    then have e: "at_nextSdu t = Inr (?t1\<lparr>at_fragDesc := ?fd, at_currentSdu := Some s, at_fragmentList := Some (map (am_frag u ?N s) [0..<am_len u s]),
        at_txWindowIndexList := map (\<lambda>k. int (?N - b + k)) [0..<am_len u s], at_lteInfo := Some (as_tag s)\<rparr>)" (is "_ = Inr ?t2")
      using pop u l r len True assms(2) by (simp add: at_nextSdu_def Let_def word_less_nat_alt)
    have "at_core R u (ss @ [s]) b ?N ?t1" using inv1 at_core_mono[OF _ subset_refl, of R u ss b ?N ?t1 "[s]"] by (simp add: at_inv_def)
    then have "at_core R u (ss @ [s]) b ?N ?t2" using fd(2)
      by (simp add: at_core_def at_store_ok_def at_flags_ok_def at_flag_def at_sent_ok_def at_mrw_ok_def at_queue_ok_def del: am_stream_simps)
    then have "at_mid R u ss s 0 b ?t2" using ok am_len_pos[OF ok u(1)] True fd N(3) by (simp add: at_mid_def del: am_stream_simps)
    then show ?thesis using e by (intro exI[of _ ?t2]) (simp add: at_same_def)
  qed
qed

text \<open>A fragment goes into the first free position.\<close>

lemma at_storePdu_ok:
  assumes "at_store_ok u ss b N t" "N < length (am_stream u ss)" "N - b < unat (at_size t)" "am_norm p = am_stream u ss ! N"
  shows "\<exists>tm. at_storePdu now (int (N - b)) p t = Inr (t\<lparr>at_pduRtxQueue := ca_set (N - b) (Some p) (at_pduRtxQueue t), at_pduTimer := tm\<rparr>)
    \<and> at_timers_ok b (Suc N - b) (at_received t) (at_discarded t) tm"
proof -
  note s = assms(1)[unfolded at_store_ok_def]
  let ?n = "N - b"
  have n: "?n < 200" "b \<le> N" using s assms(3) by auto
  have get: "ca_get ?n (at_pduRtxQueue t) = None" using s by simp
  have flags: "?n < length (at_received t)" "\<not> at_received t ! ?n" "?n < length (at_discarded t)" "\<not> at_discarded t ! ?n" using s assms(3) by simp_all
  have seq: "at_seq t = am_num b ?n" using s n(2) by (simp add: am_num_def)
  have tok: "mt_ok (at_pduTimer t)" "dom (mt_deadlines (at_pduTimer t)) = am_num b ` {j. j < ?n \<and> \<not> at_received t ! j \<and> \<not> at_discarded t ! j}"
    using s by (simp_all add: at_timers_ok_def)
  have "am_num b ?n \<notin> am_num b ` {j. j < ?n \<and> \<not> at_received t ! j \<and> \<not> at_discarded t ! j}"
    using n(1) by (auto simp: am_num_inj)
  then have "mt_deadlines (at_pduTimer t) (am_num b ?n) = None" using tok(2) by auto
  then obtain tm where tm: "mt_add now (at_pduRtxTimeout t) (am_num b ?n) (at_pduTimer t) = Inr tm" "mt_ok tm"
    "mt_deadlines tm = (mt_deadlines (at_pduTimer t))(am_num b ?n \<mapsto> now + at_pduRtxTimeout t)" using mt.add_ok[OF tok(1)] by blast
  have "dom (mt_deadlines tm) = insert (am_num b ?n) (am_num b ` {j. j < ?n \<and> \<not> at_received t ! j \<and> \<not> at_discarded t ! j})"
    using tm(3) tok(2) by simp
  also have "\<dots> = am_num b ` {j. j < Suc N - b \<and> \<not> at_received t ! j \<and> \<not> at_discarded t ! j}"
  proof -
    have "{j. j < Suc N - b \<and> \<not> at_received t ! j \<and> \<not> at_discarded t ! j} = insert ?n {j. j < ?n \<and> \<not> at_received t ! j \<and> \<not> at_discarded t ! j}"
      using flags n(2) by (auto simp: Suc_diff_le less_Suc_eq)
    then show ?thesis by simp
  qed
  finally have "at_timers_ok b (Suc N - b) (at_received t) (at_discarded t) tm" using tm(2) by (simp add: at_timers_ok_def)
  moreover have "at_storePdu now (int ?n) p t = Inr (t\<lparr>at_pduRtxQueue := ca_set ?n (Some p) (at_pduRtxQueue t), at_pduTimer := tm\<rparr>)"
    unfolding at_storePdu_def ca_int seq using get flags n(1) tm(1) by simp
  ultimately show ?thesis by blast
qed

text \<open>The invariant with one more PDU.\<close>

lemma at_core_add:
  assumes "at_core R u ss b N t" "N < length (am_stream u ss)" "N - b < unat (at_size t)" "am_norm p = am_stream u ss ! N" "ap_amType (am_hdr p) = Am_Data"
    and "at_timers_ok b (Suc N - b) (at_received t) (at_discarded t) tm" "at_lteInfo t \<noteq> None"
  shows "at_core R u ss b (Suc N) (at_advance now p (t\<lparr>at_pduRtxQueue := ca_set (N - b) (Some p) (at_pduRtxQueue t), at_pduTimer := tm\<rparr>))"
proof -
  note c = assms(1)[unfolded at_core_def]
  have s: "at_store_ok u ss b N t" using c by simp
  note s' = s[unfolded at_store_ok_def]
  have bN: "b \<le> N" using s' by simp
  let ?q = "ca_set (N - b) (Some p) (at_pduRtxQueue t)" and ?w = "(at_window t)\<lparr>rw_seqNum := at_seq t + 1\<rparr>"
  let ?t = "t\<lparr>at_pduRtxQueue := ?q, at_pduTimer := tm, at_window := ?w,
    at_bufferStatusTimer := (case at_bufferStatusTimer t of None \<Rightarrow> Some (now + at_bufferStatusTimeout t) | Some x \<Rightarrow> Some x)\<rparr>"
  have "\<exists>q. ca_get i ?q = Some q \<and> am_norm q = am_stream u ss ! (b + i)" if "i < Suc N - b" for i
  proof (cases "i = N - b")
    case True
    then show ?thesis using assms(4) bN by simp
  next
    case False
    then have "i < N - b" using that by simp
    then show ?thesis using s' False by auto
  qed
  then have "at_store_ok u ss b (Suc N) ?t" using s' assms(2,3,6) bN by (simp add: at_store_ok_def Suc_diff_le)
  moreover have "at_flags_ok R u ss b (Suc N) ?t" unfolding at_flags_ok_def
  proof (intro conjI allI impI)
    show "am_clean R u ss b" using c by (simp add: at_flags_ok_def)
    fix i assume i: "i < Suc N - b" "at_flag ?t i"
    then have "i \<noteq> N - b" using s' assms(3) by (auto simp: at_flag_def)
    then have i': "i < N - b" "at_flag t i" using i by (auto simp: at_flag_def)
    then have f: "am_end u ss (b + i) \<le> N" "b + i \<in> R \<or> (\<forall>j < N - b. i < j \<longrightarrow> b + j < am_end u ss (b + i) \<longrightarrow> at_flag t j)"
      using c by (auto simp: at_flags_ok_def)
    show "am_end u ss (b + i) \<le> Suc N" using f(1) by simp
    show "b + i \<in> R \<or> (\<forall>j < Suc N - b. i < j \<longrightarrow> b + j < am_end u ss (b + i) \<longrightarrow> at_flag ?t j)"
    proof (rule disjE[OF f(2)])
      assume h: "\<forall>j < N - b. i < j \<longrightarrow> b + j < am_end u ss (b + i) \<longrightarrow> at_flag t j"
      have "at_flag ?t j" if "j < Suc N - b" "i < j" "b + j < am_end u ss (b + i)" for j
        using h that f(1) by (simp add: at_flag_def)
      then show ?thesis by blast
    qed simp
  qed
  moreover have "at_pdu_ok R u ss p" using assms(2,4,5) by (auto simp: at_pdu_ok_def)
  moreover have "at_advance now p (t\<lparr>at_pduRtxQueue := ?q, at_pduTimer := tm\<rparr>) = at_bufferPdu p ?t"
    by (cases "at_bufferStatusTimer t") (simp_all add: at_advance_def)
  ultimately show ?thesis using c assms(7)
    by (simp add: at_bufferPdu_core at_core_def[of R u ss b "Suc N" ?t] at_sent_ok_def at_mrw_ok_def at_queue_ok_def)
qed

lemma at_core_fragment:
  "at_core R u ss b N (t\<lparr>at_fragDesc := fd, at_fragmentList := x, at_txWindowIndexList := y, at_currentSdu := z\<rparr>) = at_core R u ss b N t"
  if "fd_fragUnit fd = fd_fragUnit (at_fragDesc t)"
  using that by (simp add: at_core_def at_store_ok_def at_flags_ok_def at_flag_def at_sent_ok_def at_mrw_ok_def at_queue_ok_def)

lemma at_addPdu_mid:
  assumes "at_mid R u ss s j b t"
  shows "\<exists>t'. at_addPdu now t = Inr (True, t') \<and> at_same t t' \<and> at_sduQueue t' = at_sduQueue t
    \<and> (at_inv R u (ss @ [s]) b t' \<or> at_mid R u ss s (Suc j) b t')"
proof -
  let ?a = "length (am_stream u ss)" and ?L = "am_len u s"
  note m = assms[unfolded at_mid_def]
  have core: "at_core R u (ss @ [s]) b (?a + j) t" and j: "j < ?L" using m by auto
  have st: "at_store_ok u (ss @ [s]) b (?a + j) t" using core by (simp add: at_core_def del: am_stream_simps)
  have ba: "b \<le> ?a" and room: "?a + ?L < b + unat (at_size t)" using m by auto
  have N: "?a + j - b = ?a - b + j" "?a + j < length (am_stream u (ss @ [s]))" "?a + j - b < unat (at_size t)" using ba room j by auto
  let ?p = "am_frag u ?a s j" and ?ps = "map (am_frag u ?a s) [Suc j..<?L]" and ?is = "map (\<lambda>k. int (?a - b + k)) [Suc j..<?L]"
  have p: "am_norm ?p = am_stream u (ss @ [s]) ! (?a + j)" using j by (simp add: nth_append)
  have l: "[j..<?L] = j # [Suc j..<?L]" using j by (simp add: upt_conv_Cons)
  have lists: "at_fragmentList t = Some (?p # ?ps)" "at_txWindowIndexList t = int (?a + j - b) # ?is"
    using m unfolding l N(1) by (simp_all del: upt.simps)
  let ?t1 = "t\<lparr>at_fragmentList := Some ?ps, at_txWindowIndexList := ?is\<rparr>"
  have core1: "at_core R u (ss @ [s]) b (?a + j) ?t1"
    using core at_core_fragment[where fd = "at_fragDesc t" and t = t and x = "Some ?ps" and y = ?is and z = "at_currentSdu t"] by simp
  then have st1: "at_store_ok u (ss @ [s]) b (?a + j) ?t1" by (simp add: at_core_def del: am_stream_simps)
  obtain tm where tm: "at_storePdu now (int (?a + j - b)) ?p ?t1
      = Inr (?t1\<lparr>at_pduRtxQueue := ca_set (?a + j - b) (Some ?p) (at_pduRtxQueue ?t1), at_pduTimer := tm\<rparr>)"
    "at_timers_ok b (Suc (?a + j) - b) (at_received ?t1) (at_discarded ?t1) tm"
    using at_storePdu_ok[OF st1 N(2) _ p, of now] N(3) by auto
  let ?t2 = "?t1\<lparr>at_pduRtxQueue := ca_set (?a + j - b) (Some ?p) (at_pduRtxQueue t), at_pduTimer := tm\<rparr>"
  have sno: "ap_snoFragment (am_hdr ?p) = at_seq t" using st by (simp add: at_store_ok_def)
  have e: "at_addPdu now t = Inr (True, at_advance now ?p (at_countFragment ?t2))"
  proof -
    have "at_currentSdu t = Some s" using m by simp
    then show ?thesis using lists sno tm(1) by (simp add: at_addPdu_def)
  qed
  let ?fd = "(at_fragDesc t)\<lparr>fd_fragCounter := Suc j\<rparr>"
  have cnt: "fd_fragCounter (at_fragDesc t) = j" "fd_totalFragments (at_fragDesc t) = ?L" using m by auto
  note add = at_core_add[OF _ N(2) _ p]
  show ?thesis
  proof (cases "Suc j < ?L")
    case True
    then have ne: "?ps \<noteq> []" by simp
    let ?t3 = "t\<lparr>at_fragDesc := ?fd, at_fragmentList := Some ?ps, at_txWindowIndexList := ?is, at_currentSdu := at_currentSdu t\<rparr>"
    have c3: "at_core R u (ss @ [s]) b (?a + j) ?t3" using core by (subst at_core_fragment) simp_all
    have "at_countFragment ?t2 = ?t3\<lparr>at_pduRtxQueue := ca_set (?a + j - b) (Some ?p) (at_pduRtxQueue ?t3), at_pduTimer := tm\<rparr>"
      using True ne cnt by (simp add: at_countFragment_def fd_addFragment_def Let_def)
    then have e3: "at_addPdu now t = Inr (True, at_advance now ?p (?t3\<lparr>at_pduRtxQueue := ca_set (?a + j - b) (Some ?p) (at_pduRtxQueue ?t3), at_pduTimer := tm\<rparr>))"
      using e by simp
    have "at_core R u (ss @ [s]) b (Suc (?a + j)) (at_advance now ?p (?t3\<lparr>at_pduRtxQueue := ca_set (?a + j - b) (Some ?p) (at_pduRtxQueue ?t3), at_pduTimer := tm\<rparr>))"
      using N(3) tm(2) m by (intro add[OF c3]) simp_all
    then have "at_mid R u ss s (Suc j) b (at_advance now ?p (?t3\<lparr>at_pduRtxQueue := ca_set (?a + j - b) (Some ?p) (at_pduRtxQueue ?t3), at_pduTimer := tm\<rparr>))"
      using m True by (simp add: at_mid_def at_advance_def at_bufferPdu_def del: am_stream_simps upt.simps)
    moreover have "at_same t (at_advance now ?p (?t3\<lparr>at_pduRtxQueue := ca_set (?a + j - b) (Some ?p) (at_pduRtxQueue ?t3), at_pduTimer := tm\<rparr>))"
      "at_sduQueue (at_advance now ?p (?t3\<lparr>at_pduRtxQueue := ca_set (?a + j - b) (Some ?p) (at_pduRtxQueue ?t3), at_pduTimer := tm\<rparr>)) = at_sduQueue t"
      by (simp_all add: at_same_def at_advance_def at_bufferPdu_def)
    ultimately show ?thesis using e3 by blast
  next
    case False
    then have L: "?L = Suc j" using j by simp
    then have ps: "?ps = []" by simp
    let ?t3 = "t\<lparr>at_fragDesc := fd_reset ?fd, at_fragmentList := None, at_txWindowIndexList := [], at_currentSdu := None\<rparr>"
    have c3: "at_core R u (ss @ [s]) b (?a + j) ?t3" using core by (subst at_core_fragment) (simp_all add: fd_reset_def)
    have "at_countFragment ?t2 = ?t3\<lparr>at_pduRtxQueue := ca_set (?a + j - b) (Some ?p) (at_pduRtxQueue ?t3), at_pduTimer := tm\<rparr>"
      using L ps cnt by (simp add: at_countFragment_def fd_addFragment_def Let_def)
    then have e3: "at_addPdu now t = Inr (True, at_advance now ?p (?t3\<lparr>at_pduRtxQueue := ca_set (?a + j - b) (Some ?p) (at_pduRtxQueue ?t3), at_pduTimer := tm\<rparr>))"
      using e by simp
    have "at_core R u (ss @ [s]) b (Suc (?a + j)) (at_advance now ?p (?t3\<lparr>at_pduRtxQueue := ca_set (?a + j - b) (Some ?p) (at_pduRtxQueue ?t3), at_pduTimer := tm\<rparr>))"
      using N(3) tm(2) m by (intro add[OF c3]) simp_all
    then have "at_inv R u (ss @ [s]) b (at_advance now ?p (?t3\<lparr>at_pduRtxQueue := ca_set (?a + j - b) (Some ?p) (at_pduRtxQueue ?t3), at_pduTimer := tm\<rparr>))"
      using L by (simp add: at_inv_def at_idle_def at_advance_def at_bufferPdu_def)
    moreover have "at_same t (at_advance now ?p (?t3\<lparr>at_pduRtxQueue := ca_set (?a + j - b) (Some ?p) (at_pduRtxQueue ?t3), at_pduTimer := tm\<rparr>))"
      "at_sduQueue (at_advance now ?p (?t3\<lparr>at_pduRtxQueue := ca_set (?a + j - b) (Some ?p) (at_pduRtxQueue ?t3), at_pduTimer := tm\<rparr>)) = at_sduQueue t"
      by (simp_all add: at_same_def at_advance_def at_bufferPdu_def)
    ultimately show ?thesis using e3 by blast
  qed
qed

text \<open>From an idle state a turn takes the next SDU, or the loop ends.\<close>

lemma at_addPdu_idle:
  assumes "at_inv R u ss b t" "b + 200 < 2 ^ 31"
  shows "(\<exists>t'. at_addPdu now t = Inr (False, t') \<and> at_same t t' \<and> at_inv R u ss b t' \<and> mset (at_sduQueue t') \<subseteq># mset (at_sduQueue t))
    \<or> (\<exists>t1 s. at_addPdu now t = at_addPdu now t1 \<and> at_same t t1 \<and> at_mid R u ss s 0 b t1 \<and> at_sduQueue t = s # at_sduQueue t1)"
proof (cases "at_sduQueue t")
  case Nil
  then have "at_addPdu now t = Inr (False, t)" using assms(1) by (simp add: at_addPdu_def at_inv_def at_idle_def)
  then show ?thesis using assms(1) by (intro disjI1 exI[of _ t]) simp
next
  case (Cons s q)
  obtain t1 where t1: "at_nextSdu t = Inr t1" "at_same t t1" "at_sduQueue t1 = q" "at_inv R u ss b t1 \<or> at_mid R u ss s 0 b t1"
    using at_nextSdu_ok[OF assms(1) Cons assms(2)] by blast
  have idle: "at_currentSdu t = None" using assms(1) by (simp add: at_inv_def at_idle_def)
  from t1(4) show ?thesis
  proof
    assume i: "at_inv R u ss b t1"
    then have "at_addPdu now t = Inr (False, t1)" using idle Cons t1(1) by (simp add: at_addPdu_def at_inv_def at_idle_def)
    then show ?thesis using t1 i Cons by (intro disjI1 exI[of _ t1]) simp
  next
    assume m: "at_mid R u ss s 0 b t1"
    then have "at_addPdu now t = at_addPdu now t1" using idle Cons t1(1) by (simp add: at_addPdu_def at_mid_def)
    then show ?thesis using t1 m Cons by (intro disjI2 exI[of _ t1] exI[of _ s]) simp
  qed
qed

definition at_ready :: "nat set \<Rightarrow> nat \<Rightarrow> am_sdu list \<Rightarrow> nat \<Rightarrow> am_tx \<Rightarrow> bool" where
  "at_ready R u ss b t = (at_inv R u ss b t \<or> (\<exists>ss' s j. ss = ss' @ [s] \<and> at_mid R u ss' s j b t))"

text \<open>The loop ends in an idle state; SDUs have gone from the queue to the stream, or have been lost.\<close>

definition at_adds :: "nat set \<Rightarrow> nat \<Rightarrow> am_sdu list \<Rightarrow> nat \<Rightarrow> am_tx \<Rightarrow> am_tx cpp \<Rightarrow> bool" where
  "at_adds R u ss b t m = (\<exists>t' ts. m = Inr t' \<and> at_inv R u (ss @ ts) b t' \<and> at_same t t' \<and> mset ts + mset (at_sduQueue t') \<subseteq># mset (at_sduQueue t))"

lemma at_addPdu_turn:
  assumes "at_ready R u ss b t" "b + 200 < 2 ^ 31"
  shows "(\<exists>t'. at_addPdu now t = Inr (False, t') \<and> at_same t t' \<and> at_inv R u ss b t' \<and> mset (at_sduQueue t') \<subseteq># mset (at_sduQueue t))
    \<or> (\<exists>t' ts. at_addPdu now t = Inr (True, t') \<and> at_same t t' \<and> at_ready R u (ss @ ts) b t' \<and> mset ts + mset (at_sduQueue t') \<subseteq># mset (at_sduQueue t))"
proof -
  have mid: "\<exists>t'. at_addPdu now t1 = Inr (True, t') \<and> at_same t1 t' \<and> at_ready R u (ss' @ [s]) b t' \<and> at_sduQueue t' = at_sduQueue t1"
    if "at_mid R u ss' s j b t1" for ss' s j t1 using at_addPdu_mid[OF that, of now] unfolding at_ready_def by blast
  from assms(1) consider "at_inv R u ss b t" | ss' s j where "ss = ss' @ [s]" "at_mid R u ss' s j b t" unfolding at_ready_def by blast
  then show ?thesis
  proof cases
    case 1
    from at_addPdu_idle[OF 1 assms(2), of now] show ?thesis
    proof
      assume "\<exists>t1 s. at_addPdu now t = at_addPdu now t1 \<and> at_same t t1 \<and> at_mid R u ss s 0 b t1 \<and> at_sduQueue t = s # at_sduQueue t1"
      then obtain t1 s where t1: "at_addPdu now t = at_addPdu now t1" "at_same t t1" "at_mid R u ss s 0 b t1" "at_sduQueue t = s # at_sduQueue t1" by blast
      obtain t' where t': "at_addPdu now t1 = Inr (True, t')" "at_same t1 t'" "at_ready R u (ss @ [s]) b t'" "at_sduQueue t' = at_sduQueue t1"
        using mid[OF t1(3)] by blast
      have "mset [s] + mset (at_sduQueue t') \<subseteq># mset (at_sduQueue t)" using t1(4) t'(4) by simp
      then show ?thesis using t1(1,2) t' at_same_simps(2)[OF t1(2) t'(2)] by (intro disjI2 exI[of _ t'] exI[of _ "[s]"]) simp
    qed simp
  next
    case 2
    obtain t' where t': "at_addPdu now t = Inr (True, t')" "at_same t t'" "at_ready R u ss b t'" "at_sduQueue t' = at_sduQueue t"
      using mid[OF 2(2)] 2(1) by blast
    then show ?thesis by (intro disjI2 exI[of _ t'] exI[of _ "[]"]) simp
  qed
qed

lemma at_ready_room:
  assumes "at_ready R u ss b t" "\<not> at_seq t - at_first t < at_size t"
  shows "at_inv R u ss b t"
proof (rule ccontr)
  assume "\<not> at_inv R u ss b t"
  then obtain ss' s j where m: "at_mid R u ss' s j b t" using assms(1) by (auto simp: at_ready_def)
  then have s: "at_store_ok u (ss' @ [s]) b (length (am_stream u ss') + j) t" by (simp add: at_mid_def at_core_def del: am_stream_simps)
  have "at_used t = length (am_stream u ss') + j - b" by (rule at_store_used[OF s])
  moreover have "length (am_stream u ss') + j - b < unat (at_size t)" using m by (auto simp: at_mid_def)
  ultimately show False using assms(2) by (simp add: rw_used_def word_less_nat_alt)
qed

lemma at_addLoop_ok:
  assumes "at_ready R u ss b t" "b + 200 < 2 ^ 31"
  shows "at_adds R u ss b t (at_addLoop now t)"
  using assms
proof (induction now t arbitrary: ss rule: at_addLoop.induct)
  case (1 now t)
  show ?case
  proof (cases "at_seq t - at_first t < at_size t")
    case False
    then show ?thesis using at_ready_room[OF "1.prems"(1)] unfolding at_adds_def
      by (intro exI[of _ t] exI[of _ "[]"]) (simp add: at_addLoop.simps)
  next
    case True
    from at_addPdu_turn[OF "1.prems", of now] show ?thesis
    proof
      assume "\<exists>t'. at_addPdu now t = Inr (False, t') \<and> at_same t t' \<and> at_inv R u ss b t' \<and> mset (at_sduQueue t') \<subseteq># mset (at_sduQueue t)"
      then obtain t' where t': "at_addPdu now t = Inr (False, t')" "at_same t t'" "at_inv R u ss b t'" "mset (at_sduQueue t') \<subseteq># mset (at_sduQueue t)" by blast
      then have "at_addLoop now t = Inr t'" using True by (simp add: at_addLoop.simps)
      then show ?thesis using t' unfolding at_adds_def by (intro exI[of _ t'] exI[of _ "[]"]) simp
    next
      assume "\<exists>t' ts. at_addPdu now t = Inr (True, t') \<and> at_same t t' \<and> at_ready R u (ss @ ts) b t' \<and> mset ts + mset (at_sduQueue t') \<subseteq># mset (at_sduQueue t)"
      then obtain t' ts where t': "at_addPdu now t = Inr (True, t')" "at_same t t'" "at_ready R u (ss @ ts) b t'"
        "mset ts + mset (at_sduQueue t') \<subseteq># mset (at_sduQueue t)" by blast
      from "1.IH"[OF True t'(1) refl _ t'(3) "1.prems"(2)] obtain t'' ts' where t'': "at_addLoop now t' = Inr t''" "at_inv R u ((ss @ ts) @ ts') b t''"
        "at_same t' t''" "mset ts' + mset (at_sduQueue t'') \<subseteq># mset (at_sduQueue t')" by (auto simp: at_adds_def)
      have "at_addLoop now t = Inr t''" using True t'(1) t''(1) by (simp add: at_addLoop.simps[of now t])
      moreover have "mset (ts @ ts') + mset (at_sduQueue t'') \<subseteq># mset (at_sduQueue t)"
        using t'(4) t''(4) by (simp add: add.assoc) (meson subset_mset.add_left_mono subset_mset.order_trans)
      ultimately show ?thesis using t''(2) at_same_simps(2)[OF t'(2) t''(3)] unfolding at_adds_def by (intro exI[of _ t''] exI[of _ "ts @ ts'"]) simp
    qed
  qed
qed

lemma at_addPdus_ok:
  assumes "at_inv R u ss b t" "b + 200 < 2 ^ 31"
  shows "at_adds R u ss b t (at_addPdus now t)"
proof -
  obtain t' ts where t': "at_addLoop now t = Inr t'" "at_inv R u (ss @ ts) b t'" "at_same t t'" "mset ts + mset (at_sduQueue t') \<subseteq># mset (at_sduQueue t)"
    using at_addLoop_ok[of R u ss b t now] assms by (auto simp: at_ready_def at_adds_def)
  then have "at_addPdus now t = Inr t'" by (simp add: at_addPdus_def at_inv_def at_idle_def)
  then show ?thesis using t' by (auto simp: at_adds_def)
qed

end
