(* ===== verification/Rlc_Am_Transmitter.thy ===== *)
theory Rlc_Am_Transmitter
  imports Rlc_Am_Sending
begin

text \<open>
  The remaining events of the transmitting entity of RLC AM - new SDUs, control PDUs that move the window, timers - and the
  invariant over all events.
\<close>

text \<open>What every event does: the base of the window and the stream grow, SDUs leave the queue for the stream or are lost.\<close>

definition at_grows :: "nat set \<Rightarrow> nat \<Rightarrow> am_sdu list \<Rightarrow> nat \<Rightarrow> nat \<Rightarrow> am_tx \<Rightarrow> am_sdu multiset \<Rightarrow> am_tx cpp \<Rightarrow> bool" where
  "at_grows R u ss b c t M m = (\<exists>t' ts b'. m = Inr t' \<and> at_inv R u (ss @ ts) b' t' \<and> b \<le> b' \<and> b' \<le> max b c \<and> b' \<le> length (am_stream u ss) \<and> am_clean R u ss b'
     \<and> at_size t' = at_size t
     \<and> unat (md_mrwSeqNum (at_mrwDesc t')) \<le> Suc (unat (md_mrwSeqNum (at_mrwDesc t)))
     \<and> mset ts + mset (at_sduQueue t') \<subseteq># mset (at_sduQueue t) + M)"

lemma at_inv_base: "at_inv R u ss b t \<Longrightarrow> b \<le> length (am_stream u ss) \<and> am_clean R u ss b"
  by (simp add: at_inv_def at_core_def at_store_ok_def at_flags_ok_def)

lemma at_goes_grows:
  assumes "at_goes R u ss b 1 t m" "at_inv R u ss b t"
  shows "at_grows R u ss b c t {#} m"
proof -
  obtain t' where t': "m = Inr t'" "at_inv R u ss b t'" "at_kept 1 t t'" using assms(1) by (auto simp: at_goes_def)
  then show ?thesis using at_inv_base[OF assms(2)] unfolding at_grows_def
    by (intro exI[of _ t'] exI[of _ "[]"] exI[of _ b]) (simp add: at_kept_def)
qed

lemma at_goes_Suc: "at_goes R u ss b k t m \<Longrightarrow> k \<le> l \<Longrightarrow> at_goes R u ss b l t m"
  by (auto simp: at_goes_def at_kept_def)

section \<open>New SDUs\<close>

lemma at_enque_ok:
  assumes "at_inv R u ss b t" "am_sdu_ok s" "b + 200 < 2 ^ 31"
  shows "at_grows R u ss b c t {#s#} (at_enque now s t)"
proof -
  let ?t = "t\<lparr>at_sduQueue := at_sduQueue t @ [s]\<rparr>"
  obtain os where pop: "am_popSdu (as_octets s) = Inr (am_sno s, os)" using am_sdu_okD[OF assms(2)] by blast
  have inv: "at_inv R u ss b ?t" using assms(1,2)
    by (auto simp: at_inv_def at_core_def at_idle_def at_store_ok_def at_flags_ok_def at_flag_def at_sent_ok_def at_mrw_ok_def at_queue_ok_def)
  note base = at_inv_base[OF assms(1)]
  show ?thesis
  proof (cases "at_seq t - at_first t < at_size t")
    case True
    then have e: "at_enque now s t = at_addPdus now ?t" using pop inv by (simp add: at_enque_def at_inv_def at_idle_def)
    obtain t' ts where t': "at_addPdus now ?t = Inr t'" "at_inv R u (ss @ ts) b t'" "at_same ?t t'" "mset ts + mset (at_sduQueue t') \<subseteq># mset (at_sduQueue ?t)"
      using at_addPdus_ok[OF inv assms(3), of now] by (auto simp: at_adds_def)
    then show ?thesis using base unfolding at_grows_def e by (intro exI[of _ t'] exI[of _ ts] exI[of _ b]) (simp add: at_same_def)
  next
    case False
    then have "at_enque now s t = Inr ?t" using pop by (simp add: at_enque_def)
    then show ?thesis using base inv unfolding at_grows_def by (intro exI[of _ ?t] exI[of _ "[]"] exI[of _ b]) simp
  qed
qed

section \<open>Moving the window\<close>

text \<open>The loops over positions, as updates of the buffer and the flags.\<close>

lemma at_clearFlags_ok: "i < length (at_received t) \<Longrightarrow> i < length (at_discarded t) \<Longrightarrow>
    at_clearFlags i t = Inr (t\<lparr>at_received := (at_received t)[i := False], at_discarded := (at_discarded t)[i := False]\<rparr>)"
  by (simp add: at_clearFlags_def)

definition at_dropped :: "nat \<Rightarrow> nat \<Rightarrow> am_tx \<Rightarrow> am_tx \<Rightarrow> bool" where
  "at_dropped b k t t' = (\<exists>q tm rs ds. t' = t\<lparr>at_pduRtxQueue := q, at_pduTimer := tm, at_received := rs, at_discarded := ds\<rparr>
     \<and> length rs = length (at_received t) \<and> length ds = length (at_discarded t)
     \<and> (\<forall>j. ca_get j q = (if j < k then None else ca_get j (at_pduRtxQueue t)))
     \<and> (\<forall>j < length rs. rs ! j = (\<not> j < k \<and> at_received t ! j)) \<and> (\<forall>j < length ds. ds ! j = (\<not> j < k \<and> at_discarded t ! j))
     \<and> mt_ok tm \<and> dom (mt_deadlines tm) = dom (mt_deadlines (at_pduTimer t)) - am_num b ` {..<k})"

lemma at_dropPositions_ok:
  assumes "at_store_ok u ss b N t" "pos \<le> N - b"
  shows "\<exists>t'. cpp_fold at_dropPosition [0..<pos] t = Inr t' \<and> at_dropped b pos t t'"
proof (rule cpp_fold_upt[where P = "\<lambda>k. at_dropped b k t"])
  note s = assms(1)[unfolded at_store_ok_def]
  have "mt_ok (at_pduTimer t)" using s by (simp add: at_timers_ok_def)
  then show "at_dropped b 0 t t" unfolding at_dropped_def
    by (intro exI[of _ "at_pduRtxQueue t"] exI[of _ "at_pduTimer t"] exI[of _ "at_received t"] exI[of _ "at_discarded t"]) simp
  fix k t' assume k: "0 \<le> k" "k < pos" and "at_dropped b k t t'"
  then obtain q tm rs ds where t': "t' = t\<lparr>at_pduRtxQueue := q, at_pduTimer := tm, at_received := rs, at_discarded := ds\<rparr>"
    and l: "length rs = length (at_received t)" "length ds = length (at_discarded t)"
    and q: "\<forall>j. ca_get j q = (if j < k then None else ca_get j (at_pduRtxQueue t))"
    and rs: "\<forall>j < length rs. rs ! j = (\<not> j < k \<and> at_received t ! j)" and ds: "\<forall>j < length ds. ds ! j = (\<not> j < k \<and> at_discarded t ! j)"
    and tm: "mt_ok tm" "dom (mt_deadlines tm) = dom (mt_deadlines (at_pduTimer t)) - am_num b ` {..<k}"
    unfolding at_dropped_def by (elim exE conjE) (rule that; assumption)
  have kn: "k < N - b" using k assms(2) by simp
  then obtain p where p: "ca_get k q = Some p" using at_store_get[OF assms(1) kn] q by auto
  have lk: "k < length rs" "k < length ds" using l s kn by simp_all
  let ?t = "t'\<lparr>at_pduRtxQueue := ca_remove k q\<rparr>"
  obtain tm' where tm': "at_stopTimer (am_num b k) ?t = Inr (?t\<lparr>at_pduTimer := tm'\<rparr>)" "mt_ok tm'" "mt_deadlines tm' = (mt_deadlines tm)(am_num b k := None)"
    using at_stopTimer_ok[of ?t "am_num b k"] tm(1) by (auto simp: t')
  have num: "of_nat k + at_first t' = am_num b k" using at_store_num[OF assms(1), of k] by (simp add: t')
  let ?t'' = "t\<lparr>at_pduRtxQueue := ca_remove k q, at_pduTimer := tm', at_received := rs[k := False], at_discarded := ds[k := False]\<rparr>"
  have "at_dropPosition k t' = Inr ?t''" using p tm'(1) num lk by (simp add: at_dropPosition_def t' at_clearFlags_def)
  moreover have "at_dropped b (Suc k) t ?t''" unfolding at_dropped_def
  proof (intro exI conjI)
    show "\<forall>j. ca_get j (ca_remove k q) = (if j < Suc k then None else ca_get j (at_pduRtxQueue t))" using q by (auto simp: less_Suc_eq)
    show "\<forall>j < length (rs[k := False]). rs[k := False] ! j = (\<not> j < Suc k \<and> at_received t ! j)" using rs lk by (auto simp: nth_list_update less_Suc_eq)
    show "\<forall>j < length (ds[k := False]). ds[k := False] ! j = (\<not> j < Suc k \<and> at_discarded t ! j)" using ds lk by (auto simp: nth_list_update less_Suc_eq)
    show "dom (mt_deadlines tm') = dom (mt_deadlines (at_pduTimer t)) - am_num b ` {..<Suc k}" using tm(2) tm'(3) by (auto simp: lessThan_Suc)
  qed (use l tm'(2) in simp_all)
  ultimately show "\<exists>t''. at_dropPosition k t' = Inr t'' \<and> at_dropped b (Suc k) t t''" by blast
qed simp

definition at_shifted :: "nat \<Rightarrow> nat \<Rightarrow> am_tx \<Rightarrow> am_tx \<Rightarrow> bool" where
  "at_shifted pos k t t' = (\<exists>q rs ds. t' = t\<lparr>at_pduRtxQueue := q, at_received := rs, at_discarded := ds\<rparr>
     \<and> length rs = length (at_received t) \<and> length ds = length (at_discarded t)
     \<and> (\<forall>j. ca_get j q = (if j < k - pos then ca_get (j + pos) (at_pduRtxQueue t) else if j < k then None else ca_get j (at_pduRtxQueue t)))
     \<and> (\<forall>j < length rs. rs ! j = (if j < k - pos then at_received t ! (j + pos) else \<not> j < k \<and> at_received t ! j))
     \<and> (\<forall>j < length ds. ds ! j = (if j < k - pos then at_discarded t ! (j + pos) else \<not> j < k \<and> at_discarded t ! j)))"

lemma at_shiftPositions_ok:
  assumes "0 < pos" "pos \<le> n" "n \<le> length (at_received t)" "n \<le> length (at_discarded t)"
    and "\<forall>j < pos. ca_get j (at_pduRtxQueue t) = None \<and> \<not> at_received t ! j \<and> \<not> at_discarded t ! j"
    and "\<forall>j. pos \<le> j \<longrightarrow> j < n \<longrightarrow> ca_get j (at_pduRtxQueue t) \<noteq> None"
  shows "\<exists>t'. cpp_fold (at_shiftPosition pos) [pos..<n] t = Inr t' \<and> at_shifted pos n t t'"
proof (rule cpp_fold_upt[where P = "\<lambda>k. at_shifted pos k t"])
  show "at_shifted pos pos t t" unfolding at_shifted_def using assms(5)
    by (intro exI[of _ "at_pduRtxQueue t"] exI[of _ "at_received t"] exI[of _ "at_discarded t"]) auto
  fix k t' assume k: "pos \<le> k" "k < n" and "at_shifted pos k t t'"
  then obtain q rs ds where t': "t' = t\<lparr>at_pduRtxQueue := q, at_received := rs, at_discarded := ds\<rparr>"
    and l: "length rs = length (at_received t)" "length ds = length (at_discarded t)"
    and q: "\<forall>j. ca_get j q = (if j < k - pos then ca_get (j + pos) (at_pduRtxQueue t) else if j < k then None else ca_get j (at_pduRtxQueue t))"
    and rs: "\<forall>j < length rs. rs ! j = (if j < k - pos then at_received t ! (j + pos) else \<not> j < k \<and> at_received t ! j)"
    and ds: "\<forall>j < length ds. ds ! j = (if j < k - pos then at_discarded t ! (j + pos) else \<not> j < k \<and> at_discarded t ! j)"
    unfolding at_shifted_def by blast
  obtain p where p: "ca_get k (at_pduRtxQueue t) = Some p" using assms(6) k by auto
  have qk: "ca_get k q = Some p" "ca_get (k - pos) (ca_remove k q) = None" using q p k assms(1) by auto
  have lk: "k < length rs" "k < length ds" "k - pos < length rs" "k - pos < length ds" using l k assms(3,4) by simp_all
  have kv: "rs ! k = at_received t ! k" "ds ! k = at_discarded t ! k" using rs ds lk k assms(1) by auto
  let ?q = "ca_set (k - pos) (Some p) (ca_remove k q)" and ?rs = "(rs[k - pos := at_received t ! k])[k := False]" and ?ds = "(ds[k - pos := at_discarded t ! k])[k := False]"
  have ne: "k - pos \<noteq> k" using assms(1) k by simp
  have "at_shiftPosition pos k t' = Inr (t\<lparr>at_pduRtxQueue := ?q, at_received := ?rs, at_discarded := ?ds\<rparr>)"
    using qk lk kv by (simp add: at_shiftPosition_def t' at_clearFlags_def)
  moreover have "at_shifted pos (Suc k) t (t\<lparr>at_pduRtxQueue := ?q, at_received := ?rs, at_discarded := ?ds\<rparr>)" unfolding at_shifted_def
  proof (intro exI conjI)
    have Sk: "Suc k - pos = Suc (k - pos)" "k - pos + pos = k" using k by simp_all
    show "\<forall>j. ca_get j ?q = (if j < Suc k - pos then ca_get (j + pos) (at_pduRtxQueue t) else if j < Suc k then None else ca_get j (at_pduRtxQueue t))"
      using q p ne Sk by (auto simp: less_Suc_eq)
    show "\<forall>j < length ?rs. ?rs ! j = (if j < Suc k - pos then at_received t ! (j + pos) else \<not> j < Suc k \<and> at_received t ! j)"
      using rs ne Sk lk by (auto simp: nth_list_update less_Suc_eq)
    show "\<forall>j < length ?ds. ?ds ! j = (if j < Suc k - pos then at_discarded t ! (j + pos) else \<not> j < Suc k \<and> at_discarded t ! j)"
      using ds ne Sk lk by (auto simp: nth_list_update less_Suc_eq)
  qed (use l in simp_all)
  ultimately show "\<exists>t''. at_shiftPosition pos k t' = Inr t'' \<and> at_shifted pos (Suc k) t t''" by blast
qed (use assms in simp)

text \<open>Positions not in use are clean already.\<close>

lemma at_cleanPositions_ok:
  assumes "n \<le> m" "m \<le> length (at_received t)" "m \<le> length (at_discarded t)"
    and "\<forall>j. n \<le> j \<longrightarrow> j < m \<longrightarrow> ca_get j (at_pduRtxQueue t) = None \<and> \<not> at_received t ! j \<and> \<not> at_discarded t ! j"
  shows "cpp_fold at_cleanPosition [n..<m] t = Inr t"
proof -
  have "\<exists>t'. cpp_fold at_cleanPosition [n..<m] t = Inr t' \<and> t' = t"
  proof (rule cpp_fold_upt[where P = "\<lambda>k t'. t' = t"])
    fix k t' assume k: "n \<le> k" "k < m" "t' = t"
    have f: "\<not> at_received t ! k" "\<not> at_discarded t ! k" "ca_get k (at_pduRtxQueue t) = None" using assms(4) k by auto
    have "(at_received t)[k := False] = at_received t" "(at_discarded t)[k := False] = at_discarded t" using f by (metis list_update_id)+
    then show "\<exists>t''. at_cleanPosition k t' = Inr t'' \<and> t'' = t" using k f assms(2,3) by (simp add: at_cleanPosition_def at_clearFlags_ok)
  qed (use assms(1) in simp_all)
  then show ?thesis by simp
qed

text \<open>The window at its new place.\<close>

lemma at_moved_ok:
  assumes core: "at_core R u ss b N t" and idle: "at_idle t" and m: "am_clean R u ss m" "b < m" "m \<le> N" and N: "N = length (am_stream u ss)"
    and d: "at_dropped b (m - b) t t1" and sh: "at_shifted (m - b) (N - b) t1 t2"
  shows "at_inv R u ss m (t2\<lparr>at_window := (at_window t2)\<lparr>rw_firstSeqNum := of_nat m\<rparr>\<rparr>)"
    "\<forall>j. N - b \<le> j \<longrightarrow> j < unat (at_size t) \<longrightarrow> ca_get j (at_pduRtxQueue t2) = None \<and> \<not> at_received t2 ! j \<and> \<not> at_discarded t2 ! j"
    "at_size t2 = at_size t" "length (at_received t2) = unat (at_size t)" "length (at_discarded t2) = Suc (unat (at_size t))"
    "at_sduQueue t2 = at_sduQueue t" "at_mrwDesc t2 = at_mrwDesc t" "at_first t2 = of_nat b"
proof -
  let ?pos = "m - b" and ?n = "N - b" and ?W = "unat (at_size t)"
  note c = core[unfolded at_core_def]
  have s: "at_store_ok u ss b N t" using c by simp
  note s' = s[unfolded at_store_ok_def]
  obtain q tm rs ds where t1: "t1 = t\<lparr>at_pduRtxQueue := q, at_pduTimer := tm, at_received := rs, at_discarded := ds\<rparr>"
    and l: "length rs = length (at_received t)" "length ds = length (at_discarded t)"
    and q: "\<forall>j. ca_get j q = (if j < ?pos then None else ca_get j (at_pduRtxQueue t))"
    and rs: "\<forall>j < length rs. rs ! j = (\<not> j < ?pos \<and> at_received t ! j)" and ds: "\<forall>j < length ds. ds ! j = (\<not> j < ?pos \<and> at_discarded t ! j)"
    and tm: "mt_ok tm" "dom (mt_deadlines tm) = dom (mt_deadlines (at_pduTimer t)) - am_num b ` {..<?pos}"
    using d unfolding at_dropped_def by (elim exE conjE) (rule that; assumption)
  obtain q2 rs2 ds2 where t2: "t2 = t1\<lparr>at_pduRtxQueue := q2, at_received := rs2, at_discarded := ds2\<rparr>"
    and l2: "length rs2 = length (at_received t1)" "length ds2 = length (at_discarded t1)"
    and q2: "\<forall>j. ca_get j q2 = (if j < ?n - ?pos then ca_get (j + ?pos) (at_pduRtxQueue t1) else if j < ?n then None else ca_get j (at_pduRtxQueue t1))"
    and rs2: "\<forall>j < length rs2. rs2 ! j = (if j < ?n - ?pos then at_received t1 ! (j + ?pos) else \<not> j < ?n \<and> at_received t1 ! j)"
    and ds2: "\<forall>j < length ds2. ds2 ! j = (if j < ?n - ?pos then at_discarded t1 ! (j + ?pos) else \<not> j < ?n \<and> at_discarded t1 ! j)"
    using sh unfolding at_shifted_def by (elim exE conjE) (rule that; assumption)
  have len: "length rs = ?W" "length ds = Suc ?W" "length rs2 = ?W" "length ds2 = Suc ?W" "?n \<le> ?W" "?W \<le> 200" using s' l l2 t1 by simp_all
  have nm: "?n - ?pos = N - m" "N - m + ?pos = ?n" "b + ?pos = m" using m by simp_all
  have get: "ca_get j q2 = (if j < N - m then ca_get (j + ?pos) (at_pduRtxQueue t) else None)" for j
    using q2 q s' nm by (auto simp: t1)
  have rf: "rs2 ! j = (j < N - m \<and> at_received t ! (j + ?pos))" if "j < ?W" for j
    using rs2 rs s' nm that len by (auto simp: t1)
  have df: "ds2 ! j = (j < N - m \<and> at_discarded t ! (j + ?pos))" if "j < Suc ?W" for j
    using ds2 ds s' nm that len by (auto simp: t1)
  have tok: "at_timers_ok m (N - m) rs2 ds2 tm"
  proof -
    have "dom (mt_deadlines (at_pduTimer t)) = am_num b ` {j. j < ?n \<and> \<not> at_received t ! j \<and> \<not> at_discarded t ! j}" using s' by (simp add: at_timers_ok_def)
    then have "dom (mt_deadlines tm) = am_num b ` ({j. j < ?n \<and> \<not> at_received t ! j \<and> \<not> at_discarded t ! j} - {..<?pos})"
    proof -
      assume h: "dom (mt_deadlines (at_pduTimer t)) = am_num b ` {j. j < ?n \<and> \<not> at_received t ! j \<and> \<not> at_discarded t ! j}"
      have "inj_on (am_num b) {..<?n + ?pos}" using len m by (auto simp: inj_on_def am_num_inj)
      then show ?thesis unfolding tm(2) h by (intro inj_on_image_set_diff[symmetric]) auto
    qed
    also have "\<dots> = am_num m ` {j. j < N - m \<and> \<not> rs2 ! j \<and> \<not> ds2 ! j}"
    proof -
      have e: "{j. j < ?n \<and> \<not> at_received t ! j \<and> \<not> at_discarded t ! j} - {..<?pos} = (\<lambda>j. j + ?pos) ` {j. j < N - m \<and> \<not> rs2 ! j \<and> \<not> ds2 ! j}"
      proof (intro set_eqI iffI)
        fix j assume j: "j \<in> {j. j < ?n \<and> \<not> at_received t ! j \<and> \<not> at_discarded t ! j} - {..<?pos}"
        then have "j - ?pos < N - m" "j - ?pos + ?pos = j" using nm by auto
        then show "j \<in> (\<lambda>j. j + ?pos) ` {j. j < N - m \<and> \<not> rs2 ! j \<and> \<not> ds2 ! j}"
          using j rf[of "j - ?pos"] df[of "j - ?pos"] len nm by (intro image_eqI[of _ _ "j - ?pos"]) auto
      next
        fix j assume "j \<in> (\<lambda>j. j + ?pos) ` {j. j < N - m \<and> \<not> rs2 ! j \<and> \<not> ds2 ! j}"
        then obtain i where i: "j = i + ?pos" "i < N - m" "\<not> rs2 ! i" "\<not> ds2 ! i" by auto
        then show "j \<in> {j. j < ?n \<and> \<not> at_received t ! j \<and> \<not> at_discarded t ! j} - {..<?pos}"
          using rf[of i] df[of i] len nm by auto
      qed
      have "am_num b (j + ?pos) = am_num m j" for j
      proof -
        have "b + (j + ?pos) = m + j" using m by simp
        then show ?thesis unfolding am_num_def by simp
      qed
      then show ?thesis unfolding e image_image by simp
    qed
    finally show ?thesis using tm(1) by (simp add: at_timers_ok_def)
  qed
  let ?t = "t2\<lparr>at_window := (at_window t2)\<lparr>rw_firstSeqNum := of_nat m\<rparr>\<rparr>"
  have size: "at_size t2 = at_size t" by (simp add: t1 t2)
  have bj: "b + (i + ?pos) = m + i" for i using m by simp
  have "at_store_ok u ss m N ?t" unfolding at_store_ok_def
  proof (intro conjI allI impI)
    fix i assume i: "i < N - m"
    then have "i + ?pos < ?n" using nm by simp
    from at_store_get[OF s this] obtain p where "ca_get (i + ?pos) (at_pduRtxQueue t) = Some p" "am_norm p = am_stream u ss ! (m + i)"
      unfolding bj by metis
    then show "\<exists>p. ca_get i (at_pduRtxQueue ?t) = Some p \<and> am_norm p = am_stream u ss ! (m + i)" using get i by (simp add: t2)
  next
    fix i assume "N - m \<le> i" then show "ca_get i (at_pduRtxQueue ?t) = None" using get by (simp add: t2)
  next
    fix i assume "i < unat (at_size ?t)" "N - m \<le> i" then show "\<not> at_received ?t ! i" using rf[of i] by (simp add: t1 t2)
  next
    fix i assume "i < Suc (unat (at_size ?t))" "N - m \<le> i" then show "\<not> at_discarded ?t ! i" using df[of i] by (simp add: t1 t2)
  qed (use s' m tok len in \<open>simp_all add: t1 t2\<close>)
  moreover have "at_flags_ok R u ss m N ?t" unfolding at_flags_ok_def
  proof (intro conjI allI impI)
    fix i assume i: "i < N - m" "at_flag ?t i"
    have fl: "at_flag ?t j = at_flag t (j + ?pos)" if "j < N - m" for j using rf[of j] df[of j] that len nm by (simp add: at_flag_def t1 t2)
    then have "i + ?pos < ?n" "at_flag t (i + ?pos)" using i nm by auto
    then have f: "am_end u ss (m + i) \<le> N" "m + i \<in> R \<or> (\<forall>j < ?n. i + ?pos < j \<longrightarrow> b + j < am_end u ss (m + i) \<longrightarrow> at_flag t j)"
      using c unfolding at_flags_ok_def bj[symmetric] by blast+
    show "am_end u ss (m + i) \<le> N" by (rule f(1))
    show "m + i \<in> R \<or> (\<forall>j < N - m. i < j \<longrightarrow> m + j < am_end u ss (m + i) \<longrightarrow> at_flag ?t j)"
    proof (rule disjE[OF f(2)])
      assume h: "\<forall>j < ?n. i + ?pos < j \<longrightarrow> b + j < am_end u ss (m + i) \<longrightarrow> at_flag t j"
      have "at_flag ?t j" if j: "j < N - m" "i < j" "m + j < am_end u ss (m + i)" for j
        using h[rule_format, of "j + ?pos"] fl[OF j(1)] j nm bj[of j] by simp
      then show ?thesis by blast
    qed simp
  qed (rule m(1))
  moreover have "at_sent_ok R u ss ?t" "at_mrw_ok R u ss ?t" "at_queue_ok u m N ?t" "at_idle ?t" using c idle m
    by (simp_all add: at_sent_ok_def at_mrw_ok_def at_queue_ok_def at_idle_def t1 t2)
  ultimately show "at_inv R u ss m ?t" by (simp add: at_inv_def at_core_def N)
  show "\<forall>j. ?n \<le> j \<longrightarrow> j < ?W \<longrightarrow> ca_get j (at_pduRtxQueue t2) = None \<and> \<not> at_received t2 ! j \<and> \<not> at_discarded t2 ! j"
    using get rf df m by (auto simp: t2)
  show "at_size t2 = at_size t" "length (at_received t2) = ?W" "length (at_discarded t2) = Suc ?W"
    "at_sduQueue t2 = at_sduQueue t" "at_mrwDesc t2 = at_mrwDesc t" "at_first t2 = of_nat b"
    using len s' by (simp_all add: t1 t2)
qed

lemma at_moveTxWindow_ok:
  assumes "at_inv R u ss b t" "am_clean R u ss m" "length (am_stream u ss) + 200 < 2 ^ 31"
  shows "at_grows R u ss b m t {#} (at_moveTxWindow now (of_nat m) t)"
proof (cases "m \<le> b")
  case True
  note s = at_inv_base[OF assms(1)]
  have f: "at_first t = of_nat b" using assms(1) by (simp add: at_inv_def at_core_def at_store_ok_def)
  have "rw_index (of_nat m) (at_window t) \<le> 0"
  proof (cases "m = b")
    case True
    then show ?thesis using f by (simp add: rw_index_def)
  next
    case False
    then have "rw_index (of_nat m) (at_window t) < 0" using f True s assms(3) by (intro rw_index_before[where b = b]) auto
    then show ?thesis by simp
  qed
  then have "at_moveTxWindow now (of_nat m) t = Inr t" by (simp add: at_moveTxWindow_def Let_def)
  then show ?thesis using assms(1) s unfolding at_grows_def by (intro exI[of _ t] exI[of _ "[]"] exI[of _ b]) simp
next
  case False
  let ?N = "length (am_stream u ss)"
  define pos where "pos = m - b"
  have c: "at_core R u ss b ?N t" and idle: "at_idle t" using assms(1) by (simp_all add: at_inv_def)
  have s: "at_store_ok u ss b ?N t" using c by (simp add: at_core_def)
  note s' = s[unfolded at_store_ok_def]
  have m: "b < m" "m \<le> ?N" "0 < pos" "pos \<le> ?N - b" using False assms(2) by (auto simp: am_clean_def pos_def)
  have "of_nat m = am_num b pos" using m(1) by (simp add: am_num_def pos_def)
  then have ix: "rw_index (of_nat m) (at_window t) = int pos" using s' m by (simp add: am_num_index)
  obtain t1 where t1: "cpp_fold at_dropPosition [0..<pos] t = Inr t1" "at_dropped b pos t t1" using at_dropPositions_ok[OF s m(4)] by blast
  have n1: "?N - b \<le> length (at_received t1)" "?N - b \<le> length (at_discarded t1)"
    "\<forall>j < pos. ca_get j (at_pduRtxQueue t1) = None \<and> \<not> at_received t1 ! j \<and> \<not> at_discarded t1 ! j"
    "\<forall>j. pos \<le> j \<longrightarrow> j < ?N - b \<longrightarrow> ca_get j (at_pduRtxQueue t1) \<noteq> None"
    using t1(2) s' m unfolding at_dropped_def by auto
  obtain t2 where t2: "cpp_fold (at_shiftPosition pos) [pos..<?N - b] t1 = Inr t2" "at_shifted pos (?N - b) t1 t2"
    using at_shiftPositions_ok[OF m(3,4) n1] by blast
  note mv = at_moved_ok[OF c idle assms(2) m(1,2) refl t1(2)[unfolded pos_def] t2(2)[unfolded pos_def]]
  have W: "?N - b \<le> unat (at_size t)" using s' by simp
  have t3: "cpp_fold at_cleanPosition [?N - b..<unat (at_size t)] t2 = Inr t2"
    using at_cleanPositions_ok[OF W _ _ mv(2)] mv(4,5) by simp
  have "at_first t2 + word_of_int (int pos) = of_nat m" using mv(8) m(1) by (simp add: pos_def of_nat_diff)
  then have "at_moveTxWindow now (of_nat m) t = at_addPdus now (t2\<lparr>at_window := (at_window t2)\<lparr>rw_firstSeqNum := of_nat m\<rparr>\<rparr>)"
    using m(3) t1(1) t2(1) t3 at_store_used[OF s] unfolding at_moveTxWindow_def ix Let_def nat_int by simp
  moreover obtain t' ts where t': "at_addPdus now (t2\<lparr>at_window := (at_window t2)\<lparr>rw_firstSeqNum := of_nat m\<rparr>\<rparr>) = Inr t'"
    "at_inv R u (ss @ ts) m t'" "at_same (t2\<lparr>at_window := (at_window t2)\<lparr>rw_firstSeqNum := of_nat m\<rparr>\<rparr>) t'"
    "mset ts + mset (at_sduQueue t') \<subseteq># mset (at_sduQueue t2)"
    using at_addPdus_ok[OF mv(1), of now] m(2) assms(3) by (auto simp: at_adds_def)
  ultimately show ?thesis using m mv(3,6,7) assms(2) unfolding at_grows_def
    by (intro exI[of _ t'] exI[of _ ts] exI[of _ m]) (simp add: at_same_def)
qed

lemma sint_inj: "sint (x :: 32 word) = sint y \<longleftrightarrow> x = y"
  using word_eq_iff_signed by blast

lemma at_recvMrwAck_ok:
  assumes "at_inv R u ss b t"
  shows "at_goes R u ss b 0 t (at_recvMrwAck sn t)"
proof (cases "ca_geti (sint sn) (at_mrwRtxQueue t) = None")
  case True
  then show ?thesis using assms by (intro at_goesI[of _ t]) (simp_all add: at_recvMrwAck_def)
next
  case False
  have mrw: "at_mrw_ok R u ss t" using assms by (simp add: at_inv_def at_core_def)
  then have ok: "mt_ok (at_mrwTimer t)" by (simp add: at_mrw_ok_def)
  obtain tm where tm: "(if mt_busyEvent sn (at_mrwTimer t) then mt_remove sn (at_mrwTimer t) else Inr (at_mrwTimer t)) = Inr tm" "mt_ok tm"
    "mt_deadlines tm = (mt_deadlines (at_mrwTimer t))(sn := None)" using mt.stop_ok[OF ok, of sn] unfolding mt.stop_def by blast
  let ?t = "t\<lparr>at_mrwRtxQueue := ca_removei (sint sn) (at_mrwRtxQueue t), at_mrwTimer := tm\<rparr>"
  have get: "ca_geti i (ca_removei (sint sn) (at_mrwRtxQueue t)) = (if i = sint sn then None else ca_geti i (at_mrwRtxQueue t))" for i
    using False by (auto simp: ca_geti_def ca_removei_def)
  have "at_mrw_ok R u ss ?t" unfolding at_mrw_ok_def
  proof (intro conjI allI impI)
    fix e assume "mt_deadlines (at_mrwTimer ?t) e \<noteq> None"
    then have "e \<noteq> sn" "mt_deadlines (at_mrwTimer t) e \<noteq> None" using tm(3) by (auto split: if_splits)
    then show "ca_geti (sint e) (at_mrwRtxQueue ?t) \<noteq> None" using mrw get by (simp add: at_mrw_ok_def sint_inj)
  next
    fix k p assume "ca_get k (at_mrwRtxQueue ?t) = Some p"
    then have "ca_get k (at_mrwRtxQueue t) = Some p" using get[of "int k"] by (auto split: if_splits)
    then show "k < unat (md_mrwSeqNum (at_mrwDesc ?t))" "ap_amType (am_hdr p) = Am_Mrw" "at_pdu_ok R u ss p" using mrw by (auto simp: at_mrw_ok_def)
  qed (use tm(2) in simp)
  then have "at_inv R u ss b ?t" using assms
    by (simp add: at_inv_def at_core_def at_idle_def at_store_ok_def at_flags_ok_def at_flag_def at_sent_ok_def at_queue_ok_def)
  moreover have "at_recvMrwAck sn t = Inr ?t" unfolding at_recvMrwAck_def tm(1) cpp_bind_simps using False by auto
  ultimately show ?thesis by (intro at_goesI[of _ ?t]) (simp_all add: at_kept_def)
qed

text \<open>An operation after one that moves the window.\<close>

lemma at_grows_bind:
  assumes "at_grows R u ss b c t M m" "\<And>t' ts b'. at_inv R u (ss @ ts) b' t' \<Longrightarrow> at_goes R u (ss @ ts) b' 0 t' (f t')"
  shows "at_grows R u ss b c t M (cpp_bind m f)"
proof -
  obtain t' ts b' where t': "m = Inr t'" "at_inv R u (ss @ ts) b' t'" "b \<le> b'" "b' \<le> max b c" "b' \<le> length (am_stream u ss)" "am_clean R u ss b'" "at_size t' = at_size t"
    "unat (md_mrwSeqNum (at_mrwDesc t')) \<le> Suc (unat (md_mrwSeqNum (at_mrwDesc t)))" "mset ts + mset (at_sduQueue t') \<subseteq># mset (at_sduQueue t) + M"
    using assms(1) unfolding at_grows_def by blast
  obtain t'' where "f t' = Inr t''" "at_inv R u (ss @ ts) b' t''" "at_kept 0 t' t''" using assms(2)[OF t'(2)] by (auto simp: at_goes_def)
  then show ?thesis using t' unfolding at_grows_def by (intro exI[of _ t''] exI[of _ ts] exI[of _ b']) (simp add: at_kept_def)
qed

section \<open>Control PDUs\<close>

text \<open>An honest control PDU speaks of numbers that the receiver has got, or that are settled.\<close>

definition at_control_ok :: "nat set \<Rightarrow> nat \<Rightarrow> am_sdu list \<Rightarrow> am_pdu \<Rightarrow> bool" where
  "at_control_ok R u ss h = (case ap_amType h of
      Am_Ack \<Rightarrow> at_cum_ok R u ss (ap_lastSn h) \<and> at_bits_ok R u ss (ap_bitmap h) (ap_firstSn h)
    | Am_Mrw_Ack \<Rightarrow> \<exists>m. ap_snoFragment h = of_nat m \<and> am_clean R u ss m
    | _ \<Rightarrow> True)"

definition at_control_base :: "am_pdu \<Rightarrow> nat" where
  "at_control_base h = (if ap_amType h = Am_Mrw_Ack then unat (ap_snoFragment h) else 0)"

lemma at_handleControlPacket_ok:
  assumes "at_inv R u ss b t" "at_control_ok R u ss h" "length (am_stream u ss) + 200 < 2 ^ 31" "unat (md_mrwSeqNum (at_mrwDesc t)) < 2 ^ 31"
  shows "at_grows R u ss b (at_control_base h) t {#} (at_handleControlPacket now h t)"
proof (cases "ap_amType h")
  case Am_Mrw_Ack
  then obtain m where m: "ap_snoFragment h = of_nat m" "am_clean R u ss m" using assms(2) by (auto simp: at_control_ok_def)
  have "m < 2 ^ 32" using m(2) assms(3) by (simp add: am_clean_def)
  then have "at_control_base h = m" using Am_Mrw_Ack m(1) by (simp add: at_control_base_def unat_num)
  then show ?thesis unfolding at_handleControlPacket_def Am_Mrw_Ack am_type.case m(1)
    by (simp only:) (intro at_grows_bind at_moveTxWindow_ok[OF assms(1) m(2) assms(3)] at_recvMrwAck_ok)
next
  case Am_Ack
  then have a: "at_cum_ok R u ss (ap_lastSn h)" "at_bits_ok R u ss (ap_bitmap h) (ap_firstSn h)" using assms(2) by (auto simp: at_control_ok_def)
  have L: "length (am_stream u ss) < 2 ^ 31" using assms(3) by simp
  have "at_goes R u ss b (1 + 0) t (cpp_bind (at_recvCumulativeAck now (ap_lastSn h) t) (at_recvBitmap (ap_bitmap h) (ap_firstSn h)))"
    using at_recvBitmap_ok[OF _ a(2) L] by (intro at_goes_bind at_recvCumulativeAck_ok[OF assms(1) a(1) L assms(4)])
  then show ?thesis using at_goes_grows[OF _ assms(1)] by (simp add: at_handleControlPacket_def Am_Ack)
next
  case Am_Data
  then show ?thesis using assms(1) by (intro at_goes_grows[OF _ assms(1)] at_goesI[of _ t]) (simp_all add: at_handleControlPacket_def)
next
  case Am_Mrw
  then show ?thesis using assms(1) by (intro at_goes_grows[OF _ assms(1)] at_goesI[of _ t]) (simp_all add: at_handleControlPacket_def)
qed

section \<open>Timers\<close>

lemma at_retransmit_ok:
  assumes "at_inv R u ss b t" "i < length (am_stream u ss) - b" "\<not> at_received t ! i" "\<not> at_discarded t ! i"
    and "ca_get i (at_pduRtxQueue t) = Some p" "am_norm p' = am_norm p" "mt_ok tm" "mt_deadlines tm = (mt_deadlines (at_pduTimer t))(am_num b i := None)"
  shows "at_goes R u ss b 0 t (at_retransmit now i (am_num b i) p' (t\<lparr>at_pduTimer := tm\<rparr>))"
proof -
  let ?N = "length (am_stream u ss)"
  have s: "at_store_ok u ss b ?N t" using assms(1) by (simp add: at_inv_def at_core_def)
  note s' = s[unfolded at_store_ok_def]
  have norm: "am_norm p' = am_stream u ss ! (b + i)" using at_store_get[OF s assms(2)] assms(5,6) by (metis option.inject)
  have dom: "dom (mt_deadlines (at_pduTimer t)) = am_num b ` {j. j < ?N - b \<and> \<not> at_received t ! j \<and> \<not> at_discarded t ! j}"
    using s' by (simp add: at_timers_ok_def)
  obtain tm' where tm': "mt_add now (at_pduRtxTimeout t) (am_num b i) tm = Inr tm'" "mt_ok tm'"
    "mt_deadlines tm' = (mt_deadlines tm)(am_num b i \<mapsto> now + at_pduRtxTimeout t)" using mt.add_ok[OF assms(7), of "am_num b i"] assms(8) by auto
  have "am_num b i \<in> dom (mt_deadlines (at_pduTimer t))" unfolding dom using assms(2-4) by blast
  then have dom': "dom (mt_deadlines tm') = dom (mt_deadlines (at_pduTimer t))" unfolding tm'(3) assms(8) by auto
  let ?q = "ca_set i (Some p') (ca_remove i (at_pduRtxQueue t))"
  have add: "ca_add p' (ca_remove i (at_pduRtxQueue t)) = ?q"
  proof (rule ca_add_at)
    fix j assume "j < i"
    then have "j < ?N - b" "j \<noteq> i" using assms(2) by simp_all
    then show "ca_get j (ca_remove i (at_pduRtxQueue t)) \<noteq> None" using at_store_get[OF s] by (metis ca_get_remove option.distinct(1))
  qed simp
  let ?t = "t\<lparr>at_pduRtxQueue := ?q, at_pduTimer := tm'\<rparr>"
  have e: "at_retransmit now i (am_num b i) p' (t\<lparr>at_pduTimer := tm\<rparr>) = Inr (at_bufferPdu p' ?t)"
    using tm'(1) by (simp add: at_retransmit_def add)
  have "\<exists>q. ca_get j ?q = Some q \<and> am_norm q = am_stream u ss ! (b + j)" if "j < ?N - b" for j
    using s' that norm by (cases "j = i") auto
  then have "at_store_ok u ss b ?N ?t" using s' assms(2) tm'(2) dom' by (simp add: at_store_ok_def at_timers_ok_def)
  then have inv: "at_inv R u ss b ?t" using assms(1)
    by (simp add: at_inv_def at_core_def at_idle_def at_flags_ok_def at_flag_def at_sent_ok_def at_mrw_ok_def at_queue_ok_def)
  have "b + i < ?N" using assms(2) by simp
  then have ex: "\<exists>k < ?N. am_norm p' = am_stream u ss ! k" using norm by blast
  have "ap_amType (am_hdr p') = Am_Data" using am_normD(6)[OF norm] am_ownerE(4)[OF \<open>b + i < ?N\<close>] by simp
  then have "at_pdu_ok R u ss p'" using ex by (simp add: at_pdu_ok_def)
  from at_bufferPdu_ok[OF inv this] show ?thesis using e by (intro at_goesI[OF e]) (simp_all add: at_kept_def)
qed

lemma at_pduTimerHandle_ok:
  assumes "at_inv R u ss b t" "at_scheduled (Am_Pdu_T sn) t" "unat (md_mrwSeqNum (at_mrwDesc t)) < 2 ^ 31"
  shows "at_goes R u ss b 1 t (at_pduTimerHandle now sn t)"
proof -
  let ?N = "length (am_stream u ss)"
  have s: "at_store_ok u ss b ?N t" using assms(1) by (simp add: at_inv_def at_core_def)
  note s' = s[unfolded at_store_ok_def]
  have ok: "mt_ok (at_pduTimer t)" and dom: "dom (mt_deadlines (at_pduTimer t)) = am_num b ` {j. j < ?N - b \<and> \<not> at_received t ! j \<and> \<not> at_discarded t ! j}"
    using s' by (simp_all add: at_timers_ok_def)
  obtain d where d: "mt_intr (at_pduTimer t) = Some (d, sn)" using assms(2) by (auto simp: at_scheduled_def)
  have "mt_deadlines (at_pduTimer t) sn = Some d" using mt.next_least[OF ok d] by blast
  then have "sn \<in> dom (mt_deadlines (at_pduTimer t))" by blast
  then obtain i where i: "sn = am_num b i" "i < ?N - b" "\<not> at_received t ! i" "\<not> at_discarded t ! i" unfolding dom by blast
  obtain tm where tm: "mt_handle (at_pduTimer t) = Inr tm" "mt_ok tm" "mt_deadlines tm = (mt_deadlines (at_pduTimer t))(sn := None)"
    using mt.handle_ok[OF ok d] by blast
  let ?t = "t\<lparr>at_pduTimer := tm\<rparr>"
  have ix: "rw_index (am_num b i) (at_window t) = int i" using s' i(2) by (simp add: am_num_index)
  have "i < unat (at_size t)" using s' i(2) by simp
  then have size: "int i < uint (at_size t)" by (simp only: zless_nat_eq_int_zless unat_eq_nat_uint)
  have l: "i < length (at_received t)" using s' i(2) by simp
  obtain p where p: "ca_get i (at_pduRtxQueue t) = Some p" using at_store_get[OF s i(2)] by blast
  let ?n = "uint (ap_txNumber (am_hdr p)) + 1"
  have e: "at_pduTimerHandle now sn t = (if ?n > at_maxRtx t then at_discard now (am_num b i) ?t
      else at_retransmit now i (am_num b i) (p\<lparr>am_hdr := (am_hdr p)\<lparr>ap_txNumber := word_of_int ?n\<rparr>\<rparr>) ?t)"
    unfolding at_pduTimerHandle_def i(1) ix tm(1) cpp_bind_simps Let_def ca_int using size l p i(3) by simp
  show ?thesis
  proof (cases "?n > at_maxRtx t")
    case True
    have "at_almost_ok u ss b ?N i ?t" unfolding at_almost_ok_def
      using tm s by (auto simp: i(1) intro!: exI[of _ "at_pduTimer t"])
    then have "at_goes R u ss b 1 ?t (at_discard now (am_num b i) ?t)" using assms(1,3)
      by (intro at_discard_ok[OF _ i(2)]) (simp_all add: at_inv_def at_core_def at_idle_def at_flags_ok_def at_flag_def at_sent_ok_def at_mrw_ok_def at_queue_ok_def)
    then show ?thesis unfolding e using True by (auto simp: at_goes_def at_kept_def)
  next
    case False
    have "at_goes R u ss b 0 t (at_retransmit now i (am_num b i) (p\<lparr>am_hdr := (am_hdr p)\<lparr>ap_txNumber := word_of_int ?n\<rparr>\<rparr>) ?t)"
      by (rule at_retransmit_ok[OF assms(1) i(2-4) p _ tm(2) tm(3)[unfolded i(1)]]) (rule am_norm_simps)
    from at_goes_Suc[OF this, of 1] show ?thesis unfolding e using False by simp
  qed
qed

lemma at_mrwTimerHandle_ok:
  assumes "at_inv R u ss b t" "at_scheduled (Am_Mrw_T sn) t"
  shows "at_goes R u ss b 0 t (at_mrwTimerHandle now sn t)"
proof -
  have mrw: "at_mrw_ok R u ss t" using assms(1) by (simp add: at_inv_def at_core_def)
  then have ok: "mt_ok (at_mrwTimer t)" by (simp add: at_mrw_ok_def)
  obtain d where d: "mt_intr (at_mrwTimer t) = Some (d, sn)" using assms(2) by (auto simp: at_scheduled_def)
  have "mt_deadlines (at_mrwTimer t) sn = Some d" using mt.next_least[OF ok d] by blast
  then obtain p where p: "ca_geti (sint sn) (at_mrwRtxQueue t) = Some p" using mrw unfolding at_mrw_ok_def by blast
  obtain tm where tm: "mt_handle (at_mrwTimer t) = Inr tm" "mt_ok tm" "mt_deadlines tm = (mt_deadlines (at_mrwTimer t))(sn := None)"
    using mt.handle_ok[OF ok d] by blast
  define k where "k = nat (sint sn)"
  have k: "sint sn = int k" "ca_get k (at_mrwRtxQueue t) = Some p" using p by (auto simp: ca_geti_def k_def split: if_splits)
  have kp: "k < unat (md_mrwSeqNum (at_mrwDesc t))" "ap_amType (am_hdr p) = Am_Mrw" "at_pdu_ok R u ss p" using mrw k(2) by (auto simp: at_mrw_ok_def)
  show ?thesis
  proof (cases "md_lastMrw (at_mrwDesc t) > sn")
    case True
    let ?t = "t\<lparr>at_mrwTimer := tm, at_mrwRtxQueue := ca_removei (sint sn) (at_mrwRtxQueue t)\<rparr>"
    have e: "at_mrwTimerHandle now sn t = Inr ?t" using tm(1) p True by (simp add: at_mrwTimerHandle_def Let_def)
    have "at_mrw_ok R u ss ?t" unfolding at_mrw_ok_def
    proof (intro conjI allI impI)
      fix x assume "mt_deadlines (at_mrwTimer ?t) x \<noteq> None"
      then have x: "x \<noteq> sn" "mt_deadlines (at_mrwTimer t) x \<noteq> None" using tm(3) by (auto split: if_splits)
      then have "sint x \<noteq> sint sn" "ca_geti (sint x) (at_mrwRtxQueue t) \<noteq> None" using mrw by (simp_all add: at_mrw_ok_def sint_inj)
      then show "ca_geti (sint x) (at_mrwRtxQueue ?t) \<noteq> None" using k(1) by (auto simp: ca_geti_def ca_removei_def nat_eq_iff split: if_splits)
    next
      fix j q assume "ca_get j (at_mrwRtxQueue ?t) = Some q"
      then have "ca_get j (at_mrwRtxQueue t) = Some q" by (auto simp: ca_removei_def split: if_splits)
      then show "j < unat (md_mrwSeqNum (at_mrwDesc ?t))" "ap_amType (am_hdr q) = Am_Mrw" "at_pdu_ok R u ss q" using mrw by (auto simp: at_mrw_ok_def)
    qed (use tm(2) in simp)
    then have "at_inv R u ss b ?t" using assms(1)
      by (simp add: at_inv_def at_core_def at_idle_def at_store_ok_def at_flags_ok_def at_flag_def at_sent_ok_def at_queue_ok_def)
    then show ?thesis using e by (intro at_goesI[OF e]) (simp_all add: at_kept_def)
  next
    case False
    obtain tm' where tm': "mt_add now (at_ctrlPduRtxTimeout t) sn tm = Inr tm'" "mt_ok tm'"
      "mt_deadlines tm' = (mt_deadlines tm)(sn \<mapsto> now + at_ctrlPduRtxTimeout t)" using mt.add_ok[OF tm(2), of sn] tm(3) by auto
    let ?q = "ca_set k (Some p) (ca_remove k (at_mrwRtxQueue t))"
    let ?t = "t\<lparr>at_mrwRtxQueue := ?q, at_mrwTimer := tm'\<rparr>"
    have e: "at_mrwTimerHandle now sn t = Inr (at_bufferPdu p ?t)"
      unfolding at_mrwTimerHandle_def tm(1) cpp_bind_simps Let_def k(1) ca_int using tm'(1) k(2) False by simp
    have "at_mrw_ok R u ss ?t" unfolding at_mrw_ok_def
    proof (intro conjI allI impI)
      fix x assume "mt_deadlines (at_mrwTimer ?t) x \<noteq> None"
      then have "x = sn \<or> mt_deadlines (at_mrwTimer t) x \<noteq> None" using tm(3) tm'(3) by (auto split: if_splits)
      then have "x = sn \<or> ca_geti (sint x) (at_mrwRtxQueue t) \<noteq> None" using mrw by (auto simp: at_mrw_ok_def)
      then show "ca_geti (sint x) (at_mrwRtxQueue ?t) \<noteq> None" using k by (auto simp: ca_geti_def split: if_splits)
    next
      fix j q assume "ca_get j (at_mrwRtxQueue ?t) = Some q"
      then have "(j = k \<and> q = p) \<or> ca_get j (at_mrwRtxQueue t) = Some q" by (auto split: if_splits)
      then show "j < unat (md_mrwSeqNum (at_mrwDesc ?t))" "ap_amType (am_hdr q) = Am_Mrw" "at_pdu_ok R u ss q" using mrw kp by (auto simp: at_mrw_ok_def)
    qed (use tm'(2) in simp)
    then have "at_inv R u ss b ?t" using assms(1)
      by (simp add: at_inv_def at_core_def at_idle_def at_store_ok_def at_flags_ok_def at_flag_def at_sent_ok_def at_queue_ok_def)
    from at_bufferPdu_ok[OF this kp(3)] show ?thesis by (intro at_goesI[OF e]) (simp_all add: at_kept_def)
  qed
qed

lemma at_handleMessage_ok:
  assumes "at_inv R u ss b t" "at_scheduled m t" "unat (md_mrwSeqNum (at_mrwDesc t)) < 2 ^ 31"
  shows "at_goes R u ss b 1 t (at_handleMessage now m t)"
proof (cases m)
  case Am_Buffer_T
  have "at_goes R u ss b (1 + 0) t (cpp_bind (at_checkForMrw now t) (\<lambda>t1. Inr (t1\<lparr>at_bufferStatusTimer := None\<rparr>)))"
  proof (rule at_goes_bind[OF at_checkForMrw_ok[OF assms(1,3)]])
    fix t' assume "at_inv R u ss b t'"
    then show "at_goes R u ss b 0 t' (Inr (t'\<lparr>at_bufferStatusTimer := None\<rparr>))"
      by (intro at_goesI[OF refl]) (simp_all add: at_kept_def at_inv_def at_core_def at_idle_def at_store_ok_def at_flags_ok_def at_flag_def at_sent_ok_def at_mrw_ok_def at_queue_ok_def)
  qed
  then show ?thesis by (simp add: at_handleMessage_def Am_Buffer_T)
next
  case (Am_Pdu_T sn)
  then show ?thesis using at_pduTimerHandle_ok[OF assms(1) _ assms(3)] assms(2) by (simp add: at_handleMessage_def)
next
  case (Am_Mrw_T sn)
  then show ?thesis using at_mrwTimerHandle_ok[OF assms(1)] assms(2) at_goes_Suc by (simp add: at_handleMessage_def) blast
qed

section \<open>All events\<close>

definition at_event_ok :: "nat set \<Rightarrow> nat \<Rightarrow> am_sdu list \<Rightarrow> am_tx_event \<Rightarrow> am_tx \<Rightarrow> bool" where
  "at_event_ok R u ss ev t = (case ev of
      At_Enque s \<Rightarrow> am_sdu_ok s
    | At_Request sz \<Rightarrow> at_pduBuffer t \<noteq> []
    | At_Control h \<Rightarrow> at_control_ok R u ss h
    | At_Buffer_Control p \<Rightarrow> ap_amType (am_hdr p) = Am_Ack \<or> ap_amType (am_hdr p) = Am_Mrw_Ack
    | At_Timer m \<Rightarrow> at_scheduled m t)"

definition at_event_sdus :: "am_tx_event \<Rightarrow> am_sdu multiset" where
  "at_event_sdus ev = (case ev of At_Enque s \<Rightarrow> {#s#} | _ \<Rightarrow> {#})"

definition at_event_base :: "am_tx_event \<Rightarrow> nat" where
  "at_event_base ev = (case ev of At_Control h \<Rightarrow> at_control_base h | _ \<Rightarrow> 0)"

lemma at_step_ok:
  assumes "at_inv R u ss b t" "at_event_ok R u ss (snd ev) t" "length (am_stream u ss) + 200 < 2 ^ 31" "unat (md_mrwSeqNum (at_mrwDesc t)) < 2 ^ 31"
  shows "at_grows R u ss b (at_event_base (snd ev)) t (at_event_sdus (snd ev)) (at_step ev t)"
proof (cases "snd ev")
  case (At_Enque s)
  have "b + 200 < 2 ^ 31" using at_inv_base[OF assms(1)] assms(3) by simp
  then show ?thesis using At_Enque assms(1,2) at_enque_ok by (simp add: at_step_def at_event_ok_def at_event_sdus_def)
next
  case (At_Request sz)
  then have "at_goes R u ss b 0 t (at_step ev t)" using assms(1,2) at_sendPdus_ok by (simp add: at_step_def at_event_ok_def)
  then show ?thesis using At_Request at_goes_grows[OF at_goes_Suc assms(1)] by (simp add: at_event_sdus_def)
next
  case (At_Control h)
  then show ?thesis using at_handleControlPacket_ok[OF assms(1) _ assms(3,4)] assms(2) by (simp add: at_step_def at_event_ok_def at_event_sdus_def at_event_base_def)
next
  case (At_Buffer_Control p)
  then have "at_pdu_ok R u ss p" using assms(2) by (auto simp: at_event_ok_def at_pdu_ok_def)
  then have "at_goes R u ss b 1 t (Inr (at_bufferPdu p t))" using at_bufferPdu_ok[OF assms(1)] by (intro at_goes_Suc[OF at_goesI[OF refl], where k = 0]) auto
  then show ?thesis using At_Buffer_Control at_goes_grows[OF _ assms(1)] by (simp add: at_event_sdus_def at_step_def)
next
  case (At_Timer m)
  then show ?thesis using at_handleMessage_ok[OF assms(1) _ assms(4)] assms(2) at_goes_grows[OF _ assms(1)]
    by (simp add: at_step_def at_event_ok_def at_event_sdus_def)
qed

lemma at_new_inv:
  assumes "0 < pa_fragmentSize p" "unat (pa_txWindowSize p) \<le> 200"
  shows "at_inv R (pa_fragmentSize p) [] 0 (at_new p)" "at_sduQueue (at_new p) = []" "md_mrwSeqNum (at_mrwDesc (at_new p)) = 0"
proof -
  have "unat (pa_txWindowSize p + 1) = Suc (unat (pa_txWindowSize p))" using assms(2) by (simp add: unat_word_ariths)
  then show "at_inv R (pa_fragmentSize p) [] 0 (at_new p)" using assms
    by (simp del: replicate_Suc add: at_inv_def at_core_def at_idle_def at_store_ok_def at_flags_ok_def at_flag_def at_sent_ok_def at_mrw_ok_def at_queue_ok_def at_new_def at_timers_ok_def)
qed (simp_all add: at_new_def)

text \<open>The stream is at most a window ahead of the base.\<close>

lemma at_grows_length:
  assumes "at_grows R u ss b c t M m"
  obtains t' ts b' where "m = Inr t'" "at_inv R u (ss @ ts) b' t'" "b \<le> b'" "b' \<le> max b c" "b' \<le> length (am_stream u ss)" "am_clean R u ss b'" "at_size t' = at_size t"
    "unat (md_mrwSeqNum (at_mrwDesc t')) \<le> Suc (unat (md_mrwSeqNum (at_mrwDesc t)))" "mset ts + mset (at_sduQueue t') \<subseteq># mset (at_sduQueue t) + M"
    "length (am_stream u (ss @ ts)) \<le> length (am_stream u ss) + 200"
proof -
  obtain t' ts b' where t': "m = Inr t'" "at_inv R u (ss @ ts) b' t'" "b \<le> b'" "b' \<le> max b c" "b' \<le> length (am_stream u ss)" "am_clean R u ss b'" "at_size t' = at_size t"
    "unat (md_mrwSeqNum (at_mrwDesc t')) \<le> Suc (unat (md_mrwSeqNum (at_mrwDesc t)))" "mset ts + mset (at_sduQueue t') \<subseteq># mset (at_sduQueue t) + M"
    using assms unfolding at_grows_def by blast
  have "length (am_stream u (ss @ ts)) - b' \<le> 200" using t'(2) by (simp add: at_inv_def at_core_def at_store_ok_def)
  then show thesis using that[OF t'] t'(5) by linarith
qed

end
