(* ===== verification/Rlc_Am_Rx.thy ===== *)
theory Rlc_Am_Rx
  imports Rlc_Am_Packet
begin

text \<open>
  The receiving entity of RLC AM (\<open>AmRxQueue.cc\<close>): PDUs are kept in a reception window, an SDU goes up when its last missing
  fragment arrives, status reports tell the transmitter what has been received, and a command of the transmitter (MRW) moves the
  window. PDUs that leave the window before their SDU is complete wait in \<open>pendingPduBuffer_\<close>. Prefix \<open>ar_\<close>. Calls on the
  module are collected in \<open>ar_out\<close>; the statistics (throughput, delay, loss) are left out.
\<close>

section \<open>State\<close>

text \<open>\<open>Am_Deliver\<close> is \<open>sendDefragmented\<close>, \<open>Am_Buffer_Pdu\<close> is \<open>bufferControlPdu\<close>, \<open>Am_Route\<close> is \<open>routeControlMessage\<close>.\<close>

datatype am_rx_effect = Am_Deliver "32 word" am_sdu | Am_Buffer_Pdu am_packet | Am_Route am_packet

record am_rx =
  ar_ackReportInterval :: simtime
  ar_statusReportInterval :: simtime
  ar_window :: rlc_window
  ar_lastSentAck :: simtime
  ar_firstSdu :: "32 word"
  ar_timer :: "simtime option"
  ar_pduBuffer :: "am_packet carray"
  ar_pendingPduBuffer :: "am_packet list"
  ar_received :: "bool list"
  ar_discarded :: "bool list"
  ar_flowControlInfo :: "flow_control option"
  ar_totalRcvdBytes :: "32 word"
  ar_out :: "am_rx_effect list"

abbreviation ar_first :: "am_rx \<Rightarrow> 32 word" where "ar_first r \<equiv> rw_firstSeqNum (ar_window r)"
abbreviation ar_seq :: "am_rx \<Rightarrow> 32 word" where "ar_seq r \<equiv> rw_seqNum (ar_window r)"
abbreviation ar_size :: "am_rx \<Rightarrow> nat" where "ar_size r \<equiv> unat (rw_windowSize (ar_window r))"

definition ar_new :: "simtime \<Rightarrow> simtime \<Rightarrow> 32 word \<Rightarrow> am_rx" where
  "ar_new ackReportInterval statusReportInterval rxWindowSize = \<lparr>ar_ackReportInterval = ackReportInterval,
     ar_statusReportInterval = statusReportInterval,
     ar_window = \<lparr>rw_firstSeqNum = 0, rw_seqNum = 0, rw_windowSize = rxWindowSize\<rparr>, ar_lastSentAck = 0, ar_firstSdu = 0, ar_timer = None,
     ar_pduBuffer = [], ar_pendingPduBuffer = [], ar_received = replicate (unat rxWindowSize) False,
     ar_discarded = replicate (unat rxWindowSize) False, ar_flowControlInfo = None, ar_totalRcvdBytes = 0, ar_out = []\<rparr>"

definition ar_effect :: "am_rx_effect \<Rightarrow> am_rx \<Rightarrow> am_rx" where
  "ar_effect e r = r\<lparr>ar_out := ar_out r @ [e]\<rparr>"

section \<open>Status reports\<close>

text \<open>The loop over the flags: the length of the cumulative acknowledgement and the bits behind the first hole.\<close>

fun ar_reportLoop :: "nat list \<Rightarrow> am_rx \<Rightarrow> nat \<Rightarrow> bool \<Rightarrow> bool list \<Rightarrow> (nat \<times> bool list) cpp" where
  "ar_reportLoop [] r cumulative hole bitmap = Inr (cumulative, bitmap)"
| "ar_reportLoop (i # is') r cumulative hole bitmap = cpp_bind (vec_at (ar_received r) i) (\<lambda>b.
     if b \<and> \<not> hole then ar_reportLoop is' r (cumulative + 1) hole bitmap
     else if cumulative > 0 \<or> hole then ar_reportLoop is' r cumulative True (bitmap @ [b])
     else ar_reportLoop is' r cumulative hole bitmap)"

definition ar_report :: "nat \<Rightarrow> bool list \<Rightarrow> am_rx \<Rightarrow> am_pdu" where
  "ar_report cumulative bitmap r =
     (let h = am_newPdu\<lparr>ap_amType := Am_Ack, ap_lastSn := ar_first r + of_nat cumulative - 1, ap_bits := 8 * RLC_HEADER_AM\<rparr>
      in if cumulative < ar_size r then h\<lparr>ap_bitmap := bitmap, ap_firstSn := ar_first r + of_nat cumulative\<rparr> else h)"

definition ar_sendStatusReport :: "simtime \<Rightarrow> am_rx \<Rightarrow> am_rx cpp" where
  "ar_sendStatusReport now r =
     (if now - ar_lastSentAck r < ar_ackReportInterval r then Inr r
      else cpp_bind (vec_at (ar_received r) 0) (\<lambda>b0.
        cpp_bind (ar_reportLoop [0..<ar_size r] r 0 (\<not> b0) []) (\<lambda>(cumulative, bitmap).
          if cumulative > 0 \<or> bitmap \<noteq> [] then
            (case ar_flowControlInfo r of
                None \<Rightarrow> Inl Undefined_Behaviour
              | Some info \<Rightarrow> Inr ((ar_effect (Am_Buffer_Pdu \<lparr>am_hdr = ar_report cumulative bitmap r, am_data = [], am_tag = info\<rparr>) r)
                  \<lparr>ar_lastSentAck := now\<rparr>))
          else Inr r)))"

section \<open>Passing an SDU up\<close>

text \<open>The fragments of an SDU that have left the window; all pending PDUs must belong to it.\<close>

fun ar_takePending :: "32 word \<Rightarrow> am_packet list \<Rightarrow> am_packet list cpp" where
  "ar_takePending pkId [] = Inr []"
| "ar_takePending pkId (p # ps) =
     (if ap_snoMainPacket (am_hdr p) \<noteq> pkId
      then Inl (Runtime_Error ''AmRxQueue::passUp(): fragment buffer has fragments for another SDU'')
      else cpp_bind (ar_takePending pkId ps) (\<lambda>fs. Inr (p # fs)))"

text \<open>The walk over the buffer from \<open>aux\<close>, with wrap-around; the list counts the turns.\<close>

fun ar_collect :: "nat list \<Rightarrow> nat \<Rightarrow> 32 word \<Rightarrow> nat \<Rightarrow> am_packet carray \<Rightarrow> am_packet list \<Rightarrow> am_packet list cpp" where
  "ar_collect [] aux pkId tot buf fs = Inr fs"
| "ar_collect (i # is') aux pkId tot buf fs =
     (if length fs < tot
      then cpp_bind (ca_the aux buf) (\<lambda>p.
        ar_collect is' (if aux + 1 \<ge> ca_size buf then 0 else aux + 1) pkId tot buf
          (if ap_snoMainPacket (am_hdr p) = pkId then fs @ [p] else fs))
      else Inr fs)"

definition ar_defragmentFrames :: "am_packet list \<Rightarrow> am_sdu cpp" where
  "ar_defragmentFrames fs = (case fs of
      [] \<Rightarrow> Inl Out_Of_Range
    | p # _ \<Rightarrow> Inr \<lparr>as_octets = concat (map am_data fs), as_tag = am_tag p\<rparr>)"

text \<open>The SDU at an index and the state without the pending PDUs it has used.\<close>

definition ar_assemble :: "nat \<Rightarrow> am_rx \<Rightarrow> (am_sdu \<times> am_rx) cpp" where
  "ar_assemble index r = cpp_bind (ca_the index (ar_pduBuffer r)) (\<lambda>p.
     let h = am_hdr p; pkId = ap_snoMainPacket h
     in if ap_isWhole h then Inr (\<lparr>as_octets = am_data p, as_tag = am_tag p\<rparr>, r)
        else
          let usePending = (index = 0 \<and> \<not> ap_isFirst h)
          in cpp_bind (if usePending then ar_takePending pkId (ar_pendingPduBuffer r) else Inr []) (\<lambda>fs.
             let r1 = (if usePending then r\<lparr>ar_pendingPduBuffer := []\<rparr> else r)
             in cpp_bind (ar_collect [0..<ca_size (ar_pduBuffer r1)] index pkId (unat (ap_totalFragments h)) (ar_pduBuffer r1) fs) (\<lambda>fs'.
                cpp_bind (ar_defragmentFrames fs') (\<lambda>s. Inr (s, r1)))))"

definition ar_passUp :: "simtime \<Rightarrow> nat \<Rightarrow> am_rx \<Rightarrow> am_rx cpp" where
  "ar_passUp now index r = cpp_bind (ar_assemble index r) (\<lambda>(s, r1).
     cpp_bind (am_popSdu (as_octets s)) (\<lambda>(sno, os).
       ar_sendStatusReport now (ar_effect (Am_Deliver sno (s\<lparr>as_octets := os\<rparr>))
         (r1\<lparr>ar_totalRcvdBytes := ar_totalRcvdBytes r1 + of_nat (length os)\<rparr>))))"

section \<open>Is the SDU complete?\<close>

text \<open>The search for the first fragment, backwards; no result when a PDU is missing or the buffer begins before.\<close>

fun ar_searchBack :: "nat list \<Rightarrow> 32 word \<Rightarrow> am_rx \<Rightarrow> nat option cpp" where
  "ar_searchBack [] sdu r = Inr None"
| "ar_searchBack (i # is') sdu r = cpp_bind (vec_at (ar_received r) i) (\<lambda>b.
     if \<not> b then Inr None
     else cpp_bind (ca_the i (ar_pduBuffer r)) (\<lambda>p.
       let h = am_hdr p
       in if ap_snoMainPacket h \<noteq> sdu then Inl (Runtime_Error ''AmRxQueue::checkCompleteSdu(): backward search: fragmentation error'')
          else if ap_isFirst h then Inr (Some i)
          else if ap_isLast h \<or> ap_isWhole h then Inl (Runtime_Error ''AmRxQueue::checkCompleteSdu(): backward search: sequence error'')
          else ar_searchBack is' sdu r))"

text \<open>The search for the last fragment, forwards: is it there, with all PDUs before it?\<close>

fun ar_searchForward :: "nat list \<Rightarrow> 32 word \<Rightarrow> am_rx \<Rightarrow> bool cpp" where
  "ar_searchForward [] sdu r = Inr False"
| "ar_searchForward (i # is') sdu r = cpp_bind (vec_at (ar_received r) i) (\<lambda>b.
     if \<not> b then Inr False
     else cpp_bind (ca_the i (ar_pduBuffer r)) (\<lambda>p.
       let h = am_hdr p
       in if ap_snoMainPacket h \<noteq> sdu then Inl (Runtime_Error ''AmRxQueue::checkCompleteSdu(): SDU numbers differ'')
          else if ap_isLast h then Inr True
          else if ap_isFirst h \<or> ap_isWhole h then Inl (Runtime_Error ''AmRxQueue::checkCompleteSdu(): forward search: PDU sequencer error'')
          else ar_searchForward is' sdu r))"

text \<open>The index of the first fragment of the SDU, as far as it is known.\<close>

definition ar_firstIndex :: "nat \<Rightarrow> am_pdu \<Rightarrow> am_rx \<Rightarrow> nat option cpp" where
  "ar_firstIndex index h r =
     (if ap_isFirst h then Inr (Some index)
      else if index = 0
           then (if ar_firstSdu r = ap_snoMainPacket h then Inr (Some 0)
                 else Inl (Runtime_Error ''AmRxQueue::checkCompleteSdu(): first SDU error''))
           else ar_searchBack (rev [0..<index]) (ap_snoMainPacket h) r)"

definition ar_checkCompleteSdu :: "simtime \<Rightarrow> nat \<Rightarrow> am_rx \<Rightarrow> am_rx cpp" where
  "ar_checkCompleteSdu now index r = cpp_bind (ca_the index (ar_pduBuffer r)) (\<lambda>p.
     let h = am_hdr p;
         r1 = (if ar_firstSdu r = -1 then r\<lparr>ar_firstSdu := ap_snoMainPacket h\<rparr> else r)
     in if ap_isWhole h then ar_passUp now index r1
        else cpp_bind (ar_firstIndex index h r1) (\<lambda>fi. case fi of
            None \<Rightarrow> Inr r1
          | Some firstIndex \<Rightarrow>
              if ap_isLast h then ar_passUp now firstIndex r1
              else cpp_bind (ar_searchForward [index + 1..<ar_size r1] (ap_snoMainPacket h) r1) (\<lambda>complete.
                if complete then ar_passUp now firstIndex r1 else Inr r1)))"

section \<open>Moving the window\<close>

text \<open>A PDU leaves the window: the last one of an SDU ends the pending ones, another one waits.\<close>

definition ar_leave :: "nat \<Rightarrow> am_rx \<Rightarrow> am_rx" where
  "ar_leave i r = (case ca_get i (ar_pduBuffer r) of
      None \<Rightarrow> r\<lparr>ar_firstSdu := -1\<rparr>
    | Some p \<Rightarrow>
        let r1 = r\<lparr>ar_pduBuffer := ca_remove i (ar_pduBuffer r)\<rparr>
        in if ap_isLast (am_hdr p) \<or> ap_isWhole (am_hdr p) then r1\<lparr>ar_firstSdu := -1, ar_pendingPduBuffer := []\<rparr>
           else r1\<lparr>ar_firstSdu := ap_snoMainPacket (am_hdr p), ar_pendingPduBuffer := ar_pendingPduBuffer r1 @ [p]\<rparr>)"

text \<open>A position moves by \<open>pos\<close>; only positions from \<open>pos\<close> on are reset.\<close>

definition ar_shift :: "nat \<Rightarrow> nat \<Rightarrow> am_rx \<Rightarrow> am_rx cpp" where
  "ar_shift pos i r =
     cpp_bind (case ca_get i (ar_pduBuffer r) of
         None \<Rightarrow> Inr (ca_remove i (ar_pduBuffer r))
       | Some p \<Rightarrow> ca_addAt (i - pos) p (ca_remove i (ar_pduBuffer r))) (\<lambda>buf.
     cpp_bind (vec_at (ar_received r) i) (\<lambda>b. cpp_bind (vec_put (ar_received r) (i - pos) b) (\<lambda>rs.
     cpp_bind (vec_at (ar_discarded r) i) (\<lambda>d. cpp_bind (vec_put (ar_discarded r) (i - pos) d) (\<lambda>ds.
     cpp_bind (vec_put rs i False) (\<lambda>rs'. cpp_bind (vec_put ds i False) (\<lambda>ds'.
       Inr (r\<lparr>ar_pduBuffer := buf, ar_received := rs', ar_discarded := ds'\<rparr>))))))))"

text \<open>\<open>currentSdu\<close> is a local variable of the code that becomes \<open>firstSdu_\<close> at the end; nothing reads \<open>firstSdu_\<close> in between.\<close>

definition ar_moveRxWindow :: "32 word \<Rightarrow> am_rx \<Rightarrow> am_rx cpp" where
  "ar_moveRxWindow sn r =
     (let pos = rw_index sn (ar_window r)
      in if pos \<le> 0 then Inr r
         else if pos > int (ar_size r) then Inl (Runtime_Error ''AmRxQueue::moveRxWindow(): too many positions'')
         else cpp_bind (cpp_fold (ar_shift (nat pos)) [nat pos..<ar_size r] (fold ar_leave [0..<nat pos] r)) (\<lambda>r1.
           Inr (r1\<lparr>ar_window := (ar_window r1)\<lparr>rw_firstSeqNum := ar_first r1 + word_of_int pos\<rparr>\<rparr>)))"

section \<open>PDUs\<close>

text \<open>The tag of the PDUs that go back: the ends are swapped, the direction is the other one.\<close>

definition ar_reverseInfo :: "flow_control \<Rightarrow> flow_control" where
  "ar_reverseInfo c = c\<lparr>fl_sourceId := fl_destId c, fc_srcAddr := fc_dstAddr c, fc_typeOfService := fc_typeOfService c,
     fl_destId := fl_sourceId c, fc_dstAddr := fc_srcAddr c, fl_direction := (if fl_direction c = DL then UL else DL)\<rparr>"

definition ar_mrwAck :: "am_pdu \<Rightarrow> am_rx \<Rightarrow> am_pdu" where
  "ar_mrwAck h r = am_newPdu\<lparr>ap_amType := Am_Mrw_Ack, ap_snoMainPacket := ap_snoMainPacket h, ap_snoFragment := ar_first r,
     ap_bits := 8 * RLC_HEADER_AM\<rparr>"

definition ar_control :: "am_packet \<Rightarrow> am_rx \<Rightarrow> am_rx cpp" where
  "ar_control p r = (case ap_amType (am_hdr p) of
      Am_Mrw \<Rightarrow> cpp_bind (ar_moveRxWindow (ap_lastSn (am_hdr p)) r) (\<lambda>r1.
        case ar_flowControlInfo r1 of
          None \<Rightarrow> Inl Undefined_Behaviour
        | Some info \<Rightarrow> Inr (ar_effect (Am_Buffer_Pdu \<lparr>am_hdr = ar_mrwAck (am_hdr p) r1, am_data = [], am_tag = info\<rparr>) r1))
    | _ \<Rightarrow> Inr (ar_effect (Am_Route p) r))"

text \<open>A PDU in the window: a duplicate is dropped, another one is buffered.\<close>

definition ar_store :: "simtime \<Rightarrow> nat \<Rightarrow> am_packet \<Rightarrow> am_rx \<Rightarrow> am_rx cpp" where
  "ar_store now i p r = cpp_bind (vec_at (ar_received r) i) (\<lambda>b.
     if b then cpp_bind (ca_the i (ar_pduBuffer r)) (\<lambda>q.
       if ap_snoMainPacket (am_hdr q) = ap_snoMainPacket (am_hdr p) then Inr r
       else Inl (Runtime_Error ''AmRxQueue::enque(): the received PDU overlaps with an old one''))
     else cpp_bind (ca_addAt i p (ar_pduBuffer r)) (\<lambda>buf. cpp_bind (vec_put (ar_received r) i True) (\<lambda>rs.
       ar_checkCompleteSdu now i (r\<lparr>ar_pduBuffer := buf, ar_received := rs\<rparr>))))"

definition ar_prepare :: "simtime \<Rightarrow> am_packet \<Rightarrow> am_rx \<Rightarrow> am_rx" where
  "ar_prepare now p r = r\<lparr>
     ar_timer := (case ar_timer r of None \<Rightarrow> Some (now + ar_statusReportInterval r) | Some x \<Rightarrow> Some x),
     ar_flowControlInfo := (case ar_flowControlInfo r of None \<Rightarrow> Some (ar_reverseInfo (am_tag p)) | Some x \<Rightarrow> Some x)\<rparr>"

definition ar_enque :: "simtime \<Rightarrow> am_packet \<Rightarrow> am_rx \<Rightarrow> am_rx cpp" where
  "ar_enque now p r =
     (if ap_amType (am_hdr p) \<noteq> Am_Data then ar_control p r
      else
        let r1 = ar_prepare now p r; tsn = ap_snoFragment (am_hdr p); index = rw_index tsn (ar_window r1)
        in if index < 0 then Inr r1
           else if index \<ge> int (ar_size r1) then Inl (Runtime_Error ''AmRxQueue::enque(): received PDU out of the window'')
           else
             let r2 = r1\<lparr>ar_window := (ar_window r1)\<lparr>rw_seqNum := tsn + 1\<rparr>\<rparr>
             in cpp_bind (if tsn = ar_seq r1 then Inr r2 else ar_sendStatusReport now r2) (ar_store now (nat index) p))"

section \<open>Operations that nothing calls\<close>

text \<open>
  \<open>discard\<close> and \<open>computeWindowShift\<close>. A PDU of the buffer is never among the pending ones, which the first removes too: a PDU becomes
  pending when it has left the buffer.
\<close>

definition ar_discardPosition :: "nat \<Rightarrow> am_rx \<Rightarrow> am_rx cpp" where
  "ar_discardPosition i r = cpp_bind (vec_put (ar_discarded r) i True) (\<lambda>ds. case ca_get i (ar_pduBuffer r) of
      Some _ \<Rightarrow> Inr (r\<lparr>ar_discarded := ds, ar_pduBuffer := ca_remove i (ar_pduBuffer r)\<rparr>)
    | None \<Rightarrow> Inl (Runtime_Error ''AmRxQueue::discard PDU already discarded''))"

definition ar_discard :: "32 word \<Rightarrow> am_rx \<Rightarrow> am_rx cpp" where
  "ar_discard sn r =
     (let index = rw_index sn (ar_window r)
      in if index < 0 \<or> index \<ge> int (ar_size r) then Inl (Runtime_Error ''AmRxQueue::discard PDU out of rx window'')
         else cpp_fold ar_discardPosition [0..<nat index + 1] r)"

fun ar_shiftLoop :: "nat list \<Rightarrow> am_rx \<Rightarrow> nat \<Rightarrow> nat cpp" where
  "ar_shiftLoop [] r n = Inr n"
| "ar_shiftLoop (i # is') r n = cpp_bind (vec_at (ar_received r) i) (\<lambda>b.
     if b then ar_shiftLoop is' r (n + 1)
     else cpp_bind (vec_at (ar_discarded r) i) (\<lambda>d. if d then ar_shiftLoop is' r (n + 1) else Inr n))"

definition ar_computeWindowShift :: "am_rx \<Rightarrow> nat cpp" where
  "ar_computeWindowShift r = ar_shiftLoop [0..<ar_size r] r 0"

section \<open>The timer\<close>

definition ar_handleMessage :: "simtime \<Rightarrow> am_rx \<Rightarrow> am_rx cpp" where
  "ar_handleMessage now r = cpp_bind (ar_sendStatusReport now (r\<lparr>ar_timer := None\<rparr>)) (\<lambda>r1.
     Inr (if list_ex (\<lambda>i. ca_get i (ar_pduBuffer r1) \<noteq> None) [0..<ar_size r1]
          then r1\<lparr>ar_timer := Some (now + ar_statusReportInterval r1)\<rparr> else r1))"

datatype am_rx_event = Ar_Pdu am_packet | Ar_Timer

definition ar_step :: "simtime \<times> am_rx_event \<Rightarrow> am_rx \<Rightarrow> am_rx cpp" where
  "ar_step ev r = (case snd ev of
      Ar_Pdu p \<Rightarrow> ar_enque (fst ev) p r
    | Ar_Timer \<Rightarrow> ar_handleMessage (fst ev) r)"

fun ar_run :: "(simtime \<times> am_rx_event) list \<Rightarrow> am_rx \<Rightarrow> am_rx cpp" where
  "ar_run [] r = Inr r"
| "ar_run (ev # evs) r = cpp_bind (ar_step ev r) (ar_run evs)"

end
