(* ===== verification/Rlc_Am_Receiver.thy ===== *)
theory Rlc_Am_Receiver
  imports Rlc_Am_Transmitter Rlc_Am_Rx
begin

text \<open>
  The invariant of the receiving entity of RLC AM against the stream of PDUs of the transmitter: \<open>f\<close> is the first number in its window, \<open>R\<close> the
  numbers it has received. It holds when the window moves by at most half its size at a time, as the loop over
  the flags leaves stale ones otherwise. Two throws remain possible (see \<open>ar_known_error\<close>).
\<close>

section \<open>Positions of the stream\<close>

abbreviation am_first :: "nat \<Rightarrow> am_sdu list \<Rightarrow> nat \<Rightarrow> nat" where
  "am_first u ss k \<equiv> am_start u ss (am_owner u ss k)"

lemma am_bounded_num: "a < 2 ^ 31 \<Longrightarrow> b < 2 ^ 31 \<Longrightarrow> (of_nat a :: 32 word) = of_nat b \<longleftrightarrow> a = b"
  by (rule of_nat_word_eq_iff) simp_all

text \<open>What the flags of a PDU say about its place in the SDU.\<close>

lemma am_place:
  assumes "k < length (am_stream u ss)" "length (am_stream u ss) < 2 ^ 31" "am_norm p = am_stream u ss ! k"
  shows "ap_isFirst (am_hdr p) = (k = am_first u ss k)" "ap_isLast (am_hdr p) = (Suc k = am_end u ss k)"
    "ap_isWhole (am_hdr p) = (Suc (am_first u ss k) = am_end u ss k)" "ap_snoMainPacket (am_hdr p) = am_sno (ss ! am_owner u ss k)"
    "ap_amType (am_hdr p) = Am_Data" "ap_snoFragment (am_hdr p) = of_nat k" "am_tag p = as_tag (ss ! am_owner u ss k)"
    "am_data p = am_data (am_frag u (am_first u ss k) (ss ! am_owner u ss k) (k - am_first u ss k))"
    "unat (ap_totalFragments (am_hdr p)) = am_end u ss k - am_first u ss k"
proof -
  let ?a = "am_first u ss k" and ?s = "ss ! am_owner u ss k"
  note o' = am_ownerE[OF assms(1)]
  have q: "am_norm p = am_frag u ?a ?s (k - ?a)" using assms(3) o'(4) by simp
  note f = am_normD[OF q]
  have l: "am_end u ss k = ?a + am_len u ?s" "0 < am_len u ?s" using o'(2,3,5) by simp_all
  have last: "(of_nat ?a + of_nat (am_len u ?s) - 1 :: 32 word) = of_nat (am_end u ss k - 1)"
    using l by (cases "am_len u ?s") simp_all
  have e31: "am_end u ss k - 1 < 2 ^ 31" "k < 2 ^ 31" "?a < 2 ^ 31" using o'(2,6) assms(1,2) by simp_all
  show "ap_isFirst (am_hdr p) = (k = ?a)" using f(3,7) am_bounded_num[OF e31(3,2)] o'(2) by (auto simp: ap_isFirst_def)
  show "ap_isLast (am_hdr p) = (Suc k = am_end u ss k)" using f(3,8) last am_bounded_num[OF e31(1,2)] o'(2,3) by (auto simp: ap_isLast_def)
  show "ap_isWhole (am_hdr p) = (Suc ?a = am_end u ss k)" 
  proof -
    have e: "ap_firstSn (am_hdr p) = of_nat ?a" "ap_lastSn (am_hdr p) = of_nat (am_end u ss k - 1)" using f(7,8) last by simp_all
    show ?thesis unfolding ap_isWhole_def e am_bounded_num[OF e31(3,1)] using l by auto
  qed
  show "ap_snoMainPacket (am_hdr p) = am_sno ?s" "ap_amType (am_hdr p) = Am_Data" "am_tag p = as_tag ?s"
    "am_data p = am_data (am_frag u ?a ?s (k - ?a))" using f by simp_all
  show "ap_snoFragment (am_hdr p) = of_nat k" using f(3) o'(2) by simp
  have "am_len u ?s < 2 ^ 32" using l o'(6) assms(2) by simp
  then show "unat (ap_totalFragments (am_hdr p)) = am_end u ss k - ?a" using f(5) l by (simp add: unat_num)
qed

text \<open>Neighbours.\<close>

lemma am_owner_step:
  assumes "Suc k < length (am_stream u ss)"
  shows "Suc k < am_end u ss k \<Longrightarrow> am_owner u ss (Suc k) = am_owner u ss k" "Suc k = am_end u ss k \<Longrightarrow> am_first u ss (Suc k) = Suc k"
    "Suc k \<noteq> am_first u ss (Suc k) \<Longrightarrow> am_owner u ss (Suc k) = am_owner u ss k \<and> Suc k < am_end u ss k"
proof -
  have k: "k < length (am_stream u ss)" using assms by simp
  note o' = am_ownerE[OF k] am_ownerE[OF assms]
  show a: "am_owner u ss (Suc k) = am_owner u ss k" if "Suc k < am_end u ss k"
    using am_owner_between(1)[OF k _ that] o'(2) by simp
  show b: "am_first u ss (Suc k) = Suc k" if e: "Suc k = am_end u ss k"
  proof -
    have "am_owner u ss k < am_owner u ss (Suc k)"
    proof (rule ccontr)
      assume "\<not> am_owner u ss k < am_owner u ss (Suc k)"
      then have "am_end u ss (Suc k) \<le> am_end u ss k" unfolding am_end_def by (intro am_start_mono) simp
      then show False using o'(9) e by simp
    qed
    then have "am_end u ss k \<le> am_first u ss (Suc k)" unfolding am_end_def by (intro am_start_mono) simp
    then show ?thesis using e o'(8) by simp
  qed
  show "am_owner u ss (Suc k) = am_owner u ss k \<and> Suc k < am_end u ss k" if "Suc k \<noteq> am_first u ss (Suc k)"
    using a b o'(3) that by (metis Suc_lessI)
qed

section \<open>The invariant\<close>

text \<open>The pending PDUs are the received ones from some number on, which is not inside an SDU that is still open.\<close>

definition ar_pending_ok :: "nat set \<Rightarrow> nat \<Rightarrow> am_sdu list \<Rightarrow> nat \<Rightarrow> am_packet list \<Rightarrow> bool" where
  "ar_pending_ok R u ss g pd = (\<exists>c \<le> g. map am_norm pd = map ((!) (am_stream u ss)) (filter (\<lambda>k. k \<in> R) [c..<g])
     \<and> (g < length (am_stream u ss) \<longrightarrow> c \<le> am_first u ss g \<or> (\<forall>k. am_first u ss g \<le> k \<longrightarrow> k < am_end u ss g \<longrightarrow> k \<in> R)))"

definition ar_buffer_ok :: "nat set \<Rightarrow> nat \<Rightarrow> am_sdu list \<Rightarrow> nat \<Rightarrow> am_rx \<Rightarrow> bool" where
  "ar_buffer_ok R u ss f r = (0 < ar_size r \<and> ar_first r = of_nat f \<and> length (ar_received r) = ar_size r \<and> length (ar_discarded r) = ar_size r
     \<and> (\<forall>i < ar_size r. ar_received r ! i = (f + i \<in> R))
     \<and> (\<forall>i < ar_size r. f + i \<in> R \<longrightarrow> (\<exists>p. ca_get i (ar_pduBuffer r) = Some p \<and> am_norm p = am_stream u ss ! (f + i)))
     \<and> (\<forall>i. i < ar_size r \<longrightarrow> f + i \<notin> R \<longrightarrow> ca_get i (ar_pduBuffer r) = None)
     \<and> (\<forall>i \<ge> ar_size r. ca_get i (ar_pduBuffer r) = None))"

definition ar_numbers_ok :: "nat set \<Rightarrow> nat \<Rightarrow> am_sdu list \<Rightarrow> nat \<Rightarrow> am_rx \<Rightarrow> bool" where
  "ar_numbers_ok R u ss f r = (am_clean R u ss f \<and> R \<subseteq> {..<length (am_stream u ss)} \<and> (\<forall>k \<in> R. k < f + ar_size r)
     \<and> (f < length (am_stream u ss) \<longrightarrow> am_first u ss f < f \<longrightarrow> ar_firstSdu r = am_sno (ss ! am_owner u ss f))
     \<and> (ar_timer r \<noteq> None \<longrightarrow> ar_flowControlInfo r \<noteq> None))"

text \<open>An SDU as it goes up.\<close>

definition am_up :: "am_sdu \<Rightarrow> am_rx_effect" where
  "am_up s = Am_Deliver (am_sno s) (s\<lparr>as_octets := drop RLC_HEADER_AM (as_octets s)\<rparr>)"

fun ar_delivered :: "am_rx_effect list \<Rightarrow> am_rx_effect list" where
  "ar_delivered [] = []"
| "ar_delivered (Am_Deliver n s # es) = Am_Deliver n s # ar_delivered es"
| "ar_delivered (_ # es) = ar_delivered es"

lemma ar_delivered_append [simp]: "ar_delivered (es @ fs) = ar_delivered es @ ar_delivered fs"
  by (induction es rule: ar_delivered.induct) auto

text \<open>The reports and acknowledgements are honest; a number that moves the transmitter's window is not ahead of the receiver's.\<close>

definition ar_control_ok :: "nat set \<Rightarrow> nat \<Rightarrow> am_sdu list \<Rightarrow> nat \<Rightarrow> am_pdu \<Rightarrow> bool" where
  "ar_control_ok R u ss f h = (at_control_ok R u ss h \<and> (ap_amType h = Am_Ack \<or> ap_amType h = Am_Mrw_Ack \<and> unat (ap_snoFragment h) \<le> f))"

definition ar_out_ok :: "nat set \<Rightarrow> nat \<Rightarrow> am_sdu list \<Rightarrow> nat \<Rightarrow> nat list \<Rightarrow> am_rx \<Rightarrow> bool" where
  "ar_out_ok R u ss f ds r = ((\<forall>p. Am_Buffer_Pdu p \<in> set (ar_out r) \<longrightarrow> ar_control_ok R u ss f (am_hdr p))
     \<and> ar_delivered (ar_out r) = map (\<lambda>i. am_up (ss ! i)) ds \<and> distinct ds
     \<and> (\<forall>i \<in> set ds. i < length ss \<and> (\<forall>k. am_start u ss i \<le> k \<longrightarrow> k < am_start u ss (Suc i) \<longrightarrow> k \<in> R)))"

text \<open>What is assumed of the SDUs: well-formed, with different numbers, none of them the mark of \<open>firstSdu_\<close>.\<close>

definition am_sdus_ok :: "nat \<Rightarrow> am_sdu list \<Rightarrow> bool" where
  "am_sdus_ok u ss = (0 < u \<and> (\<forall>s \<in> set ss. am_sdu_ok s \<and> am_sno s \<noteq> -1) \<and> distinct (map am_sno ss) \<and> length (am_stream u ss) < 2 ^ 31)"

definition ar_inv :: "nat set \<Rightarrow> nat \<Rightarrow> am_sdu list \<Rightarrow> nat \<Rightarrow> nat list \<Rightarrow> am_rx \<Rightarrow> bool" where
  "ar_inv R u ss f ds r = (ar_buffer_ok R u ss f r \<and> ar_numbers_ok R u ss f r \<and> ar_pending_ok R u ss f (ar_pendingPduBuffer r) \<and> ar_out_ok R u ss f ds r)"

text \<open>The throws that remain: a window command before any data PDU, and pending PDUs of an SDU that was given up.\<close>

definition ar_known_error :: "cpp_error \<Rightarrow> bool" where
  "ar_known_error e = (e = Undefined_Behaviour
     \<or> e = Runtime_Error ''AmRxQueue::passUp(): fragment buffer has fragments for another SDU'')"

section \<open>Status reports\<close>

text \<open>The report counts the received PDUs before the first hole and lists the flags behind.\<close>

lemma ar_reportLoop_hole:
  assumes "n \<le> length (ar_received r)" "i \<le> n"
  shows "ar_reportLoop [i..<n] r cum True bm = Inr (cum, bm @ map ((!) (ar_received r)) [i..<n])"
  using assms
proof (induction "n - i" arbitrary: i bm)
  case 0
  then show ?case by simp
next
  case (Suc k)
  then have i: "i < n" and l: "[i..<n] = i # [Suc i..<n]" by (simp_all add: upt_conv_Cons)
  have "ar_reportLoop [Suc i..<n] r cum True (bm @ [ar_received r ! i]) = Inr (cum, (bm @ [ar_received r ! i]) @ map ((!) (ar_received r)) [Suc i..<n])"
    using Suc i by simp
  then show ?case using Suc.prems i by (simp add: l)
qed

lemma ar_reportLoop_run:
  assumes "length (ar_received r) = n" "m \<le> n" "\<forall>j < m. ar_received r ! j" "m < n \<longrightarrow> \<not> ar_received r ! m" "i \<le> m" "0 < m"
  shows "ar_reportLoop [i..<n] r i False [] = Inr (m, drop m (ar_received r))"
  using assms
proof (induction "m - i" arbitrary: i)
  case 0
  then have im: "i = m" by simp
  show ?case
  proof (cases "m < n")
    case True
    then have l: "[m..<n] = m # [Suc m..<n]" by (simp add: upt_conv_Cons)
    have d: "drop m (ar_received r) = False # drop (Suc m) (ar_received r)" using True 0 by (simp add: Cons_nth_drop_Suc[symmetric])
    have "map ((!) (ar_received r)) [Suc m..<n] = drop (Suc m) (ar_received r)" using 0 by (intro nth_equalityI) simp_all
    then show ?thesis using True 0 ar_reportLoop_hole[of n r "Suc m" m "[False]"] unfolding im l by (simp add: d)
  next
    case False
    then show ?thesis using 0 im by simp
  qed
next
  case (Suc k)
  then have i: "i < m" "i < n" and l: "[i..<n] = i # [Suc i..<n]" by (simp_all add: upt_conv_Cons)
  have "ar_reportLoop [Suc i..<n] r (Suc i) False [] = Inr (m, drop m (ar_received r))" using Suc i by simp
  then show ?case using Suc.prems i by (simp add: l)
qed

lemma ar_report_exact:
  assumes "0 < length (ar_received r)" "length (ar_received r) = ar_size r"
  defines "m \<equiv> length (takeWhile (\<lambda>b. b) (ar_received r))"
  shows "ar_reportLoop [0..<ar_size r] r 0 (\<not> ar_received r ! 0) [] = Inr (m, drop m (ar_received r))"
proof (cases "ar_received r ! 0")
  case True
  have m: "m \<le> ar_size r" "\<forall>j < m. ar_received r ! j" "m < ar_size r \<longrightarrow> \<not> ar_received r ! m"
    using length_takeWhile_le[of "\<lambda>b. b" "ar_received r"] nth_length_takeWhile[of "\<lambda>b. b" "ar_received r"] assms(2)
    by (auto simp: m_def dest: set_takeWhileD[OF nth_mem] simp: takeWhile_nth[symmetric])
  have "0 < m" using True assms(1) unfolding m_def by (cases "ar_received r") auto
  then show ?thesis using True ar_reportLoop_run[OF assms(2) m, of 0] by simp
next
  case False
  then have "m = 0" using assms(1) unfolding m_def by (cases "ar_received r") auto
  moreover have "map ((!) (ar_received r)) [0..<ar_size r] = ar_received r" using assms(2) by (metis map_nth)
  ultimately show ?thesis using False ar_reportLoop_hole[of "ar_size r" r 0 0 "[]"] assms(2) by simp
qed

lemma ar_report_ok:
  assumes "ar_buffer_ok R u ss f r" "ar_numbers_ok R u ss f r" "length (am_stream u ss) < 2 ^ 31"
  defines "m \<equiv> length (takeWhile (\<lambda>b. b) (ar_received r))"
  shows "ar_control_ok R u ss f (ar_report m (drop m (ar_received r)) r)"
proof -
  let ?N = "length (am_stream u ss)" and ?h = "ar_report m (drop m (ar_received r)) r"
  note b = assms(1)[unfolded ar_buffer_ok_def] and n = assms(2)[unfolded ar_numbers_ok_def]
  have rec: "ar_received r ! j \<longleftrightarrow> f + j \<in> R" if "j < ar_size r" for j using b that by simp
  have mW: "m \<le> ar_size r" using b length_takeWhile_le[of "\<lambda>b. b" "ar_received r"] by (simp add: m_def)
  have run: "f + j \<in> R" if "j < m" for j
  proof -
    have "ar_received r ! j" using that takeWhile_nth[of j "\<lambda>b. b" "ar_received r"] set_takeWhileD[OF nth_mem[of j "takeWhile (\<lambda>b. b) (ar_received r)"]]
      by (simp add: m_def)
    then show ?thesis using rec mW that by simp
  qed
  have RN: "k < ?N" if "k \<in> R" for k using n that by auto
  have fm: "f + m \<le> ?N" using RN[OF run[of "m - 1"]] n by (cases m) (auto simp: am_clean_def)
  have clean: "am_clean R u ss (f + m)" unfolding am_clean_def
  proof (intro conjI allI impI)
    fix k assume k: "k < f + m"
    show "k \<in> R \<or> am_end u ss k \<le> f + m"
    proof (cases "k < f")
      case True
      then show ?thesis using n unfolding am_clean_def by (meson le_add1 le_trans)
    next
      case False
      then show ?thesis using run[of "k - f"] k by simp
    qed
  qed (rule fm)
  have last: "ap_lastSn ?h = of_nat f + of_nat m - 1" using b by (simp add: ar_report_def Let_def am_newPdu_def)
  have "at_cum_ok R u ss (ap_lastSn ?h)"
  proof (cases "f + m")
    case 0
    then show ?thesis using last by (simp add: at_cum_ok_def)
  next
    case (Suc c)
    then have "ap_lastSn ?h = of_nat c" using last by (metis add_diff_cancel_right' of_nat_Suc of_nat_add add.commute)
    then show ?thesis using clean Suc by (auto simp: at_cum_ok_def)
  qed
  moreover have "at_bits_ok R u ss (ap_bitmap ?h) (ap_firstSn ?h)"
  proof (cases "m < ar_size r")
    case True
    then have h: "ap_bitmap ?h = drop m (ar_received r)" "ap_firstSn ?h = of_nat f + of_nat m" using b by (simp_all add: ar_report_def Let_def)
    show ?thesis unfolding at_bits_ok_def h
    proof (intro allI impI)
      fix i assume i: "i < length (drop m (ar_received r))" "drop m (ar_received r) ! i"
      then have "f + (m + i) \<in> R" using rec[of "m + i"] b by simp
      then show "\<exists>k \<in> R. k < ?N \<and> of_nat f + of_nat m + of_nat i = (of_nat k :: 32 word)"
        using RN by (intro bexI[of _ "f + (m + i)"]) (simp_all add: add.assoc)
    qed
  next
    case False
    then have "ap_bitmap ?h = []" by (simp add: ar_report_def Let_def am_newPdu_def)
    then show ?thesis by (simp add: at_bits_ok_def)
  qed
  moreover have "ap_amType ?h = Am_Ack" by (simp add: ar_report_def Let_def)
  ultimately show ?thesis by (simp add: ar_control_ok_def at_control_ok_def)
qed

definition ar_controls :: "nat set \<Rightarrow> nat \<Rightarrow> am_sdu list \<Rightarrow> nat \<Rightarrow> am_rx_effect list \<Rightarrow> bool" where
  "ar_controls R u ss f es = (\<forall>e \<in> set es. \<exists>p. e = Am_Buffer_Pdu p \<and> ar_control_ok R u ss f (am_hdr p))"

lemma ar_sendStatusReport_ok:
  assumes "ar_buffer_ok R u ss f r" "ar_numbers_ok R u ss f r" "length (am_stream u ss) < 2 ^ 31" "ar_flowControlInfo r \<noteq> None"
  shows "\<exists>es x. ar_sendStatusReport now r = Inr (r\<lparr>ar_out := ar_out r @ es, ar_lastSentAck := x\<rparr>) \<and> ar_controls R u ss f es"
proof -
  let ?m = "length (takeWhile (\<lambda>b. b) (ar_received r))"
  obtain info where info: "ar_flowControlInfo r = Some info" using assms(4) by auto
  have l: "0 < length (ar_received r)" "length (ar_received r) = ar_size r" using assms(1) by (simp_all add: ar_buffer_ok_def)
  note ex = ar_report_exact[OF l]
  note ok = ar_report_ok[OF assms(1-3)]
  have at0: "vec_at (ar_received r) 0 = Inr (ar_received r ! 0)" using l by simp
  consider "now - ar_lastSentAck r < ar_ackReportInterval r \<or> \<not> (?m > 0 \<or> drop ?m (ar_received r) \<noteq> [])"
    | "\<not> now - ar_lastSentAck r < ar_ackReportInterval r" "?m > 0 \<or> drop ?m (ar_received r) \<noteq> []" by blast
  then show ?thesis
  proof cases
    case 1
    then have "ar_sendStatusReport now r = Inr r" unfolding ar_sendStatusReport_def at0 cpp_bind_simps ex by auto
    then show ?thesis by (intro exI[of _ "[]"] exI[of _ "ar_lastSentAck r"]) (simp add: ar_controls_def)
  next
    case 2
    then have "ar_sendStatusReport now r = Inr ((ar_effect (Am_Buffer_Pdu \<lparr>am_hdr = ar_report ?m (drop ?m (ar_received r)) r, am_data = [], am_tag = info\<rparr>) r)\<lparr>ar_lastSentAck := now\<rparr>)"
      unfolding ar_sendStatusReport_def at0 cpp_bind_simps ex using info by auto
    then show ?thesis using ok unfolding ar_effect_def
      by (intro exI[of _ "[Am_Buffer_Pdu \<lparr>am_hdr = ar_report ?m (drop ?m (ar_received r)) r, am_data = [], am_tag = info\<rparr>]"] exI[of _ now])
        (simp add: ar_controls_def)
  qed
qed

lemma ar_controls_delivered: "ar_controls R u ss f es \<Longrightarrow> ar_delivered es = []"
proof (induction es)
  case (Cons e es)
  then obtain p where "e = Am_Buffer_Pdu p" by (auto simp: ar_controls_def)
  then show ?case using Cons by (simp add: ar_controls_def)
qed simp

lemma ar_controls_inv:
  assumes "ar_inv R u ss f ds r" "ar_controls R u ss f es"
  shows "ar_inv R u ss f ds (r\<lparr>ar_out := ar_out r @ es, ar_lastSentAck := x\<rparr>)"
  using assms ar_controls_delivered[OF assms(2)]
  by (fastforce simp: ar_inv_def ar_buffer_ok_def ar_numbers_ok_def ar_out_ok_def ar_controls_def)

section \<open>Searching the buffer\<close>

lemma ar_buffer_get:
  assumes "ar_buffer_ok R u ss f r" "i < ar_size r" "f + i \<in> R"
  obtains p where "ca_get i (ar_pduBuffer r) = Some p" "am_norm p = am_stream u ss ! (f + i)"
  using assms unfolding ar_buffer_ok_def by blast

text \<open>The search backwards from inside an SDU finds its first fragment, if all before have come.\<close>

lemma ar_searchBack_ok:
  assumes b: "ar_buffer_ok R u ss f r" and R: "R \<subseteq> {..<length (am_stream u ss)}" and N: "length (am_stream u ss) < 2 ^ 31"
    and k: "k < length (am_stream u ss)" "i \<le> ar_size r" "am_first u ss k < f + i" "f + i \<le> k"
  shows "ar_searchBack (rev [0..<i]) (am_sno (ss ! am_owner u ss k)) r = Inr None
      \<and> (am_first u ss k < f \<or> (\<exists>l. am_first u ss k \<le> l \<and> l < f + i \<and> l \<notin> R))
    \<or> (\<exists>j. ar_searchBack (rev [0..<i]) (am_sno (ss ! am_owner u ss k)) r = Inr (Some j) \<and> f + j = am_first u ss k \<and> j < i \<and> (\<forall>l. j \<le> l \<longrightarrow> l < i \<longrightarrow> f + l \<in> R))"
  using k(2-4)
proof (induction i)
  case 0
  then show ?case by simp
next
  case (Suc i)
  have rec: "vec_at (ar_received r) i = Inr (f + i \<in> R)" using b Suc.prems(1) by (simp add: ar_buffer_ok_def)
  show ?case
  proof (cases "f + i \<in> R")
    case False
    then show ?thesis using rec Suc.prems(2) by (intro disjI1 conjI disjI2 exI[of _ "f + i"]) simp_all
  next
    case True
    obtain p where p: "ca_get i (ar_pduBuffer r) = Some p" "am_norm p = am_stream u ss ! (f + i)" using ar_buffer_get[OF b _ True] Suc.prems(1) by auto
    have kk: "f + i < length (am_stream u ss)" using R True by auto
    have "am_first u ss k \<le> f + i" "f + i < am_end u ss k" using Suc.prems am_ownerE(3)[OF k(1)] by simp_all
    from am_owner_between[OF k(1) this] have o': "am_owner u ss (f + i) = am_owner u ss k" "am_end u ss (f + i) = am_end u ss k" by simp_all
    note pl = am_place[OF kk N p(2), unfolded o']
    show ?thesis
    proof (cases "f + i = am_first u ss k")
      case first: True
      then show ?thesis using rec True p(1) pl(1,4) by (intro disjI2 exI[of _ i]) (auto simp: Let_def less_Suc_eq)
    next
      case False
      have "\<not> ap_isLast (am_hdr p)" using pl(2) Suc.prems(3) am_ownerE(3)[OF k(1)] by simp
      moreover have "\<not> ap_isWhole (am_hdr p)" using pl(3) False Suc.prems am_ownerE(3)[OF k(1)] by simp
      ultimately have e: "ar_searchBack (rev [0..<Suc i]) (am_sno (ss ! am_owner u ss k)) r = ar_searchBack (rev [0..<i]) (am_sno (ss ! am_owner u ss k)) r"
        using rec True p(1) pl(1,4) False by (simp add: Let_def)
      have "am_first u ss k < f + i" "f + i \<le> k" "i \<le> ar_size r" using False Suc.prems by simp_all
      from Suc.IH[OF this(3,1,2)] consider
          (short) "ar_searchBack (rev [0..<i]) (am_sno (ss ! am_owner u ss k)) r = Inr None" "am_first u ss k < f"
        | (missing) l where "ar_searchBack (rev [0..<i]) (am_sno (ss ! am_owner u ss k)) r = Inr None" "am_first u ss k \<le> l" "l < f + i" "l \<notin> R"
        | (found) j where "ar_searchBack (rev [0..<i]) (am_sno (ss ! am_owner u ss k)) r = Inr (Some j)" "f + j = am_first u ss k" "j < i"
            "\<forall>l. j \<le> l \<longrightarrow> l < i \<longrightarrow> f + l \<in> R" by blast
      then show ?thesis
      proof cases
        case short
        then show ?thesis unfolding e by simp
      next
        case missing
        then show ?thesis unfolding e by (intro disjI1 conjI disjI2 exI[of _ l]) simp_all
      next
        case found
        then show ?thesis using True unfolding e by (intro disjI2 exI[of _ j]) (auto simp: less_Suc_eq)
      qed
    qed
  qed
qed

text \<open>The search forwards tells whether all fragments from there on have come.\<close>

lemma ar_searchForward_ok:
  assumes b: "ar_buffer_ok R u ss f r" and R: "R \<subseteq> {..<length (am_stream u ss)}" and N: "length (am_stream u ss) < 2 ^ 31"
    and k: "k < length (am_stream u ss)" "i \<le> ar_size r" "k < f + i" "f + i < am_end u ss k"
  shows "ar_searchForward [i..<ar_size r] (am_sno (ss ! am_owner u ss k)) r
    = Inr (\<forall>l. i \<le> l \<longrightarrow> f + l < am_end u ss k \<longrightarrow> l < ar_size r \<and> f + l \<in> R)"
  using k(2-4)
proof (induction "ar_size r - i" arbitrary: i)
  case 0
  then have "\<not> (\<forall>l. i \<le> l \<longrightarrow> f + l < am_end u ss k \<longrightarrow> l < ar_size r \<and> f + l \<in> R)" by (intro notI) (drule spec[of _ i], simp)
  moreover have e: "[i..<ar_size r] = []" using 0 by simp
  ultimately show ?case unfolding e by simp
next
  case (Suc n)
  then have i: "i < ar_size r" and l: "[i..<ar_size r] = i # [Suc i..<ar_size r]" by (simp_all add: upt_conv_Cons)
  have rec: "vec_at (ar_received r) i = Inr (f + i \<in> R)" using b i by (simp add: ar_buffer_ok_def)
  show ?case
  proof (cases "f + i \<in> R")
    case False
    then have "\<not> (\<forall>l. i \<le> l \<longrightarrow> f + l < am_end u ss k \<longrightarrow> l < ar_size r \<and> f + l \<in> R)" using Suc.prems(3) by (auto intro!: exI[of _ i])
    then show ?thesis using False rec l by simp
  next
    case True
    obtain p where p: "ca_get i (ar_pduBuffer r) = Some p" "am_norm p = am_stream u ss ! (f + i)" using ar_buffer_get[OF b i True] by auto
    have kk: "f + i < length (am_stream u ss)" using R True by auto
    have "am_first u ss k \<le> f + i" using Suc.prems(2) am_ownerE(2)[OF k(1)] by simp
    from am_owner_between[OF k(1) this Suc.prems(3)] have o': "am_owner u ss (f + i) = am_owner u ss k" "am_end u ss (f + i) = am_end u ss k" by simp_all
    note pl = am_place[OF kk N p(2), unfolded o']
    show ?thesis
    proof (cases "Suc (f + i) = am_end u ss k")
      case last: True
      then have "ar_searchForward [i..<ar_size r] (am_sno (ss ! am_owner u ss k)) r = Inr True" using rec True p(1) pl(2,4) l by (simp add: Let_def)
      moreover have "\<forall>l. i \<le> l \<longrightarrow> f + l < am_end u ss k \<longrightarrow> l < ar_size r \<and> f + l \<in> R"
      proof (intro allI impI)
        fix j assume "i \<le> j" "f + j < am_end u ss k"
        then have "j = i" using last by simp
        then show "j < ar_size r \<and> f + j \<in> R" using i True by simp
      qed
      ultimately show ?thesis by simp
    next
      case False
      have "\<not> ap_isFirst (am_hdr p)" using pl(1) Suc.prems(2) am_ownerE(2)[OF k(1)] by simp
      moreover have "\<not> ap_isWhole (am_hdr p)" using pl(3) Suc.prems am_ownerE(2)[OF k(1)] by simp
      ultimately have e: "ar_searchForward [i..<ar_size r] (am_sno (ss ! am_owner u ss k)) r = ar_searchForward [Suc i..<ar_size r] (am_sno (ss ! am_owner u ss k)) r"
        using rec True p(1) pl(2,4) False l by (simp add: Let_def)
      have "n = ar_size r - Suc i" "Suc i \<le> ar_size r" "k < f + Suc i" "f + Suc i < am_end u ss k" using False Suc.prems Suc.hyps(2) i by simp_all
      note ih = Suc.hyps(1)[OF this]
      have "(\<forall>l. Suc i \<le> l \<longrightarrow> f + l < am_end u ss k \<longrightarrow> l < ar_size r \<and> f + l \<in> R) = (\<forall>l. i \<le> l \<longrightarrow> f + l < am_end u ss k \<longrightarrow> l < ar_size r \<and> f + l \<in> R)"
        using i True by (metis Suc_leD le_antisym not_less_eq_eq)
      then show ?thesis unfolding e ih by simp
    qed
  qed
qed

text \<open>The walk that collects the fragments: it stops with the last one, before a wrap-around matters.\<close>

lemma ar_collect_ok:
  assumes "n \<le> length ts" "length fs + n = tot" "\<forall>l < n. \<exists>p. ca_get (aux + l) buf = Some p \<and> ap_snoMainPacket (am_hdr p) = pkId \<and> am_norm p = g (aux + l)"
  shows "\<exists>fs'. ar_collect ts aux pkId tot buf fs = Inr (fs @ fs') \<and> map am_norm fs' = map g [aux..<aux + n]"
  using assms
proof (induction n arbitrary: ts aux fs)
  case 0
  then show ?case by (cases ts) auto
next
  case (Suc n)
  obtain x ts' where ts: "ts = x # ts'" using Suc.prems(1) by (cases ts) auto
  obtain p where p: "ca_get aux buf = Some p" "ap_snoMainPacket (am_hdr p) = pkId" "am_norm p = g aux" using Suc.prems(3) by (metis add_0_right zero_less_Suc)
  let ?aux = "if aux + 1 \<ge> ca_size buf then 0 else aux + 1"
  have e: "ar_collect ts aux pkId tot buf fs = ar_collect ts' ?aux pkId tot buf (fs @ [p])"
    using ts p Suc.prems(2) by simp
  show ?case
  proof (cases n)
    case 0
    then have "ar_collect ts' ?aux pkId tot buf (fs @ [p]) = Inr (fs @ [p])" using Suc.prems(2) by (cases ts') auto
    then show ?thesis using e 0 p(3) by (intro exI[of _ "[p]"]) simp
  next
    case (Suc n')
    have "ca_get (aux + 1) buf \<noteq> None" using Suc.prems(3)[rule_format, of 1] Suc by auto
    then have "aux + 1 < ca_size buf" by (rule ca_size_bound)
    then have aux: "?aux = aux + 1" by simp
    have "\<forall>l < n. \<exists>p. ca_get (aux + 1 + l) buf = Some p \<and> ap_snoMainPacket (am_hdr p) = pkId \<and> am_norm p = g (aux + 1 + l)"
    proof (intro allI impI)
      fix l assume "l < n"
      then show "\<exists>p. ca_get (aux + 1 + l) buf = Some p \<and> ap_snoMainPacket (am_hdr p) = pkId \<and> am_norm p = g (aux + 1 + l)"
        using Suc.prems(3)[rule_format, of "Suc l"] by simp
    qed
    from Suc.IH[OF _ _ this, of ts' "fs @ [p]"] Suc.prems(1,2) ts
    obtain fs' where fs': "ar_collect ts' (aux + 1) pkId tot buf (fs @ [p]) = Inr ((fs @ [p]) @ fs')" "map am_norm fs' = map g [aux + 1..<aux + 1 + n]" by auto
    have "[aux..<aux + Suc n] = aux # [aux + 1..<aux + 1 + n]" by (simp add: upt_conv_Cons)
    then show ?thesis using e fs' p(3) unfolding aux by (intro exI[of _ "p # fs'"]) simp
  qed
qed

section \<open>Passing an SDU up\<close>

lemma ar_takePending_ok:
  "ar_takePending pkId ps = (if \<forall>p \<in> set ps. ap_snoMainPacket (am_hdr p) = pkId then Inr ps
     else Inl (Runtime_Error ''AmRxQueue::passUp(): fragment buffer has fragments for another SDU''))"
  by (induction ps) auto

text \<open>The fragments of an SDU from its first number on are its octets.\<close>

lemma am_fragments_octets:
  assumes "am_sdus_ok u ss" "k < length (am_stream u ss)"
  shows "concat (map (\<lambda>j. am_data (am_stream u ss ! j)) [am_first u ss k..<am_end u ss k]) = as_octets (ss ! am_owner u ss k)"
proof -
  let ?a = "am_first u ss k" and ?s = "ss ! am_owner u ss k"
  note o' = am_ownerE[OF assms(2)]
  have s: "am_sdu_ok ?s" "0 < u" using assms(1) o'(1) by (auto simp: am_sdus_ok_def)
  have "[?a..<am_end u ss k] = map (\<lambda>j. ?a + j) [0..<am_len u ?s]" unfolding o'(5) by (rule nth_equalityI) simp_all
  then have "map (\<lambda>j. am_data (am_stream u ss ! j)) [?a..<am_end u ss k] = map (\<lambda>j. am_data (am_stream u ss ! (?a + j))) [0..<am_len u ?s]" by simp
  also have "\<dots> = map (\<lambda>j. am_data (am_frag u ?a ?s j)) [0..<am_len u ?s]" using am_stream_frag(2)[OF o'(1)] by simp
  finally show ?thesis using am_frag_concat[OF s] by simp
qed

lemma am_popSdu_up:
  assumes "am_sdu_ok s"
  shows "\<exists>os. am_popSdu (as_octets s) = Inr (am_sno s, os) \<and> os = drop RLC_HEADER_AM (as_octets s)"
proof -
  obtain os where "as_octets s = am_sduHeader (am_sno s) @ os" "am_popSdu (as_octets s) = Inr (am_sno s, os)" using am_sdu_okD[OF assms] .
  then show ?thesis by (simp add: am_sduHeader_def)
qed

text \<open>The numbers of the SDU of \<open>k\<close> in the window have been received; of those before, the clean start of the window takes care.\<close>

definition ar_complete :: "nat set \<Rightarrow> nat \<Rightarrow> am_sdu list \<Rightarrow> nat \<Rightarrow> bool" where
  "ar_complete R u ss k = (\<forall>l. am_first u ss k \<le> l \<longrightarrow> l < am_end u ss k \<longrightarrow> l \<in> R)"

text \<open>The pending PDUs can be used for the SDU at the start of the window: it was not complete before.\<close>

definition ar_fresh :: "nat set \<Rightarrow> nat \<Rightarrow> am_sdu list \<Rightarrow> nat \<Rightarrow> nat \<Rightarrow> am_packet list \<Rightarrow> bool" where
  "ar_fresh R u ss f k pd = (am_first u ss k < f \<longrightarrow> (\<exists>c \<le> am_first u ss k. map am_norm pd = map ((!) (am_stream u ss)) (filter (\<lambda>k. k \<in> R) [c..<f])))"

lemma concat_norm: "map am_norm fs = map g ks \<Longrightarrow> concat (map am_data fs) = concat (map (\<lambda>k. am_data (g k)) ks)"
proof -
  assume "map am_norm fs = map g ks"
  then have "map am_data (map am_norm fs) = map am_data (map g ks)" by simp
  then show ?thesis by (simp add: comp_def)
qed

lemma ar_assemble_fragments:
  assumes "ca_get index (ar_pduBuffer r) = Some p" "\<not> ap_isWhole (am_hdr p)" "(index = 0 \<and> \<not> ap_isFirst (am_hdr p)) = b" "ap_snoMainPacket (am_hdr p) = n"
  shows "ar_assemble index r = cpp_bind (if b then ar_takePending n (ar_pendingPduBuffer r) else Inr []) (\<lambda>fs.
    let r1 = (if b then r\<lparr>ar_pendingPduBuffer := []\<rparr> else r)
    in cpp_bind (ar_collect [0..<ca_size (ar_pduBuffer r)] index n (unat (ap_totalFragments (am_hdr p))) (ar_pduBuffer r) fs) (\<lambda>fs'.
      cpp_bind (ar_defragmentFrames fs') (\<lambda>s. Inr (s, r1))))"
  using assms(1,2,4) unfolding ar_assemble_def assms(3)[symmetric] by (auto simp: Let_def)

lemma ar_assemble_ok:
  assumes b: "ar_buffer_ok R u ss f r" and R: "R \<subseteq> {..<length (am_stream u ss)}" and ss: "am_sdus_ok u ss"
    and k: "k < length (am_stream u ss)" and c: "ar_complete R u ss k" and W: "am_end u ss k \<le> f + ar_size r"
    and idx: "index < ar_size r" "f + index = max f (am_first u ss k)" "f < am_end u ss k"
    and fresh: "ar_fresh R u ss f k (ar_pendingPduBuffer r)"
  shows "(\<exists>pd. ar_assemble index r = Inr (ss ! am_owner u ss k, r\<lparr>ar_pendingPduBuffer := pd\<rparr>) \<and> (pd = ar_pendingPduBuffer r \<or> pd = [] \<and> am_first u ss k < f))
    \<or> (\<exists>e. ar_assemble index r = Inl e \<and> ar_known_error e \<and> 0 < f)"
proof -
  let ?a = "am_first u ss k" and ?e = "am_end u ss k" and ?s = "ss ! am_owner u ss k" and ?g = "(!) (am_stream u ss)"
  note o' = am_ownerE[OF k]
  have N: "length (am_stream u ss) < 2 ^ 31" using ss by (simp add: am_sdus_ok_def)
  let ?i = "f + index"
  have i: "?a \<le> ?i" "?i < ?e" using idx(2,3) o'(2,3) by auto
  have iR: "?i \<in> R" using c i by (simp add: ar_complete_def)
  obtain p where p: "ca_get index (ar_pduBuffer r) = Some p" "am_norm p = am_stream u ss ! ?i" using ar_buffer_get[OF b idx(1) iR] .
  have kk: "?i < length (am_stream u ss)" using i(2) o'(6) by simp
  from am_owner_between[OF k i] have oi: "am_owner u ss ?i = am_owner u ss k" "am_end u ss ?i = am_end u ss k" by simp_all
  note pl = am_place[OF kk N p(2), unfolded oi]
  show ?thesis
  proof (cases "Suc ?a = ?e")
    case True
    then have ia: "?i = ?a" using i by simp
    have l1: "am_len u ?s = 1" using True o'(5) by simp
    have "concat (map (\<lambda>j. am_data (am_frag u ?a ?s j)) [0..<am_len u ?s]) = as_octets ?s"
      using ss o'(1) by (intro am_frag_concat) (auto simp: am_sdus_ok_def)
    then have "am_data p = as_octets ?s" using pl(8) ia l1 by simp
    moreover have "am_tag p = as_tag ?s" using pl(7) by simp
    ultimately have "ar_assemble index r = Inr (?s, r)" using p(1) True pl(3) by (simp add: ar_assemble_def Let_def)
    then show ?thesis by (intro disjI1 exI[of _ "ar_pendingPduBuffer r"]) simp
  next
    case False
    then have nw: "\<not> ap_isWhole (am_hdr p)" using pl(3) by simp
    have first: "ap_isFirst (am_hdr p) = (?i = ?a)" by (rule pl(1))
    let ?use = "index = 0 \<and> \<not> ap_isFirst (am_hdr p)"
    have use: "?use = (?a < f)" using first idx(2) i by auto
    let ?n = "?e - ?i"
    have bufs: "\<forall>l < ?n. \<exists>q. ca_get (index + l) (ar_pduBuffer r) = Some q \<and> ap_snoMainPacket (am_hdr q) = am_sno ?s \<and> am_norm q = am_stream u ss ! (f + (index + l))"
    proof (intro allI impI)
      fix l assume l: "l < ?n"
      have r1: "?a \<le> ?i + l" "?i + l < ?e" using i l by simp_all
      then have "?i + l \<in> R" using c by (simp add: ar_complete_def)
      then have "f + (index + l) \<in> R" by (simp add: add.assoc)
      moreover have "index + l < ar_size r" using W l by simp
      ultimately obtain q where q: "ca_get (index + l) (ar_pduBuffer r) = Some q" "am_norm q = am_stream u ss ! (f + (index + l))" using ar_buffer_get[OF b] by metis
      have "?i + l < length (am_stream u ss)" using r1(2) o'(6) by simp
      moreover have "am_owner u ss (?i + l) = am_owner u ss k" using am_owner_between(1)[OF k r1] .
      ultimately have "ap_snoMainPacket (am_hdr q) = am_sno ?s" using am_place(4)[OF _ N, of "?i + l" q] q(2) by (simp add: add.assoc)
      then show "\<exists>q. ca_get (index + l) (ar_pduBuffer r) = Some q \<and> ap_snoMainPacket (am_hdr q) = am_sno ?s \<and> am_norm q = am_stream u ss ! (f + (index + l))" using q by blast
    qed
    have size: "?n \<le> length [0..<ca_size (ar_pduBuffer r)]"
    proof -
      have "ca_get (index + (?n - 1)) (ar_pduBuffer r) \<noteq> None" 
      proof -
        have "?n - 1 < ?n" using i by simp
        from bufs[rule_format, OF this] show ?thesis by blast
      qed
      then have "index + (?n - 1) < ca_size (ar_pduBuffer r)" by (rule ca_size_bound)
      then show ?thesis by simp
    qed
    have shift: "map (\<lambda>l. am_stream u ss ! (f + l)) [index..<index + ?n] = map ?g [?i..<?e]"
    proof (rule nth_equalityI)
      fix j assume "j < length (map (\<lambda>l. am_stream u ss ! (f + l)) [index..<index + ?n])"
      then show "map (\<lambda>l. am_stream u ss ! (f + l)) [index..<index + ?n] ! j = map ?g [?i..<?e] ! j" by (simp add: add.assoc)
    qed simp
    \<comment> \<open>The rest, with the fragments in front that are already there.\<close>
    have finish: "cpp_bind (ar_collect [0..<ca_size (ar_pduBuffer r)] index (am_sno ?s) (unat (ap_totalFragments (am_hdr p))) (ar_pduBuffer r) fs)
        (\<lambda>fs'. cpp_bind (ar_defragmentFrames fs') (\<lambda>s. Inr (s, r1))) = Inr (?s, r1)"
      if fs: "map am_norm fs = map ?g [?a..<?i]" for fs and r1 :: am_rx
    proof -
      have lf: "length fs + ?n = unat (ap_totalFragments (am_hdr p))" using arg_cong[OF fs, of length] pl(9) i by simp
      obtain fs' where fs': "ar_collect [0..<ca_size (ar_pduBuffer r)] index (am_sno ?s) (unat (ap_totalFragments (am_hdr p))) (ar_pduBuffer r) fs = Inr (fs @ fs')"
        "map am_norm fs' = map (\<lambda>l. am_stream u ss ! (f + l)) [index..<index + ?n]" using ar_collect_ok[OF size lf bufs] by blast
      have all: "map am_norm (fs @ fs') = map ?g [?a..<?e]"
      proof -
        have "[?a..<?e] = [?a..<?i] @ [?i..<?e]" using i upt_add_eq_append[of ?a ?i "?e - ?i"] by simp
        then show ?thesis using fs fs'(2) shift by simp
      qed
      then have oct: "concat (map am_data (fs @ fs')) = as_octets ?s" using concat_norm[OF all] am_fragments_octets[OF ss k] by simp
      have "fs @ fs' \<noteq> []" using all i by (metis length_0_conv length_map length_upt less_irrefl_nat zero_less_diff le_less_trans)
      then obtain q qs where q: "fs @ fs' = q # qs" by (cases "fs @ fs'") auto
      then have "am_norm q = am_stream u ss ! ?a" using all i by (simp add: upt_conv_Cons)
      moreover have "?a < length (am_stream u ss)" "am_owner u ss ?a = am_owner u ss k" using o'(2) k am_owner_between(1)[OF k order_refl] i by simp_all
      ultimately have "am_tag q = as_tag ?s" using am_place(7)[OF _ N, of ?a q] by simp
      then have "ar_defragmentFrames (fs @ fs') = Inr ?s" using q oct by (simp add: ar_defragmentFrames_def)
      then show ?thesis using fs'(1) by simp
    qed
    show ?thesis
    proof (cases "?a < f")
      case False
      then have "?i = ?a" using idx(2) by simp
      then have "map am_norm [] = map ?g [?a..<?i]" by simp
      from finish[OF this, of r] have "ar_assemble index r = Inr (?s, r)"
        unfolding ar_assemble_fragments[OF p(1) nw use pl(4)] using False by (simp add: Let_def)
      then show ?thesis by (intro disjI1 exI[of _ "ar_pendingPduBuffer r"]) simp
    next
      case True
      then have iu: "?i = f" "index = 0" using idx(2) by simp_all
      obtain c' where c': "c' \<le> ?a" "map am_norm (ar_pendingPduBuffer r) = map ?g (filter (\<lambda>k. k \<in> R) [c'..<f])"
        using fresh True by (auto simp: ar_fresh_def)
      show ?thesis
      proof (cases "\<forall>q \<in> set (ar_pendingPduBuffer r). ap_snoMainPacket (am_hdr q) = am_sno ?s")
        case False
        then have "ar_assemble index r = Inl (Runtime_Error ''AmRxQueue::passUp(): fragment buffer has fragments for another SDU'')"
          unfolding ar_assemble_fragments[OF p(1) nw use pl(4)] ar_takePending_ok using True by auto
        then show ?thesis using True by (simp add: ar_known_error_def)
      next
        case same: True
        have "filter (\<lambda>k. k \<in> R) [c'..<f] = [?a..<f]"
        proof -
          have "[c'..<f] = [c'..<?a] @ [?a..<f]" using c'(1) True by (metis less_imp_le upt_add_eq_append le_add_diff_inverse)
          moreover have "filter (\<lambda>k. k \<in> R) [?a..<f] = [?a..<f]" using c i(2) iu(1) by (auto simp: ar_complete_def filter_id_conv)
          moreover have "filter (\<lambda>k. k \<in> R) [c'..<?a] = []"
          proof (rule ccontr)
            assume "filter (\<lambda>k. k \<in> R) [c'..<?a] \<noteq> []"
            then obtain x where x: "x \<in> R" "c' \<le> x" "x < ?a" by (auto simp: filter_empty_conv)
            then have "am_stream u ss ! x \<in> set (map am_norm (ar_pendingPduBuffer r))" unfolding c'(2) using True by auto
            then obtain q where q: "q \<in> set (ar_pendingPduBuffer r)" "am_norm q = am_stream u ss ! x" by auto
            have xl: "x < length (am_stream u ss)" using x R by auto
            have "am_sno (ss ! am_owner u ss x) = am_sno ?s" using same q(1) am_place(4)[OF xl N q(2)] by auto
            then have "am_owner u ss x = am_owner u ss k" using ss am_ownerE(1)[OF xl] o'(1)
              by (simp add: am_sdus_ok_def distinct_conv_nth) (metis length_map nth_map)
            then show False using am_ownerE(2)[OF xl] x(3) by simp
          qed
          ultimately show ?thesis by simp
        qed
        then have "map am_norm (ar_pendingPduBuffer r) = map ?g [?a..<?i]" using c'(2) iu(1) by simp
        from finish[OF this, of "r\<lparr>ar_pendingPduBuffer := []\<rparr>"] have "ar_assemble index r = Inr (?s, r\<lparr>ar_pendingPduBuffer := []\<rparr>)"
          unfolding ar_assemble_fragments[OF p(1) nw use pl(4)] ar_takePending_ok using True same by (simp add: Let_def)
        then show ?thesis using True by (intro disjI1 exI[of _ "[]"]) simp
      qed
    qed
  qed
qed

text \<open>
  What an operation may end in: a state of the invariant, or a known throw, which needs a window that has moved. A step may also
  receive more and move the window.
\<close>

definition ar_goes :: "nat set \<Rightarrow> nat \<Rightarrow> am_sdu list \<Rightarrow> nat \<Rightarrow> nat list \<Rightarrow> nat \<Rightarrow> am_rx cpp \<Rightarrow> bool" where
  "ar_goes R u ss f ds W res = (case res of Inl e \<Rightarrow> ar_known_error e \<and> 0 < f | Inr r \<Rightarrow> ar_size r = W \<and> ar_inv R u ss f ds r)"

definition ar_good :: "nat set \<Rightarrow> nat \<Rightarrow> am_sdu list \<Rightarrow> nat \<Rightarrow> nat \<Rightarrow> am_rx cpp \<Rightarrow> bool" where
  "ar_good R u ss f W res = (case res of
      Inl e \<Rightarrow> ar_known_error e
    | Inr r \<Rightarrow> ar_size r = W \<and> (\<exists>R' f' ds. R \<subseteq> R' \<and> f \<le> f' \<and> ar_inv R' u ss f' ds r))"

lemma ar_goodI: "ar_inv R' u ss f' ds r \<Longrightarrow> R \<subseteq> R' \<Longrightarrow> f \<le> f' \<Longrightarrow> ar_size r = W \<Longrightarrow> ar_good R u ss f W (Inr r)"
  unfolding ar_good_def by auto

lemma ar_goes_good: "ar_goes R' u ss f ds W res \<Longrightarrow> R \<subseteq> R' \<Longrightarrow> ar_good R u ss f W res"
  by (cases res) (auto simp: ar_goes_def ar_good_def)

text \<open>Every complete SDU that starts in the window has gone up.\<close>

definition ar_full :: "nat set \<Rightarrow> nat \<Rightarrow> am_sdu list \<Rightarrow> nat \<Rightarrow> nat list \<Rightarrow> bool" where
  "ar_full R u ss f ds = (\<forall>i < length ss. f \<le> am_start u ss i \<longrightarrow> {am_start u ss i..<am_start u ss (Suc i)} \<subseteq> R \<longrightarrow> i \<in> set ds)"

lemma ar_full_insert:
  assumes "ar_full R u ss f ds" "k < length (am_stream u ss)" "set ds \<subseteq> set ds'"
    and "f \<le> am_first u ss k \<longrightarrow> ar_complete (insert k R) u ss k \<longrightarrow> am_owner u ss k \<in> set ds'"
  shows "ar_full (insert k R) u ss f ds'"
  unfolding ar_full_def
proof (intro allI impI)
  fix i assume i: "i < length ss" "f \<le> am_start u ss i" "{am_start u ss i..<am_start u ss (Suc i)} \<subseteq> insert k R"
  show "i \<in> set ds'"
  proof (cases "am_start u ss i \<le> k \<and> k < am_start u ss (Suc i)")
    case True
    then have o': "am_owner u ss k = i" by (intro am_owner_eq i) simp_all
    then have "ar_complete (insert k R) u ss k" using i(3) by (auto simp: ar_complete_def am_end_def)
    then show ?thesis using assms(4) i(2) o' by simp
  next
    case False
    then have "{am_start u ss i..<am_start u ss (Suc i)} \<subseteq> R" using i(3) by auto
    then show ?thesis using assms(1,3) i(1,2) unfolding ar_full_def by blast
  qed
qed

lemma am_owner_first: "k < length (am_stream u ss) \<Longrightarrow> am_first u ss k \<le> f \<Longrightarrow> f < am_end u ss k \<Longrightarrow>
  f < length (am_stream u ss) \<and> am_owner u ss f = am_owner u ss k \<and> am_end u ss f = am_end u ss k"
  using am_owner_between[of k u ss f] am_ownerE(6)[of k u ss] by simp

lemma ar_passUp_ok:
  assumes inv: "ar_inv R u ss f ds r" and ss: "am_sdus_ok u ss" and info: "ar_flowControlInfo r \<noteq> None"
    and k: "k < length (am_stream u ss)" and c: "ar_complete R u ss k" and W: "am_end u ss k \<le> f + ar_size r"
    and idx: "index < ar_size r" "f + index = max f (am_first u ss k)" "f < am_end u ss k"
    and fresh: "ar_fresh R u ss f k (ar_pendingPduBuffer r)" and new: "am_owner u ss k \<notin> set ds"
  shows "ar_goes R u ss f (ds @ [am_owner u ss k]) (ar_size r) (ar_passUp now index r)"
proof -
  let ?s = "ss ! am_owner u ss k"
  have b: "ar_buffer_ok R u ss f r" and n: "ar_numbers_ok R u ss f r" and pe: "ar_pending_ok R u ss f (ar_pendingPduBuffer r)" and o': "ar_out_ok R u ss f ds r"
    using inv by (simp_all add: ar_inv_def)
  have R: "R \<subseteq> {..<length (am_stream u ss)}" using n by (simp add: ar_numbers_ok_def)
  have N: "length (am_stream u ss) < 2 ^ 31" using ss by (simp add: am_sdus_ok_def)
  from ar_assemble_ok[OF b R ss k c W idx fresh]
  consider e where "ar_assemble index r = Inl e" "ar_known_error e" "0 < f"
    | pd where "ar_assemble index r = Inr (?s, r\<lparr>ar_pendingPduBuffer := pd\<rparr>)" "pd = ar_pendingPduBuffer r \<or> pd = [] \<and> am_first u ss k < f" by blast
  then show ?thesis
  proof cases
    case 1
    then show ?thesis by (simp add: ar_passUp_def ar_goes_def)
  next
    case 2
    have ok: "am_sdu_ok ?s" using ss am_ownerE(1)[OF k] by (auto simp: am_sdus_ok_def)
    let ?r = "r\<lparr>ar_pendingPduBuffer := pd, ar_totalRcvdBytes := ar_totalRcvdBytes r + of_nat (length (drop RLC_HEADER_AM (as_octets ?s))),
      ar_out := ar_out r @ [am_up ?s]\<rparr>"
    have e: "ar_passUp now index r = ar_sendStatusReport now ?r"
      using am_popSdu_up[OF ok] 2(1) by (auto simp: ar_passUp_def am_up_def ar_effect_def)
    have pd: "ar_pending_ok R u ss f pd"
    proof (cases "pd = ar_pendingPduBuffer r")
      case True
      then show ?thesis using pe by simp
    next
      case False
      then have "pd = []" "am_first u ss k < f" using 2(2) by simp_all
      then show ?thesis using am_owner_first[OF k _ idx(3)] c unfolding ar_pending_ok_def by (intro exI[of _ f]) (simp add: ar_complete_def)
    qed
    have done': "\<forall>l. am_start u ss (am_owner u ss k) \<le> l \<longrightarrow> l < am_start u ss (Suc (am_owner u ss k)) \<longrightarrow> l \<in> R"
      using c by (simp add: ar_complete_def am_end_def)
    have b': "ar_buffer_ok R u ss f ?r" using b by (simp add: ar_buffer_ok_def)
    have n': "ar_numbers_ok R u ss f ?r" using n by (simp add: ar_numbers_ok_def)
    have "ar_out_ok R u ss f (ds @ [am_owner u ss k]) ?r"
      using o' new done' am_ownerE(1)[OF k] by (auto simp: ar_out_ok_def am_up_def)
    then have inv': "ar_inv R u ss f (ds @ [am_owner u ss k]) ?r" using b' n' pd by (simp add: ar_inv_def)
    have "ar_flowControlInfo ?r \<noteq> None" using info by simp
    from ar_sendStatusReport_ok[OF b' n' N this] obtain es x where
      es: "ar_sendStatusReport now ?r = Inr (?r\<lparr>ar_out := ar_out ?r @ es, ar_lastSentAck := x\<rparr>)" "ar_controls R u ss f es" by blast
    show ?thesis unfolding e es(1) using ar_controls_inv[OF inv' es(2), of x] by (simp add: ar_goes_def)
  qed
qed

text \<open>The first fragment, when it is found, with everything from there on.\<close>

lemma ar_firstIndex_ok:
  assumes b: "ar_buffer_ok R u ss f r" and n: "ar_numbers_ok R u ss f r" and N: "length (am_stream u ss) < 2 ^ 31"
    and i: "i < ar_size r" "f + i \<in> R" and p: "am_norm p = am_stream u ss ! (f + i)"
  shows "ar_firstIndex i (am_hdr p) r = Inr None \<and> (am_first u ss (f + i) < f \<or> (\<exists>l. am_first u ss (f + i) \<le> l \<and> l < f + i \<and> l \<notin> R)) \<or> (\<exists>j. ar_firstIndex i (am_hdr p) r = Inr (Some j)
    \<and> f + j = max f (am_first u ss (f + i)) \<and> j \<le> i \<and> (\<forall>l. am_first u ss (f + i) \<le> l \<longrightarrow> l \<le> f + i \<longrightarrow> l \<in> R))"
proof -
  let ?k = "f + i" and ?a = "am_first u ss (f + i)"
  have R: "R \<subseteq> {..<length (am_stream u ss)}" and cl: "am_clean R u ss f" using n by (simp_all add: ar_numbers_ok_def)
  have k: "?k < length (am_stream u ss)" using R i by auto
  note o' = am_ownerE[OF k] and pl = am_place[OF k N p]
  consider (first) "ap_isFirst (am_hdr p)" | (zero) "\<not> ap_isFirst (am_hdr p)" "i = 0" | (inner) "\<not> ap_isFirst (am_hdr p)" "0 < i" by blast
  then show ?thesis
  proof cases
    case first
    then have "?k = ?a" using pl(1) by simp
    then show ?thesis using first i by (intro disjI2 exI[of _ i]) (auto simp: ar_firstIndex_def)
  next
    case zero
    then have a: "?a < f" using pl(1) o'(2) by simp
    have "ar_firstSdu r = am_sno (ss ! am_owner u ss f)" using n a k zero(2) by (simp add: ar_numbers_ok_def)
    then have e: "ar_firstIndex i (am_hdr p) r = Inr (Some 0)" using zero pl(4) by (simp add: ar_firstIndex_def)
    have "l \<in> R" if l: "?a \<le> l" "l \<le> f + i" for l
    proof (cases "l = f")
      case True
      then show ?thesis using i zero by simp
    next
      case False
      then have lf: "l < f" using l zero by simp
      then have "am_end u ss l = am_end u ss ?k" using am_owner_between[OF k l(1)] o'(3) zero(2) by simp
      then show ?thesis using cl lf o'(3) zero(2) unfolding am_clean_def by (metis add_0_right leD)
    qed
    then show ?thesis using e a zero by (intro disjI2 exI[of _ 0]) auto
  next
    case inner
    then have a: "?a < ?k" using pl(1) o'(2) by simp
    have e: "ar_firstIndex i (am_hdr p) r = ar_searchBack (rev [0..<i]) (am_sno (ss ! am_owner u ss ?k)) r"
      using inner pl(4) by (simp add: ar_firstIndex_def)
    from ar_searchBack_ok[OF b R N k _ a order_refl] i(1)
    consider "ar_searchBack (rev [0..<i]) (am_sno (ss ! am_owner u ss ?k)) r = Inr None" "?a < f \<or> (\<exists>l. ?a \<le> l \<and> l < ?k \<and> l \<notin> R)"
      | j where "ar_searchBack (rev [0..<i]) (am_sno (ss ! am_owner u ss ?k)) r = Inr (Some j)" "f + j = ?a" "j < i" "\<forall>l. j \<le> l \<longrightarrow> l < i \<longrightarrow> f + l \<in> R"
      by (meson less_imp_le)
    then show ?thesis
    proof cases
      case 1
      then show ?thesis unfolding e by simp
    next
      case 2
      have "l \<in> R" if l: "?a \<le> l" "l \<le> f + i" for l
      proof (cases "l = ?k")
        case True
        then show ?thesis using i by simp
      next
        case False
        then show ?thesis using 2(2) 2(4)[rule_format, of "l - f"] l by simp
      qed
      then show ?thesis unfolding e using 2(1-3) by (intro disjI2 exI[of _ j]) auto
    qed
  qed
qed

text \<open>The two outcomes: the SDU is passed up, or some fragment is missing, or left the window before.\<close>

lemma ar_checkCompleteSdu_cases:
  assumes inv: "ar_inv R u ss f ds r" and ss: "am_sdus_ok u ss" and i: "i < ar_size r" "f + i \<in> R"
  obtains (open_sdu) x where "ar_checkCompleteSdu now i r = Inr (r\<lparr>ar_firstSdu := x\<rparr>)" "ar_inv R u ss f ds (r\<lparr>ar_firstSdu := x\<rparr>)"
      "\<not> (f \<le> am_first u ss (f + i) \<and> ar_complete R u ss (f + i))"
    | (pass_up) x j where "ar_checkCompleteSdu now i r = ar_passUp now j (r\<lparr>ar_firstSdu := x\<rparr>)" "ar_inv R u ss f ds (r\<lparr>ar_firstSdu := x\<rparr>)"
      "f + j = max f (am_first u ss (f + i))" "j \<le> i" "ar_complete R u ss (f + i)" "am_end u ss (f + i) \<le> f + ar_size r"
proof -
  let ?k = "f + i"
  have N: "length (am_stream u ss) < 2 ^ 31" using ss by (simp add: am_sdus_ok_def)
  have R: "R \<subseteq> {..<length (am_stream u ss)}" and RW: "\<forall>k \<in> R. k < f + ar_size r" using inv by (simp_all add: ar_inv_def ar_numbers_ok_def)
  have k: "?k < length (am_stream u ss)" using R i by auto
  note o' = am_ownerE[OF k]
  have "ar_buffer_ok R u ss f r" using inv by (simp add: ar_inv_def)
  from ar_buffer_get[OF this i] obtain p where p: "ca_get i (ar_pduBuffer r) = Some p" "am_norm p = am_stream u ss ! ?k" .
  note pl = am_place[OF k N p(2)]
  define x where "x = (if ar_firstSdu r = -1 then ap_snoMainPacket (am_hdr p) else ar_firstSdu r)"
  let ?r1 = "r\<lparr>ar_firstSdu := x\<rparr>"
  have first: "x = am_sno (ss ! am_owner u ss f)" if f: "f < length (am_stream u ss)" "am_first u ss f < f"
  proof -
    have "ar_firstSdu r = am_sno (ss ! am_owner u ss f)" using inv f by (simp add: ar_inv_def ar_numbers_ok_def)
    moreover have "am_sno (ss ! am_owner u ss f) \<noteq> -1" using ss am_ownerE(1)[OF f(1)] by (auto simp: am_sdus_ok_def)
    ultimately show ?thesis by (simp add: x_def)
  qed
  have inv1: "ar_inv R u ss f ds ?r1"
    using inv first by (simp add: ar_inv_def ar_buffer_ok_def ar_numbers_ok_def ar_out_ok_def)
  have b1: "ar_buffer_ok R u ss f ?r1" and n1: "ar_numbers_ok R u ss f ?r1" using inv1 by (simp_all add: ar_inv_def)
  have r1: "(if ar_firstSdu r = -1 then r\<lparr>ar_firstSdu := ap_snoMainPacket (am_hdr p)\<rparr> else r) = ?r1" by (simp add: x_def)
  have e: "ar_checkCompleteSdu now i r = (if ap_isWhole (am_hdr p) then ar_passUp now i ?r1
    else cpp_bind (ar_firstIndex i (am_hdr p) ?r1) (\<lambda>fi. case fi of
        None \<Rightarrow> Inr ?r1
      | Some j \<Rightarrow> if ap_isLast (am_hdr p) then ar_passUp now j ?r1
          else cpp_bind (ar_searchForward [i + 1..<ar_size ?r1] (am_sno (ss ! am_owner u ss ?k)) ?r1) (\<lambda>complete.
            if complete then ar_passUp now j ?r1 else Inr ?r1)))"
    unfolding ar_checkCompleteSdu_def ca_the_Some[OF p(1)] cpp_bind_simps Let_def pl(4)[symmetric] r1 by (rule refl)
  show thesis
  proof (cases "ap_isWhole (am_hdr p)")
    case True
    then have w: "Suc (am_first u ss ?k) = am_end u ss ?k" using pl(3) by simp
    then have a: "am_first u ss ?k = ?k" "am_end u ss ?k = Suc ?k" using o'(2,3) by simp_all
    have "ar_complete R u ss ?k" using a i(2) by (simp add: ar_complete_def le_less_Suc_eq)
    moreover have "ar_checkCompleteSdu now i r = ar_passUp now i ?r1" unfolding e using True by simp
    ultimately show thesis using inv1 a i(1) by (intro pass_up[of i x]) simp_all
  next
    case False
    have i1: "i < ar_size ?r1" using i(1) by simp
    from ar_firstIndex_ok[OF b1 n1 N i1 i(2) p(2)]
    consider "ar_firstIndex i (am_hdr p) ?r1 = Inr None" "am_first u ss ?k < f \<or> (\<exists>l. am_first u ss ?k \<le> l \<and> l < ?k \<and> l \<notin> R)"
      | j where "ar_firstIndex i (am_hdr p) ?r1 = Inr (Some j)" "f + j = max f (am_first u ss ?k)" "j \<le> i" "\<forall>l. am_first u ss ?k \<le> l \<longrightarrow> l \<le> ?k \<longrightarrow> l \<in> R" by blast
    then show thesis
    proof cases
      case 1
      have "\<not> (f \<le> am_first u ss ?k \<and> ar_complete R u ss ?k)" using 1(2) o'(3) unfolding ar_complete_def by (meson leD less_trans)
      moreover have "ar_checkCompleteSdu now i r = Inr ?r1" unfolding e using False 1(1) by simp
      ultimately show thesis using inv1 by (intro open_sdu[of x])
    next
      case 2
      show thesis
      proof (cases "ap_isLast (am_hdr p)")
        case True
        then have l: "am_end u ss ?k = Suc ?k" using pl(2) by simp
        have "ar_complete R u ss ?k" using 2(4) l by (simp add: ar_complete_def)
        moreover have "ar_checkCompleteSdu now i r = ar_passUp now j ?r1" unfolding e using False True 2(1) by simp
        ultimately show thesis using inv1 2(2,3) l i(1) by (intro pass_up[of j x]) simp_all
      next
        case nl: False
        then have l: "f + (i + 1) < am_end u ss ?k" using pl(2) o'(3) by simp
        have "i + 1 \<le> ar_size ?r1" "?k < f + (i + 1)" using i(1) by simp_all
        note c = ar_searchForward_ok[OF b1 R N k this l]
        show thesis
        proof (cases "\<forall>l. i + 1 \<le> l \<longrightarrow> f + l < am_end u ss ?k \<longrightarrow> l < ar_size ?r1 \<and> f + l \<in> R")
          case True
          have "am_end u ss ?k \<le> f + ar_size r"
          proof -
            have "i + 1 \<le> am_end u ss ?k - 1 - f" "f + (am_end u ss ?k - 1 - f) < am_end u ss ?k" using l by simp_all
            then have "am_end u ss ?k - 1 - f < ar_size ?r1" using True by blast
            then have "am_end u ss ?k - 1 - f < ar_size r" by simp
            then show ?thesis by linarith
          qed
          moreover have "ar_complete R u ss ?k" unfolding ar_complete_def
          proof (intro allI impI)
            fix y assume y: "am_first u ss ?k \<le> y" "y < am_end u ss ?k"
            show "y \<in> R"
            proof (cases "y \<le> ?k")
              case True
              then show ?thesis using 2(4) y by simp
            next
              case False
              then have "i + 1 \<le> y - f" "f + (y - f) = y" by simp_all
              then show ?thesis using True y(2) by metis
            qed
          qed
          moreover have "ar_checkCompleteSdu now i r = ar_passUp now j ?r1" unfolding e c cpp_bind_simps using False nl 2(1) True by simp
          ultimately show thesis using inv1 2(2,3) by (intro pass_up[of j x])
        next
          case no: False
          then obtain l where lo: "i + 1 \<le> l" "f + l < am_end u ss ?k" "\<not> (l < ar_size ?r1 \<and> f + l \<in> R)" by blast
          have "\<not> ar_complete R u ss ?k"
          proof
            assume "ar_complete R u ss ?k"
            then have fl: "f + l \<in> R" using lo(1,2) o'(2) unfolding ar_complete_def by simp
            then have "f + l < f + ar_size r" using RW by blast
            then show False using fl lo(3) by simp
          qed
          moreover have "ar_checkCompleteSdu now i r = Inr ?r1" unfolding e c cpp_bind_simps if_not_P[OF no] using False nl 2(1) by simp
          ultimately show thesis using inv1 by (intro open_sdu[of x]) simp_all
        qed
      qed
    qed
  qed
qed

lemma ar_checkCompleteSdu_ok:
  assumes inv: "ar_inv R u ss f ds r" and ss: "am_sdus_ok u ss" and info: "ar_flowControlInfo r \<noteq> None"
    and i: "i < ar_size r" "f + i \<in> R"
    and fresh: "ar_fresh R u ss f (f + i) (ar_pendingPduBuffer r)" and new: "am_owner u ss (f + i) \<notin> set ds"
  obtains ds' where "ar_goes R u ss f ds' (ar_size r) (ar_checkCompleteSdu now i r)" "set ds \<subseteq> set ds'"
    "f \<le> am_first u ss (f + i) \<longrightarrow> ar_complete R u ss (f + i) \<longrightarrow> am_owner u ss (f + i) \<in> set ds'"
proof (rule ar_checkCompleteSdu_cases[OF inv ss i, of now])
  fix x assume e: "ar_checkCompleteSdu now i r = Inr (r\<lparr>ar_firstSdu := x\<rparr>)" and inv1: "ar_inv R u ss f ds (r\<lparr>ar_firstSdu := x\<rparr>)"
    and no: "\<not> (f \<le> am_first u ss (f + i) \<and> ar_complete R u ss (f + i))"
  have "ar_goes R u ss f ds (ar_size r) (ar_checkCompleteSdu now i r)" unfolding e using inv1 by (simp add: ar_goes_def)
  then show thesis using no by (intro that[of ds]) simp_all
next
  fix x j assume e: "ar_checkCompleteSdu now i r = ar_passUp now j (r\<lparr>ar_firstSdu := x\<rparr>)" and inv1: "ar_inv R u ss f ds (r\<lparr>ar_firstSdu := x\<rparr>)"
    and j: "f + j = max f (am_first u ss (f + i))" "j \<le> i" and c: "ar_complete R u ss (f + i)" and W: "am_end u ss (f + i) \<le> f + ar_size r"
  have k: "f + i < length (am_stream u ss)" using inv i by (auto simp: ar_inv_def ar_numbers_ok_def)
  have "ar_goes R u ss f (ds @ [am_owner u ss (f + i)]) (ar_size r) (ar_checkCompleteSdu now i r)"
    unfolding e using ar_passUp_ok[OF inv1 ss _ k c _ _ j(1) _ _ new] info i(1) j(2) W am_ownerE(3)[OF k] fresh by simp
  then show thesis by (intro that[of "ds @ [am_owner u ss (f + i)]"]) auto
qed

end
