(* ===== verification/Rlc_Am_Reception.thy ===== *)
theory Rlc_Am_Reception
  imports Rlc_Am_Receiver
begin

text \<open>
  Every event of the receiving entity of RLC AM preserves its invariant or ends in a known throw: data PDUs in any order and any
  number of times, commands that move the window, the status timer.
\<close>

section \<open>Data PDUs\<close>

text \<open>What is honest about a set of received numbers stays so when more arrive or more SDUs are taken.\<close>

lemma at_control_ok_mono:
  assumes "at_control_ok R u ss h" "R \<subseteq> R'"
  shows "at_control_ok R' u (ss @ ts) h"
proof -
  have l: "length (am_stream u ss) \<le> length (am_stream u (ss @ ts))" using am_stream_append[of u ss ts] by auto
  have "at_cum_ok R u ss x \<Longrightarrow> at_cum_ok R' u (ss @ ts) x" for x using am_clean_mono[OF _ assms(2)] by (auto simp: at_cum_ok_def)
  moreover have "at_bits_ok R u ss bm x \<Longrightarrow> at_bits_ok R' u (ss @ ts) bm x" for bm x
    using l assms(2) unfolding at_bits_ok_def by (meson less_le_trans subsetD)
  ultimately show ?thesis using assms(1) am_clean_mono[OF _ assms(2)] by (auto simp: at_control_ok_def split: am_type.splits)
qed

lemma ar_insert_inv:
  assumes inv: "ar_inv R u ss f ds r" and k: "k \<notin> R" "f \<le> k" "k < f + ar_size r" "k < length (am_stream u ss)" "am_norm p = am_stream u ss ! k"
  shows "ar_inv (insert k R) u ss f ds (r\<lparr>ar_pduBuffer := ca_set (k - f) (Some p) (ar_pduBuffer r), ar_received := (ar_received r)[k - f := True]\<rparr>)"
    "ar_fresh (insert k R) u ss f k (ar_pendingPduBuffer r)" "am_owner u ss k \<notin> set ds"
proof -
  let ?i = "k - f" and ?r = "r\<lparr>ar_pduBuffer := ca_set (k - f) (Some p) (ar_pduBuffer r), ar_received := (ar_received r)[k - f := True]\<rparr>"
  have b: "ar_buffer_ok R u ss f r" and n: "ar_numbers_ok R u ss f r" and pe: "ar_pending_ok R u ss f (ar_pendingPduBuffer r)" and o': "ar_out_ok R u ss f ds r"
    using inv by (simp_all add: ar_inv_def)
  note b' = b[unfolded ar_buffer_ok_def]
  have i: "?i < ar_size r" "f + ?i = k" using k by simp_all
  have b1: "ar_buffer_ok (insert k R) u ss f ?r" unfolding ar_buffer_ok_def
  proof (intro conjI allI impI)
    show "0 < ar_size ?r" "ar_first ?r = of_nat f" "length (ar_received ?r) = ar_size ?r" "length (ar_discarded ?r) = ar_size ?r" using b' by simp_all
    fix j
    show "ar_received ?r ! j = (f + j \<in> insert k R)" if "j < ar_size ?r" using b' that i by (auto simp: nth_list_update)
    show "\<exists>q. ca_get j (ar_pduBuffer ?r) = Some q \<and> am_norm q = am_stream u ss ! (f + j)" if "j < ar_size ?r" "f + j \<in> insert k R"
      using b' that i k(5) by (cases "j = ?i") auto
    show "ca_get j (ar_pduBuffer ?r) = None" if "j < ar_size ?r" "f + j \<notin> insert k R" using b' that i by auto
    show "ca_get j (ar_pduBuffer ?r) = None" if "ar_size ?r \<le> j" using b' that i by auto
  qed
  have n1: "ar_numbers_ok (insert k R) u ss f ?r" using n k am_clean_mono[of R u ss f "insert k R" "[]"] by (auto simp: ar_numbers_ok_def)
  have fl: "filter (\<lambda>x. x \<in> insert k R) [c..<f] = filter (\<lambda>x. x \<in> R) [c..<f]" for c using k(2) by (intro filter_cong) auto
  have p1: "ar_pending_ok (insert k R) u ss f (ar_pendingPduBuffer r)" using pe unfolding ar_pending_ok_def fl by blast
  have o1: "ar_out_ok (insert k R) u ss f ds ?r" using o' at_control_ok_mono[of R u ss _ "insert k R" "[]"]
    unfolding ar_out_ok_def ar_control_ok_def by auto
  show "ar_inv (insert k R) u ss f ds ?r" using b1 n1 p1 o1 by (simp add: ar_inv_def)
  show "am_owner u ss k \<notin> set ds"
  proof
    assume "am_owner u ss k \<in> set ds"
    then have "k \<in> R" using o' am_ownerE(2,3)[OF k(4)] unfolding ar_out_ok_def am_end_def by blast
    then show False using k(1) by simp
  qed
  show "ar_fresh (insert k R) u ss f k (ar_pendingPduBuffer r)" unfolding ar_fresh_def
  proof
    assume a: "am_first u ss k < f"
    have f: "f < length (am_stream u ss)" "am_owner u ss f = am_owner u ss k" "am_end u ss f = am_end u ss k"
      using am_owner_first[OF k(4), of f] a k(2) am_ownerE(3)[OF k(4)] by simp_all
    obtain c where c: "map am_norm (ar_pendingPduBuffer r) = map ((!) (am_stream u ss)) (filter (\<lambda>k. k \<in> R) [c..<f])"
      "c \<le> am_first u ss f \<or> (\<forall>k. am_first u ss f \<le> k \<longrightarrow> k < am_end u ss f \<longrightarrow> k \<in> R)" using pe f(1) unfolding ar_pending_ok_def by blast
    have "c \<le> am_first u ss k" using c(2) k(1) am_ownerE(2,3)[OF k(4)] unfolding f(2,3) by blast
    then show "\<exists>c \<le> am_first u ss k. map am_norm (ar_pendingPduBuffer r) = map ((!) (am_stream u ss)) (filter (\<lambda>x. x \<in> insert k R) [c..<f])"
      using c(1) unfolding fl by blast
  qed
qed

lemma ar_store_ok:
  assumes inv: "ar_inv R u ss f ds r" and ss: "am_sdus_ok u ss" and info: "ar_flowControlInfo r \<noteq> None"
    and k: "f \<le> k" "k < f + ar_size r" "k < length (am_stream u ss)" "am_norm p = am_stream u ss ! k"
  obtains ds' where "ar_goes (insert k R) u ss f ds' (ar_size r) (ar_store now (k - f) p r)" "ar_full R u ss f ds \<longrightarrow> ar_full (insert k R) u ss f ds'"
proof -
  let ?i = "k - f"
  have b: "ar_buffer_ok R u ss f r" using inv by (simp add: ar_inv_def)
  note b' = b[unfolded ar_buffer_ok_def]
  have N: "length (am_stream u ss) < 2 ^ 31" using ss by (simp add: am_sdus_ok_def)
  have i: "?i < ar_size r" "f + ?i = k" using k by simp_all
  have l: "?i < length (ar_received r)" using b' i by simp
  show thesis
  proof (cases "k \<in> R")
    case True
    have t: "ar_received r ! ?i" using b' i True by auto
    obtain q where q: "ca_get ?i (ar_pduBuffer r) = Some q" "am_norm q = am_stream u ss ! k" using ar_buffer_get[OF b i(1)] True i(2) by metis
    have "ap_snoMainPacket (am_hdr q) = ap_snoMainPacket (am_hdr p)" using am_place(4)[OF k(3) N] q(2) k(4) by simp
    then have "ar_store now ?i p r = Inr r" using t q(1) l by (simp add: ar_store_def)
    then show thesis using inv True by (intro that[of ds]) (simp_all add: ar_goes_def insert_absorb)
  next
    case False
    have t: "\<not> ar_received r ! ?i" "ca_get ?i (ar_pduBuffer r) = None" using b' i False by auto
    let ?r = "r\<lparr>ar_pduBuffer := ca_set ?i (Some p) (ar_pduBuffer r), ar_received := (ar_received r)[?i := True]\<rparr>"
    have e: "ar_store now ?i p r = ar_checkCompleteSdu now ?i ?r" using t l by (simp add: ar_store_def)
    note ins = ar_insert_inv[OF inv False k(1,2,3,4)]
    have ii: "?i < ar_size ?r" "f + ?i \<in> insert k R" "ar_flowControlInfo ?r \<noteq> None" using i info by simp_all
    have fr: "ar_fresh (insert k R) u ss f (f + ?i) (ar_pendingPduBuffer ?r)" "am_owner u ss (f + ?i) \<notin> set ds" using ins(2,3) i(2) by simp_all
    obtain ds' where ds': "ar_goes (insert k R) u ss f ds' (ar_size ?r) (ar_checkCompleteSdu now ?i ?r)" "set ds \<subseteq> set ds'"
      "f \<le> am_first u ss (f + ?i) \<longrightarrow> ar_complete (insert k R) u ss (f + ?i) \<longrightarrow> am_owner u ss (f + ?i) \<in> set ds'"
      using ar_checkCompleteSdu_ok[OF ins(1) ss ii(3,1,2) fr, of now] .
    show thesis using that[of ds'] ds' ar_full_insert[OF _ k(3) ds'(2)] unfolding e i(2) by simp
  qed
qed

lemma rw_index_of_nat:
  assumes "rw_firstSeqNum w = of_nat f" "k < 2 ^ 31" "f < 2 ^ 31"
  shows "rw_index (of_nat k) w = int k - int f"
proof -
  have e: "(of_nat k - of_nat f :: 32 word) = word_of_int (int k - int f)" by simp
  have "rw_index (of_nat k) w = signed_take_bit 31 (int k - int f)" unfolding rw_index_def assms(1) e by (simp only: signed_of_int) simp
  also have "\<dots> = int k - int f" using assms(2,3) by (intro signed_take_bit_int_eq_self) simp_all
  finally show ?thesis .
qed

lemma ar_enque_data_ok:
  assumes inv: "ar_inv R u ss f ds r" and ss: "am_sdus_ok u ss" and W: "length (am_stream u ss) \<le> f + ar_size r"
    and p: "ap_amType (am_hdr p) = Am_Data" "k < length (am_stream u ss)" "am_norm p = am_stream u ss ! k"
  obtains R' ds' where "ar_goes R' u ss f ds' (ar_size r) (ar_enque now p r)" "R' = (if k < f then R else insert k R)" "ar_full R u ss f ds \<longrightarrow> ar_full R' u ss f ds'"
proof -
  have N: "length (am_stream u ss) < 2 ^ 31" using ss by (simp add: am_sdus_ok_def)
  let ?r1 = "ar_prepare now p r"
  have same: "ar_size ?r1 = ar_size r" "ar_window ?r1 = ar_window r" by (simp_all add: ar_prepare_def)
  have info: "ar_flowControlInfo ?r1 \<noteq> None" by (simp add: ar_prepare_def split: option.splits)
  have inv1: "ar_inv R u ss f ds ?r1" using inv info
    by (simp add: ar_inv_def ar_buffer_ok_def ar_numbers_ok_def ar_out_ok_def ar_prepare_def)
  have f: "ar_first r = of_nat f" "f \<le> length (am_stream u ss)" using inv by (simp_all add: ar_inv_def ar_buffer_ok_def ar_numbers_ok_def am_clean_def)
  have sn: "ap_snoFragment (am_hdr p) = of_nat k" using am_place(6)[OF p(2) N p(3)] .
  have ix: "rw_index (ap_snoFragment (am_hdr p)) (ar_window ?r1) = int k - int f"
    unfolding sn same using f p(2) N by (intro rw_index_of_nat) simp_all
  show thesis
  proof (cases "k < f")
    case True
    then have "ar_enque now p r = Inr ?r1" using p(1) ix by (simp add: ar_enque_def Let_def)
    then show thesis using inv1 same True by (intro that[of R ds]) (simp_all add: ar_goes_def)
  next
    case False
    let ?r2 = "?r1\<lparr>ar_window := (ar_window ?r1)\<lparr>rw_seqNum := ap_snoFragment (am_hdr p) + 1\<rparr>\<rparr>"
    have inv2: "ar_inv R u ss f ds ?r2" using inv1
      by (simp add: ar_inv_def ar_buffer_ok_def ar_numbers_ok_def ar_out_ok_def)
    have info2: "ar_flowControlInfo ?r2 \<noteq> None" using info by simp
    have kW: "k < f + ar_size r" using W p(2) by simp
    then have lt: "int k - int f < uint (rw_windowSize (ar_window r))" unfolding uint_nat by linarith
    have e: "ar_enque now p r = cpp_bind (if ap_snoFragment (am_hdr p) = ar_seq ?r1 then Inr ?r2 else ar_sendStatusReport now ?r2) (ar_store now (k - f) p)"
      unfolding ar_enque_def Let_def ix using p(1) False lt by (simp add: same nat_diff_distrib)
    note result = that
    have st: thesis if r': "ar_inv R u ss f ds r'" "ar_flowControlInfo r' \<noteq> None" "ar_size r' = ar_size r" "ar_enque now p r = ar_store now (k - f) p r'" for r'
    proof -
      have k: "f \<le> k" "k < f + ar_size r'" using False kW r'(3) by simp_all
      obtain ds' where "ar_goes (insert k R) u ss f ds' (ar_size r') (ar_store now (k - f) p r')" "ar_full R u ss f ds \<longrightarrow> ar_full (insert k R) u ss f ds'"
        using ar_store_ok[OF r'(1) ss r'(2) k p(2,3), of now] .
      then show thesis using False r'(3,4) by (intro result[of "insert k R" ds']) simp_all
    qed
    show thesis
    proof (cases "ap_snoFragment (am_hdr p) = ar_seq ?r1")
      case True
      then have "ar_enque now p r = ar_store now (k - f) p ?r2" unfolding e by simp
      then show thesis using inv2 info2 same by (intro st[of ?r2]) simp_all
    next
      case neq: False
      have "ar_buffer_ok R u ss f ?r2" "ar_numbers_ok R u ss f ?r2" using inv2 by (simp_all only: ar_inv_def)
      from ar_sendStatusReport_ok[OF this N info2] obtain es x where
        es: "ar_sendStatusReport now ?r2 = Inr (?r2\<lparr>ar_out := ar_out ?r2 @ es, ar_lastSentAck := x\<rparr>)" "ar_controls R u ss f es" by blast
      let ?r3 = "?r2\<lparr>ar_out := ar_out ?r2 @ es, ar_lastSentAck := x\<rparr>"
      have "ar_enque now p r = ar_store now (k - f) p ?r3" unfolding e es(1) if_not_P[OF neq] cpp_bind_simps by (rule refl)
      then show thesis using ar_controls_inv[OF inv2 es(2), of x] info same by (intro st[of ?r3]) simp_all
    qed
  qed
qed

section \<open>The window moves\<close>

text \<open>What the PDUs that leave the window leave behind.\<close>

definition ar_left :: "nat set \<Rightarrow> nat \<Rightarrow> am_sdu list \<Rightarrow> nat \<Rightarrow> nat \<Rightarrow> am_rx \<Rightarrow> am_rx \<Rightarrow> bool" where
  "ar_left R u ss f j r r' = (\<exists>buf pd x. r' = r\<lparr>ar_firstSdu := x, ar_pduBuffer := buf, ar_pendingPduBuffer := pd\<rparr>
     \<and> (\<forall>i. ca_get i buf = (if i < j then None else ca_get i (ar_pduBuffer r)))
     \<and> ar_pending_ok R u ss (f + j) pd
     \<and> (0 < j \<longrightarrow> f + j - 1 \<in> R \<longrightarrow> f + j < am_end u ss (f + j - 1) \<longrightarrow> x = am_sno (ss ! am_owner u ss (f + j - 1))))"

text \<open>The pending PDUs when one more number leaves.\<close>

lemma ar_pending_skip:
  assumes "ar_pending_ok R u ss g pd" "g \<notin> R" "g < length (am_stream u ss)"
  shows "ar_pending_ok R u ss (Suc g) pd"
proof -
  obtain c where c: "c \<le> g" "map am_norm pd = map ((!) (am_stream u ss)) (filter (\<lambda>k. k \<in> R) [c..<g])"
    "c \<le> am_first u ss g \<or> (\<forall>k. am_first u ss g \<le> k \<longrightarrow> k < am_end u ss g \<longrightarrow> k \<in> R)" using assms(1,3) unfolding ar_pending_ok_def by blast
  have cf: "c \<le> am_first u ss g" using c(3) am_ownerE(2,3)[OF assms(3)] assms(2) by blast
  have "filter (\<lambda>k. k \<in> R) [c..<Suc g] = filter (\<lambda>k. k \<in> R) [c..<g]" using c(1) assms(2) by simp
  moreover have "c \<le> am_first u ss (Suc g)" if "Suc g < length (am_stream u ss)"
    using am_owner_step(3)[OF that] cf c(1) by (cases "Suc g = am_first u ss (Suc g)") auto
  ultimately show ?thesis using c(1,2) unfolding ar_pending_ok_def by (intro exI[of _ c]) simp
qed

lemma ar_pending_last:
  assumes "Suc g = am_end u ss g" "g < length (am_stream u ss)"
  shows "ar_pending_ok R u ss (Suc g) []"
  using am_owner_step(2)[OF _ assms(1)] unfolding ar_pending_ok_def by (intro exI[of _ "Suc g"]) simp

lemma ar_pending_more:
  assumes "ar_pending_ok R u ss g pd" "g \<in> R" "g < length (am_stream u ss)" "Suc g \<noteq> am_end u ss g" "am_norm p = am_stream u ss ! g"
  shows "ar_pending_ok R u ss (Suc g) (pd @ [p])"
proof -
  obtain c where c: "c \<le> g" "map am_norm pd = map ((!) (am_stream u ss)) (filter (\<lambda>k. k \<in> R) [c..<g])"
    "c \<le> am_first u ss g \<or> (\<forall>k. am_first u ss g \<le> k \<longrightarrow> k < am_end u ss g \<longrightarrow> k \<in> R)" using assms(1,3) unfolding ar_pending_ok_def by blast
  have lt: "Suc g < am_end u ss g" using am_ownerE(3)[OF assms(3)] assms(4) by simp
  have o': "am_owner u ss (Suc g) = am_owner u ss g" "am_end u ss (Suc g) = am_end u ss g"
    using am_owner_between[OF assms(3) _ lt] am_ownerE(2)[OF assms(3)] by simp_all
  have "filter (\<lambda>k. k \<in> R) [c..<Suc g] = filter (\<lambda>k. k \<in> R) [c..<g] @ [g]" using c(1) assms(2) by simp
  then show ?thesis using c assms(5) unfolding ar_pending_ok_def o' by (intro exI[of _ c]) simp
qed

lemma ar_leave_ok:
  assumes b: "ar_buffer_ok R u ss f r" and N: "length (am_stream u ss) < 2 ^ 31" and j: "j < ar_size r" "f + j < length (am_stream u ss)"
    and left: "ar_left R u ss f j r r'"
  shows "ar_left R u ss f (Suc j) r (ar_leave j r')"
proof -
  let ?g = "f + j"
  note b' = b[unfolded ar_buffer_ok_def]
  obtain buf pd x where r': "r' = r\<lparr>ar_firstSdu := x, ar_pduBuffer := buf, ar_pendingPduBuffer := pd\<rparr>"
    and buf: "\<forall>i. ca_get i buf = (if i < j then None else ca_get i (ar_pduBuffer r))" and pd: "ar_pending_ok R u ss ?g pd"
    using left unfolding ar_left_def by (elim exE conjE) (rule that; assumption)
  have S: "f + Suc j = Suc ?g" "Suc ?g - 1 = ?g" by simp_all
  show ?thesis
  proof (cases "?g \<in> R")
    case False
    then have n: "ca_get j (ar_pduBuffer r) = None" using b' j by simp
    then have "ca_get j buf = None" using buf by simp
    then have e: "ar_leave j r' = r\<lparr>ar_firstSdu := -1, ar_pduBuffer := buf, ar_pendingPduBuffer := pd\<rparr>" by (simp add: ar_leave_def r')
    have "\<forall>i. ca_get i buf = (if i < Suc j then None else ca_get i (ar_pduBuffer r))" using buf n by (auto simp: less_Suc_eq)
    then show ?thesis using ar_pending_skip[OF pd False j(2)] False unfolding ar_left_def e S
      by (intro exI[of _ buf] exI[of _ pd] exI[of _ "-1"]) simp
  next
    case True
    obtain p where p: "ca_get j (ar_pduBuffer r) = Some p" "am_norm p = am_stream u ss ! ?g" using ar_buffer_get[OF b j(1) True] .
    have pb: "ca_get j buf = Some p" using buf p by simp
    note pl = am_place[OF j(2) N p(2)]
    have bf: "\<forall>i. ca_get i (ca_remove j buf) = (if i < Suc j then None else ca_get i (ar_pduBuffer r))" using buf by (auto simp: less_Suc_eq)
    have whole: "ap_isWhole (am_hdr p) \<Longrightarrow> Suc ?g = am_end u ss ?g" using pl(3) am_ownerE(2,3)[OF j(2)] by simp
    show ?thesis
    proof (cases "Suc ?g = am_end u ss ?g")
      case last: True
      then have e: "ar_leave j r' = r\<lparr>ar_firstSdu := -1, ar_pduBuffer := ca_remove j buf, ar_pendingPduBuffer := []\<rparr>"
        using pb pl(2) by (simp add: ar_leave_def r' Let_def)
      show ?thesis using ar_pending_last[OF last j(2)] last bf unfolding ar_left_def e S
        by (intro exI[of _ "ca_remove j buf"] exI[of _ "[]"] exI[of _ "-1"]) simp
    next
      case False
      then have "\<not> ap_isLast (am_hdr p)" "\<not> ap_isWhole (am_hdr p)" using pl(2) whole by auto
      then have e: "ar_leave j r' = r\<lparr>ar_firstSdu := am_sno (ss ! am_owner u ss ?g), ar_pduBuffer := ca_remove j buf, ar_pendingPduBuffer := pd @ [p]\<rparr>"
        using pb pl(4) by (simp add: ar_leave_def r' Let_def)
      show ?thesis using ar_pending_more[OF pd True j(2) False p(2)] bf unfolding ar_left_def e S
        by (intro exI[of _ "ca_remove j buf"] exI[of _ "pd @ [p]"] exI[of _ "am_sno (ss ! am_owner u ss ?g)"]) simp
    qed
  qed
qed

lemma ar_leaves_ok:
  assumes "ar_buffer_ok R u ss f r" "length (am_stream u ss) < 2 ^ 31" "ar_pending_ok R u ss f (ar_pendingPduBuffer r)"
    and "pos \<le> ar_size r" "f + pos \<le> length (am_stream u ss)"
  shows "ar_left R u ss f pos r (fold ar_leave [0..<pos] r)"
  using assms(4,5)
proof (induction pos)
  case 0
  show ?case using assms(3) unfolding ar_left_def
    by (intro exI[of _ "ar_pduBuffer r"] exI[of _ "ar_pendingPduBuffer r"] exI[of _ "ar_firstSdu r"]) simp
next
  case (Suc pos)
  then show ?case using ar_leave_ok[OF assms(1,2), of pos "fold ar_leave [0..<pos] r"] by simp
qed

text \<open>The positions behind move to the front. What stays at the end has been reset, unless the shift goes beyond half of the window.\<close>

definition ar_shifted :: "nat \<Rightarrow> nat \<Rightarrow> am_rx \<Rightarrow> am_rx \<Rightarrow> bool" where
  "ar_shifted pos k r r' = (\<exists>buf rs ds. r' = r\<lparr>ar_pduBuffer := buf, ar_received := rs, ar_discarded := ds\<rparr>
     \<and> length rs = length (ar_received r) \<and> length ds = length (ar_discarded r)
     \<and> (\<forall>j. ca_get j buf = (if j < k - pos then ca_get (j + pos) (ar_pduBuffer r) else if j < k then None else ca_get j (ar_pduBuffer r)))
     \<and> (\<forall>j < length rs. rs ! j = (if j < k - pos then ar_received r ! (j + pos) else \<not> (pos \<le> j \<and> j < k) \<and> ar_received r ! j)))"

lemma ar_shifts_ok:
  assumes "0 < pos" "pos \<le> n" "length (ar_received r) = n" "length (ar_discarded r) = n" "\<forall>j < pos. ca_get j (ar_pduBuffer r) = None"
  shows "\<exists>r'. cpp_fold (ar_shift pos) [pos..<n] r = Inr r' \<and> ar_shifted pos n r r'"
proof (rule cpp_fold_upt[where P = "\<lambda>k. ar_shifted pos k r"])
  show "ar_shifted pos pos r r" unfolding ar_shifted_def using assms(5)
    by (intro exI[of _ "ar_pduBuffer r"] exI[of _ "ar_received r"] exI[of _ "ar_discarded r"]) auto
  fix k r' assume k: "pos \<le> k" "k < n" and "ar_shifted pos k r r'"
  then obtain buf rs ds where r': "r' = r\<lparr>ar_pduBuffer := buf, ar_received := rs, ar_discarded := ds\<rparr>"
    and l: "length rs = length (ar_received r)" "length ds = length (ar_discarded r)"
    and q: "\<forall>j. ca_get j buf = (if j < k - pos then ca_get (j + pos) (ar_pduBuffer r) else if j < k then None else ca_get j (ar_pduBuffer r))"
    and rs: "\<forall>j < length rs. rs ! j = (if j < k - pos then ar_received r ! (j + pos) else \<not> (pos \<le> j \<and> j < k) \<and> ar_received r ! j)"
    unfolding ar_shifted_def by (elim exE conjE) (rule that; assumption)
  have lk: "k < length rs" "k < length ds" "k - pos < length rs" "k - pos < length ds" using l k assms(3,4) by simp_all
  have ne: "k - pos \<noteq> k" "k - pos < k" using assms(1) k by simp_all
  have kv: "rs ! k = ar_received r ! k" using rs lk k assms(1) by auto
  have kg: "ca_get k buf = ca_get k (ar_pduBuffer r)" "ca_get (k - pos) buf = None" using q ne by simp_all
  define buf' where "buf' = (case ca_get k (ar_pduBuffer r) of None \<Rightarrow> ca_remove k buf | Some p \<Rightarrow> ca_set (k - pos) (Some p) (ca_remove k buf))"
  have g: "ca_get j buf' = (if j = k - pos then ca_get k (ar_pduBuffer r) else if j = k then None else ca_get j buf)" for j
    using kg ne by (simp add: buf'_def split: option.splits)
  have add: "(case ca_get k buf of None \<Rightarrow> Inr (ca_remove k buf) | Some p \<Rightarrow> ca_addAt (k - pos) p (ca_remove k buf)) = Inr buf'"
    using kg ne by (simp add: buf'_def split: option.splits)
  let ?rs = "(rs[k - pos := ar_received r ! k])[k := False]" and ?ds = "(ds[k - pos := ds ! k])[k := False]"
  have "ar_shift pos k r' = Inr (r\<lparr>ar_pduBuffer := buf', ar_received := ?rs, ar_discarded := ?ds\<rparr>)"
    using add lk kv kg(1) by (cases "ca_get k (ar_pduBuffer r)") (simp_all add: ar_shift_def r')
  moreover have "ar_shifted pos (Suc k) r (r\<lparr>ar_pduBuffer := buf', ar_received := ?rs, ar_discarded := ?ds\<rparr>)" unfolding ar_shifted_def
  proof (rule exI[of _ buf'], rule exI[of _ ?rs], rule exI[of _ ?ds], intro conjI)
    have Sk: "Suc k - pos = Suc (k - pos)" "k - pos + pos = k" using k by simp_all
    show "\<forall>j. ca_get j buf' = (if j < Suc k - pos then ca_get (j + pos) (ar_pduBuffer r) else if j < Suc k then None else ca_get j (ar_pduBuffer r))"
      using g q ne Sk by (auto simp: less_Suc_eq)
    show "\<forall>j < length ?rs. ?rs ! j = (if j < Suc k - pos then ar_received r ! (j + pos) else \<not> (pos \<le> j \<and> j < Suc k) \<and> ar_received r ! j)"
      using rs ne Sk lk k by (auto simp: nth_list_update less_Suc_eq)
  qed (use l in simp_all)
  ultimately show "\<exists>r''. ar_shift pos k r' = Inr r'' \<and> ar_shifted pos (Suc k) r r''" by blast
qed (use assms in simp)

lemma ar_moveRxWindow_ok:
  assumes inv: "ar_inv R u ss f ds r" and N: "length (am_stream u ss) < 2 ^ 31" and m: "am_clean R u ss m" "2 * (m - f) \<le> ar_size r"
  shows "\<exists>r'. ar_moveRxWindow (of_nat m) r = Inr r' \<and> ar_inv R u ss (max f m) ds r' \<and> ar_size r' = ar_size r \<and> ar_flowControlInfo r' = ar_flowControlInfo r"
proof -
  have b: "ar_buffer_ok R u ss f r" and n: "ar_numbers_ok R u ss f r" and pe: "ar_pending_ok R u ss f (ar_pendingPduBuffer r)" and o': "ar_out_ok R u ss f ds r"
    using inv by (simp_all add: ar_inv_def)
  note b' = b[unfolded ar_buffer_ok_def] and n' = n[unfolded ar_numbers_ok_def]
  have mN: "m \<le> length (am_stream u ss)" "f \<le> length (am_stream u ss)" using m(1) n' by (simp_all add: am_clean_def)
  have ix: "rw_index (of_nat m) (ar_window r) = int m - int f" using b' mN N by (intro rw_index_of_nat) simp_all
  show ?thesis
  proof (cases "m \<le> f")
    case True
    then have "ar_moveRxWindow (of_nat m) r = Inr r" using ix by (simp add: ar_moveRxWindow_def)
    then show ?thesis using inv True by (simp add: max_def)
  next
    case False
    define pos where "pos = m - f"
    have pos: "0 < pos" "f + pos = m" "2 * pos \<le> ar_size r" "pos \<le> ar_size r" "f + pos \<le> length (am_stream u ss)" using False m(2) mN by (simp_all add: pos_def)
    have ixp: "rw_index (of_nat m) (ar_window r) = int pos" using ix pos(2) by simp
    let ?r1 = "fold ar_leave [0..<pos] r"
    obtain buf pd x where r1: "?r1 = r\<lparr>ar_firstSdu := x, ar_pduBuffer := buf, ar_pendingPduBuffer := pd\<rparr>"
      and buf: "\<forall>i. ca_get i buf = (if i < pos then None else ca_get i (ar_pduBuffer r))" and pd: "ar_pending_ok R u ss m pd"
      and x: "0 < pos \<longrightarrow> m - 1 \<in> R \<longrightarrow> m < am_end u ss (m - 1) \<longrightarrow> x = am_sno (ss ! am_owner u ss (m - 1))"
      using ar_leaves_ok[OF b N pe pos(4,5)] unfolding ar_left_def pos(2) by (elim exE conjE) (rule that; assumption)
    have len: "length (ar_received ?r1) = ar_size r" "length (ar_discarded ?r1) = ar_size r" using b' by (simp_all add: r1)
    have empty': "\<forall>j < pos. ca_get j (ar_pduBuffer ?r1) = None" using buf by (simp add: r1)
    obtain r2 where r2': "cpp_fold (ar_shift pos) [pos..<ar_size r] ?r1 = Inr r2" "ar_shifted pos (ar_size r) ?r1 r2"
      using ar_shifts_ok[OF pos(1,4) len empty'] by blast
    obtain buf2 rs dd where r2: "r2 = ?r1\<lparr>ar_pduBuffer := buf2, ar_received := rs, ar_discarded := dd\<rparr>"
      and l2: "length rs = length (ar_received ?r1)" "length dd = length (ar_discarded ?r1)"
      and q2: "\<forall>j. ca_get j buf2 = (if j < ar_size r - pos then ca_get (j + pos) (ar_pduBuffer ?r1) else if j < ar_size r then None else ca_get j (ar_pduBuffer ?r1))"
      and rs: "\<forall>j < length rs. rs ! j = (if j < ar_size r - pos then ar_received ?r1 ! (j + pos) else \<not> (pos \<le> j \<and> j < ar_size r) \<and> ar_received ?r1 ! j)"
      using r2'(2) unfolding ar_shifted_def by (elim exE conjE) (rule that; assumption)
    let ?r = "r\<lparr>ar_firstSdu := x, ar_window := (ar_window r)\<lparr>rw_firstSeqNum := of_nat m\<rparr>, ar_pduBuffer := buf2, ar_pendingPduBuffer := pd, ar_received := rs, ar_discarded := dd\<rparr>"
    have "of_nat f + word_of_int (int pos) = (of_nat m :: 32 word)" using pos(2) by (metis of_int_of_nat_eq of_nat_add)
    then have fin: "r2\<lparr>ar_window := (ar_window r2)\<lparr>rw_firstSeqNum := ar_first r2 + word_of_int (int pos)\<rparr>\<rparr> = ?r" using b' by (simp add: r2 r1)
    have posle: "\<not> int (ar_size r) < int pos" "\<not> int pos \<le> 0" using pos(1,4) by linarith+
    have e: "ar_moveRxWindow (of_nat m) r = Inr ?r"
      unfolding ar_moveRxWindow_def ixp Let_def if_not_P[OF posle(2)] if_not_P[OF posle(1)] nat_int r2'(1) cpp_bind_simps fin by (rule refl)
    have get: "ca_get j buf2 = (if j < ar_size r - pos then ca_get (j + pos) (ar_pduBuffer r) else None)" for j
      using q2 buf b' pos(4) by (auto simp: r1)
    have rec: "rs ! j = (m + j \<in> R)" if "j < ar_size r" for j
    proof (cases "j < ar_size r - pos")
      case True
      have mj: "m + j = f + (j + pos)" using pos(2) by simp
      show ?thesis unfolding mj using True rs that l2 len b' by (simp add: r1)
    next
      case False
      then have "pos \<le> j" using pos(3) by simp
      moreover have "m + j \<notin> R" using n' False pos(2) by force
      ultimately show ?thesis using False rs that l2 len by simp
    qed
    have bok: "ar_buffer_ok R u ss m ?r" unfolding ar_buffer_ok_def
    proof (intro conjI allI impI)
      show "0 < ar_size ?r" "ar_first ?r = of_nat m" "length (ar_received ?r) = ar_size ?r" "length (ar_discarded ?r) = ar_size ?r" using b' l2 len by simp_all
      fix j
      have mj: "m + j = f + (j + pos)" using pos(2) by simp
      show "ar_received ?r ! j = (m + j \<in> R)" if "j < ar_size ?r" using rec that by simp
      show "\<exists>p. ca_get j (ar_pduBuffer ?r) = Some p \<and> am_norm p = am_stream u ss ! (m + j)" if "j < ar_size ?r" "m + j \<in> R"
      proof -
        have "m + j < f + ar_size r" using n' that(2) by blast
        then have j: "j < ar_size r - pos" using pos(2) by simp
        then have "j + pos < ar_size r" by simp
        from ar_buffer_get[OF b this] that(2)[unfolded mj]
        obtain p where p: "ca_get (j + pos) (ar_pduBuffer r) = Some p" "am_norm p = am_stream u ss ! (f + (j + pos))" by blast
        have "ca_get j (ar_pduBuffer ?r) = Some p" using get j p(1) by simp
        then show ?thesis using p(2) unfolding mj by blast
      qed
      show "ca_get j (ar_pduBuffer ?r) = None" if "j < ar_size ?r" "m + j \<notin> R"
      proof (cases "j < ar_size r - pos")
        case True
        then have "ca_get (j + pos) (ar_pduBuffer r) = None" using b' that(2) unfolding mj by simp
        then show ?thesis using get by simp
      qed (simp add: get)
      show "ca_get j (ar_pduBuffer ?r) = None" if "ar_size ?r \<le> j"
      proof -
        have "\<not> j < ar_size r - pos" using that pos(1) by simp
        then show ?thesis using get by simp
      qed
    qed
    have first: "x = am_sno (ss ! am_owner u ss m)" if a: "m < length (am_stream u ss)" "am_first u ss m < m"
    proof -
      have "Suc (m - 1) = m" using pos by simp
      then have o2: "am_owner u ss m = am_owner u ss (m - 1)" "m < am_end u ss (m - 1)" using am_owner_step(3)[of "m - 1"] a by simp_all
      then have "m - 1 \<in> R" using m(1) pos unfolding am_clean_def by (metis diff_less leD less_numeral_extra(1) trans_less_add2 zero_less_one add_pos_nonneg add.commute le0)
      then show ?thesis using x pos(1) o2 by simp
    qed
    have nok: "ar_numbers_ok R u ss m ?r" using n' m(1) first pos by (auto simp: ar_numbers_ok_def)
    have "ar_out_ok R u ss m ds ?r" using o' pos by (fastforce simp: ar_out_ok_def ar_control_ok_def)
    then have "ar_inv R u ss m ds ?r" using bok nok pd by (simp add: ar_inv_def)
    moreover have "max f m = m" using False by simp
    ultimately show ?thesis unfolding e by (intro exI[of _ ?r]) simp
  qed
qed

section \<open>All events\<close>

lemma ar_control_step_ok:
  assumes inv: "ar_inv R u ss f ds r" and N: "length (am_stream u ss) < 2 ^ 31" and W: "2 * (length (am_stream u ss) - f) \<le> ar_size r"
    and p: "at_pdu_ok R u ss p" "ap_amType (am_hdr p) \<noteq> Am_Data"
  shows "ar_good R u ss f (ar_size r) (ar_control p r)"
proof (cases "ap_amType (am_hdr p) = Am_Mrw")
  case True
  then obtain m where m: "ap_lastSn (am_hdr p) = of_nat m" "am_clean R u ss m" using p(1) by (auto simp: at_pdu_ok_def)
  then have mN: "m \<le> length (am_stream u ss)" by (simp add: am_clean_def)
  then have "2 * (m - f) \<le> ar_size r" using W by simp
  from ar_moveRxWindow_ok[OF inv N m(2) this] obtain r' where
    r': "ar_moveRxWindow (of_nat m) r = Inr r'" "ar_inv R u ss (max f m) ds r'" "ar_size r' = ar_size r" "ar_flowControlInfo r' = ar_flowControlInfo r" by blast
  show ?thesis
  proof (cases "ar_flowControlInfo r")
    case None
    then have "ar_control p r = Inl Undefined_Behaviour" using True m(1) r' by (simp add: ar_control_def)
    then show ?thesis by (simp add: ar_good_def ar_known_error_def)
  next
    case (Some info)
    let ?f = "max f m" and ?q = "\<lparr>am_hdr = ar_mrwAck (am_hdr p) r', am_data = [], am_tag = info\<rparr>"
    have e: "ar_control p r = Inr (ar_effect (Am_Buffer_Pdu ?q) r')" using True m(1) r' Some by (simp add: ar_control_def)
    have first: "ar_first r' = of_nat ?f" "am_clean R u ss ?f" using r'(2) by (simp_all add: ar_inv_def ar_buffer_ok_def ar_numbers_ok_def)
    then have "?f < 2 ^ 31" using N by (simp add: am_clean_def)
    then have "unat (of_nat ?f :: 32 word) = ?f" by (intro unat_num) simp
    then have "ar_control_ok R u ss ?f (ar_mrwAck (am_hdr p) r')" using first
      by (auto simp: ar_control_ok_def at_control_ok_def ar_mrwAck_def)
    then have "ar_inv R u ss ?f ds (ar_effect (Am_Buffer_Pdu ?q) r')" using r'(2)
      by (simp add: ar_inv_def ar_buffer_ok_def ar_numbers_ok_def ar_out_ok_def ar_effect_def all_conj_distrib)
    then show ?thesis unfolding e using r'(3) by (intro ar_goodI[of R u ss ?f ds]) (simp_all add: ar_effect_def)
  qed
next
  case False
  then have e: "ar_control p r = Inr (ar_effect (Am_Route p) r)" using p(2) by (simp add: ar_control_def split: am_type.splits)
  have "ar_inv R u ss f ds (ar_effect (Am_Route p) r)" using inv
    by (simp add: ar_inv_def ar_buffer_ok_def ar_numbers_ok_def ar_out_ok_def ar_effect_def)
  then show ?thesis unfolding e by (intro ar_goodI[of R u ss f ds]) (simp_all add: ar_effect_def)
qed

lemma ar_enque_ok:
  assumes inv: "ar_inv R u ss f ds r" and ss: "am_sdus_ok u ss" and W: "2 * (length (am_stream u ss) - f) \<le> ar_size r" and p: "at_pdu_ok R u ss p"
  shows "ar_good R u ss f (ar_size r) (ar_enque now p r)"
proof (cases "ap_amType (am_hdr p) = Am_Data")
  case True
  then obtain k where k: "k < length (am_stream u ss)" "am_norm p = am_stream u ss ! k" using p by (auto simp: at_pdu_ok_def)
  have "length (am_stream u ss) \<le> f + ar_size r" using W by linarith
  from ar_enque_data_ok[OF inv ss this True k, of now] obtain R' ds' where
    "ar_goes R' u ss f ds' (ar_size r) (ar_enque now p r)" "R' = (if k < f then R else insert k R)" by blast
  then show ?thesis by (auto intro!: ar_goes_good split: if_splits)
next
  case False
  then have "ar_enque now p r = ar_control p r" by (simp add: ar_enque_def)
  then show ?thesis using ar_control_step_ok[OF inv _ W p False] ss by (simp add: am_sdus_ok_def)
qed

lemma ar_handleMessage_ok:
  assumes inv: "ar_inv R u ss f ds r" and N: "length (am_stream u ss) < 2 ^ 31" and t: "ar_timer r \<noteq> None"
  shows "ar_goes R u ss f ds (ar_size r) (ar_handleMessage now r)"
proof -
  let ?r = "r\<lparr>ar_timer := None\<rparr>"
  have inv1: "ar_inv R u ss f ds ?r" and info: "ar_flowControlInfo ?r \<noteq> None" using inv t
    by (simp_all add: ar_inv_def ar_buffer_ok_def ar_numbers_ok_def ar_out_ok_def)
  have "ar_buffer_ok R u ss f ?r" "ar_numbers_ok R u ss f ?r" using inv1 by (simp_all only: ar_inv_def)
  from ar_sendStatusReport_ok[OF this N info] obtain es x where
    es: "ar_sendStatusReport now ?r = Inr (?r\<lparr>ar_out := ar_out ?r @ es, ar_lastSentAck := x\<rparr>)" "ar_controls R u ss f es" by blast
  let ?r2 = "?r\<lparr>ar_out := ar_out ?r @ es, ar_lastSentAck := x\<rparr>"
  have inv2: "ar_inv R u ss f ds ?r2" by (rule ar_controls_inv[OF inv1 es(2)])
  have inv3: "ar_inv R u ss f ds (?r2\<lparr>ar_timer := y\<rparr>)" for y using inv2 info
    by (simp add: ar_inv_def ar_buffer_ok_def ar_numbers_ok_def ar_out_ok_def)
  show ?thesis unfolding ar_handleMessage_def es(1) cpp_bind_simps
    using inv2 inv3 by (simp add: ar_goes_def)
qed

definition ar_event_ok :: "nat set \<Rightarrow> nat \<Rightarrow> am_sdu list \<Rightarrow> am_rx_event \<Rightarrow> am_rx \<Rightarrow> bool" where
  "ar_event_ok R u ss ev r = (case ev of Ar_Pdu p \<Rightarrow> at_pdu_ok R u ss p | Ar_Timer \<Rightarrow> ar_timer r \<noteq> None)"

lemma ar_step_ok:
  assumes "ar_inv R u ss f ds r" "am_sdus_ok u ss" "2 * (length (am_stream u ss) - f) \<le> ar_size r" "ar_event_ok R u ss (snd ev) r"
  shows "ar_good R u ss f (ar_size r) (ar_step ev r)"
proof (cases "snd ev")
  case (Ar_Pdu p)
  then show ?thesis using ar_enque_ok[OF assms(1-3)] assms(4) by (simp add: ar_step_def ar_event_ok_def)
next
  case Ar_Timer
  then show ?thesis using ar_goes_good[OF ar_handleMessage_ok[OF assms(1)]] assms(2,4) by (simp add: ar_step_def ar_event_ok_def am_sdus_ok_def)
qed

lemma ar_new_inv: "0 < unat w \<Longrightarrow> ar_inv {} u [] 0 [] (ar_new a s w)"
  by (simp add: ar_inv_def ar_buffer_ok_def ar_numbers_ok_def ar_pending_ok_def ar_out_ok_def ar_new_def)

text \<open>When the transmitter takes more SDUs, nothing changes for the receiver.\<close>

lemma am_first_new:
  assumes "length (am_stream u ss) < length (am_stream u (ss @ ts))"
  shows "am_first u (ss @ ts) (length (am_stream u ss)) = length (am_stream u ss)"
proof -
  let ?k = "length (am_stream u ss)" and ?o = "am_owner u (ss @ ts) (length (am_stream u ss))"
  note o' = am_ownerE[OF assms]
  have l: "am_start u (ss @ ts) (length ss) = ?k" by (simp add: am_start_def)
  have "length ss \<le> ?o"
  proof (rule ccontr)
    assume "\<not> length ss \<le> ?o"
    then have "am_end u (ss @ ts) ?k \<le> ?k" using am_start_mono[of "Suc ?o" "length ss" u "ss @ ts"] l by (simp add: am_end_def)
    then show False using o'(3) by simp
  qed
  then have "?k \<le> am_start u (ss @ ts) ?o" using am_start_mono[of "length ss" ?o u "ss @ ts"] l by simp
  then show ?thesis using o'(2) by simp
qed

lemma ar_inv_mono:
  assumes inv: "ar_inv R u ss f ds r"
  shows "ar_inv R u (ss @ ts) f ds r"
proof -
  let ?N = "length (am_stream u ss)" and ?N' = "length (am_stream u (ss @ ts))"
  have b: "ar_buffer_ok R u ss f r" and n: "ar_numbers_ok R u ss f r" and pe: "ar_pending_ok R u ss f (ar_pendingPduBuffer r)" and o': "ar_out_ok R u ss f ds r"
    using inv by (simp_all add: ar_inv_def)
  have R: "k < ?N" if "k \<in> R" for k using n that by (auto simp: ar_numbers_ok_def)
  have f: "f \<le> ?N" using n by (simp add: ar_numbers_ok_def am_clean_def)
  have l: "?N \<le> ?N'" using am_stream_append[of u ss ts] by auto
  have st: "am_stream u (ss @ ts) ! k = am_stream u ss ! k" if "k \<in> R" for k using am_owner_append(3)[OF R[OF that]] .
  have own: "am_owner u (ss @ ts) f = am_owner u ss f" "am_end u (ss @ ts) f = am_end u ss f" "am_first u (ss @ ts) f = am_first u ss f"
    "(ss @ ts) ! am_owner u ss f = ss ! am_owner u ss f" if "f < ?N"
    using am_owner_append(1,2)[OF that] am_ownerE(1)[OF that] by (simp_all add: am_start_append nth_append)
  have new: "am_first u (ss @ ts) f = f" if "\<not> f < ?N" "f < ?N'" using am_first_new[of u ss ts] that f by simp
  have "ar_buffer_ok R u (ss @ ts) f r" using b st unfolding ar_buffer_ok_def by metis
  moreover have "ar_numbers_ok R u (ss @ ts) f r" unfolding ar_numbers_ok_def
  proof (intro conjI impI)
    show "am_clean R u (ss @ ts) f" using n am_clean_mono[of R u ss f R ts] by (simp add: ar_numbers_ok_def)
    show "R \<subseteq> {..<?N'}" using R l by force
    assume a: "f < ?N'" "am_first u (ss @ ts) f < f"
    show "ar_firstSdu r = am_sno ((ss @ ts) ! am_owner u (ss @ ts) f)"
    proof (cases "f < ?N")
      case True
      then show ?thesis using n a(2) own[OF True] by (simp add: ar_numbers_ok_def)
    next
      case False
      then show ?thesis using new a by simp
    qed
  qed (use n in \<open>simp_all add: ar_numbers_ok_def\<close>)
  moreover have "ar_pending_ok R u (ss @ ts) f (ar_pendingPduBuffer r)"
  proof -
    obtain c where c: "c \<le> f" "map am_norm (ar_pendingPduBuffer r) = map ((!) (am_stream u ss)) (filter (\<lambda>k. k \<in> R) [c..<f])"
      "f < ?N \<longrightarrow> c \<le> am_first u ss f \<or> (\<forall>k. am_first u ss f \<le> k \<longrightarrow> k < am_end u ss f \<longrightarrow> k \<in> R)" using pe unfolding ar_pending_ok_def by blast
    have "map ((!) (am_stream u ss)) (filter (\<lambda>k. k \<in> R) [c..<f]) = map ((!) (am_stream u (ss @ ts))) (filter (\<lambda>k. k \<in> R) [c..<f])" using st by simp
    moreover have "c \<le> am_first u (ss @ ts) f \<or> (\<forall>k. am_first u (ss @ ts) f \<le> k \<longrightarrow> k < am_end u (ss @ ts) f \<longrightarrow> k \<in> R)" if "f < ?N'"
      using c(1,3) own new[OF _ that] by (cases "f < ?N") auto
    ultimately show ?thesis using c(1,2) unfolding ar_pending_ok_def by (intro exI[of _ c]) simp
  qed
  moreover have "ar_out_ok R u (ss @ ts) f ds r" unfolding ar_out_ok_def
  proof (intro conjI ballI allI impI)
    fix p assume "Am_Buffer_Pdu p \<in> set (ar_out r)"
    then show "ar_control_ok R u (ss @ ts) f (am_hdr p)" using o' at_control_ok_mono[of R u ss "am_hdr p" R ts] by (auto simp: ar_out_ok_def ar_control_ok_def)
  next
    have "\<forall>i \<in> set ds. (ss @ ts) ! i = ss ! i" using o' by (simp add: ar_out_ok_def nth_append)
    then show "ar_delivered (ar_out r) = map (\<lambda>i. am_up ((ss @ ts) ! i)) ds" using o' by (simp add: ar_out_ok_def)
    show "distinct ds" using o' by (simp add: ar_out_ok_def)
  next
    fix i assume i: "i \<in> set ds"
    then have il: "i < length ss" using o' by (simp add: ar_out_ok_def)
    then show "i < length (ss @ ts)" by simp
    fix k assume "am_start u (ss @ ts) i \<le> k" "k < am_start u (ss @ ts) (Suc i)"
    then show "k \<in> R" using o' i il by (simp add: ar_out_ok_def am_start_append)
  qed
  ultimately show ?thesis by (simp add: ar_inv_def)
qed

end
