(* ===== verification/Rlc_Am_Link.thy ===== *)
theory Rlc_Am_Link
  imports Rlc_Am_Reception
begin

text \<open>
  The two entities of RLC AM with a network in between that loses, repeats and reorders: every PDU the transmitter has ever sent and every
  control PDU the receiver has ever buffered can arrive at any time. The receiver answers through the entities of the other direction,
  of which only the control PDUs that pass through here are modelled.
\<close>

section \<open>Events\<close>

text \<open>\<open>Al_Forward n\<close> brings the PDU sent as the \<open>n\<close>-th, \<open>Al_Back n\<close> the \<open>n\<close>-th control PDU. An event that cannot happen is skipped:
  the MAC layer asks when there is something to send, a timer goes off when it runs.\<close>

datatype am_link_event =
    Al_Enque am_sdu
  | Al_Request int
  | Al_Local am_packet
  | Al_Tx_Timer am_timer_message
  | Al_Forward nat
  | Al_Back nat
  | Al_Rx_Timer

fun al_sent :: "am_tx_effect list \<Rightarrow> am_packet list" where
  "al_sent [] = []"
| "al_sent (Am_Send p # es) = p # al_sent es"
| "al_sent (_ # es) = al_sent es"

fun al_controls :: "am_rx_effect list \<Rightarrow> am_packet list" where
  "al_controls [] = []"
| "al_controls (Am_Buffer_Pdu p # es) = p # al_controls es"
| "al_controls (_ # es) = al_controls es"

lemma set_al_sent: "p \<in> set (al_sent es) \<longleftrightarrow> Am_Send p \<in> set es"
  by (induction es rule: al_sent.induct) auto

lemma set_al_controls: "p \<in> set (al_controls es) \<longleftrightarrow> Am_Buffer_Pdu p \<in> set es"
  by (induction es rule: al_controls.induct) auto

definition al_tx :: "am_link_event \<Rightarrow> am_tx \<Rightarrow> am_rx \<Rightarrow> am_tx_event option" where
  "al_tx ev t r = (case ev of
      Al_Enque s \<Rightarrow> Some (At_Enque s)
    | Al_Request sz \<Rightarrow> if at_pduBuffer t = [] then None else Some (At_Request sz)
    | Al_Local p \<Rightarrow> if ap_amType (am_hdr p) = Am_Ack \<or> ap_amType (am_hdr p) = Am_Mrw_Ack then Some (At_Buffer_Control p) else None
    | Al_Tx_Timer m \<Rightarrow> if at_scheduled m t then Some (At_Timer m) else None
    | Al_Back n \<Rightarrow> if n < length (al_controls (ar_out r)) then Some (At_Control (am_hdr (al_controls (ar_out r) ! n))) else None
    | _ \<Rightarrow> None)"

definition al_rx :: "am_link_event \<Rightarrow> am_tx \<Rightarrow> am_rx \<Rightarrow> am_rx_event option" where
  "al_rx ev t r = (case ev of
      Al_Forward n \<Rightarrow> if n < length (al_sent (at_out t)) then Some (Ar_Pdu (al_sent (at_out t) ! n)) else None
    | Al_Rx_Timer \<Rightarrow> if ar_timer r \<noteq> None then Some Ar_Timer else None
    | _ \<Rightarrow> None)"

definition al_step :: "simtime \<times> am_link_event \<Rightarrow> am_tx \<times> am_rx \<Rightarrow> (am_tx \<times> am_rx) cpp" where
  "al_step ev = (\<lambda>(t, r). case al_tx (snd ev) t r of
      Some e \<Rightarrow> cpp_bind (at_step (fst ev, e) t) (\<lambda>t'. Inr (t', r))
    | None \<Rightarrow> (case al_rx (snd ev) t r of
        Some e \<Rightarrow> cpp_bind (ar_step (fst ev, e) r) (\<lambda>r'. Inr (t, r'))
      | None \<Rightarrow> Inr (t, r)))"

fun al_run :: "(simtime \<times> am_link_event) list \<Rightarrow> am_tx \<times> am_rx \<Rightarrow> (am_tx \<times> am_rx) cpp" where
  "al_run [] s = Inr s"
| "al_run (ev # evs) s = cpp_bind (al_step ev s) (al_run evs)"

text \<open>The SDUs from above.\<close>

fun al_sdus :: "(simtime \<times> am_link_event) list \<Rightarrow> am_sdu list" where
  "al_sdus [] = []"
| "al_sdus ((_, Al_Enque s) # evs) = s # al_sdus evs"
| "al_sdus (_ # evs) = al_sdus evs"

section \<open>The invariant of the link\<close>

text \<open>\<open>k\<close> counts the events so far; \<open>all\<close> are the SDUs of the whole run and \<open>rest\<close> those still to come.\<close>

definition al_inv :: "nat \<Rightarrow> nat \<Rightarrow> am_sdu list \<Rightarrow> am_sdu list \<Rightarrow> nat \<Rightarrow> am_tx \<times> am_rx \<Rightarrow> bool" where
  "al_inv u W all rest k = (\<lambda>(t, r). \<exists>R ss b f ds. at_inv R u ss b t \<and> ar_inv R u ss f ds r \<and> b \<le> f
     \<and> 2 * unat (at_size t) \<le> W \<and> ar_size r = W \<and> length (am_stream u ss) \<le> 200 * k \<and> unat (md_mrwSeqNum (at_mrwDesc t)) \<le> k
     \<and> mset ss + mset (at_sduQueue t) + mset rest \<subseteq># mset all)"

text \<open>What is asked of the SDUs.\<close>

definition al_all_ok :: "am_sdu list \<Rightarrow> bool" where
  "al_all_ok all = ((\<forall>s \<in> set all. am_sdu_ok s \<and> am_sno s \<noteq> -1) \<and> distinct (map am_sno all))"

lemma distinct_submset: "mset xs \<subseteq># mset ys \<Longrightarrow> distinct ys \<Longrightarrow> distinct xs"
  unfolding distinct_count_atmost_1 subseteq_mset_def
  by (metis count_eq_zero_iff le_zero_eq count_greater_eq_one_iff le_antisym set_mset_mset)

lemma al_sdus_ok:
  assumes "al_all_ok all" "mset ss + M \<subseteq># mset all" "0 < u" "length (am_stream u ss) < 2 ^ 31"
  shows "am_sdus_ok u ss"
proof -
  have sub: "mset ss \<subseteq># mset all" using assms(2) mset_subset_eq_add_left subset_mset.order_trans by metis
  then have "set ss \<subseteq> set all" by (metis set_mset_mono set_mset_mset)
  moreover have "mset (map am_sno ss) \<subseteq># mset (map am_sno all)" using sub by (simp add: image_mset_subseteq_mono)
  then have "distinct (map am_sno ss)" using distinct_submset assms(1) unfolding al_all_ok_def by blast
  ultimately show ?thesis using assms by (auto simp: am_sdus_ok_def al_all_ok_def)
qed

lemma at_inv_mono: "at_inv R u ss b t \<Longrightarrow> R \<subseteq> R' \<Longrightarrow> at_inv R' u ss b t"
  using at_core_mono[of R u ss b _ t R' "[]"] by (auto simp: at_inv_def)

text \<open>A step of the transmitter.\<close>

lemma al_tx_ok:
  assumes inv: "at_inv R u ss b t" "ar_inv R u ss f ds r" "b \<le> f" and N: "length (am_stream u ss) + 200 < 2 ^ 31"
    and ev: "al_tx ev t r = Some e" "\<forall>s. ev = Al_Enque s \<longrightarrow> am_sdu_ok s"
  shows "at_event_ok R u ss e t \<and> at_event_base e \<le> f"
proof (cases ev)
  case (Al_Back n)
  then have n: "n < length (al_controls (ar_out r))" and e: "e = At_Control (am_hdr (al_controls (ar_out r) ! n))" using ev(1) by (auto simp: al_tx_def split: if_splits)
  have "Am_Buffer_Pdu (al_controls (ar_out r) ! n) \<in> set (ar_out r)" using nth_mem[OF n] by (simp add: set_al_controls)
  then have "ar_control_ok R u ss f (am_hdr (al_controls (ar_out r) ! n))" using inv(2) by (simp add: ar_inv_def ar_out_ok_def)
  then show ?thesis unfolding e by (auto simp: ar_control_ok_def at_event_ok_def at_event_base_def at_control_base_def)
qed (use ev in \<open>auto simp: al_tx_def at_event_ok_def at_event_base_def split: if_splits\<close>)

lemma al_rx_ok:
  assumes inv: "at_inv R u ss b t" and ev: "al_rx ev t r = Some e"
  shows "ar_event_ok R u ss e r"
proof (cases ev)
  case (Al_Forward n)
  then have n: "n < length (al_sent (at_out t))" and e: "e = Ar_Pdu (al_sent (at_out t) ! n)" using ev(1) by (auto simp: al_rx_def split: if_splits)
  have "Am_Send (al_sent (at_out t) ! n) \<in> set (at_out t)" using nth_mem[OF n] by (simp add: set_al_sent)
  then have "at_pdu_ok R u ss (al_sent (at_out t) ! n)" using inv by (simp add: at_inv_def at_core_def at_sent_ok_def)
  then show ?thesis by (simp add: e ar_event_ok_def)
qed (use ev in \<open>auto simp: al_rx_def ar_event_ok_def split: if_splits\<close>)

lemma al_tx_sdus: "al_tx (snd ev) t r = Some e \<Longrightarrow> at_event_sdus e + mset (al_sdus evs) = mset (al_sdus (ev # evs))"
  by (cases ev; cases "snd ev") (auto simp: al_tx_def at_event_sdus_def split: if_splits)

lemma al_tx_none: "al_tx (snd ev) t r = None \<Longrightarrow> al_sdus (ev # evs) = al_sdus evs"
  by (cases ev; cases "snd ev") (auto simp: al_tx_def split: if_splits)

text \<open>Every step keeps the invariant or ends in a known throw.\<close>

definition al_good :: "nat \<Rightarrow> nat \<Rightarrow> am_sdu list \<Rightarrow> am_sdu list \<Rightarrow> nat \<Rightarrow> (am_tx \<times> am_rx) cpp \<Rightarrow> bool" where
  "al_good u W all rest k res = (case res of Inl e \<Rightarrow> ar_known_error e | Inr s \<Rightarrow> al_inv u W all rest k s)"

lemma al_step_ok:
  assumes inv: "al_inv u W all (al_sdus (ev # evs)) k s" and all: "al_all_ok all" and u: "0 < u" and k: "k < 10000000"
  shows "al_good u W all (al_sdus evs) (Suc k) (al_step ev s)"
proof -
  obtain t r where s: "s = (t, r)" by (cases s)
  obtain R ss b f ds where i: "at_inv R u ss b t" "ar_inv R u ss f ds r" "b \<le> f" "2 * unat (at_size t) \<le> W" "ar_size r = W"
    "length (am_stream u ss) \<le> 200 * k" "unat (md_mrwSeqNum (at_mrwDesc t)) \<le> k" "mset ss + mset (at_sduQueue t) + mset (al_sdus (ev # evs)) \<subseteq># mset all"
    using inv unfolding al_inv_def s prod.case by (elim exE conjE) (rule that; assumption)
  have N: "length (am_stream u ss) + 200 < 2 ^ 31" "unat (md_mrwSeqNum (at_mrwDesc t)) < 2 ^ 31" using i(6,7) k by simp_all
  have ss: "am_sdus_ok u ss" using al_sdus_ok[OF all _ u] i(8) N(1) by (simp add: add.assoc)
  have fN: "f \<le> length (am_stream u ss)" using i(2) by (simp add: ar_inv_def ar_numbers_ok_def am_clean_def)
  show ?thesis
  proof (cases "al_tx (snd ev) t r")
    case (Some e)
    have "set (al_sdus (ev # evs)) \<subseteq> set all" using i(8) by (metis set_mset_mono set_mset_mset set_mset_union le_sup_iff)
    moreover have "s' \<in> set (al_sdus (ev # evs))" if "snd ev = Al_Enque s'" for s' using that by (cases ev) auto
    ultimately have "\<forall>s. snd ev = Al_Enque s \<longrightarrow> am_sdu_ok s" using all by (auto simp: al_all_ok_def)
    from al_tx_ok[OF i(1-3) N(1) Some this] have e: "at_event_ok R u ss e t" "at_event_base e \<le> f" by simp_all
    from at_step_ok[OF i(1) _ N, of "(fst ev, e)"] e(1)
    have "at_grows R u ss b (at_event_base e) t (at_event_sdus e) (at_step (fst ev, e) t)" by simp
    then obtain t' ts b' where t': "at_step (fst ev, e) t = Inr t'" "at_inv R u (ss @ ts) b' t'" "b' \<le> max b (at_event_base e)" "at_size t' = at_size t"
      "unat (md_mrwSeqNum (at_mrwDesc t')) \<le> Suc (unat (md_mrwSeqNum (at_mrwDesc t)))" "mset ts + mset (at_sduQueue t') \<subseteq># mset (at_sduQueue t) + at_event_sdus e"
      "length (am_stream u (ss @ ts)) \<le> length (am_stream u ss) + 200" by (rule at_grows_length)
    have "mset (ss @ ts) + mset (at_sduQueue t') + mset (al_sdus evs) \<subseteq># mset ss + (mset (at_sduQueue t) + at_event_sdus e) + mset (al_sdus evs)"
      using subset_mset.add_mono[OF subset_mset.order_refl[of "mset ss + mset (al_sdus evs)"] t'(6)] by (simp add: ac_simps)
    also have "\<dots> = mset ss + mset (at_sduQueue t) + mset (al_sdus (ev # evs))" using al_tx_sdus[OF Some, of evs] by (simp add: ac_simps)
    finally have M: "mset (ss @ ts) + mset (at_sduQueue t') + mset (al_sdus evs) \<subseteq># mset all" using i(8) by (rule subset_mset.order_trans)
    have "b' \<le> f" "length (am_stream u (ss @ ts)) \<le> 200 * Suc k" "unat (md_mrwSeqNum (at_mrwDesc t')) \<le> Suc k" using t'(3,5,7) i(3,6,7) e(2) by simp_all
    then have "al_inv u W all (al_sdus evs) (Suc k) (t', r)" unfolding al_inv_def prod.case
      using t'(2,4) ar_inv_mono[OF i(2)] i(4,5) M by (intro exI[of _ R] exI[of _ "ss @ ts"] exI[of _ b'] exI[of _ f] exI[of _ ds]) simp
    then show ?thesis using Some t'(1) by (simp add: al_step_def s al_good_def)
  next
    case None
    note rest = al_tx_none[OF None, of evs]
    have keep: "al_inv u W all (al_sdus evs) (Suc k) (t, r')" if "R \<subseteq> R'" "f \<le> f'" "ar_inv R' u ss f' ds' r'" "ar_size r' = W" for R' f' ds' r'
      unfolding al_inv_def prod.case using that at_inv_mono[OF i(1) that(1)] i(3-8)
      by (intro exI[of _ R'] exI[of _ ss] exI[of _ b] exI[of _ f'] exI[of _ ds']) (simp add: rest)
    show ?thesis
    proof (cases "al_rx (snd ev) t r")
      case (Some e)
      have "2 * (length (am_stream u ss) - f) \<le> ar_size r"
      proof -
        have "length (am_stream u ss) - b \<le> unat (at_size t)" using i(1) by (simp add: at_inv_def at_core_def at_store_ok_def)
        then show ?thesis using i(3,4,5) by linarith
      qed
      from ar_step_ok[OF i(2) ss this, of "(fst ev, e)"] al_rx_ok[OF i(1) Some]
      have good: "ar_good R u ss f (ar_size r) (ar_step (fst ev, e) r)" by simp
      show ?thesis
      proof (cases "ar_step (fst ev, e) r")
        case (Inl x)
        then show ?thesis using good None Some by (simp add: al_step_def s al_good_def ar_good_def)
      next
        case (Inr r')
        then obtain R' f' ds' where "R \<subseteq> R'" "f \<le> f'" "ar_inv R' u ss f' ds' r'" "ar_size r' = W" using good i(5) by (auto simp: ar_good_def)
        from keep[OF this] show ?thesis using None Some Inr by (simp add: al_step_def s al_good_def)
      qed
    next
      case no: None
      from keep[OF order_refl order_refl i(2,5)] show ?thesis using None no by (simp add: al_step_def s al_good_def)
    qed
  qed
qed

lemma al_run_ok:
  assumes "al_inv u W all (al_sdus evs) k s" "al_all_ok all" "0 < u" "k + length evs \<le> 10000000"
  shows "al_good u W all [] (k + length evs) (al_run evs s)"
  using assms(1,4)
proof (induction evs arbitrary: k s)
  case Nil
  then show ?case by (simp add: al_good_def)
next
  case (Cons ev evs)
  have good: "al_good u W all (al_sdus evs) (Suc k) (al_step ev s)" using al_step_ok[OF Cons.prems(1) assms(2,3)] Cons.prems(2) by simp
  show ?case
  proof (cases "al_step ev s")
    case (Inl e)
    then show ?thesis using good by (simp add: al_good_def)
  next
    case (Inr s')
    then have "al_inv u W all (al_sdus evs) (Suc k) s'" using good by (simp add: al_good_def)
    from Cons.IH[OF this] Cons.prems(2) Inr show ?thesis by simp
  qed
qed

lemma al_new_inv:
  assumes "0 < pa_fragmentSize p" "unat (pa_txWindowSize p) \<le> 200" "2 * unat (pa_txWindowSize p) \<le> unat w" "0 < unat w"
  shows "al_inv (pa_fragmentSize p) (unat w) all all 0 (at_new p, ar_new a st w)"
  unfolding al_inv_def prod.case using at_new_inv(1)[OF assms(1,2), of "{}"] at_new_inv(2,3)[OF assms(1,2)] ar_new_inv[OF assms(4), of "pa_fragmentSize p" a st] assms(3)
  by (intro exI[of _ "{}"] exI[of _ "[]"] exI[of _ 0] exI[of _ 0] exI[of _ "[]"]) (simp add: at_new_def ar_new_def)

lemma mset_select: "distinct ds \<Longrightarrow> \<forall>i \<in> set ds. i < length ss \<Longrightarrow> mset (map ((!) ss) ds) \<subseteq># mset ss"
proof -
  assume d: "distinct ds" and l: "\<forall>i \<in> set ds. i < length ss"
  have "mset_set (set ds) \<subseteq># mset_set {..<length ss}" using l by (intro subset_imp_msubset_mset_set) auto
  then have "mset ds \<subseteq># mset [0..<length ss]" using d by (simp add: mset_set_set atLeast0LessThan)
  then have "mset (map ((!) ss) ds) \<subseteq># mset (map ((!) ss) [0..<length ss])" by (simp add: image_mset_subseteq_mono del: mset_upt)
  then show ?thesis by (simp only: map_nth)
qed

lemma al_inv_delivered:
  assumes "al_inv u W all rest k (t, r)"
  shows "mset (ar_delivered (ar_out r)) \<subseteq># mset (map am_up all)"
proof -
  obtain R ss f ds where i: "ar_inv R u ss f ds r" "mset ss + mset (at_sduQueue t) + mset rest \<subseteq># mset all"
    using assms unfolding al_inv_def prod.case by (elim exE conjE) (rule that; assumption)
  have "mset (map ((!) ss) ds) \<subseteq># mset ss" using i(1) by (intro mset_select) (simp_all add: ar_inv_def ar_out_ok_def)
  also have "mset ss \<subseteq># mset all" using i(2) by (metis add.assoc mset_subset_eq_add_left subset_mset.order_trans)
  finally have "image_mset am_up (mset (map ((!) ss) ds)) \<subseteq># image_mset am_up (mset all)" by (rule image_mset_subseteq_mono)
  then show ?thesis using i(1) by (simp add: ar_inv_def ar_out_ok_def image_mset.compositionality comp_def)
qed

end
