(* ===== verification/Rlc_Am_Runs.thy ===== *)
theory Rlc_Am_Runs
  imports Rlc_Am_Link
begin

text \<open>
  Whole runs of one entity of RLC AM: the transmitter under honest control PDUs, and the receiver while its window stays where it is,
  which passes up exactly the SDUs that a reference definition says.
\<close>

section \<open>The transmitter\<close>

text \<open>
  An acknowledgement is honest when it only speaks of numbers that have been used: the cumulative one, the bits that are set, and the start
  of the receiver's window.
\<close>

definition at_report_honest :: "am_pdu \<Rightarrow> am_tx \<Rightarrow> bool" where
  "at_report_honest h t = (case ap_amType h of
      Am_Ack \<Rightarrow> (sint (ap_lastSn h) < 0 \<or> ap_lastSn h < at_seq t)
        \<and> list_all (\<lambda>i. ap_bitmap h ! i \<longrightarrow> ap_firstSn h + of_nat i < at_seq t) [0..<length (ap_bitmap h)]
    | Am_Mrw_Ack \<Rightarrow> ap_snoFragment h \<le> at_seq t
    | _ \<Rightarrow> True)"

text \<open>
  SDUs have a header that can be read, the entity is given only acknowledgements to send, and timers go off when they run. The MAC
  layer may ask at any time, also when nothing is buffered.
\<close>

definition at_event_honest :: "am_tx_event \<Rightarrow> am_tx \<Rightarrow> bool" where
  "at_event_honest ev t = (case ev of
      At_Enque s \<Rightarrow> am_sdu_ok s
    | At_Request sz \<Rightarrow> True
    | At_Control h \<Rightarrow> at_report_honest h t
    | At_Buffer_Control p \<Rightarrow> ap_amType (am_hdr p) = Am_Ack \<or> ap_amType (am_hdr p) = Am_Mrw_Ack
    | At_Timer m \<Rightarrow> at_scheduled m t)"

fun at_honest :: "(simtime \<times> am_tx_event) list \<Rightarrow> am_tx \<Rightarrow> bool" where
  "at_honest [] t = True"
| "at_honest (ev # evs) t = (at_event_honest (snd ev) t \<and> (case at_step ev t of Inl _ \<Rightarrow> True | Inr t' \<Rightarrow> at_honest evs t'))"

definition at_sdus :: "(simtime \<times> am_tx_event) list \<Rightarrow> am_sdu multiset" where
  "at_sdus evs = (\<Sum>ev \<leftarrow> evs. at_event_sdus (snd ev))"

lemma am_clean_UNIV [simp]: "am_clean UNIV u ss m = (m \<le> length (am_stream u ss))"
  by (simp add: am_clean_def)

lemma at_report_honest_ok:
  assumes "at_report_honest h t" "at_inv R u ss b t" "length (am_stream u ss) < 2 ^ 31"
  shows "at_control_ok UNIV u ss h"
proof -
  let ?N = "length (am_stream u ss)"
  have "at_seq t = of_nat ?N" using assms(2) by (simp add: at_inv_def at_core_def at_store_ok_def)
  then have seq: "unat (at_seq t) = ?N" using assms(3) by (simp only:) (intro unat_num, simp)
  have below: "\<exists>k. x = of_nat k \<and> k < ?N" if "x < at_seq t" for x :: "32 word"
    using that unfolding word_less_nat_alt seq by (intro exI[of _ "unat x"]) simp
  show ?thesis
  proof (cases "ap_amType h")
    case Am_Ack
    then have c: "sint (ap_lastSn h) < 0 \<or> ap_lastSn h < at_seq t" and bs: "\<forall>i < length (ap_bitmap h). ap_bitmap h ! i \<longrightarrow> ap_firstSn h + of_nat i < at_seq t"
      using assms(1) by (auto simp: at_report_honest_def list_all_iff)
    have "at_cum_ok UNIV u ss (ap_lastSn h)" unfolding at_cum_ok_def am_clean_UNIV using c below[of "ap_lastSn h"] Suc_leI by blast
    moreover have "at_bits_ok UNIV u ss (ap_bitmap h) (ap_firstSn h)" unfolding at_bits_ok_def using bs below by blast
    ultimately show ?thesis using Am_Ack by (simp add: at_control_ok_def)
  next
    case Am_Mrw_Ack
    then have "unat (ap_snoFragment h) \<le> ?N" using assms(1) by (simp add: at_report_honest_def word_le_nat_alt seq[symmetric])
    then show ?thesis using Am_Mrw_Ack by (auto simp: at_control_ok_def intro!: exI[of _ "unat (ap_snoFragment h)"])
  qed (simp_all add: at_control_ok_def)
qed

lemma at_event_honest_ok:
  assumes "at_event_honest ev t" "at_inv R u ss b t" "length (am_stream u ss) < 2 ^ 31" "\<forall>sz. ev = At_Request sz \<longrightarrow> at_pduBuffer t \<noteq> []"
  shows "at_event_ok UNIV u ss ev t"
  using assms at_report_honest_ok[OF _ assms(2,3)] by (cases ev) (simp_all add: at_event_honest_def at_event_ok_def)

text \<open>
  A request on an empty buffer follows a null pointer, and ends a run; nothing else does. \<open>at_starves\<close> says that one
  of the requests meets an empty buffer.
\<close>

definition at_starves :: "(simtime \<times> am_tx_event) list \<Rightarrow> am_tx \<Rightarrow> bool" where
  "at_starves evs t = (\<exists>es now sz es' t'. evs = es @ (now, At_Request sz) # es' \<and> at_run es t = Inr t' \<and> at_pduBuffer t' = [])"

lemma at_starves_Cons: "at_step ev t = Inr t1 \<Longrightarrow> at_starves evs t1 \<Longrightarrow> at_starves (ev # evs) t"
  unfolding at_starves_def by (elim exE conjE) (rule exI[of _ "ev # es" for es], fastforce)

definition at_run_good :: "nat \<Rightarrow> am_sdu list \<Rightarrow> (simtime \<times> am_tx_event) list \<Rightarrow> am_tx \<Rightarrow> am_tx cpp \<Rightarrow> bool" where
  "at_run_good u ss evs t x = (case x of
      Inl e \<Rightarrow> e = Undefined_Behaviour \<and> at_starves evs t
    | Inr t' \<Rightarrow> (\<exists>ts b'. at_inv UNIV u (ss @ ts) b' t' \<and> at_size t' = at_size t
        \<and> mset ts + mset (at_sduQueue t') \<subseteq># mset (at_sduQueue t) + at_sdus evs))"

lemma at_run_ok:
  assumes "at_inv UNIV u ss b t" "length (am_stream u ss) \<le> 200 * k" "unat (md_mrwSeqNum (at_mrwDesc t)) \<le> k" "at_honest evs t" "k + length evs \<le> 10000000"
  shows "at_run_good u ss evs t (at_run evs t)"
  using assms
proof (induction evs arbitrary: ss b t k)
  case Nil
  then show ?case by (auto simp: at_run_good_def at_sdus_def intro!: exI[of _ "[]"])
next
  case (Cons ev evs)
  show ?case
  proof (cases "\<exists>sz. snd ev = At_Request sz \<and> at_pduBuffer t = []")
    case True
    then obtain now sz where ev: "ev = (now, At_Request sz)" and none: "at_pduBuffer t = []" by (cases ev) auto
    have "at_starves (ev # evs) t" unfolding at_starves_def using none ev
      by (intro exI[of _ "[]"] exI[of _ now] exI[of _ sz] exI[of _ evs] exI[of _ t]) simp
    then show ?thesis using none ev by (simp add: at_run_good_def at_step_def at_sendPdus_def)
  next
    case False
    have N: "length (am_stream u ss) + 200 < 2 ^ 31" "unat (md_mrwSeqNum (at_mrwDesc t)) < 2 ^ 31" "length (am_stream u ss) < 2 ^ 31" using Cons.prems(2,3,5) by simp_all
    have "at_event_ok UNIV u ss (snd ev) t" using at_event_honest_ok[OF _ Cons.prems(1) N(3), of "snd ev"] Cons.prems(4) False by simp blast
    from at_step_ok[OF Cons.prems(1) this N(1,2)] obtain t1 ts1 b1 where t1: "at_step ev t = Inr t1" "at_inv UNIV u (ss @ ts1) b1 t1" "at_size t1 = at_size t"
      "unat (md_mrwSeqNum (at_mrwDesc t1)) \<le> Suc (unat (md_mrwSeqNum (at_mrwDesc t)))" "mset ts1 + mset (at_sduQueue t1) \<subseteq># mset (at_sduQueue t) + at_event_sdus (snd ev)"
      "length (am_stream u (ss @ ts1)) \<le> length (am_stream u ss) + 200" by (rule at_grows_length)
    have "length (am_stream u (ss @ ts1)) \<le> 200 * Suc k" "unat (md_mrwSeqNum (at_mrwDesc t1)) \<le> Suc k" "at_honest evs t1" "Suc k + length evs \<le> 10000000"
      using Cons.prems(2-5) t1(1,4,6) by simp_all
    note IH = Cons.IH[OF t1(2) this]
    show ?thesis
    proof (cases "at_run evs t1")
      case (Inl e)
      then show ?thesis using IH t1(1) at_starves_Cons[OF t1(1)] by (simp add: at_run_good_def)
    next
      case (Inr t')
      then obtain ts b' where t': "at_inv UNIV u ((ss @ ts1) @ ts) b' t'" "at_size t' = at_size t1"
        "mset ts + mset (at_sduQueue t') \<subseteq># mset (at_sduQueue t1) + at_sdus evs" using IH by (auto simp: at_run_good_def)
      have "mset ts1 + (mset ts + mset (at_sduQueue t')) \<subseteq># mset ts1 + (mset (at_sduQueue t1) + at_sdus evs)" using t'(3) by (rule subset_mset.add_left_mono)
      also have "\<dots> = (mset ts1 + mset (at_sduQueue t1)) + at_sdus evs" by (simp add: ac_simps)
      also have "\<dots> \<subseteq># (mset (at_sduQueue t) + at_event_sdus (snd ev)) + at_sdus evs" using t1(5) by (rule subset_mset.add_right_mono)
      finally have "mset (ts1 @ ts) + mset (at_sduQueue t') \<subseteq># mset (at_sduQueue t) + at_sdus (ev # evs)" by (simp add: at_sdus_def ac_simps)
      then show ?thesis using t1(1,3) t'(1,2) Inr unfolding at_run_good_def
        by simp (rule exI[of _ "ts1 @ ts"], auto)
    qed
  qed
qed

section \<open>The receiver\<close>

text \<open>Which numbers have arrived, and which SDUs are complete with them.\<close>

definition ar_arrived :: "nat \<Rightarrow> am_sdu list \<Rightarrow> (simtime \<times> am_rx_event) list \<Rightarrow> nat \<Rightarrow> bool" where
  "ar_arrived u ss evs k = list_ex (\<lambda>ev. case snd ev of Ar_Pdu p \<Rightarrow> am_norm p = am_stream u ss ! k | Ar_Timer \<Rightarrow> False) evs"

definition ar_completed :: "nat \<Rightarrow> am_sdu list \<Rightarrow> (simtime \<times> am_rx_event) list \<Rightarrow> nat list" where
  "ar_completed u ss evs = filter (\<lambda>i. list_all (ar_arrived u ss evs) [am_start u ss i..<am_start u ss (Suc i)]) [0..<length ss]"

text \<open>The events: PDUs of the stream, and timers that run.\<close>

fun ar_possible :: "nat \<Rightarrow> am_sdu list \<Rightarrow> (simtime \<times> am_rx_event) list \<Rightarrow> am_rx \<Rightarrow> bool" where
  "ar_possible u ss [] r = True"
| "ar_possible u ss (ev # evs) r = ((case snd ev of Ar_Pdu p \<Rightarrow> am_norm p \<in> set (am_stream u ss) | Ar_Timer \<Rightarrow> ar_timer r \<noteq> None)
     \<and> (case ar_step ev r of Inl _ \<Rightarrow> True | Inr r' \<Rightarrow> ar_possible u ss evs r'))"

lemma am_stream_inj:
  assumes "k < length (am_stream u ss)" "j < length (am_stream u ss)" "length (am_stream u ss) < 2 ^ 31" "am_stream u ss ! k = am_stream u ss ! j"
  shows "k = j"
proof -
  have n: "am_norm (am_stream u ss ! k) = am_stream u ss ! k" "am_norm (am_stream u ss ! j) = am_stream u ss ! j"
    using am_ownerE(4)[OF assms(1)] am_ownerE(4)[OF assms(2)] by simp_all
  have "(of_nat k :: 32 word) = of_nat j" using am_place(6)[OF assms(1,3) n(1)] am_place(6)[OF assms(2,3) n(2)] assms(4) by simp
  then show ?thesis using am_bounded_num assms by simp
qed

lemma ar_step_exact:
  assumes inv: "ar_inv R u ss 0 ds r" "ar_full R u ss 0 ds" and ss: "am_sdus_ok u ss" and W: "length (am_stream u ss) \<le> ar_size r"
    and ev: "case snd ev of Ar_Pdu p \<Rightarrow> am_norm p \<in> set (am_stream u ss) | Ar_Timer \<Rightarrow> ar_timer r \<noteq> None"
  obtains r' ds' where "ar_step ev r = Inr r'" "ar_size r' = ar_size r" "ar_inv (R \<union> {k. k < length (am_stream u ss) \<and> ar_arrived u ss [ev] k}) u ss 0 ds' r'"
    "ar_full (R \<union> {k. k < length (am_stream u ss) \<and> ar_arrived u ss [ev] k}) u ss 0 ds'"
proof (cases "snd ev")
  case (Ar_Pdu p)
  have N: "length (am_stream u ss) < 2 ^ 31" using ss by (simp add: am_sdus_ok_def)
  obtain k where k: "k < length (am_stream u ss)" "am_norm p = am_stream u ss ! k" using ev Ar_Pdu by (auto simp: in_set_conv_nth)
  have "ar_arrived u ss [ev] j = (am_stream u ss ! k = am_stream u ss ! j)" for j using k(2) Ar_Pdu by (simp add: ar_arrived_def)
  then have "{j. j < length (am_stream u ss) \<and> ar_arrived u ss [ev] j} = {k}" using am_stream_inj[OF k(1) _ N] k(1) by blast
  then have R: "R \<union> {j. j < length (am_stream u ss) \<and> ar_arrived u ss [ev] j} = insert k R" by simp
  have W': "length (am_stream u ss) \<le> 0 + ar_size r" using W by simp
  obtain R' ds' where "ar_goes R' u ss 0 ds' (ar_size r) (ar_enque (fst ev) p r)" "R' = (if k < 0 then R else insert k R)" "ar_full R u ss 0 ds \<longrightarrow> ar_full R' u ss 0 ds'"
    using ar_enque_data_ok[OF inv(1) ss W' am_place(5)[OF k(1) N k(2)] k, of "fst ev"] .
  note goes = this
  have R': "R' = insert k R" using goes(2) by simp
  have g: "ar_goes (insert k R) u ss 0 ds' (ar_size r) (ar_enque (fst ev) p r)" "ar_full (insert k R) u ss 0 ds'" using goes(1,3) inv(2) unfolding R' by blast+
  then obtain r' where "ar_enque (fst ev) p r = Inr r'" "ar_size r' = ar_size r" "ar_inv (insert k R) u ss 0 ds' r'"
    by (cases "ar_enque (fst ev) p r") (simp_all add: ar_goes_def)
  then show thesis using that[of r' ds'] g(2) Ar_Pdu unfolding R by (simp add: ar_step_def)
next
  case Ar_Timer
  then have R: "R \<union> {j. j < length (am_stream u ss) \<and> ar_arrived u ss [ev] j} = R" by (simp add: ar_arrived_def)
  have g: "ar_goes R u ss 0 ds (ar_size r) (ar_handleMessage (fst ev) r)"
    using ar_handleMessage_ok[OF inv(1)] ss ev Ar_Timer by (simp add: am_sdus_ok_def)
  then obtain r' where "ar_handleMessage (fst ev) r = Inr r'" "ar_size r' = ar_size r" "ar_inv R u ss 0 ds r'"
    by (cases "ar_handleMessage (fst ev) r") (simp_all add: ar_goes_def)
  then show thesis using that[of r' ds] inv(2) Ar_Timer unfolding R by (simp add: ar_step_def)
qed

lemma ar_run_exact:
  assumes "ar_inv R u ss 0 ds r" "ar_full R u ss 0 ds" "am_sdus_ok u ss" "length (am_stream u ss) \<le> ar_size r" "ar_possible u ss evs r"
  shows "\<exists>r' ds'. ar_run evs r = Inr r' \<and> ar_inv (R \<union> {k. k < length (am_stream u ss) \<and> ar_arrived u ss evs k}) u ss 0 ds' r'
    \<and> ar_full (R \<union> {k. k < length (am_stream u ss) \<and> ar_arrived u ss evs k}) u ss 0 ds'"
  using assms
proof (induction evs arbitrary: R ds r)
  case Nil
  then show ?case by (intro exI[of _ r] exI[of _ ds]) (simp add: ar_arrived_def)
next
  case (Cons ev evs)
  have ev: "case snd ev of Ar_Pdu p \<Rightarrow> am_norm p \<in> set (am_stream u ss) | Ar_Timer \<Rightarrow> ar_timer r \<noteq> None" using Cons.prems(5) by simp
  let ?A = "\<lambda>evs. {k. k < length (am_stream u ss) \<and> ar_arrived u ss evs k}"
  obtain r1 ds1 where r1: "ar_step ev r = Inr r1" "ar_size r1 = ar_size r" "ar_inv (R \<union> ?A [ev]) u ss 0 ds1 r1" "ar_full (R \<union> ?A [ev]) u ss 0 ds1"
    using ar_step_exact[OF Cons.prems(1-4) ev] .
  have "?A (ev # evs) = ?A [ev] \<union> ?A evs" by (auto simp: ar_arrived_def)
  then have A: "R \<union> ?A (ev # evs) = (R \<union> ?A [ev]) \<union> ?A evs" by auto
  have "ar_possible u ss evs r1" "length (am_stream u ss) \<le> ar_size r1" using Cons.prems(4,5) r1(1,2) by simp_all
  from Cons.IH[OF r1(3,4) Cons.prems(3) this(2,1)] show ?case unfolding A using r1(1) by simp
qed

lemma ar_completed_iff:
  "i \<in> set (ar_completed u ss evs) \<longleftrightarrow> i < length ss \<and> {am_start u ss i..<am_start u ss (Suc i)} \<subseteq> {k. k < length (am_stream u ss) \<and> ar_arrived u ss evs k}"
proof -
  have "k < length (am_stream u ss)" if "k < am_start u ss (Suc i)" for k using that am_start_le[of u ss "Suc i"] by simp
  then show ?thesis by (auto simp: ar_completed_def list_all_iff)
qed

end
