(* ===== verification/Timer_Refinement.thy ===== *)
theory Timer_Refinement
  imports Multi_Timer
begin

text \<open>
  Any sequence of calls on \<open>TMultiTimer\<close> against the map from events to deadlines: a call throws exactly when the map says so, and the event that
  is scheduled is one with the earliest deadline.
\<close>

datatype mt_op = Mt_Add simtime simtime "32 word" | Mt_Remove "32 word" | Mt_Handle

definition mt_apply :: "mt_op \<Rightarrow> multi_timer \<Rightarrow> multi_timer cpp" where
  "mt_apply op t = (case op of Mt_Add now d e \<Rightarrow> mt_add now d e t | Mt_Remove e \<Rightarrow> mt_remove e t | Mt_Handle \<Rightarrow> mt_handle t)"

fun mt_run :: "mt_op list \<Rightarrow> multi_timer \<Rightarrow> multi_timer cpp" where
  "mt_run [] t = Inr t"
| "mt_run (op # ops) t = cpp_bind (mt_apply op t) (mt_run ops)"

section \<open>The specification\<close>

type_synonym deadline_map = "32 word \<Rightarrow> simtime option"

definition dm_enabled :: "mt_op \<Rightarrow> deadline_map \<Rightarrow> bool" where
  "dm_enabled op m = (case op of Mt_Add _ _ e \<Rightarrow> m e = None | Mt_Remove e \<Rightarrow> m e \<noteq> None | Mt_Handle \<Rightarrow> m \<noteq> (\<lambda>_. None))"

definition dm_earliest :: "deadline_map \<Rightarrow> simtime \<Rightarrow> 32 word \<Rightarrow> bool" where
  "dm_earliest m d e = (m e = Some d \<and> (\<forall>e' d'. m e' = Some d' \<longrightarrow> d \<le> d'))"

inductive dm_steps :: "deadline_map \<Rightarrow> mt_op list \<Rightarrow> deadline_map \<Rightarrow> bool" where
  finished: "dm_steps m [] m"
| add: "m e = None \<Longrightarrow> dm_steps (m(e \<mapsto> now + d)) ops m' \<Longrightarrow> dm_steps m (Mt_Add now d e # ops) m'"
| remove: "m e \<noteq> None \<Longrightarrow> dm_steps (m(e := None)) ops m' \<Longrightarrow> dm_steps m (Mt_Remove e # ops) m'"
| handle: "dm_earliest m d e \<Longrightarrow> dm_steps (m(e := None)) ops m' \<Longrightarrow> dm_steps m (Mt_Handle # ops) m'"

section \<open>Simulation\<close>

text \<open>The throws.\<close>

lemma mt_apply_throws:
  assumes "mt_ok t" "\<not> dm_enabled op (mt_deadlines t)"
  shows "\<exists>err. mt_apply op t = Inl err"
proof (cases op)
  case (Mt_Add now d e)
  then have "mt_reverseList t e \<noteq> None" using assms(2) by (simp add: dm_enabled_def mt_deadlines_def)
  then show ?thesis using Mt_Add by (cases "mt_directList t") (auto simp: mt_apply_def mt_add_def Let_def)
next
  case (Mt_Remove e)
  then have "mt_reverseList t e = None" using assms(2) by (cases "mt_reverseList t e") (simp_all add: dm_enabled_def mt_deadlines_def)
  then show ?thesis using Mt_Remove by (simp add: mt_apply_def mt_remove_def)
next
  case Mt_Handle
  then have "mt_intr t = None" using assms mt.next_none[OF assms(1)] by (simp add: dm_enabled_def)
  then have "mt_directList t = []" using assms(1) by (simp add: mt_ok_def split: list.splits)
  then show ?thesis using Mt_Handle by (simp add: mt_apply_def mt_handle_def)
qed

text \<open>Otherwise a call does what the map does.\<close>

lemma mt_apply_enabled:
  assumes "mt_ok t" "dm_enabled op (mt_deadlines t)"
  obtains t' where "mt_apply op t = Inr t'" "mt_ok t'" "\<And>ops m. dm_steps (mt_deadlines t') ops m \<Longrightarrow> dm_steps (mt_deadlines t) (op # ops) m"
proof (cases op)
  case (Mt_Add now d e)
  then show thesis using assms that mt.add_ok[OF assms(1), of e now d] by (fastforce simp: dm_enabled_def mt_apply_def intro: dm_steps.add)
next
  case (Mt_Remove e)
  then show thesis using assms that mt.remove_ok[OF assms(1), of e] by (fastforce simp: dm_enabled_def mt_apply_def intro: dm_steps.remove)
next
  case Mt_Handle
  then obtain d e where n: "mt_intr t = Some (d, e)" using assms mt.next_none[OF assms(1)] by (auto simp: dm_enabled_def)
  then have "dm_earliest (mt_deadlines t) d e" using mt.next_least[OF assms(1)] by (simp add: dm_earliest_def)
  then show thesis using that mt.handle_ok[OF assms(1) n] Mt_Handle by (fastforce simp: mt_apply_def intro: dm_steps.handle)
qed

lemma mt_run_refines:
  assumes "mt_ok t" "mt_run ops t = Inr t'"
  shows "mt_ok t' \<and> dm_steps (mt_deadlines t) ops (mt_deadlines t')"
  using assms
proof (induction ops arbitrary: t)
  case Nil
  then show ?case by (simp add: dm_steps.finished)
next
  case (Cons op ops)
  have "dm_enabled op (mt_deadlines t)" using mt_apply_throws[OF Cons.prems(1), of op] Cons.prems(2) by force
  from mt_apply_enabled[OF Cons.prems(1) this] obtain t1 where
    t1: "mt_apply op t = Inr t1" "mt_ok t1" "\<And>ops m. dm_steps (mt_deadlines t1) ops m \<Longrightarrow> dm_steps (mt_deadlines t) (op # ops) m" by blast
  then show ?case using Cons.IH[OF t1(2)] Cons.prems(2) by simp
qed

end
