(* ===== verification/Rlc_Am_Properties.thy ===== *)
theory Rlc_Am_Properties
  imports Rlc_Am_Runs Timer_Refinement
begin

text \<open>
  What RLC in acknowledged mode guarantees: the two entities over any network, the transmitter and the receiver alone, the
  status reports, and the timers of the transmitter.
\<close>

section \<open>A small connection\<close>

definition am_demo_params :: am_tx_params where
  "am_demo_params = \<lparr>pa_maxRtx = 3, pa_fragmentSize = 3, pa_pduRtxTimeout = 10, pa_ctrlPduRtxTimeout = 10,
     pa_bufferStatusTimeout = 10, pa_txWindowSize = 4\<rparr>"

text \<open>An SDU of two octets behind its header, which makes two PDUs.\<close>

definition am_demo_sdu :: "32 word \<Rightarrow> am_sdu" where
  "am_demo_sdu n = \<lparr>as_octets = am_sduHeader n @ [Octet 1, Octet 2], as_tag = fc_new\<rparr>"

text \<open>Lengths are compared as integers when the examples are evaluated.\<close>

lemma am_sdu_ok_code [code]: "am_sdu_ok s = (cpp_ok (am_popSdu (as_octets s)) \<and> int (length (as_octets s)) < 2147483648)"
  by (simp add: am_sdu_ok_def)

lemma am_sdus_ok_code [code]: "am_sdus_ok u ss = (0 < u \<and> list_all (\<lambda>s. am_sdu_ok s \<and> am_sno s \<noteq> -1) ss \<and> distinct (map am_sno ss)
    \<and> int (length (am_stream u ss)) < 2147483648)"
  by (simp add: am_sdus_ok_def list_all_iff)

section \<open>Both entities\<close>

text \<open>
  C4. Over a network that loses, repeats and reorders the PDUs of both directions in any way, with timers that run going off at any
  time, the SDUs that go up are SDUs handed in, with the content they had, each at most once, provided that the window of the
  transmitter is at most 200 and that of the receiver at least twice as large. The SDUs have numbers of their own, other than
  \<open>-1\<close>, and headers that can be read; fragments are not empty, there are at most \<open>10 ^ 7\<close> events, and the MAC layer asks when a PDU is
  buffered. The transmitter never throws then; the receiver can fail in two ways only: a command to move its window arrives before
  any data, or PDUs of an SDU that was given up are still waiting when another one is complete. The defaults of \<open>LteRlc.ned\<close>, 200 for both
  windows, do not meet the condition on the windows, and it is needed: see \<open>am_equal_windows\<close>.
\<close>

lemma am_link_safe:
  assumes "0 < pa_fragmentSize p" "0 < unat w" "unat (pa_txWindowSize p) \<le> 200" "2 * unat (pa_txWindowSize p) \<le> unat w"
    "al_all_ok (al_sdus evs)" "length evs \<le> 10000000"
  shows "case al_run evs (at_new p, ar_new ackReportInterval statusReportInterval w) of
      Inl e \<Rightarrow> e = Undefined_Behaviour \<or> e = Runtime_Error ''AmRxQueue::passUp(): fragment buffer has fragments for another SDU''
    | Inr (t, r) \<Rightarrow> mset (ar_delivered (ar_out r)) \<subseteq># mset (map am_up (al_sdus evs))"
proof -
  have "al_good (pa_fragmentSize p) (unat w) (al_sdus evs) [] (0 + length evs) (al_run evs (at_new p, ar_new ackReportInterval statusReportInterval w))"
    by (rule al_run_ok[OF al_new_inv[OF assms(1,3,4,2)] assms(5,1)]) (use assms(6) in simp)
  then show ?thesis using al_inv_delivered by (auto simp: al_good_def ar_known_error_def split: sum.splits)
qed

text \<open>The second PDU arrives first and twice, the first one is lost and sent again by its timer, the old one arrives late.\<close>

definition am_demo_run :: "(simtime \<times> am_link_event) list" where
  "am_demo_run = [(0, Al_Enque (am_demo_sdu 7)), (1, Al_Request 10), (1, Al_Request 10), (2, Al_Forward 1), (3, Al_Forward 1),
     (12, Al_Tx_Timer (Am_Pdu_T 0)), (13, Al_Request 10), (14, Al_Forward 2), (15, Al_Back 1), (16, Al_Forward 0)]"

lemma am_link_safe_witness:
  "\<exists>t r. al_run am_demo_run (at_new am_demo_params, ar_new 0 5 8) = Inr (t, r) \<and> ar_delivered (ar_out r) = [am_up (am_demo_sdu 7)]
    \<and> mset (ar_delivered (ar_out r)) \<subseteq># mset (map am_up (al_sdus am_demo_run))"
proof -
  have run: "case al_run am_demo_run (at_new am_demo_params, ar_new 0 5 8) of Inl _ \<Rightarrow> False | Inr (t, r) \<Rightarrow> ar_delivered (ar_out r) = [am_up (am_demo_sdu 7)]"
    by code_simp
  have "al_all_ok (al_sdus am_demo_run)" by code_simp
  moreover have "0 < pa_fragmentSize am_demo_params" "0 < unat (8 :: 32 word)" "unat (pa_txWindowSize am_demo_params) \<le> 200"
    "2 * unat (pa_txWindowSize am_demo_params) \<le> unat (8 :: 32 word)" by (simp_all add: am_demo_params_def)
  moreover have "length am_demo_run \<le> 10000000" by (simp add: am_demo_run_def)
  ultimately have "case al_run am_demo_run (at_new am_demo_params, ar_new 0 5 8) of
      Inl e \<Rightarrow> e = Undefined_Behaviour \<or> e = Runtime_Error ''AmRxQueue::passUp(): fragment buffer has fragments for another SDU''
    | Inr (t, r) \<Rightarrow> mset (ar_delivered (ar_out r)) \<subseteq># mset (map am_up (al_sdus am_demo_run))" by (intro am_link_safe)
  with run show ?thesis by (auto split: sum.splits)
qed

section \<open>The transmitter\<close>




text \<open>When the last PDU has been sent, another request of the MAC layer follows the null pointer.\<close>

lemma am_empty_request:
  "case at_run [(0, At_Enque (am_demo_sdu 7)), (1, At_Request 10), (1, At_Request 10), (1, At_Request 10)] (at_new am_demo_params) of
      Inl e \<Rightarrow> e = Undefined_Behaviour | Inr _ \<Rightarrow> False"
  by code_simp

section \<open>The receiver\<close>

text \<open>
  C14. While the window stays where it is, the receiver is the reference definition: whatever the order and the repetitions of the
  PDUs, it passes up exactly the SDUs all of whose fragments have arrived, once each.
\<close>

lemma am_receiver_exact:
  assumes "am_sdus_ok u ss" "length (am_stream u ss) \<le> unat w" "0 < unat w" "ar_possible u ss evs (ar_new ackReportInterval statusReportInterval w)"
  shows "\<exists>r. ar_run evs (ar_new ackReportInterval statusReportInterval w) = Inr r
    \<and> mset (ar_delivered (ar_out r)) = mset (map (\<lambda>i. am_up (ss ! i)) (ar_completed u ss evs))"
proof -
  let ?r = "ar_new ackReportInterval statusReportInterval w" and ?R = "{k. k < length (am_stream u ss) \<and> ar_arrived u ss evs k}"
  have inv: "ar_inv {} u ss 0 [] ?r" using ar_inv_mono[OF ar_new_inv[OF assms(3), of u], of ss] by simp
  have "am_start u ss i < am_start u ss (Suc i)" if "i < length ss" for i
    using am_start_Suc[OF that] am_len_pos[of "ss ! i" u] assms(1) that by (simp add: am_sdus_ok_def)
  then have full: "ar_full {} u ss 0 []" by (auto simp: ar_full_def)
  have "length (am_stream u ss) \<le> ar_size ?r" using assms(2) by (simp add: ar_new_def)
  from ar_run_exact[OF inv full assms(1) this assms(4)] obtain r ds where
    r: "ar_run evs ?r = Inr r" "ar_inv ?R u ss 0 ds r" "ar_full ?R u ss 0 ds" by auto
  have ds: "ar_delivered (ar_out r) = map (\<lambda>i. am_up (ss ! i)) ds" "distinct ds"
    "\<forall>i \<in> set ds. i < length ss \<and> {am_start u ss i..<am_start u ss (Suc i)} \<subseteq> ?R" using r(2) by (auto simp: ar_inv_def ar_out_ok_def)
  have "set ds = set (ar_completed u ss evs)" using ds(3) r(3) unfolding ar_full_def by (auto simp: ar_completed_iff)
  moreover have "distinct (ar_completed u ss evs)" by (simp add: ar_completed_def)
  ultimately have "mset ds = mset (ar_completed u ss evs)" using ds(2) set_eq_iff_mset_eq_distinct by blast
  then show ?thesis using r(1) ds(1) by (metis mset_map)
qed

text \<open>Of three SDUs the last and the first are complete, in this order.\<close>

definition am_demo_arrivals :: "(simtime \<times> am_rx_event) list" where
  "am_demo_arrivals = (let st = am_stream 3 [am_demo_sdu 1, am_demo_sdu 2, am_demo_sdu 3]
     in [(1, Ar_Pdu (st ! 5)), (2, Ar_Pdu (st ! 3)), (3, Ar_Pdu (st ! 4)), (4, Ar_Pdu (st ! 5)), (6, Ar_Timer), (7, Ar_Pdu (st ! 1)), (8, Ar_Pdu (st ! 0))])"

lemma am_receiver_exact_witness:
  "\<exists>r. ar_run am_demo_arrivals (ar_new 0 5 8) = Inr r
    \<and> mset (ar_delivered (ar_out r)) = mset [am_up (am_demo_sdu 1), am_up (am_demo_sdu 3)]"
proof -
  let ?ss = "[am_demo_sdu 1, am_demo_sdu 2, am_demo_sdu 3]"
  have "am_sdus_ok 3 ?ss" "length (am_stream 3 ?ss) \<le> unat (8 :: 32 word)" "ar_possible 3 ?ss am_demo_arrivals (ar_new 0 5 8)" by code_simp+
  from am_receiver_exact[OF this(1,2) _ this(3)] have "\<exists>r. ar_run am_demo_arrivals (ar_new 0 5 8) = Inr r
    \<and> mset (ar_delivered (ar_out r)) = mset (map (\<lambda>i. am_up (?ss ! i)) (ar_completed 3 ?ss am_demo_arrivals))" by simp
  moreover have "ar_completed 3 ?ss am_demo_arrivals = [0, 2]" by code_simp
  ultimately show ?thesis by simp
qed

section \<open>Status reports\<close>

text \<open>
  C20. A status report that is due is one acknowledgement: its cumulative number is the last one of the PDUs received without a
  gap from the start of the window, and its bitmap lists the flags of the numbers behind.
\<close>

lemma am_status_report_exact:
  assumes "0 < ar_size r" "length (ar_received r) = ar_size r" "ar_flowControlInfo r = Some info" "ar_ackReportInterval r \<le> now - ar_lastSentAck r"
  defines "m \<equiv> length (takeWhile (\<lambda>b. b) (ar_received r))"
  shows "\<exists>h. ar_sendStatusReport now r
      = Inr (r\<lparr>ar_lastSentAck := now, ar_out := ar_out r @ [Am_Buffer_Pdu \<lparr>am_hdr = h, am_data = [], am_tag = info\<rparr>]\<rparr>)
    \<and> ap_amType h = Am_Ack \<and> ap_lastSn h = ar_first r + of_nat m - 1 \<and> ap_bitmap h = drop m (ar_received r)
    \<and> (m < ar_size r \<longrightarrow> ap_firstSn h = ar_first r + of_nat m)"
proof -
  have l: "0 < length (ar_received r)" using assms(1,2) by simp
  have due: "\<not> now - ar_lastSentAck r < ar_ackReportInterval r" using assms(4) by simp
  have "0 < m \<or> drop m (ar_received r) \<noteq> []" using l by (cases m) auto
  then have "ar_sendStatusReport now r = Inr (r\<lparr>ar_lastSentAck := now, ar_out := ar_out r @
      [Am_Buffer_Pdu \<lparr>am_hdr = ar_report m (drop m (ar_received r)) r, am_data = [], am_tag = info\<rparr>]\<rparr>)"
    unfolding ar_sendStatusReport_def vec_at_ok[OF l] cpp_bind_simps ar_report_exact[OF l assms(2), folded m_def] if_not_P[OF due]
    using assms(3) by (auto simp: ar_effect_def)
  then show ?thesis using assms(2) by (intro exI[of _ "ar_report m (drop m (ar_received r)) r"]) (simp add: ar_report_def Let_def am_newPdu_def)
qed

lemma am_status_report_exact_witness:
  "\<exists>h r. ap_amType h = Am_Ack \<and> ap_lastSn h = 1 \<and> ap_bitmap h = [False, True] \<and> ap_firstSn h = 2
    \<and> ar_sendStatusReport 9 ((ar_new 1 5 4)\<lparr>ar_received := [True, True, False, True], ar_flowControlInfo := Some fc_new\<rparr>) = Inr r
    \<and> ar_out r = [Am_Buffer_Pdu \<lparr>am_hdr = h, am_data = [], am_tag = fc_new\<rparr>]"
  using am_status_report_exact[of "(ar_new 1 5 4)\<lparr>ar_received := [True, True, False, True], ar_flowControlInfo := Some fc_new\<rparr>" fc_new 9]
  by (auto simp: ar_new_def)

section \<open>The timers\<close>

text \<open>
  C24. \<open>TMultiTimer\<close> refines the map from events to deadlines: after any calls that returned, its state stands for the map that the specification
  reaches by the same calls, the next call throws exactly when the map does not allow it, and the event scheduled is one with the earliest deadline, if there is any.
\<close>

lemma am_timers_refine:
  assumes "mt_run ops mt_new = Inr t"
  shows "dm_steps (\<lambda>_. None) ops (mt_deadlines t) \<and> ((\<exists>e. mt_apply op t = Inl e) \<longleftrightarrow> \<not> dm_enabled op (mt_deadlines t))
    \<and> (case mt_intr t of None \<Rightarrow> mt_deadlines t = (\<lambda>_. None) | Some (d, e) \<Rightarrow> dm_earliest (mt_deadlines t) d e)"
proof -
  have t: "mt_ok t" "dm_steps (\<lambda>_. None) ops (mt_deadlines t)" using mt_run_refines[OF mt_ok_new(1) assms] by simp_all
  have "(\<exists>e. mt_apply op t = Inl e) \<longleftrightarrow> \<not> dm_enabled op (mt_deadlines t)"
  proof (cases "dm_enabled op (mt_deadlines t)")
    case True
    then show ?thesis using mt_apply_enabled[OF t(1)] by (metis sum.distinct(1))
  qed (simp add: mt_apply_throws[OF t(1)])
  moreover have "case mt_intr t of None \<Rightarrow> mt_deadlines t = (\<lambda>_. None) | Some (d, e) \<Rightarrow> dm_earliest (mt_deadlines t) d e"
    using mt.next_none[OF t(1)] mt.next_least[OF t(1)] by (auto simp: dm_earliest_def split: option.splits)
  ultimately show ?thesis using t(2) by blast
qed

lemma am_timers_refine_witness:
  "\<exists>t. mt_run [Mt_Add 0 5 1, Mt_Add 1 2 7, Mt_Handle, Mt_Add 2 9 7] mt_new = Inr t \<and> dm_steps (\<lambda>_. None) [Mt_Add 0 5 1, Mt_Add 1 2 7, Mt_Handle, Mt_Add 2 9 7] (mt_deadlines t)
    \<and> mt_deadlines t 1 = Some 5 \<and> mt_deadlines t 7 = Some 11"
proof -
  let ?ops = "[Mt_Add 0 5 1, Mt_Add 1 2 7, Mt_Handle, Mt_Add 2 9 7]"
  have run: "case mt_run ?ops mt_new of Inl _ \<Rightarrow> False | Inr t \<Rightarrow> mt_deadlines t 1 = Some 5 \<and> mt_deadlines t 7 = Some 11" by code_simp
  then obtain t where t: "mt_run ?ops mt_new = Inr t" by (cases "mt_run ?ops mt_new") simp_all
  then show ?thesis using run am_timers_refine[OF t, of Mt_Handle] by simp
qed

section \<open>Where the assumptions matter\<close>

definition am_demo_pdu :: "nat \<Rightarrow> am_rx_event" where
  "am_demo_pdu k = Ar_Pdu (am_stream 3 [am_demo_sdu 1, am_demo_sdu 2] ! k)"

definition am_demo_mrw :: "32 word \<Rightarrow> am_rx_event" where
  "am_demo_mrw n = Ar_Pdu \<lparr>am_hdr = am_newPdu\<lparr>ap_amType := Am_Mrw, ap_lastSn := n\<rparr>, am_data = [], am_tag = fc_new\<rparr>"

text \<open>A window that moves by more than half of its size keeps flags of PDUs that are not there, and reports them.\<close>

lemma am_stale_flags:
  "case ar_run [(1, am_demo_pdu 0), (2, am_demo_pdu 1), (3, am_demo_pdu 2), (4, am_demo_mrw 3)] (ar_new 0 5 4) of
      Inl _ \<Rightarrow> False
    | Inr r \<Rightarrow> ar_first r = 3 \<and> ar_received r = [False, True, True, False] \<and> list_all (\<lambda>i. ca_get i (ar_pduBuffer r) = None) [0..<4]"
  by code_simp

text \<open>
  So the condition on the windows is needed: with equal ones the acknowledgement of a single SDU, nothing lost or repeated, moves the
  receiver's window by more than half, its next report acknowledges numbers that were never used, and an assertion of the transmitter
  fails.
\<close>

definition am_equal_run :: "(simtime \<times> am_link_event) list" where
  "am_equal_run = [(0, Al_Enque \<lparr>as_octets = am_sduHeader 7 @ [Octet 1, Octet 2, Octet 3, Octet 4, Octet 5], as_tag = fc_new\<rparr>),
     (1, Al_Request 10), (1, Al_Request 10), (1, Al_Request 10), (2, Al_Forward 0), (2, Al_Forward 1), (2, Al_Forward 2), (3, Al_Back 0),
     (4, Al_Request 10), (5, Al_Forward 3), (6, Al_Back 1), (8, Al_Rx_Timer), (9, Al_Back 2)]"

lemma am_equal_windows:
  "case al_run am_equal_run (at_new am_demo_params, ar_new 0 5 4) of
      Inl e \<Rightarrow> e = Runtime_Error ''ASSERT: pduRtxQueue_.get(index) != nullptr'' | Inr _ \<Rightarrow> False"
  by code_simp

text \<open>A command to move the window that is the first PDU of all follows the null pointer \<open>flowControlInfo_\<close>.\<close>

lemma am_mrw_before_data:
  "case ar_run [(1, am_demo_mrw 3)] (ar_new 0 5 4) of Inl e \<Rightarrow> e = Undefined_Behaviour | Inr _ \<Rightarrow> False"
  by code_simp

text \<open>SDUs for which the window has no room are taken from the queue and lost.\<close>

lemma am_sdu_lost:
  "case at_run [(0, At_Enque (am_demo_sdu 1)), (0, At_Enque (am_demo_sdu 2)), (0, At_Enque (am_demo_sdu 3))] (at_new (am_demo_params\<lparr>pa_txWindowSize := 5\<rparr>)) of
      Inl _ \<Rightarrow> False
    | Inr t \<Rightarrow> at_sduQueue t = [] \<and> map (\<lambda>p. ap_snoMainPacket (am_hdr p)) (at_pduBuffer t) = [1, 1, 2, 2]"
  by code_simp

end
