(* ===== verification/Rlc_Am_Layer.thy ===== *)
theory Rlc_Am_Layer
  imports Rlc_Am_Tx Rlc_Am_Rx
begin

text \<open>
  The AM module of RLC (\<open>LteRlcAm.cc\<close>): it keeps a transmitting and a receiving entity for every connection, hands each
  message to its entity and the control PDUs of a receiving entity to the transmitting entity of the same connection. An entity
  is named by its connection identifier. Prefix \<open>ay_\<close>. The calls that an entity makes on the module are its new outputs;
  they do not come back to the entity, so they are carried out in their order after its operation.
\<close>

section \<open>State\<close>

text \<open>What the module sends: an SDU to PDCP, a PDU or a notification to the MAC layer.\<close>

datatype ay_output = Ay_Up am_sdu | Ay_Down am_packet | Ay_Notify nat flow_control

record am_layer =
  ay_tx :: "mac_cid \<Rightarrow> am_tx option"
  ay_rx :: "mac_cid \<Rightarrow> am_rx option"
  ay_params :: am_tx_params
  ay_ackReportInterval :: simtime
  ay_statusReportInterval :: simtime
  ay_rxWindowSize :: "32 word"
  ay_out :: "ay_output list"

definition ay_new :: "am_tx_params \<Rightarrow> simtime \<Rightarrow> simtime \<Rightarrow> 32 word \<Rightarrow> am_layer" where
  "ay_new p ackReportInterval statusReportInterval rxWindowSize = \<lparr>ay_tx = (\<lambda>_. None), ay_rx = (\<lambda>_. None), ay_params = p,
     ay_ackReportInterval = ackReportInterval, ay_statusReportInterval = statusReportInterval, ay_rxWindowSize = rxWindowSize, ay_out = []\<rparr>"

section \<open>Finding the entity of a connection\<close>

definition ay_cid :: "flow_control \<Rightarrow> mac_cid cpp" where
  "ay_cid info = cpp_bind (ctrlInfoToUeId (flow_info.truncate info)) (\<lambda>nodeId. Inr (idToMacCid nodeId (fl_lcid info)))"

definition ay_newTx :: "am_layer \<Rightarrow> am_tx" where
  "ay_newTx ay = at_new (ay_params ay)"

definition ay_newRx :: "am_layer \<Rightarrow> am_rx" where
  "ay_newRx ay = ar_new (ay_ackReportInterval ay) (ay_statusReportInterval ay) (ay_rxWindowSize ay)"

definition ay_getTxBuffer :: "mac_cid \<Rightarrow> am_layer \<Rightarrow> am_layer" where
  "ay_getTxBuffer cid ay = (if ay_tx ay cid = None then ay\<lparr>ay_tx := (ay_tx ay)(cid \<mapsto> ay_newTx ay)\<rparr> else ay)"

definition ay_getRxBuffer :: "mac_cid \<Rightarrow> am_layer \<Rightarrow> am_layer" where
  "ay_getRxBuffer cid ay = (if ay_rx ay cid = None then ay\<lparr>ay_rx := (ay_rx ay)(cid \<mapsto> ay_newRx ay)\<rparr> else ay)"

section \<open>Calls on transmitting entities\<close>

text \<open>\<open>sendFragmented\<close> and \<open>indicateNewDataToMac\<close>, with the protocol tags left out.\<close>

fun ay_txOutput :: "am_tx_effect \<Rightarrow> ay_output" where
  "ay_txOutput (Am_New_Data n c) = Ay_Notify n c"
| "ay_txOutput (Am_Send p) = Ay_Down p"

definition ay_callTx :: "mac_cid \<Rightarrow> (am_tx \<Rightarrow> am_tx cpp) \<Rightarrow> am_layer \<Rightarrow> am_layer cpp" where
  "ay_callTx cid f ay = (case ay_tx ay cid of
      None \<Rightarrow> Inl Undefined_Behaviour
    | Some t \<Rightarrow> cpp_bind (f t) (\<lambda>t'. Inr (ay\<lparr>ay_tx := (ay_tx ay)(cid \<mapsto> t'),
        ay_out := ay_out ay @ map ay_txOutput (drop (length (at_out t)) (at_out t'))\<rparr>)))"

definition ay_onTx :: "flow_control \<Rightarrow> (am_tx \<Rightarrow> am_tx cpp) \<Rightarrow> am_layer \<Rightarrow> am_layer cpp" where
  "ay_onTx info f ay = cpp_bind (ay_cid info) (\<lambda>cid. ay_callTx cid f (ay_getTxBuffer cid ay))"

definition ay_bufferControlPdu :: "simtime \<Rightarrow> am_packet \<Rightarrow> am_layer \<Rightarrow> am_layer cpp" where
  "ay_bufferControlPdu now p ay = ay_onTx (am_tag p) (at_step (now, At_Buffer_Control p)) ay"

text \<open>The last statement of \<open>routeControlMessage\<close> touches the packet that \<open>handleControlPacket\<close> has deleted; it changes nothing else and is left out.\<close>

definition ay_routeControlMessage :: "simtime \<Rightarrow> am_packet \<Rightarrow> am_layer \<Rightarrow> am_layer cpp" where
  "ay_routeControlMessage now p ay = ay_onTx (am_tag p) (at_step (now, At_Control (am_hdr p))) ay"

text \<open>A packet of PDCP becomes an SDU with the sequence number of its tag.\<close>

definition ay_sdu :: "flow_control \<Rightarrow> am_octet list \<Rightarrow> am_sdu" where
  "ay_sdu info os = \<lparr>as_octets = am_sduHeader (fc_sequenceNumber info) @ os, as_tag = info\<rparr>"

definition ay_handleUpperMessage :: "simtime \<Rightarrow> flow_control \<Rightarrow> am_octet list \<Rightarrow> am_layer \<Rightarrow> am_layer cpp" where
  "ay_handleUpperMessage now info os ay = ay_onTx info (at_step (now, At_Enque (ay_sdu info os))) ay"

section \<open>Calls on receiving entities\<close>

text \<open>The calls that a receiving entity makes on the module; \<open>sendDefragmented\<close> sends the SDU up.\<close>

definition ay_effect :: "simtime \<Rightarrow> am_rx_effect \<Rightarrow> am_layer \<Rightarrow> am_layer cpp" where
  "ay_effect now e ay = (case e of
      Am_Deliver sno s \<Rightarrow> Inr (ay\<lparr>ay_out := ay_out ay @ [Ay_Up s]\<rparr>)
    | Am_Buffer_Pdu p \<Rightarrow> ay_bufferControlPdu now p ay
    | Am_Route p \<Rightarrow> ay_routeControlMessage now p ay)"

definition ay_callRx :: "simtime \<Rightarrow> mac_cid \<Rightarrow> (am_rx \<Rightarrow> am_rx cpp) \<Rightarrow> am_layer \<Rightarrow> am_layer cpp" where
  "ay_callRx now cid f ay = (case ay_rx ay cid of
      None \<Rightarrow> Inl Undefined_Behaviour
    | Some r \<Rightarrow> cpp_bind (f r) (\<lambda>r'.
        cpp_fold (ay_effect now) (drop (length (ar_out r)) (ar_out r')) (ay\<lparr>ay_rx := (ay_rx ay)(cid \<mapsto> r')\<rparr>)))"

section \<open>Messages from the MAC layer\<close>

datatype ay_lower = Ay_Request flow_control "32 word" | Ay_Pdu am_packet

definition ay_handleLowerMessage :: "simtime \<Rightarrow> ay_lower \<Rightarrow> am_layer \<Rightarrow> am_layer cpp" where
  "ay_handleLowerMessage now msg ay = (case msg of
      Ay_Request info sz \<Rightarrow> ay_onTx info (at_step (now, At_Request (sint sz))) ay
    | Ay_Pdu p \<Rightarrow>
        if ap_amType (am_hdr p) = Am_Ack \<or> ap_amType (am_hdr p) = Am_Mrw_Ack then ay_routeControlMessage now p ay
        else cpp_bind (ay_cid (am_tag p)) (\<lambda>cid. ay_callRx now cid (ar_step (now, Ar_Pdu p)) (ay_getRxBuffer cid ay)))"

section \<open>Deleting entities\<close>

definition ay_deleteQueues :: "node_id \<Rightarrow> am_layer \<Rightarrow> am_layer" where
  "ay_deleteQueues nodeId ay = ay\<lparr>
     ay_tx := (\<lambda>c. if MacCidToNodeId c = nodeId then None else ay_tx ay c),
     ay_rx := (\<lambda>c. if MacCidToNodeId c = nodeId then None else ay_rx ay c)\<rparr>"

section \<open>Runs of the module\<close>

text \<open>The events of the timers are messages that an entity has sent itself; they go with the entity.\<close>

datatype ay_event =
    Ay_Upper flow_control "am_octet list"
  | Ay_Lower ay_lower
  | Ay_Tx_Timer mac_cid am_timer_message
  | Ay_Rx_Timer mac_cid
  | Ay_Delete node_id

definition ay_txTimer :: "simtime \<Rightarrow> mac_cid \<Rightarrow> am_timer_message \<Rightarrow> am_layer \<Rightarrow> am_layer cpp" where
  "ay_txTimer now cid m ay = (case ay_tx ay cid of
      None \<Rightarrow> Inr ay
    | Some t \<Rightarrow> if at_scheduled m t then ay_callTx cid (at_step (now, At_Timer m)) ay else Inr ay)"

definition ay_rxTimer :: "simtime \<Rightarrow> mac_cid \<Rightarrow> am_layer \<Rightarrow> am_layer cpp" where
  "ay_rxTimer now cid ay = (case ay_rx ay cid of
      None \<Rightarrow> Inr ay
    | Some r \<Rightarrow> if ar_timer r \<noteq> None then ay_callRx now cid (ar_step (now, Ar_Timer)) ay else Inr ay)"

definition ay_step :: "simtime \<times> ay_event \<Rightarrow> am_layer \<Rightarrow> am_layer cpp" where
  "ay_step ev ay = (case snd ev of
      Ay_Upper info os \<Rightarrow> ay_handleUpperMessage (fst ev) info os ay
    | Ay_Lower msg \<Rightarrow> ay_handleLowerMessage (fst ev) msg ay
    | Ay_Tx_Timer cid m \<Rightarrow> ay_txTimer (fst ev) cid m ay
    | Ay_Rx_Timer cid \<Rightarrow> ay_rxTimer (fst ev) cid ay
    | Ay_Delete n \<Rightarrow> Inr (ay_deleteQueues n ay))"

section \<open>The entities of the module\<close>

text \<open>
  Whatever happens to the module, every entity it keeps is one that has run alone through some events of its own; so what is
  proved of runs of the entities applies to it.
\<close>

definition ay_ok :: "am_layer \<Rightarrow> bool" where
  "ay_ok ay = ((\<forall>c t. ay_tx ay c = Some t \<longrightarrow> (\<exists>evs. at_run evs (ay_newTx ay) = Inr t))
     \<and> (\<forall>c r. ay_rx ay c = Some r \<longrightarrow> (\<exists>evs. ar_run evs (ay_newRx ay) = Inr r)))"

lemma at_run_snoc: "at_run evs t = Inr t' \<Longrightarrow> at_run (evs @ [ev]) t = at_step ev t'"
  by (induction evs arbitrary: t) (auto simp: cpp_bind_Inr_iff, auto simp: cpp_bind_def split: sum.splits)

lemma ar_run_snoc: "ar_run evs r = Inr r' \<Longrightarrow> ar_run (evs @ [ev]) r = ar_step ev r'"
  by (induction evs arbitrary: r) (auto simp: cpp_bind_Inr_iff, auto simp: cpp_bind_def split: sum.splits)

lemma ay_new_ok: "ay_ok (ay_new p a s w)"
  by (simp add: ay_ok_def ay_new_def)

lemma ay_ok_out [simp]: "ay_ok (ay\<lparr>ay_out := es\<rparr>) = ay_ok ay"
  by (simp add: ay_ok_def ay_newTx_def ay_newRx_def)

lemma ay_ok_runs:
  assumes "ay_ok ay"
  shows "ay_tx ay c = Some t \<Longrightarrow> \<exists>evs. at_run evs (ay_newTx ay) = Inr t" "ay_rx ay c = Some r \<Longrightarrow> \<exists>evs. ar_run evs (ay_newRx ay) = Inr r"
  using assms unfolding ay_ok_def by blast+

lemma ay_ok_put:
  assumes "ay_ok ay"
  shows "at_run evs (ay_newTx ay) = Inr t \<Longrightarrow> ay_ok (ay\<lparr>ay_tx := (ay_tx ay)(c \<mapsto> t)\<rparr>)"
    "ar_run evs' (ay_newRx ay) = Inr r \<Longrightarrow> ay_ok (ay\<lparr>ay_rx := (ay_rx ay)(c \<mapsto> r)\<rparr>)"
  using assms unfolding ay_ok_def ay_newTx_def ay_newRx_def by auto

lemma ay_getTxBuffer_ok: "ay_ok ay \<Longrightarrow> ay_ok (ay_getTxBuffer c ay)"
  using ay_ok_put(1)[of ay "[]"] by (simp add: ay_getTxBuffer_def)

lemma ay_getRxBuffer_ok: "ay_ok ay \<Longrightarrow> ay_ok (ay_getRxBuffer c ay)"
  using ay_ok_put(2)[of ay "[]"] by (simp add: ay_getRxBuffer_def)

lemma ay_callTx_ok:
  assumes "ay_callTx c (at_step ev) ay = Inr ay'" "ay_ok ay"
  shows "ay_ok ay'"
proof -
  obtain t t' where t: "ay_tx ay c = Some t" "at_step ev t = Inr t'"
      "ay' = (ay\<lparr>ay_tx := (ay_tx ay)(c \<mapsto> t')\<rparr>)\<lparr>ay_out := ay_out ay @ map ay_txOutput (drop (length (at_out t)) (at_out t'))\<rparr>"
    using assms(1) by (auto simp: ay_callTx_def cpp_bind_Inr_iff split: option.splits)
  obtain evs where "at_run evs (ay_newTx ay) = Inr t" using ay_ok_runs(1)[OF assms(2) t(1)] by blast
  with t(2) have "at_run (evs @ [ev]) (ay_newTx ay) = Inr t'" by (simp add: at_run_snoc)
  from ay_ok_put(1)[OF assms(2) this] show ?thesis unfolding t(3) by simp
qed

lemma ay_onTx_ok: "ay_onTx info (at_step ev) ay = Inr ay' \<Longrightarrow> ay_ok ay \<Longrightarrow> ay_ok ay'"
  unfolding ay_onTx_def cpp_bind_Inr_iff using ay_callTx_ok[OF _ ay_getTxBuffer_ok] by blast

lemma ay_effect_ok: "ay_effect now e ay = Inr ay' \<Longrightarrow> ay_ok ay \<Longrightarrow> ay_ok ay'"
  using ay_onTx_ok by (auto simp: ay_effect_def ay_bufferControlPdu_def ay_routeControlMessage_def split: am_rx_effect.splits)

lemma ay_callRx_ok:
  assumes "ay_callRx now c (ar_step ev) ay = Inr ay'" "ay_ok ay"
  shows "ay_ok ay'"
proof -
  obtain r r' where r: "ay_rx ay c = Some r" "ar_step ev r = Inr r'"
      "cpp_fold (ay_effect now) (drop (length (ar_out r)) (ar_out r')) (ay\<lparr>ay_rx := (ay_rx ay)(c \<mapsto> r')\<rparr>) = Inr ay'"
    using assms(1) by (auto simp: ay_callRx_def cpp_bind_Inr_iff split: option.splits)
  obtain evs where "ar_run evs (ay_newRx ay) = Inr r" using ay_ok_runs(2)[OF assms(2) r(1)] by blast
  with r(2) have "ar_run (evs @ [ev]) (ay_newRx ay) = Inr r'" by (simp add: ar_run_snoc)
  from cpp_fold_invariant[where P = ay_ok, OF r(3) ay_ok_put(2)[OF assms(2) this]] ay_effect_ok show ?thesis by blast
qed

theorem ay_step_ok:
  assumes "ay_step ev ay = Inr ay'" "ay_ok ay"
  shows "ay_ok ay'"
proof (cases "snd ev")
  case (Ay_Lower msg)
  then show ?thesis using assms ay_onTx_ok ay_callRx_ok ay_getRxBuffer_ok[OF assms(2)]
    by (auto simp: ay_step_def ay_handleLowerMessage_def ay_routeControlMessage_def cpp_bind_Inr_iff split: ay_lower.splits if_splits)
next
  case (Ay_Tx_Timer cid m)
  then show ?thesis using assms ay_callTx_ok by (auto simp: ay_step_def ay_txTimer_def split: option.splits if_splits)
next
  case (Ay_Rx_Timer cid)
  then show ?thesis using assms ay_callRx_ok by (auto simp: ay_step_def ay_rxTimer_def split: option.splits if_splits)
next
  case (Ay_Delete n)
  then show ?thesis using assms by (auto simp: ay_step_def ay_deleteQueues_def ay_ok_def ay_newTx_def ay_newRx_def split: if_splits)
qed (use assms ay_onTx_ok in \<open>auto simp: ay_step_def ay_handleUpperMessage_def\<close>)

text \<open>The module keeps connections apart: a message changes entities of its own connection only.\<close>

lemma ay_onTx_other:
  assumes "ay_onTx info f ay = Inr ay'" "ay_cid info \<noteq> Inr c"
  shows "ay_tx ay' c = ay_tx ay c \<and> ay_rx ay' = ay_rx ay"
  using assms by (auto simp: ay_onTx_def ay_callTx_def ay_getTxBuffer_def cpp_bind_Inr_iff split: option.splits if_splits)

end
