(* ===== verification/Rlc_Tm.thy ===== *)
theory Rlc_Tm
  imports Pdcp_Packet
begin

text \<open>
  RLC in transparent mode (\<open>LteRlcTm.cc\<close>), a bounded queue of packets that the MAC layer asks for one by one, prefix \<open>tm_\<close>; and the
  module that distributes what comes from the MAC layer to the modes of RLC (\<open>LteRlcMux.cc\<close>), prefix \<open>mx_\<close>.
\<close>

section \<open>Packets\<close>

text \<open>The chunks that the module puts in front of a packet; what is behind them is only known by a name.\<close>

datatype tm_header = Tm_Sdu | Tm_Pdu | Tm_New_Data

record tm_packet =
  tp_headers :: "tm_header list"
  tp_content :: nat
  tp_tag :: "flow_control option"

text \<open>
  What comes from the MAC layer: a request, or a PDU with the control information attached to it, if any, and the contents of its two
  layers of encapsulation. The queue counts packets; \<open>tm_queueSize\<close> is an \<open>int\<close>.
\<close>

datatype tm_lower = Tm_Request | Tm_From_Mac "flow_control option" "nat option option"

text \<open>\<open>Tm_Loss\<close> is a value emitted with the signal of a name; a signal that was never registered has none.\<close>

datatype tm_effect =
    Tm_Loss "string option" nat
  | Tm_Down tm_packet
  | Tm_Up flow_control nat

record tm_module =
  tm_queue :: "tm_packet list"
  tm_queueSize :: int

definition tm_new :: "int \<Rightarrow> tm_module" where
  "tm_new queueSize = \<lparr>tm_queue = [], tm_queueSize = queueSize\<rparr>"

text \<open>\<open>initialize\<close> assigns both signals of the packet loss to \<open>rlcPacketLossDl\<close>, the one for the uplink last.\<close>

definition tm_lossSignal :: "direction \<Rightarrow> string option" where
  "tm_lossSignal dir = (if dir = DL then Some ''rlcPacketLossUl'' else None)"

section \<open>Messages from above\<close>

definition tm_handleUpperMessage :: "tm_packet \<Rightarrow> tm_module \<Rightarrow> (tm_module \<times> tm_effect list) cpp" where
  "tm_handleUpperMessage p m = (case tp_tag p of
      None \<Rightarrow> Inl (Runtime_Error ''Packet: tag is absent'')
    | Some info \<Rightarrow>
        if int (length (tm_queue m)) \<ge> tm_queueSize m \<and> tm_queueSize m \<noteq> 0
        then Inr (m, [Tm_Loss (tm_lossSignal (fl_direction info)) 1])
        else
          let q = p\<lparr>tp_headers := Tm_Pdu # Tm_Sdu # tp_headers p\<rparr>
          in Inr (m\<lparr>tm_queue := tm_queue m @ [q]\<rparr>,
            [Tm_Loss (tm_lossSignal (fl_direction info)) 0, Tm_Down (q\<lparr>tp_headers := Tm_New_Data # tp_headers q\<rparr>)]))"

section \<open>Messages from the MAC layer\<close>

definition tm_handleLowerMessage :: "tm_lower \<Rightarrow> tm_module \<Rightarrow> (tm_module \<times> tm_effect list) cpp" where
  "tm_handleLowerMessage msg m = (case msg of
      Tm_Request \<Rightarrow> (case tm_queue m of
          [] \<Rightarrow> Inr (m, [])
        | p # ps \<Rightarrow> Inr (m\<lparr>tm_queue := ps\<rparr>, [Tm_Down p]))
    | Tm_From_Mac None _ \<Rightarrow> Inl (Runtime_Error ''check_and_cast(): cannot cast nullptr'')
    | Tm_From_Mac (Some info) inner \<Rightarrow> (case inner of
          Some (Some content) \<Rightarrow> Inr (m, [Tm_Up info content])
        | _ \<Rightarrow> Inl (Runtime_Error ''check_and_cast(): cannot cast nullptr'')))"

datatype tm_event = Tm_Upper tm_packet | Tm_Lower tm_lower

definition tm_handleMessage :: "tm_event \<Rightarrow> tm_module \<Rightarrow> (tm_module \<times> tm_effect list) cpp" where
  "tm_handleMessage ev m = (case ev of
      Tm_Upper p \<Rightarrow> tm_handleUpperMessage p m
    | Tm_Lower msg \<Rightarrow> tm_handleLowerMessage msg m)"

fun tm_run :: "tm_event list \<Rightarrow> tm_module \<Rightarrow> (tm_module \<times> tm_effect list) cpp" where
  "tm_run [] m = Inr (m, [])"
| "tm_run (ev # evs) m = cpp_bind (tm_handleMessage ev m) (\<lambda>(m1, e1). cpp_bind (tm_run evs m1) (\<lambda>(m2, e2). Inr (m2, e1 @ e2)))"

section \<open>The queue\<close>

text \<open>The packets announced to the MAC layer and those sent to it.\<close>

fun tm_announced :: "tm_effect list \<Rightarrow> tm_packet list" where
  "tm_announced [] = []"
| "tm_announced (Tm_Down p # es) = (case tp_headers p of
      Tm_New_Data # hs \<Rightarrow> p\<lparr>tp_headers := hs\<rparr> # tm_announced es
    | _ \<Rightarrow> tm_announced es)"
| "tm_announced (_ # es) = tm_announced es"

fun tm_sent :: "tm_effect list \<Rightarrow> tm_packet list" where
  "tm_sent [] = []"
| "tm_sent (Tm_Down p # es) = (case tp_headers p of
      Tm_New_Data # hs \<Rightarrow> tm_sent es
    | _ \<Rightarrow> p # tm_sent es)"
| "tm_sent (_ # es) = tm_sent es"

lemma tm_packets_append [simp]:
  "tm_announced (xs @ ys) = tm_announced xs @ tm_announced ys" "tm_sent (xs @ ys) = tm_sent xs @ tm_sent ys"
  by (induction xs rule: tm_announced.induct) (auto split: list.split tm_header.split)

definition tm_ok :: "tm_module \<Rightarrow> bool" where
  "tm_ok m = (list_all (\<lambda>p. hd (tp_headers p) = Tm_Pdu \<and> tp_headers p \<noteq> []) (tm_queue m)
     \<and> (0 < tm_queueSize m \<longrightarrow> int (length (tm_queue m)) \<le> tm_queueSize m))"

lemma tm_new_ok: "tm_ok (tm_new n)"
  by (simp add: tm_ok_def tm_new_def)

lemma tm_handleMessage_fifo:
  assumes "tm_handleMessage ev m = Inr (m', es)" "tm_ok m"
  shows "tm_ok m' \<and> tm_queueSize m' = tm_queueSize m \<and> tm_queue m @ tm_announced es = tm_sent es @ tm_queue m'"
proof (cases ev)
  case (Tm_Upper p)
  then show ?thesis using assms
    by (auto simp: tm_handleMessage_def tm_handleUpperMessage_def tm_ok_def Let_def split: option.splits if_splits)
next
  case (Tm_Lower msg)
  then show ?thesis using assms
    by (auto simp: tm_handleMessage_def tm_handleLowerMessage_def tm_ok_def neq_Nil_conv split: tm_lower.splits list.splits option.splits)
qed

text \<open>The MAC layer gets the packets that were announced to it, in this order, and the queue keeps to its size.\<close>

theorem tm_run_fifo:
  assumes "tm_run evs m = Inr (m', es)" "tm_ok m"
  shows "tm_ok m' \<and> tm_queue m @ tm_announced es = tm_sent es @ tm_queue m'"
  using assms
proof (induction evs arbitrary: m es)
  case (Cons ev evs)
  then obtain m1 e1 e2 where s: "tm_handleMessage ev m = Inr (m1, e1)" "tm_run evs m1 = Inr (m', e2)" "es = e1 @ e2"
    by (auto simp: cpp_bind_Inr_iff)
  note a = tm_handleMessage_fifo[OF s(1) Cons.prems(2)]
  with Cons.IH[OF s(2)] have "tm_ok m' \<and> tm_queue m1 @ tm_announced e2 = tm_sent e2 @ tm_queue m'" by blast
  with a show ?case unfolding s(3) by (simp add: tm_packets_append) (metis append.assoc)
qed simp

section \<open>The multiplexer\<close>

datatype mx_gate = Tm_Gate | Um_Gate | Am_Gate | Mac_Gate

definition mx_mac2rlc :: "flow_control option \<Rightarrow> mx_gate cpp" where
  "mx_mac2rlc tag = (case tag of
      None \<Rightarrow> Inl (Runtime_Error ''Packet: tag is absent'')
    | Some info \<Rightarrow> (case fc_rlcType info of
          TM \<Rightarrow> Inr Tm_Gate
        | UM \<Rightarrow> Inr Um_Gate
        | AM \<Rightarrow> Inr Am_Gate
        | UNKNOWN_RLC_TYPE \<Rightarrow> Inl (Runtime_Error ''LteRlcMux: wrong traffic type'')))"

definition mx_handleMessage :: "mx_gate \<Rightarrow> flow_control option \<Rightarrow> mx_gate cpp" where
  "mx_handleMessage incoming tag = (if incoming = Mac_Gate then mx_mac2rlc tag else Inr Mac_Gate)"

end
