(* ===== verification/Spec2Isabelle.thy ===== *)
theory Spec2Isabelle
  imports Harq_Properties Routing_Properties Bus_Properties Wlan_Properties Ap_Properties Rlc_Properties Pdcp_Properties Rlc_Am_Properties Rlc_Am_Layer Rlc_Tm
begin

text \<open>
  A verification library for OmnetMultiTechnology, a simulation of buses that report over Wi-Fi
  or over a cellular network. The repository holds the scenario itself
  (\<open>BusCosenzaProject\<close>), the INET framework with changes made for the scenario
  (\<open>inet4.4\<close>: interfaces, routing, 802.11), the cellular user plane (\<open>simu5G\<close>) and the coupling to
  the traffic simulator (\<open>veins\<close>). All of it is C++ run by the OMNeT++ kernel: modules with a state, whose
  handlers are called by messages and signals.

  How the modelled parts work together. A bus node has an interface table with a Wi-Fi and a
  cellular interface, an IPv4 routing table that listens to the interfaces, an 802.11 station agent
  and the bus application. The agent scans, authenticates and associates, and signals gain and loss
  of the association. The application hears these signals and once a second sets the state of the
  cellular interface and replaces the default route; the interface signals its changes, on which
  the routing table rebuilds the netmask routes and drops the routes of an interface that went
  down. A packet that is routed to the cellular interface enters the cellular stack through IP2Nic, which marks it for LTE or NR and, at
  a base station, holds or forwards it while its UE changes the cell; PDCP compresses its header and gives its connection a logical channel, RLC
  cuts it into PDUs, and the H-ARQ entities of the MAC layer send, repeat and acknowledge MAC PDUs. At the other end the PDUs take
  the same way up. The Binder is the registry in which all nodes of the cellular network find each other.

  The theories, in the order of their imports.

  \<^item> \<open>Simu_Prelude\<close>: exceptions as values (\<open>cpp_error\<close>, \<open>'a cpp\<close>, \<open>cpp_bind\<close>), loops whose
    body may throw (\<open>cpp_fold\<close>), the two ways of reading a C++ vector, generic list lemmas.
  \<^item> \<open>Harq_Packet\<close>, \<open>Harq_Unit_Tx\<close>, \<open>Harq_Process_Tx\<close>, \<open>Harq_Buffer_Tx\<close>, \<open>Harq_Process_Rx\<close>,
    \<open>Harq_Buffer_Rx\<close>: the H-ARQ entities of \<open>simu5G/src/stack/mac/buffer/harq\<close>, one theory per
    class, prefixes \<open>hu_\<close>, \<open>hp_\<close>, \<open>hb_\<close>, \<open>hr_\<close>, \<open>hbr_\<close>. The lemmas give every operation's
    result on each branch, the counters' invariant and the effect of the sweeps of a TTI. \<open>Harq_Link\<close> runs
    a transmission unit against a reception process; \<open>Harq_Properties\<close> holds claims C1 to C3 and C6 to C8.
  \<^item> \<open>Ipv4_Address\<close>, \<open>Mac_Address\<close>, \<open>Network_Interface\<close> (\<open>NetworkInterface.cc\<close>, prefix \<open>ni_\<close>),
    \<open>Interface_Table\<close> (\<open>InterfaceTable.cc\<close>, prefix \<open>it_\<close>).
  \<^item> \<open>Sorted_Vector\<close>: vectors kept sorted by \<open>upper_bound\<close>, as a locale over a strict weak order;
    \<open>Ipv4_Routing\<close> (\<open>Ipv4RoutingTable.cc\<close>, prefix \<open>rt_\<close>) interprets it on the order of its routes and shows
    that every orderly call keeps the table well formed (\<open>rt_orderly\<close> names the three calls that can break it); \<open>Routing_Properties\<close>
    holds C11 to C13.
  \<^item> \<open>Agent_Sta\<close> (\<open>Ieee80211AgentSta.cc\<close>, prefix \<open>ag_\<close>), \<open>Bus_App\<close>
    (\<open>AppBusDataCollection.cc\<close>, prefix \<open>bus_\<close>, and the node around it, prefix \<open>node_\<close>);
    \<open>Bus_Properties\<close> holds C17 to C19 and C22.
  \<^item> \<open>Mgmt_Sta\<close> (\<open>Ieee80211MgmtSta.cc\<close>, prefix \<open>ms_\<close>) and \<open>Mgmt_Ap\<close> (\<open>Ieee80211MgmtAp.cc\<close>, prefix \<open>ma_\<close>):
    the management entities of 802.11, with \<open>processFrame\<close> of their base class. \<open>Wlan_Station\<close> composes the station
    entity with the agent and the bus application (prefix \<open>st_\<close>, a step relation with a message queue),
    \<open>Wlan_Invariant\<close> proves its invariant; \<open>Wlan_Properties\<close> holds C21 and C25 to C27, \<open>Ap_Properties\<close> C28 to C30.
  \<^item> \<open>Rlc_Um_Packet\<close>, \<open>Rlc_Um_Tx\<close> (\<open>UmTxEntity.cc\<close>, prefix \<open>ut_\<close>), \<open>Rlc_Um_Rx\<close> (\<open>UmRxEntity.cc\<close>, prefix \<open>ur_\<close>):
    the entities of RLC in unacknowledged mode. \<open>Rlc_Um_Stream\<close> is the reference for both, a sequence of PDUs as
    a cutting of a sequence of SDUs; \<open>Rlc_Um_Reassembly\<close>, \<open>Rlc_Um_Window\<close> and \<open>Rlc_Um_Receive\<close> show that the receiver
    keeps its invariant against it, \<open>Rlc_Um_Link\<close> runs the two over a channel. \<open>Rlc_Um_Layer\<close> (\<open>LteRlcUm.cc\<close>, \<open>LteRlcUmD2D.cc\<close>, prefix \<open>ly_\<close>) is the module, of either class, that keeps an entity
    for every connection; connections do not meet, except after one kind of mode switch (\<open>ly_couples\<close>); \<open>Rlc_Properties\<close> holds C31 to C36.
  \<^item> \<open>Probing\<close> is the walk through a table with wrap-around, as a partial function; \<open>Hash_Table\<close> is a table walked in this way,
    as a locale over its entries, refined to a map. \<open>Pdcp_Tables\<close> (\<open>ConnectionsTable.cc\<close>, prefix \<open>ct_\<close>) and \<open>Split_Bearers\<close>
    (\<open>SplitBearersTable.cc\<close>, prefix \<open>sb_\<close>) interpret it three times.
  \<^item> \<open>Node_Registry\<close> (\<open>Binder.cc\<close>, prefix \<open>bi_\<close>); \<open>Pdcp_Packet\<close>, packets as chunks with a length; \<open>Ip2_Nic\<close> (\<open>IP2Nic.cc\<close>, prefix \<open>nic_\<close>);
    \<open>Handover\<close> (\<open>LteHandoverManager.cc\<close>, prefix \<open>hm_\<close>, the way that \<open>LteX2Manager.cc\<close> chooses for a message, and a network of base stations, prefix \<open>hn_\<close>). Commands
    and data take different ways over X2, which lose nothing and deliver in any order.
  \<^item> \<open>Pdcp_Entity\<close> (header compression and the reordering entity \<open>NRRxPdcpEntity.cc\<close>, prefix \<open>px_\<close>) and \<open>Pdcp_Layer\<close> (the six classes of the PDCP
    module and the transmitting entities, prefixes \<open>pd_\<close>, \<open>tx_\<close>); \<open>Pdcp_Service\<close> shows what they do together, \<open>Pdcp_Properties\<close> holds
    C9, C10, C15, C16, C23 and C37 to C40.
  \<^item> RLC in acknowledged mode. \<open>Kernel_Array\<close> is the container \<open>cArray\<close> of the simulation kernel, as far as the code uses it (prefix \<open>ca_\<close>: positions that may be empty,
    a read outside gives nothing, adding at a position in use throws); \<open>Multi_Timer\<close> (\<open>TTimer.cc\<close>, prefix \<open>mt_\<close>) serves many timeouts with one event and interprets
    the interface \<open>timeouts\<close> that the entities use; \<open>Timer_Refinement\<close> relates it to a map of deadlines (prefix \<open>dm_\<close>). \<open>Rlc_Am_Packet\<close> holds the data (prefixes \<open>am_\<close>, \<open>ap_\<close>),
    \<open>Rlc_Am_Tx\<close> (\<open>AmTxQueue.cc\<close>, prefix \<open>at_\<close>) and \<open>Rlc_Am_Rx\<close> (\<open>AmRxQueue.cc\<close>, prefix \<open>ar_\<close>) the entities. \<open>Rlc_Am_Stream\<close> is the reference
    for both, the sequence of PDUs that a sequence of SDUs is cut into. \<open>Rlc_Am_Window\<close>, \<open>Rlc_Am_Sender\<close>, \<open>Rlc_Am_Sending\<close> and \<open>Rlc_Am_Transmitter\<close> show that every call keeps the transmitter's
    invariant against it, \<open>Rlc_Am_Receiver\<close> and \<open>Rlc_Am_Reception\<close> the same for the receiver, \<open>Rlc_Am_Link\<close> runs the two over a network
    (prefix \<open>al_\<close>), \<open>Rlc_Am_Runs\<close> runs each alone; \<open>Rlc_Am_Properties\<close> holds C4, C5, C14, C20 and C24. The claims are about transmission windows of at most 200 PDUs, the most that
    \<open>addPdus\<close> and \<open>fragmentFrame\<close> admit without throwing, reception windows of at least twice the size (\<open>am_stale_flags\<close> and
    \<open>am_equal_windows\<close> show what happens in smaller ones, as the defaults of \<open>LteRlc.ned\<close> are), and runs of at most ten million events, so that sequence numbers do not
    wrap around. \<open>Rlc_Am_Layer\<close> (\<open>LteRlcAm.cc\<close>, prefix \<open>ay_\<close>) is the module that keeps the entities of all connections; it shows that each of them is one that has run
    alone.
  \<^item> \<open>Rlc_Tm\<close>: RLC in transparent mode (\<open>LteRlcTm.cc\<close>, prefix \<open>tm_\<close>), a bounded queue, and the multiplexer of the modes (\<open>LteRlcMux.cc\<close>, prefix \<open>mx_\<close>).

  Conventions. A class is a record, its methods are functions from the record to the new record,
  paired with what the method sends or signals, in order. An exception ends the simulation run, so an error carries
  no state. A pointer is the name of an object (an id) or an option; following a null pointer or
  reading a vector past its end with \<open>operator[]\<close> is the error \<open>Undefined_Behaviour\<close>. The model is that of a debug build: \<open>ASSERT\<close> and the usage checks on chunks throw
  (an empty chunk cannot be inserted in a packet). Counters are
  words of the width of the code's type, other integers that index vectors are naturals,
  narrowed by \<open>mod\<close> where the code narrows; times, powers and rates are rationals. Loops
  are folds over the range the code runs through, or recursive functions with a measure; the one loop that may not end (advancing the RLC window, with a
  window of size 0) runs on fuel, one more than the distance to cover, which is enough for every other size, and the walks through the hash tables, which do not end in a full one,
  are a partial function whose value is then \<open>None\<close>, or the error \<open>Endless_Loop\<close>. Logging, display strings and \<open>WATCH\<close> are not modelled, nor is the ownership of messages.
  What lies outside the repository is a parameter: the constructor \<open>SimTime(value, unit)\<close> of the kernel, the module
  tree (is the agent found, which gates are connected), the traffic simulation (vehicle and road) and the pattern matcher
  of interface names.

  Not modelled yet: the MAC of 802.11, the queues and schedulers of the cellular MAC,
  the carriers and interference data of the Binder, multicast routes; not meant to be modelled: the physical layer and
  channel models (floating point and random numbers), the MEC applications, Veins, and generated message classes.
\<close>

end
